(* ===== verification/Prelude.thy ===== *)
theory Prelude
  imports Main "HOL-Library.Char_ord" "HOL-Library.List_Lexorder" "HOL-Library.Sublist"
    "HOL-Library.AList"
begin

text \<open>
  What the components share: the string functions of Rust's standard library that the sources
  call (\<open>str\<close> is modelled as \<^typ>\<open>string\<close>, the list of its UTF-8 bytes), the error monad
  of \<open>Result\<close> as a sum with \<open>Inl\<close> for \<open>Err\<close>, and lemmas on lists used by several theories.
\<close>

named_theorems str_simps \<open>unfolding rules for the string functions of the standard library\<close>
named_theorems result_simps \<open>rules for chains of fallible calls\<close>

type_synonym ('e, 'a) result = "'e + 'a"

subsection \<open>Results\<close>

text \<open>The question-mark operator: the first error is returned at once.\<close>

definition try_bind :: "('e, 'a) result \<Rightarrow> ('a \<Rightarrow> ('e, 'b) result) \<Rightarrow> ('e, 'b) result" where
  "try_bind r f = (case r of Inl e \<Rightarrow> Inl e | Inr a \<Rightarrow> f a)"

lemma try_bind_simps [simp, result_simps]:
  "try_bind (Inl e) f = Inl e"
  "try_bind (Inr a) f = f a"
  by (simp_all add: try_bind_def)

lemma try_bind_Inr [result_simps]:
  "try_bind r f = Inr b \<longleftrightarrow> (\<exists>a. r = Inr a \<and> f a = Inr b)"
  by (cases r) auto

lemma try_bind_Inl [result_simps]:
  "try_bind r f = Inl e \<longleftrightarrow> r = Inl e \<or> (\<exists>a. r = Inr a \<and> f a = Inl e)"
  by (cases r) auto

text \<open>\<open>iter.map(f).collect::<Result<Vec<_>, _>>()\<close>: stops at the first error.\<close>

fun try_map :: "('a \<Rightarrow> ('e, 'b) result) \<Rightarrow> 'a list \<Rightarrow> ('e, 'b list) result" where
  "try_map f [] = Inr []"
| "try_map f (x # xs) = try_bind (f x) (\<lambda>y. try_bind (try_map f xs) (\<lambda>ys. Inr (y # ys)))"

lemma try_map_Inr_iff: "try_map f xs = Inr ys \<longleftrightarrow> list_all2 (\<lambda>x y. f x = Inr y) xs ys"
  by (induction xs arbitrary: ys) (auto simp: try_bind_Inr list_all2_Cons1)

lemma try_map_mem: "try_map f xs = Inr ys \<Longrightarrow> x \<in> set xs \<Longrightarrow> \<exists>y \<in> set ys. f x = Inr y"
  by (induction xs arbitrary: ys) (auto simp: try_bind_Inr)

text \<open>\<open>Iterator::find_map\<close>.\<close>

fun find_map :: "('a \<Rightarrow> 'b option) \<Rightarrow> 'a list \<Rightarrow> 'b option" where
  "find_map f [] = None"
| "find_map f (x # xs) = (case f x of Some y \<Rightarrow> Some y | None \<Rightarrow> find_map f xs)"

lemma find_map_Some: "find_map f xs = Some y \<Longrightarrow> \<exists>x \<in> set xs. f x = Some y"
  by (induction xs) (auto split: option.splits)

text \<open>A smaller partial function finds the same element when it is defined there.\<close>

lemma find_map_sub:
  assumes "find_map f xs = r" and "\<And>x y. x \<in> set xs \<Longrightarrow> g x = Some y \<Longrightarrow> f x = Some y"
    and "\<And>x y. r = Some y \<Longrightarrow> x \<in> set xs \<Longrightarrow> f x = Some y \<Longrightarrow> g x = Some y"
  shows "find_map g xs = r"
  using assms
proof (induction xs)
  case (Cons x xs)
  show ?case
  proof (cases "f x")
    case None
    then have "g x = None" using Cons.prems(2) [of x] by (cases "g x") simp_all
    moreover have "find_map g xs = r"
    proof (rule Cons.IH)
      show "find_map f xs = r" using Cons.prems(1) None by simp
      show "\<And>x y. x \<in> set xs \<Longrightarrow> g x = Some y \<Longrightarrow> f x = Some y" using Cons.prems(2) by simp
      show "\<And>x y. r = Some y \<Longrightarrow> x \<in> set xs \<Longrightarrow> f x = Some y \<Longrightarrow> g x = Some y" using Cons.prems(3) by simp
    qed
    ultimately show ?thesis by simp
  next
    case (Some y)
    then have "r = Some y" using Cons.prems(1) by simp
    then show ?thesis using Cons.prems(3) [of y x] Some by simp
  qed
qed simp

subsection \<open>Strings\<close>

text \<open>\<open>str::split_once\<close> with a one-character delimiter.\<close>

fun split_once :: "char \<Rightarrow> string \<Rightarrow> (string \<times> string) option" where
  "split_once d [] = None"
| "split_once d (c # cs) =
     (if c = d then Some ([], cs)
      else map_option (\<lambda>(a, b). (c # a, b)) (split_once d cs))"

lemma split_once_None: "split_once d s = None \<longleftrightarrow> d \<notin> set s"
  by (induction s) auto

lemma split_once_absent [simp]: "d \<notin> set s \<Longrightarrow> split_once d s = None"
  by (simp add: split_once_None)

lemma split_once_Some:
  "split_once d s = Some (a, b) \<longleftrightarrow> s = a @ d # b \<and> d \<notin> set a"
proof (induction s arbitrary: a)
  case Nil
  then show ?case by simp
next
  case (Cons c s)
  then show ?case by (cases a) auto
qed

lemma split_once_append [simp]: "d \<notin> set a \<Longrightarrow> split_once d (a @ d # b) = Some (a, b)"
  by (simp add: split_once_Some)

lemma delim_split_unique:
  fixes a :: string
  assumes "a @ d # b = a' @ d # b'" and "d \<notin> set a" and "d \<notin> set a'"
  shows "a = a'" and "b = b'"
proof -
  have "split_once d (a @ d # b) = Some (a', b')"
    using assms by (simp add: split_once_Some)
  with assms(2) show "a = a'" and "b = b'" by simp_all
qed

text \<open>\<open>str::strip_prefix\<close> and \<open>str::strip_suffix\<close> with a string.\<close>

fun strip_prefix :: "string \<Rightarrow> string \<Rightarrow> string option" where
  "strip_prefix [] s = Some s"
| "strip_prefix (p # ps) [] = None"
| "strip_prefix (p # ps) (c # cs) = (if p = c then strip_prefix ps cs else None)"

lemma strip_prefix_Some [str_simps]: "strip_prefix p s = Some r \<longleftrightarrow> s = p @ r"
  by (induction p s rule: strip_prefix.induct) auto

lemma strip_prefix_None [str_simps]: "strip_prefix p s = None \<longleftrightarrow> \<not> prefix p s"
  by (induction p s rule: strip_prefix.induct) auto

lemma strip_prefix_append [simp]: "strip_prefix p (p @ r) = Some r"
  by (simp add: strip_prefix_Some)

definition strip_suffix :: "string \<Rightarrow> string \<Rightarrow> string option" where
  "strip_suffix p s = map_option rev (strip_prefix (rev p) (rev s))"

lemma strip_suffix_Some [str_simps]: "strip_suffix p s = Some r \<longleftrightarrow> s = r @ p"
proof -
  have "strip_suffix p s = Some r \<longleftrightarrow> (\<exists>t. rev s = rev p @ t \<and> r = rev t)"
    by (auto simp: strip_suffix_def strip_prefix_Some)
  also have "\<dots> \<longleftrightarrow> s = r @ p"
    by (metis rev_append rev_rev_ident)
  finally show ?thesis .
qed

lemma strip_suffix_None [str_simps]: "strip_suffix p s = None \<longleftrightarrow> \<not> suffix p s"
  by (auto simp: strip_suffix_def strip_prefix_None suffix_to_prefix)

text \<open>\<open>str::rsplit_once\<close> with a string: the last occurrence.\<close>

fun rsplit_once_str :: "string \<Rightarrow> string \<Rightarrow> (string \<times> string) option" where
  "rsplit_once_str d [] = (if d = [] then Some ([], []) else None)"
| "rsplit_once_str d (c # cs) =
     (case rsplit_once_str d cs of
        Some (a, b) \<Rightarrow> Some (c # a, b)
      | None \<Rightarrow> map_option (\<lambda>r. ([], r)) (strip_prefix d (c # cs)))"

lemma rsplit_once_str_Some: "rsplit_once_str d s = Some (a, b) \<Longrightarrow> s = a @ d @ b"
  by (induction s arbitrary: a) (auto simp: strip_prefix_Some split: option.splits if_splits)

abbreviation starts_with :: "string \<Rightarrow> string \<Rightarrow> bool" where
  "starts_with s p \<equiv> prefix p s"

abbreviation ends_with :: "string \<Rightarrow> string \<Rightarrow> bool" where
  "ends_with s p \<equiv> suffix p s"

text \<open>\<open>str::contains\<close> with a string.\<close>

abbreviation str_contains :: "string \<Rightarrow> string \<Rightarrow> bool" where
  "str_contains s p \<equiv> sublist p s"

text \<open>\<open>[_]::join\<close> with a separator.\<close>

text \<open>The bytes of a character in UTF-8 but the first.\<close>

definition continuation_byte :: "char \<Rightarrow> bool" where
  "continuation_byte c \<longleftrightarrow> 0x80 \<le> (of_char c :: nat) \<and> (of_char c :: nat) < 0xC0"

fun join_with :: "string \<Rightarrow> string list \<Rightarrow> string" where
  "join_with sep [] = []"
| "join_with sep [x] = x"
| "join_with sep (x # y # xs) = x @ sep @ join_with sep (y # xs)"

text \<open>\<open>str::split\<close> with a one-character delimiter: never empty.\<close>

fun split_on :: "char \<Rightarrow> string \<Rightarrow> string list" where
  "split_on d [] = [[]]"
| "split_on d (c # cs) =
     (if c = d then [] # split_on d cs
      else (case split_on d cs of [] \<Rightarrow> [[c]] | p # ps \<Rightarrow> (c # p) # ps))"

lemma split_on_not_Nil [simp]: "split_on d s \<noteq> []"
  by (induction s) (auto split: list.splits)

lemma split_on_no_delim: "p \<in> set (split_on d s) \<Longrightarrow> d \<notin> set p"
proof (induction s arbitrary: p)
  case Nil
  then show ?case by simp
next
  case (Cons c s)
  then show ?case
    by (cases "split_on d s") (auto split: if_splits)
qed

lemma join_split_on: "join_with [d] (split_on d s) = s"
proof (induction s)
  case Nil
  then show ?case by simp
next
  case (Cons c s)
  obtain p ps where sp: "split_on d s = p # ps"
    by (cases "split_on d s") auto
  with Cons show ?case by (cases ps) auto
qed

lemma split_on_no_occ: "d \<notin> set a \<Longrightarrow> split_on d a = [a]"
  by (induction a) auto

lemma split_on_append: "d \<notin> set a \<Longrightarrow> split_on d (a @ d # b) = a # split_on d b"
  by (induction a) auto

lemma split_on_join:
  assumes "xs \<noteq> []" and "\<forall>x \<in> set xs. d \<notin> set x"
  shows "split_on d (join_with [d] xs) = xs"
  using assms
  by (induction "[d]" xs rule: join_with.induct) (auto simp: split_on_no_occ split_on_append)

subsection \<open>Lists\<close>

lemma distinct_snoc [simp]: "distinct (xs @ [x]) \<longleftrightarrow> distinct xs \<and> x \<notin> set xs"
  by auto

lemma find_in_set: "List.find P xs = Some x \<Longrightarrow> x \<in> set xs \<and> P x"
  by (induction xs) (auto split: if_splits)

lemma in_set_iff_nth: "x \<in> set xs \<longleftrightarrow> (\<exists>i < length xs. xs ! i = x)"
  by (auto simp: in_set_conv_nth)

subsection \<open>Ordered maps\<close>

text \<open>A \<open>BTreeMap\<close> is the list of its entries in the order of their keys.\<close>

type_synonym ('k, 'v) btree_map = "('k \<times> 'v) list"

fun bt_insert :: "'k::linorder \<Rightarrow> 'v \<Rightarrow> ('k, 'v) btree_map \<Rightarrow> ('k, 'v) btree_map" where
  "bt_insert k v [] = [(k, v)]"
| "bt_insert k v ((k', v') # m) =
     (if k < k' then (k, v) # (k', v') # m
      else if k = k' then (k, v) # m
      else (k', v') # bt_insert k v m)"

definition bt_ok :: "('k::linorder, 'v) btree_map \<Rightarrow> bool" where
  "bt_ok m \<longleftrightarrow> sorted_wrt (<) (map fst m)"

lemma map_of_bt_insert [simp]: "bt_ok m \<Longrightarrow> map_of (bt_insert k v m) = (map_of m)(k \<mapsto> v)"
proof (induction k v m rule: bt_insert.induct)
  case (2 k v k' v' m)
  then show ?case by (auto simp: bt_ok_def fun_eq_iff)
qed simp

lemma fst_bt_insert [simp]: "fst ` set (bt_insert k v m) = insert k (fst ` set m)"
  by (induction k v m rule: bt_insert.induct) auto

lemma bt_ok_Cons: "bt_ok ((k, v) # m) \<longleftrightarrow> (\<forall>x \<in> fst ` set m. k < x) \<and> bt_ok m"
  by (simp add: bt_ok_def)

lemma bt_ok_insert [intro]: "bt_ok m \<Longrightarrow> bt_ok (bt_insert k v m)"
proof (induction k v m rule: bt_insert.induct)
  case (1 k v)
  show ?case by (simp add: bt_ok_def)
next
  case (2 k v k' v' m)
  then have m: "\<forall>x \<in> fst ` set m. k' < x" "bt_ok m" by (simp_all add: bt_ok_Cons)
  consider "k < k'" | "k = k'" | "k' < k" by (rule linorder_cases)
  then show ?case
  proof cases
    case 3
    have "\<forall>x \<in> fst ` set (bt_insert k v m). k' < x"
      unfolding fst_bt_insert using m(1) 3 by simp
    moreover have "bt_ok (bt_insert k v m)" using "2.IH" m(2) 3 by auto
    moreover have "bt_insert k v ((k', v') # m) = (k', v') # bt_insert k v m" using 3 by auto
    ultimately show ?thesis by (simp only: bt_ok_Cons)
  qed (use m in \<open>force simp: bt_ok_Cons intro: less_trans\<close>)+
qed

lemma bt_ok_filter [intro]: "bt_ok m \<Longrightarrow> bt_ok (filter P m)"
  by (induction m) (auto simp: bt_ok_def)

lemma bt_ok_distinct: "bt_ok m \<Longrightarrow> distinct (map fst m)"
  by (simp add: bt_ok_def strict_sorted_iff)

subsection \<open>Hash maps\<close>

text \<open>
  A \<open>HashMap\<close> that the code iterates over is an association list; its order stands for the
  unspecified iteration order. \<open>insert\<close> replaces the value of a key that is present.
\<close>

type_synonym ('k, 'v) hash_map = "('k \<times> 'v) list"

abbreviation hm_get :: "('k, 'v) hash_map \<Rightarrow> 'k \<Rightarrow> 'v option" where
  "hm_get m k \<equiv> map_of m k"

abbreviation hm_insert :: "'k \<Rightarrow> 'v \<Rightarrow> ('k, 'v) hash_map \<Rightarrow> ('k, 'v) hash_map" where
  "hm_insert k v m \<equiv> AList.update k v m"

lemma hm_get_insert [simp]: "hm_get (hm_insert k v m) k' = (if k' = k then Some v else hm_get m k')"
  by (simp add: update_conv')

lemma hm_keys_insert [simp]: "fst ` set (hm_insert k v m) = insert k (fst ` set m)"
  by (induction m) auto

text \<open>\<open>collect::<HashMap<_, _>>()\<close> of a list of pairs: a later one replaces an earlier one.\<close>

definition hm_collect :: "('k \<times> 'v) list \<Rightarrow> ('k, 'v) hash_map" where
  "hm_collect xs = fold (\<lambda>(k, v) m. hm_insert k v m) xs []"

lemma hm_insert_subset: "set (hm_insert k v m) \<subseteq> insert (k, v) (set m)"
  by (induction m) auto

lemma hm_collect_subset: "set (hm_collect xs) \<subseteq> set xs"
proof -
  have "set (fold (\<lambda>(k, v) m. hm_insert k v m) xs m) \<subseteq> set xs \<union> set m" for m :: "('a, 'b) hash_map"
  proof (induction xs arbitrary: m)
    case (Cons x xs)
    obtain k v where "x = (k, v)" by (cases x)
    with Cons [of "hm_insert k v m"] hm_insert_subset [of k v m] show ?case by auto
  qed simp
  from this [of "[]"] show ?thesis by (simp add: hm_collect_def)
qed

lemma hm_collect_keys: "fst ` set (hm_collect xs) = fst ` set xs"
proof -
  have "fst ` set (fold (\<lambda>(k, v) m. hm_insert k v m) xs m) = fst ` set xs \<union> fst ` set m" for m :: "('a, 'b) hash_map"
  proof (induction xs arbitrary: m)
    case (Cons x xs)
    obtain k v where x: "x = (k, v)" by (cases x)
    show ?case by (simp only: x fold_simps o_apply prod.case Cons.IH hm_keys_insert list.set image_insert fst_conv) blast
  qed simp
  from this [of "[]"] show ?thesis by (simp add: hm_collect_def)
qed

lemma map_of_zip_upt:
  assumes "distinct xs"
  shows "map_of (zip xs [0..<length xs]) x = Some i \<longleftrightarrow> i < length xs \<and> xs ! i = x"
proof -
  have "map_of (zip xs [0..<length xs]) x = Some i \<longleftrightarrow> (x, i) \<in> set (zip xs [0..<length xs])"
    using assms by (intro map_of_eq_Some_iff) simp
  then show ?thesis by (auto simp: set_zip)
qed

end
