(* ===== verification/Paths.thy ===== *)
theory Paths
  imports Prelude
begin

text \<open>
  \<open>nrzrepo-paths\<close> on unix: paths as strings, their components as the standard library
  (through \<open>camino\<close>) reads them, and the lexical operations of \<open>lib.rs\<close>,
  \<open>absolute_system_path.rs\<close>, \<open>anchored_system_path.rs\<close>, \<open>anchored_system_path_buf.rs\<close>,
  \<open>relative_unix_path.rs\<close> and \<open>relative_unix_path_buf.rs\<close>. Operations that touch the file
  system are not modelled. \<open>path_clean::clean\<close> is a parameter.
\<close>

abbreviation SLASH :: char where
  "SLASH \<equiv> CHR ''/''"

datatype path_error =
    MalformedPath string
  | NotAbsolute string
  | NotRelative string
  | NotParent string string
  | PrefixError string string

datatype path_component = RootDir | CurDir | ParentDir | Normal string

subsection \<open>Components\<close>

definition component_of :: "string \<Rightarrow> path_component" where
  "component_of seg = (if seg = ''..'' then ParentDir else Normal seg)"

text \<open>Empty segments and single dots are dropped, but for a dot at the start of a relative path.\<close>

definition path_components :: "string \<Rightarrow> path_component list" where
  "path_components s =
     (let segs = split_on SLASH s;
          inner = (\<lambda>xs. map component_of (filter (\<lambda>x. x \<noteq> [] \<and> x \<noteq> ''.'') xs))
      in if starts_with s ''/'' then RootDir # inner segs
         else if hd segs = ''.'' then CurDir # inner (tl segs)
         else inner segs)"

definition component_str :: "path_component \<Rightarrow> string" where
  "component_str c = (case c of RootDir \<Rightarrow> ''/'' | CurDir \<Rightarrow> ''.'' | ParentDir \<Rightarrow> ''..'' | Normal s \<Rightarrow> s)"

text \<open>\<open>collect::<Utf8PathBuf>()\<close>.\<close>

definition path_of_components :: "path_component list \<Rightarrow> string" where
  "path_of_components cs =
     (case cs of
        RootDir # rest \<Rightarrow> ''/'' @ join_with ''/'' (map component_str rest)
      | _ \<Rightarrow> join_with ''/'' (map component_str cs))"

definition path_is_absolute :: "string \<Rightarrow> bool" where
  "path_is_absolute s = starts_with s ''/''"

text \<open>\<open>Utf8Path::join\<close>: an absolute argument replaces the path.\<close>

definition path_join :: "string \<Rightarrow> string \<Rightarrow> string" where
  "path_join a b =
     (if path_is_absolute b then b
      else if a = [] \<or> last a = SLASH then a @ b
      else a @ ''/'' @ b)"

text \<open>\<open>Utf8Path::parent\<close>, up to the equality of paths, which is that of their components.\<close>

definition path_parent :: "string \<Rightarrow> string option" where
  "path_parent s =
     (let cs = path_components s
      in if cs = [] \<or> cs = [RootDir] then None else Some (path_of_components (butlast cs)))"

subsection \<open>Validation\<close>

record path_validation =
  pv_well_formed :: bool
  pv_windows_safe :: bool

definition check_path :: "string \<Rightarrow> path_validation" where
  "check_path name =
     (if name = [] then \<lparr>pv_well_formed = False, pv_windows_safe = False\<rparr>
      else
        \<lparr>pv_well_formed =
           \<not> (name = ''.'' \<or> name = ''..'') \<and>
           \<not> (starts_with name ''/'' \<or> starts_with name ''./'' \<or> starts_with name ''../'') \<and>
           \<not> (ends_with name ''/.'' \<or> ends_with name ''/..'') \<and>
           \<not> (str_contains name ''//'' \<or> str_contains name ''/./'' \<or> str_contains name ''/../''),
         pv_windows_safe = (CHR 92 \<notin> set name)\<rparr>)"

definition from_system_path :: "string \<Rightarrow> (path_error, string) result" where
  "from_system_path path =
     (if \<not> pv_well_formed (check_path path) then Inl (MalformedPath path)
      else Inr (case strip_suffix ''/'' path of Some p \<Rightarrow> p | None \<Rightarrow> path))"

definition anchored_path_try_from :: "string \<Rightarrow> (path_error, string) result" where
  "anchored_path_try_from path = (if path_is_absolute path then Inl (NotRelative path) else Inr path)"

definition absolute_path_new :: "string \<Rightarrow> (path_error, string) result" where
  "absolute_path_new path = (if path_is_absolute path then Inr path else Inl (NotAbsolute path))"

definition relative_unix_path_new :: "string \<Rightarrow> (path_error, string) result" where
  "relative_unix_path_new path = (if starts_with path ''/'' then Inl (NotRelative path) else Inr path)"

subsection \<open>Relations between paths\<close>

datatype path_relation = Divergent | Parent | Child

fun components_relation :: "path_component list \<Rightarrow> path_component list \<Rightarrow> path_relation" where
  "components_relation [] ds = Parent"
| "components_relation (c # cs) [] = Child"
| "components_relation (c # cs) (d # ds) = (if c \<noteq> d then Divergent else components_relation cs ds)"

definition relation_to_path :: "string \<Rightarrow> string \<Rightarrow> path_relation" where
  "relation_to_path p q = components_relation (path_components p) (path_components q)"

text \<open>The loop of \<open>collapse\<close>, the stack with its top last.\<close>

fun collapse_stack :: "path_component list \<Rightarrow> path_component list \<Rightarrow> path_component list" where
  "collapse_stack stack [] = stack"
| "collapse_stack stack (c # cs) =
     (case c of
        CurDir \<Rightarrow> collapse_stack stack cs
      | ParentDir \<Rightarrow> collapse_stack (butlast stack) cs
      | _ \<Rightarrow> collapse_stack (stack @ [c]) cs)"

text \<open>\<open>None\<close> is the panic of \<open>expect\<close> when the result is not absolute.\<close>

definition collapse :: "string \<Rightarrow> string option" where
  "collapse p =
     (let q = path_of_components (collapse_stack [] (path_components p))
      in if path_is_absolute q then Some q else None)"

fun common_prefix_len :: "path_component list \<Rightarrow> path_component list \<Rightarrow> nat" where
  "common_prefix_len (a # as) (b # bs) = (if a = b then Suc (common_prefix_len as bs) else 0)"
| "common_prefix_len _ _ = 0"

definition relative_path_between :: "(string \<Rightarrow> string) \<Rightarrow> string \<Rightarrow> string \<Rightarrow> string" where
  "relative_path_between clean start end' =
     (let these = dropWhile (\<lambda>c. c = RootDir) (path_components start);
          others = dropWhile (\<lambda>c. c = RootDir) (path_components end');
          prefix_len = common_prefix_len these others;
          traverse_count = length these - prefix_len
      in clean (path_of_components (replicate traverse_count ParentDir @ drop prefix_len others)))"

definition path_contains :: "(string \<Rightarrow> string) \<Rightarrow> string \<Rightarrow> string \<Rightarrow> bool option" where
  "path_contains clean this other =
     (case (collapse this, collapse other) of
        (Some p, Some q) \<Rightarrow>
          Some (case path_components (relative_path_between clean p q) of
                  c # _ \<Rightarrow> c \<noteq> ParentDir
                | [] \<Rightarrow> True)
      | _ \<Rightarrow> None)"

text \<open>\<open>Path::strip_prefix\<close> on components: \<open>AbsoluteSystemPath::anchor\<close>.\<close>

fun strip_components :: "path_component list \<Rightarrow> path_component list \<Rightarrow> path_component list option" where
  "strip_components cs [] = Some cs"
| "strip_components [] (d # ds) = None"
| "strip_components (c # cs) (d # ds) = (if c = d then strip_components cs ds else None)"

definition anchor :: "string \<Rightarrow> string \<Rightarrow> (path_error, string) result" where
  "anchor root path =
     (case strip_components (path_components path) (path_components root) of
        Some cs \<Rightarrow> Inr (path_of_components cs)
      | None \<Rightarrow> Inl (NotParent root path))"

text \<open>\<open>resolve\<close> joins without cleaning.\<close>

definition resolve_path :: "string \<Rightarrow> string \<Rightarrow> string" where
  "resolve_path root path = path_join root path"

subsection \<open>Relative unix paths\<close>

definition make_canonical_for_tar :: "bool \<Rightarrow> string \<Rightarrow> string" where
  "make_canonical_for_tar is_dir p = (if is_dir \<and> \<not> ends_with p ''/'' then p @ ''/'' else p)"

definition unix_buf_strip_prefix :: "string \<Rightarrow> string \<Rightarrow> (path_error, string) result" where
  "unix_buf_strip_prefix self pre =
     (if pre = [] then Inr self
      else if \<not> starts_with self pre then Inl (NotParent pre self)
      else if length self = length pre then relative_unix_path_new []
      else if self ! length pre \<noteq> SLASH then Inl (PrefixError pre self)
      else relative_unix_path_new (drop (length pre + 1) self))"

definition unix_strip_prefix :: "string \<Rightarrow> string \<Rightarrow> (path_error, string) result" where
  "unix_strip_prefix self pre =
     (case strip_prefix pre self of
        None \<Rightarrow> Inl (NotParent pre self)
      | Some rest \<Rightarrow> Inr (case strip_prefix ''/'' rest of Some r \<Rightarrow> r | None \<Rightarrow> rest))"

definition unix_join_component :: "string \<Rightarrow> string \<Rightarrow> string" where
  "unix_join_component self segment = self @ ''/'' @ segment"

definition unix_join :: "string \<Rightarrow> string \<Rightarrow> string" where
  "unix_join self rest = (if self = [] then rest else self @ ''/'' @ rest)"

subsection \<open>Segments\<close>

lemma split_on_app: "split_on d (u @ d # t) = split_on d u @ split_on d t"
proof (induction u)
  case (Cons c u)
  then show ?case by (cases "split_on d u") auto
qed simp

lemma join_with_app: "ys \<noteq> [] \<Longrightarrow> join_with sep (xs @ ys) = (if xs = [] then join_with sep ys else join_with sep xs @ sep @ join_with sep ys)"
proof (induction sep xs rule: join_with.induct)
  case (2 sep x)
  then show ?case by (cases ys) auto
qed simp_all

lemma split_on_mem:
  assumes "d \<notin> set x"
  shows "x \<in> set (split_on d s) \<longleftrightarrow> s = x \<or> prefix (x @ [d]) s \<or> suffix (d # x) s \<or> sublist (d # x @ [d]) s"
proof
  assume "x \<in> set (split_on d s)"
  then obtain us ts where split: "split_on d s = us @ x # ts" by (meson split_list)
  then have s: "s = join_with [d] (us @ x # ts)" using join_split_on [of d s] by simp
  show "s = x \<or> prefix (x @ [d]) s \<or> suffix (d # x) s \<or> sublist (d # x @ [d]) s"
  proof (cases us; cases ts)
    fix u us' t ts' assume "us = u # us'" "ts = t # ts'"
    with s have "s = join_with [d] us @ (d # x @ [d]) @ join_with [d] ts"
      using join_with_app [of "x # ts" "[d]" us] by simp
    then show ?thesis by (metis sublist_appendI)
  next
    fix u us' assume "us = u # us'" "ts = []"
    with s have "s = join_with [d] us @ d # x" using join_with_app [of "x # ts" "[d]" us] by simp
    then show ?thesis by (metis suffixI)
  next
    fix t ts' assume "us = []" "ts = t # ts'"
    with s have "s = (x @ [d]) @ join_with [d] ts" by simp
    then show ?thesis by (metis prefixI)
  qed (use s in simp)
next
  have single: "x \<in> set (split_on d x)" using assms by (simp add: split_on_no_occ)
  assume "s = x \<or> prefix (x @ [d]) s \<or> suffix (d # x) s \<or> sublist (d # x @ [d]) s"
  then consider "s = x" | t where "s = x @ d # t" | u where "s = u @ d # x" | u t where "s = u @ d # x @ d # t"
    by (auto simp: prefix_def suffix_def sublist_def)
  then show "x \<in> set (split_on d s)" by cases (use single in \<open>simp_all add: split_on_app\<close>)
qed

definition strip_slash :: "string \<Rightarrow> string" where
  "strip_slash p = (case strip_suffix ''/'' p of Some q \<Rightarrow> q | None \<Rightarrow> p)"

lemma strip_slash_cases:
  obtains "p = strip_slash p @ ''/''" | "strip_slash p = p" "\<not> suffix ''/'' p"
  by (cases "strip_suffix ''/'' p") (auto simp: strip_slash_def strip_suffix_Some strip_suffix_None)

lemma sublist_snoc_iff: "sublist xs (ys @ [y]) \<longleftrightarrow> suffix xs (ys @ [y]) \<or> sublist xs ys"
  by (metis sublist_altdef sublist_code(1) sublist_rev suffix_to_prefix rev.simps(2) rev_swap sublist_Cons_right rev_rev_ident)

lemma check_path_segments:
  "pv_well_formed (check_path p) \<longleftrightarrow> set (split_on SLASH (strip_slash p)) \<inter> {[], ''.'', ''..''} = {}"
proof -
  define q where "q = strip_slash p"
  define hit where "hit x \<longleftrightarrow> q = x \<or> prefix (x @ ''/'') q \<or> suffix (''/'' @ x) q \<or> sublist (''/'' @ x @ ''/'') q" for x
  have segs: "set (split_on SLASH q) \<inter> {[], ''.'', ''..''} = {} \<longleftrightarrow> \<not> hit [] \<and> \<not> hit ''.'' \<and> \<not> hit ''..''"
    unfolding hit_def using split_on_mem [of SLASH _ q] by auto
  have "pv_well_formed (check_path p) \<longleftrightarrow> \<not> hit [] \<and> \<not> hit ''.'' \<and> \<not> hit ''..''"
  proof (cases rule: strip_slash_cases [of p])
    case 1
    then have p: "p = q @ ''/''" by (simp add: q_def)
    have pre: "prefix (x @ ''/'') p \<longleftrightarrow> q = x \<or> prefix (x @ ''/'') q" for x unfolding p by auto
    have inner: "sublist (''/'' @ x @ ''/'') p \<longleftrightarrow> suffix (''/'' @ x) q \<or> sublist (''/'' @ x @ ''/'') q" for x
      unfolding p sublist_snoc_iff by (simp add: suffix_def)
    have ne: "p \<noteq> []" "p \<noteq> ''.''" "p \<noteq> ''..''" "\<not> suffix ''/.'' p" "\<not> suffix ''/..'' p"
      unfolding p by (auto simp: suffix_def append_eq_Cons_conv)
    have "pv_well_formed (check_path p) \<longleftrightarrow>
      \<not> (prefix ([] @ ''/'') p \<or> prefix (''.'' @ ''/'') p \<or> prefix (''..'' @ ''/'') p) \<and>
      \<not> (sublist (''/'' @ [] @ ''/'') p \<or> sublist (''/'' @ ''.'' @ ''/'') p \<or> sublist (''/'' @ ''..'' @ ''/'') p)"
      using ne by (simp add: check_path_def)
    then show ?thesis unfolding pre inner hit_def by blast
  next
    case 2
    then have p: "q = p" and no: "\<not> suffix (''/'' @ []) p" by (simp_all add: q_def)
    have "pv_well_formed (check_path p) \<longleftrightarrow> p \<notin> {[], ''.'', ''..''} \<and>
      \<not> (prefix ([] @ ''/'') p \<or> prefix (''.'' @ ''/'') p \<or> prefix (''..'' @ ''/'') p) \<and>
      \<not> (suffix (''/'' @ ''.'') p \<or> suffix (''/'' @ ''..'') p) \<and>
      \<not> (sublist (''/'' @ [] @ ''/'') p \<or> sublist (''/'' @ ''.'' @ ''/'') p \<or> sublist (''/'' @ ''..'' @ ''/'') p)"
      by (auto simp: check_path_def)
    then show ?thesis using no unfolding hit_def p by blast
  qed
  then show ?thesis unfolding segs [symmetric] q_def .
qed

text \<open>a path that comes from a cache archive is accepted exactly when, a final slash aside, none of its
  segments is empty, \<open>.\<close> or \<open>..\<close>, and is then taken as it is: an accepted path cannot leave
  the directory it is anchored at.\<close>

theorem from_system_path_segments:
  "from_system_path p =
     (if set (split_on SLASH (strip_slash p)) \<inter> {[], ''.'', ''..''} = {}
      then Inr (strip_slash p) else Inl (MalformedPath p))"
  unfolding check_path_segments [symmetric] by (simp add: from_system_path_def strip_slash_def)

subsection \<open>Components and collapsing\<close>

definition good_name :: "string \<Rightarrow> bool" where
  "good_name n \<longleftrightarrow> n \<notin> {[], ''.'', ''..''} \<and> SLASH \<notin> set n"

abbreviation good_names :: "string list \<Rightarrow> bool" where
  "good_names \<equiv> list_all good_name"

lemma components_inner:
  assumes "good_names ns"
  shows "map component_of (filter (\<lambda>x. x \<noteq> [] \<and> x \<noteq> ''.'') (split_on SLASH (join_with ''/'' ns))) = map Normal ns"
proof (cases "ns = []")
  case False
  then have "split_on SLASH (join_with ''/'' ns) = ns"
    using assms by (intro split_on_join) (auto simp: list_all_iff good_name_def)
  moreover have "filter (\<lambda>x. x \<noteq> [] \<and> x \<noteq> ''.'') ns = ns" "map component_of ns = map Normal ns"
    using assms by (auto simp: list_all_iff good_name_def component_of_def filter_id_conv)
  ultimately show ?thesis by simp
qed simp

text \<open>An absolute path without dots is read back as it was written.\<close>

lemma components_absolute:
  assumes "good_names ns"
  shows "path_components (path_of_components (RootDir # map Normal ns)) = RootDir # map Normal ns"
proof -
  have "map component_str (map Normal ns) = ns" by (simp add: component_str_def o_def)
  then show ?thesis
    using components_inner [OF assms] by (simp add: path_of_components_def path_components_def Let_def)
qed

lemma split_on_names:
  assumes "x \<in> set (split_on SLASH s)" and "x \<noteq> []" and "x \<noteq> ''.''" and "x \<noteq> ''..''"
  shows "good_name x"
  using assms split_on_no_delim [OF assms(1)] by (simp add: good_name_def)

definition tame :: "path_component list \<Rightarrow> bool" where
  "tame cs \<longleftrightarrow> (\<forall>c \<in> set cs. c = CurDir \<or> c = ParentDir \<or> (\<exists>n. c = Normal n \<and> good_name n))"

lemma components_tame:
  "\<exists>cs. tame cs \<and> path_components p = (if path_is_absolute p then RootDir # cs else cs)"
proof -
  have inner: "tame (map component_of (filter (\<lambda>x. x \<noteq> [] \<and> x \<noteq> ''.'') xs))" if "set xs \<subseteq> set (split_on SLASH p)" for xs
    using that split_on_names by (auto simp: tame_def component_of_def)
  have "tame (CurDir # map component_of (filter (\<lambda>x. x \<noteq> [] \<and> x \<noteq> ''.'') (tl (split_on SLASH p))))"
    using inner [of "tl (split_on SLASH p)"] by (auto simp: tame_def dest: list.set_sel(2) [OF split_on_not_Nil])
  with inner [OF order_refl] show ?thesis
    by (auto simp: path_components_def path_is_absolute_def Let_def)
qed

text \<open>The stack of \<open>collapse\<close>: names, above the root or not.\<close>

definition plain :: "path_component list \<Rightarrow> bool" where
  "plain st \<longleftrightarrow> (\<exists>ns. good_names ns \<and> (st = RootDir # map Normal ns \<or> st = map Normal ns))"

lemma plain_butlast: "plain st \<Longrightarrow> plain (butlast st)"
proof -
  assume "plain st"
  then obtain ns where ns: "good_names ns" "st = RootDir # map Normal ns \<or> st = map Normal ns" by (auto simp: plain_def)
  have "good_names (butlast ns)" using ns(1) by (auto simp: list_all_iff dest: in_set_butlastD)
  moreover have "butlast st = [] \<or> butlast st = RootDir # map Normal (butlast ns) \<or> butlast st = map Normal (butlast ns)"
    using ns(2) by (auto simp: map_butlast)
  ultimately show ?thesis unfolding plain_def by (metis list.map(1) list.pred_inject(1))
qed

lemma plain_snoc: "plain st \<Longrightarrow> good_name n \<Longrightarrow> plain (st @ [Normal n])"
  unfolding plain_def by (elim exE conjE, rule exI [of _ "_ @ [n]"]) auto

lemma collapse_stack_plain:
  "tame cs \<Longrightarrow> plain st \<Longrightarrow> plain (collapse_stack st cs)"
proof (induction st cs rule: collapse_stack.induct)
  case (2 stack c cs)
  then show ?case using plain_butlast plain_snoc by (auto simp: tame_def split: path_component.splits)
qed simp

text \<open>A collapsed path is the root followed by names.\<close>

lemma collapse_components:
  assumes "collapse p = Some q"
  obtains ns where "good_names ns" and "path_components q = RootDir # map Normal ns"
proof -
  let ?st = "collapse_stack [] (path_components p)"
  have q: "q = path_of_components ?st" "path_is_absolute q"
    using assms by (auto simp: collapse_def Let_def split: if_splits)
  obtain cs where cs: "tame cs" "path_components p = (if path_is_absolute p then RootDir # cs else cs)"
    using components_tame by blast
  have "plain [RootDir]" "plain []" unfolding plain_def by (rule exI [of _ "[]"], simp)+
  with cs have "plain ?st" using collapse_stack_plain by (cases "path_is_absolute p") simp_all
  then obtain ns where ns: "good_names ns" "?st = RootDir # map Normal ns \<or> ?st = map Normal ns" by (auto simp: plain_def)
  have "\<not> path_is_absolute (path_of_components (map Normal ns))"
  proof (cases ns)
    case (Cons n ns')
    then have "n \<noteq> []" "SLASH \<notin> set n" using ns(1) by (auto simp: good_name_def)
    then obtain c n' where "n = c # n'" "c \<noteq> SLASH" by (cases n) auto
    with Cons show ?thesis
      by (cases ns') (auto simp: path_of_components_def component_str_def path_is_absolute_def)
  qed (simp add: path_of_components_def path_is_absolute_def)
  with q ns have "?st = RootDir # map Normal ns" by auto
  with q(1) components_absolute [OF ns(1)] ns(1) that show thesis by metis
qed

subsection \<open>Relative paths\<close>

text \<open>
  What the code relies on in \<open>path_clean::clean\<close>: a relative path whose parent segments all come
  first is left as it is, and the empty path becomes a dot.
\<close>

definition clean_spec :: "(string \<Rightarrow> string) \<Rightarrow> bool" where
  "clean_spec clean \<longleftrightarrow>
     (\<forall>n ns. good_names ns \<longrightarrow>
        path_components (clean (path_of_components (replicate n ParentDir @ map Normal ns))) =
          (if n = 0 \<and> ns = [] then [CurDir] else replicate n ParentDir @ map Normal ns))"

definition dot_if_empty :: "string \<Rightarrow> string" where
  "dot_if_empty s = (if s = [] then ''.'' else s)"

lemma split_on_hd: "hd (split_on d s) \<noteq> [] \<Longrightarrow> \<not> prefix [d] s \<and> s \<noteq> []"
  by (cases s) (auto split: if_splits)

lemma path_of_relative: "RootDir \<notin> set cs \<Longrightarrow> path_of_components cs = join_with ''/'' (map component_str cs)"
  by (auto simp: path_of_components_def split: list.splits path_component.splits)

lemma clean_spec_dot_if_empty: "clean_spec dot_if_empty"
  unfolding clean_spec_def
proof (intro allI impI)
  fix n ns assume good: "good_names ns"
  let ?segs = "replicate n ''..'' @ ns"
  have strs: "map component_str (replicate n ParentDir @ map Normal ns) = ?segs"
    by (simp add: component_str_def o_def)
  have path: "path_of_components (replicate n ParentDir @ map Normal ns) = join_with ''/'' ?segs"
  proof -
    have "RootDir \<notin> set (replicate n ParentDir @ map Normal ns)" by auto
    from path_of_relative [OF this] show ?thesis unfolding strs .
  qed
  show "path_components (dot_if_empty (path_of_components (replicate n ParentDir @ map Normal ns))) =
    (if n = 0 \<and> ns = [] then [CurDir] else replicate n ParentDir @ map Normal ns)"
  proof (cases "n = 0 \<and> ns = []")
    case True
    then show ?thesis by (simp add: path_of_components_def dot_if_empty_def path_components_def)
  next
    case False
    then have ne: "?segs \<noteq> []" by auto
    have segs: "x \<notin> {[], ''.''} \<and> SLASH \<notin> set x" if "x \<in> set ?segs" for x
    proof -
      have "x = ''..'' \<or> good_name x" using that good by (auto simp: list_all_iff)
      then show ?thesis by (elim disjE) (simp_all add: good_name_def)
    qed
    have split: "split_on SLASH (join_with ''/'' ?segs) = ?segs"
      by (rule split_on_join [OF ne]) (use segs in blast)
    have comps: "map component_of (filter (\<lambda>x. x \<noteq> [] \<and> x \<noteq> ''.'') ?segs) = replicate n ParentDir @ map Normal ns"
    proof -
      have "filter (\<lambda>x. x \<noteq> [] \<and> x \<noteq> ''.'') ?segs = ?segs" using segs unfolding filter_id_conv by blast
      moreover have "map component_of ns = map Normal ns"
        using good by (auto simp: list_all_iff good_name_def component_of_def)
      ultimately show ?thesis by (simp add: component_of_def)
    qed
    have hd: "hd ?segs \<noteq> ''.''" "hd ?segs \<noteq> []" "SLASH \<notin> set (hd ?segs)"
      using segs [OF hd_in_set [OF ne]] by blast+
    have "\<not> prefix ''/'' (join_with ''/'' ?segs) \<and> join_with ''/'' ?segs \<noteq> []"
      by (rule split_on_hd [where d = SLASH]) (simp only: split, rule hd(2))
    then show ?thesis using hd(1) split comps False by (simp add: path path_components_def dot_if_empty_def Let_def)
  qed
qed

lemma common_prefix_le: "common_prefix_len xs ys \<le> length xs"
  by (induction xs ys rule: common_prefix_len.induct) auto

lemma common_prefix_take: "take (common_prefix_len xs ys) xs = take (common_prefix_len xs ys) ys"
  by (induction xs ys rule: common_prefix_len.induct) auto

lemma common_prefix_all: "common_prefix_len xs ys = length xs \<longleftrightarrow> prefix xs ys"
  by (induction xs ys rule: common_prefix_len.induct) auto

lemma relative_components:
  assumes clean: "clean_spec clean" and good: "good_names as" "good_names bs"
    and "path_components p = RootDir # map Normal as" and "path_components q = RootDir # map Normal bs"
  defines "k \<equiv> common_prefix_len (map Normal as) (map Normal bs)"
  shows "path_components (relative_path_between clean p q) =
    (if length as = k \<and> length bs = k then [CurDir]
     else replicate (length as - k) ParentDir @ map Normal (drop k bs))"
proof -
  have drop: "dropWhile (\<lambda>c. c = RootDir) (map Normal xs) = map Normal xs" for xs :: "string list"
    by (cases xs) auto
  have le: "k \<le> length as" "k \<le> length bs"
    using common_prefix_le [of "map Normal as"] common_prefix_take [of "map Normal as" "map Normal bs"]
    unfolding k_def by (simp, metis common_prefix_le length_map length_take min.absorb_iff2 min.cobounded1)
  have "relative_path_between clean p q =
    clean (path_of_components (replicate (length as - k) ParentDir @ map Normal (drop k bs)))"
    using assms(4,5) by (simp add: relative_path_between_def Let_def drop k_def drop_map)
  moreover have "good_names (drop k bs)" using good(2) by (auto simp: list_all_iff dest: in_set_dropD)
  ultimately show ?thesis using clean le by (auto simp: clean_spec_def)
qed

lemma collapse_stack_up: "n \<le> length st \<Longrightarrow> collapse_stack st (replicate n ParentDir @ cs) = collapse_stack (take (length st - n) st) cs"
proof (induction n arbitrary: st)
  case (Suc n)
  then have "n \<le> length (butlast st)" by simp
  from Suc.IH [OF this] Suc.prems show ?case by (simp add: butlast_conv_take)
qed simp

lemma collapse_stack_down: "collapse_stack st (map Normal ns) = st @ map Normal ns"
  by (induction ns arbitrary: st) auto

text \<open>the relative path between two collapsed paths leads from the one to the other: following it from the
  first, component by component, ends at the second.\<close>

theorem relative_path_resolves:
  assumes "clean_spec clean" and "collapse p = Some p'" and "collapse q = Some q'"
  shows "collapse_stack (path_components p') (path_components (relative_path_between clean p' q')) = path_components q'"
proof -
  obtain as where as: "good_names as" "path_components p' = RootDir # map Normal as" using collapse_components [OF assms(2)] .
  obtain bs where bs: "good_names bs" "path_components q' = RootDir # map Normal bs" using collapse_components [OF assms(3)] .
  define k where "k = common_prefix_len (map Normal as) (map Normal bs)"
  have le: "k \<le> length as" using common_prefix_le [of "map Normal as"] by (simp add: k_def)
  have take: "map Normal (take k as) = map Normal (take k bs)"
    using common_prefix_take [of "map Normal as" "map Normal bs"] by (simp add: k_def take_map)
  note rel = relative_components [OF assms(1) as(1) bs(1) as(2) bs(2), folded k_def]
  show ?thesis
  proof (cases "length as = k \<and> length bs = k")
    case True
    then show ?thesis using rel take as(2) bs(2) by simp
  next
    case False
    have "collapse_stack (RootDir # map Normal as) (replicate (length as - k) ParentDir @ map Normal (drop k bs)) =
      (RootDir # map Normal (take k as)) @ map Normal (drop k bs)"
      using le by (subst collapse_stack_up) (simp_all add: collapse_stack_down Suc_diff_le take_map)
    also have "\<dots> = RootDir # map Normal bs"
      using take by (simp add: map_append [symmetric] del: map_append)
    finally show ?thesis using rel False as(2) bs(2) by simp
  qed
qed

text \<open>a path contains another exactly when, both collapsed, its components begin the other's.\<close>

theorem path_contains_prefix:
  assumes "clean_spec clean" and "collapse p = Some p'" and "collapse q = Some q'"
  shows "path_contains clean p q = Some (prefix (path_components p') (path_components q'))"
proof -
  obtain as where as: "good_names as" "path_components p' = RootDir # map Normal as" using collapse_components [OF assms(2)] .
  obtain bs where bs: "good_names bs" "path_components q' = RootDir # map Normal bs" using collapse_components [OF assms(3)] .
  define k where "k = common_prefix_len (map Normal as) (map Normal bs)"
  have le: "k \<le> length as" using common_prefix_le [of "map Normal as"] by (simp add: k_def)
  have all: "k = length as \<longleftrightarrow> prefix (map Normal as) (map Normal bs)"
    using common_prefix_all [of "map Normal as" "map Normal bs"] by (simp add: k_def)
  note rel = relative_components [OF assms(1) as(1) bs(1) as(2) bs(2), folded k_def]
  have "(case path_components (relative_path_between clean p' q') of c # _ \<Rightarrow> c \<noteq> ParentDir | [] \<Rightarrow> True) \<longleftrightarrow> k = length as"
    using le unfolding rel by (cases "length as - k"; cases "drop k bs") auto
  then show ?thesis using all as(2) bs(2) assms(2,3) by (simp add: path_contains_def)
qed

lemma sample_collapse:
  "collapse ''/a/x/../b'' = Some ''/a/b''" "collapse ''/a/./c'' = Some ''/a/c''"
  by code_simp+

theorem relative_path_resolves_witness:
  "relative_path_between dot_if_empty ''/a/b'' ''/a/c'' = ''../c'' \<and>
   collapse_stack (path_components ''/a/b'') (path_components (relative_path_between dot_if_empty ''/a/b'' ''/a/c'')) =
     path_components ''/a/c''"
proof
  show "relative_path_between dot_if_empty ''/a/b'' ''/a/c'' = ''../c''" by code_simp
  show "collapse_stack (path_components ''/a/b'') (path_components (relative_path_between dot_if_empty ''/a/b'' ''/a/c'')) =
     path_components ''/a/c''"
    by (rule relative_path_resolves [OF clean_spec_dot_if_empty sample_collapse])
qed

theorem path_contains_prefix_witness:
  "path_contains dot_if_empty ''/a/x/../b'' ''/a/./c'' = Some (prefix (path_components ''/a/b'') (path_components ''/a/c'')) \<and>
   path_components ''/a/b'' = [RootDir, Normal ''a'', Normal ''b'']"
  by (intro conjI path_contains_prefix [OF clean_spec_dot_if_empty sample_collapse]) code_simp

text \<open>Where \<open>collapse\<close> panics: more parents than names above the root.\<close>

lemma collapse_above_root: "collapse ''/../a'' = None"
  by code_simp

lemma components_relation_prefix:
  "components_relation cs ds = (if prefix cs ds then Parent else if prefix ds cs then Child else Divergent)"
  by (induction cs ds rule: components_relation.induct) auto

lemma strip_components_Some: "strip_components cs ds = Some rest \<longleftrightarrow> cs = ds @ rest"
  by (induction cs ds rule: strip_components.induct) auto

lemma unix_buf_strip_prefix_join:
  assumes "pre \<noteq> []" and "\<not> starts_with rest ''/''"
  shows "unix_buf_strip_prefix (unix_join pre rest) pre = Inr rest"
  using assms by (auto simp: unix_buf_strip_prefix_def unix_join_def relative_unix_path_new_def nth_append)

end
