(* ===== verification/File_System.thy ===== *)
theory File_System
  imports Paths "HOL-Library.Word"
begin

unbundle bit_operations_syntax

text \<open>
  The part of \<open>std::fs\<close> (and of the system calls below it, on Linux) that the cache uses. A file system
  is a tree of nodes, given by the location of each node: the list of names that leads to it from the
  root. A path is resolved component by component, symbolic links included, at most forty of them.
  Permissions are recorded, but every access is granted; devices have no contents.
\<close>

subsection \<open>Nodes and locations\<close>

type_synonym loc = "string list"
type_synonym fs_mode = "32 word"

datatype fs_node =
    FileNode fs_mode string
  | DirNode fs_mode
  | LinkNode string
  | OtherNode fs_mode

type_synonym fs = "loc \<Rightarrow> fs_node option"

datatype io_error =
    NotFound
  | AlreadyExists
  | NotADirectory
  | IsADirectory
  | FilesystemLoop
  | InvalidInput
  | OtherIo string

abbreviation SYMLINK_MAX :: nat where
  "SYMLINK_MAX \<equiv> 40"

text \<open>A final slash, or a final dot, asks for a directory.\<close>

definition os_path :: "string \<Rightarrow> path_component list" where
  "os_path p = path_components p @ (if ends_with p ''/'' \<or> ends_with p ''/.'' then [CurDir] else [])"

subsection \<open>Resolution\<close>

text \<open>
  The location a path leads to from a directory. The last component may not exist, and is followed
  when it is a link only if asked for.
\<close>

fun fs_walk :: "nat \<Rightarrow> fs \<Rightarrow> bool \<Rightarrow> loc \<Rightarrow> path_component list \<Rightarrow> (io_error, loc) result" where
  "fs_walk n fs follow cur [] = Inr cur"
| "fs_walk n fs follow cur (RootDir # cs) = fs_walk n fs follow [] cs"
| "fs_walk n fs follow cur (CurDir # cs) = fs_walk n fs follow cur cs"
| "fs_walk n fs follow cur (ParentDir # cs) = fs_walk n fs follow (butlast cur) cs"
| "fs_walk n fs follow cur (Normal x # cs) =
     (case fs (cur @ [x]) of
        None \<Rightarrow> if cs = [] then Inr (cur @ [x]) else Inl NotFound
      | Some (DirNode m) \<Rightarrow> fs_walk n fs follow (cur @ [x]) cs
      | Some (LinkNode t) \<Rightarrow>
          if cs = [] \<and> \<not> follow then Inr (cur @ [x])
          else (case n of
                  0 \<Rightarrow> Inl FilesystemLoop
                | Suc n' \<Rightarrow> fs_walk n' fs follow cur (os_path t @ cs))
      | Some _ \<Rightarrow> if cs = [] then Inr (cur @ [x]) else Inl NotADirectory)"

definition fs_locate :: "fs \<Rightarrow> bool \<Rightarrow> path_component list \<Rightarrow> (io_error, loc) result" where
  "fs_locate fs follow cs = fs_walk SYMLINK_MAX fs follow [] cs"

definition fs_node_at :: "fs \<Rightarrow> bool \<Rightarrow> path_component list \<Rightarrow> (io_error, fs_node) result" where
  "fs_node_at fs follow cs =
     try_bind (fs_locate fs follow cs)
       (\<lambda>l. case fs l of Some node \<Rightarrow> Inr node | None \<Rightarrow> Inl NotFound)"

subsection \<open>Reading\<close>

definition fs_lstat :: "fs \<Rightarrow> string \<Rightarrow> (io_error, fs_node) result" where
  "fs_lstat fs p = fs_node_at fs False (os_path p)"

definition fs_stat :: "fs \<Rightarrow> string \<Rightarrow> (io_error, fs_node) result" where
  "fs_stat fs p = fs_node_at fs True (os_path p)"

definition fs_exists :: "fs \<Rightarrow> string \<Rightarrow> bool" where
  "fs_exists fs p = (case fs_stat fs p of Inr _ \<Rightarrow> True | Inl _ \<Rightarrow> False)"

definition fs_try_exists :: "fs \<Rightarrow> string \<Rightarrow> (io_error, bool) result" where
  "fs_try_exists fs p =
     (case fs_stat fs p of Inr _ \<Rightarrow> Inr True | Inl NotFound \<Rightarrow> Inr False | Inl e \<Rightarrow> Inl e)"

definition fs_read_link :: "fs \<Rightarrow> string \<Rightarrow> (io_error, string) result" where
  "fs_read_link fs p =
     try_bind (fs_lstat fs p) (\<lambda>node. case node of LinkNode t \<Rightarrow> Inr t | _ \<Rightarrow> Inl InvalidInput)"

definition fs_read :: "fs \<Rightarrow> string \<Rightarrow> (io_error, string) result" where
  "fs_read fs p =
     try_bind (fs_stat fs p)
       (\<lambda>node. case node of FileNode _ s \<Rightarrow> Inr s | DirNode _ \<Rightarrow> Inl IsADirectory | _ \<Rightarrow> Inr [])"

definition is_dir_node :: "fs_node option \<Rightarrow> bool" where
  "is_dir_node node = (case node of Some (DirNode m) \<Rightarrow> True | _ \<Rightarrow> False)"

definition fs_is_dir :: "fs \<Rightarrow> path_component list \<Rightarrow> bool" where
  "fs_is_dir fs cs = (case fs_node_at fs True cs of Inr (DirNode m) \<Rightarrow> True | _ \<Rightarrow> False)"

subsection \<open>Writing\<close>

type_synonym 'a fs_result = "(io_error, 'a) result \<times> fs"

definition fs_mkdir :: "fs_mode \<Rightarrow> path_component list \<Rightarrow> fs \<Rightarrow> unit fs_result" where
  "fs_mkdir umask cs fs =
     (case fs_locate fs False cs of
        Inl e \<Rightarrow> (Inl e, fs)
      | Inr l \<Rightarrow> if fs l \<noteq> None then (Inl AlreadyExists, fs)
                 else (Inr (), fs(l \<mapsto> DirNode (0x1FF AND NOT umask))))"

text \<open>\<open>std::fs::create_dir_all\<close>: try the path, then its parent, then the path again.\<close>

function fs_create_dirs :: "fs_mode \<Rightarrow> path_component list \<Rightarrow> fs \<Rightarrow> unit fs_result" where
  "fs_create_dirs umask cs fs =
     (if cs = [] then (Inr (), fs)
      else case fs_mkdir umask cs fs of
        (Inr _, fs') \<Rightarrow> (Inr (), fs')
      | (Inl NotFound, _) \<Rightarrow>
          if cs = [RootDir] then (Inl (OtherIo ''failed to create whole tree''), fs)
          else (case fs_create_dirs umask (butlast cs) fs of
                  (Inl e, fs') \<Rightarrow> (Inl e, fs')
                | (Inr _, fs') \<Rightarrow>
                    (case fs_mkdir umask cs fs' of
                       (Inr _, fs'') \<Rightarrow> (Inr (), fs'')
                     | (Inl e, _) \<Rightarrow> if fs_is_dir fs' cs then (Inr (), fs') else (Inl e, fs')))
      | (Inl e, _) \<Rightarrow> if fs_is_dir fs cs then (Inr (), fs) else (Inl e, fs))"
  by pat_completeness auto

termination
  by (relation "measure (\<lambda>(umask, cs, fs). length cs)") auto

declare fs_create_dirs.simps [simp del]

definition fs_create_dir_all :: "fs_mode \<Rightarrow> string \<Rightarrow> fs \<Rightarrow> unit fs_result" where
  "fs_create_dir_all umask p fs = fs_create_dirs umask (path_components p) fs"

text \<open>Open for writing, creating or truncating the file, and write all of the contents.\<close>

definition fs_write :: "fs_mode \<Rightarrow> fs_mode \<Rightarrow> string \<Rightarrow> string \<Rightarrow> fs \<Rightarrow> unit fs_result" where
  "fs_write umask mode p data fs =
     (case fs_locate fs True (os_path p) of
        Inl e \<Rightarrow> (Inl e, fs)
      | Inr l \<Rightarrow>
          (case fs l of
             None \<Rightarrow> (Inr (), fs(l \<mapsto> FileNode (mode AND 0xFFF AND NOT umask) data))
           | Some (FileNode m _) \<Rightarrow> (Inr (), fs(l \<mapsto> FileNode m data))
           | Some (DirNode m) \<Rightarrow> (Inl IsADirectory, fs)
           | Some _ \<Rightarrow> (Inr (), fs)))"

definition fs_remove_file :: "string \<Rightarrow> fs \<Rightarrow> unit fs_result" where
  "fs_remove_file p fs =
     (case fs_locate fs False (os_path p) of
        Inl e \<Rightarrow> (Inl e, fs)
      | Inr l \<Rightarrow>
          (case fs l of
             None \<Rightarrow> (Inl NotFound, fs)
           | Some (DirNode m) \<Rightarrow> (Inl IsADirectory, fs)
           | Some _ \<Rightarrow> (Inr (), fs(l := None))))"

definition fs_symlink :: "string \<Rightarrow> string \<Rightarrow> fs \<Rightarrow> unit fs_result" where
  "fs_symlink target p fs =
     (if target = [] then (Inl NotFound, fs)
      else case fs_locate fs False (os_path p) of
        Inl e \<Rightarrow> (Inl e, fs)
      | Inr l \<Rightarrow> if fs l \<noteq> None then (Inl AlreadyExists, fs) else (Inr (), fs(l \<mapsto> LinkNode target)))"

definition set_node_mode :: "fs_mode \<Rightarrow> fs_node \<Rightarrow> fs_node" where
  "set_node_mode mode node =
     (case node of
        FileNode _ s \<Rightarrow> FileNode (mode AND 0xFFF) s
      | DirNode _ \<Rightarrow> DirNode (mode AND 0xFFF)
      | LinkNode t \<Rightarrow> LinkNode t
      | OtherNode _ \<Rightarrow> OtherNode (mode AND 0xFFF))"

definition fs_set_permissions :: "fs_mode \<Rightarrow> string \<Rightarrow> fs \<Rightarrow> unit fs_result" where
  "fs_set_permissions mode p fs =
     (case fs_locate fs True (os_path p) of
        Inl e \<Rightarrow> (Inl e, fs)
      | Inr l \<Rightarrow>
          (case fs l of
             None \<Rightarrow> (Inl NotFound, fs)
           | Some node \<Rightarrow> (Inr (), fs(l \<mapsto> set_node_mode mode node))))"

subsection \<open>Trees\<close>

text \<open>The root is a directory, and whatever exists is in a directory.\<close>

definition fs_ok :: "fs \<Rightarrow> bool" where
  "fs_ok fs \<longleftrightarrow> is_dir_node (fs []) \<and> (\<forall>l x. fs (l @ [x]) \<noteq> None \<longrightarrow> is_dir_node (fs l))"

text \<open>A location that can be given a node: the root, or something inside a directory.\<close>

definition fs_slot :: "fs \<Rightarrow> loc \<Rightarrow> bool" where
  "fs_slot fs l \<longleftrightarrow> is_dir_node (fs []) \<and> (l = [] \<or> is_dir_node (fs (butlast l)))"

lemma is_dir_node_iff: "is_dir_node n \<longleftrightarrow> (\<exists>m. n = Some (DirNode m))"
  by (auto simp: is_dir_node_def split: option.splits fs_node.splits)

lemma fs_ok_root: "fs_ok fs \<Longrightarrow> is_dir_node (fs [])"
  by (simp add: fs_ok_def)

lemma fs_ok_parent: "fs_ok fs \<Longrightarrow> fs l \<noteq> None \<Longrightarrow> is_dir_node (fs (butlast l))"
  by (cases l rule: rev_cases) (auto simp: fs_ok_def)

lemma fs_slot_self: "fs_ok fs \<Longrightarrow> is_dir_node (fs l) \<Longrightarrow> fs_slot fs l"
  using fs_ok_parent [of fs l] by (auto simp: fs_slot_def fs_ok_root is_dir_node_iff [of "fs l"])

lemma fs_walk_slot:
  "fs_ok fs \<Longrightarrow> is_dir_node (fs cur) \<Longrightarrow> fs_walk n fs follow cur cs = Inr l \<Longrightarrow> fs_slot fs l"
proof (induction n fs follow cur cs rule: fs_walk.induct)
  case (4 n fs follow cur cs)
  then show ?case using fs_ok_parent [of fs cur] by (auto simp: is_dir_node_iff [of "fs cur"])
next
  case (5 n fs follow cur x cs)
  have slot: "fs_slot fs (cur @ [x])" using 5 by (simp add: fs_slot_def fs_ok_root)
  show ?case
  proof (cases "fs (cur @ [x])")
    case None
    then show ?thesis using 5 slot by (auto split: if_splits)
  next
    case (Some node)
    then show ?thesis
      using 5 slot by (cases node; cases n) (auto simp: is_dir_node_iff split: if_splits)
  qed
qed (auto simp: fs_slot_self fs_ok_root)

lemma fs_locate_slot: "fs_ok fs \<Longrightarrow> fs_locate fs follow cs = Inr l \<Longrightarrow> fs_slot fs l"
  unfolding fs_locate_def by (rule fs_walk_slot) (simp_all add: fs_ok_root)

text \<open>The three ways an operation changes the tree.\<close>

lemma fs_ok_create: "fs_ok fs \<Longrightarrow> fs_slot fs l \<Longrightarrow> fs l = None \<Longrightarrow> fs_ok (fs(l \<mapsto> node))"
  unfolding fs_ok_def fs_slot_def by (auto simp: is_dir_node_iff dest: spec [of _ l])

lemma fs_ok_replace:
  assumes "fs_ok fs" and "fs l \<noteq> None" and "is_dir_node (fs l) = is_dir_node (Some node)"
  shows "fs_ok (fs(l \<mapsto> node))"
  using assms unfolding fs_ok_def by (auto simp: is_dir_node_iff)

lemma fs_ok_delete: "fs_ok fs \<Longrightarrow> \<not> is_dir_node (fs l) \<Longrightarrow> fs_ok (fs(l := None))"
  unfolding fs_ok_def by auto

named_theorems fs_preserves

lemma fs_mkdir_ok [fs_preserves]: "fs_ok fs \<Longrightarrow> fs_ok (snd (fs_mkdir um cs fs))"
  by (auto simp: fs_mkdir_def intro!: fs_ok_create fs_locate_slot split: sum.splits)

lemma fs_create_dirs_ok [fs_preserves]: "fs_ok fs \<Longrightarrow> fs_ok (snd (fs_create_dirs um cs fs))"
proof (induction um cs fs rule: fs_create_dirs.induct)
  case (1 um cs fs)
  note dir = fs_mkdir_ok [of fs um cs]
  obtain r1 fs1 where r1: "fs_mkdir um cs fs = (r1, fs1)" by (cases "fs_mkdir um cs fs")
  obtain r2 fs2 where r2: "fs_create_dirs um (butlast cs) fs = (r2, fs2)"
    by (cases "fs_create_dirs um (butlast cs) fs")
  obtain r3 fs3 where r3: "fs_mkdir um cs fs2 = (r3, fs3)" by (cases "fs_mkdir um cs fs2")
  have ok1: "fs_ok fs1" using dir 1 r1 by simp
  have ok2: "cs \<noteq> [] \<Longrightarrow> r1 = Inl NotFound \<Longrightarrow> cs \<noteq> [RootDir] \<Longrightarrow> fs_ok fs2"
    using "1.IH" [OF _ r1 [symmetric]] 1(2) r2 by simp
  have ok3: "fs_ok fs2 \<Longrightarrow> fs_ok fs3" using fs_mkdir_ok [of fs2 um cs] r3 by simp
  show ?case
    by (subst fs_create_dirs.simps, simp only: r1 r2)
      (auto simp: r3 ok1 1 intro: ok3 ok2 split: sum.splits io_error.splits if_splits)
qed

lemma fs_write_ok [fs_preserves]: "fs_ok fs \<Longrightarrow> fs_ok (snd (fs_write um mode p d fs))"
  by (auto simp: fs_write_def is_dir_node_iff intro: fs_ok_create [OF _ fs_locate_slot] fs_ok_replace
      split: sum.splits option.splits fs_node.splits)

lemma fs_remove_file_ok [fs_preserves]: "fs_ok fs \<Longrightarrow> fs_ok (snd (fs_remove_file p fs))"
  by (auto simp: fs_remove_file_def is_dir_node_iff intro!: fs_ok_delete
      split: sum.splits option.splits fs_node.splits)

lemma fs_symlink_ok [fs_preserves]: "fs_ok fs \<Longrightarrow> fs_ok (snd (fs_symlink t p fs))"
  by (auto simp: fs_symlink_def intro!: fs_ok_create fs_locate_slot split: sum.splits)

lemma fs_set_permissions_ok [fs_preserves]: "fs_ok fs \<Longrightarrow> fs_ok (snd (fs_set_permissions mode p fs))"
  by (auto simp: fs_set_permissions_def set_node_mode_def is_dir_node_iff intro!: fs_ok_replace
      split: sum.splits option.splits fs_node.splits)

subsection \<open>A directory without links\<close>

text \<open>
  Below a directory, a path without dots leads where it says if it meets no symbolic link. Operations
  on such paths change nothing outside of the directory. The locations known not to be links are a
  parameter: all that are below the directory, or those that some paths go through.
\<close>

definition is_link_node :: "fs_node option \<Rightarrow> bool" where
  "is_link_node node = (case node of Some (LinkNode t) \<Rightarrow> True | _ \<Rightarrow> False)"

definition sealed :: "loc set \<Rightarrow> loc \<Rightarrow> fs \<Rightarrow> bool" where
  "sealed L A fs \<longleftrightarrow> fs_ok fs \<and> is_dir_node (fs A) \<and> (\<forall>l \<in> L. \<not> is_link_node (fs l))"

text \<open>A location below the directory on the way to which only locations of the set are met.\<close>

definition inside :: "loc set \<Rightarrow> loc \<Rightarrow> loc \<Rightarrow> bool" where
  "inside L A ns \<longleftrightarrow> (\<forall>i \<le> length ns. A @ take i ns \<in> L)"

definition confined :: "loc \<Rightarrow> fs \<Rightarrow> fs \<Rightarrow> bool" where
  "confined A fs fs' \<longleftrightarrow> (\<forall>l. \<not> prefix A l \<longrightarrow> fs' l = fs l)"

definition abs_path :: "loc \<Rightarrow> path_component list" where
  "abs_path l = RootDir # map Normal l"

lemma abs_path_simps [simp]: "abs_path l \<noteq> []" "abs_path l = [RootDir] \<longleftrightarrow> l = []"
  by (simp_all add: abs_path_def)

lemma confined_refl [simp]: "confined A fs fs"
  by (simp add: confined_def)

lemma confined_trans: "confined A fs fs' \<Longrightarrow> confined A fs' fs'' \<Longrightarrow> confined A fs fs''"
  by (simp add: confined_def)

lemma confined_update: "prefix A l \<Longrightarrow> confined A fs (fs(l := node))"
  by (auto simp: confined_def)

lemma is_link_node_simps [simp]:
  "is_link_node None = False" "is_link_node (Some (FileNode m s)) = False"
  "is_link_node (Some (DirNode m)) = False" "is_link_node (Some (OtherNode m)) = False"
  "is_link_node (Some (LinkNode t)) = True"
  by (simp_all add: is_link_node_def)

lemma is_dir_node_simps [simp]:
  "is_dir_node None = False" "is_dir_node (Some (FileNode m s)) = False"
  "is_dir_node (Some (DirNode m)) = True" "is_dir_node (Some (OtherNode m)) = False"
  "is_dir_node (Some (LinkNode t)) = False"
  by (simp_all add: is_dir_node_def)

lemma sealedD:
  assumes "sealed L A fs"
  shows "fs_ok fs" and "is_dir_node (fs A)" and "l \<in> L \<Longrightarrow> \<not> is_link_node (fs l)"
  using assms by (auto simp: sealed_def)

lemma fs_ok_prefix_dir: "fs_ok fs \<Longrightarrow> is_dir_node (fs (xs @ ys)) \<Longrightarrow> is_dir_node (fs xs)"
proof (induction ys rule: rev_induct)
  case (snoc y ys)
  then show ?case using fs_ok_parent [of fs "xs @ ys @ [y]"]
    by (auto simp: is_dir_node_iff butlast_append)
qed simp

lemma fs_walk_dirs:
  assumes "fs_ok fs" and "is_dir_node (fs (cur @ ns))"
  shows "fs_walk n fs follow cur (map Normal ns @ cs) = fs_walk n fs follow (cur @ ns) cs"
  using assms(2)
proof (induction ns arbitrary: cur)
  case (Cons x ns)
  then have "is_dir_node (fs (cur @ [x]))"
    using fs_ok_prefix_dir [OF assms(1), of "cur @ [x]" ns] by simp
  with Cons show ?case by (auto simp: is_dir_node_iff [of "fs (cur @ [x])"])
qed simp

lemma inside_Cons: "inside L A (x # ns) \<longleftrightarrow> A \<in> L \<and> inside L (A @ [x]) ns"
proof
  assume in_l: "inside L A (x # ns)"
  have "A @ [x] @ take i ns \<in> L" if "i \<le> length ns" for i
    using in_l [unfolded inside_def, rule_format, of "Suc i"] that by simp
  moreover have "A \<in> L" using in_l [unfolded inside_def, rule_format, of 0] by simp
  ultimately show "A \<in> L \<and> inside L (A @ [x]) ns" by (simp add: inside_def)
next
  assume in_l: "A \<in> L \<and> inside L (A @ [x]) ns"
  have "A @ take i (x # ns) \<in> L" if "i \<le> Suc (length ns)" for i
    using in_l that by (cases i) (auto simp: inside_def)
  then show "inside L A (x # ns)" by (simp add: inside_def)
qed

lemma inside_Nil [simp]: "inside L A [] \<longleftrightarrow> A \<in> L"
  by (simp add: inside_def)

lemma inside_head: "inside L A ns \<Longrightarrow> A \<in> L"
  by (cases ns) (simp_all add: inside_Cons)

lemma inside_append: "inside L A (ns @ ms) \<Longrightarrow> inside L A ns"
  by (induction ns arbitrary: A) (auto simp: inside_Cons dest: inside_head)

lemma inside_last: "inside L A ns \<Longrightarrow> A @ ns \<in> L"
  unfolding inside_def by (metis order_refl take_all_iff)

lemma inside_below: "inside {l. prefix A l} A ns"
  by (simp add: inside_def)

lemma fs_walk_no_links:
  assumes "inside {l. \<not> is_link_node (fs l)} cur ns" and "fs_walk n fs follow cur (map Normal ns) = Inr l"
  shows "l = cur @ ns"
  using assms
proof (induction ns arbitrary: cur)
  case (Cons x ns)
  have rest: "inside {l. \<not> is_link_node (fs l)} (cur @ [x]) ns" using Cons.prems(1) by (simp add: inside_Cons)
  have "\<not> is_link_node (fs (cur @ [x]))" using inside_head [OF rest] by simp
  then show ?case using Cons.prems(2) Cons.IH [OF rest]
    by (auto split: option.splits fs_node.splits if_splits)
qed simp

lemma fs_locate_dirs:
  assumes "fs_ok fs" and "is_dir_node (fs ls)"
  shows "fs_locate fs follow (abs_path (ls @ ns)) = fs_walk SYMLINK_MAX fs follow ls (map Normal ns)"
  using fs_walk_dirs [of fs "[]" ls SYMLINK_MAX follow "map Normal ns"] assms
  by (simp add: fs_locate_def abs_path_def)

lemma fs_locate_sealed:
  assumes "sealed L A fs" and "inside L A ns" and "fs_locate fs follow (abs_path (A @ ns)) = Inr l"
  shows "l = A @ ns"
proof (rule fs_walk_no_links)
  show "inside {l. \<not> is_link_node (fs l)} A ns"
    using assms(2) sealedD(3) [OF assms(1)] by (auto simp: inside_def)
  show "fs_walk SYMLINK_MAX fs follow A (map Normal ns) = Inr l"
    using assms(3) fs_locate_dirs sealedD(1,2) [OF assms(1)] by metis
qed

lemma fs_locate_reach:
  assumes "fs_ok fs" and "is_dir_node (fs ls)" and "\<not> is_link_node (fs (ls @ [x]))"
  shows "fs_locate fs follow (abs_path (ls @ [x])) = Inr (ls @ [x])"
  using fs_locate_dirs [OF assms(1,2), of follow "[x]"] assms(3) by (auto split: option.splits fs_node.splits)

lemma sealed_update:
  assumes "sealed L A fs" and "fs_ok (fs(l := node))" and "\<not> is_link_node node" and "l = A \<longrightarrow> is_dir_node node"
  shows "sealed L A (fs(l := node))"
  using assms by (auto simp: sealed_def)

text \<open>What an operation below the directory keeps.\<close>

definition keeps :: "loc set \<Rightarrow> loc \<Rightarrow> fs \<Rightarrow> fs \<Rightarrow> bool" where
  "keeps L A fs fs' \<longleftrightarrow> sealed L A fs' \<and> confined A fs fs'"

lemma keeps_refl: "sealed L A fs \<Longrightarrow> keeps L A fs fs"
  by (simp add: keeps_def)

lemma keeps_trans: "keeps L A fs fs' \<Longrightarrow> keeps L A fs' fs'' \<Longrightarrow> keeps L A fs fs''"
  by (auto simp: keeps_def intro: confined_trans)

lemma keeps_update:
  assumes "sealed L A fs" and "prefix A l" and "fs_ok (fs(l := node))"
    and "\<not> is_link_node node" and "l = A \<longrightarrow> is_dir_node node"
  shows "keeps L A fs (fs(l := node))"
  using assms by (simp add: keeps_def sealed_update confined_update)

lemma fs_mkdir_keeps:
  assumes "sealed L A fs" and "inside L A ns"
  shows "keeps L A fs (snd (fs_mkdir um (abs_path (A @ ns)) fs))"
proof (cases "fs_locate fs False (abs_path (A @ ns))")
  case (Inr l)
  have l: "l = A @ ns" by (rule fs_locate_sealed [OF assms Inr])
  show ?thesis
    using fs_mkdir_ok [OF sealedD(1) [OF assms(1)], of um "abs_path (A @ ns)"]
    by (auto simp: fs_mkdir_def Inr l keeps_refl [OF assms(1)] intro!: keeps_update [OF assms(1)])
qed (simp add: fs_mkdir_def keeps_refl [OF assms(1)])

lemma fs_mkdir_exists:
  assumes "sealed L A fs" and "is_dir_node (fs l)" and "l \<noteq> []"
  shows "fs_mkdir um (abs_path l) fs = (Inl AlreadyExists, fs)" and "fs_is_dir fs (abs_path l)"
proof -
  obtain ls x where l: "l = ls @ [x]" using assms(3) by (cases l rule: rev_cases) auto
  have "is_dir_node (fs ls)" using fs_ok_prefix_dir [OF sealedD(1) [OF assms(1)]] assms(2) l by blast
  moreover have "\<not> is_link_node (fs l)" using assms(2) by (auto simp: is_dir_node_iff)
  ultimately have loc: "fs_locate fs follow (abs_path l) = Inr l" for follow
    using fs_locate_reach [OF sealedD(1) [OF assms(1)]] l by simp
  from assms(2) obtain m where m: "fs l = Some (DirNode m)" by (auto simp: is_dir_node_iff)
  show "fs_mkdir um (abs_path l) fs = (Inl AlreadyExists, fs)" by (simp add: fs_mkdir_def loc m)
  show "fs_is_dir fs (abs_path l)" by (simp add: fs_is_dir_def fs_node_at_def loc m)
qed

lemma fs_create_dirs_keeps:
  "sealed L A fs \<Longrightarrow> inside L A ns \<Longrightarrow> A @ ns \<noteq> [] \<Longrightarrow> keeps L A fs (snd (fs_create_dirs um (abs_path (A @ ns)) fs))"
proof (induction ns rule: rev_induct)
  case Nil
  then have dir: "is_dir_node (fs A)" by (simp add: sealed_def)
  then show ?case
    using fs_mkdir_exists [OF Nil(1) dir] Nil
    by (subst fs_create_dirs.simps) (simp add: keeps_refl abs_path_def)
next
  case (snoc x ns)
  note sealed = snoc.prems(1) and in_l = snoc.prems(2)
  have parent: "butlast (abs_path (A @ ns @ [x])) = abs_path (A @ ns)"
    by (simp add: abs_path_def butlast_append)
  obtain r1 fs1 where r1: "fs_mkdir um (abs_path (A @ ns @ [x])) fs = (r1, fs1)" by fastforce
  obtain r2 fs2 where r2: "fs_create_dirs um (abs_path (A @ ns)) fs = (r2, fs2)" by fastforce
  obtain r3 fs3 where r3: "fs_mkdir um (abs_path (A @ ns @ [x])) fs2 = (r3, fs3)" by fastforce
  have k1: "keeps L A fs fs1" using fs_mkdir_keeps [OF sealed in_l, of um] r1 by simp
  have k2: "A @ ns \<noteq> [] \<Longrightarrow> keeps L A fs fs2" using snoc.IH [OF sealed inside_append [OF in_l]] r2 by simp
  have k3: "keeps L A fs fs2 \<Longrightarrow> keeps L A fs fs3"
    using fs_mkdir_keeps [OF _ in_l, of fs2 um] r3 keeps_trans by (fastforce simp: keeps_def)
  have root: "A @ ns = [] \<Longrightarrow> r1 \<noteq> Inl NotFound"
  proof -
    assume nil: "A @ ns = []"
    have "fs_locate fs False (abs_path [x]) = Inr [x]"
      using fs_locate_reach [of fs "[]" x False] sealedD(1,2) [OF sealed] sealedD(3) [OF sealed, of "[x]"] inside_last [OF in_l] nil by simp
    then show ?thesis using r1 nil by (auto simp: fs_mkdir_def split: if_splits)
  qed
  have ne: "abs_path (A @ ns @ [x]) \<noteq> []" "abs_path (A @ ns @ [x]) \<noteq> [RootDir]"
    by (simp_all add: abs_path_def)
  show ?case
    unfolding append_assoc [symmetric]
    using root k2 k3 by (subst fs_create_dirs.simps, simp only: r1 r2 parent ne append_assoc)
      (auto simp: r3 k1 keeps_refl [OF sealed] split: sum.splits io_error.splits if_splits)
qed

lemma fs_walk_missing:
  assumes "\<forall>i \<le> length ns. fs (cur @ take i ns) = None \<or> is_dir_node (fs (cur @ take i ns))"
    and "fs (cur @ ns) = None" and "ns \<noteq> []" and "cs \<noteq> []"
  shows "fs_walk n fs follow cur (map Normal ns @ cs) = Inl NotFound"
  using assms(1-3)
proof (induction ns arbitrary: cur)
  case (Cons x ns)
  have first: "fs (cur @ [x]) = None \<or> is_dir_node (fs (cur @ [x]))"
    using Cons.prems(1) by (auto dest: spec [of _ 1])
  have rest: "\<forall>i \<le> length ns. fs ((cur @ [x]) @ take i ns) = None \<or> is_dir_node (fs ((cur @ [x]) @ take i ns))"
    using Cons.prems(1) by (auto dest: spec [of _ "Suc i" for i])
  show ?case
  proof (cases "fs (cur @ [x])")
    case None
    then show ?thesis using assms(4) by simp
  next
    case (Some node)
    with first obtain m where m: "fs (cur @ [x]) = Some (DirNode m)" by (auto simp: is_dir_node_iff)
    with Cons.prems(2) have "ns \<noteq> []" by auto
    then show ?thesis using Cons.IH [OF rest] Cons.prems(2) m by simp
  qed
qed simp

text \<open>Creating directories succeeds when no file is in the way.\<close>

lemma fs_create_dirs_succeeds:
  assumes "sealed L A fs" and "A @ ns \<noteq> []"
    and "\<forall>i \<le> length ns. fs (A @ take i ns) = None \<or> is_dir_node (fs (A @ take i ns))"
  shows "\<exists>fs'. fs_create_dirs um (abs_path (A @ ns)) fs = (Inr (), fs') \<and> is_dir_node (fs' (A @ ns)) \<and>
    (\<forall>l. fs' l \<noteq> fs l \<longrightarrow> fs l = None \<and> is_dir_node (fs' l) \<and> prefix l (A @ ns))"
  using assms(2,3)
proof (induction ns rule: rev_induct)
  case Nil
  then have dir: "is_dir_node (fs A)" using assms(1) by (simp add: sealed_def)
  then show ?case
    using fs_mkdir_exists [OF assms(1) dir] Nil
    by (subst fs_create_dirs.simps) (simp add: abs_path_def)
next
  case (snoc x ns)
  let ?l = "A @ ns @ [x]"
  have ok: "fs_ok fs" by (rule sealedD(1) [OF assms(1)])
  have clear: "\<forall>i \<le> length ns. fs (A @ take i ns) = None \<or> is_dir_node (fs (A @ take i ns))"
  proof (intro allI impI)
    fix i assume "i \<le> length ns"
    then show "fs (A @ take i ns) = None \<or> is_dir_node (fs (A @ take i ns))"
      using snoc.prems(2) [rule_format, of i] by simp
  qed
  have last: "fs ?l = None \<or> is_dir_node (fs ?l)"
    using snoc.prems(2) [rule_format, of "Suc (length ns)"] by simp
  show ?case
  proof (cases "is_dir_node (fs ?l)")
    case True
    then show ?thesis
      using fs_mkdir_exists [OF assms(1) True]
      by (subst fs_create_dirs.simps) (simp add: abs_path_def)
  next
    case False
    with last have none: "fs ?l = None" by simp
    have made: "fs_mkdir um (abs_path ?l) f = (Inr (), f(?l \<mapsto> DirNode (0x1FF AND NOT um)))"
      if "fs_ok f" "is_dir_node (f (A @ ns))" "f ?l = None" for f
      using fs_locate_reach [of f "A @ ns" x False] that by (simp add: fs_mkdir_def)
    show ?thesis
    proof (cases "is_dir_node (fs (A @ ns))")
      case True
      show ?thesis
        by (subst fs_create_dirs.simps) (simp add: made [OF ok True none] none)
    next
      case False
      then have ns: "ns \<noteq> []" "A @ ns \<noteq> []" using sealedD(2) [OF assms(1)] by auto
      with clear False have "fs (A @ ns) = None" by fastforce
      obtain fs' where fs': "fs_create_dirs um (abs_path (A @ ns)) fs = (Inr (), fs')"
        "is_dir_node (fs' (A @ ns))" "\<forall>l. fs' l \<noteq> fs l \<longrightarrow> fs l = None \<and> is_dir_node (fs' l) \<and> prefix l (A @ ns)"
        using snoc.IH [OF ns(2) clear] by blast
      have ok': "fs_ok fs'" using fs_create_dirs_ok [OF ok, of um "abs_path (A @ ns)"] fs'(1) by simp
      have none': "fs' ?l = None" using fs'(3) [rule_format, of ?l] none prefix_length_le [of ?l "A @ ns"] by fastforce
      have first: "fs_mkdir um (abs_path ?l) fs = (Inl NotFound, fs)"
        using fs_walk_missing [of ns fs A "[Normal x]"] clear \<open>fs (A @ ns) = None\<close> ns(1)
          fs_locate_dirs [OF ok sealedD(2) [OF assms(1)], of False "ns @ [x]"]
        by (simp add: fs_mkdir_def)
      have parent: "butlast (abs_path ?l) = abs_path (A @ ns)"
        by (simp add: abs_path_def butlast_append)
      have run: "fs_create_dirs um (abs_path ?l) fs = (Inr (), fs'(?l \<mapsto> DirNode (0x1FF AND NOT um)))"
        by (subst fs_create_dirs.simps, simp only: first parent fs'(1))
          (simp add: made [OF ok' fs'(2) none'])
      have "\<forall>l. (fs'(?l \<mapsto> DirNode (0x1FF AND NOT um))) l \<noteq> fs l \<longrightarrow>
        fs l = None \<and> is_dir_node ((fs'(?l \<mapsto> DirNode (0x1FF AND NOT um))) l) \<and> prefix l ?l"
        using fs'(3) none by (auto intro: prefix_order.trans)
      with run show ?thesis
        by (intro exI [of _ "fs'(?l \<mapsto> DirNode (0x1FF AND NOT um))"] conjI) (simp_all only: fun_upd_same is_dir_node_simps)
    qed
  qed
qed

subsection \<open>Paths below an anchor\<close>

lemma components_join:
  assumes "path_is_absolute a" and "good_names (split_on SLASH b)"
  shows "path_components (path_join a b) = path_components a @ map Normal (split_on SLASH b)"
proof -
  let ?inner = "\<lambda>xs. map component_of (filter (\<lambda>x. x \<noteq> [] \<and> x \<noteq> ''.'') xs)"
  have abs: "path_components p = RootDir # ?inner (split_on SLASH p)" if "path_is_absolute p" for p
    using that by (simp add: path_components_def path_is_absolute_def Let_def)
  have b: "?inner (split_on SLASH b) = map Normal (split_on SLASH b)"
    using components_inner [OF assms(2)] by (simp add: join_split_on)
  have "hd (split_on SLASH b) \<noteq> []"
    using assms(2) by (cases "split_on SLASH b") (simp_all add: good_name_def)
  then have rel: "\<not> path_is_absolute b" using split_on_hd [of SLASH b] by (auto simp: path_is_absolute_def)
  have ne: "a \<noteq> []" using assms(1) by (auto simp: path_is_absolute_def)
  have join: "path_is_absolute (path_join a b)"
    using assms(1) rel ne by (cases a) (auto simp: path_join_def path_is_absolute_def)
  show ?thesis
  proof (cases "last a = SLASH")
    case True
    then obtain u where a: "a = u @ [SLASH]" using ne by (metis append_butlast_last_id)
    have "split_on SLASH (path_join a b) = split_on SLASH u @ split_on SLASH b"
      using rel a split_on_app [of SLASH u b] by (simp add: path_join_def)
    moreover have "split_on SLASH a = split_on SLASH u @ [[]]" using a split_on_app [of SLASH u "[]"] by simp
    ultimately show ?thesis using abs [OF join] abs [OF assms(1)] b by simp
  next
    case False
    then have "split_on SLASH (path_join a b) = split_on SLASH a @ split_on SLASH b"
      using rel ne split_on_app [of SLASH a b] by (simp add: path_join_def)
    then show ?thesis using abs [OF join] abs [OF assms(1)] b by simp
  qed
qed

lemma good_names_last:
  assumes "good_names (split_on SLASH b)"
  shows "\<not> ends_with (path_join a b) ''/''" and "\<not> ends_with (path_join a b) ''/.''" and "b \<noteq> []"
proof -
  show ne: "b \<noteq> []" using assms by (auto simp: good_name_def)
  have bad: "x \<notin> set (split_on SLASH b)" if "x = [] \<or> x = ''.''" for x
    using assms that by (auto simp: list_all_iff good_name_def)
  have no: "b \<noteq> []" "\<not> suffix ''/'' b" "b \<noteq> ''.''" "\<not> suffix ''/.'' b"
    using split_on_mem [of SLASH "[]" b] split_on_mem [of SLASH "''.''" b] bad by auto
  have tail: "\<exists>u. path_join a b = u @ b \<and> (u = [] \<or> last u = SLASH)" for a
    by (auto simp: path_join_def intro: exI [of _ "[]"] exI [of _ a] exI [of _ "a @ ''/''"])
  obtain u where u: "path_join a b = u @ b" using tail by blast
  show "\<not> ends_with (path_join a b) ''/''" "\<not> ends_with (path_join a b) ''/.''"
    unfolding u using no by (auto simp: suffix_append Cons_eq_append_conv)
qed

lemma os_path_join:
  assumes "path_components a = abs_path A" and "path_is_absolute a" and "good_names (split_on SLASH b)"
  shows "os_path (path_join a b) = abs_path (A @ split_on SLASH b)"
    and "path_components (path_join a b) = abs_path (A @ split_on SLASH b)"
  using components_join [OF assms(2,3)] good_names_last [OF assms(3)] assms(1)
  by (simp_all add: os_path_def abs_path_def)

lemma fs_write_keeps:
  assumes "sealed L A fs" and "os_path p = abs_path (A @ ns)" and "inside L A ns"
  shows "keeps L A fs (snd (fs_write um mode p d fs))"
proof (cases "fs_locate fs True (os_path p)")
  case (Inr l)
  have l: "l = A @ ns" using fs_locate_sealed [OF assms(1,3)] Inr assms(2) by simp
  have "is_dir_node (fs A)" by (rule sealedD(2) [OF assms(1)])
  then show ?thesis
    using fs_write_ok [OF sealedD(1) [OF assms(1)], of um mode p d] keeps_refl [OF assms(1)]
    by (auto simp: fs_write_def Inr l split: option.splits fs_node.splits intro!: keeps_update [OF assms(1)])
qed (simp add: fs_write_def keeps_refl [OF assms(1)])

lemma fs_set_permissions_keeps:
  assumes "sealed L A fs" and "os_path p = abs_path (A @ ns)" and "inside L A ns"
  shows "keeps L A fs (snd (fs_set_permissions mode p fs))"
proof (cases "fs_locate fs True (os_path p)")
  case (Inr l)
  have l: "l = A @ ns" using fs_locate_sealed [OF assms(1,3)] Inr assms(2) by simp
  have "is_dir_node (fs A)" "\<not> is_link_node (fs l)" using sealedD [OF assms(1)] inside_last [OF assms(3)] l by auto
  then show ?thesis
    using fs_set_permissions_ok [OF sealedD(1) [OF assms(1)], of mode p] keeps_refl [OF assms(1)]
    by (auto simp: fs_set_permissions_def Inr l set_node_mode_def split: option.splits fs_node.splits
        intro!: keeps_update [OF assms(1)])
qed (simp add: fs_set_permissions_def keeps_refl [OF assms(1)])

lemma fs_create_dir_all_keeps:
  assumes "sealed L A fs" and "path_components p = abs_path (A @ ns)" and "A @ ns \<noteq> []" and "inside L A ns"
  shows "keeps L A fs (snd (fs_create_dir_all um p fs))"
  unfolding fs_create_dir_all_def assms(2) by (rule fs_create_dirs_keeps [OF assms(1,4,3)])

end
