(* ===== verification/Api_Client.thy ===== *)
theory Api_Client
  imports Prelude
begin

text \<open>
  The client of the remote cache's HTTP interface: \<open>nrzrepo-api-client/src/lib.rs\<close>, \<open>retry.rs\<close> and
  \<open>analytics.rs\<close>, with the types of \<open>nrzrepo-vercel-api\<close> they use. The network is a parameter: a
  function that answers a request and changes the state of the world. So are URL parsing, JSON
  decoding and what the environment says about continuous integration. Names of headers of a response
  are in lower case, as the HTTP library keeps them.
\<close>

subsection \<open>Requests, responses and the world\<close>

type_synonym ('w, 'e, 'a) io = "'w \<Rightarrow> ('e, 'a) result \<times> 'w"

definition io_bind :: "('w, 'e, 'a) io \<Rightarrow> ('a \<Rightarrow> ('w, 'e, 'b) io) \<Rightarrow> ('w, 'e, 'b) io" where
  "io_bind m f w = (case m w of (Inl e, w') \<Rightarrow> (Inl e, w') | (Inr x, w') \<Rightarrow> f x w')"

definition io_lift :: "('e, 'a) result \<Rightarrow> ('w, 'e, 'a) io" where
  "io_lift r w = (r, w)"

lemma io_bind_simps [simp]:
  "m w = (Inl e, w') \<Longrightarrow> io_bind m f w = (Inl e, w')"
  "m w = (Inr x, w') \<Longrightarrow> io_bind m f w = f x w'"
  "io_bind (io_lift (Inl e)) f w = (Inl e, w)"
  "io_bind (io_lift (Inr x)) f w = f x w"
  "io_lift r w = (r, w)"
  by (simp_all add: io_bind_def io_lift_def)

datatype http_method = GET | HEAD | PUT | POST | OPTIONS | DELETE

fun method_str :: "http_method \<Rightarrow> string" where
  "method_str GET = ''GET''"
| "method_str HEAD = ''HEAD''"
| "method_str PUT = ''PUT''"
| "method_str POST = ''POST''"
| "method_str OPTIONS = ''OPTIONS''"
| "method_str DELETE = ''DELETE''"

text \<open>A request whose body is a stream cannot be cloned.\<close>

record http_request =
  rq_method :: http_method
  rq_url :: string
  rq_headers :: "(string \<times> string) list"
  rq_query :: "(string \<times> string) list"
  rq_body :: "string option"
  rq_stream :: bool

record http_error =
  he_status :: "nat option"
  he_timeout :: bool
  he_connect :: bool

record http_response =
  rs_status :: nat
  rs_headers :: "(string \<times> string) list"
  rs_url :: string
  rs_body :: "(http_error, string) result"

record 'w transport =
  tp_send :: "http_request \<Rightarrow> 'w \<Rightarrow> (http_error, http_response) result \<times> 'w"
  tp_sleep :: "nat \<Rightarrow> 'w \<Rightarrow> 'w"

definition header :: "string \<Rightarrow> string \<Rightarrow> http_request \<Rightarrow> http_request" where
  "header k v rq = rq\<lparr>rq_headers := rq_headers rq @ [(k, v)]\<rparr>"

definition query :: "(string \<times> string) list \<Rightarrow> http_request \<Rightarrow> http_request" where
  "query kvs rq = rq\<lparr>rq_query := rq_query rq @ kvs\<rparr>"

definition request :: "http_method \<Rightarrow> string \<Rightarrow> http_request" where
  "request m url = \<lparr>rq_method = m, rq_url = url, rq_headers = [], rq_query = [], rq_body = None, rq_stream = False\<rparr>"

text \<open>\<open>HeaderValue::to_str\<close>: only visible ASCII.\<close>

definition header_to_str :: "string \<Rightarrow> string option" where
  "header_to_str v = (if \<forall>c \<in> set v. (of_char c :: nat) = 9 \<or> 32 \<le> (of_char c :: nat) \<and> (of_char c :: nat) < 127
                      then Some v else None)"

definition error_for_status :: "http_response \<Rightarrow> (http_error, http_response) result" where
  "error_for_status rs =
     (if 400 \<le> rs_status rs \<and> rs_status rs < 600
      then Inl \<lparr>he_status = Some (rs_status rs), he_timeout = False, he_connect = False\<rparr>
      else Inr rs)"

subsection \<open>Errors\<close>

datatype caching_status = Disabled | Enabled | OverLimit | Paused

text \<open>\<open>Panicked\<close> is no error of the code: it stands for the panic of an \<open>unwrap\<close>.\<close>

datatype api_error =
    ReadError string
  | ReqwestError http_error
  | TooManyFailures http_error
  | TlsError http_error
  | InvalidHeader string
  | InvalidUrl string
  | UnknownCachingStatus string
  | UnknownStatus string string
  | CacheDisabled caching_status string
  | InvalidJson string
  | InvalidToken nat string string
  | ForbiddenToken string
  | Panicked

definition reqwest :: "(http_error, 'a) result \<Rightarrow> (api_error, 'a) result" where
  "reqwest r = (case r of Inl e \<Rightarrow> Inl (ReqwestError e) | Inr x \<Rightarrow> Inr x)"

subsection \<open>Retrying\<close>

abbreviation MIN_SLEEP_TIME_SECS :: nat where "MIN_SLEEP_TIME_SECS \<equiv> 2"
abbreviation MAX_SLEEP_TIME_SECS :: nat where "MAX_SLEEP_TIME_SECS \<equiv> 10"
abbreviation RETRY_MAX :: nat where "RETRY_MAX \<equiv> 2"

datatype retry = Once http_response | Retried http_response nat

fun into_response :: "retry \<Rightarrow> http_response" where
  "into_response (Once r) = r"
| "into_response (Retried r n) = r"

fun retry_count :: "retry \<Rightarrow> nat option" where
  "retry_count (Once r) = None"
| "retry_count (Retried r n) = Some n"

datatype retry_strategy = Connection | Timeout

text \<open>An error has a status only if it was made from a response, which \<open>send\<close> does not do; there the error is one of the connection.\<close>

definition should_retry :: "retry_strategy \<Rightarrow> http_error \<Rightarrow> bool" where
  "should_retry strategy e =
     (case he_status e of
        Some status \<Rightarrow>
          if status = 429 then True
          else if 500 \<le> status \<and> status \<noteq> 501 then True
          else (case strategy of Connection \<Rightarrow> he_connect e | Timeout \<Rightarrow> he_timeout e)
      | None \<Rightarrow> (case strategy of Connection \<Rightarrow> he_connect e | Timeout \<Rightarrow> he_timeout e))"

definition sleep_period :: "nat \<Rightarrow> nat" where
  "sleep_period count = min MAX_SLEEP_TIME_SECS (max MIN_SLEEP_TIME_SECS (2 ^ count))"

fun retry_loop ::
  "'w transport \<Rightarrow> retry_strategy \<Rightarrow> http_request \<Rightarrow> http_error option \<Rightarrow> nat list \<Rightarrow> ('w, api_error, retry) io" where
  "retry_loop tp strategy rq last_error [] w =
     (Inl (case last_error of Some e \<Rightarrow> TooManyFailures e | None \<Rightarrow> Panicked), w)"
| "retry_loop tp strategy rq last_error (count # counts) w =
     (if rq_stream rq then
        (case tp_send tp rq w of
           (Inl e, w') \<Rightarrow> (Inl (ReqwestError e), w')
         | (Inr rs, w') \<Rightarrow> (Inr (Once rs), w'))
      else
        (case tp_send tp rq w of
           (Inr rs, w') \<Rightarrow> (Inr (Retried rs count), w')
         | (Inl err, w') \<Rightarrow>
             if \<not> should_retry strategy err then (Inl (ReqwestError err), w')
             else retry_loop tp strategy rq (Some err) counts (tp_sleep tp (sleep_period count) w')))"

definition make_retryable_request ::
  "'w transport \<Rightarrow> retry_strategy \<Rightarrow> http_request \<Rightarrow> ('w, api_error, retry) io" where
  "make_retryable_request tp strategy rq = retry_loop tp strategy rq None [0..<RETRY_MAX]"

definition send_retrying ::
  "'w transport \<Rightarrow> retry_strategy \<Rightarrow> http_request \<Rightarrow> ('w, api_error, http_response) io" where
  "send_retrying tp strategy rq =
     io_bind (make_retryable_request tp strategy rq) (\<lambda>r. io_lift (Inr (into_response r)))"

subsection \<open>The client\<close>

record api_client =
  ac_base_url :: string
  ac_user_agent :: string
  ac_use_preflight :: bool

record api_auth =
  aa_team_id :: "string option"
  aa_token :: string
  aa_team_slug :: "string option"

definition auth_is_linked :: "api_auth \<Rightarrow> bool" where
  "auth_is_linked a = (aa_team_id a \<noteq> None \<or> aa_team_slug a \<noteq> None)"

definition is_linked :: "api_auth option \<Rightarrow> bool" where
  "is_linked a = (case a of Some auth \<Rightarrow> auth_is_linked auth | None \<Rightarrow> False)"

text \<open>Libraries and surroundings: URLs, JSON, the vendor of a continuous integration service.\<close>

datatype url_error = RelativeUrlWithoutBase | OtherUrlError

record api_libs =
  al_url_parse :: "string \<Rightarrow> (url_error, string) result"
  al_url_join :: "string \<Rightarrow> string \<Rightarrow> (url_error, string) result"
  al_api_error :: "string \<Rightarrow> (string \<times> string) option"
  al_token_error :: "string \<Rightarrow> (string \<times> bool) option"
  al_is_ci :: bool
  al_ci_constant :: "string option"

definition make_url :: "api_libs \<Rightarrow> api_client \<Rightarrow> string \<Rightarrow> (api_error, string) result" where
  "make_url al c endpoint =
     (let url = ac_base_url c @ endpoint
      in case al_url_parse al url of Inr u \<Rightarrow> Inr u | Inl e \<Rightarrow> Inl (InvalidUrl url))"

definition bearer :: "string \<Rightarrow> http_request \<Rightarrow> http_request" where
  "bearer token = header ''Authorization'' (''Bearer '' @ token)"

definition add_ci_header :: "api_libs \<Rightarrow> http_request \<Rightarrow> http_request" where
  "add_ci_header al rq =
     (if al_is_ci al
      then (case al_ci_constant al of Some v \<Rightarrow> header ''x-artifact-client-ci'' v rq | None \<Rightarrow> rq)
      else rq)"

definition add_team_params :: "string option \<Rightarrow> string option \<Rightarrow> http_request \<Rightarrow> http_request" where
  "add_team_params team_id team_slug rq =
     (let rq = (case team_id of
                  Some t \<Rightarrow> if starts_with t ''team_'' then query [(''teamId'', t)] rq else rq
                | None \<Rightarrow> rq)
      in case team_slug of Some slug \<Rightarrow> query [(''slug'', slug)] rq | None \<Rightarrow> rq)"

definition caching_status_of :: "string \<Rightarrow> caching_status option" where
  "caching_status_of s =
     (if s = ''disabled'' then Some Disabled
      else if s = ''enabled'' then Some Enabled
      else if s = ''over_limit'' then Some OverLimit
      else if s = ''paused'' then Some Paused
      else None)"

definition handle_403 :: "api_libs \<Rightarrow> http_response \<Rightarrow> api_error" where
  "handle_403 al rs =
     (case rs_body rs of
        Inl e \<Rightarrow> ReqwestError e
      | Inr body \<Rightarrow>
          (case al_api_error al body of
             None \<Rightarrow> InvalidJson body
           | Some (code, message) \<Rightarrow>
               (case strip_prefix ''remote_caching_'' code of
                  Some s \<Rightarrow>
                    (case caching_status_of s of
                       Some status \<Rightarrow> CacheDisabled status message
                     | None \<Rightarrow> UnknownCachingStatus s)
                | None \<Rightarrow> UnknownStatus code message)))"

subsection \<open>Preflight\<close>

text \<open>
  The regular expression \<open>(?i)(?:^|,) *authorization *(?:,|$)\<close>: one of the comma separated parts is
  the word, in any case, between spaces.
\<close>

definition ascii_lower :: "char \<Rightarrow> char" where
  "ascii_lower c = (if (65::nat) \<le> of_char c \<and> (of_char c :: nat) \<le> 90 then char_of ((of_char c :: nat) + 32) else c)"

definition trim_spaces :: "string \<Rightarrow> string" where
  "trim_spaces s = rev (dropWhile (\<lambda>c. c = CHR '' '') (rev (dropWhile (\<lambda>c. c = CHR '' '') s)))"

definition authorization_match :: "string \<Rightarrow> bool" where
  "authorization_match s =
     list_ex (\<lambda>part. map ascii_lower (trim_spaces part) = ''authorization'') (split_on (CHR '','') s)"

record preflight_response =
  pf_location :: string
  pf_allow_authorization_header :: bool

definition preflight_request :: "api_client \<Rightarrow> string \<Rightarrow> string \<Rightarrow> string \<Rightarrow> string \<Rightarrow> http_request" where
  "preflight_request c token request_url request_method request_headers =
     bearer token
       (header ''Access-Control-Request-Headers'' request_headers
         (header ''Access-Control-Request-Method'' request_method
           (header ''User-Agent'' (ac_user_agent c) (request OPTIONS request_url))))"

definition preflight_location :: "api_libs \<Rightarrow> api_client \<Rightarrow> http_response \<Rightarrow> (api_error, string) result" where
  "preflight_location al c rs =
     (case map_of (rs_headers rs) ''location'' of
        None \<Rightarrow> Inr (rs_url rs)
      | Some value \<Rightarrow>
          (case header_to_str value of
             None \<Rightarrow> Inl (InvalidHeader value)
           | Some location \<Rightarrow>
               (case al_url_parse al location of
                  Inr u \<Rightarrow> Inr u
                | Inl RelativeUrlWithoutBase \<Rightarrow>
                    (case al_url_parse al (ac_base_url c) of
                       Inl e \<Rightarrow> Inl (InvalidUrl (ac_base_url c))
                     | Inr base \<Rightarrow>
                         (case al_url_join al base location of
                            Inr u \<Rightarrow> Inr u
                          | Inl e \<Rightarrow> Inl (InvalidUrl location)))
                | Inl e \<Rightarrow> Inl (InvalidUrl location))))"

definition allowed_headers :: "http_response \<Rightarrow> string" where
  "allowed_headers rs =
     (case map_of (rs_headers rs) ''access-control-allow-headers'' of
        None \<Rightarrow> []
      | Some h \<Rightarrow> (case header_to_str h of Some s \<Rightarrow> s | None \<Rightarrow> []))"

definition do_preflight ::
  "'w transport \<Rightarrow> api_libs \<Rightarrow> api_client \<Rightarrow> string \<Rightarrow> string \<Rightarrow> string \<Rightarrow> string \<Rightarrow>
     ('w, api_error, preflight_response) io" where
  "do_preflight tp al c token request_url request_method request_headers =
     io_bind (send_retrying tp Timeout (preflight_request c token request_url request_method request_headers))
       (\<lambda>rs. io_bind (io_lift (preflight_location al c rs))
         (\<lambda>location. io_lift (Inr \<lparr>pf_location = location,
            pf_allow_authorization_header = authorization_match (allowed_headers rs)\<rparr>)))"

text \<open>Where a request goes, and whether it carries the token.\<close>

definition preflighted ::
  "'w transport \<Rightarrow> api_libs \<Rightarrow> api_client \<Rightarrow> string \<Rightarrow> string \<Rightarrow> string \<Rightarrow> string \<Rightarrow>
     ('w, api_error, string \<times> bool) io" where
  "preflighted tp al c token url request_method request_headers =
     (if ac_use_preflight c
      then io_bind (do_preflight tp al c token url request_method request_headers)
        (\<lambda>pf. io_lift (Inr (pf_location pf, pf_allow_authorization_header pf)))
      else io_lift (Inr (url, True)))"

subsection \<open>Artifacts\<close>

definition artifact_url :: "api_libs \<Rightarrow> api_client \<Rightarrow> string \<Rightarrow> (api_error, string) result" where
  "artifact_url al c hash = make_url al c (''/v8/artifacts/'' @ hash)"

definition artifact_request ::
  "api_client \<Rightarrow> string \<Rightarrow> string option \<Rightarrow> string option \<Rightarrow> http_method \<Rightarrow> string \<Rightarrow> bool \<Rightarrow> http_request" where
  "artifact_request c token team_id team_slug m url allow_auth =
     (let rq = header ''User-Agent'' (ac_user_agent c) (request m url);
          rq = (if allow_auth then bearer token rq else rq)
      in add_team_params team_id team_slug rq)"

definition get_artifact ::
  "'w transport \<Rightarrow> api_libs \<Rightarrow> api_client \<Rightarrow> string \<Rightarrow> string \<Rightarrow> string option \<Rightarrow> string option \<Rightarrow> http_method \<Rightarrow>
     ('w, api_error, http_response option) io" where
  "get_artifact tp al c hash token team_id team_slug m =
     io_bind (io_lift (artifact_url al c hash)) (\<lambda>url.
     io_bind (preflighted tp al c token url ''GET'' ''Authorization, User-Agent'') (\<lambda>(request_url, allow_auth).
     io_bind (send_retrying tp Timeout (artifact_request c token team_id team_slug m request_url allow_auth)) (\<lambda>rs.
       if rs_status rs = 403 then io_lift (Inl (handle_403 al rs))
       else if rs_status rs = 404 then io_lift (Inr None)
       else io_bind (io_lift (reqwest (error_for_status rs))) (\<lambda>rs. io_lift (Inr (Some rs))))))"

definition artifact_exists ::
  "'w transport \<Rightarrow> api_libs \<Rightarrow> api_client \<Rightarrow> string \<Rightarrow> string \<Rightarrow> string option \<Rightarrow> string option \<Rightarrow>
     ('w, api_error, http_response option) io" where
  "artifact_exists tp al c hash token team_id team_slug = get_artifact tp al c hash token team_id team_slug HEAD"

definition fetch_artifact ::
  "'w transport \<Rightarrow> api_libs \<Rightarrow> api_client \<Rightarrow> string \<Rightarrow> string \<Rightarrow> string option \<Rightarrow> string option \<Rightarrow>
     ('w, api_error, http_response option) io" where
  "fetch_artifact tp al c hash token team_id team_slug = get_artifact tp al c hash token team_id team_slug GET"

text \<open>Decimal printing of an unsigned integer.\<close>

fun nat_to_string :: "nat \<Rightarrow> string" where
  "nat_to_string n =
     (if n < 10 then [char_of (48 + n)] else nat_to_string (n div 10) @ [char_of (48 + n mod 10)])"

declare nat_to_string.simps [simp del]

definition put_artifact ::
  "'w transport \<Rightarrow> api_libs \<Rightarrow> api_client \<Rightarrow> string \<Rightarrow> string \<Rightarrow> nat \<Rightarrow> nat \<Rightarrow> string option \<Rightarrow> string \<Rightarrow>
     string option \<Rightarrow> string option \<Rightarrow> ('w, api_error, unit) io" where
  "put_artifact tp al c hash artifact_body body_length duration tag token team_id team_slug =
     io_bind (io_lift (artifact_url al c hash)) (\<lambda>url.
     io_bind (preflighted tp al c token url ''PUT''
        ''Authorization, Content-Type, User-Agent, x-artifact-duration, x-artifact-tag'') (\<lambda>(request_url, allow_auth).
       let rq = header ''Content-Length'' (nat_to_string body_length)
                 (header ''User-Agent'' (ac_user_agent c)
                   (header ''x-artifact-duration'' (nat_to_string duration)
                     (header ''Content-Type'' ''application/octet-stream'' (request PUT request_url))));
           rq = rq\<lparr>rq_body := Some artifact_body, rq_stream := True\<rparr>;
           rq = (if allow_auth then bearer token rq else rq);
           rq = add_team_params team_id team_slug rq;
           rq = add_ci_header al rq;
           rq = (case tag of Some t \<Rightarrow> header ''x-artifact-tag'' t rq | None \<Rightarrow> rq)
       in io_bind (send_retrying tp Connection rq) (\<lambda>rs.
            if rs_status rs = 403 then io_lift (Inl (handle_403 al rs))
            else io_bind (io_lift (reqwest (error_for_status rs))) (\<lambda>_. io_lift (Inr ())))))"

subsection \<open>Other requests\<close>

text \<open>Requests whose answer is read as JSON: the decoder is an argument.\<close>

definition json_request :: "api_client \<Rightarrow> http_method \<Rightarrow> string \<Rightarrow> string \<Rightarrow> http_request" where
  "json_request c m url token =
     header ''Content-Type'' ''application/json'' (bearer token (header ''User-Agent'' (ac_user_agent c) (request m url)))"

definition response_json :: "(string \<Rightarrow> 'a option) \<Rightarrow> http_response \<Rightarrow> (api_error, 'a) result" where
  "response_json decode rs =
     (case rs_body rs of
        Inl e \<Rightarrow> Inl (ReqwestError e)
      | Inr body \<Rightarrow>
          (case decode body of
             Some x \<Rightarrow> Inr x
           | None \<Rightarrow> Inl (ReqwestError \<lparr>he_status = None, he_timeout = False, he_connect = False\<rparr>)))"

definition json_answer ::
  "'w transport \<Rightarrow> (string \<Rightarrow> 'a option) \<Rightarrow> http_request \<Rightarrow> ('w, api_error, 'a) io" where
  "json_answer tp decode rq =
     io_bind (send_retrying tp Timeout rq) (\<lambda>rs.
     io_bind (io_lift (reqwest (error_for_status rs))) (\<lambda>rs. io_lift (response_json decode rs)))"

definition get_user where
  "get_user tp al c decode token =
     io_bind (io_lift (make_url al c ''/v2/user'')) (\<lambda>url. json_answer tp decode (json_request c GET url token))"

definition get_teams where
  "get_teams tp al c decode token =
     io_bind (io_lift (make_url al c ''/v2/teams?limit=100'')) (\<lambda>url. json_answer tp decode (json_request c GET url token))"

definition get_spaces where
  "get_spaces tp al c decode token team_id =
     io_bind (io_lift (make_url al c
        (case team_id of Some t \<Rightarrow> ''/v0/spaces?limit=100&teamId='' @ t | None \<Rightarrow> ''/v0/spaces?limit=100'')))
       (\<lambda>url. json_answer tp decode (json_request c GET url token))"

definition get_caching_status where
  "get_caching_status tp al c decode token team_id team_slug =
     io_bind (io_lift (make_url al c ''/v8/artifacts/status''))
       (\<lambda>url. json_answer tp decode (add_team_params team_id team_slug (json_request c GET url token)))"

definition verify_sso_token where
  "verify_sso_token tp al c decode token token_name =
     io_bind (io_lift (make_url al c ''/registration/verify''))
       (\<lambda>url. json_answer tp decode
          (header ''User-Agent'' (ac_user_agent c)
            (query [(''token'', token), (''tokenName'', token_name)] (request GET url))))"

text \<open>A single team: sent once, without retrying.\<close>

definition get_team where
  "get_team tp al c decode token team_id w =
     io_bind (io_lift (make_url al c (''/v2/teams/'' @ team_id))) (\<lambda>url w.
       (case tp_send tp (json_request c GET url token) w of
          (Inl e, w') \<Rightarrow> (Inl (ReqwestError e), w')
        | (Inr rs, w') \<Rightarrow>
            io_bind (io_lift (reqwest (error_for_status rs))) (\<lambda>rs. io_lift (response_json decode rs)) w')) w"

text \<open>The two token endpoints share how they read the answer.\<close>

definition token_answer ::
  "api_libs \<Rightarrow> api_client \<Rightarrow> string \<Rightarrow> (http_response \<Rightarrow> (api_error, 'a) result) \<Rightarrow> http_response \<Rightarrow> (api_error, 'a) result" where
  "token_answer al c endpoint ok rs =
     (if rs_status rs = 200 then ok rs
      else if rs_status rs = 403 then
        try_bind (response_json (al_token_error al) rs) (\<lambda>(message, invalid_token).
          try_bind (make_url al c endpoint) (\<lambda>url.
            if invalid_token then Inl (InvalidToken (rs_status rs) url message) else Inl (ForbiddenToken url)))
      else (case error_for_status rs of Inl e \<Rightarrow> Inl (ReqwestError e) | Inr _ \<Rightarrow> Inl Panicked))"

definition get_metadata where
  "get_metadata tp al c decode token =
     io_bind (io_lift (make_url al c ''/v5/user/tokens/current'')) (\<lambda>url.
     io_bind (send_retrying tp Timeout (json_request c GET url token)) (\<lambda>rs.
       io_lift (token_answer al c ''/v5/user/tokens/current'' (response_json decode) rs)))"

definition delete_token where
  "delete_token tp al c token =
     io_bind (io_lift (make_url al c ''/v3/user/tokens/current'')) (\<lambda>url.
     io_bind (send_retrying tp Timeout (json_request c DELETE url token)) (\<lambda>rs.
       io_lift (token_answer al c ''/v3/user/tokens/current'' (\<lambda>_. Inr ()) rs)))"

definition create_request_builder ::
  "'w transport \<Rightarrow> api_libs \<Rightarrow> api_client \<Rightarrow> string \<Rightarrow> api_auth \<Rightarrow> http_method \<Rightarrow> ('w, api_error, http_request) io" where
  "create_request_builder tp al c endpoint auth m =
     io_bind (io_lift (make_url al c endpoint)) (\<lambda>url.
     io_bind (preflighted tp al c (aa_token auth) url (method_str m) ''Authorization, User-Agent'') (\<lambda>(url, allow_auth).
       let rq = header ''Content-Type'' ''application/json'' (request m url);
           rq = (if allow_auth then bearer (aa_token auth) rq else rq);
           rq = add_team_params (aa_team_id auth) (aa_team_slug auth) rq;
           rq = (case al_ci_constant al of Some v \<Rightarrow> header ''x-artifact-client-ci'' v rq | None \<Rightarrow> rq)
       in io_lift (Inr rq)))"

definition record_analytics ::
  "'w transport \<Rightarrow> api_libs \<Rightarrow> api_client \<Rightarrow> ('e list \<Rightarrow> string) \<Rightarrow> api_auth \<Rightarrow> 'e list \<Rightarrow> ('w, api_error, unit) io" where
  "record_analytics tp al c encode auth events =
     io_bind (create_request_builder tp al c ''/v8/artifacts/events'' auth POST) (\<lambda>rq.
     io_bind (send_retrying tp Timeout (rq\<lparr>rq_body := Some (encode events)\<rparr>)) (\<lambda>rs.
     io_bind (io_lift (reqwest (error_for_status rs))) (\<lambda>_. io_lift (Inr ()))))"

subsection \<open>Retrying ends\<close>

text \<open>
  A request that can be repeated is sent once or twice. The answer of the first attempt that does
  not fail is returned with the number of failures before it; a failure that is not worth retrying ends
  the attempts; two failures are reported as too many. Between the attempts, and after the last, the
  client sleeps two seconds.
\<close>

lemma make_retryable_request_outcome:
  fixes w :: 'w
  assumes "\<not> rq_stream rq"
    and first: "tp_send tp rq w = (r1, w1)" and second: "tp_send tp rq (tp_sleep tp 2 w1) = (r2, w2)"
  shows "make_retryable_request tp strategy rq w =
    (case r1 of
       Inr rs \<Rightarrow> (Inr (Retried rs 0), w1)
     | Inl e1 \<Rightarrow>
         if \<not> should_retry strategy e1 then (Inl (ReqwestError e1), w1)
         else (case r2 of
                 Inr rs \<Rightarrow> (Inr (Retried rs 1), w2)
               | Inl e2 \<Rightarrow> if \<not> should_retry strategy e2 then (Inl (ReqwestError e2), w2)
                           else (Inl (TooManyFailures e2), tp_sleep tp 2 w2)))"
proof -
  have "[0..<RETRY_MAX] = [0, 1]" by (simp add: upt_rec)
  moreover have "sleep_period 0 = 2" "sleep_period 1 = 2" by (simp_all add: sleep_period_def)
  ultimately show ?thesis
    using assms by (simp add: make_retryable_request_def split: sum.splits)
qed

text \<open>
  A response is never asked for again, whatever its status: only a failure to get one is retried. And the
  strategy for timeouts does not retry a connection that failed.
\<close>

lemma response_not_retried:
  assumes "tp_send tp rq w = (Inr rs, w')"
  shows "make_retryable_request tp strategy rq w = (Inr (if rq_stream rq then Once rs else Retried rs 0), w')"
  using assms by (simp add: make_retryable_request_def upt_rec)

lemma timeout_ignores_connection:
  "he_status e = None \<Longrightarrow> \<not> he_timeout e \<Longrightarrow> \<not> should_retry Timeout e"
  by (simp add: should_retry_def)

lemma retry_never_panics: "fst (make_retryable_request tp strategy rq w) \<noteq> Inl Panicked"
  by (auto simp: make_retryable_request_def upt_rec split: sum.splits prod.splits)

subsection \<open>The token is sent only where it is allowed\<close>

text \<open>The same network, with a record of the requests that were sent.\<close>

definition logged :: "'w transport \<Rightarrow> (http_request list \<times> 'w) transport" where
  "logged tp =
     \<lparr>tp_send = (\<lambda>rq (log, w). let (r, w') = tp_send tp rq w in (r, (log @ [rq], w'))),
      tp_sleep = (\<lambda>n (log, w). (log, tp_sleep tp n w))\<rparr>"

definition has_token :: "http_request \<Rightarrow> bool" where
  "has_token rq \<longleftrightarrow> ''Authorization'' \<in> fst ` set (rq_headers rq)"

lemma retry_loop_logged:
  "\<exists>k. retry_loop (logged tp) strategy rq le counts (log, w) =
     (fst (retry_loop tp strategy rq le counts w), (log @ replicate k rq, snd (retry_loop tp strategy rq le counts w)))"
proof (induction counts arbitrary: le log w)
  case Nil
  then show ?case by (auto intro: exI [of _ 0])
next
  case (Cons count counts)
  obtain r w' where send: "tp_send tp rq w = (r, w')" by fastforce
  show ?case
  proof (cases "\<not> rq_stream rq \<and> (\<exists>e. r = Inl e \<and> should_retry strategy e)")
    case True
    then obtain e where e: "\<not> rq_stream rq" "r = Inl e" "should_retry strategy e" by blast
    obtain k where "retry_loop (logged tp) strategy rq (Some e) counts
        (log @ [rq], tp_sleep tp (sleep_period count) w') =
      (fst (retry_loop tp strategy rq (Some e) counts (tp_sleep tp (sleep_period count) w')),
       ((log @ [rq]) @ replicate k rq, snd (retry_loop tp strategy rq (Some e) counts (tp_sleep tp (sleep_period count) w'))))"
      using Cons.IH by blast
    then show ?thesis
      using e send by (auto simp: logged_def intro: exI [of _ "Suc k"])
  next
    case False
    then show ?thesis
      using send by (auto simp: logged_def intro: exI [of _ 1] split: sum.splits)
  qed
qed

lemma send_retrying_logged:
  "\<exists>k. send_retrying (logged tp) strategy rq (log, w) =
     (fst (send_retrying tp strategy rq w), (log @ replicate k rq, snd (send_retrying tp strategy rq w)))"
proof -
  obtain k where "make_retryable_request (logged tp) strategy rq (log, w) =
      (fst (make_retryable_request tp strategy rq w), (log @ replicate k rq, snd (make_retryable_request tp strategy rq w)))"
    using retry_loop_logged [of tp strategy rq None _ log w] unfolding make_retryable_request_def by blast
  then show ?thesis
    by (cases "make_retryable_request tp strategy rq w")
      (auto simp: send_retrying_def io_bind_def io_lift_def intro: exI [of _ k] split: sum.splits)
qed

lemma io_bind_fst_snd: "io_bind m f w = (case fst (m w) of Inl e \<Rightarrow> (Inl e, snd (m w)) | Inr x \<Rightarrow> f x (snd (m w)))"
  by (cases "m w") (auto simp: io_bind_def split: sum.splits)

lemma do_preflight_logged:
  "\<exists>k. do_preflight (logged tp) al c token url m hs (log, w) =
     (fst (do_preflight tp al c token url m hs w),
      (log @ replicate k (preflight_request c token url m hs), snd (do_preflight tp al c token url m hs w)))"
proof -
  obtain k where k: "send_retrying (logged tp) Timeout (preflight_request c token url m hs) (log, w) =
      (fst (send_retrying tp Timeout (preflight_request c token url m hs) w),
       (log @ replicate k (preflight_request c token url m hs),
        snd (send_retrying tp Timeout (preflight_request c token url m hs) w)))"
    using send_retrying_logged [of tp Timeout _ log w] by blast
  show ?thesis
    by (rule exI [of _ k])
      (simp add: do_preflight_def io_bind_fst_snd k io_lift_def split: sum.splits)
qed

lemma artifact_request_token: "has_token (artifact_request c token team_id team_slug m url allow) \<longleftrightarrow> allow"
  by (auto simp: has_token_def artifact_request_def add_team_params_def query_def header_def request_def bearer_def Let_def
      split: option.splits)

text \<open>
  C38: with preflight requests, the request for an artifact carries the token only when the server's
  answer to the preflight allows the header \<open>Authorization\<close>: a storage service that the answer redirects
  to does not get to see it otherwise.
\<close>

theorem get_artifact_token_withheld:
  assumes preflight: "ac_use_preflight c"
    and url: "artifact_url al c hash = Inr url"
    and run: "get_artifact (logged tp) al c hash token team_id team_slug m ([], w) = (r, (sent, w'))"
    and rq: "rq \<in> set sent" "has_token rq"
  shows "rq = preflight_request c token url ''GET'' ''Authorization, User-Agent'' \<or>
    (\<exists>pf. fst (do_preflight tp al c token url ''GET'' ''Authorization, User-Agent'' w) = Inr pf \<and>
      pf_allow_authorization_header pf \<and> rq_url rq = pf_location pf)"
proof -
  let ?pf = "do_preflight tp al c token url ''GET'' ''Authorization, User-Agent''"
  let ?prq = "preflight_request c token url ''GET'' ''Authorization, User-Agent''"
  obtain k where k: "do_preflight (logged tp) al c token url ''GET'' ''Authorization, User-Agent'' ([], w) =
      (fst (?pf w), (replicate k ?prq, snd (?pf w)))"
    using do_preflight_logged [of tp al c token url _ _ "[]" w] by fastforce
  show ?thesis
  proof (cases "fst (?pf w)")
    case (Inl e)
    then have "sent = replicate k ?prq"
      using run by (simp add: get_artifact_def url io_bind_fst_snd preflighted_def preflight k io_lift_def)
    then show ?thesis using rq by auto
  next
    case (Inr pf)
    let ?rq = "artifact_request c token team_id team_slug m (pf_location pf) (pf_allow_authorization_header pf)"
    obtain j where j: "send_retrying (logged tp) Timeout ?rq (replicate k ?prq, snd (?pf w)) =
       (fst (send_retrying tp Timeout ?rq (snd (?pf w))),
        (replicate k ?prq @ replicate j ?rq, snd (send_retrying tp Timeout ?rq (snd (?pf w)))))"
      using send_retrying_logged [of tp Timeout ?rq _ "snd (?pf w)"] by blast
    have "sent = replicate k ?prq @ replicate j ?rq"
      using run
      by (simp add: get_artifact_def url io_bind_fst_snd preflighted_def preflight k io_lift_def Inr
          j split: sum.splits if_splits prod.splits)
    then have "rq = ?prq \<or> rq = ?rq" using rq(1) by auto
    moreover have "rq_url ?rq = pf_location pf"
      by (simp add: artifact_request_def add_team_params_def query_def header_def request_def bearer_def Let_def
          split: option.splits)
    ultimately show ?thesis using rq(2) Inr artifact_request_token by blast
  qed
qed

text \<open>A server that sends the client to a storage service and allows the header.\<close>

definition storage_server :: "bool \<Rightarrow> unit transport" where
  "storage_server allow =
     \<lparr>tp_send = (\<lambda>rq w.
        (Inr (if rq_method rq = OPTIONS
              then \<lparr>rs_status = 200,
                    rs_headers = (''location'', ''http://storage/a'') #
                      (if allow then [(''access-control-allow-headers'', ''User-Agent, AUTHORIZATION'')] else []),
                    rs_url = rq_url rq, rs_body = Inr []\<rparr>
              else \<lparr>rs_status = 404, rs_headers = [], rs_url = rq_url rq, rs_body = Inr []\<rparr>), w)),
      tp_sleep = (\<lambda>n w. w)\<rparr>"

definition sample_libs :: api_libs where
  "sample_libs = \<lparr>al_url_parse = Inr, al_url_join = (\<lambda>base rel. Inr (base @ rel)), al_api_error = (\<lambda>s. Some (s, [])),
     al_token_error = (\<lambda>s. None), al_is_ci = False, al_ci_constant = None\<rparr>"

definition sample_client :: api_client where
  "sample_client = \<lparr>ac_base_url = ''http://api'', ac_user_agent = ''nrz'', ac_use_preflight = True\<rparr>"

definition sample_artifact_request :: http_request where
  "sample_artifact_request = artifact_request sample_client ''t'' None None GET ''http://storage/a'' True"

definition sample_sent :: "bool \<Rightarrow> http_request list" where
  "sample_sent allow =
     [preflight_request sample_client ''t'' ''http://api/v8/artifacts/a'' ''GET'' ''Authorization, User-Agent'',
      artifact_request sample_client ''t'' None None GET ''http://storage/a'' allow]"

lemma sample_run:
  "get_artifact (logged (storage_server True)) sample_libs sample_client ''a'' ''t'' None None GET ([], ()) =
     (Inr None, (sample_sent True, ()))"
  "get_artifact (logged (storage_server False)) sample_libs sample_client ''a'' ''t'' None None GET ([], ()) =
     (Inr None, (sample_sent False, ()))"
  by code_simp+

theorem get_artifact_token_withheld_witness:
  "sample_artifact_request = preflight_request sample_client ''t'' ''http://api/v8/artifacts/a'' ''GET'' ''Authorization, User-Agent'' \<or>
    (\<exists>pf. fst (do_preflight (storage_server True) sample_libs sample_client ''t'' ''http://api/v8/artifacts/a'' ''GET''
        ''Authorization, User-Agent'' ()) = Inr pf \<and>
      pf_allow_authorization_header pf \<and> rq_url sample_artifact_request = pf_location pf)"
proof (rule get_artifact_token_withheld [OF _ _ sample_run(1)])
  show "sample_artifact_request \<in> set (sample_sent True)"
    by (simp add: sample_sent_def sample_artifact_request_def)
qed code_simp+

lemma token_withheld_from_storage: "map has_token (sample_sent False) = [True, False]"
  by code_simp

end
