(* ===== verification/Cache_Archive.thy ===== *)
theory Cache_Archive
  imports File_System Api_Client
begin

text \<open>
  Cache archives: \<open>nrzrepo-cache/src/cache_archive\<close>. \<open>create.rs\<close> collects files into the entries of a
  tar archive; \<open>restore.rs\<close>, \<open>restore_directory.rs\<close>, \<open>restore_regular.rs\<close> and \<open>restore_symlink.rs\<close>
  write the entries below an anchor. The tar and zstd formats, \<open>path_clean::clean\<close> and the topological
  sort of \<open>petgraph\<close> are parameters. The errors are those of \<open>nrzrepo-cache/src/lib.rs\<close>; \<open>Aborted\<close> is
  none of them: it stands for the end of the process by a panic or an exhausted stack.
\<close>

datatype signature_error =
    NoSignatureSecretKey
  | Base64EncodingError
  | HmacInvalidLength

datatype entry_type = RegularEntry | DirectoryEntry | SymlinkEntry | OtherEntry string

datatype cache_error =
    CacheIO io_error
  | ArtifactTagMissing
  | InvalidTag
  | ApiClientError api_error
  | TimeoutError string
  | ConnectError
  | SignatureError signature_error
  | InvalidDuration
  | CachePath path_error
  | CycleDetected
  | LinkTargetDoesNotExist string
  | RestoreUnsupportedFileType entry_type
  | CreateUnsupportedFileType
  | MalformedTar
  | LinkOutsideOfDirectory string
  | InvalidMetadata
  | CacheShuttingDown
  | ForbiddenRemoteCacheWrite
  | Aborted

record tar_entry =
  te_type :: entry_type
  te_path :: string
  te_link :: "string option"
  te_mode :: fs_mode
  te_data :: string

record archive_libs =
  ar_append :: "tar_entry \<Rightarrow> io_error option"
  ar_encode :: "bool \<Rightarrow> tar_entry list \<Rightarrow> string"
  ar_decode :: "bool \<Rightarrow> string \<Rightarrow> (io_error, (io_error, tar_entry) result list) result"
  ar_clean :: "string \<Rightarrow> string"
  ar_toposort :: "nat \<Rightarrow> (nat \<times> nat) list \<Rightarrow> nat list option"

definition cache_io :: "(io_error, 'a) result \<Rightarrow> (cache_error, 'a) result" where
  "cache_io r = (case r of Inl e \<Rightarrow> Inl (CacheIO e) | Inr x \<Rightarrow> Inr x)"

definition cache_path :: "(path_error, 'a) result \<Rightarrow> (cache_error, 'a) result" where
  "cache_path r = (case r of Inl e \<Rightarrow> Inl (CachePath e) | Inr x \<Rightarrow> Inr x)"

type_synonym 'a fs_io = "(fs, cache_error, 'a) io"

definition fs_op :: "(fs \<Rightarrow> 'a fs_result) \<Rightarrow> 'a fs_io" where
  "fs_op f fs = (case f fs of (r, fs') \<Rightarrow> (cache_io r, fs'))"

definition fs_get :: "(fs \<Rightarrow> (cache_error, 'a) result) \<Rightarrow> 'a fs_io" where
  "fs_get f fs = (f fs, fs)"

subsection \<open>Creating\<close>

definition create_header :: "fs_node \<Rightarrow> (cache_error, entry_type \<times> fs_mode) result" where
  "create_header info =
     (case info of
        LinkNode t \<Rightarrow> Inr (SymlinkEntry, 0x1FF)
      | DirNode m \<Rightarrow> Inr (DirectoryEntry, m)
      | FileNode m s \<Rightarrow> Inr (RegularEntry, m)
      | OtherNode m \<Rightarrow> Inl CreateUnsupportedFileType)"

definition append_entry :: "archive_libs \<Rightarrow> tar_entry list \<Rightarrow> tar_entry \<Rightarrow> (cache_error, tar_entry list) result" where
  "append_entry al builder e = (case ar_append al e of Some err \<Rightarrow> Inl (CacheIO err) | None \<Rightarrow> Inr (builder @ [e]))"

definition add_file ::
  "archive_libs \<Rightarrow> fs \<Rightarrow> string \<Rightarrow> tar_entry list \<Rightarrow> string \<Rightarrow> (cache_error, tar_entry list) result" where
  "add_file al fs base builder file_path =
     (let source_path = resolve_path base file_path
      in try_bind (cache_io (fs_lstat fs source_path)) (\<lambda>info.
         try_bind (create_header info) (\<lambda>(ty, mode).
           let name = make_canonical_for_tar (is_dir_node (Some info)) file_path
           in case info of
                FileNode m s \<Rightarrow>
                  if s \<noteq> [] then
                    try_bind (cache_io (fs_read fs source_path)) (\<lambda>contents.
                      append_entry al builder \<lparr>te_type = ty, te_path = name, te_link = None, te_mode = mode, te_data = contents\<rparr>)
                  else append_entry al builder \<lparr>te_type = ty, te_path = name, te_link = None, te_mode = mode, te_data = []\<rparr>
              | LinkNode t \<Rightarrow>
                  try_bind (cache_io (fs_read_link fs source_path)) (\<lambda>target.
                    append_entry al builder \<lparr>te_type = ty, te_path = name, te_link = Some target, te_mode = mode, te_data = []\<rparr>)
              | _ \<Rightarrow> append_entry al builder \<lparr>te_type = ty, te_path = name, te_link = None, te_mode = mode, te_data = []\<rparr>)))"

text \<open>
  The loop over the files. The entries added before an error are returned with it: dropping the writer
  still finishes the archive.
\<close>

fun add_files ::
  "archive_libs \<Rightarrow> fs \<Rightarrow> string \<Rightarrow> tar_entry list \<Rightarrow> string list \<Rightarrow> cache_error option \<times> tar_entry list" where
  "add_files al fs base builder [] = (None, builder)"
| "add_files al fs base builder (file # files) =
     (case add_file al fs base builder file of
        Inl e \<Rightarrow> (Some e, builder)
      | Inr builder' \<Rightarrow> add_files al fs base builder' files)"

subsection \<open>The cached directory tree\<close>

record cached_dir_tree =
  dt_anchor_at_depth :: "string list"
  dt_prefix :: "string list"

definition dir_tree_new :: "string \<Rightarrow> cached_dir_tree" where
  "dir_tree_new initial_anchor = \<lparr>dt_anchor_at_depth = [initial_anchor], dt_prefix = []\<rparr>"

fun start_index :: "(string \<times> string) list \<Rightarrow> nat \<Rightarrow> nat \<Rightarrow> nat" where
  "start_index [] idx i = i"
| "start_index ((path_component, prefix_component) # rest) idx i =
     (if path_component \<noteq> prefix_component then idx else start_index rest (Suc idx) idx)"

definition get_starting_point :: "cached_dir_tree \<Rightarrow> string \<Rightarrow> (string \<times> nat \<times> cached_dir_tree) option" where
  "get_starting_point d path =
     (let i = start_index (zip (map component_str (path_components path)) (dt_prefix d)) 0 0
      in if i < length (dt_anchor_at_depth d)
         then Some (dt_anchor_at_depth d ! i, i,
           \<lparr>dt_anchor_at_depth = take (i + 1) (dt_anchor_at_depth d), dt_prefix = take i (dt_prefix d)\<rparr>)
         else None)"

definition dir_tree_update :: "cached_dir_tree \<Rightarrow> string \<Rightarrow> string \<Rightarrow> cached_dir_tree" where
  "dir_tree_update d base new_component =
     \<lparr>dt_anchor_at_depth = dt_anchor_at_depth d @ [base], dt_prefix = dt_prefix d @ [new_component]\<rparr>"

definition path_starts_with :: "string \<Rightarrow> string \<Rightarrow> bool" where
  "path_starts_with p base = prefix (path_components base) (path_components p)"

text \<open>The recursion follows relative links; the fuel is the depth of the stack.\<close>

fun restore_check_path ::
  "archive_libs \<Rightarrow> nat \<Rightarrow> fs \<Rightarrow> string \<Rightarrow> string \<Rightarrow> string \<Rightarrow> (cache_error, string) result" where
  "restore_check_path al 0 fs original_anchor accumulated_anchor segment = Inl Aborted"
| "restore_check_path al (Suc depth) fs original_anchor accumulated_anchor segment =
     (if RootDir \<in> set (path_components segment) then Inl (LinkOutsideOfDirectory segment)
      else
        let combined_path = resolve_path accumulated_anchor segment
        in case fs_lstat fs combined_path of
             Inl _ \<Rightarrow> Inr combined_path
           | Inr (LinkNode link_target) \<Rightarrow>
               if path_is_absolute link_target then
                 if path_starts_with (ar_clean al link_target) original_anchor then Inr link_target
                 else Inl (LinkOutsideOfDirectory link_target)
               else if path_starts_with (ar_clean al (resolve_path accumulated_anchor link_target)) original_anchor
               then restore_check_path al depth fs original_anchor accumulated_anchor link_target
               else Inl (LinkOutsideOfDirectory link_target)
           | Inr _ \<Rightarrow> Inr combined_path)"

fun check_components ::
  "archive_libs \<Rightarrow> nat \<Rightarrow> fs \<Rightarrow> string \<Rightarrow> string list \<Rightarrow> string \<Rightarrow> cached_dir_tree \<Rightarrow> (cache_error, cached_dir_tree) result" where
  "check_components al depth fs base [] calculated_anchor d = Inr d"
| "check_components al depth fs base (component # rest) calculated_anchor d =
     try_bind (cache_path (anchored_path_try_from component)) (\<lambda>segment.
     try_bind (restore_check_path al depth fs base calculated_anchor segment) (\<lambda>calculated_anchor'.
       check_components al depth fs base rest calculated_anchor' (dir_tree_update d calculated_anchor' component)))"

text \<open>Parameters of a restoration: the libraries, the stack and the umask of the process.\<close>

record restore_env =
  re_libs :: archive_libs
  re_depth :: nat
  re_umask :: fs_mode

definition safe_mkdir_all ::
  "restore_env \<Rightarrow> string \<Rightarrow> cached_dir_tree \<Rightarrow> string \<Rightarrow> fs_mode \<Rightarrow> cached_dir_tree fs_io" where
  "safe_mkdir_all re base d processed_name mode =
     (case get_starting_point d processed_name of
        None \<Rightarrow> io_lift (Inl Aborted)
      | Some (calculated_anchor, start_idx, d') \<Rightarrow>
          io_bind (fs_get (\<lambda>fs. check_components (re_libs re) (re_depth re) fs base
              (drop start_idx (map component_str (path_components processed_name))) calculated_anchor d')) (\<lambda>d''.
          let resolved_name = resolve_path base processed_name
          in io_bind (\<lambda>fs. if fs_try_exists fs resolved_name = Inr False
                           then fs_op (fs_create_dir_all (re_umask re) resolved_name) fs
                           else (Inr (), fs)) (\<lambda>_.
             io_bind (fs_get (\<lambda>fs. cache_io (fs_lstat fs resolved_name))) (\<lambda>_.
             io_bind (fs_op (fs_set_permissions mode resolved_name)) (\<lambda>_. io_lift (Inr d''))))))"

definition safe_mkdir_file :: "restore_env \<Rightarrow> string \<Rightarrow> cached_dir_tree \<Rightarrow> string \<Rightarrow> cached_dir_tree fs_io" where
  "safe_mkdir_file re base d processed_name =
     (case path_parent processed_name of
        None \<Rightarrow> io_lift (Inl Aborted)
      | Some dir \<Rightarrow>
          if path_components dir = [CurDir] \<or> path_components dir = [] then io_lift (Inr d)
          else safe_mkdir_all re base d dir 0x1ED)"

subsection \<open>Restoring entries\<close>

definition restore_directory ::
  "restore_env \<Rightarrow> string \<Rightarrow> cached_dir_tree \<Rightarrow> tar_entry \<Rightarrow> (string \<times> cached_dir_tree) fs_io" where
  "restore_directory re base d entry =
     io_bind (io_lift (cache_path (from_system_path (te_path entry)))) (\<lambda>processed_name.
     io_bind (safe_mkdir_all re base d processed_name (te_mode entry)) (\<lambda>d'.
       io_lift (Inr (processed_name, d'))))"

text \<open>Once a file could be opened its data is copied whole; a copy that fails in the middle, and leaves a shorter file, is not modelled.\<close>

definition restore_regular ::
  "restore_env \<Rightarrow> string \<Rightarrow> cached_dir_tree \<Rightarrow> tar_entry \<Rightarrow> (string \<times> cached_dir_tree) fs_io" where
  "restore_regular re base d entry =
     io_bind (io_lift (cache_path (from_system_path (te_path entry)))) (\<lambda>processed_name.
     io_bind (safe_mkdir_file re base d processed_name) (\<lambda>d'.
     io_bind (fs_op (fs_write (re_umask re) (te_mode entry) (resolve_path base processed_name) (te_data entry))) (\<lambda>_.
       io_lift (Inr (processed_name, d')))))"

definition canonicalize_linkname :: "archive_libs \<Rightarrow> string \<Rightarrow> string \<Rightarrow> string \<Rightarrow> (cache_error, string) result" where
  "canonicalize_linkname al base processed_name linkname =
     (let cleaned = ar_clean al linkname
      in if path_is_absolute cleaned then Inr cleaned
         else case path_parent (resolve_path base processed_name) of
                None \<Rightarrow> Inl Aborted
              | Some par \<Rightarrow> Inr (ar_clean al (resolve_path par cleaned)))"

text \<open>On unix both kinds of links are the same.\<close>

definition actually_restore_symlink ::
  "restore_env \<Rightarrow> string \<Rightarrow> cached_dir_tree \<Rightarrow> string \<Rightarrow> tar_entry \<Rightarrow> (string \<times> cached_dir_tree) fs_io" where
  "actually_restore_symlink re base d processed_name entry =
     io_bind (safe_mkdir_file re base d processed_name) (\<lambda>d'.
       let symlink_from = resolve_path base processed_name
       in io_bind (\<lambda>fs. (Inr (), snd (fs_remove_file symlink_from fs))) (\<lambda>_.
          case te_link entry of
            None \<Rightarrow> io_lift (Inl Aborted)
          | Some symlink_to \<Rightarrow>
              io_bind (fs_op (fs_symlink symlink_to symlink_from)) (\<lambda>_. io_lift (Inr (processed_name, d')))))"

definition restore_symlink ::
  "restore_env \<Rightarrow> string \<Rightarrow> cached_dir_tree \<Rightarrow> tar_entry \<Rightarrow> (string \<times> cached_dir_tree) fs_io" where
  "restore_symlink re base d entry =
     io_bind (io_lift (cache_path (from_system_path (te_path entry)))) (\<lambda>processed_name.
     io_bind (io_lift (case te_link entry of Some l \<Rightarrow> Inr l | None \<Rightarrow> Inl MalformedTar)) (\<lambda>linkname.
     io_bind (io_lift (canonicalize_linkname (re_libs re) base processed_name linkname)) (\<lambda>processed_linkname.
     io_bind (fs_get (\<lambda>fs. case fs_lstat fs processed_linkname of
                         Inl _ \<Rightarrow> Inl (LinkTargetDoesNotExist processed_linkname) | Inr _ \<Rightarrow> Inr ())) (\<lambda>_.
       actually_restore_symlink re base d processed_name entry))))"

definition restore_symlink_allow_missing_target ::
  "restore_env \<Rightarrow> string \<Rightarrow> cached_dir_tree \<Rightarrow> tar_entry \<Rightarrow> (string \<times> cached_dir_tree) fs_io" where
  "restore_symlink_allow_missing_target re base d entry =
     io_bind (io_lift (cache_path (from_system_path (te_path entry)))) (\<lambda>processed_name.
       actually_restore_symlink re base d processed_name entry)"

definition restore_entry ::
  "restore_env \<Rightarrow> string \<Rightarrow> cached_dir_tree \<Rightarrow> tar_entry \<Rightarrow> (string \<times> cached_dir_tree) fs_io" where
  "restore_entry re base d entry =
     (case te_type entry of
        DirectoryEntry \<Rightarrow> restore_directory re base d entry
      | RegularEntry \<Rightarrow> restore_regular re base d entry
      | SymlinkEntry \<Rightarrow> restore_symlink re base d entry
      | ty \<Rightarrow> io_lift (Inl (RestoreUnsupportedFileType ty)))"

fun restore_loop ::
  "restore_env \<Rightarrow> string \<Rightarrow> cached_dir_tree \<Rightarrow> string list \<Rightarrow> tar_entry list \<Rightarrow> (io_error, tar_entry) result list \<Rightarrow>
     (cached_dir_tree \<times> string list \<times> tar_entry list) fs_io" where
  "restore_loop re base d restored symlinks [] fs = (Inr (d, restored, symlinks), fs)"
| "restore_loop re base d restored symlinks (Inl e # entries) fs = (Inl (CacheIO e), fs)"
| "restore_loop re base d restored symlinks (Inr entry # entries) fs =
     (case restore_entry re base d entry fs of
        (Inl (LinkTargetDoesNotExist t), fs') \<Rightarrow>
          restore_loop re base d restored (symlinks @ [entry]) entries fs'
      | (Inl e, fs') \<Rightarrow> (Inl e, fs')
      | (Inr (restored_path, d'), fs') \<Rightarrow>
          restore_loop re base d' (restored @ [restored_path]) symlinks entries fs')"

subsection \<open>Links whose target did not exist\<close>

definition node_index :: "string list \<Rightarrow> string \<Rightarrow> nat option" where
  "node_index nodes name = map_of (zip nodes [0..<length nodes]) name"

definition or_insert_node :: "string list \<Rightarrow> string \<Rightarrow> nat \<times> string list" where
  "or_insert_node nodes name =
     (case node_index nodes name of
        Some i \<Rightarrow> (i, nodes)
      | None \<Rightarrow> (length nodes, nodes @ [name]))"

record link_graph =
  lg_nodes :: "string list"
  lg_edges :: "(nat \<times> nat) list"
  lg_entries :: "(string, tar_entry) hash_map"

fun build_link_graph ::
  "archive_libs \<Rightarrow> string \<Rightarrow> tar_entry list \<Rightarrow> link_graph \<Rightarrow> (cache_error, link_graph) result" where
  "build_link_graph al base [] g = Inr g"
| "build_link_graph al base (entry # entries) g =
     try_bind (cache_path (from_system_path (te_path entry))) (\<lambda>processed_name.
     try_bind (canonicalize_linkname al base processed_name processed_name) (\<lambda>processed_sourcename.
     try_bind (case te_link entry of Some l \<Rightarrow> Inr l | None \<Rightarrow> Inl Aborted) (\<lambda>linkname.
     try_bind (canonicalize_linkname al base processed_name linkname) (\<lambda>processed_linkname.
       let (source_node, nodes) = or_insert_node (lg_nodes g) processed_sourcename;
           (link_node, nodes) = or_insert_node nodes processed_linkname
       in build_link_graph al base entries
            \<lparr>lg_nodes = nodes, lg_edges = lg_edges g @ [(source_node, link_node)],
             lg_entries = hm_insert processed_sourcename entry (lg_entries g)\<rparr>))))"

fun restore_nodes ::
  "restore_env \<Rightarrow> string \<Rightarrow> link_graph \<Rightarrow> nat list \<Rightarrow> cached_dir_tree \<Rightarrow> string list \<Rightarrow> string list fs_io" where
  "restore_nodes re base g [] d restored fs = (Inr restored, fs)"
| "restore_nodes re base g (node # nodes) d restored fs =
     (if node \<ge> length (lg_nodes g) then (Inl Aborted, fs)
      else case hm_get (lg_entries g) (lg_nodes g ! node) of
        None \<Rightarrow> restore_nodes re base g nodes d restored fs
      | Some entry \<Rightarrow>
          (case restore_symlink_allow_missing_target re base d entry fs of
             (Inl e, fs') \<Rightarrow> (Inl e, fs')
           | (Inr (file, d'), fs') \<Rightarrow> restore_nodes re base g nodes d' (restored @ [file]) fs'))"

definition topologically_restore_symlinks ::
  "restore_env \<Rightarrow> string \<Rightarrow> cached_dir_tree \<Rightarrow> tar_entry list \<Rightarrow> string list fs_io" where
  "topologically_restore_symlinks re base d symlinks =
     io_bind (io_lift (build_link_graph (re_libs re) base symlinks \<lparr>lg_nodes = [], lg_edges = [], lg_entries = []\<rparr>)) (\<lambda>g.
     io_bind (io_lift (case ar_toposort (re_libs re) (length (lg_nodes g)) (lg_edges g) of
                         None \<Rightarrow> Inl CycleDetected | Some nodes \<Rightarrow> Inr nodes)) (\<lambda>nodes.
       restore_nodes re base g nodes d []))"

definition restore_entries ::
  "restore_env \<Rightarrow> string \<Rightarrow> (io_error, (io_error, tar_entry) result list) result \<Rightarrow> cached_dir_tree \<Rightarrow> string list fs_io" where
  "restore_entries re base entries d =
     io_bind (io_lift (cache_io entries)) (\<lambda>entries.
     io_bind (restore_loop re base d [] [] entries) (\<lambda>(d', restored, symlinks).
     io_bind (topologically_restore_symlinks re base d' symlinks) (\<lambda>restored_symlinks.
       io_lift (Inr (restored @ restored_symlinks)))))"

definition cache_restore :: "restore_env \<Rightarrow> string \<Rightarrow> bool \<Rightarrow> string \<Rightarrow> string list fs_io" where
  "cache_restore re base is_compressed archive =
     io_bind (fs_op (fs_create_dir_all (re_umask re) base)) (\<lambda>_.
       restore_entries re base (ar_decode (re_libs re) is_compressed archive) (dir_tree_new base))"

text \<open>\<open>Path::extension\<close> is \<open>zst\<close>.\<close>

definition has_zst_extension :: "string \<Rightarrow> bool" where
  "has_zst_extension p =
     (case rev (path_components p) of
        Normal name # _ \<Rightarrow> (case rsplit_once_str ''.'' name of Some (stem, ext) \<Rightarrow> stem \<noteq> [] \<and> ext = ''zst'' | None \<Rightarrow> False)
      | _ \<Rightarrow> False)"

definition cache_reader_open :: "fs \<Rightarrow> string \<Rightarrow> (cache_error, bool \<times> string) result" where
  "cache_reader_open fs path =
     try_bind (cache_io (fs_read fs path)) (\<lambda>bytes. Inr (has_zst_extension path, bytes))"

end
