(* ===== verification/Cache_Restore.thy ===== *)
theory Cache_Restore
  imports Cache_Archive
begin

unbundle bit_operations_syntax

text \<open>
  What restoring a cache archive does to the file system: it stays a tree; without symbolic links
  nothing changes outside of the anchor; files and directories come back. The operations that a
  restoration is made of are the interface \<open>restoration\<close>, interpreted once for each of the first two
  properties. Examples show where links, permissions and cycles of links are not handled.
\<close>

subsection \<open>Every restoration keeps the tree\<close>

text \<open>Invariants of computations on the file system, with what holds of their result.\<close>

definition io_inv :: "('w \<Rightarrow> bool) \<Rightarrow> ('a \<Rightarrow> bool) \<Rightarrow> ('w, 'e, 'a) io \<Rightarrow> bool" where
  "io_inv P Q m \<longleftrightarrow> (\<forall>w. P w \<longrightarrow> P (snd (m w)) \<and> (\<forall>x. fst (m w) = Inr x \<longrightarrow> Q x))"

lemma io_invI: "(\<And>w. P w \<Longrightarrow> P (snd (m w)) \<and> (\<forall>x. fst (m w) = Inr x \<longrightarrow> Q x)) \<Longrightarrow> io_inv P Q m"
  by (simp add: io_inv_def)

lemma io_inv_bind:
  assumes "io_inv P Q m" and "\<And>x. Q x \<Longrightarrow> io_inv P R (f x)"
  shows "io_inv P R (io_bind m f)"
proof (rule io_invI)
  fix w assume w: "P w"
  obtain r w' where m: "m w = (r, w')" by fastforce
  show "P (snd (io_bind m f w)) \<and> (\<forall>x. fst (io_bind m f w) = Inr x \<longrightarrow> R x)"
    using assms w m by (cases r) (force simp: io_inv_def io_bind_def)+
qed

lemma io_inv_lift: "(\<And>x. r = Inr x \<Longrightarrow> Q x) \<Longrightarrow> io_inv P Q (io_lift r)"
  by (simp add: io_inv_def io_lift_def)

lemma io_inv_get: "(\<And>w x. P w \<Longrightarrow> f w = Inr x \<Longrightarrow> Q x) \<Longrightarrow> io_inv P Q (fs_get f)"
  by (simp add: io_inv_def fs_get_def)

lemma io_inv_op: "(\<And>w. P w \<Longrightarrow> P (snd (f w))) \<Longrightarrow> io_inv P (\<lambda>_. True) (fs_op f)"
  by (auto simp: io_inv_def fs_op_def split: prod.splits) (metis snd_conv)

lemma io_inv_if: "io_inv P (\<lambda>_. True) m \<Longrightarrow> io_inv P (\<lambda>_. True) (\<lambda>w. if c w then m w else (Inr x, w))"
  by (simp add: io_inv_def)

lemma io_inv_weaken: "io_inv P Q m \<Longrightarrow> (\<And>x. Q x \<Longrightarrow> R x) \<Longrightarrow> io_inv P R m"
  by (simp add: io_inv_def)

lemma io_inv_lift_bind:
  "(\<And>x. r = Inr x \<Longrightarrow> io_inv P R (f x)) \<Longrightarrow> io_inv P R (io_bind (io_lift r) f)"
  by (cases r) (auto simp: io_inv_def)

lemma cache_path_Inr [simp]: "cache_path r = Inr x \<longleftrightarrow> r = Inr x"
  by (auto simp: cache_path_def split: sum.splits)

lemma cache_io_Inr [simp]: "cache_io r = Inr x \<longleftrightarrow> r = Inr x"
  by (auto simp: cache_io_def split: sum.splits)

text \<open>Only a link with a missing target is put off.\<close>

definition io_err :: "('e \<Rightarrow> bool) \<Rightarrow> ('w, 'e, 'a) io \<Rightarrow> bool" where
  "io_err Q m \<longleftrightarrow> (\<forall>w e. fst (m w) = Inl e \<longrightarrow> Q e)"

definition definite :: "cache_error \<Rightarrow> bool" where
  "definite e \<longleftrightarrow> (\<forall>t. e \<noteq> LinkTargetDoesNotExist t)"

lemma io_err_bind: "io_err Q m \<Longrightarrow> (\<And>x. io_err Q (f x)) \<Longrightarrow> io_err Q (io_bind m f)"
  unfolding io_err_def io_bind_def by (auto split: prod.splits sum.splits) (metis fst_conv)

lemma io_err_if: "io_err Q m \<Longrightarrow> io_err Q (\<lambda>w. if c w then m w else (Inr x, w))"
  by (simp add: io_err_def)

lemma io_err_lift: "(\<And>e. r = Inl e \<Longrightarrow> Q e) \<Longrightarrow> io_err Q (io_lift r)"
  by (simp add: io_err_def io_lift_def)

lemma io_err_get: "(\<And>fs e. f fs = Inl e \<Longrightarrow> Q e) \<Longrightarrow> io_err Q (fs_get f)"
  by (simp add: io_err_def fs_get_def)

lemma definite_io: "cache_io r = Inl e \<Longrightarrow> definite e"
  by (auto simp: cache_io_def definite_def split: sum.splits)

lemma definite_path: "cache_path r = Inl e \<Longrightarrow> definite e"
  by (auto simp: cache_path_def definite_def split: sum.splits)

lemma definite_op: "io_err definite (fs_op f)"
  by (auto simp: io_err_def fs_op_def intro: definite_io split: prod.splits)

lemma definite_check_path: "restore_check_path al depth fs oa acc seg = Inl e \<Longrightarrow> definite e"
  by (induction al depth fs oa acc seg rule: restore_check_path.induct)
    (auto simp: definite_def Let_def split: if_splits sum.splits fs_node.splits)

lemma definite_check_components: "check_components al depth fs base cs acc d = Inl e \<Longrightarrow> definite e"
  by (induction al depth fs base cs acc d rule: check_components.induct)
    (auto simp: try_bind_Inl intro: definite_path definite_check_path)

lemma definite_mkdir_all: "io_err definite (safe_mkdir_all re base d name mode)"
  unfolding safe_mkdir_all_def Let_def
  by (auto intro!: io_err_bind io_err_lift io_err_get io_err_if definite_op
      intro: definite_check_components definite_io simp: definite_def split: option.splits)

lemma definite_mkdir_file: "io_err definite (safe_mkdir_file re base d name)"
  unfolding safe_mkdir_file_def
  by (auto intro!: io_err_lift definite_mkdir_all simp: definite_def split: option.splits)

lemma deferred_entry:
  assumes "restore_entry re base d entry fs = (Inl (LinkTargetDoesNotExist t), fs')"
  shows "te_type entry = SymlinkEntry"
proof -
  have "io_err definite (restore_directory re base d entry)" "io_err definite (restore_regular re base d entry)"
    unfolding restore_directory_def restore_regular_def
    by (auto intro!: io_err_bind io_err_lift definite_mkdir_all definite_mkdir_file definite_op intro: definite_path)
  then show ?thesis
    using assms by (auto simp: restore_entry_def io_err_def definite_def split: entry_type.splits) (metis fst_conv)+
qed

lemma build_link_graph_entries:
  "build_link_graph al b es g = Inr g' \<Longrightarrow> hm_get (lg_entries g') k = Some e \<Longrightarrow>
     e \<in> set es \<or> hm_get (lg_entries g) k = Some e"
proof (induction es arbitrary: g)
  case (Cons e0 es)
  then obtain s nodes edges where
    "build_link_graph al b es \<lparr>lg_nodes = nodes, lg_edges = edges, lg_entries = hm_insert s e0 (lg_entries g)\<rparr> = Inr g'"
    by (auto simp: try_bind_Inr case_prod_beta Let_def)
  from Cons.IH [OF this Cons.prems(2)] show ?case by (auto split: if_splits)
qed simp

text \<open>
  The operations a restoration is made of. Whatever they keep, the restoration keeps; \<open>D\<close> is what is
  kept of the cached directory tree, \<open>E\<close> what is known of the entries.
\<close>

locale restoration =
  fixes P :: "fs \<Rightarrow> bool" and D :: "cached_dir_tree \<Rightarrow> bool" and E :: "tar_entry \<Rightarrow> bool"
    and re :: restore_env and base :: string
  assumes mkdirs: "D d \<Longrightarrow> from_system_path p = Inr name \<Longrightarrow> io_inv P D (safe_mkdir_all re base d name mode)"
    and mkfile: "D d \<Longrightarrow> from_system_path p = Inr name \<Longrightarrow> io_inv P D (safe_mkdir_file re base d name)"
    and writes: "from_system_path p = Inr name \<Longrightarrow> P fs \<Longrightarrow> P (snd (fs_write um mode (resolve_path base name) data fs))"
    and links: "D d \<Longrightarrow> E entry \<Longrightarrow> te_type entry = SymlinkEntry \<Longrightarrow> from_system_path p = Inr name \<Longrightarrow>
      io_inv P (\<lambda>(_, d'). D d') (actually_restore_symlink re base d name entry)"
begin

lemma restore_directory_inv: "D d \<Longrightarrow> io_inv P (\<lambda>(_, d'). D d') (restore_directory re base d entry)"
  unfolding restore_directory_def
  by (intro io_inv_lift_bind io_inv_bind [OF mkdirs]) (auto intro: io_inv_lift)

lemma restore_regular_inv: "D d \<Longrightarrow> io_inv P (\<lambda>(_, d'). D d') (restore_regular re base d entry)"
  unfolding restore_regular_def
  by (intro io_inv_lift_bind io_inv_bind [OF mkfile] io_inv_bind [OF io_inv_op]) (auto intro: io_inv_lift writes)

lemma restore_missing_inv:
  assumes "D d" and "E entry" and "te_type entry = SymlinkEntry"
  shows "io_inv P (\<lambda>(_, d'). D d') (restore_symlink_allow_missing_target re base d entry)"
  unfolding restore_symlink_allow_missing_target_def
  by (intro io_inv_lift_bind) (auto intro: links [OF assms])

lemma restore_symlink_inv:
  assumes "D d" and "E entry" and "te_type entry = SymlinkEntry"
  shows "io_inv P (\<lambda>(_, d'). D d') (restore_symlink re base d entry)"
  unfolding restore_symlink_def
  by (intro io_inv_lift_bind io_inv_bind [OF io_inv_get [where Q = "\<lambda>_. True"]])
    (auto intro: links [OF assms])

lemma restore_entry_inv:
  assumes "D d" and "E entry"
  shows "io_inv P (\<lambda>(_, d'). D d') (restore_entry re base d entry)"
proof (cases "te_type entry")
  case (OtherEntry ty)
  then show ?thesis by (auto simp: restore_entry_def intro: io_inv_lift)
qed (simp_all add: restore_entry_def assms restore_directory_inv restore_regular_inv restore_symlink_inv)

definition deferred_ok :: "tar_entry list \<Rightarrow> bool" where
  "deferred_ok es \<longleftrightarrow> (\<forall>e \<in> set es. E e \<and> te_type e = SymlinkEntry)"

lemma restore_loop_inv:
  assumes "\<forall>entry. Inr entry \<in> set es \<longrightarrow> E entry" and "D d" and "deferred_ok symlinks"
  shows "io_inv P (\<lambda>(d', r, s). D d' \<and> deferred_ok s) (restore_loop re base d restored symlinks es)"
  using assms
proof (induction es arbitrary: d restored symlinks)
  case Nil
  then show ?case by (simp add: io_inv_def)
next
  case (Cons x es)
  show ?case
  proof (cases x)
    case (Inl e)
    then show ?thesis by (simp add: io_inv_def)
  next
    case (Inr entry)
    then have E: "E entry" using Cons.prems(1) by simp
    have rest: "\<forall>entry. Inr entry \<in> set es \<longrightarrow> E entry" using Cons.prems(1) by simp
    show ?thesis
    proof (rule io_invI)
      fix w assume w: "P w"
      obtain r w' where run: "restore_entry re base d entry w = (r, w')" by fastforce
      have step: "P w'" "\<And>p d'. r = Inr (p, d') \<Longrightarrow> D d'"
        using restore_entry_inv [OF Cons.prems(2) E] w run by (auto simp: io_inv_def dest!: spec [of _ w])
      have put_off: "r = Inl (LinkTargetDoesNotExist t) \<Longrightarrow> deferred_ok (symlinks @ [entry])" for t
        using deferred_entry run E Cons.prems(3) by (auto simp: deferred_ok_def)
      show "P (snd (restore_loop re base d restored symlinks (x # es) w)) \<and>
        (\<forall>y. fst (restore_loop re base d restored symlinks (x # es) w) = Inr y \<longrightarrow>
          (case y of (d', r, s) \<Rightarrow> D d' \<and> deferred_ok s))"
        using step Cons.IH [OF rest Cons.prems(2) put_off] Cons.IH [OF rest _ Cons.prems(3)]
        unfolding Inr io_inv_def by (auto simp: run split: sum.splits cache_error.splits prod.splits)
    qed
  qed
qed

lemma restore_nodes_inv:
  assumes "\<forall>k e. hm_get (lg_entries g) k = Some e \<longrightarrow> E e \<and> te_type e = SymlinkEntry" and "D d"
  shows "io_inv P (\<lambda>_. True) (restore_nodes re base g ns d restored)"
  using assms(2)
proof (induction ns arbitrary: d restored)
  case Nil
  then show ?case by (simp add: io_inv_def)
next
  case (Cons n ns)
  show ?case
  proof (rule io_invI)
    fix w assume w: "P w"
    show "P (snd (restore_nodes re base g (n # ns) d restored w)) \<and>
      (\<forall>x. fst (restore_nodes re base g (n # ns) d restored w) = Inr x \<longrightarrow> True)"
    proof (cases "hm_get (lg_entries g) (lg_nodes g ! n)")
      case None
      then show ?thesis using Cons w by (simp add: io_inv_def)
    next
      case (Some entry)
      then have entry: "E entry" "te_type entry = SymlinkEntry" using assms(1) by auto
      obtain r w' where run: "restore_symlink_allow_missing_target re base d entry w = (r, w')" by fastforce
      have "P w'" "\<And>p d'. r = Inr (p, d') \<Longrightarrow> D d'"
        using restore_missing_inv [OF Cons.prems entry] w run by (auto simp: io_inv_def dest!: spec [of _ w])
      then show ?thesis
        using Cons.IH w by (auto simp: Some run io_inv_def split: sum.splits)
    qed
  qed
qed

lemma restore_entries_inv:
  assumes "D d" and "\<And>es entry. entries = Inr es \<Longrightarrow> Inr entry \<in> set es \<Longrightarrow> E entry"
  shows "io_inv P (\<lambda>_. True) (restore_entries re base entries d)"
proof -
  have links_inv: "D d' \<Longrightarrow> deferred_ok s \<Longrightarrow> io_inv P (\<lambda>_. True) (topologically_restore_symlinks re base d' s)" for d' s
    unfolding topologically_restore_symlinks_def
    by (intro io_inv_lift_bind restore_nodes_inv)
      (auto simp: deferred_ok_def dest!: build_link_graph_entries)
  show ?thesis
    unfolding restore_entries_def
    by (intro io_inv_lift_bind io_inv_bind [OF restore_loop_inv])
      (use assms in \<open>auto simp: deferred_ok_def intro!: io_inv_bind [OF links_inv] io_inv_lift\<close>)
qed

end

subsection \<open>Well-formed trees\<close>

lemma safe_mkdir_all_tree: "io_inv fs_ok (\<lambda>_. True) (safe_mkdir_all re base d name mode)"
  unfolding safe_mkdir_all_def Let_def
  by (auto intro!: io_inv_bind [where Q = "\<lambda>_. True"] io_inv_lift io_inv_get io_inv_if io_inv_op
      simp: fs_create_dir_all_def fs_preserves split: option.splits)

lemma safe_mkdir_file_tree: "io_inv fs_ok (\<lambda>_. True) (safe_mkdir_file re base d name)"
  unfolding safe_mkdir_file_def by (auto intro!: io_inv_lift safe_mkdir_all_tree split: option.splits)

lemma actually_restore_symlink_tree: "io_inv fs_ok (\<lambda>(_, d'). True) (actually_restore_symlink re base d name entry)"
proof -
  have remove: "io_inv fs_ok (\<lambda>_. True) (\<lambda>fs. (Inr (), snd (fs_remove_file p fs)))" for p
    by (simp add: io_inv_def fs_preserves)
  show ?thesis
    unfolding actually_restore_symlink_def Let_def
    by (auto intro!: io_inv_bind [where Q = "\<lambda>_. True"] safe_mkdir_file_tree remove io_inv_lift io_inv_op
        simp: fs_preserves split: option.splits)
qed

interpretation tree: restoration fs_ok "\<lambda>_. True" "\<lambda>_. True" re base for re base
  by unfold_locales
    (simp_all add: safe_mkdir_all_tree safe_mkdir_file_tree fs_preserves actually_restore_symlink_tree case_prod_beta)

lemma restore_ok: "fs_ok fs \<Longrightarrow> fs_ok (snd (cache_restore re base is_compressed archive fs))"
proof -
  have "io_inv fs_ok (\<lambda>_. True) (cache_restore re base is_compressed archive)"
    unfolding cache_restore_def
    by (intro io_inv_bind [where Q = "\<lambda>_. True"] io_inv_op tree.restore_entries_inv)
      (simp_all add: fs_create_dir_all_def fs_preserves)
  then show "fs_ok fs \<Longrightarrow> fs_ok (snd (cache_restore re base is_compressed archive fs))" by (simp add: io_inv_def)
qed

text \<open>
  Whatever bytes are restored as an archive, at whatever anchor, and whether it succeeds or not, the
  file system stays a tree: the root is a directory, and everything else is in a directory.
\<close>

lemma cache_restore_tree:
  assumes "fs_ok fs"
  shows "fs_ok (snd (cache_restore re base is_compressed archive fs))"
  by (rule restore_ok [OF assms])

subsection \<open>Where a restoration writes\<close>

definition at_loc :: "string \<Rightarrow> loc \<Rightarrow> bool" where
  "at_loc p l \<longleftrightarrow> path_is_absolute p \<and> path_components p = abs_path l"

lemma component_relative:
  assumes "good_name c"
  shows "path_components c = [Normal c]" and "\<not> path_is_absolute c" and "split_on SLASH c = [c]"
proof -
  show split: "split_on SLASH c = [c]" using assms by (simp add: good_name_def split_on_no_occ)
  show abs: "\<not> path_is_absolute c"
    using assms by (cases c) (simp_all add: good_name_def path_is_absolute_def)
  show "path_components c = [Normal c]"
    using assms abs unfolding path_components_def split
    by (simp add: good_name_def component_of_def path_is_absolute_def)
qed

lemma at_loc_join:
  assumes "at_loc acc l" and "good_name c"
  shows "at_loc (resolve_path acc c) (l @ [c])" and "os_path (resolve_path acc c) = abs_path (l @ [c])"
proof -
  have acc: "path_components acc = abs_path l" "path_is_absolute acc" using assms(1) by (auto simp: at_loc_def)
  have c: "good_names (split_on SLASH c)" using component_relative(3) [OF assms(2)] assms(2) by simp
  have "path_is_absolute (path_join acc c)"
    using acc(2) by (cases acc) (auto simp: path_join_def path_is_absolute_def)
  with os_path_join [OF acc c] show "at_loc (resolve_path acc c) (l @ [c])" "os_path (resolve_path acc c) = abs_path (l @ [c])"
    by (auto simp: at_loc_def resolve_path_def component_relative(3) [OF assms(2)])
qed

lemma lstat_sealed:
  assumes "sealed L A fs" and "inside L A ns" and "os_path p = abs_path (A @ ns)"
  shows "fs_lstat fs p \<noteq> Inr (LinkNode t)"
proof
  assume "fs_lstat fs p = Inr (LinkNode t)"
  then obtain l where l: "fs_locate fs False (abs_path (A @ ns)) = Inr l" "fs l = Some (LinkNode t)"
    unfolding fs_lstat_def fs_node_at_def assms(3) by (auto simp: try_bind_Inr split: option.splits)
  with fs_locate_sealed [OF assms(1,2) l(1)] sealedD(3) [OF assms(1), of l] inside_last [OF assms(2)] show False by simp
qed

lemma check_path_sealed:
  assumes "sealed L A fs" and "at_loc acc (A @ ns)" and "inside L A (ns @ [c])" and "good_name c"
  shows "restore_check_path al (Suc n) fs oa acc c = Inr (resolve_path acc c)"
proof -
  have "os_path (resolve_path acc c) = abs_path (A @ ns @ [c])" using at_loc_join(2) [OF assms(2,4)] by simp
  from lstat_sealed [OF assms(1,3) this] have "fs_lstat fs (resolve_path acc c) \<noteq> Inr (LinkNode t)" for t .
  moreover have "RootDir \<notin> set (path_components c)"
    using component_relative(1) [OF assms(4)] by simp
  ultimately show ?thesis by (auto simp: Let_def split: sum.splits fs_node.splits)
qed

text \<open>
  The cache has one anchor more than components, so that the index into it is in range, and its
  anchors are the locations of its components.
\<close>

definition dir_tree_ok :: "cached_dir_tree \<Rightarrow> bool" where
  "dir_tree_ok d \<longleftrightarrow> length (dt_anchor_at_depth d) = Suc (length (dt_prefix d))"

definition tree_inv :: "loc \<Rightarrow> cached_dir_tree \<Rightarrow> bool" where
  "tree_inv A d \<longleftrightarrow> dir_tree_ok d \<and>
     (\<forall>i \<le> length (dt_prefix d). at_loc (dt_anchor_at_depth d ! i) (A @ take i (dt_prefix d)))"

lemma tree_inv_update:
  assumes "tree_inv A d" and "at_loc p (A @ dt_prefix d @ [c])"
  shows "tree_inv A (dir_tree_update d p c)"
  using assms by (auto simp: tree_inv_def dir_tree_ok_def dir_tree_update_def nth_append le_Suc_eq)

lemma check_components_sealed:
  assumes "sealed L A fs" and "good_names cs" and "inside L A (dt_prefix d @ cs)"
    and "tree_inv A d" and "at_loc acc (A @ dt_prefix d)"
  shows "\<exists>d'. check_components al (Suc n) fs oa cs acc d = Inr d' \<and> tree_inv A d'"
  using assms(2-)
proof (induction cs arbitrary: acc d)
  case (Cons c cs)
  have c: "good_name c" using Cons.prems(1) by simp
  have "inside L A (dt_prefix d @ [c])" using Cons.prems(2) inside_append [of L A "dt_prefix d @ [c]" cs] by simp
  from check_path_sealed [OF assms(1) Cons.prems(4) this c]
  have check: "restore_check_path al (Suc n) fs oa acc c = Inr (resolve_path acc c)" .
  have loc: "at_loc (resolve_path acc c) (A @ dt_prefix d @ [c])" using at_loc_join(1) [OF Cons.prems(4) c] by simp
  have "anchored_path_try_from c = Inr c"
    using component_relative(2) [OF c] by (simp add: anchored_path_try_from_def)
  moreover have "\<exists>d'. check_components al (Suc n) fs oa cs (resolve_path acc c) (dir_tree_update d (resolve_path acc c) c) = Inr d' \<and> tree_inv A d'"
    using Cons.IH [OF _ _ tree_inv_update [OF Cons.prems(3) loc]] Cons.prems loc by (simp add: dir_tree_update_def)
  ultimately show ?case using check by (simp add: cache_path_def del: restore_check_path.simps)
qed simp

lemma names_of_path:
  assumes "from_system_path p = Inr name"
  shows "good_names (split_on SLASH name)"
proof -
  have "name = strip_slash p" and "pv_well_formed (check_path p)"
    using assms by (auto simp: from_system_path_def strip_slash_def split: if_splits)
  then have "set (split_on SLASH name) \<inter> {[], ''.'', ''..''} = {}" by (simp add: check_path_segments)
  then show ?thesis using split_on_no_delim [of _ SLASH name] by (auto simp: list_all_iff good_name_def)
qed

lemma anchored_components:
  assumes "good_names (split_on SLASH name)"
  shows "path_components name = map Normal (split_on SLASH name)"
    and "map component_str (path_components name) = split_on SLASH name"
proof -
  have "hd (split_on SLASH name) \<noteq> []" "hd (split_on SLASH name) \<noteq> ''.''"
    using assms by (cases "split_on SLASH name"; simp add: good_name_def)+
  moreover from this(1) have "\<not> starts_with name ''/''" using split_on_hd by blast
  ultimately show comps: "path_components name = map Normal (split_on SLASH name)"
    using components_inner [OF assms] by (simp add: path_components_def join_split_on Let_def)
  show "map component_str (path_components name) = split_on SLASH name"
    unfolding comps by (simp add: component_str_def o_def)
qed

lemma start_index_spec:
  assumes "zs \<noteq> []"
  shows "idx \<le> start_index zs idx i \<and> start_index zs idx i < idx + length zs \<and>
    (\<forall>j < start_index zs idx i - idx. fst (zs ! j) = snd (zs ! j))"
  using assms
proof (induction zs idx i rule: start_index.induct)
  case (2 a b rest idx i)
  show ?case
  proof (cases "a = b \<and> rest \<noteq> []")
    case True
    then have eq: "start_index ((a, b) # rest) idx i = start_index rest (Suc idx) idx" by simp
    have IH: "Suc idx \<le> start_index rest (Suc idx) idx \<and> start_index rest (Suc idx) idx < Suc idx + length rest \<and>
      (\<forall>j < start_index rest (Suc idx) idx - Suc idx. fst (rest ! j) = snd (rest ! j))"
      using 2 True by simp
    have "fst (((a, b) # rest) ! j) = snd (((a, b) # rest) ! j)" if "j < start_index rest (Suc idx) idx - idx" for j
      using IH that True by (cases j) auto
    with IH eq show ?thesis by auto
  qed (cases rest; auto)
qed simp

lemma tree_inv_start:
  assumes "tree_inv A d" and cs: "cs = map component_str (path_components path)"
  obtains i d' where "get_starting_point d path = Some (dt_anchor_at_depth d ! i, i, d')"
    and "tree_inv A d'" and "dt_prefix d' = take i cs" and "at_loc (dt_anchor_at_depth d ! i) (A @ take i cs)"
proof -
  let ?zs = "zip cs (dt_prefix d)"
  define i where "i = start_index ?zs 0 0"
  have i: "i \<le> length (dt_prefix d) \<and> take i cs = take i (dt_prefix d)"
  proof (cases "?zs = []")
    case True
    then have "i = 0" by (simp only: i_def start_index.simps)
    then show ?thesis by simp
  next
    case False
    have spec: "i < length ?zs" "\<forall>j < i. fst (?zs ! j) = snd (?zs ! j)"
      using start_index_spec [OF False, of 0 0] unfolding i_def add_0 diff_zero by blast+
    then have "take i cs = take i (dt_prefix d)" by (auto simp: list_eq_iff_nth_eq)
    with spec show ?thesis by simp
  qed
  have start: "get_starting_point d path = Some (dt_anchor_at_depth d ! i, i,
      \<lparr>dt_anchor_at_depth = take (i + 1) (dt_anchor_at_depth d), dt_prefix = take i (dt_prefix d)\<rparr>)"
    using assms(1) i by (simp add: get_starting_point_def cs [symmetric] i_def [symmetric] tree_inv_def dir_tree_ok_def)
  show ?thesis
    by (rule that [OF start]) (use assms(1) i in \<open>auto simp: tree_inv_def dir_tree_ok_def min_def\<close>)
qed

text \<open>Where a run restores to: an absolute path without dots that is not the root.\<close>

definition anchored_at :: "loc \<Rightarrow> string \<Rightarrow> bool" where
  "anchored_at A base \<longleftrightarrow> at_loc base A \<and> A \<noteq> []"

definition restore_inv :: "loc set \<Rightarrow> loc \<Rightarrow> string \<Rightarrow> fs \<Rightarrow> fs \<Rightarrow> bool" where
  "restore_inv L A base fs0 fs \<longleftrightarrow> anchored_at A base \<and> keeps L A fs0 fs"

lemma restore_invD:
  assumes "restore_inv L A base fs0 fs" and "good_names (split_on SLASH name)"
  shows "sealed L A fs" and "os_path (resolve_path base name) = abs_path (A @ split_on SLASH name)"
    and "path_components (resolve_path base name) = abs_path (A @ split_on SLASH name)"
  using assms os_path_join [of base A name]
  by (auto simp: restore_inv_def anchored_at_def at_loc_def keeps_def resolve_path_def)

lemma restore_inv_step:
  "restore_inv L A base fs0 fs \<Longrightarrow> keeps L A fs fs' \<Longrightarrow> restore_inv L A base fs0 fs'"
  by (auto simp: restore_inv_def intro: keeps_trans)

lemma tree_inv_new: "anchored_at A base \<Longrightarrow> tree_inv A (dir_tree_new base)"
  by (simp add: tree_inv_def dir_tree_ok_def dir_tree_new_def anchored_at_def)

lemma safe_mkdir_all_check:
  assumes "tree_inv A d" and "good_names (split_on SLASH name)" and "inside L A (split_on SLASH name)"
  obtains i d' where "get_starting_point d name = Some (dt_anchor_at_depth d ! i, i, d')"
    and "\<And>fs al n. sealed L A fs \<Longrightarrow>
      \<exists>d''. check_components al (Suc n) fs base (drop i (map component_str (path_components name))) (dt_anchor_at_depth d ! i) d' = Inr d'' \<and>
        tree_inv A d''"
    and "\<And>fs al n d''. sealed L A fs \<Longrightarrow>
      check_components al n fs base (drop i (map component_str (path_components name))) (dt_anchor_at_depth d ! i) d' = Inr d'' \<Longrightarrow>
      tree_inv A d''"
proof -
  let ?cs = "map component_str (path_components name)"
  have cs: "?cs = split_on SLASH name" by (rule anchored_components(2) [OF assms(2)])
  obtain i d' where start: "get_starting_point d name = Some (dt_anchor_at_depth d ! i, i, d')"
    "tree_inv A d'" "dt_prefix d' = take i ?cs" "at_loc (dt_anchor_at_depth d ! i) (A @ take i ?cs)"
    using tree_inv_start [OF assms(1) refl] .
  have good: "good_names (drop i ?cs)" using assms(2) cs by (auto simp: list_all_iff dest: in_set_dropD)
  have ok: "\<exists>d''. check_components al (Suc n) fs base (drop i ?cs) (dt_anchor_at_depth d ! i) d' = Inr d'' \<and> tree_inv A d''"
    if "sealed L A fs" for fs al n
    using check_components_sealed [OF that good _ start(2)] start(3,4) assms(3) cs by simp
  show ?thesis
  proof (rule that [OF start(1) ok])
    fix fs al n d''
    assume sealed: "sealed L A fs"
      and run: "check_components al n fs base (drop i ?cs) (dt_anchor_at_depth d ! i) d' = Inr d''"
    show "tree_inv A d''"
    proof (cases n)
      case 0
      with run have "d'' = d'" by (cases "drop i ?cs") (auto simp: try_bind_Inr)
      with start(2) show ?thesis by simp
    next
      case (Suc m)
      then show ?thesis using ok [OF sealed, of al m] run by auto
    qed
  qed
qed

lemma safe_mkdir_all_below:
  assumes "tree_inv A d" and "good_names (split_on SLASH name)" and "inside L A (split_on SLASH name)"
  shows "io_inv (restore_inv L A base fs0) (tree_inv A) (safe_mkdir_all re base d name mode)"
proof -
  obtain i d' where start: "get_starting_point d name = Some (dt_anchor_at_depth d ! i, i, d')"
    and checked: "\<And>fs al n d''. sealed L A fs \<Longrightarrow>
      check_components al n fs base (drop i (map component_str (path_components name))) (dt_anchor_at_depth d ! i) d' = Inr d'' \<Longrightarrow>
      tree_inv A d''"
    using safe_mkdir_all_check [OF assms] by metis
  have dirs: "restore_inv L A base fs0 (snd (fs_create_dir_all um (resolve_path base name) fs))"
    "restore_inv L A base fs0 (snd (fs_set_permissions mode (resolve_path base name) fs))"
    if inv: "restore_inv L A base fs0 fs" for um fs
    using restore_invD [OF inv assms(2)] assms(3)
    by (auto intro!: restore_inv_step [OF inv] fs_create_dir_all_keeps fs_set_permissions_keeps)
  show ?thesis
    unfolding safe_mkdir_all_def start option.case prod.case Let_def
    by (rule io_inv_bind [OF io_inv_get [where Q = "tree_inv A"]], erule checked [OF restore_invD(1) [OF _ assms(2)], rotated],
        assumption,
        intro io_inv_bind [OF io_inv_if] io_inv_bind [OF io_inv_get [where Q = "\<lambda>_. True"]] io_inv_bind [OF io_inv_op]
          io_inv_op io_inv_lift)
      (auto intro: dirs)
qed

lemma path_parent_names:
  assumes "good_names (split_on SLASH name)"
  shows "path_parent name = Some (join_with ''/'' (butlast (split_on SLASH name)))"
    and "butlast (split_on SLASH name) \<noteq> [] \<Longrightarrow>
      split_on SLASH (join_with ''/'' (butlast (split_on SLASH name))) = butlast (split_on SLASH name)"
    and "good_names (butlast (split_on SLASH name))"
proof -
  let ?ns = "split_on SLASH name"
  show good: "good_names (butlast ?ns)" using assms by (auto simp: list_all_iff dest: in_set_butlastD)
  have "path_components name \<noteq> []" "path_components name \<noteq> [RootDir]"
    using anchored_components(1) [OF assms] by auto
  moreover have "path_of_components (map Normal (butlast ?ns)) = join_with ''/'' (butlast ?ns)"
    by (subst path_of_relative) (auto simp: component_str_def o_def)
  ultimately show "path_parent name = Some (join_with ''/'' (butlast ?ns))"
    using anchored_components(1) [OF assms] by (simp add: path_parent_def Let_def map_butlast)
  show "split_on SLASH (join_with ''/'' (butlast ?ns)) = butlast ?ns" if "butlast ?ns \<noteq> []"
    using that good by (intro split_on_join) (auto simp: list_all_iff good_name_def)
qed

text \<open>Making the parent of a file: nothing at the top, the directory otherwise.\<close>

lemma safe_mkdir_file_cases:
  assumes "good_names (split_on SLASH name)"
  shows "butlast (split_on SLASH name) = [] \<Longrightarrow> safe_mkdir_file re base d name = io_lift (Inr d)"
    and "butlast (split_on SLASH name) \<noteq> [] \<Longrightarrow>
      safe_mkdir_file re base d name = safe_mkdir_all re base d (join_with ''/'' (butlast (split_on SLASH name))) 0x1ED"
proof -
  let ?ms = "butlast (split_on SLASH name)"
  note parent = path_parent_names [OF assms]
  show "?ms = [] \<Longrightarrow> safe_mkdir_file re base d name = io_lift (Inr d)"
    by (simp add: safe_mkdir_file_def parent(1) path_components_def)
  assume ne: "?ms \<noteq> []"
  have "path_components (join_with ''/'' ?ms) = map Normal ?ms"
    using anchored_components(1) [of "join_with ''/'' ?ms"] parent(2) [OF ne] parent(3) by simp
  then show "safe_mkdir_file re base d name = safe_mkdir_all re base d (join_with ''/'' ?ms) 0x1ED"
    using ne by (simp add: safe_mkdir_file_def parent(1) map_eq_Cons_conv)
qed

lemma inside_butlast: "inside L A ns \<Longrightarrow> inside L A (butlast ns)"
  by (cases ns rule: rev_cases) (auto dest: inside_append)

lemma safe_mkdir_file_below:
  assumes "tree_inv A d" and "good_names (split_on SLASH name)" and "inside L A (split_on SLASH name)"
  shows "io_inv (restore_inv L A base fs0) (tree_inv A) (safe_mkdir_file re base d name)"
proof (cases "butlast (split_on SLASH name) = []")
  case True
  then show ?thesis using assms(1) by (auto simp: safe_mkdir_file_cases [OF assms(2)] intro: io_inv_lift)
next
  case False
  note split = path_parent_names(2) [OF assms(2) False]
  show ?thesis
    unfolding safe_mkdir_file_cases(2) [OF assms(2) False]
    by (rule safe_mkdir_all_below [OF assms(1)])
      (simp_all only: split path_parent_names(3) [OF assms(2)] inside_butlast [OF assms(3)])
qed

subsection \<open>Archives without links stay below the anchor\<close>

interpretation sealed: restoration "restore_inv {l. prefix A l} A base fs0" "tree_inv A" "\<lambda>e. te_type e \<noteq> SymlinkEntry" re base
  for A base fs0 re
proof unfold_locales
  fix p name fs um mode data
  assume "from_system_path p = Inr name" and inv: "restore_inv {l. prefix A l} A base fs0 fs"
  then show "restore_inv {l. prefix A l} A base fs0 (snd (fs_write um mode (resolve_path base name) data fs))"
    using restore_invD [OF inv names_of_path] inside_below by (blast intro: restore_inv_step [OF inv] fs_write_keeps)
qed (auto intro: safe_mkdir_all_below safe_mkdir_file_below names_of_path inside_below)

text \<open>
  C31: restoring an archive that holds no symbolic links, to a directory below which there are none,
  changes nothing outside of that directory, whatever names the entries have, and even when it ends
  with an error; and it leaves no links below.
\<close>

theorem cache_restore_confined:
  assumes base: "anchored_at A base" and sealed: "sealed {l. prefix A l} A fs"
    and entries: "\<And>es entry. ar_decode (re_libs re) is_compressed archive = Inr es \<Longrightarrow> Inr entry \<in> set es \<Longrightarrow>
      te_type entry \<noteq> SymlinkEntry"
  shows "confined A fs (snd (cache_restore re base is_compressed archive fs)) \<and>
    sealed {l. prefix A l} A (snd (cache_restore re base is_compressed archive fs))"
proof -
  let ?L = "{l. prefix A l}"
  have init: "restore_inv ?L A base fs fs" using base sealed by (simp add: restore_inv_def keeps_refl)
  have dirs: "restore_inv ?L A base fs (snd (fs_create_dir_all um base w))" if "restore_inv ?L A base fs w" for um w
    using that fs_create_dir_all_keeps [of ?L A w base "[]" um]
    by (auto simp: restore_inv_def anchored_at_def at_loc_def keeps_def intro: confined_trans)
  have "io_inv (restore_inv ?L A base fs) (\<lambda>_. True) (cache_restore re base is_compressed archive)"
    unfolding cache_restore_def
    by (intro io_inv_bind [OF io_inv_op] sealed.restore_entries_inv tree_inv_new base) (auto intro: dirs dest: entries)
  with init show ?thesis by (auto simp: io_inv_def restore_inv_def keeps_def)
qed

subsection \<open>What is archived comes back\<close>

text \<open>Nothing but directories on the way to a location.\<close>

definition clear_way :: "fs \<Rightarrow> loc \<Rightarrow> loc \<Rightarrow> bool" where
  "clear_way fs A ns \<longleftrightarrow> (\<forall>i \<le> length ns. fs (A @ take i ns) = None \<or> is_dir_node (fs (A @ take i ns)))"

lemma clear_way_butlast: "clear_way fs A ns \<Longrightarrow> clear_way fs A (butlast ns)"
  by (auto simp: clear_way_def butlast_conv_take min_def)

lemma missing_not_found:
  assumes "sealed L A fs" and "clear_way fs A ns" and "fs (A @ ns) = None"
  shows "fs_node_at fs follow (abs_path (A @ ns)) = Inl NotFound"
proof -
  have ok: "fs_ok fs" and dir: "is_dir_node (fs A)" using sealedD [OF assms(1)] by auto
  obtain ms x where ns: "ns = ms @ [x]" using assms(3) dir by (cases ns rule: rev_cases) auto
  show ?thesis
  proof (cases "is_dir_node (fs (A @ ms))")
    case True
    have "fs_locate fs follow (abs_path ((A @ ms) @ [x])) = Inr ((A @ ms) @ [x])"
      using assms(3) ns by (intro fs_locate_reach [OF ok True]) simp
    then show ?thesis using assms(3) ns by (simp add: fs_node_at_def)
  next
    case False
    have clear: "clear_way fs A ms" using clear_way_butlast [OF assms(2)] ns by simp
    then have "fs (A @ ms) = None" "ms \<noteq> []"
      using False dir by (auto simp: clear_way_def dest: spec [of _ "length ms"])
    then have "fs_walk SYMLINK_MAX fs follow A (map Normal ms @ [Normal x]) = Inl NotFound"
      using clear by (intro fs_walk_missing) (auto simp: clear_way_def)
    then show ?thesis
      using fs_locate_dirs [OF ok dir, of follow ns] ns by (simp add: fs_node_at_def)
  qed
qed

lemma dir_found:
  assumes "sealed L A fs" and "is_dir_node (fs (A @ ns))" and "A \<noteq> []"
  shows "fs_locate fs follow (abs_path (A @ ns)) = Inr (A @ ns)"
proof -
  have ok: "fs_ok fs" by (rule sealedD(1) [OF assms(1)])
  obtain ls x where l: "A @ ns = ls @ [x]" using assms(3) by (cases "A @ ns" rule: rev_cases) auto
  have "is_dir_node (fs ls)" using fs_ok_prefix_dir [OF ok, of ls "[x]"] assms(2) l by simp
  then show ?thesis using fs_locate_reach [OF ok] assms(2) l by (auto simp: is_dir_node_iff)
qed

lemma safe_mkdir_all_succeeds:
  assumes inv: "restore_inv L A base fs0 fs" and d: "tree_inv A d" and name: "good_names (split_on SLASH name)"
    and inside: "inside L A (split_on SLASH name)"
    and clear: "clear_way fs A (split_on SLASH name)" and depth: "0 < re_depth re"
  shows "\<exists>d' fs'. safe_mkdir_all re base d name mode fs = (Inr d', fs') \<and> tree_inv A d' \<and> restore_inv L A base fs0 fs' \<and>
    is_dir_node (fs' (A @ split_on SLASH name)) \<and>
    (\<forall>l. fs' l \<noteq> fs l \<longrightarrow> (fs l = None \<or> is_dir_node (fs l)) \<and> is_dir_node (fs' l) \<and> prefix l (A @ split_on SLASH name))"
proof -
  let ?cs = "map component_str (path_components name)" and ?ns = "split_on SLASH name"
  let ?p = "resolve_path base name"
  have A: "A \<noteq> []" using inv by (simp add: restore_inv_def anchored_at_def)
  note paths = restore_invD [OF inv name]
  obtain i e where start: "get_starting_point d name = Some (dt_anchor_at_depth d ! i, i, e)"
    and checked: "\<And>fs al n. sealed L A fs \<Longrightarrow>
      \<exists>d''. check_components al (Suc n) fs base (drop i ?cs) (dt_anchor_at_depth d ! i) e = Inr d'' \<and> tree_inv A d''"
    using safe_mkdir_all_check [OF d name inside] by metis
  obtain d' where d': "check_components (re_libs re) (re_depth re) fs base (drop i ?cs) (dt_anchor_at_depth d ! i) e = Inr d'"
    using checked [OF paths(1), of "re_libs re" "re_depth re - 1"] depth by auto
  obtain fs1 where made: "(if fs_try_exists fs ?p = Inr False
      then fs_op (fs_create_dir_all (re_umask re) ?p) fs else (Inr (), fs)) = (Inr (), fs1)"
    and fs1: "is_dir_node (fs1 (A @ ?ns))" "\<forall>l. fs1 l \<noteq> fs l \<longrightarrow> fs l = None \<and> is_dir_node (fs1 l) \<and> prefix l (A @ ?ns)"
  proof (cases "is_dir_node (fs (A @ ?ns))")
    case True
    then have "fs_try_exists fs ?p = Inr True"
      using dir_found [OF paths(1) True A, of True]
      by (auto simp: fs_try_exists_def fs_stat_def fs_node_at_def paths(2) is_dir_node_iff)
    then show ?thesis using that [of fs] True by simp
  next
    case False
    then have "fs (A @ ?ns) = None" using clear by (auto simp: clear_way_def dest: spec [of _ "length ?ns"])
    then have "fs_try_exists fs ?p = Inr False"
      using missing_not_found [OF paths(1) clear] by (simp add: fs_try_exists_def fs_stat_def paths(2))
    moreover obtain fs' where "fs_create_dirs (re_umask re) (abs_path (A @ ?ns)) fs = (Inr (), fs')"
      "is_dir_node (fs' (A @ ?ns))" "\<forall>l. fs' l \<noteq> fs l \<longrightarrow> fs l = None \<and> is_dir_node (fs' l) \<and> prefix l (A @ ?ns)"
      using fs_create_dirs_succeeds [OF paths(1), of ?ns "re_umask re"] clear A unfolding clear_way_def by blast
    ultimately show ?thesis
      using that [of fs'] by (simp add: fs_op_def fs_create_dir_all_def paths(3) cache_io_def)
  qed
  have inv1: "restore_inv L A base fs0 fs1"
  proof (cases "fs_try_exists fs ?p = Inr False")
    case True
    then have "fs1 = snd (fs_create_dir_all (re_umask re) ?p fs)"
      using made by (auto simp: fs_op_def split: prod.splits)
    then show ?thesis using restore_inv_step [OF inv] fs_create_dir_all_keeps [OF paths(1,3)] A inside by simp
  qed (use made inv in simp)
  note paths1 = restore_invD [OF inv1 name]
  obtain m where m: "fs1 (A @ ?ns) = Some (DirNode m)" using fs1(1) by (auto simp: is_dir_node_iff)
  note found = dir_found [OF paths1(1) fs1(1) A]
  let ?fs2 = "fs1(A @ ?ns \<mapsto> DirNode (mode AND 0xFFF))"
  have set: "fs_set_permissions mode ?p fs1 = (Inr (), ?fs2)"
    by (simp add: fs_set_permissions_def paths1(2) found m set_node_mode_def)
  have "fs_lstat fs1 ?p = Inr (DirNode m)" by (simp add: fs_lstat_def fs_node_at_def paths1(2) found m)
  then have run: "safe_mkdir_all re base d name mode fs = (Inr d', ?fs2)"
    unfolding safe_mkdir_all_def start option.case prod.case Let_def
    by (simp add: io_bind_def fs_get_def d' made set fs_op_def cache_io_def io_lift_def)
  have "restore_inv L A base fs0 ?fs2" "tree_inv A d'"
    using safe_mkdir_all_below [OF d name inside, of base fs0 re mode] inv run by (auto simp: io_inv_def dest!: spec [of _ fs])
  moreover have "\<forall>l. ?fs2 l \<noteq> fs l \<longrightarrow> (fs l = None \<or> is_dir_node (fs l)) \<and> is_dir_node (?fs2 l) \<and> prefix l (A @ ?ns)"
    using fs1(2) m by auto (metis is_dir_node_simps(3))+
  ultimately show ?thesis using run by (intro exI conjI) (assumption | simp)+
qed

lemma safe_mkdir_file_succeeds:
  assumes inv: "restore_inv L A base fs0 fs" and d: "tree_inv A d" and name: "good_names (split_on SLASH name)"
    and inside: "inside L A (split_on SLASH name)"
    and clear: "clear_way fs A (butlast (split_on SLASH name))" and depth: "0 < re_depth re"
  shows "\<exists>d' fs'. safe_mkdir_file re base d name fs = (Inr d', fs') \<and> tree_inv A d' \<and> restore_inv L A base fs0 fs' \<and>
    is_dir_node (fs' (A @ butlast (split_on SLASH name))) \<and>
    (\<forall>l. fs' l \<noteq> fs l \<longrightarrow> (fs l = None \<or> is_dir_node (fs l)) \<and> is_dir_node (fs' l) \<and>
       prefix l (A @ butlast (split_on SLASH name)))"
proof (cases "butlast (split_on SLASH name) = []")
  case True
  then show ?thesis
    using inv d by (simp add: safe_mkdir_file_cases(1) [OF name] io_lift_def restore_inv_def keeps_def sealed_def)
next
  case False
  note parent = path_parent_names(2) [OF name False]
  show ?thesis
    unfolding safe_mkdir_file_cases(2) [OF name False]
    using safe_mkdir_all_succeeds [OF inv d, of "join_with ''/'' (butlast (split_on SLASH name))" re "0x1ED"]
      path_parent_names(3) [OF name] inside_butlast [OF inside] clear depth
    unfolding parent by blast
qed

text \<open>The names of an entry, and when the entries of an archive do not get in each other's way.\<close>

definition entry_names :: "tar_entry \<Rightarrow> string list" where
  "entry_names e = split_on SLASH (strip_slash (te_path e))"

definition plain_archive :: "tar_entry list \<Rightarrow> bool" where
  "plain_archive es \<longleftrightarrow>
     list_all (\<lambda>e. (te_type e = RegularEntry \<or> te_type e = DirectoryEntry) \<and> good_names (entry_names e)) es \<and>
     distinct (map entry_names es) \<and>
     list_all (\<lambda>e. te_type e = RegularEntry \<longrightarrow> list_all (\<lambda>e'. \<not> strict_prefix (entry_names e) (entry_names e')) es) es"

definition restored_entry :: "loc \<Rightarrow> fs \<Rightarrow> tar_entry \<Rightarrow> bool" where
  "restored_entry A fs e \<longleftrightarrow>
     (if te_type e = RegularEntry then \<exists>m. fs (A @ entry_names e) = Some (FileNode m (te_data e))
      else is_dir_node (fs (A @ entry_names e)))"

text \<open>What is there already, and is not a link, a device, a file in place of a directory or the other way round.\<close>

definition fits :: "loc \<Rightarrow> tar_entry list \<Rightarrow> fs \<Rightarrow> bool" where
  "fits A es fs \<longleftrightarrow> (\<forall>e \<in> set es.
     (\<forall>ns. strict_prefix ns (entry_names e) \<longrightarrow> fs (A @ ns) = None \<or> is_dir_node (fs (A @ ns))) \<and>
     (te_type e = DirectoryEntry \<longrightarrow> fs (A @ entry_names e) = None \<or> is_dir_node (fs (A @ entry_names e))) \<and>
     (te_type e = RegularEntry \<longrightarrow> fs (A @ entry_names e) = None \<or> (\<exists>m s. fs (A @ entry_names e) = Some (FileNode m s))))"

text \<open>While entries are restored, what has changed comes from the entries so far.\<close>

definition restore_progress :: "loc \<Rightarrow> fs \<Rightarrow> tar_entry list \<Rightarrow> fs \<Rightarrow> bool" where
  "restore_progress A fs0 done fs \<longleftrightarrow>
     (\<forall>e \<in> set done. restored_entry A fs e) \<and>
     (\<forall>l. fs l \<noteq> fs0 l \<longrightarrow>
        (\<exists>e \<in> set done. prefix l (A @ entry_names e) \<and>
           (is_dir_node (fs l) \<or> te_type e = RegularEntry \<and> l = A @ entry_names e)))"

lemma plain_archiveD:
  assumes "plain_archive es" and "e \<in> set es"
  shows "te_type e = RegularEntry \<or> te_type e = DirectoryEntry" and "good_names (entry_names e)"
    and "te_type e = RegularEntry \<Longrightarrow> e' \<in> set es \<Longrightarrow> \<not> strict_prefix (entry_names e) (entry_names e')"
    and "from_system_path (te_path e) = Inr (strip_slash (te_path e))"
proof -
  show "te_type e = RegularEntry \<or> te_type e = DirectoryEntry" and good: "good_names (entry_names e)"
    and "te_type e = RegularEntry \<Longrightarrow> e' \<in> set es \<Longrightarrow> \<not> strict_prefix (entry_names e) (entry_names e')"
    using assms by (auto simp: plain_archive_def list_all_iff)
  have "set (split_on SLASH (strip_slash (te_path e))) \<inter> {[], ''.'', ''..''} = {}"
    using good by (auto simp: entry_names_def list_all_iff good_name_def)
  then show "from_system_path (te_path e) = Inr (strip_slash (te_path e))"
    unfolding check_path_segments [symmetric] by (simp add: from_system_path_def strip_slash_def)
qed

lemma progress_clear:
  assumes plain: "plain_archive (done @ e # rest)" and progress: "restore_progress A fs0 done fs"
    and fits: "fits A (done @ e # rest) fs0"
  shows "strict_prefix ns (entry_names e) \<Longrightarrow> fs (A @ ns) = None \<or> is_dir_node (fs (A @ ns))"
    and "te_type e = DirectoryEntry \<Longrightarrow> fs (A @ entry_names e) = None \<or> is_dir_node (fs (A @ entry_names e))"
    and "te_type e = RegularEntry \<Longrightarrow> fs (A @ entry_names e) = None \<or> (\<exists>m s. fs (A @ entry_names e) = Some (FileNode m s))"
proof -
  have "entry_names e \<notin> entry_names ` set done" using plain by (simp add: plain_archive_def)
  then have other: "e' \<in> set done \<Longrightarrow> entry_names e' \<noteq> entry_names e" for e' by (metis imageI)
  have source: "\<exists>e' \<in> set done. prefix ns (entry_names e') \<and>
      (is_dir_node (fs (A @ ns)) \<or> te_type e' = RegularEntry \<and> ns = entry_names e')" if "fs (A @ ns) \<noteq> fs0 (A @ ns)" for ns
    using progress [unfolded restore_progress_def, THEN conjunct2, rule_format, OF that] by simp
  have e: "e \<in> set (done @ e # rest)" by simp
  note before = fits [unfolded fits_def, rule_format, OF e]
  show "fs (A @ ns) = None \<or> is_dir_node (fs (A @ ns))" if "strict_prefix ns (entry_names e)" for ns
  proof (cases "fs (A @ ns) = fs0 (A @ ns)")
    case False
    have "te_type e' = RegularEntry \<Longrightarrow> e' \<in> set done \<Longrightarrow> ns \<noteq> entry_names e'" for e'
      using plain_archiveD(3) [OF plain, of e' e] that by auto
    then show ?thesis using source [OF False] by blast
  qed (use before that in simp)
  show "fs (A @ entry_names e) = None \<or> is_dir_node (fs (A @ entry_names e))" if "te_type e = DirectoryEntry"
    using source [of "entry_names e"] other before that by (cases "fs (A @ entry_names e) = fs0 (A @ entry_names e)") force+
  show "fs (A @ entry_names e) = None \<or> (\<exists>m s. fs (A @ entry_names e) = Some (FileNode m s))" if "te_type e = RegularEntry"
  proof (cases "fs (A @ entry_names e) = fs0 (A @ entry_names e)")
    case False
    then obtain e' where e': "e' \<in> set done" "prefix (entry_names e) (entry_names e')" using source by blast
    then have "strict_prefix (entry_names e) (entry_names e')" using other [of e'] by (auto simp: strict_prefix_def)
    with plain_archiveD(3) [OF plain _ that, of e'] e'(1) show ?thesis by simp
  qed (use before that in simp)
qed

lemma restored_entry_kept:
  assumes "restored_entry A fs e" and "\<And>l. fs' l \<noteq> fs l \<Longrightarrow> (fs l = None \<or> is_dir_node (fs l)) \<and> is_dir_node (fs' l)"
  shows "restored_entry A fs' e"
  using assms(1) assms(2) [of "A @ entry_names e"]
  by (cases "fs' (A @ entry_names e) = fs (A @ entry_names e)") (auto simp: restored_entry_def split: if_splits)

text \<open>What changes on the way to an entry: directories are made, or their permissions set.\<close>

definition dirs_changed :: "loc \<Rightarrow> loc \<Rightarrow> fs \<Rightarrow> fs \<Rightarrow> bool" where
  "dirs_changed A ns fs fs' \<longleftrightarrow>
     (\<forall>l. fs' l \<noteq> fs l \<longrightarrow> (fs l = None \<or> is_dir_node (fs l)) \<and> is_dir_node (fs' l) \<and> prefix l (A @ ns))"

lemma progress_directory:
  assumes "restore_progress A fs0 done fs" and changed: "dirs_changed A (entry_names e) fs fs'"
    and "restored_entry A fs' e"
  shows "restore_progress A fs0 (done @ [e]) fs'"
  unfolding restore_progress_def
proof (intro conjI ballI allI impI)
  fix x assume "x \<in> set (done @ [e])"
  then show "restored_entry A fs' x"
    using restored_entry_kept [of A fs x fs'] assms by (auto simp: restore_progress_def dirs_changed_def)
next
  fix l assume l: "fs' l \<noteq> fs0 l"
  show "\<exists>x \<in> set (done @ [e]). prefix l (A @ entry_names x) \<and>
    (is_dir_node (fs' l) \<or> te_type x = RegularEntry \<and> l = A @ entry_names x)"
  proof (cases "fs' l = fs l")
    case True
    then show ?thesis using assms(1) l by (auto simp: restore_progress_def)
  next
    case False
    then show ?thesis using changed by (auto simp: dirs_changed_def)
  qed
qed

lemma progress_regular:
  assumes "restore_progress A fs0 done fs" and changed: "dirs_changed A (butlast (entry_names e)) fs fs1"
    and regular: "te_type e = RegularEntry" and other: "entry_names e \<notin> entry_names ` set done"
  shows "restore_progress A fs0 (done @ [e]) (fs1(A @ entry_names e \<mapsto> FileNode m (te_data e)))"
  unfolding restore_progress_def
proof (intro conjI ballI allI impI)
  let ?fs2 = "fs1(A @ entry_names e \<mapsto> FileNode m (te_data e))"
  fix x assume x: "x \<in> set (done @ [e])"
  show "restored_entry A ?fs2 x"
  proof (cases "x \<in> set done")
    case True
    then have "restored_entry A fs1 x"
      using restored_entry_kept [of A fs x fs1] assms(1,2) by (auto simp: restore_progress_def dirs_changed_def)
    moreover have "entry_names x \<noteq> entry_names e" using True other by (metis imageI)
    ultimately show ?thesis by (simp add: restored_entry_def)
  qed (use x regular in \<open>simp add: restored_entry_def\<close>)
next
  let ?fs2 = "fs1(A @ entry_names e \<mapsto> FileNode m (te_data e))"
  fix l assume l: "?fs2 l \<noteq> fs0 l"
  consider "l = A @ entry_names e" | "l \<noteq> A @ entry_names e" "fs1 l = fs l"
    | "l \<noteq> A @ entry_names e" "fs1 l \<noteq> fs l" by blast
  then show "\<exists>x \<in> set (done @ [e]). prefix l (A @ entry_names x) \<and>
    (is_dir_node (?fs2 l) \<or> te_type x = RegularEntry \<and> l = A @ entry_names x)"
  proof cases
    case 2
    then show ?thesis using assms(1) l by (auto simp: restore_progress_def)
  next
    case 3
    then have "prefix l (A @ butlast (entry_names e))" "is_dir_node (fs1 l)"
      using changed by (auto simp: dirs_changed_def)
    moreover have "prefix (A @ butlast (entry_names e)) (A @ entry_names e)" by (simp add: prefixeq_butlast)
    ultimately show ?thesis using 3 by (auto intro: prefix_order.trans)
  qed (use regular in simp)
qed

text \<open>The locations that the entries go through.\<close>

definition entry_locs :: "loc \<Rightarrow> tar_entry list \<Rightarrow> loc set" where
  "entry_locs A es = {l. \<exists>e \<in> set es. prefix A l \<and> prefix l (A @ entry_names e)}"

lemma entry_locs_inside:
  assumes "e \<in> set es"
  shows "inside (entry_locs A es) A (entry_names e)"
  unfolding inside_def entry_locs_def using assms by (auto intro!: bexI [of _ e] simp: take_is_prefix)

lemma fits_sealed:
  assumes "fs_ok fs" and "is_dir_node (fs A)" and "plain_archive es" and "fits A es fs"
  shows "sealed (entry_locs A es) A fs"
  unfolding sealed_def
proof (intro conjI ballI assms(1,2))
  fix l assume "l \<in> entry_locs A es"
  then obtain e ns where e: "e \<in> set es" "l = A @ ns" "prefix ns (entry_names e)"
    by (auto simp: entry_locs_def prefix_def)
  note before = assms(4) [unfolded fits_def, rule_format, OF e(1)] and ty = plain_archiveD(1) [OF assms(3) e(1)]
  show "\<not> is_link_node (fs l)"
  proof (cases "ns = entry_names e")
    case True
    then show ?thesis using before ty e(2) by (auto simp: is_dir_node_iff)
  next
    case False
    then have "strict_prefix ns (entry_names e)" using e(3) by (simp add: strict_prefix_def)
    then show ?thesis using before e(2) by (auto simp: is_dir_node_iff)
  qed
qed

lemma restore_directory_progress:
  assumes plain: "plain_archive (done @ e # rest)" and fits: "fits A (done @ e # rest) fs0"
    and inv: "restore_inv (entry_locs A (done @ e # rest)) A base fs0 fs" and d: "tree_inv A d"
    and progress: "restore_progress A fs0 done fs" and depth: "0 < re_depth re" and ty: "te_type e = DirectoryEntry"
  shows "\<exists>d' fs'. restore_entry re base d e fs = (Inr (strip_slash (te_path e), d'), fs') \<and> tree_inv A d' \<and>
    restore_inv (entry_locs A (done @ e # rest)) A base fs0 fs' \<and> restore_progress A fs0 (done @ [e]) fs'"
proof -
  let ?name = "strip_slash (te_path e)" and ?ns = "entry_names e"
  have e: "e \<in> set (done @ e # rest)" by simp
  note facts = plain_archiveD [OF plain e]
  note way = progress_clear [OF plain progress fits]
  note inside = entry_locs_inside [OF e, of A]
  have "clear_way fs A ?ns"
    unfolding clear_way_def
  proof (intro allI impI)
    fix i assume "i \<le> length ?ns"
    then show "fs (A @ take i ?ns) = None \<or> is_dir_node (fs (A @ take i ?ns))"
      using way(1) [of "take i ?ns"] way(2) [OF ty] by (cases "i = length ?ns") (auto simp: strict_prefix_def take_is_prefix)
  qed
  then obtain d' fs' where run: "safe_mkdir_all re base d ?name (te_mode e) fs = (Inr d', fs')"
    and d': "tree_inv A d'" "restore_inv (entry_locs A (done @ e # rest)) A base fs0 fs'" "is_dir_node (fs' (A @ ?ns))" "dirs_changed A ?ns fs fs'"
    using safe_mkdir_all_succeeds [OF inv d, of ?name re "te_mode e"] facts(2) depth inside
    unfolding entry_names_def [of e] dirs_changed_def by blast
  have "restore_progress A fs0 (done @ [e]) fs'"
    using progress_directory [OF progress d'(4)] d'(3) ty by (simp add: restored_entry_def)
  then show ?thesis
    using run d' ty facts(4)
    by (simp add: restore_entry_def restore_directory_def io_bind_def io_lift_def cache_path_def)
qed

lemma restore_regular_progress:
  assumes plain: "plain_archive (done @ e # rest)" and fits: "fits A (done @ e # rest) fs0"
    and inv: "restore_inv (entry_locs A (done @ e # rest)) A base fs0 fs" and d: "tree_inv A d"
    and progress: "restore_progress A fs0 done fs" and depth: "0 < re_depth re" and ty: "te_type e = RegularEntry"
  shows "\<exists>d' fs'. restore_entry re base d e fs = (Inr (strip_slash (te_path e), d'), fs') \<and> tree_inv A d' \<and>
    restore_inv (entry_locs A (done @ e # rest)) A base fs0 fs' \<and> restore_progress A fs0 (done @ [e]) fs'"
proof -
  let ?name = "strip_slash (te_path e)" and ?ns = "entry_names e"
  have e: "e \<in> set (done @ e # rest)" by simp
  note facts = plain_archiveD [OF plain e]
  note way = progress_clear [OF plain progress fits]
  note inside = entry_locs_inside [OF e, of A]
  have ne: "?ns \<noteq> []" by (simp add: entry_names_def)
  have "clear_way fs A (butlast ?ns)"
    unfolding clear_way_def
  proof (intro allI impI)
    fix i assume "i \<le> length (butlast ?ns)"
    then have "i < length ?ns" using ne length_greater_0_conv [of ?ns] unfolding length_butlast by linarith
    then show "fs (A @ take i (butlast ?ns)) = None \<or> is_dir_node (fs (A @ take i (butlast ?ns)))"
      using way(1) [of "take i ?ns"] by (auto simp: strict_prefix_def take_is_prefix take_butlast)
  qed
  then obtain d' fs1 where run: "safe_mkdir_file re base d ?name fs = (Inr d', fs1)"
    and d': "tree_inv A d'" "restore_inv (entry_locs A (done @ e # rest)) A base fs0 fs1" "is_dir_node (fs1 (A @ butlast ?ns))"
      "dirs_changed A (butlast ?ns) fs fs1"
    using safe_mkdir_file_succeeds [OF inv d, of ?name re] facts(2) depth inside
    unfolding entry_names_def [of e] dirs_changed_def by blast
  note paths = restore_invD [OF d'(2) facts(2) [unfolded entry_names_def]]
  have "\<not> prefix (A @ ?ns) (A @ butlast ?ns)" using ne by (cases ?ns rule: rev_cases) (auto dest!: prefix_length_le)
  then have old: "fs1 (A @ ?ns) = None \<or> (\<exists>m s. fs1 (A @ ?ns) = Some (FileNode m s))"
    using d'(4) way(3) [OF ty] unfolding dirs_changed_def by metis
  then have no_link: "\<not> is_link_node (fs1 (A @ ?ns))" by auto
  have "A @ ?ns = (A @ butlast ?ns) @ [last ?ns]" using ne by simp
  then have "fs_locate fs1 True (abs_path (A @ ?ns)) = Inr (A @ ?ns)"
    using fs_locate_reach [OF sealedD(1) [OF paths(1)] d'(3), of "last ?ns" True] no_link by simp
  then obtain m where written: "fs_write (re_umask re) (te_mode e) (resolve_path base ?name) (te_data e) fs1 =
    (Inr (), fs1(A @ ?ns \<mapsto> FileNode m (te_data e)))"
    using paths(2) old by (auto simp: fs_write_def entry_names_def)
  have "entry_names e \<notin> entry_names ` set done" using plain by (simp add: plain_archive_def)
  note progress_regular [OF progress d'(4) ty this, of m]
  moreover have "restore_inv (entry_locs A (done @ e # rest)) A base fs0 (fs1(A @ ?ns \<mapsto> FileNode m (te_data e)))"
    using restore_inv_step [OF d'(2)] fs_write_keeps [OF paths(1,2)] inside written unfolding entry_names_def [of e] by (metis snd_conv)
  ultimately show ?thesis
    using run d' written ty facts(4)
    by (simp add: restore_entry_def restore_regular_def io_bind_def io_lift_def cache_path_def fs_op_def cache_io_def)
qed

lemma restore_loop_progress:
  assumes "plain_archive (done @ es)" and "fits A (done @ es) fs0"
    and "restore_inv (entry_locs A (done @ es)) A base fs0 fs" and "tree_inv A d"
    and "restore_progress A fs0 done fs" and depth: "0 < re_depth re"
  shows "\<exists>d' fs'. restore_loop re base d restored [] (map Inr es) fs =
      (Inr (d', restored @ map (strip_slash \<circ> te_path) es, []), fs') \<and> restore_progress A fs0 (done @ es) fs'"
  using assms(1-5)
proof (induction es arbitrary: "done" d restored fs)
  case (Cons e es)
  have "te_type e = RegularEntry \<or> te_type e = DirectoryEntry"
    using plain_archiveD(1) [OF Cons.prems(1)] by simp
  then obtain d1 fs1 where step: "restore_entry re base d e fs = (Inr (strip_slash (te_path e), d1), fs1)"
    "tree_inv A d1" "restore_inv (entry_locs A (done @ e # es)) A base fs0 fs1" "restore_progress A fs0 (done @ [e]) fs1"
    using restore_regular_progress [OF Cons.prems depth] restore_directory_progress [OF Cons.prems depth] by blast
  have "\<exists>d' fs'. restore_loop re base d1 (restored @ [strip_slash (te_path e)]) [] (map Inr es) fs1 =
      (Inr (d', (restored @ [strip_slash (te_path e)]) @ map (strip_slash \<circ> te_path) es, []), fs') \<and>
      restore_progress A fs0 ((done @ [e]) @ es) fs'"
    by (rule Cons.IH) (use Cons.prems step in simp_all)
  with step(1) show ?case by (simp add: comp_def)
qed simp

lemma restore_completes:
  assumes base: "anchored_at A base" and tree: "fs_ok fs" and dir: "is_dir_node (fs A)"
    and plain: "plain_archive es" and fits: "fits A es fs"
    and decode: "ar_decode (re_libs re) is_compressed archive = Inr (map Inr es)"
    and depth: "0 < re_depth re" and sort: "ar_toposort (re_libs re) 0 [] = Some []"
  shows "\<exists>fs'. cache_restore re base is_compressed archive fs = (Inr (map (strip_slash \<circ> te_path) es), fs') \<and>
    (\<forall>e \<in> set es. restored_entry A fs' e) \<and>
    (\<forall>l. (\<forall>e \<in> set es. \<not> prefix l (A @ entry_names e)) \<longrightarrow> fs' l = fs l)"
proof -
  note sealed = fits_sealed [OF tree dir plain fits]
  have A: "A \<noteq> []" using base by (simp add: anchored_at_def)
  have mkdir: "fs_create_dir_all (re_umask re) base fs = (Inr (), fs)"
    using fs_mkdir_exists [OF sealed dir A] base
    by (subst fs_create_dir_all_def, subst fs_create_dirs.simps) (simp add: anchored_at_def at_loc_def)
  have init: "restore_inv (entry_locs A es) A base fs fs" using base sealed by (simp add: restore_inv_def keeps_refl)
  have "restore_progress A fs [] fs" by (simp add: restore_progress_def)
  then obtain d' fs' where loop: "restore_loop re base (dir_tree_new base) [] [] (map Inr es) fs =
      (Inr (d', map (strip_slash \<circ> te_path) es, []), fs')" "restore_progress A fs es fs'"
    using restore_loop_progress [of "[]" es A fs base fs "dir_tree_new base" re "[]"] plain fits init
      tree_inv_new [OF base] depth by auto
  have "topologically_restore_symlinks re base d' [] fs' = (Inr [], fs')"
    by (simp add: topologically_restore_symlinks_def io_bind_def io_lift_def sort)
  then have "cache_restore re base is_compressed archive fs = (Inr (map (strip_slash \<circ> te_path) es), fs')"
    using loop(1) by (simp add: cache_restore_def restore_entries_def decode mkdir io_bind_def io_lift_def fs_op_def cache_io_def)
  with loop(2) show ?thesis by (auto simp: restore_progress_def)
qed

text \<open>
  C32: an archive of files and directories that do not get in each other's way is restored without an
  error to a directory where no links, and no nodes of another kind, are in the way: every file is there
  with its contents, every directory is there, the names are returned in order, and nothing changes
  but the entries and the directories that hold them.
\<close>

theorem cache_restore_complete:
  assumes base: "anchored_at A base" and tree: "fs_ok fs" and dir: "is_dir_node (fs A)"
    and plain: "plain_archive es" and fits: "fits A es fs"
    and decode: "ar_decode (re_libs re) is_compressed archive = Inr (map Inr es)"
    and depth: "0 < re_depth re" and sort: "ar_toposort (re_libs re) 0 [] = Some []"
  shows "\<exists>fs'. cache_restore re base is_compressed archive fs = (Inr (map (strip_slash \<circ> te_path) es), fs') \<and>
    (\<forall>e \<in> set es. restored_entry A fs' e) \<and>
    (\<forall>l. (\<forall>e \<in> set es. \<not> prefix l (A @ entry_names e)) \<longrightarrow> fs' l = fs l)"
  using restore_completes [OF assms] .

subsection \<open>An instance of the libraries, and examples\<close>

text \<open>
  Libraries for the examples: archives are kept in a table that the bytes index, cleaning goes over
  the components, and sorting repeatedly takes a node without predecessors.
\<close>

fun clean_stack :: "path_component list \<Rightarrow> path_component list \<Rightarrow> path_component list" where
  "clean_stack st [] = st"
| "clean_stack st (CurDir # cs) = clean_stack st cs"
| "clean_stack st (ParentDir # cs) =
     (if st = [] \<or> last st = ParentDir then clean_stack (st @ [ParentDir]) cs
      else if last st = RootDir then clean_stack st cs
      else clean_stack (butlast st) cs)"
| "clean_stack st (c # cs) = clean_stack (st @ [c]) cs"

definition sample_clean :: "string \<Rightarrow> string" where
  "sample_clean p = dot_if_empty (path_of_components (clean_stack [] (path_components p)))"

fun sample_sort :: "nat list \<Rightarrow> (nat \<times> nat) list \<Rightarrow> nat \<Rightarrow> nat list option" where
  "sample_sort todo es 0 = (if todo = [] then Some [] else None)"
| "sample_sort todo es (Suc n) =
     (if todo = [] then Some []
      else case List.find (\<lambda>x. list_all (\<lambda>(a, b). b \<noteq> x \<or> a \<notin> set todo) es) todo of
        None \<Rightarrow> None
      | Some x \<Rightarrow> map_option (Cons x) (sample_sort (removeAll x todo) es n))"

definition sample_archive_libs :: "tar_entry list list \<Rightarrow> archive_libs" where
  "sample_archive_libs table =
     \<lparr>ar_append = (\<lambda>e. None),
      ar_encode = (\<lambda>c es. map (\<lambda>_. CHR ''x'') (takeWhile (\<lambda>t. t \<noteq> es) table)),
      ar_decode = (\<lambda>c s. if length s < length table then Inr (map Inr (table ! length s)) else Inl InvalidInput),
      ar_clean = sample_clean,
      ar_toposort = (\<lambda>n es. sample_sort [0..<n] es n)\<rparr>"

definition sample_restore :: "tar_entry list list \<Rightarrow> restore_env" where
  "sample_restore table = \<lparr>re_libs = sample_archive_libs table, re_depth = 8, re_umask = 18\<rparr>"

definition sample_tree :: fs where
  "sample_tree = Map.empty([] \<mapsto> DirNode 493, [''r''] \<mapsto> DirNode 493, [''etc''] \<mapsto> DirNode 493,
     [''etc'', ''key''] \<mapsto> FileNode 384 ''secret'')"

abbreviation file_entry :: "string \<Rightarrow> string \<Rightarrow> tar_entry" where
  "file_entry p s \<equiv> \<lparr>te_type = RegularEntry, te_path = p, te_link = None, te_mode = 420, te_data = s\<rparr>"

abbreviation dir_entry :: "string \<Rightarrow> fs_mode \<Rightarrow> tar_entry" where
  "dir_entry p m \<equiv> \<lparr>te_type = DirectoryEntry, te_path = p, te_link = None, te_mode = m, te_data = []\<rparr>"

abbreviation link_entry :: "string \<Rightarrow> string \<Rightarrow> tar_entry" where
  "link_entry p t \<equiv> \<lparr>te_type = SymlinkEntry, te_path = p, te_link = Some t, te_mode = 511, te_data = []\<rparr>"

definition sample_entries :: "tar_entry list" where
  "sample_entries = [dir_entry ''dist/'' 448, file_entry ''dist/a'' ''x'']"

lemma sample_tree_ok: "fs_ok sample_tree"
  unfolding fs_ok_def sample_tree_def by (auto simp: append_eq_Cons_conv split: if_splits)

lemma sample_tree_empty: "strict_prefix [''r''] l \<Longrightarrow> sample_tree l = None"
  by (auto simp: sample_tree_def strict_prefix_def)

lemma sample_anchor: "anchored_at [''r''] ''/r''"
  by (simp add: anchored_at_def at_loc_def path_is_absolute_def path_components_def abs_path_def component_of_def)

lemma sample_plain: "plain_archive sample_entries"
  by (simp add: plain_archive_def sample_entries_def entry_names_def strip_slash_def strip_suffix_def good_name_def strict_prefix_def)

theorem cache_restore_confined_witness:
  "confined [''r''] sample_tree (snd (cache_restore (sample_restore [sample_entries]) ''/r'' True [] sample_tree)) \<and>
   sealed {l. prefix [''r''] l} [''r''] (snd (cache_restore (sample_restore [sample_entries]) ''/r'' True [] sample_tree))"
proof (rule cache_restore_confined [OF sample_anchor])
  show "sealed {l. prefix [''r''] l} [''r''] sample_tree"
    using sample_tree_ok sample_tree_empty
    by (auto simp: sealed_def strict_prefix_def sample_tree_def)
qed (auto simp: sample_restore_def sample_archive_libs_def sample_entries_def)

lemma sample_fits: "fits [''r''] sample_entries sample_tree"
  by (auto simp: fits_def sample_entries_def entry_names_def strip_slash_def strip_suffix_def sample_tree_def)

theorem cache_restore_complete_witness:
  "\<exists>fs'. cache_restore (sample_restore [sample_entries]) ''/r'' True [] sample_tree =
      (Inr (map (strip_slash \<circ> te_path) sample_entries), fs') \<and> (\<forall>e \<in> set sample_entries. restored_entry [''r''] fs' e) \<and>
    (\<forall>l. (\<forall>e \<in> set sample_entries. \<not> prefix l ([''r''] @ entry_names e)) \<longrightarrow> fs' l = sample_tree l)"
  by (rule cache_restore_complete [OF sample_anchor sample_tree_ok _ sample_plain sample_fits])
    (simp_all add: sample_restore_def sample_archive_libs_def sample_tree_def)

text \<open>
  With links the confinement is lost: a link that leads outside is restored, and a file of the same
  name is then written through it. Here the archive overwrites a file in \<open>/etc\<close>.
\<close>

lemma restore_writes_through_link:
  "snd (cache_restore (sample_restore [[link_entry ''k'' ''/etc/key'', file_entry ''k'' ''mine'']]) ''/r'' True [] sample_tree)
     [''etc'', ''key''] = Some (FileNode 384 ''mine'')"
  by code_simp

text \<open>
  Restoring a file sets the permissions of its directory to those of a new one: a private directory of
  the archive becomes readable by all.
\<close>

lemma restore_widens_directory:
  "snd (cache_restore (sample_restore [sample_entries]) ''/r'' True [] sample_tree) [''r'', ''dist''] = Some (DirNode 493)"
  by code_simp

text \<open>
  Links that lead to each other are reported as a cycle at the top, but not in a directory, since the
  name of the link is looked up relative to its own directory.
\<close>

lemma nested_cycle_restored:
  "fst (cache_restore (sample_restore [[link_entry ''a'' ''b'', link_entry ''b'' ''a'']]) ''/r'' True [] sample_tree) =
     Inl CycleDetected"
  "fst (cache_restore (sample_restore [[link_entry ''d/a'' ''b'', link_entry ''d/b'' ''a'']]) ''/r'' True [] sample_tree) =
     Inr [''d/a'', ''d/b'']"
  by code_simp+

text \<open>A link to itself on the way makes the check recurse without end.\<close>

definition loop_tree :: fs where
  "loop_tree = sample_tree([''r'', ''x''] \<mapsto> LinkNode ''x'')"

lemma self_link_overflows:
  "restore_check_path (sample_archive_libs []) n loop_tree ''/r'' ''/r'' ''x'' = Inl Aborted"
proof (induction n)
  case (Suc n)
  have "RootDir \<notin> set (path_components ''x'')" "fs_lstat loop_tree (resolve_path ''/r'' ''x'') = Inr (LinkNode ''x'')"
    "\<not> path_is_absolute ''x''" "path_starts_with (ar_clean (sample_archive_libs []) (resolve_path ''/r'' ''x'')) ''/r''"
    by code_simp+
  with Suc show ?case by (simp add: Let_def)
qed simp

end
