(* ===== verification/Cache_Config.thy ===== *)
theory Cache_Config
  imports Prelude
begin

text \<open>
  Which caches a run reads and writes: \<open>CacheActions\<close> and \<open>CacheConfig\<close> of
  \<open>nrzrepo-cache/src/lib.rs\<close>, and their textual form, as in \<open>local:rw,remote:r\<close>, of
  \<open>nrzrepo-cache/src/config.rs\<close>. A string is its list of bytes, as for \<open>str::len\<close>. A span is the
  offset and the length of a piece of the text.
\<close>

subsection \<open>Settings\<close>

record cache_actions =
  ca_read :: bool
  ca_write :: bool

record cache_config =
  cc_local :: cache_actions
  cc_remote :: cache_actions

definition should_use :: "cache_actions \<Rightarrow> bool" where
  "should_use a = (ca_read a \<or> ca_write a)"

definition actions_disabled :: cache_actions where
  "actions_disabled = \<lparr>ca_read = False, ca_write = False\<rparr>"

definition actions_enabled :: cache_actions where
  "actions_enabled = \<lparr>ca_read = True, ca_write = True\<rparr>"

definition skip_writes :: "cache_config \<Rightarrow> bool" where
  "skip_writes c = (\<not> ca_write (cc_local c) \<and> \<not> ca_write (cc_remote c))"

definition remote_only :: cache_config where
  "remote_only = \<lparr>cc_local = actions_disabled, cc_remote = actions_enabled\<rparr>"

definition remote_read_only :: cache_config where
  "remote_read_only =
     \<lparr>cc_local = actions_disabled, cc_remote = \<lparr>ca_read = True, ca_write = False\<rparr>\<rparr>"

definition actions_default :: cache_actions where
  "actions_default = \<lparr>ca_read = True, ca_write = True\<rparr>"

subsection \<open>Errors\<close>

type_synonym source_span = "nat \<times> nat"

datatype config_error =
    DuplicateKeys string string "source_span option"
  | DuplicateActions string string "source_span option"
  | InvalidCacheTypeAndAction string string "source_span option"
  | InvalidCacheAction string char "source_span option"
  | InvalidCacheType string string "source_span option"

definition error_add_text :: "string \<Rightarrow> config_error \<Rightarrow> config_error" where
  "error_add_text new e =
     (case e of
        DuplicateKeys text key span \<Rightarrow> DuplicateKeys new key span
      | DuplicateActions text action span \<Rightarrow> DuplicateActions new action span
      | InvalidCacheTypeAndAction text pair span \<Rightarrow> InvalidCacheTypeAndAction new pair span
      | InvalidCacheAction text c span \<Rightarrow> InvalidCacheAction new c span
      | InvalidCacheType text s span \<Rightarrow> InvalidCacheType new s span)"

definition add_span :: "source_span \<Rightarrow> config_error \<Rightarrow> config_error" where
  "add_span new e =
     (case e of
        DuplicateKeys text key span \<Rightarrow> DuplicateKeys text key (Some new)
      | DuplicateActions text action span \<Rightarrow> DuplicateActions text action (Some new)
      | InvalidCacheTypeAndAction text pair span \<Rightarrow> InvalidCacheTypeAndAction text pair (Some new)
      | InvalidCacheAction text c span \<Rightarrow> InvalidCacheAction text c (Some new)
      | InvalidCacheType text s span \<Rightarrow> InvalidCacheType text s (Some new))"

subsection \<open>Parsing\<close>

fun actions_loop :: "string \<Rightarrow> string \<Rightarrow> cache_actions \<Rightarrow> (config_error, cache_actions) result" where
  "actions_loop s [] a = Inr a"
| "actions_loop s (c # cs) a =
     (if c = CHR ''r'' then
        if ca_read a then Inl (DuplicateActions s ''r (read)'' None)
        else actions_loop s cs (a\<lparr>ca_read := True\<rparr>)
      else if c = CHR ''w'' then
        if ca_write a then Inl (DuplicateActions s ''w (write)'' None)
        else actions_loop s cs (a\<lparr>ca_write := True\<rparr>)
      else Inl (InvalidCacheAction [] c None))"

definition cache_actions_from_str :: "string \<Rightarrow> (config_error, cache_actions) result" where
  "cache_actions_from_str s = actions_loop s s \<lparr>ca_read = False, ca_write = False\<rparr>"

definition map_err :: "('e \<Rightarrow> 'f) \<Rightarrow> ('e, 'a) result \<Rightarrow> ('f, 'a) result" where
  "map_err f r = (case r of Inl e \<Rightarrow> Inl (f e) | Inr x \<Rightarrow> Inr x)"

fun config_loop ::
  "string \<Rightarrow> string list \<Rightarrow> bool \<Rightarrow> bool \<Rightarrow> nat \<Rightarrow> cache_config \<Rightarrow> (config_error, cache_config) result" where
  "config_loop s [] seen_local seen_remote idx cache = Inr cache"
| "config_loop s (action # rest) seen_local seen_remote idx cache =
     (case split_once (CHR '':'') action of
        None \<Rightarrow> Inl (InvalidCacheTypeAndAction s action (Some (idx, length action)))
      | Some (key, val) \<Rightarrow>
          if key = ''local'' then
            if seen_local then Inl (DuplicateKeys s ''local'' (Some (idx, length key)))
            else try_bind
              (map_err (\<lambda>err. add_span (idx + length key + 1, length key) (error_add_text s err))
                 (cache_actions_from_str val))
              (\<lambda>a. config_loop s rest True seen_remote (idx + (length action + 1)) (cache\<lparr>cc_local := a\<rparr>))
          else if key = ''remote'' then
            if seen_remote then Inl (DuplicateKeys s ''remote'' (Some (idx, length key)))
            else try_bind
              (map_err (\<lambda>err. add_span (idx + length key + 1, length val) (error_add_text s err))
                 (cache_actions_from_str val))
              (\<lambda>a. config_loop s rest seen_local True (idx + (length action + 1)) (cache\<lparr>cc_remote := a\<rparr>))
          else Inl (InvalidCacheType s key (Some (idx, length key))))"

definition cache_config_from_str :: "string \<Rightarrow> (config_error, cache_config) result" where
  "cache_config_from_str s =
     (let cache = \<lparr>cc_local = actions_disabled, cc_remote = actions_disabled\<rparr>
      in if s = [] then Inr cache
         else config_loop s (split_on (CHR '','') s) False False 0 cache)"

subsection \<open>What is accepted\<close>

lemma map_err_Inr [simp, result_simps]: "map_err f r = Inr x \<longleftrightarrow> r = Inr x"
  by (auto simp: map_err_def split: sum.splits)

text \<open>Actions are a set of letters, in any order.\<close>

definition actions_of :: "string \<Rightarrow> cache_actions" where
  "actions_of s = \<lparr>ca_read = (CHR ''r'' \<in> set s), ca_write = (CHR ''w'' \<in> set s)\<rparr>"

definition action_word :: "string \<Rightarrow> bool" where
  "action_word s = (distinct s \<and> set s \<subseteq> {CHR ''r'', CHR ''w''})"

lemma actions_loop_Inr:
  "actions_loop s cs a = Inr b \<longleftrightarrow>
     action_word cs \<and> \<not> (CHR ''r'' \<in> set cs \<and> ca_read a) \<and> \<not> (CHR ''w'' \<in> set cs \<and> ca_write a) \<and>
     b = \<lparr>ca_read = (ca_read a \<or> CHR ''r'' \<in> set cs), ca_write = (ca_write a \<or> CHR ''w'' \<in> set cs)\<rparr>"
  by (induction s cs a rule: actions_loop.induct) (auto simp: action_word_def)

lemma cache_actions_from_str_iff:
  "cache_actions_from_str s = Inr a \<longleftrightarrow> action_word s \<and> a = actions_of s"
  by (auto simp: cache_actions_from_str_def actions_loop_Inr actions_of_def)

text \<open>The text is a list of pairs, each cache named at most once.\<close>

definition pair_of :: "string \<Rightarrow> string \<times> string" where
  "pair_of part = (case split_once (CHR '':'') part of Some kv \<Rightarrow> kv | None \<Rightarrow> ([], []))"

definition config_pairs :: "string \<Rightarrow> (string \<times> string) list" where
  "config_pairs s = (if s = [] then [] else map pair_of (split_on (CHR '','') s))"

definition pairs_ok :: "(string \<times> string) list \<Rightarrow> bool" where
  "pairs_ok ps = (distinct (map fst ps) \<and> set (map fst ps) \<subseteq> {''local'', ''remote''} \<and>
     list_all action_word (map snd ps))"

definition setting_of :: "(string \<times> string) list \<Rightarrow> string \<Rightarrow> cache_actions \<Rightarrow> cache_actions" where
  "setting_of ps k a = (case map_of ps k of Some v \<Rightarrow> actions_of v | None \<Rightarrow> a)"

lemma setting_of_Nil [simp]: "setting_of [] k a = a"
  by (simp add: setting_of_def)

lemma setting_of_Cons:
  "setting_of ((k, v) # ps) j a = (if j = k then actions_of v else setting_of ps j a)"
  by (simp add: setting_of_def)

lemma setting_of_absent: "k \<notin> fst ` set ps \<Longrightarrow> setting_of ps k a = a"
  by (simp add: setting_of_def map_of_eq_None_iff [THEN iffD2])

lemma pairs_ok_Cons:
  "pairs_ok ((k, v) # ps) \<longleftrightarrow>
     (k = ''local'' \<or> k = ''remote'') \<and> action_word v \<and> k \<notin> fst ` set ps \<and> pairs_ok ps"
  unfolding pairs_ok_def by (simp only: list.map fst_conv snd_conv distinct.simps list.set list.pred_inject
    insert_subset insert_iff empty_iff set_map) blast

definition loop_accepts ::
  "(string \<times> string) list \<Rightarrow> bool \<Rightarrow> bool \<Rightarrow> cache_config \<Rightarrow> cache_config \<Rightarrow> bool" where
  "loop_accepts ps sl sr c c' = (pairs_ok ps \<and> (''local'' \<in> fst ` set ps \<longrightarrow> \<not> sl) \<and>
     (''remote'' \<in> fst ` set ps \<longrightarrow> \<not> sr) \<and>
     c' = \<lparr>cc_local = setting_of ps ''local'' (cc_local c), cc_remote = setting_of ps ''remote'' (cc_remote c)\<rparr>)"

lemma loop_accepts_local:
  "loop_accepts ((''local'', v) # ps) sl sr c c' \<longleftrightarrow>
     \<not> sl \<and> action_word v \<and> loop_accepts ps True sr (c\<lparr>cc_local := actions_of v\<rparr>) c'"
  by (cases "''local'' \<in> fst ` set ps") (simp_all add: loop_accepts_def pairs_ok_Cons setting_of_Cons setting_of_absent conj_ac)

lemma loop_accepts_remote:
  "loop_accepts ((''remote'', v) # ps) sl sr c c' \<longleftrightarrow>
     \<not> sr \<and> action_word v \<and> loop_accepts ps sl True (c\<lparr>cc_remote := actions_of v\<rparr>) c'"
  by (cases "''remote'' \<in> fst ` set ps") (simp_all add: loop_accepts_def pairs_ok_Cons setting_of_Cons setting_of_absent conj_ac)

lemma config_loop_Inr:
  "config_loop s parts sl sr idx c = Inr c' \<longleftrightarrow> loop_accepts (map pair_of parts) sl sr c c'"
proof (induction parts arbitrary: sl sr idx c)
  case Nil
  then show ?case by (auto simp: loop_accepts_def pairs_ok_def)
next
  case (Cons action rest)
  show ?case
  proof (cases "split_once (CHR '':'') action")
    case None
    then show ?thesis by (simp add: loop_accepts_def pairs_ok_Cons pair_of_def)
  next
    case (Some kv)
    obtain k v where kv: "kv = (k, v)" by (cases kv)
    with Some have pair: "pair_of action = (k, v)" by (simp add: pair_of_def)
    consider "k = ''local''" | "k = ''remote''" | "k \<noteq> ''local''" "k \<noteq> ''remote''" by blast
    then show ?thesis
    proof cases
      case 1
      then show ?thesis
        by (simp add: Some kv pair loop_accepts_local try_bind_Inr cache_actions_from_str_iff Cons.IH conj_commute)
    next
      case 2
      then show ?thesis
        by (simp add: Some kv pair loop_accepts_remote try_bind_Inr cache_actions_from_str_iff Cons.IH conj_commute)
    next
      case 3
      then show ?thesis by (simp add: Some kv pair loop_accepts_def pairs_ok_Cons)
    qed
  qed
qed

text \<open>
  a text is accepted exactly when its comma separated parts are pairs that name \<open>local\<close> or
  \<open>remote\<close>, each at most once, with distinct letters among \<open>r\<close> and \<open>w\<close>; a cache then may be read or
  written exactly when its pair has the letter, and not at all when it is not named.
\<close>

theorem cache_config_from_str_iff:
  "cache_config_from_str s = Inr c \<longleftrightarrow>
     pairs_ok (config_pairs s) \<and>
     c = \<lparr>cc_local = setting_of (config_pairs s) ''local'' actions_disabled,
          cc_remote = setting_of (config_pairs s) ''remote'' actions_disabled\<rparr>"
  by (auto simp: cache_config_from_str_def config_loop_Inr config_pairs_def loop_accepts_def pairs_ok_def)

subsection \<open>Errors point at their cause\<close>

fun error_text :: "config_error \<Rightarrow> string" where
  "error_text (DuplicateKeys text key span) = text"
| "error_text (DuplicateActions text action span) = text"
| "error_text (InvalidCacheTypeAndAction text pair span) = text"
| "error_text (InvalidCacheAction text c span) = text"
| "error_text (InvalidCacheType text s span) = text"

definition labelled :: "string \<Rightarrow> source_span option \<Rightarrow> string" where
  "labelled text span = (case span of Some (off, len) \<Rightarrow> take len (drop off text) | None \<Rightarrow> [])"

text \<open>What an error complains about, as its label shows it. The label of a bad action is the whole word.\<close>

fun label_ok :: "config_error \<Rightarrow> bool" where
  "label_ok (DuplicateKeys text key span) = (labelled text span = key)"
| "label_ok (InvalidCacheTypeAndAction text pair span) = (labelled text span = pair)"
| "label_ok (InvalidCacheType text s span) = (labelled text span = s)"
| "label_ok (DuplicateActions text action span) = True"
| "label_ok (InvalidCacheAction text c span) = True"

lemma add_span_action:
  "actions_loop s cs a = Inl e \<Longrightarrow>
     error_text (add_span sp (error_add_text t e)) = t \<and> label_ok (add_span sp (error_add_text t e))"
  by (induction s cs a rule: actions_loop.induct) (auto simp: add_span_def error_add_text_def split: if_splits)

lemma config_loop_Inl:
  assumes "config_loop s parts sl sr idx c = Inl e" and "parts \<noteq> []"
    and "drop idx s = join_with '','' parts"
  shows "error_text e = s \<and> label_ok e"
  using assms
proof (induction parts arbitrary: sl sr idx c)
  case Nil
  then show ?case by simp
next
  case (Cons action rest)
  obtain tl where pos: "drop idx s = action @ tl"
    using Cons.prems(3) by (cases rest) auto
  show ?case
  proof (cases "split_once (CHR '':'') action")
    case None
    then show ?thesis using Cons.prems(1) pos by (auto simp: labelled_def)
  next
    case (Some kv)
    obtain k v where kv: "kv = (k, v)" by (cases kv)
    with Some have action: "action = k @ CHR '':'' # v" by (simp add: split_once_Some)
    have later: "config_loop s rest sl' sr' (idx + (length action + 1)) c' = Inl e \<Longrightarrow> error_text e = s \<and> label_ok e"
      for sl' sr' c'
    proof (cases rest)
      case (Cons r rs)
      assume run: "config_loop s rest sl' sr' (idx + (length action + 1)) c' = Inl e"
      have "drop (idx + (length action + 1)) s = drop (length action + 1) (drop idx s)"
        by (simp add: drop_drop add.commute)
      also have "\<dots> = join_with '','' rest"
        using Cons.prems(3) Cons by simp
      finally show ?thesis
        using Cons.IH run Cons by blast
    qed simp
    show ?thesis
      using Cons.prems(1) Some kv pos action later add_span_action
      by (auto simp: labelled_def try_bind_Inl map_err_def cache_actions_from_str_def split: if_splits sum.splits)
  qed
qed


text \<open>
  an error carries the whole text, and when it complains about a key, a kind of cache or a pair, its
  label is just that piece of the text.
\<close>

theorem cache_config_error_label:
  assumes "cache_config_from_str s = Inl e"
  shows "error_text e = s \<and> label_ok e"
proof (rule config_loop_Inl)
  show "config_loop s (split_on (CHR '','') s) False False 0 \<lparr>cc_local = actions_disabled, cc_remote = actions_disabled\<rparr> = Inl e"
    using assms by (simp add: cache_config_from_str_def Let_def split: if_splits)
qed (simp_all add: join_split_on)

theorem cache_config_error_label_witness:
  "cache_config_from_str ''local:r,file:w'' = Inl (InvalidCacheType ''local:r,file:w'' ''file'' (Some (8, 4))) \<and>
   error_text (InvalidCacheType ''local:r,file:w'' ''file'' (Some (8, 4))) = ''local:r,file:w'' \<and>
   label_ok (InvalidCacheType ''local:r,file:w'' ''file'' (Some (8, 4)))"
proof -
  have run: "cache_config_from_str ''local:r,file:w'' = Inl (InvalidCacheType ''local:r,file:w'' ''file'' (Some (8, 4)))"
    by code_simp
  from run cache_config_error_label [OF run] show ?thesis by simp
qed

text \<open>
  For a bad action of the local cache the label has the length of the word \<open>local\<close> and not that of the
  actions: here it runs into the next pair. The remote cache labels its actions.
\<close>

lemma local_action_label:
  "cache_config_from_str ''local:x,remote:r'' = Inl (InvalidCacheAction ''local:x,remote:r'' (CHR ''x'') (Some (6, 5)))"
  "labelled ''local:x,remote:r'' (Some (6, 5)) = ''x,rem''"
  "cache_config_from_str ''local:r,remote:x'' = Inl (InvalidCacheAction ''local:r,remote:x'' (CHR ''x'') (Some (15, 1)))"
  by code_simp+

text \<open>Printing settings and reading them back.\<close>

definition actions_print :: "cache_actions \<Rightarrow> string" where
  "actions_print a = (if ca_read a then ''r'' else []) @ (if ca_write a then ''w'' else [])"

lemma cache_config_round_trip:
  "cache_config_from_str (''local:'' @ actions_print l @ '',remote:'' @ actions_print r) =
     Inr \<lparr>cc_local = l, cc_remote = r\<rparr>"
  by (cases l; cases r; simp add: actions_print_def cache_config_from_str_def cache_actions_from_str_def Let_def
    map_err_def actions_disabled_def; intro conjI impI; simp)

end
