(* ===== verification/Cache.thy ===== *)
theory Cache
  imports Cache_Restore Cache_Config
begin

text \<open>
  The caches: \<open>signature_authentication.rs\<close>, \<open>fs.rs\<close>, \<open>http.rs\<close> and \<open>multiplexer.rs\<close> of
  \<open>nrzrepo-cache\<close>. The state of the world is the file system, the network, the recorded analytics
  events, the uploads and the two flags of the multiplexer. The keyed digest, base 64, the format of
  the metadata file and the environment variable with the key are parameters.
\<close>

subsection \<open>Signatures\<close>

record sign_libs =
  sl_hmac :: "string \<Rightarrow> string \<Rightarrow> string"
  sl_base64_encode :: "string \<Rightarrow> string"
  sl_base64_decode :: "string \<Rightarrow> string option"
  sl_env_key :: "string option"

record authenticator =
  au_team_id :: string
  au_secret_key_override :: "string option"

definition secret_key :: "sign_libs \<Rightarrow> authenticator \<Rightarrow> (signature_error, string) result" where
  "secret_key sl a =
     (case au_secret_key_override a of
        Some key \<Rightarrow> Inr key
      | None \<Rightarrow> (case sl_env_key sl of Some key \<Rightarrow> Inr key | None \<Rightarrow> Inl NoSignatureSecretKey))"

definition construct_metadata :: "authenticator \<Rightarrow> string \<Rightarrow> string" where
  "construct_metadata a hash = hash @ au_team_id a"

text \<open>The state of the generator: its key and what was fed to it.\<close>

definition get_tag_generator :: "sign_libs \<Rightarrow> authenticator \<Rightarrow> string \<Rightarrow> (signature_error, string \<times> string) result" where
  "get_tag_generator sl a hash = try_bind (secret_key sl a) (\<lambda>key. Inr (key, construct_metadata a hash))"

definition generate_tag_bytes :: "sign_libs \<Rightarrow> authenticator \<Rightarrow> string \<Rightarrow> string \<Rightarrow> (signature_error, string) result" where
  "generate_tag_bytes sl a hash artifact_body =
     try_bind (get_tag_generator sl a hash) (\<lambda>(key, fed). Inr (sl_hmac sl key (fed @ artifact_body)))"

definition generate_tag :: "sign_libs \<Rightarrow> authenticator \<Rightarrow> string \<Rightarrow> string \<Rightarrow> (signature_error, string) result" where
  "generate_tag sl a hash artifact_body =
     try_bind (get_tag_generator sl a hash)
       (\<lambda>(key, fed). Inr (sl_base64_encode sl (sl_hmac sl key (fed @ artifact_body))))"

definition validate_tag :: "sign_libs \<Rightarrow> authenticator \<Rightarrow> string \<Rightarrow> string \<Rightarrow> string \<Rightarrow> (signature_error, bool) result" where
  "validate_tag sl a hash artifact_body expected_tag =
     try_bind (secret_key sl a) (\<lambda>key.
     try_bind (case sl_base64_decode sl expected_tag of Some b \<Rightarrow> Inr b | None \<Rightarrow> Inl Base64EncodingError) (\<lambda>expected_bytes.
       Inr (sl_hmac sl key (construct_metadata a hash @ artifact_body) = expected_bytes)))"

definition sig_err :: "(signature_error, 'a) result \<Rightarrow> (cache_error, 'a) result" where
  "sig_err = map_err SignatureError"

subsection \<open>The world of the caches\<close>

datatype cache_source = Local | Remote
datatype cache_event = Hit | Miss

type_synonym u64 = "64 word"

record analytics_event =
  ae_source :: cache_source
  ae_event :: cache_event
  ae_hash :: string
  ae_duration :: u64

record cache_hit_metadata =
  ch_source :: cache_source
  ch_time_saved :: u64

record 'w cache_world =
  cw_fs :: fs
  cw_net :: 'w
  cw_events :: "analytics_event list"
  cw_uploads :: "(string, nat) hash_map"
  cw_should_use_http_cache :: bool
  cw_should_print_skipping_remote_put :: bool

type_synonym ('w, 'a) cache_io = "('w cache_world, cache_error, 'a) io"

definition on_fs :: "'a fs_io \<Rightarrow> ('w, 'a) cache_io" where
  "on_fs m w = (case m (cw_fs w) of (r, fs') \<Rightarrow> (r, w\<lparr>cw_fs := fs'\<rparr>))"

definition on_net :: "(api_error \<Rightarrow> cache_error) \<Rightarrow> ('w, api_error, 'a) io \<Rightarrow> ('w, 'a) cache_io" where
  "on_net conv m w = (case m (cw_net w) of (r, n') \<Rightarrow> (map_err conv r, w\<lparr>cw_net := n'\<rparr>))"

text \<open>Parameters of the caches.\<close>

record 'w cache_env =
  ce_restore :: restore_env
  ce_sign :: sign_libs
  ce_api :: api_libs
  ce_transport :: "'w transport"
  ce_meta_encode :: "string \<times> u64 \<Rightarrow> string"
  ce_meta_decode :: "string \<Rightarrow> (string \<times> u64) option"

abbreviation ce_archive :: "('w, 'm) cache_env_scheme \<Rightarrow> archive_libs" where
  "ce_archive ce \<equiv> re_libs (ce_restore ce)"

subsection \<open>The cache in the file system\<close>

record fs_cache =
  fc_cache_directory :: string
  fc_analytics_recorder :: bool

definition from_unknown :: "(string \<Rightarrow> string) \<Rightarrow> string \<Rightarrow> string \<Rightarrow> string" where
  "from_unknown clean base unknown = (if path_is_absolute unknown then unknown else clean (path_join base unknown))"

definition join_component :: "(string \<Rightarrow> string) \<Rightarrow> string \<Rightarrow> string \<Rightarrow> string" where
  "join_component clean p segment = clean (path_join p segment)"

definition fs_cache_new :: "'w cache_env \<Rightarrow> string \<Rightarrow> string \<Rightarrow> bool \<Rightarrow> ('w, fs_cache) cache_io" where
  "fs_cache_new ce cache_dir repo_root recorder =
     (let cache_directory = from_unknown (ar_clean (ce_archive ce)) repo_root cache_dir
      in io_bind (on_fs (fs_op (fs_create_dir_all (re_umask (ce_restore ce)) cache_directory)))
           (\<lambda>_. io_lift (Inr \<lparr>fc_cache_directory = cache_directory, fc_analytics_recorder = recorder\<rparr>)))"

definition log_fetch :: "bool \<Rightarrow> cache_source \<Rightarrow> cache_event \<Rightarrow> string \<Rightarrow> u64 \<Rightarrow> ('w, unit) cache_io" where
  "log_fetch recorder source event hash duration w =
     (Inr (), if recorder
              then w\<lparr>cw_events := cw_events w @ [\<lparr>ae_source = source, ae_event = event, ae_hash = hash, ae_duration = duration\<rparr>]\<rparr>
              else w)"

definition uncompressed_path :: "'w cache_env \<Rightarrow> fs_cache \<Rightarrow> string \<Rightarrow> string" where
  "uncompressed_path ce fc hash = join_component (ar_clean (ce_archive ce)) (fc_cache_directory fc) (hash @ ''.tar'')"

definition compressed_path :: "'w cache_env \<Rightarrow> fs_cache \<Rightarrow> string \<Rightarrow> string" where
  "compressed_path ce fc hash = join_component (ar_clean (ce_archive ce)) (fc_cache_directory fc) (hash @ ''.tar.zst'')"

definition metadata_path :: "'w cache_env \<Rightarrow> fs_cache \<Rightarrow> string \<Rightarrow> string" where
  "metadata_path ce fc hash = join_component (ar_clean (ce_archive ce)) (fc_cache_directory fc) (hash @ ''-meta.json'')"

definition metadata_read :: "'w cache_env \<Rightarrow> fs \<Rightarrow> string \<Rightarrow> (cache_error, string \<times> u64) result" where
  "metadata_read ce fs path =
     try_bind (cache_io (fs_read fs path)) (\<lambda>s. case ce_meta_decode ce s of Some m \<Rightarrow> Inr m | None \<Rightarrow> Inl InvalidMetadata)"

definition fs_cache_fetch ::
  "'w cache_env \<Rightarrow> fs_cache \<Rightarrow> string \<Rightarrow> string \<Rightarrow> ('w, (cache_hit_metadata \<times> string list) option) cache_io" where
  "fs_cache_fetch ce fc base hash w =
     (let path = (if fs_exists (cw_fs w) (uncompressed_path ce fc hash) then Some (uncompressed_path ce fc hash)
                  else if fs_exists (cw_fs w) (compressed_path ce fc hash) then Some (compressed_path ce fc hash)
                  else None)
      in case path of
           None \<Rightarrow> io_bind (log_fetch (fc_analytics_recorder fc) Local Miss hash 0) (\<lambda>_. io_lift (Inr None)) w
         | Some archive_path \<Rightarrow>
             io_bind (on_fs (fs_get (\<lambda>fs. cache_reader_open fs archive_path))) (\<lambda>(is_compressed, bytes).
             io_bind (on_fs (cache_restore (ce_restore ce) base is_compressed bytes)) (\<lambda>restored_files.
             io_bind (on_fs (fs_get (\<lambda>fs. metadata_read ce fs (metadata_path ce fc hash)))) (\<lambda>(_, duration).
             io_bind (log_fetch (fc_analytics_recorder fc) Local Hit hash duration) (\<lambda>_.
               io_lift (Inr (Some (\<lparr>ch_source = Local, ch_time_saved = duration\<rparr>, restored_files))))))) w)"

definition fs_cache_exists :: "'w cache_env \<Rightarrow> fs_cache \<Rightarrow> string \<Rightarrow> fs \<Rightarrow> cache_hit_metadata option" where
  "fs_cache_exists ce fc hash fs =
     (if \<not> fs_exists fs (uncompressed_path ce fc hash) \<and> \<not> fs_exists fs (compressed_path ce fc hash) then None
      else
        let duration = (case metadata_read ce fs (metadata_path ce fc hash) of Inr (_, d) \<Rightarrow> d | Inl _ \<Rightarrow> 0)
        in Some \<lparr>ch_source = Local, ch_time_saved = duration\<rparr>)"

text \<open>
  The archive is created empty, the files are added, and dropping the writer at the end writes what was
  added, after errors too, and without a report of its own. New files get the mode that the standard
  library asks for.
\<close>

definition fs_cache_put :: "'w cache_env \<Rightarrow> fs_cache \<Rightarrow> string \<Rightarrow> string \<Rightarrow> string list \<Rightarrow> u64 \<Rightarrow> unit fs_io" where
  "fs_cache_put ce fc base hash files duration =
     io_bind (fs_op (fs_write (re_umask (ce_restore ce)) 0x1B6 (compressed_path ce fc hash) [])) (\<lambda>_ fs.
       let (failed, entries) = add_files (ce_archive ce) fs base [] files;
           (r, fs') = (case failed of
               Some e \<Rightarrow> (Inl e, fs)
             | None \<Rightarrow> fs_op (fs_write (re_umask (ce_restore ce)) 0x1B6 (metadata_path ce fc hash)
                         (ce_meta_encode ce (hash, duration))) fs)
       in (r, snd (fs_write (re_umask (ce_restore ce)) 0x1B6 (compressed_path ce fc hash)
            (ar_encode (ce_archive ce) (has_zst_extension (compressed_path ce fc hash)) entries) fs')))"

subsection \<open>The remote cache\<close>

record http_cache =
  hc_client :: api_client
  hc_signer_verifier :: "authenticator option"
  hc_repo_root :: string
  hc_api_auth :: api_auth
  hc_analytics_recorder :: bool

definition http_cache_new :: "api_client \<Rightarrow> bool option \<Rightarrow> string \<Rightarrow> api_auth \<Rightarrow> bool \<Rightarrow> http_cache" where
  "http_cache_new client signature repo_root auth recorder =
     \<lparr>hc_client = client,
      hc_signer_verifier =
        (if signature = Some True
         then Some \<lparr>au_team_id = (case aa_team_id auth of Some t \<Rightarrow> t | None \<Rightarrow> []), au_secret_key_override = None\<rparr>
         else None),
      hc_repo_root = repo_root, hc_api_auth = auth, hc_analytics_recorder = recorder\<rparr>"

definition convert_api_error :: "string \<Rightarrow> api_error \<Rightarrow> cache_error" where
  "convert_api_error hash err =
     (case err of
        ReqwestError e \<Rightarrow>
          if he_timeout e then TimeoutError hash
          else if he_connect e then ConnectError
          else ApiClientError err
      | UnknownStatus code message \<Rightarrow> if code = ''forbidden'' then ForbiddenRemoteCacheWrite else ApiClientError err
      | _ \<Rightarrow> ApiClientError err)"

definition http_write :: "'w cache_env \<Rightarrow> fs \<Rightarrow> string \<Rightarrow> string list \<Rightarrow> (cache_error, string) result" where
  "http_write ce fs base files =
     (case add_files (ce_archive ce) fs base [] files of
        (Some e, _) \<Rightarrow> Inl e
      | (None, entries) \<Rightarrow> Inr (ar_encode (ce_archive ce) True entries))"

definition http_cache_put ::
  "'w cache_env \<Rightarrow> http_cache \<Rightarrow> string \<Rightarrow> string \<Rightarrow> string list \<Rightarrow> u64 \<Rightarrow> ('w, unit) cache_io" where
  "http_cache_put ce hc base hash files duration =
     io_bind (on_fs (fs_get (\<lambda>fs. http_write ce fs base files))) (\<lambda>artifact_body.
     io_bind (io_lift (case hc_signer_verifier hc of
                         None \<Rightarrow> Inr None
                       | Some signer \<Rightarrow> try_bind (sig_err (generate_tag (ce_sign ce) signer hash artifact_body)) (\<lambda>t. Inr (Some t)))) (\<lambda>tag.
     io_bind (\<lambda>w. (Inr (), w\<lparr>cw_uploads := hm_insert hash (length artifact_body) (cw_uploads w)\<rparr>)) (\<lambda>_.
       on_net (convert_api_error hash)
         (put_artifact (ce_transport ce) (ce_api ce) (hc_client hc) hash artifact_body (length artifact_body) (unat duration) tag
            (aa_token (hc_api_auth hc)) (aa_team_id (hc_api_auth hc)) (aa_team_slug (hc_api_auth hc))))))"

text \<open>\<open>str::parse::<u64>\<close>.\<close>

fun digits_value :: "string \<Rightarrow> nat \<Rightarrow> nat option" where
  "digits_value [] acc = Some acc"
| "digits_value (c # cs) acc =
     (if 48 \<le> (of_char c :: nat) \<and> (of_char c :: nat) \<le> 57 then digits_value cs (acc * 10 + (of_char c - 48)) else None)"

definition parse_u64 :: "string \<Rightarrow> u64 option" where
  "parse_u64 s =
     (let ds = (case s of c # cs \<Rightarrow> if c = CHR ''+'' then cs else s | [] \<Rightarrow> [])
      in if ds = [] then None
         else case digits_value ds 0 of
                Some n \<Rightarrow> if n < 2 ^ 64 then Some (of_nat n) else None
              | None \<Rightarrow> None)"

definition get_duration_from_response :: "http_response \<Rightarrow> (cache_error, u64) result" where
  "get_duration_from_response response =
     (case map_of (rs_headers response) ''x-artifact-duration'' of
        None \<Rightarrow> Inr 0
      | Some value \<Rightarrow>
          (case header_to_str value of
             None \<Rightarrow> Inl InvalidDuration
           | Some duration \<Rightarrow> (case parse_u64 duration of Some d \<Rightarrow> Inr d | None \<Rightarrow> Inl InvalidDuration)))"

definition http_cache_exists :: "'w cache_env \<Rightarrow> http_cache \<Rightarrow> string \<Rightarrow> ('w, cache_hit_metadata option) cache_io" where
  "http_cache_exists ce hc hash =
     io_bind (on_net ApiClientError
       (artifact_exists (ce_transport ce) (ce_api ce) (hc_client hc) hash
          (aa_token (hc_api_auth hc)) (aa_team_id (hc_api_auth hc)) (aa_team_slug (hc_api_auth hc)))) (\<lambda>response.
     case response of
       None \<Rightarrow> io_lift (Inr None)
     | Some rs \<Rightarrow> io_bind (io_lift (get_duration_from_response rs)) (\<lambda>duration.
         io_lift (Inr (Some \<lparr>ch_source = Remote, ch_time_saved = duration\<rparr>))))"

text \<open>The body of a response, checked against its tag when signatures are on.\<close>

definition verified_body :: "'w cache_env \<Rightarrow> http_cache \<Rightarrow> string \<Rightarrow> http_response \<Rightarrow> (cache_error, string) result" where
  "verified_body ce hc hash response =
     (let body = map_err (\<lambda>e. ApiClientError (ReqwestError e)) (rs_body response)
      in case hc_signer_verifier hc of
           None \<Rightarrow> body
         | Some signer_verifier \<Rightarrow>
             try_bind (case map_of (rs_headers response) ''x-artifact-tag'' of
                         None \<Rightarrow> Inl ArtifactTagMissing
                       | Some value \<Rightarrow> (case header_to_str value of Some t \<Rightarrow> Inr t | None \<Rightarrow> Inl InvalidTag)) (\<lambda>expected_tag.
             try_bind body (\<lambda>body.
             try_bind (sig_err (validate_tag (ce_sign ce) signer_verifier hash body expected_tag)) (\<lambda>is_valid.
               if is_valid then Inr body else Inl InvalidTag))))"

definition http_cache_fetch ::
  "'w cache_env \<Rightarrow> http_cache \<Rightarrow> string \<Rightarrow> ('w, (cache_hit_metadata \<times> string list) option) cache_io" where
  "http_cache_fetch ce hc hash =
     io_bind (on_net ApiClientError
       (fetch_artifact (ce_transport ce) (ce_api ce) (hc_client hc) hash
          (aa_token (hc_api_auth hc)) (aa_team_id (hc_api_auth hc)) (aa_team_slug (hc_api_auth hc)))) (\<lambda>response.
     case response of
       None \<Rightarrow> io_bind (log_fetch (hc_analytics_recorder hc) Remote Miss hash 0) (\<lambda>_. io_lift (Inr None))
     | Some rs \<Rightarrow>
         io_bind (io_lift (get_duration_from_response rs)) (\<lambda>duration.
         io_bind (io_lift (verified_body ce hc hash rs)) (\<lambda>body.
         io_bind (on_fs (cache_restore (ce_restore ce) (hc_repo_root hc) True body)) (\<lambda>files.
         io_bind (log_fetch (hc_analytics_recorder hc) Remote Hit hash duration) (\<lambda>_.
           io_lift (Inr (Some (\<lparr>ch_source = Remote, ch_time_saved = duration\<rparr>, files))))))))"

subsection \<open>The multiplexer\<close>

record multiplexer =
  mx_cache_config :: cache_config
  mx_fs :: "fs_cache option"
  mx_http :: "http_cache option"

record cache_opts =
  co_cache_dir :: string
  co_cache :: cache_config
  co_workers :: nat
  co_signature :: "bool option"

definition multiplexer_new ::
  "'w cache_env \<Rightarrow> cache_opts \<Rightarrow> string \<Rightarrow> api_client \<Rightarrow> api_auth option \<Rightarrow> bool \<Rightarrow> ('w, multiplexer) cache_io" where
  "multiplexer_new ce opts repo_root client auth recorder =
     (let use_fs_cache = should_use (cc_local (co_cache opts));
          use_http_cache = should_use (cc_remote (co_cache opts))
      in io_bind (if use_fs_cache
                  then io_bind (fs_cache_new ce (co_cache_dir opts) repo_root recorder) (\<lambda>fc. io_lift (Inr (Some fc)))
                  else io_lift (Inr None)) (\<lambda>fs_cache w.
         let http_cache = (if use_http_cache
                           then map_option (\<lambda>a. http_cache_new client (co_signature opts) repo_root a recorder) auth
                           else None)
         in (Inr \<lparr>mx_cache_config = co_cache opts, mx_fs = fs_cache, mx_http = http_cache\<rparr>,
             w\<lparr>cw_should_use_http_cache := (http_cache \<noteq> None), cw_should_print_skipping_remote_put := True\<rparr>)))"

definition get_http_cache :: "multiplexer \<Rightarrow> 'w cache_world \<Rightarrow> http_cache option" where
  "get_http_cache mx w = (if cw_should_use_http_cache w then mx_http mx else None)"

definition multiplexer_put ::
  "'w cache_env \<Rightarrow> multiplexer \<Rightarrow> string \<Rightarrow> string \<Rightarrow> string list \<Rightarrow> u64 \<Rightarrow> ('w, unit) cache_io" where
  "multiplexer_put ce mx base key files duration =
     io_bind (if ca_write (cc_local (mx_cache_config mx))
              then (case mx_fs mx of
                      Some fc \<Rightarrow> on_fs (fs_cache_put ce fc base key files duration)
                    | None \<Rightarrow> io_lift (Inr ()))
              else io_lift (Inr ())) (\<lambda>_ w.
       case get_http_cache mx w of
         None \<Rightarrow> (Inr (), w)
       | Some hc \<Rightarrow>
           if ca_write (cc_remote (mx_cache_config mx)) then
             (case http_cache_put ce hc base key files duration w of
                (Inl (ApiClientError (CacheDisabled status message)), w') \<Rightarrow>
                  (Inr (), w'\<lparr>cw_should_use_http_cache := False\<rparr>)
              | (Inl e, w') \<Rightarrow> (Inl e, w')
              | (Inr _, w') \<Rightarrow> (Inr (), w'))
           else (Inr (), w\<lparr>cw_should_print_skipping_remote_put := False\<rparr>))"

text \<open>The local half of a lookup falls through to the remote half on a miss and on an error.\<close>

definition multiplexer_fetch ::
  "'w cache_env \<Rightarrow> multiplexer \<Rightarrow> string \<Rightarrow> string \<Rightarrow> ('w, (cache_hit_metadata \<times> string list) option) cache_io" where
  "multiplexer_fetch ce mx base key w =
     (let (found, w1) =
        (if ca_read (cc_local (mx_cache_config mx))
         then (case mx_fs mx of
                 Some fc \<Rightarrow> (case fs_cache_fetch ce fc base key w of
                               (Inr (Some hit), w') \<Rightarrow> (Some hit, w')
                             | (_, w') \<Rightarrow> (None, w'))
               | None \<Rightarrow> (None, w))
         else (None, w))
      in case found of
           Some hit \<Rightarrow> (Inr (Some hit), w1)
         | None \<Rightarrow>
             if ca_read (cc_remote (mx_cache_config mx)) then
               (case get_http_cache mx w1 of
                  None \<Rightarrow> (Inr None, w1)
                | Some hc \<Rightarrow>
                    (case http_cache_fetch ce hc key w1 of
                       (Inr (Some (hit, files)), w2) \<Rightarrow>
                         (Inr (Some (hit, files)),
                          if ca_write (cc_local (mx_cache_config mx))
                          then (case mx_fs mx of
                                  Some fc \<Rightarrow> snd (on_fs (fs_cache_put ce fc base key files (ch_time_saved hit)) w2)
                                | None \<Rightarrow> w2)
                          else w2)
                     | (_, w2) \<Rightarrow> (Inr None, w2)))
             else (Inr None, w1))"

definition multiplexer_exists :: "'w cache_env \<Rightarrow> multiplexer \<Rightarrow> string \<Rightarrow> ('w, cache_hit_metadata option) cache_io" where
  "multiplexer_exists ce mx key w =
     (let found = (if ca_read (cc_local (mx_cache_config mx))
                   then (case mx_fs mx of Some fc \<Rightarrow> fs_cache_exists ce fc key (cw_fs w) | None \<Rightarrow> None)
                   else None)
      in case found of
           Some hit \<Rightarrow> (Inr (Some hit), w)
         | None \<Rightarrow>
             if ca_read (cc_remote (mx_cache_config mx)) then
               (case get_http_cache mx w of
                  None \<Rightarrow> (Inr None, w)
                | Some hc \<Rightarrow>
                    (case http_cache_exists ce hc key w of
                       (Inr (Some hit), w') \<Rightarrow> (Inr (Some hit), w')
                     | (_, w') \<Rightarrow> (Inr None, w')))
             else (Inr None, w))"

subsection \<open>Signatures authenticate artifacts\<close>

lemma map_err_Inl: "map_err f r = Inl e \<longleftrightarrow> (\<exists>e'. r = Inl e' \<and> e = f e')"
  by (auto simp: map_err_def split: sum.splits)

definition base64_spec :: "sign_libs \<Rightarrow> bool" where
  "base64_spec sl \<longleftrightarrow> (\<forall>s. sl_base64_decode sl (sl_base64_encode sl s) = Some s)"

text \<open>
  C34: a tag that was made for an artifact is accepted for it; and with a digest that does not collide
  on the two messages, a tag made for one artifact is accepted for another, by the same team with the
  same key and for a hash of the same length, only when hash and body are the same.
\<close>

theorem signature_authentic:
  assumes base64: "base64_spec sl" and tag: "generate_tag sl a hash body = Inr tag"
    and same_length: "length hash' = length hash"
    and no_collision: "\<And>key. secret_key sl a = Inr key \<Longrightarrow>
      inj_on (sl_hmac sl key) {construct_metadata a hash @ body, construct_metadata a hash' @ body'}"
  shows "validate_tag sl a hash body tag = Inr True \<and>
    (validate_tag sl a hash' body' tag = Inr True \<longleftrightarrow> hash' = hash \<and> body' = body)"
proof -
  obtain key where key: "secret_key sl a = Inr key"
    and t: "tag = sl_base64_encode sl (sl_hmac sl key (construct_metadata a hash @ body))"
    using tag by (auto simp: generate_tag_def get_tag_generator_def try_bind_Inr)
  have check: "validate_tag sl a h b tag = Inr (sl_hmac sl key (construct_metadata a h @ b) = sl_hmac sl key (construct_metadata a hash @ body))"
    for h b
    using base64 by (simp add: validate_tag_def key t base64_spec_def)
  have "construct_metadata a hash' @ body' = construct_metadata a hash @ body \<longleftrightarrow> hash' = hash \<and> body' = body"
    using same_length by (simp add: construct_metadata_def)
  then show ?thesis
    unfolding check using no_collision [OF key] by (auto dest: inj_onD)
qed

text \<open>Libraries for examples: the digest is the message after the key.\<close>

definition sample_sign :: sign_libs where
  "sample_sign = \<lparr>sl_hmac = (\<lambda>k m. k @ m), sl_base64_encode = id, sl_base64_decode = Some, sl_env_key = Some ''k''\<rparr>"

definition sample_auth :: authenticator where
  "sample_auth = \<lparr>au_team_id = ''team_1'', au_secret_key_override = None\<rparr>"

theorem signature_authentic_witness:
  "validate_tag sample_sign sample_auth ''h1'' ''b'' ''kh1team_1b'' = Inr True \<and>
   (validate_tag sample_sign sample_auth ''h2'' ''b'' ''kh1team_1b'' = Inr True \<longleftrightarrow> ''h2'' = ''h1'' \<and> ''b'' = ''b'')"
  by (rule signature_authentic)
    (auto simp: base64_spec_def sample_sign_def sample_auth_def generate_tag_def get_tag_generator_def secret_key_def
      construct_metadata_def inj_on_def)

text \<open>The team is not delimited in the message: with one key, a tag also fits a shorter team and a longer body.\<close>

lemma team_not_delimited:
  "generate_tag sl \<lparr>au_team_id = team @ part, au_secret_key_override = k\<rparr> hash body =
     generate_tag sl \<lparr>au_team_id = team, au_secret_key_override = k\<rparr> hash (part @ body)"
  by (simp add: generate_tag_def get_tag_generator_def secret_key_def construct_metadata_def split: option.splits)

subsection \<open>Nothing unverified is restored\<close>

text \<open>
  C33: with signatures on, fetching from the remote cache changes the file system only when the response
  has a tag that is valid for the hash and the body; any other response leaves it as it is, and is no hit.
\<close>

theorem http_fetch_verified:
  assumes signer: "hc_signer_verifier hc = Some signer"
    and fetched: "fetch_artifact (ce_transport ce) (ce_api ce) (hc_client hc) hash
        (aa_token (hc_api_auth hc)) (aa_team_id (hc_api_auth hc)) (aa_team_slug (hc_api_auth hc)) (cw_net w) = (Inr (Some rs), n)"
    and not_valid: "\<And>body tag. rs_body rs = Inr body \<Longrightarrow> map_of (rs_headers rs) ''x-artifact-tag'' = Some tag \<Longrightarrow>
      validate_tag (ce_sign ce) signer hash body tag \<noteq> Inr True"
  shows "cw_fs (snd (http_cache_fetch ce hc hash w)) = cw_fs w \<and> (\<exists>e. fst (http_cache_fetch ce hc hash w) = Inl e)"
proof -
  have bad: "\<exists>e. verified_body ce hc hash rs = Inl e"
  proof (cases "verified_body ce hc hash rs")
    case (Inr body)
    then obtain tag where "map_of (rs_headers rs) ''x-artifact-tag'' = Some tag" "rs_body rs = Inr body"
      "validate_tag (ce_sign ce) signer hash body tag = Inr True"
      by (auto simp: verified_body_def signer Let_def try_bind_Inr sig_err_def header_to_str_def
          split: option.splits if_splits)
    with not_valid show ?thesis by blast
  qed simp
  then show ?thesis
    by (cases "get_duration_from_response rs")
      (auto simp: http_cache_fetch_def io_bind_def on_net_def fetched io_lift_def map_err_def split: sum.splits)
qed

subsection \<open>Settings are respected\<close>

text \<open>What an operation leaves alone.\<close>

lemma on_fs_net [simp]: "cw_net (snd (on_fs m w)) = cw_net w"
  "cw_should_use_http_cache (snd (on_fs m w)) = cw_should_use_http_cache w"
  by (simp_all add: on_fs_def split: prod.splits)

lemma on_net_fs [simp]: "cw_fs (snd (on_net conv m w)) = cw_fs w"
  by (simp add: on_net_def split: prod.splits)

lemma log_fetch_world [simp]:
  "cw_net (snd (log_fetch r s e h d w)) = cw_net w" "cw_fs (snd (log_fetch r s e h d w)) = cw_fs w"
  "cw_should_use_http_cache (snd (log_fetch r s e h d w)) = cw_should_use_http_cache w"
  "fst (log_fetch r s e h d w) = Inr ()"
  by (simp_all add: log_fetch_def)

lemma fs_cache_fetch_net:
  "cw_net (snd (fs_cache_fetch ce fc base hash w)) = cw_net w \<and>
   cw_should_use_http_cache (snd (fs_cache_fetch ce fc base hash w)) = cw_should_use_http_cache w"
  by (simp add: fs_cache_fetch_def io_bind_fst_snd io_lift_def Let_def case_prod_beta split: sum.splits)

lemma http_cache_put_fs: "cw_fs (snd (http_cache_put ce hc base hash files d w)) = cw_fs w"
  by (simp add: http_cache_put_def io_bind_fst_snd io_lift_def on_fs_def fs_get_def split: sum.splits)

lemma put_not_local:
  assumes "\<not> ca_write (cc_local (mx_cache_config mx))"
  shows "cw_fs (snd (multiplexer_put ce mx base key files d w)) = cw_fs w"
  using assms http_cache_put_fs [of ce _ base key files d w]
  by (auto simp: multiplexer_put_def io_bind_def io_lift_def split: option.splits sum.splits prod.splits
      cache_error.splits api_error.splits) (metis snd_conv)+

lemma put_not_remote:
  assumes "\<not> ca_write (cc_remote (mx_cache_config mx)) \<or> get_http_cache mx w = None"
  shows "cw_net (snd (multiplexer_put ce mx base key files d w)) = cw_net w"
proof -
  have flag: "get_http_cache mx (snd (on_fs m w)) = get_http_cache mx w" for m by (simp add: get_http_cache_def)
  show ?thesis
    using assms by (auto simp: multiplexer_put_def io_bind_fst_snd io_lift_def flag split: option.splits sum.splits)
qed

lemma fetch_not_remote:
  assumes "\<not> ca_read (cc_remote (mx_cache_config mx)) \<or> get_http_cache mx w = None"
  shows "cw_net (snd (multiplexer_fetch ce mx base key w)) = cw_net w"
    and "cw_net (snd (multiplexer_exists ce mx key w)) = cw_net w"
proof -
  have flag: "get_http_cache mx (snd (fs_cache_fetch ce fc base key w)) = get_http_cache mx w" for fc
    using fs_cache_fetch_net [of ce fc base key w] by (simp add: get_http_cache_def)
  show "cw_net (snd (multiplexer_exists ce mx key w)) = cw_net w"
    using assms by (auto simp: multiplexer_exists_def Let_def split: option.splits if_splits)
  have local_half: "cw_net w' = cw_net w \<and> get_http_cache mx w' = get_http_cache mx w"
    if "fs_cache_fetch ce fc base key w = (r, w')" for fc r w'
    using fs_cache_fetch_net [of ce fc base key w] that by (simp add: get_http_cache_def)
  show "cw_net (snd (multiplexer_fetch ce mx base key w)) = cw_net w"
    using assms local_half
    by (auto simp: multiplexer_fetch_def Let_def split: option.splits if_splits sum.splits prod.splits)
qed

text \<open>
  when the service answers to an upload that caching is disabled, the put succeeds all the same, and
  from then on no operation of the multiplexer uses the network.
\<close>

theorem multiplexer_cache_disabled:
  assumes local_half: "(if ca_write (cc_local (mx_cache_config mx))
        then (case mx_fs mx of Some fc \<Rightarrow> on_fs (fs_cache_put ce fc base key files d) | None \<Rightarrow> io_lift (Inr ()))
        else io_lift (Inr ())) w = (Inr (), w1)"
    and remote: "get_http_cache mx w1 = Some hc" "ca_write (cc_remote (mx_cache_config mx))"
    and disabled: "http_cache_put ce hc base key files d w1 = (Inl (ApiClientError (CacheDisabled status message)), w2)"
  shows "\<exists>w3. multiplexer_put ce mx base key files d w = (Inr (), w3) \<and>
    cw_net (snd (multiplexer_put ce mx base' key' files' d' w3)) = cw_net w3 \<and>
    cw_net (snd (multiplexer_fetch ce mx base' key' w3)) = cw_net w3 \<and>
    cw_net (snd (multiplexer_exists ce mx key' w3)) = cw_net w3"
proof -
  let ?w3 = "w2\<lparr>cw_should_use_http_cache := False\<rparr>"
  have "multiplexer_put ce mx base key files d w = (Inr (), ?w3)"
    unfolding multiplexer_put_def by (simp add: io_bind_def local_half remote disabled)
  moreover have "get_http_cache mx ?w3 = None" by (simp add: get_http_cache_def)
  ultimately show ?thesis using put_not_remote fetch_not_remote by blast
qed


subsection \<open>What is put is fetched\<close>

lemma locate_node:
  assumes "fs_ok fs" and "fs (l @ [x]) = Some node" and "\<not> is_link_node (Some node)"
  shows "fs_locate fs follow (abs_path (l @ [x])) = Inr (l @ [x])"
  using fs_locate_reach [OF assms(1)] fs_ok_parent [OF assms(1), of "l @ [x]"] assms(2,3) by simp

lemma node_read:
  assumes "fs_ok fs" and "fs (l @ [x]) = Some node" and "\<not> is_link_node (Some node)" and "os_path p = abs_path (l @ [x])"
  shows "fs_lstat fs p = Inr node" and "fs_stat fs p = Inr node" and "fs_exists fs p"
  using locate_node [OF assms(1-3)] assms(2,4)
  by (simp_all add: fs_lstat_def fs_stat_def fs_exists_def fs_node_at_def)

lemma node_missing:
  assumes "fs_ok fs" and "is_dir_node (fs l)" and "fs (l @ [x]) = None" and "os_path p = abs_path (l @ [x])"
  shows "\<not> fs_exists fs p"
  using fs_locate_reach [OF assms(1,2)] assms(3,4) by (simp add: fs_exists_def fs_stat_def fs_node_at_def)

text \<open>A location where a file can be written.\<close>

definition file_slot :: "fs \<Rightarrow> loc \<Rightarrow> bool" where
  "file_slot fs l \<longleftrightarrow> fs l = None \<or> (\<exists>m s. fs l = Some (FileNode m s))"

lemma file_written:
  assumes "fs_ok fs" and "is_dir_node (fs l)" and "file_slot fs (l @ [x])" and "os_path p = abs_path (l @ [x])"
  obtains m where "fs_write um mode p data fs = (Inr (), fs(l @ [x] \<mapsto> FileNode m data))"
    and "fs_ok (fs(l @ [x] \<mapsto> FileNode m data))"
proof -
  have "\<not> is_link_node (fs (l @ [x]))" using assms(3) by (auto simp: file_slot_def)
  then have "fs_locate fs True (os_path p) = Inr (l @ [x])" using fs_locate_reach [OF assms(1,2)] assms(4) by simp
  then obtain m where w: "fs_write um mode p data fs = (Inr (), fs(l @ [x] \<mapsto> FileNode m data))"
    using assms(3) by (auto simp: file_slot_def fs_write_def)
  with fs_write_ok [OF assms(1), of um mode p data] that show ?thesis by simp
qed

text \<open>The files and directories to archive, and the entry of each.\<close>

definition archivable :: "fs \<Rightarrow> loc \<Rightarrow> string \<Rightarrow> bool" where
  "archivable fs A f \<longleftrightarrow> good_names (split_on SLASH f) \<and>
     (case fs (A @ split_on SLASH f) of Some (FileNode m s) \<Rightarrow> True | Some (DirNode m) \<Rightarrow> True | _ \<Rightarrow> False)"

definition archived_entry :: "fs \<Rightarrow> loc \<Rightarrow> string \<Rightarrow> tar_entry" where
  "archived_entry fs A f =
     (case fs (A @ split_on SLASH f) of
        Some (FileNode m s) \<Rightarrow> \<lparr>te_type = RegularEntry, te_path = f, te_link = None, te_mode = m, te_data = s\<rparr>
      | Some (DirNode m) \<Rightarrow> \<lparr>te_type = DirectoryEntry, te_path = f @ ''/'', te_link = None, te_mode = m, te_data = []\<rparr>
      | _ \<Rightarrow> \<lparr>te_type = DirectoryEntry, te_path = f @ ''/'', te_link = None, te_mode = 0, te_data = []\<rparr>)"

lemma archivable_cases:
  assumes "archivable fs A f"
  obtains m s where "fs (A @ split_on SLASH f) = Some (FileNode m s)" | m where "fs (A @ split_on SLASH f) = Some (DirNode m)"
  using assms by (auto simp: archivable_def split: option.splits fs_node.splits)

lemma archived_entry_names:
  assumes "good_names (split_on SLASH f)"
  shows "strip_slash (te_path (archived_entry fs A f)) = f" and "entry_names (archived_entry fs A f) = split_on SLASH f"
proof -
  have "\<not> suffix ''/'' f" using good_names_last(1) [OF assms, of "[]"] by (simp add: path_join_def split: if_splits)
  then have "strip_slash f = f" "strip_slash (f @ ''/'') = f"
    by (cases rule: strip_slash_cases [of f], auto intro: suffixI)
      (cases rule: strip_slash_cases [of "f @ ''/''"], auto intro: suffixI)
  then show strip: "strip_slash (te_path (archived_entry fs A f)) = f"
    by (simp add: archived_entry_def split: option.splits fs_node.splits)
  show "entry_names (archived_entry fs A f) = split_on SLASH f" by (simp add: entry_names_def strip)
qed

lemma add_file_archives:
  assumes "fs_ok fs" and "at_loc base A" and "archivable fs A f" and "\<And>e. ar_append al e = None"
  shows "add_file al fs base b f = Inr (b @ [archived_entry fs A f])"
proof -
  let ?ns = "split_on SLASH f"
  have good: "good_names ?ns" using assms(3) by (simp add: archivable_def)
  obtain ms x where ns: "?ns = ms @ [x]" by (cases ?ns rule: rev_cases) auto
  have p: "os_path (resolve_path base f) = abs_path ((A @ ms) @ [x])"
    using os_path_join [OF _ _ good, of base A] assms(2) ns by (simp add: at_loc_def resolve_path_def)
  have slash: "\<not> suffix ''/'' f" using good_names_last(1) [OF good, of "[]"] by (simp add: path_join_def split: if_splits)
  show ?thesis
  proof (cases rule: archivable_cases [OF assms(3)])
    case (1 m s)
    then have "fs ((A @ ms) @ [x]) = Some (FileNode m s)" using ns by simp
    note read = node_read [OF assms(1) this _ p]
    show ?thesis
      using read 1 assms(4)
      by (cases "s = []") (simp_all add: add_file_def create_header_def cache_io_def make_canonical_for_tar_def
        append_entry_def fs_read_def archived_entry_def)
  next
    case (2 m)
    then have "fs ((A @ ms) @ [x]) = Some (DirNode m)" using ns by simp
    note read = node_read [OF assms(1) this _ p]
    show ?thesis
      using read 2 assms(4) slash
      by (simp add: add_file_def create_header_def cache_io_def make_canonical_for_tar_def append_entry_def archived_entry_def)
  qed
qed

lemma add_files_archives:
  assumes "fs_ok fs" and "at_loc base A" and "list_all (archivable fs A) files" and "\<And>e. ar_append al e = None"
  shows "add_files al fs base b files = (None, b @ map (archived_entry fs A) files)"
  using assms(3)
proof (induction files arbitrary: b)
  case (Cons f files)
  then show ?case using add_file_archives [OF assms(1,2) _ assms(4)] by simp
qed simp

lemma archive_plain:
  assumes "fs_ok fs" and "list_all (archivable fs A) files" and "distinct files"
  shows "plain_archive (map (archived_entry fs A) files)"
proof -
  have good: "good_names (split_on SLASH f)" if "f \<in> set files" for f
    using assms(2) that by (simp add: list_all_iff archivable_def)
  have names: "entry_names (archived_entry fs A f) = split_on SLASH f" if "f \<in> set files" for f
    using archived_entry_names(2) [OF good [OF that]] .
  have leaf: "\<not> strict_prefix (split_on SLASH f) (split_on SLASH g)"
    if "f \<in> set files" "g \<in> set files" "te_type (archived_entry fs A f) = RegularEntry" for f g
  proof
    assume "strict_prefix (split_on SLASH f) (split_on SLASH g)"
    then obtain x xs where g: "split_on SLASH g = split_on SLASH f @ x # xs" by (auto elim: strict_prefixE')
    have "fs (A @ split_on SLASH g) \<noteq> None" using assms(2) that(2) by (auto simp: list_all_iff elim: archivable_cases)
    then have "is_dir_node (fs (butlast (A @ split_on SLASH g)))" by (rule fs_ok_parent [OF assms(1)])
    then have "is_dir_node (fs ((A @ split_on SLASH f) @ butlast (x # xs)))" by (simp add: g butlast_append)
    from fs_ok_prefix_dir [OF assms(1) this] have "is_dir_node (fs (A @ split_on SLASH f))" .
    with that(3) show False
      by (auto simp: archived_entry_def is_dir_node_iff split: option.splits fs_node.splits)
  qed
  have inj: "inj_on (split_on SLASH) (set files)" by (rule inj_on_inverseI [where g = "join_with ''/''"]) (rule join_split_on)
  have "map entry_names (map (archived_entry fs A) files) = map (split_on SLASH) files" using names by simp
  then have "distinct (map entry_names (map (archived_entry fs A) files))"
    using assms(3) inj by (simp only: distinct_map)
  moreover have "te_type (archived_entry fs A f) \<in> {RegularEntry, DirectoryEntry}" for f
    by (simp add: archived_entry_def split: option.splits fs_node.splits)
  ultimately show ?thesis
    using good names leaf unfolding plain_archive_def by (simp add: list_all_iff)
qed

text \<open>Where the files of an artifact are.\<close>

definition cache_exts :: "string set" where
  "cache_exts = {''.tar'', ''.tar.zst'', ''-meta.json''}"

lemma artifact_name:
  assumes "SLASH \<notin> set hash" and "ext \<in> cache_exts"
  shows "good_name (hash @ ext)"
  using assms by (auto simp: good_name_def cache_exts_def append_eq_Cons_conv)

lemma rsplit_after: "rsplit_once_str d t = Some (a, b) \<Longrightarrow> rsplit_once_str d (s @ t) = Some (s @ a, b)"
  by (induction s) simp_all

lemma artifact_paths:
  assumes "at_loc (fc_cache_directory fc) C" and "SLASH \<notin> set hash"
    and clean: "\<And>ext. ext \<in> cache_exts \<Longrightarrow>
      ar_clean (ce_archive ce) (path_join (fc_cache_directory fc) (hash @ ext)) = path_join (fc_cache_directory fc) (hash @ ext)"
  shows "os_path (uncompressed_path ce fc hash) = abs_path (C @ [hash @ ''.tar''])"
    and "os_path (compressed_path ce fc hash) = abs_path (C @ [hash @ ''.tar.zst''])"
    and "os_path (metadata_path ce fc hash) = abs_path (C @ [hash @ ''-meta.json''])"
    and "has_zst_extension (compressed_path ce fc hash)"
proof -
  have at: "at_loc (path_join (fc_cache_directory fc) (hash @ ext)) (C @ [hash @ ext])"
    "os_path (path_join (fc_cache_directory fc) (hash @ ext)) = abs_path (C @ [hash @ ext])"
    if "ext \<in> cache_exts" for ext
    using at_loc_join [OF assms(1) artifact_name [OF assms(2) that]] by (simp_all add: resolve_path_def)
  show "os_path (uncompressed_path ce fc hash) = abs_path (C @ [hash @ ''.tar''])"
    "os_path (compressed_path ce fc hash) = abs_path (C @ [hash @ ''.tar.zst''])"
    "os_path (metadata_path ce fc hash) = abs_path (C @ [hash @ ''-meta.json''])"
    using at(2) clean by (simp_all add: uncompressed_path_def compressed_path_def metadata_path_def join_component_def cache_exts_def)
  have "compressed_path ce fc hash = path_join (fc_cache_directory fc) (hash @ ''.tar.zst'')"
    using clean [of "''.tar.zst''"] by (simp add: compressed_path_def join_component_def cache_exts_def)
  then have "path_components (compressed_path ce fc hash) = abs_path (C @ [hash @ ''.tar.zst''])"
    using at(1) [of "''.tar.zst''"] by (simp add: at_loc_def cache_exts_def)
  moreover have "rsplit_once_str ''.'' (hash @ ''.tar.zst'') = Some (hash @ ''.tar'', ''zst'')"
    by (rule rsplit_after) simp
  ultimately show "has_zst_extension (compressed_path ce fc hash)"
    by (simp add: has_zst_extension_def abs_path_def)
qed

lemma fs_cache_put_archives:
  assumes base: "at_loc base A" and dir: "at_loc (fc_cache_directory fc) C" and hash: "SLASH \<notin> set hash"
    and clean: "\<And>ext. ext \<in> cache_exts \<Longrightarrow>
      ar_clean (ce_archive ce) (path_join (fc_cache_directory fc) (hash @ ext)) = path_join (fc_cache_directory fc) (hash @ ext)"
    and append: "\<And>e. ar_append (ce_archive ce) e = None"
    and tree: "fs_ok fs" "is_dir_node (fs C)" "file_slot fs (C @ [hash @ ''.tar.zst''])" "file_slot fs (C @ [hash @ ''-meta.json''])"
    and files: "list_all (archivable fs A) files" "list_all (\<lambda>f. A @ split_on SLASH f \<noteq> C @ [hash @ ''.tar.zst'']) files"
  shows "\<exists>fs' m1 m2. fs_cache_put ce fc base hash files d fs = (Inr (), fs') \<and>
    fs' (C @ [hash @ ''.tar.zst'']) = Some (FileNode m1 (ar_encode (ce_archive ce) True (map (archived_entry fs A) files))) \<and>
    fs' (C @ [hash @ ''-meta.json'']) = Some (FileNode m2 (ce_meta_encode ce (hash, d)))"
proof -
  let ?a = "C @ [hash @ ''.tar.zst'']" and ?m = "C @ [hash @ ''-meta.json'']"
  let ?um = "re_umask (ce_restore ce)" and ?es = "map (archived_entry fs A) files"
  note paths = artifact_paths [OF dir hash clean]
  obtain m1 where created: "fs_write ?um 0x1B6 (compressed_path ce fc hash) [] fs = (Inr (), fs(?a \<mapsto> FileNode m1 []))"
    and ok1: "fs_ok (fs(?a \<mapsto> FileNode m1 []))"
    using file_written [OF tree(1-3) paths(2)] .
  let ?fs1 = "fs(?a \<mapsto> FileNode m1 [])"
  have "list_all (archivable ?fs1 A) files" "map (archived_entry ?fs1 A) files = ?es"
    using files by (auto simp: list_all_iff archivable_def archived_entry_def)
  then have added: "add_files (ce_archive ce) ?fs1 base [] files = (None, ?es)"
    using add_files_archives [OF ok1 base _ append, of files "[]"] by simp
  have dir1: "is_dir_node (?fs1 C)" and slot1: "file_slot ?fs1 ?m" using tree by (simp_all add: file_slot_def)
  obtain m2 where recorded: "fs_write ?um 0x1B6 (metadata_path ce fc hash) (ce_meta_encode ce (hash, d)) ?fs1 =
      (Inr (), ?fs1(?m \<mapsto> FileNode m2 (ce_meta_encode ce (hash, d))))"
    and ok2: "fs_ok (?fs1(?m \<mapsto> FileNode m2 (ce_meta_encode ce (hash, d))))"
    using file_written [OF ok1 dir1 slot1 paths(3)] .
  let ?fs2 = "?fs1(?m \<mapsto> FileNode m2 (ce_meta_encode ce (hash, d)))"
  have dir2: "is_dir_node (?fs2 C)" and slot2: "file_slot ?fs2 ?a" using dir1 by (simp_all add: file_slot_def)
  obtain m3 where closed: "fs_write ?um 0x1B6 (compressed_path ce fc hash) (ar_encode (ce_archive ce) True ?es) ?fs2 =
      (Inr (), ?fs2(?a \<mapsto> FileNode m3 (ar_encode (ce_archive ce) True ?es)))"
    using file_written [OF ok2 dir2 slot2 paths(2)] .
  have "fs_cache_put ce fc base hash files d fs = (Inr (), ?fs2(?a \<mapsto> FileNode m3 (ar_encode (ce_archive ce) True ?es)))"
    unfolding fs_cache_put_def
    by (simp only: io_bind_def fs_op_def created prod.case cache_io_def sum.case added Let_def option.case recorded
        paths(4) closed snd_conv)
  then show ?thesis by (intro exI conjI, assumption) simp_all
qed

lemma fs_cache_fetch_restores:
  assumes base: "anchored_at A base" and dir: "at_loc (fc_cache_directory fc) C" and hash: "SLASH \<notin> set hash"
    and clean: "\<And>ext. ext \<in> cache_exts \<Longrightarrow>
      ar_clean (ce_archive ce) (path_join (fc_cache_directory fc) (hash @ ext)) = path_join (fc_cache_directory fc) (hash @ ext)"
    and plain: "plain_archive es" and codec: "ar_decode (ce_archive ce) True body = Inr (map Inr es)"
    and meta: "ce_meta_decode ce record = Some (hash, d)"
    and sort: "ar_toposort (ce_archive ce) 0 [] = Some []" and depth: "0 < re_depth (ce_restore ce)"
    and tree: "fs_ok (cw_fs w)" "is_dir_node (cw_fs w A)" "fits A es (cw_fs w)"
      "cw_fs w (C @ [hash @ ''.tar.zst'']) = Some (FileNode m1 body)"
      "cw_fs w (C @ [hash @ ''-meta.json'']) = Some (FileNode m2 record)"
      "cw_fs w (C @ [hash @ ''.tar'']) = None"
    and apart: "\<And>e. e \<in> set es \<Longrightarrow> \<not> prefix (C @ [hash @ ''-meta.json'']) (A @ entry_names e)"
  shows "\<exists>w'. fs_cache_fetch ce fc base hash w =
      (Inr (Some (\<lparr>ch_source = Local, ch_time_saved = d\<rparr>, map (strip_slash \<circ> te_path) es)), w') \<and>
    list_all (restored_entry A (cw_fs w')) es"
proof -
  note paths = artifact_paths [OF dir hash clean]
  have C: "is_dir_node (cw_fs w C)" using fs_ok_parent [OF tree(1), of "C @ [hash @ ''.tar.zst'']"] tree(4) by simp
  note missing = node_missing [OF tree(1) C tree(6) paths(1)]
  note found = node_read [OF tree(1,4) _ paths(2)]
  obtain fs' where restored: "cache_restore (ce_restore ce) base True body (cw_fs w) =
      (Inr (map (strip_slash \<circ> te_path) es), fs')" "\<forall>e \<in> set es. restored_entry A fs' e"
    and same: "\<forall>l. (\<forall>e \<in> set es. \<not> prefix l (A @ entry_names e)) \<longrightarrow> fs' l = cw_fs w l"
    using restore_completes [OF base tree(1,2) plain tree(3) codec depth sort] by blast
  have "fs_ok fs'" using restore_ok [OF tree(1), of "ce_restore ce" base True body] restored(1) by simp
  moreover have "fs' (C @ [hash @ ''-meta.json'']) = Some (FileNode m2 record)" using same apart tree(5) by simp
  ultimately have "fs_read fs' (metadata_path ce fc hash) = Inr record"
    using node_read(2) [of fs' C] paths(3) by (simp add: fs_read_def)
  then show ?thesis
    using missing found restored paths(4) meta
    by (auto simp: fs_cache_fetch_def io_bind_def on_fs_def fs_get_def cache_reader_open_def fs_read_def cache_io_def
        metadata_read_def log_fetch_def io_lift_def list_all_iff)
qed

text \<open>
  C30: files and directories that are put into the local cache are fetched from it: the put succeeds, and
  a later fetch, when the files of the artifact are still there and nothing is in the way, is a hit with
  the duration that was recorded, returns the names of the files, and leaves every file with the
  contents, and every directory, that there were at the time of the put.
\<close>

theorem fs_cache_round_trip:
  assumes base: "anchored_at A base" and dir: "at_loc (fc_cache_directory fc) C" and hash: "SLASH \<notin> set hash"
    and clean: "\<And>ext. ext \<in> cache_exts \<Longrightarrow>
      ar_clean (ce_archive ce) (path_join (fc_cache_directory fc) (hash @ ext)) = path_join (fc_cache_directory fc) (hash @ ext)"
    and append: "\<And>e. ar_append (ce_archive ce) e = None"
    and codec: "ar_decode (ce_archive ce) True (ar_encode (ce_archive ce) True (map (archived_entry fs A) files)) =
      Inr (map Inr (map (archived_entry fs A) files))"
    and meta: "ce_meta_decode ce (ce_meta_encode ce (hash, d)) = Some (hash, d)"
    and sort: "ar_toposort (ce_archive ce) 0 [] = Some []" and depth: "0 < re_depth (ce_restore ce)"
    and tree: "fs_ok fs" "is_dir_node (fs C)" "file_slot fs (C @ [hash @ ''.tar.zst''])" "file_slot fs (C @ [hash @ ''-meta.json''])"
    and files: "list_all (archivable fs A) files" "distinct files"
      "list_all (\<lambda>f. A @ split_on SLASH f \<noteq> C @ [hash @ ''.tar.zst'']) files"
      "list_all (\<lambda>f. \<not> prefix (C @ [hash @ ''-meta.json'']) (A @ split_on SLASH f)) files"
  shows "\<exists>fs'. fs_cache_put ce fc base hash files d fs = (Inr (), fs') \<and>
    (\<forall>w. fs_ok (cw_fs w) \<and> is_dir_node (cw_fs w A) \<and> fits A (map (archived_entry fs A) files) (cw_fs w) \<and>
         cw_fs w (C @ [hash @ ''.tar.zst'']) = fs' (C @ [hash @ ''.tar.zst'']) \<and>
         cw_fs w (C @ [hash @ ''-meta.json'']) = fs' (C @ [hash @ ''-meta.json'']) \<and>
         cw_fs w (C @ [hash @ ''.tar'']) = None \<longrightarrow>
       (\<exists>w'. fs_cache_fetch ce fc base hash w = (Inr (Some (\<lparr>ch_source = Local, ch_time_saved = d\<rparr>, files)), w') \<and>
          list_all (restored_entry A (cw_fs w')) (map (archived_entry fs A) files)))"
proof -
  let ?es = "map (archived_entry fs A) files"
  have "at_loc base A" using base by (simp add: anchored_at_def)
  from fs_cache_put_archives [OF this dir hash clean append tree files(1,3), of d]
  obtain fs' m1 m2 where put: "fs_cache_put ce fc base hash files d fs = (Inr (), fs')"
    and kept: "fs' (C @ [hash @ ''.tar.zst'']) = Some (FileNode m1 (ar_encode (ce_archive ce) True ?es))"
      "fs' (C @ [hash @ ''-meta.json'']) = Some (FileNode m2 (ce_meta_encode ce (hash, d)))" by blast
  have names: "map (strip_slash \<circ> te_path) ?es = files"
    using files(1) archived_entry_names(1) by (auto simp: list_all_iff archivable_def intro!: map_idI)
  have apart: "\<not> prefix (C @ [hash @ ''-meta.json'']) (A @ entry_names e)" if "e \<in> set ?es" for e
    using that files(1,4) archived_entry_names(2) by (auto simp: list_all_iff archivable_def)
  note fetch = fs_cache_fetch_restores [OF base dir hash clean archive_plain [OF tree(1) files(1,2)] codec meta sort depth _ _ _ _ _ _ apart,
      unfolded names]
  show ?thesis
  proof (intro exI [of _ fs'] conjI put allI impI)
    fix w :: "'a cache_world"
    assume later: "fs_ok (cw_fs w) \<and> is_dir_node (cw_fs w A) \<and> fits A ?es (cw_fs w) \<and>
      cw_fs w (C @ [hash @ ''.tar.zst'']) = fs' (C @ [hash @ ''.tar.zst'']) \<and>
      cw_fs w (C @ [hash @ ''-meta.json'']) = fs' (C @ [hash @ ''-meta.json'']) \<and>
      cw_fs w (C @ [hash @ ''.tar'']) = None"
    show "\<exists>w'. fs_cache_fetch ce fc base hash w = (Inr (Some (\<lparr>ch_source = Local, ch_time_saved = d\<rparr>, files)), w') \<and>
      list_all (restored_entry A (cw_fs w')) ?es"
      by (rule fetch) (use later kept in simp_all)
  qed
qed

text \<open>The duration that is sent with an upload is the one that a download reads.\<close>

lemma digits_value_append: "digits_value (s @ t) acc = Option.bind (digits_value s acc) (digits_value t)"
  by (induction s arbitrary: acc) simp_all

lemma digits_value_printed: "digits_value (nat_to_string n) 0 = Some n \<and> nat_to_string n \<noteq> [] \<and> hd (nat_to_string n) \<noteq> CHR ''+''"
proof (induction n rule: nat_to_string.induct)
  case (1 n)
  have digit: "(of_char (char_of (48 + k) :: char) :: nat) = 48 + k" if "k < 10" for k :: nat
    using that by (simp add: of_char_of)
  have plus: "(of_char (CHR ''+'') :: nat) = 43" by simp
  have sign: "char_of (48 + k) \<noteq> CHR ''+''" if "k < 10" for k :: nat
  proof
    assume "char_of (48 + k) = CHR ''+''"
    then have "48 + k = 43" using digit [OF that] plus by metis
    then show False by simp
  qed
  show ?case
  proof (cases "n < 10")
    case True
    then have "nat_to_string n = [char_of (48 + n)]" by (subst nat_to_string.simps) simp
    then show ?thesis using True digit [OF True] sign [OF True] by simp
  next
    case False
    then have "nat_to_string n = nat_to_string (n div 10) @ [char_of (48 + n mod 10)]" by (subst nat_to_string.simps) simp
    moreover have "n mod 10 < 10" by simp
    ultimately show ?thesis using 1 [OF False] digit by (simp add: digits_value_append)
  qed
qed

lemma duration_round_trip: "parse_u64 (nat_to_string (unat d)) = Some d"
proof -
  note printed = digits_value_printed [of "unat d"]
  have "unat d < 2 ^ 64" using unsigned_less [of d] by simp
  with printed show ?thesis
    by (cases "nat_to_string (unat d)") (simp_all add: parse_u64_def)
qed

subsection \<open>Examples\<close>

definition sample_server :: "nat \<Rightarrow> (string \<times> string) list \<Rightarrow> string \<Rightarrow> unit transport" where
  "sample_server status hs body =
     \<lparr>tp_send = (\<lambda>rq n. (Inr \<lparr>rs_status = status, rs_headers = hs, rs_url = rq_url rq, rs_body = Inr body\<rparr>, n)),
      tp_sleep = (\<lambda>s n. n)\<rparr>"

definition sample_ce :: "tar_entry list list \<Rightarrow> unit transport \<Rightarrow> unit cache_env" where
  "sample_ce table tp =
     \<lparr>ce_restore = sample_restore table, ce_sign = sample_sign, ce_api = sample_libs, ce_transport = tp,
      ce_meta_encode = (\<lambda>(h, d). h @ '' '' @ nat_to_string (unat d)),
      ce_meta_decode = (\<lambda>s. case split_on (CHR '' '') s of
         [h, d] \<Rightarrow> map_option (Pair h) (parse_u64 d) | _ \<Rightarrow> None)\<rparr>"

definition sample_hc :: http_cache where
  "sample_hc = http_cache_new (sample_client\<lparr>ac_use_preflight := False\<rparr>) (Some True) ''/r''
     \<lparr>aa_team_id = Some ''team_1'', aa_token = ''t'', aa_team_slug = None\<rparr> True"

definition sample_fc :: fs_cache where
  "sample_fc = \<lparr>fc_cache_directory = ''/etc'', fc_analytics_recorder = True\<rparr>"

definition sample_mx :: multiplexer where
  "sample_mx = \<lparr>mx_cache_config = \<lparr>cc_local = \<lparr>ca_read = True, ca_write = True\<rparr>, cc_remote = \<lparr>ca_read = True, ca_write = True\<rparr>\<rparr>,
     mx_fs = Some sample_fc, mx_http = Some sample_hc\<rparr>"

definition sample_built :: fs where
  "sample_built = sample_tree([''r'', ''dist''] \<mapsto> DirNode 493, [''r'', ''dist'', ''a''] \<mapsto> FileNode 420 ''x'')"

definition sample_world :: "unit cache_world" where
  "sample_world = \<lparr>cw_fs = sample_built, cw_net = (), cw_events = [], cw_uploads = [],
     cw_should_use_http_cache = True, cw_should_print_skipping_remote_put = True\<rparr>"

abbreviation sample_tagged :: "unit transport" where
  "sample_tagged \<equiv> sample_server 200 [(''x-artifact-tag'', ''kh1team_1b'')] ''c''"

theorem http_fetch_verified_witness:
  "cw_fs (snd (http_cache_fetch (sample_ce [] sample_tagged) sample_hc ''h1'' sample_world)) = cw_fs sample_world \<and>
   (\<exists>e. fst (http_cache_fetch (sample_ce [] sample_tagged) sample_hc ''h1'' sample_world) = Inl e)"
proof (rule http_fetch_verified)
  show "hc_signer_verifier sample_hc = Some sample_auth" by code_simp
  let ?rs = "\<lparr>rs_status = 200, rs_headers = [(''x-artifact-tag'', ''kh1team_1b'')], rs_url = ''http://api/v8/artifacts/h1'', rs_body = Inr ''c''\<rparr>"
  show "fetch_artifact (ce_transport (sample_ce [] sample_tagged)) (ce_api (sample_ce [] sample_tagged)) (hc_client sample_hc) ''h1''
      (aa_token (hc_api_auth sample_hc)) (aa_team_id (hc_api_auth sample_hc)) (aa_team_slug (hc_api_auth sample_hc))
      (cw_net sample_world) = (Inr (Some ?rs), ())"
    by code_simp
  fix body tag assume "rs_body ?rs = Inr body" "map_of (rs_headers ?rs) ''x-artifact-tag'' = Some tag"
  then have "body = ''c''" "tag = ''kh1team_1b''" by simp_all
  moreover have "validate_tag (ce_sign (sample_ce [] sample_tagged)) sample_auth ''h1'' ''c'' ''kh1team_1b'' = Inr False" by code_simp
  ultimately show "validate_tag (ce_sign (sample_ce [] sample_tagged)) sample_auth ''h1'' body tag \<noteq> Inr True" by simp
qed

abbreviation sample_disabled :: "unit cache_env" where
  "sample_disabled \<equiv> sample_ce [] (sample_server 403 [] ''remote_caching_disabled'')"

theorem multiplexer_cache_disabled_witness:
  "\<exists>w3. multiplexer_put sample_disabled (sample_mx\<lparr>mx_fs := None\<rparr>) ''/r'' ''h1'' [] 7 sample_world = (Inr (), w3) \<and>
    cw_net (snd (multiplexer_put sample_disabled (sample_mx\<lparr>mx_fs := None\<rparr>) ''/r'' ''h2'' [] 8 w3)) = cw_net w3 \<and>
    cw_net (snd (multiplexer_fetch sample_disabled (sample_mx\<lparr>mx_fs := None\<rparr>) ''/r'' ''h2'' w3)) = cw_net w3 \<and>
    cw_net (snd (multiplexer_exists sample_disabled (sample_mx\<lparr>mx_fs := None\<rparr>) ''h2'' w3)) = cw_net w3"
proof (rule multiplexer_cache_disabled)
  show "(if ca_write (cc_local (mx_cache_config (sample_mx\<lparr>mx_fs := None\<rparr>)))
      then (case mx_fs (sample_mx\<lparr>mx_fs := None\<rparr>) of Some fc \<Rightarrow> on_fs (fs_cache_put sample_disabled fc ''/r'' ''h1'' [] 7)
            | None \<Rightarrow> io_lift (Inr ()))
      else io_lift (Inr ())) sample_world = (Inr (), sample_world)"
    by (simp add: sample_mx_def io_lift_def)
  show "get_http_cache (sample_mx\<lparr>mx_fs := None\<rparr>) sample_world = Some sample_hc"
    by (simp add: get_http_cache_def sample_world_def sample_mx_def)
  show "ca_write (cc_remote (mx_cache_config (sample_mx\<lparr>mx_fs := None\<rparr>)))" by (simp add: sample_mx_def)
  have "fst (http_cache_put sample_disabled sample_hc ''/r'' ''h1'' [] 7 sample_world) = Inl (ApiClientError (CacheDisabled Disabled []))"
    by code_simp
  then show "http_cache_put sample_disabled sample_hc ''/r'' ''h1'' [] 7 sample_world =
    (Inl (ApiClientError (CacheDisabled Disabled [])), snd (http_cache_put sample_disabled sample_hc ''/r'' ''h1'' [] 7 sample_world))"
    by (simp add: prod_eq_iff)
qed

definition sample_files :: "string list" where
  "sample_files = [''dist'', ''dist/a'']"

definition sample_stored :: "unit cache_env" where
  "sample_stored = sample_ce [map (archived_entry sample_built [''r'']) sample_files] (sample_server 404 [] [])"

lemma sample_built_ok: "fs_ok sample_built"
  unfolding fs_ok_def sample_built_def sample_tree_def by (auto simp: append_eq_Cons_conv split: if_splits)

theorem fs_cache_round_trip_witness:
  "\<exists>fs'. fs_cache_put sample_stored sample_fc ''/r'' ''h1'' sample_files 7 sample_built = (Inr (), fs') \<and>
    (\<forall>w. fs_ok (cw_fs w) \<and> is_dir_node (cw_fs w [''r'']) \<and> fits [''r''] (map (archived_entry sample_built [''r'']) sample_files) (cw_fs w) \<and>
         cw_fs w ([''etc''] @ [''h1'' @ ''.tar.zst'']) = fs' ([''etc''] @ [''h1'' @ ''.tar.zst'']) \<and>
         cw_fs w ([''etc''] @ [''h1'' @ ''-meta.json'']) = fs' ([''etc''] @ [''h1'' @ ''-meta.json'']) \<and>
         cw_fs w ([''etc''] @ [''h1'' @ ''.tar'']) = None \<longrightarrow>
       (\<exists>w'. fs_cache_fetch sample_stored sample_fc ''/r'' ''h1'' w =
            (Inr (Some (\<lparr>ch_source = Local, ch_time_saved = 7\<rparr>, sample_files)), w') \<and>
          list_all (restored_entry [''r''] (cw_fs w')) (map (archived_entry sample_built [''r'']) sample_files)))"
proof (rule fs_cache_round_trip [OF sample_anchor])
  show "fs_ok sample_built" by (rule sample_built_ok)
  show "at_loc (fc_cache_directory sample_fc) [''etc'']" unfolding at_loc_def by code_simp
  show "ar_clean (ce_archive sample_stored) (path_join (fc_cache_directory sample_fc) (''h1'' @ ext)) =
    path_join (fc_cache_directory sample_fc) (''h1'' @ ext)" if "ext \<in> cache_exts" for ext
  proof -
    have "\<forall>ext \<in> {''.tar'', ''.tar.zst'', ''-meta.json''}.
      ar_clean (ce_archive sample_stored) (path_join (fc_cache_directory sample_fc) (''h1'' @ ext)) =
      path_join (fc_cache_directory sample_fc) (''h1'' @ ext)"
      by code_simp
    with that show ?thesis by (simp only: cache_exts_def)
  qed
  show "ar_decode (ce_archive sample_stored) True
      (ar_encode (ce_archive sample_stored) True (map (archived_entry sample_built [''r'']) sample_files)) =
    Inr (map Inr (map (archived_entry sample_built [''r'']) sample_files))"
    by (simp add: sample_stored_def sample_ce_def sample_restore_def sample_archive_libs_def)
  have "nat_to_string (unat (7 :: u64)) = ''7''" by (subst nat_to_string.simps) (simp add: char_of_def bit_Suc_0_iff)
  then show "ce_meta_decode sample_stored (ce_meta_encode sample_stored (''h1'', 7)) = Some (''h1'', 7)"
    using duration_round_trip [of 7] by (simp add: sample_stored_def sample_ce_def)
  show "ar_toposort (ce_archive sample_stored) 0 [] = Some []" by code_simp
  show "file_slot sample_built ([''etc''] @ [''h1'' @ ''.tar.zst''])" "file_slot sample_built ([''etc''] @ [''h1'' @ ''-meta.json''])"
    by (simp_all add: file_slot_def sample_built_def sample_tree_def)
qed (simp_all add: sample_stored_def sample_ce_def sample_restore_def sample_archive_libs_def sample_built_def
    sample_tree_def sample_files_def archivable_def good_name_def)

text \<open>
  A put that fails part way, here because the second file does not exist, leaves an archive of the files
  before it, without metadata: a later lookup reports a hit that saves no time.
\<close>

lemma failed_put_reported_as_hit:
  "fst (fs_cache_put sample_stored sample_fc ''/r'' ''h1'' [''dist'', ''gone''] 7 sample_built) = Inl (CacheIO NotFound)"
  "fs_cache_exists sample_stored sample_fc ''h1''
     (snd (fs_cache_put sample_stored sample_fc ''/r'' ''h1'' [''dist'', ''gone''] 7 sample_built)) =
   Some \<lparr>ch_source = Local, ch_time_saved = 0\<rparr>"
  by code_simp+
end
