(* ===== verification/Async_Cache.thy ===== *)
theory Async_Cache
  imports Cache "HOL-Library.Multiset"
begin

text \<open>
  \<open>nrzrepo-cache/src/async_cache.rs\<close>: writes to the cache in the background. Clients send requests over
  a channel that holds one; a manager task takes them, and starts a worker task for every write once a
  permit is free. Tasks run at the same time, so the cache is a step relation: a step is what the manager
  or one worker does between two points where another can be seen (a write of a worker is one step).
  Callbacks are numbered. Three fields, at the end, only record what has happened.
\<close>

subsection \<open>State\<close>

abbreviation WARNING_CUTOFF :: "8 word" where
  "WARNING_CUTOFF \<equiv> 4"

record write_request =
  wr_anchor :: string
  wr_key :: string
  wr_duration :: u64
  wr_files :: "string list"

datatype worker_request =
    WriteRequest write_request
  | Flush nat
  | Shutdown nat

datatype worker =
    Putting write_request
  | Failed write_request cache_error
  | Warning write_request cache_error "8 word"
  | Releasing write_request
  | Ended

datatype manager =
    Receiving
  | Acquiring write_request
  | Flushing nat
  | Closing "nat option"
  | Draining "nat option"
  | ManagerDone

record 'w async_cache =
  as_queue :: "worker_request list"
  as_consumer :: bool
  as_senders :: bool
  as_manager :: manager
  as_permits :: nat
  as_workers :: "worker list"
  as_warnings :: "8 word"
  as_warned :: "cache_error list"
  as_flushed :: "nat list"
  as_closing :: "nat list"
  as_closed :: "nat list"
  as_dropped :: "worker_request list"
  as_world :: "'w cache_world"
  as_accepted :: "worker_request list"
  as_taken :: nat
  as_completed :: "write_request list"

definition async_cache_new :: "nat \<Rightarrow> 'w cache_world \<Rightarrow> 'w async_cache" where
  "async_cache_new max_workers w =
     \<lparr>as_queue = [], as_consumer = True, as_senders = True, as_manager = Receiving, as_permits = max_workers,
      as_workers = [], as_warnings = 0, as_warned = [], as_flushed = [], as_closing = [], as_closed = [], as_dropped = [],
      as_world = w, as_accepted = [], as_taken = 0, as_completed = []\<rparr>"

subsection \<open>Clients\<close>

text \<open>Sending over the channel: an error when it is closed, waiting (\<open>None\<close>) when it is full.\<close>

definition async_send :: "worker_request \<Rightarrow> 'w async_cache \<Rightarrow> ((cache_error, unit) result \<times> 'w async_cache) option" where
  "async_send req s =
     (if \<not> as_consumer s then Some (Inl CacheShuttingDown, s)
      else if as_queue s \<noteq> [] then None
      else Some (Inr (), s\<lparr>as_queue := [req], as_accepted := as_accepted s @ [req]\<rparr>))"

definition async_put ::
  "string \<Rightarrow> string \<Rightarrow> string list \<Rightarrow> u64 \<Rightarrow> 'w async_cache \<Rightarrow> ((cache_error, unit) result \<times> 'w async_cache) option" where
  "async_put base key files duration =
     async_send (WriteRequest \<lparr>wr_anchor = base, wr_key = key, wr_duration = duration, wr_files = files\<rparr>)"

definition async_exists :: "'w cache_env \<Rightarrow> multiplexer \<Rightarrow> string \<Rightarrow> 'w async_cache \<Rightarrow> (cache_error, cache_hit_metadata option) result \<times> 'w async_cache" where
  "async_exists ce mx key s = (case multiplexer_exists ce mx key (as_world s) of (r, w') \<Rightarrow> (r, s\<lparr>as_world := w'\<rparr>))"

definition async_fetch ::
  "'w cache_env \<Rightarrow> multiplexer \<Rightarrow> string \<Rightarrow> string \<Rightarrow> 'w async_cache \<Rightarrow>
     (cache_error, (cache_hit_metadata \<times> string list) option) result \<times> 'w async_cache" where
  "async_fetch ce mx base key s = (case multiplexer_fetch ce mx base key (as_world s) of (r, w') \<Rightarrow> (r, s\<lparr>as_world := w'\<rparr>))"

text \<open>
  \<open>wait\<close> and \<open>shutdown\<close> send a request and wait for its callback; \<open>start_shutdown\<close> returns as soon as
  closing has begun. A request that is still in the channel when the manager closes it is dropped and its
  callback with it: \<open>wait\<close> then returns as if it had been called, and \<open>start_shutdown\<close> panics.
\<close>

definition async_wait_sent :: "nat \<Rightarrow> 'w async_cache \<Rightarrow> ((cache_error, unit) result \<times> 'w async_cache) option" where
  "async_wait_sent cb = async_send (Flush cb)"

definition async_wait_returned :: "nat \<Rightarrow> 'w async_cache \<Rightarrow> bool" where
  "async_wait_returned cb s = (cb \<in> set (as_flushed s) \<or> Flush cb \<in> set (as_dropped s))"

definition async_shutdown_sent :: "nat \<Rightarrow> 'w async_cache \<Rightarrow> ((cache_error, unit) result \<times> 'w async_cache) option" where
  "async_shutdown_sent cb = async_send (Shutdown cb)"

definition async_shutdown_started :: "nat \<Rightarrow> 'w async_cache \<Rightarrow> bool" where
  "async_shutdown_started cb s = (cb \<in> set (as_closing s))"

definition async_shutdown_panicked :: "nat \<Rightarrow> 'w async_cache \<Rightarrow> bool" where
  "async_shutdown_panicked cb s = (Shutdown cb \<in> set (as_dropped s))"

definition async_shutdown_returned :: "nat \<Rightarrow> 'w async_cache \<Rightarrow> bool" where
  "async_shutdown_returned cb s = (cb \<in> set (as_closed s))"

subsection \<open>The manager\<close>

text \<open>One step of the manager; \<open>None\<close> while it waits.\<close>

definition workers_done :: "'w async_cache \<Rightarrow> bool" where
  "workers_done s = list_all (\<lambda>x. x = Ended) (as_workers s)"

definition manager_step :: "'w async_cache \<Rightarrow> 'w async_cache option" where
  "manager_step s =
     (case as_manager s of
        Receiving \<Rightarrow>
          (case as_queue s of
             [] \<Rightarrow> if as_senders s then None else Some (s\<lparr>as_manager := Closing None\<rparr>)
           | req # queue \<Rightarrow>
               let s' = s\<lparr>as_queue := queue, as_taken := Suc (as_taken s)\<rparr>
               in (case req of
                     WriteRequest r \<Rightarrow> Some (s'\<lparr>as_manager := Acquiring r\<rparr>)
                   | Flush callback \<Rightarrow> Some (s'\<lparr>as_manager := Flushing callback\<rparr>)
                   | Shutdown callback \<Rightarrow> Some (s'\<lparr>as_manager := Closing (Some callback)\<rparr>)))
      | Acquiring r \<Rightarrow>
          if as_permits s = 0 then None
          else Some (s\<lparr>as_permits := as_permits s - 1, as_workers := as_workers s @ [Putting r], as_manager := Receiving\<rparr>)
      | Flushing callback \<Rightarrow>
          if workers_done s
          then Some (s\<lparr>as_workers := [], as_flushed := as_flushed s @ [callback], as_manager := Receiving\<rparr>)
          else None
      | Closing callback \<Rightarrow>
          Some (s\<lparr>as_consumer := False, as_queue := [], as_dropped := as_queue s, as_manager := Draining callback,
                 as_closing := as_closing s @ (case callback of Some cb \<Rightarrow> [cb] | None \<Rightarrow> [])\<rparr>)
      | Draining callback \<Rightarrow>
          if workers_done s
          then Some (s\<lparr>as_workers := [], as_manager := ManagerDone,
                      as_closed := as_closed s @ (case callback of Some cb \<Rightarrow> [cb] | None \<Rightarrow> [])\<rparr>)
          else None
      | ManagerDone \<Rightarrow> None)"

subsection \<open>Workers\<close>

text \<open>One step of the worker with an index. The counter of warnings is read and written in two steps.\<close>

definition worker_step :: "'w cache_env \<Rightarrow> multiplexer \<Rightarrow> nat \<Rightarrow> 'w async_cache \<Rightarrow> 'w async_cache option" where
  "worker_step ce mx i s =
     (if i \<ge> length (as_workers s) then None
      else case as_workers s ! i of
        Putting r \<Rightarrow>
          (case multiplexer_put ce mx (wr_anchor r) (wr_key r) (wr_files r) (wr_duration r) (as_world s) of
             (Inr _, w') \<Rightarrow> Some (s\<lparr>as_world := w', as_workers := (as_workers s)[i := Releasing r]\<rparr>)
           | (Inl e, w') \<Rightarrow> Some (s\<lparr>as_world := w', as_workers := (as_workers s)[i := Failed r e]\<rparr>))
      | Failed r e \<Rightarrow>
          Some (s\<lparr>as_workers := (as_workers s)
                   [i := (if as_warnings s \<le> WARNING_CUTOFF then Warning r e (as_warnings s) else Releasing r)]\<rparr>)
      | Warning r e num_warnings \<Rightarrow>
          Some (s\<lparr>as_warnings := num_warnings + 1, as_warned := as_warned s @ [e],
                 as_workers := (as_workers s)[i := Releasing r]\<rparr>)
      | Releasing r \<Rightarrow>
          Some (s\<lparr>as_permits := as_permits s + 1, as_completed := as_completed s @ [r],
                 as_workers := (as_workers s)[i := Ended]\<rparr>)
      | Ended \<Rightarrow> None)"

text \<open>The tasks of the cache, and with them the clients.\<close>

inductive task_step :: "'w cache_env \<Rightarrow> multiplexer \<Rightarrow> 'w async_cache \<Rightarrow> 'w async_cache \<Rightarrow> bool" for ce mx where
  manager: "manager_step s = Some s' \<Longrightarrow> task_step ce mx s s'"
| worker: "worker_step ce mx i s = Some s' \<Longrightarrow> task_step ce mx s s'"

inductive async_step :: "'w cache_env \<Rightarrow> multiplexer \<Rightarrow> 'w async_cache \<Rightarrow> 'w async_cache \<Rightarrow> bool" for ce mx where
  task: "task_step ce mx s s' \<Longrightarrow> async_step ce mx s s'"
| send: "as_senders s \<Longrightarrow> async_send req s = Some (r, s') \<Longrightarrow> async_step ce mx s s'"
| exists_: "async_exists ce mx key s = (r, s') \<Longrightarrow> async_step ce mx s s'"
| fetch: "async_fetch ce mx base key s = (r', s') \<Longrightarrow> async_step ce mx s s'"
| drop_senders: "async_step ce mx s (s\<lparr>as_senders := False\<rparr>)"

inductive async_reachable :: "'w cache_env \<Rightarrow> multiplexer \<Rightarrow> nat \<Rightarrow> 'w async_cache \<Rightarrow> bool" for ce mx max_workers where
  init: "async_reachable ce mx max_workers (async_cache_new max_workers w)"
| step: "async_reachable ce mx max_workers s \<Longrightarrow> async_step ce mx s s' \<Longrightarrow> async_reachable ce mx max_workers s'"

inductive_cases task_stepE: "task_step ce mx s s'"
inductive_cases async_stepE: "async_step ce mx s s'"

subsection \<open>Every write is accounted for\<close>

fun worker_writes :: "worker \<Rightarrow> write_request list" where
  "worker_writes (Putting r) = [r]"
| "worker_writes (Failed r e) = [r]"
| "worker_writes (Warning r e n) = [r]"
| "worker_writes (Releasing r) = [r]"
| "worker_writes Ended = []"

definition in_flight :: "'w async_cache \<Rightarrow> write_request list" where
  "in_flight s = concat (map worker_writes (as_workers s))"

definition acquiring :: "'w async_cache \<Rightarrow> write_request list" where
  "acquiring s = (case as_manager s of Acquiring r \<Rightarrow> [r] | _ \<Rightarrow> [])"

definition writes :: "worker_request list \<Rightarrow> write_request list" where
  "writes rs = concat (map (\<lambda>r. case r of WriteRequest w \<Rightarrow> [w] | _ \<Rightarrow> []) rs)"

definition taken_writes :: "'w async_cache \<Rightarrow> write_request list" where
  "taken_writes s = writes (take (as_taken s) (as_accepted s))"

definition accounted :: "nat \<Rightarrow> 'w async_cache \<Rightarrow> bool" where
  "accounted max_workers s \<longleftrightarrow>
     as_permits s + length (in_flight s) = max_workers \<and>
     mset (taken_writes s) = mset (as_completed s) + mset (in_flight s) + mset (acquiring s)"

definition channel_ok :: "'w async_cache \<Rightarrow> bool" where
  "channel_ok s \<longleftrightarrow>
     as_taken s \<le> length (as_accepted s) \<and>
     (as_consumer s \<longleftrightarrow> (case as_manager s of Draining cb \<Rightarrow> False | ManagerDone \<Rightarrow> False | _ \<Rightarrow> True)) \<and>
     as_queue s = (if as_consumer s then drop (as_taken s) (as_accepted s) else []) \<and>
     (case as_manager s of
        Flushing cb \<Rightarrow> 0 < as_taken s \<and> as_accepted s ! (as_taken s - 1) = Flush cb
      | Closing (Some cb) \<Rightarrow> 0 < as_taken s \<and> as_accepted s ! (as_taken s - 1) = Shutdown cb
      | Draining (Some cb) \<Rightarrow> 0 < as_taken s \<and> as_accepted s ! (as_taken s - 1) = Shutdown cb
      | _ \<Rightarrow> True)"

lemma writes_simps [simp]:
  "writes [] = []" "writes (WriteRequest r # rs) = r # writes rs" "writes (Flush cb # rs) = writes rs"
  "writes (Shutdown cb # rs) = writes rs" "writes (rs @ rs') = writes rs @ writes rs'"
  by (simp_all add: writes_def)

lemma in_flight_update:
  assumes "i < length ws"
  shows "mset (concat (map worker_writes (ws[i := x]))) + mset (worker_writes (ws ! i)) =
    mset (concat (map worker_writes ws)) + mset (worker_writes x)"
  using assms by (induction ws arbitrary: i) (auto split: nat.splits simp: ac_simps)

lemma done_in_flight: "workers_done s \<longleftrightarrow> in_flight s = []"
proof -
  have "worker_writes x = [] \<longleftrightarrow> x = Ended" for x by (cases x) simp_all
  then show ?thesis by (simp add: workers_done_def in_flight_def list_all_iff)
qed

text \<open>A step of a worker: either the write goes on, or it is released and complete.\<close>

lemma worker_step_cases:
  assumes "worker_step ce mx i s = Some s'"
  obtains (on) "mset (in_flight s') = mset (in_flight s)" "as_permits s' = as_permits s" "as_completed s' = as_completed s"
    | (release) r where "mset (in_flight s) = mset (in_flight s') + {#r#}" "as_permits s' = as_permits s + 1"
        "as_completed s' = as_completed s @ [r]"
proof -
  let ?ws = "as_workers s"
  have i: "i < length ?ws" using assms by (simp add: worker_step_def split: if_splits)
  have keep: "mset (concat (map worker_writes (?ws[i := x]))) = mset (concat (map worker_writes ?ws))"
    if "worker_writes x = worker_writes (?ws ! i)" for x
    using in_flight_update [OF i, of x] that by simp
  show ?thesis
  proof (cases "?ws ! i")
    case (Releasing r)
    then have "s' = s\<lparr>as_permits := as_permits s + 1, as_completed := as_completed s @ [r], as_workers := ?ws[i := Ended]\<rparr>"
      using assms i by (simp add: worker_step_def)
    moreover have "mset (concat (map worker_writes (?ws[i := Ended]))) + {#r#} = mset (concat (map worker_writes ?ws))"
      using in_flight_update [OF i, of Ended] Releasing by simp
    ultimately show ?thesis by (intro release [of r]) (simp_all add: in_flight_def)
  qed (use assms i keep in \<open>auto simp: worker_step_def in_flight_def split: prod.splits sum.splits intro!: on\<close>)
qed

lemma worker_step_frame:
  assumes "worker_step ce mx i s = Some s'"
  shows "as_queue s' = as_queue s" "as_consumer s' = as_consumer s" "as_senders s' = as_senders s" "as_manager s' = as_manager s"
    "as_accepted s' = as_accepted s" "as_taken s' = as_taken s" "as_flushed s' = as_flushed s" "as_closing s' = as_closing s"
    "as_closed s' = as_closed s" "as_dropped s' = as_dropped s" "length (as_workers s') = length (as_workers s)"
  using assms by (auto simp: worker_step_def split: if_splits worker.splits prod.splits sum.splits)

lemma length_in_flight: "length (in_flight s) = size (mset (in_flight s))"
  by simp

lemma worker_accounted:
  assumes "accounted n s" and step: "worker_step ce mx i s = Some s'"
  shows "accounted n s'"
  using worker_step_frame [OF step]
  by (cases rule: worker_step_cases [OF step])
    (use assms(1) in \<open>auto simp: accounted_def acquiring_def taken_writes_def length_in_flight simp del: size_mset\<close>)

text \<open>The request that the manager receives next.\<close>

lemma queue_head:
  assumes "channel_ok s" and "as_manager s = Receiving" and "as_queue s = req # queue"
  shows "as_taken s < length (as_accepted s)" and "as_accepted s ! as_taken s = req"
    and "drop (Suc (as_taken s)) (as_accepted s) = queue"
    and "take (Suc (as_taken s)) (as_accepted s) = take (as_taken s) (as_accepted s) @ [req]"
proof -
  have head: "drop (as_taken s) (as_accepted s) = req # queue" using assms by (simp add: channel_ok_def)
  then show "as_taken s < length (as_accepted s)" "as_accepted s ! as_taken s = req"
    "drop (Suc (as_taken s)) (as_accepted s) = queue"
    by (metis drop_eq_Nil linorder_not_less list.distinct(1), metis nth_via_drop, metis drop_Suc drop_tl list.sel(3))
  then show "take (Suc (as_taken s)) (as_accepted s) = take (as_taken s) (as_accepted s) @ [req]"
    by (simp add: take_Suc_conv_app_nth)
qed

lemma manager_accounted:
  assumes "accounted n s" and "channel_ok s" and "manager_step s = Some s'"
  shows "accounted n s'"
proof (cases "as_manager s")
  case Receiving
  show ?thesis
  proof (cases "as_queue s")
    case (Cons req queue)
    note head = queue_head [OF assms(2) Receiving Cons]
    then show ?thesis
      using head(4) assms(1,3) Receiving Cons
      by (cases req) (auto simp: manager_step_def accounted_def acquiring_def taken_writes_def in_flight_def)
  qed (use assms(1,3) Receiving in \<open>auto simp: manager_step_def accounted_def acquiring_def taken_writes_def in_flight_def split: if_splits\<close>)
qed (use assms(1,3) in \<open>auto simp: manager_step_def accounted_def acquiring_def taken_writes_def done_in_flight split: if_splits\<close>,
   auto simp: in_flight_def)

lemma manager_channel:
  assumes "channel_ok s" and "manager_step s = Some s'"
  shows "channel_ok s'"
proof (cases "as_manager s")
  case Receiving
  show ?thesis
  proof (cases "as_queue s")
    case (Cons req queue)
    note head = queue_head [OF assms(1) Receiving Cons]
    have open_: "as_consumer s" using assms(1) Receiving by (simp add: channel_ok_def)
    show ?thesis
    proof (cases req)
      case (WriteRequest r)
      then have "s' = s\<lparr>as_queue := queue, as_taken := Suc (as_taken s), as_manager := Acquiring r\<rparr>"
        using assms(2) Receiving Cons by (simp add: manager_step_def)
      then show ?thesis using head open_ by (simp add: channel_ok_def)
    next
      case (Flush cb)
      then have "s' = s\<lparr>as_queue := queue, as_taken := Suc (as_taken s), as_manager := Flushing cb\<rparr>"
        using assms(2) Receiving Cons by (simp add: manager_step_def)
      then show ?thesis using head open_ Flush by (simp add: channel_ok_def)
    next
      case (Shutdown cb)
      then have "s' = s\<lparr>as_queue := queue, as_taken := Suc (as_taken s), as_manager := Closing (Some cb)\<rparr>"
        using assms(2) Receiving Cons by (simp add: manager_step_def)
      then show ?thesis using head open_ Shutdown by (simp add: channel_ok_def)
    qed
  qed (use assms Receiving in \<open>auto simp: manager_step_def channel_ok_def split: if_splits\<close>)
qed (use assms in \<open>auto simp: manager_step_def channel_ok_def split: if_splits option.splits\<close>)

text \<open>A callback is called only when the writes before its request are complete.\<close>

definition callbacks_ok :: "'w async_cache \<Rightarrow> bool" where
  "callbacks_ok s \<longleftrightarrow>
     (\<forall>cb \<in> set (as_flushed s). \<exists>i < as_taken s. as_accepted s ! i = Flush cb \<and>
        mset (writes (take i (as_accepted s))) \<subseteq># mset (as_completed s)) \<and>
     (\<forall>cb \<in> set (as_closed s). as_manager s = ManagerDone \<and> 0 < as_taken s \<and> as_accepted s ! (as_taken s - 1) = Shutdown cb \<and>
        workers_done s \<and> mset (taken_writes s) = mset (as_completed s))"

definition async_inv :: "nat \<Rightarrow> 'w async_cache \<Rightarrow> bool" where
  "async_inv n s \<longleftrightarrow> accounted n s \<and> channel_ok s \<and> callbacks_ok s"

lemma worker_callbacks:
  assumes "callbacks_ok s" and step: "worker_step ce mx i s = Some s'"
  shows "callbacks_ok s'"
proof -
  note frame = worker_step_frame [OF step]
  have more: "mset (as_completed s) \<subseteq># mset (as_completed s')"
    by (cases rule: worker_step_cases [OF step]) simp_all
  have "\<not> workers_done s"
    using step unfolding worker_step_def workers_done_def list_all_length 
    by (cases "as_workers s ! i") (auto simp: not_le split: if_splits intro!: exI [of _ i])
  then have "as_closed s = []" using assms(1) unfolding callbacks_ok_def by (cases "as_closed s") auto
  with assms(1) more show ?thesis unfolding callbacks_ok_def frame by (fastforce intro: subset_mset.trans)
qed

lemma take_before_taken: "0 < t \<Longrightarrow> t \<le> length rs \<Longrightarrow> take t rs = take (t - 1) rs @ [rs ! (t - 1)]"
  by (metis Suc_diff_1 Suc_le_lessD take_Suc_conv_app_nth)

lemma manager_callbacks:
  assumes acc: "accounted n s" and chan: "channel_ok s" and call: "callbacks_ok s" and step: "manager_step s = Some s'"
  shows "callbacks_ok s'"
proof (cases "as_manager s")
  case (Flushing cb)
  then have s': "workers_done s" "s' = s\<lparr>as_workers := [], as_flushed := as_flushed s @ [cb], as_manager := Receiving\<rparr>"
    using step by (auto simp: manager_step_def split: if_splits)
  have flush: "0 < as_taken s" "as_accepted s ! (as_taken s - 1) = Flush cb" "as_taken s \<le> length (as_accepted s)"
    using chan Flushing by (simp_all add: channel_ok_def)
  have "mset (taken_writes s) = mset (as_completed s)"
    using acc s'(1) Flushing by (simp add: accounted_def done_in_flight acquiring_def)
  then have "mset (writes (take (as_taken s - 1) (as_accepted s))) \<subseteq># mset (as_completed s)"
    using take_before_taken [OF flush(1,3)] flush(2) by (simp add: taken_writes_def)
  moreover have "as_taken s - 1 < as_taken s" using flush(1) by simp
  moreover have "as_closed s = []" using call Flushing unfolding callbacks_ok_def by (cases "as_closed s") auto
  ultimately show ?thesis using call flush(2) unfolding callbacks_ok_def s'(2) by auto
next
  case (Draining cb)
  then have s': "workers_done s" "s' = s\<lparr>as_workers := [], as_manager := ManagerDone,
      as_closed := as_closed s @ (case cb of Some c \<Rightarrow> [c] | None \<Rightarrow> [])\<rparr>"
    using step by (auto simp: manager_step_def split: if_splits)
  have "mset (taken_writes s) = mset (as_completed s)"
    using acc s'(1) Draining by (simp add: accounted_def done_in_flight acquiring_def)
  moreover have "as_closed s = []" using call Draining unfolding callbacks_ok_def by (cases "as_closed s") auto
  ultimately show ?thesis
    using call chan Draining unfolding callbacks_ok_def s'(2)
    by (auto simp: channel_ok_def workers_done_def taken_writes_def split: option.splits)
next
  case Receiving
  have "as_closed s = []" using call Receiving unfolding callbacks_ok_def by (cases "as_closed s") auto
  moreover have "as_flushed s' = as_flushed s" "as_closed s' = as_closed s" "as_completed s' = as_completed s"
    "as_accepted s' = as_accepted s" "as_taken s \<le> as_taken s'"
    using step Receiving by (auto simp: manager_step_def Let_def split: list.splits worker_request.splits if_splits)
  ultimately show ?thesis using call unfolding callbacks_ok_def by simp (meson order_less_le_trans)
qed (use call step in \<open>auto simp: manager_step_def callbacks_ok_def split: if_splits\<close>)

lemma send_inv:
  assumes inv: "async_inv n s" and send: "async_send req s = Some (r, s')"
  shows "async_inv n s'"
proof (cases "as_consumer s")
  case True
  then have s': "as_queue s = []" "s' = s\<lparr>as_queue := [req], as_accepted := as_accepted s @ [req]\<rparr>"
    using send by (auto simp: async_send_def split: if_splits)
  have chan: "channel_ok s" using inv by (simp add: async_inv_def)
  have len: "as_taken s = length (as_accepted s)" using chan True s'(1) by (simp add: channel_ok_def)
  have old: "take i (as_accepted s @ [req]) = take i (as_accepted s)" "i < as_taken s \<Longrightarrow> (as_accepted s @ [req]) ! i = as_accepted s ! i"
    if "i \<le> as_taken s" for i
    using that len by (simp_all add: nth_append)
  have "as_closed s = []"
    using inv chan True unfolding async_inv_def callbacks_ok_def channel_ok_def by (cases "as_closed s") auto
  then have "callbacks_ok s'" using inv old unfolding async_inv_def callbacks_ok_def s' by fastforce
  moreover have "accounted n s'"
    using inv old(1) [of "as_taken s"] by (simp add: async_inv_def accounted_def s' taken_writes_def in_flight_def acquiring_def)
  moreover have "channel_ok s'"
    using chan True len old(2) [of "as_taken s - 1"]
    by (auto simp: channel_ok_def s' split: manager.splits option.splits)
  ultimately show ?thesis by (simp add: async_inv_def)
qed (use inv send in \<open>auto simp: async_send_def\<close>)

lemma async_inv_frame:
  "async_inv n (s\<lparr>as_world := w\<rparr>) = async_inv n s" "async_inv n (s\<lparr>as_senders := b\<rparr>) = async_inv n s"
  by (simp_all add: async_inv_def accounted_def channel_ok_def callbacks_ok_def taken_writes_def in_flight_def acquiring_def workers_done_def
      cong: manager.case_cong option.case_cong)

lemma worker_channel: "channel_ok s \<Longrightarrow> worker_step ce mx i s = Some s' \<Longrightarrow> channel_ok s'"
  by (simp add: channel_ok_def worker_step_frame(1-6) cong: manager.case_cong option.case_cong)

lemma task_inv: "async_inv n s \<Longrightarrow> task_step ce mx s s' \<Longrightarrow> async_inv n s'"
  unfolding async_inv_def
  by (erule task_stepE) (blast intro: manager_accounted manager_channel manager_callbacks worker_accounted worker_channel worker_callbacks)+

lemma async_inv_step: "async_inv n s \<Longrightarrow> async_step ce mx s s' \<Longrightarrow> async_inv n s'"
  by (erule async_stepE)
    (auto simp: async_inv_frame async_exists_def async_fetch_def split: prod.splits intro: task_inv send_inv)

lemma async_inv_new: "async_inv n (async_cache_new n w)"
  by (simp add: async_inv_def accounted_def channel_ok_def callbacks_ok_def async_cache_new_def in_flight_def acquiring_def taken_writes_def)

lemma reachable_inv: "async_reachable ce mx n s \<Longrightarrow> async_inv n s"
  by (induction rule: async_reachable.induct) (auto intro: async_inv_new async_inv_step)

text \<open>
  C35: at most as many writes are under way as there are workers; and no write is lost, made up or done
  twice: the writes that the manager has taken from the channel are those that are complete, those under
  way and the one that waits for a permit.
\<close>

theorem async_writes_accounted:
  assumes "async_reachable ce mx max_workers s"
  shows "length (in_flight s) \<le> max_workers \<and>
    mset (writes (take (as_taken s) (as_accepted s))) = mset (as_completed s) + mset (in_flight s) + mset (acquiring s)"
  using reachable_inv [OF assms] by (auto simp: async_inv_def accounted_def taken_writes_def)

text \<open>Only requests that were accepted after a shutdown are dropped.\<close>

definition dropped_ok :: "'w async_cache \<Rightarrow> bool" where
  "dropped_ok s \<longleftrightarrow>
     as_dropped s = (if as_consumer s then [] else drop (as_taken s) (as_accepted s)) \<and>
     (as_manager s = Closing None \<longrightarrow> \<not> as_senders s \<and> as_queue s = []) \<and>
     (as_dropped s \<noteq> [] \<longrightarrow> 0 < as_taken s \<and> (\<exists>cb. as_accepted s ! (as_taken s - 1) = Shutdown cb))"

lemma manager_dropped:
  assumes chan: "channel_ok s" and ok: "dropped_ok s" and step: "manager_step s = Some s'"
  shows "dropped_ok s'"
proof (cases "as_manager s")
  case Receiving
  then have "as_consumer s" "as_dropped s = []"
    using chan ok by (simp_all add: channel_ok_def dropped_ok_def)
  then show ?thesis
    using step Receiving by (auto simp: manager_step_def dropped_ok_def Let_def split: list.splits worker_request.splits if_splits)
next
  case (Closing callback)
  then have "as_consumer s" "as_queue s = drop (as_taken s) (as_accepted s)"
    using chan by (simp_all add: channel_ok_def)
  then show ?thesis
    using step chan ok Closing by (cases callback) (auto simp: manager_step_def dropped_ok_def channel_ok_def)
qed (use ok step in \<open>auto simp: manager_step_def dropped_ok_def split: if_splits\<close>)

lemma send_dropped:
  assumes "dropped_ok s" and "as_senders s" and "async_send req s = Some (r, s')"
  shows "dropped_ok s'"
  using assms by (auto simp: dropped_ok_def async_send_def split: if_splits)

lemma reachable_dropped: "async_reachable ce mx n s \<Longrightarrow> dropped_ok s"
proof (induction rule: async_reachable.induct)
  case (step s s')
  have chan: "channel_ok s"
    using reachable_inv [OF step(1)] by (simp add: async_inv_def)
  from step(2) show ?case
  proof cases
    case task
    then show ?thesis
      using step.IH manager_dropped [OF chan step.IH] by (auto simp: dropped_ok_def worker_step_frame elim!: task_stepE)
  next
    case (send req r)
    then show ?thesis using step.IH by (blast intro: send_dropped)
  qed (use step.IH in \<open>auto simp: dropped_ok_def async_exists_def async_fetch_def split: prod.splits if_splits\<close>)
qed (simp add: dropped_ok_def async_cache_new_def)

lemma dropped_after_shutdown:
  assumes "dropped_ok s" and "req \<in> set (as_dropped s)"
  shows "\<exists>i < length (as_accepted s). as_accepted s ! i = req \<and> as_taken s \<le> i \<and> \<not> as_consumer s \<and>
    (\<exists>j < i. \<exists>cb. as_accepted s ! j = Shutdown cb)"
proof -
  have closed: "\<not> as_consumer s" "as_dropped s = drop (as_taken s) (as_accepted s)"
    using assms by (auto simp: dropped_ok_def split: if_splits)
  then obtain k where k: "k < length (as_accepted s) - as_taken s" "as_accepted s ! (as_taken s + k) = req"
    using assms(2) by (auto simp: in_set_conv_nth)
  moreover obtain cb where "0 < as_taken s" "as_accepted s ! (as_taken s - 1) = Shutdown cb"
    using assms by (auto simp: dropped_ok_def)
  ultimately have "as_taken s + k < length (as_accepted s)" "as_taken s - 1 < as_taken s + k"
    "as_accepted s ! (as_taken s - 1) = Shutdown cb"
    by simp_all
  with closed(1) k(2) show ?thesis
    by (intro exI [of _ "as_taken s + k"]) auto
qed

text \<open>
  C36: when waiting for the cache returns, all the writes that were accepted before it are complete, unless
  a shutdown was accepted before it: then its request was dropped unread when the manager closed the channel.
  When a shutdown returns, all the writes accepted before it are complete, no worker runs, and every later
  request is refused. A shutdown panics only when another one was accepted before it.
\<close>

theorem async_callbacks_wait:
  assumes "async_reachable ce mx max_workers s"
  shows "(async_wait_returned cb s \<longrightarrow> (\<exists>i < length (as_accepted s). as_accepted s ! i = Flush cb \<and>
      (mset (writes (take i (as_accepted s))) \<subseteq># mset (as_completed s) \<or>
       as_taken s \<le> i \<and> \<not> as_consumer s \<and> (\<exists>j < i. \<exists>cb'. as_accepted s ! j = Shutdown cb')))) \<and>
    (async_shutdown_returned cb s \<longrightarrow> (\<exists>i < length (as_accepted s). as_accepted s ! i = Shutdown cb \<and>
      mset (writes (take i (as_accepted s))) = mset (as_completed s)) \<and>
      in_flight s = [] \<and> (\<forall>req. async_send req s = Some (Inl CacheShuttingDown, s))) \<and>
    (async_shutdown_panicked cb s \<longrightarrow> (\<exists>i < length (as_accepted s). as_accepted s ! i = Shutdown cb \<and>
      (\<exists>j < i. \<exists>cb'. as_accepted s ! j = Shutdown cb')))"
proof -
  note inv = reachable_inv [OF assms, unfolded async_inv_def]
  have taken: "as_taken s \<le> length (as_accepted s)" using inv by (simp add: channel_ok_def)
  note dropped = dropped_after_shutdown [OF reachable_dropped [OF assms]]
  show ?thesis
  proof (intro conjI impI)
    assume "async_wait_returned cb s"
    then consider "cb \<in> set (as_flushed s)" | "Flush cb \<in> set (as_dropped s)"
      by (auto simp: async_wait_returned_def)
    then show "\<exists>i < length (as_accepted s). as_accepted s ! i = Flush cb \<and>
      (mset (writes (take i (as_accepted s))) \<subseteq># mset (as_completed s) \<or>
       as_taken s \<le> i \<and> \<not> as_consumer s \<and> (\<exists>j < i. \<exists>cb'. as_accepted s ! j = Shutdown cb'))"
    proof cases
      case 1
      then show ?thesis
        using inv taken unfolding callbacks_ok_def by (meson order_less_le_trans)
    next
      case 2
      then show ?thesis using dropped by blast
    qed
  next
    assume "async_shutdown_returned cb s"
    then have closed: "as_manager s = ManagerDone" "0 < as_taken s" "as_accepted s ! (as_taken s - 1) = Shutdown cb"
      "workers_done s" "mset (taken_writes s) = mset (as_completed s)"
      using inv unfolding callbacks_ok_def async_shutdown_returned_def by blast+
    then have "mset (writes (take (as_taken s - 1) (as_accepted s))) = mset (as_completed s)"
      using take_before_taken [OF closed(2) taken] by (simp add: taken_writes_def)
    moreover have "as_taken s - 1 < length (as_accepted s)" using closed(2) taken by simp
    ultimately show "\<exists>i < length (as_accepted s). as_accepted s ! i = Shutdown cb \<and>
      mset (writes (take i (as_accepted s))) = mset (as_completed s)" using closed(3) by blast
    show "in_flight s = []" using closed(4) by (simp add: done_in_flight)
    show "\<forall>req. async_send req s = Some (Inl CacheShuttingDown, s)"
      using inv closed(1) by (simp add: channel_ok_def async_send_def)
  next
    assume "async_shutdown_panicked cb s"
    then show "\<exists>i < length (as_accepted s). as_accepted s ! i = Shutdown cb \<and> (\<exists>j < i. \<exists>cb'. as_accepted s ! j = Shutdown cb')"
      using dropped unfolding async_shutdown_panicked_def by blast
  qed
qed

subsection \<open>The work comes to an end\<close>

text \<open>What the tasks still have to do, as a number that every step makes smaller.\<close>

fun worker_work :: "worker \<Rightarrow> nat" where
  "worker_work (Putting r) = 4"
| "worker_work (Failed r e) = 3"
| "worker_work (Warning r e n) = 2"
| "worker_work (Releasing r) = 1"
| "worker_work Ended = 0"

fun manager_work :: "manager \<Rightarrow> nat" where
  "manager_work (Acquiring r) = 8"
| "manager_work (Flushing cb) = 4"
| "manager_work Receiving = 3"
| "manager_work (Closing cb) = 2"
| "manager_work (Draining cb) = 1"
| "manager_work ManagerDone = 0"

definition async_work :: "'w async_cache \<Rightarrow> nat" where
  "async_work s = 7 * length (as_queue s) + sum_list (map worker_work (as_workers s)) + manager_work (as_manager s)"

lemma sum_list_update_less:
  fixes f :: "'a \<Rightarrow> nat"
  shows "i < length xs \<Longrightarrow> f x < f (xs ! i) \<Longrightarrow> sum_list (map f (xs[i := x])) < sum_list (map f xs)"
  by (induction xs arbitrary: i) (auto split: nat.splits)

lemma task_step_work: "task_step ce mx s s' \<Longrightarrow> async_work s' < async_work s"
proof (erule task_stepE)
  assume "manager_step s = Some s'"
  then show "async_work s' < async_work s"
    by (cases "as_manager s"; cases "as_queue s")
      (auto simp: manager_step_def async_work_def Let_def split: if_splits worker_request.splits)
next
  fix i assume step: "worker_step ce mx i s = Some s'"
  then have i: "i < length (as_workers s)" by (simp add: worker_step_def split: if_splits)
  note less = sum_list_update_less [OF i, of worker_work]
  show "async_work s' < async_work s"
    using step i less by (cases "as_workers s ! i")
      (auto simp: worker_step_def async_work_def split: prod.splits sum.splits)
qed

lemma worker_steps: "\<not> workers_done s \<Longrightarrow> \<exists>i s'. worker_step ce mx i s = Some s'"
proof -
  assume "\<not> workers_done s"
  then obtain i where i: "i < length (as_workers s)" "as_workers s ! i \<noteq> Ended"
    by (auto simp: workers_done_def list_all_length)
  then have "worker_step ce mx i s \<noteq> None"
    by (cases "as_workers s ! i") (auto simp: worker_step_def split: prod.splits sum.splits)
  then show ?thesis by blast
qed

lemma quiet_state:
  assumes inv: "async_inv n s" and n: "0 < n" and quiet: "\<nexists>s'. task_step ce mx s s'"
  shows "as_queue s = [] \<and> in_flight s = [] \<and> acquiring s = [] \<and>
    (as_manager s = Receiving \<and> as_senders s \<or> as_manager s = ManagerDone)"
proof -
  have "workers_done s" using worker_steps [of s ce mx] quiet by (blast intro: task_step.worker)
  then have idle: "in_flight s = []" "workers_done s" by (simp_all add: done_in_flight)
  have stuck: "manager_step s = None" using quiet by (cases "manager_step s") (auto intro: task_step.manager)
  have "as_permits s = n" using inv idle by (simp add: async_inv_def accounted_def)
  then have m: "as_manager s = Receiving \<and> as_queue s = [] \<and> as_senders s \<or> as_manager s = ManagerDone"
    using stuck n idle(2)
    by (cases "as_manager s")
      (auto simp: manager_step_def Let_def split: list.splits worker_request.splits if_splits)
  moreover have "as_queue s = []" if "as_manager s = ManagerDone"
    using inv that by (simp add: async_inv_def channel_ok_def)
  ultimately show ?thesis using idle by (auto simp: acquiring_def)
qed

lemma task_steps_inv: "(task_step ce mx ^^ k) s s' \<Longrightarrow> async_inv n s \<Longrightarrow> async_inv n s' \<and> k + async_work s' \<le> async_work s"
proof (induction k arbitrary: s')
  case (Suc k)
  then obtain t where t: "(task_step ce mx ^^ k) s t" "task_step ce mx t s'" by auto
  with Suc.IH [OF t(1) Suc.prems(2)] task_inv task_step_work [OF t(2)] show ?case by fastforce
qed simp

text \<open>
  C37: with at least one worker the cache comes to rest: the manager and the workers take a bounded number
  of steps on their own, in whatever order, and when none of them can go on, the channel is empty, nothing
  is under way, and every write that was taken from the channel is complete.
\<close>

theorem async_comes_to_rest:
  assumes "async_reachable ce mx max_workers s" and "0 < max_workers" and "(task_step ce mx ^^ k) s s'"
  shows "k \<le> async_work s \<and>
    ((\<nexists>s''. task_step ce mx s' s'') \<longrightarrow>
       as_queue s' = [] \<and> in_flight s' = [] \<and>
       mset (writes (take (as_taken s') (as_accepted s'))) = mset (as_completed s') \<and>
       (as_manager s' = Receiving \<and> as_senders s' \<or> as_manager s' = ManagerDone))"
proof -
  note run = task_steps_inv [OF assms(3) reachable_inv [OF assms(1)]]
  have "as_queue s' = [] \<and> in_flight s' = [] \<and>
       mset (writes (take (as_taken s') (as_accepted s'))) = mset (as_completed s') \<and>
       (as_manager s' = Receiving \<and> as_senders s' \<or> as_manager s' = ManagerDone)"
    if "\<nexists>s''. task_step ce mx s' s''"
    using quiet_state [OF _ assms(2) that] run by (auto simp: async_inv_def accounted_def taken_writes_def)
  moreover have "k \<le> async_work s" using run by simp
  ultimately show ?thesis by blast
qed

text \<open>
  With no workers at all (\<open>--cache-workers 0\<close>) the first write waits for a permit for ever, whatever
  happens: the manager takes no request any more, and neither waiting nor a shutdown returns.
\<close>

lemma no_workers_hang:
  assumes "async_reachable ce mx 0 s" and "as_manager s = Acquiring r" and "(async_step ce mx)\<^sup>*\<^sup>* s s'"
  shows "as_manager s' = Acquiring r \<and> as_flushed s' = as_flushed s \<and> as_closing s' = as_closing s \<and> as_closed s' = as_closed s \<and> as_dropped s' = as_dropped s"
proof -
  have "async_inv 0 s' \<and> as_manager s' = Acquiring r \<and>
      as_flushed s' = as_flushed s \<and> as_closing s' = as_closing s \<and> as_closed s' = as_closed s \<and> as_dropped s' = as_dropped s"
    using assms(3)
  proof (induction rule: rtranclp_induct)
    case base
    then show ?case using reachable_inv [OF assms(1)] assms(2) by simp
  next
    case (step t u)
    then have t: "async_inv 0 t" "as_manager t = Acquiring r" by simp_all
    then have stuck: "manager_step t = None"
      by (auto simp: async_inv_def accounted_def manager_step_def)
    have "as_manager u = as_manager t \<and> as_flushed u = as_flushed t \<and> as_closing u = as_closing t \<and> as_closed u = as_closed t \<and> as_dropped u = as_dropped t"
      using step(2)
    proof cases
      case task
      then show ?thesis using stuck worker_step_frame [of ce mx _ t u] by (auto elim: task_stepE)
    qed (auto simp: async_send_def async_exists_def async_fetch_def split: if_splits prod.splits)
    with async_inv_step [OF t(1) step(2)] step.IH show ?case by simp
  qed
  then show ?thesis by simp
qed

text \<open>The counter of warnings stays within its eight bits.\<close>

lemma warnings_bounded:
  assumes "async_reachable ce mx n s"
  shows "as_warnings s \<le> WARNING_CUTOFF + 1"
proof -
  define bounded :: "'a async_cache \<Rightarrow> bool" where "bounded s \<longleftrightarrow> as_warnings s \<le> WARNING_CUTOFF + 1 \<and>
    (\<forall>r e n. Warning r e n \<in> set (as_workers s) \<longrightarrow> n \<le> WARNING_CUTOFF)" for s
  have up: "n \<le> 4 \<Longrightarrow> n + 1 \<le> 5" for n :: "8 word" by (simp add: word_le_nat_alt unat_word_ariths)
  have "bounded s"
    using assms
  proof (induction rule: async_reachable.induct)
    case (step s s')
    from step(2) show ?case
    proof cases
      case task
      then show ?thesis
      proof (cases rule: task_step.cases)
        case manager
        then show ?thesis using step.IH
          by (auto simp: bounded_def manager_step_def Let_def split: manager.splits list.splits worker_request.splits if_splits)
      next
        case (worker i)
        then have i: "i < length (as_workers s)" by (simp add: worker_step_def split: if_splits)
        then have "as_workers s ! i \<in> set (as_workers s)" by simp
        with worker step.IH i show ?thesis
          by (cases "as_workers s ! i")
            (auto simp: bounded_def worker_step_def up dest!: set_update_subset_insert [THEN subsetD] split: if_splits prod.splits sum.splits)
      qed
    qed (use step.IH in \<open>auto simp: bounded_def async_send_def async_exists_def async_fetch_def split: if_splits prod.splits\<close>)
  qed (simp add: bounded_def async_cache_new_def)
  then show ?thesis by (simp add: bounded_def)
qed

subsection \<open>An example\<close>

definition sample_write :: write_request where
  "sample_write = \<lparr>wr_anchor = ''/r'', wr_key = ''h1'', wr_duration = 7, wr_files = []\<rparr>"

definition sample_off :: multiplexer where
  "sample_off = sample_mx\<lparr>mx_http := None, mx_fs := None\<rparr>"

text \<open>A write is accepted and started, and the cache is shut down while it is under way.\<close>

definition sample_started :: "unit async_cache" where
  "sample_started = (async_cache_new 1 sample_world)
     \<lparr>as_permits := 0, as_workers := [Putting sample_write], as_accepted := [WriteRequest sample_write], as_taken := 1\<rparr>"

definition sample_closing :: "worker \<Rightarrow> unit async_cache" where
  "sample_closing x = sample_started
     \<lparr>as_accepted := [WriteRequest sample_write, Shutdown 3], as_taken := 2, as_consumer := False, as_closing := [3],
       as_manager := Draining (Some 3), as_workers := [x]\<rparr>"

definition sample_finished :: "unit async_cache" where
  "sample_finished = (sample_closing Ended)
     \<lparr>as_permits := 1, as_completed := [sample_write], as_workers := [], as_manager := ManagerDone, as_closed := [3]\<rparr>"

lemmas sample_async_defs = async_cache_new_def sample_started_def sample_closing_def sample_finished_def
  async_send_def manager_step_def worker_step_def workers_done_def

lemma sample_started_reachable: "async_reachable ce mx 1 sample_started"
proof -
  let ?s0 = "async_cache_new 1 sample_world"
  let ?s1 = "?s0\<lparr>as_queue := [WriteRequest sample_write], as_accepted := [WriteRequest sample_write]\<rparr>"
  let ?s2 = "?s1\<lparr>as_queue := [], as_taken := 1, as_manager := Acquiring sample_write\<rparr>"
  have "async_reachable ce mx 1 ?s0" by (rule init)
  moreover have "async_step ce mx ?s0 ?s1"
    by (rule send [where r = "Inr ()" and req = "WriteRequest sample_write"]) (simp_all add: sample_async_defs)
  moreover have "async_step ce mx ?s1 ?s2" by (intro task manager) (simp add: sample_async_defs)
  moreover have "async_step ce mx ?s2 sample_started" by (intro task manager) (simp add: sample_async_defs)
  ultimately show ?thesis by (blast intro: step)
qed

lemma sample_closing_reachable: "async_reachable ce mx 1 (sample_closing (Putting sample_write))"
proof -
  let ?rs = "[WriteRequest sample_write, Shutdown 3]"
  let ?s1 = "sample_started\<lparr>as_queue := [Shutdown 3], as_accepted := ?rs\<rparr>"
  let ?s2 = "?s1\<lparr>as_queue := [], as_taken := 2, as_manager := Closing (Some 3)\<rparr>"
  have "async_step ce mx sample_started ?s1"
    by (rule send [where r = "Inr ()" and req = "Shutdown 3"]) (simp_all add: sample_async_defs)
  moreover have "async_step ce mx ?s1 ?s2" by (intro task manager) (simp add: sample_async_defs)
  moreover have "async_step ce mx ?s2 (sample_closing (Putting sample_write))" by (intro task manager) (simp add: sample_async_defs)
  ultimately show ?thesis using sample_started_reachable by (blast intro: step)
qed

lemma sample_shutdown_run:
  "(task_step ce sample_off ^^ 3) (sample_closing (Putting sample_write)) sample_finished"
  "(async_step ce sample_off)\<^sup>*\<^sup>* (sample_closing (Putting sample_write)) sample_finished"
proof -
  let ?released = "(sample_closing Ended)\<lparr>as_permits := 1, as_completed := [sample_write]\<rparr>"
  have put: "multiplexer_put ce sample_off base key files d w = (Inr (), w)" for base key files d w
    by (simp add: multiplexer_put_def sample_off_def sample_mx_def io_bind_def io_lift_def get_http_cache_def)
  have run: "task_step ce sample_off (sample_closing (Putting sample_write)) (sample_closing (Releasing sample_write))"
    "task_step ce sample_off (sample_closing (Releasing sample_write)) ?released"
    "task_step ce sample_off ?released sample_finished"
    by (rule worker [where i = 0] worker [where i = 0] manager, simp add: sample_async_defs put)+
  then show "(task_step ce sample_off ^^ 3) (sample_closing (Putting sample_write)) sample_finished"
    by (auto simp: numeral_3_eq_3)
  from run show "(async_step ce sample_off)\<^sup>*\<^sup>* (sample_closing (Putting sample_write)) sample_finished"
    by (meson task converse_rtranclp_into_rtranclp rtranclp.rtrancl_refl)
qed

lemma sample_finished_reachable: "async_reachable ce sample_off 1 sample_finished"
  using sample_shutdown_run(2) sample_closing_reachable by (induction rule: rtranclp_induct) (auto intro: step)

text \<open>
  A client that waits for the cache after another one asked for a shutdown: its request is dropped, and it
  goes on while the write is still under way.
\<close>

lemma wait_returns_early:
  "\<exists>s :: unit async_cache. async_reachable ce mx 1 s \<and> async_wait_returned 4 s \<and> in_flight s = [sample_write] \<and> as_completed s = [] \<and>
     as_accepted s = [WriteRequest sample_write, Shutdown 3, Flush 4]"
proof -
  let ?s1 = "sample_started\<lparr>as_queue := [Shutdown 3], as_accepted := [WriteRequest sample_write, Shutdown 3]\<rparr>"
  let ?s2 = "?s1\<lparr>as_queue := [], as_taken := 2, as_manager := Closing (Some 3)\<rparr>"
  let ?s3 = "?s2\<lparr>as_queue := [Flush 4], as_accepted := [WriteRequest sample_write, Shutdown 3, Flush 4]\<rparr>"
  let ?s4 = "?s3\<lparr>as_queue := [], as_consumer := False, as_closing := [3], as_dropped := [Flush 4], as_manager := Draining (Some 3)\<rparr>"
  have 1: "async_step ce mx sample_started ?s1"
    by (rule send [where r = "Inr ()" and req = "Shutdown 3"]) (simp_all add: sample_async_defs)
  have 2: "async_step ce mx ?s1 ?s2" by (intro task manager) (simp add: sample_async_defs)
  have 3: "async_step ce mx ?s2 ?s3"
    by (rule send [where r = "Inr ()" and req = "Flush 4"]) (simp_all add: sample_async_defs)
  have 4: "async_step ce mx ?s3 ?s4" by (intro task manager) (simp add: sample_async_defs)
  have "async_reachable ce mx 1 ?s4"
    by (rule step [OF step [OF step [OF step [OF sample_started_reachable 1] 2] 3] 4])
  then show ?thesis
    by (intro exI [of _ ?s4]) (simp add: async_wait_returned_def in_flight_def sample_async_defs)
qed

theorem async_writes_accounted_witness:
  "length (in_flight sample_started) \<le> 1 \<and>
   mset (writes (take (as_taken sample_started) (as_accepted sample_started))) =
     mset (as_completed sample_started) + mset (in_flight sample_started) + mset (acquiring sample_started)"
  by (rule async_writes_accounted [OF sample_started_reachable [of sample_stored sample_mx]])

theorem async_callbacks_wait_witness:
  "(\<exists>i < length (as_accepted sample_finished). as_accepted sample_finished ! i = Shutdown 3 \<and>
      mset (writes (take i (as_accepted sample_finished))) = mset (as_completed sample_finished)) \<and>
   in_flight sample_finished = [] \<and>
   async_send (Flush 4) sample_finished = Some (Inl CacheShuttingDown, sample_finished)"
  using async_callbacks_wait [OF sample_finished_reachable [of sample_stored], of 3]
  by (simp add: async_shutdown_returned_def sample_finished_def)

theorem async_comes_to_rest_witness:
  "3 \<le> async_work (sample_closing (Putting sample_write)) \<and>
   as_queue sample_finished = [] \<and> in_flight sample_finished = [] \<and>
   mset (writes (take (as_taken sample_finished) (as_accepted sample_finished))) = mset (as_completed sample_finished)"
proof -
  have "\<nexists>s''. task_step sample_stored sample_off sample_finished s''"
    by (auto elim!: task_stepE simp: sample_async_defs)
  then show ?thesis
    using async_comes_to_rest [OF sample_closing_reachable _ sample_shutdown_run(1) [of sample_stored]] by auto
qed
end
