(* ===== verification/Env.thy ===== *)
theory Env
  imports Prelude "HOL-Library.Multiset"
begin

text \<open>
  Environment variables: \<open>nrzrepo-env/src/lib.rs\<close> and \<open>platform.rs\<close>, on unix. An
  \<open>EnvironmentVariableMap\<close> is an association list in iteration order. The crate \<open>regex\<close> is a
  parameter: \<open>regex_new\<close> compiles an expression, \<open>escape\<close> is \<open>regex::escape\<close>. Patterns are
  ASCII, so that positions of characters are positions of bytes. \<open>sha\<close> is SHA-256 in hex.
\<close>

type_synonym env_map = "(string, string) hash_map"
type_synonym regex_engine = "string \<Rightarrow> (string, string \<Rightarrow> bool) result"

abbreviation WILDCARD :: char where "WILDCARD \<equiv> CHR ''*''"
abbreviation WILDCARD_ESCAPE :: char where "WILDCARD_ESCAPE \<equiv> CHR 92"

definition REGEX_WILDCARD_SEGMENT :: string where
  "REGEX_WILDCARD_SEGMENT = ''.*''"

definition DEFAULT_ENV_VARS :: "string list" where
  "DEFAULT_ENV_VARS = [''VERCEL_ANALYTICS_ID'', ''VERCEL_TARGET_ENV'']"

subsection \<open>Maps\<close>

definition to_hashable :: "env_map \<Rightarrow> string list" where
  "to_hashable m = sort (map (\<lambda>(k, v). k @ ''='' @ v) m)"

definition env_names :: "env_map \<Rightarrow> string list" where
  "env_names m = sort (map fst m)"

definition to_secret_hashable :: "(string \<Rightarrow> string) \<Rightarrow> env_map \<Rightarrow> string list" where
  "to_secret_hashable sha m = sort (map (\<lambda>(k, v). if v \<noteq> [] then k @ ''='' @ sha v else k @ ''='') m)"

definition env_union :: "env_map \<Rightarrow> env_map \<Rightarrow> env_map" where
  "env_union self another = fold (\<lambda>(key, value) m. hm_insert key value m) another self"

definition env_difference :: "env_map \<Rightarrow> env_map \<Rightarrow> env_map" where
  "env_difference self another = fold (\<lambda>(key, _) m. AList.delete key m) another self"

record by_source =
  bs_explicit :: env_map
  bs_matching :: env_map

record detailed_map =
  dm_all :: env_map
  dm_by_source :: by_source

record wildcard_maps =
  wm_inclusions :: env_map
  wm_exclusions :: env_map

definition wildcard_resolve :: "wildcard_maps \<Rightarrow> env_map" where
  "wildcard_resolve wm = env_difference (wm_inclusions wm) (wm_exclusions wm)"

subsection \<open>Wildcards\<close>

definition slice :: "string \<Rightarrow> nat \<Rightarrow> nat \<Rightarrow> string" where
  "slice s a b = take (b - a) (drop a s)"

text \<open>
  The loop of \<open>wildcard_to_regex_pattern\<close> over the characters from position \<open>i\<close> on; the result is
  the list of segments and the position after the last wildcard.
\<close>

fun wildcard_loop ::
  "(string \<Rightarrow> string) \<Rightarrow> string \<Rightarrow> string \<Rightarrow> nat \<Rightarrow> nat \<Rightarrow> char option \<Rightarrow> string list \<Rightarrow> string list \<times> nat"
where
  "wildcard_loop escape pattern [] i previous_index previous_char segs = (segs, previous_index)"
| "wildcard_loop escape pattern (c # cs) i previous_index previous_char segs =
     (if c = WILDCARD then
        (let segs' =
           (if previous_char = Some WILDCARD_ESCAPE
            then segs @ [escape (slice pattern previous_index (i - 1) @ [WILDCARD])]
            else
              (let segs1 = segs @ [escape (slice pattern previous_index i)]
               in if last segs1 \<noteq> REGEX_WILDCARD_SEGMENT then segs1 @ [REGEX_WILDCARD_SEGMENT] else segs1))
         in wildcard_loop escape pattern cs (i + 1) (i + 1) (Some c) segs')
      else wildcard_loop escape pattern cs (i + 1) previous_index (Some c) segs)"

definition wildcard_to_regex_pattern :: "(string \<Rightarrow> string) \<Rightarrow> string \<Rightarrow> string" where
  "wildcard_to_regex_pattern escape pattern =
     (case wildcard_loop escape pattern pattern 0 0 None [] of
        (segs, previous_index) \<Rightarrow> concat (segs @ [escape (slice pattern previous_index (length pattern))]))"

fun split_patterns :: "(string \<Rightarrow> string) \<Rightarrow> string list \<Rightarrow> string list \<times> string list" where
  "split_patterns escape [] = ([], [])"
| "split_patterns escape (p # ps) =
     (case split_patterns escape ps of
        (include, exclude) \<Rightarrow>
          (case strip_prefix ''!'' p of
             Some rest \<Rightarrow> (include, wildcard_to_regex_pattern escape rest # exclude)
           | None \<Rightarrow>
               if starts_with p [WILDCARD_ESCAPE, CHR ''!'']
               then (wildcard_to_regex_pattern escape (drop 1 p) # include, exclude)
               else (wildcard_to_regex_pattern escape p # include, exclude)))"

definition anchored_regex :: "string list \<Rightarrow> string" where
  "anchored_regex patterns = ''^('' @ join_with ''|'' patterns @ '')$''"

definition wildcard_map_from_wildcards ::
  "regex_engine \<Rightarrow> (string \<Rightarrow> string) \<Rightarrow> env_map \<Rightarrow> string list \<Rightarrow> (string, wildcard_maps) result"
where
  "wildcard_map_from_wildcards regex_new escape env wildcard_patterns =
     (case split_patterns escape wildcard_patterns of
        (include_patterns, exclude_patterns) \<Rightarrow>
          try_bind (regex_new (anchored_regex include_patterns)) (\<lambda>include_regex.
          try_bind (regex_new (anchored_regex exclude_patterns)) (\<lambda>exclude_regex.
            Inr \<lparr>wm_inclusions = hm_collect (filter (\<lambda>(k, _). include_patterns \<noteq> [] \<and> include_regex k) env),
                 wm_exclusions = hm_collect (filter (\<lambda>(k, _). exclude_patterns \<noteq> [] \<and> exclude_regex k) env)\<rparr>)))"

definition from_wildcards ::
  "regex_engine \<Rightarrow> (string \<Rightarrow> string) \<Rightarrow> env_map \<Rightarrow> string list \<Rightarrow> (string, env_map) result"
where
  "from_wildcards regex_new escape env wildcard_patterns =
     (if wildcard_patterns = [] then Inr []
      else try_bind (wildcard_map_from_wildcards regex_new escape env wildcard_patterns) (\<lambda>r. Inr (wildcard_resolve r)))"

definition wildcard_map_from_wildcards_unresolved ::
  "regex_engine \<Rightarrow> (string \<Rightarrow> string) \<Rightarrow> env_map \<Rightarrow> string list \<Rightarrow> (string, wildcard_maps) result"
where
  "wildcard_map_from_wildcards_unresolved regex_new escape env wildcard_patterns =
     (if wildcard_patterns = [] then Inr \<lparr>wm_inclusions = [], wm_exclusions = []\<rparr>
      else wildcard_map_from_wildcards regex_new escape env wildcard_patterns)"

subsection \<open>What a task sees\<close>

definition hashable_task_env ::
  "regex_engine \<Rightarrow> (string \<Rightarrow> string) \<Rightarrow> env_map \<Rightarrow> string list \<Rightarrow> string list \<Rightarrow> (string, detailed_map) result"
where
  "hashable_task_env regex_new escape env computed_wildcards task_env =
     try_bind (from_wildcards regex_new escape env computed_wildcards) (\<lambda>inference_env_var_map.
     try_bind (wildcard_map_from_wildcards_unresolved regex_new escape env task_env) (\<lambda>user_env_var_set.
       Inr \<lparr>dm_all = env_difference (env_union (env_union [] (wm_inclusions user_env_var_set)) inference_env_var_map)
                       (wm_exclusions user_env_var_set),
            dm_by_source = \<lparr>
              bs_explicit = env_difference (env_union [] (wm_inclusions user_env_var_set)) (wm_exclusions user_env_var_set),
              bs_matching = env_difference (env_union [] inference_env_var_map) (wm_exclusions user_env_var_set)\<rparr>\<rparr>))"

definition pass_through_env ::
  "regex_engine \<Rightarrow> (string \<Rightarrow> string) \<Rightarrow> env_map \<Rightarrow> string list \<Rightarrow> env_map \<Rightarrow> string list \<Rightarrow> (string, env_map) result"
where
  "pass_through_env regex_new escape env builtins global_env task_pass_through =
     try_bind (from_wildcards regex_new escape env builtins) (\<lambda>default_env_var_pass_through_map.
     try_bind (wildcard_map_from_wildcards_unresolved regex_new escape env task_pass_through) (\<lambda>task_pass_through_env.
       Inr (env_difference
         (env_union (env_union (env_union [] default_env_var_pass_through_map) global_env) (wm_inclusions task_pass_through_env))
         (wm_exclusions task_pass_through_env))))"

definition get_global_hashable_env_vars ::
  "regex_engine \<Rightarrow> (string \<Rightarrow> string) \<Rightarrow> env_map \<Rightarrow> string list \<Rightarrow> (string, detailed_map) result"
where
  "get_global_hashable_env_vars regex_new escape env global_env =
     try_bind (from_wildcards regex_new escape env DEFAULT_ENV_VARS) (\<lambda>default_env_var_map.
     try_bind (wildcard_map_from_wildcards_unresolved regex_new escape env global_env) (\<lambda>user_env_var_set.
       let all_env_var_map = env_difference (env_union (env_union [] (wm_inclusions user_env_var_set)) default_env_var_map)
                               (wm_exclusions user_env_var_set);
           explicit_env_var_map = env_difference (env_union [] (wm_inclusions user_env_var_set)) (wm_exclusions user_env_var_set);
           matching_env_var_map = env_difference (env_union [] default_env_var_map) explicit_env_var_map
       in Inr \<lparr>dm_all = all_env_var_map,
               dm_by_source = \<lparr>bs_explicit = explicit_env_var_map, bs_matching = matching_env_var_map\<rparr>\<rparr>))"

text \<open>\<open>platform.rs\<close>: the variables of the process are the parameter \<open>vars\<close>.\<close>

definition platform_env_new :: "(string \<rightharpoonup> string) \<Rightarrow> string list" where
  "platform_env_new vars =
     filter (\<lambda>s. s \<noteq> []) (split_on (CHR '','') (case vars ''NRZ_PLATFORM_ENV'' of Some v \<Rightarrow> v | None \<Rightarrow> []))"

definition platform_env_disabled :: "(string \<rightharpoonup> string) \<Rightarrow> bool" where
  "platform_env_disabled vars =
     (let v = (case vars ''NRZ_PLATFORM_ENV_DISABLED'' of Some v \<Rightarrow> v | None \<Rightarrow> []) in v = ''1'' \<or> v = ''true'')"

definition platform_env_diff :: "string list \<Rightarrow> env_map \<Rightarrow> string list" where
  "platform_env_diff env_keys execution_env = filter (\<lambda>key. hm_get execution_env key = None) env_keys"

definition platform_env_validate :: "(string \<rightharpoonup> string) \<Rightarrow> string list \<Rightarrow> env_map \<Rightarrow> string list" where
  "platform_env_validate vars env_keys execution_env =
     (if platform_env_disabled vars then [] else platform_env_diff env_keys execution_env)"

subsection \<open>Maps as functions\<close>

lemma hm_get_fold_insert:
  "hm_get (fold (\<lambda>(k, v) m. hm_insert k v m) xs m) k = (case hm_get (rev xs) k of Some v \<Rightarrow> Some v | None \<Rightarrow> hm_get m k)"
proof (induction xs arbitrary: m)
  case (Cons x xs)
  then show ?case by (cases x) (auto simp: map_add_Some_iff map_add_None map_add_def split: option.splits)
qed simp

lemma distinct_collect: "distinct (map fst (hm_collect xs))"
proof -
  have "distinct (map fst m) \<Longrightarrow> distinct (map fst (fold (\<lambda>(k, v) m. hm_insert k v m) xs m))" for m :: "('a, 'b) hash_map"
  proof (induction xs arbitrary: m)
    case (Cons x xs)
    then show ?case by (cases x) (simp add: distinct_update)
  qed simp
  from this [of "[]"] show ?thesis by (simp add: hm_collect_def)
qed

lemma hm_get_rev: "distinct (map fst m) \<Longrightarrow> hm_get (rev m) k = hm_get m k"
  using map_of_inject_set [of "rev m" m] by (simp add: rev_map [symmetric])

lemma env_union_get: "distinct (map fst b) \<Longrightarrow> hm_get (env_union a b) k = (case hm_get b k of Some v \<Rightarrow> Some v | None \<Rightarrow> hm_get a k)"
  by (simp add: env_union_def hm_get_fold_insert hm_get_rev)

lemma env_difference_get: "hm_get (env_difference a b) k = (if k \<in> fst ` set b then None else hm_get a k)"
proof (induction b arbitrary: a)
  case (Cons x b)
  obtain l v where x: "x = (l, v)" by (cases x)
  have "env_difference a (x # b) = env_difference (AList.delete l a) b" by (simp add: env_difference_def x)
  with Cons show ?case by (simp add: x delete_conv')
qed (simp add: env_difference_def)

lemma env_union_distinct: "distinct (map fst a) \<Longrightarrow> distinct (map fst (env_union a b))"
  unfolding env_union_def
proof (induction b arbitrary: a)
  case (Cons x b)
  then show ?case by (cases x) (simp add: distinct_update)
qed simp

lemma env_difference_distinct: "distinct (map fst a) \<Longrightarrow> distinct (map fst (env_difference a b))"
  unfolding env_difference_def
proof (induction b arbitrary: a)
  case (Cons x b)
  then show ?case by (cases x) (simp add: distinct_delete)
qed simp

lemma collect_filter_get:
  assumes "distinct (map fst m)"
  shows "hm_get (hm_collect (filter (\<lambda>(k, _). P k) m)) k = (if P k then hm_get m k else None)"
proof -
  have dist: "distinct (map fst (filter (\<lambda>(k, _). P k) m))" using assms by (simp add: distinct_map_filter)
  have "hm_get (filter (\<lambda>(k, _). P k) m) k = (if P k then hm_get m k else None)"
    by (induction m) auto
  then show ?thesis using hm_get_rev [OF dist] by (simp add: hm_collect_def hm_get_fold_insert split: option.splits)
qed

lemma collect_filter_keys: "k \<in> fst ` set (hm_collect (filter (\<lambda>(k, _). P k) m)) \<longleftrightarrow> k \<in> fst ` set m \<and> P k"
  by (auto simp: hm_collect_keys)

subsection \<open>What a wildcard matches\<close>

text \<open>
  A pattern is a list of literal characters and stars, where \<open>\*\<close> is a literal star. A star stands
  for any characters but a newline.
\<close>

datatype wild_token = Lit char | Star

fun wild_tokens :: "string \<Rightarrow> wild_token list" where
  "wild_tokens [] = []"
| "wild_tokens [c] = [if c = WILDCARD then Star else Lit c]"
| "wild_tokens (c # d # cs) =
     (if c = WILDCARD then Star # wild_tokens (d # cs)
      else if c = WILDCARD_ESCAPE \<and> d = WILDCARD then Lit WILDCARD # wild_tokens cs
      else Lit c # wild_tokens (d # cs))"

fun token_match :: "wild_token list \<Rightarrow> string \<Rightarrow> bool" where
  "token_match [] s \<longleftrightarrow> s = []"
| "token_match (Lit c # ts) s \<longleftrightarrow> (case s of x # xs \<Rightarrow> x = c \<and> token_match ts xs | [] \<Rightarrow> False)"
| "token_match (Star # ts) s \<longleftrightarrow>
     token_match ts s \<or> (case s of x # xs \<Rightarrow> x \<noteq> CHR 10 \<and> token_match (Star # ts) xs | [] \<Rightarrow> False)"

definition token_regex :: "(string \<Rightarrow> string) \<Rightarrow> wild_token list \<Rightarrow> string" where
  "token_regex escape ts = concat (map (\<lambda>t. case t of Lit c \<Rightarrow> escape [c] | Star \<Rightarrow> ''.*'') ts)"

text \<open>
  What the code relies on of \<open>regex\<close>: escaping works character by character and escapes the dot,
  and an alternative of such expressions between anchors matches what one of them matches. (An
  expression beyond the size limit of \<open>regex\<close> is refused; the patterns are taken to stay below it.)
\<close>

definition regex_spec :: "regex_engine \<Rightarrow> (string \<Rightarrow> string) \<Rightarrow> bool" where
  "regex_spec regex_new escape \<longleftrightarrow>
     (\<forall>a b. escape (a @ b) = escape a @ escape b) \<and> (\<forall>s. escape s \<noteq> ''.*'') \<and>
     (\<exists>r. regex_new (anchored_regex []) = Inr r) \<and>
     (\<forall>alts. alts \<noteq> [] \<longrightarrow> (\<exists>r. regex_new (anchored_regex (map (token_regex escape) alts)) = Inr r \<and>
        (\<forall>s. r s \<longleftrightarrow> (\<exists>a \<in> set alts. token_match a s))))"

lemma wild_tokens_plain: "WILDCARD \<notin> set s \<Longrightarrow> wild_tokens s = map Lit s"
  by (induction s rule: wild_tokens.induct) auto

lemma wild_tokens_star:
  "WILDCARD \<notin> set s \<Longrightarrow> wild_tokens (s @ WILDCARD # cs) =
     (if s \<noteq> [] \<and> last s = WILDCARD_ESCAPE then map Lit (butlast s) @ Lit WILDCARD # wild_tokens cs
      else map Lit s @ Star # wild_tokens cs)"
proof (induction s rule: wild_tokens.induct)
  case 1
  then show ?case by (cases cs) simp_all
next
  case (2 c)
  then show ?case by (cases cs) simp_all
next
  case (3 c d s)
  then show ?case by (cases "s") auto
qed

lemma token_regex_append: "token_regex escape (ts @ us) = token_regex escape ts @ token_regex escape us"
  by (simp add: token_regex_def)

lemma token_regex_lits:
  assumes "\<forall>a b. escape (a @ b) = escape a @ escape b"
  shows "token_regex escape (map Lit s) = escape s"
proof (induction s)
  case Nil
  have "escape [] = escape [] @ escape []" using assms [rule_format, of "[]" "[]"] by simp
  then show ?case by (simp add: token_regex_def)
next
  case (Cons c s)
  have "escape (c # s) = escape [c] @ escape s" using assms [rule_format, of "[c]" s] by simp
  with Cons show ?case by (simp add: token_regex_def)
qed

lemma wildcard_loop_tokens:
  assumes hom: "\<forall>a b. escape (a @ b) = escape a @ escape b" and dot: "\<forall>s. escape s \<noteq> ''.*''"
    and "pattern = pre @ mid @ cs" and "WILDCARD \<notin> set mid"
    and "pc = (if mid = [] then pc0 else Some (last mid))" and "pc0 = None \<or> pc0 = Some WILDCARD"
  shows "(case wildcard_loop escape pattern cs (length pre + length mid) (length pre) pc segs of
      (segs', idx) \<Rightarrow> concat (segs' @ [escape (slice pattern idx (length pattern))])) =
    concat segs @ token_regex escape (wild_tokens (mid @ cs))"
  using assms(3-)
proof (induction cs arbitrary: pre mid pc pc0 segs)
  case Nil
  then show ?case by (simp add: slice_def wild_tokens_plain token_regex_lits [OF hom])
next
  case (Cons c cs)
  show ?case
  proof (cases "c = WILDCARD")
    case False
    have "(case wildcard_loop escape pattern cs (length pre + length (mid @ [c])) (length pre) (Some c) segs of
      (segs', idx) \<Rightarrow> concat (segs' @ [escape (slice pattern idx (length pattern))])) =
      concat segs @ token_regex escape (wild_tokens ((mid @ [c]) @ cs))"
      by (rule Cons.IH [where ?pc0.0 = pc0]) (use Cons.prems False in auto)
    then show ?thesis using False by simp
  next
    case True
    define seg where "seg = (if pc = Some WILDCARD_ESCAPE
      then segs @ [escape (slice pattern (length pre) (length pre + length mid - 1) @ [WILDCARD])]
      else segs @ [escape (slice pattern (length pre) (length pre + length mid)), ''.*''])"
    have esc: "pc = Some WILDCARD_ESCAPE \<longleftrightarrow> mid \<noteq> [] \<and> last mid = WILDCARD_ESCAPE" using Cons.prems by auto
    have seg_eq: "concat seg = concat segs @ (if mid \<noteq> [] \<and> last mid = WILDCARD_ESCAPE
        then token_regex escape (map Lit (butlast mid) @ [Lit WILDCARD]) else token_regex escape (map Lit mid @ [Star]))"
    proof (cases "mid \<noteq> [] \<and> last mid = WILDCARD_ESCAPE")
      case True
      have "slice pattern (length pre) (length pre + length mid - 1) = butlast mid"
        using True Cons.prems(1) by (simp add: slice_def butlast_conv_take)
      moreover have "map Lit (butlast mid) @ [Lit WILDCARD] = map Lit (butlast mid @ [WILDCARD])" by simp
      ultimately show ?thesis using True esc by (simp add: seg_def token_regex_lits [OF hom] del: map_append)
    next
      case False
      have "slice pattern (length pre) (length pre + length mid) = mid" using Cons.prems(1) by (simp add: slice_def)
      then show ?thesis using False esc
        by (simp add: seg_def token_regex_append token_regex_lits [OF hom]) (auto simp: token_regex_def)
    qed
    have step: "wildcard_loop escape pattern (c # cs) (length pre + length mid) (length pre) pc segs =
        wildcard_loop escape pattern cs (length (pre @ mid @ [c]) + length ([]::string)) (length (pre @ mid @ [c])) (Some c) seg"
      using True dot by (simp add: seg_def Let_def REGEX_WILDCARD_SEGMENT_def)
    have "(case wildcard_loop escape pattern cs (length (pre @ mid @ [c]) + length ([]::string)) (length (pre @ mid @ [c])) (Some c) seg of
      (segs', idx) \<Rightarrow> concat (segs' @ [escape (slice pattern idx (length pattern))])) =
      concat seg @ token_regex escape (wild_tokens ([] @ cs))"
      by (rule Cons.IH [where ?pc0.0 = "Some WILDCARD"]) (use Cons.prems True in auto)
    then show ?thesis unfolding step
      using wild_tokens_star [OF Cons.prems(2), of cs] True
      by (simp add: seg_eq token_regex_append token_regex_def)
  qed
qed

lemma wildcard_to_regex_tokens:
  assumes "regex_spec regex_new escape"
  shows "wildcard_to_regex_pattern escape p = token_regex escape (wild_tokens p)"
  using wildcard_loop_tokens [of escape p "[]" "[]" p None None "[]"] assms
  by (simp add: wildcard_to_regex_pattern_def regex_spec_def)

subsection \<open>Selecting variables\<close>

definition included :: "string list \<Rightarrow> string \<Rightarrow> bool" where
  "included ps k \<longleftrightarrow> (\<exists>p \<in> set ps. \<not> starts_with p ''!'' \<and>
     token_match (wild_tokens (if starts_with p [WILDCARD_ESCAPE, CHR ''!''] then drop 1 p else p)) k)"

definition excluded :: "string list \<Rightarrow> string \<Rightarrow> bool" where
  "excluded ps k \<longleftrightarrow> (\<exists>rest. CHR ''!'' # rest \<in> set ps \<and> token_match (wild_tokens rest) k)"

definition included_tokens :: "string list \<Rightarrow> wild_token list list" where
  "included_tokens ps = map (\<lambda>p. wild_tokens (if starts_with p [WILDCARD_ESCAPE, CHR ''!''] then drop 1 p else p))
     (filter (\<lambda>p. \<not> starts_with p ''!'') ps)"

definition excluded_tokens :: "string list \<Rightarrow> wild_token list list" where
  "excluded_tokens ps = map (\<lambda>p. wild_tokens (drop 1 p)) (filter (\<lambda>p. starts_with p ''!'') ps)"

lemma included_iff: "included ps k \<longleftrightarrow> (\<exists>a \<in> set (included_tokens ps). token_match a k)"
  by (auto simp: included_def included_tokens_def)

lemma excluded_iff: "excluded ps k \<longleftrightarrow> (\<exists>a \<in> set (excluded_tokens ps). token_match a k)"
  by (force simp: excluded_def excluded_tokens_def prefix_def)

lemma split_patterns_tokens:
  assumes "regex_spec regex_new escape"
  shows "split_patterns escape ps =
    (map (token_regex escape) (included_tokens ps), map (token_regex escape) (excluded_tokens ps))"
proof (induction ps)
  case (Cons p ps)
  have strip: "strip_prefix ''!'' p = (if starts_with p ''!'' then Some (drop 1 p) else None)"
    by (cases p) (auto simp: strip_prefix_None)
  show ?case using Cons
    by (simp add: strip wildcard_to_regex_tokens [OF assms] included_tokens_def excluded_tokens_def)
qed (simp add: included_tokens_def excluded_tokens_def)

lemma anchored_regex_match:
  assumes "regex_spec regex_new escape"
  shows "\<exists>r. regex_new (anchored_regex (map (token_regex escape) alts)) = Inr r \<and>
    (\<forall>s. alts \<noteq> [] \<and> r s \<longleftrightarrow> (\<exists>a \<in> set alts. token_match a s))"
proof (cases "alts = []")
  case True
  then show ?thesis using assms by (simp add: regex_spec_def)
next
  case False
  have "\<forall>alts. alts \<noteq> [] \<longrightarrow> (\<exists>r. regex_new (anchored_regex (map (token_regex escape) alts)) = Inr r \<and>
        (\<forall>s. r s \<longleftrightarrow> (\<exists>a \<in> set alts. token_match a s)))"
    by (rule assms [unfolded regex_spec_def, THEN conjunct2, THEN conjunct2, THEN conjunct2])
  from this [rule_format, OF False] False show ?thesis by simp
qed

lemma wildcard_maps_get:
  assumes spec: "regex_spec regex_new escape" and env: "distinct (map fst env)"
  shows "\<exists>wm. wildcard_map_from_wildcards regex_new escape env ps = Inr wm \<and>
    (\<forall>k. hm_get (wm_inclusions wm) k = (if included ps k then hm_get env k else None)) \<and>
    (\<forall>k. k \<in> fst ` set (wm_exclusions wm) \<longleftrightarrow> k \<in> fst ` set env \<and> excluded ps k) \<and>
    distinct (map fst (wm_inclusions wm))"
proof -
  obtain i where i: "regex_new (anchored_regex (map (token_regex escape) (included_tokens ps))) = Inr i"
    "\<And>s. included_tokens ps \<noteq> [] \<and> i s \<longleftrightarrow> included ps s"
    using anchored_regex_match [OF spec, of "included_tokens ps"] unfolding included_iff by blast
  obtain e where e: "regex_new (anchored_regex (map (token_regex escape) (excluded_tokens ps))) = Inr e"
    "\<And>s. excluded_tokens ps \<noteq> [] \<and> e s \<longleftrightarrow> excluded ps s"
    using anchored_regex_match [OF spec, of "excluded_tokens ps"] unfolding excluded_iff by blast
  define wm where "wm = \<lparr>wm_inclusions = hm_collect (filter (\<lambda>(k, _). included ps k) env),
     wm_exclusions = hm_collect (filter (\<lambda>(k, _). excluded ps k) env)\<rparr>"
  have "wildcard_map_from_wildcards regex_new escape env ps = Inr wm"
  proof -
    have "(\<lambda>(k, _ :: string). included_tokens ps \<noteq> [] \<and> i k) = (\<lambda>(k, _). included ps k)"
      "(\<lambda>(k, _ :: string). excluded_tokens ps \<noteq> [] \<and> e k) = (\<lambda>(k, _). excluded ps k)"
      using i(2) e(2) by (simp_all only: fun_eq_iff split_paired_All prod.case simp_thms)
    then show ?thesis
      unfolding wildcard_map_from_wildcards_def split_patterns_tokens [OF spec] prod.case i(1) e(1) try_bind_simps
        wm_def map_is_Nil_conv by (simp only:)
  qed
  moreover have "\<forall>k. hm_get (wm_inclusions wm) k = (if included ps k then hm_get env k else None)"
    by (simp add: wm_def collect_filter_get [OF env])
  moreover have "\<forall>k. k \<in> fst ` set (wm_exclusions wm) \<longleftrightarrow> k \<in> fst ` set env \<and> excluded ps k"
    by (simp add: wm_def collect_filter_keys)
  moreover have "distinct (map fst (wm_inclusions wm))" by (simp add: wm_def distinct_collect)
  ultimately show ?thesis by blast
qed

lemma unresolved_get:
  assumes "regex_spec regex_new escape" and "distinct (map fst env)"
  shows "\<exists>wm. wildcard_map_from_wildcards_unresolved regex_new escape env ps = Inr wm \<and>
    (\<forall>k. hm_get (wm_inclusions wm) k = (if included ps k then hm_get env k else None)) \<and>
    (\<forall>k. k \<in> fst ` set (wm_exclusions wm) \<longleftrightarrow> k \<in> fst ` set env \<and> excluded ps k) \<and>
    distinct (map fst (wm_inclusions wm))"
  using wildcard_maps_get [OF assms, of ps]
  by (cases "ps = []") (simp_all add: wildcard_map_from_wildcards_unresolved_def included_def excluded_def)

lemma from_wildcards_get:
  assumes "regex_spec regex_new escape" and "distinct (map fst env)"
  shows "\<exists>m. from_wildcards regex_new escape env ps = Inr m \<and> distinct (map fst m) \<and>
    (\<forall>k. hm_get m k = (if included ps k \<and> \<not> excluded ps k then hm_get env k else None))"
proof (cases "ps = []")
  case False
  obtain wm where wm: "wildcard_map_from_wildcards regex_new escape env ps = Inr wm"
    "\<And>k. hm_get (wm_inclusions wm) k = (if included ps k then hm_get env k else None)"
    "\<And>k. k \<in> fst ` set (wm_exclusions wm) \<longleftrightarrow> k \<in> fst ` set env \<and> excluded ps k"
    "distinct (map fst (wm_inclusions wm))"
    using wildcard_maps_get [OF assms, of ps] by blast
  have "hm_get (wildcard_resolve wm) k = (if included ps k \<and> \<not> excluded ps k then hm_get env k else None)" for k
    using map_of_eq_None_iff [of env k] by (auto simp: wildcard_resolve_def env_difference_get wm(2,3))
  moreover have "distinct (map fst (wildcard_resolve wm))"
    unfolding wildcard_resolve_def by (rule env_difference_distinct [OF wm(4)])
  ultimately show ?thesis using False wm(1) by (simp add: from_wildcards_def)
qed (simp add: from_wildcards_def included_def)

lemma union_difference_get:
  assumes "distinct (map fst i)" and "distinct (map fst d)"
  shows "hm_get (env_difference (env_union (env_union [] i) d) x) k =
     (if k \<in> fst ` set x then None else case hm_get d k of Some v \<Rightarrow> Some v | None \<Rightarrow> hm_get i k)"
  by (simp add: env_difference_get env_union_get [OF assms(2)] env_union_get [OF assms(1)] split: option.splits)

definition task_vars :: "env_map \<Rightarrow> string list \<Rightarrow> string list \<Rightarrow> string \<rightharpoonup> string" where
  "task_vars env computed task_env k =
     (if (included task_env k \<or> included computed k \<and> \<not> excluded computed k) \<and> \<not> excluded task_env k
      then hm_get env k else None)"

lemma hashable_task_env_get:
  assumes spec: "regex_spec regex_new escape" and env: "distinct (map fst env)"
  shows "\<exists>dm. hashable_task_env regex_new escape env computed task_env = Inr dm \<and>
    map_of (dm_all dm) = task_vars env computed task_env \<and> distinct (map fst (dm_all dm))"
proof -
  obtain d where d: "from_wildcards regex_new escape env computed = Inr d" "distinct (map fst d)"
    "\<And>k. hm_get d k = (if included computed k \<and> \<not> excluded computed k then hm_get env k else None)"
    using from_wildcards_get [OF assms, of computed] by blast
  obtain wm where wm: "wildcard_map_from_wildcards_unresolved regex_new escape env task_env = Inr wm"
    "\<And>k. hm_get (wm_inclusions wm) k = (if included task_env k then hm_get env k else None)"
    "\<And>k. k \<in> fst ` set (wm_exclusions wm) \<longleftrightarrow> k \<in> fst ` set env \<and> excluded task_env k"
    "distinct (map fst (wm_inclusions wm))"
    using unresolved_get [OF assms, of task_env] by blast
  define m where "m = env_difference (env_union (env_union [] (wm_inclusions wm)) d) (wm_exclusions wm)"
  have "hm_get m k = task_vars env computed task_env k" for k
    unfolding m_def task_vars_def union_difference_get [OF wm(4) d(2)] wm(2,3) d(3)
    using map_of_eq_None_iff [of env k] by (auto split: option.splits)
  then have "map_of m = task_vars env computed task_env" by (simp add: fun_eq_iff)
  moreover have "distinct (map fst m)"
    unfolding m_def by (intro env_difference_distinct env_union_distinct) simp
  ultimately show ?thesis by (simp add: hashable_task_env_def d(1) wm(1) m_def [symmetric])
qed

text \<open>
  the variables that go into the hash of a task. A variable is one of them, with its value at the
  start of the run, exactly when the task's own patterns do not exclude it and either they include
  it or the patterns of the framework do, without excluding it: exclusions of the user have primacy
  over what is inferred. A pattern matches a name when its literal characters and stars do.
\<close>

theorem hashable_task_env_selects:
  assumes spec: "regex_spec regex_new escape" and env: "distinct (map fst env)"
  shows "\<exists>dm. hashable_task_env regex_new escape env computed task_env = Inr dm \<and>
    (\<forall>k. hm_get (dm_all dm) k =
       (if (included task_env k \<or> included computed k \<and> \<not> excluded computed k) \<and> \<not> excluded task_env k
        then hm_get env k else None)) \<and> distinct (map fst (dm_all dm))"
  using hashable_task_env_get [OF assms, of computed task_env] by (auto simp: task_vars_def)

subsection \<open>An engine for these expressions\<close>

definition meta_chars :: "char list" where
  "meta_chars = [CHR 92] @ ''.+*?()|[]{}^$#&-~''"

definition sample_escape :: "string \<Rightarrow> string" where
  "sample_escape s = concat (map (\<lambda>c. if c \<in> set meta_chars then [CHR 92, c] else [c]) s)"

fun add_token :: "wild_token \<Rightarrow> wild_token list list \<Rightarrow> wild_token list list" where
  "add_token t [] = [[t]]"
| "add_token t (a # as) = (t # a) # as"

fun decode_regex :: "string \<Rightarrow> wild_token list list" where
  "decode_regex [] = [[]]"
| "decode_regex [c] = (if c = CHR ''|'' then [[], []] else [[Lit c]])"
| "decode_regex (c # d # cs) =
     (if c = CHR 92 then add_token (Lit d) (decode_regex cs)
      else if c = CHR ''.'' \<and> d = WILDCARD then add_token Star (decode_regex cs)
      else if c = CHR ''|'' then [] # decode_regex (d # cs)
      else add_token (Lit c) (decode_regex (d # cs)))"

definition sample_regex :: regex_engine where
  "sample_regex p = Inr (\<lambda>s. list_ex (\<lambda>a. token_match a s) (decode_regex (take (length p - 4) (drop 2 p))))"

lemma decode_not_Nil [simp]: "decode_regex s \<noteq> []"
  by (induction s rule: decode_regex.induct) (auto elim: add_token.elims simp: neq_Nil_conv)

lemma sample_escape_one: "sample_escape [c] = (if c \<in> set meta_chars then [CHR 92, c] else [c])"
  by (simp add: sample_escape_def)

lemma decode_lit: "decode_regex (sample_escape [c] @ s) = add_token (Lit c) (decode_regex s)"
proof (cases "c \<in> set meta_chars")
  case True
  then show ?thesis by (simp add: sample_escape_one)
next
  case False
  then have "c \<noteq> CHR 92" "c \<noteq> CHR ''.''" "c \<noteq> CHR ''|''" by (auto simp: meta_chars_def)
  then show ?thesis using False by (cases s) (simp_all add: sample_escape_one)
qed

lemma decode_token_regex:
  "decode_regex (token_regex sample_escape ts @ s) = (case decode_regex s of a # as \<Rightarrow> (ts @ a) # as | [] \<Rightarrow> [])"
proof (induction ts)
  case Nil
  then show ?case by (simp add: token_regex_def split: list.splits)
next
  case (Cons t ts)
  have "token_regex sample_escape (t # ts) @ s =
      (case t of Lit c \<Rightarrow> sample_escape [c] | Star \<Rightarrow> ''.*'') @ token_regex sample_escape ts @ s"
    by (simp add: token_regex_def)
  then show ?case using Cons by (cases t) (simp_all add: decode_lit split: list.splits)
qed

lemma decode_bar: "decode_regex (CHR ''|'' # s) = [] # decode_regex s"
  by (cases s) simp_all

lemma decode_alternatives:
  "alts \<noteq> [] \<Longrightarrow> decode_regex (join_with ''|'' (map (token_regex sample_escape) alts)) = alts"
proof (induction alts rule: induct_list012)
  case (2 a)
  then show ?case using decode_token_regex [of a "[]"] by simp
next
  case (3 a b as)
  then show ?case by (simp add: decode_token_regex decode_bar)
qed simp

lemma sample_regex_spec: "regex_spec sample_regex sample_escape"
proof -
  have "sample_escape s \<noteq> ''.*''" for s
    by (cases s) (auto simp: sample_escape_def meta_chars_def)
  moreover have "\<exists>r. sample_regex (anchored_regex (map (token_regex sample_escape) alts)) = Inr r \<and>
        (\<forall>s. r s \<longleftrightarrow> (\<exists>a \<in> set alts. token_match a s))" if "alts \<noteq> []" for alts
    using decode_alternatives [OF that] by (simp add: sample_regex_def anchored_regex_def list_ex_iff)
  moreover have "sample_escape (a @ b) = sample_escape a @ sample_escape b" for a b
    by (simp add: sample_escape_def)
  ultimately show ?thesis by (simp add: regex_spec_def sample_regex_def)
qed

definition sample_env :: env_map where
  "sample_env = [(''FOO'', ''1''), (''FOOD'', ''2''), (''NEXT_A'', ''3''), (''HOME'', ''4'')]"

theorem hashable_task_env_selects_witness:
  "\<exists>dm. hashable_task_env sample_regex sample_escape sample_env [''NEXT_*''] [''FOO*'', ''!FOOD''] = Inr dm \<and>
     map (hm_get (dm_all dm)) [''FOO'', ''FOOD'', ''NEXT_A'', ''HOME''] = [Some ''1'', None, Some ''3'', None]"
proof -
  have "distinct (map fst sample_env)" by (simp add: sample_env_def)
  from hashable_task_env_selects [OF sample_regex_spec this, of "[''NEXT_*'']" "[''FOO*'', ''!FOOD'']"]
  obtain dm where dm: "hashable_task_env sample_regex sample_escape sample_env [''NEXT_*''] [''FOO*'', ''!FOOD''] = Inr dm"
    "\<forall>k. hm_get (dm_all dm) k =
       (if (included [''FOO*'', ''!FOOD''] k \<or> included [''NEXT_*''] k \<and> \<not> excluded [''NEXT_*''] k) \<and>
          \<not> excluded [''FOO*'', ''!FOOD''] k then hm_get sample_env k else None)"
    by (elim exE conjE)
  have "map (hm_get (dm_all dm)) [''FOO'', ''FOOD'', ''NEXT_A'', ''HOME''] = [Some ''1'', None, Some ''3'', None]"
    by (simp add: dm(2) included_def excluded_def sample_env_def)
  with dm(1) show ?thesis by (intro exI conjI)
qed

subsection \<open>Hash inputs\<close>

text \<open>
  The sorted pairs do not depend on the order of the map, and they tell maps apart: names of
  variables do not contain an equals sign.
\<close>

lemma to_hashable_order: "distinct (map fst m) \<Longrightarrow> distinct (map fst m') \<Longrightarrow> map_of m = map_of m' \<Longrightarrow> to_hashable m = to_hashable m'"
proof -
  assume "distinct (map fst m)" "distinct (map fst m')" "map_of m = map_of m'"
  then have "mset m = mset m'"
    using map_of_inject_set [of m m'] set_eq_iff_mset_eq_distinct [of m m'] by (simp add: distinct_map)
  then show ?thesis unfolding to_hashable_def by (intro properties_for_sort) (simp_all add: mset_map)
qed

lemma to_hashable_inj:
  assumes "to_hashable m = to_hashable m'" and "\<forall>k \<in> fst ` set m \<union> fst ` set m'. CHR ''='' \<notin> set k"
  shows "set m = set m'"
proof -
  let ?f = "\<lambda>(k, v). k @ ''='' @ v"
  have "?f ` set m = ?f ` set m'" using arg_cong [OF assms(1), of set] by (simp add: to_hashable_def)
  moreover have "inj_on ?f (set m \<union> set m')"
  proof (rule inj_onI, clarify)
    fix k v k' v'
    assume "(k, v) \<in> set m \<union> set m'" "(k', v') \<in> set m \<union> set m'" and eq: "k @ ''='' @ v = k' @ ''='' @ v'"
    then have "CHR ''='' \<notin> set k" "CHR ''='' \<notin> set k'" using assms(2) by force+
    with delim_split_unique [of k "CHR ''=''" v k' v'] eq show "k = k' \<and> v = v'" by simp
  qed
  ultimately show ?thesis by (metis inj_on_image_eq_iff sup_ge1 sup_ge2)
qed

text \<open>
  A second star is not left out, although the code checks for it: the segment before it is the
  empty literal one.
\<close>

lemma adjacent_wildcards: "wildcard_to_regex_pattern sample_escape ''**'' = ''.*.*''"
  by code_simp

end
