(* ===== verification/Spanned.thy ===== *)
theory Spanned
  imports Prelude
begin

text \<open>
  The crate \<open>nrzrepo-errors\<close>: values that carry the place of the configuration file they were
  read from. A \<open>Range<usize>\<close> is a pair of offsets, an \<open>Arc<str>\<close> a string, and
  \<open>NamedSource\<close> the pair of a name and a text.
\<close>

record 'a spanned =
  sp_value :: 'a
  sp_range :: "(nat \<times> nat) option"
  sp_path :: "string option"
  sp_text :: "string option"

type_synonym span = "unit spanned"
type_synonym source_label = "(nat \<times> nat) option \<times> (string \<times> string)"

definition spanned_new :: "'a \<Rightarrow> 'a spanned" where
  "spanned_new t = \<lparr>sp_value = t, sp_range = None, sp_path = None, sp_text = None\<rparr>"

definition with_text :: "'a spanned \<Rightarrow> string \<Rightarrow> 'a spanned" where
  "with_text s t = s\<lparr>sp_text := Some t\<rparr>"

definition with_range :: "'a spanned \<Rightarrow> nat \<times> nat \<Rightarrow> 'a spanned" where
  "with_range s r = s\<lparr>sp_range := Some r\<rparr>"

definition with_path :: "'a spanned \<Rightarrow> string \<Rightarrow> 'a spanned" where
  "with_path s p = s\<lparr>sp_path := Some p\<rparr>"

definition sp_split :: "'a spanned \<Rightarrow> 'a \<times> span" where
  "sp_split s =
     (sp_value s,
      \<lparr>sp_value = (), sp_range = sp_range s, sp_path = sp_path s, sp_text = sp_text s\<rparr>)"

definition sp_to :: "'a spanned \<Rightarrow> 'b \<Rightarrow> 'b spanned" where
  "sp_to s v = \<lparr>sp_value = v, sp_range = sp_range s, sp_path = sp_path s, sp_text = sp_text s\<rparr>"

definition sp_map :: "('a \<Rightarrow> 'b) \<Rightarrow> 'a spanned \<Rightarrow> 'b spanned" where
  "sp_map f s =
     \<lparr>sp_value = f (sp_value s), sp_range = sp_range s, sp_path = sp_path s, sp_text = sp_text s\<rparr>"

definition span_and_text :: "'a spanned \<Rightarrow> string \<Rightarrow> source_label" where
  "span_and_text s default_path =
     (let path = (case sp_path s of None \<Rightarrow> default_path | Some p \<Rightarrow> p)
      in case (sp_range s, sp_text s) of
           (Some r, Some t) \<Rightarrow> (Some r, (path, t))
         | _ \<Rightarrow> (None, (path, [])))"

definition add_text :: "'a spanned \<Rightarrow> string \<Rightarrow> 'a spanned" where
  "add_text s t = s\<lparr>sp_text := Some t\<rparr>"

definition add_path :: "'a spanned \<Rightarrow> string \<Rightarrow> 'a spanned" where
  "add_path s p = s\<lparr>sp_path := Some p\<rparr>"

definition add_text_option :: "'a spanned option \<Rightarrow> string \<Rightarrow> 'a spanned option" where
  "add_text_option o' t = map_option (\<lambda>s. add_text s t) o'"

definition add_path_option :: "'a spanned option \<Rightarrow> string \<Rightarrow> 'a spanned option" where
  "add_path_option o' p = map_option (\<lambda>s. add_path s p) o'"

definition add_text_vec :: "'a spanned list \<Rightarrow> string \<Rightarrow> 'a spanned list" where
  "add_text_vec xs t = map (\<lambda>s. add_text s t) xs"

definition add_path_vec :: "'a spanned list \<Rightarrow> string \<Rightarrow> 'a spanned list" where
  "add_path_vec xs p = map (\<lambda>s. add_path s p) xs"

lemmas spanned_defs =
  spanned_new_def with_text_def with_range_def with_path_def sp_split_def sp_to_def sp_map_def
  add_text_def add_path_def

lemma sp_value_simps [simp]:
  "sp_value (sp_to s v) = v"
  "sp_value (sp_map f s) = f (sp_value s)"
  "sp_value (spanned_new v) = v"
  "fst (sp_split s) = sp_value s"
  by (simp_all add: spanned_defs)

lemma sp_to_split [simp]: "sp_to (snd (sp_split s)) v = sp_to s v"
  by (simp add: spanned_defs)

lemma sp_split_roundtrip: "sp_to (snd (sp_split s)) (fst (sp_split s)) = s"
  by (simp add: spanned_defs)

lemma add_text_vec_values: "map sp_value (add_text_vec xs t) = map sp_value xs"
  by (simp add: add_text_vec_def add_text_def)

lemma add_path_vec_values: "map sp_value (add_path_vec xs t) = map sp_value xs"
  by (simp add: add_path_vec_def add_path_def)

end
