(* ===== verification/Task_Id.thy ===== *)
theory Task_Id
  imports Spanned "HOL-Library.Option_ord" "HOL-Library.Product_Lexorder"
begin

text \<open>
  Names of packages and tasks: \<open>PackageName\<close> and \<open>PackageNode\<close> of
  \<open>nrzrepo-repository/src/package_graph/mod.rs\<close>, \<open>TaskId\<close> and \<open>TaskName\<close> of
  \<open>nrzrepo-lib/src/run/task_id.rs\<close>. \<open>Cow\<close> only records who owns a string, so \<open>static_cow\<close>,
  \<open>shorten_cow\<close>, \<open>into_owned\<close> and \<open>as_borrowed\<close> are the identity here.
\<close>

definition ROOT_PKG_NAME :: string where
  "ROOT_PKG_NAME = ''//''"

abbreviation TASK_DELIMITER :: char where
  "TASK_DELIMITER \<equiv> CHR ''#''"

datatype package_name = RootPkg | OtherPkg string

datatype package_node = RootNode | WorkspaceNode package_name

definition package_name_as_str :: "package_name \<Rightarrow> string" where
  "package_name_as_str p = (case p of RootPkg \<Rightarrow> ROOT_PKG_NAME | OtherPkg n \<Rightarrow> n)"

definition package_name_from :: "string \<Rightarrow> package_name" where
  "package_name_from s = (if s = ''//'' then RootPkg else OtherPkg s)"

definition as_package_name :: "package_node \<Rightarrow> package_name" where
  "as_package_name n = (case n of WorkspaceNode p \<Rightarrow> p | RootNode \<Rightarrow> RootPkg)"

definition package_node_display :: "package_node \<Rightarrow> string" where
  "package_node_display n =
     (case n of RootNode \<Rightarrow> ''___ROOT___'' | WorkspaceNode p \<Rightarrow> package_name_as_str p)"

datatype task_id = TaskId (tid_package: string) (tid_task: string)

datatype task_name = TaskName (tn_package: "string option") (tn_task: string)

datatype task_id_error = TaskIdError string

definition task_name_of_id :: "task_id \<Rightarrow> task_name" where
  "task_name_of_id t = TaskName (Some (tid_package t)) (tid_task t)"

definition task_id_display :: "task_id \<Rightarrow> string" where
  "task_id_display t = tid_package t @ [TASK_DELIMITER] @ tid_task t"

definition task_id_try_from :: "string \<Rightarrow> (task_id_error, task_id) result" where
  "task_id_try_from v =
     (case split_once TASK_DELIMITER v of
        None \<Rightarrow> Inl (TaskIdError v)
      | Some (package, task) \<Rightarrow>
          if package = [] then Inl (TaskIdError v) else Inr (TaskId package task))"

definition task_id_new :: "string \<Rightarrow> string \<Rightarrow> task_id" where
  "task_id_new package task =
     (case task_id_try_from task of Inr t \<Rightarrow> t | Inl _ \<Rightarrow> TaskId package task)"

definition task_name_from :: "string \<Rightarrow> task_name" where
  "task_name_from v =
     (case split_once TASK_DELIMITER v of
        Some (package, task) \<Rightarrow> TaskName (Some package) task
      | None \<Rightarrow> TaskName None v)"

definition task_name_display :: "task_name \<Rightarrow> string" where
  "task_name_display n =
     (case tn_package n of
        Some package \<Rightarrow> package @ [TASK_DELIMITER] @ tn_task n
      | None \<Rightarrow> tn_task n)"

definition task_name_task_id :: "task_name \<Rightarrow> task_id option" where
  "task_name_task_id n = map_option (\<lambda>p. TaskId p (tn_task n)) (tn_package n)"

definition task_id_from_graph :: "package_name \<Rightarrow> task_name \<Rightarrow> task_id" where
  "task_id_from_graph workspace n =
     (case task_name_task_id n of
        None \<Rightarrow>
          TaskId (case workspace of RootPkg \<Rightarrow> ROOT_PKG_NAME | OtherPkg w \<Rightarrow> w) (tn_task n)
      | Some i \<Rightarrow> i)"

definition to_workspace_name :: "task_id \<Rightarrow> package_name" where
  "to_workspace_name t =
     (if tid_package t = ROOT_PKG_NAME then RootPkg else OtherPkg (tid_package t))"

definition as_non_workspace_task_name :: "task_id \<Rightarrow> task_name" where
  "as_non_workspace_task_name t = TaskName None (tid_task t)"

definition as_task_name :: "task_id \<Rightarrow> task_name" where
  "as_task_name t = TaskName (Some (tid_package t)) (tid_task t)"

definition into_non_workspace_task :: "task_name \<Rightarrow> task_name" where
  "into_non_workspace_task n = TaskName None (tn_task n)"

definition into_root_task :: "task_name \<Rightarrow> task_name" where
  "into_root_task n = TaskName (Some ROOT_PKG_NAME) (tn_task n)"

definition is_package_task :: "task_name \<Rightarrow> bool" where
  "is_package_task n = (tn_package n \<noteq> None)"

definition in_workspace :: "task_name \<Rightarrow> string \<Rightarrow> bool" where
  "in_workspace n workspace =
     (case task_name_task_id n of None \<Rightarrow> True | Some t \<Rightarrow> tid_package t = workspace)"

text \<open>The derived \<open>Ord\<close> of \<open>TaskName\<close> and \<open>TaskId\<close>: fields in order, \<open>None\<close> first.\<close>

instantiation task_name :: linorder
begin

definition less_eq_task_name :: "task_name \<Rightarrow> task_name \<Rightarrow> bool" where
  "less_eq_task_name a b = ((tn_package a, tn_task a) \<le> (tn_package b, tn_task b))"

definition less_task_name :: "task_name \<Rightarrow> task_name \<Rightarrow> bool" where
  "less_task_name a b = ((tn_package a, tn_task a) < (tn_package b, tn_task b))"

instance
  by standard
    (auto simp: less_eq_task_name_def less_task_name_def less_le_not_le intro: task_name.expand)

end

instantiation task_id :: linorder
begin

definition less_eq_task_id :: "task_id \<Rightarrow> task_id \<Rightarrow> bool" where
  "less_eq_task_id a b = ((tid_package a, tid_task a) \<le> (tid_package b, tid_task b))"

definition less_task_id :: "task_id \<Rightarrow> task_id \<Rightarrow> bool" where
  "less_task_id a b = ((tid_package a, tid_task a) < (tid_package b, tid_task b))"

instance
  by standard
    (auto simp: less_eq_task_id_def less_task_id_def less_le_not_le intro: task_id.expand)

end

lemma package_name_roundtrip [simp]: "package_name_from (package_name_as_str p) = p \<longleftrightarrow> p \<noteq> OtherPkg ''//''"
  by (cases p) (auto simp: package_name_from_def package_name_as_str_def ROOT_PKG_NAME_def)

lemma package_name_as_str_from [simp]: "package_name_as_str (package_name_from s) = s"
  by (simp add: package_name_from_def package_name_as_str_def ROOT_PKG_NAME_def)

lemma to_workspace_name_eq: "to_workspace_name t = package_name_from (tid_package t)"
  by (simp add: to_workspace_name_def package_name_from_def ROOT_PKG_NAME_def)

lemma task_id_try_from_display:
  "tid_package t \<noteq> [] \<Longrightarrow> TASK_DELIMITER \<notin> set (tid_package t) \<Longrightarrow>
     task_id_try_from (task_id_display t) = Inr t"
  by (cases t) (simp add: task_id_try_from_def task_id_display_def)

lemma task_id_try_from_Inr:
  "task_id_try_from s = Inr t \<Longrightarrow>
     s = task_id_display t \<and> tid_package t \<noteq> [] \<and> TASK_DELIMITER \<notin> set (tid_package t)"
  by (auto simp: task_id_try_from_def task_id_display_def split_once_Some
        split: option.splits if_splits)

lemma task_id_new_unqualified:
  "TASK_DELIMITER \<notin> set task \<Longrightarrow> task_id_new package task = TaskId package task"
  by (simp add: task_id_new_def task_id_try_from_def)

lemma task_name_display_from [simp]: "task_name_display (task_name_from s) = s"
  by (auto simp: task_name_from_def task_name_display_def split_once_Some split: option.splits)

lemma task_name_from_display:
  "(case tn_package n of None \<Rightarrow> TASK_DELIMITER \<notin> set (tn_task n)
    | Some p \<Rightarrow> TASK_DELIMITER \<notin> set p) \<Longrightarrow> task_name_from (task_name_display n) = n"
  by (cases n) (auto simp: task_name_from_def task_name_display_def split: option.splits)

lemma task_name_from_unambiguous:
  "task_name_from s = n \<Longrightarrow>
     (case tn_package n of None \<Rightarrow> TASK_DELIMITER \<notin> set (tn_task n)
      | Some p \<Rightarrow> TASK_DELIMITER \<notin> set p)"
  by (auto simp: task_name_from_def split_once_Some split_once_None split: option.splits)

text \<open>
  a string parses to a task id exactly when it is the printed form of that id, whose package
  part is not empty and holds no delimiter (the task part may hold delimiters); every other
  string is refused with the string itself in the error.
\<close>

theorem task_id_parse_print:
  "(task_id_try_from s = Inr t \<longleftrightarrow>
      s = task_id_display t \<and> tid_package t \<noteq> [] \<and> TASK_DELIMITER \<notin> set (tid_package t)) \<and>
   (task_id_try_from s = Inl e \<longleftrightarrow>
      e = TaskIdError s \<and> s \<in> {u. TASK_DELIMITER \<notin> set u} \<union> range ((#) TASK_DELIMITER))"
proof
  show "task_id_try_from s = Inr t \<longleftrightarrow>
      s = task_id_display t \<and> tid_package t \<noteq> [] \<and> TASK_DELIMITER \<notin> set (tid_package t)"
    using task_id_try_from_display task_id_try_from_Inr by blast
  show "task_id_try_from s = Inl e \<longleftrightarrow>
      e = TaskIdError s \<and> s \<in> {u. TASK_DELIMITER \<notin> set u} \<union> range ((#) TASK_DELIMITER)"
    by (cases "split_once TASK_DELIMITER s")
      (auto simp: task_id_try_from_def split_once_Some split_once_None append_eq_Cons_conv
        split: if_splits)
qed

text \<open>
  printing a parsed task name gives back the text it was read from, and parsing the printed
  form of a name gives the name back exactly when the delimiter occurs in no part before the one
  that separates package and task.
\<close>

theorem task_name_parse_print:
  "task_name_display (task_name_from s) = s \<and>
   (task_name_from (task_name_display n) = n \<longleftrightarrow>
      (case tn_package n of
         None \<Rightarrow> TASK_DELIMITER \<notin> set (tn_task n)
       | Some p \<Rightarrow> TASK_DELIMITER \<notin> set p))"
  using task_name_from_display [of n] task_name_from_unambiguous [of "task_name_display n" n]
  by (intro conjI task_name_display_from) blast

end
