(* ===== verification/Nrz_Json.thy ===== *)
theory Nrz_Json
  imports Task_Id
begin

text \<open>
  Task definitions and \<open>nrz.json\<close>: \<open>nrzrepo-lib/src/nrz_json/mod.rs\<close> (merging raw
  definitions, checking them, validating a file) and \<open>nrzrepo-lib/src/task_graph/mod.rs\<close> (the
  checked \<open>TaskDefinition\<close> and its output globs). \<open>UnescapedString\<close> is a wrapper of
  \<open>String\<close>. Paths are Unix paths. Parsing the JSON text is left to the parser library.
\<close>

datatype output_logs_mode = LogFull | LogNone | LogHashOnly | LogNewOnly | LogErrorsOnly

datatype env_mode = Loose | Strict

datatype ui_mode = Tui | StreamUI | WebUI

definition use_tui :: "ui_mode \<Rightarrow> bool" where
  "use_tui m = (m = Tui)"

definition has_sender :: "ui_mode \<Rightarrow> bool" where
  "has_sender m = (m = Tui \<or> m = WebUI)"

datatype config_error =
    NoNrzJSON
  | AbsolutePathInConfig string source_label
  | InteractiveNoCacheable source_label
  | InterruptibleButNotPersistent source_label
  | InvalidDependsOnValue string source_label
  | InvalidEnvPrefix string string source_label
  | PipelineField source_label
  | UnnecessaryPackageTaskSyntax string string source_label
  | ExtendFromNonRoot source_label
  | NoExtends source_label
  | IoError string
  | InvalidNrzJsonLoad package_name
  | PackageTaskInSinglePackageMode string source_label
  | OtherConfigError string

record task_outputs =
  inclusions :: "string list"
  exclusions :: "string list"

record raw_task_definition =
  rt_cache :: "bool spanned option"
  rt_depends_on :: "string spanned list spanned option"
  rt_env :: "string spanned list option"
  rt_inputs :: "string spanned list option"
  rt_pass_through_env :: "string spanned list option"
  rt_persistent :: "bool spanned option"
  rt_interruptible :: "bool spanned option"
  rt_outputs :: "string spanned list option"
  rt_output_logs :: "output_logs_mode spanned option"
  rt_interactive :: "bool spanned option"
  rt_env_mode :: "env_mode option"
  rt_siblings :: "string spanned list option"

definition raw_default :: raw_task_definition where
  "raw_default = \<lparr>rt_cache = None, rt_depends_on = None, rt_env = None, rt_inputs = None,
     rt_pass_through_env = None, rt_persistent = None, rt_interruptible = None, rt_outputs = None,
     rt_output_logs = None, rt_interactive = None, rt_env_mode = None, rt_siblings = None\<rparr>"

record task_definition =
  td_outputs :: task_outputs
  td_cache :: bool
  td_env :: "string list"
  td_pass_through_env :: "string list option"
  td_topological_dependencies :: "task_name spanned list"
  td_task_dependencies :: "task_name spanned list"
  td_inputs :: "string list"
  td_output_logs :: output_logs_mode
  td_persistent :: bool
  td_interruptible :: bool
  td_interactive :: bool
  td_env_mode :: "env_mode option"
  td_siblings :: "task_name spanned list option"

definition task_definition_default :: task_definition where
  "task_definition_default = \<lparr>td_outputs = \<lparr>inclusions = [], exclusions = []\<rparr>, td_cache = True,
     td_env = [], td_pass_through_env = None, td_topological_dependencies = [],
     td_task_dependencies = [], td_inputs = [], td_output_logs = LogFull, td_persistent = False,
     td_interruptible = False, td_interactive = False, td_env_mode = None, td_siblings = None\<rparr>"

subsection \<open>Merging raw definitions\<close>

text \<open>The macro \<open>set_field!\<close>.\<close>

definition set_field :: "'a option \<Rightarrow> 'a option \<Rightarrow> 'a option" where
  "set_field this other = (case other of Some f \<Rightarrow> Some f | None \<Rightarrow> this)"

definition raw_merge :: "raw_task_definition \<Rightarrow> raw_task_definition \<Rightarrow> raw_task_definition" where
  "raw_merge this other =
     (let other_has_range = (case rt_cache other of Some c \<Rightarrow> sp_range c \<noteq> None | None \<Rightarrow> False);
          self_does_not_have_range =
            (case rt_cache this of Some c \<Rightarrow> sp_range c = None | None \<Rightarrow> False)
      in \<lparr>rt_cache =
            (if rt_cache other \<noteq> None \<or> (other_has_range \<and> self_does_not_have_range)
             then rt_cache other else rt_cache this),
          rt_depends_on = set_field (rt_depends_on this) (rt_depends_on other),
          rt_env = set_field (rt_env this) (rt_env other),
          rt_inputs = set_field (rt_inputs this) (rt_inputs other),
          rt_pass_through_env = set_field (rt_pass_through_env this) (rt_pass_through_env other),
          rt_persistent = set_field (rt_persistent this) (rt_persistent other),
          rt_interruptible = set_field (rt_interruptible this) (rt_interruptible other),
          rt_outputs = set_field (rt_outputs this) (rt_outputs other),
          rt_output_logs = set_field (rt_output_logs this) (rt_output_logs other),
          rt_interactive = set_field (rt_interactive this) (rt_interactive other),
          rt_env_mode = set_field (rt_env_mode this) (rt_env_mode other),
          rt_siblings = set_field (rt_siblings this) (rt_siblings other)\<rparr>)"

definition raw_from_iter :: "raw_task_definition list \<Rightarrow> raw_task_definition" where
  "raw_from_iter defs = foldl raw_merge raw_default defs"

subsection \<open>Checked definitions\<close>

definition is_absolute :: "string \<Rightarrow> bool" where
  "is_absolute p = starts_with p ''/''"

fun task_outputs_loop ::
  "string spanned list \<Rightarrow> string list \<Rightarrow> string list \<Rightarrow> (config_error, string list \<times> string list) result"
where
  "task_outputs_loop [] inc exc = Inr (inc, exc)"
| "task_outputs_loop (glob # globs) inc exc =
     (case strip_prefix ''!'' (sp_value glob) of
        Some stripped \<Rightarrow>
          if is_absolute stripped
          then Inl (AbsolutePathInConfig ''outputs'' (span_and_text glob ''nrz.json''))
          else task_outputs_loop globs inc (exc @ [stripped])
      | None \<Rightarrow>
          if is_absolute (sp_value glob)
          then Inl (AbsolutePathInConfig ''outputs'' (span_and_text glob ''nrz.json''))
          else task_outputs_loop globs (inc @ [sp_value glob]) exc)"

definition task_outputs_try_from :: "string spanned list \<Rightarrow> (config_error, task_outputs) result" where
  "task_outputs_try_from outputs =
     try_bind (task_outputs_loop outputs [] [])
       (\<lambda>(inc, exc). Inr \<lparr>inclusions = sort inc, exclusions = sort exc\<rparr>)"

definition ENV_PIPELINE_DELIMITER :: string where
  "ENV_PIPELINE_DELIMITER = ''$''"

definition TOPOLOGICAL_PIPELINE_DELIMITER :: string where
  "TOPOLOGICAL_PIPELINE_DELIMITER = ''^''"

text \<open>The set the variables are gathered into is the list of what was inserted.\<close>

fun gather_env_vars ::
  "string spanned list \<Rightarrow> string \<Rightarrow> string list \<Rightarrow> (config_error, string list) result"
where
  "gather_env_vars [] key into' = Inr into'"
| "gather_env_vars (value # vars) key into' =
     (if starts_with (sp_value value) ENV_PIPELINE_DELIMITER
      then Inl (InvalidEnvPrefix key (sp_value value) (span_and_text value ''nrz.json''))
      else gather_env_vars vars key (into' @ [sp_value value]))"

fun depends_on_loop ::
  "string spanned list \<Rightarrow> task_name spanned list \<Rightarrow> task_name spanned list \<Rightarrow>
   (config_error, task_name spanned list \<times> task_name spanned list) result"
where
  "depends_on_loop [] topo task = Inr (topo, task)"
| "depends_on_loop (d # ds) topo task =
     (case strip_prefix ENV_PIPELINE_DELIMITER (sp_value d) of
        Some _ \<Rightarrow> Inl (InvalidDependsOnValue ''dependsOn'' (span_and_text d ''nrz.json''))
      | None \<Rightarrow>
         (case strip_prefix TOPOLOGICAL_PIPELINE_DELIMITER (sp_value d) of
            Some topo_dependency \<Rightarrow>
              depends_on_loop ds (topo @ [sp_to d (task_name_from topo_dependency)]) task
          | None \<Rightarrow> depends_on_loop ds topo (task @ [sp_to d (task_name_from (sp_value d))])))"

definition unwrap_or :: "'a \<Rightarrow> 'a option \<Rightarrow> 'a" where
  "unwrap_or d o' = (case o' of Some x \<Rightarrow> x | None \<Rightarrow> d)"

definition check_input :: "string spanned \<Rightarrow> (config_error, string) result" where
  "check_input input =
     (if is_absolute (sp_value input)
      then Inl (AbsolutePathInConfig ''inputs'' (span_and_text input ''nrz.json''))
      else Inr (sp_value input))"

text \<open>\<open>Option<Result>::transpose\<close> around gathering and sorting.\<close>

definition gather_sorted ::
  "string \<Rightarrow> string spanned list option \<Rightarrow> (config_error, string list option) result"
where
  "gather_sorted key vars =
     (case vars of
        None \<Rightarrow> Inr None
      | Some env \<Rightarrow>
          try_bind (gather_env_vars env key []) (\<lambda>vs. Inr (Some (sort (remdups vs)))))"

text \<open>
  The part of \<open>TryFrom<RawTaskDefinition> for TaskDefinition\<close> after the check of
  \<open>interactive\<close>.
\<close>

definition task_definition_rest ::
  "raw_task_definition \<Rightarrow> task_outputs \<Rightarrow> bool \<Rightarrow> bool \<Rightarrow> bool \<Rightarrow> bool spanned \<Rightarrow>
   (config_error, task_definition) result"
where
  "task_definition_rest raw outputs cache interactive persistent interruptible =
     (if sp_value interruptible \<and> \<not> persistent
      then Inl (InterruptibleButNotPersistent (span_and_text interruptible ''nrz.json''))
      else
        try_bind
          (case rt_depends_on raw of
             Some ds \<Rightarrow> depends_on_loop (sp_value ds) [] []
           | None \<Rightarrow> Inr ([], [])) (\<lambda>(topo, task).
        try_bind (gather_sorted ''env'' (rt_env raw)) (\<lambda>env.
        try_bind (try_map check_input (unwrap_or [] (rt_inputs raw))) (\<lambda>inputs.
        try_bind (gather_sorted ''passThroughEnv'' (rt_pass_through_env raw)) (\<lambda>pass.
        Inr \<lparr>td_outputs = outputs, td_cache = cache, td_env = unwrap_or [] env,
             td_pass_through_env = pass,
             td_topological_dependencies = sort_key sp_value topo,
             td_task_dependencies = sort_key sp_value task,
             td_inputs = inputs,
             td_output_logs = sp_value (unwrap_or (spanned_new LogFull) (rt_output_logs raw)),
             td_persistent = persistent,
             td_interruptible = sp_value interruptible,
             td_interactive = interactive,
             td_env_mode = rt_env_mode raw,
             td_siblings =
               map_option (map (\<lambda>s. sp_to s (task_name_from (sp_value s)))) (rt_siblings raw)\<rparr>)))))"

definition task_definition_try_from ::
  "raw_task_definition \<Rightarrow> (config_error, task_definition) result"
where
  "task_definition_try_from raw =
     try_bind (task_outputs_try_from (unwrap_or [] (rt_outputs raw))) (\<lambda>outputs.
     let cache = (case rt_cache raw of None \<Rightarrow> True | Some c \<Rightarrow> sp_value c);
         interactive = (case rt_interactive raw of None \<Rightarrow> False | Some i \<Rightarrow> sp_value i);
         persistent = sp_value (unwrap_or (spanned_new False) (rt_persistent raw));
         interruptible = unwrap_or (spanned_new False) (rt_interruptible raw)
     in case rt_interactive raw of
          Some i \<Rightarrow>
            if cache \<and> sp_value i
            then Inl (InteractiveNoCacheable (span_and_text i ''nrz.json''))
            else task_definition_rest raw outputs cache interactive persistent interruptible
        | None \<Rightarrow> task_definition_rest raw outputs cache interactive persistent interruptible)"

subsection \<open>Files\<close>

type_synonym pipeline = "(task_name, raw_task_definition spanned) btree_map"

record raw_nrz_json =
  rn_span :: span
  rn_extends :: "string list spanned option"
  rn_global_dependencies :: "string spanned list option"
  rn_global_env :: "string spanned list option"
  rn_global_pass_through_env :: "string spanned list option"
  rn_tasks :: "pipeline option"
  rn_pipeline :: "pipeline spanned option"

record nrz_json =
  nj_text :: "string option"
  nj_path :: "string option"
  nj_extends :: "string list spanned"
  nj_global_deps :: "string list"
  nj_global_env :: "string list"
  nj_global_pass_through_env :: "string list option"
  nj_tasks :: pipeline

definition prune_tasks :: "raw_nrz_json \<Rightarrow> string list \<Rightarrow> raw_nrz_json" where
  "prune_tasks this workspaces =
     this\<lparr>rn_tasks := map_option (filter (\<lambda>(task_name, _).
        in_workspace task_name ROOT_PKG_NAME \<or>
        (\<exists>w \<in> set workspaces. in_workspace task_name w))) (rn_tasks this)\<rparr>"

fun global_deps_loop :: "string spanned list \<Rightarrow> string list \<Rightarrow> (config_error, string list) result" where
  "global_deps_loop [] acc = Inr acc"
| "global_deps_loop (d # ds) acc =
     (if strip_prefix ENV_PIPELINE_DELIMITER (sp_value d) \<noteq> None
      then Inl (InvalidDependsOnValue ''globalDependencies'' (span_and_text d ''nrz.json''))
      else if is_absolute (sp_value d)
      then Inl (AbsolutePathInConfig ''globalDependencies'' (span_and_text d ''nrz.json''))
      else global_deps_loop ds (acc @ [sp_value d]))"

definition nrz_json_try_from :: "raw_nrz_json \<Rightarrow> (config_error, nrz_json) result" where
  "nrz_json_try_from raw =
     (case rn_pipeline raw of
        Some pipeline \<Rightarrow> Inl (PipelineField (span_and_text pipeline ''nrz.json''))
      | None \<Rightarrow>
          try_bind (case rn_global_env raw of
                      Some env \<Rightarrow> gather_env_vars env ''globalEnv'' []
                    | None \<Rightarrow> Inr []) (\<lambda>global_env.
          try_bind (global_deps_loop (unwrap_or [] (rn_global_dependencies raw)) []) (\<lambda>deps.
          try_bind (gather_sorted ''globalPassThroughEnv'' (rn_global_pass_through_env raw)) (\<lambda>pass.
          Inr \<lparr>nj_text = sp_text (rn_span raw), nj_path = sp_path (rn_span raw),
               nj_extends = unwrap_or (spanned_new []) (rn_extends raw),
               nj_global_deps = sort (remdups deps),
               nj_global_env = sort (remdups global_env),
               nj_global_pass_through_env = pass,
               nj_tasks = unwrap_or [] (rn_tasks raw)\<rparr>))))"

definition has_task :: "nrz_json \<Rightarrow> task_name \<Rightarrow> bool" where
  "has_task nj n =
     (\<exists>key \<in> set (map fst (nj_tasks nj)).
        key = n \<or> (tn_task key = tn_task n \<and> \<not> is_package_task n))"

definition nrz_json_task :: "nrz_json \<Rightarrow> task_id \<Rightarrow> task_name \<Rightarrow> raw_task_definition option" where
  "nrz_json_task nj task_id task_name =
     (case map_of (nj_tasks nj) (as_task_name task_id) of
        Some entry \<Rightarrow> Some (sp_value entry)
      | None \<Rightarrow> map_option sp_value (map_of (nj_tasks nj) task_name))"

definition nrz_json_validate :: "nrz_json \<Rightarrow> (nrz_json \<Rightarrow> config_error list) list \<Rightarrow> config_error list" where
  "nrz_json_validate nj validations = concat (map (\<lambda>v. v nj) validations)"

definition has_root_tasks :: "nrz_json \<Rightarrow> bool" where
  "has_root_tasks nj = (\<exists>(n, _) \<in> set (nj_tasks nj). tn_package n = Some ROOT_PKG_NAME)"

definition with_extends_root :: "nrz_json \<Rightarrow> nrz_json" where
  "with_extends_root nj =
     (if sp_value (nj_extends nj) = [] then nj\<lparr>nj_extends := spanned_new [''//'']\<rparr> else nj)"

definition with_proxy :: "nrz_json \<Rightarrow> string option \<Rightarrow> nrz_json" where
  "with_proxy nj mfe =
     (let nj' = with_extends_root nj
      in nj'\<lparr>nj_tasks := bt_insert (task_name_from ''proxy'')
            (spanned_new (raw_default\<lparr>rt_cache := Some (spanned_new False),
               rt_depends_on := map_option (\<lambda>m. spanned_new [spanned_new (m @ ''#build'')]) mfe\<rparr>))
            (nj_tasks nj')\<rparr>)"

definition with_sibling :: "nrz_json \<Rightarrow> task_name \<Rightarrow> task_name \<Rightarrow> nrz_json" where
  "with_sibling nj task sibling =
     (let nj' = with_extends_root nj;
          def = unwrap_or (spanned_new raw_default) (map_of (nj_tasks nj') task);
          siblings = unwrap_or [] (rt_siblings (sp_value def));
          siblings' = siblings @ [spanned_new (task_name_display sibling)]
      in nj'\<lparr>nj_tasks := bt_insert task
            (def\<lparr>sp_value := (sp_value def)\<lparr>rt_siblings := Some siblings'\<rparr>\<rparr>) (nj_tasks nj')\<rparr>)"

definition validate_no_package_task_syntax :: "nrz_json \<Rightarrow> config_error list" where
  "validate_no_package_task_syntax nj =
     map (\<lambda>(n, entry).
        UnnecessaryPackageTaskSyntax (task_name_display n) (tn_task n) (span_and_text entry ''nrz.json''))
       (filter (\<lambda>(n, _). is_package_task n) (nj_tasks nj))"

text \<open>
  The length of the span is \<open>len - 1\<close> on \<open>usize\<close>; a file without a byte does not parse, so
  the text is never empty here.
\<close>

definition validate_extends :: "nrz_json \<Rightarrow> config_error list" where
  "validate_extends nj =
     (case sp_value (nj_extends nj) of
        package_name # rest \<Rightarrow>
          if package_name \<noteq> ROOT_PKG_NAME \<or> length (sp_value (nj_extends nj)) > 1
          then [ExtendFromNonRoot (span_and_text (nj_extends nj) ''nrz.json'')]
          else []
      | [] \<Rightarrow>
          (let path = unwrap_or ''nrz.json'' (nj_path nj)
           in case nj_text nj of
                Some text \<Rightarrow> [NoExtends (Some (0, length text - 1), (path, text))]
              | None \<Rightarrow> [NoExtends (None, (path, []))]))"

subsection \<open>Outputs of a task\<close>

definition task_outputs_is_empty :: "task_outputs \<Rightarrow> bool" where
  "task_outputs_is_empty o' \<longleftrightarrow>
     (case inclusions o' of [i] \<Rightarrow> ends_with i ''.log'' \<and> exclusions o' = [] | _ \<Rightarrow> False)"

fun replace_colon :: "string \<Rightarrow> string" where
  "replace_colon [] = []"
| "replace_colon (c # cs) = (if c = CHR '':'' then ''$colon$'' @ replace_colon cs else c # replace_colon cs)"

definition task_log_filename :: "string \<Rightarrow> string" where
  "task_log_filename name = ''nrz-'' @ replace_colon name @ ''.log''"

definition sharable_workspace_relative_log_file :: "string \<Rightarrow> string" where
  "sharable_workspace_relative_log_file name = ''.nrz'' @ ''/'' @ task_log_filename name"

definition hashable_outputs :: "task_definition \<Rightarrow> task_id \<Rightarrow> task_outputs" where
  "hashable_outputs td t =
     \<lparr>inclusions = sort (sharable_workspace_relative_log_file (tid_task t) # inclusions (td_outputs td)),
      exclusions = sort (exclusions (td_outputs td))\<rparr>"

definition repo_relative_hashable_outputs :: "task_definition \<Rightarrow> task_id \<Rightarrow> string \<Rightarrow> task_outputs" where
  "repo_relative_hashable_outputs td t workspace_dir =
     (let make = (\<lambda>glob. workspace_dir @ ''/'' @ glob); outs = hashable_outputs td t
      in \<lparr>inclusions = map make (inclusions outs), exclusions = map make (exclusions outs)\<rparr>)"

subsection \<open>Merging\<close>

lemma set_field_simps [simp]:
  "set_field a None = a" "set_field a (Some x) = Some x" "set_field None b = b"
  by (simp_all add: set_field_def split: option.splits)

lemma set_field_assoc: "set_field (set_field a b) c = set_field a (set_field b c)"
  by (cases c) simp_all

lemma raw_merge_cache: "rt_cache (raw_merge a b) = set_field (rt_cache a) (rt_cache b)"
  by (cases "rt_cache b") (auto simp: raw_merge_def Let_def)

lemma raw_merge_simps [simp]:
  "rt_depends_on (raw_merge a b) = set_field (rt_depends_on a) (rt_depends_on b)"
  "rt_env (raw_merge a b) = set_field (rt_env a) (rt_env b)"
  "rt_inputs (raw_merge a b) = set_field (rt_inputs a) (rt_inputs b)"
  "rt_pass_through_env (raw_merge a b) = set_field (rt_pass_through_env a) (rt_pass_through_env b)"
  "rt_persistent (raw_merge a b) = set_field (rt_persistent a) (rt_persistent b)"
  "rt_interruptible (raw_merge a b) = set_field (rt_interruptible a) (rt_interruptible b)"
  "rt_outputs (raw_merge a b) = set_field (rt_outputs a) (rt_outputs b)"
  "rt_output_logs (raw_merge a b) = set_field (rt_output_logs a) (rt_output_logs b)"
  "rt_interactive (raw_merge a b) = set_field (rt_interactive a) (rt_interactive b)"
  "rt_env_mode (raw_merge a b) = set_field (rt_env_mode a) (rt_env_mode b)"
  "rt_siblings (raw_merge a b) = set_field (rt_siblings a) (rt_siblings b)"
  by (simp_all add: raw_merge_def Let_def)

text \<open>The last value that is set in a chain.\<close>

definition last_some :: "'a option list \<Rightarrow> 'a option" where
  "last_some xs =
     (let set_ones = filter (\<lambda>x. x \<noteq> None) xs in if set_ones = [] then None else last set_ones)"

lemma last_some_snoc [simp]: "last_some (xs @ [x]) = set_field (last_some xs) x"
  by (cases x) (auto simp: last_some_def Let_def)

lemma last_some_Nil [simp]: "last_some [] = None"
  by (simp add: last_some_def)

lemma raw_from_iter_snoc [simp]: "raw_from_iter (ds @ [d]) = raw_merge (raw_from_iter ds) d"
  by (simp add: raw_from_iter_def)

lemma raw_default_simps [simp]:
  "rt_cache raw_default = None" "rt_depends_on raw_default = None" "rt_env raw_default = None"
  "rt_inputs raw_default = None" "rt_pass_through_env raw_default = None"
  "rt_persistent raw_default = None" "rt_interruptible raw_default = None"
  "rt_outputs raw_default = None" "rt_output_logs raw_default = None"
  "rt_interactive raw_default = None" "rt_env_mode raw_default = None" "rt_siblings raw_default = None"
  by (simp_all add: raw_default_def)

lemma raw_from_iter_Nil [simp]: "raw_from_iter [] = raw_default"
  by (simp add: raw_from_iter_def)

text \<open>
  a chain of raw task definitions (root file first, then the package's file) is resolved field
  by field: every field has the value of the last definition of the chain that sets it, whatever
  the other fields say.
\<close>

theorem raw_from_iter_last_wins:
  "raw_from_iter defs =
     \<lparr>rt_cache = last_some (map rt_cache defs),
      rt_depends_on = last_some (map rt_depends_on defs),
      rt_env = last_some (map rt_env defs),
      rt_inputs = last_some (map rt_inputs defs),
      rt_pass_through_env = last_some (map rt_pass_through_env defs),
      rt_persistent = last_some (map rt_persistent defs),
      rt_interruptible = last_some (map rt_interruptible defs),
      rt_outputs = last_some (map rt_outputs defs),
      rt_output_logs = last_some (map rt_output_logs defs),
      rt_interactive = last_some (map rt_interactive defs),
      rt_env_mode = last_some (map rt_env_mode defs),
      rt_siblings = last_some (map rt_siblings defs)\<rparr>"
proof (induction defs rule: rev_induct)
  case Nil
  show ?case by (simp add: raw_default_def)
next
  case (snoc d defs)
  show ?case
    by (rule raw_task_definition.equality) (simp_all add: snoc.IH raw_merge_cache)
qed

subsection \<open>Checking\<close>

definition glob_of :: "string spanned \<Rightarrow> string" where
  "glob_of g = (case strip_prefix ''!'' (sp_value g) of Some s \<Rightarrow> s | None \<Rightarrow> sp_value g)"

definition is_exclusion :: "string spanned \<Rightarrow> bool" where
  "is_exclusion g = starts_with (sp_value g) ''!''"

lemma strip_bang: "strip_prefix ''!'' (sp_value g) = (if is_exclusion g then Some (glob_of g) else None)"
  by (cases "strip_prefix ''!'' (sp_value g)")
    (auto simp: is_exclusion_def glob_of_def strip_prefix_None strip_prefix_Some)

lemma glob_of_inclusion: "\<not> is_exclusion g \<Longrightarrow> sp_value g = glob_of g"
  using strip_bang [of g] by (simp add: glob_of_def)

lemma task_outputs_loop_Inr:
  "task_outputs_loop gs inc exc = Inr r \<longleftrightarrow>
     (\<forall>g \<in> set gs. \<not> is_absolute (glob_of g)) \<and>
     r = (inc @ map glob_of (filter (\<lambda>g. \<not> is_exclusion g) gs),
          exc @ map glob_of (filter is_exclusion gs))"
  by (induction gs inc exc rule: task_outputs_loop.induct)
    (auto simp: strip_bang glob_of_inclusion)

lemma task_outputs_try_from_Inr:
  "task_outputs_try_from gs = Inr r \<longleftrightarrow>
     (\<forall>g \<in> set gs. \<not> is_absolute (glob_of g)) \<and>
     r = \<lparr>inclusions = sort (map glob_of (filter (\<lambda>g. \<not> is_exclusion g) gs)),
          exclusions = sort (map glob_of (filter is_exclusion gs))\<rparr>"
  by (auto simp: task_outputs_try_from_def try_bind_Inr task_outputs_loop_Inr)

lemma gather_env_vars_Inr:
  "gather_env_vars vs key acc = Inr r \<longleftrightarrow>
     (\<forall>v \<in> set vs. \<not> starts_with (sp_value v) ''$'') \<and> r = acc @ map sp_value vs"
  by (induction vs key acc rule: gather_env_vars.induct) (auto simp: ENV_PIPELINE_DELIMITER_def)

lemma gather_sorted_Inr:
  "gather_sorted key vs = Inr r \<longleftrightarrow>
     (\<forall>v \<in> set (unwrap_or [] vs). \<not> starts_with (sp_value v) ''$'') \<and>
     r = map_option (\<lambda>vs. sort (remdups (map sp_value vs))) vs"
  by (cases vs) (auto simp: gather_sorted_def unwrap_or_def try_bind_Inr gather_env_vars_Inr)

definition is_topological :: "string spanned \<Rightarrow> bool" where
  "is_topological d = starts_with (sp_value d) ''^''"

definition dependency_name :: "string spanned \<Rightarrow> task_name spanned" where
  "dependency_name d =
     sp_to d (task_name_from (case strip_prefix ''^'' (sp_value d) of Some s \<Rightarrow> s | None \<Rightarrow> sp_value d))"

lemma depends_on_loop_Inr:
  "depends_on_loop ds topo task = Inr r \<longleftrightarrow>
     (\<forall>d \<in> set ds. \<not> starts_with (sp_value d) ''$'') \<and>
     r = (topo @ map dependency_name (filter is_topological ds),
          task @ map dependency_name (filter (\<lambda>d. \<not> is_topological d) ds))"
proof (induction ds topo task rule: depends_on_loop.induct)
  case (2 d ds topo task)
  have top: "is_topological d \<longleftrightarrow> strip_prefix ''^'' (sp_value d) \<noteq> None"
    by (simp add: is_topological_def strip_prefix_None)
  have env: "starts_with (sp_value d) ''$'' \<longleftrightarrow> strip_prefix ''$'' (sp_value d) \<noteq> None"
    by (simp add: strip_prefix_None)
  show ?case
    using "2" by (cases "strip_prefix ''$'' (sp_value d)"; cases "strip_prefix ''^'' (sp_value d)")
      (auto simp: top env dependency_name_def ENV_PIPELINE_DELIMITER_def
        TOPOLOGICAL_PIPELINE_DELIMITER_def)
qed auto

lemma try_map_check_input_Inr:
  "try_map check_input xs = Inr r \<longleftrightarrow>
     (\<forall>x \<in> set xs. \<not> is_absolute (sp_value x)) \<and> r = map sp_value xs"
  by (induction xs arbitrary: r) (auto simp: check_input_def try_bind_Inr split: if_splits)

lemmas checked_Inr =
  task_outputs_try_from_Inr gather_sorted_Inr depends_on_loop_Inr try_map_check_input_Inr

text \<open>What the checks of a raw definition accept.\<close>

definition raw_ok :: "raw_task_definition \<Rightarrow> bool" where
  "raw_ok raw \<longleftrightarrow>
     (\<forall>g \<in> set (unwrap_or [] (rt_outputs raw)). \<not> is_absolute (glob_of g)) \<and>
     (\<forall>i. rt_interactive raw = Some i \<and> sp_value i \<longrightarrow>
        (\<exists>c. rt_cache raw = Some c \<and> \<not> sp_value c)) \<and>
     (\<forall>i. rt_interruptible raw = Some i \<and> sp_value i \<longrightarrow>
        (\<exists>p. rt_persistent raw = Some p \<and> sp_value p)) \<and>
     (\<forall>d \<in> set (case rt_depends_on raw of Some ds \<Rightarrow> sp_value ds | None \<Rightarrow> []).
        \<not> starts_with (sp_value d) ''$'') \<and>
     (\<forall>v \<in> set (unwrap_or [] (rt_env raw)). \<not> starts_with (sp_value v) ''$'') \<and>
     (\<forall>x \<in> set (unwrap_or [] (rt_inputs raw)). \<not> is_absolute (sp_value x)) \<and>
     (\<forall>v \<in> set (unwrap_or [] (rt_pass_through_env raw)). \<not> starts_with (sp_value v) ''$'')"

text \<open>What an accepted raw definition means.\<close>

definition checked_definition :: "raw_task_definition \<Rightarrow> task_definition" where
  "checked_definition raw =
     (let outs = unwrap_or [] (rt_outputs raw);
          ds = (case rt_depends_on raw of Some ds \<Rightarrow> sp_value ds | None \<Rightarrow> [])
      in \<lparr>td_outputs =
            \<lparr>inclusions = sort (map glob_of (filter (\<lambda>g. \<not> is_exclusion g) outs)),
             exclusions = sort (map glob_of (filter is_exclusion outs))\<rparr>,
          td_cache = (case rt_cache raw of None \<Rightarrow> True | Some c \<Rightarrow> sp_value c),
          td_env = sort (remdups (map sp_value (unwrap_or [] (rt_env raw)))),
          td_pass_through_env =
            map_option (\<lambda>vs. sort (remdups (map sp_value vs))) (rt_pass_through_env raw),
          td_topological_dependencies = sort_key sp_value (map dependency_name (filter is_topological ds)),
          td_task_dependencies =
            sort_key sp_value (map dependency_name (filter (\<lambda>d. \<not> is_topological d) ds)),
          td_inputs = map sp_value (unwrap_or [] (rt_inputs raw)),
          td_output_logs = (case rt_output_logs raw of None \<Rightarrow> LogFull | Some l \<Rightarrow> sp_value l),
          td_persistent = (case rt_persistent raw of None \<Rightarrow> False | Some p \<Rightarrow> sp_value p),
          td_interruptible = (case rt_interruptible raw of None \<Rightarrow> False | Some i \<Rightarrow> sp_value i),
          td_interactive = (case rt_interactive raw of None \<Rightarrow> False | Some i \<Rightarrow> sp_value i),
          td_env_mode = rt_env_mode raw,
          td_siblings =
            map_option (map (\<lambda>s. sp_to s (task_name_from (sp_value s)))) (rt_siblings raw)\<rparr>)"

lemma unwrap_or_simps [simp]: "unwrap_or d None = d" "unwrap_or d (Some x) = x"
  by (simp_all add: unwrap_or_def)

lemma task_definition_rest_Inr:
  "task_definition_rest raw outs cache ia pers intr = Inr td \<longleftrightarrow>
     (sp_value intr \<longrightarrow> pers) \<and>
     (\<forall>d \<in> set (case rt_depends_on raw of Some ds \<Rightarrow> sp_value ds | None \<Rightarrow> []).
        \<not> starts_with (sp_value d) ''$'') \<and>
     (\<forall>v \<in> set (unwrap_or [] (rt_env raw)). \<not> starts_with (sp_value v) ''$'') \<and>
     (\<forall>x \<in> set (unwrap_or [] (rt_inputs raw)). \<not> is_absolute (sp_value x)) \<and>
     (\<forall>v \<in> set (unwrap_or [] (rt_pass_through_env raw)). \<not> starts_with (sp_value v) ''$'') \<and>
     td = (checked_definition raw)\<lparr>td_outputs := outs, td_cache := cache, td_interactive := ia,
            td_persistent := pers, td_interruptible := sp_value intr\<rparr>"
  by (cases "rt_depends_on raw"; cases "rt_env raw"; cases "rt_output_logs raw")
    (auto simp: task_definition_rest_def checked_definition_def try_bind_Inr checked_Inr Let_def)

text \<open>
  a raw task definition is accepted exactly when its globs and inputs are relative, no
  dependency and no environment variable starts with the old \<open>$\<close> prefix, an interactive task is
  explicitly uncached and an interruptible task is persistent; the checked definition then has the
  dependencies split into topological and same-package ones and every list sorted.
\<close>

theorem task_definition_try_from_iff:
  "task_definition_try_from raw = Inr td \<longleftrightarrow> raw_ok raw \<and> td = checked_definition raw"
proof -
  let ?cache = "case rt_cache raw of None \<Rightarrow> True | Some c \<Rightarrow> sp_value c"
  let ?inter = "case rt_interactive raw of None \<Rightarrow> False | Some i \<Rightarrow> sp_value i"
  let ?pers = "sp_value (unwrap_or (spanned_new False) (rt_persistent raw))"
  let ?intr = "unwrap_or (spanned_new False) (rt_interruptible raw)"
  have "task_definition_try_from raw = Inr td \<longleftrightarrow>
    (\<exists>outs. task_outputs_try_from (unwrap_or [] (rt_outputs raw)) = Inr outs \<and>
      \<not> (?cache \<and> ?inter) \<and> task_definition_rest raw outs ?cache ?inter ?pers ?intr = Inr td)"
    by (cases "rt_interactive raw")
      (auto simp: task_definition_try_from_def Let_def try_bind_Inr split: if_splits)
  also have "\<dots> \<longleftrightarrow> raw_ok raw \<and> td = checked_definition raw"
    unfolding task_definition_rest_Inr checked_Inr raw_ok_def
    by (cases "rt_interactive raw"; cases "rt_cache raw"; cases "rt_persistent raw";
        cases "rt_interruptible raw")
      (auto simp: checked_definition_def Let_def)
  finally show ?thesis .
qed

subsection \<open>Validation of a package's file\<close>

definition workspace_json_ok :: "nrz_json \<Rightarrow> bool" where
  "workspace_json_ok nj \<longleftrightarrow>
     sp_value (nj_extends nj) = [ROOT_PKG_NAME] \<and> (\<forall>n \<in> fst ` set (nj_tasks nj). tn_package n = None)"

lemma validate_no_package_task_syntax_Nil:
  "validate_no_package_task_syntax nj = [] \<longleftrightarrow> (\<forall>n \<in> fst ` set (nj_tasks nj). tn_package n = None)"
  by (auto simp: validate_no_package_task_syntax_def filter_empty_conv is_package_task_def)

lemma validate_extends_Nil: "validate_extends nj = [] \<longleftrightarrow> sp_value (nj_extends nj) = [ROOT_PKG_NAME]"
  by (auto simp: validate_extends_def Let_def split: list.splits option.splits)

lemma with_extends_root_simps [simp]:
  "nj_tasks (with_extends_root nj) = nj_tasks nj"
  "sp_value (nj_extends (with_extends_root nj)) =
     (if sp_value (nj_extends nj) = [] then [ROOT_PKG_NAME] else sp_value (nj_extends nj))"
  by (simp_all add: with_extends_root_def spanned_defs ROOT_PKG_NAME_def)

lemma with_proxy_tasks [simp]:
  "fst ` set (nj_tasks (with_proxy nj mfe)) = insert (TaskName None ''proxy'') (fst ` set (nj_tasks nj))"
  by (simp add: with_proxy_def Let_def task_name_from_def)

lemma with_sibling_tasks [simp]:
  "fst ` set (nj_tasks (with_sibling nj task sib)) = insert task (fst ` set (nj_tasks nj))"
  by (simp add: with_sibling_def Let_def)

lemma with_edits_extends [simp]:
  "nj_extends (with_proxy nj mfe) = nj_extends (with_extends_root nj)"
  "nj_extends (with_sibling nj task sib) = nj_extends (with_extends_root nj)"
  by (simp_all add: with_proxy_def with_sibling_def Let_def)

text \<open>
  the checks of a package's \<open>nrz.json\<close> raise no error exactly when the file extends the
  root and nothing else and names no package in its tasks; the synthesised microfrontend edits
  keep an accepted file accepted, and also make a file without an \<open>extends\<close> entry acceptable.
\<close>

theorem workspace_json_validation:
  "(nrz_json_validate nj [validate_no_package_task_syntax, validate_extends] = [] \<longleftrightarrow>
      workspace_json_ok nj) \<and>
   (workspace_json_ok (with_extends_root nj) \<longrightarrow> workspace_json_ok (with_proxy nj mfe)) \<and>
   (workspace_json_ok (with_extends_root nj) \<and> \<not> is_package_task task \<longrightarrow>
      workspace_json_ok (with_sibling nj task sib))"
  by (auto simp: nrz_json_validate_def validate_no_package_task_syntax_Nil validate_extends_Nil
      workspace_json_ok_def is_package_task_def)

definition sample_workspace_json :: nrz_json where
  "sample_workspace_json = \<lparr>nj_text = None, nj_path = None, nj_extends = spanned_new [],
     nj_global_deps = [], nj_global_env = [], nj_global_pass_through_env = None,
     nj_tasks = [(TaskName None ''build'', spanned_new raw_default)]\<rparr>"

theorem workspace_json_validation_witness:
  "workspace_json_ok (with_proxy sample_workspace_json (Some ''docs'')) \<and>
   workspace_json_ok (with_sibling sample_workspace_json (TaskName None ''dev'') (TaskName None ''proxy''))"
proof -
  have "workspace_json_ok (with_extends_root sample_workspace_json)"
    by (simp add: workspace_json_ok_def sample_workspace_json_def)
  moreover have "\<not> is_package_task (TaskName None ''dev'')" by (simp add: is_package_task_def)
  ultimately show ?thesis
    using workspace_json_validation [of sample_workspace_json "Some ''docs''" "TaskName None ''dev''"
        "TaskName None ''proxy''"] by blast
qed

subsection \<open>Pruning\<close>

text \<open>
  pruning keeps exactly the tasks that name no package, the root or a kept package, in their
  order, and pruning again with fewer packages is pruning once with those.
\<close>

theorem prune_tasks_kept:
  "rn_tasks raw = Some tasks \<Longrightarrow>
     rn_tasks (prune_tasks raw ws) =
       Some (filter (\<lambda>(n, _). case tn_package n of None \<Rightarrow> True
          | Some p \<Rightarrow> p = ROOT_PKG_NAME \<or> p \<in> set ws) tasks) \<and>
     (set vs \<subseteq> set ws \<longrightarrow> prune_tasks (prune_tasks raw ws) vs = prune_tasks raw vs)"
proof -
  assume raw: "rn_tasks raw = Some tasks"
  have kept: "in_workspace n ROOT_PKG_NAME \<or> (\<exists>w \<in> set us. in_workspace n w) \<longleftrightarrow>
      (case tn_package n of None \<Rightarrow> True | Some p \<Rightarrow> p = ROOT_PKG_NAME \<or> p \<in> set us)" for n us
    by (cases "tn_package n") (auto simp: in_workspace_def task_name_task_id_def)
  have "set vs \<subseteq> set ws \<Longrightarrow> prune_tasks (prune_tasks raw ws) vs = prune_tasks raw vs"
    by (rule raw_nrz_json.equality)
      (auto simp: prune_tasks_def raw kept case_prod_beta split: option.splits intro!: filter_cong)
  then show ?thesis by (auto simp: prune_tasks_def raw kept)
qed

definition sample_raw_nrz_json :: raw_nrz_json where
  "sample_raw_nrz_json = \<lparr>rn_span = spanned_new (), rn_extends = None,
     rn_global_dependencies = None, rn_global_env = None, rn_global_pass_through_env = None,
     rn_tasks = Some [(TaskName None ''build'', spanned_new raw_default),
       (TaskName (Some ''docs'') ''build'', spanned_new raw_default)],
     rn_pipeline = None\<rparr>"

theorem prune_tasks_kept_witness:
  "rn_tasks (prune_tasks sample_raw_nrz_json [''web'']) =
     Some [(TaskName None ''build'', spanned_new raw_default)]"
proof -
  have "rn_tasks sample_raw_nrz_json = Some [(TaskName None ''build'', spanned_new raw_default),
       (TaskName (Some ''docs'') ''build'', spanned_new raw_default)]"
    by (simp add: sample_raw_nrz_json_def)
  from prune_tasks_kept [OF this, of "[''web'']" "[]"] show ?thesis
    by (simp add: ROOT_PKG_NAME_def)
qed

subsection \<open>Log files\<close>

lemma replace_colon_inj:
  "CHR ''$'' \<notin> set s \<Longrightarrow> CHR ''$'' \<notin> set t \<Longrightarrow> replace_colon s = replace_colon t \<Longrightarrow> s = t"
proof (induction s arbitrary: t)
  case Nil
  then show ?case by (cases t) (auto split: if_splits)
next
  case (Cons c s)
  then show ?case by (cases t) (auto split: if_splits)
qed

text \<open>
  two tasks whose names hold no dollar sign have different log files.
\<close>

theorem task_log_filename_inj:
  "CHR ''$'' \<notin> set s \<Longrightarrow> CHR ''$'' \<notin> set t \<Longrightarrow>
     sharable_workspace_relative_log_file s = sharable_workspace_relative_log_file t \<Longrightarrow> s = t"
  by (auto simp: sharable_workspace_relative_log_file_def task_log_filename_def dest: replace_colon_inj)

theorem task_log_filename_inj_witness:
  "sharable_workspace_relative_log_file ''build:a'' \<noteq> sharable_workspace_relative_log_file ''build:b''"
  using task_log_filename_inj [of "''build:a''" "''build:b''"] by auto

end
