(* ===== verification/Graph_Utils.thy ===== *)
theory Graph_Utils
  imports Prelude
begin

text \<open>
  The crate \<open>nrzrepo-graph-utils\<close>, file \<open>src/lib.rs\<close>: closures, cycle detection, the edge sets
  that break a cycle, and the validation of a graph.

  A \<open>petgraph::Graph\<close> is the list of its node weights and the list of its edges; a node index
  and an edge index are positions in these lists. What the code calls of \<open>petgraph\<close> and
  \<open>itertools\<close> is a parameter: \<open>neighbors\<close> (in an order of its own), \<open>tarjan_scc\<close>,
  \<open>depth_first_search\<close>, \<open>retain_nodes\<close> and \<open>powerset\<close>, with their documented
  behaviour as the hypotheses below.
\<close>

record 'n graph =
  g_nodes :: "'n list"
  g_edges :: "(nat \<times> nat) list"

datatype graph_error = CyclicDependencies string | SelfDependency string

datatype direction = Outgoing | Incoming

text \<open>\<open>add_edge\<close> panics on an index out of range, so every graph the program holds is this.\<close>

definition wf_graph :: "'n graph \<Rightarrow> bool" where
  "wf_graph g \<longleftrightarrow>
     (\<forall>(a, b) \<in> set (g_edges g). a < length (g_nodes g) \<and> b < length (g_nodes g))"

subsection \<open>Closures\<close>

text \<open>
  \<open>transitive_closure\<close>: the parameter \<open>discover es starts\<close> lists the nodes for which
  \<open>depth_first_search\<close> reports \<open>Discover\<close>. \<open>None\<close> is the panic of the \<open>expect\<close>.
\<close>

definition transitive_closure ::
  "((nat \<times> nat) list \<Rightarrow> nat list \<Rightarrow> nat list) \<Rightarrow> 'n graph \<Rightarrow> nat list \<Rightarrow> direction \<Rightarrow> 'n set option"
where
  "transitive_closure discover g indices dir =
     (let found = (case dir of
                     Outgoing \<Rightarrow> discover (g_edges g) indices
                   | Incoming \<Rightarrow> discover (map (\<lambda>(a, b). (b, a)) (g_edges g)) indices)
      in if \<forall>n \<in> set found. n < length (g_nodes g)
         then Some (set (map (\<lambda>n. g_nodes g ! n) found)) else None)"

definition discover_spec :: "((nat \<times> nat) list \<Rightarrow> nat list \<Rightarrow> nat list) \<Rightarrow> bool" where
  "discover_spec discover \<longleftrightarrow>
     (\<forall>es starts. set (discover es starts) = (set es)\<^sup>* `` set starts)"

subsection \<open>The cycle detector\<close>

type_synonym marks = "nat set \<times> nat set"

text \<open>
  \<open>CycleDetector::dfs\<close> and its loop over the neighbours, on the bit sets
  \<open>(visited, finished)\<close>. The recursion is bounded by fuel; \<open>None\<close> is running out of it.
\<close>

function (sequential) dfs :: "nat \<Rightarrow> (nat \<Rightarrow> nat list) \<Rightarrow> nat \<Rightarrow> marks \<Rightarrow> (bool \<times> marks) option"
  and dfs_loop :: "nat \<Rightarrow> (nat \<Rightarrow> nat list) \<Rightarrow> nat list \<Rightarrow> marks \<Rightarrow> (bool \<times> marks) option"
where
  "dfs 0 nb u m = None"
| "dfs (Suc k) nb u m =
     (if u \<in> snd m then Some (False, m)
      else if u \<in> fst m then Some (True, m)
      else (case dfs_loop k nb (nb u) (insert u (fst m), snd m) of
              None \<Rightarrow> None
            | Some (True, m') \<Rightarrow> Some (True, m')
            | Some (False, m') \<Rightarrow> Some (False, (fst m', insert u (snd m')))))"
| "dfs_loop k nb [] m = Some (False, m)"
| "dfs_loop k nb (v # vs) m =
     (case dfs k nb v m of
        None \<Rightarrow> None
      | Some (True, m') \<Rightarrow> Some (True, m')
      | Some (False, m') \<Rightarrow> dfs_loop k nb vs m')"
  by pat_completeness auto
termination
  by (relation "measures [\<lambda>x. case x of Inl (k, _) \<Rightarrow> k | Inr (k, _) \<Rightarrow> k,
        \<lambda>x. case x of Inl _ \<Rightarrow> 0 | Inr (_, _, vs, _) \<Rightarrow> Suc (length vs)]") auto

text \<open>\<open>CycleDetector::has_cycle\<close>: both bit sets are cleared, then every start is searched.\<close>

definition has_cycle :: "nat \<Rightarrow> (nat \<Rightarrow> nat list) \<Rightarrow> nat list \<Rightarrow> bool option" where
  "has_cycle k nb starts = map_option fst (dfs_loop k nb starts ({}, {}))"

subsection \<open>Breaking cycles\<close>

definition USIZE_MAX :: nat where
  "USIZE_MAX = 2 ^ 64 - 1"

definition trimmed_edges :: "(nat \<times> nat) list \<Rightarrow> nat list \<Rightarrow> (nat \<times> nat) list" where
  "trimmed_edges es edge_set = map (\<lambda>i. es ! i) (filter (\<lambda>i. i \<notin> set edge_set) [0..<length es])"

text \<open>
  The loop of \<open>edges_to_break_cycle\<close> over the edge sets; \<open>m\<close> is \<open>minimal_break_point\<close>. The
  fuel of the search is one more than the number of nodes.
\<close>

fun break_loop ::
  "((nat \<times> nat) list \<Rightarrow> nat \<Rightarrow> nat list) \<Rightarrow> 'n graph \<Rightarrow> nat list list \<Rightarrow> nat \<Rightarrow>
   ('n \<times> 'n) list list option"
where
  "break_loop nbrs g [] m = Some []"
| "break_loop nbrs g (edge_set # rest) m =
     (if length edge_set > m then Some []
      else
        (case has_cycle (Suc (length (g_nodes g))) (nbrs (trimmed_edges (g_edges g) edge_set))
                [0..<length (g_nodes g)] of
           None \<Rightarrow> None
         | Some True \<Rightarrow> break_loop nbrs g rest m
         | Some False \<Rightarrow>
             map_option
               (Cons (remdups (map (\<lambda>i. (g_nodes g ! fst (g_edges g ! i), g_nodes g ! snd (g_edges g ! i)))
                                edge_set)))
               (break_loop nbrs g rest (length edge_set))))"

definition edges_to_break_cycle ::
  "((nat \<times> nat) list \<Rightarrow> nat \<Rightarrow> nat list) \<Rightarrow> (nat list \<Rightarrow> nat list list) \<Rightarrow> 'n graph \<Rightarrow>
   ('n \<times> 'n) list list option"
where
  "edges_to_break_cycle nbrs powerset g =
     break_loop nbrs g (powerset [0..<length (g_edges g)]) USIZE_MAX"

record 'n cycle =
  cy_nodes :: "nat list"
  cy_cuts :: "('n \<times> 'n) list list"

fun opt_map :: "('a \<Rightarrow> 'b option) \<Rightarrow> 'a list \<Rightarrow> 'b list option" where
  "opt_map f [] = Some []"
| "opt_map f (x # xs) =
     (case f x of None \<Rightarrow> None | Some y \<Rightarrow> map_option (Cons y) (opt_map f xs))"

record 'n petgraph =
  pg_neighbors :: "(nat \<times> nat) list \<Rightarrow> nat \<Rightarrow> nat list"
  pg_powerset :: "nat list \<Rightarrow> nat list list"
  pg_tarjan_scc :: "'n graph \<Rightarrow> nat list list"
  pg_retain_nodes :: "'n graph \<Rightarrow> (nat \<Rightarrow> bool) \<Rightarrow> 'n graph"

definition cycles_and_cut_candidates :: "'n petgraph \<Rightarrow> 'n graph \<Rightarrow> 'n cycle list option" where
  "cycles_and_cut_candidates pg g =
     opt_map
       (\<lambda>nodes.
          map_option (\<lambda>cuts. \<lparr>cy_nodes = nodes, cy_cuts = cuts\<rparr>)
            (edges_to_break_cycle (pg_neighbors pg) (pg_powerset pg)
               (pg_retain_nodes pg g (\<lambda>n. n \<in> set nodes))))
       (filter (\<lambda>cycle. length cycle > 1) (pg_tarjan_scc pg g))"

definition format_cut :: "('n \<Rightarrow> string) \<Rightarrow> ('n \<times> 'n) list \<Rightarrow> string" where
  "format_cut disp edges =
     ''{ '' @ join_with '', '' (sort (map (\<lambda>(src, dst). disp src @ '' -> '' @ disp dst) edges)) @ '' }''"

definition cycle_line :: "('n \<Rightarrow> string) \<Rightarrow> 'n graph \<Rightarrow> 'n cycle \<Rightarrow> string" where
  "cycle_line disp g c =
     [CHR 0x09] @ join_with '', '' (map (\<lambda>i. disp (g_nodes g ! i)) (cy_nodes c)) @
     [CHR 0x0A, CHR 0x0A] @
     ''The cycle can be broken by removing any of these sets of dependencies:'' @
     [CHR 0x0A, CHR 0x09] @ join_with [CHR 0x0A, CHR 0x09] (map (format_cut disp) (cy_cuts c))"

fun first_self_edge :: "(nat \<times> nat) list \<Rightarrow> nat option" where
  "first_self_edge [] = None"
| "first_self_edge ((a, b) # es) = (if a = b then Some a else first_self_edge es)"

text \<open>
  \<open>validate_graph\<close>. The outer \<open>None\<close> is fuel running out in a search, which
  \<open>validate_graph_total\<close> excludes.
\<close>

definition validate_graph ::
  "'n petgraph \<Rightarrow> ('n \<Rightarrow> string) \<Rightarrow> 'n graph \<Rightarrow> (graph_error, unit) result option"
where
  "validate_graph pg disp g =
     map_option
       (\<lambda>cycles.
          let cycle_lines = join_with [CHR 0x0A] (map (cycle_line disp g) cycles)
          in if cycle_lines \<noteq> [] then Inl (CyclicDependencies cycle_lines)
             else (case first_self_edge (g_edges g) of
                     Some a \<Rightarrow> Inl (SelfDependency (disp (g_nodes g ! a)))
                   | None \<Rightarrow> Inr ()))
       (cycles_and_cut_candidates pg g)"

subsection \<open>The documented behaviour of the parameters\<close>

definition neighbors_spec :: "((nat \<times> nat) list \<Rightarrow> nat \<Rightarrow> nat list) \<Rightarrow> bool" where
  "neighbors_spec nbrs \<longleftrightarrow> (\<forall>es u. set (nbrs es u) = set es `` {u})"

text \<open>\<open>powerset\<close>: every subset once, shorter ones first.\<close>

definition powerset_spec :: "(nat list \<Rightarrow> nat list list) \<Rightarrow> bool" where
  "powerset_spec ps \<longleftrightarrow>
     (\<forall>xs. distinct xs \<longrightarrow>
        sorted (map length (ps xs)) \<and> distinct (map set (ps xs)) \<and>
        set ` set (ps xs) = Pow (set xs) \<and> (\<forall>ys \<in> set (ps xs). distinct ys))"

definition tarjan_spec :: "'n graph \<Rightarrow> nat list list \<Rightarrow> bool" where
  "tarjan_spec g sccs \<longleftrightarrow>
     (\<forall>u < length (g_nodes g). \<exists>c \<in> set sccs. u \<in> set c) \<and>
     (\<forall>c \<in> set sccs. distinct c \<and>
        (\<forall>u \<in> set c. set c = {v. v < length (g_nodes g) \<and>
            (u, v) \<in> (set (g_edges g))\<^sup>* \<and> (v, u) \<in> (set (g_edges g))\<^sup>*}))"

definition retain_spec :: "('n graph \<Rightarrow> (nat \<Rightarrow> bool) \<Rightarrow> 'n graph) \<Rightarrow> 'n graph \<Rightarrow> bool" where
  "retain_spec retain g \<longleftrightarrow>
     (\<forall>P. wf_graph (retain g P) \<and> length (g_edges (retain g P)) \<le> length (g_edges g))"

definition acyclic_graph :: "'n graph \<Rightarrow> bool" where
  "acyclic_graph g \<longleftrightarrow> acyclic (set (g_edges g))"

subsection \<open>Correctness of the search\<close>

definition succs :: "(nat \<Rightarrow> nat list) \<Rightarrow> (nat \<times> nat) set" where
  "succs nb = {(u, v). v \<in> set (nb u)}"

lemma in_succs [simp]: "(u, v) \<in> succs nb \<longleftrightarrow> v \<in> set (nb u)"
  by (simp add: succs_def)

text \<open>
  The marks a search may be in: finished nodes are visited, their successors are finished, and no
  finished node lies on a cycle.
\<close>

definition marks_ok :: "(nat \<Rightarrow> nat list) \<Rightarrow> marks \<Rightarrow> bool" where
  "marks_ok nb m \<longleftrightarrow>
     snd m \<subseteq> fst m \<and> (\<forall>x \<in> snd m. set (nb x) \<subseteq> snd m) \<and> (\<forall>x \<in> snd m. (x, x) \<notin> (succs nb)\<^sup>+)"

text \<open>The nodes on the recursion stack.\<close>

definition open_nodes :: "marks \<Rightarrow> nat set" where
  "open_nodes m = fst m - snd m"

lemma closed_trancl:
  assumes "\<forall>x \<in> F. set (nb x) \<subseteq> F" and "(x, y) \<in> (succs nb)\<^sup>+" and "x \<in> F"
  shows "y \<in> F"
  using assms(2,3)
proof (induction rule: trancl_induct)
  case (base y)
  with assms(1) show ?case by auto
next
  case (step y z)
  with assms(1) show ?case by auto
qed

text \<open>A node all of whose successors are finished may be finished.\<close>

lemma marks_ok_finish:
  assumes ok: "marks_ok nb m" and nbs: "set (nb u) \<subseteq> snd m" and "u \<in> fst m" and "u \<notin> snd m"
  shows "marks_ok nb (fst m, insert u (snd m))"
proof -
  have closed: "\<forall>x \<in> snd m. set (nb x) \<subseteq> snd m" using ok by (simp add: marks_ok_def)
  have "(u, u) \<notin> (succs nb)\<^sup>+"
  proof
    assume "(u, u) \<in> (succs nb)\<^sup>+"
    then obtain v where "v \<in> set (nb u)" and "(v, u) \<in> (succs nb)\<^sup>*"
      by (auto dest: tranclD)
    with nbs \<open>u \<notin> snd m\<close> have "v \<in> snd m" and "(v, u) \<in> (succs nb)\<^sup>+"
      by (auto simp: rtrancl_eq_or_trancl)
    with closed_trancl [OF closed] \<open>u \<notin> snd m\<close> show False by blast
  qed
  with assms show ?thesis by (auto simp: marks_ok_def)
qed

text \<open>A search that reports no cycle finishes its nodes and leaves the stack as it was.\<close>

lemma dfs_False:
  "dfs k nb u m = Some (False, m') \<Longrightarrow> marks_ok nb m \<Longrightarrow>
     marks_ok nb m' \<and> fst m \<subseteq> fst m' \<and> snd m \<subseteq> snd m' \<and> open_nodes m' = open_nodes m \<and> u \<in> snd m'"
  and dfs_loop_False:
  "dfs_loop k nb vs m = Some (False, m') \<Longrightarrow> marks_ok nb m \<Longrightarrow>
     marks_ok nb m' \<and> fst m \<subseteq> fst m' \<and> snd m \<subseteq> snd m' \<and> open_nodes m' = open_nodes m \<and>
     set vs \<subseteq> snd m'"
proof (induction k nb u m and k nb vs m arbitrary: m' and m' rule: dfs_dfs_loop.induct)
  case (1 nb u m)
  then show ?case by simp
next
  case (2 k nb u m)
  show ?case
  proof (cases "u \<in> snd m \<or> u \<in> fst m")
    case True
    with "2.prems" show ?thesis by (auto split: if_splits)
  next
    case False
    with "2.prems"(1) obtain m1 where
      loop: "dfs_loop k nb (nb u) (insert u (fst m), snd m) = Some (False, m1)" and
      m': "m' = (fst m1, insert u (snd m1))"
      by (auto split: option.splits bool.splits)
    have "marks_ok nb (insert u (fst m), snd m)"
      using "2.prems"(2) by (auto simp: marks_ok_def)
    with "2.IH" False loop
    have IH: "marks_ok nb m1" "insert u (fst m) \<subseteq> fst m1" "snd m \<subseteq> snd m1"
      "open_nodes m1 = open_nodes (insert u (fst m), snd m)" "set (nb u) \<subseteq> snd m1"
      by auto
    have "u \<in> open_nodes m1"
      using IH(4) False by (auto simp: open_nodes_def)
    then have u: "u \<in> fst m1" "u \<notin> snd m1" by (auto simp: open_nodes_def)
    have "open_nodes m' = open_nodes m1 - {u}"
      unfolding m' by (auto simp: open_nodes_def)
    also have "\<dots> = open_nodes m"
      using IH(4) False by (auto simp: open_nodes_def)
    finally have "open_nodes m' = open_nodes m" .
    moreover have "marks_ok nb m'"
      unfolding m' using IH(1,5) u by (rule marks_ok_finish)
    ultimately show ?thesis using IH(2,3) m' by auto
  qed
next
  case (3 k nb m)
  then show ?case by simp
next
  case (4 k nb v vs m)
  from "4.prems"(1) obtain m1 where
    d: "dfs k nb v m = Some (False, m1)" and l: "dfs_loop k nb vs m1 = Some (False, m')"
    by (auto split: option.splits bool.splits)
  note IH1 = "4.IH"(1) [OF d "4.prems"(2)]
  with "4.IH"(2) [of "(False, m1)" False m1] d l show ?case by (auto 0 3)
qed

text \<open>A search that reports a cycle is right, as long as every open node leads to the start.\<close>

lemma dfs_True:
  "dfs k nb u m = Some (True, m') \<Longrightarrow> marks_ok nb m \<Longrightarrow>
     (\<forall>g \<in> open_nodes m. (g, u) \<in> (succs nb)\<^sup>+) \<Longrightarrow> \<exists>x. (x, x) \<in> (succs nb)\<^sup>+"
  and dfs_loop_True:
  "dfs_loop k nb vs m = Some (True, m') \<Longrightarrow> marks_ok nb m \<Longrightarrow>
     (\<forall>g \<in> open_nodes m. \<forall>v \<in> set vs. (g, v) \<in> (succs nb)\<^sup>+) \<Longrightarrow> \<exists>x. (x, x) \<in> (succs nb)\<^sup>+"
proof (induction k nb u m and k nb vs m arbitrary: m' and m' rule: dfs_dfs_loop.induct)
  case (1 nb u m)
  then show ?case by simp
next
  case (2 k nb u m)
  show ?case
  proof (cases "u \<in> snd m \<or> u \<in> fst m")
    case True
    with "2.prems" show ?thesis by (auto simp: open_nodes_def split: if_splits)
  next
    case False
    with "2.prems"(1) have loop: "dfs_loop k nb (nb u) (insert u (fst m), snd m) = Some (True, m')"
      by (auto split: option.splits bool.splits)
    have ok: "marks_ok nb (insert u (fst m), snd m)"
      using "2.prems"(2) by (auto simp: marks_ok_def)
    have "(g, v) \<in> (succs nb)\<^sup>+"
      if "g \<in> open_nodes (insert u (fst m), snd m)" and "v \<in> set (nb u)" for g v
    proof (cases "g = u")
      case True
      with that(2) show ?thesis by auto
    next
      case False
      with that(1) have "g \<in> open_nodes m" by (auto simp: open_nodes_def)
      with "2.prems"(3) have "(g, u) \<in> (succs nb)\<^sup>+" by blast
      with that(2) show ?thesis by (simp add: trancl_into_trancl)
    qed
    with "2.IH" [OF _ _ loop ok] False show ?thesis by blast
  qed
next
  case (3 k nb m)
  then show ?case by simp
next
  case (4 k nb v vs m)
  show ?case
  proof (cases "dfs k nb v m")
    case None
    with "4.prems" show ?thesis by simp
  next
    case (Some r)
    obtain b m1 where r: "r = (b, m1)" by (cases r)
    show ?thesis
    proof (cases b)
      case True
      with Some r "4.prems" "4.IH"(1) [of m1] show ?thesis by auto
    next
      case False
      with Some r have d: "dfs k nb v m = Some (False, m1)" by simp
      with "4.prems"(1) have l: "dfs_loop k nb vs m1 = Some (True, m')" by simp
      from dfs_False [OF d "4.prems"(2)] have "marks_ok nb m1" "open_nodes m1 = open_nodes m"
        by auto
      with "4.IH"(2) [OF d _ _ l] "4.prems"(3) show ?thesis by auto
    qed
  qed
qed

text \<open>Marks only grow, and fuel above the number of unvisited nodes is enough.\<close>

lemma dfs_mono:
  "dfs k nb u m = Some (b, m') \<Longrightarrow> fst m \<subseteq> fst m'"
  and dfs_loop_mono:
  "dfs_loop k nb vs m = Some (b, m') \<Longrightarrow> fst m \<subseteq> fst m'"
proof (induction k nb u m and k nb vs m arbitrary: b m' and b m' rule: dfs_dfs_loop.induct)
  case (2 k nb u m)
  show ?case
  proof (cases "u \<in> snd m \<or> u \<in> fst m")
    case True
    with "2.prems" show ?thesis by (auto split: if_splits)
  next
    case False
    with "2.prems" obtain c m1 where
      "dfs_loop k nb (nb u) (insert u (fst m), snd m) = Some (c, m1)" and "fst m' = fst m1"
      by (auto split: option.splits bool.splits)
    with "2.IH" False show ?thesis by auto
  qed
next
  case (4 k nb v vs m)
  then obtain c m1 where d: "dfs k nb v m = Some (c, m1)" by (auto split: option.splits)
  show ?case
  proof (cases c)
    case True
    with d "4" show ?thesis by auto
  next
    case False
    with d "4.prems" have "dfs_loop k nb vs m1 = Some (b, m')" by simp
    with "4.IH"(2) [of "(c, m1)" c m1] "4.IH"(1) [OF d] d False show ?thesis by auto
  qed
qed auto

lemma dfs_enough_fuel:
  "card ({..<n} - fst m) < k \<Longrightarrow> u < n \<Longrightarrow> (\<forall>x < n. \<forall>y \<in> set (nb x). y < n) \<Longrightarrow>
     \<exists>r. dfs k nb u m = Some r"
  and dfs_loop_enough_fuel:
  "card ({..<n} - fst m) < k \<Longrightarrow> (\<forall>v \<in> set vs. v < n) \<Longrightarrow> (\<forall>x < n. \<forall>y \<in> set (nb x). y < n) \<Longrightarrow>
     \<exists>r. dfs_loop k nb vs m = Some r"
proof (induction k nb u m and k nb vs m rule: dfs_dfs_loop.induct)
  case (1 nb u m)
  then show ?case by simp
next
  case (2 k nb u m)
  show ?case
  proof (cases "u \<in> snd m \<or> u \<in> fst m")
    case True
    then show ?thesis by auto
  next
    case False
    have "{..<n} - insert u (fst m) \<subset> {..<n} - fst m"
      using False "2.prems"(2) by auto
    then have "card ({..<n} - insert u (fst m)) < card ({..<n} - fst m)"
      by (intro psubset_card_mono) auto
    with "2.prems"(1) have "card ({..<n} - insert u (fst m)) < k" by simp
    with "2.IH" False "2.prems"(2,3) 
    have "\<exists>r. dfs_loop k nb (nb u) (insert u (fst m), snd m) = Some r" by auto
    with False show ?thesis by (auto split: bool.splits)
  qed
next
  case (3 k nb m)
  show ?case by (intro exI) (rule dfs_loop.simps)
next
  case (4 k nb v vs m)
  then obtain b m1 where d: "dfs k nb v m = Some (b, m1)" by auto
  have "card ({..<n} - fst m1) \<le> card ({..<n} - fst m)"
    using dfs_mono [OF d] by (intro card_mono) auto
  with "4.prems"(1) have lt: "card ({..<n} - fst m1) < k" by simp
  show ?case
  proof (cases b)
    case True
    with d show ?thesis by auto
  next
    case False
    with "4.IH"(2) [of "(b, m1)" b m1] d lt "4.prems"(2,3) show ?thesis by auto
  qed
qed

lemma has_cycle_correct:
  assumes "\<forall>x < n. \<forall>y \<in> set (nb x). y < n" and "\<forall>x \<ge> n. nb x = []"
  shows "has_cycle (Suc n) nb [0..<n] = Some (\<exists>x. (x, x) \<in> (succs nb)\<^sup>+)"
proof -
  have "\<exists>r. dfs_loop (Suc n) nb [0..<n] ({}, {}) = Some r"
    by (rule dfs_loop_enough_fuel [where n = n]) (use assms(1) in auto)
  then obtain b m where r: "dfs_loop (Suc n) nb [0..<n] ({}, {}) = Some (b, m)" by auto
  have ok: "marks_ok nb ({}, {})" and op: "open_nodes ({}, {}) = {}"
    by (simp_all add: marks_ok_def open_nodes_def)
  have "b \<longleftrightarrow> (\<exists>x. (x, x) \<in> (succs nb)\<^sup>+)"
  proof (cases b)
    case True
    with dfs_loop_True [of "Suc n" nb "[0..<n]" _ m] r ok op show ?thesis by auto
  next
    case False
    with r have "dfs_loop (Suc n) nb [0..<n] ({}, {}) = Some (False, m)" by simp
    from dfs_loop_False [OF this ok] have fin: "marks_ok nb m" "set [0..<n] \<subseteq> snd m" by simp_all
    have "x < n" if "(x, x) \<in> (succs nb)\<^sup>+" for x
      using tranclD [OF that] assms(2) by (cases "x < n") auto
    then have "x \<in> snd m" if "(x, x) \<in> (succs nb)\<^sup>+" for x
      using fin(2) that by auto
    with fin(1) False show ?thesis by (auto simp: marks_ok_def)
  qed
  with r show ?thesis by (simp add: has_cycle_def)
qed

subsection \<open>Correctness of the cuts\<close>

text \<open>The edges left when those at the positions \<open>S\<close> are removed, and whether that breaks all cycles.\<close>

definition edges_without :: "'n graph \<Rightarrow> nat set \<Rightarrow> (nat \<times> nat) set" where
  "edges_without g S = {g_edges g ! i | i. i < length (g_edges g) \<and> i \<notin> S}"

definition breaks_cycles :: "'n graph \<Rightarrow> nat set \<Rightarrow> bool" where
  "breaks_cycles g S \<longleftrightarrow> acyclic (edges_without g S)"

definition edge_weights :: "'n graph \<Rightarrow> nat \<Rightarrow> 'n \<times> 'n" where
  "edge_weights g i = (g_nodes g ! fst (g_edges g ! i), g_nodes g ! snd (g_edges g ! i))"

lemma set_trimmed_edges [simp]: "set (trimmed_edges (g_edges g) S) = edges_without g (set S)"
  by (auto simp: trimmed_edges_def edges_without_def)

lemma edges_without_subset: "edges_without g S \<subseteq> set (g_edges g)"
  by (auto simp: edges_without_def)

lemma succs_neighbors: "neighbors_spec nbrs \<Longrightarrow> succs (nbrs es) = set es"
  by (auto simp: neighbors_spec_def succs_def)

lemma has_cycle_trimmed:
  assumes "wf_graph g" and "neighbors_spec nbrs"
  shows "has_cycle (Suc (length (g_nodes g))) (nbrs (trimmed_edges (g_edges g) S))
           [0..<length (g_nodes g)] = Some (\<not> breaks_cycles g (set S))"
proof -
  let ?nb = "nbrs (trimmed_edges (g_edges g) S)"
  have nb: "set (?nb x) = edges_without g (set S) `` {x}" for x
    using assms(2) by (simp add: neighbors_spec_def)
  have range: "x < length (g_nodes g) \<and> y < length (g_nodes g)" if "y \<in> set (?nb x)" for x y
    using that assms(1) edges_without_subset [of g "set S"] by (auto simp: nb wf_graph_def)
  then have "?nb x = []" if "x \<ge> length (g_nodes g)" for x
    using that by (metis last_in_set leD)
  with range have "has_cycle (Suc (length (g_nodes g))) ?nb [0..<length (g_nodes g)]
      = Some (\<exists>x. (x, x) \<in> (succs ?nb)\<^sup>+)"
    by (intro has_cycle_correct) auto
  then show ?thesis
    by (simp add: succs_neighbors [OF assms(2)] breaks_cycles_def acyclic_def)
qed

lemma break_loop_simp:
  assumes "wf_graph g" and "neighbors_spec nbrs"
  shows "break_loop nbrs g (S # rest) m =
    (if length S > m then Some []
     else if breaks_cycles g (set S)
       then map_option (Cons (remdups (map (edge_weights g) S))) (break_loop nbrs g rest (length S))
       else break_loop nbrs g rest m)"
  by (simp add: has_cycle_trimmed [OF assms] edge_weights_def [abs_def])

lemmas break_loop_simps = break_loop.simps(1) break_loop_simp
declare break_loop.simps(2) [simp del]

lemma break_loop_total:
  assumes "wf_graph g" and "neighbors_spec nbrs"
  shows "\<exists>cuts. break_loop nbrs g sets m = Some cuts"
  by (induction sets arbitrary: m) (auto simp: break_loop_simps assms)

text \<open>Once a breaking set of size \<open>m\<close> is known, the loop collects those of that size.\<close>

lemma break_loop_known:
  assumes "wf_graph g" and "neighbors_spec nbrs"
    and "sorted (map length sets)" and "\<forall>S \<in> set sets. m \<le> length S"
  shows "break_loop nbrs g sets m =
    Some (map (\<lambda>S. remdups (map (edge_weights g) S))
      (filter (\<lambda>S. length S = m \<and> breaks_cycles g (set S)) sets))"
  using assms(3,4)
proof (induction sets)
  case Nil
  then show ?case by simp
next
  case (Cons S sets)
  show ?case
  proof (cases "length S > m")
    case True
    with Cons.prems have "\<forall>T \<in> set (S # sets). length T \<noteq> m" by fastforce
    then have "filter (\<lambda>S. length S = m \<and> breaks_cycles g (set S)) (S # sets) = []"
      by (auto simp: filter_empty_conv)
    with True show ?thesis by (simp add: break_loop_simps assms)
  next
    case False
    with Cons show ?thesis by (auto simp: break_loop_simps assms)
  qed
qed

text \<open>The whole loop: all breaking sets of the least size there is.\<close>

lemma break_loop_minimal:
  assumes "wf_graph g" and "neighbors_spec nbrs"
    and "sorted (map length sets)" and "\<forall>S \<in> set sets. length S \<le> m"
    and "\<exists>S \<in> set sets. breaks_cycles g (set S)"
  shows "\<exists>k. break_loop nbrs g sets m =
      Some (map (\<lambda>S. remdups (map (edge_weights g) S))
        (filter (\<lambda>S. length S = k \<and> breaks_cycles g (set S)) sets)) \<and>
    (\<forall>S \<in> set sets. breaks_cycles g (set S) \<longrightarrow> k \<le> length S) \<and>
    (\<exists>S \<in> set sets. breaks_cycles g (set S) \<and> k = length S)"
  using assms(3-5)
proof (induction sets)
  case Nil
  then show ?case by simp
next
  case (Cons S sets)
  show ?case
  proof (cases "breaks_cycles g (set S)")
    case True
    have "break_loop nbrs g sets (length S) =
        Some (map (\<lambda>S. remdups (map (edge_weights g) S))
          (filter (\<lambda>T. length T = length S \<and> breaks_cycles g (set T)) sets))"
      using Cons.prems by (intro break_loop_known) (auto simp: assms)
    with True Cons.prems show ?thesis
      by (intro exI [of _ "length S"]) (auto simp: break_loop_simps assms)
  next
    case False
    with Cons show ?thesis by (auto simp: break_loop_simps assms)
  qed
qed

definition minimum_cut :: "'n graph \<Rightarrow> nat set \<Rightarrow> bool" where
  "minimum_cut g S \<longleftrightarrow>
     S \<subseteq> {..<length (g_edges g)} \<and> breaks_cycles g S \<and>
     (\<forall>T \<subseteq> {..<length (g_edges g)}. breaks_cycles g T \<longrightarrow> card S \<le> card T)"

lemma breaks_all_edges: "breaks_cycles g {..<length (g_edges g)}"
  by (simp add: breaks_cycles_def edges_without_def acyclic_def)

lemma powerset_facts:
  assumes "powerset_spec powerset"
  shows "sorted (map length (powerset [0..<n]))"
    and "set ` set (powerset [0..<n]) = Pow {..<n}"
    and "\<And>S. S \<in> set (powerset [0..<n]) \<Longrightarrow> card (set S) = length S"
    and "\<And>S. S \<in> set (powerset [0..<n]) \<Longrightarrow> length S \<le> n"
proof -
  note ps = assms [unfolded powerset_spec_def, rule_format, of "[0..<n]", simplified]
  show "sorted (map length (powerset [0..<n]))" using ps by simp
  show sets: "set ` set (powerset [0..<n]) = Pow {..<n}"
    using ps by (simp add: atLeast0LessThan)
  show card: "card (set S) = length S" if "S \<in> set (powerset [0..<n])" for S
    using that ps by (auto simp: distinct_card)
  show "length S \<le> n" if "S \<in> set (powerset [0..<n])" for S
  proof -
    have "set S \<subseteq> {..<n}" using that sets by blast
    then have "card (set S) \<le> n" using card_mono [of "{..<n}"] by fastforce
    with card [OF that] show ?thesis by simp
  qed
qed

text \<open>
  C39: \<open>edges_to_break_cycle\<close> returns, and the edge sets it returns are exactly the sets of edges
  of least size whose removal leaves the graph without a cycle; there is at least one.
\<close>

theorem edges_to_break_cycle_minimum:
  assumes wf: "wf_graph g" and nb: "neighbors_spec nbrs" and ps: "powerset_spec powerset"
    and "length (g_edges g) \<le> USIZE_MAX"
  shows "\<exists>cuts. edges_to_break_cycle nbrs powerset g = Some cuts \<and> cuts \<noteq> [] \<and>
    set ` set cuts = {edge_weights g ` S | S. minimum_cut g S}"
proof -
  let ?n = "length (g_edges g)" and ?sets = "powerset [0..<length (g_edges g)]"
  note facts = powerset_facts [OF ps, where n = "length (g_edges g)"]
  note sorted = facts(1) and sets = facts(2) and card = facts(3) and len = facts(4)
  from len assms(4) have bound: "\<forall>S \<in> set ?sets. length S \<le> USIZE_MAX" by fastforce
  obtain S0 where "S0 \<in> set ?sets" and "set S0 = {..<?n}"
    using sets by (metis Pow_top imageE)
  then have ex: "\<exists>S \<in> set ?sets. breaks_cycles g (set S)"
    using breaks_all_edges [of g] by metis
  from break_loop_minimal [OF wf nb sorted bound ex] obtain k where
    res: "edges_to_break_cycle nbrs powerset g =
      Some (map (\<lambda>S. remdups (map (edge_weights g) S))
        (filter (\<lambda>S. length S = k \<and> breaks_cycles g (set S)) ?sets))" and
    least: "\<forall>S \<in> set ?sets. breaks_cycles g (set S) \<longrightarrow> k \<le> length S" and
    attained: "\<exists>S \<in> set ?sets. breaks_cycles g (set S) \<and> k = length S"
    unfolding edges_to_break_cycle_def by blast
  have min: "minimum_cut g (set S) \<longleftrightarrow> length S = k \<and> breaks_cycles g (set S)"
    if S: "S \<in> set ?sets" for S
  proof -
    have sub: "set S \<subseteq> {..<?n}" using S sets by blast
    have "k \<le> card T" if "T \<subseteq> {..<?n}" and "breaks_cycles g T" for T
      using that least card sets by (metis Pow_iff imageE)
    moreover obtain A where "A \<in> set ?sets" "breaks_cycles g (set A)" "k = card (set A)"
      using attained card by metis
    then have "card (set S) \<le> k" if "minimum_cut g (set S)"
      using that sets unfolding minimum_cut_def by blast
    ultimately show ?thesis
      using sub card [OF S] unfolding minimum_cut_def by (metis order_antisym)
  qed
  let ?cuts = "map (\<lambda>S. remdups (map (edge_weights g) S))
        (filter (\<lambda>S. length S = k \<and> breaks_cycles g (set S)) ?sets)"
  have "set ` set ?cuts = (\<lambda>S. edge_weights g ` set S) ` {S \<in> set ?sets. minimum_cut g (set S)}"
    using min by (auto simp: image_image)
  also have "\<dots> = (\<lambda>S. edge_weights g ` S) ` {S \<in> set ` set ?sets. minimum_cut g S}"
    by auto
  also have "\<dots> = {edge_weights g ` S | S. minimum_cut g S}"
    unfolding sets by (auto simp: minimum_cut_def)
  finally have "set ` set ?cuts = {edge_weights g ` S | S. minimum_cut g S}" .
  moreover have "?cuts \<noteq> []" using attained by (auto simp: filter_empty_conv)
  ultimately show ?thesis using res by blast
qed

subsection \<open>Correctness of the validation\<close>

lemma opt_map_total: "(\<forall>x \<in> set xs. \<exists>y. f x = Some y) \<Longrightarrow> \<exists>ys. opt_map f xs = Some ys"
  by (induction xs) auto

lemma opt_map_Some_list_all2: "opt_map f xs = Some ys \<longleftrightarrow> list_all2 (\<lambda>x y. f x = Some y) xs ys"
  by (induction xs arbitrary: ys) (auto simp: list_all2_Cons1 split: option.splits)

lemma opt_map_length: "opt_map f xs = Some ys \<Longrightarrow> length ys = length xs"
  by (induction xs arbitrary: ys) (auto split: option.splits)

lemma join_with_eq_Nil: "join_with sep (x # xs) = [] \<Longrightarrow> x = []"
  by (cases xs) auto

lemma cycle_lines_empty:
  "join_with sep (map (cycle_line disp g) cycles) = [] \<longleftrightarrow> cycles = []"
  by (cases cycles) (auto dest: join_with_eq_Nil simp: cycle_line_def)

lemma first_self_edge_None: "first_self_edge es = None \<longleftrightarrow> (\<forall>a. (a, a) \<notin> set es)"
  by (induction es rule: first_self_edge.induct) auto

lemma first_self_edge_Some: "first_self_edge es = Some a \<Longrightarrow> (a, a) \<in> set es"
  by (induction es rule: first_self_edge.induct) (auto split: if_splits)

lemma cycles_total:
  assumes "neighbors_spec (pg_neighbors pg)" and "retain_spec (pg_retain_nodes pg) g"
  shows "\<exists>cycles. cycles_and_cut_candidates pg g = Some cycles \<and>
    (cycles = [] \<longleftrightarrow> (\<forall>c \<in> set (pg_tarjan_scc pg g). length c \<le> 1))"
proof -
  have total: "\<exists>c. edges_to_break_cycle (pg_neighbors pg) ps (pg_retain_nodes pg g P) = Some c" for P ps
    unfolding edges_to_break_cycle_def
    by (rule break_loop_total) (use assms in \<open>auto simp: retain_spec_def\<close>)
  let ?f = "\<lambda>nodes. map_option (\<lambda>cuts. \<lparr>cy_nodes = nodes, cy_cuts = cuts\<rparr>)
      (edges_to_break_cycle (pg_neighbors pg) (pg_powerset pg)
        (pg_retain_nodes pg g (\<lambda>n. n \<in> set nodes)))"
  let ?xs = "filter (\<lambda>cycle. length cycle > 1) (pg_tarjan_scc pg g)"
  have "\<forall>x \<in> set ?xs. \<exists>y. ?f x = Some y" using total by auto
  from opt_map_total [OF this] obtain cycles where c: "opt_map ?f ?xs = Some cycles" ..
  from opt_map_length [OF c] have "cycles = [] \<longleftrightarrow> ?xs = []" by (metis length_0_conv)
  with c show ?thesis
    unfolding cycles_and_cut_candidates_def by (auto simp: filter_empty_conv not_less)
qed

text \<open>Two different nodes reach each other exactly when some component has two nodes.\<close>

lemma tarjan_two:
  assumes "wf_graph g" and spec: "tarjan_spec g sccs"
  shows "(\<exists>c \<in> set sccs. length c > 1) \<longleftrightarrow>
    (\<exists>u v. u \<noteq> v \<and> (u, v) \<in> (set (g_edges g))\<^sup>* \<and> (v, u) \<in> (set (g_edges g))\<^sup>*)"
proof
  assume "\<exists>c \<in> set sccs. length c > 1"
  then obtain c where c: "c \<in> set sccs" "length c > 1" by blast
  then have "distinct c" using spec by (simp add: tarjan_spec_def)
  with c(2) have "hd c \<noteq> hd (tl c)" "hd c \<in> set c" "hd (tl c) \<in> set c"
    by (cases c; cases "tl c"; auto)+
  with c(1) spec show "\<exists>u v. u \<noteq> v \<and> (u, v) \<in> (set (g_edges g))\<^sup>* \<and> (v, u) \<in> (set (g_edges g))\<^sup>*"
    unfolding tarjan_spec_def by blast
next
  assume "\<exists>u v. u \<noteq> v \<and> (u, v) \<in> (set (g_edges g))\<^sup>* \<and> (v, u) \<in> (set (g_edges g))\<^sup>*"
  then obtain u v where uv: "u \<noteq> v" "(u, v) \<in> (set (g_edges g))\<^sup>*" "(v, u) \<in> (set (g_edges g))\<^sup>*"
    by blast
  have src: "x < length (g_nodes g)" if "x \<noteq> y" "(x, y) \<in> (set (g_edges g))\<^sup>*" for x y
    using that(2)
    by (cases rule: converse_rtranclE) (use that(1) assms(1) in \<open>auto simp: wf_graph_def\<close>)
  have lt: "u < length (g_nodes g)" "v < length (g_nodes g)"
    using src [OF uv(1,2)] src [OF uv(1) [symmetric] uv(3)] by simp_all
  with spec obtain c where c: "c \<in> set sccs" "u \<in> set c" by (auto simp: tarjan_spec_def)
  with spec uv lt have "v \<in> set c" unfolding tarjan_spec_def by blast
  with c(2) uv(1) have "length c > 1"
    by (cases c; cases "tl c") auto
  with c(1) show "\<exists>c \<in> set sccs. length c > 1" by blast
qed

lemma acyclic_iff_no_pair:
  "acyclic r \<longleftrightarrow> (\<forall>a. (a, a) \<notin> r) \<and> \<not> (\<exists>u v. u \<noteq> v \<and> (u, v) \<in> r\<^sup>* \<and> (v, u) \<in> r\<^sup>*)"
proof
  assume "acyclic r"
  then show "(\<forall>a. (a, a) \<notin> r) \<and> \<not> (\<exists>u v. u \<noteq> v \<and> (u, v) \<in> r\<^sup>* \<and> (v, u) \<in> r\<^sup>*)"
    by (auto simp: acyclic_def) (metis rtranclD trancl_rtrancl_trancl)
next
  assume r: "(\<forall>a. (a, a) \<notin> r) \<and> \<not> (\<exists>u v. u \<noteq> v \<and> (u, v) \<in> r\<^sup>* \<and> (v, u) \<in> r\<^sup>*)"
  have "(x, x) \<notin> r\<^sup>+" for x
  proof
    assume "(x, x) \<in> r\<^sup>+"
    then obtain y where "(x, y) \<in> r" "(y, x) \<in> r\<^sup>*" by (auto dest: tranclD)
    with r show False by (cases "x = y") auto
  qed
  then show "acyclic r" by (simp add: acyclic_def)
qed

lemma validate_graph_result:
  assumes wf: "wf_graph g" and nb: "neighbors_spec (pg_neighbors pg)"
    and tarjan: "tarjan_spec g (pg_tarjan_scc pg g)" and retain: "retain_spec (pg_retain_nodes pg) g"
  shows "\<exists>r. validate_graph pg disp g = Some r \<and>
    (r = Inr () \<longleftrightarrow> acyclic_graph g) \<and>
    ((\<exists>lines. r = Inl (CyclicDependencies lines)) \<longleftrightarrow>
      (\<exists>u v. u \<noteq> v \<and> (u, v) \<in> (set (g_edges g))\<^sup>* \<and> (v, u) \<in> (set (g_edges g))\<^sup>*)) \<and>
    (\<forall>s. r = Inl (SelfDependency s) \<longrightarrow> (\<exists>a. (a, a) \<in> set (g_edges g) \<and> s = disp (g_nodes g ! a)))"
proof -
  from cycles_total [OF nb retain] obtain cycles where
    c: "cycles_and_cut_candidates pg g = Some cycles" and
    empty: "cycles = [] \<longleftrightarrow> (\<forall>c \<in> set (pg_tarjan_scc pg g). length c \<le> 1)" by blast
  have pair: "cycles \<noteq> [] \<longleftrightarrow>
      (\<exists>u v. u \<noteq> v \<and> (u, v) \<in> (set (g_edges g))\<^sup>* \<and> (v, u) \<in> (set (g_edges g))\<^sup>*)"
    unfolding tarjan_two [OF wf tarjan, symmetric] empty by (auto simp: not_le)
  define r where "r = the (validate_graph pg disp g)"
  have v: "validate_graph pg disp g = Some r"
    by (simp add: validate_graph_def c r_def)
  have r: "r = (if cycles \<noteq> [] then Inl (CyclicDependencies
        (join_with [CHR 0x0A] (map (cycle_line disp g) cycles)))
      else case first_self_edge (g_edges g) of Some a \<Rightarrow> Inl (SelfDependency (disp (g_nodes g ! a)))
        | None \<Rightarrow> Inr ())"
    by (simp add: r_def validate_graph_def c cycle_lines_empty)
  have "r = Inr () \<longleftrightarrow> acyclic_graph g"
    unfolding r acyclic_graph_def acyclic_iff_no_pair pair [symmetric]
      first_self_edge_None [symmetric] by (auto split: option.splits)
  moreover have "(\<exists>lines. r = Inl (CyclicDependencies lines)) \<longleftrightarrow> cycles \<noteq> []"
    unfolding r by (auto split: option.splits)
  moreover have "\<exists>a. (a, a) \<in> set (g_edges g) \<and> s = disp (g_nodes g ! a)"
    if "r = Inl (SelfDependency s)" for s
    using that unfolding r by (auto split: option.splits if_splits dest: first_self_edge_Some)
  ultimately show ?thesis using v pair by blast
qed

text \<open>
  C6: on a graph with in-range edges, \<open>validate_graph\<close> always returns; it accepts exactly the
  acyclic graphs, reports a cyclic dependency exactly when two different nodes depend on each
  other, and otherwise names a node that depends on itself.
\<close>

theorem validate_graph_correct:
  assumes wf: "wf_graph g" and nb: "neighbors_spec (pg_neighbors pg)"
    and tarjan: "tarjan_spec g (pg_tarjan_scc pg g)" and retain: "retain_spec (pg_retain_nodes pg) g"
  shows "\<exists>r. validate_graph pg disp g = Some r \<and>
    (r = Inr () \<longleftrightarrow> acyclic_graph g) \<and>
    ((\<exists>lines. r = Inl (CyclicDependencies lines)) \<longleftrightarrow>
      (\<exists>u v. u \<noteq> v \<and> (u, v) \<in> (set (g_edges g))\<^sup>* \<and> (v, u) \<in> (set (g_edges g))\<^sup>*)) \<and>
    (\<forall>s. r = Inl (SelfDependency s) \<longrightarrow> (\<exists>a. (a, a) \<in> set (g_edges g) \<and> s = disp (g_nodes g ! a)))"
  using assms by (rule validate_graph_result)

subsection \<open>Closures\<close>

lemma wf_graph_reach:
  assumes "wf_graph g" and "(a, b) \<in> (set (g_edges g))\<^sup>*"
  shows "a < length (g_nodes g) \<longleftrightarrow> b < length (g_nodes g)"
  using assms(2)
proof (induction rule: rtrancl_induct)
  case base
  show ?case by simp
next
  case (step y z)
  with assms(1) show ?case by (auto simp: wf_graph_def)
qed

lemma set_reversed: "set (map (\<lambda>(a, b). (b, a)) es) = (set es)\<inverse>"
  by auto

lemma transitive_closure_Outgoing:
  assumes "wf_graph g" and "discover_spec discover" and "\<forall>i \<in> set indices. i < length (g_nodes g)"
  shows "transitive_closure discover g indices Outgoing =
      Some {g_nodes g ! n | n. \<exists>i \<in> set indices. (i, n) \<in> (set (g_edges g))\<^sup>*}"
proof -
  have d: "set (discover (g_edges g) indices) = (set (g_edges g))\<^sup>* `` set indices"
    using assms(2) by (simp add: discover_spec_def)
  have "n < length (g_nodes g)" if "n \<in> (set (g_edges g))\<^sup>* `` set indices" for n
    using that assms(3) wf_graph_reach [OF assms(1)] by blast
  then show ?thesis by (auto simp: transitive_closure_def d Image_def Bex_def)
qed

lemma transitive_closure_Incoming:
  assumes "wf_graph g" and "discover_spec discover" and "\<forall>i \<in> set indices. i < length (g_nodes g)"
  shows "transitive_closure discover g indices Incoming =
      Some {g_nodes g ! n | n. \<exists>i \<in> set indices. (n, i) \<in> (set (g_edges g))\<^sup>*}"
proof -
  have d: "set (discover (map (\<lambda>(a, b). (b, a)) (g_edges g)) indices) =
      ((set (g_edges g))\<inverse>)\<^sup>* `` set indices"
    using assms(2) unfolding discover_spec_def by (metis set_reversed)
  have "n < length (g_nodes g)" if "n \<in> ((set (g_edges g))\<inverse>)\<^sup>* `` set indices" for n
    using that assms(3) wf_graph_reach [OF assms(1)] by (auto simp: rtrancl_converse)
  then show ?thesis by (auto simp: transitive_closure_def d rtrancl_converse)
qed

text \<open>
  from start nodes of the graph, \<open>transitive_closure\<close> returns without panicking the weights
  of exactly the nodes that are reachable along the edges, or against them for \<open>Incoming\<close>.
\<close>

theorem transitive_closure_reachable:
  assumes "wf_graph g" and "discover_spec discover" and "\<forall>i \<in> set indices. i < length (g_nodes g)"
  shows "transitive_closure discover g indices Outgoing =
      Some {g_nodes g ! n | n. \<exists>i \<in> set indices. (i, n) \<in> (set (g_edges g))\<^sup>*} \<and>
    transitive_closure discover g indices Incoming =
      Some {g_nodes g ! n | n. \<exists>i \<in> set indices. (n, i) \<in> (set (g_edges g))\<^sup>*}"
  using transitive_closure_Outgoing [OF assms] transitive_closure_Incoming [OF assms] ..

subsection \<open>Instances of the parameters\<close>

text \<open>Functions that behave as documented, so that the hypotheses above can hold together.\<close>

definition list_neighbors :: "(nat \<times> nat) list \<Rightarrow> nat \<Rightarrow> nat list" where
  "list_neighbors es u = map snd (filter (\<lambda>e. fst e = u) es)"

definition sorted_subseqs :: "nat list \<Rightarrow> nat list list" where
  "sorted_subseqs xs = sort_key length (subseqs xs)"

definition mutual_sccs :: "'n graph \<Rightarrow> nat list list" where
  "mutual_sccs g =
     map (\<lambda>u. filter (\<lambda>v. (u, v) \<in> (set (g_edges g))\<^sup>* \<and> (v, u) \<in> (set (g_edges g))\<^sup>*)
        [0..<length (g_nodes g)]) [0..<length (g_nodes g)]"

definition clear_retain :: "'n graph \<Rightarrow> (nat \<Rightarrow> bool) \<Rightarrow> 'n graph" where
  "clear_retain g P =
     g\<lparr>g_edges := filter (\<lambda>(a, b). P a \<and> P b) (g_edges g)\<rparr>"

definition sample_petgraph :: "'n petgraph" where
  "sample_petgraph = \<lparr>pg_neighbors = list_neighbors, pg_powerset = sorted_subseqs,
     pg_tarjan_scc = mutual_sccs, pg_retain_nodes = clear_retain\<rparr>"

definition reach_discover :: "(nat \<times> nat) list \<Rightarrow> nat list \<Rightarrow> nat list" where
  "reach_discover es starts = sorted_list_of_set ((set es)\<^sup>* `` set starts)"

lemma list_neighbors_spec: "neighbors_spec list_neighbors"
  by (force simp: neighbors_spec_def list_neighbors_def)

lemma sorted_subseqs_spec: "powerset_spec sorted_subseqs"
proof -
  have "distinct (map set (sort_key length (subseqs xs)))" if "distinct xs" for xs :: "nat list"
    using that distinct_set_subseqs [of xs] by (simp add: distinct_map)
  then show ?thesis
    by (auto simp: powerset_spec_def sorted_subseqs_def subseqs_powset dest: subseqs_distinctD)
qed

lemma mutual_sccs_spec: "tarjan_spec g (mutual_sccs g)"
  by (force simp: tarjan_spec_def mutual_sccs_def intro: rtrancl_trans)

lemma clear_retain_spec: "wf_graph g \<Longrightarrow> retain_spec clear_retain g"
  by (auto simp: retain_spec_def clear_retain_def wf_graph_def)

lemma reach_discover_spec: "discover_spec reach_discover"
proof -
  have "finite ((set es)\<^sup>* `` set starts)" for es :: "(nat \<times> nat) list" and starts
  proof (rule finite_subset)
    show "(set es)\<^sup>* `` set starts \<subseteq> set starts \<union> snd ` set es"
      by (auto elim: rtranclE simp: image_iff) (metis rtranclE snd_conv)
  qed simp
  then show ?thesis by (simp add: discover_spec_def reach_discover_def)
qed

definition sample_cyclic :: "string graph" where
  "sample_cyclic = \<lparr>g_nodes = [''a'', ''b'', ''c''], g_edges = [(0, 1), (1, 2), (2, 1)]\<rparr>"

lemma sample_cyclic_wf: "wf_graph sample_cyclic"
  by (simp add: wf_graph_def sample_cyclic_def)

theorem edges_to_break_cycle_minimum_witness:
  "wf_graph sample_cyclic \<and>
   (\<exists>cuts. edges_to_break_cycle list_neighbors sorted_subseqs sample_cyclic = Some cuts \<and> cuts \<noteq> [] \<and>
     set ` set cuts = {edge_weights sample_cyclic ` S | S. minimum_cut sample_cyclic S})"
  using edges_to_break_cycle_minimum [OF sample_cyclic_wf list_neighbors_spec sorted_subseqs_spec]
    sample_cyclic_wf
  by (simp add: sample_cyclic_def USIZE_MAX_def)

theorem validate_graph_correct_witness:
  "\<exists>r. validate_graph sample_petgraph id sample_cyclic = Some r \<and> r \<noteq> Inr ()"
proof -
  have "(1, 2) \<in> set (g_edges sample_cyclic)" "(2, 1) \<in> set (g_edges sample_cyclic)"
    by (simp_all add: sample_cyclic_def)
  then have "(1, 1) \<in> (set (g_edges sample_cyclic))\<^sup>+" by (blast intro: trancl.intros)
  then have "\<not> acyclic_graph sample_cyclic"
    unfolding acyclic_graph_def acyclic_def by blast
  with validate_graph_correct [OF sample_cyclic_wf, of sample_petgraph id]
  show ?thesis
    using sample_cyclic_wf by (auto simp: sample_petgraph_def list_neighbors_spec mutual_sccs_spec
        clear_retain_spec)
qed

theorem transitive_closure_reachable_witness:
  "transitive_closure reach_discover sample_cyclic [0] Outgoing =
     Some {g_nodes sample_cyclic ! n | n. \<exists>i \<in> set [0]. (i, n) \<in> (set (g_edges sample_cyclic))\<^sup>*}"
  by (rule transitive_closure_reachable [OF sample_cyclic_wf reach_discover_spec, THEN conjunct1])
    (simp add: sample_cyclic_def)

end
