(* ===== verification/Lockfiles.thy ===== *)
theory Lockfiles
  imports Prelude "HOL-Library.Product_Lexorder"
begin

text \<open>
  \<open>nrzrepo-lockfiles/src/lib.rs\<close>: the interface of lockfiles and the closure of a workspace's
  external dependencies. A \<open>dyn Lockfile\<close> is the pair of its two lookups \<open>resolve_package\<close>
  and \<open>all_dependencies\<close>; the locale \<open>lockfile\<close> is the contract the closure relies on. The
  hash maps of dependencies are association lists: their order stands for the iteration order.
\<close>

datatype lf_package = Package (pkg_key: string) (pkg_version: string)

instantiation lf_package :: linorder
begin

definition less_eq_lf_package :: "lf_package \<Rightarrow> lf_package \<Rightarrow> bool" where
  "less_eq_lf_package a b = ((pkg_key a, pkg_version a) \<le> (pkg_key b, pkg_version b))"

definition less_lf_package :: "lf_package \<Rightarrow> lf_package \<Rightarrow> bool" where
  "less_lf_package a b = ((pkg_key a, pkg_version a) < (pkg_key b, pkg_version b))"

instance
  by standard
    (auto simp: less_eq_lf_package_def less_lf_package_def lf_package.expand)

end

datatype dep_path_error =
    NomError string
  | MissingAt string
  | MissingDepVersion string
  | DepPathPanic

datatype pnpm_error =
    DependencyPath dep_path_error
  | MissingInjectedPackage string
  | UnsupportedVersion string

datatype lockfile_error =
    is_MissingWorkspace: MissingWorkspace string
  | MissingPackage string
  | MissingVersion string
  | JsonError string
  | UnsupportedNpmVersion
  | Yarn1SymlParse string
  | BunNotImplemented
  | YamlError string
  | PnpmError pnpm_error
  | LockfilePath string

type_synonym dep_map = "(string \<times> string) list"

type_synonym resolver = "string \<Rightarrow> string \<Rightarrow> string \<Rightarrow> (lockfile_error, lf_package option) result"

type_synonym dep_lookup = "string \<Rightarrow> (lockfile_error, dep_map option) result"

subsection \<open>The closure\<close>

text \<open>
  \<open>transitive_closure_helper\<close>. The result is \<open>None\<close> only when the nesting of calls exceeds
  the fuel; \<open>Some (Inl e)\<close> is the error that the code returns.
\<close>

fun transitive_closure_helper ::
  "resolver \<Rightarrow> dep_lookup \<Rightarrow> string \<Rightarrow> nat \<Rightarrow> bool \<Rightarrow> dep_map \<Rightarrow> lf_package list \<Rightarrow>
    (lockfile_error, lf_package list) result option"
where
  "transitive_closure_helper resolve all_deps ws fuel ignore [] resolved = Some (Inr resolved)"
| "transitive_closure_helper resolve all_deps ws fuel ignore ((name, specifier) # rest) resolved =
     (case resolve ws name specifier of
        Inl e \<Rightarrow>
          if ignore \<and> is_MissingWorkspace e
          then transitive_closure_helper resolve all_deps ws fuel ignore rest resolved
          else Some (Inl e)
      | Inr None \<Rightarrow> transitive_closure_helper resolve all_deps ws fuel ignore rest resolved
      | Inr (Some pkg) \<Rightarrow>
          if pkg \<in> set resolved
          then transitive_closure_helper resolve all_deps ws fuel ignore rest resolved
          else
            (case all_deps (pkg_key pkg) of
               Inl e \<Rightarrow> Some (Inl e)
             | Inr None \<Rightarrow>
                 transitive_closure_helper resolve all_deps ws fuel ignore rest (pkg # resolved)
             | Inr (Some deps) \<Rightarrow>
                 (case fuel of
                    0 \<Rightarrow> None
                  | Suc fuel' \<Rightarrow>
                      (case transitive_closure_helper resolve all_deps ws fuel' False deps (pkg # resolved) of
                         None \<Rightarrow> None
                       | Some (Inl e) \<Rightarrow> Some (Inl e)
                       | Some (Inr resolved') \<Rightarrow>
                           transitive_closure_helper resolve all_deps ws fuel ignore rest resolved'))))"

definition transitive_closure_lock ::
  "resolver \<Rightarrow> dep_lookup \<Rightarrow> nat \<Rightarrow> string \<Rightarrow> dep_map \<Rightarrow> bool \<Rightarrow>
    (lockfile_error, lf_package list) result option"
where
  "transitive_closure_lock resolve all_deps fuel ws unresolved_deps ignore_missing_packages =
     transitive_closure_helper resolve all_deps ws fuel ignore_missing_packages unresolved_deps []"

text \<open>The workspaces in parallel, collected into one map; an error of any of them is returned.\<close>

fun all_transitive_closures ::
  "resolver \<Rightarrow> dep_lookup \<Rightarrow> nat \<Rightarrow> (string \<times> dep_map) list \<Rightarrow> bool \<Rightarrow>
    (lockfile_error, (string \<times> lf_package list) list) result option"
where
  "all_transitive_closures resolve all_deps fuel [] ignore = Some (Inr [])"
| "all_transitive_closures resolve all_deps fuel ((ws, deps) # rest) ignore =
     (case transitive_closure_lock resolve all_deps fuel ws deps ignore of
        None \<Rightarrow> None
      | Some (Inl e) \<Rightarrow> Some (Inl e)
      | Some (Inr closure) \<Rightarrow>
          map_option (\<lambda>r. try_bind r (\<lambda>m. Inr ((ws, closure) # m)))
            (all_transitive_closures resolve all_deps fuel rest ignore))"

subsection \<open>What the closure is\<close>

text \<open>
  \<open>needs ... deps n v\<close>: the pair \<open>(n, v)\<close> is asked for, directly or by a package already found.
\<close>

inductive needs :: "resolver \<Rightarrow> dep_lookup \<Rightarrow> string \<Rightarrow> dep_map \<Rightarrow> string \<Rightarrow> string \<Rightarrow> bool"
  for resolve all_deps ws deps
where
  direct: "(n, v) \<in> set deps \<Longrightarrow> needs resolve all_deps ws deps n v"
| through: "needs resolve all_deps ws deps n v \<Longrightarrow> resolve ws n v = Inr (Some pkg) \<Longrightarrow>
    all_deps (pkg_key pkg) = Inr (Some ds) \<Longrightarrow> (n', v') \<in> set ds \<Longrightarrow> needs resolve all_deps ws deps n' v'"

definition in_closure :: "resolver \<Rightarrow> dep_lookup \<Rightarrow> string \<Rightarrow> dep_map \<Rightarrow> lf_package \<Rightarrow> bool" where
  "in_closure resolve all_deps ws deps pkg \<longleftrightarrow>
     (\<exists>n v. needs resolve all_deps ws deps n v \<and> resolve ws n v = Inr (Some pkg))"

text \<open>A set of packages that answers a list of dependencies, and is closed under them.\<close>

definition answers :: "resolver \<Rightarrow> string \<Rightarrow> dep_map \<Rightarrow> lf_package set \<Rightarrow> bool" where
  "answers resolve ws deps R \<longleftrightarrow> (\<forall>(n, v) \<in> set deps. \<forall>p. resolve ws n v = Inr (Some p) \<longrightarrow> p \<in> R)"

definition closed_at :: "resolver \<Rightarrow> dep_lookup \<Rightarrow> string \<Rightarrow> lf_package set \<Rightarrow> lf_package \<Rightarrow> bool" where
  "closed_at resolve all_deps ws R p \<longleftrightarrow>
     (\<exists>ds. all_deps (pkg_key p) = Inr ds \<and>
        (\<forall>d. ds = Some d \<longrightarrow> answers resolve ws d R \<and> (\<forall>(n, v) \<in> set d. \<exists>q. resolve ws n v = Inr q)))"

lemma answers_mono: "answers resolve ws deps R \<Longrightarrow> R \<subseteq> R' \<Longrightarrow> answers resolve ws deps R'"
  by (fastforce simp: answers_def)

lemma closed_at_mono: "closed_at resolve all_deps ws R p \<Longrightarrow> R \<subseteq> R' \<Longrightarrow> closed_at resolve all_deps ws R' p"
  by (fastforce simp: closed_at_def intro: answers_mono [where R = R])

lemma answers_Cons:
  "answers resolve ws ((n, v) # deps) R \<longleftrightarrow>
     (\<forall>p. resolve ws n v = Inr (Some p) \<longrightarrow> p \<in> R) \<and> answers resolve ws deps R"
  by (auto simp: answers_def)

lemma helper_cases [consumes 1, case_names skip resolve_error deps_error leaf nested_error nested]:
  assumes "transitive_closure_helper resolve all_deps ws fuel ignore ((n, v) # rest) r0 = Some res"
  obtains
    (skip) "\<forall>p. resolve ws n v = Inr (Some p) \<longrightarrow> p \<in> set r0"
      "(\<exists>q. resolve ws n v = Inr q) \<or> (ignore \<and> (\<exists>e. resolve ws n v = Inl e \<and> is_MissingWorkspace e))"
      "transitive_closure_helper resolve all_deps ws fuel ignore rest r0 = Some res"
  | (resolve_error) e where "resolve ws n v = Inl e" "res = Inl e"
  | (deps_error) p e where "resolve ws n v = Inr (Some p)" "all_deps (pkg_key p) = Inl e" "res = Inl e"
  | (leaf) p where "resolve ws n v = Inr (Some p)" "all_deps (pkg_key p) = Inr None"
      "transitive_closure_helper resolve all_deps ws fuel ignore rest (p # r0) = Some res"
  | (nested_error) p d fuel' e where "resolve ws n v = Inr (Some p)" "all_deps (pkg_key p) = Inr (Some d)"
      "fuel' < fuel" "transitive_closure_helper resolve all_deps ws fuel' False d (p # r0) = Some (Inl e)" "res = Inl e"
  | (nested) p d fuel' r' where "resolve ws n v = Inr (Some p)" "all_deps (pkg_key p) = Inr (Some d)"
      "fuel' < fuel" "transitive_closure_helper resolve all_deps ws fuel' False d (p # r0) = Some (Inr r')"
      "transitive_closure_helper resolve all_deps ws fuel ignore rest r' = Some res"
  using assms by (auto split: sum.splits option.splits if_splits nat.splits) (blast intro: lessI)+

lemma helper_sound:
  assumes "transitive_closure_helper resolve all_deps ws fuel ignore deps r0 = Some (Inr r)"
  shows "set r0 \<subseteq> set r \<and> answers resolve ws deps (set r) \<and>
    (\<forall>p \<in> set r - set r0. closed_at resolve all_deps ws (set r) p) \<and>
    (\<forall>(n, v) \<in> set deps. (\<exists>q. resolve ws n v = Inr q) \<or>
        (ignore \<and> (\<exists>e. resolve ws n v = Inl e \<and> is_MissingWorkspace e)))"
  using assms
proof (induction fuel arbitrary: ignore deps r0 r rule: less_induct)
  case (less fuel)
  show ?case
    using less.prems
  proof (induction deps arbitrary: r0)
    case Nil
    then show ?case by (simp add: answers_def)
  next
    case (Cons nv rest)
    obtain n v where nv: "nv = (n, v)" by (cases nv)
    from Cons.prems [unfolded nv] show ?case
    proof (cases rule: helper_cases)
      case skip
      then show ?thesis using Cons.IH [of r0] by (auto simp: nv answers_Cons)
    next
      case (leaf p)
      then have "closed_at resolve all_deps ws (set r) p" by (simp add: closed_at_def)
      with leaf Cons.IH [of "p # r0"] show ?thesis by (auto simp: nv answers_Cons)
    next
      case (nested p d fuel' r')
      note i = less.IH [OF nested(3,4)] and o = Cons.IH [OF nested(5)]
      have pkg: "closed_at resolve all_deps ws (set r') p" using i nested(2) by (auto simp: closed_at_def)
      have "closed_at resolve all_deps ws (set r) q" if "q \<in> set r - set r0" for q
      proof (cases "q \<in> set r'")
        case True
        then have "closed_at resolve all_deps ws (set r') q" using i pkg that by (cases "q = p") auto
        then show ?thesis using o by (auto intro: closed_at_mono)
      qed (use o that in blast)
      then show ?thesis using i o nested(1) by (auto simp: nv answers_Cons)
    qed simp_all
  qed
qed

text \<open>Everything found was asked for, and so was what caused an error.\<close>

lemma needs_trans:
  assumes "needs resolve all_deps ws ds n v"
    and "\<And>n v. (n, v) \<in> set ds \<Longrightarrow> needs resolve all_deps ws deps n v"
  shows "needs resolve all_deps ws deps n v"
  using assms by (induction rule: needs.induct) (auto intro: needs.through)

definition fails :: "resolver \<Rightarrow> dep_lookup \<Rightarrow> string \<Rightarrow> dep_map \<Rightarrow> lockfile_error \<Rightarrow> bool" where
  "fails resolve all_deps ws deps e \<longleftrightarrow>
     (\<exists>n v. needs resolve all_deps ws deps n v \<and>
        (resolve ws n v = Inl e \<or>
         (\<exists>pkg. resolve ws n v = Inr (Some pkg) \<and> all_deps (pkg_key pkg) = Inl e)))"

lemma needs_sub:
  assumes "\<And>n v. (n, v) \<in> set ds \<Longrightarrow> needs resolve all_deps ws deps n v"
  shows "in_closure resolve all_deps ws ds p \<Longrightarrow> in_closure resolve all_deps ws deps p"
    and "fails resolve all_deps ws ds e \<Longrightarrow> fails resolve all_deps ws deps e"
proof -
  have "needs resolve all_deps ws deps n v" if "needs resolve all_deps ws ds n v" for n v
    using needs_trans [OF that assms] .
  then show "in_closure resolve all_deps ws ds p \<Longrightarrow> in_closure resolve all_deps ws deps p"
    and "fails resolve all_deps ws ds e \<Longrightarrow> fails resolve all_deps ws deps e"
    unfolding in_closure_def fails_def by blast+
qed

lemma helper_needed:
  assumes "transitive_closure_helper resolve all_deps ws fuel ignore deps r0 = Some res"
  shows "(\<forall>r. res = Inr r \<longrightarrow> (\<forall>p \<in> set r. p \<in> set r0 \<or> in_closure resolve all_deps ws deps p)) \<and>
    (\<forall>e. res = Inl e \<longrightarrow> fails resolve all_deps ws deps e)"
  using assms
proof (induction fuel arbitrary: ignore deps r0 res rule: less_induct)
  case (less fuel)
  show ?case
    using less.prems
  proof (induction deps arbitrary: r0)
    case Nil
    then show ?case by auto
  next
    case (Cons nv rest)
    obtain n v where nv: "nv = (n, v)" by (cases nv)
    have here: "needs resolve all_deps ws (nv # rest) n v" unfolding nv by (rule needs.direct) simp
    have rest: "(a, b) \<in> set rest \<Longrightarrow> needs resolve all_deps ws (nv # rest) a b" for a b
      by (rule needs.direct) simp
    note rest = needs_sub [OF rest]
    from Cons.prems [unfolded nv] show ?case
    proof (cases rule: helper_cases)
      case skip
      then show ?thesis using Cons.IH [of r0] rest by blast
    next
      case (resolve_error e)
      then show ?thesis using here unfolding fails_def by blast
    next
      case (deps_error p e)
      then show ?thesis using here unfolding fails_def by blast
    next
      case (leaf p)
      have "in_closure resolve all_deps ws (nv # rest) p" using here leaf(1) unfolding in_closure_def by blast
      with Cons.IH [OF leaf(3)] rest show ?thesis by (metis set_ConsD)
    next
      case (nested_error p d fuel' e)
      note sub = needs_sub [OF needs.through [OF here nested_error(1,2)]]
      show ?thesis using less.IH [OF nested_error(3,4)] sub nested_error(5) by blast
    next
      case (nested p d fuel' r')
      note sub = needs_sub [OF needs.through [OF here nested(1,2)]]
      have "in_closure resolve all_deps ws (nv # rest) p" using here nested(1) unfolding in_closure_def by blast
      with less.IH [OF nested(3,4)] Cons.IH [OF nested(5)] rest sub show ?thesis by (metis set_ConsD sum.inject(2))
    qed
  qed
qed

lemma closure_exact:
  assumes "transitive_closure_lock resolve all_deps fuel ws deps ignore = Some (Inr r)"
  shows "set r = {p. in_closure resolve all_deps ws deps p}"
proof -
  note run = assms [unfolded transitive_closure_lock_def]
  note sound = helper_sound [OF run]
  have "p \<in> set r" if "needs resolve all_deps ws deps n v" "resolve ws n v = Inr (Some p)" for n v p
    using that
  proof (induction arbitrary: p rule: needs.induct)
    case (direct n v)
    then show ?case using sound unfolding answers_def by blast
  next
    case (through n v pkg ds n' v')
    then have "closed_at resolve all_deps ws (set r) pkg" using sound by simp
    with through have "answers resolve ws ds (set r)" by (auto simp: closed_at_def)
    with through show ?case unfolding answers_def by blast
  qed
  then show ?thesis using helper_needed [OF run] by (auto simp: in_closure_def)
qed

text \<open>
  A closure that is returned left out no error but those it was told to ignore: a missing
  workspace, at a direct dependency.
\<close>

lemma closure_no_error:
  assumes run: "transitive_closure_lock resolve all_deps fuel ws deps ignore = Some (Inr r)"
    and n: "needs resolve all_deps ws deps n v"
  shows "(\<exists>q. resolve ws n v = Inr q) \<or>
    ((n, v) \<in> set deps \<and> ignore \<and> (\<exists>e. resolve ws n v = Inl e \<and> is_MissingWorkspace e))"
    and "resolve ws n v = Inr (Some p) \<Longrightarrow> \<exists>ds. all_deps (pkg_key p) = Inr ds"
proof -
  note sound = helper_sound [OF run [unfolded transitive_closure_lock_def]]
  have closed: "closed_at resolve all_deps ws (set r) p" if "needs resolve all_deps ws deps n v"
    "resolve ws n v = Inr (Some p)" for n v p
    using that sound closure_exact [OF run] by (auto simp: in_closure_def)
  from n show "(\<exists>q. resolve ws n v = Inr q) \<or>
    ((n, v) \<in> set deps \<and> ignore \<and> (\<exists>e. resolve ws n v = Inl e \<and> is_MissingWorkspace e))"
  proof cases
    case direct
    then show ?thesis using sound by blast
  next
    case (through n v pkg ds)
    then show ?thesis using closed [of n v pkg] by (auto simp: closed_at_def)
  qed
  from closed [OF n] show "resolve ws n v = Inr (Some p) \<Longrightarrow> \<exists>ds. all_deps (pkg_key p) = Inr ds"
    by (auto simp: closed_at_def)
qed

subsection \<open>The contract of a lockfile\<close>

text \<open>
  \<open>pkgs l\<close> lists the packages of the lockfile; what a lookup resolves to is one of them.
\<close>

locale lockfile =
  fixes resolve :: "'l \<Rightarrow> resolver" and all_deps :: "'l \<Rightarrow> dep_lookup" and pkgs :: "'l \<Rightarrow> lf_package list"
  assumes resolve_known: "resolve l ws n v = Inr (Some p) \<Longrightarrow> p \<in> set (pkgs l)"
begin

lemma helper_returns:
  "card (set (pkgs l) - set r0) \<le> fuel \<Longrightarrow>
    \<exists>res. transitive_closure_helper (resolve l) (all_deps l) ws fuel ignore deps r0 = Some res"
proof (induction fuel arbitrary: ignore deps r0)
  case 0
  then have none: "resolve l ws n v = Inr (Some p) \<Longrightarrow> p \<in> set r0" for n v p
    using resolve_known [of l ws n v p] by auto
  show ?case
  proof (induction deps)
    case (Cons nv deps)
    obtain n v where "nv = (n, v)" by (cases nv)
    with none [of n v] Cons show ?case by (auto split: sum.splits option.splits)
  qed simp
next
  case (Suc fuel)
  show ?case
    using Suc.prems
  proof (induction deps arbitrary: r0)
    case (Cons nv deps)
    obtain n v where nv: "nv = (n, v)" by (cases nv)
    have fewer: "card (set (pkgs l) - set (p # r0)) \<le> fuel"
      if "resolve l ws n v = Inr (Some p)" "p \<notin> set r0" for p
    proof -
      have "set (pkgs l) - set (p # r0) = (set (pkgs l) - set r0) - {p}" by auto
      moreover have "p \<in> set (pkgs l) - set r0" using that resolve_known by blast
      ultimately show ?thesis using Cons.prems card_Diff_singleton [of p "set (pkgs l) - set r0"] by simp
    qed
    have more: "card (set (pkgs l) - set r') \<le> Suc fuel" if "set r0 \<subseteq> set r'" for r'
      by (rule le_trans [OF card_mono Cons.prems]) (use that in auto)
    show ?case
    proof (cases "resolve l ws n v")
      case (Inl e)
      then show ?thesis using Cons nv by auto
    next
      case (Inr q)
      show ?thesis
      proof (cases "\<exists>p d. q = Some p \<and> p \<notin> set r0 \<and> all_deps l (pkg_key p) = Inr (Some d)")
        case False
        then show ?thesis using Cons.IH [OF Cons.prems] Cons.IH [OF more [OF set_subset_Cons]] nv Inr
          by (auto split: option.splits sum.splits)
      next
        case True
        then obtain p d where p: "q = Some p" "p \<notin> set r0" "all_deps l (pkg_key p) = Inr (Some d)" by blast
        obtain res where res: "transitive_closure_helper (resolve l) (all_deps l) ws fuel False d (p # r0) = Some res"
          using Suc.IH [OF fewer] p Inr by blast
        show ?thesis
        proof (cases res)
          case inr: (Inr r')
          have "set r0 \<subseteq> set r'" using helper_sound [OF res [unfolded inr]] by auto
          from Cons.IH [OF more [OF this]] show ?thesis using nv Inr p res inr by simp
        qed (use nv Inr p res in simp)
      qed
    qed
  qed simp
qed

lemma closure_returns:
  assumes "length (pkgs l) \<le> fuel"
  shows "\<exists>res. transitive_closure_lock (resolve l) (all_deps l) fuel ws deps ignore = Some res"
  unfolding transitive_closure_lock_def
  by (rule helper_returns) (use assms card_length [of "pkgs l"] in simp)

lemma closure_correct:
  assumes "length (pkgs l) \<le> fuel"
  shows "(\<exists>r. transitive_closure_lock (resolve l) (all_deps l) fuel ws deps ignore = Some (Inr r) \<and>
      set r = {p. in_closure (resolve l) (all_deps l) ws deps p}) \<or>
    (\<exists>e. transitive_closure_lock (resolve l) (all_deps l) fuel ws deps ignore = Some (Inl e) \<and>
      fails (resolve l) (all_deps l) ws deps e)"
proof -
  obtain res where res: "transitive_closure_lock (resolve l) (all_deps l) fuel ws deps ignore = Some res"
    using closure_returns [OF assms] by blast
  show ?thesis
    using res closure_exact [of "resolve l" "all_deps l" fuel ws deps ignore]
      helper_needed [OF res [unfolded transitive_closure_lock_def]]
    by (cases res) auto
qed

end

subsection \<open>Pruning\<close>

text \<open>
  What \<open>Lockfile::subgraph\<close> promises of the lockfile it returns: on the workspaces and packages
  it was asked to keep, the two lookups answer as before.
\<close>

locale prunable_lockfile = lockfile +
  fixes subgraph :: "'l \<Rightarrow> string list \<Rightarrow> string list \<Rightarrow> (lockfile_error, 'l) result"
    and wf :: "'l \<Rightarrow> bool"
  assumes prune_resolve:
      "wf l \<Longrightarrow> subgraph l wss keys = Inr l' \<Longrightarrow> ws \<in> set wss \<Longrightarrow> resolve l ws n v = Inr q \<Longrightarrow>
        (\<And>p. q = Some p \<Longrightarrow> pkg_key p \<in> set keys) \<Longrightarrow> resolve l' ws n v = Inr q"
    and prune_deps:
      "wf l \<Longrightarrow> subgraph l wss keys = Inr l' \<Longrightarrow> ws \<in> set wss \<Longrightarrow> k \<in> set keys \<Longrightarrow> all_deps l k = Inr ds \<Longrightarrow>
        resolve l ws n0 v0 = Inr (Some p0) \<Longrightarrow>
        (\<And>d n v p. ds = Some d \<Longrightarrow> (n, v) \<in> set d \<Longrightarrow> resolve l ws n v = Inr (Some p) \<Longrightarrow> pkg_key p \<in> set keys) \<Longrightarrow>
        all_deps l' k = Inr ds"
begin

lemma pruned_needs:
  assumes prune: "wf l" "subgraph l wss keys = Inr l'" "ws \<in> set wss"
    and run: "transitive_closure_lock (resolve l) (all_deps l) fuel ws deps False = Some (Inr r)"
    and keys: "pkg_key ` set r \<subseteq> set keys"
    and n: "needs (resolve l) (all_deps l) ws deps n v"
  shows "resolve l' ws n v = resolve l ws n v"
    and "resolve l ws n v = Inr (Some p) \<Longrightarrow> all_deps l' (pkg_key p) = all_deps l (pkg_key p)"
proof -
  have key: "pkg_key p \<in> set keys"
    if "needs (resolve l) (all_deps l) ws deps n v" "resolve l ws n v = Inr (Some p)" for n v p
    using that keys closure_exact [OF run] by (auto simp: in_closure_def)
  obtain q where q: "resolve l ws n v = Inr q" using closure_no_error(1) [OF run n] by blast
  show "resolve l' ws n v = resolve l ws n v"
    unfolding q by (rule prune_resolve [OF prune q]) (use key [OF n] q in simp)
  assume p: "resolve l ws n v = Inr (Some p)"
  obtain ds where ds: "all_deps l (pkg_key p) = Inr ds" using closure_no_error(2) [OF run n p] by blast
  show "all_deps l' (pkg_key p) = all_deps l (pkg_key p)"
    unfolding ds
    by (rule prune_deps [OF prune key [OF n p] ds p]) (use key needs.through [OF n p] ds in blast)
qed

lemma pruned_closure:
  assumes prune: "wf l" "subgraph l wss keys = Inr l'" "ws \<in> set wss"
    and run: "transitive_closure_lock (resolve l) (all_deps l) fuel ws deps False = Some (Inr r)"
    and keys: "pkg_key ` set r \<subseteq> set keys" and fuel': "length (pkgs l') \<le> fuel'"
  shows "\<exists>r'. transitive_closure_lock (resolve l') (all_deps l') fuel' ws deps False = Some (Inr r') \<and> set r' = set r"
proof -
  note same = pruned_needs [OF prune run keys]
  have fwd: "needs (resolve l') (all_deps l') ws deps n v" if "needs (resolve l) (all_deps l) ws deps n v" for n v
    using that
  proof (induction rule: needs.induct)
    case (through n v pkg ds n' v')
    then show ?case using same [OF through.hyps(1)] by (metis needs.through)
  qed (rule needs.direct)
  have bwd: "needs (resolve l) (all_deps l) ws deps n v" if "needs (resolve l') (all_deps l') ws deps n v" for n v
    using that
  proof (induction rule: needs.induct)
    case (through n v pkg ds n' v')
    then show ?case using same [OF through.IH] by (metis needs.through)
  qed (rule needs.direct)
  have closure: "in_closure (resolve l') (all_deps l') ws deps p \<longleftrightarrow> in_closure (resolve l) (all_deps l) ws deps p" for p
    unfolding in_closure_def using fwd bwd same(1) by metis
  have "\<not> fails (resolve l') (all_deps l') ws deps e" for e
  proof
    assume "fails (resolve l') (all_deps l') ws deps e"
    then obtain n v where n: "needs (resolve l) (all_deps l) ws deps n v"
      and e: "resolve l' ws n v = Inl e \<or> (\<exists>p. resolve l' ws n v = Inr (Some p) \<and> all_deps l' (pkg_key p) = Inl e)"
      using bwd unfolding fails_def by blast
    then show False using closure_no_error [OF run n] same [OF n] by (metis sum.distinct(1))
  qed
  with closure_correct [OF fuel', of ws deps False] closure closure_exact [OF run] show ?thesis by auto
qed

end

end
