(* ===== verification/Package_Graph.thy ===== *)
theory Package_Graph
  imports Task_Id Graph_Utils Lockfiles Paths
begin

text \<open>
  The package graph: \<open>nrzrepo-repository/src/package_graph/mod.rs\<close> and the fields of
  \<open>package_json.rs\<close> it uses. Nodes are packages and a root; edges lead from a package to what it
  depends on. The parameter \<open>discover\<close> is \<open>petgraph\<close>'s depth first search (theory
  \<open>Graph_Utils\<close>). A result \<open>None\<close> of a query that the code wraps in \<open>expect\<close> is a panic.
\<close>

record package_json =
  pj_name :: "string option"
  pj_version :: "string option"
  pj_dependencies :: "(string, string) btree_map option"
  pj_dev_dependencies :: "(string, string) btree_map option"
  pj_optional_dependencies :: "(string, string) btree_map option"
  pj_scripts :: "(string, string spanned) btree_map"

definition package_json_default :: package_json where
  "package_json_default = \<lparr>pj_name = None, pj_version = None, pj_dependencies = None,
     pj_dev_dependencies = None, pj_optional_dependencies = None, pj_scripts = []\<rparr>"

text \<open>\<open>PackageJson::all_dependencies\<close>: the later of two entries is the one of \<open>dependencies\<close>.\<close>

definition pj_all_dependencies :: "package_json \<Rightarrow> (string \<times> string) list" where
  "pj_all_dependencies pj =
     (let entries = (\<lambda>m. case m of Some d \<Rightarrow> d | None \<Rightarrow> [])
      in entries (pj_dev_dependencies pj) @ entries (pj_optional_dependencies pj) @ entries (pj_dependencies pj))"

text \<open>\<open>PackageJson::command\<close>: an empty script does not count.\<close>

definition pj_command :: "package_json \<Rightarrow> string \<Rightarrow> string option" where
  "pj_command pj task =
     (case map_of (pj_scripts pj) task of
        Some s \<Rightarrow> if sp_value s = [] then None else Some (sp_value s)
      | None \<Rightarrow> None)"

record package_info =
  pi_package_json :: package_json
  pi_package_json_path :: string
  pi_unresolved_external_dependencies :: "(string, string) btree_map option"
  pi_transitive_dependencies :: "lf_package list option"

record package_graph =
  pg_graph :: "package_node graph"
  pg_node_lookup :: "(package_node, nat) hash_map"
  pg_packages :: "(package_name, package_info) hash_map"

datatype package_graph_error =
    PackageJsonMissingName string
  | InvalidPackageGraph graph_error

fun validate_names :: "(package_name, package_info) hash_map \<Rightarrow> (package_graph_error, unit) result" where
  "validate_names [] = Inr ()"
| "validate_names ((package_name, info) # rest) =
     (if package_name = RootPkg then validate_names rest
      else case pj_name (pi_package_json info) of
             None \<Rightarrow> Inl (PackageJsonMissingName (pi_package_json_path info))
           | Some n \<Rightarrow>
               if n = [] then Inl (PackageJsonMissingName (pi_package_json_path info))
               else validate_names rest)"

definition package_graph_validate ::
  "package_node petgraph \<Rightarrow> package_graph \<Rightarrow> (package_graph_error, unit) result option"
where
  "package_graph_validate pet pg =
     (case validate_names (pg_packages pg) of
        Inl e \<Rightarrow> Some (Inl e)
      | Inr () \<Rightarrow>
          map_option (\<lambda>r. case r of Inl e \<Rightarrow> Inl (InvalidPackageGraph e) | Inr () \<Rightarrow> Inr ())
            (validate_graph pet package_node_display (pg_graph pg)))"

definition remove_package_dependencies :: "package_graph \<Rightarrow> package_graph option" where
  "remove_package_dependencies pg =
     (case hm_get (pg_node_lookup pg) RootNode of
        None \<Rightarrow> None
      | Some root_index \<Rightarrow>
          Some (pg\<lparr>pg_graph := (pg_graph pg)\<lparr>g_edges :=
            filter (\<lambda>(src, dst). dst = root_index) (g_edges (pg_graph pg))\<rparr>\<rparr>))"

definition package_graph_len :: "package_graph \<Rightarrow> nat" where
  "package_graph_len pg = length (pg_packages pg)"

definition package_info_of :: "package_graph \<Rightarrow> package_name \<Rightarrow> package_info option" where
  "package_info_of pg package = hm_get (pg_packages pg) package"

definition package_json_of :: "package_graph \<Rightarrow> package_name \<Rightarrow> package_json option" where
  "package_json_of pg package = map_option pi_package_json (hm_get (pg_packages pg) package)"

definition weight :: "package_graph \<Rightarrow> nat \<Rightarrow> package_node" where
  "weight pg i = g_nodes (pg_graph pg) ! i"

definition immediate_dependencies :: "package_graph \<Rightarrow> package_node \<Rightarrow> package_node set option" where
  "immediate_dependencies pg package =
     (case hm_get (pg_node_lookup pg) package of
        None \<Rightarrow> None
      | Some index \<Rightarrow> Some {weight pg j | j. (index, j) \<in> set (g_edges (pg_graph pg))})"

definition immediate_ancestors :: "package_graph \<Rightarrow> package_node \<Rightarrow> package_node set option" where
  "immediate_ancestors pg package =
     (case hm_get (pg_node_lookup pg) package of
        None \<Rightarrow> None
      | Some index \<Rightarrow> Some {weight pg j | j. (j, index) \<in> set (g_edges (pg_graph pg))})"

type_synonym discover = "(nat \<times> nat) list \<Rightarrow> nat list \<Rightarrow> nat list"

definition lookup_start :: "package_graph \<Rightarrow> package_node \<Rightarrow> nat list" where
  "lookup_start pg node = (case hm_get (pg_node_lookup pg) node of None \<Rightarrow> [] | Some i \<Rightarrow> [i])"

definition root_internal_dependencies :: "discover \<Rightarrow> package_graph \<Rightarrow> package_node set option" where
  "root_internal_dependencies discover pg =
     map_option (\<lambda>deps. deps - {WorkspaceNode RootPkg})
       (transitive_closure discover (pg_graph pg) (lookup_start pg (WorkspaceNode RootPkg)) Outgoing)"

definition pg_dependencies :: "discover \<Rightarrow> package_graph \<Rightarrow> package_node \<Rightarrow> package_node set option" where
  "pg_dependencies discover pg node =
     (case transitive_closure discover (pg_graph pg) (lookup_start pg node) Outgoing of
        None \<Rightarrow> None
      | Some dependencies \<Rightarrow>
          (case root_internal_dependencies discover pg of
             None \<Rightarrow> None
           | Some root_deps \<Rightarrow> Some ((dependencies \<union> root_deps) - {node})))"

definition pg_ancestors :: "discover \<Rightarrow> package_graph \<Rightarrow> package_node \<Rightarrow> package_node set option" where
  "pg_ancestors discover pg node =
     (case root_internal_dependencies discover pg of
        None \<Rightarrow> None
      | Some root_deps \<Rightarrow>
          if node \<in> root_deps then Some (set (g_nodes (pg_graph pg)))
          else map_option (\<lambda>dependents. dependents - {node})
                 (transitive_closure discover (pg_graph pg) (lookup_start pg node) Incoming))"

definition pg_transitive_closure ::
  "discover \<Rightarrow> package_graph \<Rightarrow> package_node list \<Rightarrow> package_node set option"
where
  "pg_transitive_closure discover pg nodes =
     transitive_closure discover (pg_graph pg) (concat (map (lookup_start pg) nodes)) Outgoing"

definition transitive_external_dependencies :: "package_graph \<Rightarrow> package_name list \<Rightarrow> lf_package set" where
  "transitive_external_dependencies pg packages =
     \<Union> (set (map (\<lambda>deps. set deps)
       (List.map_filter pi_transitive_dependencies
         (List.map_filter (hm_get (pg_packages pg)) packages))))"

subsection \<open>Well-formed package graphs\<close>

text \<open>What the builder guarantees: the lookup table names every node of the graph once.\<close>

definition package_graph_ok :: "package_graph \<Rightarrow> bool" where
  "package_graph_ok pg \<longleftrightarrow>
     wf_graph (pg_graph pg) \<and> distinct (g_nodes (pg_graph pg)) \<and>
     (\<forall>n i. hm_get (pg_node_lookup pg) n = Some i \<longleftrightarrow>
        i < length (g_nodes (pg_graph pg)) \<and> g_nodes (pg_graph pg) ! i = n)"

text \<open>One package depends on another, directly or not.\<close>

definition depends_on :: "package_graph \<Rightarrow> package_node \<Rightarrow> package_node \<Rightarrow> bool" where
  "depends_on pg m n \<longleftrightarrow>
     (\<exists>i j. i < length (g_nodes (pg_graph pg)) \<and> j < length (g_nodes (pg_graph pg)) \<and>
        weight pg i = m \<and> weight pg j = n \<and> (i, j) \<in> (set (g_edges (pg_graph pg)))\<^sup>*)"

lemma lookup_start_index:
  assumes "package_graph_ok pg"
  shows "i \<in> set (lookup_start pg n) \<longleftrightarrow> i < length (g_nodes (pg_graph pg)) \<and> weight pg i = n"
  using assms
  by (auto simp: package_graph_ok_def lookup_start_def weight_def split: option.splits) (metis option.inject option.distinct(1))+

lemma reach_bounds:
  assumes "package_graph_ok pg" and "(i, j) \<in> (set (g_edges (pg_graph pg)))\<^sup>*"
  shows "i < length (g_nodes (pg_graph pg)) \<longleftrightarrow> j < length (g_nodes (pg_graph pg))"
  using assms wf_graph_reach by (auto simp: package_graph_ok_def)

subsection \<open>Queries\<close>

lemma closure_Outgoing:
  assumes ok: "package_graph_ok pg" and d: "discover_spec discover"
  shows "transitive_closure discover (pg_graph pg) (lookup_start pg n) Outgoing =
    Some {m. depends_on pg n m}"
proof -
  have "\<forall>i \<in> set (lookup_start pg n). i < length (g_nodes (pg_graph pg))"
    using lookup_start_index [OF ok] by blast
  moreover have "wf_graph (pg_graph pg)" using ok by (simp add: package_graph_ok_def)
  ultimately show ?thesis
    using lookup_start_index [OF ok, of _ n] reach_bounds [OF ok]
    by (simp add: transitive_closure_Outgoing d depends_on_def weight_def [symmetric]) blast
qed

lemma closure_Incoming:
  assumes ok: "package_graph_ok pg" and d: "discover_spec discover"
  shows "transitive_closure discover (pg_graph pg) (lookup_start pg n) Incoming =
    Some {m. depends_on pg m n}"
proof -
  have "\<forall>i \<in> set (lookup_start pg n). i < length (g_nodes (pg_graph pg))"
    using lookup_start_index [OF ok] by blast
  moreover have "wf_graph (pg_graph pg)" using ok by (simp add: package_graph_ok_def)
  ultimately show ?thesis
    using lookup_start_index [OF ok, of _ n] reach_bounds [OF ok]
    by (simp add: transitive_closure_Incoming d depends_on_def weight_def [symmetric]) blast
qed

abbreviation root_package :: package_node where
  "root_package \<equiv> WorkspaceNode RootPkg"

lemma root_internal_eq:
  assumes "package_graph_ok pg" and "discover_spec discover"
  shows "root_internal_dependencies discover pg =
    Some ({m. depends_on pg root_package m} - {root_package})"
  by (simp add: root_internal_dependencies_def closure_Outgoing [OF assms])

lemma pg_dependencies_eq:
  assumes "package_graph_ok pg" and "discover_spec discover"
  shows "pg_dependencies discover pg n =
    Some (({m. depends_on pg n m} \<union> ({m. depends_on pg root_package m} - {root_package})) - {n})"
  by (simp add: pg_dependencies_def closure_Outgoing [OF assms] root_internal_eq [OF assms])

lemma pg_ancestors_eq:
  assumes "package_graph_ok pg" and "discover_spec discover"
  shows "pg_ancestors discover pg n =
    (if n \<noteq> root_package \<and> depends_on pg root_package n then Some (set (g_nodes (pg_graph pg)))
     else Some ({m. depends_on pg m n} - {n}))"
  by (simp add: pg_ancestors_def closure_Incoming [OF assms] root_internal_eq [OF assms])

lemma depends_on_node: "depends_on pg m n \<Longrightarrow> m \<in> set (g_nodes (pg_graph pg))"
  by (auto simp: depends_on_def weight_def)

text \<open>
  the queries of the package graph return (they do not panic), and the two directions agree:
  a package is an ancestor of another exactly when that one is among its dependencies, where what
  the root package depends on counts as a dependency of every package.
\<close>

theorem ancestors_dependencies_dual:
  assumes ok: "package_graph_ok pg" and d: "discover_spec discover"
    and m: "m \<in> set (g_nodes (pg_graph pg))" and "m \<noteq> n"
  shows "\<exists>deps ancs. pg_dependencies discover pg m = Some deps \<and>
    pg_ancestors discover pg n = Some ancs \<and> (m \<in> ancs \<longleftrightarrow> n \<in> deps) \<and>
    (n \<in> deps \<longleftrightarrow> depends_on pg m n \<or> (n \<noteq> root_package \<and> depends_on pg root_package n))"
  unfolding pg_dependencies_eq [OF ok d] pg_ancestors_eq [OF ok d]
  using m \<open>m \<noteq> n\<close> by auto

definition sample_package_nodes :: "package_node list" where
  "sample_package_nodes = [RootNode, WorkspaceNode RootPkg, WorkspaceNode (OtherPkg ''a''),
     WorkspaceNode (OtherPkg ''b'')]"

definition sample_package_graph :: package_graph where
  "sample_package_graph =
     \<lparr>pg_graph = \<lparr>g_nodes = sample_package_nodes, g_edges = [(1, 0), (2, 3), (3, 0)]\<rparr>,
      pg_node_lookup = zip sample_package_nodes [0..<length sample_package_nodes], pg_packages = []\<rparr>"

lemma sample_package_graph_ok: "package_graph_ok sample_package_graph"
proof -
  have "distinct sample_package_nodes" "length sample_package_nodes = 4"
    by (simp_all add: sample_package_nodes_def)
  with map_of_zip_upt [of sample_package_nodes] show ?thesis
    unfolding package_graph_ok_def wf_graph_def by (simp add: sample_package_graph_def)
qed

theorem ancestors_dependencies_dual_witness:
  "\<exists>deps ancs. pg_dependencies reach_discover sample_package_graph (WorkspaceNode (OtherPkg ''a'')) = Some deps \<and>
     pg_ancestors reach_discover sample_package_graph (WorkspaceNode (OtherPkg ''b'')) = Some ancs \<and>
     (WorkspaceNode (OtherPkg ''a'') \<in> ancs \<longleftrightarrow> WorkspaceNode (OtherPkg ''b'') \<in> deps)"
proof -
  have "WorkspaceNode (OtherPkg ''a'') \<in> set (g_nodes (pg_graph sample_package_graph))"
    by (simp add: sample_package_graph_def sample_package_nodes_def)
  from ancestors_dependencies_dual [OF sample_package_graph_ok reach_discover_spec this,
      of "WorkspaceNode (OtherPkg ''b'')"]
  show ?thesis by auto
qed

lemma validate_names_Inr:
  "validate_names ps = Inr () \<longleftrightarrow>
     (\<forall>(n, info) \<in> set ps. n = RootPkg \<or> (\<exists>c cs. pj_name (pi_package_json info) = Some (c # cs)))"
  by (induction ps rule: validate_names.induct) (auto split: option.splits simp: neq_Nil_conv)

lemma remove_package_dependencies_edges:
  assumes "hm_get (pg_node_lookup pg) RootNode = Some r"
  shows "\<exists>pg'. remove_package_dependencies pg = Some pg' \<and>
    set (g_edges (pg_graph pg')) = {(a, b) \<in> set (g_edges (pg_graph pg)). b = r} \<and>
    g_nodes (pg_graph pg') = g_nodes (pg_graph pg)"
  using assms by (auto simp: remove_package_dependencies_def)

end
