(* ===== verification/Engine.thy ===== *)
theory Engine
  imports Nrz_Json Package_Graph "HOL-Library.Word"
begin

text \<open>
  The task graph: \<open>nrzrepo-lib/src/engine/mod.rs\<close>. \<open>Engine<Building>\<close> and \<open>Engine<Built>\<close>
  hold the same fields (\<open>seal\<close> only changes the phantom type), so one record models both. A
  result \<open>None\<close> is a panic of an \<open>expect\<close>. \<open>Graph::filter_map\<close> and
  \<open>floyd_warshall\<close> of \<open>petgraph\<close> are parameters with their documented behaviour.
\<close>

datatype task_node = RootTask | TaskNode task_id

datatype engine_error = RootIsNoTask

fun task_id_of_node :: "task_node \<Rightarrow> (engine_error, task_id) result" where
  "task_id_of_node RootTask = Inl RootIsNoTask"
| "task_id_of_node (TaskNode t) = Inr t"

fun task_node_display :: "task_node \<Rightarrow> string" where
  "task_node_display RootTask = ''___ROOT___''"
| "task_node_display (TaskNode t) = task_id_display t"

record engine =
  e_graph :: "task_node graph"
  e_root_index :: nat
  e_task_lookup :: "task_id \<rightharpoonup> nat"
  e_task_definitions :: "(task_id, task_definition) hash_map"
  e_task_locations :: "task_id \<rightharpoonup> span"
  e_package_tasks :: "package_name \<rightharpoonup> nat list"
  e_has_non_interruptible_tasks :: bool

definition engine_new :: engine where
  "engine_new = \<lparr>e_graph = \<lparr>g_nodes = [RootTask], g_edges = []\<rparr>, e_root_index = 0,
     e_task_lookup = Map.empty, e_task_definitions = [], e_task_locations = Map.empty,
     e_package_tasks = Map.empty, e_has_non_interruptible_tasks = False\<rparr>"

definition add_node :: "'n graph \<Rightarrow> 'n \<Rightarrow> 'n graph" where
  "add_node g n = g\<lparr>g_nodes := g_nodes g @ [n]\<rparr>"

definition add_edge :: "'n graph \<Rightarrow> nat \<Rightarrow> nat \<Rightarrow> 'n graph" where
  "add_edge g a b = g\<lparr>g_edges := g_edges g @ [(a, b)]\<rparr>"

definition get_index :: "engine \<Rightarrow> task_id \<Rightarrow> nat \<times> engine" where
  "get_index e t =
     (case e_task_lookup e t of
        Some i \<Rightarrow> (i, e)
      | None \<Rightarrow>
          (let index = length (g_nodes (e_graph e));
               p = package_name_from (tid_package t)
           in (index,
               e\<lparr>e_graph := add_node (e_graph e) (TaskNode t),
                 e_task_lookup := (e_task_lookup e)(t \<mapsto> index),
                 e_package_tasks :=
                   (e_package_tasks e)(p \<mapsto> unwrap_or [] (e_package_tasks e p) @ [index])\<rparr>)))"

definition connect_to_root :: "engine \<Rightarrow> task_id \<Rightarrow> engine" where
  "connect_to_root e t =
     (let (source, e') = get_index e t
      in e'\<lparr>e_graph := add_edge (e_graph e') source (e_root_index e')\<rparr>)"

definition add_definition :: "engine \<Rightarrow> task_id \<Rightarrow> task_definition \<Rightarrow> engine" where
  "add_definition e t d =
     e\<lparr>e_has_non_interruptible_tasks :=
          (e_has_non_interruptible_tasks e \<or> (td_persistent d \<and> \<not> td_interruptible d)),
       e_task_definitions := hm_insert t d (e_task_definitions e)\<rparr>"

definition add_task_location :: "engine \<Rightarrow> task_id \<Rightarrow> span \<Rightarrow> engine" where
  "add_task_location e t location =
     (let has_location = (case e_task_locations e t of Some x \<Rightarrow> sp_range x \<noteq> None | None \<Rightarrow> False)
      in if has_location then e
         else e\<lparr>e_task_locations := (e_task_locations e)(t \<mapsto> location)\<rparr>)"

definition engine_neighbors ::
  "engine \<Rightarrow> task_id \<Rightarrow> direction \<Rightarrow> task_node set option"
where
  "engine_neighbors e t dir =
     (case e_task_lookup e t of
        None \<Rightarrow> None
      | Some i \<Rightarrow>
          Some (case dir of
                  Outgoing \<Rightarrow> {g_nodes (e_graph e) ! j | j. (i, j) \<in> set (g_edges (e_graph e))}
                | Incoming \<Rightarrow> {g_nodes (e_graph e) ! j | j. (j, i) \<in> set (g_edges (e_graph e))}))"

definition engine_dependencies :: "engine \<Rightarrow> task_id \<Rightarrow> task_node set option" where
  "engine_dependencies e t = engine_neighbors e t Outgoing"

definition engine_dependents :: "engine \<Rightarrow> task_id \<Rightarrow> task_node set option" where
  "engine_dependents e t = engine_neighbors e t Incoming"

definition engine_start :: "engine \<Rightarrow> task_id \<Rightarrow> nat list" where
  "engine_start e t = (case e_task_lookup e t of None \<Rightarrow> [] | Some i \<Rightarrow> [i])"

definition transitive_dependents :: "discover \<Rightarrow> engine \<Rightarrow> task_id \<Rightarrow> task_node set option" where
  "transitive_dependents discover e t =
     transitive_closure discover (e_graph e) (engine_start e t) Incoming"

definition transitive_dependencies :: "discover \<Rightarrow> engine \<Rightarrow> task_id \<Rightarrow> task_node set option" where
  "transitive_dependencies discover e t =
     transitive_closure discover (e_graph e) (engine_start e t) Outgoing"

definition tasks_with_command :: "engine \<Rightarrow> package_graph \<Rightarrow> string list" where
  "tasks_with_command e pg =
     List.map_filter
       (\<lambda>node. case node of
          RootTask \<Rightarrow> None
        | TaskNode t \<Rightarrow>
            (case package_json_of pg (package_name_from (tid_package t)) of
               None \<Rightarrow> None
             | Some json \<Rightarrow>
                 if tid_task t = ''proxy'' \<or> pj_command json (tid_task t) \<noteq> None
                 then Some (task_id_display t) else None))
       (g_nodes (e_graph e))"

subsection \<open>Engines for a part of the tasks\<close>

type_synonym graph_filter = "task_node graph \<Rightarrow> (nat \<Rightarrow> task_node \<Rightarrow> task_node option) \<Rightarrow> task_node graph"

text \<open>
  \<open>filter_map\<close> keeps the mapped nodes and the edges between them and renumbers both; the order of
  the new numbers is not documented.
\<close>

definition kept :: "task_node graph \<Rightarrow> (nat \<Rightarrow> task_node \<Rightarrow> task_node option) \<Rightarrow> nat set" where
  "kept g f = {i. i < length (g_nodes g) \<and> f i (g_nodes g ! i) \<noteq> None}"

definition filter_map_spec :: "graph_filter \<Rightarrow> bool" where
  "filter_map_spec fm \<longleftrightarrow>
     (\<forall>g f. wf_graph g \<longrightarrow> wf_graph (fm g f) \<and>
        (\<exists>r. bij_betw r (kept g f) {..<length (g_nodes (fm g f))} \<and>
          (\<forall>i \<in> kept g f. Some (g_nodes (fm g f) ! r i) = f i (g_nodes g ! i)) \<and>
          set (g_edges (fm g f)) =
            {(r a, r b) | a b. (a, b) \<in> set (g_edges g) \<and> a \<in> kept g f \<and> b \<in> kept g f}))"

definition all_defined :: "engine \<Rightarrow> bool" where
  "all_defined e \<longleftrightarrow>
     (\<forall>n \<in> set (g_nodes (e_graph e)).
        case n of RootTask \<Rightarrow> True | TaskNode t \<Rightarrow> hm_get (e_task_definitions e) t \<noteq> None)"

definition is_interruptible :: "engine \<Rightarrow> task_id \<Rightarrow> bool" where
  "is_interruptible e t =
     (case hm_get (e_task_definitions e) t of
        None \<Rightarrow> False
      | Some d \<Rightarrow> \<not> td_persistent d \<or> td_interruptible d)"

definition lookup_of_nodes :: "task_node list \<Rightarrow> task_id \<rightharpoonup> nat" where
  "lookup_of_nodes nodes =
     map_of (rev (List.map_filter
        (\<lambda>i. case nodes ! i of RootTask \<Rightarrow> None | TaskNode t \<Rightarrow> Some (t, i)) [0..<length nodes]))"

definition find_root :: "task_node list \<Rightarrow> nat option" where
  "find_root nodes = find (\<lambda>i. nodes ! i = RootTask) [0..<length nodes]"

definition create_engine_for_interruptible_tasks :: "graph_filter \<Rightarrow> engine \<Rightarrow> engine option" where
  "create_engine_for_interruptible_tasks fm e =
     (if \<not> all_defined e then None
      else
        (let g = fm (e_graph e) (\<lambda>_ node. case node of
                   TaskNode t \<Rightarrow> if is_interruptible e t then Some node else None
                 | RootTask \<Rightarrow> Some node)
         in case find_root (g_nodes g) of
              None \<Rightarrow> None
            | Some root \<Rightarrow>
                Some (e\<lparr>e_graph := g, e_root_index := root,
                        e_task_lookup := lookup_of_nodes (g_nodes g),
                        e_has_non_interruptible_tasks := False\<rparr>)))"

definition create_engine_for_non_interruptible_tasks :: "graph_filter \<Rightarrow> engine \<Rightarrow> engine option" where
  "create_engine_for_non_interruptible_tasks fm e =
     (if \<not> all_defined e then None
      else
        (let g = fm (e_graph e) (\<lambda>_ node. case node of
                   TaskNode t \<Rightarrow> if is_interruptible e t then None else Some node
                 | RootTask \<Rightarrow> Some node)
         in case find_root (g_nodes g) of
              None \<Rightarrow> None
            | Some root \<Rightarrow>
                (let g' = foldl (\<lambda>h i. if g_nodes h ! i = RootTask then h else add_edge h i root)
                            g [0..<length (g_nodes g)]
                 in Some (e\<lparr>e_graph := g', e_root_index := root,
                            e_task_lookup := lookup_of_nodes (g_nodes g'),
                            e_has_non_interruptible_tasks := True\<rparr>))))"

text \<open>
  \<open>floyd_warshall\<close> on the reversed graph: the distance of a pair of nodes, \<open>i32::MAX\<close> where
  there is no path, or an error for a negative cycle.
\<close>

definition I32_MAX :: int where
  "I32_MAX = 2147483647"

type_synonym shortest_paths = "nat \<Rightarrow> (nat \<times> nat) list \<Rightarrow> ((nat \<times> nat) \<rightharpoonup> int) option"

definition floyd_warshall_spec :: "shortest_paths \<Rightarrow> bool" where
  "floyd_warshall_spec fw \<longleftrightarrow>
     (\<forall>n es. (\<forall>(a, b) \<in> set es. a < n \<and> b < n) \<longrightarrow>
        (\<exists>dist. fw n es = Some dist \<and>
          (\<forall>a b. a < n \<and> b < n \<longrightarrow>
             ((\<exists>d. dist (a, b) = Some d \<and> d \<noteq> I32_MAX) \<longleftrightarrow> (a, b) \<in> (set es)\<^sup>*))))"

definition create_engine_for_subgraph ::
  "graph_filter \<Rightarrow> shortest_paths \<Rightarrow> engine \<Rightarrow> package_name list \<Rightarrow> engine option"
where
  "create_engine_for_subgraph fm fw e changed_packages =
     (let entrypoint_indices =
            concat (map (\<lambda>pkg. unwrap_or [] (e_package_tasks e pkg)) changed_packages)
      in case fw (length (g_nodes (e_graph e))) (map (\<lambda>(a, b). (b, a)) (g_edges (e_graph e))) of
           None \<Rightarrow> None
         | Some dist \<Rightarrow>
             if \<not> all_defined e then None
             else
               (let reachable = (\<lambda>node_idx. \<exists>idx \<in> set entrypoint_indices.
                      case dist (idx, node_idx) of Some d \<Rightarrow> d \<noteq> I32_MAX | None \<Rightarrow> False);
                    g = fm (e_graph e) (\<lambda>node_idx node.
                      case node of
                        TaskNode t \<Rightarrow>
                          if \<not> is_interruptible e t then None
                          else if reachable node_idx then Some node else None
                      | RootTask \<Rightarrow> if reachable node_idx then Some node else None)
                in Some (e\<lparr>e_graph := g, e_task_lookup := lookup_of_nodes (g_nodes g),
                           e_has_non_interruptible_tasks := False\<rparr>)))"

subsection \<open>Validation before a run\<close>

type_synonym u32 = "32 word"

datatype validate_error =
    MissingTask string string
  | MissingPackageJson string
  | DependencyOnPersistentTask source_label string string
  | PersistentTasksExceedConcurrency u32 u32
  | InteractiveNeedsUI string

fun validate_deps ::
  "engine \<Rightarrow> package_graph \<Rightarrow> task_id \<Rightarrow> nat list \<Rightarrow> (validate_error, unit) result"
where
  "validate_deps e pg task_id [] = Inr ()"
| "validate_deps e pg task_id (dep_index # rest) =
     (case g_nodes (e_graph e) ! dep_index of
        RootTask \<Rightarrow> validate_deps e pg task_id rest
      | TaskNode dep_id \<Rightarrow>
          (case hm_get (e_task_definitions e) dep_id of
             None \<Rightarrow> Inl (MissingTask (task_id_display dep_id) (tid_package dep_id))
           | Some def \<Rightarrow>
               (case package_json_of pg (package_name_from (tid_package dep_id)) of
                  None \<Rightarrow> Inl (MissingPackageJson (tid_package dep_id))
                | Some json \<Rightarrow>
                    if td_persistent def \<and> map_of (pj_scripts json) (tid_task dep_id) \<noteq> None
                    then Inl (DependencyOnPersistentTask
                           (case e_task_locations e dep_id of
                              Some spanned \<Rightarrow> span_and_text spanned ''nrz.json''
                            | None \<Rightarrow> (None, ([], [])))
                           (task_id_display dep_id) (task_id_display task_id))
                    else validate_deps e pg task_id rest)))"

definition validate_node ::
  "((nat \<times> nat) list \<Rightarrow> nat \<Rightarrow> nat list) \<Rightarrow> engine \<Rightarrow> package_graph \<Rightarrow> nat \<Rightarrow>
   (validate_error, bool) result option"
where
  "validate_node nbrs e pg node_index =
     (case g_nodes (e_graph e) ! node_index of
        RootTask \<Rightarrow> Some (Inr False)
      | TaskNode task_id \<Rightarrow>
          (case validate_deps e pg task_id (nbrs (g_edges (e_graph e)) node_index) of
             Inl err \<Rightarrow> Some (Inl err)
           | Inr () \<Rightarrow>
               (case package_info_of pg (package_name_from (tid_package task_id)) of
                  None \<Rightarrow> None
                | Some info \<Rightarrow>
                    (let package_has_task =
                           (case map_of (pj_scripts (pi_package_json info)) (tid_task task_id) of
                              Some script \<Rightarrow> sp_value script \<noteq> [] | None \<Rightarrow> False);
                         task_is_persistent =
                           (case hm_get (e_task_definitions e) task_id of
                              Some d \<Rightarrow> td_persistent d | None \<Rightarrow> False)
                     in Some (Inr (task_is_persistent \<and> package_has_task))))))"

fun validate_fold ::
  "(validate_error, bool) result list \<Rightarrow> u32 \<times> validate_error list \<Rightarrow> u32 \<times> validate_error list"
where
  "validate_fold [] acc = acc"
| "validate_fold (Inr True # rs) (count, errs) = validate_fold rs (count + 1, errs)"
| "validate_fold (Inr False # rs) (count, errs) = validate_fold rs (count, errs)"
| "validate_fold (Inl e # rs) (count, errs) = validate_fold rs (count, errs @ [e])"

definition validate_interactive :: "engine \<Rightarrow> ui_mode \<Rightarrow> validate_error list" where
  "validate_interactive e ui =
     (if ui = Tui then []
      else List.map_filter
             (\<lambda>(t, d). if td_interactive d then Some (InteractiveNeedsUI (task_id_display t)) else None)
             (e_task_definitions e))"

definition engine_validate ::
  "((nat \<times> nat) list \<Rightarrow> nat \<Rightarrow> nat list) \<Rightarrow> engine \<Rightarrow> package_graph \<Rightarrow> u32 \<Rightarrow> ui_mode \<Rightarrow>
   (validate_error list, unit) result option"
where
  "engine_validate nbrs e pg concurrency ui =
     map_option
       (\<lambda>results.
          let (persistent_count, errs) = validate_fold results (0, []);
              errs1 = (if persistent_count \<ge> concurrency
                       then errs @ [PersistentTasksExceedConcurrency persistent_count concurrency]
                       else errs);
              errs2 = errs1 @ validate_interactive e ui
          in if errs2 = [] then Inr () else Inl errs2)
       (opt_map (validate_node nbrs e pg) [0..<length (g_nodes (e_graph e))])"

subsection \<open>The invariant of an engine under construction\<close>

text \<open>The indices of the tasks of one package, in the order they were added.\<close>

definition package_indices :: "task_node list \<Rightarrow> package_name \<Rightarrow> nat list" where
  "package_indices nodes p =
     filter (\<lambda>i. case nodes ! i of RootTask \<Rightarrow> False
        | TaskNode t \<Rightarrow> package_name_from (tid_package t) = p) [0..<length nodes]"

definition lookup_ok :: "engine \<Rightarrow> bool" where
  "lookup_ok e \<longleftrightarrow>
     (\<forall>t i. e_task_lookup e t = Some i \<longleftrightarrow>
        i < length (g_nodes (e_graph e)) \<and> g_nodes (e_graph e) ! i = TaskNode t)"

definition engine_ok :: "engine \<Rightarrow> bool" where
  "engine_ok e \<longleftrightarrow>
     wf_graph (e_graph e) \<and> distinct (g_nodes (e_graph e)) \<and>
     e_root_index e < length (g_nodes (e_graph e)) \<and>
     g_nodes (e_graph e) ! e_root_index e = RootTask \<and>
     lookup_ok e \<and>
     (\<forall>p. unwrap_or [] (e_package_tasks e p) = package_indices (g_nodes (e_graph e)) p) \<and>
     (\<forall>t d. hm_get (e_task_definitions e) t = Some d \<and> td_persistent d \<and> \<not> td_interruptible d \<longrightarrow>
        e_has_non_interruptible_tasks e)"

text \<open>What an engine means: its tasks and the edges between them.\<close>

definition task_nodes :: "engine \<Rightarrow> task_node set" where
  "task_nodes e = set (g_nodes (e_graph e))"

definition task_edges :: "engine \<Rightarrow> (task_node \<times> task_node) set" where
  "task_edges e =
     (\<lambda>(a, b). (g_nodes (e_graph e) ! a, g_nodes (e_graph e) ! b)) ` set (g_edges (e_graph e))"

definition node_at :: "engine \<Rightarrow> nat \<Rightarrow> task_node \<Rightarrow> bool" where
  "node_at e i n \<longleftrightarrow> i < length (g_nodes (e_graph e)) \<and> g_nodes (e_graph e) ! i = n"

lemma engine_neighbors_code [code]:
  "engine_neighbors e t dir =
     map_option (\<lambda>i. set (map ((!) (g_nodes (e_graph e)))
       (case dir of Outgoing \<Rightarrow> map snd (filter (\<lambda>(a, b). a = i) (g_edges (e_graph e)))
        | Incoming \<Rightarrow> map fst (filter (\<lambda>(a, b). b = i) (g_edges (e_graph e))))))
       (e_task_lookup e t)"
  by (force simp: engine_neighbors_def split: option.split direction.split)

lemma engine_ok_new: "engine_ok engine_new"
  by (auto simp: engine_ok_def engine_new_def wf_graph_def lookup_ok_def package_indices_def less_Suc_eq)

lemma engine_new_meaning: "task_nodes engine_new = {RootTask}" "task_edges engine_new = {}"
  by (simp_all add: task_nodes_def task_edges_def engine_new_def)

lemma package_indices_snoc:
  "package_indices (nodes @ [TaskNode t]) p =
     package_indices nodes p @ (if package_name_from (tid_package t) = p then [length nodes] else [])"
proof -
  have "filter (\<lambda>i. case (nodes @ [TaskNode t]) ! i of RootTask \<Rightarrow> False
      | TaskNode t \<Rightarrow> package_name_from (tid_package t) = p) [0..<length nodes] = package_indices nodes p"
    unfolding package_indices_def by (rule filter_cong) (auto simp: nth_append)
  then show ?thesis by (simp add: package_indices_def)
qed

lemma get_index_cases:
  assumes "get_index e t = (i, e')"
  obtains (found) "e_task_lookup e t = Some i" "e' = e"
  | (added) "e_task_lookup e t = None" "i = length (g_nodes (e_graph e))"
      "e' = e\<lparr>e_graph := add_node (e_graph e) (TaskNode t),
          e_task_lookup := (e_task_lookup e)(t \<mapsto> i),
          e_package_tasks := (e_package_tasks e)(package_name_from (tid_package t) \<mapsto>
            unwrap_or [] (e_package_tasks e (package_name_from (tid_package t))) @ [i])\<rparr>"
  using assms by (auto simp: get_index_def Let_def split: option.splits)

lemma get_index_frame:
  "get_index e t = (i, e') \<Longrightarrow>
     e_root_index e' = e_root_index e \<and> e_task_definitions e' = e_task_definitions e \<and>
     e_task_locations e' = e_task_locations e \<and>
     e_has_non_interruptible_tasks e' = e_has_non_interruptible_tasks e \<and>
     g_edges (e_graph e') = g_edges (e_graph e) \<and>
     (\<exists>ys. g_nodes (e_graph e') = g_nodes (e_graph e) @ ys)"
  by (auto elim!: get_index_cases simp: add_node_def)

lemma task_not_looked_up: "lookup_ok e \<Longrightarrow> e_task_lookup e t = None \<Longrightarrow> TaskNode t \<notin> set (g_nodes (e_graph e))"
  by (metis lookup_ok_def in_set_conv_nth option.distinct(1))

lemma get_index_ok:
  assumes ok: "engine_ok e" and gi: "get_index e t = (i, e')"
  shows "engine_ok e'" and "node_at e' i (TaskNode t)"
    and "task_nodes e' = insert (TaskNode t) (task_nodes e)"
    and "task_edges e' = task_edges e"
proof -
  have lookup: "lookup_ok e" using ok by (simp add: engine_ok_def)
  from gi have "engine_ok e' \<and> node_at e' i (TaskNode t) \<and>
      task_nodes e' = insert (TaskNode t) (task_nodes e) \<and> task_edges e' = task_edges e"
  proof (cases rule: get_index_cases)
    case found
    with lookup have "node_at e i (TaskNode t)" by (simp add: lookup_ok_def node_at_def)
    with found ok show ?thesis by (auto simp: node_at_def task_nodes_def in_set_conv_nth)
  next
    case added
    note fresh = task_not_looked_up [OF lookup added(1)]
    have "lookup_ok e'"
      unfolding lookup_ok_def added(3)
      using lookup fresh added(2)
      by (auto simp: lookup_ok_def add_node_def nth_append less_Suc_eq in_set_conv_nth)
    moreover have "unwrap_or [] (e_package_tasks e' p) = package_indices (g_nodes (e_graph e')) p" for p
      using ok added(2) unfolding added(3) engine_ok_def
      by (auto simp: add_node_def package_indices_snoc)
    moreover have "wf_graph (e_graph e')"
      using ok unfolding added(3) engine_ok_def wf_graph_def by (fastforce simp: add_node_def)
    moreover have "distinct (g_nodes (e_graph e'))" "e_root_index e' < length (g_nodes (e_graph e'))"
      "g_nodes (e_graph e') ! e_root_index e' = RootTask"
      "\<forall>t d. hm_get (e_task_definitions e') t = Some d \<and> td_persistent d \<and> \<not> td_interruptible d \<longrightarrow>
        e_has_non_interruptible_tasks e'"
      using ok fresh unfolding added(3) engine_ok_def by (simp_all add: add_node_def nth_append)
    ultimately have "engine_ok e'" unfolding engine_ok_def by blast
    moreover have "task_edges e' = task_edges e"
      using ok unfolding added(3) engine_ok_def wf_graph_def task_edges_def
      by (fastforce simp: add_node_def nth_append intro!: image_cong)
    ultimately show ?thesis
      using added by (auto simp: node_at_def task_nodes_def add_node_def)
  qed
  then show "engine_ok e'" "node_at e' i (TaskNode t)"
    "task_nodes e' = insert (TaskNode t) (task_nodes e)" "task_edges e' = task_edges e"
    by blast+
qed

lemma get_index_node_at:
  "get_index e t = (i, e') \<Longrightarrow> node_at e j n \<Longrightarrow> node_at e' j n"
  by (drule get_index_frame) (auto simp: node_at_def nth_append)

lemma get_index_again:
  assumes "engine_ok e" and "get_index e t = (i, e')"
  shows "get_index e' t = (i, e')"
proof -
  have "lookup_ok e'" and "node_at e' i (TaskNode t)"
    using get_index_ok(1,2) [OF assms] by (simp_all add: engine_ok_def)
  then have "e_task_lookup e' t = Some i" by (simp add: lookup_ok_def node_at_def)
  then show ?thesis by (simp add: get_index_def)
qed

definition engine_add_edge :: "engine \<Rightarrow> nat \<Rightarrow> nat \<Rightarrow> engine" where
  "engine_add_edge e a b = e\<lparr>e_graph := add_edge (e_graph e) a b\<rparr>"

lemma add_edge_ok:
  assumes "engine_ok e" and "node_at e a m" and "node_at e b n"
  shows "engine_ok (engine_add_edge e a b)"
    and "task_nodes (engine_add_edge e a b) = task_nodes e"
    and "task_edges (engine_add_edge e a b) = insert (m, n) (task_edges e)"
    and "node_at (engine_add_edge e a b) i k = node_at e i k"
  using assms
  by (auto simp: engine_ok_def engine_add_edge_def add_edge_def wf_graph_def lookup_ok_def
      task_nodes_def task_edges_def node_at_def)

lemma root_node_at: "engine_ok e \<Longrightarrow> node_at e (e_root_index e) RootTask"
  by (simp add: engine_ok_def node_at_def)

lemma connect_to_root_ok:
  assumes "engine_ok e"
  shows "engine_ok (connect_to_root e t)"
    and "task_nodes (connect_to_root e t) = insert (TaskNode t) (task_nodes e)"
    and "task_edges (connect_to_root e t) = insert (TaskNode t, RootTask) (task_edges e)"
proof -
  obtain i e' where gi: "get_index e t = (i, e')" by force
  note ok = get_index_ok [OF assms gi]
  have eq: "connect_to_root e t = engine_add_edge e' i (e_root_index e')"
    by (simp add: connect_to_root_def gi engine_add_edge_def)
  note edge = add_edge_ok [OF ok(1,2) root_node_at [OF ok(1)]]
  show "engine_ok (connect_to_root e t)"
    "task_nodes (connect_to_root e t) = insert (TaskNode t) (task_nodes e)"
    "task_edges (connect_to_root e t) = insert (TaskNode t, RootTask) (task_edges e)"
    unfolding eq using edge ok by simp_all
qed

lemma add_definition_ok:
  "engine_ok e \<Longrightarrow> engine_ok (add_definition e t d)"
  "task_nodes (add_definition e t d) = task_nodes e"
  "task_edges (add_definition e t d) = task_edges e"
  by (auto simp: engine_ok_def add_definition_def lookup_ok_def task_nodes_def task_edges_def
      split: if_splits)

lemma add_task_location_ok:
  "engine_ok e \<Longrightarrow> engine_ok (add_task_location e t l)"
  "task_nodes (add_task_location e t l) = task_nodes e"
  "task_edges (add_task_location e t l) = task_edges e"
  by (auto simp: engine_ok_def add_task_location_def lookup_ok_def task_nodes_def task_edges_def Let_def)

subsection \<open>Parts of an engine\<close>

lemma lookup_of_nodes_Some:
  assumes "distinct nodes"
  shows "lookup_of_nodes nodes t = Some i \<longleftrightarrow> i < length nodes \<and> nodes ! i = TaskNode t"
proof -
  let ?f = "\<lambda>i. case nodes ! i of RootTask \<Rightarrow> None | TaskNode t \<Rightarrow> Some (t, i)"
  let ?ps = "List.map_filter ?f [0..<length nodes]"
  have set: "(u, j) \<in> set ?ps \<longleftrightarrow> j < length nodes \<and> nodes ! j = TaskNode u" for u j
  proof -
    have "(u, j) \<in> set ?ps \<longleftrightarrow> (\<exists>i. i < length nodes \<and> ?f i = Some (u, j))"
      by (force simp: List.map_filter_def image_iff)
    also have "\<dots> \<longleftrightarrow> j < length nodes \<and> nodes ! j = TaskNode u"
    proof -
      have "?f i = Some (u, j) \<longleftrightarrow> i = j \<and> nodes ! i = TaskNode u" for i by (cases "nodes ! i") auto
      then show ?thesis by auto
    qed
    finally show ?thesis .
  qed
  have "inj_on fst (set ?ps)"
    using assms by (auto simp: inj_on_def set) (metis nth_eq_iff_index_eq)
  moreover have "distinct ?ps"
    by (auto simp: List.map_filter_def distinct_map inj_on_def split: task_node.splits)
  ultimately have "distinct (map fst (rev ?ps))" by (simp add: distinct_map rev_map [symmetric])
  then show ?thesis
    unfolding lookup_of_nodes_def by (subst map_of_eq_Some_iff) (auto simp: set)
qed

lemma find_root_Some:
  assumes "RootTask \<in> set nodes"
  shows "\<exists>i. find_root nodes = Some i \<and> i < length nodes \<and> nodes ! i = RootTask"
proof (cases "find_root nodes")
  case None
  then show ?thesis using assms by (auto simp: find_root_def find_None_iff in_set_conv_nth)
next
  case (Some i)
  then show ?thesis by (auto simp: find_root_def find_Some_iff)
qed

text \<open>A filter that keeps nodes as they are.\<close>

lemma filter_map_meaning:
  assumes fm: "filter_map_spec fm" and wf: "wf_graph g" and dist: "distinct (g_nodes g)"
    and same: "\<forall>i \<in> kept g f. f i (g_nodes g ! i) = Some (g_nodes g ! i)"
  defines "g' \<equiv> fm g f"
  shows "wf_graph g'" and "distinct (g_nodes g')"
    and "set (g_nodes g') = (!) (g_nodes g) ` kept g f"
    and "(\<lambda>(a, b). (g_nodes g' ! a, g_nodes g' ! b)) ` set (g_edges g') =
      {(g_nodes g ! a, g_nodes g ! b) | a b. (a, b) \<in> set (g_edges g) \<and> a \<in> kept g f \<and> b \<in> kept g f}"
proof -
  from fm wf obtain r where wf': "wf_graph g'"
    and bij: "bij_betw r (kept g f) {..<length (g_nodes g')}"
    and node: "\<forall>i \<in> kept g f. Some (g_nodes g' ! r i) = f i (g_nodes g ! i)"
    and edges: "set (g_edges g') =
      {(r a, r b) | a b. (a, b) \<in> set (g_edges g) \<and> a \<in> kept g f \<and> b \<in> kept g f}"
    unfolding filter_map_spec_def g'_def by blast
  show "wf_graph g'" by (rule wf')
  have at: "g_nodes g' ! r i = g_nodes g ! i" if "i \<in> kept g f" for i
    using node that same by (metis option.inject)
  have all: "\<exists>i \<in> kept g f. r i = j" if "j < length (g_nodes g')" for j
    using bij that unfolding bij_betw_def by (metis imageE lessThan_iff)
  show "distinct (g_nodes g')"
    unfolding distinct_conv_nth
  proof (intro allI impI)
    fix x y assume xy: "x < length (g_nodes g')" "y < length (g_nodes g')" "x \<noteq> y"
    then obtain i j where ij: "i \<in> kept g f" "j \<in> kept g f" "r i = x" "r j = y" using all by blast
    with xy(3) have "i \<noteq> j" by blast
    with ij dist have "g_nodes g ! i \<noteq> g_nodes g ! j" by (auto simp: kept_def nth_eq_iff_index_eq)
    with at ij show "g_nodes g' ! x \<noteq> g_nodes g' ! y" by metis
  qed
  show "set (g_nodes g') = (!) (g_nodes g) ` kept g f"
  proof
    show "set (g_nodes g') \<subseteq> (!) (g_nodes g) ` kept g f"
      using all at by (auto simp: in_set_conv_nth) (metis image_eqI)
    show "(!) (g_nodes g) ` kept g f \<subseteq> set (g_nodes g')"
      using at bij by (auto simp: bij_betw_def) (metis imageI lessThan_iff nth_mem)
  qed
  show "(\<lambda>(a, b). (g_nodes g' ! a, g_nodes g' ! b)) ` set (g_edges g') =
      {(g_nodes g ! a, g_nodes g ! b) | a b. (a, b) \<in> set (g_edges g) \<and> a \<in> kept g f \<and> b \<in> kept g f}"
    unfolding edges using at by (auto simp: image_iff) metis+
qed

text \<open>A filter that decides by the node alone, on an engine.\<close>

definition node_filter :: "(task_node \<Rightarrow> bool) \<Rightarrow> nat \<Rightarrow> task_node \<Rightarrow> task_node option" where
  "node_filter P i n = (if P n then Some n else None)"

lemma filter_engine:
  fixes P :: "task_node \<Rightarrow> bool"
  assumes fm: "filter_map_spec fm" and ok: "engine_ok e"
    and f: "\<forall>i < length (g_nodes (e_graph e)).
      f i (g_nodes (e_graph e) ! i) = node_filter P i (g_nodes (e_graph e) ! i)"
  defines "g' \<equiv> fm (e_graph e) f"
  shows "wf_graph g'" and "distinct (g_nodes g')"
    and "set (g_nodes g') = {n \<in> task_nodes e. P n}"
    and "(\<lambda>(a, b). (g_nodes g' ! a, g_nodes g' ! b)) ` set (g_edges g') =
      {(m, n) \<in> task_edges e. P m \<and> P n}"
proof -
  have wf: "wf_graph (e_graph e)" "distinct (g_nodes (e_graph e))"
    using ok by (simp_all add: engine_ok_def)
  have kept: "kept (e_graph e) f =
      {i. i < length (g_nodes (e_graph e)) \<and> P (g_nodes (e_graph e) ! i)}"
    using f by (auto simp: kept_def node_filter_def split: if_splits)
  have same: "\<forall>i \<in> kept (e_graph e) f. f i (g_nodes (e_graph e) ! i) = Some (g_nodes (e_graph e) ! i)"
    using f by (auto simp: kept node_filter_def)
  note fmm = filter_map_meaning [OF fm wf same, folded g'_def]
  show "wf_graph g'" by (rule fmm(1))
  show "distinct (g_nodes g')" by (rule fmm(2))
  show "set (g_nodes g') = {n \<in> task_nodes e. P n}"
    unfolding fmm(3) kept task_nodes_def by (auto simp: in_set_conv_nth)
  show "(\<lambda>(a, b). (g_nodes g' ! a, g_nodes g' ! b)) ` set (g_edges g') =
      {(m, n) \<in> task_edges e. P m \<and> P n}"
    unfolding fmm(4) kept task_edges_def using wf(1) by (fastforce simp: wf_graph_def image_iff)
qed

lemma foldl_root_edges:
  assumes "\<forall>i \<in> set is. i < length (g_nodes g)"
  shows "g_nodes (foldl (\<lambda>h i. if g_nodes h ! i = RootTask then h else add_edge h i root) g is) = g_nodes g"
    and "set (g_edges (foldl (\<lambda>h i. if g_nodes h ! i = RootTask then h else add_edge h i root) g is)) =
      set (g_edges g) \<union> {(i, root) | i. i \<in> set is \<and> g_nodes g ! i \<noteq> RootTask}"
  using assms by (induction "is" arbitrary: g) (auto simp: add_edge_def)

definition keeps :: "engine \<Rightarrow> bool \<Rightarrow> task_node \<Rightarrow> bool" where
  "keeps e b n = (case n of RootTask \<Rightarrow> True | TaskNode t \<Rightarrow> is_interruptible e t = b)"

lemma interruptible_filter:
  "(\<lambda>_ node. case node of TaskNode t \<Rightarrow> if is_interruptible e t then Some node else None
      | RootTask \<Rightarrow> Some node) = node_filter (keeps e True)"
  "(\<lambda>_ node. case node of TaskNode t \<Rightarrow> if is_interruptible e t then None else Some node
      | RootTask \<Rightarrow> Some node) = node_filter (keeps e False)"
  by (auto simp: node_filter_def keeps_def fun_eq_iff split: task_node.splits)

lemma root_in_engine: "engine_ok e \<Longrightarrow> RootTask \<in> task_nodes e"
  by (auto simp: engine_ok_def task_nodes_def in_set_conv_nth)

text \<open>What both part engines have in common: sound lookups and a root.\<close>

definition part_ok :: "engine \<Rightarrow> bool" where
  "part_ok e \<longleftrightarrow> wf_graph (e_graph e) \<and> lookup_ok e \<and> node_at e (e_root_index e) RootTask"

lemma interruptible_engine:
  assumes fm: "filter_map_spec fm" and ok: "engine_ok e" and def: "all_defined e"
  shows "\<exists>ei. create_engine_for_interruptible_tasks fm e = Some ei \<and> part_ok ei \<and>
    task_nodes ei = {n \<in> task_nodes e. keeps e True n} \<and>
    task_edges ei = {(m, n) \<in> task_edges e. keeps e True m \<and> keeps e True n}"
proof -
  let ?g = "fm (e_graph e) (node_filter (keeps e True))"
  note g = filter_engine [OF fm ok, of "node_filter (keeps e True)" "keeps e True", simplified]
  have "RootTask \<in> set (g_nodes ?g)"
    unfolding g(3) using root_in_engine [OF ok] by (simp add: keeps_def)
  from find_root_Some [OF this] obtain root where
    root: "find_root (g_nodes ?g) = Some root" "root < length (g_nodes ?g)" "g_nodes ?g ! root = RootTask"
    by blast
  have "create_engine_for_interruptible_tasks fm e = Some
      (e\<lparr>e_graph := ?g, e_root_index := root, e_task_lookup := lookup_of_nodes (g_nodes ?g),
         e_has_non_interruptible_tasks := False\<rparr>)"
    using def root(1)
    by (simp add: create_engine_for_interruptible_tasks_def interruptible_filter Let_def)
  with g root show ?thesis
    by (auto simp: part_ok_def lookup_ok_def node_at_def task_nodes_def task_edges_def
        lookup_of_nodes_Some)
qed

lemma non_interruptible_engine:
  assumes fm: "filter_map_spec fm" and ok: "engine_ok e" and def: "all_defined e"
  shows "\<exists>en. create_engine_for_non_interruptible_tasks fm e = Some en \<and> part_ok en \<and>
    task_nodes en = {n \<in> task_nodes e. keeps e False n} \<and>
    task_edges en = {(m, n) \<in> task_edges e. keeps e False m \<and> keeps e False n} \<union>
      {(n, RootTask) | n. n \<in> task_nodes en \<and> n \<noteq> RootTask}"
proof -
  let ?g = "fm (e_graph e) (node_filter (keeps e False))"
  note g = filter_engine [OF fm ok, of "node_filter (keeps e False)" "keeps e False", simplified]
  have "RootTask \<in> set (g_nodes ?g)"
    unfolding g(3) using root_in_engine [OF ok] by (simp add: keeps_def)
  from find_root_Some [OF this] obtain root where
    root: "find_root (g_nodes ?g) = Some root" "root < length (g_nodes ?g)" "g_nodes ?g ! root = RootTask"
    by blast
  define g' where "g' = foldl (\<lambda>h i. if g_nodes h ! i = RootTask then h else add_edge h i root)
      ?g [0..<length (g_nodes ?g)]"
  have nodes: "g_nodes g' = g_nodes ?g"
    and edges: "set (g_edges g') = set (g_edges ?g) \<union>
      {(i, root) | i. i \<in> set [0..<length (g_nodes ?g)] \<and> g_nodes ?g ! i \<noteq> RootTask}"
    unfolding g'_def by (rule foldl_root_edges; simp)+
  have "create_engine_for_non_interruptible_tasks fm e = Some
      (e\<lparr>e_graph := g', e_root_index := root, e_task_lookup := lookup_of_nodes (g_nodes g'),
         e_has_non_interruptible_tasks := True\<rparr>)"
    using def root(1)
    by (simp add: create_engine_for_non_interruptible_tasks_def interruptible_filter Let_def g'_def)
  moreover have "wf_graph g'"
    using g(1) root(2) by (auto simp: wf_graph_def nodes edges)
  moreover have "(\<lambda>(a, b). (g_nodes g' ! a, g_nodes g' ! b)) ` set (g_edges g') =
      (\<lambda>(a, b). (g_nodes ?g ! a, g_nodes ?g ! b)) ` set (g_edges ?g) \<union>
      {(n, RootTask) | n. n \<in> set (g_nodes ?g) \<and> n \<noteq> RootTask}"
    unfolding edges nodes image_Un using root(3) by (auto simp: in_set_conv_nth image_iff)
  ultimately show ?thesis
    using g root
    by (auto simp: part_ok_def lookup_ok_def node_at_def task_nodes_def task_edges_def
        lookup_of_nodes_Some nodes)
qed

text \<open>
  in watch mode the engine is split in two: every task is in exactly one part, the persistent
  tasks that must not be interrupted in one and all others in the other; dependencies between
  tasks of the same part are kept, each non-interruptible task is also tied to the root, and the
  lookup table and the root index of both parts are right.
\<close>

theorem engine_split:
  assumes fm: "filter_map_spec fm" and ok: "engine_ok e" and def: "all_defined e"
  shows "\<exists>ei en. create_engine_for_interruptible_tasks fm e = Some ei \<and>
    create_engine_for_non_interruptible_tasks fm e = Some en \<and> part_ok ei \<and> part_ok en \<and>
    task_nodes ei \<union> task_nodes en = task_nodes e \<and> task_nodes ei \<inter> task_nodes en = {RootTask} \<and>
    (\<forall>t. TaskNode t \<in> task_nodes ei \<longleftrightarrow> TaskNode t \<in> task_nodes e \<and> is_interruptible e t) \<and>
    task_edges ei = {(m, n) \<in> task_edges e. m \<in> task_nodes ei \<and> n \<in> task_nodes ei} \<and>
    task_edges en = {(m, n) \<in> task_edges e. m \<in> task_nodes en \<and> n \<in> task_nodes en} \<union>
      {(n, RootTask) | n. n \<in> task_nodes en \<and> n \<noteq> RootTask}"
proof -
  have ends: "m \<in> task_nodes e \<and> n \<in> task_nodes e" if "(m, n) \<in> task_edges e" for m n
    using that ok by (auto simp: engine_ok_def wf_graph_def task_edges_def task_nodes_def)
  have split: "keeps e True n \<or> keeps e False n" "keeps e True n \<and> keeps e False n \<longleftrightarrow> n = RootTask" for n
    by (cases n; auto simp: keeps_def)+
  obtain ei where ei: "create_engine_for_interruptible_tasks fm e = Some ei" "part_ok ei"
    "task_nodes ei = {n \<in> task_nodes e. keeps e True n}"
    "task_edges ei = {(m, n) \<in> task_edges e. keeps e True m \<and> keeps e True n}"
    using interruptible_engine [OF assms] by blast
  obtain en where en: "create_engine_for_non_interruptible_tasks fm e = Some en" "part_ok en"
    "task_nodes en = {n \<in> task_nodes e. keeps e False n}"
    "task_edges en = {(m, n) \<in> task_edges e. keeps e False m \<and> keeps e False n} \<union>
      {(n, RootTask) | n. n \<in> task_nodes en \<and> n \<noteq> RootTask}"
    using non_interruptible_engine [OF assms] by blast
  have "task_nodes ei \<union> task_nodes en = task_nodes e" unfolding ei(3) en(3) using split(1) by blast
  moreover have "task_nodes ei \<inter> task_nodes en = {RootTask}"
    unfolding ei(3) en(3) using split(2) root_in_engine [OF ok] by blast
  moreover have "TaskNode t \<in> task_nodes ei \<longleftrightarrow> TaskNode t \<in> task_nodes e \<and> is_interruptible e t" for t
    unfolding ei(3) by (simp add: keeps_def)
  moreover have "task_edges ei = {(m, n) \<in> task_edges e. m \<in> task_nodes ei \<and> n \<in> task_nodes ei}"
    unfolding ei(3,4) using ends by blast
  moreover have "{(m, n) \<in> task_edges e. keeps e False m \<and> keeps e False n} =
      {(m, n) \<in> task_edges e. m \<in> task_nodes en \<and> n \<in> task_nodes en}"
    unfolding en(3) using ends by blast
  ultimately show ?thesis using ei(1,2) en(1,2,4) by (metis (no_types, lifting))
qed

subsection \<open>The part affected by changed packages\<close>

lemma node_at_unique: "engine_ok e \<Longrightarrow> node_at e i n \<Longrightarrow> node_at e j n \<Longrightarrow> i = j"
  by (auto simp: engine_ok_def node_at_def nth_eq_iff_index_eq)

lemma edge_node_at:
  "engine_ok e \<Longrightarrow> (a, b) \<in> set (g_edges (e_graph e)) \<Longrightarrow>
     node_at e a (g_nodes (e_graph e) ! a) \<and> node_at e b (g_nodes (e_graph e) ! b)"
  by (auto simp: engine_ok_def wf_graph_def node_at_def)

lemma task_edges_path:
  assumes "engine_ok e" and "(m, n) \<in> (task_edges e)\<^sup>*" and "node_at e i m"
  shows "\<exists>j. node_at e j n \<and> (i, j) \<in> (set (g_edges (e_graph e)))\<^sup>*"
  using assms(2)
proof (induction rule: rtrancl_induct)
  case base
  with assms(3) show ?case by blast
next
  case (step y z)
  then obtain j where j: "node_at e j y" "(i, j) \<in> (set (g_edges (e_graph e)))\<^sup>*" by blast
  from step(2) obtain a b where ab: "(a, b) \<in> set (g_edges (e_graph e))"
    "y = g_nodes (e_graph e) ! a" "z = g_nodes (e_graph e) ! b"
    by (auto simp: task_edges_def)
  with edge_node_at [OF assms(1) ab(1)] node_at_unique [OF assms(1)] j(1) have "a = j" by blast
  with ab j edge_node_at [OF assms(1) ab(1)] show ?case by (auto intro: rtrancl_into_rtrancl)
qed

lemma task_edges_reach:
  assumes ok: "engine_ok e" and i: "node_at e i m" and j: "node_at e j n"
  shows "(i, j) \<in> (set (g_edges (e_graph e)))\<^sup>* \<longleftrightarrow> (m, n) \<in> (task_edges e)\<^sup>*"
proof
  assume "(m, n) \<in> (task_edges e)\<^sup>*"
  then show "(i, j) \<in> (set (g_edges (e_graph e)))\<^sup>*"
    using task_edges_path [OF ok _ i] node_at_unique [OF ok j] by blast
next
  assume "(i, j) \<in> (set (g_edges (e_graph e)))\<^sup>*"
  then have "(g_nodes (e_graph e) ! i, g_nodes (e_graph e) ! j) \<in> (task_edges e)\<^sup>*"
    by (induction rule: rtrancl_induct)
      (auto simp: task_edges_def intro: rtrancl_into_rtrancl)
  with i j show "(m, n) \<in> (task_edges e)\<^sup>*" by (simp add: node_at_def)
qed

lemma package_indices_node:
  "i \<in> set (package_indices nodes p) \<longleftrightarrow>
     i < length nodes \<and> (\<exists>t. nodes ! i = TaskNode t \<and> package_name_from (tid_package t) = p)"
  by (auto simp: package_indices_def split: task_node.splits)

text \<open>A task is affected when it depends, directly or not, on a task of a changed package.\<close>

definition affected :: "engine \<Rightarrow> package_name list \<Rightarrow> task_node \<Rightarrow> bool" where
  "affected e pkgs n \<longleftrightarrow>
     (\<exists>u. TaskNode u \<in> task_nodes e \<and> package_name_from (tid_package u) \<in> set pkgs \<and>
        (n, TaskNode u) \<in> (task_edges e)\<^sup>*)"

lemma entrypoints_affected:
  assumes ok: "engine_ok e" and i: "node_at e i n"
  shows "(\<exists>idx \<in> set (concat (map (\<lambda>pkg. unwrap_or [] (e_package_tasks e pkg)) pkgs)).
      (i, idx) \<in> (set (g_edges (e_graph e)))\<^sup>*) \<longleftrightarrow> affected e pkgs n"
proof -
  have entry: "idx \<in> set (concat (map (\<lambda>pkg. unwrap_or [] (e_package_tasks e pkg)) pkgs)) \<longleftrightarrow>
      (\<exists>t. node_at e idx (TaskNode t) \<and> package_name_from (tid_package t) \<in> set pkgs)" for idx
    using ok by (auto simp: engine_ok_def package_indices_node node_at_def)
  show ?thesis
  proof
    assume "\<exists>idx \<in> set (concat (map (\<lambda>pkg. unwrap_or [] (e_package_tasks e pkg)) pkgs)).
      (i, idx) \<in> (set (g_edges (e_graph e)))\<^sup>*"
    then obtain idx u where u: "node_at e idx (TaskNode u)" "package_name_from (tid_package u) \<in> set pkgs"
      "(i, idx) \<in> (set (g_edges (e_graph e)))\<^sup>*"
      using entry by blast
    moreover have "TaskNode u \<in> task_nodes e"
      using u(1) by (auto simp: node_at_def task_nodes_def in_set_conv_nth)
    ultimately show "affected e pkgs n"
      unfolding affected_def using task_edges_reach [OF ok i u(1)] by blast
  next
    assume "affected e pkgs n"
    then obtain u where u: "package_name_from (tid_package u) \<in> set pkgs"
      "(n, TaskNode u) \<in> (task_edges e)\<^sup>*"
      unfolding affected_def by blast
    from task_edges_path [OF ok u(2) i] obtain j where
      "node_at e j (TaskNode u)" "(i, j) \<in> (set (g_edges (e_graph e)))\<^sup>*" by blast
    with u(1) show "\<exists>idx \<in> set (concat (map (\<lambda>pkg. unwrap_or [] (e_package_tasks e pkg)) pkgs)).
      (i, idx) \<in> (set (g_edges (e_graph e)))\<^sup>*"
      using entry by blast
  qed
qed

lemma subgraph_engine:
  assumes fm: "filter_map_spec fm" and fw: "floyd_warshall_spec fw"
    and ok: "engine_ok e" and def: "all_defined e"
  shows "\<exists>e'. create_engine_for_subgraph fm fw e pkgs = Some e' \<and> lookup_ok e' \<and>
    task_nodes e' = {n \<in> task_nodes e. affected e pkgs n \<and> keeps e True n} \<and>
    task_edges e' = {(m, n) \<in> task_edges e. m \<in> task_nodes e' \<and> n \<in> task_nodes e'}"
proof -
  let ?n = "length (g_nodes (e_graph e))" and ?es = "map (\<lambda>(a, b). (b, a)) (g_edges (e_graph e))"
  let ?entries = "concat (map (\<lambda>pkg. unwrap_or [] (e_package_tasks e pkg)) pkgs)"
  have bounds: "\<forall>(a, b) \<in> set ?es. a < ?n \<and> b < ?n"
    using ok by (fastforce simp: engine_ok_def wf_graph_def)
  from fw [unfolded floyd_warshall_spec_def, THEN spec, THEN spec, THEN mp, OF bounds]
  obtain dist where dist1: "fw ?n ?es = Some dist"
    and d: "\<forall>a b. a < ?n \<and> b < ?n \<longrightarrow>
       (\<exists>d. dist (a, b) = Some d \<and> d \<noteq> I32_MAX) \<longleftrightarrow> (a, b) \<in> (set ?es)\<^sup>*"
    by (elim exE conjE)
  have dist2: "(case dist (a, b) of Some d \<Rightarrow> d \<noteq> I32_MAX | None \<Rightarrow> False) \<longleftrightarrow>
      (b, a) \<in> (set (g_edges (e_graph e)))\<^sup>*" if "a < ?n" "b < ?n" for a b
  proof -
    have "(case dist (a, b) of Some d \<Rightarrow> d \<noteq> I32_MAX | None \<Rightarrow> False) \<longleftrightarrow>
        (\<exists>d. dist (a, b) = Some d \<and> d \<noteq> I32_MAX)" by (cases "dist (a, b)") auto
    also have "\<dots> \<longleftrightarrow> (a, b) \<in> ((set (g_edges (e_graph e)))\<inverse>)\<^sup>*"
      using d that unfolding set_reversed by blast
    finally show ?thesis by (simp add: rtrancl_converse)
  qed
  define reachable where "reachable = (\<lambda>node_idx. \<exists>idx \<in> set ?entries.
      case dist (idx, node_idx) of Some d \<Rightarrow> d \<noteq> I32_MAX | None \<Rightarrow> False)"
  define f where "f = (\<lambda>node_idx node. case node of
      TaskNode t \<Rightarrow> if \<not> is_interruptible e t then None
        else if reachable node_idx then Some node else None
    | RootTask \<Rightarrow> if reachable node_idx then Some node else None)"
  have entry: "idx < ?n" if "idx \<in> set ?entries" for idx
    using that ok by (auto simp: engine_ok_def package_indices_node)
  have reach: "reachable i \<longleftrightarrow> affected e pkgs (g_nodes (e_graph e) ! i)" if i: "i < ?n" for i
  proof -
    have "reachable i \<longleftrightarrow> (\<exists>idx \<in> set ?entries. (i, idx) \<in> (set (g_edges (e_graph e)))\<^sup>*)"
      unfolding reachable_def by (rule bex_cong [OF refl]) (rule dist2 [OF entry i])
    with entrypoints_affected [OF ok, of i "g_nodes (e_graph e) ! i"] i show ?thesis
      by (simp add: node_at_def)
  qed
  have f: "\<forall>i < ?n. f i (g_nodes (e_graph e) ! i) =
      node_filter (\<lambda>n. affected e pkgs n \<and> keeps e True n) i (g_nodes (e_graph e) ! i)"
    by (auto simp: f_def node_filter_def reach keeps_def split: task_node.splits)
  note g = filter_engine [where f = f and P = "\<lambda>n. affected e pkgs n \<and> keeps e True n", OF fm ok f]
  have "create_engine_for_subgraph fm fw e pkgs =
      Some (e\<lparr>e_graph := fm (e_graph e) f, e_task_lookup := lookup_of_nodes (g_nodes (fm (e_graph e) f)),
              e_has_non_interruptible_tasks := False\<rparr>)"
    unfolding create_engine_for_subgraph_def Let_def dist1 option.case f_def reachable_def using def by simp
  with g ok show ?thesis
    by (auto simp: lookup_ok_def task_nodes_def task_edges_def lookup_of_nodes_Some
        engine_ok_def wf_graph_def)
qed

text \<open>
  when packages change in watch mode, the engine for them has exactly the interruptible tasks
  that depend, directly or not, on a task of a changed package, with the dependencies between them.
\<close>

theorem subgraph_affected:
  assumes "filter_map_spec fm" and "floyd_warshall_spec fw" and "engine_ok e" and "all_defined e"
  shows "\<exists>e'. create_engine_for_subgraph fm fw e pkgs = Some e' \<and> lookup_ok e' \<and>
    (\<forall>t. TaskNode t \<in> task_nodes e' \<longleftrightarrow>
       TaskNode t \<in> task_nodes e \<and> is_interruptible e t \<and> affected e pkgs (TaskNode t)) \<and>
    task_edges e' = {(m, n) \<in> task_edges e. m \<in> task_nodes e' \<and> n \<in> task_nodes e'}"
  using subgraph_engine [OF assms, of pkgs] by (auto simp: keeps_def)

subsection \<open>A filter and a distance function\<close>

definition position :: "nat list \<Rightarrow> nat \<Rightarrow> nat" where
  "position ks i = length (takeWhile (\<lambda>k. k \<noteq> i) ks)"

definition list_filter_map :: graph_filter where
  "list_filter_map g f =
     (let ks = filter (\<lambda>i. f i (g_nodes g ! i) \<noteq> None) [0..<length (g_nodes g)]
      in \<lparr>g_nodes = map (\<lambda>i. the (f i (g_nodes g ! i))) ks,
          g_edges = map (\<lambda>(a, b). (position ks a, position ks b))
            (filter (\<lambda>(a, b). a \<in> set ks \<and> b \<in> set ks) (g_edges g))\<rparr>)"

lemma position_nth:
  assumes "i \<in> set ks"
  shows "position ks i < length ks" and "ks ! position ks i = i"
  using assms unfolding position_def by (induction ks) auto

lemma position_index: "distinct ks \<Longrightarrow> j < length ks \<Longrightarrow> position ks (ks ! j) = j"
  using position_nth [of "ks ! j" ks] by (simp add: nth_eq_iff_index_eq)

lemma list_filter_map_spec: "filter_map_spec list_filter_map"
  unfolding filter_map_spec_def
proof (intro allI impI)
  fix g :: "task_node graph" and f :: "nat \<Rightarrow> task_node \<Rightarrow> task_node option"
  assume wf: "wf_graph g"
  let ?ks = "filter (\<lambda>i. f i (g_nodes g ! i) \<noteq> None) [0..<length (g_nodes g)]"
  let ?g = "list_filter_map g f"
  have ks: "set ?ks = kept g f" by (auto simp: kept_def)
  have edges: "set (g_edges ?g) =
      {(position ?ks a, position ?ks b) | a b. (a, b) \<in> set (g_edges g) \<and> a \<in> kept g f \<and> b \<in> kept g f}"
    unfolding list_filter_map_def Let_def ks [symmetric] by force
  have len: "length (g_nodes ?g) = length ?ks" by (simp add: list_filter_map_def Let_def)
  have lt: "position ?ks a < length ?ks" if "a \<in> kept g f" for a
    using that unfolding ks [symmetric] by (rule position_nth)
  have bij: "bij_betw (position ?ks) (kept g f) {..<length ?ks}"
    unfolding ks [symmetric]
    by (rule bij_betw_byWitness [of _ "(!) ?ks"]) (auto simp: position_nth position_index simp del: set_filter)
  have nodes: "Some (g_nodes ?g ! position ?ks i) = f i (g_nodes g ! i)" if "i \<in> kept g f" for i
  proof -
    have i: "i \<in> set ?ks" using that by (simp only: ks)
    then have "g_nodes ?g ! position ?ks i = the (f i (g_nodes g ! i))"
      unfolding list_filter_map_def Let_def using position_nth [OF i] by (simp del: set_filter)
    with that show ?thesis by (simp add: kept_def)
  qed
  have "wf_graph ?g" unfolding wf_graph_def edges len using lt by blast
  moreover have "bij_betw (position ?ks) (kept g f) {..<length (g_nodes ?g)}" using bij by (simp only: len)
  ultimately show "wf_graph ?g \<and> (\<exists>r. bij_betw r (kept g f) {..<length (g_nodes ?g)} \<and>
      (\<forall>i \<in> kept g f. Some (g_nodes ?g ! r i) = f i (g_nodes g ! i)) \<and>
      set (g_edges ?g) = {(r a, r b) | a b. (a, b) \<in> set (g_edges g) \<and> a \<in> kept g f \<and> b \<in> kept g f})"
    using nodes edges by blast
qed

definition reach_distance :: shortest_paths where
  "reach_distance n es = Some (\<lambda>(a, b). if (a, b) \<in> (set es)\<^sup>* then Some 0 else Some I32_MAX)"

lemma reach_distance_spec: "floyd_warshall_spec reach_distance"
  by (auto simp: floyd_warshall_spec_def reach_distance_def I32_MAX_def)

definition sample_engine :: engine where
  "sample_engine =
     (let dev = TaskId ''web'' ''dev'';
          build = TaskId ''ui'' ''build''
      in add_definition (add_definition (connect_to_root (connect_to_root engine_new dev) build)
           dev (task_definition_default\<lparr>td_persistent := True\<rparr>)) build task_definition_default)"

lemma sample_engine_ok: "engine_ok sample_engine"
  by (simp add: sample_engine_def Let_def add_definition_ok(1) connect_to_root_ok(1) engine_ok_new)

lemma sample_engine_defined: "all_defined sample_engine"
  by (simp add: all_defined_def sample_engine_def Let_def add_definition_def connect_to_root_def
      get_index_def engine_new_def add_node_def add_edge_def)

theorem engine_split_witness:
  "filter_map_spec list_filter_map \<and> engine_ok sample_engine \<and> all_defined sample_engine \<and>
   (\<exists>ei en. create_engine_for_interruptible_tasks list_filter_map sample_engine = Some ei \<and>
    create_engine_for_non_interruptible_tasks list_filter_map sample_engine = Some en \<and>
    part_ok ei \<and> part_ok en \<and>
    task_nodes ei \<union> task_nodes en = task_nodes sample_engine \<and>
    task_nodes ei \<inter> task_nodes en = {RootTask} \<and>
    (\<forall>t. TaskNode t \<in> task_nodes ei \<longleftrightarrow>
       TaskNode t \<in> task_nodes sample_engine \<and> is_interruptible sample_engine t) \<and>
    task_edges ei = {(m, n) \<in> task_edges sample_engine. m \<in> task_nodes ei \<and> n \<in> task_nodes ei} \<and>
    task_edges en = {(m, n) \<in> task_edges sample_engine. m \<in> task_nodes en \<and> n \<in> task_nodes en} \<union>
      {(n, RootTask) | n. n \<in> task_nodes en \<and> n \<noteq> RootTask})"
  by (intro conjI list_filter_map_spec sample_engine_ok sample_engine_defined engine_split)

theorem subgraph_affected_witness:
  "filter_map_spec list_filter_map \<and> floyd_warshall_spec reach_distance \<and>
   engine_ok sample_engine \<and> all_defined sample_engine \<and>
   (\<exists>e'. create_engine_for_subgraph list_filter_map reach_distance sample_engine [OtherPkg ''ui''] = Some e' \<and>
    lookup_ok e' \<and>
    (\<forall>t. TaskNode t \<in> task_nodes e' \<longleftrightarrow>
       TaskNode t \<in> task_nodes sample_engine \<and> is_interruptible sample_engine t \<and>
       affected sample_engine [OtherPkg ''ui''] (TaskNode t)) \<and>
    task_edges e' = {(m, n) \<in> task_edges sample_engine. m \<in> task_nodes e' \<and> n \<in> task_nodes e'})"
  by (intro conjI list_filter_map_spec reach_distance_spec sample_engine_ok sample_engine_defined
      subgraph_affected)

subsection \<open>What validation accepts\<close>

text \<open>A dependency that a run can wait for: known, in a known package, and not a persistent script.\<close>

definition dep_fine :: "engine \<Rightarrow> package_graph \<Rightarrow> task_node \<Rightarrow> bool" where
  "dep_fine e pg n =
     (case n of
        RootTask \<Rightarrow> True
      | TaskNode u \<Rightarrow>
          (case (hm_get (e_task_definitions e) u, package_json_of pg (package_name_from (tid_package u))) of
             (Some def, Some json) \<Rightarrow> \<not> (td_persistent def \<and> map_of (pj_scripts json) (tid_task u) \<noteq> None)
           | _ \<Rightarrow> False))"

definition runs_forever :: "engine \<Rightarrow> package_graph \<Rightarrow> task_node \<Rightarrow> bool" where
  "runs_forever e pg n =
     (case n of
        RootTask \<Rightarrow> False
      | TaskNode t \<Rightarrow>
          (case (hm_get (e_task_definitions e) t, package_info_of pg (package_name_from (tid_package t))) of
             (Some d, Some info) \<Rightarrow> td_persistent d \<and>
               (case map_of (pj_scripts (pi_package_json info)) (tid_task t) of
                  Some script \<Rightarrow> sp_value script \<noteq> [] | None \<Rightarrow> False)
           | _ \<Rightarrow> False))"

definition packages_known :: "engine \<Rightarrow> package_graph \<Rightarrow> bool" where
  "packages_known e pg \<longleftrightarrow>
     (\<forall>t. TaskNode t \<in> task_nodes e \<longrightarrow> package_info_of pg (package_name_from (tid_package t)) \<noteq> None)"

lemma validate_deps_Inr:
  "validate_deps e pg t ds = Inr () \<longleftrightarrow> (\<forall>j \<in> set ds. dep_fine e pg (g_nodes (e_graph e) ! j))"
  by (induction ds) (auto simp: dep_fine_def split: task_node.splits option.splits)

lemma validate_node_Some:
  assumes "packages_known e pg" and "i < length (g_nodes (e_graph e))" and "neighbors_spec nbrs"
  shows "\<exists>r. validate_node nbrs e pg i = Some r \<and>
    (\<forall>b. r = Inr b \<longrightarrow> b = runs_forever e pg (g_nodes (e_graph e) ! i)) \<and>
    ((\<exists>b. r = Inr b) \<longleftrightarrow> g_nodes (e_graph e) ! i = RootTask \<or>
       (\<forall>j. (i, j) \<in> set (g_edges (e_graph e)) \<longrightarrow> dep_fine e pg (g_nodes (e_graph e) ! j)))"
proof (cases "g_nodes (e_graph e) ! i")
  case RootTask
  then show ?thesis by (auto simp: validate_node_def runs_forever_def)
next
  case (TaskNode t)
  let ?ds = "nbrs (g_edges (e_graph e)) i"
  have ds: "(\<forall>j \<in> set ?ds. dep_fine e pg (g_nodes (e_graph e) ! j)) \<longleftrightarrow>
      (\<forall>j. (i, j) \<in> set (g_edges (e_graph e)) \<longrightarrow> dep_fine e pg (g_nodes (e_graph e) ! j))"
    using assms(3) by (auto simp: neighbors_spec_def)
  obtain info where info: "package_info_of pg (package_name_from (tid_package t)) = Some info"
    using assms(1,2) TaskNode by (metis packages_known_def task_nodes_def nth_mem option.exhaust)
  show ?thesis
  proof (cases "validate_deps e pg t ?ds")
    case (Inl err)
    then have "\<not> (\<forall>j \<in> set ?ds. dep_fine e pg (g_nodes (e_graph e) ! j))"
      unfolding validate_deps_Inr [of e pg t, symmetric] by simp
    with Inl TaskNode show ?thesis unfolding ds by (simp add: validate_node_def)
  next
    case (Inr u)
    then have "validate_deps e pg t ?ds = Inr ()" by simp
    then have "\<forall>j \<in> set ?ds. dep_fine e pg (g_nodes (e_graph e) ! j)" by (simp only: validate_deps_Inr)
    then have "\<forall>j. (i, j) \<in> set (g_edges (e_graph e)) \<longrightarrow> dep_fine e pg (g_nodes (e_graph e) ! j)"
      by (simp only: ds)
    moreover have "validate_node nbrs e pg i = Some (Inr (runs_forever e pg (g_nodes (e_graph e) ! i)))"
      using Inr
      by (auto simp: validate_node_def TaskNode info runs_forever_def Let_def split: unit.splits option.splits)
    ultimately show ?thesis by blast
  qed
qed

lemma list_all2_mono':
  "list_all2 P xs ys \<Longrightarrow> (\<And>x y. x \<in> set xs \<Longrightarrow> y \<in> set ys \<Longrightarrow> P x y \<Longrightarrow> Q x y) \<Longrightarrow> list_all2 Q xs ys"
  by (auto simp: list_all2_conv_all_nth)

lemma outgoing_deps:
  assumes ok: "engine_ok e"
  shows "(\<forall>i < length (g_nodes (e_graph e)). g_nodes (e_graph e) ! i = RootTask \<or>
      (\<forall>j. (i, j) \<in> set (g_edges (e_graph e)) \<longrightarrow> P (g_nodes (e_graph e) ! j))) \<longleftrightarrow>
    (\<forall>t n. (TaskNode t, n) \<in> task_edges e \<longrightarrow> P n)"  (is "?L = ?R")
proof
  assume l: ?L
  show ?R
  proof (intro allI impI)
    fix t n assume "(TaskNode t, n) \<in> task_edges e"
    then obtain a b where ab: "(a, b) \<in> set (g_edges (e_graph e))"
      "g_nodes (e_graph e) ! a = TaskNode t" "g_nodes (e_graph e) ! b = n"
      by (auto simp: task_edges_def)
    with ok have "a < length (g_nodes (e_graph e))" by (auto simp: engine_ok_def wf_graph_def)
    with l ab show "P n" by (metis task_node.distinct(1))
  qed
next
  assume r: ?R
  show ?L
  proof (intro allI impI disjCI)
    fix i assume "\<not> (\<forall>j. (i, j) \<in> set (g_edges (e_graph e)) \<longrightarrow> P (g_nodes (e_graph e) ! j))"
    then obtain k where k: "(i, k) \<in> set (g_edges (e_graph e))" "\<not> P (g_nodes (e_graph e) ! k)" by blast
    then have "(g_nodes (e_graph e) ! i, g_nodes (e_graph e) ! k) \<in> task_edges e"
      by (force simp: task_edges_def)
    with r k show "g_nodes (e_graph e) ! i = RootTask" by (cases "g_nodes (e_graph e) ! i") auto
  qed
qed

lemma validate_fold_eq:
  "validate_fold rs (c, es) =
     (c + of_nat (length (filter (\<lambda>r. r = Inr True) rs)),
      es @ List.map_filter (\<lambda>r. case r of Inl e \<Rightarrow> Some e | Inr _ \<Rightarrow> None) rs)"
  by (induction rs "(c, es)" arbitrary: c es rule: validate_fold.induct)
    (auto simp: List.map_filter_simps)

lemma map_filter_Inl_Nil:
  "List.map_filter (\<lambda>r. case r of Inl e \<Rightarrow> Some e | Inr _ \<Rightarrow> None) rs = [] \<longleftrightarrow> (\<forall>r \<in> set rs. \<exists>b. r = Inr b)"
  by (induction rs) (auto simp: List.map_filter_simps split: sum.splits)

definition interactive_fine :: "engine \<Rightarrow> ui_mode \<Rightarrow> bool" where
  "interactive_fine e ui \<longleftrightarrow> ui = Tui \<or> (\<forall>(t, d) \<in> set (e_task_definitions e). \<not> td_interactive d)"

lemma validate_interactive_Nil: "validate_interactive e ui = [] \<longleftrightarrow> interactive_fine e ui"
proof -
  have "List.map_filter (\<lambda>(t, d). if td_interactive d then Some (InteractiveNeedsUI (task_id_display t)) else None) ds = []
      \<longleftrightarrow> (\<forall>(t, d) \<in> set ds. \<not> td_interactive d)" for ds :: "(task_id \<times> task_definition) list"
    by (induction ds) (auto simp: List.map_filter_simps split: if_splits)
  then show ?thesis by (simp add: validate_interactive_def interactive_fine_def)
qed

lemma count_forever:
  assumes "list_all2 (\<lambda>i r. r = Inr (Q (nodes ! i))) [0..<length nodes] rs" and "distinct nodes"
  shows "length (filter (\<lambda>r. r = Inr True) rs) = card {n \<in> set nodes. Q n}"
proof -
  have "rs = map (\<lambda>i. Inr (Q (nodes ! i))) [0..<length nodes]"
    using assms(1) by (auto simp: list_all2_conv_all_nth intro: nth_equalityI)
  also have "\<dots> = map (\<lambda>n. Inr (Q n)) nodes"
    by (auto intro: nth_equalityI)
  finally have "length (filter (\<lambda>r. r = Inr True) rs) = length (filter Q nodes)"
    by (simp add: filter_map o_def)
  with assms(2) show ?thesis by (simp add: distinct_card [symmetric])
qed

text \<open>
  C7: validation accepts a run exactly when no task waits for a persistent script (or for a task or
  package that does not exist), a slot is left beside the persistent tasks, and interactive tasks
  have the terminal UI; it never panics for an engine whose packages are known.
\<close>

theorem engine_validate_accepts:
  assumes ok: "engine_ok e" and nb: "neighbors_spec nbrs" and known: "packages_known e pg"
    and small: "card (task_nodes e) < 2 ^ 32"
  shows "\<exists>r. engine_validate nbrs e pg concurrency ui = Some r \<and>
    (r = Inr () \<longleftrightarrow>
      (\<forall>t n. (TaskNode t, n) \<in> task_edges e \<longrightarrow> dep_fine e pg n) \<and>
      card {n \<in> task_nodes e. runs_forever e pg n} < unat concurrency \<and>
      interactive_fine e ui)"
proof -
  let ?nodes = "g_nodes (e_graph e)"
  have "\<forall>i \<in> set [0..<length ?nodes]. \<exists>r. validate_node nbrs e pg i = Some r"
    using validate_node_Some [OF known _ nb] by fastforce
  from opt_map_total [OF this] obtain rs where
    rs: "opt_map (validate_node nbrs e pg) [0..<length ?nodes] = Some rs" by blast
  then have all2: "list_all2 (\<lambda>i r. validate_node nbrs e pg i = Some r) [0..<length ?nodes] rs"
    by (simp add: opt_map_Some_list_all2)
  let ?bad = "List.map_filter (\<lambda>r. case r of Inl e \<Rightarrow> Some e | Inr _ \<Rightarrow> None) rs"
  let ?count = "length (filter (\<lambda>r. r = Inr True) rs)"
  have deps: "?bad = [] \<longleftrightarrow> (\<forall>t n. (TaskNode t, n) \<in> task_edges e \<longrightarrow> dep_fine e pg n)"
  proof -
    have "?bad = [] \<longleftrightarrow> (\<forall>i < length ?nodes. \<exists>b. validate_node nbrs e pg i = Some (Inr b))"
      using all2 unfolding map_filter_Inl_Nil by (simp add: list_all2_conv_all_nth all_set_conv_all_nth)
    also have "\<dots> \<longleftrightarrow> (\<forall>i < length ?nodes. ?nodes ! i = RootTask \<or>
        (\<forall>j. (i, j) \<in> set (g_edges (e_graph e)) \<longrightarrow> dep_fine e pg (?nodes ! j)))"
      using validate_node_Some [OF known _ nb] by (metis option.inject)
    also have "\<dots> \<longleftrightarrow> (\<forall>t n. (TaskNode t, n) \<in> task_edges e \<longrightarrow> dep_fine e pg n)"
      by (rule outgoing_deps [OF ok])
    finally show ?thesis .
  qed
  have count: "?count = card {n \<in> task_nodes e. runs_forever e pg n}" if "?bad = []"
  proof -
    have "list_all2 (\<lambda>i r. r = Inr (runs_forever e pg (?nodes ! i))) [0..<length ?nodes] rs"
      using all2
    proof (rule list_all2_mono')
      fix i r assume i: "i \<in> set [0..<length ?nodes]" and r: "r \<in> set rs" and "validate_node nbrs e pg i = Some r"
      with validate_node_Some [OF known _ nb, of i] have "\<forall>b. r = Inr b \<longrightarrow> b = runs_forever e pg (?nodes ! i)"
        by auto
      with that r show "r = Inr (runs_forever e pg (?nodes ! i))" unfolding map_filter_Inl_Nil by auto
    qed
    from count_forever [OF this] ok show ?thesis by (simp add: engine_ok_def task_nodes_def)
  qed
  have "?count \<le> length rs" by simp
  also have "length rs = card (task_nodes e)"
    using opt_map_length [OF rs] ok by (simp add: engine_ok_def task_nodes_def distinct_card)
  finally have "unat (of_nat ?count :: u32) = ?count"
    using small by (simp add: unat_of_nat)
  then have le: "concurrency \<le> of_nat ?count \<longleftrightarrow> unat concurrency \<le> ?count"
    by (simp add: word_le_nat_alt)
  have "engine_validate nbrs e pg concurrency ui =
      Some (if ?bad @ (if concurrency \<le> of_nat ?count
              then [PersistentTasksExceedConcurrency (of_nat ?count) concurrency] else []) @
              validate_interactive e ui = [] then Inr ()
            else Inl (?bad @ (if concurrency \<le> of_nat ?count
              then [PersistentTasksExceedConcurrency (of_nat ?count) concurrency] else []) @
              validate_interactive e ui))"
    unfolding engine_validate_def rs by (auto simp: validate_fold_eq)
  with deps count show ?thesis
    by (auto simp: le validate_interactive_Nil not_le)
qed


definition sample_engine_packages :: package_graph where
  "sample_engine_packages =
     \<lparr>pg_graph = \<lparr>g_nodes = [RootNode], g_edges = []\<rparr>, pg_node_lookup = [(RootNode, 0)],
      pg_packages = [(OtherPkg ''web'', \<lparr>pi_package_json = package_json_default,
        pi_package_json_path = ''web/package.json'', pi_unresolved_external_dependencies = None,
        pi_transitive_dependencies = None\<rparr>),
       (OtherPkg ''ui'', \<lparr>pi_package_json = package_json_default,
        pi_package_json_path = ''ui/package.json'', pi_unresolved_external_dependencies = None,
        pi_transitive_dependencies = None\<rparr>)]\<rparr>"

lemma sample_engine_nodes:
  "g_nodes (e_graph sample_engine) =
     [RootTask, TaskNode (TaskId ''web'' ''dev''), TaskNode (TaskId ''ui'' ''build'')]"
  by (simp add: sample_engine_def Let_def add_definition_def connect_to_root_def
      get_index_def engine_new_def add_node_def add_edge_def)

theorem engine_validate_accepts_witness:
  "engine_ok sample_engine \<and> neighbors_spec list_neighbors \<and>
   packages_known sample_engine sample_engine_packages \<and> card (task_nodes sample_engine) < 2 ^ 32 \<and>
   (\<exists>r. engine_validate list_neighbors sample_engine sample_engine_packages 10 Tui = Some r \<and>
    (r = Inr () \<longleftrightarrow>
      (\<forall>t n. (TaskNode t, n) \<in> task_edges sample_engine \<longrightarrow>
         dep_fine sample_engine sample_engine_packages n) \<and>
      card {n \<in> task_nodes sample_engine. runs_forever sample_engine sample_engine_packages n}
        < unat (10 :: u32) \<and>
      interactive_fine sample_engine Tui))"
proof -
  have known: "packages_known sample_engine sample_engine_packages"
    by (auto simp: packages_known_def task_nodes_def sample_engine_nodes package_info_of_def
        sample_engine_packages_def package_name_from_def)
  have small: "card (task_nodes sample_engine) < 2 ^ 32"
    by (simp add: task_nodes_def sample_engine_nodes)
  show ?thesis
    by (intro conjI sample_engine_ok list_neighbors_spec known small
        engine_validate_accepts [OF sample_engine_ok list_neighbors_spec known small])
qed

end
