(* ===== verification/Change_Mapper.thy ===== *)
theory Change_Mapper
  imports Package_Graph
begin

text \<open>
  From changed files to changed packages: \<open>nrzrepo-repository/src/change_mapper/mod.rs\<close> and
  \<open>package.rs\<close>, the lockfile comparison of \<open>package_graph/mod.rs\<close>, and
  \<open>nrzrepo-lib/src/run/scope/change_detector.rs\<close>. Sets of files are lists. Glob matching
  (\<open>wax\<close>) and the answers of git are parameters. Equality of paths is equality of their
  components; the paths of packages are canonical (theory \<open>Paths\<close>), so it is equality here.
\<close>

record workspace_package =
  wp_name :: package_name
  wp_path :: string

definition workspace_package_root :: workspace_package where
  "workspace_package_root = \<lparr>wp_name = RootPkg, wp_path = []\<rparr>"

text \<open>\<open>PackageInfo::package_path\<close>; the path of a \<open>package.json\<close> always has a parent.\<close>

definition package_path :: "package_info \<Rightarrow> string" where
  "package_path info = (case path_parent (pi_package_json_path info) of Some p \<Rightarrow> p | None \<Rightarrow> [])"

definition package_dir :: "package_graph \<Rightarrow> package_name \<Rightarrow> string option" where
  "package_dir pg package =
     map_option (\<lambda>entry. case path_parent (pi_package_json_path entry) of Some p \<Rightarrow> p | None \<Rightarrow> [])
       (hm_get (pg_packages pg) package)"

definition workspace_package_of :: "package_name \<times> package_info \<Rightarrow> workspace_package" where
  "workspace_package_of p = \<lparr>wp_name = fst p, wp_path = package_path (snd p)\<rparr>"

text \<open>\<open>None\<close> is a panic: a package of the graph without an entry.\<close>

definition root_internal_package_dependencies ::
  "discover \<Rightarrow> package_graph \<Rightarrow> workspace_package set option"
where
  "root_internal_package_dependencies discover pg =
     (case root_internal_dependencies discover pg of
        None \<Rightarrow> None
      | Some deps \<Rightarrow>
          if \<exists>p. WorkspaceNode p \<in> deps \<and> package_dir pg p = None then None
          else Some {\<lparr>wp_name = p, wp_path = d\<rparr> | p d. WorkspaceNode p \<in> deps \<and> package_dir pg p = Some d})"

subsection \<open>Package managers\<close>

datatype package_manager = Npm | Pnpm | Pnpm6 | Pnpm9 | Berry | Yarn | Bun

definition lockfile_name :: "package_manager \<Rightarrow> string" where
  "lockfile_name m =
     (case m of
        Npm \<Rightarrow> ''package-lock.json''
      | Bun \<Rightarrow> ''bun.lock''
      | Pnpm \<Rightarrow> ''pnpm-lock.yaml'' | Pnpm6 \<Rightarrow> ''pnpm-lock.yaml'' | Pnpm9 \<Rightarrow> ''pnpm-lock.yaml''
      | Yarn \<Rightarrow> ''yarn.lock'' | Berry \<Rightarrow> ''yarn.lock'')"

definition lockfile_path :: "package_manager \<Rightarrow> string \<Rightarrow> string" where
  "lockfile_path m nrz_root = path_join nrz_root (lockfile_name m)"

subsection \<open>Comparing lockfiles\<close>

record external_dependency_change =
  ec_package :: workspace_package
  ec_added :: "lf_package list"
  ec_removed :: "lf_package list"

datatype changed_packages_error = NoLockfile | LockfileErr lockfile_error

definition external_deps :: "package_graph \<Rightarrow> (string, dep_map) hash_map" where
  "external_deps pg =
     hm_collect (List.map_filter
       (\<lambda>(_, info). map_option (\<lambda>dep. (package_path info, dep)) (pi_unresolved_external_dependencies info))
       (pg_packages pg))"

definition closure_differs ::
  "(string \<times> lf_package list) list \<Rightarrow> package_name \<times> package_info \<Rightarrow> bool"
where
  "closure_differs closures p \<longleftrightarrow>
     map_option set (hm_get closures (package_path (snd p))) \<noteq> map_option set (pi_transitive_dependencies (snd p))"

definition sorted_difference :: "lf_package list \<Rightarrow> lf_package list \<Rightarrow> lf_package list" where
  "sorted_difference xs ys = sort (remdups (filter (\<lambda>x. x \<notin> set ys) xs))"

definition changed_closure ::
  "(string \<times> lf_package list) list \<Rightarrow> package_name \<times> package_info \<Rightarrow> external_dependency_change"
where
  "changed_closure closures p =
     (let prev_deps = (case hm_get closures (package_path (snd p)) of Some d \<Rightarrow> d | None \<Rightarrow> []);
          curr_deps = (case pi_transitive_dependencies (snd p) of Some d \<Rightarrow> d | None \<Rightarrow> [])
      in \<lparr>ec_package = workspace_package_of p, ec_added = sorted_difference curr_deps prev_deps,
          ec_removed = sorted_difference prev_deps curr_deps\<rparr>)"

text \<open>
  \<open>changed_packages_from_lockfile\<close>: \<open>has_lockfile\<close> tells whether the graph has a lockfile,
  \<open>resolve\<close> and \<open>all_deps\<close> are the lookups of the previous one, \<open>global_change\<close> is
  \<open>current.global_change(previous)\<close>. \<open>None\<close>: out of fuel.
\<close>

definition changed_packages_from_lockfile ::
  "resolver \<Rightarrow> dep_lookup \<Rightarrow> nat \<Rightarrow> bool \<Rightarrow> bool \<Rightarrow> package_graph \<Rightarrow>
    (changed_packages_error, external_dependency_change list) result option"
where
  "changed_packages_from_lockfile resolve all_deps fuel has_lockfile global_change pg =
     (if \<not> has_lockfile then Some (Inl NoLockfile)
      else
        (case all_transitive_closures resolve all_deps fuel (external_deps pg) True of
           None \<Rightarrow> None
         | Some (Inl e) \<Rightarrow> Some (Inl (LockfileErr e))
         | Some (Inr closures) \<Rightarrow>
             (let differing = filter (closure_differs closures) (pg_packages pg);
                  everything = map (\<lambda>p. \<lparr>ec_package = workspace_package_of p, ec_added = [], ec_removed = []\<rparr>)
                                 (pg_packages pg)
              in Some (Inr
                   (if global_change \<or> RootPkg \<in> set (map fst differing) then everything
                    else map (changed_closure closures) differing)))))"

subsection \<open>Detecting the package of a file\<close>

datatype all_package_change_reason =
    GlobalDepsChanged string
  | DefaultGlobalFileChanged string
  | LockfileChangeDetectionFailed
  | LockfileChangedWithoutDetails
  | RootInternalDepChanged package_name
  | GitRefNotFound "string option" "string option"

datatype package_inclusion_reason =
    AllReason all_package_change_reason
  | RootTask string
  | ConservativeRootLockfileChanged
  | LockfileChanged "lf_package list" "lf_package list"
  | DependencyChanged package_name
  | DependentChanged package_name
  | FileChanged string
  | InFilteredDirectory string
  | IncludedByFilter "string list"

datatype package_mapping =
    MapAll all_package_change_reason
  | MapNone
  | MapPackage workspace_package package_inclusion_reason

definition is_file_in_package :: "string \<Rightarrow> string \<Rightarrow> bool" where
  "is_file_in_package f dir =
     list_all (\<lambda>(a, b). a = b) (zip (path_components f) (path_components dir))"

fun default_detect_loop :: "string \<Rightarrow> (package_name \<times> package_info) list \<Rightarrow> package_mapping" where
  "default_detect_loop f [] = MapAll (GlobalDepsChanged f)"
| "default_detect_loop f ((name, entry) # rest) =
     (if name = RootPkg then default_detect_loop f rest
      else
        (case path_parent (pi_package_json_path entry) of
           Some dir \<Rightarrow>
             if is_file_in_package f dir
             then MapPackage \<lparr>wp_name = name, wp_path = dir\<rparr> (FileChanged f)
             else default_detect_loop f rest
         | None \<Rightarrow> default_detect_loop f rest))"

definition default_detect_package :: "package_graph \<Rightarrow> string \<Rightarrow> package_mapping" where
  "default_detect_package pg f = default_detect_loop f (pg_packages pg)"

text \<open>\<open>GlobalDepsPackageChangeMapper::detect_package\<close>; \<open>in_global_deps\<close> is the compiled matcher.\<close>

definition global_deps_detect_package ::
  "(string \<Rightarrow> string) \<Rightarrow> (string \<Rightarrow> bool) \<Rightarrow> package_graph \<Rightarrow> string \<Rightarrow> package_mapping"
where
  "global_deps_detect_package clean in_global_deps pg path =
     (if path \<in> set [''package.json'', ''pnpm-lock.yaml'', ''yarn.lock'']
      then MapPackage \<lparr>wp_name = RootPkg, wp_path = []\<rparr> ConservativeRootLockfileChanged
      else
        (case default_detect_package pg path of
           MapAll _ \<Rightarrow>
             if in_global_deps (clean path) then MapAll (GlobalDepsChanged path)
             else MapPackage workspace_package_root (FileChanged path)
         | result \<Rightarrow> result))"

subsection \<open>The change mapper\<close>

definition DEFAULT_GLOBAL_DEPS :: "string list" where
  "DEFAULT_GLOBAL_DEPS = [''package.json'', ''nrz.json'']"

definition merge_changed_packages ::
  "('t, package_inclusion_reason) hash_map \<Rightarrow> ('t \<times> package_inclusion_reason) list \<Rightarrow>
    ('t, package_inclusion_reason) hash_map"
where
  "merge_changed_packages changed_packages new_changes =
     fold (\<lambda>(package, reason) m. if hm_get m package = None then hm_insert package reason m else m)
       new_changes changed_packages"

datatype package_changes =
    AllChanged all_package_change_reason
  | SomeChanged "(workspace_package, package_inclusion_reason) hash_map"

definition default_global_file_changed :: "string list \<Rightarrow> string option" where
  "default_global_file_changed changed_files = List.find (\<lambda>f. f \<in> set DEFAULT_GLOBAL_DEPS) changed_files"

fun get_changed_packages ::
  "(string \<Rightarrow> package_mapping) \<Rightarrow> workspace_package set \<Rightarrow> string list \<Rightarrow>
    (workspace_package, package_inclusion_reason) hash_map \<Rightarrow> package_changes"
where
  "get_changed_packages detect root_internal_deps [] changed_packages = SomeChanged changed_packages"
| "get_changed_packages detect root_internal_deps (f # fs) changed_packages =
     (case detect f of
        MapPackage pkg reason \<Rightarrow>
          if pkg \<in> root_internal_deps then AllChanged (RootInternalDepChanged (wp_name pkg))
          else get_changed_packages detect root_internal_deps fs (hm_insert pkg reason changed_packages)
      | MapAll reason \<Rightarrow> AllChanged reason
      | MapNone \<Rightarrow> get_changed_packages detect root_internal_deps fs changed_packages)"

datatype change_map_error = WaxError string | PackageManagerError string | NoLockfileError | LockfileError lockfile_error

text \<open>
  \<open>ChangeMapper::changed_packages\<close>: \<open>ignored\<close> is the result of compiling the ignore patterns,
  \<open>from_lockfile\<close> is \<open>get_changed_packages_from_lockfile\<close>.
\<close>

definition changed_packages ::
  "(string, string \<Rightarrow> bool) result \<Rightarrow> (string \<Rightarrow> package_mapping) \<Rightarrow> workspace_package set \<Rightarrow>
    ('b \<Rightarrow> (change_map_error, external_dependency_change list) result) \<Rightarrow>
    string list \<Rightarrow> 'b option option \<Rightarrow> (change_map_error, package_changes) result"
where
  "changed_packages ignored detect root_internal_deps from_lockfile changed_files lockfile_change =
     (case default_global_file_changed changed_files of
        Some f \<Rightarrow> Inr (AllChanged (DefaultGlobalFileChanged f))
      | None \<Rightarrow>
          (case ignored of
             Inl e \<Rightarrow> Inl (WaxError e)
           | Inr matcher \<Rightarrow>
               (case get_changed_packages detect root_internal_deps
                       (filter (\<lambda>f. \<not> matcher f) changed_files) [] of
                  AllChanged reason \<Rightarrow> Inr (AllChanged reason)
                | SomeChanged changed_pkgs \<Rightarrow>
                    (case lockfile_change of
                       Some (Some content) \<Rightarrow>
                         (case from_lockfile content of
                            Inl _ \<Rightarrow> Inr (AllChanged LockfileChangeDetectionFailed)
                          | Inr changes \<Rightarrow>
                              Inr (SomeChanged (merge_changed_packages changed_pkgs
                                (map (\<lambda>c. (ec_package c, LockfileChanged (ec_removed c) (ec_added c))) changes))))
                     | Some None \<Rightarrow> Inr (AllChanged LockfileChangedWithoutDetails)
                     | None \<Rightarrow> Inr (SomeChanged changed_pkgs)))))"

text \<open>\<open>get_changed_packages_from_lockfile\<close>; \<open>parse\<close> is the package manager's parser.\<close>

definition changed_packages_error_into :: "changed_packages_error \<Rightarrow> change_map_error" where
  "changed_packages_error_into e = (case e of NoLockfile \<Rightarrow> NoLockfileError | LockfileErr l \<Rightarrow> LockfileError l)"

definition lockfile_changed :: "string \<Rightarrow> string list \<Rightarrow> string \<Rightarrow> bool option" where
  "lockfile_changed nrz_root changed_files path =
     (case anchor nrz_root path of
        Inl _ \<Rightarrow> None
      | Inr relative \<Rightarrow> Some (\<exists>f \<in> set changed_files. path_components f = path_components relative))"

subsection \<open>What is reported\<close>

lemma get_changed_packages_Some:
  "get_changed_packages detect roots fs acc = SomeChanged m \<Longrightarrow>
    fst ` set m = fst ` set acc \<union> {p. \<exists>f \<in> set fs. \<exists>r. detect f = MapPackage p r} \<and>
    (\<forall>f \<in> set fs. (\<forall>r. detect f \<noteq> MapAll r) \<and> (\<forall>p r. detect f = MapPackage p r \<longrightarrow> p \<notin> roots))"
proof (induction detect roots fs acc rule: get_changed_packages.induct)
  case (2 detect roots f fs acc)
  then show ?case by (cases "detect f") (auto split: if_splits)
qed simp

lemma merge_changed_packages_keys:
  "fst ` set (merge_changed_packages m new) = fst ` set m \<union> fst ` set new"
proof (induction new arbitrary: m)
  case (Cons x new)
  obtain k r where x: "x = (k, r)" by (cases x)
  have "merge_changed_packages m (x # new) = merge_changed_packages (if hm_get m k = None then hm_insert k r m else m) new"
    by (simp add: merge_changed_packages_def x)
  moreover have "fst ` set (if hm_get m k = None then hm_insert k r m else m) = insert k (fst ` set m)"
    by (cases "hm_get m k") (auto dest: map_of_SomeD simp: rev_image_eqI)
  ultimately show ?case using Cons.IH by (simp add: x)
qed (simp add: merge_changed_packages_def)

text \<open>An earlier reason is kept.\<close>

lemma merge_changed_packages_get:
  "hm_get (merge_changed_packages m new) k = (case hm_get m k of Some r \<Rightarrow> Some r | None \<Rightarrow> hm_get new k)"
proof (induction new arbitrary: m)
  case (Cons x new)
  obtain k' r where x: "x = (k', r)" by (cases x)
  have "merge_changed_packages m (x # new) = merge_changed_packages (if hm_get m k' = None then hm_insert k' r m else m) new"
    by (simp add: merge_changed_packages_def x)
  with Cons.IH show ?case by (auto simp: x split: option.splits)
qed (simp add: merge_changed_packages_def split: option.splits)

lemma changed_packages_Some:
  assumes "changed_packages (Inr ignored) detect roots from_lockfile fs lc = Inr (SomeChanged m)"
  shows "{p. \<exists>f \<in> set fs. \<not> ignored f \<and> (\<exists>r. detect f = MapPackage p r)} \<subseteq> fst ` set m"
    and "\<forall>f \<in> set fs. \<not> ignored f \<longrightarrow> (\<forall>r. detect f \<noteq> MapAll r)"
proof -
  obtain m0 where m0: "get_changed_packages detect roots (filter (\<lambda>f. \<not> ignored f) fs) [] = SomeChanged m0"
    "fst ` set m0 \<subseteq> fst ` set m"
    using assms by (auto simp: changed_packages_def merge_changed_packages_keys
        split: option.splits package_changes.splits sum.splits)
  from get_changed_packages_Some [OF m0(1)] m0(2)
  show "{p. \<exists>f \<in> set fs. \<not> ignored f \<and> (\<exists>r. detect f = MapPackage p r)} \<subseteq> fst ` set m"
    and "\<forall>f \<in> set fs. \<not> ignored f \<longrightarrow> (\<forall>r. detect f \<noteq> MapAll r)"
    by auto
qed

lemma zip_all_eq: "list_all (\<lambda>(a, b). a = b) (zip xs ys) \<longleftrightarrow> prefix xs ys \<or> prefix ys xs"
proof (induction xs arbitrary: ys)
  case (Cons x xs)
  then show ?case by (cases ys) auto
qed simp

lemma is_file_in_package_prefix:
  "is_file_in_package f dir \<longleftrightarrow>
     prefix (path_components dir) (path_components f) \<or> prefix (path_components f) (path_components dir)"
  by (auto simp: is_file_in_package_def zip_all_eq)

text \<open>The package a file is attributed to when no other package claims it.\<close>

definition claims :: "string \<Rightarrow> package_name \<times> package_info \<Rightarrow> bool" where
  "claims f p \<longleftrightarrow> fst p \<noteq> RootPkg \<and>
     (case path_parent (pi_package_json_path (snd p)) of Some dir \<Rightarrow> is_file_in_package f dir | None \<Rightarrow> False)"

lemma default_detect_find:
  "default_detect_loop f ps =
     (case List.find (claims f) ps of
        Some (name, info) \<Rightarrow> MapPackage \<lparr>wp_name = name, wp_path = package_path info\<rparr> (FileChanged f)
      | None \<Rightarrow> MapAll (GlobalDepsChanged f))"
  by (induction f ps rule: default_detect_loop.induct)
     (simp_all add: claims_def package_path_def split: option.splits)

lemma default_detect_claimed:
  assumes "p \<in> set ps" and "claims f p" and "\<forall>q \<in> set ps. claims f q \<longrightarrow> q = p"
  shows "default_detect_loop f ps = MapPackage \<lparr>wp_name = fst p, wp_path = package_path (snd p)\<rparr> (FileChanged f)"
proof -
  obtain q where q: "List.find (claims f) ps = Some q"
    using assms(1,2) find_None_iff [of "claims f" ps] by (metis not_Some_eq)
  then have "q = p" using find_in_set [OF q] assms(3) by blast
  with q show ?thesis by (simp add: default_detect_find split: prod.splits)
qed

text \<open>
  no change is missed. When a changed file that is not ignored lies in the directory of a package
  (and in no other package's), then either all packages are reported as changed or that package is.
\<close>

theorem changed_file_marks_package:
  assumes run: "changed_packages (Inr ignored) (global_deps_detect_package clean in_global pg) roots from_lockfile fs lc = Inr res"
    and f: "f \<in> set fs" "\<not> ignored f" "f \<notin> set [''package.json'', ''pnpm-lock.yaml'', ''yarn.lock'']"
    and p: "(name, info) \<in> set (pg_packages pg)" "name \<noteq> RootPkg" "path_parent (pi_package_json_path info) = Some dir"
    and inside: "prefix (path_components dir) (path_components f)"
    and alone: "\<forall>q \<in> set (pg_packages pg). claims f q \<longrightarrow> q = (name, info)"
  shows "(\<exists>reason. res = AllChanged reason) \<or>
    (\<exists>m. res = SomeChanged m \<and> \<lparr>wp_name = name, wp_path = dir\<rparr> \<in> fst ` set m)"
proof (cases res)
  case (SomeChanged m)
  have "claims f (name, info)" using p(2,3) inside by (simp add: claims_def is_file_in_package_prefix)
  from default_detect_claimed [OF p(1) this alone]
  have "default_detect_package pg f = MapPackage \<lparr>wp_name = name, wp_path = package_path info\<rparr> (FileChanged f)"
    by (simp add: default_detect_package_def)
  moreover have "package_path info = dir" by (simp add: package_path_def p(3))
  ultimately have "global_deps_detect_package clean in_global pg f = MapPackage \<lparr>wp_name = name, wp_path = dir\<rparr> (FileChanged f)"
    using f(3) by (simp add: global_deps_detect_package_def)
  with changed_packages_Some(1) [OF run [unfolded SomeChanged]] f(1,2) SomeChanged show ?thesis by blast
qed simp

definition sample_change_graph :: package_graph where
  "sample_change_graph = \<lparr>pg_graph = \<lparr>g_nodes = [], g_edges = []\<rparr>, pg_node_lookup = [],
     pg_packages = [(RootPkg, \<lparr>pi_package_json = package_json_default, pi_package_json_path = ''package.json'',
         pi_unresolved_external_dependencies = None, pi_transitive_dependencies = None\<rparr>),
       (OtherPkg ''a'', \<lparr>pi_package_json = package_json_default, pi_package_json_path = ''a/package.json'',
         pi_unresolved_external_dependencies = None, pi_transitive_dependencies = None\<rparr>),
       (OtherPkg ''b'', \<lparr>pi_package_json = package_json_default, pi_package_json_path = ''b/package.json'',
         pi_unresolved_external_dependencies = None, pi_transitive_dependencies = None\<rparr>)]\<rparr>"

definition sample_change_run :: "(change_map_error, package_changes) result" where
  "sample_change_run = changed_packages (Inr (\<lambda>_. False)) (global_deps_detect_package id (\<lambda>_. False) sample_change_graph) {}
     (\<lambda>_::unit. Inr []) [''b/x''] None"

lemma sample_change_apart: "\<forall>q \<in> set (pg_packages sample_change_graph). claims ''b/x'' q \<longrightarrow>
    q = (OtherPkg ''b'', \<lparr>pi_package_json = package_json_default, pi_package_json_path = ''b/package.json'',
         pi_unresolved_external_dependencies = None, pi_transitive_dependencies = None\<rparr>)"
  by code_simp

lemma sample_change_result:
  "sample_change_run = Inr (SomeChanged [(\<lparr>wp_name = OtherPkg ''b'', wp_path = ''b''\<rparr>, FileChanged ''b/x'')])"
  by code_simp

theorem changed_file_marks_package_witness:
  "sample_change_run = Inr (SomeChanged [(\<lparr>wp_name = OtherPkg ''b'', wp_path = ''b''\<rparr>, FileChanged ''b/x'')]) \<and>
   ((\<exists>reason. SomeChanged [(\<lparr>wp_name = OtherPkg ''b'', wp_path = ''b''\<rparr>, FileChanged ''b/x'')] = AllChanged reason) \<or>
    (\<exists>m. SomeChanged [(\<lparr>wp_name = OtherPkg ''b'', wp_path = ''b''\<rparr>, FileChanged ''b/x'')] = SomeChanged m \<and>
       \<lparr>wp_name = OtherPkg ''b'', wp_path = ''b''\<rparr> \<in> fst ` set m))"
proof (intro conjI sample_change_result)
  have "prefix (path_components ''b'') (path_components ''b/x'')" by code_simp
  moreover have "path_parent ''b/package.json'' = Some ''b''" by code_simp
  ultimately show "(\<exists>reason. SomeChanged [(\<lparr>wp_name = OtherPkg ''b'', wp_path = ''b''\<rparr>, FileChanged ''b/x'')] = AllChanged reason) \<or>
    (\<exists>m. SomeChanged [(\<lparr>wp_name = OtherPkg ''b'', wp_path = ''b''\<rparr>, FileChanged ''b/x'')] = SomeChanged m \<and>
       \<lparr>wp_name = OtherPkg ''b'', wp_path = ''b''\<rparr> \<in> fst ` set m)"
    by (intro changed_file_marks_package [OF sample_change_result [unfolded sample_change_run_def] _ _ _ _ _ _ _ sample_change_apart])
       (simp_all add: sample_change_graph_def)
qed

end
