(* ===== verification/Task_Hash.thy ===== *)
theory Task_Hash
  imports Env Engine Change_Mapper
begin

text \<open>
  The cache key of a task: \<open>nrzrepo-lib/src/hash/mod.rs\<close>, \<open>hash/traits.rs\<close>, \<open>task_hash.rs\<close>,
  \<open>framework.rs\<close> and \<open>run/global_hash.rs\<close>. What is hashed is a Cap'n Proto message; the parameter
  \<open>digest\<close> is its canonical encoding followed by XxHash64 with seed 0. Hashing the files of a
  package (by git or the daemon), the embedded list of frameworks and walking globs are parameters.
  The hash tracker behind its mutex is threaded through; \<open>calculate_task_hash\<close> returns it updated.
\<close>

unbundle bit_operations_syntax

type_synonym file_hashes = "(string, string) hash_map"

subsection \<open>Messages\<close>

record task_hashable =
  tk_global_hash :: string
  tk_task_dependency_hashes :: "string list"
  tk_hash_of_files :: string
  tk_external_deps_hash :: "string option"
  tk_package_dir :: "string option"
  tk_task :: string
  tk_outputs :: task_outputs
  tk_pass_through_args :: "string list"
  tk_env :: "string list"
  tk_resolved_env_vars :: "string list"
  tk_pass_through_env :: "string list"
  tk_env_mode :: env_mode

record global_hashable =
  gh_global_cache_key :: string
  gh_global_file_hash_map :: file_hashes
  gh_root_external_dependencies_hash :: "string option"
  gh_root_internal_dependencies_hash :: "string option"
  gh_engines :: "(string, string) hash_map"
  gh_env :: "string list"
  gh_resolved_env_vars :: "string list"
  gh_pass_through_env :: "string list"
  gh_env_mode :: env_mode
  gh_framework_inference :: bool

text \<open>A message holds the lists in the order they were set; entries of hash maps come sorted.\<close>

datatype hash_message =
    LockFilePackagesMsg "(string \<times> string \<times> bool) list"
  | FileHashesMsg "(string \<times> string) list"
  | TaskMsg task_hashable
  | GlobalMsg global_hashable

definition lockfile_packages_message :: "lf_package list \<Rightarrow> hash_message" where
  "lockfile_packages_message packages = LockFilePackagesMsg (map (\<lambda>p. (pkg_key p, pkg_version p, True)) packages)"

definition file_hashes_message :: "file_hashes \<Rightarrow> hash_message" where
  "file_hashes_message fh = FileHashesMsg (sort_key fst fh)"

text \<open>Every field of a \<open>TaskHashable\<close> is set in the message; fields that are \<open>None\<close> stay unset.\<close>

definition task_message :: "task_hashable \<Rightarrow> hash_message" where
  [simp]: "task_message th = TaskMsg th"

definition global_message :: "global_hashable \<Rightarrow> hash_message" where
  "global_message g = GlobalMsg (g\<lparr>gh_global_file_hash_map := sort_key fst (gh_global_file_hash_map g),
     gh_engines := sort_key fst (gh_engines g)\<rparr>)"

subsection \<open>Digests\<close>

definition to_be_bytes :: "64 word \<Rightarrow> 8 word list" where
  "to_be_bytes w = map (\<lambda>i. ucast (drop_bit (8 * i) w)) (rev [0..<8])"

definition HEX_DIGITS :: string where
  "HEX_DIGITS = ''0123456789abcdef''"

definition hex_digit :: "nat \<Rightarrow> char" where
  "hex_digit n = HEX_DIGITS ! n"

definition hex_encode :: "8 word list \<Rightarrow> string" where
  "hex_encode bs = concat (map (\<lambda>b. [hex_digit (unat b div 16), hex_digit (unat b mod 16)]) bs)"

definition nrz_hash :: "(hash_message \<Rightarrow> 64 word) \<Rightarrow> hash_message \<Rightarrow> string" where
  "nrz_hash digest m = hex_encode (to_be_bytes (digest m))"

definition task_hashable_hash :: "(hash_message \<Rightarrow> 64 word) \<Rightarrow> task_hashable \<Rightarrow> string" where
  "task_hashable_hash digest th =
     nrz_hash digest (task_message (if tk_env_mode th = Loose then th\<lparr>tk_pass_through_env := []\<rparr> else th))"

definition get_external_deps_hash :: "(hash_message \<Rightarrow> 64 word) \<Rightarrow> lf_package list option \<Rightarrow> string" where
  "get_external_deps_hash digest closure =
     (case closure of
        None \<Rightarrow> []
      | Some deps \<Rightarrow> nrz_hash digest (lockfile_packages_message (sort_key (\<lambda>p. (pkg_key p, pkg_version p)) deps)))"

subsection \<open>Frameworks\<close>

datatype framework_strategy = AllOf | SomeOf

record framework =
  fw_slug :: string
  fw_env_wildcards :: "string list"
  fw_strategy :: framework_strategy
  fw_dependencies :: "string list"

definition matcher_test :: "framework \<Rightarrow> package_info \<Rightarrow> bool \<Rightarrow> bool" where
  "matcher_test fw workspace is_monorepo =
     (let deps = (if is_monorepo then pi_unresolved_external_dependencies workspace
                  else pj_dependencies (pi_package_json workspace));
          present = (\<lambda>dep. case deps of Some m \<Rightarrow> map_of m dep \<noteq> None | None \<Rightarrow> False)
      in case fw_strategy fw of
           AllOf \<Rightarrow> list_all present (fw_dependencies fw)
         | SomeOf \<Rightarrow> list_ex present (fw_dependencies fw))"

definition infer_framework :: "framework list \<Rightarrow> package_info \<Rightarrow> bool \<Rightarrow> framework option" where
  "infer_framework frameworks workspace is_monorepo = List.find (\<lambda>fw. matcher_test fw workspace is_monorepo) frameworks"

subsection \<open>Hashes of files\<close>

datatype hash_error =
    MissingPipelineEntry task_id
  | MissingPackageJson string
  | MissingPackageFileHash string
  | MissingDependencyTaskHash string
  | MissingEnvVars task_id
  | ScmErr string
  | EnvErr string

text \<open>\<open>daemon\<close> answers \<open>None\<close> when it is not there, times out or fails; then \<open>scm\<close> hashes.\<close>

type_synonym scm_hasher = "string \<Rightarrow> string list \<Rightarrow> (string, file_hashes) result"

definition task_file_hashes ::
  "(string \<Rightarrow> string list \<Rightarrow> file_hashes option) \<Rightarrow> scm_hasher \<Rightarrow> (package_name, package_info) hash_map \<Rightarrow>
    (task_id \<rightharpoonup> task_definition) \<Rightarrow> task_id \<Rightarrow> (hash_error, file_hashes) result"
where
  "task_file_hashes daemon scm workspaces task_definitions t =
     (case task_definitions t of
        None \<Rightarrow> Inl (MissingPipelineEntry t)
      | Some td \<Rightarrow>
          (case hm_get workspaces (to_workspace_name t) of
             None \<Rightarrow> Inl (MissingPackageJson (package_name_as_str (to_workspace_name t)))
           | Some pkg \<Rightarrow>
               (case daemon (package_path pkg) (td_inputs td) of
                  Some hash_object \<Rightarrow> Inr hash_object
                | None \<Rightarrow>
                    (case scm (package_path pkg) (td_inputs td) of
                       Inl e \<Rightarrow> Inl (ScmErr e)
                     | Inr hash_object \<Rightarrow> Inr hash_object))))"

record package_inputs_hashes =
  ph_hashes :: "(task_id, string) hash_map"
  ph_expanded_hashes :: "(task_id, file_hashes) hash_map"

definition calculate_file_hashes ::
  "(hash_message \<Rightarrow> 64 word) \<Rightarrow> (string \<Rightarrow> string list \<Rightarrow> file_hashes option) \<Rightarrow> scm_hasher \<Rightarrow>
    (package_name, package_info) hash_map \<Rightarrow> (task_id \<rightharpoonup> task_definition) \<Rightarrow> task_node list \<Rightarrow>
    (hash_error, package_inputs_hashes) result"
where
  "calculate_file_hashes digest daemon scm workspaces task_definitions all_tasks =
     try_bind (try_map (\<lambda>t. try_bind (task_file_hashes daemon scm workspaces task_definitions t) (\<lambda>fh. Inr (t, fh)))
         (List.map_filter (\<lambda>n. case n of TaskNode t \<Rightarrow> Some t | task_node.RootTask \<Rightarrow> None) all_tasks))
       (\<lambda>entries. Inr \<lparr>ph_hashes = hm_collect (map (\<lambda>(t, fh). (t, nrz_hash digest (file_hashes_message fh))) entries),
                       ph_expanded_hashes = hm_collect entries\<rparr>)"

fun merge_file_hashes :: "file_hashes \<Rightarrow> file_hashes list \<Rightarrow> file_hashes" where
  "merge_file_hashes acc [] = acc"
| "merge_file_hashes acc (h # hs) = merge_file_hashes (env_union acc h) hs"

definition get_internal_deps_hash ::
  "(hash_message \<Rightarrow> 64 word) \<Rightarrow> scm_hasher \<Rightarrow> string list \<Rightarrow> (hash_error, string) result"
where
  "get_internal_deps_hash digest scm package_dirs =
     (if package_dirs = [] then Inr []
      else
        (case try_map (\<lambda>d. scm d []) package_dirs of
           Inl e \<Rightarrow> Inl (ScmErr e)
         | Inr hashes \<Rightarrow> Inr (nrz_hash digest (file_hashes_message (merge_file_hashes [] hashes)))))"

subsection \<open>The hash tracker\<close>

record 'c tracker =
  tr_env_vars :: "(task_id, detailed_map) hash_map"
  tr_hashes :: "(task_id, string) hash_map"
  tr_framework :: "(task_id, string) hash_map"
  tr_outputs :: "(task_id, string list) hash_map"
  tr_cache :: "(task_id, 'c) hash_map"
  tr_inputs :: "(task_id, file_hashes) hash_map"

definition tracker_new :: "(task_id, file_hashes) hash_map \<Rightarrow> 'c tracker" where
  "tracker_new input_expanded_hashes = \<lparr>tr_env_vars = [], tr_hashes = [], tr_framework = [], tr_outputs = [],
     tr_cache = [], tr_inputs = input_expanded_hashes\<rparr>"

definition insert_hash ::
  "'c tracker \<Rightarrow> task_id \<Rightarrow> detailed_map \<Rightarrow> string \<Rightarrow> string option \<Rightarrow> 'c tracker"
where
  "insert_hash tr t env_vars hash framework_slug =
     (let tr1 = tr\<lparr>tr_env_vars := hm_insert t env_vars (tr_env_vars tr)\<rparr>;
          tr2 = (case framework_slug of Some f \<Rightarrow> tr1\<lparr>tr_framework := hm_insert t f (tr_framework tr1)\<rparr> | None \<Rightarrow> tr1)
      in tr2\<lparr>tr_hashes := hm_insert t hash (tr_hashes tr2)\<rparr>)"

definition insert_expanded_outputs :: "'c tracker \<Rightarrow> task_id \<Rightarrow> string list \<Rightarrow> 'c tracker" where
  "insert_expanded_outputs tr t outputs = tr\<lparr>tr_outputs := hm_insert t outputs (tr_outputs tr)\<rparr>"

definition insert_cache_status :: "'c tracker \<Rightarrow> task_id \<Rightarrow> 'c \<Rightarrow> 'c tracker" where
  "insert_cache_status tr t status = tr\<lparr>tr_cache := hm_insert t status (tr_cache tr)\<rparr>"

subsection \<open>The hash of a task\<close>

record 'c task_hasher =
  th_hashes :: "(task_id, string) hash_map"
  th_framework_inference :: bool
  th_single_package :: bool
  th_pass_through_args :: "string list"
  th_env_at_execution_start :: env_map
  th_global_env :: env_map
  th_global_hash :: string
  th_tracker :: "'c tracker"

record hash_env =
  he_digest :: "hash_message \<Rightarrow> 64 word"
  he_regex :: regex_engine
  he_escape :: "string \<Rightarrow> string"
  he_frameworks :: "framework list"

fun dependency_hashes :: "'c tracker \<Rightarrow> task_node list \<Rightarrow> (hash_error, string list) result" where
  "dependency_hashes tr [] = Inr []"
| "dependency_hashes tr (task_node.RootTask # ns) = dependency_hashes tr ns"
| "dependency_hashes tr (TaskNode t # ns) =
     (case hm_get (tr_hashes tr) t of
        None \<Rightarrow> Inl (MissingDependencyTaskHash (task_id_display t))
      | Some h \<Rightarrow> try_bind (dependency_hashes tr ns) (\<lambda>hs. Inr (h # hs)))"

definition calculate_dependency_hashes :: "'c tracker \<Rightarrow> task_node list \<Rightarrow> (hash_error, string list) result" where
  "calculate_dependency_hashes tr dependency_set =
     try_bind (dependency_hashes tr dependency_set) (\<lambda>hs. Inr (sort (remdups hs)))"

definition framework_wildcards :: "env_map \<Rightarrow> framework \<Rightarrow> string list" where
  "framework_wildcards env fw =
     (case hm_get env ''NRZ_CI_VENDOR_ENV_KEY'' of
        Some pre \<Rightarrow> if pre \<noteq> [] then fw_env_wildcards fw @ [''!'' @ pre @ ''*''] else fw_env_wildcards fw
      | None \<Rightarrow> fw_env_wildcards fw)"

definition task_env_vars ::
  "hash_env \<Rightarrow> env_map \<Rightarrow> framework option \<Rightarrow> task_definition \<Rightarrow> (hash_error, detailed_map) result"
where
  "task_env_vars he env fw td =
     (case (case fw of
              Some f \<Rightarrow> hashable_task_env (he_regex he) (he_escape he) env (framework_wildcards env f) (td_env td)
            | None \<Rightarrow>
                try_bind (from_wildcards (he_regex he) (he_escape he) env (td_env td)) (\<lambda>all_env_var_map.
                  Inr \<lparr>dm_all = all_env_var_map, dm_by_source = \<lparr>bs_explicit = all_env_var_map, bs_matching = []\<rparr>\<rparr>)) of
        Inl e \<Rightarrow> Inl (EnvErr e)
      | Inr dm \<Rightarrow> Inr dm)"

definition hasher_framework :: "hash_env \<Rightarrow> 'c task_hasher \<Rightarrow> package_info \<Rightarrow> framework option" where
  "hasher_framework he th workspace =
     (if th_framework_inference th then infer_framework (he_frameworks he) workspace (\<not> th_single_package th) else None)"

definition task_hashable_of ::
  "hash_env \<Rightarrow> 'c task_hasher \<Rightarrow> task_id \<Rightarrow> task_definition \<Rightarrow> env_mode \<Rightarrow> package_info \<Rightarrow>
    string \<Rightarrow> detailed_map \<Rightarrow> string list \<Rightarrow> task_hashable"
where
  "task_hashable_of he th t td mode workspace hash_of_files env_vars dependency_hashes' =
     \<lparr>tk_global_hash = th_global_hash th,
      tk_task_dependency_hashes = dependency_hashes',
      tk_hash_of_files = hash_of_files,
      tk_external_deps_hash =
        (if th_single_package th then None
         else Some (get_external_deps_hash (he_digest he) (pi_transitive_dependencies workspace))),
      tk_package_dir = (if package_path workspace = [] then None else Some (package_path workspace)),
      tk_task = tid_task t,
      tk_outputs = hashable_outputs td t,
      tk_pass_through_args = th_pass_through_args th,
      tk_env = td_env td,
      tk_resolved_env_vars = to_hashable (dm_all env_vars),
      tk_pass_through_env = (case td_pass_through_env td of Some e \<Rightarrow> e | None \<Rightarrow> []),
      tk_env_mode = mode\<rparr>"

definition calculate_task_hash ::
  "hash_env \<Rightarrow> 'c task_hasher \<Rightarrow> task_id \<Rightarrow> task_definition \<Rightarrow> env_mode \<Rightarrow> package_info \<Rightarrow> task_node list \<Rightarrow>
    (hash_error, string \<times> 'c task_hasher) result"
where
  "calculate_task_hash he th t td mode workspace dependency_set =
     (case hm_get (th_hashes th) t of
        None \<Rightarrow> Inl (MissingPackageFileHash (task_id_display t))
      | Some hash_of_files \<Rightarrow>
          (let fw = hasher_framework he th workspace
           in try_bind (task_env_vars he (th_env_at_execution_start th) fw td) (\<lambda>env_vars.
              try_bind (calculate_dependency_hashes (th_tracker th) dependency_set) (\<lambda>dependency_hashes'.
                let task_hash = task_hashable_hash (he_digest he)
                      (task_hashable_of he th t td mode workspace hash_of_files env_vars dependency_hashes')
                in Inr (task_hash,
                     th\<lparr>th_tracker := insert_hash (th_tracker th) t env_vars task_hash (map_option fw_slug fw)\<rparr>)))))"

subsection \<open>The environment of a task\<close>

definition builtin_pass_through :: "string list" where
  "builtin_pass_through = [''HOME'', ''USER'', ''TZ'', ''LANG'', ''SHELL'', ''PWD'', ''CI'', ''NODE_OPTIONS'', ''COREPACK_HOME'',
     ''LD_LIBRARY_PATH'', ''DYLD_FALLBACK_LIBRARY_PATH'', ''LIBPATH'', ''COLORTERM'', ''TERM'', ''TERM_PROGRAM'', ''DISPLAY'',
     ''TMP'', ''TEMP'', ''VSCODE_*'', ''ELECTRON_RUN_AS_NODE'', ''DOCKER_*'', ''BUILDKIT_*'', ''COMPOSE_*'', ''JB_IDE_*'',
     ''JB_INTERPRETER'', ''_JETBRAINS_TEST_RUNNER_RUN_SCOPE_TYPE'', ''VERCEL'', ''VERCEL_*'', ''NEXT_*'',
     ''USE_OUTPUT_FOR_EDGE_FUNCTIONS'', ''NOW_BUILDER'', ''APPDATA'', ''PATH'', ''PROGRAMDATA'', ''SYSTEMROOT'', ''SYSTEMDRIVE'']"

definition hasher_env ::
  "hash_env \<Rightarrow> 'c task_hasher \<Rightarrow> task_id \<Rightarrow> env_mode \<Rightarrow> task_definition \<Rightarrow> (hash_error, env_map) result"
where
  "hasher_env he th t mode td =
     (case mode of
        Loose \<Rightarrow> Inr (th_env_at_execution_start th)
      | Strict \<Rightarrow>
          (case pass_through_env (he_regex he) (he_escape he) (th_env_at_execution_start th) builtin_pass_through
                  (th_global_env th) (case td_pass_through_env td of Some e \<Rightarrow> e | None \<Rightarrow> []) of
             Inl e \<Rightarrow> Inl (EnvErr e)
           | Inr pass_through_env_vars \<Rightarrow>
               (case hm_get (tr_env_vars (th_tracker th)) t of
                  None \<Rightarrow> Inl (MissingEnvVars t)
                | Some tracker_env \<Rightarrow> Inr (env_union (env_union [] pass_through_env_vars) (dm_all tracker_env)))))"

subsection \<open>The global hash\<close>

definition GLOBAL_CACHE_KEY :: string where
  "GLOBAL_CACHE_KEY = ''I can'' @ [CHR 0xE2, CHR 0x80, CHR 0x99] @ ''t see ya, but I know you'' @ [CHR 0xE2, CHR 0x80, CHR 0x99] @ ''re here''"

datatype pm_error = WorkspaceErr string | OtherPmErr string

datatype global_hash_error =
    GlobalEnvErr string
  | GlobalWalkErr string
  | GlobalGlobErr string
  | GlobalScmErr string
  | GlobalPmErr pm_error

text \<open>What \<open>get_global_hash_inputs\<close> calls: the package manager, globs, the file system and git.\<close>

record 'g global_env =
  ge_workspace_globs :: "(pm_error, string list) result"
  ge_default_exclusions :: "string list"
  ge_validate_glob :: "string \<Rightarrow> (string, 'g) result"
  ge_walk :: "'g list \<Rightarrow> 'g list \<Rightarrow> (string, string list) result"
  ge_exists :: "string \<Rightarrow> bool"
  ge_hashes_for_files :: "string list \<Rightarrow> (string, file_hashes) result"

definition collect_global_deps :: "'g global_env \<Rightarrow> string list \<Rightarrow> (global_hash_error, string list) result" where
  "collect_global_deps ge global_file_dependencies =
     (if global_file_dependencies = [] then Inr []
      else
        (case (case ge_workspace_globs ge of
                 Inr globs \<Rightarrow> Inr globs
               | Inl (WorkspaceErr _) \<Rightarrow> Inr (ge_default_exclusions ge)
               | Inl e \<Rightarrow> Inl (GlobalPmErr e)) of
           Inl e \<Rightarrow> Inl e
         | Inr workspace_exclusions \<Rightarrow>
             (let raw_inclusions = filter (\<lambda>g. strip_prefix ''!'' g = None) global_file_dependencies;
                  raw_exclusions = List.map_filter (strip_prefix ''!'') global_file_dependencies
              in case try_map (ge_validate_glob ge) (workspace_exclusions @ raw_exclusions) of
                   Inl e \<Rightarrow> Inl (GlobalGlobErr e)
                 | Inr exclude \<Rightarrow>
                     (case try_map (ge_validate_glob ge) raw_inclusions of
                        Inl e \<Rightarrow> Inl (GlobalGlobErr e)
                      | Inr include \<Rightarrow>
                          (case ge_walk ge include exclude of
                             Inl e \<Rightarrow> Inl (GlobalWalkErr e)
                           | Inr files \<Rightarrow> Inr files)))))"

text \<open>\<open>GlobalHashableInputs\<close>; \<open>env_at_execution_start\<close> is only carried along and left out.\<close>

record global_hash_inputs =
  gi_global_file_hash_map :: file_hashes
  gi_root_external_dependencies_hash :: "string option"
  gi_root_internal_dependencies_hash :: "string option"
  gi_engines :: "(string, string) hash_map option"
  gi_env :: "string list"
  gi_resolved_env_vars :: "detailed_map option"
  gi_pass_through_env :: "string list option"
  gi_env_mode :: env_mode
  gi_framework_inference :: bool

text \<open>\<open>None\<close> is the panic of a global dependency that is not below the root.\<close>

definition get_global_hash_inputs ::
  "hash_env \<Rightarrow> 'g global_env \<Rightarrow> string option \<Rightarrow> string option \<Rightarrow> (string, string) hash_map option \<Rightarrow> string \<Rightarrow>
    package_manager \<Rightarrow> bool \<Rightarrow> string list \<Rightarrow> env_map \<Rightarrow> string list \<Rightarrow> string list option \<Rightarrow> env_mode \<Rightarrow> bool \<Rightarrow>
    (global_hash_error, global_hash_inputs) result option"
where
  "get_global_hash_inputs he ge external internal engines root_path pm has_lockfile global_file_dependencies
       env global_env pass_through mode framework_inference =
     (case get_global_hashable_env_vars (he_regex he) (he_escape he) env global_env of
        Inl e \<Rightarrow> Some (Inl (GlobalEnvErr e))
      | Inr global_hashable_env_vars \<Rightarrow>
          (case collect_global_deps ge global_file_dependencies of
             Inl e \<Rightarrow> Some (Inl e)
           | Inr deps \<Rightarrow>
               (let path = lockfile_path pm root_path;
                    global_deps =
                      (if has_lockfile then deps
                       else
                         (let deps1 = List.insert (path_join root_path ''package.json'') deps
                          in if ge_exists ge path then List.insert path deps1 else deps1))
                in case opt_map (\<lambda>p. case anchor root_path p of Inr a \<Rightarrow> Some a | Inl _ \<Rightarrow> None) global_deps of
                     None \<Rightarrow> None
                   | Some global_deps_paths \<Rightarrow>
                       Some (case ge_hashes_for_files ge global_deps_paths of
                         Inl e \<Rightarrow> Inl (GlobalScmErr e)
                       | Inr global_file_hash_map \<Rightarrow>
                           Inr \<lparr>gi_global_file_hash_map = global_file_hash_map,
                                gi_root_external_dependencies_hash = external,
                                gi_root_internal_dependencies_hash = internal,
                                gi_engines = engines, gi_env = global_env,
                                gi_resolved_env_vars = Some global_hashable_env_vars,
                                gi_pass_through_env = pass_through, gi_env_mode = mode,
                                gi_framework_inference = framework_inference\<rparr>))))"

definition global_hashable_of :: "global_hash_inputs \<Rightarrow> global_hashable" where
  "global_hashable_of gi =
     \<lparr>gh_global_cache_key = GLOBAL_CACHE_KEY,
      gh_global_file_hash_map = gi_global_file_hash_map gi,
      gh_root_external_dependencies_hash = gi_root_external_dependencies_hash gi,
      gh_root_internal_dependencies_hash = gi_root_internal_dependencies_hash gi,
      gh_engines = (case gi_engines gi of Some e \<Rightarrow> e | None \<Rightarrow> []),
      gh_env = gi_env gi,
      gh_resolved_env_vars = (case gi_resolved_env_vars gi of Some dm \<Rightarrow> to_hashable (dm_all dm) | None \<Rightarrow> []),
      gh_pass_through_env = (case gi_pass_through_env gi of Some e \<Rightarrow> e | None \<Rightarrow> []),
      gh_env_mode = gi_env_mode gi,
      gh_framework_inference = gi_framework_inference gi\<rparr>"

definition calculate_global_hash :: "(hash_message \<Rightarrow> 64 word) \<Rightarrow> global_hash_inputs \<Rightarrow> string" where
  "calculate_global_hash digest gi = nrz_hash digest (global_message (global_hashable_of gi))"

subsection \<open>Digests in hex\<close>

lemma hex_digit_inj: "a < 16 \<Longrightarrow> b < 16 \<Longrightarrow> hex_digit a = hex_digit b \<longleftrightarrow> a = b"
proof -
  have "\<forall>a \<in> set [0..<16]. \<forall>b \<in> set [0..<16]. hex_digit a = hex_digit b \<longrightarrow> a = b" by code_simp
  then show "a < 16 \<Longrightarrow> b < 16 \<Longrightarrow> hex_digit a = hex_digit b \<longleftrightarrow> a = b" by auto
qed

lemma hex_digit_mem: "a < 16 \<Longrightarrow> hex_digit a \<in> set HEX_DIGITS"
  unfolding hex_digit_def by (rule nth_mem) (simp add: HEX_DIGITS_def)

lemma byte_nibbles: "unat (b :: 8 word) div 16 < 16" "unat b mod 16 < 16"
proof -
  have "unat b < 256" using unsigned_less [of b] by simp
  then show "unat b div 16 < 16" "unat b mod 16 < 16" by simp_all
qed

lemma hex_encode_inj: "hex_encode bs = hex_encode bs' \<longleftrightarrow> bs = bs'"
proof (induction bs arbitrary: bs')
  case Nil
  then show ?case by (cases bs') (simp_all add: hex_encode_def)
next
  case (Cons b bs)
  show ?case
  proof (cases bs')
    case (Cons b' cs)
    have "unat b div 16 = unat b' div 16 \<and> unat b mod 16 = unat b' mod 16 \<longleftrightarrow> b = b'"
      by (metis div_mod_decomp word_unat_eq_iff)
    moreover have "hex_encode (b # bs) = hex_encode (b' # cs) \<longleftrightarrow>
        unat b div 16 = unat b' div 16 \<and> unat b mod 16 = unat b' mod 16 \<and> hex_encode bs = hex_encode cs"
      by (simp add: hex_encode_def hex_digit_inj byte_nibbles)
    ultimately show ?thesis using Cons.IH Cons by auto
  qed (simp add: hex_encode_def)
qed

lemma to_be_bytes_inj: "to_be_bytes w = to_be_bytes w' \<longleftrightarrow> w = w'"
proof
  assume eq: "to_be_bytes w = to_be_bytes w'"
  show "w = w'"
  proof (rule bit_word_eqI)
    fix n
    assume n: "n < LENGTH(64)"
    define i where "i = n div 8"
    have "i < 8" using n by (simp add: i_def)
    then have "(ucast (drop_bit (8 * i) w) :: 8 word) = ucast (drop_bit (8 * i) w')"
      using eq by (simp add: to_be_bytes_def)
    then have "bit (ucast (drop_bit (8 * i) w) :: 8 word) (n mod 8) = bit (ucast (drop_bit (8 * i) w') :: 8 word) (n mod 8)"
      by simp
    then show "bit w n = bit w' n" by (simp add: bit_ucast_iff bit_drop_bit_eq i_def)
  qed
qed simp

lemma nrz_hash_eq: "nrz_hash digest m = nrz_hash digest m' \<longleftrightarrow> digest m = digest m'"
  by (simp add: nrz_hash_def hex_encode_inj to_be_bytes_inj)

lemma nrz_hash_length: "length (nrz_hash digest m) = 16"
  by (simp add: nrz_hash_def hex_encode_def to_be_bytes_def length_concat comp_def sum_list_triv)

text \<open>a hash is sixteen hexadecimal digits.\<close>

theorem nrz_hash_format:
  "length (nrz_hash digest m) = 16 \<and> set (nrz_hash digest m) \<subseteq> set HEX_DIGITS"
proof
  show "length (nrz_hash digest m) = 16"
    by (rule nrz_hash_length)
  show "set (nrz_hash digest m) \<subseteq> set HEX_DIGITS"
    unfolding nrz_hash_def hex_encode_def set_concat set_map
    using hex_digit_mem byte_nibbles by auto
qed

subsection \<open>Determinism\<close>

lemma dependency_hashes_Inr:
  "(\<exists>hs. dependency_hashes tr ns = Inr hs) \<longleftrightarrow> (\<forall>t. TaskNode t \<in> set ns \<longrightarrow> hm_get (tr_hashes tr) t \<noteq> None)"
  "dependency_hashes tr ns = Inr hs \<Longrightarrow> set hs = {h. \<exists>t. TaskNode t \<in> set ns \<and> hm_get (tr_hashes tr) t = Some h}"
proof -
  show "(\<exists>hs. dependency_hashes tr ns = Inr hs) \<longleftrightarrow> (\<forall>t. TaskNode t \<in> set ns \<longrightarrow> hm_get (tr_hashes tr) t \<noteq> None)"
    by (induction tr ns rule: dependency_hashes.induct) (auto simp: try_bind_Inr split: option.splits)
  show "dependency_hashes tr ns = Inr hs \<Longrightarrow> set hs = {h. \<exists>t. TaskNode t \<in> set ns \<and> hm_get (tr_hashes tr) t = Some h}"
    by (induction tr ns arbitrary: hs rule: dependency_hashes.induct) (auto simp: try_bind_Inr split: option.splits)
qed

lemma calculate_dependency_hashes_Inr:
  "calculate_dependency_hashes tr ns = Inr hs \<longleftrightarrow> sorted hs \<and> distinct hs \<and>
     (\<forall>t. TaskNode t \<in> set ns \<longrightarrow> hm_get (tr_hashes tr) t \<noteq> None) \<and>
     set hs = {h. \<exists>t. TaskNode t \<in> set ns \<and> hm_get (tr_hashes tr) t = Some h}"
proof (cases "dependency_hashes tr ns")
  case (Inl e)
  then show ?thesis using dependency_hashes_Inr(1) [of tr ns] by (simp add: calculate_dependency_hashes_def)
next
  case (Inr hs0)
  have "sort (remdups hs0) = hs \<longleftrightarrow> sorted hs \<and> distinct hs \<and> set hs = set hs0"
    by (metis distinct_remdups distinct_sort set_remdups set_sort sorted_distinct_set_unique sorted_sort)
  then show ?thesis using Inr dependency_hashes_Inr(1) [of tr ns] dependency_hashes_Inr(2) [OF Inr]
    by (auto simp: calculate_dependency_hashes_def)
qed

text \<open>The same set of packages in another order.\<close>

definition same_closure :: "lf_package list option \<Rightarrow> lf_package list option \<Rightarrow> bool" where
  "same_closure c c' \<longleftrightarrow> rel_option (\<lambda>xs ys. distinct xs \<and> distinct ys \<and> set xs = set ys) c c'"

lemma pkg_key_inj: "inj (\<lambda>p. (pkg_key p, pkg_version p))"
  by (auto simp: inj_on_def lf_package.expand)

lemma sort_packages_order:
  assumes "distinct xs" and "distinct ys" and "set xs = set ys"
  shows "sort_key (\<lambda>p. (pkg_key p, pkg_version p)) xs = sort_key (\<lambda>p. (pkg_key p, pkg_version p)) ys"
  by (rule sort_key_inj_key_eq)
    (use assms pkg_key_inj in \<open>auto simp: set_eq_iff_mset_eq_distinct [symmetric] intro: inj_on_subset\<close>)

lemma external_deps_hash_order:
  "same_closure c c' \<Longrightarrow> get_external_deps_hash digest c = get_external_deps_hash digest c'"
  by (cases c; cases c') (auto simp: same_closure_def get_external_deps_hash_def dest: sort_packages_order)

lemma task_env_vars_order:
  assumes spec: "regex_spec (he_regex he) (he_escape he)"
    and env: "distinct (map fst env)" "distinct (map fst env')" "map_of env = map_of env'"
  shows "\<exists>dm dm'. task_env_vars he env fw td = Inr dm \<and> task_env_vars he env' fw td = Inr dm' \<and>
    to_hashable (dm_all dm) = to_hashable (dm_all dm')"
proof (cases fw)
  case None
  obtain m m' where "from_wildcards (he_regex he) (he_escape he) env (td_env td) = Inr m" "distinct (map fst m)"
    "from_wildcards (he_regex he) (he_escape he) env' (td_env td) = Inr m'" "distinct (map fst m')" "map_of m = map_of m'"
    using from_wildcards_get [OF spec env(1), of "td_env td"] from_wildcards_get [OF spec env(2), of "td_env td"] env(3)
    by (auto simp: fun_eq_iff)
  then show ?thesis using to_hashable_order [of m m'] by (simp add: task_env_vars_def None)
next
  case (Some f)
  have wild: "framework_wildcards env' f = framework_wildcards env f" using env(3) by (simp add: framework_wildcards_def)
  from hashable_task_env_get [OF spec env(1), of "framework_wildcards env f" "td_env td"]
  obtain dm where dm: "hashable_task_env (he_regex he) (he_escape he) env (framework_wildcards env f) (td_env td) = Inr dm"
    "map_of (dm_all dm) = task_vars env (framework_wildcards env f) (td_env td)" "distinct (map fst (dm_all dm))" by blast
  from hashable_task_env_get [OF spec env(2), of "framework_wildcards env f" "td_env td"]
  obtain dm' where dm': "hashable_task_env (he_regex he) (he_escape he) env' (framework_wildcards env f) (td_env td) = Inr dm'"
    "map_of (dm_all dm') = task_vars env' (framework_wildcards env f) (td_env td)" "distinct (map fst (dm_all dm'))" by blast
  have "map_of (dm_all dm) = map_of (dm_all dm')" unfolding dm(2) dm'(2) using env(3) by (simp add: task_vars_def fun_eq_iff)
  from to_hashable_order [OF dm(3) dm'(3) this] show ?thesis by (simp add: task_env_vars_def Some wild dm(1) dm'(1))
qed

text \<open>
  C17: the cache key does not depend on the order in which hash maps and sets are iterated: with the
  same variables, the same set of dependencies and the same set of external packages in any order, a
  task gets the same key.
\<close>

theorem task_hash_order_independent:
  assumes spec: "regex_spec (he_regex he) (he_escape he)"
    and env: "distinct (map fst (th_env_at_execution_start th))" "distinct (map fst env')"
      "map_of (th_env_at_execution_start th) = map_of env'"
    and deps: "set deps = set deps'" and closure: "same_closure (pi_transitive_dependencies ws) closure'"
    and run: "calculate_task_hash he th t td mode ws deps = Inr (h, th1)"
  shows "\<exists>th2. calculate_task_hash he (th\<lparr>th_env_at_execution_start := env'\<rparr>) t td mode
    (ws\<lparr>pi_transitive_dependencies := closure'\<rparr>) deps' = Inr (h, th2)"
proof -
  let ?th = "th\<lparr>th_env_at_execution_start := env'\<rparr>" and ?ws = "ws\<lparr>pi_transitive_dependencies := closure'\<rparr>"
  let ?fw = "hasher_framework he th ws"
  from run obtain hf dm hs where r: "hm_get (th_hashes th) t = Some hf"
    "task_env_vars he (th_env_at_execution_start th) ?fw td = Inr dm"
    "calculate_dependency_hashes (th_tracker th) deps = Inr hs"
    "h = task_hashable_hash (he_digest he) (task_hashable_of he th t td mode ws hf dm hs)"
    by (auto simp: calculate_task_hash_def Let_def try_bind_Inr split: option.splits)
  have fw: "hasher_framework he ?th ?ws = ?fw"
    by (simp add: hasher_framework_def infer_framework_def matcher_test_def)
  obtain dm' where dm': "task_env_vars he env' ?fw td = Inr dm'" "to_hashable (dm_all dm') = to_hashable (dm_all dm)"
    using task_env_vars_order [OF spec env, of ?fw td] r(2) by auto
  have hs: "calculate_dependency_hashes (th_tracker th) deps' = Inr hs"
    using r(3) deps unfolding calculate_dependency_hashes_Inr by simp
  have "task_hashable_of he ?th t td mode ?ws hf dm' hs = task_hashable_of he th t td mode ws hf dm hs"
    using external_deps_hash_order [OF closure, of "he_digest he"] dm'(2)
    by (simp add: task_hashable_of_def package_path_def)
  then show ?thesis using r(1,4) dm'(1) hs by (simp add: calculate_task_hash_def fw Let_def)
qed

subsection \<open>What the key tells apart\<close>

text \<open>The messages a call digests: the task's own and the list of its external packages.\<close>

definition hashed_message ::
  "hash_env \<Rightarrow> 'c task_hasher \<Rightarrow> task_id \<Rightarrow> task_definition \<Rightarrow> env_mode \<Rightarrow> package_info \<Rightarrow> task_node list \<Rightarrow> hash_message option"
where
  "hashed_message he th t td mode ws deps =
     (case (hm_get (th_hashes th) t, task_env_vars he (th_env_at_execution_start th) (hasher_framework he th ws) td,
            calculate_dependency_hashes (th_tracker th) deps) of
        (Some hf, Inr dm, Inr hs) \<Rightarrow>
          (let tk = task_hashable_of he th t td mode ws hf dm hs
           in Some (TaskMsg (if mode = Loose then tk\<lparr>tk_pass_through_env := []\<rparr> else tk)))
      | _ \<Rightarrow> None)"

definition closure_messages :: "package_info \<Rightarrow> hash_message set" where
  "closure_messages ws =
     (case pi_transitive_dependencies ws of
        None \<Rightarrow> {}
      | Some deps \<Rightarrow> {lockfile_packages_message (sort_key (\<lambda>p. (pkg_key p, pkg_version p)) deps)})"

lemma task_hash_message:
  assumes "calculate_task_hash he th t td mode ws deps = Inr (h, th1)"
  shows "\<exists>m. hashed_message he th t td mode ws deps = Some m \<and> h = nrz_hash (he_digest he) m"
proof -
  have "tk_env_mode (task_hashable_of he th t td mode ws hf dm hs) = mode" for hf dm hs
    by (simp add: task_hashable_of_def)
  then show ?thesis using assms
    by (auto simp: calculate_task_hash_def hashed_message_def task_hashable_hash_def Let_def try_bind_Inr split: option.splits)
qed

lemma hashed_message_TaskMsg:
  assumes "hashed_message he th t td mode ws deps = Some m"
  obtains hf dm hs where "hm_get (th_hashes th) t = Some hf"
    "task_env_vars he (th_env_at_execution_start th) (hasher_framework he th ws) td = Inr dm"
    "calculate_dependency_hashes (th_tracker th) deps = Inr hs"
    "m = TaskMsg (let tk = task_hashable_of he th t td mode ws hf dm hs in if mode = Loose then tk\<lparr>tk_pass_through_env := []\<rparr> else tk)"
  using assms by (auto simp: hashed_message_def Let_def split: option.splits sum.splits)

lemma external_deps_hash_inj:
  assumes "inj_on digest (closure_messages ws \<union> closure_messages ws')"
    and "get_external_deps_hash digest (pi_transitive_dependencies ws) = get_external_deps_hash digest (pi_transitive_dependencies ws')"
  shows "map_option set (pi_transitive_dependencies ws) = map_option set (pi_transitive_dependencies ws')"
proof -
  have nonempty: "nrz_hash digest m \<noteq> []" for m
    using nrz_hash_length [of digest m] by auto
  have pkgs: "map (\<lambda>p. (pkg_key p, pkg_version p, True)) xs = map (\<lambda>p. (pkg_key p, pkg_version p, True)) ys \<longleftrightarrow> xs = ys" for xs ys
    by (rule inj_map_eq_map) (auto simp: inj_on_def lf_package.expand)
  show ?thesis
  proof (cases "pi_transitive_dependencies ws"; cases "pi_transitive_dependencies ws'")
    fix xs ys
    assume c: "pi_transitive_dependencies ws = Some xs" "pi_transitive_dependencies ws' = Some ys"
    let ?s = "\<lambda>xs. sort_key (\<lambda>p. (pkg_key p, pkg_version p)) xs"
    have "digest (lockfile_packages_message (?s xs)) = digest (lockfile_packages_message (?s ys))"
      using assms(2) by (simp add: c get_external_deps_hash_def nrz_hash_eq)
    then have "lockfile_packages_message (?s xs) = lockfile_packages_message (?s ys)"
      by (rule inj_onD [OF assms(1)]) (simp_all add: c closure_messages_def)
    then have "?s xs = ?s ys" by (simp add: lockfile_packages_message_def pkgs)
    then have "set (?s xs) = set (?s ys)" by simp
    then show ?thesis by (simp add: c)
  qed (use assms(2) nonempty nonempty [symmetric] in \<open>simp_all add: get_external_deps_hash_def\<close>)
qed

lemma task_hashable_fields:
  assumes "task_hashable_of he th t td mode ws hf dm hs = task_hashable_of he th' t' td' mode' ws' hf' dm' hs' \<or>
    (task_hashable_of he th t td mode ws hf dm hs)\<lparr>tk_pass_through_env := []\<rparr> =
    (task_hashable_of he th' t' td' mode' ws' hf' dm' hs')\<lparr>tk_pass_through_env := []\<rparr>"
  shows "th_global_hash th = th_global_hash th'" "hf = hf'" "hs = hs'" "tid_task t = tid_task t'" "mode = mode'"
    "package_path ws = package_path ws'" "hashable_outputs td t = hashable_outputs td' t'"
    "th_pass_through_args th = th_pass_through_args th'" "td_env td = td_env td'"
    "to_hashable (dm_all dm) = to_hashable (dm_all dm')" "th_single_package th = th_single_package th'"
    "th_single_package th \<or> get_external_deps_hash (he_digest he) (pi_transitive_dependencies ws) =
       get_external_deps_hash (he_digest he) (pi_transitive_dependencies ws')"
  using assms by (auto simp: task_hashable_of_def split: if_splits)

text \<open>
  C16: the cache key covers the inputs. If two tasks get the same key, and the digest does not collide
  on the messages hashed for them, they agree on the global hash, the task's name and directory,
  the hashes of its files, the keys of the tasks it depends on, its outputs, arguments, patterns and
  values of variables, the mode and, in a monorepo, the external packages.
\<close>

theorem task_hash_covers_inputs:
  assumes run: "calculate_task_hash he th t td mode ws deps = Inr (h, th1)"
      "calculate_task_hash he th' t' td' mode' ws' deps' = Inr (h, th2)"
    and no_collision: "inj_on (he_digest he) (set_option (hashed_message he th t td mode ws deps) \<union>
      set_option (hashed_message he th' t' td' mode' ws' deps') \<union> closure_messages ws \<union> closure_messages ws')"
  shows "th_global_hash th = th_global_hash th' \<and> tid_task t = tid_task t' \<and> package_path ws = package_path ws' \<and>
    hm_get (th_hashes th) t = hm_get (th_hashes th') t' \<and>
    calculate_dependency_hashes (th_tracker th) deps = calculate_dependency_hashes (th_tracker th') deps' \<and>
    hashable_outputs td t = hashable_outputs td' t' \<and> th_pass_through_args th = th_pass_through_args th' \<and>
    td_env td = td_env td' \<and> mode = mode' \<and>
    map_sum id (\<lambda>dm. to_hashable (dm_all dm)) (task_env_vars he (th_env_at_execution_start th) (hasher_framework he th ws) td) =
    map_sum id (\<lambda>dm. to_hashable (dm_all dm)) (task_env_vars he (th_env_at_execution_start th') (hasher_framework he th' ws') td') \<and>
    (th_single_package th \<and> th_single_package th' \<or>
     map_option set (pi_transitive_dependencies ws) = map_option set (pi_transitive_dependencies ws'))"
proof -
  obtain m m' where m: "hashed_message he th t td mode ws deps = Some m" "h = nrz_hash (he_digest he) m"
    "hashed_message he th' t' td' mode' ws' deps' = Some m'" "h = nrz_hash (he_digest he) m'"
    using task_hash_message [OF run(1)] task_hash_message [OF run(2)] by blast
  have "he_digest he m = he_digest he m'" using m(2,4) by (simp add: nrz_hash_eq)
  then have mm: "m = m'" using inj_onD [OF no_collision, of m m'] m(1,3) by simp
  from hashed_message_TaskMsg [OF m(1)] obtain hf dm hs where a: "hm_get (th_hashes th) t = Some hf"
    "task_env_vars he (th_env_at_execution_start th) (hasher_framework he th ws) td = Inr dm"
    "calculate_dependency_hashes (th_tracker th) deps = Inr hs"
    "m = TaskMsg (let tk = task_hashable_of he th t td mode ws hf dm hs in if mode = Loose then tk\<lparr>tk_pass_through_env := []\<rparr> else tk)" .
  from hashed_message_TaskMsg [OF m(3)] obtain hf' dm' hs' where b: "hm_get (th_hashes th') t' = Some hf'"
    "task_env_vars he (th_env_at_execution_start th') (hasher_framework he th' ws') td' = Inr dm'"
    "calculate_dependency_hashes (th_tracker th') deps' = Inr hs'"
    "m' = TaskMsg (let tk = task_hashable_of he th' t' td' mode' ws' hf' dm' hs' in if mode' = Loose then tk\<lparr>tk_pass_through_env := []\<rparr> else tk)" .
  have "tk_env_mode (task_hashable_of he th t td mode ws hf dm hs) = mode"
    "tk_env_mode (task_hashable_of he th' t' td' mode' ws' hf' dm' hs') = mode'" by (simp_all add: task_hashable_of_def)
  then have "task_hashable_of he th t td mode ws hf dm hs = task_hashable_of he th' t' td' mode' ws' hf' dm' hs' \<or>
    (task_hashable_of he th t td mode ws hf dm hs)\<lparr>tk_pass_through_env := []\<rparr> =
    (task_hashable_of he th' t' td' mode' ws' hf' dm' hs')\<lparr>tk_pass_through_env := []\<rparr>"
    using mm unfolding a(4) b(4) Let_def by (auto split: if_splits dest: arg_cong [where f = tk_env_mode])
  note fields = task_hashable_fields [OF this]
  have "inj_on (he_digest he) (closure_messages ws \<union> closure_messages ws')"
    by (rule inj_on_subset [OF no_collision]) blast
  from external_deps_hash_inj [OF this] fields(11,12)
  have "th_single_package th \<and> th_single_package th' \<or>
     map_option set (pi_transitive_dependencies ws) = map_option set (pi_transitive_dependencies ws')" by blast
  then show ?thesis unfolding a(1-3) b(1-3) using fields(1-10) by simp
qed

subsection \<open>The environment in strict mode\<close>

lemma union3_get:
  assumes "distinct (map fst b)" and "distinct (map fst c)" and "distinct (map fst d)"
  shows "hm_get (env_difference (env_union (env_union (env_union [] b) c) d) x) k =
     (if k \<in> fst ` set x then None
      else case hm_get d k of Some v \<Rightarrow> Some v | None \<Rightarrow> (case hm_get c k of Some v \<Rightarrow> Some v | None \<Rightarrow> hm_get b k))"
  using assms by (simp add: env_difference_get env_union_get split: option.splits)

definition visible_var :: "env_map \<Rightarrow> env_map \<Rightarrow> env_map \<Rightarrow> string list \<Rightarrow> string \<rightharpoonup> string" where
  "visible_var env global_env hashed own k =
     (case hm_get hashed k of
        Some v \<Rightarrow> Some v
      | None \<Rightarrow>
          if excluded own k \<and> hm_get env k \<noteq> None then None
          else if included own k \<and> hm_get env k \<noteq> None then hm_get env k
          else (case hm_get global_env k of
                  Some v \<Rightarrow> Some v
                | None \<Rightarrow> if included builtin_pass_through k \<and> \<not> excluded builtin_pass_through k then hm_get env k else None))"

text \<open>
  C18: in strict mode a task sees a variable exactly when it goes into its key, or is passed through:
  by the global settings or by the patterns the code or the task lists, unless the task excludes it.
  What goes into the key comes with the hashed value.
\<close>

theorem strict_env_visible:
  assumes spec: "regex_spec (he_regex he) (he_escape he)"
    and dist: "distinct (map fst (th_env_at_execution_start th))" "distinct (map fst (th_global_env th))"
    and tracked: "hm_get (tr_env_vars (th_tracker th)) t = Some dm" "distinct (map fst (dm_all dm))"
  shows "\<exists>m. hasher_env he th t Strict td = Inr m \<and>
    map_of m = visible_var (th_env_at_execution_start th) (th_global_env th) (dm_all dm)
      (case td_pass_through_env td of Some e \<Rightarrow> e | None \<Rightarrow> [])"
proof -
  define env where "env = th_env_at_execution_start th"
  define own where "own = (case td_pass_through_env td of Some e \<Rightarrow> e | None \<Rightarrow> [])"
  have env: "distinct (map fst env)" using dist by (simp add: env_def)
  obtain b where b: "from_wildcards (he_regex he) (he_escape he) env builtin_pass_through = Inr b" "distinct (map fst b)"
    "\<And>k. hm_get b k = (if included builtin_pass_through k \<and> \<not> excluded builtin_pass_through k then hm_get env k else None)"
    using from_wildcards_get [OF spec env, of builtin_pass_through] by blast
  obtain wm where wm: "wildcard_map_from_wildcards_unresolved (he_regex he) (he_escape he) env own = Inr wm"
    "\<And>k. hm_get (wm_inclusions wm) k = (if included own k then hm_get env k else None)"
    "\<And>k. k \<in> fst ` set (wm_exclusions wm) \<longleftrightarrow> k \<in> fst ` set env \<and> excluded own k" "distinct (map fst (wm_inclusions wm))"
    using unresolved_get [OF spec env, of own] by blast
  define p where "p = env_difference (env_union (env_union (env_union [] b) (th_global_env th)) (wm_inclusions wm)) (wm_exclusions wm)"
  have p: "hm_get p k = (if k \<in> fst ` set env \<and> excluded own k then None
      else case (if included own k then hm_get env k else None) of Some v \<Rightarrow> Some v
        | None \<Rightarrow> (case hm_get (th_global_env th) k of Some v \<Rightarrow> Some v
            | None \<Rightarrow> if included builtin_pass_through k \<and> \<not> excluded builtin_pass_through k then hm_get env k else None))" for k
    unfolding p_def union3_get [OF b(2) dist(2) wm(4)] wm(2,3) b(3) ..
  have pd: "distinct (map fst p)" unfolding p_def by (intro env_difference_distinct env_union_distinct) simp
  have "pass_through_env (he_regex he) (he_escape he) env builtin_pass_through (th_global_env th) own = Inr p"
    by (simp add: pass_through_env_def b(1) wm(1) p_def)
  then have run: "hasher_env he th t Strict td = Inr (env_union (env_union [] p) (dm_all dm))"
    using tracked(1) by (simp add: hasher_env_def env_def own_def)
  have "hm_get (env_union (env_union [] p) (dm_all dm)) k =
       (case hm_get (dm_all dm) k of Some v \<Rightarrow> Some v | None \<Rightarrow> hm_get p k)" for k
    by (simp add: env_union_get [OF tracked(2)] env_union_get [OF pd] split: option.splits)
  moreover have "k \<in> fst ` set env \<longleftrightarrow> hm_get env k \<noteq> None" for k by (simp add: map_of_eq_None_iff)
  ultimately have "map_of (env_union (env_union [] p) (dm_all dm)) = visible_var env (th_global_env th) (dm_all dm) own"
    by (auto simp: p visible_var_def fun_eq_iff split: option.splits)
  with run show ?thesis by (simp add: env_def own_def)
qed

subsection \<open>A small run\<close>

definition sample_hash_env :: hash_env where
  "sample_hash_env = \<lparr>he_digest = (\<lambda>m. case m of TaskMsg _ \<Rightarrow> 1 | LockFilePackagesMsg _ \<Rightarrow> 2 | _ \<Rightarrow> 3),
     he_regex = sample_regex, he_escape = sample_escape, he_frameworks = []\<rparr>"

definition sample_task :: task_id where
  "sample_task = TaskId ''a'' ''build''"

definition sample_hasher :: "env_map \<Rightarrow> unit task_hasher" where
  "sample_hasher env = \<lparr>th_hashes = [(sample_task, ''f'')], th_framework_inference = True, th_single_package = False,
     th_pass_through_args = [], th_env_at_execution_start = env, th_global_env = [], th_global_hash = ''g'',
     th_tracker = (tracker_new [])\<lparr>tr_hashes := [(TaskId ''b'' ''build'', ''h''), (TaskId ''c'' ''build'', ''i'')]\<rparr>\<rparr>"

definition sample_definition :: task_definition where
  "sample_definition = task_definition_default\<lparr>td_env := [''FOO*'', ''!FOOD''], td_pass_through_env := Some [''HOME'']\<rparr>"

definition sample_package :: "lf_package list \<Rightarrow> package_info" where
  "sample_package closure = \<lparr>pi_package_json = package_json_default, pi_package_json_path = ''a/package.json'',
     pi_unresolved_external_dependencies = None, pi_transitive_dependencies = Some closure\<rparr>"

definition sample_deps :: "task_node list" where
  "sample_deps = [task_node.RootTask, TaskNode (TaskId ''b'' ''build''), TaskNode (TaskId ''c'' ''build'')]"

definition sample_closure :: "lf_package list" where
  "sample_closure = [Package ''x'' ''1'', Package ''y'' ''2'']"

definition sample_hash_run :: "env_map \<Rightarrow> lf_package list \<Rightarrow> task_node list \<Rightarrow> (hash_error, string \<times> unit task_hasher) result" where
  "sample_hash_run env closure deps =
     calculate_task_hash sample_hash_env (sample_hasher env) sample_task sample_definition Strict (sample_package closure) deps"

lemma sample_env_order: "distinct (map fst sample_env)" "distinct (map fst (rev sample_env))"
  "map_of sample_env = map_of (rev sample_env)"
proof -
  show d: "distinct (map fst sample_env)" by (simp add: sample_env_def)
  then show "distinct (map fst (rev sample_env))" by (simp add: rev_map [symmetric])
  from hm_get_rev [OF d] show "map_of sample_env = map_of (rev sample_env)" by (simp add: fun_eq_iff)
qed

lemma sample_hash_run_Inr: "\<exists>h th. sample_hash_run sample_env sample_closure sample_deps = Inr (h, th)"
proof -
  have "\<not> isl (sample_hash_run sample_env sample_closure sample_deps)" by code_simp
  then show ?thesis by (cases "sample_hash_run sample_env sample_closure sample_deps") auto
qed

lemma sample_hash_spec: "regex_spec (he_regex sample_hash_env) (he_escape sample_hash_env)"
  using sample_regex_spec by (simp add: sample_hash_env_def)

theorem task_hash_order_independent_witness:
  "\<exists>h th th'. sample_hash_run sample_env sample_closure sample_deps = Inr (h, th) \<and>
     sample_hash_run (rev sample_env) (rev sample_closure) (rev sample_deps) = Inr (h, th')"
proof -
  obtain h th where run: "sample_hash_run sample_env sample_closure sample_deps = Inr (h, th)"
    using sample_hash_run_Inr by blast
  have env: "th_env_at_execution_start (sample_hasher sample_env) = sample_env" by (simp add: sample_hasher_def)
  have closure: "same_closure (pi_transitive_dependencies (sample_package sample_closure)) (Some (rev sample_closure))"
    by (auto simp: same_closure_def sample_package_def sample_closure_def)
  have "\<exists>th'. calculate_task_hash sample_hash_env ((sample_hasher sample_env)\<lparr>th_env_at_execution_start := rev sample_env\<rparr>)
      sample_task sample_definition Strict ((sample_package sample_closure)\<lparr>pi_transitive_dependencies := Some (rev sample_closure)\<rparr>)
      (rev sample_deps) = Inr (h, th')"
    by (rule task_hash_order_independent [OF sample_hash_spec _ _ _ _ closure run [unfolded sample_hash_run_def]])
      (simp_all add: env sample_env_order)
  then show ?thesis using run by (simp add: sample_hash_run_def sample_hasher_def sample_package_def)
qed

definition sample_message :: "env_map \<Rightarrow> lf_package list \<Rightarrow> task_node list \<Rightarrow> hash_message option" where
  "sample_message env closure deps = hashed_message sample_hash_env (sample_hasher env) sample_task sample_definition Strict
     (sample_package closure) deps"

lemma sample_messages:
  "sample_message (rev sample_env) (rev sample_closure) (rev sample_deps) = sample_message sample_env sample_closure sample_deps"
  by code_simp

lemma sample_closure_messages:
  "closure_messages (sample_package sample_closure) = {LockFilePackagesMsg [(''x'', ''1'', True), (''y'', ''2'', True)]}"
  "closure_messages (sample_package (rev sample_closure)) = {LockFilePackagesMsg [(''x'', ''1'', True), (''y'', ''2'', True)]}"
proof -
  have "sort_key (\<lambda>p. (pkg_key p, pkg_version p)) sample_closure = [Package ''x'' ''1'', Package ''y'' ''2'']"
    "sort_key (\<lambda>p. (pkg_key p, pkg_version p)) (rev sample_closure) = [Package ''x'' ''1'', Package ''y'' ''2'']"
    by code_simp+
  then show "closure_messages (sample_package sample_closure) = {LockFilePackagesMsg [(''x'', ''1'', True), (''y'', ''2'', True)]}"
    "closure_messages (sample_package (rev sample_closure)) = {LockFilePackagesMsg [(''x'', ''1'', True), (''y'', ''2'', True)]}"
    by (simp_all add: closure_messages_def sample_package_def lockfile_packages_message_def)
qed

theorem task_hash_covers_inputs_witness:
  "\<exists>h th th'. sample_hash_run sample_env sample_closure sample_deps = Inr (h, th) \<and>
     sample_hash_run (rev sample_env) (rev sample_closure) (rev sample_deps) = Inr (h, th') \<and>
     calculate_dependency_hashes (th_tracker (sample_hasher sample_env)) sample_deps =
     calculate_dependency_hashes (th_tracker (sample_hasher (rev sample_env))) (rev sample_deps)"
proof -
  obtain h th where run: "sample_hash_run sample_env sample_closure sample_deps = Inr (h, th)"
    using sample_hash_run_Inr by blast
  from task_hash_message [OF run [unfolded sample_hash_run_def]]
  obtain m where m: "sample_message sample_env sample_closure sample_deps = Some m" "h = nrz_hash (he_digest sample_hash_env) m"
    by (auto simp: sample_message_def)
  have "\<not> isl (sample_hash_run (rev sample_env) (rev sample_closure) (rev sample_deps))" by code_simp
  then obtain h' th' where run': "sample_hash_run (rev sample_env) (rev sample_closure) (rev sample_deps) = Inr (h', th')"
    by (cases "sample_hash_run (rev sample_env) (rev sample_closure) (rev sample_deps)") auto
  from task_hash_message [OF run' [unfolded sample_hash_run_def]] m have "h' = h"
    by (auto simp: sample_message_def [symmetric] sample_messages)
  note run' = run' [unfolded this]
  have "\<exists>tk. m = TaskMsg tk"
    using hashed_message_TaskMsg [OF m(1) [unfolded sample_message_def]] by metis
  then have inj: "inj_on (he_digest sample_hash_env) (set_option (sample_message sample_env sample_closure sample_deps) \<union>
      set_option (sample_message (rev sample_env) (rev sample_closure) (rev sample_deps)) \<union>
      closure_messages (sample_package sample_closure) \<union> closure_messages (sample_package (rev sample_closure)))"
    unfolding sample_messages sample_closure_messages m(1) by (auto simp: inj_on_def sample_hash_env_def)
  show ?thesis
    using task_hash_covers_inputs [OF run [unfolded sample_hash_run_def] run' [unfolded sample_hash_run_def]
        inj [unfolded sample_message_def]] run run' by blast
qed

theorem strict_env_visible_witness:
  "\<exists>m. hasher_env sample_hash_env ((sample_hasher sample_env)\<lparr>th_tracker := insert_hash (tracker_new []) sample_task
        \<lparr>dm_all = [(''FOO'', ''1'')], dm_by_source = \<lparr>bs_explicit = [], bs_matching = []\<rparr>\<rparr> ''h'' None\<rparr>)
      sample_task Strict sample_definition = Inr m \<and>
     map (hm_get m) [''FOO'', ''FOOD'', ''NEXT_A'', ''HOME''] = [Some ''1'', None, Some ''3'', Some ''4'']"
proof -
  let ?dm = "\<lparr>dm_all = [(''FOO'', ''1'')], dm_by_source = \<lparr>bs_explicit = [], bs_matching = []\<rparr>\<rparr>"
  let ?th = "(sample_hasher sample_env)\<lparr>th_tracker := insert_hash (tracker_new []) sample_task ?dm ''h'' None\<rparr>"
  have "\<exists>m. hasher_env sample_hash_env ?th sample_task Strict sample_definition = Inr m \<and>
      map_of m = visible_var (th_env_at_execution_start ?th) (th_global_env ?th) (dm_all ?dm)
        (case td_pass_through_env sample_definition of Some e \<Rightarrow> e | None \<Rightarrow> [])"
    by (rule strict_env_visible [OF sample_hash_spec])
      (simp_all add: sample_hasher_def sample_env_order insert_hash_def tracker_new_def)
  then obtain m where m: "hasher_env sample_hash_env ?th sample_task Strict sample_definition = Inr m"
    "map_of m = visible_var sample_env [] [(''FOO'', ''1'')] [''HOME'']"
    by (auto simp: sample_hasher_def sample_definition_def)
  have "map (hm_get m) [''FOO'', ''FOOD'', ''NEXT_A'', ''HOME''] = [Some ''1'', None, Some ''3'', Some ''4'']"
    unfolding m(2) by (simp add: visible_var_def included_def excluded_def sample_env_def builtin_pass_through_def)
  with m(1) show ?thesis by (intro exI conjI)
qed

end
