(* ===== verification/Engine_Builder.thy ===== *)
theory Engine_Builder
  imports Engine
begin

text \<open>
  \<open>nrzrepo-lib/src/engine/builder.rs\<close>: which tasks a run needs and how they depend on each
  other. The loader of \<open>nrz.json\<close> files is a function from packages to results (it caches what it
  read, so it answers the same each time). The order in which a \<open>HashMap\<close> or a \<open>HashSet\<close> is
  iterated is a parameter.
\<close>

datatype missing_task_error =
    MissingTaskDefinition string source_label
  | MissingPackage string

datatype build_error =
    MissingTasks "missing_task_error list"
  | MissingRootTaskInNrzJson string source_label
  | MissingPackageFromTask source_label string string
  | MissingPackageTask source_label string string
  | ConfigErr config_error
  | ValidationErr "config_error list"
  | GraphErr graph_error
  | InvalidTaskName source_label string string

record engine_builder =
  eb_is_single :: bool
  eb_workspaces :: "package_name list"
  eb_tasks :: "task_name spanned list"
  eb_root_enabled_tasks :: "task_name set"
  eb_tasks_only :: bool
  eb_add_all_tasks :: bool
  eb_should_validate_engine :: bool

type_synonym loader = "package_name \<Rightarrow> (config_error, nrz_json) result"

record hash_orders =
  ho_map :: "(task_name \<times> span) list \<Rightarrow> (task_name \<times> span) list"
  ho_nodes :: "package_node set \<Rightarrow> package_node list"

definition orders_ok :: "hash_orders \<Rightarrow> bool" where
  "orders_ok ho \<longleftrightarrow>
     (\<forall>xs. set (ho_map ho xs) = set xs) \<and> (\<forall>S. finite S \<longrightarrow> set (ho_nodes ho S) = S)"

definition engine_builder_new :: "bool \<Rightarrow> engine_builder" where
  "engine_builder_new is_single = \<lparr>eb_is_single = is_single, eb_workspaces = [], eb_tasks = [],
     eb_root_enabled_tasks = {}, eb_tasks_only = False, eb_add_all_tasks = False,
     eb_should_validate_engine = True\<rparr>"

definition with_root_tasks :: "engine_builder \<Rightarrow> task_name list \<Rightarrow> engine_builder" where
  "with_root_tasks b tasks =
     b\<lparr>eb_root_enabled_tasks :=
        set (map into_non_workspace_task (filter (\<lambda>name. tn_package name = Some ROOT_PKG_NAME) tasks))\<rparr>"

definition dep_task_id :: "string \<Rightarrow> task_name \<Rightarrow> task_id" where
  "dep_task_id package dep =
     (case task_name_task_id dep of Some t \<Rightarrow> t | None \<Rightarrow> task_id_new package (tn_task dep))"

definition allowed_tasks :: "engine_builder \<Rightarrow> task_id set option" where
  "allowed_tasks b =
     (if eb_tasks_only b
      then Some (set (map (\<lambda>(package, name). dep_task_id (package_name_as_str package) (sp_value name))
                       (List.product (eb_workspaces b) (eb_tasks b))))
      else None)"

definition is_allowed :: "task_id set option \<Rightarrow> task_id \<Rightarrow> bool" where
  "is_allowed allowed t = (case allowed of Some ts \<Rightarrow> t \<in> ts | None \<Rightarrow> True)"

definition defines_task ::
  "nrz_json \<Rightarrow> package_name \<Rightarrow> task_name \<Rightarrow> task_id \<Rightarrow> bool"
where
  "defines_task nj workspace n t \<longleftrightarrow>
     map_of (nj_tasks nj) (as_task_name t) \<noteq> None \<or>
     map_of (nj_tasks nj) n \<noteq> None \<or>
     (workspace = RootPkg \<and> map_of (nj_tasks nj) (task_name_from (tn_task n)) \<noteq> None) \<or>
     (workspace = package_name_from (tid_package t) \<and>
        map_of (nj_tasks nj) (task_name_from (tn_task n)) \<noteq> None)"

function has_task_definition ::
  "loader \<Rightarrow> package_name \<Rightarrow> task_name \<Rightarrow> task_id \<Rightarrow> (build_error, bool) result"
where
  "has_task_definition load workspace n t =
     (case load workspace of
        Inl err \<Rightarrow>
          if err = NoNrzJSON \<and> workspace \<noteq> RootPkg then has_task_definition load RootPkg n t
          else Inl (ConfigErr err)
      | Inr nj \<Rightarrow>
          if defines_task nj workspace n t then Inr True
          else if workspace \<noteq> RootPkg then has_task_definition load RootPkg n t
          else Inr False)"
  by pat_completeness auto

termination
  by (relation "measure (\<lambda>(_, workspace, _, _). if workspace = RootPkg then 0 else 1)") auto

declare has_task_definition.simps [simp del]

definition task_definition_chain ::
  "engine_builder \<Rightarrow> loader \<Rightarrow> task_id spanned \<Rightarrow> task_name \<Rightarrow> (build_error, raw_task_definition list) result"
where
  "task_definition_chain b load task n =
     (case load RootPkg of
        Inl err \<Rightarrow> Inl (ConfigErr err)
      | Inr root_json \<Rightarrow>
          (let t = sp_value task;
               root_defs = (case nrz_json_task root_json t n of Some d \<Rightarrow> [d] | None \<Rightarrow> []);
               finish = (\<lambda>defs.
                 if defs = [] \<and> eb_should_validate_engine b
                 then Inl (MissingPackageTask (span_and_text task ''nrz.json'')
                        (task_id_display t) (task_name_display n))
                 else Inr defs)
           in if eb_is_single b then
                (if root_defs = []
                 then Inl (MissingRootTaskInNrzJson (task_id_display t) (span_and_text task ''nrz.json''))
                 else Inr root_defs)
              else if tid_package t \<noteq> ROOT_PKG_NAME then
                (case load (package_name_from (tid_package t)) of
                   Inr workspace_json \<Rightarrow>
                     (let errs = nrz_json_validate workspace_json
                            [validate_no_package_task_syntax, validate_extends]
                      in if errs \<noteq> [] then Inl (ValidationErr errs)
                         else finish (root_defs @
                                (case map_of (nj_tasks workspace_json) n of
                                   Some d \<Rightarrow> [sp_value d] | None \<Rightarrow> [])))
                 | Inl err \<Rightarrow> if err = NoNrzJSON then finish root_defs else Inl (ConfigErr err))
              else finish root_defs))"

definition builder_task_definition ::
  "engine_builder \<Rightarrow> loader \<Rightarrow> task_id spanned \<Rightarrow> task_name \<Rightarrow> (build_error, task_definition) result"
where
  "builder_task_definition b load task n =
     try_bind (task_definition_chain b load task n) (\<lambda>chain.
       case task_definition_try_from (raw_from_iter chain) of
         Inl err \<Rightarrow> Inl (ConfigErr err)
       | Inr d \<Rightarrow> Inr d)"

definition INVALID_TOKENS :: "string list" where
  "INVALID_TOKENS = [''$colon$'']"

definition validate_task_name :: "string spanned \<Rightarrow> (build_error, unit) result" where
  "validate_task_name task =
     (case find (\<lambda>token. str_contains (sp_value task) token) INVALID_TOKENS of
        Some found \<Rightarrow>
          Inl (InvalidTaskName (span_and_text task ''nrz.json'') (sp_value task)
                 (''task contains invalid string '' @ [CHR 39] @ found @ [CHR 39]))
      | None \<Rightarrow> Inr ())"

subsection \<open>Where the traversal starts\<close>

definition json_task_names :: "loader \<Rightarrow> package_name \<Rightarrow> task_name spanned list" where
  "json_task_names load p =
     (case load p of Inr nj \<Rightarrow> map (\<lambda>(n, _). spanned_new n) (nj_tasks nj) | Inl _ \<Rightarrow> [])"

definition requested_tasks :: "engine_builder \<Rightarrow> loader \<Rightarrow> task_name spanned list" where
  "requested_tasks b load =
     (if eb_add_all_tasks b
      then json_task_names load RootPkg @ concat (map (json_task_names load) (eb_workspaces b))
      else eb_tasks b)"

fun seed_loop ::
  "engine_builder \<Rightarrow> loader \<Rightarrow> (package_name \<times> task_name spanned) list \<Rightarrow>
   (task_name, span) hash_map \<times> task_id spanned list \<Rightarrow>
   (build_error, (task_name, span) hash_map \<times> task_id spanned list) result"
where
  "seed_loop b load [] st = Inr st"
| "seed_loop b load ((workspace, task) # rest) (missing, queue) =
     (let t = dep_task_id (package_name_as_str workspace) (sp_value task)
      in try_bind (has_task_definition load workspace (sp_value task) t) (\<lambda>has.
           if has then
             seed_loop b load rest
               (AList.delete (sp_value task) missing,
                if workspace \<noteq> RootPkg \<or> sp_value task \<in> eb_root_enabled_tasks b
                then queue @ [sp_to task t] else queue)
           else seed_loop b load rest (missing, queue)))"

definition split_map :: "task_name spanned list \<Rightarrow> (task_name, span) hash_map" where
  "split_map xs = foldl (\<lambda>m (k, v). hm_insert k v m) [] (map sp_split xs)"

definition missing_errors ::
  "package_graph \<Rightarrow> (task_name, span) hash_map \<Rightarrow> missing_task_error list"
where
  "missing_errors pg missing =
     (let missing_pkgs = List.map_filter
            (\<lambda>(task, _). case tn_package task of
               None \<Rightarrow> None
             | Some pkg \<Rightarrow>
                 if package_info_of pg (package_name_from pkg) = None
                 then Some (task_name_display task, pkg) else None) missing
      in map (\<lambda>(name, span).
             case map_of missing_pkgs name of
               Some pkg \<Rightarrow> MissingPackage pkg
             | None \<Rightarrow> MissingTaskDefinition name (span_and_text span ''nrz.json''))
           (sort_key fst (map (\<lambda>(task, span). (task_name_display task, span)) missing)))"

subsection \<open>The traversal\<close>

definition check_task ::
  "engine_builder \<Rightarrow> package_graph \<Rightarrow> task_id spanned \<Rightarrow> (build_error, unit) result"
where
  "check_task b pg task =
     (let t = sp_value task
      in if tid_package t = ROOT_PKG_NAME \<and> as_non_workspace_task_name t \<notin> eb_root_enabled_tasks b
         then Inl (MissingRootTaskInNrzJson (task_id_display t) (span_and_text task ''nrz.json''))
         else try_bind (validate_task_name (sp_to task (tid_task t))) (\<lambda>_.
           if tid_package t \<noteq> ROOT_PKG_NAME \<and>
              package_json_of pg (package_name_from (tid_package t)) = None
           then Inl (MissingPackageFromTask (span_and_text task ''nrz.json'')
                  (tid_package t) (task_id_display t))
           else Inr ()))"

fun topo_loop ::
  "task_id set option \<Rightarrow> nat \<Rightarrow> ((task_name \<times> span) \<times> package_node) list \<Rightarrow>
   engine \<times> task_id spanned list \<times> bool \<Rightarrow> engine \<times> task_id spanned list \<times> bool"
where
  "topo_loop allowed to_index [] st = st"
| "topo_loop allowed to_index (((from, span), RootNode) # rest) st =
     topo_loop allowed to_index rest st"
| "topo_loop allowed to_index (((from, span), WorkspaceNode workspace) # rest) (e, queue, has_topo) =
     (let t = task_id_from_graph workspace from
      in if \<not> is_allowed allowed t then topo_loop allowed to_index rest (e, queue, has_topo)
         else (let (from_index, e') = get_index e t
               in topo_loop allowed to_index rest
                    (e'\<lparr>e_graph := add_edge (e_graph e') to_index from_index\<rparr>,
                     queue @ [sp_to span t], True)))"

fun deps_loop ::
  "task_id set option \<Rightarrow> nat \<Rightarrow> string \<Rightarrow> (task_name \<times> span) list \<Rightarrow>
   engine \<times> task_id spanned list \<times> bool \<Rightarrow> engine \<times> task_id spanned list \<times> bool"
where
  "deps_loop allowed to_index package [] st = st"
| "deps_loop allowed to_index package ((dep, span) # rest) (e, queue, has_deps) =
     (let t = dep_task_id package dep
      in if \<not> is_allowed allowed t then deps_loop allowed to_index package rest (e, queue, has_deps)
         else (let (from_index, e') = get_index e t
               in deps_loop allowed to_index package rest
                    (e'\<lparr>e_graph := add_edge (e_graph e') to_index from_index\<rparr>,
                     queue @ [sp_to span t], True)))"

definition dep_packages :: "package_graph \<Rightarrow> task_id \<Rightarrow> package_node set" where
  "dep_packages pg t =
     unwrap_or {} (immediate_dependencies pg (WorkspaceNode (package_name_from (tid_package t))))"

definition sibling_ids :: "task_id \<Rightarrow> task_definition \<Rightarrow> task_id spanned list" where
  "sibling_ids t d =
     map (\<lambda>s. sp_to s (dep_task_id (tid_package t) (sp_value s))) (unwrap_or [] (td_siblings d))"

definition visit_task ::
  "hash_orders \<Rightarrow> package_graph \<Rightarrow> task_id set option \<Rightarrow> task_id \<Rightarrow> task_definition \<Rightarrow>
   engine \<times> task_id spanned list \<Rightarrow> engine \<times> task_id spanned list"
where
  "visit_task ho pg allowed t d st =
     (let (e, queue) = st;
          deps = split_map (td_task_dependencies d);
          topo_deps = split_map (td_topological_dependencies d);
          (to_index, e1) = get_index e t;
          dep_pkgs = dep_packages pg t;
          (e2, queue2, has_topo_deps) =
            topo_loop allowed to_index
              (List.product (ho_map ho topo_deps) (ho_nodes ho dep_pkgs)) (e1, queue, False);
          queue3 = queue2 @ sibling_ids t d;
          (e4, queue4, has_deps) =
            deps_loop allowed to_index (tid_package t) (ho_map ho deps) (e2, queue3, False);
          e5 = add_definition e4 t d
      in (if \<not> has_deps \<and> \<not> has_topo_deps then connect_to_root e5 t else e5, queue4))"

fun build_loop ::
  "nat \<Rightarrow> engine_builder \<Rightarrow> hash_orders \<Rightarrow> package_graph \<Rightarrow> loader \<Rightarrow> task_id set option \<Rightarrow>
   task_id spanned list \<Rightarrow> task_id set \<Rightarrow> engine \<Rightarrow> (build_error, engine) result option"
where
  "build_loop fuel b ho pg load allowed [] visited e = Some (Inr e)"
| "build_loop 0 b ho pg load allowed (task # queue) visited e = None"
| "build_loop (Suc fuel) b ho pg load allowed (task # queue) visited e =
     (let t = sp_value task;
          e1 = add_task_location e t (snd (sp_split task))
      in case check_task b pg task of
           Inl err \<Rightarrow> Some (Inl err)
         | Inr _ \<Rightarrow>
             (case builder_task_definition b load task (as_non_workspace_task_name t) of
                Inl err \<Rightarrow> Some (Inl err)
              | Inr d \<Rightarrow>
                  if t \<in> visited then build_loop fuel b ho pg load allowed queue visited e1
                  else (let (e2, queue2) = visit_task ho pg allowed t d (e1, queue)
                        in build_loop fuel b ho pg load allowed queue2 (insert t visited) e2)))"

text \<open>
  The whole of \<open>build\<close>. The outer \<open>None\<close> is fuel running out;
  \<open>build_total\<close> shows how much is enough.
\<close>

definition engine_build ::
  "nat \<Rightarrow> task_node petgraph \<Rightarrow> hash_orders \<Rightarrow> engine_builder \<Rightarrow> package_graph \<Rightarrow> loader \<Rightarrow>
   (build_error, engine) result option"
where
  "engine_build fuel pet ho b pg load =
     (if eb_workspaces b = [] then Some (Inr engine_new)
      else
        (case seed_loop b load (List.product (eb_workspaces b) (requested_tasks b load))
                (split_map (eb_tasks b), []) of
           Inl err \<Rightarrow> Some (Inl err)
         | Inr (missing, queue) \<Rightarrow>
             if missing \<noteq> [] then Some (Inl (MissingTasks (missing_errors pg missing)))
             else
               (case build_loop fuel b ho pg load (allowed_tasks b) queue {} engine_new of
                  None \<Rightarrow> None
                | Some (Inl err) \<Rightarrow> Some (Inl err)
                | Some (Inr e) \<Rightarrow>
                    map_option (\<lambda>r. case r of Inl err \<Rightarrow> Inl (GraphErr err) | Inr _ \<Rightarrow> Inr e)
                      (validate_graph pet task_node_display (e_graph e)))))"

subsection \<open>The interface of the graph under construction\<close>

text \<open>
  What the builder relies on: \<open>index\<close> finds or adds a task, \<open>link\<close> adds an edge between
  nodes that exist, and neither changes anything else.
\<close>

locale task_graph_ops =
  fixes ok :: "'e \<Rightarrow> bool"
    and nodes :: "'e \<Rightarrow> task_node set"
    and edges :: "'e \<Rightarrow> (task_node \<times> task_node) set"
    and at :: "'e \<Rightarrow> nat \<Rightarrow> task_node \<Rightarrow> bool"
    and defs :: "'e \<Rightarrow> 'd"
    and index :: "'e \<Rightarrow> task_id \<Rightarrow> nat \<times> 'e"
    and link :: "'e \<Rightarrow> nat \<Rightarrow> nat \<Rightarrow> 'e"
  assumes index_ok: "ok e \<Longrightarrow> index e t = (i, e') \<Longrightarrow>
      ok e' \<and> at e' i (TaskNode t) \<and> nodes e' = insert (TaskNode t) (nodes e) \<and> edges e' = edges e \<and>
      defs e' = defs e"
    and index_at: "index e t = (i, e') \<Longrightarrow> at e j n \<Longrightarrow> at e' j n"
    and link_ok: "ok e \<Longrightarrow> at e a m \<Longrightarrow> at e b n \<Longrightarrow>
      ok (link e a b) \<and> nodes (link e a b) = nodes e \<and> edges (link e a b) = insert (m, n) (edges e) \<and>
      defs (link e a b) = defs e"
    and link_at: "at (link e a b) j n \<longleftrightarrow> at e j n"
begin

primrec link_all :: "nat \<Rightarrow> task_id list \<Rightarrow> 'e \<Rightarrow> 'e" where
  "link_all src [] e = e"
| "link_all src (t # ts) e = (let (i, e') = index e t in link_all src ts (link e' src i))"

lemma link_all_ok:
  assumes "ok e" and "at e src n"
  shows "ok (link_all src ts e) \<and> nodes (link_all src ts e) = nodes e \<union> TaskNode ` set ts \<and>
    edges (link_all src ts e) = edges e \<union> (\<lambda>u. (n, TaskNode u)) ` set ts \<and>
    defs (link_all src ts e) = defs e \<and> at (link_all src ts e) src n"
  using assms
proof (induction ts arbitrary: e)
  case Nil
  then show ?case by simp
next
  case (Cons t ts)
  obtain i e' where i: "index e t = (i, e')" by force
  note e' = index_ok [OF Cons.prems(1) i] index_at [OF i Cons.prems(2)]
  from e' have l: "ok (link e' src i)" "at (link e' src i) src n"
      "nodes (link e' src i) = nodes e'" "edges (link e' src i) = insert (n, TaskNode t) (edges e')"
      "defs (link e' src i) = defs e'"
    using link_ok [of e' src n i "TaskNode t"] link_at by blast+
  from Cons.IH [OF l(1,2)] e' l show ?case by (simp add: i)
qed

end

interpretation tg: task_graph_ops engine_ok task_nodes task_edges node_at e_task_definitions
  get_index engine_add_edge
proof
  fix e t i e' assume "engine_ok e" "get_index e t = (i, e')"
  then show "engine_ok e' \<and> node_at e' i (TaskNode t) \<and> task_nodes e' = insert (TaskNode t) (task_nodes e) \<and>
      task_edges e' = task_edges e \<and> e_task_definitions e' = e_task_definitions e"
    using get_index_ok [of e t i e'] get_index_frame [of e t i e'] by blast
next
  fix e t i e' j n assume "get_index e t = (i, e')" "node_at e j n"
  then show "node_at e' j n" by (rule get_index_node_at)
next
  fix e a m b n assume "engine_ok e" "node_at e a m" "node_at e b n"
  then show "engine_ok (engine_add_edge e a b) \<and> task_nodes (engine_add_edge e a b) = task_nodes e \<and>
      task_edges (engine_add_edge e a b) = insert (m, n) (task_edges e) \<and>
      e_task_definitions (engine_add_edge e a b) = e_task_definitions e"
    using add_edge_ok [of e a m b n] by (simp add: engine_add_edge_def)
next
  fix e a b j n show "node_at (engine_add_edge e a b) j n \<longleftrightarrow> node_at e j n"
    by (simp add: node_at_def engine_add_edge_def add_edge_def)
qed

subsection \<open>One visit\<close>

definition topo_ids ::
  "task_id set option \<Rightarrow> ((task_name \<times> span) \<times> package_node) list \<Rightarrow> task_id spanned list"
where
  "topo_ids allowed xs =
     filter (\<lambda>t. is_allowed allowed (sp_value t))
       (List.map_filter (\<lambda>((from, span), node). case node of
          RootNode \<Rightarrow> None
        | WorkspaceNode w \<Rightarrow> Some (sp_to span (task_id_from_graph w from))) xs)"

definition dep_ids :: "task_id set option \<Rightarrow> string \<Rightarrow> (task_name \<times> span) list \<Rightarrow> task_id spanned list" where
  "dep_ids allowed package xs =
     filter (\<lambda>t. is_allowed allowed (sp_value t)) (map (\<lambda>(dep, span). sp_to span (dep_task_id package dep)) xs)"

lemma topo_loop_eq:
  "topo_loop allowed i xs (e, q, h) =
     (tg.link_all i (map sp_value (topo_ids allowed xs)) e, q @ topo_ids allowed xs, h \<or> topo_ids allowed xs \<noteq> [])"
  by (induction allowed i xs "(e, q, h)" arbitrary: e q h rule: topo_loop.induct)
    (auto simp: topo_ids_def List.map_filter_simps engine_add_edge_def Let_def split: prod.splits)

lemma deps_loop_eq:
  "deps_loop allowed i p xs (e, q, h) =
     (tg.link_all i (map sp_value (dep_ids allowed p xs)) e, q @ dep_ids allowed p xs, h \<or> dep_ids allowed p xs \<noteq> [])"
  by (induction allowed i p xs "(e, q, h)" arbitrary: e q h rule: deps_loop.induct)
    (auto simp: dep_ids_def engine_add_edge_def Let_def split: prod.splits)

text \<open>The tasks a task waits for, the tasks that run beside it, and its edges.\<close>

definition dep_targets ::
  "package_graph \<Rightarrow> task_id set option \<Rightarrow> task_id \<Rightarrow> task_definition \<Rightarrow> task_id set"
where
  "dep_targets pg allowed t d =
     {u. is_allowed allowed u \<and>
        ((\<exists>from \<in> sp_value ` set (td_topological_dependencies d). \<exists>w.
            WorkspaceNode w \<in> dep_packages pg t \<and> u = task_id_from_graph w from) \<or>
         (\<exists>dep \<in> sp_value ` set (td_task_dependencies d). u = dep_task_id (tid_package t) dep))}"

definition sibling_targets :: "task_id \<Rightarrow> task_definition \<Rightarrow> task_id set" where
  "sibling_targets t d =
     (\<lambda>s. dep_task_id (tid_package t) (sp_value s)) ` set (unwrap_or [] (td_siblings d))"

definition task_links :: "task_id \<Rightarrow> task_id set \<Rightarrow> (task_node \<times> task_node) set" where
  "task_links t D =
     (\<lambda>u. (TaskNode t, TaskNode u)) ` D \<union> (if D = {} then {(TaskNode t, RootTask)} else {})"

definition pushed ::
  "hash_orders \<Rightarrow> package_graph \<Rightarrow> task_id set option \<Rightarrow> task_id \<Rightarrow> task_definition \<Rightarrow> task_id spanned list"
where
  "pushed ho pg allowed t d =
     topo_ids allowed (List.product (ho_map ho (split_map (td_topological_dependencies d)))
        (ho_nodes ho (dep_packages pg t))) @
     sibling_ids t d @
     dep_ids allowed (tid_package t) (ho_map ho (split_map (td_task_dependencies d)))"

lemma foldl_hm_insert_keys:
  "fst ` set (foldl (\<lambda>m (k, v). hm_insert k v m) m xs) = fst ` set m \<union> fst ` set xs"
proof (induction xs arbitrary: m)
  case (Cons x xs)
  then show ?case by (cases x) simp
qed simp

lemma filter_values:
  "sp_value ` set (filter (\<lambda>t. P (sp_value t)) ys) = {u \<in> sp_value ` set ys. P u}"
  by auto

lemma split_map_keys: "fst ` set (split_map xs) = sp_value ` set xs"
  by (simp add: split_map_def foldl_hm_insert_keys image_image)

lemma finite_dep_packages: "finite (dep_packages pg t)"
proof -
  have "{weight pg j | j. (i, j) \<in> set (g_edges (pg_graph pg))} \<subseteq> (weight pg \<circ> snd) ` set (g_edges (pg_graph pg))" for i
    by force
  then have "finite {weight pg j | j. (i, j) \<in> set (g_edges (pg_graph pg))}" for i
    using finite_subset by blast
  then show ?thesis
    by (simp add: dep_packages_def immediate_dependencies_def unwrap_or_def split: option.splits)
qed

lemma topo_ids_values:
  "sp_value ` set (topo_ids allowed (List.product xs ns)) =
     {u. is_allowed allowed u \<and> (\<exists>from \<in> fst ` set xs. \<exists>w. WorkspaceNode w \<in> set ns \<and> u = task_id_from_graph w from)}"
proof -
  have "sp_value ` set (List.map_filter (\<lambda>((from, span), node). case node of
          RootNode \<Rightarrow> None
        | WorkspaceNode w \<Rightarrow> Some (sp_to span (task_id_from_graph w from))) (List.product xs ns)) =
      {u. \<exists>from \<in> fst ` set xs. \<exists>w. WorkspaceNode w \<in> set ns \<and> u = task_id_from_graph w from}"
    by (force simp: List.map_filter_def image_iff split: package_node.splits)
  then show ?thesis unfolding topo_ids_def filter_values by auto
qed

lemma dep_ids_values:
  "sp_value ` set (dep_ids allowed p xs) =
     {u. is_allowed allowed u \<and> (\<exists>dep \<in> fst ` set xs. u = dep_task_id p dep)}"
  unfolding dep_ids_def filter_values by force

lemma pushed_values:
  assumes "orders_ok ho"
  shows "sp_value ` set (pushed ho pg allowed t d) = dep_targets pg allowed t d \<union> sibling_targets t d"
proof -
  have "set (ho_map ho xs) = set xs" "set (ho_nodes ho (dep_packages pg t)) = dep_packages pg t" for xs
    using assms finite_dep_packages by (simp_all add: orders_ok_def)
  then show ?thesis
    unfolding pushed_def set_append image_Un topo_ids_values dep_ids_values split_map_keys
    by (auto simp: dep_targets_def sibling_targets_def sibling_ids_def image_image split_map_keys)
qed

lemma visit_task_ok:
  assumes ho: "orders_ok ho" and ok: "engine_ok e"
    and v: "visit_task ho pg allowed t d (e, q) = (e', q')"
  defines "D \<equiv> dep_targets pg allowed t d"
  shows "q' = q @ pushed ho pg allowed t d" and "engine_ok e'"
    and "task_nodes e' = task_nodes e \<union> {TaskNode t} \<union> TaskNode ` D"
    and "task_edges e' = task_edges e \<union> task_links t D"
    and "e_task_definitions e' = hm_insert t d (e_task_definitions e)"
proof -
  define ts where "ts = topo_ids allowed (List.product (ho_map ho (split_map (td_topological_dependencies d)))
      (ho_nodes ho (dep_packages pg t)))"
  define ds where "ds = dep_ids allowed (tid_package t) (ho_map ho (split_map (td_task_dependencies d)))"
  obtain i e1 where gi: "get_index e t = (i, e1)" by force
  note e1 = get_index_ok [OF ok gi]
  define e2 where "e2 = tg.link_all i (map sp_value ts) e1"
  define e4 where "e4 = tg.link_all i (map sp_value ds) e2"
  from tg.link_all_ok [OF e1(1,2), of "map sp_value ts"]
  have e2: "engine_ok e2" "node_at e2 i (TaskNode t)"
    "task_nodes e2 = task_nodes e1 \<union> TaskNode ` sp_value ` set ts"
    "task_edges e2 = task_edges e1 \<union> (\<lambda>u. (TaskNode t, TaskNode u)) ` sp_value ` set ts"
    "e_task_definitions e2 = e_task_definitions e1"
    by (simp_all add: e2_def)
  from tg.link_all_ok [OF e2(1,2), of "map sp_value ds"]
  have e4: "engine_ok e4"
    "task_nodes e4 = task_nodes e2 \<union> TaskNode ` sp_value ` set ds"
    "task_edges e4 = task_edges e2 \<union> (\<lambda>u. (TaskNode t, TaskNode u)) ` sp_value ` set ds"
    "e_task_definitions e4 = e_task_definitions e2"
    by (simp_all add: e4_def)
  have D: "D = sp_value ` set ts \<union> sp_value ` set ds"
    using ho finite_dep_packages
    unfolding D_def ts_def ds_def topo_ids_values dep_ids_values
    by (auto simp: orders_ok_def dep_targets_def split_map_keys)
  define e5 where "e5 = add_definition e4 t d"
  have e5: "engine_ok e5" "task_nodes e5 = task_nodes e4" "task_edges e5 = task_edges e4"
    "e_task_definitions e5 = hm_insert t d (e_task_definitions e4)"
    using add_definition_ok e4(1) by (simp_all add: e5_def add_definition_def)
  have run: "e' = (if D = {} then connect_to_root e5 t else e5)" "q' = q @ pushed ho pg allowed t d"
    using v unfolding visit_task_def pushed_def
    by (auto simp: gi topo_loop_eq deps_loop_eq D e5_def e4_def e2_def ts_def ds_def Let_def)
  show "q' = q @ pushed ho pg allowed t d" by (rule run(2))
  show "engine_ok e'"
    unfolding run(1) using e5(1) connect_to_root_ok(1) by simp
  have root: "e_task_definitions (connect_to_root e5 t) = e_task_definitions e5"
    by (cases "get_index e5 t") (auto simp: connect_to_root_def dest: get_index_frame)
  show "task_nodes e' = task_nodes e \<union> {TaskNode t} \<union> TaskNode ` D"
    unfolding run(1) using connect_to_root_ok(2) [OF e5(1), of t] e5(2) e4(2) e2(3) e1(3)
    by (auto simp: D)
  show "task_edges e' = task_edges e \<union> task_links t D"
    unfolding run(1) task_links_def using connect_to_root_ok(3) [OF e5(1), of t] e5(3) e4(3) e2(4) e1(4)
    by (auto simp: D)
  show "e_task_definitions e' = hm_insert t d (e_task_definitions e)"
    unfolding run(1) using root e5(4) e4(4) e2(5) get_index_frame [OF gi] by simp
qed

subsection \<open>The set of tasks a run needs\<close>

abbreviation definition_of :: "engine_builder \<Rightarrow> loader \<Rightarrow> task_id \<Rightarrow> (build_error, task_definition) result" where
  "definition_of b load t \<equiv> builder_task_definition b load (spanned_new t) (as_non_workspace_task_name t)"

inductive_set needed_tasks ::
  "engine_builder \<Rightarrow> package_graph \<Rightarrow> loader \<Rightarrow> task_id set \<Rightarrow> task_id set"
  for b pg load start
where
  start: "t \<in> start \<Longrightarrow> t \<in> needed_tasks b pg load start"
| step: "t \<in> needed_tasks b pg load start \<Longrightarrow> definition_of b load t = Inr d \<Longrightarrow>
    u \<in> dep_targets pg (allowed_tasks b) t d \<union> sibling_targets t d \<Longrightarrow> u \<in> needed_tasks b pg load start"

lemma definition_any_span:
  "builder_task_definition b load task n = Inr d \<longleftrightarrow>
   builder_task_definition b load (spanned_new (sp_value task)) n = Inr d"
proof -
  have "task_definition_chain b load task n = Inr c \<longleftrightarrow>
      task_definition_chain b load (spanned_new (sp_value task)) n = Inr c" for c
    unfolding task_definition_chain_def Let_def by (auto split: sum.splits option.splits if_splits)
  then show ?thesis
    unfolding builder_task_definition_def by (simp add: try_bind_Inr)
qed

text \<open>What holds whenever the loop looks at the queue.\<close>

definition build_inv ::
  "engine_builder \<Rightarrow> package_graph \<Rightarrow> loader \<Rightarrow> task_id set \<Rightarrow>
   task_id spanned list \<Rightarrow> task_id set \<Rightarrow> engine \<Rightarrow> bool"
where
  "build_inv b pg load start queue visited e \<longleftrightarrow>
     engine_ok e \<and>
     start \<subseteq> visited \<union> sp_value ` set queue \<and>
     visited \<union> sp_value ` set queue \<subseteq> needed_tasks b pg load start \<and>
     insert RootTask (TaskNode ` visited) \<subseteq> task_nodes e \<and>
     task_nodes e \<subseteq> insert RootTask (TaskNode ` (visited \<union> sp_value ` set queue)) \<and>
     (\<forall>t \<in> visited. \<exists>d. definition_of b load t = Inr d \<and> hm_get (e_task_definitions e) t = Some d \<and>
        check_task b pg (spanned_new t) = Inr () \<and>
        dep_targets pg (allowed_tasks b) t d \<union> sibling_targets t d \<subseteq> visited \<union> sp_value ` set queue) \<and>
     (\<forall>t. t \<notin> visited \<longrightarrow> hm_get (e_task_definitions e) t = None) \<and>
     task_edges e = (\<Union>t \<in> visited. \<Union>d \<in> {d. definition_of b load t = Inr d}.
        task_links t (dep_targets pg (allowed_tasks b) t d))"

lemma build_inv_start:
  "build_inv b pg load (sp_value ` set queue) queue {} engine_new"
proof -
  have "e_task_definitions engine_new = []" by (simp add: engine_new_def)
  then show ?thesis
    by (auto simp: build_inv_def engine_ok_new engine_new_meaning intro: needed_tasks.start)
qed

lemma build_inv_location:
  "build_inv b pg load start queue visited e \<Longrightarrow>
     build_inv b pg load start queue visited (add_task_location e t l)"
proof -
  have "e_task_definitions (add_task_location e t l) = e_task_definitions e"
    by (simp add: add_task_location_def Let_def)
  then show "build_inv b pg load start queue visited e \<Longrightarrow> ?thesis"
    by (simp add: build_inv_def add_task_location_ok)
qed

lemma build_inv_skip:
  assumes "build_inv b pg load start (task # queue) visited e" and "sp_value task \<in> visited"
  shows "build_inv b pg load start queue visited e"
proof -
  have same: "visited \<union> sp_value ` set (task # queue) = visited \<union> sp_value ` set queue" using assms(2) by auto
  show ?thesis using assms(1) unfolding build_inv_def same by blast
qed

lemma check_any_span:
  "check_task b pg task = Inr () \<longleftrightarrow> check_task b pg (spanned_new (sp_value task)) = Inr ()"
  by (auto simp: check_task_def Let_def try_bind_Inr validate_task_name_def split: option.splits if_splits)

lemma build_inv_visit:
  assumes ho: "orders_ok ho" and inv: "build_inv b pg load start (task # queue) visited e"
    and new: "sp_value task \<notin> visited" and check: "check_task b pg task = Inr ()"
    and d: "builder_task_definition b load task (as_non_workspace_task_name (sp_value task)) = Inr d"
    and v: "visit_task ho pg (allowed_tasks b) (sp_value task) d (e, queue) = (e', queue')"
  shows "build_inv b pg load start queue' (insert (sp_value task) visited) e'"
proof -
  let ?t = "sp_value task"
  let ?D = "dep_targets pg (allowed_tasks b) ?t d" and ?S = "sibling_targets ?t d"
  have def: "definition_of b load ?t = Inr d" using d definition_any_span by blast
  have ok: "engine_ok e" using inv by (simp add: build_inv_def)
  note vt = visit_task_ok [OF ho ok v]
  have q': "sp_value ` set queue' = sp_value ` set queue \<union> (?D \<union> ?S)"
    unfolding vt(1) set_append image_Un pushed_values [OF ho] by simp
  have same: "insert ?t visited \<union> sp_value ` set queue' =
      (visited \<union> sp_value ` set (task # queue)) \<union> (?D \<union> ?S)"
    unfolding q' by auto
  have t: "?t \<in> needed_tasks b pg load start" using inv by (simp add: build_inv_def)
  have need: "?D \<union> ?S \<subseteq> needed_tasks b pg load start"
    using needed_tasks.step [OF t def] by blast
  from inv have i: "start \<subseteq> visited \<union> sp_value ` set (task # queue)"
      "visited \<union> sp_value ` set (task # queue) \<subseteq> needed_tasks b pg load start"
      "insert RootTask (TaskNode ` visited) \<subseteq> task_nodes e"
      "task_nodes e \<subseteq> insert RootTask (TaskNode ` (visited \<union> sp_value ` set (task # queue)))"
      "\<forall>t. t \<notin> visited \<longrightarrow> hm_get (e_task_definitions e) t = None"
      "task_edges e = (\<Union>t \<in> visited. \<Union>d \<in> {d. definition_of b load t = Inr d}.
        task_links t (dep_targets pg (allowed_tasks b) t d))"
    and old: "\<forall>u \<in> visited. \<exists>d'. definition_of b load u = Inr d' \<and>
      hm_get (e_task_definitions e) u = Some d' \<and> check_task b pg (spanned_new u) = Inr () \<and>
      dep_targets pg (allowed_tasks b) u d' \<union> sibling_targets u d' \<subseteq> visited \<union> sp_value ` set (task # queue)"
    unfolding build_inv_def by - (elim conjE, assumption)+
  have defs: "\<exists>d'. definition_of b load u = Inr d' \<and> hm_get (e_task_definitions e') u = Some d' \<and>
      check_task b pg (spanned_new u) = Inr () \<and>
      dep_targets pg (allowed_tasks b) u d' \<union> sibling_targets u d' \<subseteq> insert ?t visited \<union> sp_value ` set queue'"
    if u: "u \<in> insert ?t visited" for u
  proof (cases "u = ?t")
    case True
    have "check_task b pg (spanned_new ?t) = Inr ()" by (rule check [unfolded check_any_span [of b pg task]])
    with def show ?thesis unfolding True same vt(5) by (intro exI [of _ d]) (simp, blast)
  next
    case False
    with u have "u \<in> visited" by simp
    from old [THEN bspec, OF this] obtain d' where "definition_of b load u = Inr d'" "hm_get (e_task_definitions e) u = Some d'"
      "check_task b pg (spanned_new u) = Inr ()"
      "dep_targets pg (allowed_tasks b) u d' \<union> sibling_targets u d' \<subseteq> visited \<union> sp_value ` set (task # queue)"
      by (elim exE conjE)
    with False show ?thesis unfolding same vt(5)
      by (intro exI [of _ d']) (simp only: hm_get_insert if_False simp_thms, blast)
  qed
  show ?thesis
    unfolding build_inv_def
  proof (intro conjI ballI)
    show "engine_ok e'" by (rule vt(2))
    show "start \<subseteq> insert ?t visited \<union> sp_value ` set queue'"
      unfolding same using i(1) by blast
    show "insert ?t visited \<union> sp_value ` set queue' \<subseteq> needed_tasks b pg load start"
      unfolding same using i(2) need by blast
    show "insert RootTask (TaskNode ` insert ?t visited) \<subseteq> task_nodes e'"
      unfolding vt(3) using i(3) by blast
    show "task_nodes e' \<subseteq> insert RootTask (TaskNode ` (insert ?t visited \<union> sp_value ` set queue'))"
      unfolding vt(3) same using i(4) by auto
    show "\<forall>u. u \<notin> insert ?t visited \<longrightarrow> hm_get (e_task_definitions e') u = None"
      unfolding vt(5) using i(5) by (simp add: hm_get_insert)
    show "task_edges e' = (\<Union>t \<in> insert ?t visited. \<Union>d \<in> {d. definition_of b load t = Inr d}.
        task_links t (dep_targets pg (allowed_tasks b) t d))"
      unfolding vt(4) i(6) using def by auto
  qed (rule defs)
qed

lemma build_loop_Suc:
  assumes "build_loop (Suc fuel) b ho pg load allowed (task # queue) visited e = Some r"
  obtains (err) err where "r = Inl err"
  | (seen) d where "sp_value task \<in> visited" "check_task b pg task = Inr ()"
      "builder_task_definition b load task (as_non_workspace_task_name (sp_value task)) = Inr d"
      "build_loop fuel b ho pg load allowed queue visited
        (add_task_location e (sp_value task) (snd (sp_split task))) = Some r"
  | (new) d e' queue' where "sp_value task \<notin> visited" "check_task b pg task = Inr ()"
      "builder_task_definition b load task (as_non_workspace_task_name (sp_value task)) = Inr d"
      "visit_task ho pg allowed (sp_value task) d
        (add_task_location e (sp_value task) (snd (sp_split task)), queue) = (e', queue')"
      "build_loop fuel b ho pg load allowed queue' (insert (sp_value task) visited) e' = Some r"
  using assms by (auto simp: Let_def split: sum.splits if_splits prod.splits)

lemma build_loop_inv:
  assumes ho: "orders_ok ho"
  shows "build_inv b pg load start queue visited e \<Longrightarrow>
    build_loop fuel b ho pg load (allowed_tasks b) queue visited e = Some (Inr e') \<Longrightarrow>
    \<exists>V. build_inv b pg load start [] V e'"
proof (induction fuel arbitrary: queue visited e)
  case 0
  then show ?case by (cases queue) auto
next
  case (Suc fuel)
  show ?case
  proof (cases queue)
    case Nil
    with Suc.prems show ?thesis by auto
  next
    case (Cons task q)
    let ?e = "add_task_location e (sp_value task) (snd (sp_split task))"
    have inv: "build_inv b pg load start (task # q) visited ?e"
      using build_inv_location Suc.prems(1) unfolding Cons by blast
    from Suc.prems(2) [unfolded Cons] show ?thesis
    proof (cases rule: build_loop_Suc)
      case (seen d)
      then show ?thesis using Suc.IH build_inv_skip [OF inv] by blast
    next
      case (new d e'' q')
      then show ?thesis using Suc.IH build_inv_visit [OF ho inv] by blast
    qed simp
  qed
qed

subsection \<open>Enough fuel\<close>

definition push_count ::
  "engine_builder \<Rightarrow> hash_orders \<Rightarrow> package_graph \<Rightarrow> loader \<Rightarrow> task_id \<Rightarrow> nat"
where
  "push_count b ho pg load t =
     (case definition_of b load t of
        Inr d \<Rightarrow> length (pushed ho pg (allowed_tasks b) t d) | Inl _ \<Rightarrow> 0)"

lemma visit_task_queue:
  "snd (visit_task ho pg allowed t d (e, q)) = q @ pushed ho pg allowed t d"
  by (auto simp: visit_task_def pushed_def topo_loop_eq deps_loop_eq Let_def split: prod.splits)

lemma build_loop_total:
  assumes ho: "orders_ok ho" and U: "finite U"
    and closed: "\<And>t d. t \<in> U \<Longrightarrow> definition_of b load t = Inr d \<Longrightarrow>
      dep_targets pg (allowed_tasks b) t d \<union> sibling_targets t d \<subseteq> U"
  shows "sp_value ` set queue \<subseteq> U \<Longrightarrow> visited \<subseteq> U \<Longrightarrow>
    length queue + (\<Sum>t \<in> U - visited. push_count b ho pg load t) \<le> fuel \<Longrightarrow>
    \<exists>r. build_loop fuel b ho pg load (allowed_tasks b) queue visited e = Some r"
proof (induction fuel arbitrary: queue visited e)
  case 0
  then show ?case by simp
next
  case (Suc fuel)
  show ?case
  proof (cases queue)
    case Nil
    then show ?thesis by simp
  next
    case (Cons task q)
    let ?t = "sp_value task" and ?e = "add_task_location e (sp_value task) (snd (sp_split task))"
    show ?thesis
    proof (cases "check_task b pg task")
      case (Inl err)
      then show ?thesis by (simp add: Cons)
    next
      case check: (Inr u)
      show ?thesis
      proof (cases "builder_task_definition b load task (as_non_workspace_task_name ?t)")
        case (Inl err)
        with check show ?thesis by (simp add: Cons)
      next
        case d: (Inr d)
        then have def: "definition_of b load ?t = Inr d" using definition_any_span by blast
        show ?thesis
        proof (cases "?t \<in> visited")
          case True
          have "\<exists>r. build_loop fuel b ho pg load (allowed_tasks b) q visited ?e = Some r"
            using Suc.prems by (intro Suc.IH) (auto simp: Cons)
          with True check d show ?thesis by (simp add: Cons)
        next
          case False
          obtain e' q' where v: "visit_task ho pg (allowed_tasks b) ?t d (?e, q) = (e', q')" by force
          have q': "q' = q @ pushed ho pg (allowed_tasks b) ?t d"
            using visit_task_queue [of ho pg "allowed_tasks b" ?t d ?e q] by (simp add: v)
          have t: "?t \<in> U" using Suc.prems(1) by (simp add: Cons)
          have "(\<Sum>t \<in> U - visited. push_count b ho pg load t) =
              push_count b ho pg load ?t + (\<Sum>t \<in> U - visited - {?t}. push_count b ho pg load t)"
            using U t False by (intro sum.remove) auto
          moreover have "push_count b ho pg load ?t = length (pushed ho pg (allowed_tasks b) ?t d)"
            by (simp add: push_count_def def)
          moreover have "U - visited - {?t} = U - insert ?t visited" by blast
          ultimately have "length q' + (\<Sum>t \<in> U - insert ?t visited. push_count b ho pg load t) \<le> fuel"
            using Suc.prems(3) by (simp add: Cons q')
          moreover have "sp_value ` set q' \<subseteq> U"
            using Suc.prems(1) closed [OF t def] pushed_values [OF ho, of pg "allowed_tasks b" ?t d]
            by (auto simp: q' Cons)
          ultimately have "\<exists>r. build_loop fuel b ho pg load (allowed_tasks b) q' (insert ?t visited) e' = Some r"
            using Suc.prems(2) t by (intro Suc.IH) auto
          with False check d v show ?thesis by (simp add: Cons)
        qed
      qed
    qed
  qed
qed

subsection \<open>Only finitely many tasks can be needed\<close>

text \<open>A loader knows finitely many packages.\<close>

definition finite_loader :: "loader \<Rightarrow> bool" where
  "finite_loader load \<longleftrightarrow> finite {p. \<exists>nj. load p = Inr nj}"

definition raw_definitions :: "loader \<Rightarrow> raw_task_definition set" where
  "raw_definitions load = (\<Union>nj \<in> {nj. \<exists>p. load p = Inr nj}. (\<lambda>(_, d). sp_value d) ` set (nj_tasks nj))"

lemma finite_raw_definitions:
  assumes "finite_loader load"
  shows "finite (raw_definitions load)"
proof -
  have "{nj. \<exists>p. load p = Inr nj} \<subseteq> (\<lambda>p. projr (load p)) ` {p. \<exists>nj. load p = Inr nj}"
    by force
  with assms have "finite {nj. \<exists>p. load p = Inr nj}"
    unfolding finite_loader_def using finite_subset by blast
  then show ?thesis unfolding raw_definitions_def by blast
qed

lemma json_task_raw: "load p = Inr nj \<Longrightarrow> nrz_json_task nj t n = Some d \<Longrightarrow> d \<in> raw_definitions load"
  unfolding raw_definitions_def nrz_json_task_def
  by (force split: option.splits dest!: map_of_SomeD)

lemma chain_raw:
  assumes "task_definition_chain b load task n = Inr chain"
  shows "set chain \<subseteq> raw_definitions load \<and> length chain \<le> 2"
proof -
  have ws: "sp_value d \<in> raw_definitions load" if "load p = Inr nj" "map_of (nj_tasks nj) n = Some d" for p nj d
    using that unfolding raw_definitions_def by (force dest!: map_of_SomeD)
  obtain nj where nj: "load RootPkg = Inr nj"
    using assms by (auto simp: task_definition_chain_def split: sum.splits)
  have root: "set (case nrz_json_task nj (sp_value task) n of Some d \<Rightarrow> [d] | None \<Rightarrow> []) \<subseteq> raw_definitions load"
    using json_task_raw [of load RootPkg nj, OF nj] by (auto split: option.splits)
  show ?thesis
    using assms root nj ws
    by (cases "nrz_json_task nj (sp_value task) n")
      (auto simp: task_definition_chain_def Let_def split: sum.splits if_splits option.splits)
qed

definition reachable_definitions :: "engine_builder \<Rightarrow> loader \<Rightarrow> task_definition set" where
  "reachable_definitions b load = {d. \<exists>t. definition_of b load t = Inr d}"

lemma finite_reachable_definitions:
  assumes "finite_loader load"
  shows "finite (reachable_definitions b load)"
proof -
  let ?C = "{chain. set chain \<subseteq> raw_definitions load \<and> length chain \<le> 2}"
  have "reachable_definitions b load \<subseteq> (\<lambda>c. projr (task_definition_try_from (raw_from_iter c))) ` ?C"
  proof
    fix d assume "d \<in> reachable_definitions b load"
    then obtain t where "definition_of b load t = Inr d" by (auto simp: reachable_definitions_def)
    then obtain c where "task_definition_chain b load (spanned_new t) (as_non_workspace_task_name t) = Inr c"
      "task_definition_try_from (raw_from_iter c) = Inr d"
      unfolding builder_task_definition_def try_bind_Inr by (metis sum.case_eq_if sum.collapse(2) sum.disc(1) sum.distinct(1) sum.inject(2))
    then show "d \<in> (\<lambda>c. projr (task_definition_try_from (raw_from_iter c))) ` ?C"
      using chain_raw by (force intro!: image_eqI [of _ _ c])
  qed
  moreover have "finite ?C"
    using finite_lists_length_le [OF finite_raw_definitions [OF assms]] by simp
  ultimately show ?thesis using finite_subset by blast
qed

text \<open>A finite set of tasks that the traversal cannot leave.\<close>

definition named_tasks :: "engine_builder \<Rightarrow> loader \<Rightarrow> task_name set" where
  "named_tasks b load = (\<Union>d \<in> reachable_definitions b load.
     sp_value ` set (td_topological_dependencies d) \<union> sp_value ` set (td_task_dependencies d) \<union>
     sp_value ` set (unwrap_or [] (td_siblings d)))"

definition universe_packages :: "engine_builder \<Rightarrow> package_graph \<Rightarrow> loader \<Rightarrow> task_id set \<Rightarrow> string set" where
  "universe_packages b pg load start =
     tid_package ` start \<union>
     package_name_as_str ` as_package_name ` weight pg ` snd ` set (g_edges (pg_graph pg)) \<union>
     (\<Union>n \<in> named_tasks b load. set_option (tn_package n)) \<union>
     (\<lambda>n. tid_package (projr (task_id_try_from (tn_task n)))) ` named_tasks b load"

definition universe_names :: "engine_builder \<Rightarrow> loader \<Rightarrow> task_id set \<Rightarrow> string set" where
  "universe_names b load start =
     tid_task ` start \<union> tn_task ` named_tasks b load \<union>
     (\<lambda>n. tid_task (projr (task_id_try_from (tn_task n)))) ` named_tasks b load"

definition task_universe :: "engine_builder \<Rightarrow> package_graph \<Rightarrow> loader \<Rightarrow> task_id set \<Rightarrow> task_id set" where
  "task_universe b pg load start =
     {t. tid_package t \<in> universe_packages b pg load start \<and> tid_task t \<in> universe_names b load start}"

lemma finite_task_universe:
  assumes "finite_loader load" and "finite start"
  shows "finite (task_universe b pg load start)"
proof -
  have names: "finite (named_tasks b load)"
    unfolding named_tasks_def using finite_reachable_definitions [OF assms(1)] by auto
  have "finite (universe_packages b pg load start)" "finite (universe_names b load start)"
    using names assms(2) by (simp_all add: universe_packages_def universe_names_def)
  moreover have "task_universe b pg load start \<subseteq>
      (\<lambda>(p, t). TaskId p t) ` (universe_packages b pg load start \<times> universe_names b load start)"
    unfolding task_universe_def by (auto simp: image_iff) (metis task_id.collapse)
  ultimately show ?thesis by (meson finite_SigmaI finite_imageI finite_subset)
qed

lemma start_in_universe: "start \<subseteq> task_universe b pg load start"
  by (auto simp: task_universe_def universe_packages_def universe_names_def)

lemma dep_packages_weights: "dep_packages pg t \<subseteq> weight pg ` snd ` set (g_edges (pg_graph pg))"
  by (force simp: dep_packages_def immediate_dependencies_def unwrap_or_def split: option.splits)

lemma universe_from_graph:
  assumes "n \<in> named_tasks b load" and "WorkspaceNode w \<in> dep_packages pg t"
  shows "task_id_from_graph w n \<in> task_universe b pg load start"
proof -
  have "w = as_package_name (WorkspaceNode w)" by (simp add: as_package_name_def)
  moreover have "WorkspaceNode w \<in> weight pg ` snd ` set (g_edges (pg_graph pg))"
    using assms(2) dep_packages_weights by (rule subsetD [rotated])
  ultimately have "package_name_as_str w \<in> package_name_as_str ` as_package_name ` weight pg ` snd ` set (g_edges (pg_graph pg))"
    by (metis imageI)
  then have "package_name_as_str w \<in> universe_packages b pg load start"
    by (simp add: universe_packages_def)
  moreover have "p \<in> universe_packages b pg load start" if "tn_package n = Some p" for p
    using assms(1) that unfolding universe_packages_def by force
  moreover have "tn_task n \<in> universe_names b load start"
    using assms(1) by (simp add: universe_names_def)
  ultimately show ?thesis
    by (cases "tn_package n"; cases w)
      (simp_all add: task_universe_def task_id_from_graph_def task_name_task_id_def package_name_as_str_def)
qed

lemma universe_dep:
  assumes "n \<in> named_tasks b load" and "t \<in> task_universe b pg load start"
  shows "dep_task_id (tid_package t) n \<in> task_universe b pg load start"
proof (cases "task_name_task_id n")
  case None
  have "u \<in> task_universe b pg load start" if "task_id_try_from (tn_task n) = Inr u" for u
    using assms(1) that by (force simp: task_universe_def universe_packages_def universe_names_def)
  moreover have "TaskId (tid_package t) (tn_task n) \<in> task_universe b pg load start"
    using assms by (simp add: task_universe_def universe_names_def)
  ultimately show ?thesis
    using None by (simp add: dep_task_id_def task_id_new_def split: sum.splits)
next
  case (Some u)
  then have "tn_package n = Some (tid_package u)" "tid_task u = tn_task n"
    by (auto simp: task_name_task_id_def)
  with assms(1) Some show ?thesis
    by (force simp: dep_task_id_def task_universe_def universe_packages_def universe_names_def)
qed

lemma universe_closed:
  assumes "t \<in> task_universe b pg load start" and d: "definition_of b load t = Inr d"
  shows "dep_targets pg allowed t d \<union> sibling_targets t d \<subseteq> task_universe b pg load start"
proof -
  have "d \<in> reachable_definitions b load" using d by (auto simp: reachable_definitions_def)
  then have names: "sp_value ` set (td_topological_dependencies d) \<union> sp_value ` set (td_task_dependencies d) \<union>
      sp_value ` set (unwrap_or [] (td_siblings d)) \<subseteq> named_tasks b load"
    unfolding named_tasks_def by blast
  show ?thesis
  proof
    fix u assume "u \<in> dep_targets pg allowed t d \<union> sibling_targets t d"
    then consider (topo) n w where "n \<in> sp_value ` set (td_topological_dependencies d)"
        "WorkspaceNode w \<in> dep_packages pg t" "u = task_id_from_graph w n"
      | (dep) n where "n \<in> sp_value ` set (td_task_dependencies d) \<union> sp_value ` set (unwrap_or [] (td_siblings d))"
        "u = dep_task_id (tid_package t) n"
      unfolding dep_targets_def sibling_targets_def by blast
    then show "u \<in> task_universe b pg load start"
    proof cases
      case topo
      with names show ?thesis by (auto intro: universe_from_graph)
    next
      case dep
      with names show ?thesis using universe_dep [OF _ assms(1)] by auto
    qed
  qed
qed

subsection \<open>Seeds\<close>

definition seeds :: "engine_builder \<Rightarrow> loader \<Rightarrow> (package_name \<times> task_name spanned) list \<Rightarrow> task_id set" where
  "seeds b load pairs =
     {t. \<exists>(workspace, task) \<in> set pairs.
        t = dep_task_id (package_name_as_str workspace) (sp_value task) \<and>
        has_task_definition load workspace (sp_value task) t = Inr True \<and>
        (workspace \<noteq> RootPkg \<or> sp_value task \<in> eb_root_enabled_tasks b)}"

definition found_names :: "loader \<Rightarrow> (package_name \<times> task_name spanned) list \<Rightarrow> task_name set" where
  "found_names load pairs =
     {n. \<exists>(workspace, task) \<in> set pairs. n = sp_value task \<and>
        has_task_definition load workspace n (dep_task_id (package_name_as_str workspace) n) = Inr True}"

lemma seed_loop_Cons:
  assumes "seed_loop b load ((workspace, task) # pairs) (missing, queue) = Inr r"
  defines "t \<equiv> dep_task_id (package_name_as_str workspace) (sp_value task)"
  obtains has where "has_task_definition load workspace (sp_value task) t = Inr has"
    "seed_loop b load pairs
      (if has then AList.delete (sp_value task) missing else missing,
       if has \<and> (workspace \<noteq> RootPkg \<or> sp_value task \<in> eb_root_enabled_tasks b)
       then queue @ [sp_to task t] else queue) = Inr r"
  using assms by (auto simp: Let_def try_bind_Inr split: if_splits)

lemma seed_loop_Inr:
  assumes "seed_loop b load pairs (missing, queue) = Inr (missing', queue')"
  shows "sp_value ` set queue' = sp_value ` set queue \<union> seeds b load pairs \<and>
    fst ` set missing - fst ` set missing' \<subseteq> found_names load pairs"
  using assms
proof (induction pairs arbitrary: missing queue)
  case Nil
  then show ?case by (simp add: seeds_def)
next
  case (Cons p pairs)
  obtain workspace task where p: "p = (workspace, task)" by force
  let ?t = "dep_task_id (package_name_as_str workspace) (sp_value task)"
  from Cons.prems [unfolded p] obtain has where
    has: "has_task_definition load workspace (sp_value task) ?t = Inr has" and
    rest: "seed_loop b load pairs
      (if has then AList.delete (sp_value task) missing else missing,
       if has \<and> (workspace \<noteq> RootPkg \<or> sp_value task \<in> eb_root_enabled_tasks b)
       then queue @ [sp_to task ?t] else queue) = Inr (missing', queue')"
    by (rule seed_loop_Cons)
  have seeds: "seeds b load (p # pairs) =
      (if has \<and> (workspace \<noteq> RootPkg \<or> sp_value task \<in> eb_root_enabled_tasks b) then {?t} else {}) \<union>
      seeds b load pairs"
    using has by (auto simp: seeds_def p)
  have found: "found_names load (p # pairs) = (if has then {sp_value task} else {}) \<union> found_names load pairs"
    using has by (auto simp: found_names_def p)
  have del: "fst ` set (AList.delete n m) = fst ` set m - {n}" for n and m :: "(task_name, span) hash_map"
    using arg_cong [OF delete_keys [of n m], of set] by (simp only: set_map set_removeAll)
  from Cons.IH [OF rest] show ?case
    unfolding seeds found by (cases has; auto simp: del split: if_splits)
qed

subsection \<open>The engine that is built\<close>

definition petgraph_ok :: "'n petgraph \<Rightarrow> bool" where
  "petgraph_ok pet \<longleftrightarrow>
     neighbors_spec (pg_neighbors pet) \<and>
     (\<forall>g. wf_graph g \<longrightarrow> tarjan_spec g (pg_tarjan_scc pet g) \<and> retain_spec (pg_retain_nodes pet) g)"

definition wanted_tasks :: "engine_builder \<Rightarrow> package_graph \<Rightarrow> loader \<Rightarrow> task_id set" where
  "wanted_tasks b pg load =
     needed_tasks b pg load
       (seeds b load (List.product (eb_workspaces b) (requested_tasks b load)))"

definition engine_for :: "engine_builder \<Rightarrow> package_graph \<Rightarrow> loader \<Rightarrow> engine \<Rightarrow> bool" where
  "engine_for b pg load e \<longleftrightarrow>
     engine_ok e \<and> acyclic_graph (e_graph e) \<and>
     task_nodes e = insert RootTask (TaskNode ` wanted_tasks b pg load) \<and>
     (\<forall>t \<in> wanted_tasks b pg load. \<exists>d.
        definition_of b load t = Inr d \<and> hm_get (e_task_definitions e) t = Some d \<and>
        check_task b pg (spanned_new t) = Inr () \<and>
        {n. (TaskNode t, n) \<in> task_edges e} =
          (let D = dep_targets pg (allowed_tasks b) t d in if D = {} then {RootTask} else TaskNode ` D))"

lemma build_inv_done:
  assumes inv: "build_inv b pg load start [] V e"
  shows "V = needed_tasks b pg load start"
proof
  from inv have sub: "start \<subseteq> V" "V \<subseteq> needed_tasks b pg load start"
    and closed: "\<forall>t \<in> V. \<exists>d. definition_of b load t = Inr d \<and> hm_get (e_task_definitions e) t = Some d \<and>
        check_task b pg (spanned_new t) = Inr () \<and>
        dep_targets pg (allowed_tasks b) t d \<union> sibling_targets t d \<subseteq> V"
    unfolding build_inv_def list.set image_empty Un_empty_right by - (elim conjE, assumption)+
  show "V \<subseteq> needed_tasks b pg load start" by (rule sub(2))
  show "needed_tasks b pg load start \<subseteq> V"
  proof
    fix t assume "t \<in> needed_tasks b pg load start"
    then show "t \<in> V"
    proof induction
      case (start t)
      with sub(1) show ?case by blast
    next
      case (step t d u)
      from closed [THEN bspec, OF step.IH] step.hyps show ?case by auto
    qed
  qed
qed

lemma task_links_mem:
  "(TaskNode t, n) \<in> task_links u D \<longleftrightarrow>
     u = t \<and> n \<in> (if D = {} then {RootTask} else TaskNode ` D)"
  by (auto simp: task_links_def)

lemma build_inv_engine_for:
  assumes inv: "build_inv b pg load (seeds b load (List.product (eb_workspaces b) (requested_tasks b load))) [] V e"
    and acyclic: "acyclic_graph (e_graph e)"
  shows "engine_for b pg load e"
proof -
  have V: "V = wanted_tasks b pg load" unfolding wanted_tasks_def by (rule build_inv_done [OF inv])
  from inv have ok: "engine_ok e" and nodes: "insert RootTask (TaskNode ` V) \<subseteq> task_nodes e"
      "task_nodes e \<subseteq> insert RootTask (TaskNode ` V)"
    and defs: "\<forall>t \<in> V. \<exists>d. definition_of b load t = Inr d \<and> hm_get (e_task_definitions e) t = Some d \<and>
        check_task b pg (spanned_new t) = Inr () \<and>
        dep_targets pg (allowed_tasks b) t d \<union> sibling_targets t d \<subseteq> V"
    and edges: "task_edges e = (\<Union>t \<in> V. \<Union>d \<in> {d. definition_of b load t = Inr d}.
        task_links t (dep_targets pg (allowed_tasks b) t d))"
    unfolding build_inv_def list.set image_empty Un_empty_right by - (elim conjE, assumption)+
  have out: "{n. (TaskNode t, n) \<in> task_edges e} =
      (let D = dep_targets pg (allowed_tasks b) t d in if D = {} then {RootTask} else TaskNode ` D)"
    if "t \<in> V" "definition_of b load t = Inr d" for t d
    using that unfolding edges by (auto simp: task_links_mem Let_def)
  show ?thesis
    unfolding engine_for_def V [symmetric]
  proof (intro conjI ballI ok acyclic)
    show "task_nodes e = insert RootTask (TaskNode ` V)" using nodes by blast
    fix t assume t: "t \<in> V"
    from defs [THEN bspec, OF t] obtain d where "definition_of b load t = Inr d"
      "hm_get (e_task_definitions e) t = Some d" "check_task b pg (spanned_new t) = Inr ()"
      by (elim exE conjE)
    with out [OF t] show "\<exists>d. definition_of b load t = Inr d \<and> hm_get (e_task_definitions e) t = Some d \<and>
        check_task b pg (spanned_new t) = Inr () \<and>
        {n. (TaskNode t, n) \<in> task_edges e} =
          (let D = dep_targets pg (allowed_tasks b) t d in if D = {} then {RootTask} else TaskNode ` D)"
      by (intro exI [of _ d]) simp
  qed
qed

lemma engine_build_Inr:
  assumes "engine_build fuel pet ho b pg load = Some (Inr e)" and "eb_workspaces b \<noteq> []"
  obtains queue e0 v where
    "seed_loop b load (List.product (eb_workspaces b) (requested_tasks b load)) (split_map (eb_tasks b), []) =
       Inr ([], queue)"
    "build_loop fuel b ho pg load (allowed_tasks b) queue {} engine_new = Some (Inr e0)"
    "validate_graph pet task_node_display (e_graph e0) = Some v"
    "(case v of Inl err \<Rightarrow> Inl (GraphErr err) | Inr _ \<Rightarrow> Inr e0) = (Inr e :: build_error + engine)"
proof -
  let ?seed = "seed_loop b load (List.product (eb_workspaces b) (requested_tasks b load)) (split_map (eb_tasks b), [])"
  from assms obtain missing queue where seed: "?seed = Inr (missing, queue)"
    by (cases ?seed) (auto simp: engine_build_def)
  with assms have "missing = []" by (auto simp: engine_build_def split: if_splits)
  with seed assms obtain e0 where e0: "build_loop fuel b ho pg load (allowed_tasks b) queue {} engine_new = Some (Inr e0)"
    by (auto simp: engine_build_def split: option.splits sum.splits)
  with seed assms \<open>missing = []\<close> obtain v where "validate_graph pet task_node_display (e_graph e0) = Some v"
    "(case v of Inl err \<Rightarrow> Inl (GraphErr err) | Inr _ \<Rightarrow> Inr e0) = (Inr e :: build_error + engine)"
    by (auto simp: engine_build_def)
  with seed e0 \<open>missing = []\<close> that show thesis by blast
qed

lemma build_result:
  assumes ho: "orders_ok ho" and pet: "petgraph_ok pet" and ws: "eb_workspaces b \<noteq> []"
    and r: "engine_build fuel pet ho b pg load = Some (Inr e)"
  shows "engine_for b pg load e \<and>
    sp_value ` set (eb_tasks b) \<subseteq> found_names load (List.product (eb_workspaces b) (requested_tasks b load))"
proof -
  let ?pairs = "List.product (eb_workspaces b) (requested_tasks b load)"
  obtain queue e0 v where
    seed: "seed_loop b load ?pairs (split_map (eb_tasks b), []) = Inr ([], queue)" and
    loop: "build_loop fuel b ho pg load (allowed_tasks b) queue {} engine_new = Some (Inr e0)" and
    v: "validate_graph pet task_node_display (e_graph e0) = Some v" and
    out: "(case v of Inl err \<Rightarrow> Inl (GraphErr err) | Inr _ \<Rightarrow> Inr e0) = (Inr e :: build_error + engine)"
    using r ws by (rule engine_build_Inr)
  from out have e: "e0 = e" and "v = Inr ()" by (auto split: sum.splits)
  from seed_loop_Inr [OF seed] have q: "sp_value ` set queue = seeds b load ?pairs"
    and found: "fst ` set (split_map (eb_tasks b)) \<subseteq> found_names load ?pairs" by auto
  from build_loop_inv [OF ho build_inv_start loop] obtain V where
    inv: "build_inv b pg load (seeds b load ?pairs) [] V e" unfolding q e by blast
  then have "engine_ok e" by (simp add: build_inv_def)
  then have wf: "wf_graph (e_graph e)" by (simp add: engine_ok_def)
  from validate_graph_result [OF wf, of pet task_node_display] pet wf v \<open>v = Inr ()\<close> e
  have "acyclic_graph (e_graph e)" by (auto simp: petgraph_ok_def)
  from build_inv_engine_for [OF inv this] found show ?thesis unfolding split_map_keys by blast
qed

lemma build_total:
  assumes ho: "orders_ok ho" and pet: "petgraph_ok pet" and fin: "finite_loader load"
  shows "\<exists>N. \<forall>fuel \<ge> N. \<exists>r. engine_build fuel pet ho b pg load = Some r"
proof (cases "seed_loop b load (List.product (eb_workspaces b) (requested_tasks b load)) (split_map (eb_tasks b), [])")
  case (Inl err)
  then show ?thesis by (auto simp: engine_build_def)
next
  case (Inr p)
  obtain missing queue where p: "p = (missing, queue)" by force
  let ?U = "task_universe b pg load (sp_value ` set queue)"
  let ?N = "length queue + (\<Sum>t \<in> ?U - {}. push_count b ho pg load t)"
  have "\<exists>r. engine_build fuel pet ho b pg load = Some r" if fuel: "fuel \<ge> ?N" for fuel
  proof -
    have "\<exists>r. build_loop fuel b ho pg load (allowed_tasks b) queue {} engine_new = Some r"
    proof (rule build_loop_total [OF ho])
      show "finite ?U" using finite_task_universe [OF fin] by simp
    qed (use universe_closed start_in_universe fuel in auto)
    then obtain r where r: "build_loop fuel b ho pg load (allowed_tasks b) queue {} engine_new = Some r" ..
    show ?thesis
    proof (cases r)
      case (Inl err)
      with \<open>seed_loop _ _ _ _ = _\<close> p r show ?thesis by (simp add: engine_build_def)
    next
      case (Inr e)
      with build_loop_inv [OF ho build_inv_start] r obtain V where
        "build_inv b pg load (sp_value ` set queue) [] V e" by blast
      then have "wf_graph (e_graph e)" by (simp add: build_inv_def engine_ok_def)
      with pet obtain v where "validate_graph pet task_node_display (e_graph e) = Some v"
        using validate_graph_result [of "e_graph e" pet task_node_display] by (auto simp: petgraph_ok_def)
      with \<open>seed_loop _ _ _ _ = _\<close> p r Inr show ?thesis by (simp add: engine_build_def)
    qed
  qed
  then show ?thesis by blast
qed

text \<open>
  C1: building an engine always returns, and an engine it returns is the one the configuration
  asks for: every requested task exists; the tasks are exactly those reachable from the requested
  ones by dependencies and siblings; each has the definition its configuration files give, passed
  the checks, and has an edge to exactly the tasks its \<open>dependsOn\<close> names (to the root when there
  are none); and there is no cycle.
\<close>

theorem engine_build_correct:
  assumes "orders_ok ho" and "petgraph_ok pet" and "finite_loader load" and "eb_workspaces b \<noteq> []"
  shows "\<exists>N. \<forall>fuel \<ge> N. \<exists>r. engine_build fuel pet ho b pg load = Some r \<and>
    (\<forall>e. r = Inr e \<longrightarrow> engine_for b pg load e \<and>
       sp_value ` set (eb_tasks b) \<subseteq>
         found_names load (List.product (eb_workspaces b) (requested_tasks b load)))"
  using build_total [OF assms(1-3)] build_result [OF assms(1,2,4)] by (metis (no_types, lifting))

definition sorted_orders :: hash_orders where
  "sorted_orders = \<lparr>ho_map = (\<lambda>xs. xs),
     ho_nodes = (\<lambda>S. (if RootNode \<in> S then [RootNode] else []) @
       (if WorkspaceNode RootPkg \<in> S then [WorkspaceNode RootPkg] else []) @
       map (\<lambda>s. WorkspaceNode (OtherPkg s)) (sorted_list_of_set {s. WorkspaceNode (OtherPkg s) \<in> S}))\<rparr>"

lemma sorted_orders_ok: "orders_ok sorted_orders"
proof -
  have "set (ho_nodes sorted_orders S) = S" if "finite S" for S
  proof -
    have "finite {s. WorkspaceNode (OtherPkg s) \<in> S}"
      using finite_vimageI [OF that, of "\<lambda>s. WorkspaceNode (OtherPkg s)"] by (simp add: inj_def vimage_def)
    then have "set (ho_nodes sorted_orders S) = {n \<in> S. n = RootNode} \<union> {n \<in> S. n = WorkspaceNode RootPkg} \<union>
        {n \<in> S. \<exists>s. n = WorkspaceNode (OtherPkg s)}"
      by (auto simp: sorted_orders_def)
    also have "\<dots> = S" by (auto, metis package_node.exhaust package_name.exhaust)
    finally show ?thesis .
  qed
  then show ?thesis by (simp add: orders_ok_def sorted_orders_def)
qed

lemma sample_petgraph_ok: "petgraph_ok sample_petgraph"
  by (simp add: petgraph_ok_def sample_petgraph_def list_neighbors_spec mutual_sccs_spec clear_retain_spec)

definition sample_root_json :: nrz_json where
  "sample_root_json = sample_workspace_json\<lparr>nj_extends := spanned_new [],
     nj_tasks := [(TaskName None ''build'', spanned_new (raw_default\<lparr>rt_depends_on :=
        Some (spanned_new [spanned_new ''^build''])\<rparr>))]\<rparr>"

definition sample_loader :: loader where
  "sample_loader p = (if p = RootPkg then Inr sample_root_json else Inl NoNrzJSON)"

definition sample_builder :: engine_builder where
  "sample_builder = (engine_builder_new False)\<lparr>eb_workspaces := [OtherPkg ''web''],
     eb_tasks := [spanned_new (TaskName None ''build'')]\<rparr>"

lemma sample_loader_finite: "finite_loader sample_loader"
proof -
  have "{p. \<exists>nj. sample_loader p = Inr nj} = {RootPkg}" by (auto simp: sample_loader_def)
  then show ?thesis by (simp add: finite_loader_def)
qed

theorem engine_build_correct_witness:
  "orders_ok sorted_orders \<and> petgraph_ok (sample_petgraph :: task_node petgraph) \<and>
   finite_loader sample_loader \<and> eb_workspaces sample_builder \<noteq> [] \<and>
   (\<exists>N. \<forall>fuel \<ge> N. \<exists>r.
      engine_build fuel sample_petgraph sorted_orders sample_builder sample_engine_packages sample_loader = Some r \<and>
      (\<forall>e. r = Inr e \<longrightarrow> engine_for sample_builder sample_engine_packages sample_loader e \<and>
        sp_value ` set (eb_tasks sample_builder) \<subseteq>
          found_names sample_loader (List.product (eb_workspaces sample_builder)
            (requested_tasks sample_builder sample_loader))))"
proof -
  have ws: "eb_workspaces sample_builder \<noteq> []" by (simp add: sample_builder_def)
  show ?thesis
    by (intro conjI sorted_orders_ok sample_petgraph_ok sample_loader_finite ws
        engine_build_correct [OF sorted_orders_ok sample_petgraph_ok sample_loader_finite ws])
qed

text \<open>
  the check on task names does not keep log files apart: the task names \<open>:colon$\<close> and
  \<open>$colon:\<close> both pass, and their logs go to the same file.
\<close>

theorem task_log_filename_collision:
  "validate_task_name (spanned_new '':colon$'') = Inr () \<and>
   validate_task_name (spanned_new ''$colon:'') = Inr () \<and>
   sharable_workspace_relative_log_file '':colon$'' = sharable_workspace_relative_log_file ''$colon:''"
  by code_simp

end
