(* ===== verification/Loader.thy ===== *)
theory Loader
  imports Engine_Builder
begin

text \<open>
  Where the builder gets its configuration: \<open>nrzrepo-lib/src/nrz_json/loader.rs\<close> and
  \<open>nrzrepo-lib/src/microfrontends.rs\<close>. Reading and parsing a file is a parameter from paths to raw
  files; a file that does not exist is an \<open>IoError\<close>. The maps and sets of the micro frontends are
  lists in the order they are iterated.
\<close>

subsection \<open>Micro frontends\<close>

record mfe_config =
  mc_development_tasks :: "(string \<times> string option) list"
  mc_port :: "string \<rightharpoonup> nat"
  mc_version :: string
  mc_path :: "string option"

record config_info =
  ci_tasks :: "task_id list"
  ci_ports :: "(task_id, nat) hash_map"
  ci_version :: string
  ci_path :: "string option"

record mfe_configs =
  mfe_map :: "(string, config_info) hash_map"
  mfe_package :: "string option"

datatype mfe_error = UnsupportedVersion string | ChildConfig string | OtherMfeError string

definition MICROFRONTENDS_PACKAGE :: string where
  "MICROFRONTENDS_PACKAGE = ''@vercel/microfrontends''"

definition unsupported_message :: "string \<Rightarrow> string" where
  "unsupported_message v =
     ''Unsupported microfrontends configuration version: '' @ v @ ''. Supported versions: ['' @ [CHR 34, CHR ''1'', CHR 34] @ '']''"

definition config_info_new :: "mfe_config \<Rightarrow> config_info" where
  "config_info_new c =
     (let entries = map (\<lambda>(app, dev). (app, task_id_new app (unwrap_or ''dev'' dev))) (mc_development_tasks c)
      in \<lparr>ci_tasks = remdups (map snd entries),
          ci_ports = foldl (\<lambda>m (app, t). case mc_port c app of Some p \<Rightarrow> hm_insert t p m | None \<Rightarrow> m) [] entries,
          ci_version = mc_version c, ci_path = None\<rparr>)"

record package_graph_result =
  pr_configs :: "(string, config_info) hash_map"
  pr_referenced :: "string list"
  pr_unsupported :: "(string \<times> string) list"
  pr_mfe_package :: "string option"

fun mfe_loop ::
  "(string \<times> (mfe_error, mfe_config option) result) list \<Rightarrow> package_graph_result \<Rightarrow>
   (mfe_error, package_graph_result) result"
where
  "mfe_loop [] r = Inr r"
| "mfe_loop ((package_name, config) # rest) r =
     (let r1 = (if package_name = MICROFRONTENDS_PACKAGE
                then r\<lparr>pr_mfe_package := Some MICROFRONTENDS_PACKAGE\<rparr> else r)
      in case config of
           Inl (UnsupportedVersion v) \<Rightarrow>
             mfe_loop rest (r1\<lparr>pr_unsupported := pr_unsupported r1 @ [(package_name, unsupported_message v)]\<rparr>)
         | Inl (ChildConfig reference) \<Rightarrow>
             mfe_loop rest (r1\<lparr>pr_referenced := pr_referenced r1 @ [reference]\<rparr>)
         | Inl err \<Rightarrow> Inl err
         | Inr None \<Rightarrow> mfe_loop rest r1
         | Inr (Some c) \<Rightarrow>
             mfe_loop rest (r1\<lparr>pr_configs :=
               hm_insert package_name ((config_info_new c)\<lparr>ci_path := mc_path c\<rparr>) (pr_configs r1)\<rparr>))"

definition missing_default_apps :: "package_graph_result \<Rightarrow> string list" where
  "missing_default_apps r =
     sort (remdups (filter (\<lambda>a. map_of (pr_configs r) a = None) (pr_referenced r)))"

definition mfe_from_configs ::
  "(string \<times> (mfe_error, mfe_config option) result) list \<Rightarrow> (mfe_error, mfe_configs option) result"
where
  "mfe_from_configs configs =
     try_bind (mfe_loop (sort_key fst configs)
         \<lparr>pr_configs = [], pr_referenced = [], pr_unsupported = [], pr_mfe_package = None\<rparr>)
       (\<lambda>r. Inr (if pr_configs r = [] then None
                 else Some \<lparr>mfe_map = pr_configs r, mfe_package = pr_mfe_package r\<rparr>))"

definition task_has_mfe_proxy :: "mfe_configs \<Rightarrow> task_id \<Rightarrow> bool" where
  "task_has_mfe_proxy mfe t = (\<exists>(_, info) \<in> set (mfe_map mfe). t \<in> set (ci_tasks info))"

definition dev_task_port :: "mfe_configs \<Rightarrow> task_id \<Rightarrow> nat option" where
  "dev_task_port mfe t =
     (case List.map_filter (\<lambda>(_, info). map_of (ci_ports info) t) (mfe_map mfe) of
        p # _ \<Rightarrow> Some p | [] \<Rightarrow> None)"

record find_result =
  fr_dev :: "task_id option"
  fr_proxy :: task_id
  fr_version :: string

text \<open>A stable sort by decreasing version, of which only the first element is used.\<close>

fun newest :: "find_result list \<Rightarrow> find_result option" where
  "newest [] = None"
| "newest (r # rs) =
     (case newest rs of
        None \<Rightarrow> Some r
      | Some s \<Rightarrow> Some (if fr_version s \<le> fr_version r then r else s))"

definition package_nrz_json_update :: "mfe_configs \<Rightarrow> package_name \<Rightarrow> find_result option" where
  "package_nrz_json_update mfe p =
     newest (List.map_filter
       (\<lambda>(config, info).
          case find (\<lambda>t. tid_package t = package_name_as_str p) (ci_tasks info) of
            Some t \<Rightarrow> Some \<lparr>fr_dev = Some t, fr_proxy = task_id_new config ''proxy'', fr_version = ci_version info\<rparr>
          | None \<Rightarrow>
              if config = package_name_as_str p
              then Some \<lparr>fr_dev = None, fr_proxy = task_id_new config ''proxy'', fr_version = ci_version info\<rparr>
              else None)
       (mfe_map mfe))"

definition configuration_file_paths :: "mfe_configs \<Rightarrow> string list" where
  "configuration_file_paths mfe = List.map_filter (\<lambda>(_, info). ci_path info) (mfe_map mfe)"

definition nrz_json_default :: nrz_json where
  "nrz_json_default = \<lparr>nj_text = None, nj_path = None, nj_extends = spanned_new [],
     nj_global_deps = [], nj_global_env = [], nj_global_pass_through_env = None, nj_tasks = []\<rparr>"

definition update_nrz_json ::
  "mfe_configs \<Rightarrow> package_name \<Rightarrow> (config_error, nrz_json) result \<Rightarrow> (config_error, nrz_json) result"
where
  "update_nrz_json mfe p nj =
     (let nj1 = (case nj of
            Inr j \<Rightarrow> Inr (if p = RootPkg
                          then j\<lparr>nj_global_deps := nj_global_deps j @ configuration_file_paths mfe\<rparr> else j)
          | Inl err \<Rightarrow> Inl err)
      in case package_nrz_json_update mfe p of
           None \<Rightarrow> nj1
         | Some r \<Rightarrow>
             try_bind (case nj1 of Inl NoNrzJSON \<Rightarrow> Inr nrz_json_default | _ \<Rightarrow> nj1) (\<lambda>j.
               let j1 = (if tid_package (fr_proxy r) = package_name_as_str p
                         then with_proxy j (mfe_package mfe) else j)
               in Inr (case fr_dev r of
                         Some dev \<Rightarrow> with_sibling j1 (task_name_from (tid_task dev)) (as_task_name (fr_proxy r))
                       | None \<Rightarrow> j1)))"

subsection \<open>Synthesized configuration\<close>

type_synonym read_raw = "string \<Rightarrow> (config_error, raw_nrz_json) result"

definition nrz_json_read :: "read_raw \<Rightarrow> string \<Rightarrow> (config_error, nrz_json) result" where
  "nrz_json_read read path = try_bind (read path) nrz_json_try_from"

definition load_from_file :: "read_raw \<Rightarrow> string \<Rightarrow> (config_error, nrz_json) result" where
  "load_from_file read path =
     (case nrz_json_read read path of
        Inl (IoError _) \<Rightarrow> Inl NoNrzJSON
      | r \<Rightarrow> r)"

fun root_pipeline :: "pipeline \<Rightarrow> pipeline \<Rightarrow> (config_error, pipeline) result" where
  "root_pipeline [] acc = Inr acc"
| "root_pipeline ((n, d) # rest) acc =
     (if is_package_task n
      then Inl (PackageTaskInSinglePackageMode (task_name_display n) (span_and_text d ''nrz.json''))
      else root_pipeline rest (bt_insert (into_root_task n) d acc))"

definition uncached_task :: "raw_task_definition spanned" where
  "uncached_task = spanned_new (raw_default\<lparr>rt_cache := Some (spanned_new False)\<rparr>)"

definition add_script :: "nrz_json \<Rightarrow> string \<Rightarrow> nrz_json" where
  "add_script nj script =
     (let n = task_name_from script
      in if has_task nj n then nj
         else nj\<lparr>nj_tasks := bt_insert (into_root_task n) uncached_task (nj_tasks nj)\<rparr>)"

definition load_from_root_package_json ::
  "read_raw \<Rightarrow> string \<Rightarrow> package_json \<Rightarrow> (config_error, nrz_json) result"
where
  "load_from_root_package_json read path pj =
     try_bind
       (case nrz_json_read read path of
          Inr nj \<Rightarrow> try_bind (root_pipeline (nj_tasks nj) []) (\<lambda>tasks. Inr (nj\<lparr>nj_tasks := tasks\<rparr>))
        | Inl (IoError _) \<Rightarrow> Inr nrz_json_default
        | Inl err \<Rightarrow> Inl err)
       (\<lambda>nj. Inr (foldl add_script nj (map fst (pj_scripts pj))))"

definition loose_task :: "raw_task_definition spanned" where
  "loose_task = spanned_new (raw_default\<lparr>rt_cache := Some (spanned_new False), rt_env_mode := Some Loose\<rparr>)"

definition root_nrz_json_from_scripts :: "string list \<Rightarrow> (config_error, nrz_json) result" where
  "root_nrz_json_from_scripts scripts =
     Inr (foldl (\<lambda>nj script. nj\<lparr>nj_tasks :=
            bt_insert (into_root_task (task_name_from script)) loose_task (nj_tasks nj)\<rparr>)
          nrz_json_default scripts)"

definition workspace_nrz_json_from_scripts :: "string list \<Rightarrow> (config_error, nrz_json) result" where
  "workspace_nrz_json_from_scripts scripts =
     Inr (foldl (\<lambda>nj script. nj\<lparr>nj_tasks := bt_insert (task_name_from script) loose_task (nj_tasks nj)\<rparr>)
          (nrz_json_default\<lparr>nj_extends := spanned_new [''//'']\<rparr>) scripts)"

definition TASK_ACCESS_CONFIG_PATH :: string where
  "TASK_ACCESS_CONFIG_PATH = ''.nrz/traced-config.json''"

text \<open>\<open>exists\<close> is the parameter that tells which files are there.\<close>

definition load_task_access_trace_nrz_json ::
  "read_raw \<Rightarrow> (string \<Rightarrow> bool) \<Rightarrow> string \<Rightarrow> string \<Rightarrow> package_json \<Rightarrow> (config_error, nrz_json) result"
where
  "load_task_access_trace_nrz_json read exists repo_root path pj =
     (case nrz_json_read read (repo_root @ ''/'' @ TASK_ACCESS_CONFIG_PATH) of
        Inr nj \<Rightarrow> if \<not> exists path then Inr nj else load_from_root_package_json read path pj
      | Inl _ \<Rightarrow> load_from_root_package_json read path pj)"

subsection \<open>The loader\<close>

datatype strategy =
    SinglePackage string package_json
  | Workspace "(package_name, string) hash_map" "mfe_configs option"
  | WorkspaceNoNrzJson "(package_name, string list) hash_map" "mfe_configs option"
  | TaskAccess string package_json
  | Noop

record nrz_json_loader =
  ld_repo_root :: string
  ld_cache :: "(package_name, nrz_json) hash_map"
  ld_strategy :: strategy

definition package_nrz_jsons ::
  "string \<Rightarrow> string \<Rightarrow> (package_name \<times> string) list \<Rightarrow> (package_name, string) hash_map"
where
  "package_nrz_jsons repo_root root_path packages =
     foldl (\<lambda>m (p, dir). if p = RootPkg then m else hm_insert p (repo_root @ ''/'' @ dir @ ''/'' @ ''nrz.json'') m)
       [(RootPkg, root_path)] packages"

definition workspace_package_scripts ::
  "(package_name \<times> package_info) list \<Rightarrow> (package_name, string list) hash_map"
where
  "workspace_package_scripts packages =
     foldl (\<lambda>m (p, info). hm_insert p (map fst (pj_scripts (pi_package_json info))) m) [] packages"

definition loader_workspace ::
  "string \<Rightarrow> string \<Rightarrow> (package_name \<times> string) list \<Rightarrow> mfe_configs option \<Rightarrow> nrz_json_loader"
where
  "loader_workspace repo_root root_path packages mfe =
     \<lparr>ld_repo_root = repo_root, ld_cache = [],
      ld_strategy = Workspace (package_nrz_jsons repo_root root_path packages) mfe\<rparr>"

definition loader_workspace_no_nrz_json ::
  "string \<Rightarrow> (package_name \<times> package_info) list \<Rightarrow> mfe_configs option \<Rightarrow> nrz_json_loader"
where
  "loader_workspace_no_nrz_json repo_root packages mfe =
     \<lparr>ld_repo_root = repo_root, ld_cache = [],
      ld_strategy = WorkspaceNoNrzJson (workspace_package_scripts packages) mfe\<rparr>"

definition loader_single_package :: "string \<Rightarrow> string \<Rightarrow> package_json \<Rightarrow> nrz_json_loader" where
  "loader_single_package repo_root root_path pj =
     \<lparr>ld_repo_root = repo_root, ld_cache = [], ld_strategy = SinglePackage root_path pj\<rparr>"

definition loader_task_access :: "string \<Rightarrow> string \<Rightarrow> package_json \<Rightarrow> nrz_json_loader" where
  "loader_task_access repo_root root_path pj =
     \<lparr>ld_repo_root = repo_root, ld_cache = [], ld_strategy = TaskAccess root_path pj\<rparr>"

definition loader_noop :: "(package_name, nrz_json) hash_map \<Rightarrow> nrz_json_loader" where
  "loader_noop jsons = \<lparr>ld_repo_root = ''/'', ld_cache = jsons, ld_strategy = Noop\<rparr>"

definition uncached_load ::
  "read_raw \<Rightarrow> (string \<Rightarrow> bool) \<Rightarrow> nrz_json_loader \<Rightarrow> package_name \<Rightarrow> (config_error, nrz_json) result"
where
  "uncached_load read exists l p =
     (case ld_strategy l of
        SinglePackage root_path pj \<Rightarrow>
          if p \<noteq> RootPkg then Inl (InvalidNrzJsonLoad p) else load_from_root_package_json read root_path pj
      | Workspace packages mfe \<Rightarrow>
          (case hm_get packages p of
             None \<Rightarrow> Inl NoNrzJSON
           | Some path \<Rightarrow>
               (case mfe of
                  Some m \<Rightarrow> update_nrz_json m p (load_from_file read path)
                | None \<Rightarrow> load_from_file read path))
      | WorkspaceNoNrzJson packages mfe \<Rightarrow>
          (case hm_get packages p of
             None \<Rightarrow> Inl NoNrzJSON
           | Some scripts \<Rightarrow>
               if p = RootPkg then root_nrz_json_from_scripts scripts
               else (case mfe of
                       Some m \<Rightarrow> update_nrz_json m p (workspace_nrz_json_from_scripts scripts)
                     | None \<Rightarrow> workspace_nrz_json_from_scripts scripts))
      | TaskAccess root_path pj \<Rightarrow>
          if p \<noteq> RootPkg then Inl (InvalidNrzJsonLoad p)
          else load_task_access_trace_nrz_json read exists (ld_repo_root l) root_path pj
      | Noop \<Rightarrow> Inl NoNrzJSON)"

definition loader_load ::
  "read_raw \<Rightarrow> (string \<Rightarrow> bool) \<Rightarrow> nrz_json_loader \<Rightarrow> package_name \<Rightarrow>
   (config_error, nrz_json) result \<times> nrz_json_loader"
where
  "loader_load read exists l p =
     (case hm_get (ld_cache l) p of
        Some nj \<Rightarrow> (Inr nj, l)
      | None \<Rightarrow>
          (case uncached_load read exists l p of
             Inl err \<Rightarrow> (Inl err, l)
           | Inr nj \<Rightarrow> (Inr nj, l\<lparr>ld_cache := hm_insert p nj (ld_cache l)\<rparr>)))"

fun load_all ::
  "read_raw \<Rightarrow> (string \<Rightarrow> bool) \<Rightarrow> nrz_json_loader \<Rightarrow> package_name list \<Rightarrow>
   (config_error, nrz_json) result list \<times> nrz_json_loader"
where
  "load_all read exists l [] = ([], l)"
| "load_all read exists l (p # ps) =
     (let (r, l1) = loader_load read exists l p; (rs, l2) = load_all read exists l1 ps in (r # rs, l2))"

text \<open>What a loader answers, without its cache being filled.\<close>

definition loader_answer :: "read_raw \<Rightarrow> (string \<Rightarrow> bool) \<Rightarrow> nrz_json_loader \<Rightarrow> loader" where
  "loader_answer read exists l p =
     (case hm_get (ld_cache l) p of Some nj \<Rightarrow> Inr nj | None \<Rightarrow> uncached_load read exists l p)"

lemma uncached_load_cache:
  "uncached_load read exists (l\<lparr>ld_cache := c\<rparr>) p = uncached_load read exists l p"
  by (cases "ld_strategy l") (simp_all add: uncached_load_def)

lemma loader_load_answer:
  "fst (loader_load read exists l p) = loader_answer read exists l p"
  "loader_answer read exists (snd (loader_load read exists l p)) = loader_answer read exists l"
proof -
  show "fst (loader_load read exists l p) = loader_answer read exists l p"
    by (simp add: loader_load_def loader_answer_def split: option.splits sum.splits)
  show "loader_answer read exists (snd (loader_load read exists l p)) = loader_answer read exists l"
  proof
    fix q show "loader_answer read exists (snd (loader_load read exists l p)) q = loader_answer read exists l q"
      by (cases "q = p")
        (auto simp: loader_load_def loader_answer_def uncached_load_cache hm_get_insert
          split: option.splits sum.splits)
  qed
qed

lemma finite_loader_subset:
  assumes "\<And>p. p \<notin> S \<Longrightarrow> \<exists>err. load p = Inl err" and "finite S"
  shows "finite_loader load"
proof -
  have "{p. \<exists>nj. load p = Inr nj} \<subseteq> S" using assms(1) by fastforce
  with assms(2) show ?thesis unfolding finite_loader_def using finite_subset by blast
qed

definition known_packages :: "nrz_json_loader \<Rightarrow> package_name set" where
  "known_packages l = insert RootPkg (fst ` set (ld_cache l)) \<union>
     (case ld_strategy l of
        Workspace ps _ \<Rightarrow> fst ` set ps | WorkspaceNoNrzJson ps _ \<Rightarrow> fst ` set ps | _ \<Rightarrow> {})"

lemma hm_get_None_iff: "hm_get m k = None \<longleftrightarrow> k \<notin> fst ` set m"
  by (rule map_of_eq_None_iff)

lemma loader_answer_finite: "finite_loader (loader_answer read exists l)"
proof (rule finite_loader_subset [of "known_packages l"])
  show "finite (known_packages l)" by (simp add: known_packages_def split: strategy.splits)
  fix p assume "p \<notin> known_packages l"
  then show "\<exists>err. loader_answer read exists l p = Inl err"
    by (cases "ld_strategy l")
      (auto simp: known_packages_def loader_answer_def uncached_load_def hm_get_None_iff [THEN iffD2])
qed

text \<open>
  Caching does not show: whatever packages are loaded and in whatever order, each answer is
  the one a loader with an untouched cache gives, and only finitely many packages have a file.
\<close>

lemma loader_cache_transparent:
  "fst (load_all read exists l ps) = map (loader_answer read exists l) ps \<and>
   loader_answer read exists (snd (load_all read exists l ps)) = loader_answer read exists l \<and>
   finite_loader (loader_answer read exists l)"
proof -
  have "fst (load_all read exists l ps) = map (loader_answer read exists l) ps \<and>
      loader_answer read exists (snd (load_all read exists l ps)) = loader_answer read exists l"
  proof (induction ps arbitrary: l)
    case (Cons p ps)
    then show ?case
      using loader_load_answer [of read exists l p] by (simp add: split_beta)
  qed simp
  with loader_answer_finite show ?thesis by blast
qed


subsection \<open>A repository with a single package\<close>

definition root_tasks_only :: "pipeline \<Rightarrow> bool" where
  "root_tasks_only tasks \<longleftrightarrow> (\<forall>n \<in> fst ` set tasks. tn_package n = Some ROOT_PKG_NAME)"

lemma into_root_task_simps [simp]:
  "tn_package (into_root_task n) = Some ROOT_PKG_NAME" "tn_task (into_root_task n) = tn_task n"
  by (simp_all add: into_root_task_def)

lemma root_tasks_only_insert [simp]:
  "root_tasks_only (bt_insert (into_root_task n) d m) \<longleftrightarrow> root_tasks_only m"
  unfolding root_tasks_only_def fst_bt_insert by auto

lemma root_pipeline_Inr:
  "root_pipeline tasks acc = Inr tasks' \<Longrightarrow> bt_ok acc \<Longrightarrow> distinct (map fst tasks) \<Longrightarrow> root_tasks_only acc \<Longrightarrow>
     bt_ok tasks' \<and> root_tasks_only tasks' \<and>
     (\<forall>n. tn_package n = None \<longrightarrow> map_of tasks' (into_root_task n) =
        (case map_of tasks n of Some d \<Rightarrow> Some d | None \<Rightarrow> map_of acc (into_root_task n)))"
proof (induction tasks acc rule: root_pipeline.induct)
  case (2 n d rest acc)
  let ?acc = "bt_insert (into_root_task n) d acc"
  from "2.prems" have pkg: "tn_package n = None" and rest: "root_pipeline rest ?acc = Inr tasks'"
    by (auto simp: is_package_task_def split: if_splits)
  have acc: "bt_ok ?acc" "root_tasks_only ?acc"
    using "2.prems" bt_ok_insert by auto
  have IH: "bt_ok tasks' \<and> root_tasks_only tasks' \<and>
     (\<forall>m. tn_package m = None \<longrightarrow> map_of tasks' (into_root_task m) =
        (case map_of rest m of Some d \<Rightarrow> Some d | None \<Rightarrow> map_of ?acc (into_root_task m)))"
    using "2.IH" pkg rest acc "2.prems"(3) by (simp add: is_package_task_def)
  have eq: "into_root_task m = into_root_task n \<longleftrightarrow> m = n" if "tn_package m = None" for m
    using that pkg by (auto simp: into_root_task_def intro: task_name.expand)
  have "map_of rest n = None" using "2.prems"(3) by (simp add: map_of_eq_None_iff)
  with IH "2.prems"(2) show ?case by (auto simp: eq split: option.splits)
qed simp

lemma has_task_root:
  assumes "root_tasks_only (nj_tasks nj)" and "tn_package n = None"
  shows "has_task nj n \<longleftrightarrow> map_of (nj_tasks nj) (into_root_task n) \<noteq> None"
proof -
  have key: "tn_task k = tn_task n \<longleftrightarrow> k = into_root_task n" if "k \<in> fst ` set (nj_tasks nj)" for k
  proof -
    have "tn_package k = Some ROOT_PKG_NAME" using assms(1) that unfolding root_tasks_only_def by blast
    then show ?thesis by (cases k) (auto simp: into_root_task_def)
  qed
  have "n \<notin> fst ` set (nj_tasks nj)" using assms by (auto simp: root_tasks_only_def)
  then have "has_task nj n \<longleftrightarrow> (\<exists>k \<in> fst ` set (nj_tasks nj). k = into_root_task n)"
    using key assms(2) unfolding has_task_def set_map is_package_task_def by blast
  then show ?thesis by (auto simp: map_of_eq_None_iff)
qed

lemma add_scripts:
  assumes "root_tasks_only (nj_tasks nj)" and "bt_ok (nj_tasks nj)"
    and "\<forall>s \<in> set scripts. TASK_DELIMITER \<notin> set s"
  shows "root_tasks_only (nj_tasks (foldl add_script nj scripts)) \<and>
    (\<forall>n. tn_package n = None \<longrightarrow> map_of (nj_tasks (foldl add_script nj scripts)) (into_root_task n) =
       (case map_of (nj_tasks nj) (into_root_task n) of
          Some d \<Rightarrow> Some d
        | None \<Rightarrow> if tn_task n \<in> set scripts then Some uncached_task else None))"
  using assms
proof (induction scripts arbitrary: nj)
  case Nil
  then show ?case by (auto split: option.splits)
next
  case (Cons s scripts)
  have s: "task_name_from s = TaskName None s"
    using Cons.prems(3) by (simp add: task_name_from_def split_once_None split: option.splits)
  define nj' where "nj' = add_script nj s"
  have has: "has_task nj (TaskName None s) \<longleftrightarrow> map_of (nj_tasks nj) (into_root_task (TaskName None s)) \<noteq> None"
    using has_task_root Cons.prems(1) by simp
  have ok: "root_tasks_only (nj_tasks nj')" "bt_ok (nj_tasks nj')"
    using Cons.prems(1,2) bt_ok_insert by (auto simp: nj'_def add_script_def Let_def)
  have step: "map_of (nj_tasks nj') (into_root_task n) =
      (case map_of (nj_tasks nj) (into_root_task n) of
         Some d \<Rightarrow> Some d | None \<Rightarrow> if tn_task n = s then Some uncached_task else None)"
    if "tn_package n = None" for n
  proof -
    have "into_root_task n = into_root_task (TaskName None s) \<longleftrightarrow> tn_task n = s"
      by (auto simp: into_root_task_def)
    then show ?thesis
      using has Cons.prems(2) by (auto simp: nj'_def add_script_def Let_def s split: option.splits)
  qed
  from Cons.IH [OF ok] Cons.prems(3) show ?case
    unfolding foldl.simps nj'_def [symmetric] by (auto simp: step split: option.splits)
qed

text \<open>
  What a configuration file \<open>f\<close> of a single package stands for: its tasks as tasks of the root with their
  own definitions, and an uncached one for every script it does not name; nothing else changes.
\<close>

definition single_package_result :: "nrz_json \<Rightarrow> package_json \<Rightarrow> nrz_json \<Rightarrow> bool" where
  "single_package_result f pj nj \<longleftrightarrow>
     nj = f\<lparr>nj_tasks := nj_tasks nj\<rparr> \<and> root_tasks_only (nj_tasks nj) \<and>
     (\<forall>n. tn_package n = None \<longrightarrow> map_of (nj_tasks nj) (into_root_task n) =
        (case map_of (nj_tasks f) n of
           Some d \<Rightarrow> Some d
         | None \<Rightarrow> if tn_task n \<in> set (map fst (pj_scripts pj)) then Some uncached_task else None))"

lemma add_scripts_keep: "foldl add_script nj scripts = nj\<lparr>nj_tasks := nj_tasks (foldl add_script nj scripts)\<rparr>"
proof (induction scripts arbitrary: nj)
  case (Cons s scripts)
  have "add_script nj s = nj\<lparr>nj_tasks := nj_tasks (add_script nj s)\<rparr>"
    by (simp add: add_script_def Let_def)
  with Cons [of "add_script nj s"] show ?case
    by (metis (no_types, lifting) foldl.simps(2) nrz_json.fold_congs(7) nrz_json.update_convs(7) nrz_json.surjective)
qed simp

lemma add_scripts_result:
  assumes tasks: "root_pipeline (nj_tasks f) [] = Inr tasks" and sorted: "bt_ok (nj_tasks f)"
    and names: "\<forall>s \<in> set (map fst (pj_scripts pj)). TASK_DELIMITER \<notin> set s"
  shows "single_package_result f pj (foldl add_script (f\<lparr>nj_tasks := tasks\<rparr>) (map fst (pj_scripts pj)))"
proof -
  have acc: "bt_ok ([] :: pipeline)" "root_tasks_only []" by (simp_all add: bt_ok_def root_tasks_only_def)
  note rp = root_pipeline_Inr [OF tasks acc(1) bt_ok_distinct [OF sorted] acc(2)]
  have "root_tasks_only (nj_tasks (f\<lparr>nj_tasks := tasks\<rparr>))" "bt_ok (nj_tasks (f\<lparr>nj_tasks := tasks\<rparr>))"
    using rp by simp_all
  from add_scripts [OF this names] rp add_scripts_keep [of "f\<lparr>nj_tasks := tasks\<rparr>" "map fst (pj_scripts pj)"]
  show ?thesis
    unfolding single_package_result_def by (auto split: option.splits)
qed

lemma root_pipeline_find:
  "case List.find (\<lambda>(n, _). is_package_task n) tasks of
     Some (n, d) \<Rightarrow> root_pipeline tasks acc = Inl (PackageTaskInSinglePackageMode (task_name_display n) (span_and_text d ''nrz.json''))
   | None \<Rightarrow> \<exists>tasks'. root_pipeline tasks acc = Inr tasks'"
  by (induction tasks acc rule: root_pipeline.induct) (auto split: option.splits)

text \<open>
  C8: in a repository with a single package only the root has a configuration. It is that of the file \<open>nrz.json\<close>
  with its tasks as root tasks, or the default one when the file can not be read, and an uncached task for
  every further script of the package; the first task that names a package is an error, and any other error
  of reading the file is passed on. Once the configuration is loaded, later loads answer it again, whatever
  happened to the file.
\<close>

theorem single_package_load:
  fixes read exists root path pj
  assumes sorted: "\<forall>f. nrz_json_read read path = Inr f \<longrightarrow> bt_ok (nj_tasks f)"
    and names: "\<forall>s \<in> set (map fst (pj_scripts pj)). TASK_DELIMITER \<notin> set s"
  defines "l \<equiv> loader_single_package root path pj"
  defines "answer \<equiv> fst (loader_load read exists l RootPkg)"
  shows "(case nrz_json_read read path of
      Inl e \<Rightarrow> if \<exists>x. e = IoError x then \<exists>nj. answer = Inr nj \<and> single_package_result nrz_json_default pj nj else answer = Inl e
    | Inr f \<Rightarrow>
        (case List.find (\<lambda>(n, _). is_package_task n) (nj_tasks f) of
           Some (n, d) \<Rightarrow> answer = Inl (PackageTaskInSinglePackageMode (task_name_display n) (span_and_text d ''nrz.json''))
         | None \<Rightarrow> \<exists>nj. answer = Inr nj \<and> single_package_result f pj nj)) \<and>
    (\<forall>p. p \<noteq> RootPkg \<longrightarrow> loader_load read exists l p = (Inl (InvalidNrzJsonLoad p), l)) \<and>
    (\<forall>nj read' exists'. answer = Inr nj \<longrightarrow>
       loader_load read' exists' (snd (loader_load read exists l RootPkg)) RootPkg = (Inr nj, snd (loader_load read exists l RootPkg)))"
proof (intro conjI)
  have load: "answer = load_from_root_package_json read path pj"
    by (simp add: answer_def l_def loader_load_def loader_single_package_def uncached_load_def split: sum.split)
  have default: "root_pipeline (nj_tasks nrz_json_default) [] = Inr []" "nrz_json_default\<lparr>nj_tasks := []\<rparr> = nrz_json_default"
    "bt_ok (nj_tasks nrz_json_default)"
    by (simp_all add: nrz_json_default_def bt_ok_def)
  show "case nrz_json_read read path of
      Inl e \<Rightarrow> if \<exists>x. e = IoError x then \<exists>nj. answer = Inr nj \<and> single_package_result nrz_json_default pj nj else answer = Inl e
    | Inr f \<Rightarrow>
        (case List.find (\<lambda>(n, _). is_package_task n) (nj_tasks f) of
           Some (n, d) \<Rightarrow> answer = Inl (PackageTaskInSinglePackageMode (task_name_display n) (span_and_text d ''nrz.json''))
         | None \<Rightarrow> \<exists>nj. answer = Inr nj \<and> single_package_result f pj nj)"
  proof (cases "nrz_json_read read path")
    case (Inl e)
    then show ?thesis
      using add_scripts_result [OF default(1,3) names] default(2)
      by (cases e) (auto simp: load load_from_root_package_json_def)
  next
    case (Inr f)
    then have "bt_ok (nj_tasks f)" using sorted by blast
    then show ?thesis
      using Inr add_scripts_result [OF _ _ names, of f] root_pipeline_find [of "nj_tasks f" "[]"]
      by (auto simp: load load_from_root_package_json_def split: option.splits)
  qed
qed (auto simp: answer_def l_def loader_load_def loader_single_package_def uncached_load_def split: sum.splits)

definition sample_read :: read_raw where
  "sample_read path =
     (if path = ''nrz.json''
      then Inr (sample_raw_nrz_json\<lparr>rn_tasks := Some [(TaskName None ''build'', spanned_new raw_default)]\<rparr>)
      else Inl (IoError path))"

definition sample_package_json :: package_json where
  "sample_package_json =
     package_json_default\<lparr>pj_scripts := [(''build'', spanned_new ''tsc''), (''lint'', spanned_new ''eslint'')]\<rparr>"

theorem single_package_load_witness:
  "\<exists>nj. fst (loader_load sample_read (\<lambda>_. True) (loader_single_package ''/r'' ''nrz.json'' sample_package_json) RootPkg) = Inr nj \<and>
     map_of (nj_tasks nj) (into_root_task (TaskName None ''lint'')) = Some uncached_task \<and>
     map_of (nj_tasks nj) (into_root_task (TaskName None ''build'')) = Some (spanned_new raw_default)"
proof -
  obtain f where f: "nrz_json_read sample_read ''nrz.json'' = Inr f"
    and tasks: "nj_tasks f = [(TaskName None ''build'', spanned_new raw_default)]"
    by (auto simp: nrz_json_read_def sample_read_def nrz_json_try_from_def sample_raw_nrz_json_def
        gather_sorted_def unwrap_or_def)
  have "\<forall>f. nrz_json_read sample_read ''nrz.json'' = Inr f \<longrightarrow> bt_ok (nj_tasks f)"
    by (simp add: f tasks bt_ok_def)
  moreover have "\<forall>s \<in> set (map fst (pj_scripts sample_package_json)). TASK_DELIMITER \<notin> set s"
    by (simp add: sample_package_json_def)
  ultimately show ?thesis
    using single_package_load [of sample_read "''nrz.json''" sample_package_json "\<lambda>_. True" "''/r''"] f
    by (auto simp: tasks sample_package_json_def single_package_result_def is_package_task_def)
qed

end
