(* ===== verification/Walker.thy ===== *)
theory Walker
  imports Prelude
begin

text \<open>
  The crate \<open>nrzrepo-graph-utils\<close>, file \<open>src/walker.rs\<close>: the concurrent walk of a dependency
  graph. \<open>Walker::new\<close> spawns one task per node; here every such task is a status, and the
  interleaving of the tasks with the consumer of the node channel is a labelled step relation.

  A task waits until the broadcast channels of all its dependencies have a value or are closed,
  puts its node on the node channel, waits for the callback and then broadcasts its own finish.
  A channel is closed when the task of its sender has ended without sending. The node channel
  holds as many entries as there are nodes, so a send on it never waits.
\<close>

datatype status =
    Waiting   \<comment> \<open>inside \<open>select!\<close>, waiting for a cancel or for the dependencies\<close>
  | Emitted   \<comment> \<open>the node was sent, the callback is pending\<close>
  | Called    \<comment> \<open>the callback was sent or dropped, the finish is not yet broadcast\<close>
  | Finished  \<comment> \<open>the finish was broadcast and the task ended\<close>
  | Stopped   \<comment> \<open>the task returned without broadcasting a finish\<close>

record 'n walker =
  w_status :: "'n \<Rightarrow> status"
  w_cancel :: bool
  w_queue :: "'n list"   \<comment> \<open>sent on the node channel, not yet received\<close>
  w_held :: "'n list"    \<comment> \<open>received by the consumer, callback not yet used\<close>
  w_open :: bool          \<comment> \<open>the receiver of the node channel is alive\<close>

datatype 'n walk_event =
    Emit 'n | SendFailed 'n | DepClosed 'n | CancelSeen 'n
  | Recv 'n | Done 'n | Finish 'n | Cancel | CloseReceiver

definition walker_new :: "'n walker" where
  "walker_new =
     \<lparr>w_status = (\<lambda>_. Waiting), w_cancel = False, w_queue = [], w_held = [], w_open = True\<rparr>"

abbreviation set_status :: "'n walker \<Rightarrow> 'n \<Rightarrow> status \<Rightarrow> 'n walker" where
  "set_status s n st \<equiv> s\<lparr>w_status := (w_status s)(n := st)\<rparr>"

definition deps_finished :: "('n \<Rightarrow> 'n list) \<Rightarrow> 'n walker \<Rightarrow> 'n \<Rightarrow> bool" where
  "deps_finished deps s n \<longleftrightarrow> (\<forall>d \<in> set (deps n). w_status s d = Finished)"

text \<open>All dependency channels answered and at least one of them with \<open>Closed\<close>.\<close>

definition deps_closed :: "('n \<Rightarrow> 'n list) \<Rightarrow> 'n walker \<Rightarrow> 'n \<Rightarrow> bool" where
  "deps_closed deps s n \<longleftrightarrow>
     (\<forall>d \<in> set (deps n). w_status s d \<in> {Finished, Stopped}) \<and>
     (\<exists>d \<in> set (deps n). w_status s d = Stopped)"

text \<open>
  The steps. \<open>select!\<close> is biased: with the cancel signal set, a waiting task only sees the
  cancel. A task that finds its dependencies finished and no cancel signal sends its node in the same
  step: a cancel that arrives between the two is taken to arrive after the send. \<open>Done\<close> is the consumer
  using or dropping the callback it got with the node.
\<close>

inductive walk_step ::
  "'n list \<Rightarrow> ('n \<Rightarrow> 'n list) \<Rightarrow> 'n walker \<Rightarrow> 'n walk_event \<Rightarrow> 'n walker \<Rightarrow> bool"
  for ns deps
where
  emit: "\<lbrakk>n \<in> set ns; w_status s n = Waiting; \<not> w_cancel s; deps_finished deps s n; w_open s\<rbrakk> \<Longrightarrow>
    walk_step ns deps s (Emit n)
      (s\<lparr>w_status := (w_status s)(n := Emitted), w_queue := w_queue s @ [n]\<rparr>)"
| send_failed:
    "\<lbrakk>n \<in> set ns; w_status s n = Waiting; \<not> w_cancel s; deps_finished deps s n; \<not> w_open s\<rbrakk> \<Longrightarrow>
    walk_step ns deps s (SendFailed n) (set_status s n Stopped)"
| dep_closed: "\<lbrakk>n \<in> set ns; w_status s n = Waiting; \<not> w_cancel s; deps_closed deps s n\<rbrakk> \<Longrightarrow>
    walk_step ns deps s (DepClosed n) (set_status s n Stopped)"
| cancel_seen: "\<lbrakk>n \<in> set ns; w_status s n = Waiting; w_cancel s\<rbrakk> \<Longrightarrow>
    walk_step ns deps s (CancelSeen n) (set_status s n Stopped)"
| recv: "w_queue s = n # q \<Longrightarrow>
    walk_step ns deps s (Recv n) (s\<lparr>w_queue := q, w_held := n # w_held s\<rparr>)"
| done_: "n \<in> set (w_held s) \<Longrightarrow>
    walk_step ns deps s (Done n)
      (s\<lparr>w_held := remove1 n (w_held s), w_status := (w_status s)(n := Called)\<rparr>)"
| finish: "w_status s n = Called \<Longrightarrow> walk_step ns deps s (Finish n) (set_status s n Finished)"
| cancel: "walk_step ns deps s Cancel (s\<lparr>w_cancel := True\<rparr>)"
| close: "w_open s \<Longrightarrow>
    walk_step ns deps s CloseReceiver
      (s\<lparr>w_open := False, w_queue := [],
         w_status := (\<lambda>n. if n \<in> set (w_queue s) then Called else w_status s n)\<rparr>)"

inductive_cases walk_step_emitE: "walk_step ns deps s (Emit n) t"
inductive_cases walk_step_finishE: "walk_step ns deps s (Finish n) t"

inductive walk_run ::
  "'n list \<Rightarrow> ('n \<Rightarrow> 'n list) \<Rightarrow> 'n walker \<Rightarrow> 'n walk_event list \<Rightarrow> 'n walker \<Rightarrow> bool"
  for ns deps
where
  run_nil: "walk_run ns deps s [] s"
| run_snoc: "\<lbrakk>walk_run ns deps s es t; walk_step ns deps t e u\<rbrakk> \<Longrightarrow>
    walk_run ns deps s (es @ [e]) u"

inductive_cases walk_run_snocE: "walk_run ns deps s (es @ [e]) u"

subsection \<open>The invariant\<close>

text \<open>
  The channel and the consumer hold exactly the emitted nodes, each once; whatever was emitted
  had all its dependencies finished; nothing outside the graph moves; the channel is empty once
  the receiver is gone.
\<close>

definition walk_inv :: "'n list \<Rightarrow> ('n \<Rightarrow> 'n list) \<Rightarrow> 'n walker \<Rightarrow> bool" where
  "walk_inv ns deps s \<longleftrightarrow>
     distinct (w_queue s @ w_held s) \<and>
     (\<forall>n. n \<in> set (w_queue s @ w_held s) \<longleftrightarrow> w_status s n = Emitted) \<and>
     (\<forall>n. w_status s n \<in> {Emitted, Called, Finished} \<longrightarrow> deps_finished deps s n) \<and>
     (\<forall>n. n \<notin> set ns \<longrightarrow> w_status s n = Waiting) \<and>
     (\<not> w_open s \<longrightarrow> w_queue s = [])"

lemma walk_inv_new: "walk_inv ns deps walker_new"
  by (simp add: walk_inv_def walker_new_def)

lemma walk_inv_queue: "walk_inv ns deps s \<Longrightarrow> n \<in> set (w_queue s) \<Longrightarrow> w_status s n = Emitted"
  and walk_inv_held: "walk_inv ns deps s \<Longrightarrow> n \<in> set (w_held s) \<Longrightarrow> w_status s n = Emitted"
  by (auto simp: walk_inv_def)

lemma walk_inv_active:
  "walk_inv ns deps s \<Longrightarrow> w_status s n \<in> {Emitted, Called, Finished} \<Longrightarrow> deps_finished deps s n"
  unfolding walk_inv_def by blast

lemma walk_inv_nodes: "walk_inv ns deps s \<Longrightarrow> w_status s n \<noteq> Waiting \<Longrightarrow> n \<in> set ns"
  unfolding walk_inv_def by blast

lemma walk_inv_handed:
  "walk_inv ns deps s \<Longrightarrow> n \<in> set (w_queue s) \<Longrightarrow> n \<in> set ns"
  "walk_inv ns deps s \<Longrightarrow> n \<in> set (w_held s) \<Longrightarrow> n \<in> set ns"
  using walk_inv_queue walk_inv_held walk_inv_nodes by fastforce+

lemmas walk_inv_dests = walk_inv_queue walk_inv_held walk_inv_active walk_inv_nodes

text \<open>What every step keeps: a finished node stays finished.\<close>

lemma walk_step_finished:
  assumes "walk_step ns deps s e t" and "walk_inv ns deps s" and "w_status s d = Finished"
  shows "w_status t d = Finished"
  using assms by (cases rule: walk_step.cases) (auto dest: walk_inv_dests)

lemma walk_step_deps_finished:
  assumes "walk_step ns deps s e t" and "walk_inv ns deps s" and "deps_finished deps s n"
  shows "deps_finished deps t n"
  using assms walk_step_finished unfolding deps_finished_def by metis

text \<open>Only \<open>Emit n\<close> makes a node leave \<open>Waiting\<close> on the way to \<open>Finished\<close>.\<close>

lemma walk_step_new_active:
  assumes "walk_step ns deps s e t" and "walk_inv ns deps s"
    and "w_status t n \<in> {Emitted, Called, Finished}" and "w_status s n \<notin> {Emitted, Called, Finished}"
  shows "e = Emit n \<and> deps_finished deps s n"
  using assms by (cases rule: walk_step.cases) (auto dest: walk_inv_dests split: if_splits)

lemma walk_step_inv:
  assumes step: "walk_step ns deps s e t" and inv: "walk_inv ns deps s"
  shows "walk_inv ns deps t"
proof -
  have "deps_finished deps t n" if "w_status t n \<in> {Emitted, Called, Finished}" for n
  proof (cases "w_status s n \<in> {Emitted, Called, Finished}")
    case True
    with inv have "deps_finished deps s n" by (rule walk_inv_active)
    with step inv show ?thesis by (rule walk_step_deps_finished)
  next
    case False
    with walk_step_new_active [OF step inv that] have "deps_finished deps s n" by simp
    with step inv show ?thesis by (rule walk_step_deps_finished)
  qed
  moreover have "distinct (w_queue t @ w_held t)"
    using step inv by (cases rule: walk_step.cases) 
      (auto simp: walk_inv_def distinct_remove1 dest: walk_inv_queue [OF inv] walk_inv_held [OF inv])
  moreover have "n \<in> set (w_queue t @ w_held t) \<longleftrightarrow> w_status t n = Emitted" for n
    using step inv by (cases rule: walk_step.cases) (auto simp: walk_inv_def)
  moreover have "n \<notin> set ns \<longrightarrow> w_status t n = Waiting" for n
    using step inv
    by (cases rule: walk_step.cases)
      (auto dest: walk_inv_nodes [OF inv] walk_inv_handed [OF inv] intro: walk_inv_nodes [OF inv])
  moreover have "\<not> w_open t \<longrightarrow> w_queue t = []"
    using step inv by (cases rule: walk_step.cases) (auto simp: walk_inv_def)
  ultimately show ?thesis unfolding walk_inv_def by blast
qed

lemma walk_run_inv:
  "walk_run ns deps s es t \<Longrightarrow> walk_inv ns deps s \<Longrightarrow> walk_inv ns deps t"
  by (induction rule: walk_run.induct) (auto intro: walk_step_inv)

subsection \<open>Runs\<close>

lemma walk_run_append:
  "walk_run ns deps s (es1 @ es2) u \<longleftrightarrow>
     (\<exists>t. walk_run ns deps s es1 t \<and> walk_run ns deps t es2 u)"
proof (induction es2 arbitrary: u rule: rev_induct)
  case Nil
  show ?case by (auto intro: walk_run.intros elim: walk_run.cases)
next
  case (snoc e es2)
  show ?case
  proof
    assume "walk_run ns deps s (es1 @ es2 @ [e]) u"
    then have "walk_run ns deps s ((es1 @ es2) @ [e]) u" by simp
    then obtain v where "walk_run ns deps s (es1 @ es2) v" "walk_step ns deps v e u"
      by (rule walk_run_snocE)
    with snoc show "\<exists>t. walk_run ns deps s es1 t \<and> walk_run ns deps t (es2 @ [e]) u"
      by (auto intro: walk_run.intros)
  next
    assume "\<exists>t. walk_run ns deps s es1 t \<and> walk_run ns deps t (es2 @ [e]) u"
    then obtain t v where "walk_run ns deps s es1 t" "walk_run ns deps t es2 v" "walk_step ns deps v e u"
      by (auto elim: walk_run_snocE)
    with snoc have "walk_run ns deps s (es1 @ es2) v" by blast
    from run_snoc [OF this \<open>walk_step ns deps v e u\<close>]
    have "walk_run ns deps s ((es1 @ es2) @ [e]) u" .
    then show "walk_run ns deps s (es1 @ es2 @ [e]) u" by simp
  qed
qed

lemma walk_run_new_inv: "walk_run ns deps walker_new es t \<Longrightarrow> walk_inv ns deps t"
  by (rule walk_run_inv [OF _ walk_inv_new])

lemma walk_step_active:
  "walk_step ns deps s e t \<Longrightarrow> walk_inv ns deps s \<Longrightarrow>
     w_status s n \<in> {Emitted, Called, Finished} \<Longrightarrow> w_status t n \<in> {Emitted, Called, Finished}"
  by (cases rule: walk_step.cases) (auto split: if_splits)

lemma walk_step_emit: "walk_step ns deps s (Emit n) t \<Longrightarrow> w_status t n = Emitted"
  by (auto elim: walk_step_emitE)

lemma walk_step_new_finished:
  "walk_step ns deps s e t \<Longrightarrow> w_status t n = Finished \<Longrightarrow> w_status s n = Finished \<or> e = Finish n"
  by (cases rule: walk_step.cases) (auto split: if_splits)

lemma walk_step_cancel: "walk_step ns deps s e t \<Longrightarrow> w_cancel t \<longleftrightarrow> w_cancel s \<or> e = Cancel"
  by (cases rule: walk_step.cases) auto

lemma walk_step_open: "walk_step ns deps s e t \<Longrightarrow> w_open t \<longleftrightarrow> w_open s \<and> e \<noteq> CloseReceiver"
  by (cases rule: walk_step.cases) auto

lemma walk_run_finished:
  "walk_run ns deps s es t \<Longrightarrow> s = walker_new \<Longrightarrow> w_status t n = Finished \<Longrightarrow> Finish n \<in> set es"
  by (induction rule: walk_run.induct) (auto simp: walker_new_def dest: walk_step_new_finished)

lemma walk_run_cancel:
  "walk_run ns deps s es t \<Longrightarrow> s = walker_new \<Longrightarrow> w_cancel t \<longleftrightarrow> Cancel \<in> set es"
  by (induction rule: walk_run.induct) (auto simp: walker_new_def dest: walk_step_cancel)

lemma walk_run_open:
  "walk_run ns deps s es t \<Longrightarrow> s = walker_new \<Longrightarrow> w_open t \<longleftrightarrow> CloseReceiver \<notin> set es"
  by (induction rule: walk_run.induct) (auto simp: walker_new_def dest: walk_step_open)

lemma walk_run_emitted:
  "walk_run ns deps s es t \<Longrightarrow> s = walker_new \<Longrightarrow> Emit n \<in> set es \<Longrightarrow>
     w_status t n \<in> {Emitted, Called, Finished}"
proof (induction rule: walk_run.induct)
  case run_nil
  then show ?case by simp
next
  case (run_snoc s es t e u)
  then have inv: "walk_inv ns deps t" by (simp add: walk_run_new_inv)
  show ?case
  proof (cases "Emit n \<in> set es")
    case True
    with run_snoc walk_step_active [OF run_snoc.hyps(2) inv] show ?thesis by blast
  next
    case False
    with run_snoc have "e = Emit n" by simp
    with run_snoc.hyps(2) walk_step_emit show ?thesis by fastforce
  qed
qed

text \<open>
  C2: in every interleaving of the walk, a node is handed out only after each of its dependencies
  has announced its finish, at most once, and never after the walk was cancelled.
\<close>

theorem walk_respects_dependencies:
  assumes run: "walk_run ns deps walker_new (es1 @ Emit n # es2) t"
  shows "(\<forall>d \<in> set (deps n). Finish d \<in> set es1) \<and> Emit n \<notin> set es1 \<and> Emit n \<notin> set es2 \<and>
    Cancel \<notin> set es1"
proof -
  have head: "(\<forall>d \<in> set (deps n). Finish d \<in> set es) \<and> Emit n \<notin> set es \<and> Cancel \<notin> set es"
    if "walk_run ns deps walker_new (es @ Emit n # es') t" for es es'
  proof -
    from that have "walk_run ns deps walker_new ((es @ [Emit n]) @ es') t" by simp
    then obtain u where "walk_run ns deps walker_new (es @ [Emit n]) u"
      unfolding walk_run_append by blast
    then obtain v where v: "walk_run ns deps walker_new es v" and "walk_step ns deps v (Emit n) u"
      by (rule walk_run_snocE)
    then have "w_status v n = Waiting" "\<not> w_cancel v" "deps_finished deps v n"
      by (auto elim: walk_step_emitE)
    with walk_run_finished [OF v] walk_run_cancel [OF v] walk_run_emitted [OF v, of n]
    show ?thesis by (auto simp: deps_finished_def)
  qed
  moreover have "Emit n \<notin> set es2"
  proof
    assume "Emit n \<in> set es2"
    then obtain a b where "es2 = a @ Emit n # b" by (meson split_list)
    with run have "walk_run ns deps walker_new ((es1 @ Emit n # a) @ Emit n # b) t" by simp
    from head [OF this] show False by simp
  qed
  ultimately show ?thesis using run by blast
qed

subsection \<open>Termination and progress\<close>

definition quiet :: "'n walk_event \<Rightarrow> bool" where
  "quiet e \<longleftrightarrow> e = Cancel \<or> e = CloseReceiver"

fun status_rank :: "status \<Rightarrow> nat" where
  "status_rank Waiting = 4"
| "status_rank Emitted = 2"
| "status_rank Called = 1"
| "status_rank Finished = 0"
| "status_rank Stopped = 0"

definition walk_measure :: "'n list \<Rightarrow> 'n walker \<Rightarrow> nat" where
  "walk_measure ns s = (\<Sum>n \<in> set ns. status_rank (w_status s n)) + length (w_queue s)"

lemma sum_rank_upd:
  assumes "n \<in> set ns" and "status_rank st \<le> status_rank (f n)"
  shows "(\<Sum>m \<in> set ns. status_rank ((f(n := st)) m)) + status_rank (f n) =
    (\<Sum>m \<in> set ns. status_rank (f m)) + status_rank st"
proof -
  have "(\<Sum>m \<in> set ns - {n}. status_rank ((f(n := st)) m)) = (\<Sum>m \<in> set ns - {n}. status_rank (f m))"
    by (rule sum.cong) auto
  then show ?thesis using assms(1) by (simp add: sum.remove [of "set ns" n])
qed

lemma walk_step_measure:
  assumes step: "walk_step ns deps s e t" and inv: "walk_inv ns deps s"
  shows "walk_measure ns t + (if quiet e then 0 else 1) \<le> walk_measure ns s"
  using step
proof (cases rule: walk_step.cases)
  case (emit n)
  with sum_rank_upd [of n ns Emitted "w_status s"] show ?thesis
    by (simp add: walk_measure_def quiet_def)
next
  case (send_failed n)
  with sum_rank_upd [of n ns Stopped "w_status s"] show ?thesis
    by (simp add: walk_measure_def quiet_def)
next
  case (dep_closed n)
  with sum_rank_upd [of n ns Stopped "w_status s"] show ?thesis
    by (simp add: walk_measure_def quiet_def)
next
  case (cancel_seen n)
  with sum_rank_upd [of n ns Stopped "w_status s"] show ?thesis
    by (simp add: walk_measure_def quiet_def)
next
  case (recv n q)
  then show ?thesis by (simp add: walk_measure_def quiet_def)
next
  case (done_ n)
  then have "w_status s n = Emitted" using walk_inv_held [OF inv] by simp
  moreover from this have "n \<in> set ns" using walk_inv_nodes [OF inv] by simp
  ultimately show ?thesis using done_ sum_rank_upd [of n ns Called "w_status s"]
    by (simp add: walk_measure_def quiet_def)
next
  case (finish n)
  then have "n \<in> set ns" using walk_inv_nodes [OF inv] by simp
  with finish sum_rank_upd [of n ns Finished "w_status s"] show ?thesis
    by (simp add: walk_measure_def quiet_def)
next
  case cancel
  then show ?thesis by (simp add: walk_measure_def quiet_def)
next
  case close
  have "(\<Sum>n \<in> set ns. status_rank (if n \<in> set (w_queue s) then Called else w_status s n))
      \<le> (\<Sum>n \<in> set ns. status_rank (w_status s n))"
    by (rule sum_mono) (auto dest: walk_inv_queue [OF inv])
  with close show ?thesis by (simp add: walk_measure_def quiet_def)
qed

lemma walk_run_measure:
  "walk_run ns deps s es t \<Longrightarrow> walk_inv ns deps s \<Longrightarrow>
     walk_measure ns t + length (filter (\<lambda>e. \<not> quiet e) es) \<le> walk_measure ns s"
proof (induction rule: walk_run.induct)
  case run_nil
  then show ?case by simp
next
  case (run_snoc s es t e u)
  from walk_step_measure [OF run_snoc.hyps(2)] walk_run_inv [OF run_snoc.hyps(1) run_snoc.prems]
  have "walk_measure ns u + (if quiet e then 0 else 1) \<le> walk_measure ns t" by blast
  with run_snoc.IH [OF run_snoc.prems] show ?case by (simp split: if_splits)
qed

text \<open>
  the walk terminates: however its tasks and the consumer are interleaved, at most four steps
  per node happen, not counting cancelling the walk and dropping the receiver.
\<close>

theorem walk_terminates:
  assumes "walk_run ns deps walker_new es t"
  shows "length (filter (\<lambda>e. \<not> quiet e) es) \<le> 4 * card (set ns)"
  using walk_run_measure [OF assms walk_inv_new]
  by (simp add: walk_measure_def walker_new_def)

definition walk_stuck :: "'n list \<Rightarrow> ('n \<Rightarrow> 'n list) \<Rightarrow> 'n walker \<Rightarrow> bool" where
  "walk_stuck ns deps s \<longleftrightarrow> (\<forall>e t. walk_step ns deps s e t \<longrightarrow> quiet e)"

lemma walk_stuckD: "walk_stuck ns deps s \<Longrightarrow> walk_step ns deps s e t \<Longrightarrow> quiet e"
  unfolding walk_stuck_def by blast

lemma stuck_settled:
  assumes inv: "walk_inv ns deps s" and stuck: "walk_stuck ns deps s"
  shows "w_status s n \<in> {Waiting, Finished, Stopped}"
proof (cases "w_status s n")
  case Emitted
  then have "n \<in> set (w_queue s) \<or> n \<in> set (w_held s)" using inv by (auto simp: walk_inv_def)
  then show ?thesis
  proof
    assume "n \<in> set (w_queue s)"
    then obtain m q where "w_queue s = m # q" by (cases "w_queue s") auto
    from walk_stuckD [OF stuck walk_step.recv [OF this]] show ?thesis by (simp add: quiet_def)
  next
    assume "n \<in> set (w_held s)"
    from walk_stuckD [OF stuck walk_step.done_ [OF this]] show ?thesis by (simp add: quiet_def)
  qed
next
  case Called
  from walk_stuckD [OF stuck walk_step.finish [OF this]] show ?thesis by (simp add: quiet_def)
qed auto

lemma stuck_waiting_dep:
  assumes inv: "walk_inv ns deps s" and stuck: "walk_stuck ns deps s"
    and n: "n \<in> set ns" "w_status s n = Waiting"
  shows "\<exists>d \<in> set (deps n). w_status s d = Waiting"
proof (rule ccontr)
  assume "\<not> (\<exists>d \<in> set (deps n). w_status s d = Waiting)"
  with stuck_settled [OF inv stuck]
  have ans: "\<forall>d \<in> set (deps n). w_status s d \<in> {Finished, Stopped}" by blast
  consider "w_cancel s" | "\<not> w_cancel s" "deps_closed deps s n" | "\<not> w_cancel s" "deps_finished deps s n"
    using ans by (auto simp: deps_closed_def deps_finished_def)
  then show False
  proof cases
    case 1
    with walk_stuckD [OF stuck walk_step.cancel_seen [OF n]] show False by (simp add: quiet_def)
  next
    case 2
    with walk_stuckD [OF stuck walk_step.dep_closed [OF n]] show False by (simp add: quiet_def)
  next
    case 3
    with walk_stuckD [OF stuck walk_step.emit [OF n]] walk_stuckD [OF stuck walk_step.send_failed [OF n]]
    show False by (cases "w_open s") (simp_all add: quiet_def)
  qed
qed

lemma walk_run_no_stop:
  "walk_run ns deps s es t \<Longrightarrow> s = walker_new \<Longrightarrow> Cancel \<notin> set es \<Longrightarrow> CloseReceiver \<notin> set es \<Longrightarrow>
     w_status t n \<noteq> Stopped"
proof (induction arbitrary: n rule: walk_run.induct)
  case run_nil
  then show ?case by (simp add: walker_new_def)
next
  case (run_snoc s es t e u)
  then have "\<not> w_cancel t" "w_open t" "\<And>n. w_status t n \<noteq> Stopped"
    using walk_run_cancel walk_run_open by fastforce+
  with run_snoc.hyps(2) show ?case
    by (cases rule: walk_step.cases) (auto simp: deps_closed_def split: if_splits)
qed

lemma walk_ends:
  assumes closed: "\<forall>n \<in> set ns. set (deps n) \<subseteq> set ns"
    and acyclic: "acyclic {(d, n). n \<in> set ns \<and> d \<in> set (deps n)}"
    and run: "walk_run ns deps walker_new es t" and stuck: "walk_stuck ns deps t"
  shows "\<forall>n \<in> set ns. w_status t n \<in> {Finished, Stopped} \<and>
    (Cancel \<notin> set es \<and> CloseReceiver \<notin> set es \<longrightarrow> w_status t n = Finished \<and> Finish n \<in> set es)"
proof -
  note inv = walk_run_new_inv [OF run]
  let ?r = "{(d, n). n \<in> set ns \<and> d \<in> set (deps n)}"
  have "?r \<subseteq> set ns \<times> set ns" using closed by auto
  then have "finite ?r" by (rule finite_subset) simp
  with acyclic have wf: "wf ?r" by (simp add: finite_acyclic_wf)
  have "n \<in> set ns \<longrightarrow> w_status t n \<noteq> Waiting" for n
  proof (induction n rule: wf_induct_rule [OF wf])
    case (1 n)
    then show ?case using stuck_waiting_dep [OF inv stuck, of n] closed by blast
  qed
  with stuck_settled [OF inv stuck]
  have ended: "w_status t n \<in> {Finished, Stopped}" if "n \<in> set ns" for n using that by blast
  moreover have "w_status t n = Finished \<and> Finish n \<in> set es"
    if "n \<in> set ns" "Cancel \<notin> set es" "CloseReceiver \<notin> set es" for n
  proof -
    have "w_status t n = Finished"
      using ended [OF that(1)] walk_run_no_stop [OF run refl that(2,3), of n] by blast
    with walk_run_finished [OF run] show ?thesis by simp
  qed
  ultimately show ?thesis by blast
qed

text \<open>
  on an acyclic graph a walk that can make no more steps has ended every task; if it was
  neither cancelled nor abandoned by its consumer, every node was handed out and finished.
\<close>

theorem walk_completes:
  assumes closed: "\<forall>n \<in> set ns. set (deps n) \<subseteq> set ns"
    and acyclic: "acyclic {(d, n). n \<in> set ns \<and> d \<in> set (deps n)}"
    and run: "walk_run ns deps walker_new es t" and stuck: "walk_stuck ns deps t"
  shows "\<forall>n \<in> set ns. w_status t n \<in> {Finished, Stopped} \<and>
    (Cancel \<notin> set es \<and> CloseReceiver \<notin> set es \<longrightarrow> w_status t n = Finished \<and> Finish n \<in> set es)"
  using assms by (rule walk_ends)

subsection \<open>The steps as a function\<close>

fun walk_exec :: "'n list \<Rightarrow> ('n \<Rightarrow> 'n list) \<Rightarrow> 'n walker \<Rightarrow> 'n walk_event \<Rightarrow> 'n walker option" where
  "walk_exec ns deps s (Emit n) =
     (if n \<in> set ns \<and> w_status s n = Waiting \<and> \<not> w_cancel s \<and> deps_finished deps s n \<and> w_open s
      then Some (s\<lparr>w_status := (w_status s)(n := Emitted), w_queue := w_queue s @ [n]\<rparr>) else None)"
| "walk_exec ns deps s (SendFailed n) =
     (if n \<in> set ns \<and> w_status s n = Waiting \<and> \<not> w_cancel s \<and> deps_finished deps s n \<and> \<not> w_open s
      then Some (set_status s n Stopped) else None)"
| "walk_exec ns deps s (DepClosed n) =
     (if n \<in> set ns \<and> w_status s n = Waiting \<and> \<not> w_cancel s \<and> deps_closed deps s n
      then Some (set_status s n Stopped) else None)"
| "walk_exec ns deps s (CancelSeen n) =
     (if n \<in> set ns \<and> w_status s n = Waiting \<and> w_cancel s then Some (set_status s n Stopped) else None)"
| "walk_exec ns deps s (Recv n) =
     (case w_queue s of
        m # q \<Rightarrow> if m = n then Some (s\<lparr>w_queue := q, w_held := n # w_held s\<rparr>) else None
      | [] \<Rightarrow> None)"
| "walk_exec ns deps s (Done n) =
     (if n \<in> set (w_held s)
      then Some (s\<lparr>w_held := remove1 n (w_held s), w_status := (w_status s)(n := Called)\<rparr>) else None)"
| "walk_exec ns deps s (Finish n) =
     (if w_status s n = Called then Some (set_status s n Finished) else None)"
| "walk_exec ns deps s Cancel = Some (s\<lparr>w_cancel := True\<rparr>)"
| "walk_exec ns deps s CloseReceiver =
     (if w_open s
      then Some (s\<lparr>w_open := False, w_queue := [],
         w_status := (\<lambda>n. if n \<in> set (w_queue s) then Called else w_status s n)\<rparr>) else None)"

lemma walk_exec_step: "walk_exec ns deps s e = Some t \<longleftrightarrow> walk_step ns deps s e t"
proof
  assume "walk_exec ns deps s e = Some t"
  then show "walk_step ns deps s e t"
    by (cases e) (auto split: if_splits list.splits intro: walk_step.intros)
next
  assume "walk_step ns deps s e t"
  then show "walk_exec ns deps s e = Some t" by cases auto
qed

fun walk_exec_all :: "'n list \<Rightarrow> ('n \<Rightarrow> 'n list) \<Rightarrow> 'n walker \<Rightarrow> 'n walk_event list \<Rightarrow> 'n walker option" where
  "walk_exec_all ns deps s [] = Some s"
| "walk_exec_all ns deps s (e # es) =
     (case walk_exec ns deps s e of None \<Rightarrow> None | Some t \<Rightarrow> walk_exec_all ns deps t es)"

lemma walk_run_Cons: "walk_step ns deps s e t \<Longrightarrow> walk_run ns deps t es u \<Longrightarrow> walk_run ns deps s (e # es) u"
  using walk_run_append [of ns deps s "[e]" es u] walk_run.intros [of ns deps s] by fastforce

lemma walk_exec_all_run: "walk_exec_all ns deps s es = Some t \<Longrightarrow> walk_run ns deps s es t"
  by (induction es arbitrary: s) (auto simp: walk_exec_step intro: walk_run.run_nil walk_run_Cons split: option.splits)

text \<open>Two nodes, the second of which depends on the first.\<close>

definition sample_deps :: "string \<Rightarrow> string list" where
  "sample_deps n = (if n = ''app'' then [''lib''] else [])"

definition sample_walk :: "string walk_event list" where
  "sample_walk = [Emit ''lib'', Recv ''lib'', Done ''lib'', Finish ''lib'',
     Emit ''app'', Recv ''app'', Done ''app'', Finish ''app'']"

definition sample_walk_end :: "string walker" where
  "sample_walk_end = walker_new\<lparr>w_status := (\<lambda>n. if n \<in> {''lib'', ''app''} then Finished else Waiting)\<rparr>"

lemma sample_walk_run: "walk_run [''lib'', ''app''] sample_deps walker_new sample_walk sample_walk_end"
  by (rule walk_exec_all_run)
    (auto simp: sample_walk_def sample_walk_end_def walker_new_def sample_deps_def deps_finished_def fun_eq_iff)

theorem walk_respects_dependencies_witness:
  "walk_run [''lib'', ''app''] sample_deps walker_new
     ([Emit ''lib'', Recv ''lib'', Done ''lib'', Finish ''lib''] @ Emit ''app'' #
      [Recv ''app'', Done ''app'', Finish ''app'']) sample_walk_end \<and>
   ''lib'' \<in> set (sample_deps ''app'') \<and>
   Finish ''lib'' \<in> set [Emit ''lib'', Recv ''lib'', Done ''lib'', Finish ''lib'']"
proof -
  have run: "walk_run [''lib'', ''app''] sample_deps walker_new
     ([Emit ''lib'', Recv ''lib'', Done ''lib'', Finish ''lib''] @ Emit ''app'' #
      [Recv ''app'', Done ''app'', Finish ''app'']) sample_walk_end"
    using sample_walk_run by (simp add: sample_walk_def)
  moreover have "''lib'' \<in> set (sample_deps ''app'')" by (simp add: sample_deps_def)
  ultimately show ?thesis using walk_respects_dependencies [OF run] by blast
qed

theorem walk_terminates_witness:
  "walk_run [''lib'', ''app''] sample_deps walker_new sample_walk sample_walk_end \<and>
   length (filter (\<lambda>e. \<not> quiet e) sample_walk) \<le> 4 * card (set [''lib'', ''app''])"
  using sample_walk_run walk_terminates [OF sample_walk_run] by blast

theorem walk_completes_witness:
  "walk_run [''lib'', ''app''] sample_deps walker_new sample_walk sample_walk_end \<and>
   walk_stuck [''lib'', ''app''] sample_deps sample_walk_end \<and>
   Finish ''lib'' \<in> set sample_walk \<and> Finish ''app'' \<in> set sample_walk"
proof -
  have closed: "\<forall>n \<in> set [''lib'', ''app'']. set (sample_deps n) \<subseteq> set [''lib'', ''app'']"
    by (simp add: sample_deps_def)
  have "{(d, n). n \<in> set [''lib'', ''app''] \<and> d \<in> set (sample_deps n)} \<subseteq> {(''lib'', ''app'')}"
    by (auto simp: sample_deps_def)
  moreover have "acyclic {(''lib'', ''app'')}" by (auto simp: acyclic_def elim: tranclE trancl.cases)
  ultimately have acyc: "acyclic {(d, n). n \<in> set [''lib'', ''app''] \<and> d \<in> set (sample_deps n)}"
    by (rule acyclic_subset [rotated])
  have stuck: "walk_stuck [''lib'', ''app''] sample_deps sample_walk_end"
    unfolding walk_stuck_def
    by (auto elim!: walk_step.cases simp: sample_walk_end_def walker_new_def quiet_def split: if_splits)
  have "Cancel \<notin> set sample_walk" "CloseReceiver \<notin> set sample_walk" by (simp_all add: sample_walk_def)
  with walk_completes [OF closed acyc sample_walk_run stuck] sample_walk_run stuck show ?thesis by simp
qed

end
