(* ===== verification/Execute.thy ===== *)
theory Execute
  imports Engine Walker
begin

text \<open>
  \<open>nrzrepo-lib/src/engine/execute.rs\<close>: the executor hands the tasks of an engine to a visitor while
  the graph walker emits them. Its own loop and the task it spawns for each node are a step relation
  on top of the walker's; every interleaving of the two and of the visitor is a run. The semaphore
  grants permits in any order.
\<close>

datatype task_phase =
    NotSpawned  \<comment> \<open>not yet received from the walker\<close>
  | Spawned     \<comment> \<open>waiting for a permit, or the root\<close>
  | Permitted   \<comment> \<open>about to send its message to the visitor\<close>
  | Visiting    \<comment> \<open>waiting for the visitor's result\<close>
  | Stopping    \<comment> \<open>got \<open>StopExecution\<close>, has cancelled the walker\<close>
  | Ended

record exec_state =
  x_walk :: "nat walker"
  x_phase :: "nat \<Rightarrow> task_phase"
  x_visitor_open :: bool
  x_failed :: bool

record execution_options =
  eo_parallel :: bool
  eo_concurrency :: nat

datatype exec_event =
    Internal "nat walk_event" | Spawn nat | RootDone nat | Acquire nat | Visit nat | VisitErr nat
  | Returned nat | StopRequested nat | AfterStop nat | CloseVisitor

definition exec_new :: exec_state where
  "exec_new = \<lparr>x_walk = walker_new, x_phase = (\<lambda>_. NotSpawned), x_visitor_open = True, x_failed = False\<rparr>"

abbreviation node_list :: "engine \<Rightarrow> nat list" where
  "node_list e \<equiv> [0..<length (g_nodes (e_graph e))]"

abbreviation node_deps :: "((nat \<times> nat) list \<Rightarrow> nat \<Rightarrow> nat list) \<Rightarrow> engine \<Rightarrow> nat \<Rightarrow> nat list" where
  "node_deps nbrs e \<equiv> nbrs (g_edges (e_graph e))"

definition is_root :: "engine \<Rightarrow> nat \<Rightarrow> bool" where
  "is_root e n \<longleftrightarrow> g_nodes (e_graph e) ! n = RootTask"

definition permit_holders :: "exec_state \<Rightarrow> nat set" where
  "permit_holders s = {n. x_phase s n \<in> {Permitted, Visiting, Stopping}}"

fun walker_internal :: "'n walk_event \<Rightarrow> bool" where
  "walker_internal (Emit n) = True"
| "walker_internal (SendFailed n) = True"
| "walker_internal (DepClosed n) = True"
| "walker_internal (CancelSeen n) = True"
| "walker_internal (Finish n) = True"
| "walker_internal _ = False"

abbreviation set_phase :: "exec_state \<Rightarrow> nat \<Rightarrow> task_phase \<Rightarrow> exec_state" where
  "set_phase s n p \<equiv> s\<lparr>x_phase := (x_phase s)(n := p)\<rparr>"

inductive exec_step ::
  "((nat \<times> nat) list \<Rightarrow> nat \<Rightarrow> nat list) \<Rightarrow> engine \<Rightarrow> execution_options \<Rightarrow>
   exec_state \<Rightarrow> exec_event \<Rightarrow> exec_state \<Rightarrow> bool"
  for nbrs e opts
where
  internal: "\<lbrakk>walker_internal w; walk_step (node_list e) (node_deps nbrs e) (x_walk s) w u\<rbrakk> \<Longrightarrow>
    exec_step nbrs e opts s (Internal w) (s\<lparr>x_walk := u\<rparr>)"
| spawn: "walk_step (node_list e) (node_deps nbrs e) (x_walk s) (Recv n) u \<Longrightarrow>
    exec_step nbrs e opts s (Spawn n) (s\<lparr>x_walk := u, x_phase := (x_phase s)(n := Spawned)\<rparr>)"
| root_done: "\<lbrakk>x_phase s n = Spawned; is_root e n;
    walk_step (node_list e) (node_deps nbrs e) (x_walk s) (Done n) u\<rbrakk> \<Longrightarrow>
    exec_step nbrs e opts s (RootDone n) (s\<lparr>x_walk := u, x_phase := (x_phase s)(n := Ended)\<rparr>)"
| acquire: "\<lbrakk>x_phase s n = Spawned; \<not> is_root e n;
    eo_parallel opts \<or> card (permit_holders s) < eo_concurrency opts\<rbrakk> \<Longrightarrow>
    exec_step nbrs e opts s (Acquire n) (set_phase s n Permitted)"
| visit: "\<lbrakk>x_phase s n = Permitted; x_visitor_open s\<rbrakk> \<Longrightarrow>
    exec_step nbrs e opts s (Visit n) (set_phase s n Visiting)"
| visit_err: "\<lbrakk>x_phase s n = Permitted; \<not> x_visitor_open s;
    walk_step (node_list e) (node_deps nbrs e) (x_walk s) (Done n) u\<rbrakk> \<Longrightarrow>
    exec_step nbrs e opts s (VisitErr n)
      (s\<lparr>x_walk := u, x_phase := (x_phase s)(n := Ended), x_failed := True\<rparr>)"
| returned: "\<lbrakk>x_phase s n = Visiting;
    walk_step (node_list e) (node_deps nbrs e) (x_walk s) (Done n) u\<rbrakk> \<Longrightarrow>
    exec_step nbrs e opts s (Returned n) (s\<lparr>x_walk := u, x_phase := (x_phase s)(n := Ended)\<rparr>)"
| stop_requested: "\<lbrakk>x_phase s n = Visiting;
    walk_step (node_list e) (node_deps nbrs e) (x_walk s) Cancel u\<rbrakk> \<Longrightarrow>
    exec_step nbrs e opts s (StopRequested n) (s\<lparr>x_walk := u, x_phase := (x_phase s)(n := Stopping)\<rparr>)"
| after_stop: "\<lbrakk>x_phase s n = Stopping;
    walk_step (node_list e) (node_deps nbrs e) (x_walk s) (Done n) u\<rbrakk> \<Longrightarrow>
    exec_step nbrs e opts s (AfterStop n) (s\<lparr>x_walk := u, x_phase := (x_phase s)(n := Ended)\<rparr>)"
| close_visitor: "exec_step nbrs e opts s CloseVisitor (s\<lparr>x_visitor_open := False\<rparr>)"

inductive exec_run ::
  "((nat \<times> nat) list \<Rightarrow> nat \<Rightarrow> nat list) \<Rightarrow> engine \<Rightarrow> execution_options \<Rightarrow>
   exec_state \<Rightarrow> exec_event list \<Rightarrow> exec_state \<Rightarrow> bool"
  for nbrs e opts
where
  run_nil: "exec_run nbrs e opts s [] s"
| run_snoc: "\<lbrakk>exec_run nbrs e opts s es t; exec_step nbrs e opts t x u\<rbrakk> \<Longrightarrow>
    exec_run nbrs e opts s (es @ [x]) u"

inductive_cases exec_run_snocE: "exec_run nbrs e opts s (es @ [x]) u"
inductive_cases exec_visitE: "exec_step nbrs e opts s (Visit n) t"

subsection \<open>Projection to the walker\<close>

fun walk_part :: "exec_event \<Rightarrow> nat walk_event list" where
  "walk_part (Internal w) = [w]"
| "walk_part (Spawn n) = [Recv n]"
| "walk_part (RootDone n) = [Done n]"
| "walk_part (VisitErr n) = [Done n]"
| "walk_part (Returned n) = [Done n]"
| "walk_part (StopRequested n) = [Cancel]"
| "walk_part (AfterStop n) = [Done n]"
| "walk_part _ = []"

abbreviation walk_parts :: "exec_event list \<Rightarrow> nat walk_event list" where
  "walk_parts es \<equiv> concat (map walk_part es)"

lemma exec_step_walk:
  "exec_step nbrs e opts s x t \<Longrightarrow>
     (walk_part x = [] \<and> x_walk t = x_walk s) \<or>
     (\<exists>w. walk_part x = [w] \<and> w \<noteq> CloseReceiver \<and>
        walk_step (node_list e) (node_deps nbrs e) (x_walk s) w (x_walk t))"
  by (cases rule: exec_step.cases) auto

lemma exec_run_walk:
  "exec_run nbrs e opts s es t \<Longrightarrow>
     walk_run (node_list e) (node_deps nbrs e) (x_walk s) (walk_parts es) (x_walk t)"
proof (induction rule: exec_run.induct)
  case run_nil
  show ?case by (simp add: walk_run.run_nil)
next
  case (run_snoc s es t x u)
  from exec_step_walk [OF run_snoc.hyps(2)] run_snoc.IH show ?case
    by (auto intro: walk_run.run_snoc)
qed

lemma exec_run_append:
  "exec_run nbrs e opts s (xs @ ys) u \<longleftrightarrow> (\<exists>t. exec_run nbrs e opts s xs t \<and> exec_run nbrs e opts t ys u)"
proof (induction ys arbitrary: u rule: rev_induct)
  case Nil
  show ?case by (auto intro: exec_run.run_nil elim: exec_run.cases)
next
  case (snoc y ys)
  have "exec_run nbrs e opts s (xs @ ys @ [y]) u \<longleftrightarrow>
      (\<exists>v. exec_run nbrs e opts s (xs @ ys) v \<and> exec_step nbrs e opts v y u)"
    using exec_run.run_snoc [of nbrs e opts s "xs @ ys"] exec_run_snocE [of nbrs e opts s "xs @ ys" y u]
    by fastforce
  moreover have "exec_run nbrs e opts t (ys @ [y]) u \<longleftrightarrow>
      (\<exists>v. exec_run nbrs e opts t ys v \<and> exec_step nbrs e opts v y u)" for t
    using exec_run.run_snoc [of nbrs e opts t ys] exec_run_snocE [of nbrs e opts t ys y u] by blast
  ultimately show ?case using snoc.IH by auto
qed

subsection \<open>The invariant\<close>

definition exec_inv ::
  "((nat \<times> nat) list \<Rightarrow> nat \<Rightarrow> nat list) \<Rightarrow> engine \<Rightarrow> execution_options \<Rightarrow> exec_state \<Rightarrow> bool"
where
  "exec_inv nbrs e opts s \<longleftrightarrow>
     walk_inv (node_list e) (node_deps nbrs e) (x_walk s) \<and>
     (\<forall>n. n \<in> set (w_held (x_walk s)) \<longleftrightarrow> x_phase s n \<in> {Spawned, Permitted, Visiting, Stopping}) \<and>
     (\<forall>n. x_phase s n = Ended \<longleftrightarrow> w_status (x_walk s) n \<in> {Called, Finished}) \<and>
     (\<not> eo_parallel opts \<longrightarrow> card (permit_holders s) \<le> eo_concurrency opts) \<and>
     w_open (x_walk s)"

lemma exec_inv_new: "exec_inv nbrs e opts exec_new"
proof -
  have "w_held (walker_new :: nat walker) = []" "w_status (walker_new :: nat walker) = (\<lambda>_. Waiting)"
    "w_open (walker_new :: nat walker)"
    by (simp_all add: walker_new_def)
  then show ?thesis by (simp add: exec_inv_def exec_new_def walk_inv_new permit_holders_def)
qed

lemma holders_held: "exec_inv nbrs e opts s \<Longrightarrow> permit_holders s \<subseteq> set (w_held (x_walk s))"
  by (auto simp: exec_inv_def permit_holders_def)

lemma finite_holders: "exec_inv nbrs e opts s \<Longrightarrow> finite (permit_holders s)"
  by (rule finite_subset [OF holders_held]) simp_all

text \<open>What the steps of the walker do to the channel and the consumer.\<close>

lemma walk_step_internal:
  "walk_step ns deps s w t \<Longrightarrow> walker_internal w \<Longrightarrow> walk_inv ns deps s \<Longrightarrow>
     w_held t = w_held s \<and> w_open t = w_open s \<and>
     (\<forall>n. w_status t n \<in> {Called, Finished} \<longleftrightarrow> w_status s n \<in> {Called, Finished})"
  by (cases rule: walk_step.cases) (auto split: if_splits)

lemma walk_step_recv:
  assumes "walk_step ns deps s (Recv n) t" and "walk_inv ns deps s"
  shows "w_held t = n # w_held s \<and> w_open t = w_open s \<and> w_status t = w_status s \<and>
    n \<notin> set (w_held s) \<and> w_status s n = Emitted"
  using assms by (cases rule: walk_step.cases) (auto simp: walk_inv_def)

lemma walk_step_done:
  assumes "walk_step ns deps s (Done n) t" and "walk_inv ns deps s"
  shows "set (w_held t) = set (w_held s) - {n} \<and> w_open t = w_open s \<and>
    w_status t = (w_status s)(n := Called) \<and> n \<in> set (w_held s)"
  using assms by (cases rule: walk_step.cases) (auto simp: walk_inv_def)

lemma walk_step_cancelled:
  "walk_step ns deps s Cancel t \<Longrightarrow> t = s\<lparr>w_cancel := True\<rparr>"
  by (cases rule: walk_step.cases) auto

lemma permit_holders_mono:
  "(\<And>n. x_phase t n \<in> {Permitted, Visiting, Stopping} \<Longrightarrow> x_phase s n \<in> {Permitted, Visiting, Stopping}) \<Longrightarrow>
     finite (permit_holders s) \<Longrightarrow> card (permit_holders t) \<le> card (permit_holders s)"
  by (rule card_mono) (auto simp: permit_holders_def)


abbreviation active :: "task_phase set" where
  "active \<equiv> {Spawned, Permitted, Visiting, Stopping}"

lemma exec_inv_dest:
  assumes "exec_inv nbrs e opts s"
  shows "n \<in> set (w_held (x_walk s)) \<longleftrightarrow> x_phase s n \<in> active"
    and "x_phase s n = Ended \<longleftrightarrow> w_status (x_walk s) n \<in> {Called, Finished}"
    and "\<not> eo_parallel opts \<longrightarrow> card (permit_holders s) \<le> eo_concurrency opts"
    and "w_open (x_walk s)"
    and "walk_inv (node_list e) (node_deps nbrs e) (x_walk s)"
  using assms unfolding exec_inv_def by blast+

lemma exec_inv_move:
  assumes inv: "exec_inv nbrs e opts s" and n: "x_phase s n \<in> active" and p: "p \<in> active"
    and w: "w_held u = w_held (x_walk s)" "w_status u = w_status (x_walk s)" "w_open u = w_open (x_walk s)"
    and u: "walk_inv (node_list e) (node_deps nbrs e) u"
    and phase: "x_phase t = (x_phase s)(n := p)" and walk: "x_walk t = u"
    and card: "\<not> eo_parallel opts \<longrightarrow> card (permit_holders t) \<le> eo_concurrency opts"
  shows "exec_inv nbrs e opts t"
proof -
  note d = exec_inv_dest [OF inv]
  have "p \<noteq> Ended" "w_status (x_walk s) n \<notin> {Called, Finished}" using p d(2) [of n] n by auto
  then have "(x_phase t m = Ended) = (w_status u m \<in> {Called, Finished})" for m
    using d(2) [of m] by (cases "m = n") (auto simp: phase w)
  moreover have "(m \<in> set (w_held u)) = (x_phase t m \<in> active)" for m
    using d(1) [of m] n p by (cases "m = n") (auto simp: phase w)
  ultimately show ?thesis using u card d(4) unfolding exec_inv_def walk w by blast
qed

lemma exec_inv_end:
  assumes inv: "exec_inv nbrs e opts s" and n: "x_phase s n \<in> active"
    and step: "walk_step (node_list e) (node_deps nbrs e) (x_walk s) (Done n) u"
    and phase: "x_phase t = (x_phase s)(n := Ended)" and walk: "x_walk t = u"
  shows "exec_inv nbrs e opts t"
proof -
  note d = exec_inv_dest [OF inv]
  note dn = walk_step_done [OF step d(5)]
  have u: "walk_inv (node_list e) (node_deps nbrs e) u" by (rule walk_step_inv [OF step d(5)])
  have "card (permit_holders t) \<le> card (permit_holders s)"
    by (rule permit_holders_mono [OF _ finite_holders [OF inv]]) (auto simp: phase split: if_splits)
  moreover have "(x_phase t m = Ended) = (w_status u m \<in> {Called, Finished})" for m
    using d(2) [of m] dn by (cases "m = n") (auto simp: phase)
  moreover have "(m \<in> set (w_held u)) = (x_phase t m \<in> active)" for m
    using d(1) [of m] dn by (cases "m = n") (auto simp: phase)
  ultimately show ?thesis using u dn d(3,4) unfolding exec_inv_def walk by (meson le_trans)
qed

lemma exec_step_inv:
  assumes step: "exec_step nbrs e opts s x t" and inv: "exec_inv nbrs e opts s"
  shows "exec_inv nbrs e opts t"
proof -
  note d = exec_inv_dest [OF inv]
  have fin: "finite (permit_holders s)" using inv by (rule finite_holders)
  show ?thesis
    using step
  proof (cases rule: exec_step.cases)
    case (internal ev u)
    note iw = walk_step_internal [OF internal(4,3) d(5)]
    have "permit_holders t = permit_holders s" by (simp add: internal permit_holders_def)
    with iw walk_step_inv [OF internal(4) d(5)] inv show ?thesis unfolding exec_inv_def internal by simp
  next
    case (spawn n u)
    note r = walk_step_recv [OF spawn(3) d(5)]
    have u: "walk_inv (node_list e) (node_deps nbrs e) u" by (rule walk_step_inv [OF spawn(3) d(5)])
    have "card (permit_holders t) \<le> card (permit_holders s)"
      by (rule permit_holders_mono [OF _ fin]) (auto simp: spawn split: if_splits)
    moreover have "(x_phase t m = Ended) = (w_status u m \<in> {Called, Finished})" for m
      using d(2) [of m] r by (cases "m = n") (auto simp: spawn)
    moreover have "(m \<in> set (w_held u)) = (x_phase t m \<in> active)" for m
      using d(1) [of m] r by (cases "m = n") (auto simp: spawn)
    moreover have "x_walk t = u" by (simp add: spawn)
    ultimately show ?thesis using u r d(3,4) unfolding exec_inv_def by (metis le_trans)
  next
    case (acquire n)
    then have new: "permit_holders t = insert n (permit_holders s)" "n \<notin> permit_holders s"
      by (auto simp: permit_holders_def)
    with acquire(5) fin have "\<not> eo_parallel opts \<longrightarrow> card (permit_holders t) \<le> eo_concurrency opts" by auto
    with acquire show ?thesis by (intro exec_inv_move [OF inv _ _ _ _ _ d(5)]) auto
  next
    case (visit n)
    then have "permit_holders t = permit_holders s" by (auto simp: permit_holders_def)
    with visit d(3) show ?thesis by (intro exec_inv_move [OF inv _ _ _ _ _ d(5)]) auto
  next
    case (stop_requested n u)
    then have "permit_holders t = permit_holders s" by (auto simp: permit_holders_def)
    with stop_requested d(3) walk_step_cancelled [OF stop_requested(4)] show ?thesis
      by (intro exec_inv_move [OF inv _ _ _ _ _ walk_step_inv [OF stop_requested(4) d(5)]]) auto
  next
    case close_visitor
    then have "permit_holders t = permit_holders s" by (auto simp: permit_holders_def)
    with close_visitor inv show ?thesis unfolding exec_inv_def by simp
  next
    case (root_done n u)
    then show ?thesis by (intro exec_inv_end [OF inv _ root_done(5)]) auto
  next
    case (visit_err n u)
    then show ?thesis by (intro exec_inv_end [OF inv _ visit_err(5)]) auto
  next
    case (returned n u)
    then show ?thesis by (intro exec_inv_end [OF inv _ returned(4)]) auto
  next
    case (after_stop n u)
    then show ?thesis by (intro exec_inv_end [OF inv _ after_stop(4)]) auto
  qed
qed

lemma exec_run_inv: "exec_run nbrs e opts s es t \<Longrightarrow> exec_inv nbrs e opts s \<Longrightarrow> exec_inv nbrs e opts t"
  by (induction rule: exec_run.induct) (auto intro: exec_step_inv)

subsection \<open>Order, limits and progress\<close>

fun is_over :: "nat \<Rightarrow> exec_event \<Rightarrow> bool" where
  "is_over d (Returned n) = (n = d)"
| "is_over d (AfterStop n) = (n = d)"
| "is_over d (VisitErr n) = (n = d)"
| "is_over d (RootDone n) = (n = d)"
| "is_over d _ = False"

lemma exec_ended:
  "exec_run nbrs e opts s es t \<Longrightarrow> s = exec_new \<Longrightarrow> x_phase t n = Ended \<Longrightarrow> \<exists>x \<in> set es. is_over n x"
proof (induction rule: exec_run.induct)
  case run_nil
  then show ?case by (simp add: exec_new_def)
next
  case (run_snoc s es t x u)
  from run_snoc.hyps(2) have "x_phase u n = Ended \<Longrightarrow> x_phase t n = Ended \<or> is_over n x"
    by (cases rule: exec_step.cases) (auto split: if_splits)
  with run_snoc show ?case by auto
qed

lemma exec_step_phase:
  assumes "exec_step nbrs e opts s x t" and "exec_inv nbrs e opts s"
  shows "x_phase s n \<in> {Visiting, Stopping, Ended} \<Longrightarrow> x_phase t n \<in> {Visiting, Stopping, Ended}"
  using assms(1)
proof (cases rule: exec_step.cases)
  case (spawn m u)
  from walk_step_recv [OF spawn(3) exec_inv_dest(5) [OF assms(2)]] exec_inv_dest(1,2) [OF assms(2), of m]
  have "x_phase s m \<notin> {Visiting, Stopping, Ended}" by auto
  then show "x_phase s n \<in> {Visiting, Stopping, Ended} \<Longrightarrow> ?thesis" by (auto simp: spawn)
qed auto

lemma exec_visited:
  "exec_run nbrs e opts s es t \<Longrightarrow> s = exec_new \<Longrightarrow> Visit n \<in> set es \<Longrightarrow>
     x_phase t n \<in> {Visiting, Stopping, Ended}"
proof (induction rule: exec_run.induct)
  case run_nil
  then show ?case by simp
next
  case (run_snoc s es t x u)
  have inv: "exec_inv nbrs e opts t" using exec_run_inv [OF run_snoc.hyps(1)] run_snoc.prems(1) exec_inv_new by blast
  show ?case
  proof (cases "Visit n \<in> set es")
    case True
    with run_snoc exec_step_phase [OF run_snoc.hyps(2) inv] show ?thesis by blast
  next
    case False
    with run_snoc have "x = Visit n" by simp
    with run_snoc.hyps(2) show ?thesis by (auto elim: exec_visitE)
  qed
qed

lemma visit_once_head:
  assumes "exec_run nbrs e opts exec_new (es1 @ Visit n # es2) t"
  shows "Visit n \<notin> set es1 \<and> (\<forall>d \<in> set (node_deps nbrs e n). \<exists>x \<in> set es1. is_over d x)"
proof -
  from assms have "exec_run nbrs e opts exec_new ((es1 @ [Visit n]) @ es2) t" by simp
  then obtain u where "exec_run nbrs e opts exec_new (es1 @ [Visit n]) u" unfolding exec_run_append by blast
  then obtain v where v: "exec_run nbrs e opts exec_new es1 v" and "exec_step nbrs e opts v (Visit n) u"
    by (rule exec_run_snocE)
  then have p: "x_phase v n = Permitted" by (auto elim: exec_visitE)
  then have "Visit n \<notin> set es1" using exec_visited [OF v refl] by force
  moreover have "\<exists>x \<in> set es1. is_over d x" if "d \<in> set (node_deps nbrs e n)" for d
  proof -
    note inv = exec_run_inv [OF v exec_inv_new]
    have "n \<in> set (w_held (x_walk v))" using exec_inv_dest(1) [OF inv] p by simp
    then have "w_status (x_walk v) n = Emitted" by (rule walk_inv_held [OF exec_inv_dest(5) [OF inv]])
    with walk_inv_active [OF exec_inv_dest(5) [OF inv], of n] that have "w_status (x_walk v) d = Finished"
      by (simp add: deps_finished_def)
    then have "x_phase v d = Ended" using exec_inv_dest(2) [OF inv] by simp
    from exec_ended [OF v refl this] show ?thesis .
  qed
  ultimately show ?thesis by blast
qed

text \<open>
  C3: in every interleaving, a task is handed to the visitor at most once and only after all it
  depends on is over, and without the parallel option never more tasks than the concurrency allows
  hold a permit.
\<close>

theorem execute_respects_dependencies:
  assumes run: "exec_run nbrs e opts exec_new (es1 @ Visit n # es2) t"
  shows "(\<forall>d \<in> set (node_deps nbrs e n). \<exists>x \<in> set es1. is_over d x) \<and>
    Visit n \<notin> set es1 \<and> Visit n \<notin> set es2 \<and>
    (\<not> eo_parallel opts \<longrightarrow> card (permit_holders t) \<le> eo_concurrency opts)"
proof -
  have "Visit n \<notin> set es2"
  proof
    assume "Visit n \<in> set es2"
    then obtain a b where "es2 = a @ Visit n # b" by (meson split_list)
    with run have "exec_run nbrs e opts exec_new ((es1 @ Visit n # a) @ Visit n # b) t" by simp
    from visit_once_head [OF this] show False by simp
  qed
  with visit_once_head [OF run] exec_inv_dest(3) [OF exec_run_inv [OF run exec_inv_new]]
  show ?thesis by blast
qed

text \<open>
  once a task has asked to stop, the walker emits no further node.
\<close>

theorem execute_stop_emits_nothing:
  assumes "exec_run nbrs e opts exec_new (es1 @ Internal (Emit n) # es2) t"
  shows "StopRequested m \<notin> set es1"
proof
  assume stop: "StopRequested m \<in> set es1"
  from assms have "exec_run nbrs e opts exec_new ((es1 @ [Internal (Emit n)]) @ es2) t" by simp
  then obtain u where "exec_run nbrs e opts exec_new (es1 @ [Internal (Emit n)]) u"
    unfolding exec_run_append by blast
  then obtain v where v: "exec_run nbrs e opts exec_new es1 v"
    and s: "exec_step nbrs e opts v (Internal (Emit n)) u" by (rule exec_run_snocE)
  have "Cancel \<in> set (walk_parts es1)" using stop by force
  with walk_run_cancel [OF exec_run_walk [OF v]] have "w_cancel (x_walk v)" by (simp add: exec_new_def)
  moreover from s have "\<not> w_cancel (x_walk v)"
    by (cases rule: exec_step.cases) (auto elim: walk_step_emitE)
  ultimately show False by simp
qed

fun phase_rank :: "task_phase \<Rightarrow> nat" where
  "phase_rank NotSpawned = 5"
| "phase_rank Spawned = 4"
| "phase_rank Permitted = 3"
| "phase_rank Visiting = 2"
| "phase_rank Stopping = 1"
| "phase_rank Ended = 0"

definition exec_measure :: "engine \<Rightarrow> exec_state \<Rightarrow> nat" where
  "exec_measure e s = walk_measure (node_list e) (x_walk s) + (\<Sum>n \<in> set (node_list e). phase_rank (x_phase s n))"

lemma sum_phase_upd:
  fixes f :: "nat \<Rightarrow> task_phase"
  assumes "n \<in> A" and "finite A"
  shows "(\<Sum>m \<in> A. phase_rank ((f(n := p)) m)) + phase_rank (f n) = (\<Sum>m \<in> A. phase_rank (f m)) + phase_rank p"
proof -
  have "(\<Sum>m \<in> A - {n}. phase_rank ((f(n := p)) m)) = (\<Sum>m \<in> A - {n}. phase_rank (f m))"
    by (rule sum.cong) auto
  then show ?thesis using assms by (simp add: sum.remove [of A n])
qed

lemma exec_active_node: "exec_inv nbrs e opts s \<Longrightarrow> x_phase s n \<in> active \<Longrightarrow> n \<in> set (node_list e)"
  using exec_inv_dest(1,5) walk_inv_nodes by (metis status.distinct(1) walk_inv_held)

lemma exec_step_measure:
  assumes step: "exec_step nbrs e opts s x t" and inv: "exec_inv nbrs e opts s"
  shows "exec_measure e t + (if x = CloseVisitor then 0 else 1) \<le> exec_measure e s"
proof -
  note w = exec_inv_dest(5) [OF inv]
  have move: "exec_measure e t + 1 \<le> exec_measure e s"
    if "n \<in> set (node_list e)" "x_phase t = (x_phase s)(n := p)" "phase_rank p < phase_rank (x_phase s n)"
      "walk_measure (node_list e) (x_walk t) \<le> walk_measure (node_list e) (x_walk s)" for n p
    using that sum_phase_upd [OF that(1), of "x_phase s" p] by (simp add: exec_measure_def)
  have walk: "walk_measure (node_list e) u \<le> walk_measure (node_list e) (x_walk s)"
    if "walk_step (node_list e) (node_deps nbrs e) (x_walk s) ev u" for ev u
    using walk_step_measure [OF that w] by simp
  have act: "n \<in> set (node_list e)" if "x_phase s n \<in> active" for n
    using exec_active_node [OF inv that] .
  show ?thesis
    using step
  proof (cases rule: exec_step.cases)
    case (internal ev u)
    then have "\<not> quiet ev" by (cases ev) (auto simp: quiet_def)
    with walk_step_measure [OF internal(4) w] show ?thesis by (simp add: internal exec_measure_def)
  next
    case (spawn n u)
    note r = walk_step_recv [OF spawn(3) w]
    have "n \<in> set (node_list e)" using walk_inv_nodes [OF w, of n] r by simp
    moreover have "x_phase s n = NotSpawned"
      using r exec_inv_dest(1,2) [OF inv, of n] by (cases "x_phase s n") auto
    ultimately show ?thesis using move [of n Spawned] walk [OF spawn(3)] by (simp add: spawn)
  next
    case (root_done n u)
    then show ?thesis using move [of n Ended] walk [OF root_done(5)] act [of n] by simp
  next
    case (acquire n)
    then show ?thesis using move [of n Permitted] act [of n] by simp
  next
    case (visit n)
    then show ?thesis using move [of n Visiting] act [of n] by simp
  next
    case (visit_err n u)
    then show ?thesis using move [of n Ended] walk [OF visit_err(5)] act [of n] by simp
  next
    case (returned n u)
    then show ?thesis using move [of n Ended] walk [OF returned(4)] act [of n] by simp
  next
    case (stop_requested n u)
    then show ?thesis using move [of n Stopping] walk [OF stop_requested(4)] act [of n] by simp
  next
    case (after_stop n u)
    then show ?thesis using move [of n Ended] walk [OF after_stop(4)] act [of n] by simp
  next
    case close_visitor
    then show ?thesis by (simp add: exec_measure_def)
  qed
qed

lemma exec_run_measure:
  "exec_run nbrs e opts s es t \<Longrightarrow> exec_inv nbrs e opts s \<Longrightarrow>
     exec_measure e t + length (filter (\<lambda>x. x \<noteq> CloseVisitor) es) \<le> exec_measure e s"
proof (induction rule: exec_run.induct)
  case run_nil
  then show ?case by simp
next
  case (run_snoc s es t x u)
  from exec_step_measure [OF run_snoc.hyps(2) exec_run_inv [OF run_snoc.hyps(1) run_snoc.prems]]
  have "exec_measure e u + (if x = CloseVisitor then 0 else 1) \<le> exec_measure e t" .
  with run_snoc.IH [OF run_snoc.prems] show ?case by (simp split: if_splits)
qed

text \<open>
  C5: execution terminates: whatever the walker, the spawned tasks and the visitor do, a run has at
  most nine steps for each node of the task graph.
\<close>

theorem execute_terminates:
  assumes "exec_run nbrs e opts exec_new es t"
  shows "length (filter (\<lambda>x. x \<noteq> CloseVisitor) es) \<le> 9 * length (g_nodes (e_graph e))"
  using exec_run_measure [OF assms exec_inv_new]
  by (simp add: exec_measure_def exec_new_def walk_measure_def walker_new_def)

definition exec_stuck ::
  "((nat \<times> nat) list \<Rightarrow> nat \<Rightarrow> nat list) \<Rightarrow> engine \<Rightarrow> execution_options \<Rightarrow> exec_state \<Rightarrow> bool"
where
  "exec_stuck nbrs e opts s \<longleftrightarrow> (\<forall>x t. exec_step nbrs e opts s x t \<longrightarrow> x = CloseVisitor)"

lemma exec_stuckD: "exec_stuck nbrs e opts s \<Longrightarrow> exec_step nbrs e opts s x t \<Longrightarrow> x = CloseVisitor"
  unfolding exec_stuck_def by blast

lemma stuck_no_holder:
  assumes inv: "exec_inv nbrs e opts s" and stuck: "exec_stuck nbrs e opts s"
  shows "permit_holders s = {}"
proof (rule ccontr)
  assume "permit_holders s \<noteq> {}"
  then obtain m where m: "x_phase s m \<in> {Permitted, Visiting, Stopping}" by (auto simp: permit_holders_def)
  then have "m \<in> set (w_held (x_walk s))" using exec_inv_dest(1) [OF inv] by auto
  note ends = walk_step.done_ [OF this, of "node_list e" "node_deps nbrs e"]
  from m consider "x_phase s m = Permitted" | "x_phase s m = Visiting" | "x_phase s m = Stopping" by blast
  then show False
  proof cases
    case 1
    then show False
    proof (cases "x_visitor_open s")
      case True
      from exec_stuckD [OF stuck exec_step.visit [OF 1 True]] show False by simp
    next
      case False
      from exec_stuckD [OF stuck exec_step.visit_err [where nbrs = nbrs and e = e, OF 1 False ends]] show False by simp
    qed
  next
    case 2
    from exec_stuckD [OF stuck exec_step.returned [where nbrs = nbrs and e = e, OF 2 ends]] show False by simp
  next
    case 3
    from exec_stuckD [OF stuck exec_step.after_stop [where nbrs = nbrs and e = e, OF 3 ends]] show False by simp
  qed
qed

lemma stuck_nothing_held:
  assumes inv: "exec_inv nbrs e opts s" and stuck: "exec_stuck nbrs e opts s"
    and slots: "eo_parallel opts \<or> 0 < eo_concurrency opts"
  shows "w_held (x_walk s) = []"
proof (rule ccontr)
  assume "w_held (x_walk s) \<noteq> []"
  then obtain n where n: "n \<in> set (w_held (x_walk s))" by (cases "w_held (x_walk s)") auto
  note free = stuck_no_holder [OF inv stuck]
  have sp: "x_phase s n = Spawned"
    using exec_inv_dest(1) [OF inv, of n] n free by (auto simp: permit_holders_def)
  show False
  proof (cases "is_root e n")
    case True
    from exec_stuckD [OF stuck exec_step.root_done [where nbrs = nbrs and e = e, OF sp True walk_step.done_ [OF n]]] show False by simp
  next
    case False
    have "eo_parallel opts \<or> card (permit_holders s) < eo_concurrency opts" using slots free by simp
    from exec_stuckD [OF stuck exec_step.acquire [OF sp False this]] show False by simp
  qed
qed

lemma stuck_walker:
  assumes inv: "exec_inv nbrs e opts s" and stuck: "exec_stuck nbrs e opts s"
    and slots: "eo_parallel opts \<or> 0 < eo_concurrency opts"
  shows "walk_stuck (node_list e) (node_deps nbrs e) (x_walk s)"
  unfolding walk_stuck_def
proof (intro allI impI)
  fix w u assume step: "walk_step (node_list e) (node_deps nbrs e) (x_walk s) w u"
  show "quiet w"
  proof (cases "walker_internal w")
    case True
    from exec_stuckD [OF stuck exec_step.internal [where nbrs = nbrs and e = e, OF True step]] show ?thesis by simp
  next
    case False
    then show ?thesis
    proof (cases w)
      case (Recv n)
      from exec_stuckD [OF stuck exec_step.spawn [where nbrs = nbrs and e = e, OF step [unfolded Recv]]] show ?thesis by simp
    next
      case (Done n)
      from walk_step_done [OF step [unfolded Done] exec_inv_dest(5) [OF inv]]
        stuck_nothing_held [OF assms] show ?thesis by simp
    qed (auto simp: quiet_def)
  qed
qed

lemma exec_ended_visited:
  "exec_run nbrs e opts s es t \<Longrightarrow> s = exec_new \<Longrightarrow>
     (x_visitor_open t \<longleftrightarrow> CloseVisitor \<notin> set es) \<and>
     (x_phase t n \<in> {Visiting, Stopping, Ended} \<longrightarrow>
        Visit n \<in> set es \<or> is_root e n \<or> CloseVisitor \<in> set es)"
proof (induction rule: exec_run.induct)
  case run_nil
  then show ?case by (simp add: exec_new_def)
next
  case (run_snoc s es t x u)
  from run_snoc.hyps(2) run_snoc.IH [OF run_snoc.prems] show ?case
    by (cases rule: exec_step.cases) (auto split: if_splits)
qed

lemma walk_parts_cancel: "Cancel \<in> set (walk_parts es) \<Longrightarrow>
  exec_run nbrs e opts s es t \<Longrightarrow> \<exists>m. StopRequested m \<in> set es"
proof -
  assume "Cancel \<in> set (walk_parts es)" and run: "exec_run nbrs e opts s es t"
  then obtain x where x: "x \<in> set es" "Cancel \<in> set (walk_part x)" by auto
  from x(2) consider "x = Internal Cancel" | m where "x = StopRequested m" by (cases x) auto
  then show ?thesis
  proof cases
    case 1
    have "Internal Cancel \<notin> set es" using run
      by (induction rule: exec_run.induct) (auto elim: exec_step.cases)
    with 1 x show ?thesis by blast
  next
    case 2
    with x show ?thesis by blast
  qed
qed

lemma walk_parts_open:
  "exec_run nbrs e opts s es t \<Longrightarrow> CloseReceiver \<notin> set (walk_parts es)"
  by (induction rule: exec_run.induct) (auto dest: exec_step_walk)

text \<open>
  C4: with at least one slot, execution of an acyclic engine never gets stuck: when no step is
  possible any more every task that was started has ended, and unless a task asked to stop every
  node was processed, each task having been handed to the visitor if the visitor stayed.
\<close>

theorem execute_completes:
  assumes nb: "neighbors_spec nbrs" and wf: "wf_graph (e_graph e)" and acyclic: "acyclic_graph (e_graph e)"
    and slots: "eo_parallel opts \<or> 0 < eo_concurrency opts"
    and run: "exec_run nbrs e opts exec_new es t" and stuck: "exec_stuck nbrs e opts t"
    and n: "n < length (g_nodes (e_graph e))"
  shows "x_phase t n \<in> {Ended, NotSpawned} \<and>
    ((\<forall>m. StopRequested m \<notin> set es) \<longrightarrow> x_phase t n = Ended \<and>
       (\<not> is_root e n \<and> CloseVisitor \<notin> set es \<longrightarrow> Visit n \<in> set es))"
proof -
  note inv = exec_run_inv [OF run exec_inv_new]
  have wrun: "walk_run (node_list e) (node_deps nbrs e) walker_new (walk_parts es) (x_walk t)"
    using exec_run_walk [OF run] by (simp add: exec_new_def)
  have closed: "\<forall>n \<in> set (node_list e). set (node_deps nbrs e n) \<subseteq> set (node_list e)"
    using nb wf by (auto simp: neighbors_spec_def wf_graph_def)
  have "{(d, n). n \<in> set (node_list e) \<and> d \<in> set (node_deps nbrs e n)} \<subseteq> (set (g_edges (e_graph e)))\<inverse>"
    using nb by (auto simp: neighbors_spec_def)
  then have acyc: "acyclic {(d, n). n \<in> set (node_list e) \<and> d \<in> set (node_deps nbrs e n)}"
    using acyclic by (auto intro: acyclic_subset simp: acyclic_graph_def)
  note ends = walk_ends [OF closed acyc wrun stuck_walker [OF inv stuck slots], THEN bspec, of n]
  have "x_phase t n \<notin> active"
    using exec_inv_dest(1) [OF inv, of n] stuck_nothing_held [OF inv stuck slots] by auto
  then have phase: "x_phase t n \<in> {Ended, NotSpawned}" by (cases "x_phase t n") auto
  moreover have "x_phase t n = Ended \<and> (\<not> is_root e n \<and> CloseVisitor \<notin> set es \<longrightarrow> Visit n \<in> set es)"
    if "\<forall>m. StopRequested m \<notin> set es"
  proof -
    have "Cancel \<notin> set (walk_parts es)" using walk_parts_cancel [OF _ run] that by blast
    with ends n walk_parts_open [OF run] have "w_status (x_walk t) n = Finished" by simp
    then have "x_phase t n = Ended" using exec_inv_dest(2) [OF inv] by simp
    with exec_ended_visited [OF run refl, of n] show ?thesis by blast
  qed
  ultimately show ?thesis by blast
qed

subsection \<open>The steps as a function\<close>

definition walk_then ::
  "((nat \<times> nat) list \<Rightarrow> nat \<Rightarrow> nat list) \<Rightarrow> engine \<Rightarrow> exec_state \<Rightarrow> nat walk_event \<Rightarrow>
   (exec_state \<Rightarrow> exec_state) \<Rightarrow> exec_state option"
where
  "walk_then nbrs e s w f =
     map_option (\<lambda>u. f (s\<lparr>x_walk := u\<rparr>)) (walk_exec (node_list e) (node_deps nbrs e) (x_walk s) w)"

definition free_slot :: "engine \<Rightarrow> execution_options \<Rightarrow> exec_state \<Rightarrow> bool" where
  "free_slot e opts s \<longleftrightarrow> eo_parallel opts \<or>
     length (filter (\<lambda>n. x_phase s n \<in> {Permitted, Visiting, Stopping}) (node_list e)) < eo_concurrency opts"

fun exec_exec ::
  "((nat \<times> nat) list \<Rightarrow> nat \<Rightarrow> nat list) \<Rightarrow> engine \<Rightarrow> execution_options \<Rightarrow>
   exec_state \<Rightarrow> exec_event \<Rightarrow> exec_state option"
where
  "exec_exec nbrs e opts s (Internal w) = (if walker_internal w then walk_then nbrs e s w (\<lambda>t. t) else None)"
| "exec_exec nbrs e opts s (Spawn n) = walk_then nbrs e s (Recv n) (\<lambda>t. set_phase t n Spawned)"
| "exec_exec nbrs e opts s (RootDone n) =
     (if x_phase s n = Spawned \<and> is_root e n then walk_then nbrs e s (Done n) (\<lambda>t. set_phase t n Ended) else None)"
| "exec_exec nbrs e opts s (Acquire n) =
     (if x_phase s n = Spawned \<and> \<not> is_root e n \<and> free_slot e opts s then Some (set_phase s n Permitted) else None)"
| "exec_exec nbrs e opts s (Visit n) =
     (if x_phase s n = Permitted \<and> x_visitor_open s then Some (set_phase s n Visiting) else None)"
| "exec_exec nbrs e opts s (VisitErr n) =
     (if x_phase s n = Permitted \<and> \<not> x_visitor_open s
      then walk_then nbrs e s (Done n) (\<lambda>t. (set_phase t n Ended)\<lparr>x_failed := True\<rparr>) else None)"
| "exec_exec nbrs e opts s (Returned n) =
     (if x_phase s n = Visiting then walk_then nbrs e s (Done n) (\<lambda>t. set_phase t n Ended) else None)"
| "exec_exec nbrs e opts s (StopRequested n) =
     (if x_phase s n = Visiting then walk_then nbrs e s Cancel (\<lambda>t. set_phase t n Stopping) else None)"
| "exec_exec nbrs e opts s (AfterStop n) =
     (if x_phase s n = Stopping then walk_then nbrs e s (Done n) (\<lambda>t. set_phase t n Ended) else None)"
| "exec_exec nbrs e opts s CloseVisitor = Some (s\<lparr>x_visitor_open := False\<rparr>)"

lemma free_slot_card:
  assumes "exec_inv nbrs e opts s"
  shows "free_slot e opts s \<longleftrightarrow> eo_parallel opts \<or> card (permit_holders s) < eo_concurrency opts"
proof -
  have "permit_holders s = set (filter (\<lambda>n. x_phase s n \<in> {Permitted, Visiting, Stopping}) (node_list e))"
    using exec_active_node [OF assms] by (auto simp: permit_holders_def)
  then have "card (permit_holders s) =
      length (filter (\<lambda>n. x_phase s n \<in> {Permitted, Visiting, Stopping}) (node_list e))"
    by (simp only: distinct_card distinct_filter distinct_upt)
  then show ?thesis by (simp add: free_slot_def)
qed

lemma walk_then_Some:
  "walk_then nbrs e s w f = Some t \<longleftrightarrow>
     (\<exists>u. walk_step (node_list e) (node_deps nbrs e) (x_walk s) w u \<and> t = f (s\<lparr>x_walk := u\<rparr>))"
  unfolding walk_then_def walk_exec_step [symmetric] by (auto simp del: walk_exec.simps)

lemma exec_exec_step:
  assumes "exec_inv nbrs e opts s" and "exec_exec nbrs e opts s x = Some t"
  shows "exec_step nbrs e opts s x t"
proof (cases x)
  case (Acquire n)
  with assms free_slot_card [OF assms(1)] show ?thesis by (auto split: if_splits intro: exec_step.acquire)
qed (use assms(2) in \<open>auto simp: walk_then_Some split: if_splits intro: exec_step.intros\<close>)

fun exec_exec_all ::
  "((nat \<times> nat) list \<Rightarrow> nat \<Rightarrow> nat list) \<Rightarrow> engine \<Rightarrow> execution_options \<Rightarrow>
   exec_state \<Rightarrow> exec_event list \<Rightarrow> exec_state option"
where
  "exec_exec_all nbrs e opts s [] = Some s"
| "exec_exec_all nbrs e opts s (x # xs) =
     (case exec_exec nbrs e opts s x of None \<Rightarrow> None | Some t \<Rightarrow> exec_exec_all nbrs e opts t xs)"

lemma exec_run_Cons:
  "exec_step nbrs e opts s x t \<Longrightarrow> exec_run nbrs e opts t xs u \<Longrightarrow> exec_run nbrs e opts s (x # xs) u"
  using exec_run_append [of nbrs e opts s "[x]" xs u] exec_run.run_snoc [OF exec_run.run_nil] by fastforce

lemma exec_exec_all_run:
  "exec_exec_all nbrs e opts s xs = Some t \<Longrightarrow> exec_inv nbrs e opts s \<Longrightarrow> exec_run nbrs e opts s xs t"
proof (induction xs arbitrary: s)
  case Nil
  then show ?case by (simp add: exec_run.run_nil)
next
  case (Cons x xs)
  then obtain u where "exec_exec nbrs e opts s x = Some u" "exec_exec_all nbrs e opts u xs = Some t"
    by (auto split: option.splits)
  with Cons exec_exec_step exec_step_inv exec_run_Cons show ?case by metis
qed

definition serial :: execution_options where
  "serial = \<lparr>eo_parallel = False, eo_concurrency = 1\<rparr>"

definition run_task :: "nat \<Rightarrow> exec_event list" where
  "run_task n = [Internal (Emit n), Spawn n, Acquire n, Visit n, Returned n, Internal (Finish n)]"

definition sample_execution :: "exec_event list" where
  "sample_execution =
     [Internal (Emit 0), Spawn 0, RootDone 0, Internal (Finish 0)] @ run_task 1 @ run_task 2"

definition sample_execution_end :: exec_state where
  "sample_execution_end =
     \<lparr>x_walk = walker_new\<lparr>w_status := (\<lambda>n. if n < 3 then Finished else Waiting)\<rparr>,
      x_phase = (\<lambda>n. if n < 3 then Ended else NotSpawned), x_visitor_open = True, x_failed = False\<rparr>"

lemma sample_engine_edges: "g_edges (e_graph sample_engine) = [(1, 0), (2, 0)]"
  by (simp add: sample_engine_def Let_def add_definition_def connect_to_root_def
      get_index_def engine_new_def add_node_def add_edge_def)

lemmas sample_simps = sample_engine_nodes sample_engine_edges serial_def list_neighbors_def
  is_root_def free_slot_def walk_then_def deps_finished_def exec_new_def walker_new_def

lemma sample_execution_run:
  "exec_run list_neighbors sample_engine serial exec_new sample_execution sample_execution_end"
proof (rule exec_exec_all_run [OF _ exec_inv_new])
  show "exec_exec_all list_neighbors sample_engine serial exec_new sample_execution = Some sample_execution_end"
    by (simp add: sample_execution_def run_task_def sample_simps upt_rec sample_execution_end_def)
      (auto simp: fun_eq_iff less_Suc_eq numeral_3_eq_3)
qed


lemma sample_execution_parts:
  "sample_execution =
     ([Internal (Emit 0), Spawn 0, RootDone 0, Internal (Finish 0), Internal (Emit 1), Spawn 1, Acquire 1]) @
      Visit 1 # ([Returned 1, Internal (Finish 1)] @ run_task 2)"
  "sample_execution =
     ([Internal (Emit 0), Spawn 0, RootDone 0, Internal (Finish 0)]) @
      Internal (Emit 1) # ([Spawn 1, Acquire 1, Visit 1, Returned 1, Internal (Finish 1)] @ run_task 2)"
  by (simp_all add: sample_execution_def run_task_def)

theorem execute_respects_dependencies_witness:
  "(\<exists>x \<in> set [Internal (Emit 0), Spawn 0, RootDone 0, Internal (Finish 0), Internal (Emit 1), Spawn 1, Acquire 1].
      is_over 0 x) \<and>
   card (permit_holders sample_execution_end) \<le> 1"
proof -
  note r = execute_respects_dependencies [OF sample_execution_run [unfolded sample_execution_parts(1)]]
  have "0 \<in> set (node_deps list_neighbors sample_engine 1)"
    by (simp add: list_neighbors_def sample_engine_edges)
  with r show ?thesis by (simp add: serial_def)
qed

theorem execute_stop_emits_nothing_witness:
  "exec_run list_neighbors sample_engine serial exec_new sample_execution sample_execution_end \<and>
   StopRequested 0 \<notin> set [Internal (Emit 0), Spawn 0, RootDone 0, Internal (Finish 0)]"
  using sample_execution_run
    execute_stop_emits_nothing [OF sample_execution_run [unfolded sample_execution_parts(2)], of 0] by blast

theorem execute_terminates_witness:
  "exec_run list_neighbors sample_engine serial exec_new sample_execution sample_execution_end \<and>
   length (filter (\<lambda>x. x \<noteq> CloseVisitor) sample_execution) \<le> 9 * length (g_nodes (e_graph sample_engine))"
  using sample_execution_run execute_terminates [OF sample_execution_run] by blast

theorem execute_completes_witness:
  "exec_stuck list_neighbors sample_engine serial sample_execution_end \<and> Visit 2 \<in> set sample_execution"
proof -
  have stuck: "exec_stuck list_neighbors sample_engine serial sample_execution_end"
    unfolding exec_stuck_def
    by (auto elim!: exec_step.cases walk_step.cases
        simp: sample_execution_end_def walker_new_def sample_engine_nodes split: if_splits)
  have acyc: "acyclic_graph (e_graph sample_engine)"
    unfolding acyclic_graph_def by (rule acyclicI_order [where f = id]) (auto simp: sample_engine_edges)
  have wf: "wf_graph (e_graph sample_engine)" using sample_engine_ok by (simp add: engine_ok_def)
  have "eo_parallel serial \<or> 0 < eo_concurrency serial" by (simp add: serial_def)
  from execute_completes [OF list_neighbors_spec wf acyc this sample_execution_run stuck, of 2]
  have "Visit 2 \<in> set sample_execution"
    by (simp add: sample_engine_nodes is_root_def) (simp add: sample_execution_def run_task_def)
  with stuck show ?thesis by blast
qed

end
