(* ===== verification/Npm_Lockfile.thy ===== *)
theory Npm_Lockfile
  imports Lockfiles
begin

text \<open>
  \<open>nrzrepo-lockfiles/src/npm.rs\<close>. JSON values the code only carries along are the type
  parameter \<open>'j\<close>; \<open>serde_json\<close>'s reader and writer are parameters of \<open>npm_load\<close> and
  \<open>npm_subgraph\<close>. In \<open>npm_global_change\<close> the argument \<open>other\<close> is the result of the downcast
  of the other lockfile, \<open>None\<close> when it is of another kind.
\<close>

record 'j npm_package =
  np_version :: "string option"
  np_resolved :: "string option"
  np_dependencies :: "(string, string) btree_map"
  np_dev_dependencies :: "(string, string) btree_map"
  np_peer_dependencies :: "(string, string) btree_map"
  np_optional_dependencies :: "(string, string) btree_map"
  np_other :: "(string, 'j) btree_map"

record 'j npm_lockfile =
  nl_lockfile_version :: int
  nl_packages :: "(string, 'j npm_package) btree_map"
  nl_dependencies :: "(string, 'j) btree_map"
  nl_other :: "(string, 'j) btree_map"

definition npm_entry :: "'j npm_lockfile \<Rightarrow> string \<Rightarrow> lf_package option" where
  "npm_entry lf key =
     map_option (\<lambda>pkg. Package key (case np_version pkg of Some v \<Rightarrow> v | None \<Rightarrow> [])) (map_of (nl_packages lf) key)"

definition npm_possible_keys :: "string \<Rightarrow> string \<Rightarrow> string list" where
  "npm_possible_keys workspace_path name =
     [name, workspace_path @ ''/node_modules/'' @ name, ''node_modules/'' @ name]"

definition npm_resolve_package :: "'j npm_lockfile \<Rightarrow> resolver" where
  "npm_resolve_package lf workspace_path name version =
     (if map_of (nl_packages lf) workspace_path = None then Inl (MissingWorkspace workspace_path)
      else Inr (find_map (npm_entry lf) (npm_possible_keys workspace_path name)))"

definition npm_path_parent :: "string \<Rightarrow> string option" where
  "npm_path_parent key =
     (case rsplit_once_str ''node_modules/'' key of
        Some (parent, _) \<Rightarrow> if parent = [] then None else Some parent
      | None \<Rightarrow> None)"

lemma npm_path_parent_shorter: "npm_path_parent key = Some p \<Longrightarrow> length p < length key"
  by (auto simp: npm_path_parent_def dest!: rsplit_once_str_Some split: option.splits if_splits)

text \<open>The loop that climbs the nesting of \<open>node_modules\<close> directories.\<close>

function npm_climb :: "string \<Rightarrow> string \<Rightarrow> string list" where
  "npm_climb key dep =
     (case npm_path_parent key of
        None \<Rightarrow> [''node_modules/'' @ dep]
      | Some parent \<Rightarrow> (parent @ ''node_modules/'' @ dep) # npm_climb parent dep)"
  by pat_completeness auto

termination
  by (relation "measure (\<lambda>(key, dep). length key)") (auto dest: npm_path_parent_shorter)

declare npm_climb.simps [simp del]

definition possible_npm_deps :: "string \<Rightarrow> string \<Rightarrow> string list" where
  "possible_npm_deps key dep = (key @ ''/node_modules/'' @ dep) # npm_climb key dep"

definition npm_dep_keys :: "'j npm_package \<Rightarrow> string list" where
  "npm_dep_keys pkg =
     map fst (np_dependencies pkg) @ map fst (np_dev_dependencies pkg) @
     map fst (np_optional_dependencies pkg) @ map fst (np_peer_dependencies pkg)"

definition npm_dep_entry ::
  "'j npm_lockfile \<Rightarrow> string \<Rightarrow> (lockfile_error, string \<times> string) result option"
where
  "npm_dep_entry lf possible_key =
     (case map_of (nl_packages lf) possible_key of
        None \<Rightarrow> None
      | Some entry \<Rightarrow>
          (case np_version entry of
             Some version \<Rightarrow> Some (Inr (possible_key, version))
           | None \<Rightarrow>
               if np_resolved entry \<noteq> None then None else Some (Inl (MissingVersion possible_key))))"

definition npm_all_dependencies :: "'j npm_lockfile \<Rightarrow> dep_lookup" where
  "npm_all_dependencies lf key =
     (case map_of (nl_packages lf) key of
        None \<Rightarrow> Inr None
      | Some pkg \<Rightarrow>
          try_bind (try_map (\<lambda>r. r) (List.map_filter
              (\<lambda>name. find_map (npm_dep_entry lf) (possible_npm_deps key name)) (npm_dep_keys pkg)))
            (\<lambda>pairs. Inr (Some (hm_collect pairs))))"

definition npm_get_package :: "'j npm_lockfile \<Rightarrow> string \<Rightarrow> (lockfile_error, 'j npm_package) result" where
  "npm_get_package lf package =
     (case map_of (nl_packages lf) package of Some p \<Rightarrow> Inr p | None \<Rightarrow> Inl (MissingPackage package))"

fun npm_keep_packages ::
  "'j npm_lockfile \<Rightarrow> string list \<Rightarrow> (string, 'j npm_package) btree_map \<Rightarrow>
    (lockfile_error, (string, 'j npm_package) btree_map) result"
where
  "npm_keep_packages lf [] pruned = Inr pruned"
| "npm_keep_packages lf (key # keys) pruned =
     try_bind (npm_get_package lf key) (\<lambda>pkg. npm_keep_packages lf keys (bt_insert key pkg pruned))"

fun npm_keep_workspaces ::
  "'j npm_lockfile \<Rightarrow> string list \<Rightarrow> (string, 'j npm_package) btree_map \<Rightarrow>
    (lockfile_error, (string, 'j npm_package) btree_map) result"
where
  "npm_keep_workspaces lf [] pruned = Inr pruned"
| "npm_keep_workspaces lf (workspace # rest) pruned =
     try_bind (npm_get_package lf workspace) (\<lambda>pkg.
       (let pruned1 = bt_insert workspace pkg pruned
        in npm_keep_workspaces lf rest
             (case List.find (\<lambda>(key, entry). np_resolved entry = Some workspace) (nl_packages lf) of
                Some (key, entry) \<Rightarrow> bt_insert key entry pruned1
              | None \<Rightarrow> pruned1)))"

definition npm_subgraph ::
  "'j npm_lockfile \<Rightarrow> string list \<Rightarrow> string list \<Rightarrow> (lockfile_error, 'j npm_lockfile) result"
where
  "npm_subgraph lf workspace_packages packages =
     try_bind (npm_keep_packages lf packages []) (\<lambda>pruned.
       (let pruned1 = (case map_of (nl_packages lf) [] of
                         Some root \<Rightarrow> bt_insert [] root pruned
                       | None \<Rightarrow> pruned)
        in try_bind (npm_keep_workspaces lf workspace_packages pruned1) (\<lambda>pruned2.
             Inr \<lparr>nl_lockfile_version = 3, nl_packages = pruned2, nl_dependencies = [],
                  nl_other = nl_other lf\<rparr>)))"

definition npm_global_change :: "'j npm_lockfile \<Rightarrow> 'j npm_lockfile option \<Rightarrow> bool" where
  "npm_global_change lf other =
     (case other of
        Some o' \<Rightarrow> nl_lockfile_version lf \<noteq> nl_lockfile_version o' \<or>
          map_of (nl_other lf) ''requires'' \<noteq> map_of (nl_other o') ''requires''
      | None \<Rightarrow> True)"

definition npm_nrz_version :: "'j npm_lockfile \<Rightarrow> string option" where
  "npm_nrz_version lf =
     (case map_of (nl_packages lf) ''node_modules/nrz'' of None \<Rightarrow> None | Some e \<Rightarrow> np_version e)"

definition npm_human_name :: "'j npm_lockfile \<Rightarrow> lf_package \<Rightarrow> string option" where
  "npm_human_name lf package =
     (case map_of (nl_packages lf) (pkg_key package) of
        None \<Rightarrow> None
      | Some e \<Rightarrow>
          map_option (\<lambda>version.
              (case rsplit_once_str ''node_modules/'' (pkg_key package) of
                 Some (_, name) \<Rightarrow> name | None \<Rightarrow> pkg_key package) @ ''@'' @ version)
            (np_version e))"

definition npm_load ::
  "('b \<Rightarrow> (string, 'j npm_lockfile) result) \<Rightarrow> 'b \<Rightarrow> (lockfile_error, 'j npm_lockfile) result"
where
  "npm_load from_slice content =
     (case from_slice content of
        Inl e \<Rightarrow> Inl (JsonError e)
      | Inr lf \<Rightarrow>
          if nl_lockfile_version lf \<le> 1 \<or> (nl_packages lf = [] \<and> nl_dependencies lf \<noteq> [])
          then Inl UnsupportedNpmVersion else Inr lf)"

definition npm_subgraph_bytes ::
  "('b \<Rightarrow> (string, 'j npm_lockfile) result) \<Rightarrow> ('j npm_lockfile \<Rightarrow> (string, 'b) result) \<Rightarrow>
    'b \<Rightarrow> string list \<Rightarrow> string list \<Rightarrow> (lockfile_error, 'b) result"
where
  "npm_subgraph_bytes from_slice to_vec_pretty contents workspace_packages packages =
     try_bind (npm_load from_slice contents) (\<lambda>lf.
     try_bind (npm_subgraph lf workspace_packages packages) (\<lambda>pruned.
       (case to_vec_pretty pruned of Inl e \<Rightarrow> Inl (JsonError e) | Inr b \<Rightarrow> Inr b)))"

definition npm_global_change_bytes ::
  "('b \<Rightarrow> (string, 'j npm_lockfile) result) \<Rightarrow> 'b \<Rightarrow> 'b \<Rightarrow> (lockfile_error, bool) result"
where
  "npm_global_change_bytes from_slice prev_contents curr_contents =
     try_bind (npm_load from_slice prev_contents) (\<lambda>prev.
     try_bind (npm_load from_slice curr_contents) (\<lambda>curr.
       Inr (nl_lockfile_version prev \<noteq> nl_lockfile_version curr \<or>
            map_of (nl_other prev) ''requires'' \<noteq> map_of (nl_other curr) ''requires'')))"

subsection \<open>Lookups\<close>

definition npm_pkgs :: "'j npm_lockfile \<Rightarrow> lf_package list" where
  "npm_pkgs lf = List.map_filter (npm_entry lf) (map fst (nl_packages lf))"

lemma npm_resolve_known:
  assumes "npm_resolve_package lf ws n v = Inr (Some p)"
  shows "p \<in> set (npm_pkgs lf)"
proof -
  from assms obtain k where k: "npm_entry lf k = Some p"
    by (auto simp: npm_resolve_package_def dest!: find_map_Some split: if_splits)
  then have "k \<in> fst ` set (nl_packages lf)"
    by (auto simp: npm_entry_def map_of_eq_None_iff [symmetric]) (metis option.distinct(1) map_of_eq_None_iff)
  with k show ?thesis by (auto simp: npm_pkgs_def List.map_filter_def image_iff)
qed

interpretation npm: lockfile npm_resolve_package npm_all_dependencies npm_pkgs
  by unfold_locales (rule npm_resolve_known)

subsection \<open>Pruning\<close>

definition npm_ok :: "'j npm_lockfile \<Rightarrow> bool" where
  "npm_ok lf \<longleftrightarrow> bt_ok (nl_packages lf)"

definition npm_part :: "'j npm_lockfile \<Rightarrow> (string, 'j npm_package) btree_map \<Rightarrow> bool" where
  "npm_part lf pruned \<longleftrightarrow> bt_ok pruned \<and> map_of pruned \<subseteq>\<^sub>m map_of (nl_packages lf)"

lemma npm_part_insert:
  "npm_part lf pruned \<Longrightarrow> map_of (nl_packages lf) k = Some e \<Longrightarrow> npm_part lf (bt_insert k e pruned)"
  by (auto simp: npm_part_def map_le_def)

lemma npm_get_package_Inr: "npm_get_package lf k = Inr e \<longleftrightarrow> map_of (nl_packages lf) k = Some e"
  by (auto simp: npm_get_package_def split: option.splits)

lemma dom_bt_insert [simp]: "bt_ok m \<Longrightarrow> dom (map_of (bt_insert k v m)) = insert k (dom (map_of m))"
  by simp

lemma npm_keep_packages_part:
  "npm_keep_packages lf keys pruned = Inr m \<Longrightarrow> npm_part lf pruned \<Longrightarrow>
    npm_part lf m \<and> set keys \<union> dom (map_of pruned) \<subseteq> dom (map_of m)"
proof (induction lf keys pruned rule: npm_keep_packages.induct)
  case (2 lf key keys pruned)
  then obtain e where e: "map_of (nl_packages lf) key = Some e"
    "npm_keep_packages lf keys (bt_insert key e pruned) = Inr m"
    by (auto simp: try_bind_Inr npm_get_package_Inr)
  from "2.IH" [OF e(2) npm_part_insert [OF "2.prems"(2) e(1)]] "2.prems"(2) show ?case
    by (auto simp: npm_part_def)
qed simp

lemma npm_keep_workspaces_part:
  "npm_keep_workspaces lf wss pruned = Inr m \<Longrightarrow> npm_part lf pruned \<Longrightarrow> npm_ok lf \<Longrightarrow>
    npm_part lf m \<and> set wss \<union> dom (map_of pruned) \<subseteq> dom (map_of m)"
proof (induction lf wss pruned rule: npm_keep_workspaces.induct)
  case (2 lf ws wss pruned)
  then obtain e where e: "map_of (nl_packages lf) ws = Some e" by (auto simp: try_bind_Inr npm_get_package_Inr)
  let ?p1 = "bt_insert ws e pruned"
  define p2 where "p2 = (case List.find (\<lambda>(key, entry). np_resolved entry = Some ws) (nl_packages lf) of
      Some (key, entry) \<Rightarrow> bt_insert key entry ?p1 | None \<Rightarrow> ?p1)"
  have p1: "npm_part lf ?p1" by (rule npm_part_insert [OF "2.prems"(2) e])
  have p2: "npm_part lf p2 \<and> dom (map_of ?p1) \<subseteq> dom (map_of p2)"
  proof (cases "List.find (\<lambda>(key, entry). np_resolved entry = Some ws) (nl_packages lf)")
    case (Some ke)
    obtain k en where ke: "ke = (k, en)" by (cases ke)
    then have "(k, en) \<in> set (nl_packages lf)" using find_in_set [OF Some] by simp
    then have "map_of (nl_packages lf) k = Some en"
      using "2.prems"(3) by (simp add: npm_ok_def bt_ok_distinct)
    from npm_part_insert [OF p1 this] p1 Some ke show ?thesis by (auto simp: npm_part_def p2_def)
  qed (use p1 in \<open>simp add: p2_def\<close>)
  have run: "npm_keep_workspaces lf wss p2 = Inr m"
    using "2.prems"(1) e by (auto simp: npm_get_package_def Let_def p2_def)
  have "npm_part lf m \<and> set wss \<union> dom (map_of p2) \<subseteq> dom (map_of m)"
    using "2.IH" [OF refl, of e, folded p2_def] run p2 "2.prems"(3) by blast
  moreover have "insert ws (dom (map_of pruned)) \<subseteq> dom (map_of p2)"
    using p2 dom_bt_insert "2.prems"(2) by (auto simp: npm_part_def)
  ultimately show ?case unfolding list.set by blast
qed simp

lemma npm_subgraph_part:
  assumes "npm_ok lf" and "npm_subgraph lf wss keys = Inr l'"
  shows "map_of (nl_packages l') \<subseteq>\<^sub>m map_of (nl_packages lf)"
    and "set keys \<union> set wss \<subseteq> dom (map_of (nl_packages l'))"
proof -
  obtain m1 where m1: "npm_keep_packages lf keys [] = Inr m1"
    using assms(2) by (auto simp: npm_subgraph_def try_bind_Inr)
  define m2 where "m2 = (case map_of (nl_packages lf) [] of Some root \<Rightarrow> bt_insert [] root m1 | None \<Rightarrow> m1)"
  have m3: "npm_keep_workspaces lf wss m2 = Inr (nl_packages l')"
    using assms(2) m1 by (auto simp: npm_subgraph_def try_bind_Inr m2_def)
  have part1: "npm_part lf m1 \<and> set keys \<subseteq> dom (map_of m1)"
    using npm_keep_packages_part [OF m1] by (simp add: npm_part_def bt_ok_def map_le_def)
  then have part2: "npm_part lf m2 \<and> set keys \<subseteq> dom (map_of m2)"
    using npm_part_insert [of lf m1 "[]"] by (auto simp: m2_def npm_part_def split: option.splits)
  with npm_keep_workspaces_part [OF m3 _ assms(1)]
  have "npm_part lf (nl_packages l')" "set wss \<union> dom (map_of m2) \<subseteq> dom (map_of (nl_packages l'))" by blast+
  with part2 show "map_of (nl_packages l') \<subseteq>\<^sub>m map_of (nl_packages lf)"
    and "set keys \<union> set wss \<subseteq> dom (map_of (nl_packages l'))"
    unfolding npm_part_def by blast+
qed

lemma sub_map_entry:
  assumes "map_of (nl_packages l') \<subseteq>\<^sub>m map_of (nl_packages l)"
  shows "npm_entry l' k = Some p \<Longrightarrow> npm_entry l k = Some p"
    and "npm_dep_entry l' k = Some r \<Longrightarrow> npm_dep_entry l k = Some r"
  using assms by (auto simp: npm_entry_def npm_dep_entry_def map_le_def dom_def split: option.splits)

lemma npm_entry_key: "npm_entry l k = Some p \<Longrightarrow> pkg_key p = k"
  by (auto simp: npm_entry_def)

lemma npm_prune_resolve:
  assumes ok: "npm_ok l" and sub: "npm_subgraph l wss keys = Inr l'" and ws: "ws \<in> set wss"
    and q: "npm_resolve_package l ws n v = Inr q" and key: "\<And>p. q = Some p \<Longrightarrow> pkg_key p \<in> set keys"
  shows "npm_resolve_package l' ws n v = Inr q"
proof -
  note part = npm_subgraph_part [OF ok sub]
  have found: "npm_entry l' x = Some p" if "q = Some p" "npm_entry l x = Some p" for x p
  proof -
    have "x \<in> dom (map_of (nl_packages l'))" using key [OF that(1)] npm_entry_key [OF that(2)] part(2) by auto
    then show ?thesis using that(2) part(1) by (auto simp: npm_entry_def map_le_def)
  qed
  have "find_map (npm_entry l) (npm_possible_keys ws n) = q"
    using q by (auto simp: npm_resolve_package_def split: if_splits)
  then have "find_map (npm_entry l') (npm_possible_keys ws n) = q"
    by (rule find_map_sub) (erule sub_map_entry(1) [OF part(1)], erule (1) found)
  then show ?thesis using part(2) ws by (auto simp: npm_resolve_package_def)
qed

lemma npm_prune_deps:
  assumes ok: "npm_ok l" and sub: "npm_subgraph l wss keys = Inr l'"
    and k: "k \<in> set keys" and ds: "npm_all_dependencies l k = Inr ds"
    and ws: "npm_resolve_package l ws n0 v0 = Inr (Some p0)"
    and key: "\<And>d n v p. ds = Some d \<Longrightarrow> (n, v) \<in> set d \<Longrightarrow> npm_resolve_package l ws n v = Inr (Some p) \<Longrightarrow>
      pkg_key p \<in> set keys"
  shows "npm_all_dependencies l' k = Inr ds"
proof -
  note part = npm_subgraph_part [OF ok sub]
  have "k \<in> dom (map_of (nl_packages l'))" using part(2) k by blast
  then obtain pkg where pkg: "map_of (nl_packages l') k = Some pkg" "map_of (nl_packages l) k = Some pkg"
    using part(1) unfolding map_le_def by (metis domD)
  let ?f = "\<lambda>l name. find_map (npm_dep_entry l) (possible_npm_deps k name)"
  obtain pairs where pairs: "try_map (\<lambda>r. r) (List.map_filter (?f l) (npm_dep_keys pkg)) = Inr pairs"
    and d: "ds = Some (hm_collect pairs)"
    using ds pkg(2) by (auto simp: npm_all_dependencies_def try_bind_Inr)
  have found: "npm_dep_entry l' x = Some r"
    if name: "name \<in> set (npm_dep_keys pkg)" and r: "?f l name = Some r" and x: "npm_dep_entry l x = Some r" for name r x
  proof -
    have "r \<in> set (List.map_filter (?f l) (npm_dep_keys pkg))" using name r by (force simp: List.map_filter_def)
    then obtain pr where pr: "r = Inr pr" "pr \<in> set pairs"
      using try_map_mem [OF pairs] by blast
    with x have fst: "fst pr = x" by (auto simp: npm_dep_entry_def split: option.splits if_splits)
    then obtain v' where v': "(x, v') \<in> set (hm_collect pairs)"
      using hm_collect_keys [of pairs] pr(2) by (metis fst_conv image_iff prod.collapse)
    obtain q where q: "npm_entry l x = Some q" using x by (auto simp: npm_dep_entry_def npm_entry_def split: option.splits)
    then have "npm_resolve_package l ws x v' = Inr (Some q)"
      using ws by (auto simp: npm_resolve_package_def npm_possible_keys_def split: if_splits)
    then have "x \<in> set keys" using key [OF d v'] npm_entry_key [OF q] by simp
    then have "x \<in> dom (map_of (nl_packages l'))" using part(2) by blast
    then show ?thesis using x part(1) by (auto simp: npm_dep_entry_def map_le_def)
  qed
  have "?f l' name = ?f l name" if "name \<in> set (npm_dep_keys pkg)" for name
    by (rule find_map_sub [OF refl]) (erule sub_map_entry(2) [OF part(1)], erule (1) found [OF that])
  then have "List.map_filter (?f l') (npm_dep_keys pkg) = List.map_filter (?f l) (npm_dep_keys pkg)"
    unfolding List.map_filter_def by (intro map_cong filter_cong) auto
  with pairs pkg d show ?thesis by (simp add: npm_all_dependencies_def)
qed

interpretation npm: prunable_lockfile npm_resolve_package npm_all_dependencies npm_pkgs npm_subgraph npm_ok
  by unfold_locales (rule npm_prune_resolve, assumption+, rule npm_prune_deps, assumption+)

subsection \<open>Properties\<close>

lemma length_npm_pkgs: "length (npm_pkgs lf) \<le> length (nl_packages lf)"
  by (simp add: npm_pkgs_def List.map_filter_def le_trans [OF length_filter_le])

text \<open>for an npm lockfile the closure of a workspace's dependencies always returns, with a nesting of
  calls of at most the number of its entries: either the set of all packages that the dependencies
  lead to, or an error that the lookup of one of them raises.\<close>

theorem npm_closure_correct:
  "(\<exists>r. transitive_closure_lock (npm_resolve_package l) (npm_all_dependencies l) (length (nl_packages l)) ws deps ignore =
       Some (Inr r) \<and> set r = {p. in_closure (npm_resolve_package l) (npm_all_dependencies l) ws deps p}) \<or>
   (\<exists>e. transitive_closure_lock (npm_resolve_package l) (npm_all_dependencies l) (length (nl_packages l)) ws deps ignore =
       Some (Inl e) \<and> fails (npm_resolve_package l) (npm_all_dependencies l) ws deps e)"
  by (rule npm.closure_correct [OF length_npm_pkgs])

text \<open>C9: \<open>prune\<close> keeps an npm lockfile sound: when \<open>subgraph\<close> is asked for a workspace and (at least) the
  packages of its closure, the lockfile it returns has the same closure for that workspace.\<close>

theorem npm_prune_preserves_closure:
  assumes "npm_ok l" and "npm_subgraph l workspaces keys = Inr l'" and "ws \<in> set workspaces"
    and "transitive_closure_lock (npm_resolve_package l) (npm_all_dependencies l) (length (nl_packages l)) ws deps False =
      Some (Inr r)"
    and "pkg_key ` set r \<subseteq> set keys"
  shows "\<exists>r'. transitive_closure_lock (npm_resolve_package l') (npm_all_dependencies l') (length (nl_packages l')) ws deps False =
      Some (Inr r') \<and> set r' = set r"
  by (rule npm.pruned_closure [OF assms length_npm_pkgs])

definition sample_npm_package :: "string option \<Rightarrow> (string \<times> string) list \<Rightarrow> unit npm_package" where
  "sample_npm_package v deps = \<lparr>np_version = v, np_resolved = None, np_dependencies = deps,
     np_dev_dependencies = [], np_peer_dependencies = [], np_optional_dependencies = [], np_other = []\<rparr>"

definition sample_npm :: "unit npm_lockfile" where
  "sample_npm = \<lparr>nl_lockfile_version = 3,
     nl_packages = [(''node_modules/a'', sample_npm_package (Some ''1'') [(''b'', ''^1'')]),
       (''node_modules/b'', sample_npm_package (Some ''2'') []),
       (''node_modules/c'', sample_npm_package (Some ''3'') []),
       (''w'', sample_npm_package None [])],
     nl_dependencies = [], nl_other = []\<rparr>"

definition sample_npm_pruned :: "unit npm_lockfile" where
  "sample_npm_pruned = sample_npm\<lparr>nl_packages :=
     [(''node_modules/a'', sample_npm_package (Some ''1'') [(''b'', ''^1'')]),
      (''node_modules/b'', sample_npm_package (Some ''2'') []),
      (''w'', sample_npm_package None [])]\<rparr>"

lemma sample_npm_ok: "npm_ok sample_npm"
  by code_simp

lemma sample_npm_subgraph:
  "npm_subgraph sample_npm [''w''] [''node_modules/a'', ''node_modules/b''] = Inr sample_npm_pruned"
  by code_simp

lemma sample_npm_closure:
  "transitive_closure_lock (npm_resolve_package sample_npm) (npm_all_dependencies sample_npm)
     (length (nl_packages sample_npm)) ''w'' [(''a'', ''*'')] False =
     Some (Inr [Package ''node_modules/b'' ''2'', Package ''node_modules/a'' ''1''])"
  by code_simp

theorem npm_prune_preserves_closure_witness:
  "npm_ok sample_npm \<and>
   npm_subgraph sample_npm [''w''] [''node_modules/a'', ''node_modules/b''] = Inr sample_npm_pruned \<and>
   (\<exists>r'. transitive_closure_lock (npm_resolve_package sample_npm_pruned) (npm_all_dependencies sample_npm_pruned)
      (length (nl_packages sample_npm_pruned)) ''w'' [(''a'', ''*'')] False = Some (Inr r') \<and>
      set r' = set [Package ''node_modules/b'' ''2'', Package ''node_modules/a'' ''1''])"
  by (intro conjI sample_npm_ok sample_npm_subgraph
      npm_prune_preserves_closure [OF sample_npm_ok sample_npm_subgraph _ sample_npm_closure]) simp_all

end
