(* ===== verification/Pnpm_Lockfile.thy ===== *)
theory Pnpm_Lockfile
  imports Lockfiles Paths
begin

text \<open>
  \<open>nrzrepo-lockfiles/src/pnpm\<close>: dependency paths (\<open>dep_path.rs\<close>) and lockfiles (\<open>mod.rs\<close>, \<open>data.rs\<close>).
  The parser is written with \<open>nom\<close>: a parser returns what is left and what it read, or the input at which
  it failed. YAML values that the code only carries along are the type parameter \<open>'y\<close>; the YAML reader
  and writer are parameters.
\<close>

subsection \<open>Dependency paths\<close>

type_synonym 'a parser = "string \<Rightarrow> (string, string \<times> 'a) result"

definition is_not :: "string \<Rightarrow> string parser" where
  "is_not cs i =
     (let a = takeWhile (\<lambda>c. c \<notin> set cs) i in if a = [] then Inl i else Inr (drop (length a) i, a))"

definition tag_str :: "string \<Rightarrow> string parser" where
  "tag_str t i = (case strip_prefix t i of Some r \<Rightarrow> Inr (r, t) | None \<Rightarrow> Inl i)"

definition one_of :: "string \<Rightarrow> char parser" where
  "one_of cs i = (case i of c # r \<Rightarrow> if c \<in> set cs then Inr (r, c) else Inl i | [] \<Rightarrow> Inl i)"

record dep_path =
  dp_name :: string
  dp_version :: string
  dp_host :: "string option"
  dp_peer_suffix :: "string option"

definition dep_path_new :: "string \<Rightarrow> string \<Rightarrow> dep_path" where
  "dep_path_new name version = \<lparr>dp_name = name, dp_version = version, dp_host = None, dp_peer_suffix = None\<rparr>"

definition parse_host :: "string option parser" where
  "parse_host i = (case is_not ''/'' i of Inr (r, host) \<Rightarrow> Inr (r, Some host) | Inl _ \<Rightarrow> Inr (i, None))"

definition parse_name_with_scope :: "string parser" where
  "parse_name_with_scope i =
     try_bind (tag_str ''@'' i) (\<lambda>(i1, at).
     try_bind (is_not ''/'' i1) (\<lambda>(i2, scope).
     try_bind (tag_str ''/'' i2) (\<lambda>(i3, sep).
     try_bind (is_not ''/@'' i3) (\<lambda>(i4, name). Inr (i4, at @ scope @ sep @ name)))))"

definition parse_name :: "string parser" where
  "parse_name i = (case parse_name_with_scope i of Inr r \<Rightarrow> Inr r | Inl _ \<Rightarrow> is_not ''/@'' i)"

definition parse_version :: "string parser" where
  "parse_version = is_not ''_(''"

definition parse_old_peer_suffix :: "string parser" where
  "parse_old_peer_suffix i = try_bind (tag_str ''_'' i) (\<lambda>(rest, _). Inr ([], rest))"

definition parse_v6_suffix :: "string parser" where
  "parse_v6_suffix i =
     try_bind (tag_str ''('' i) (\<lambda>(i1, _).
     try_bind (is_not '')'' i1) (\<lambda>(i2, entry).
     try_bind (tag_str '')'' i2) (\<lambda>(i3, _). Inr (i3, entry))))"

lemma is_not_Inr: "is_not cs i = Inr (r, a) \<longleftrightarrow>
    a \<noteq> [] \<and> i = a @ r \<and> (\<forall>c \<in> set a. c \<notin> set cs) \<and> (r = [] \<or> hd r \<in> set cs)"
proof
  let ?P = "\<lambda>c. c \<notin> set cs"
  assume "is_not cs i = Inr (r, a)"
  then have a: "a = takeWhile ?P i" "a \<noteq> []" and "r = drop (length (takeWhile ?P i)) i"
    by (auto simp: is_not_def Let_def split: if_splits)
  then have r: "r = dropWhile ?P i" by (simp only: dropWhile_eq_drop)
  show "a \<noteq> [] \<and> i = a @ r \<and> (\<forall>c \<in> set a. ?P c) \<and> (r = [] \<or> hd r \<in> set cs)"
  proof (intro conjI)
    show "a \<noteq> []" by (rule a(2))
    show "i = a @ r" unfolding a(1) r by simp
    show "\<forall>c \<in> set a. ?P c" unfolding a(1) by (auto dest: set_takeWhileD)
    show "r = [] \<or> hd r \<in> set cs" unfolding r using hd_dropWhile [of ?P i] by blast
  qed
next
  assume r: "a \<noteq> [] \<and> i = a @ r \<and> (\<forall>c \<in> set a. c \<notin> set cs) \<and> (r = [] \<or> hd r \<in> set cs)"
  then have "takeWhile (\<lambda>c. c \<notin> set cs) i = a" by (cases r) (auto simp: takeWhile_append2)
  with r show "is_not cs i = Inr (r, a)" by (simp add: is_not_def)
qed

lemma tag_str_Inr: "tag_str t i = Inr (r, a) \<longleftrightarrow> a = t \<and> i = t @ r"
  by (auto simp: tag_str_def strip_prefix_Some split: option.splits)

lemma parse_v6_suffix_shorter: "parse_v6_suffix i = Inr (r, e) \<Longrightarrow> length r < length i"
  by (auto simp: parse_v6_suffix_def try_bind_Inr is_not_Inr tag_str_Inr)

text \<open>\<open>many1\<close>: the first must be there, the others are read as long as there are any.\<close>

function parse_more_suffixes :: "string \<Rightarrow> string list \<times> string" where
  "parse_more_suffixes i =
     (case parse_v6_suffix i of
        Inl _ \<Rightarrow> ([], i)
      | Inr (r, e) \<Rightarrow> (case parse_more_suffixes r of (es, r') \<Rightarrow> (e # es, r')))"
  by pat_completeness auto

termination
  by (relation "measure length") (auto dest: parse_v6_suffix_shorter)

declare parse_more_suffixes.simps [simp del]

definition parse_v6_suffixes :: "string list parser" where
  "parse_v6_suffixes i =
     try_bind (parse_v6_suffix i) (\<lambda>(r, e). case parse_more_suffixes r of (es, r') \<Rightarrow> Inr (r', e # es))"

definition parse_new_peer_suffix :: "string parser" where
  "parse_new_peer_suffix i =
     try_bind (parse_v6_suffixes i) (\<lambda>(r, _). Inr (r, take (length i - length r) i))"

definition opt_peer_suffix :: "string option parser" where
  "opt_peer_suffix i =
     (case parse_new_peer_suffix i of
        Inr (r, s) \<Rightarrow> Inr (r, Some s)
      | Inl _ \<Rightarrow> (case parse_old_peer_suffix i of Inr (r, s) \<Rightarrow> Inr (r, Some s) | Inl _ \<Rightarrow> Inr (i, None)))"

definition parse_dep_path :: "dep_path parser" where
  "parse_dep_path i =
     try_bind (parse_host i) (\<lambda>(i, host).
     try_bind (tag_str ''/'' i) (\<lambda>(i, _).
     try_bind (parse_name i) (\<lambda>(i, name).
     try_bind (one_of ''/@'' i) (\<lambda>(i, _).
     try_bind (parse_version i) (\<lambda>(i, version).
     try_bind (opt_peer_suffix i) (\<lambda>(i, peer_suffix).
       if i \<noteq> [] then Inl i
       else Inr ([], (dep_path_new name version)\<lparr>dp_host := host, dp_peer_suffix := peer_suffix\<rparr>)))))))"

text \<open>
  The position of the separator is always within the input, so there always is a version. Slicing off the
  first byte panics when the first character has several; \<open>DepPathPanic\<close> stands for that.
\<close>

definition parse_dep_path_v9 :: "string \<Rightarrow> (dep_path_error, dep_path) result" where
  "parse_dep_path_v9 input =
     (if input = [] then Inl (MissingAt input)
      else if tl input \<noteq> [] \<and> continuation_byte (hd (tl input)) then Inl DepPathPanic
      else case split_once (CHR ''@'') (tl input) of
        None \<Rightarrow> Inl (MissingAt input)
      | Some (before, after) \<Rightarrow>
          if length before + 1 \<ge> length input then Inl (MissingDepVersion input)
          else
            let name = hd input # before;
                paren = takeWhile (\<lambda>c. c \<noteq> CHR ''('') after
            in if CHR ''('' \<in> set after \<and> ends_with after '')''
               then Inr ((dep_path_new name paren)\<lparr>dp_peer_suffix := Some (drop (length paren) after)\<rparr>)
               else Inr (dep_path_new name after))"

datatype lockfile_v = V5 | V6 | V7AndV9

definition dep_path_parse :: "lockfile_v \<Rightarrow> string \<Rightarrow> (dep_path_error, dep_path) result" where
  "dep_path_parse version input =
     (case version of
        V7AndV9 \<Rightarrow> parse_dep_path_v9 input
      | _ \<Rightarrow> (case parse_dep_path input of Inl at \<Rightarrow> Inl (NomError at) | Inr (_, dp) \<Rightarrow> Inr dp))"

definition patch_hash :: "dep_path \<Rightarrow> string option" where
  "patch_hash dp =
     (case dp_peer_suffix dp of
        None \<Rightarrow> None
      | Some s \<Rightarrow>
          if starts_with s ''('' then
            (case parse_v6_suffixes s of
               Inl _ \<Rightarrow> None
             | Inr (_, entries) \<Rightarrow> find_map (strip_prefix ''patch_hash='') entries)
          else
            (case split_once (CHR ''_'') s of Some (before, _) \<Rightarrow> Some before | None \<Rightarrow> Some s))"

subsection \<open>Lockfiles\<close>

datatype version_format = StringFormat | FloatFormat

record lockfile_version =
  lv_version :: string
  lv_format :: version_format

record lockfile_settings =
  ls_auto_install_peers :: "bool option"
  ls_exclude_links :: "bool option"

record patch_file =
  pf_path :: string
  pf_hash :: string

record lf_dependency =
  de_specifier :: string
  de_version :: string

datatype dependency_info =
    PreV6Info "(string, string) btree_map option" "(string, string) btree_map option"
      "(string, string) btree_map option" "(string, string) btree_map option"
  | V6Info "(string, lf_dependency) btree_map option" "(string, lf_dependency) btree_map option"
      "(string, lf_dependency) btree_map option"

record dependencies_meta =
  dm_injected :: "bool option"
  dm_node :: "string option"
  dm_patch :: "string option"

record project_snapshot =
  pj_dependencies :: dependency_info
  pj_dependencies_meta :: "(string, dependencies_meta) btree_map option"
  pj_publish_directory :: "string option"

record package_resolution =
  pr_type :: "string option"
  pr_integrity :: "string option"
  pr_tarball :: "string option"
  pr_directory :: "string option"
  pr_repo :: "string option"
  pr_commit :: "string option"

record package_snapshot_v7 =
  sn_optional :: bool
  sn_dependencies :: "(string, string) btree_map option"
  sn_optional_dependencies :: "(string, string) btree_map option"
  sn_transitive_peer_dependencies :: "string list option"

record 'y package_snapshot =
  ps_resolution :: package_resolution
  ps_id :: "string option"
  ps_name :: "string option"
  ps_version :: "string option"
  ps_snapshot :: package_snapshot_v7
  ps_patched :: "bool option"
  ps_other :: "(string, 'y) btree_map"

type_synonym 'y pnpm_packages = "(string, 'y package_snapshot) btree_map"
type_synonym pnpm_snapshots = "(string, package_snapshot_v7) btree_map"

record 'y pnpm_lockfile =
  pl_lockfile_version :: lockfile_version
  pl_settings :: "lockfile_settings option"
  pl_never_built_dependencies :: "string list option"
  pl_only_built_dependencies :: "string list option"
  pl_overrides :: "(string, string) btree_map option"
  pl_package_extensions_checksum :: "string option"
  pl_patched_dependencies :: "(string, patch_file) btree_map option"
  pl_importers :: "(string, project_snapshot) btree_map"
  pl_packages :: "'y pnpm_packages option"
  pl_snapshots :: "pnpm_snapshots option"
  pl_time :: "(string, string) btree_map option"

definition opt_get :: "(string, 'v) btree_map option \<Rightarrow> string \<Rightarrow> 'v option" where
  "opt_get m key = Option.bind m (\<lambda>m. map_of m key)"

definition pnpm_from_bytes :: "('b \<Rightarrow> (string, 'y pnpm_lockfile) result) \<Rightarrow> 'b \<Rightarrow> (lockfile_error, 'y pnpm_lockfile) result" where
  "pnpm_from_bytes from_slice bytes = (case from_slice bytes of Inl e \<Rightarrow> Inl (YamlError e) | Inr l \<Rightarrow> Inr l)"

definition pnpm_get_packages :: "'y pnpm_lockfile \<Rightarrow> string \<Rightarrow> 'y package_snapshot option" where
  "pnpm_get_packages l key = opt_get (pl_packages l) key"

definition pnpm_version :: "'y pnpm_lockfile \<Rightarrow> lockfile_v" where
  "pnpm_version l =
     (if lv_format (pl_lockfile_version l) = FloatFormat then V5
      else if lv_version (pl_lockfile_version l) = ''7.0'' \<or> lv_version (pl_lockfile_version l) = ''9.0'' then V7AndV9
      else V6)"

definition is_v6 :: "'y pnpm_lockfile \<Rightarrow> bool" where
  "is_v6 l = (lv_format (pl_lockfile_version l) = StringFormat)"

definition has_package :: "'y pnpm_lockfile \<Rightarrow> string \<Rightarrow> bool" where
  "has_package l key =
     (case pnpm_version l of
        V7AndV9 \<Rightarrow> opt_get (pl_snapshots l) key \<noteq> None
      | _ \<Rightarrow> opt_get (pl_packages l) key \<noteq> None)"

definition pnpm_package_version :: "'y pnpm_lockfile \<Rightarrow> string \<Rightarrow> string option" where
  "pnpm_package_version l key = Option.bind (opt_get (pl_packages l) key) ps_version"

definition pnpm_get_workspace :: "'y pnpm_lockfile \<Rightarrow> string \<Rightarrow> (lockfile_error, project_snapshot) result" where
  "pnpm_get_workspace l workspace_path =
     (case map_of (pl_importers l) (if workspace_path = [] then ''.'' else workspace_path) of
        Some p \<Rightarrow> Inr p
      | None \<Rightarrow> Inl (MissingWorkspace workspace_path))"

definition format_key :: "'y pnpm_lockfile \<Rightarrow> string \<Rightarrow> string \<Rightarrow> string" where
  "format_key l name version =
     (case pnpm_version l of
        V5 \<Rightarrow> ''/'' @ name @ ''/'' @ version
      | V6 \<Rightarrow> ''/'' @ name @ ''@'' @ version
      | V7AndV9 \<Rightarrow> name @ ''@'' @ version)"

definition pnpm_dep_path :: "'y pnpm_lockfile \<Rightarrow> string \<Rightarrow> (lockfile_error, dep_path) result" where
  "pnpm_dep_path l key =
     (case dep_path_parse (pnpm_version l) key of Inl e \<Rightarrow> Inl (PnpmError (DependencyPath e)) | Inr dp \<Rightarrow> Inr dp)"

definition extract_version :: "'y pnpm_lockfile \<Rightarrow> string \<Rightarrow> (lockfile_error, string) result" where
  "extract_version l key =
     try_bind (pnpm_dep_path l key) (\<lambda>dp.
       Inr (case dp_peer_suffix dp of
              Some peer \<Rightarrow> dp_version dp @ (if is_v6 l then [] else ''_'') @ peer
            | None \<Rightarrow> dp_version dp))"

definition apply_overrides :: "'y pnpm_lockfile \<Rightarrow> string \<Rightarrow> string \<Rightarrow> string" where
  "apply_overrides l name specifier = (case opt_get (pl_overrides l) name of Some s \<Rightarrow> s | None \<Rightarrow> specifier)"

definition or_else :: "'a option \<Rightarrow> 'a option \<Rightarrow> 'a option" where
  "or_else a b = (case a of Some x \<Rightarrow> Some x | None \<Rightarrow> b)"

definition as_tuple :: "lf_dependency \<Rightarrow> string \<times> string" where
  "as_tuple d = (de_specifier d, de_version d)"

definition find_resolution :: "dependency_info \<Rightarrow> string \<Rightarrow> (string \<times> string) option" where
  "find_resolution info dependency =
     (case info of
        PreV6Info specifiers dependencies optional_dependencies dev_dependencies \<Rightarrow>
          Option.bind (opt_get specifiers dependency) (\<lambda>specifier.
          map_option (Pair specifier)
            (or_else (or_else (opt_get dependencies dependency) (opt_get dev_dependencies dependency))
              (opt_get optional_dependencies dependency)))
      | V6Info dependencies optional_dependencies dev_dependencies \<Rightarrow>
          map_option as_tuple
            (or_else (or_else (opt_get dependencies dependency) (opt_get dev_dependencies dependency))
              (opt_get optional_dependencies dependency)))"

definition resolve_specifier ::
  "'y pnpm_lockfile \<Rightarrow> string \<Rightarrow> string \<Rightarrow> string \<Rightarrow> (lockfile_error, string option) result" where
  "resolve_specifier l workspace_path name specifier =
     try_bind (pnpm_get_workspace l workspace_path) (\<lambda>importer.
       case find_resolution (pj_dependencies importer) name of
         None \<Rightarrow> Inr (if has_package l (format_key l name specifier) then Some specifier else None)
       | Some (resolved_specifier, resolved_version) \<Rightarrow>
           let override_specifier = apply_overrides l name specifier
           in if resolved_specifier = override_specifier then Inr (Some resolved_version)
              else if has_package l (format_key l name override_specifier) then Inr (Some override_specifier)
              else Inr None)"

definition pnpm_resolve_package :: "'y pnpm_lockfile \<Rightarrow> resolver" where
  "pnpm_resolve_package l workspace_path name version =
     (if has_package l version
      then try_bind (extract_version l version) (\<lambda>extracted_version. Inr (Some (Package version extracted_version)))
      else
        try_bind (resolve_specifier l workspace_path name version) (\<lambda>resolved.
          case resolved of
            None \<Rightarrow> Inr None
          | Some resolved_version \<Rightarrow>
              let key = format_key l name resolved_version
              in if has_package l key
                 then Inr (Some (Package key (case pnpm_package_version l key of Some v \<Rightarrow> v | None \<Rightarrow> resolved_version)))
                 else if has_package l resolved_version
                 then try_bind (case pnpm_package_version l resolved_version of
                                  Some v \<Rightarrow> Inr v | None \<Rightarrow> extract_version l resolved_version)
                        (\<lambda>version. Inr (Some (Package resolved_version version)))
                 else Inr None))"

definition snapshot_dependencies :: "package_snapshot_v7 \<Rightarrow> dep_map" where
  "snapshot_dependencies sn =
     hm_collect ((case sn_dependencies sn of Some m \<Rightarrow> m | None \<Rightarrow> []) @
       (case sn_optional_dependencies sn of Some m \<Rightarrow> m | None \<Rightarrow> []))"

definition pnpm_all_dependencies :: "'y pnpm_lockfile \<Rightarrow> dep_lookup" where
  "pnpm_all_dependencies l key =
     (case opt_get (pl_snapshots l) key of
        Some snapshot \<Rightarrow> Inr (Some (snapshot_dependencies snapshot))
      | None \<Rightarrow>
          (case opt_get (pl_packages l) key of
             None \<Rightarrow> Inr None
           | Some entry \<Rightarrow> Inr (Some (snapshot_dependencies (ps_snapshot entry)))))"

subsection \<open>Pruning\<close>

fun keep_snapshots ::
  "'y pnpm_lockfile \<Rightarrow> pnpm_snapshots \<Rightarrow> string list \<Rightarrow> 'y pnpm_packages \<Rightarrow> pnpm_snapshots \<Rightarrow>
     (lockfile_error, 'y pnpm_packages \<times> pnpm_snapshots) result" where
  "keep_snapshots l snapshots [] pruned_packages pruned_snapshots = Inr (pruned_packages, pruned_snapshots)"
| "keep_snapshots l snapshots (package # packages) pruned_packages pruned_snapshots =
     (case map_of snapshots package of
        None \<Rightarrow> Inl (MissingPackage package)
      | Some entry \<Rightarrow>
          try_bind (pnpm_dep_path l package) (\<lambda>dp.
            let package_key = format_key l (dp_name dp) (dp_version dp)
            in case pnpm_get_packages l package_key of
                 None \<Rightarrow> Inl (MissingPackage package_key)
               | Some pkg \<Rightarrow>
                   keep_snapshots l snapshots packages (bt_insert package_key pkg pruned_packages)
                     (bt_insert package entry pruned_snapshots)))"

fun keep_packages ::
  "'y pnpm_lockfile \<Rightarrow> string list \<Rightarrow> 'y pnpm_packages \<Rightarrow> (lockfile_error, 'y pnpm_packages) result" where
  "keep_packages l [] pruned_packages = Inr pruned_packages"
| "keep_packages l (package # packages) pruned_packages =
     (case pnpm_get_packages l package of
        None \<Rightarrow> Inl (MissingPackage package)
      | Some entry \<Rightarrow> keep_packages l packages (bt_insert package entry pruned_packages))"

definition pruned_packages_and_snapshots ::
  "'y pnpm_lockfile \<Rightarrow> string list \<Rightarrow> (lockfile_error, 'y pnpm_packages \<times> pnpm_snapshots option) result" where
  "pruned_packages_and_snapshots l packages =
     (case pl_snapshots l of
        Some snapshots \<Rightarrow> try_bind (keep_snapshots l snapshots packages [] []) (\<lambda>(ps, ss). Inr (ps, Some ss))
      | None \<Rightarrow> try_bind (keep_packages l packages []) (\<lambda>ps. Inr (ps, None)))"

fun keep_injected ::
  "'y pnpm_lockfile \<Rightarrow> dependency_info \<Rightarrow> (string, dependencies_meta) btree_map \<Rightarrow> 'y pnpm_packages \<Rightarrow>
     (lockfile_error, 'y pnpm_packages) result" where
  "keep_injected l info [] pruned_packages = Inr pruned_packages"
| "keep_injected l info ((dependency, meta) # metas) pruned_packages =
     (if dm_injected meta = Some True then
        (case find_resolution info dependency of
           None \<Rightarrow> Inl (PnpmError (MissingInjectedPackage dependency))
         | Some (_, version) \<Rightarrow>
             (case pnpm_get_packages l version of
                None \<Rightarrow> Inl (MissingPackage version)
              | Some entry \<Rightarrow> keep_injected l info metas (bt_insert version entry pruned_packages)))
      else keep_injected l info metas pruned_packages)"

fun keep_all_injected ::
  "'y pnpm_lockfile \<Rightarrow> project_snapshot list \<Rightarrow> 'y pnpm_packages \<Rightarrow> (lockfile_error, 'y pnpm_packages) result" where
  "keep_all_injected l [] pruned_packages = Inr pruned_packages"
| "keep_all_injected l (importer # importers) pruned_packages =
     try_bind (keep_injected l (pj_dependencies importer)
         (case pj_dependencies_meta importer of Some m \<Rightarrow> m | None \<Rightarrow> []) pruned_packages)
       (keep_all_injected l importers)"

fun prune_patches ::
  "'y pnpm_lockfile \<Rightarrow> (string, patch_file) btree_map \<Rightarrow> string list \<Rightarrow> (string, patch_file) btree_map \<Rightarrow>
     (lockfile_error, (string, patch_file) btree_map) result" where
  "prune_patches l patches [] pruned_patches = Inr pruned_patches"
| "prune_patches l patches (dependency # dependencies) pruned_patches =
     try_bind (pnpm_dep_path l dependency) (\<lambda>dp.
       let patch_key = dp_name dp @ ''@'' @ dp_version dp
       in case map_of patches patch_key of
            Some patch \<Rightarrow>
              prune_patches l patches dependencies
                (if pnpm_version l = V7AndV9 \<or> patch_hash dp = Some (pf_hash patch)
                 then bt_insert patch_key patch pruned_patches else pruned_patches)
          | None \<Rightarrow> prune_patches l patches dependencies pruned_patches)"

definition kept_importers :: "'y pnpm_lockfile \<Rightarrow> string list \<Rightarrow> (string, project_snapshot) btree_map" where
  "kept_importers l workspace_packages =
     filter (\<lambda>(key, _). key = ''.'' \<or> key \<in> set workspace_packages) (pl_importers l)"

definition pnpm_subgraph ::
  "'y pnpm_lockfile \<Rightarrow> string list \<Rightarrow> string list \<Rightarrow> (lockfile_error, 'y pnpm_lockfile) result" where
  "pnpm_subgraph l workspace_packages packages =
     (let importers = kept_importers l workspace_packages
      in try_bind (pruned_packages_and_snapshots l packages) (\<lambda>(ps, pruned_snapshots).
         try_bind (keep_all_injected l (map snd importers) ps) (\<lambda>pruned_packages.
         try_bind (case pl_patched_dependencies l of
                     None \<Rightarrow> Inr None
                   | Some patches \<Rightarrow>
                       try_bind (prune_patches l patches (map fst pruned_packages) []) (\<lambda>p. Inr (Some p))) (\<lambda>patches.
           Inr (l\<lparr>pl_importers := importers,
                  pl_packages := (if pruned_packages = [] then None else Some pruned_packages),
                  pl_patched_dependencies := patches,
                  pl_snapshots := pruned_snapshots,
                  pl_time := None\<rparr>)))))"

definition pnpm_patches :: "'y pnpm_lockfile \<Rightarrow> (lockfile_error, string list) result" where
  "pnpm_patches l =
     try_bind (try_map (\<lambda>(_, patch). case relative_unix_path_new (pf_path patch) of
         Inl e \<Rightarrow> Inl (LockfilePath (pf_path patch)) | Inr p \<Rightarrow> Inr p)
       (case pl_patched_dependencies l of Some m \<Rightarrow> m | None \<Rightarrow> [])) (\<lambda>patches. Inr (sort patches))"

type_synonym pnpm_globals =
  "string \<times> string option \<times> (string, string) btree_map option \<times> (string, patch_file) btree_map option \<times> lockfile_settings option"

definition global_fields :: "'y pnpm_lockfile \<Rightarrow> pnpm_globals" where
  "global_fields l =
     (lv_version (pl_lockfile_version l), pl_package_extensions_checksum l, pl_overrides l, pl_patched_dependencies l, pl_settings l)"

definition pnpm_global_change :: "'y pnpm_lockfile \<Rightarrow> 'y pnpm_lockfile option \<Rightarrow> bool" where
  "pnpm_global_change l other = (case other of Some o' \<Rightarrow> global_fields l \<noteq> global_fields o' | None \<Rightarrow> True)"

definition pnpm_nrz_version :: "'y pnpm_lockfile \<Rightarrow> string option" where
  "pnpm_nrz_version l = find_map (\<lambda>(_, p). map_option snd (find_resolution (pj_dependencies p) ''nrz'')) (pl_importers l)"

definition pnpm_human_name :: "'y pnpm_lockfile \<Rightarrow> lf_package \<Rightarrow> string option" where
  "pnpm_human_name l package =
     (if pnpm_version l = V7AndV9 then Some (pkg_key package) else strip_prefix ''/'' (pkg_key package))"

definition pnpm_subgraph_bytes ::
  "('b \<Rightarrow> (string, 'y pnpm_lockfile) result) \<Rightarrow> ('y pnpm_lockfile \<Rightarrow> (string, 'b) result) \<Rightarrow>
    'b \<Rightarrow> string list \<Rightarrow> string list \<Rightarrow> (lockfile_error, 'b) result" where
  "pnpm_subgraph_bytes from_slice to_yaml contents workspace_packages packages =
     try_bind (pnpm_from_bytes from_slice contents) (\<lambda>l.
     try_bind (pnpm_subgraph l workspace_packages packages) (\<lambda>pruned.
       (case to_yaml pruned of Inl e \<Rightarrow> Inl (YamlError e) | Inr b \<Rightarrow> Inr b)))"

definition pnpm_global_change_bytes ::
  "('b \<Rightarrow> (string, 'y pnpm_lockfile) result) \<Rightarrow> 'b \<Rightarrow> 'b \<Rightarrow> (lockfile_error, bool) result" where
  "pnpm_global_change_bytes from_slice prev_contents curr_contents =
     try_bind (pnpm_from_bytes from_slice prev_contents) (\<lambda>prev.
     try_bind (pnpm_from_bytes from_slice curr_contents) (\<lambda>curr.
       Inr (pl_lockfile_version prev \<noteq> pl_lockfile_version curr \<or>
            pl_package_extensions_checksum prev \<noteq> pl_package_extensions_checksum curr \<or>
            pl_overrides prev \<noteq> pl_overrides curr \<or>
            pl_patched_dependencies prev \<noteq> pl_patched_dependencies curr \<or>
            pl_settings prev \<noteq> pl_settings curr)))"

subsection \<open>The lookups\<close>

lemma opt_get_None [simp]: "opt_get None k = None"
  by (simp add: opt_get_def)

lemma opt_get_Some [simp]: "opt_get (Some m) k = map_of m k"
  by (simp add: opt_get_def)

definition pnpm_keys :: "'y pnpm_lockfile \<Rightarrow> string list" where
  "pnpm_keys l = map fst (case pl_packages l of Some m \<Rightarrow> m | None \<Rightarrow> []) @ map fst (case pl_snapshots l of Some m \<Rightarrow> m | None \<Rightarrow> [])"

text \<open>
  The versions with which a key can be returned: the end of the key, since the name of the dependency may
  be any part before it, the version of its entry, or the one that its path tells.
\<close>

definition pnpm_versions :: "'y pnpm_lockfile \<Rightarrow> string \<Rightarrow> string list" where
  "pnpm_versions l k =
     suffixes k @ (case pnpm_package_version l k of Some v \<Rightarrow> [v] | None \<Rightarrow> []) @
     (case extract_version l k of Inr v \<Rightarrow> [v] | Inl _ \<Rightarrow> [])"

definition pnpm_pkgs :: "'y pnpm_lockfile \<Rightarrow> lf_package list" where
  "pnpm_pkgs l = concat (map (\<lambda>k. map (Package k) (pnpm_versions l k)) (pnpm_keys l))"

lemma has_package_key: "has_package l k \<Longrightarrow> k \<in> set (pnpm_keys l)"
  by (auto simp: has_package_def pnpm_keys_def opt_get_def image_iff split: lockfile_v.splits option.splits bind_splits
      dest!: map_of_SomeD)

lemma pnpm_pkgsI: "has_package l k \<Longrightarrow> v \<in> set (pnpm_versions l k) \<Longrightarrow> Package k v \<in> set (pnpm_pkgs l)"
  using has_package_key by (auto simp: pnpm_pkgs_def)

lemma format_key_suffix: "suffix v (format_key l n v)"
  by (auto simp: format_key_def split: lockfile_v.splits intro: suffixI [of _ "''/'' @ n @ ''/''"]
      suffixI [of _ "''/'' @ n @ ''@''"] suffixI [of _ "n @ ''@''"])

lemma pnpm_resolve_known:
  assumes "pnpm_resolve_package l ws n v = Inr (Some p)"
  shows "p \<in> set (pnpm_pkgs l)"
proof (cases "has_package l v")
  case True
  with assms show ?thesis
    by (auto simp: pnpm_resolve_package_def try_bind_Inr pnpm_versions_def intro!: pnpm_pkgsI)
next
  case False
  with assms obtain rv where rv: "resolve_specifier l ws n v = Inr (Some rv)"
    by (auto simp: pnpm_resolve_package_def try_bind_Inr split: option.splits)
  note run = assms [unfolded pnpm_resolve_package_def, simplified False rv, simplified, unfolded Let_def]
  consider "has_package l (format_key l n rv)" | "\<not> has_package l (format_key l n rv)" "has_package l rv"
    using run by (auto split: if_splits)
  then show ?thesis
  proof cases
    case 1
    with run show ?thesis
      by (auto simp: pnpm_versions_def format_key_suffix split: option.splits intro!: pnpm_pkgsI)
  next
    case 2
    with run show ?thesis
      by (auto simp: pnpm_versions_def try_bind_Inr split: option.splits intro!: pnpm_pkgsI)
  qed
qed

interpretation pnpm: lockfile pnpm_resolve_package pnpm_all_dependencies pnpm_pkgs
  by unfold_locales (rule pnpm_resolve_known)

subsection \<open>What pruning keeps\<close>

text \<open>
  A lockfile as pnpm writes it: snapshots are there from version 7 on, and from then on the keys of the
  packages have no suffix for their peers.
\<close>

definition package_key_of :: "'y pnpm_lockfile \<Rightarrow> string \<Rightarrow> string \<Rightarrow> bool" where
  "package_key_of l k k' \<longleftrightarrow> (\<exists>dp. pnpm_dep_path l k = Inr dp \<and> format_key l (dp_name dp) (dp_version dp) = k')"

definition pnpm_ok :: "'y pnpm_lockfile \<Rightarrow> bool" where
  "pnpm_ok l \<longleftrightarrow>
     (if pnpm_version l = V7AndV9
      then \<forall>k. opt_get (pl_packages l) k \<noteq> None \<longrightarrow> package_key_of l k k
      else pl_snapshots l = None)"

definition part_of :: "(string, 'v) btree_map \<Rightarrow> (string \<Rightarrow> 'v option) \<Rightarrow> bool" where
  "part_of m f \<longleftrightarrow> bt_ok m \<and> map_of m \<subseteq>\<^sub>m f"

lemma part_of_insert: "part_of m f \<Longrightarrow> f k = Some v \<Longrightarrow> part_of (bt_insert k v m) f"
  by (auto simp: part_of_def map_le_def)

lemma part_of_empty: "part_of [] f"
  by (simp add: part_of_def bt_ok_def)

lemma part_of_dom: "part_of m f \<Longrightarrow> dom (map_of (bt_insert k v m)) = insert k (dom (map_of m))"
  by (simp add: part_of_def)

lemma part_of_get: "part_of m f \<Longrightarrow> k \<in> dom (map_of m) \<Longrightarrow> map_of m k = f k"
  by (auto simp: part_of_def map_le_def)

lemma keep_snapshots_part:
  "keep_snapshots l ss ks ps0 ss0 = Inr (ps, ss') \<Longrightarrow> part_of ps0 (opt_get (pl_packages l)) \<Longrightarrow> part_of ss0 (map_of ss) \<Longrightarrow>
     part_of ps (opt_get (pl_packages l)) \<and> part_of ss' (map_of ss) \<and>
     dom (map_of ps0) \<subseteq> dom (map_of ps) \<and> set ks \<union> dom (map_of ss0) \<subseteq> dom (map_of ss') \<and>
     (\<forall>k \<in> set ks. \<exists>k' \<in> dom (map_of ps). package_key_of l k k')"
proof (induction l ss ks ps0 ss0 rule: keep_snapshots.induct)
  case (2 l ss k ks ps0 ss0)
  then obtain entry dp pkg where k: "map_of ss k = Some entry" "pnpm_dep_path l k = Inr dp"
    and pkg: "opt_get (pl_packages l) (format_key l (dp_name dp) (dp_version dp)) = Some pkg"
    by (auto simp: try_bind_Inr Let_def pnpm_get_packages_def split: option.splits)
  let ?k' = "format_key l (dp_name dp) (dp_version dp)"
  have run: "keep_snapshots l ss ks (bt_insert ?k' pkg ps0) (bt_insert k entry ss0) = Inr (ps, ss')"
    using "2.prems"(1) k pkg by (simp add: pnpm_get_packages_def Let_def)
  have key: "package_key_of l k ?k'" using k by (auto simp: package_key_of_def)
  note IH = "2.IH" [OF k(1) refl _ run]
  have rest: "part_of ps (opt_get (pl_packages l)) \<and> part_of ss' (map_of ss) \<and>
     dom (map_of (bt_insert ?k' pkg ps0)) \<subseteq> dom (map_of ps) \<and> set ks \<union> dom (map_of (bt_insert k entry ss0)) \<subseteq> dom (map_of ss') \<and>
     (\<forall>k \<in> set ks. \<exists>k' \<in> dom (map_of ps). package_key_of l k k')"
    by (rule IH) (use pkg k(1) "2.prems" in \<open>simp_all add: pnpm_get_packages_def part_of_insert\<close>)
  note doms = part_of_dom [OF "2.prems"(2), of ?k' pkg] part_of_dom [OF "2.prems"(3), of k entry]
  have "?k' \<in> dom (map_of ps)" using rest doms(1) by blast
  with key have "\<exists>k' \<in> dom (map_of ps). package_key_of l k k'" by (rule bexI)
  moreover have "dom (map_of ps0) \<subseteq> dom (map_of ps)" "set (k # ks) \<union> dom (map_of ss0) \<subseteq> dom (map_of ss')"
    using rest unfolding doms list.set by blast+
  ultimately show ?case using rest by (simp only: list.set ball_simps) blast
qed auto

lemma keep_packages_part:
  "keep_packages l ks ps0 = Inr ps \<Longrightarrow> part_of ps0 (opt_get (pl_packages l)) \<Longrightarrow>
     part_of ps (opt_get (pl_packages l)) \<and> set ks \<union> dom (map_of ps0) \<subseteq> dom (map_of ps)"
proof (induction l ks ps0 rule: keep_packages.induct)
  case (2 l k ks ps0)
  then obtain entry where k: "opt_get (pl_packages l) k = Some entry" and "keep_packages l ks (bt_insert k entry ps0) = Inr ps"
    by (auto simp: pnpm_get_packages_def split: option.splits)
  with "2.IH" [of entry] "2.prems"(2) part_of_dom [OF "2.prems"(2)] show ?case
    by (auto simp: pnpm_get_packages_def part_of_insert)
qed auto

lemma keep_injected_part:
  "keep_injected l info ms ps0 = Inr ps \<Longrightarrow> part_of ps0 (opt_get (pl_packages l)) \<Longrightarrow>
     part_of ps (opt_get (pl_packages l)) \<and> dom (map_of ps0) \<subseteq> dom (map_of ps)"
proof (induction l info ms ps0 rule: keep_injected.induct)
  case (2 l info dep meta ms ps0)
  show ?case
  proof (cases "dm_injected meta = Some True")
    case True
    then obtain sp v entry where v: "find_resolution info dep = Some (sp, v)" "opt_get (pl_packages l) v = Some entry"
      and "keep_injected l info ms (bt_insert v entry ps0) = Inr ps"
      using "2.prems" by (auto simp: pnpm_get_packages_def split: option.splits)
    with "2.IH"(1) [OF True v(1) refl, of entry] "2.prems"(2) part_of_dom [OF "2.prems"(2)] show ?thesis
      by (auto simp: pnpm_get_packages_def part_of_insert)
  qed (use 2 in auto)
qed auto

lemma keep_all_injected_part:
  "keep_all_injected l is ps0 = Inr ps \<Longrightarrow> part_of ps0 (opt_get (pl_packages l)) \<Longrightarrow>
     part_of ps (opt_get (pl_packages l)) \<and> dom (map_of ps0) \<subseteq> dom (map_of ps)"
proof (induction l "is" ps0 rule: keep_all_injected.induct)
  case (2 l i "is" ps0)
  then obtain ps1 where ps1: "keep_injected l (pj_dependencies i)
      (case pj_dependencies_meta i of Some m \<Rightarrow> m | None \<Rightarrow> []) ps0 = Inr ps1" "keep_all_injected l is ps1 = Inr ps"
    by (auto simp: try_bind_Inr)
  with "2.IH" [OF ps1(2)] keep_injected_part [OF ps1(1) "2.prems"(2)] show ?case by blast
qed auto

text \<open>What the pruned lockfile has to do with the one it was made from.\<close>

lemma pnpm_subgraph_parts:
  assumes "pnpm_subgraph l wss keys = Inr l'"
  shows "pl_lockfile_version l' = pl_lockfile_version l" and "pl_overrides l' = pl_overrides l"
    and "pl_importers l' = kept_importers l wss"
    and "opt_get (pl_packages l') \<subseteq>\<^sub>m opt_get (pl_packages l)" and "opt_get (pl_snapshots l') \<subseteq>\<^sub>m opt_get (pl_snapshots l)"
    and "pl_snapshots l = None \<Longrightarrow> pl_snapshots l' = None \<and> set keys \<subseteq> dom (opt_get (pl_packages l'))"
    and "pl_snapshots l \<noteq> None \<Longrightarrow> set keys \<subseteq> dom (opt_get (pl_snapshots l')) \<and>
      (\<forall>k \<in> set keys. \<exists>k' \<in> dom (opt_get (pl_packages l')). package_key_of l k k')"
proof -
  obtain ps ss ps' patches where kept: "pruned_packages_and_snapshots l keys = Inr (ps, ss)"
    and inj: "keep_all_injected l (map snd (kept_importers l wss)) ps = Inr ps'"
    and l': "l' = l\<lparr>pl_importers := kept_importers l wss, pl_packages := (if ps' = [] then None else Some ps'),
      pl_patched_dependencies := patches, pl_snapshots := ss, pl_time := None\<rparr>"
    using assms by (auto simp: pnpm_subgraph_def try_bind_Inr Let_def)
  have packages: "opt_get (pl_packages l') = map_of ps'" by (simp add: l' fun_eq_iff)
  show "pl_lockfile_version l' = pl_lockfile_version l" "pl_overrides l' = pl_overrides l"
    "pl_importers l' = kept_importers l wss" by (simp_all add: l')
  have first: "part_of ps (opt_get (pl_packages l)) \<and> opt_get ss \<subseteq>\<^sub>m opt_get (pl_snapshots l) \<and>
    (pl_snapshots l = None \<longrightarrow> ss = None \<and> set keys \<subseteq> dom (map_of ps)) \<and>
    (pl_snapshots l \<noteq> None \<longrightarrow> set keys \<subseteq> dom (opt_get ss) \<and> (\<forall>k \<in> set keys. \<exists>k' \<in> dom (map_of ps). package_key_of l k k'))"
  proof (cases "pl_snapshots l")
    case None
    then have "keep_packages l keys [] = Inr ps" "ss = None"
      using kept by (auto simp: pruned_packages_and_snapshots_def try_bind_Inr)
    with keep_packages_part [OF this(1) part_of_empty] None show ?thesis by (auto simp: map_le_def)
  next
    case (Some sn)
    then obtain ss' where ss: "keep_snapshots l sn keys [] [] = Inr (ps, ss')" "ss = Some ss'"
      using kept by (auto simp: pruned_packages_and_snapshots_def try_bind_Inr)
    have "opt_get ss = map_of ss'" "opt_get (pl_snapshots l) = map_of sn" using ss(2) Some by (simp_all add: fun_eq_iff)
    with keep_snapshots_part [OF ss(1) part_of_empty part_of_empty] Some show ?thesis by (auto simp: part_of_def)
  qed
  note second = keep_all_injected_part [OF inj conjunct1 [OF first]]
  show "opt_get (pl_packages l') \<subseteq>\<^sub>m opt_get (pl_packages l)" using second by (simp add: packages part_of_def)
  show "opt_get (pl_snapshots l') \<subseteq>\<^sub>m opt_get (pl_snapshots l)" using first by (simp add: l')
  show "pl_snapshots l' = None \<and> set keys \<subseteq> dom (opt_get (pl_packages l'))" if "pl_snapshots l = None"
    using first second that unfolding packages by (simp add: l') blast
  show "set keys \<subseteq> dom (opt_get (pl_snapshots l')) \<and>
      (\<forall>k \<in> set keys. \<exists>k' \<in> dom (opt_get (pl_packages l')). package_key_of l k k')" if "pl_snapshots l \<noteq> None"
    using first second that unfolding packages by (simp add: l') blast
qed

lemma pruned_version:
  assumes "pnpm_subgraph l wss keys = Inr l'"
  shows "pnpm_version l' = pnpm_version l" and "format_key l' = format_key l" and "extract_version l' = extract_version l"
    and "apply_overrides l' = apply_overrides l"
  using pnpm_subgraph_parts(1,2) [OF assms]
  by (simp_all add: fun_eq_iff pnpm_version_def format_key_def extract_version_def pnpm_dep_path_def is_v6_def apply_overrides_def)

lemma map_of_filter_key: "map_of (filter (\<lambda>(k, _). P k) m) k = (if P k then map_of m k else None)"
  by (induction m) auto

lemma pruned_workspace:
  assumes "pnpm_subgraph l wss keys = Inr l'" and "ws \<in> set wss"
  shows "pnpm_get_workspace l' ws = pnpm_get_workspace l ws"
  using assms(2)
  by (simp add: pnpm_get_workspace_def pnpm_subgraph_parts(3) [OF assms(1)] kept_importers_def map_of_filter_key)

lemma pruned_has_package:
  assumes ok: "pnpm_ok l" and prune: "pnpm_subgraph l wss keys = Inr l'"
  shows "has_package l' k \<Longrightarrow> has_package l k" and "k \<in> set keys \<Longrightarrow> has_package l k \<Longrightarrow> has_package l' k"
proof -
  note parts = pnpm_subgraph_parts [OF prune] and version = pruned_version(1) [OF prune]
  have sub: "m \<subseteq>\<^sub>m m' \<Longrightarrow> m k \<noteq> None \<Longrightarrow> m' k \<noteq> None" for m m' :: "string \<Rightarrow> 'b option"
    by (auto simp: map_le_def dom_def)
  show "has_package l' k \<Longrightarrow> has_package l k"
    unfolding has_package_def version using sub [OF parts(4)] sub [OF parts(5)] by (cases "pnpm_version l") simp_all
  assume k: "k \<in> set keys" "has_package l k"
  show "has_package l' k"
  proof (cases "pnpm_version l = V7AndV9")
    case True
    then have "pl_snapshots l \<noteq> None" using k(2) by (cases "pl_snapshots l") (auto simp: has_package_def)
    with parts(7) k(1) True show ?thesis by (auto simp: has_package_def version)
  next
    case False
    then have "pl_snapshots l = None" using ok by (simp add: pnpm_ok_def)
    with parts(6) k(1) False show ?thesis by (cases "pnpm_version l") (auto simp: has_package_def version)
  qed
qed

lemma pruned_package_version:
  assumes ok: "pnpm_ok l" and prune: "pnpm_subgraph l wss keys = Inr l'" and k: "k \<in> set keys"
  shows "pnpm_package_version l' k = pnpm_package_version l k"
proof -
  note parts = pnpm_subgraph_parts [OF prune]
  have here: "k \<in> dom (opt_get (pl_packages l'))" if "opt_get (pl_packages l) k \<noteq> None"
  proof (cases "pl_snapshots l = None")
    case True
    with parts(6) k show ?thesis by auto
  next
    case False
    then have "package_key_of l k k" using ok that by (auto simp: pnpm_ok_def split: if_splits)
    moreover obtain k' where "k' \<in> dom (opt_get (pl_packages l'))" "package_key_of l k k'"
      using parts(7) [OF False] k by blast
    ultimately show ?thesis by (auto simp: package_key_of_def)
  qed
  have "opt_get (pl_packages l') k = opt_get (pl_packages l) k"
  proof (cases "opt_get (pl_packages l) k")
    case None
    then show ?thesis using parts(4) by (auto simp: map_le_def dom_def)
  next
    case (Some e)
    with here parts(4) show ?thesis by (auto simp: map_le_def)
  qed
  then show ?thesis by (simp add: pnpm_package_version_def)
qed

lemma pnpm_prune_resolve:
  assumes ok: "pnpm_ok l" and prune: "pnpm_subgraph l wss keys = Inr l'" and ws: "ws \<in> set wss"
    and run: "pnpm_resolve_package l ws n v = Inr q" and keys: "\<And>p. q = Some p \<Longrightarrow> pkg_key p \<in> set keys"
  shows "pnpm_resolve_package l' ws n v = Inr q"
proof -
  note same = pruned_version [OF prune] pruned_workspace [OF prune ws]
  note has = pruned_has_package [OF ok prune] and pv = pruned_package_version [OF ok prune]
  show ?thesis
  proof (cases "has_package l v")
    case True
    then have "v \<in> set keys" using run keys by (auto simp: pnpm_resolve_package_def try_bind_Inr)
    with True has(2) run show ?thesis by (simp add: pnpm_resolve_package_def same)
  next
    case False
    then have no: "\<not> has_package l' v" using has(1) by blast
    obtain r where r: "resolve_specifier l ws n v = Inr r"
      using run False by (auto simp: pnpm_resolve_package_def try_bind_Inr)
    note run' = run [unfolded pnpm_resolve_package_def, simplified False r, simplified, unfolded Let_def]
    have key: "has_package l (format_key l n x) \<Longrightarrow> r = Some x \<Longrightarrow> format_key l n x \<in> set keys" for x
      using run' keys by auto
    have r': "resolve_specifier l' ws n v = Inr r"
    proof -
      obtain importer where i: "pnpm_get_workspace l ws = Inr importer" using r by (auto simp: resolve_specifier_def try_bind_Inr)
      let ?o = "apply_overrides l n v"
      have pick: "has_package l' (format_key l n x) = has_package l (format_key l n x)"
        if "has_package l (format_key l n x) \<Longrightarrow> r = Some x" for x
        using key [of x] has [of "format_key l n x"] that by blast
      show ?thesis
      proof (cases "find_resolution (pj_dependencies importer) n")
        case None
        with r i have "r = (if has_package l (format_key l n v) then Some v else None)"
          by (simp add: resolve_specifier_def)
        with None i pick [of v] show ?thesis by (simp add: resolve_specifier_def same)
      next
        case (Some sv)
        obtain sp rv where sv: "sv = (sp, rv)" by fastforce
        with r i Some have "r = (if sp = ?o then Some rv else if has_package l (format_key l n ?o) then Some ?o else None)"
          by (simp add: resolve_specifier_def Let_def split: if_splits)
        with Some i sv pick [of ?o] show ?thesis by (cases "sp = ?o") (simp_all add: resolve_specifier_def same Let_def)
      qed
    qed
    show ?thesis
    proof (cases r)
      case None
      with no r' run' show ?thesis by (simp add: pnpm_resolve_package_def)
    next
      case (Some x)
      have other: "has_package l x \<Longrightarrow> \<not> has_package l (format_key l n x) \<Longrightarrow> x \<in> set keys"
        using run' keys Some by (auto simp: try_bind_Inr)
      let ?k = "format_key l n x"
      have unfold: "pnpm_resolve_package l'' ws n v = (if has_package l'' ?k
          then Inr (Some (Package ?k (case pnpm_package_version l'' ?k of Some v \<Rightarrow> v | None \<Rightarrow> x)))
          else if has_package l'' x
          then try_bind (case pnpm_package_version l'' x of Some v \<Rightarrow> Inr v | None \<Rightarrow> extract_version l x)
            (\<lambda>v. Inr (Some (Package x v)))
          else Inr None)"
        if "\<not> has_package l'' v" "resolve_specifier l'' ws n v = Inr (Some x)" "format_key l'' = format_key l"
          "extract_version l'' = extract_version l" for l''
        using that by (simp add: pnpm_resolve_package_def Let_def cong: option.case_cong)
      note before = unfold [OF False r [unfolded Some] refl refl, unfolded run]
        and after = unfold [OF no r' [unfolded Some] same(2,3)]
      consider "has_package l ?k" | "\<not> has_package l ?k" "has_package l x" | "\<not> has_package l ?k" "\<not> has_package l x" by blast
      then show ?thesis
      proof cases
        case 1
        then have "has_package l' ?k" "pnpm_package_version l' ?k = pnpm_package_version l ?k"
          using key [OF 1 Some] has(2) pv by simp_all
        with 1 before after show ?thesis by simp
      next
        case 2
        then have "\<not> has_package l' ?k" "has_package l' x" "pnpm_package_version l' x = pnpm_package_version l x"
          using other has pv by blast+
        with 2 before after show ?thesis by simp
      next
        case 3
        then have "\<not> has_package l' ?k" "\<not> has_package l' x" using has(1) by blast+
        with 3 before after show ?thesis by simp
      qed
    qed
  qed
qed

lemma pnpm_prune_deps:
  assumes prune: "pnpm_subgraph l wss keys = Inr l'" and k: "k \<in> set keys" and run: "pnpm_all_dependencies l k = Inr ds"
  shows "pnpm_all_dependencies l' k = Inr ds"
proof -
  note parts = pnpm_subgraph_parts [OF prune]
  show ?thesis
  proof (cases "pl_snapshots l = None")
    case True
    then have "opt_get (pl_packages l') k = opt_get (pl_packages l) k"
      using parts(4) parts(6) k by (auto simp: map_le_def)
    with True parts(6) run show ?thesis by (simp add: pnpm_all_dependencies_def)
  next
    case False
    then have "k \<in> dom (opt_get (pl_snapshots l'))" using parts(7) k by blast
    then have "opt_get (pl_snapshots l') k = opt_get (pl_snapshots l) k" "opt_get (pl_snapshots l) k \<noteq> None"
      using parts(5) by (auto simp: map_le_def) (metis option.distinct(1) domI)
    with run show ?thesis by (auto simp: pnpm_all_dependencies_def)
  qed
qed

interpretation pnpm: prunable_lockfile pnpm_resolve_package pnpm_all_dependencies pnpm_pkgs pnpm_subgraph pnpm_ok
  by unfold_locales (rule pnpm_prune_resolve, assumption+, rule pnpm_prune_deps, assumption+)

subsection \<open>Properties\<close>

text \<open>
  for a pnpm lockfile of any version the closure of a workspace's dependencies always returns: the set
  of all packages that the dependencies lead to, or an error that the lookup of one of them raises.
\<close>

theorem pnpm_closure_correct:
  "(\<exists>r. transitive_closure_lock (pnpm_resolve_package l) (pnpm_all_dependencies l) (length (pnpm_pkgs l)) ws deps ignore =
       Some (Inr r) \<and> set r = {p. in_closure (pnpm_resolve_package l) (pnpm_all_dependencies l) ws deps p}) \<or>
   (\<exists>e. transitive_closure_lock (pnpm_resolve_package l) (pnpm_all_dependencies l) (length (pnpm_pkgs l)) ws deps ignore =
       Some (Inl e) \<and> fails (pnpm_resolve_package l) (pnpm_all_dependencies l) ws deps e)"
  by (rule pnpm.closure_correct [OF order_refl])

text \<open>
  C10: pruning keeps a pnpm lockfile sound: when \<open>subgraph\<close> is asked for a workspace and (at least) the
  packages of its closure, the lockfile it returns has the same closure for that workspace.
\<close>

theorem pnpm_prune_preserves_closure:
  assumes "pnpm_ok l" and "pnpm_subgraph l workspaces keys = Inr l'" and "ws \<in> set workspaces"
    and "transitive_closure_lock (pnpm_resolve_package l) (pnpm_all_dependencies l) (length (pnpm_pkgs l)) ws deps False =
      Some (Inr r)"
    and "pkg_key ` set r \<subseteq> set keys"
  shows "\<exists>r'. transitive_closure_lock (pnpm_resolve_package l') (pnpm_all_dependencies l') (length (pnpm_pkgs l')) ws deps False =
      Some (Inr r') \<and> set r' = set r"
  by (rule pnpm.pruned_closure [OF assms order_refl])

text \<open>
  Formatting and parsing dependency paths. A name is a plain name, or a scope and a plain name; versions
  have no characters that start a suffix.
\<close>

definition plain_part :: "string \<Rightarrow> bool" where
  "plain_part s \<longleftrightarrow> s \<noteq> [] \<and> CHR ''/'' \<notin> set s \<and> CHR ''@'' \<notin> set s \<and> list_all (\<lambda>c. (of_char c :: nat) < 128) s"

inductive package_name :: "string \<Rightarrow> bool" where
  plain: "plain_part s \<Longrightarrow> package_name s"
| scoped: "plain_part a \<Longrightarrow> plain_part b \<Longrightarrow> package_name (''@'' @ a @ ''/'' @ b)"

definition version_part :: "string \<Rightarrow> bool" where
  "version_part v \<longleftrightarrow> v \<noteq> [] \<and> CHR ''_'' \<notin> set v \<and> CHR ''('' \<notin> set v"

fun peer_part :: "string list \<Rightarrow> string" where
  "peer_part [] = []"
| "peer_part (e # es) = ''('' @ e @ '')'' @ peer_part es"

lemma parse_name_ok:
  assumes "package_name n" and "sep = CHR ''/'' \<or> sep = CHR ''@''"
  shows "parse_name (n @ sep # r) = Inr (sep # r, n)"
  using assms(1)
proof cases
  case plain
  have "is_not ''/@'' (n @ sep # r) = Inr (sep # r, n)"
    using plain assms(2) by (auto simp: is_not_Inr plain_part_def)
  moreover have "\<exists>e. parse_name_with_scope (n @ sep # r) = Inl e"
  proof -
    have "\<not> prefix ''@'' (n @ sep # r)" using plain by (cases n) (auto simp: plain_part_def)
    then show ?thesis by (auto simp: parse_name_with_scope_def tag_str_def strip_prefix_None [symmetric])
  qed
  ultimately show ?thesis by (auto simp: parse_name_def)
next
  case (scoped a b)
  have "is_not ''/'' (a @ CHR ''/'' # b @ sep # r) = Inr (CHR ''/'' # b @ sep # r, a)"
    "is_not ''/@'' (b @ sep # r) = Inr (sep # r, b)"
    using scoped assms(2) by (auto simp: is_not_Inr plain_part_def)
  then show ?thesis by (simp add: parse_name_def parse_name_with_scope_def tag_str_def scoped(1))
qed

lemma parse_peers:
  assumes "list_all (\<lambda>e. e \<noteq> [] \<and> CHR '')'' \<notin> set e) es"
  shows "parse_more_suffixes (peer_part es) = (es, [])"
  using assms
proof (induction es)
  case Nil
  then show ?case by (subst parse_more_suffixes.simps) (simp add: parse_v6_suffix_def tag_str_def)
next
  case (Cons e es)
  have "is_not '')'' (e @ CHR '')'' # peer_part es) = Inr (CHR '')'' # peer_part es, e)"
    using Cons.prems by (auto simp: is_not_Inr)
  then have "parse_v6_suffix (peer_part (e # es)) = Inr (peer_part es, e)"
    by (simp add: parse_v6_suffix_def tag_str_def)
  with Cons show ?case by (subst parse_more_suffixes.simps) simp
qed

lemma opt_peer_suffix_ok:
  assumes "list_all (\<lambda>e. e \<noteq> [] \<and> CHR '')'' \<notin> set e) es"
  shows "opt_peer_suffix (peer_part es) = Inr ([], if es = [] then None else Some (peer_part es))"
proof (cases es)
  case Nil
  then show ?thesis
    by (simp add: opt_peer_suffix_def parse_new_peer_suffix_def parse_v6_suffixes_def parse_v6_suffix_def parse_old_peer_suffix_def tag_str_def)
next
  case (Cons e es')
  have "parse_more_suffixes (peer_part (e # es')) = (e # es', [])" using parse_peers [OF assms] Cons by simp
  then obtain r where "parse_v6_suffix (peer_part (e # es')) = Inr (r, e)" "parse_more_suffixes r = (es', [])"
    by (subst (asm) parse_more_suffixes.simps) (auto split: sum.splits prod.splits)
  then have "parse_v6_suffixes (peer_part es) = Inr ([], es)" using Cons by (simp add: parse_v6_suffixes_def)
  then show ?thesis using Cons by (simp add: opt_peer_suffix_def parse_new_peer_suffix_def del: peer_part.simps)
qed

text \<open>
  C40: a key that is written for a name and a version, with suffixes for its peers, is read back into its
  name, its version and these suffixes, in every version of the format.
\<close>

theorem dep_path_round_trip:
  assumes name: "package_name n" and version: "version_part v"
    and peers: "list_all (\<lambda>e. e \<noteq> [] \<and> CHR '')'' \<notin> set e) es"
  shows "dep_path_parse (pnpm_version l) (format_key l n v @ peer_part es) =
    Inr ((dep_path_new n v)\<lparr>dp_peer_suffix := if es = [] then None else Some (peer_part es)\<rparr>)"
proof -
  have v: "parse_version (v @ peer_part es) = Inr (peer_part es, v)"
    using version by (cases es) (auto simp: parse_version_def is_not_Inr version_part_def)
  have host: "parse_host (CHR ''/'' # r) = Inr (CHR ''/'' # r, None)" for r
    by (simp add: parse_host_def is_not_def)
  have old: "parse_dep_path (''/'' @ n @ sep # v @ peer_part es) =
      Inr ([], (dep_path_new n v)\<lparr>dp_host := None, dp_peer_suffix := if es = [] then None else Some (peer_part es)\<rparr>)"
    if "sep = CHR ''/'' \<or> sep = CHR ''@''" for sep
    using parse_name_ok [OF name that] v opt_peer_suffix_ok [OF peers] that
    by (auto simp: parse_dep_path_def host tag_str_def one_of_def)
  show ?thesis
  proof (cases "pnpm_version l")
    case V5
    then show ?thesis using old [of "CHR ''/''"] by (simp add: dep_path_parse_def format_key_def dep_path_new_def)
  next
    case V6
    then show ?thesis using old [of "CHR ''@''"] by (simp add: dep_path_parse_def format_key_def dep_path_new_def)
  next
    case V7AndV9
    have ne: "n \<noteq> []" and at: "CHR ''@'' \<notin> set (tl n)"
      using name by (auto simp: plain_part_def elim!: package_name.cases) (cases n; auto)
    then have split: "split_once (CHR ''@'') (tl (n @ ''@'' @ v @ peer_part es)) = Some (tl n, v @ peer_part es)"
      by (simp add: split_once_Some)
    have len: "\<not> length (tl n) + 1 \<ge> length (n @ ''@'' @ v @ peer_part es)" using ne by (cases n) simp_all
    have all: "\<And>c. c \<in> set v \<Longrightarrow> c \<noteq> CHR ''(''" using version by (auto simp: version_part_def)
    have paren: "takeWhile (\<lambda>c. c \<noteq> CHR ''('') (v @ peer_part es) = v"
      using takeWhile_append2 [of v "\<lambda>c. c \<noteq> CHR ''(''" "peer_part es", OF all] by (cases es) simp_all
    have tail: "es \<noteq> [] \<Longrightarrow> CHR ''('' \<in> set (peer_part es) \<and> suffix '')'' (peer_part es)"
    proof (induction es)
      case (Cons e es)
      then show ?case by (cases es) (auto simp: suffix_append suffix_Cons)
    qed simp
    have no: "CHR ''('' \<notin> set v" using version by (simp add: version_part_def)
    obtain c n' where n: "n = c # n'" using ne by (cases n) auto
    have "list_all (\<lambda>c. (of_char c :: nat) < 128) n"
      using name by (auto simp: plain_part_def elim!: package_name.cases)
    then have ascii: "\<not> continuation_byte (hd (n' @ ''@'' @ v @ peer_part es))"
      by (cases n') (auto simp: n continuation_byte_def)
    have v9: "parse_dep_path_v9 (n @ ''@'' @ v @ peer_part es) =
      (if CHR ''('' \<in> set (v @ peer_part es) \<and> ends_with (v @ peer_part es) '')''
       then Inr ((dep_path_new n v)\<lparr>dp_peer_suffix := Some (peer_part es)\<rparr>)
       else Inr (dep_path_new n (v @ peer_part es)))"
      unfolding parse_dep_path_v9_def split option.case prod.case Let_def paren using len ascii by (simp add: n)
    have "parse_dep_path_v9 (n @ ''@'' @ v @ peer_part es) =
      Inr ((dep_path_new n v)\<lparr>dp_peer_suffix := if es = [] then None else Some (peer_part es)\<rparr>)"
    proof (cases "es = []")
      case True
      then show ?thesis using v9 no by (simp add: dep_path_new_def)
    next
      case False
      then show ?thesis using v9 tail by (simp add: suffix_append)
    qed
    then show ?thesis using V7AndV9 by (simp add: dep_path_parse_def format_key_def)
  qed
qed

text \<open>The error for an empty version is never raised: a path that ends with its separator has the version ''''.\<close>

lemma missing_version_unreachable: "parse_dep_path_v9 i \<noteq> Inl (MissingDepVersion i')"
proof
  assume "parse_dep_path_v9 i = Inl (MissingDepVersion i')"
  then obtain a b where "split_once (CHR ''@'') (tl i) = Some (a, b)" "length a + 1 \<ge> length i" "i \<noteq> []"
    by (auto simp: parse_dep_path_v9_def Let_def split: if_splits option.splits)
  then show False by (cases i) (auto simp: split_once_Some)
qed

lemma empty_version_accepted: "parse_dep_path_v9 ''a@'' = Inr (dep_path_new ''a'' [])"
  by code_simp

subsection \<open>Examples\<close>

definition sample_snapshot :: "(string, string) btree_map \<Rightarrow> package_snapshot_v7" where
  "sample_snapshot deps = \<lparr>sn_optional = False, sn_dependencies = Some deps, sn_optional_dependencies = None,
     sn_transitive_peer_dependencies = None\<rparr>"

definition sample_package :: "unit package_snapshot" where
  "sample_package = \<lparr>ps_resolution = \<lparr>pr_type = None, pr_integrity = None, pr_tarball = None, pr_directory = None, pr_repo = None, pr_commit = None\<rparr>,
     ps_id = None, ps_name = None, ps_version = None, ps_snapshot = sample_snapshot [], ps_patched = None, ps_other = []\<rparr>"

text \<open>A lockfile of version 9: a workspace that depends on \<open>a\<close>, with a peer, which depends on \<open>b\<close>; and \<open>c\<close>.\<close>

definition sample_pnpm :: "unit pnpm_lockfile" where
  "sample_pnpm =
     \<lparr>pl_lockfile_version = \<lparr>lv_version = ''9.0'', lv_format = StringFormat\<rparr>, pl_settings = None,
      pl_never_built_dependencies = None, pl_only_built_dependencies = None, pl_overrides = None,
      pl_package_extensions_checksum = None, pl_patched_dependencies = None,
      pl_importers = [(''.'', \<lparr>pj_dependencies = V6Info None None None, pj_dependencies_meta = None, pj_publish_directory = None\<rparr>),
        (''w'', \<lparr>pj_dependencies = V6Info (Some [(''a'', \<lparr>de_specifier = ''^1'', de_version = ''1.0(b@2.0)''\<rparr>)]) None None,
           pj_dependencies_meta = None, pj_publish_directory = None\<rparr>)],
      pl_packages = Some [(''a@1.0'', sample_package), (''b@2.0'', sample_package), (''c@3.0'', sample_package)],
      pl_snapshots = Some [(''a@1.0(b@2.0)'', sample_snapshot [(''b'', ''2.0'')]), (''b@2.0'', sample_snapshot []), (''c@3.0'', sample_snapshot [])],
      pl_time = None\<rparr>"

abbreviation sample_keys :: "string list" where
  "sample_keys \<equiv> [''a@1.0(b@2.0)'', ''b@2.0'']"

definition sample_pruned :: "unit pnpm_lockfile" where
  "sample_pruned = sample_pnpm\<lparr>pl_packages := Some [(''a@1.0'', sample_package), (''b@2.0'', sample_package)],
     pl_snapshots := Some [(''a@1.0(b@2.0)'', sample_snapshot [(''b'', ''2.0'')]), (''b@2.0'', sample_snapshot [])]\<rparr>"

lemma sample_pnpm_ok: "pnpm_ok sample_pnpm"
proof -
  have keys: "k \<in> set [''a@1.0'', ''b@2.0'', ''c@3.0'']" if "opt_get (pl_packages sample_pnpm) k \<noteq> None" for k
    using that by (auto simp: sample_pnpm_def split: if_splits)
  have "list_all (\<lambda>k. (case pnpm_dep_path sample_pnpm k of
      Inr dp \<Rightarrow> format_key sample_pnpm (dp_name dp) (dp_version dp) = k | Inl _ \<Rightarrow> False)) [''a@1.0'', ''b@2.0'', ''c@3.0'']"
    by code_simp
  with keys have "package_key_of sample_pnpm k k" if "opt_get (pl_packages sample_pnpm) k \<noteq> None" for k
    using that by (fastforce simp: package_key_of_def list_all_iff split: sum.splits)
  moreover have "pnpm_version sample_pnpm = V7AndV9" by code_simp
  ultimately show ?thesis by (simp add: pnpm_ok_def)
qed

theorem pnpm_prune_preserves_closure_witness:
  "\<exists>r'. transitive_closure_lock (pnpm_resolve_package sample_pruned) (pnpm_all_dependencies sample_pruned)
      (length (pnpm_pkgs sample_pruned)) ''w'' [(''a'', ''^1'')] False = Some (Inr r') \<and>
     set r' = set [Package ''b@2.0'' ''2.0'', Package ''a@1.0(b@2.0)'' ''1.0(b@2.0)'']"
proof (rule pnpm_prune_preserves_closure)
  show "pnpm_ok sample_pnpm" by (rule sample_pnpm_ok)
  show "pnpm_subgraph sample_pnpm [''w''] sample_keys = Inr sample_pruned" by code_simp
  show "''w'' \<in> set [''w'']" by simp
  show "transitive_closure_lock (pnpm_resolve_package sample_pnpm) (pnpm_all_dependencies sample_pnpm) (length (pnpm_pkgs sample_pnpm))
      ''w'' [(''a'', ''^1'')] False = Some (Inr [Package ''b@2.0'' ''2.0'', Package ''a@1.0(b@2.0)'' ''1.0(b@2.0)''])"
    by code_simp
qed simp

theorem dep_path_round_trip_witness:
  "dep_path_parse (pnpm_version sample_pnpm) (format_key sample_pnpm ''@s/a'' ''1.0'' @ peer_part [''b@2.0'']) =
    Inr ((dep_path_new ''@s/a'' ''1.0'')\<lparr>dp_peer_suffix := if [''b@2.0''] = [] then None else Some (peer_part [''b@2.0''])\<rparr>)"
  by (rule dep_path_round_trip [OF package_name.scoped [of "''s''" "''a''", simplified]])
    (simp_all add: plain_part_def version_part_def)
end
