(* ===== verification/Yarn_Bun_Lockfile.thy ===== *)
theory Yarn_Bun_Lockfile
  imports Lockfiles
begin

text \<open>
  \<open>nrzrepo-lockfiles/src/yarn1/mod.rs\<close>, \<open>bun/mod.rs\<close> and \<open>bun/id.rs\<close>: the lookups of the two
  lockfiles and, for yarn, pruning. The syntax of the files (\<open>yarn1/de.rs\<close>, \<open>ser.rs\<close>,
  \<open>bun/de.rs\<close>) is not modelled. As for npm, \<open>global_change\<close> takes the downcast other lockfile.
\<close>

subsection \<open>Yarn 1\<close>

record yarn_entry =
  ye_name :: "string option"
  ye_version :: string
  ye_uid :: "string option"
  ye_resolved :: "string option"
  ye_integrity :: "string option"
  ye_registry :: "string option"
  ye_dependencies :: "(string, string) btree_map option"
  ye_optional_dependencies :: "(string, string) btree_map option"

record yarn1_lockfile =
  yl_inner :: "(string, yarn_entry) btree_map"

definition PROTOCOLS :: "string list" where
  "PROTOCOLS = ['''', ''npm:'', ''file:'', ''workspace:'', ''yarn:'']"

definition yarn_possible_keys :: "string \<Rightarrow> string \<Rightarrow> string list" where
  "yarn_possible_keys name version = map (\<lambda>protocol. name @ ''@'' @ protocol @ version) PROTOCOLS"

definition yarn_entry_at :: "yarn1_lockfile \<Rightarrow> string \<Rightarrow> lf_package option" where
  "yarn_entry_at lf key = map_option (\<lambda>entry. Package key (ye_version entry)) (map_of (yl_inner lf) key)"

definition yarn_resolve_package :: "yarn1_lockfile \<Rightarrow> resolver" where
  "yarn_resolve_package lf workspace_path name version =
     Inr (find_map (yarn_entry_at lf) (yarn_possible_keys name version))"

definition dependency_entries :: "yarn_entry \<Rightarrow> (string \<times> string) list" where
  "dependency_entries e =
     (case ye_dependencies e of Some d \<Rightarrow> d | None \<Rightarrow> []) @
     (case ye_optional_dependencies e of Some d \<Rightarrow> d | None \<Rightarrow> [])"

definition yarn_all_dependencies :: "yarn1_lockfile \<Rightarrow> dep_lookup" where
  "yarn_all_dependencies lf key =
     (case map_of (yl_inner lf) key of
        None \<Rightarrow> Inr None
      | Some entry \<Rightarrow>
          (let all_deps = hm_collect (dependency_entries entry)
           in Inr (if all_deps = [] then None else Some all_deps)))"

definition yarn_subgraph ::
  "yarn1_lockfile \<Rightarrow> string list \<Rightarrow> string list \<Rightarrow> (lockfile_error, yarn1_lockfile) result"
where
  "yarn_subgraph lf workspace_packages packages =
     Inr \<lparr>yl_inner = fold (\<lambda>(key, entry) inner. bt_insert key entry inner)
       (List.map_filter (\<lambda>key. map_option (\<lambda>entry. (key, entry)) (map_of (yl_inner lf) key)) packages) []\<rparr>"

definition yarn_global_change :: "yarn1_lockfile \<Rightarrow> yarn1_lockfile option \<Rightarrow> bool" where
  "yarn_global_change lf other = (other = None)"

definition yarn_nrz_version :: "yarn1_lockfile \<Rightarrow> string option" where
  "yarn_nrz_version lf =
     (case List.find (\<lambda>key. starts_with key ''nrz@'') (map fst (yl_inner lf)) of
        None \<Rightarrow> None
      | Some key \<Rightarrow> map_option ye_version (map_of (yl_inner lf) key))"

definition yarn_human_name :: "yarn1_lockfile \<Rightarrow> lf_package \<Rightarrow> string option" where
  "yarn_human_name lf package =
     (case map_of (yl_inner lf) (pkg_key package) of
        None \<Rightarrow> None
      | Some entry \<Rightarrow> map_option (\<lambda>name. name @ ''@'' @ ye_version entry) (ye_name entry))"

definition yarn_pkgs :: "yarn1_lockfile \<Rightarrow> lf_package list" where
  "yarn_pkgs lf = List.map_filter (yarn_entry_at lf) (map fst (yl_inner lf))"

lemma yarn_entry_key: "yarn_entry_at lf k = Some p \<Longrightarrow> pkg_key p = k"
  by (auto simp: yarn_entry_at_def)

lemma yarn_resolve_known:
  assumes "yarn_resolve_package lf ws n v = Inr (Some p)"
  shows "p \<in> set (yarn_pkgs lf)"
proof -
  from assms obtain k where k: "yarn_entry_at lf k = Some p"
    by (auto simp: yarn_resolve_package_def dest!: find_map_Some)
  then have "k \<in> fst ` set (yl_inner lf)"
    by (auto simp: yarn_entry_at_def) (metis option.distinct(1) map_of_eq_None_iff)
  with k show ?thesis by (auto simp: yarn_pkgs_def List.map_filter_def image_iff)
qed

lemma fold_bt_insert:
  assumes "bt_ok m"
  shows "bt_ok (fold (\<lambda>(k, e) m. bt_insert k e m) kes m)"
    and "map_of (fold (\<lambda>(k, e) m. bt_insert k e m) kes m) = map_of m ++ map_of (rev kes)"
  using assms
proof (induction kes arbitrary: m)
  case (Cons ke kes)
  obtain k e where ke: "ke = (k, e)" by (cases ke)
  {
    case 1
    then show ?case using Cons.IH(1) [OF bt_ok_insert] by (simp add: ke)
  next
    case 2
    then show ?case using Cons.IH(2) [OF bt_ok_insert] by (simp add: ke fun_eq_iff map_add_def split: option.splits)
  }
qed simp_all

text \<open>The pruned lockfile has exactly the entries asked for that exist.\<close>

lemma yarn_subgraph_inner:
  assumes "yarn_subgraph lf wss keys = Inr l'"
  shows "map_of (yl_inner l') k = (if k \<in> set keys then map_of (yl_inner lf) k else None)"
proof -
  let ?kes = "List.map_filter (\<lambda>key. map_option (\<lambda>entry. (key, entry)) (map_of (yl_inner lf) key)) keys"
  have mem: "(k, e) \<in> set (rev ?kes) \<longleftrightarrow> k \<in> set keys \<and> map_of (yl_inner lf) k = Some e" for k e
    by (force simp: List.map_filter_def)
  have "yl_inner l' = fold (\<lambda>(k, e) m. bt_insert k e m) ?kes []"
    using assms by (auto simp: yarn_subgraph_def)
  then have "map_of (yl_inner l') k = map_of (rev ?kes) k"
    using fold_bt_insert(2) [of "[]" ?kes] by (simp add: bt_ok_def)
  also have "\<dots> = (if k \<in> set keys then map_of (yl_inner lf) k else None)"
  proof (cases "map_of (rev ?kes) k")
    case None
    then have "k \<notin> fst ` set (rev ?kes)" by (rule iffD1 [OF map_of_eq_None_iff])
    have "map_of (yl_inner lf) k = None" if "k \<in> set keys"
    proof (rule ccontr)
      assume "map_of (yl_inner lf) k \<noteq> None"
      then obtain e where "map_of (yl_inner lf) k = Some e" by blast
      with that have "(k, e) \<in> set (rev ?kes)" unfolding mem by blast
      then have "k \<in> fst ` set (rev ?kes)" by (rule image_eqI [rotated]) simp
      with \<open>k \<notin> fst ` set (rev ?kes)\<close> show False by blast
    qed
    with None show ?thesis by simp
  next
    case (Some e)
    with mem map_of_SomeD [OF Some] show ?thesis by simp
  qed
  finally show ?thesis .
qed

lemma yarn_prune_resolve:
  assumes sub: "yarn_subgraph l wss keys = Inr l'"
    and q: "yarn_resolve_package l ws n v = Inr q" and key: "\<And>p. q = Some p \<Longrightarrow> pkg_key p \<in> set keys"
  shows "yarn_resolve_package l' ws n v = Inr q"
proof -
  have at: "yarn_entry_at l' k = (if k \<in> set keys then yarn_entry_at l k else None)" for k
    by (simp add: yarn_entry_at_def yarn_subgraph_inner [OF sub])
  have "find_map (yarn_entry_at l) (yarn_possible_keys n v) = q"
    using q by (simp add: yarn_resolve_package_def)
  then have "find_map (yarn_entry_at l') (yarn_possible_keys n v) = q"
  proof (rule find_map_sub)
    show "\<And>x y. yarn_entry_at l' x = Some y \<Longrightarrow> yarn_entry_at l x = Some y" by (simp add: at split: if_splits)
    show "\<And>x y. q = Some y \<Longrightarrow> yarn_entry_at l x = Some y \<Longrightarrow> yarn_entry_at l' x = Some y"
      using key yarn_entry_key by (fastforce simp: at)
  qed
  then show ?thesis by (simp add: yarn_resolve_package_def)
qed

interpretation yarn1: prunable_lockfile yarn_resolve_package yarn_all_dependencies yarn_pkgs yarn_subgraph "\<lambda>_. True"
proof unfold_locales
  fix l ws n v p assume "yarn_resolve_package l ws n v = Inr (Some p)"
  then show "p \<in> set (yarn_pkgs l)" by (rule yarn_resolve_known)
next
  fix l wss keys l' ws n v q
  assume "yarn_subgraph l wss keys = Inr l'" "yarn_resolve_package l ws n v = Inr q"
    and "\<And>p. q = Some p \<Longrightarrow> pkg_key p \<in> set keys"
  then show "yarn_resolve_package l' ws n v = Inr q" by (rule yarn_prune_resolve)
next
  fix l wss keys l' k ds
  assume "yarn_subgraph l wss keys = Inr l'" "k \<in> set keys" "yarn_all_dependencies l k = Inr ds"
  then show "yarn_all_dependencies l' k = Inr ds"
    by (simp add: yarn_all_dependencies_def yarn_subgraph_inner)
qed

lemma length_yarn_pkgs: "length (yarn_pkgs lf) \<le> length (yl_inner lf)"
  by (simp add: yarn_pkgs_def List.map_filter_def le_trans [OF length_filter_le])

text \<open>C11: a yarn lockfile never makes the closure fail: it returns the packages that the dependencies lead
  to, and pruning the lockfile to these packages keeps the closure.\<close>

theorem yarn_closure_and_prune:
  "\<exists>r. transitive_closure_lock (yarn_resolve_package l) (yarn_all_dependencies l) (length (yl_inner l)) ws deps False = Some (Inr r) \<and>
     set r = {p. in_closure (yarn_resolve_package l) (yarn_all_dependencies l) ws deps p} \<and>
     (\<exists>l' r'. yarn_subgraph l [ws] (map pkg_key r) = Inr l' \<and>
       transitive_closure_lock (yarn_resolve_package l') (yarn_all_dependencies l') (length (yl_inner l')) ws deps False = Some (Inr r') \<and>
       set r' = set r)"
proof -
  have "\<not> fails (yarn_resolve_package l) (yarn_all_dependencies l) ws deps e" for e
    by (auto simp: fails_def yarn_resolve_package_def yarn_all_dependencies_def Let_def split: option.splits)
  with yarn1.closure_correct [OF length_yarn_pkgs, of l ws deps False] obtain r where
    r: "transitive_closure_lock (yarn_resolve_package l) (yarn_all_dependencies l) (length (yl_inner l)) ws deps False = Some (Inr r)"
    "set r = {p. in_closure (yarn_resolve_package l) (yarn_all_dependencies l) ws deps p}"
    by blast
  obtain l' where l': "yarn_subgraph l [ws] (map pkg_key r) = Inr l'" by (auto simp: yarn_subgraph_def)
  have "\<exists>r'. transitive_closure_lock (yarn_resolve_package l') (yarn_all_dependencies l') (length (yl_inner l')) ws deps False =
      Some (Inr r') \<and> set r' = set r"
    by (rule yarn1.pruned_closure [OF TrueI l' _ r(1) _ length_yarn_pkgs]) simp_all
  with r l' show ?thesis by blast
qed

subsection \<open>Bun\<close>

record workspace_entry =
  we_name :: string
  we_version :: "string option"
  we_dependencies :: "(string, string) hash_map option"
  we_dev_dependencies :: "(string, string) hash_map option"
  we_optional_dependencies :: "(string, string) hash_map option"
  we_peer_dependencies :: "(string, string) hash_map option"
  we_optional_peers :: "string list option"

record bun_package_info =
  bi_dependencies :: "(string, string) hash_map"
  bi_dev_dependencies :: "(string, string) hash_map"
  bi_optional_dependencies :: "(string, string) hash_map"
  bi_peer_dependencies :: "(string, string) hash_map"

record bun_root_info =
  br_bin :: "string option"
  br_bin_dir :: "string option"

record package_entry =
  pe_ident :: string
  pe_registry :: "string option"
  pe_info :: "bun_package_info option"
  pe_checksum :: "string option"
  pe_root :: "bun_root_info option"

record bun_lockfile =
  bl_lockfile_version :: int
  bl_workspaces :: "(string, workspace_entry) hash_map"
  bl_packages :: "(string, package_entry) hash_map"
  bl_patched_dependencies :: "(string, string) hash_map"

definition less_specific_key :: "string \<Rightarrow> string option" where
  "less_specific_key key =
     (case split_once (CHR ''/'') key of
        None \<Rightarrow> None
      | Some (_, after_slash) \<Rightarrow>
          if starts_with key ''@'' then map_option snd (split_once (CHR ''/'') after_slash)
          else Some after_slash)"

lemma less_specific_key_shorter: "less_specific_key key = Some k \<Longrightarrow> length k < length key"
  by (auto simp: less_specific_key_def split_once_Some split: option.splits if_splits)

text \<open>What the iterator \<open>PossibleKeyIter\<close> yields.\<close>

function possible_key_iter :: "string \<Rightarrow> string list" where
  "possible_key_iter key =
     key # (case less_specific_key key of None \<Rightarrow> [] | Some k \<Rightarrow> possible_key_iter k)"
  by pat_completeness auto

termination
  by (relation "measure length") (auto dest: less_specific_key_shorter)

declare possible_key_iter.simps [simp del]

definition bun_package_entry :: "bun_lockfile \<Rightarrow> string \<Rightarrow> (string \<times> package_entry) option" where
  "bun_package_entry lf key =
     find_map (\<lambda>k. map_option (\<lambda>e. (k, e)) (hm_get (bl_packages lf) k)) (possible_key_iter key)"

definition bun_entry_version :: "package_entry \<Rightarrow> string" where
  "bun_entry_version e = (case rsplit_once_str ''@'' (pe_ident e) of Some (_, v) \<Rightarrow> v | None \<Rightarrow> pe_ident e)"

definition bun_package :: "bun_lockfile \<Rightarrow> package_entry \<Rightarrow> lf_package" where
  "bun_package lf entry =
     Package (pe_ident entry)
       (bun_entry_version entry @
        (case hm_get (bl_patched_dependencies lf) (pe_ident entry) of Some patch \<Rightarrow> ''+'' @ patch | None \<Rightarrow> []))"

definition bun_resolve_package :: "bun_lockfile \<Rightarrow> resolver" where
  "bun_resolve_package lf workspace_path name version =
     (case hm_get (bl_workspaces lf) workspace_path of
        None \<Rightarrow> Inl (MissingWorkspace workspace_path)
      | Some workspace_entry \<Rightarrow>
          Inr (map_option (\<lambda>(_, entry). bun_package lf entry)
            (bun_package_entry lf (we_name workspace_entry @ ''/'' @ name))))"

definition bun_info_dependencies :: "bun_package_info \<Rightarrow> (string \<times> string) list" where
  "bun_info_dependencies info =
     bi_dependencies info @ bi_dev_dependencies info @ bi_optional_dependencies info @ bi_peer_dependencies info"

fun bun_collect_deps ::
  "bun_lockfile \<Rightarrow> string \<Rightarrow> (string \<times> string) list \<Rightarrow> dep_map \<Rightarrow> (lockfile_error, dep_map) result"
where
  "bun_collect_deps lf key [] deps = Inr deps"
| "bun_collect_deps lf key ((dependency, version) # rest) deps =
     (case bun_package_entry lf (key @ ''/'' @ dependency) of
        None \<Rightarrow> Inl (MissingPackage dependency)
      | Some (dep_key, _) \<Rightarrow> bun_collect_deps lf key rest (hm_insert dep_key version deps))"

definition bun_all_dependencies :: "bun_lockfile \<Rightarrow> dep_lookup" where
  "bun_all_dependencies lf key =
     (case hm_get (bl_packages lf) key of
        None \<Rightarrow> Inl (MissingPackage key)
      | Some entry \<Rightarrow>
          try_bind (bun_collect_deps lf key
              (case pe_info entry of Some info \<Rightarrow> bun_info_dependencies info | None \<Rightarrow> []) [])
            (\<lambda>deps. Inr (Some deps)))"

definition bun_subgraph ::
  "bun_lockfile \<Rightarrow> string list \<Rightarrow> string list \<Rightarrow> (lockfile_error, bun_lockfile) result"
where
  "bun_subgraph lf workspace_packages packages = Inl BunNotImplemented"

definition bun_encode :: "bun_lockfile \<Rightarrow> (lockfile_error, string) result" where
  "bun_encode lf = Inl BunNotImplemented"

definition bun_global_change :: "bun_lockfile \<Rightarrow> bun_lockfile option \<Rightarrow> bool" where
  "bun_global_change lf other = (other = None)"

definition bun_nrz_version :: "bun_lockfile \<Rightarrow> string option" where
  "bun_nrz_version lf = map_option (\<lambda>(_, entry). bun_entry_version entry) (bun_package_entry lf ''nrz'')"

definition bun_human_name :: "bun_lockfile \<Rightarrow> lf_package \<Rightarrow> string option" where
  "bun_human_name lf package = map_option pe_ident (hm_get (bl_packages lf) (pkg_key package))"

definition bun_pkgs :: "bun_lockfile \<Rightarrow> lf_package list" where
  "bun_pkgs lf = map (\<lambda>(_, entry). bun_package lf entry) (bl_packages lf)"

lemma bun_package_entry_mem: "bun_package_entry lf key = Some (k, e) \<Longrightarrow> (k, e) \<in> set (bl_packages lf)"
  by (auto simp: bun_package_entry_def dest!: find_map_Some map_of_SomeD)

interpretation bun: lockfile bun_resolve_package bun_all_dependencies bun_pkgs
proof unfold_locales
  fix l ws n v p assume "bun_resolve_package l ws n v = Inr (Some p)"
  then show "p \<in> set (bun_pkgs l)"
    by (force simp: bun_resolve_package_def bun_pkgs_def dest: bun_package_entry_mem split: option.splits)
qed

text \<open>
  C12: the closure of a bun lockfile fails as soon as one of the dependencies resolves:
  \<open>resolve_package\<close> names the package by the identifier of its entry (\<open>name@version\<close>), and
  \<open>all_dependencies\<close> looks that up among the keys of the map, which are import paths. Only a
  package whose identifier is also a key would do.
\<close>

theorem bun_closure_fails:
  assumes "(n, v) \<in> set deps" and "bun_resolve_package l ws n v = Inr (Some p)"
    and "hm_get (bl_packages l) (pkg_key p) = None"
  shows "\<exists>e. transitive_closure_lock (bun_resolve_package l) (bun_all_dependencies l) (length (bl_packages l)) ws deps ignore =
    Some (Inl e)"
proof -
  obtain res where res: "transitive_closure_lock (bun_resolve_package l) (bun_all_dependencies l) (length (bl_packages l)) ws deps ignore = Some res"
    using bun.closure_returns [of l "length (bl_packages l)" ws deps ignore] by (auto simp: bun_pkgs_def)
  have "bun_all_dependencies l (pkg_key p) = Inl (MissingPackage (pkg_key p))"
    by (simp add: bun_all_dependencies_def assms(3))
  moreover have "\<exists>ds. bun_all_dependencies l (pkg_key p) = Inr ds" if "res = Inr r" for r
    using closure_no_error(2) [OF res [unfolded that] needs.direct [OF assms(1)] assms(2)] .
  ultimately show ?thesis using res by (cases res) auto
qed

definition sample_bun :: bun_lockfile where
  "sample_bun = \<lparr>bl_lockfile_version = 0,
     bl_workspaces = [([], \<lparr>we_name = ''repo'', we_version = None, we_dependencies = Some [(''a'', ''^1'')],
       we_dev_dependencies = None, we_optional_dependencies = None, we_peer_dependencies = None,
       we_optional_peers = None\<rparr>)],
     bl_packages = [(''a'', \<lparr>pe_ident = ''a@1.0.0'', pe_registry = None, pe_info = None, pe_checksum = None,
       pe_root = None\<rparr>)],
     bl_patched_dependencies = []\<rparr>"

lemma sample_bun_resolves:
  "bun_resolve_package sample_bun [] ''a'' ''^1'' = Inr (Some (Package ''a@1.0.0'' ''1.0.0''))"
  "hm_get (bl_packages sample_bun) (pkg_key (Package ''a@1.0.0'' ''1.0.0'')) = None"
  by code_simp+

theorem bun_closure_fails_witness:
  "bun_resolve_package sample_bun [] ''a'' ''^1'' = Inr (Some (Package ''a@1.0.0'' ''1.0.0'')) \<and>
   (\<exists>e. transitive_closure_lock (bun_resolve_package sample_bun) (bun_all_dependencies sample_bun)
      (length (bl_packages sample_bun)) [] [(''a'', ''^1'')] False = Some (Inl e))"
  by (intro conjI sample_bun_resolves(1) bun_closure_fails [OF _ sample_bun_resolves]) simp

end
