(* ===== verification/Task_Output.thy ===== *)
theory Task_Output
  imports File_System Api_Client Nrz_Json
begin

text \<open>
  What a task prints: \<open>nrzrepo-ui/src/line.rs\<close>, \<open>prefixed.rs\<close>, \<open>logs.rs\<close>, \<open>output.rs\<close>,
  \<open>color_selector.rs\<close> and the senders of \<open>sender.rs\<close>. The trait \<open>Write\<close> of the standard library is
  a function that takes the writer and some bytes and returns how many of them it accepted together
  with the changed writer; a generic parameter \<open>W: Write\<close> is such a function as an argument. Bytes are
  characters. The bytes of styles (colours) are part of the prefixes, which are strings.
\<close>

named_theorems output_simps \<open>unfolding rules for writers of lines\<close>

subsection \<open>Writers\<close>

type_synonym 'w writer = "'w \<Rightarrow> string \<Rightarrow> (io_error, nat) result \<times> 'w"
type_synonym 'w sender = "'w \<Rightarrow> string \<Rightarrow> (io_error, unit) result \<times> 'w"

abbreviation newline :: char where
  "newline \<equiv> CHR 0x0A"

abbreviation carriage_return :: char where
  "carriage_return \<equiv> CHR 0x0D"

text \<open>\<open>Write::write_all\<close> of the standard library; a writer that accepts nothing is an error.\<close>

function write_all :: "'w writer \<Rightarrow> 'w sender" where
  "write_all wr w buf =
     (if buf = [] then (Inr (), w)
      else case wr w buf of
        (Inl e, w') \<Rightarrow> (Inl e, w')
      | (Inr n, w') \<Rightarrow>
          if n = 0 then (Inl (OtherIo ''failed to write whole buffer''), w')
          else write_all wr w' (drop n buf))"
  by pat_completeness auto
termination
  by (relation "measure (\<lambda>(_, _, buf). length buf)") auto

declare write_all.simps [simp del]

lemma write_all_Nil [simp]: "write_all wr w [] = (Inr (), w)"
  by (simp add: write_all.simps)

lemma write_all_whole:
  assumes "wr w buf = (Inr (length buf), w')"
  shows "write_all wr w buf = (Inr (), if buf = [] then w else w')"
  using assms by (subst write_all.simps) simp

lemma write_all_error:
  assumes "wr w buf = (Inl e, w')" and "buf \<noteq> []"
  shows "write_all wr w buf = (Inl e, w')"
  using assms by (subst write_all.simps) simp

text \<open>\<open>split_inclusive\<close>: the pieces of a slice, each with the separator it ends with.\<close>

fun split_inclusive :: "char \<Rightarrow> string \<Rightarrow> string list" where
  "split_inclusive d [] = []"
| "split_inclusive d (c # s) =
     (if c = d then [c] # split_inclusive d s
      else case split_inclusive d s of [] \<Rightarrow> [[c]] | p # ps \<Rightarrow> (c # p) # ps)"

lemma concat_split_inclusive [simp]: "concat (split_inclusive d s) = s"
  by (induction s) (auto split: list.splits)

lemma split_inclusive_Nil_iff [simp]: "split_inclusive d s = [] \<longleftrightarrow> s = []"
  by (cases s) (auto split: list.splits)

lemma split_inclusive_absent: "d \<notin> set s \<Longrightarrow> s \<noteq> [] \<Longrightarrow> split_inclusive d s = [s]"
proof (induction s)
  case (Cons c s)
  then show ?case
    by (cases s) auto
qed simp

lemma split_inclusive_line: "d \<notin> set a \<Longrightarrow> split_inclusive d (a @ d # b) = (a @ [d]) # split_inclusive d b"
  by (induction a) auto

subsection \<open>Line writers\<close>

record 'w line_writer =
  lw_writer :: 'w
  lw_buffer :: string

definition line_writer_new :: "'w \<Rightarrow> 'w line_writer" where
  "line_writer_new w = \<lparr>lw_writer = w, lw_buffer = []\<rparr>"

fun lw_write_lines :: "'w sender \<Rightarrow> 'w line_writer \<Rightarrow> string list \<Rightarrow> (io_error, unit) result \<times> 'w line_writer" where
  "lw_write_lines wa lw [] = (Inr (), lw)"
| "lw_write_lines wa lw (line # lines) =
     (if ends_with line [newline] then
        if lw_buffer lw = [] then
          (case wa (lw_writer lw) line of
             (Inl e, w) \<Rightarrow> (Inl e, lw\<lparr>lw_writer := w\<rparr>)
           | (Inr _, w) \<Rightarrow> lw_write_lines wa (lw\<lparr>lw_writer := w\<rparr>) lines)
        else
          (let buffer = lw_buffer lw @ line
           in case wa (lw_writer lw) buffer of
                (Inl e, w) \<Rightarrow> (Inl e, \<lparr>lw_writer = w, lw_buffer = buffer\<rparr>)
              | (Inr _, w) \<Rightarrow> lw_write_lines wa \<lparr>lw_writer = w, lw_buffer = []\<rparr> lines)
      else lw_write_lines wa (lw\<lparr>lw_buffer := lw_buffer lw @ line\<rparr>) lines)"

definition lw_write :: "'w sender \<Rightarrow> 'w line_writer writer" where
  "lw_write wa lw buf =
     (case lw_write_lines wa lw (split_inclusive newline buf) of
        (Inl e, lw') \<Rightarrow> (Inl e, lw')
      | (Inr _, lw') \<Rightarrow> (Inr (length buf), lw'))"

text \<open>Flushing does not send the unfinished line.\<close>

definition lw_flush :: "('w \<Rightarrow> (io_error, unit) result \<times> 'w) \<Rightarrow> 'w line_writer \<Rightarrow> (io_error, unit) result \<times> 'w line_writer" where
  "lw_flush fl lw = (case fl (lw_writer lw) of (r, w) \<Rightarrow> (r, lw\<lparr>lw_writer := w\<rparr>))"

subsection \<open>Prefixed writers\<close>

record 'w prefixed_inner =
  pi_prefix :: string
  pi_writer :: 'w

fun pi_write_chunks ::
  "'w sender \<Rightarrow> bool \<Rightarrow> 'w prefixed_inner \<Rightarrow> string list \<Rightarrow> (io_error, unit) result \<times> 'w prefixed_inner" where
  "pi_write_chunks wa is_first p [] = (Inr (), p)"
| "pi_write_chunks wa is_first p (chunk # chunks) =
     (case (if is_first \<or> chunk \<noteq> [newline] then wa (pi_writer p) (pi_prefix p) else (Inr (), pi_writer p)) of
        (Inl e, w) \<Rightarrow> (Inl e, p\<lparr>pi_writer := w\<rparr>)
      | (Inr _, w) \<Rightarrow>
          (case wa w chunk of
             (Inl e, w') \<Rightarrow> (Inl e, p\<lparr>pi_writer := w'\<rparr>)
           | (Inr _, w') \<Rightarrow> pi_write_chunks wa False (p\<lparr>pi_writer := w'\<rparr>) chunks))"

definition pi_write :: "'w sender \<Rightarrow> 'w prefixed_inner writer" where
  "pi_write wa p buf =
     (case pi_write_chunks wa True p (split_inclusive carriage_return buf) of
        (Inl e, p') \<Rightarrow> (Inl e, p')
      | (Inr _, p') \<Rightarrow> (Inr (length buf), p'))"

type_synonym 'w prefixed_writer = "'w prefixed_inner line_writer"

definition prefixed_writer_new :: "string \<Rightarrow> 'w \<Rightarrow> 'w prefixed_writer" where
  "prefixed_writer_new prefix_text w = line_writer_new \<lparr>pi_prefix = prefix_text, pi_writer = w\<rparr>"

definition pw_write :: "'w sender \<Rightarrow> 'w prefixed_writer writer" where
  "pw_write wa = lw_write (write_all (pi_write wa))"

definition pi_flush :: "('w \<Rightarrow> (io_error, unit) result \<times> 'w) \<Rightarrow> 'w prefixed_inner \<Rightarrow> (io_error, unit) result \<times> 'w prefixed_inner" where
  "pi_flush fl p = (case fl (pi_writer p) of (r, w) \<Rightarrow> (r, p\<lparr>pi_writer := w\<rparr>))"

definition pw_flush :: "('w \<Rightarrow> (io_error, unit) result \<times> 'w) \<Rightarrow> 'w prefixed_writer \<Rightarrow> (io_error, unit) result \<times> 'w prefixed_writer" where
  "pw_flush fl = lw_flush (pi_flush fl)"

datatype ui_command = CmdOutput | CmdWarn | CmdError

record 'w prefixed_ui =
  pu_output_prefix :: "string option"
  pu_warn_prefix :: "string option"
  pu_error_prefix :: "string option"
  pu_out :: 'w
  pu_err :: 'w

definition prefixed_ui_new :: "'w \<Rightarrow> 'w \<Rightarrow> 'w prefixed_ui" where
  "prefixed_ui_new out err =
     \<lparr>pu_output_prefix = None, pu_warn_prefix = None, pu_error_prefix = None, pu_out = out, pu_err = err\<rparr>"

definition with_output_prefix :: "string \<Rightarrow> 'w prefixed_ui \<Rightarrow> 'w prefixed_ui" where
  "with_output_prefix prefix_text u = u\<lparr>pu_output_prefix := Some prefix_text\<rparr>"

definition with_warn_prefix :: "string \<Rightarrow> 'w prefixed_ui \<Rightarrow> 'w prefixed_ui" where
  "with_warn_prefix prefix_text u = u\<lparr>pu_warn_prefix := Some prefix_text\<rparr>"

definition with_error_prefix :: "string \<Rightarrow> 'w prefixed_ui \<Rightarrow> 'w prefixed_ui" where
  "with_error_prefix prefix_text u = u\<lparr>pu_error_prefix := Some prefix_text\<rparr>"

text \<open>
  \<open>writeln!\<close> hands its pieces to the writer one by one; a failure is logged and dropped. The prefix is
  one piece, the message another and the newline a third.
\<close>

fun write_pieces :: "'w sender \<Rightarrow> 'w \<Rightarrow> string list \<Rightarrow> 'w" where
  "write_pieces wa w [] = w"
| "write_pieces wa w (p # ps) =
     (case wa w p of (Inl _, w') \<Rightarrow> w' | (Inr _, w') \<Rightarrow> write_pieces wa w' ps)"

definition pu_write_line :: "'w sender \<Rightarrow> string \<Rightarrow> ui_command \<Rightarrow> 'w prefixed_ui \<Rightarrow> 'w prefixed_ui" where
  "pu_write_line wa message cmd u =
     (let opt_text = (\<lambda>p. case p of Some s \<Rightarrow> s | None \<Rightarrow> [])
      in case cmd of
           CmdOutput \<Rightarrow> u\<lparr>pu_out := write_pieces wa (pu_out u) [opt_text (pu_output_prefix u), message, [newline]]\<rparr>
         | CmdWarn \<Rightarrow> u\<lparr>pu_err := write_pieces wa (pu_err u) [opt_text (pu_warn_prefix u), message, [newline]]\<rparr>
         | CmdError \<Rightarrow> u\<lparr>pu_err := write_pieces wa (pu_err u) [opt_text (pu_error_prefix u), message, [newline]]\<rparr>)"

definition pu_output_writer :: "'w prefixed_ui \<Rightarrow> 'w prefixed_writer" where
  "pu_output_writer u =
     prefixed_writer_new (case pu_output_prefix u of Some s \<Rightarrow> s | None \<Rightarrow> []) (pu_out u)"

subsection \<open>Log writers\<close>

datatype ui_error = CannotWriteLogs io_error | CannotReadLogs io_error | OtherUiError string

record ('f, 'w) log_writer =
  lg_log_file :: "'f option"
  lg_writer :: "'w option"

definition log_writer_default :: "('f, 'w) log_writer" where
  "log_writer_default = \<lparr>lg_log_file = None, lg_writer = None\<rparr>"

text \<open>Opening makes the directory of the file and truncates the file; both can fail.\<close>

definition with_log_file ::
  "(io_error, unit) result \<Rightarrow> (io_error, 'f) result \<Rightarrow> ('f, 'w) log_writer \<Rightarrow> (ui_error, ('f, 'w) log_writer) result" where
  "with_log_file ensure_dir created lg =
     (case ensure_dir of
        Inl e \<Rightarrow> Inl (CannotWriteLogs e)
      | Inr _ \<Rightarrow> (case created of Inl e \<Rightarrow> Inl (CannotWriteLogs e) | Inr f \<Rightarrow> Inr (lg\<lparr>lg_log_file := Some f\<rparr>)))"

definition with_writer :: "'w \<Rightarrow> ('f, 'w) log_writer \<Rightarrow> ('f, 'w) log_writer" where
  "with_writer w lg = lg\<lparr>lg_writer := Some w\<rparr>"

definition lg_write :: "'f writer \<Rightarrow> 'w writer \<Rightarrow> ('f, 'w) log_writer writer" where
  "lg_write wrf wr lg buf =
     (case (lg_log_file lg, lg_writer lg) of
        (Some f, Some w) \<Rightarrow>
          (case wr w buf of
             (Inl e, w') \<Rightarrow> (Inl e, lg\<lparr>lg_writer := Some w'\<rparr>)
           | (Inr _, w') \<Rightarrow>
               (case wrf f buf of (r, f') \<Rightarrow> (r, \<lparr>lg_log_file = Some f', lg_writer = Some w'\<rparr>)))
      | (Some f, None) \<Rightarrow> (case wrf f buf of (r, f') \<Rightarrow> (r, lg\<lparr>lg_log_file := Some f'\<rparr>))
      | (None, Some w) \<Rightarrow> (case wr w buf of (r, w') \<Rightarrow> (r, lg\<lparr>lg_writer := Some w'\<rparr>))
      | (None, None) \<Rightarrow> (Inr (length buf), lg))"

definition lg_flush ::
  "('f \<Rightarrow> (io_error, unit) result \<times> 'f) \<Rightarrow> ('w \<Rightarrow> (io_error, unit) result \<times> 'w) \<Rightarrow>
     ('f, 'w) log_writer \<Rightarrow> (io_error, unit) result \<times> ('f, 'w) log_writer" where
  "lg_flush ff fw lg =
     (case (case lg_log_file lg of
              None \<Rightarrow> (Inr (), lg)
            | Some f \<Rightarrow> (case ff f of (r, f') \<Rightarrow> (r, lg\<lparr>lg_log_file := Some f'\<rparr>))) of
        (Inl e, lg') \<Rightarrow> (Inl e, lg')
      | (Inr _, lg') \<Rightarrow>
          (case lg_writer lg' of
             None \<Rightarrow> (Inr (), lg')
           | Some w \<Rightarrow> (case fw w of (r, w') \<Rightarrow> (r, lg'\<lparr>lg_writer := Some w'\<rparr>))))"

text \<open>Replaying the contents of a log file that was opened (or not), line by line.\<close>

fun replay_lines :: "'w sender \<Rightarrow> 'w \<Rightarrow> string list \<Rightarrow> (ui_error, unit) result \<times> 'w" where
  "replay_lines wa w [] = (Inr (), w)"
| "replay_lines wa w (buffer # rest) =
     (case wa w (if ends_with buffer [newline] then buffer else buffer @ [newline]) of
        (Inl e, w') \<Rightarrow> (Inl (CannotReadLogs e), w')
      | (Inr _, w') \<Rightarrow> replay_lines wa w' rest)"

definition replay_logs :: "'w sender \<Rightarrow> (io_error, string) result \<Rightarrow> 'w \<Rightarrow> (ui_error, unit) result \<times> 'w" where
  "replay_logs wa log_file w =
     (case log_file of
        Inl e \<Rightarrow> (Inl (CannotReadLogs e), w)
      | Inr content \<Rightarrow> replay_lines wa w (split_inclusive newline content))"

subsection \<open>Output clients\<close>

datatype behavior = Passthrough | InMemoryBuffer | Grouped

datatype destination = Stdout | Stderr

record sink_bytes =
  sb_buffer :: string
  sb_destination :: destination

record 'w sink_writers =
  sk_out :: 'w
  sk_err :: 'w

text \<open>A header or footer is made from the time it is written at.\<close>

type_synonym 't group_prefix = "'t \<Rightarrow> string"

record 't marginals =
  mg_header :: "'t group_prefix option"
  mg_footer :: "'t group_prefix option"

record 't output_client =
  oc_behavior :: behavior
  oc_buffer :: "sink_bytes list option"
  oc_primary :: "'t marginals"
  oc_error :: "'t marginals"

definition no_marginals :: "'t marginals" where
  "no_marginals = \<lparr>mg_header = None, mg_footer = None\<rparr>"

definition sink_logger :: "behavior \<Rightarrow> 't output_client" where
  "sink_logger b =
     \<lparr>oc_behavior = b,
      oc_buffer = (case b of Passthrough \<Rightarrow> None | InMemoryBuffer \<Rightarrow> Some [] | Grouped \<Rightarrow> Some []),
      oc_primary = no_marginals, oc_error = no_marginals\<rparr>"

definition with_header_footer ::
  "'t group_prefix option \<Rightarrow> 't group_prefix option \<Rightarrow> 't output_client \<Rightarrow> 't output_client" where
  "with_header_footer head_text foot_text c = c\<lparr>oc_primary := \<lparr>mg_header = head_text, mg_footer = foot_text\<rparr>\<rparr>"

definition with_error_header_footer ::
  "'t group_prefix option \<Rightarrow> 't group_prefix option \<Rightarrow> 't output_client \<Rightarrow> 't output_client" where
  "with_error_header_footer head_text foot_text c = c\<lparr>oc_error := \<lparr>mg_header = head_text, mg_footer = foot_text\<rparr>\<rparr>"

definition write_bytes :: "'w sender \<Rightarrow> sink_bytes \<Rightarrow> 'w sink_writers \<Rightarrow> (io_error, unit) result \<times> 'w sink_writers" where
  "write_bytes wa b sk =
     (case sb_destination b of
        Stdout \<Rightarrow> (case wa (sk_out sk) (sb_buffer b) of (r, w) \<Rightarrow> (r, sk\<lparr>sk_out := w\<rparr>))
      | Stderr \<Rightarrow> (case wa (sk_err sk) (sb_buffer b) of (r, w) \<Rightarrow> (r, sk\<lparr>sk_err := w\<rparr>)))"

text \<open>
  A client without a buffer panics when bytes are added to it; \<open>None\<close> is that panic. The clients that a
  sink makes never do, see \<open>handle_bytes_no_panic\<close>.
\<close>

definition add_bytes_to_buffer :: "sink_bytes \<Rightarrow> 't output_client \<Rightarrow> 't output_client option" where
  "add_bytes_to_buffer b c =
     (case oc_buffer c of None \<Rightarrow> None | Some bs \<Rightarrow> Some (c\<lparr>oc_buffer := Some (bs @ [b])\<rparr>))"

definition handle_bytes ::
  "'w sender \<Rightarrow> sink_bytes \<Rightarrow> 'w sink_writers \<Rightarrow> 't output_client \<Rightarrow>
     ((io_error, unit) result \<times> 'w sink_writers \<times> 't output_client) option" where
  "handle_bytes wa b sk c =
     (case (if oc_behavior c \<in> {InMemoryBuffer, Grouped} then add_bytes_to_buffer b c else Some c) of
        None \<Rightarrow> None
      | Some c' \<Rightarrow>
          Some (if oc_behavior c \<in> {Passthrough, InMemoryBuffer}
                then (case write_bytes wa b sk of (r, sk') \<Rightarrow> (r, sk', c'))
                else (Inr (), sk, c')))"

fun write_all_bytes :: "'w sender \<Rightarrow> sink_bytes list \<Rightarrow> 'w sink_writers \<Rightarrow> (io_error, unit) result \<times> 'w sink_writers" where
  "write_all_bytes wa [] sk = (Inr (), sk)"
| "write_all_bytes wa (b # bs) sk =
     (case write_bytes wa b sk of
        (Inl e, sk') \<Rightarrow> (Inl e, sk')
      | (Inr _, sk') \<Rightarrow> write_all_bytes wa bs sk')"

definition write_marginal :: "'w sender \<Rightarrow> string option \<Rightarrow> 'w sink_writers \<Rightarrow> (io_error, unit) result \<times> 'w sink_writers" where
  "write_marginal wa m sk =
     (case m of None \<Rightarrow> (Inr (), sk) | Some t \<Rightarrow> write_bytes wa \<lparr>sb_buffer = t, sb_destination = Stdout\<rparr> sk)"

definition opt_or :: "'a option \<Rightarrow> 'a option \<Rightarrow> 'a option" where
  "opt_or a b = (case a of Some _ \<Rightarrow> a | None \<Rightarrow> b)"

definition client_header :: "bool \<Rightarrow> 't output_client \<Rightarrow> 't group_prefix option" where
  "client_header use_error c =
     opt_or (if use_error then mg_header (oc_error c) else None) (mg_header (oc_primary c))"

definition client_footer :: "bool \<Rightarrow> 't output_client \<Rightarrow> 't group_prefix option" where
  "client_footer use_error c =
     opt_or (if use_error then mg_footer (oc_error c) else None) (mg_footer (oc_primary c))"

text \<open>\<open>None\<close> is the panic of a grouped client without a buffer; the times are those of the clock.\<close>

definition client_finish ::
  "'w sender \<Rightarrow> 't \<Rightarrow> 't \<Rightarrow> bool \<Rightarrow> 't output_client \<Rightarrow> 'w sink_writers \<Rightarrow>
     ((io_error, string option) result \<times> 'w sink_writers) option" where
  "client_finish wa start_time end_time use_error c sk =
     (let logs = map_option (\<lambda>bs. concat (map sb_buffer bs)) (oc_buffer c)
      in if oc_behavior c = Grouped then
           (case oc_buffer c of
              None \<Rightarrow> None
            | Some buffers \<Rightarrow> Some (
                io_bind (write_marginal wa (map_option (\<lambda>f. f start_time) (client_header use_error c))) (\<lambda>_.
                io_bind (write_all_bytes wa buffers) (\<lambda>_.
                io_bind (write_marginal wa (map_option (\<lambda>f. f end_time) (client_footer use_error c))) (\<lambda>_.
                io_lift (Inr logs)))) sk))
         else Some (Inr logs, sk))"

text \<open>A writer of a client keeps the line that is not finished; the client and the sink are shared.\<close>

record ('w, 't) output_writer =
  ow_sink :: "'w sink_writers"
  ow_client :: "'t output_client"
  ow_destination :: destination
  ow_buffer :: string

definition ow_handle :: "'w sender \<Rightarrow> ('w, 't) output_writer \<Rightarrow> ((io_error, unit) result \<times> ('w, 't) output_writer) option" where
  "ow_handle wa o' =
     (case handle_bytes wa \<lparr>sb_buffer = ow_buffer o', sb_destination = ow_destination o'\<rparr> (ow_sink o') (ow_client o') of
        None \<Rightarrow> None
      | Some (Inl e, sk, c) \<Rightarrow> Some (Inl e, o'\<lparr>ow_sink := sk, ow_client := c\<rparr>)
      | Some (Inr _, sk, c) \<Rightarrow> Some (Inr (), o'\<lparr>ow_sink := sk, ow_client := c, ow_buffer := []\<rparr>))"

fun ow_write_lines ::
  "'w sender \<Rightarrow> ('w, 't) output_writer \<Rightarrow> string list \<Rightarrow> ((io_error, unit) result \<times> ('w, 't) output_writer) option" where
  "ow_write_lines wa o' [] = Some (Inr (), o')"
| "ow_write_lines wa o' (line # lines) =
     (let o1 = o'\<lparr>ow_buffer := ow_buffer o' @ line\<rparr>
      in if ends_with line [newline] then
           (case ow_handle wa o1 of
              Some (Inr _, o2) \<Rightarrow> ow_write_lines wa o2 lines
            | stopped \<Rightarrow> stopped)
         else ow_write_lines wa o1 lines)"

definition ow_write :: "'w sender \<Rightarrow> ('w, 't) output_writer \<Rightarrow> string \<Rightarrow> ((io_error, nat) result \<times> ('w, 't) output_writer) option" where
  "ow_write wa o' buf =
     (case ow_write_lines wa o' (split_inclusive newline buf) of
        None \<Rightarrow> None
      | Some (Inl e, o1) \<Rightarrow> Some (Inl e, o1)
      | Some (Inr _, o1) \<Rightarrow> Some (Inr (length buf), o1))"

definition ow_flush :: "'w sender \<Rightarrow> ('w, 't) output_writer \<Rightarrow> ((io_error, unit) result \<times> ('w, 't) output_writer) option" where
  "ow_flush wa o' = ow_handle wa o'"

subsection \<open>Complete lines\<close>

text \<open>The complete lines of some bytes, and what is left of the last one.\<close>

fun cut_lines :: "string \<Rightarrow> string list \<times> string" where
  "cut_lines [] = ([], [])"
| "cut_lines (c # s) =
     (case cut_lines s of
        (ls, r) \<Rightarrow>
          if c = newline then ([c] # ls, r)
          else case ls of [] \<Rightarrow> ([], c # r) | l # ls' \<Rightarrow> ((c # l) # ls', r))"

lemma cut_lines_rest: "newline \<notin> set s \<Longrightarrow> cut_lines s = ([], s)"
  by (induction s) auto

lemma cut_lines_line:
  "newline \<notin> set a \<Longrightarrow> cut_lines (a @ newline # b) = ((a @ [newline]) # fst (cut_lines b), snd (cut_lines b))"
  by (induction a) (auto split: prod.split)

lemma cut_lines_rest_no_newline: "newline \<notin> set (snd (cut_lines s))"
  by (induction s) (auto split: prod.splits list.splits)

lemma newline_cases:
  obtains (rest) "newline \<notin> set s" | (line) a b where "s = a @ newline # b" "newline \<notin> set a"
  by (metis split_list_first)

lemma line_induct [case_names rest line]:
  assumes "\<And>s. newline \<notin> set s \<Longrightarrow> P s"
    and "\<And>a b. newline \<notin> set a \<Longrightarrow> P b \<Longrightarrow> P (a @ newline # b)"
  shows "P s"
proof (induction s rule: length_induct)
  case (1 s)
  show ?case
  proof (cases s rule: newline_cases)
    case (line a b)
    then show ?thesis
      using 1 assms(2) by simp
  qed (use assms(1) in auto)
qed

lemma cut_lines_concat: "concat (fst (cut_lines s)) @ snd (cut_lines s) = s"
  by (induction s rule: line_induct) (simp_all add: cut_lines_rest cut_lines_line)

lemma cut_lines_append:
  "cut_lines (s @ t) =
     (fst (cut_lines s) @ fst (cut_lines (snd (cut_lines s) @ t)), snd (cut_lines (snd (cut_lines s) @ t)))"
  by (induction s rule: line_induct) (simp_all add: cut_lines_rest cut_lines_line)

lemma split_inclusive_cut:
  "split_inclusive newline s = fst (cut_lines s) @ (if snd (cut_lines s) = [] then [] else [snd (cut_lines s)])"
proof (induction s rule: line_induct)
  case (rest s)
  then show ?case by (cases "s = []") (simp_all add: cut_lines_rest split_inclusive_absent)
qed (simp add: cut_lines_line split_inclusive_line)

lemma cut_lines_ends: "l \<in> set (fst (cut_lines s)) \<Longrightarrow> \<exists>a. l = a @ [newline] \<and> newline \<notin> set a"
  by (induction s rule: line_induct) (auto simp: cut_lines_rest cut_lines_line)

lemma ends_with_newline [simp]: "ends_with (a @ [newline]) [newline]"
  by (simp add: suffix_def)

lemma not_ends_with_newline: "newline \<notin> set a \<Longrightarrow> \<not> ends_with a [newline]"
  by (auto simp: suffix_def)

subsection \<open>Writers that do not fail\<close>

text \<open>The writers a sequence of pieces leads to when no write fails.\<close>

definition puts :: "'w sender \<Rightarrow> 'w \<Rightarrow> string list \<Rightarrow> 'w" where
  "puts send w bs = foldl (\<lambda>w b. snd (send w b)) w bs"

lemma puts_simps [simp]:
  "puts send w [] = w"
  "puts send w (b # bs) = puts send (snd (send w b)) bs"
  "puts send w (bs @ cs) = puts send (puts send w bs) cs"
  by (simp_all add: puts_def)

text \<open>
  The interface between the writers: as long as the writer is in order, it takes everything it is given
  and stays in order.
\<close>

locale reliable_writer =
  fixes send :: "'w sender"
    and ok :: "'w \<Rightarrow> bool"
  assumes send_ok: "ok w \<Longrightarrow> fst (send w b) = Inr ()"
    and send_inv: "ok w \<Longrightarrow> ok (snd (send w b))"
begin

lemma send_eq: "ok w \<Longrightarrow> send w b = (Inr (), snd (send w b))"
  using send_ok by (metis prod.collapse)

lemma send_cases: "ok w \<Longrightarrow> (case send w b of (Inl e, w') \<Rightarrow> F e w' | (Inr u, w') \<Rightarrow> G w') = G (snd (send w b))"
  by (subst send_eq) simp_all

lemma puts_inv: "ok w \<Longrightarrow> ok (puts send w bs)"
  by (induction bs arbitrary: w) (simp_all add: send_inv)

lemma lw_write_lines_eq:
  assumes "ok (lw_writer lw)" and "newline \<notin> set (lw_buffer lw)"
  shows "lw_write_lines send lw (split_inclusive newline buf) =
    (Inr (), \<lparr>lw_writer = puts send (lw_writer lw) (fst (cut_lines (lw_buffer lw @ buf))),
              lw_buffer = snd (cut_lines (lw_buffer lw @ buf))\<rparr>)"
  using assms
proof (induction buf arbitrary: lw rule: line_induct)
  case (rest s)
  then show ?case
    by (cases "s = []") (simp_all add: split_inclusive_absent not_ends_with_newline cut_lines_rest)
next
  case (line a b)
  obtain w r where lw: "lw = \<lparr>lw_writer = w, lw_buffer = r\<rparr>"
    by (cases lw)
  have lines: "cut_lines (r @ a @ newline # b) = ((r @ a @ [newline]) # fst (cut_lines b), snd (cut_lines b))"
    using cut_lines_line [of "r @ a" b] line by (simp add: lw)
  show ?case
    using line.IH [of "\<lparr>lw_writer = snd (send w (r @ a @ [newline])), lw_buffer = []\<rparr>"] line lines
    by (cases "r = []") (simp_all add: lw split_inclusive_line send_inv send_cases Let_def)
qed

lemma lw_write_eq:
  assumes "ok (lw_writer lw)" and "newline \<notin> set (lw_buffer lw)"
  shows "lw_write send lw buf =
    (Inr (length buf), \<lparr>lw_writer = puts send (lw_writer lw) (fst (cut_lines (lw_buffer lw @ buf))),
                        lw_buffer = snd (cut_lines (lw_buffer lw @ buf))\<rparr>)"
  by (simp add: lw_write_def lw_write_lines_eq [OF assms])

lemma lw_write_all_eq:
  assumes "ok (lw_writer lw)" and "newline \<notin> set (lw_buffer lw)"
  shows "write_all (lw_write send) lw buf =
    (Inr (), \<lparr>lw_writer = puts send (lw_writer lw) (fst (cut_lines (lw_buffer lw @ buf))),
              lw_buffer = snd (cut_lines (lw_buffer lw @ buf))\<rparr>)"
  using write_all_whole [of "lw_write send" lw buf, OF lw_write_eq [OF assms]] assms(2)
  by (cases lw) (auto simp: cut_lines_rest)

text \<open>However the bytes are cut into writes, the writer below is sent the same lines.\<close>

lemma lw_puts_eq:
  assumes "ok (lw_writer lw)" and "newline \<notin> set (lw_buffer lw)"
  shows "puts (write_all (lw_write send)) lw bufs =
    \<lparr>lw_writer = puts send (lw_writer lw) (fst (cut_lines (lw_buffer lw @ concat bufs))),
     lw_buffer = snd (cut_lines (lw_buffer lw @ concat bufs))\<rparr>"
  using assms
proof (induction bufs arbitrary: lw)
  case Nil
  then show ?case
    by (cases lw) (simp add: cut_lines_rest)
next
  case (Cons buf bufs)
  let ?t = "lw_buffer lw @ buf"
  have "cut_lines (?t @ concat bufs) =
      (fst (cut_lines ?t) @ fst (cut_lines (snd (cut_lines ?t) @ concat bufs)),
       snd (cut_lines (snd (cut_lines ?t) @ concat bufs)))"
    by (rule cut_lines_append)
  with Cons show ?case
    by (simp add: lw_write_all_eq puts_inv cut_lines_rest_no_newline)
qed

end

text \<open>What a line writer and a prefixed writer above a writer in order satisfy.\<close>

definition line_writer_ok :: "('w \<Rightarrow> bool) \<Rightarrow> 'w line_writer \<Rightarrow> bool" where
  "line_writer_ok ok lw \<longleftrightarrow> ok (lw_writer lw) \<and> newline \<notin> set (lw_buffer lw)"

text \<open>The prefix goes before a line, and again after every carriage return that does not end it.\<close>

fun prefixed_pieces :: "string \<Rightarrow> bool \<Rightarrow> string list \<Rightarrow> string list" where
  "prefixed_pieces p is_first [] = []"
| "prefixed_pieces p is_first (chunk # chunks) =
     (if is_first \<or> chunk \<noteq> [newline] then [p, chunk] else [chunk]) @ prefixed_pieces p False chunks"

definition prefixed_line :: "string \<Rightarrow> string \<Rightarrow> string list" where
  "prefixed_line p line = prefixed_pieces p True (split_inclusive carriage_return line)"

context reliable_writer
begin

lemma pi_write_chunks_eq:
  "ok (pi_writer p) \<Longrightarrow>
   pi_write_chunks send is_first p chunks =
     (Inr (), p\<lparr>pi_writer := puts send (pi_writer p) (prefixed_pieces (pi_prefix p) is_first chunks)\<rparr>)"
proof (induction chunks arbitrary: is_first p)
  case (Cons chunk chunks)
  then show ?case
    by (cases p) (simp add: send_cases send_inv split: if_split)
qed simp

lemma pi_write_eq:
  "ok (pi_writer p) \<Longrightarrow>
   pi_write send p line = (Inr (length line), p\<lparr>pi_writer := puts send (pi_writer p) (prefixed_line (pi_prefix p) line)\<rparr>)"
  by (simp add: pi_write_def pi_write_chunks_eq prefixed_line_def)

lemma pi_write_all_eq:
  assumes "ok (pi_writer p)"
  shows "write_all (pi_write send) p line =
    (Inr (), p\<lparr>pi_writer := puts send (pi_writer p) (prefixed_line (pi_prefix p) line)\<rparr>)"
  using write_all_whole [of "pi_write send" p line, OF pi_write_eq [OF assms]]
  by (cases p) (auto simp: prefixed_line_def)

text \<open>Writers that are put above a reliable writer are reliable.\<close>

lemma reliable_inner: "reliable_writer (write_all (pi_write send)) (\<lambda>p. ok (pi_writer p))"
  by unfold_locales (simp_all add: pi_write_all_eq puts_inv)

lemma reliable_lines: "reliable_writer (write_all (lw_write send)) (line_writer_ok ok)"
  by unfold_locales (auto simp: line_writer_ok_def lw_write_all_eq puts_inv cut_lines_rest_no_newline)

lemma pi_puts_eq:
  "ok (pi_writer p) \<Longrightarrow>
   puts (write_all (pi_write send)) p lines =
     p\<lparr>pi_writer := puts send (pi_writer p) (concat (map (prefixed_line (pi_prefix p)) lines))\<rparr>"
  by (induction lines arbitrary: p) (simp_all add: pi_write_all_eq puts_inv)

text \<open>
  A prefixed writer that was sent some bytes, in whatever pieces, has sent the complete lines with
  their prefixes and keeps the rest.
\<close>

lemma pw_puts_eq:
  assumes "ok (pi_writer (lw_writer pw))" and "newline \<notin> set (lw_buffer pw)"
  shows "puts (write_all (pw_write send)) pw bufs =
    \<lparr>lw_writer = (lw_writer pw)\<lparr>pi_writer := puts send (pi_writer (lw_writer pw))
         (concat (map (prefixed_line (pi_prefix (lw_writer pw))) (fst (cut_lines (lw_buffer pw @ concat bufs)))))\<rparr>,
     lw_buffer = snd (cut_lines (lw_buffer pw @ concat bufs))\<rparr>"
  using assms by (simp add: pw_write_def reliable_writer.lw_puts_eq [OF reliable_inner] pi_puts_eq)

lemma pw_write_all_eq:
  assumes "ok (pi_writer (lw_writer pw))" and "newline \<notin> set (lw_buffer pw)"
  shows "write_all (pw_write send) pw buf = (Inr (), puts (write_all (pw_write send)) pw [buf])"
  using reliable_writer.send_eq [OF reliable_writer.reliable_lines [OF reliable_inner], of pw] assms
  by (simp add: pw_write_def line_writer_ok_def)

lemma pw_write_eq:
  assumes "ok (pi_writer (lw_writer pw))" and "newline \<notin> set (lw_buffer pw)"
  shows "pw_write send pw buf = (Inr (length buf), puts (write_all (pw_write send)) pw [buf])"
  using assms
  by (simp add: pw_write_def reliable_writer.lw_write_eq [OF reliable_inner]
      reliable_writer.lw_write_all_eq [OF reliable_inner])

lemma replay_lines_eq:
  assumes "ok w"
  shows "replay_lines send w ls =
    (Inr (), puts send w (map (\<lambda>l. if ends_with l [newline] then l else l @ [newline]) ls))"
  using assms by (induction ls arbitrary: w) (simp_all add: send_cases send_inv)

end

subsection \<open>Live output and replay\<close>

text \<open>A last line without a newline gets one when it is replayed.\<close>

definition terminated_lines :: "string \<Rightarrow> string list" where
  "terminated_lines content = fst (cut_lines content) @ (if snd (cut_lines content) = [] then [] else [snd (cut_lines content) @ [newline]])"

lemma cut_terminated_lines: "cut_lines (concat (terminated_lines content)) = (terminated_lines content, [])"
proof -
  let ?ls = "fst (cut_lines content)" and ?r = "snd (cut_lines content)"
  have "cut_lines (concat ls @ t) = (ls @ fst (cut_lines t), snd (cut_lines t))" if "\<forall>l \<in> set ls. \<exists>a. l = a @ [newline] \<and> newline \<notin> set a" for ls t
    using that by (induction ls) (auto simp: cut_lines_line)
  from this [of ?ls "if ?r = [] then [] else ?r @ [newline]"] show ?thesis
    using cut_lines_ends [of _ content] cut_lines_line [OF cut_lines_rest_no_newline [of content], of "[]"]
    by (auto simp: terminated_lines_def)
qed

text \<open>
  A log file that takes every write whole: its contents grow by the bytes written. The buffered writer
  of a file does as long as the file itself takes what it is given.
\<close>

definition whole_writes :: "'f writer \<Rightarrow> ('f \<Rightarrow> string) \<Rightarrow> bool" where
  "whole_writes wrf content \<longleftrightarrow> (\<forall>f buf. \<exists>f'. wrf f buf = (Inr (length buf), f') \<and> content f' = content f @ buf)"

text \<open>The simplest one is its contents.\<close>

definition file_write :: "string writer" where
  "file_write f buf = (Inr (length buf), f @ buf)"

lemma write_all_file [simp]: "write_all file_write f buf = (Inr (), f @ buf)"
  using write_all_whole [of file_write f buf] by (simp add: file_write_def)

interpretation log_file: reliable_writer "write_all file_write" "\<lambda>_. True"
  by unfold_locales simp_all

lemma puts_file [simp]: "puts (write_all file_write) f bufs = f @ concat bufs"
  by (induction bufs arbitrary: f) simp_all

context reliable_writer
begin

text \<open>The log file gets the bytes as they are, the other writer what it makes of them.\<close>

lemma lg_puts_eq:
  assumes "whole_writes wrf content" and "ok (pi_writer (lw_writer pw))" and "newline \<notin> set (lw_buffer pw)"
  shows "\<exists>f'. puts (write_all (lg_write wrf (pw_write send))) \<lparr>lg_log_file = Some f, lg_writer = Some pw\<rparr> bufs =
      \<lparr>lg_log_file = Some f', lg_writer = Some (puts (write_all (pw_write send)) pw bufs)\<rparr> \<and>
    content f' = content f @ concat bufs"
  using assms(2,3)
proof (induction bufs arbitrary: f pw)
  case (Cons buf bufs)
  let ?pw = "puts (write_all (pw_write send)) pw [buf]"
  obtain f1 where f1: "wrf f buf = (Inr (length buf), f1)" "content f1 = content f @ buf"
    using assms(1) unfolding whole_writes_def by blast
  define f2 where "f2 = (if buf = [] then f else f1)"
  have "lg_write wrf (pw_write send) \<lparr>lg_log_file = Some f, lg_writer = Some pw\<rparr> buf =
      (Inr (length buf), \<lparr>lg_log_file = Some f1, lg_writer = Some ?pw\<rparr>)"
    using Cons.prems f1 by (simp add: lg_write_def pw_write_eq)
  from write_all_whole [of "lg_write wrf (pw_write send)", OF this]
  have "write_all (lg_write wrf (pw_write send)) \<lparr>lg_log_file = Some f, lg_writer = Some pw\<rparr> buf =
      (Inr (), \<lparr>lg_log_file = Some f2, lg_writer = Some ?pw\<rparr>)"
    by (cases "buf = []") (simp_all add: f2_def)
  moreover have "ok (pi_writer (lw_writer ?pw))" "newline \<notin> set (lw_buffer ?pw)"
    using Cons.prems by (simp_all add: pw_puts_eq puts_inv cut_lines_rest_no_newline del: puts_simps)
  ultimately show ?case
    using Cons.IH [of ?pw f2] f1(2) by (auto simp: f2_def)
qed simp

lemma reliable_prefixed: "reliable_writer (write_all (pw_write send)) (line_writer_ok (\<lambda>p. ok (pi_writer p)))"
  unfolding pw_write_def by (rule reliable_writer.reliable_lines [OF reliable_inner])

lemma replay_logs_eq:
  assumes "ok (pi_writer (lw_writer pw))" and "newline \<notin> set (lw_buffer pw)"
  shows "replay_logs (write_all (pw_write send)) (Inr content) pw =
    (Inr (), puts (write_all (pw_write send)) pw (terminated_lines content))"
proof -
  have ends: "map (\<lambda>l. if ends_with l [newline] then l else l @ [newline]) (fst (cut_lines content)) = fst (cut_lines content)"
    using cut_lines_ends by (fastforce intro!: map_idI)
  have "map (\<lambda>l. if ends_with l [newline] then l else l @ [newline]) (split_inclusive newline content) = terminated_lines content"
    using ends not_ends_with_newline [OF cut_lines_rest_no_newline [of content]]
    by (simp add: split_inclusive_cut terminated_lines_def)
  then show ?thesis
    using assms reliable_writer.replay_lines_eq [OF reliable_prefixed, of pw]
    by (simp add: replay_logs_def line_writer_ok_def)
qed

end

subsection \<open>Clients that share a sink\<close>

text \<open>The clients that a sink makes have a buffer unless they pass everything through.\<close>

definition client_ok :: "'t output_client \<Rightarrow> bool" where
  "client_ok c \<longleftrightarrow> (oc_buffer c = None \<longleftrightarrow> oc_behavior c = Passthrough)"

lemma sink_logger_ok [simp]:
  "client_ok (sink_logger b)"
  "client_ok (with_header_footer h f c) \<longleftrightarrow> client_ok c"
  "client_ok (with_error_header_footer h f c) \<longleftrightarrow> client_ok c"
  by (auto simp: client_ok_def sink_logger_def with_header_footer_def with_error_header_footer_def split: behavior.split)

lemma handle_bytes_no_panic: "client_ok c \<Longrightarrow> handle_bytes wa b sk c \<noteq> None"
  by (auto simp: client_ok_def handle_bytes_def add_bytes_to_buffer_def split: option.splits prod.split)

lemma client_finish_no_panic: "client_ok c \<Longrightarrow> client_finish wa t t' e c sk \<noteq> None"
  by (auto simp: client_ok_def client_finish_def Let_def split: option.splits)

text \<open>The logs that \<open>finish\<close> returns are there for every client that does not pass everything through.\<close>

lemma client_finish_logs:
  assumes "client_ok c" and "client_finish wa t t' e c sk = Some (Inr logs, sk')"
  shows "logs = map_option (\<lambda>bs. concat (map sb_buffer bs)) (oc_buffer c)"
    and "logs = None \<longleftrightarrow> oc_behavior c = Passthrough"
  using assms
  by (auto simp: client_ok_def client_finish_def Let_def io_bind_def split: if_splits option.splits prod.splits sum.splits)

definition client_keep :: "sink_bytes list \<Rightarrow> 't output_client \<Rightarrow> 't output_client" where
  "client_keep bs c = c\<lparr>oc_buffer := map_option (\<lambda>old. old @ bs) (oc_buffer c)\<rparr>"

lemma client_keep_simps [simp]:
  "oc_behavior (client_keep bs c) = oc_behavior c"
  "oc_buffer (client_keep bs c) = map_option (\<lambda>old. old @ bs) (oc_buffer c)"
  "oc_primary (client_keep bs c) = oc_primary c"
  "oc_error (client_keep bs c) = oc_error c"
  "client_ok (client_keep bs c) \<longleftrightarrow> client_ok c"
  "client_keep [] c = c"
  "client_keep cs (client_keep bs c) = client_keep (bs @ cs) c"
  by (auto simp: client_keep_def client_ok_def option.map_comp comp_def option.map_ident)

lemma handle_bytes_grouped:
  "client_ok c \<Longrightarrow> oc_behavior c = Grouped \<Longrightarrow> handle_bytes wa b sk c = Some (Inr (), sk, client_keep [b] c)"
  by (auto simp: client_ok_def handle_bytes_def add_bytes_to_buffer_def client_keep_def split: option.splits)

definition lines_to :: "destination \<Rightarrow> string list \<Rightarrow> sink_bytes list" where
  "lines_to d ls = map (\<lambda>l. \<lparr>sb_buffer = l, sb_destination = d\<rparr>) ls"

lemma lines_to_simps [simp]:
  "lines_to d [] = []"
  "lines_to d (l # ls) = \<lparr>sb_buffer = l, sb_destination = d\<rparr> # lines_to d ls"
  by (simp_all add: lines_to_def)

lemma ow_write_lines_grouped:
  assumes "client_ok (ow_client w)" and "oc_behavior (ow_client w) = Grouped" and "newline \<notin> set (ow_buffer w)"
  shows "ow_write_lines wa w (split_inclusive newline buf) =
    Some (Inr (), w\<lparr>ow_client := client_keep (lines_to (ow_destination w) (fst (cut_lines (ow_buffer w @ buf)))) (ow_client w),
                    ow_buffer := snd (cut_lines (ow_buffer w @ buf))\<rparr>)"
  using assms
proof (induction buf arbitrary: w rule: line_induct)
  case (rest s)
  then show ?case
    by (cases "s = []") (simp_all add: split_inclusive_absent not_ends_with_newline cut_lines_rest)
next
  case (line a b)
  let ?b = "\<lparr>sb_buffer = ow_buffer w @ a @ [newline], sb_destination = ow_destination w\<rparr>"
  have lines: "cut_lines (ow_buffer w @ a @ newline # b) =
      ((ow_buffer w @ a @ [newline]) # fst (cut_lines b), snd (cut_lines b))"
    using cut_lines_line [of "ow_buffer w @ a" b] line by simp
  show ?case
    using line.IH [of "w\<lparr>ow_client := client_keep [?b] (ow_client w), ow_buffer := []\<rparr>"] line.prems line.hyps lines
    by (cases w) (simp add: split_inclusive_line ow_handle_def handle_bytes_grouped Let_def)
qed

definition ow_writer :: "'w sender \<Rightarrow> ('w, 't) output_writer writer" where
  "ow_writer wa o' buf =
     (case ow_write wa o' buf of Some r \<Rightarrow> r | None \<Rightarrow> (Inl (OtherIo ''panic''), o'))"

definition grouped_ok :: "('w, 't) output_writer \<Rightarrow> bool" where
  "grouped_ok w \<longleftrightarrow>
     client_ok (ow_client w) \<and> oc_behavior (ow_client w) = Grouped \<and> newline \<notin> set (ow_buffer w)"

lemma ow_writer_grouped:
  assumes "grouped_ok w"
  shows "ow_writer wa w buf =
    (Inr (length buf), w\<lparr>ow_client := client_keep (lines_to (ow_destination w) (fst (cut_lines (ow_buffer w @ buf)))) (ow_client w),
                         ow_buffer := snd (cut_lines (ow_buffer w @ buf))\<rparr>)"
  using assms by (simp add: ow_writer_def ow_write_def ow_write_lines_grouped grouped_ok_def)

text \<open>A client that groups its output takes every write, also when the sink would fail.\<close>

interpretation grouped: reliable_writer "write_all (ow_writer wa)" grouped_ok for wa
proof unfold_locales
  fix w :: "('a, 'b) output_writer" and b
  assume ok: "grouped_ok w"
  note eq = write_all_whole [of "ow_writer wa" w b, OF ow_writer_grouped [OF ok]]
  show "fst (write_all (ow_writer wa) w b) = Inr ()" "grouped_ok (snd (write_all (ow_writer wa) w b))"
    using ok cut_lines_rest_no_newline [of "ow_buffer w @ b"] by (auto simp: eq grouped_ok_def)
qed

text \<open>
  Several clients over one sink. A client has a writer for each destination, whose unfinished line is
  kept here. An operation is one critical section: a write that has several lines is as many
  operations, and \<open>finish\<close> holds the lock until the whole group is written. \<open>None\<close> is a panic.
\<close>

record 't client_state =
  cs_client :: "'t output_client"
  cs_pending :: "destination \<Rightarrow> string"

datatype 't client_op =
    WriteTo destination string
  | FlushTo destination
  | Finish bool 't 't

record ('k, 'w, 't) sink_world =
  sw_sink :: "'w sink_writers"
  sw_clients :: "'k \<Rightarrow> 't client_state option"

definition client_writer :: "'w sink_writers \<Rightarrow> 't client_state \<Rightarrow> destination \<Rightarrow> ('w, 't) output_writer" where
  "client_writer sk cs d = \<lparr>ow_sink = sk, ow_client = cs_client cs, ow_destination = d, ow_buffer = cs_pending cs d\<rparr>"

definition put_back :: "'k \<Rightarrow> 't client_state \<Rightarrow> ('w, 't) output_writer \<Rightarrow> ('k, 'w, 't) sink_world \<Rightarrow> ('k, 'w, 't) sink_world" where
  "put_back k cs w world =
     world\<lparr>sw_sink := ow_sink w,
           sw_clients := (sw_clients world)(k \<mapsto>
             \<lparr>cs_client = ow_client w, cs_pending = (cs_pending cs)(ow_destination w := ow_buffer w)\<rparr>)\<rparr>"

definition sink_step :: "'w sender \<Rightarrow> 'k \<times> 't client_op \<Rightarrow> ('k, 'w, 't) sink_world \<Rightarrow> ('k, 'w, 't) sink_world option" where
  "sink_step wa step world =
     (case step of (k, op) \<Rightarrow>
        case sw_clients world k of
          None \<Rightarrow> Some world
        | Some cs \<Rightarrow>
            (case op of
               WriteTo d s \<Rightarrow> map_option (\<lambda>(_, w). put_back k cs w world) (ow_write wa (client_writer (sw_sink world) cs d) s)
             | FlushTo d \<Rightarrow> map_option (\<lambda>(_, w). put_back k cs w world) (ow_flush wa (client_writer (sw_sink world) cs d))
             | Finish use_error t t' \<Rightarrow>
                 map_option (\<lambda>(_, sk). world\<lparr>sw_sink := sk, sw_clients := (sw_clients world)(k := None)\<rparr>)
                   (client_finish wa t t' use_error (cs_client cs) (sw_sink world))))"

fun sink_run :: "'w sender \<Rightarrow> ('k \<times> 't client_op) list \<Rightarrow> ('k, 'w, 't) sink_world \<Rightarrow> ('k, 'w, 't) sink_world option" where
  "sink_run wa [] world = Some world"
| "sink_run wa (step # steps) world = Option.bind (sink_step wa step world) (sink_run wa steps)"

text \<open>What a client that groups its output has kept of its own operations: the bytes for a destination, and its unfinished line.\<close>

definition kept_step :: "destination \<Rightarrow> string \<times> string \<Rightarrow> 't client_op \<Rightarrow> string \<times> string" where
  "kept_step d state op =
     (case (state, op) of
        ((kept, rest), WriteTo d' s) \<Rightarrow>
          if d' = d then (kept @ concat (fst (cut_lines (rest @ s))), snd (cut_lines (rest @ s))) else (kept, rest)
      | ((kept, rest), FlushTo d') \<Rightarrow> if d' = d then (kept @ rest, []) else (kept, rest)
      | (_, Finish _ _ _) \<Rightarrow> state)"

definition kept_text :: "destination \<Rightarrow> 't client_op list \<Rightarrow> string \<times> string" where
  "kept_text d ops = foldl (kept_step d) ([], []) ops"

lemma kept_text_snoc: "kept_text d (ops @ [op]) = kept_step d (kept_text d ops) op"
  by (simp add: kept_text_def)

lemma kept_text_rest: "newline \<notin> set (snd (kept_text d ops))"
proof (induction ops rule: rev_induct)
  case (snoc op ops)
  then show ?case
    by (auto simp: kept_text_snoc kept_step_def cut_lines_rest_no_newline split: prod.splits client_op.splits)
qed (simp add: kept_text_def)

definition own_ops :: "'k \<Rightarrow> ('k \<times> 't client_op) list \<Rightarrow> 't client_op list" where
  "own_ops k steps = map snd (filter (\<lambda>(k', _). k' = k) steps)"

lemma own_ops_snoc [simp]: "own_ops k (steps @ [(k', op)]) = own_ops k steps @ (if k' = k then [op] else [])"
  by (simp add: own_ops_def)

text \<open>The groups that are written: for each client that finishes, made from its own operations.\<close>

fun groups ::
  "destination \<Rightarrow> ('k \<Rightarrow> 't output_client option) \<Rightarrow> ('k \<times> 't client_op) list \<Rightarrow> ('k \<times> 't client_op) list \<Rightarrow> string list" where
  "groups d clients before [] = []"
| "groups d clients before ((k, op) # steps) =
     (case (clients k, op) of
        (Some c, Finish use_error t t') \<Rightarrow>
          (let margin = (\<lambda>m time. case m of Some f \<Rightarrow> if d = Stdout then f time else [] | None \<Rightarrow> [])
           in margin (client_header use_error c) t @ fst (kept_text d (own_ops k before)) @
              margin (client_footer use_error c) t') # groups d (clients(k := None)) before steps
      | _ \<Rightarrow> groups d clients (before @ [(k, op)]) steps)"

definition sink_at :: "destination \<Rightarrow> 'w sink_writers \<Rightarrow> 'w" where
  "sink_at d sk = (case d of Stdout \<Rightarrow> sk_out sk | Stderr \<Rightarrow> sk_err sk)"

definition bytes_to :: "destination \<Rightarrow> sink_bytes list \<Rightarrow> string" where
  "bytes_to d bs = concat (map sb_buffer (filter (\<lambda>b. sb_destination b = d) bs))"

lemma bytes_to_simps [simp]:
  "bytes_to d [] = []"
  "bytes_to d (b # bs) = (if sb_destination b = d then sb_buffer b else []) @ bytes_to d bs"
  "bytes_to d (bs @ cs) = bytes_to d bs @ bytes_to d cs"
  "bytes_to d (lines_to d' ls) = (if d' = d then concat ls else [])"
  by (induction ls) (auto simp: bytes_to_def)

definition margin_bytes :: "string option \<Rightarrow> sink_bytes list" where
  "margin_bytes m = (case m of None \<Rightarrow> [] | Some t \<Rightarrow> [\<lparr>sb_buffer = t, sb_destination = Stdout\<rparr>])"

text \<open>A sink whose writers append what they are sent.\<close>

locale text_writer = reliable_writer +
  fixes shown :: "'w \<Rightarrow> string"
  assumes shown_send: "ok w \<Longrightarrow> shown (snd (send w b)) = shown w @ b"
begin

lemma write_bytes_text:
  assumes "\<forall>d. ok (sink_at d sk)"
  shows "\<exists>sk'. write_bytes send b sk = (Inr (), sk') \<and> (\<forall>d. ok (sink_at d sk')) \<and>
    (\<forall>d. shown (sink_at d sk') = shown (sink_at d sk) @ bytes_to d [b])"
proof -
  have ok: "ok (sk_out sk)" "ok (sk_err sk)"
    using assms [rule_format, of Stdout] assms [rule_format, of Stderr] by (simp_all add: sink_at_def)
  have sent: "\<exists>w'. send w s = (Inr (), w') \<and> ok w' \<and> shown w' = shown w @ s" if "ok w" for w s
    using send_eq [OF that] send_inv [OF that] shown_send [OF that] by metis
  show ?thesis
    using ok sent [OF ok(1), of "sb_buffer b"] sent [OF ok(2), of "sb_buffer b"]
    by (cases "sb_destination b") (auto simp: write_bytes_def sink_at_def split: destination.splits)
qed

lemma write_all_bytes_text:
  assumes "\<forall>d. ok (sink_at d sk)"
  shows "\<exists>sk'. write_all_bytes send bs sk = (Inr (), sk') \<and> (\<forall>d. ok (sink_at d sk')) \<and>
    (\<forall>d. shown (sink_at d sk') = shown (sink_at d sk) @ bytes_to d bs)"
  using assms
proof (induction bs arbitrary: sk)
  case (Cons b bs)
  then obtain sk1 where "write_bytes send b sk = (Inr (), sk1)" "\<forall>d. ok (sink_at d sk1)"
    "\<forall>d. shown (sink_at d sk1) = shown (sink_at d sk) @ bytes_to d [b]"
    using write_bytes_text by blast
  with Cons.IH [of sk1] show ?case
    by auto
qed simp

lemma write_marginal_text:
  assumes "\<forall>d. ok (sink_at d sk)"
  shows "\<exists>sk'. write_marginal send m sk = (Inr (), sk') \<and> (\<forall>d. ok (sink_at d sk')) \<and>
    (\<forall>d. shown (sink_at d sk') = shown (sink_at d sk) @ bytes_to d (margin_bytes m))"
  using assms write_bytes_text [OF assms]
  by (cases m) (simp_all add: write_marginal_def margin_bytes_def del: bytes_to_simps(2))

lemma client_finish_text:
  assumes "\<forall>d. ok (sink_at d sk)" and "oc_behavior c = Grouped" and "oc_buffer c = Some bs"
  shows "\<exists>r sk'. client_finish send t t' e c sk = Some (r, sk') \<and> (\<forall>d. ok (sink_at d sk')) \<and>
    (\<forall>d. shown (sink_at d sk') = shown (sink_at d sk) @
       bytes_to d (margin_bytes (map_option (\<lambda>f. f t) (client_header e c))) @ bytes_to d bs @
       bytes_to d (margin_bytes (map_option (\<lambda>f. f t') (client_footer e c))))"
proof -
  obtain sk1 where 1: "write_marginal send (map_option (\<lambda>f. f t) (client_header e c)) sk = (Inr (), sk1)"
    "\<forall>d. ok (sink_at d sk1)"
    "\<forall>d. shown (sink_at d sk1) = shown (sink_at d sk) @ bytes_to d (margin_bytes (map_option (\<lambda>f. f t) (client_header e c)))"
    using write_marginal_text [OF assms(1)] by blast
  obtain sk2 where 2: "write_all_bytes send bs sk1 = (Inr (), sk2)" "\<forall>d. ok (sink_at d sk2)"
    "\<forall>d. shown (sink_at d sk2) = shown (sink_at d sk1) @ bytes_to d bs"
    using write_all_bytes_text [OF 1(2)] by blast
  obtain sk3 where 3: "write_marginal send (map_option (\<lambda>f. f t') (client_footer e c)) sk2 = (Inr (), sk3)"
    "\<forall>d. ok (sink_at d sk3)"
    "\<forall>d. shown (sink_at d sk3) = shown (sink_at d sk2) @ bytes_to d (margin_bytes (map_option (\<lambda>f. f t') (client_footer e c)))"
    using write_marginal_text [OF 2(2)] by blast
  show ?thesis
    using assms(2,3) 1 2 3 by (simp add: client_finish_def Let_def)
qed

end

text \<open>The state of a client that groups its output, after some operations of its own.\<close>

definition client_inv :: "'t output_client option \<Rightarrow> 't client_op list \<Rightarrow> 't client_state option \<Rightarrow> bool" where
  "client_inv client ops st \<longleftrightarrow>
     (case client of
        None \<Rightarrow> st = None
      | Some c \<Rightarrow> oc_behavior c = Grouped \<and>
          (\<exists>bs pending. st = Some \<lparr>cs_client = c\<lparr>oc_buffer := Some bs\<rparr>, cs_pending = pending\<rparr> \<and>
             (\<forall>d. kept_text d ops = (bytes_to d bs, pending d))))"

definition grouped_inv ::
  "('k \<Rightarrow> 't output_client option) \<Rightarrow> ('k \<times> 't client_op) list \<Rightarrow> ('k \<Rightarrow> 't client_state option) \<Rightarrow> bool" where
  "grouped_inv clients before states \<longleftrightarrow> (\<forall>k. client_inv (clients k) (own_ops k before) (states k))"

lemma client_inv_None [simp]: "client_inv None ops st \<longleftrightarrow> st = None"
  by (simp add: client_inv_def)

lemma client_inv_SomeE:
  assumes "client_inv (Some c) ops st"
  obtains bs pending where "st = Some \<lparr>cs_client = c\<lparr>oc_buffer := Some bs\<rparr>, cs_pending = pending\<rparr>"
    and "oc_behavior c = Grouped" and "\<forall>d. kept_text d ops = (bytes_to d bs, pending d)"
  using assms by (auto simp: client_inv_def)

lemma grouped_inv_at: "grouped_inv clients before states \<Longrightarrow> client_inv (clients k) (own_ops k before) (states k)"
  by (simp add: grouped_inv_def)

lemma grouped_inv_other:
  "grouped_inv clients before states \<Longrightarrow> clients k = None \<Longrightarrow> grouped_inv clients (before @ [(k, op)]) states"
proof (unfold grouped_inv_def, intro allI)
  fix k'
  assume "\<forall>k. client_inv (clients k) (own_ops k before) (states k)" and "clients k = None"
  then show "client_inv (clients k') (own_ops k' (before @ [(k, op)])) (states k')"
    by (cases "k' = k") (auto dest: spec [of _ k'])
qed

lemma grouped_inv_finish:
  "grouped_inv clients before states \<Longrightarrow> grouped_inv (clients(k := None)) before (states(k := None))"
  by (simp add: grouped_inv_def)

lemma grouped_inv_step:
  "grouped_inv clients before states \<Longrightarrow> client_inv (clients k) (own_ops k before @ [op]) st \<Longrightarrow>
   grouped_inv clients (before @ [(k, op)]) (states(k := st))"
  by (simp add: grouped_inv_def)

lemma client_writer_grouped:
  assumes "oc_behavior c = Grouped" and "newline \<notin> set (pending d)"
  shows "ow_write wa (client_writer sk \<lparr>cs_client = c\<lparr>oc_buffer := Some bs\<rparr>, cs_pending = pending\<rparr> d) s =
      Some (Inr (length s), client_writer sk
        \<lparr>cs_client = c\<lparr>oc_buffer := Some (bs @ lines_to d (fst (cut_lines (pending d @ s))))\<rparr>,
         cs_pending = pending(d := snd (cut_lines (pending d @ s)))\<rparr> d)"
    and "ow_flush wa (client_writer sk \<lparr>cs_client = c\<lparr>oc_buffer := Some bs\<rparr>, cs_pending = pending\<rparr> d) =
      Some (Inr (), client_writer sk
        \<lparr>cs_client = c\<lparr>oc_buffer := Some (bs @ lines_to d [pending d])\<rparr>, cs_pending = pending(d := [])\<rparr> d)"
  using assms
  by (simp_all add: ow_write_def ow_write_lines_grouped client_writer_def client_ok_def client_keep_def
      ow_flush_def ow_handle_def handle_bytes_grouped)

lemma put_back_client_writer:
  "put_back k \<lparr>cs_client = c, cs_pending = pending\<rparr> (client_writer (sw_sink world) \<lparr>cs_client = c', cs_pending = pending(d := s)\<rparr> d) world =
     world\<lparr>sw_clients := (sw_clients world)(k \<mapsto> \<lparr>cs_client = c', cs_pending = pending(d := s)\<rparr>)\<rparr>"
  by (simp add: put_back_def client_writer_def)

text \<open>A step of a client that does not finish keeps the sink as it is.\<close>

lemma sink_step_grouped:
  assumes inv: "grouped_inv clients before (sw_clients world)" and c: "clients k = Some c"
    and op: "\<And>e t t'. op \<noteq> Finish e t t'"
  shows "\<exists>world'. sink_step wa (k, op) world = Some world' \<and> sw_sink world' = sw_sink world \<and>
    grouped_inv clients (before @ [(k, op)]) (sw_clients world')"
proof -
  obtain bs pending where st: "sw_clients world k = Some \<lparr>cs_client = c\<lparr>oc_buffer := Some bs\<rparr>, cs_pending = pending\<rparr>"
    and grouped: "oc_behavior c = Grouped"
    and kept: "\<forall>d. kept_text d (own_ops k before) = (bytes_to d bs, pending d)"
    using grouped_inv_at [OF inv, of k] c by (auto elim: client_inv_SomeE)
  have rest: "newline \<notin> set (pending d)" for d
    using kept_text_rest [of d "own_ops k before"] kept by simp
  have step: "grouped_inv clients (before @ [(k, op)])
      ((sw_clients world)(k \<mapsto> \<lparr>cs_client = c\<lparr>oc_buffer := Some bs'\<rparr>, cs_pending = pending'\<rparr>))"
    if "\<forall>d. kept_step d (bytes_to d bs, pending d) op = (bytes_to d bs', pending' d)" for bs' pending'
    using that by (intro grouped_inv_step inv) (auto simp: c client_inv_def grouped kept_text_snoc kept)
  show ?thesis
  proof (cases op)
    case (WriteTo d s)
    then show ?thesis
      using step [of "bs @ lines_to d (fst (cut_lines (pending d @ s)))" "pending(d := snd (cut_lines (pending d @ s)))"]
        st grouped rest
      by (simp add: sink_step_def client_writer_grouped put_back_client_writer kept_step_def)
  next
    case (FlushTo d)
    then show ?thesis
      using step [of "bs @ lines_to d [pending d]" "pending(d := [])"] st grouped rest
      by (simp add: sink_step_def client_writer_grouped put_back_client_writer kept_step_def)
  qed (use op in blast)
qed

context text_writer
begin

lemma sink_finish_grouped:
  assumes inv: "grouped_inv clients before (sw_clients world)" and c: "clients k = Some c"
    and ok: "\<forall>d. ok (sink_at d (sw_sink world))"
  shows "\<exists>world'. sink_step send (k, Finish e t t') world = Some world' \<and>
    grouped_inv (clients(k := None)) before (sw_clients world') \<and> (\<forall>d. ok (sink_at d (sw_sink world'))) \<and>
    (\<forall>d. shown (sink_at d (sw_sink world')) =
       shown (sink_at d (sw_sink world)) @ hd (groups d clients before [(k, Finish e t t')]))"
proof -
  obtain bs pending where st: "sw_clients world k = Some \<lparr>cs_client = c\<lparr>oc_buffer := Some bs\<rparr>, cs_pending = pending\<rparr>"
    and grouped: "oc_behavior c = Grouped"
    and kept: "\<forall>d. kept_text d (own_ops k before) = (bytes_to d bs, pending d)"
    using grouped_inv_at [OF inv, of k] c by (auto elim: client_inv_SomeE)
  have margin: "bytes_to d (margin_bytes (map_option (\<lambda>f. f t) m)) =
      (case m of Some f \<Rightarrow> if d = Stdout then f t else [] | None \<Rightarrow> [])" for d m and t :: 'c
    by (auto simp: margin_bytes_def split: option.split)
  have same: "client_header e (c\<lparr>oc_buffer := b\<rparr>) = client_header e c"
    "client_footer e (c\<lparr>oc_buffer := b\<rparr>) = client_footer e c" for b
    by (simp_all add: client_header_def client_footer_def)
  from client_finish_text [OF ok, of "c\<lparr>oc_buffer := Some bs\<rparr>" bs t t' e] obtain r sk where
    fin: "client_finish send t t' e (c\<lparr>oc_buffer := Some bs\<rparr>) (sw_sink world) = Some (r, sk)" "\<forall>d. ok (sink_at d sk)"
    and out: "\<forall>d. shown (sink_at d sk) = shown (sink_at d (sw_sink world)) @ hd (groups d clients before [(k, Finish e t t')])"
    using grouped by (auto simp: margin same kept c Let_def)
  then show ?thesis
    by (simp add: sink_step_def st grouped_inv_finish [OF inv] del: groups.simps)
qed

lemma sink_run_grouped:
  assumes "grouped_inv clients before (sw_clients world)" and "\<forall>d. ok (sink_at d (sw_sink world))"
  shows "\<exists>world'. sink_run send steps world = Some world' \<and>
    (\<forall>d. shown (sink_at d (sw_sink world')) =
       shown (sink_at d (sw_sink world)) @ concat (groups d clients before steps))"
  using assms
proof (induction steps arbitrary: clients before world)
  case (Cons step steps)
  obtain k op where step: "step = (k, op)"
    by (cases step)
  show ?case
  proof (cases "clients k")
    case None
    then have "sw_clients world k = None"
      using grouped_inv_at [OF Cons.prems(1), of k] by simp
    with None show ?thesis
      using Cons.IH [OF grouped_inv_other [OF Cons.prems(1) None] Cons.prems(2)] by (simp add: step sink_step_def)
  next
    case (Some c)
    show ?thesis
    proof (cases "\<exists>e t t'. op = Finish e t t'")
      case True
      then obtain e t t' where op: "op = Finish e t t'"
        by blast
      from sink_finish_grouped [OF Cons.prems(1) Some Cons.prems(2), of e t t'] obtain world' where
        1: "sink_step send (k, op) world = Some world'" "grouped_inv (clients(k := None)) before (sw_clients world')"
          "\<forall>d. ok (sink_at d (sw_sink world'))"
        and 2: "\<forall>d. shown (sink_at d (sw_sink world')) =
          shown (sink_at d (sw_sink world)) @ hd (groups d clients before [(k, Finish e t t')])"
        unfolding op by blast
      show ?thesis
        using Cons.IH [OF 1(2,3)] 1(1) 2 by (auto simp: step op Some Let_def fun_upd_def)
    next
      case False
      then obtain world' where "sink_step send (k, op) world = Some world'" "sw_sink world' = sw_sink world"
        "grouped_inv clients (before @ [(k, op)]) (sw_clients world')"
        using sink_step_grouped [OF Cons.prems(1) Some] by blast
      moreover have "groups d clients before (step # steps) = groups d clients (before @ [(k, op)]) steps" for d
        using False by (cases op) (simp_all add: step Some)
      ultimately show ?thesis
        using Cons.IH [of clients "before @ [(k, op)]" world'] Cons.prems(2) by (simp add: step)
    qed
  qed
qed simp

end

interpretation log_text: text_writer "write_all file_write" "\<lambda>_. True" "\<lambda>f. f"
  by unfold_locales simp

text \<open>
  C28: Whatever the clients of a sink that group their output do, and however their operations
  interleave, nothing fails, and the sink shows one group after the other, in the order in which the
  clients finish: the header, what the client itself was told to print, and the footer. The output of
  one task is never mixed with that of another.
\<close>

theorem grouped_output_contiguous:
  assumes "text_writer send ok shown"
    and "\<forall>d. ok (sink_at d sk)"
    and "\<forall>k c. clients k = Some c \<longrightarrow> oc_behavior c = Grouped \<and> oc_buffer c = Some []"
  shows "\<exists>world. sink_run send steps
      \<lparr>sw_sink = sk, sw_clients = (\<lambda>k. map_option (\<lambda>c. \<lparr>cs_client = c, cs_pending = (\<lambda>_. [])\<rparr>) (clients k))\<rparr> = Some world \<and>
    (\<forall>d. shown (sink_at d (sw_sink world)) = shown (sink_at d sk) @ concat (groups d clients [] steps))"
proof -
  have fresh: "c = c\<lparr>oc_buffer := Some []\<rparr>" if "clients k = Some c" for k c
    using that assms(3) by (metis output_client.surjective output_client.update_convs(2))
  have "grouped_inv clients [] (\<lambda>k. map_option (\<lambda>c. \<lparr>cs_client = c, cs_pending = (\<lambda>_. [])\<rparr>) (clients k))"
    using assms(3) fresh
    by (auto simp: grouped_inv_def client_inv_def own_ops_def kept_text_def split: option.split intro!: exI [of _ "[]"])
  then show ?thesis
    using text_writer.sink_run_grouped [OF assms(1), of clients "[]" "\<lparr>sw_sink = sk, sw_clients = (\<lambda>k. map_option (\<lambda>c. \<lparr>cs_client = c, cs_pending = (\<lambda>_. [])\<rparr>) (clients k))\<rparr>" steps] assms(2) by simp
qed

theorem grouped_output_contiguous_witness:
  "let clients = (\<lambda>k :: nat. if k < 2 then Some (with_header_footer (Some (\<lambda>_ :: unit. ''>'')) None (sink_logger Grouped)) else None);
       steps = [(0, WriteTo Stdout ''a''), (1, WriteTo Stdout (''b'' @ [newline])), (0, WriteTo Stdout [newline]),
                (0, Finish False () ()), (1, WriteTo Stderr ''c''), (1, FlushTo Stderr), (1, Finish True () ())]
   in (\<exists>world. sink_run (write_all file_write) steps
         \<lparr>sw_sink = \<lparr>sk_out = [], sk_err = []\<rparr>,
          sw_clients = (\<lambda>k. map_option (\<lambda>c. \<lparr>cs_client = c, cs_pending = (\<lambda>_. [])\<rparr>) (clients k))\<rparr> = Some world \<and>
       (\<forall>d. sink_at d (sw_sink world) = sink_at d \<lparr>sk_out = [], sk_err = []\<rparr> @ concat (groups d clients [] steps))) \<and>
      concat (groups Stdout clients [] steps) = ''>a'' @ [newline] @ ''>b'' @ [newline] \<and>
      concat (groups Stderr clients [] steps) = ''c''"
  unfolding Let_def
  by (intro conjI, rule grouped_output_contiguous [OF log_text.text_writer_axioms])
    (auto simp: with_header_footer_def sink_logger_def split: if_splits, code_simp+)

text \<open>
  C29: As long as the log file takes every write whole, it gets exactly the bytes that a task wrote, in
  whatever pieces. The complete lines are shown while the task runs, each with its prefix, and an
  unfinished last line is held back; replaying the log file shows the same lines, and the unfinished one
  as a line of its own. So when the output ends with a newline, replaying leaves the writer in the state
  in which the task left it.
\<close>

theorem replay_shows_live_output:
  assumes "reliable_writer send ok" and "ok w" and "whole_writes wrf content" and "content f = []"
  shows "\<exists>f' live replayed. puts (write_all (lg_write wrf (pw_write send)))
        \<lparr>lg_log_file = Some f, lg_writer = Some (prefixed_writer_new p w)\<rparr> bufs =
      \<lparr>lg_log_file = Some f', lg_writer = Some live\<rparr> \<and> content f' = concat bufs \<and>
    replay_logs (write_all (pw_write send)) (Inr (content f')) (prefixed_writer_new p w) = (Inr (), replayed) \<and>
    pi_writer (lw_writer live) = puts send w (concat (map (prefixed_line p) (fst (cut_lines (concat bufs))))) \<and>
    lw_buffer live = snd (cut_lines (concat bufs)) \<and>
    pi_writer (lw_writer replayed) = puts send w (concat (map (prefixed_line p) (terminated_lines (concat bufs)))) \<and>
    lw_buffer replayed = [] \<and>
    (snd (cut_lines (concat bufs)) = [] \<longrightarrow> replayed = live)"
proof -
  let ?pw = "prefixed_writer_new p w"
  have ok: "ok (pi_writer (lw_writer ?pw))" "newline \<notin> set (lw_buffer ?pw)"
    using assms(2) by (simp_all add: prefixed_writer_new_def line_writer_new_def)
  obtain f' where f': "puts (write_all (lg_write wrf (pw_write send))) \<lparr>lg_log_file = Some f, lg_writer = Some ?pw\<rparr> bufs =
      \<lparr>lg_log_file = Some f', lg_writer = Some (puts (write_all (pw_write send)) ?pw bufs)\<rparr>" "content f' = concat bufs"
    using reliable_writer.lg_puts_eq [OF assms(1,3) ok] assms(4) by force
  note live = reliable_writer.pw_puts_eq [OF assms(1) ok, of bufs]
    and replayed = reliable_writer.pw_puts_eq [OF assms(1) ok, of "terminated_lines (concat bufs)"]
  have "terminated_lines (concat bufs) = fst (cut_lines (concat bufs))" if "snd (cut_lines (concat bufs)) = []"
    using that by (simp add: terminated_lines_def)
  then have "puts (write_all (pw_write send)) ?pw (terminated_lines (concat bufs)) = puts (write_all (pw_write send)) ?pw bufs"
    if "snd (cut_lines (concat bufs)) = []"
    using that cut_terminated_lines [of "concat bufs"] unfolding live replayed by (simp add: prefixed_writer_new_def line_writer_new_def)
  then show ?thesis
    using f' reliable_writer.replay_logs_eq [OF assms(1) ok, of "concat bufs"] live replayed
    by (simp add: prefixed_writer_new_def line_writer_new_def cut_terminated_lines del: puts_simps)
qed

lemma file_whole_writes: "whole_writes file_write (\<lambda>f. f)"
  by (simp add: whole_writes_def file_write_def)

theorem replay_shows_live_output_witness:
  "\<exists>live replayed. puts (write_all (lg_write file_write (pw_write (write_all file_write))))
        \<lparr>lg_log_file = Some [], lg_writer = Some (prefixed_writer_new ''app: '' [])\<rparr> [''he'', ''llo'' @ [newline] @ ''x''] =
      \<lparr>lg_log_file = Some (''hello'' @ [newline] @ ''x''), lg_writer = Some live\<rparr> \<and>
    replay_logs (write_all (pw_write (write_all file_write))) (Inr (''hello'' @ [newline] @ ''x''))
      (prefixed_writer_new ''app: '' []) = (Inr (), replayed) \<and>
    pi_writer (lw_writer live) = ''app: hello'' @ [newline] \<and>
    pi_writer (lw_writer replayed) = ''app: hello'' @ [newline] @ ''app: x'' @ [newline]"
proof -
  have "concat [''he'', ''llo'' @ [newline] @ ''x''] = ''hello'' @ [newline] @ ''x''"
    by simp
  moreover have "cut_lines (''hello'' @ [newline] @ ''x'') = ([''hello'' @ [newline]], ''x'')"
    by simp
  ultimately show ?thesis
    using replay_shows_live_output [OF log_file.reliable_writer_axioms TrueI file_whole_writes,
        of "[]" "''app: ''" "[]" "[''he'', ''llo'' @ [newline] @ ''x'']"]
    by (auto simp: prefixed_line_def terminated_lines_def simp del: puts_simps)
qed

text \<open>
  A log file that accepts only a part of a write makes the rest be written again, and the terminal shows
  that part twice.
\<close>

definition short_write :: "string writer" where
  "short_write f buf = (let n = min 2 (length buf) in (Inr n, f @ take n buf))"

lemma short_write_shown_twice:
  "snd (write_all (lg_write short_write file_write) \<lparr>lg_log_file = Some [], lg_writer = Some []\<rparr> ''abc'') =
     \<lparr>lg_log_file = Some ''abc'', lg_writer = Some ''abcc''\<rparr>"
  by (simp add: write_all.simps lg_write_def short_write_def file_write_def)

subsection \<open>Colours\<close>

record color_selector =
  sel_idx :: nat
  sel_cache :: "(string, nat) hash_map"

abbreviation color_count :: nat where
  "color_count \<equiv> 5"

text \<open>A colour is its position among the colours of the terminal.\<close>

definition insert_color :: "string \<Rightarrow> color_selector \<Rightarrow> nat \<times> color_selector" where
  "insert_color key s =
     (case hm_get (sel_cache s) key of
        Some c \<Rightarrow> (c, s)
      | None \<Rightarrow>
          (let c = sel_idx s mod color_count
           in (c, \<lparr>sel_idx = sel_idx s + 1, sel_cache = hm_insert key c (sel_cache s)\<rparr>)))"

definition color_for_key :: "string \<Rightarrow> color_selector \<Rightarrow> nat \<times> color_selector" where
  "color_for_key key s =
     (case hm_get (sel_cache s) key of Some c \<Rightarrow> (c, s) | None \<Rightarrow> insert_color key s)"

definition prefix_with_color :: "string \<Rightarrow> string \<Rightarrow> color_selector \<Rightarrow> (nat option \<times> string) \<times> color_selector" where
  "prefix_with_color cache_key prefix_text s =
     (if prefix_text = [] then ((None, []), s)
      else case color_for_key cache_key s of (c, s') \<Rightarrow> ((Some c, prefix_text @ '': ''), s'))"

text \<open>Once chosen, the colour of a key stays.\<close>

lemma color_for_key_stable:
  assumes "color_for_key key s = (c, s')"
  shows "c < color_count \<or> hm_get (sel_cache s) key = Some c"
    and "color_for_key key (snd (color_for_key other s')) = (c, snd (color_for_key other s'))"
  using assms
  by (auto simp: color_for_key_def insert_color_def Let_def split: option.splits if_splits)

end
