(* ===== verification/Run_Cache.thy ===== *)
theory Run_Cache
  imports Async_Cache Task_Output Task_Hash
begin

text \<open>
  The cache as a run uses it: \<open>RunCache\<close>, \<open>TaskCache\<close> and \<open>ConfigCache\<close> of
  \<open>nrzrepo-lib/src/run/cache.rs\<close>, the trait \<open>CacheOutput\<close> with its implementation \<open>TaskCacheOutput\<close>
  in \<open>task_graph/visitor/output.rs\<close>, and the senders of \<open>nrzrepo-ui/src/sender.rs\<close>. The cache below,
  the daemon, the walk over the output globs and the log file are an environment: a record of functions
  on the state of the world. The calls that are made to the cache are kept in a list.
\<close>

subsection \<open>Order of paths\<close>

text \<open>Paths are ordered by their components, as \<open>std::path::Path\<close> orders them.\<close>

definition component_rank :: "path_component \<Rightarrow> nat" where
  "component_rank c = (case c of RootDir \<Rightarrow> 0 | CurDir \<Rightarrow> 1 | ParentDir \<Rightarrow> 2 | Normal _ \<Rightarrow> 3)"

instantiation path_component :: linorder
begin

definition less_eq_path_component :: "path_component \<Rightarrow> path_component \<Rightarrow> bool" where
  "less_eq_path_component a b \<longleftrightarrow>
     component_rank a < component_rank b \<or> component_rank a = component_rank b \<and> component_str a \<le> component_str b"

definition less_path_component :: "path_component \<Rightarrow> path_component \<Rightarrow> bool" where
  "less_path_component a b \<longleftrightarrow>
     component_rank a < component_rank b \<or> component_rank a = component_rank b \<and> component_str a < component_str b"

instance
proof
  fix x y z :: path_component
  show "x < y \<longleftrightarrow> x \<le> y \<and> \<not> y \<le> x" "x \<le> x" "x \<le> y \<or> y \<le> x"
    by (auto simp: less_eq_path_component_def less_path_component_def)
  show "x \<le> z" if "x \<le> y" "y \<le> z"
    using that by (auto simp: less_eq_path_component_def)
  show "x = y" if "x \<le> y" "y \<le> x"
    using that by (auto simp: less_eq_path_component_def component_rank_def component_str_def split: path_component.splits)
qed

end

definition sort_paths :: "string list \<Rightarrow> string list" where
  "sort_paths ps = sort_key path_components ps"

subsection \<open>The world of a run\<close>

datatype run_cache_error =
    UiErr ui_error
  | CacheErr cache_error
  | GlobwalkErr string
  | GlobErr string
  | DaemonErr string
  | NoDaemon
  | ScmErr string
  | PathErr path_error

datatype cache_result = CacheHit | CacheMiss

datatype cache_call =
    CallExists string
  | CallFetch string
  | CallPut string "string list" u64

record ('w, 'o) run_env =
  ru_fetch :: "string \<Rightarrow> string \<Rightarrow> 'w \<Rightarrow> (cache_error, (cache_hit_metadata \<times> string list) option) result \<times> 'w"
  ru_exists :: "string \<Rightarrow> 'w \<Rightarrow> (cache_error, cache_hit_metadata option) result \<times> 'w"
  ru_put :: "string \<Rightarrow> string \<Rightarrow> string list \<Rightarrow> u64 \<Rightarrow> 'w \<Rightarrow> (cache_error, unit) result \<times> 'w"
  ru_changed_outputs :: "string \<Rightarrow> string list \<Rightarrow> 'w \<Rightarrow> (string, string list) result \<times> 'w"
  ru_notify_outputs :: "string \<Rightarrow> string list \<Rightarrow> string list \<Rightarrow> u64 \<Rightarrow> 'w \<Rightarrow> (string, unit) result \<times> 'w"
  ru_globwalk :: "string \<Rightarrow> string list \<Rightarrow> string list \<Rightarrow> 'w \<Rightarrow> (string, string list) result"
  ru_validate_glob :: "string \<Rightarrow> (string, string) result"
  ru_file_exists :: "string \<Rightarrow> 'w \<Rightarrow> bool"
  ru_clean :: "string \<Rightarrow> string"
  ru_grey :: "string \<Rightarrow> string"
  ru_status :: "string \<Rightarrow> cache_result \<Rightarrow> 'o \<Rightarrow> 'o"
  ru_error :: "string \<Rightarrow> 'o \<Rightarrow> 'o"
  ru_warn :: "string \<Rightarrow> 'o \<Rightarrow> 'o"
  ru_replay_logs :: "string \<Rightarrow> 'w \<Rightarrow> 'o \<Rightarrow> (ui_error, unit) result \<times> 'o"

record ('w, 'o) run_world =
  rw_outer :: 'w
  rw_out :: 'o
  rw_calls :: "cache_call list"
  rw_cache_warnings :: "string list"

type_synonym ('w, 'o, 'a) run_io = "(('w, 'o) run_world, run_cache_error, 'a) io"

definition out_do :: "('o \<Rightarrow> 'o) \<Rightarrow> ('w, 'o, unit) run_io" where
  "out_do f w = (Inr (), w\<lparr>rw_out := f (rw_out w)\<rparr>)"

definition outer_do :: "('e \<Rightarrow> run_cache_error) \<Rightarrow> ('w \<Rightarrow> ('e, 'a) result \<times> 'w) \<Rightarrow> ('w, 'o, 'a) run_io" where
  "outer_do err f w =
     (case f (rw_outer w) of
        (Inl e, o') \<Rightarrow> (Inl (err e), w\<lparr>rw_outer := o'\<rparr>)
      | (Inr a, o') \<Rightarrow> (Inr a, w\<lparr>rw_outer := o'\<rparr>))"

definition log_call :: "cache_call \<Rightarrow> ('w, 'o, unit) run_io" where
  "log_call c w = (Inr (), w\<lparr>rw_calls := rw_calls w @ [c]\<rparr>)"

definition with_err :: "('e \<Rightarrow> run_cache_error) \<Rightarrow> ('e, 'a) result \<Rightarrow> ('w, 'o, 'a) run_io" where
  "with_err err r w = ((case r of Inl e \<Rightarrow> Inl (err e) | Inr a \<Rightarrow> Inr a), w)"

subsection \<open>Run caches and task caches\<close>

record run_cache =
  rc_task_output_logs :: "output_logs_mode option"
  rc_reads_disabled :: bool
  rc_writes_disabled :: bool
  rc_repo_root :: string
  rc_daemon :: bool

definition run_cache_new :: "string \<Rightarrow> output_logs_mode option \<Rightarrow> cache_config \<Rightarrow> bool \<Rightarrow> bool \<Rightarrow> run_cache" where
  "run_cache_new repo_root task_output_logs_override cfg daemon is_dry_run =
     \<lparr>rc_task_output_logs = (if is_dry_run then Some LogNone else task_output_logs_override),
      rc_reads_disabled = (\<not> ca_read (cc_remote cfg) \<and> \<not> ca_read (cc_local cfg)),
      rc_writes_disabled = (\<not> ca_write (cc_remote cfg) \<and> \<not> ca_write (cc_local cfg)),
      rc_repo_root = repo_root,
      rc_daemon = daemon\<rparr>"

record task_cache =
  tc_expanded_outputs :: "string list"
  tc_run_cache :: run_cache
  tc_repo_relative_globs :: task_outputs
  tc_hash :: string
  tc_task_output_logs :: output_logs_mode
  tc_caching_disabled :: bool
  tc_log_file_path :: string
  tc_task_id :: task_id

definition workspace_relative_log_file :: "string \<Rightarrow> string" where
  "workspace_relative_log_file task_name = path_join ''.nrz'' (task_log_filename task_name)"

definition rc_task_cache :: "run_cache \<Rightarrow> task_definition \<Rightarrow> package_info \<Rightarrow> task_id \<Rightarrow> string \<Rightarrow> task_cache" where
  "rc_task_cache rc td info task_id hash =
     \<lparr>tc_expanded_outputs = [],
      tc_run_cache = rc,
      tc_repo_relative_globs = repo_relative_hashable_outputs td task_id (package_path info),
      tc_hash = hash,
      tc_task_output_logs = (case rc_task_output_logs rc of Some mode \<Rightarrow> mode | None \<Rightarrow> td_output_logs td),
      tc_caching_disabled = (\<not> td_cache td),
      tc_log_file_path = resolve_path (resolve_path (rc_repo_root rc) (package_path info))
        (workspace_relative_log_file (tid_task task_id)),
      tc_task_id = task_id\<rparr>"

definition validated_inclusions :: "('w, 'o) run_env \<Rightarrow> task_outputs \<Rightarrow> (string, string list) result" where
  "validated_inclusions ru o' = try_map (ru_validate_glob ru) (inclusions o')"

definition validated_exclusions :: "('w, 'o) run_env \<Rightarrow> task_outputs \<Rightarrow> (string, string list) result" where
  "validated_exclusions ru o' = try_map (ru_validate_glob ru) (exclusions o')"

text \<open>The warnings are shown in order when the cache is shut down.\<close>

definition shutdown_warnings :: "('w, 'o) run_world \<Rightarrow> string list" where
  "shutdown_warnings w = sort (rw_cache_warnings w)"

definition replay_log_file :: "('w, 'o) run_env \<Rightarrow> task_cache \<Rightarrow> ('w, 'o, unit) run_io" where
  "replay_log_file ru tc w =
     (if ru_file_exists ru (tc_log_file_path tc) (rw_outer w) then
        (case ru_replay_logs ru (tc_log_file_path tc) (rw_outer w) (rw_out w) of
           (Inl e, o') \<Rightarrow> (Inl (UiErr e), w\<lparr>rw_out := o'\<rparr>)
         | (Inr _, o') \<Rightarrow> (Inr (), w\<lparr>rw_out := o'\<rparr>))
      else (Inr (), w))"

definition tc_on_error :: "('w, 'o) run_env \<Rightarrow> task_cache \<Rightarrow> ('w, 'o, unit) run_io" where
  "tc_on_error ru tc =
     (if tc_task_output_logs tc = LogErrorsOnly then
        io_bind (out_do (ru_status ru (''cache miss, executing '' @ ru_grey ru (tc_hash tc)) CacheMiss)) (\<lambda>_.
          replay_log_file ru tc)
      else io_lift (Inr ()))"

text \<open>The writer that the output of the task goes to; opening the log file is the first argument.\<close>

definition tc_output_writer ::
  "(('f, 'v) log_writer \<Rightarrow> (ui_error, ('f, 'v) log_writer) result) \<Rightarrow> task_cache \<Rightarrow> 'v \<Rightarrow> (run_cache_error, ('f, 'v) log_writer) result" where
  "tc_output_writer open_log tc writer =
     try_bind (if \<not> tc_caching_disabled tc \<and> \<not> rc_writes_disabled (tc_run_cache tc)
               then (case open_log log_writer_default of Inl e \<Rightarrow> Inl (UiErr e) | Inr lg \<Rightarrow> Inr lg)
               else Inr log_writer_default) (\<lambda>lg.
       Inr (if tc_task_output_logs tc \<in> {LogFull, LogNewOnly} then with_writer writer lg else lg))"

definition tc_exists :: "('w, 'o) run_env \<Rightarrow> task_cache \<Rightarrow> ('w, 'o, cache_hit_metadata option) run_io" where
  "tc_exists ru tc = io_bind (log_call (CallExists (tc_hash tc))) (\<lambda>_. outer_do CacheErr (ru_exists ru (tc_hash tc)))"

subsection \<open>Restoring the outputs of a task\<close>

definition miss_status :: "('w, 'o) run_env \<Rightarrow> task_cache \<Rightarrow> string \<Rightarrow> ('w, 'o, unit) run_io" where
  "miss_status ru tc message =
     (if tc_task_output_logs tc \<in> {LogNone, LogErrorsOnly} then io_lift (Inr ())
      else out_do (ru_status ru (message @ ru_grey ru (tc_hash tc)) CacheMiss))"

definition changed_output_count :: "('w, 'o) run_env \<Rightarrow> task_cache \<Rightarrow> string list \<Rightarrow> ('w, 'o, nat) run_io" where
  "changed_output_count ru tc incl w =
     (if rc_daemon (tc_run_cache tc) then
        (case ru_changed_outputs ru (tc_hash tc) incl (rw_outer w) of
           (Inr globs, o') \<Rightarrow> (Inr (length globs), w\<lparr>rw_outer := o'\<rparr>)
         | (Inl _, o') \<Rightarrow> (Inr (length (inclusions (tc_repo_relative_globs tc))), w\<lparr>rw_outer := o'\<rparr>))
      else (Inr (length (inclusions (tc_repo_relative_globs tc))), w))"

text \<open>A daemon that can not be told is no error.\<close>

definition notify_daemon :: "('w, 'o) run_env \<Rightarrow> task_cache \<Rightarrow> string list \<Rightarrow> string list \<Rightarrow> u64 \<Rightarrow> ('w, 'o, unit) run_io" where
  "notify_daemon ru tc incl excl time w =
     (if rc_daemon (tc_run_cache tc)
      then (Inr (), w\<lparr>rw_outer := snd (ru_notify_outputs ru (tc_hash tc) incl excl time (rw_outer w))\<rparr>)
      else (Inr (), w))"

definition hit_status :: "('w, 'o) run_env \<Rightarrow> task_cache \<Rightarrow> bool \<Rightarrow> ('w, 'o, unit) run_io" where
  "hit_status ru tc has_changed_outputs =
     (let more_context = (if has_changed_outputs then '''' else '' (outputs already on disk)'')
      in case tc_task_output_logs tc of
           LogHashOnly \<Rightarrow> out_do (ru_status ru (''cache hit'' @ more_context @ '', suppressing logs '' @ ru_grey ru (tc_hash tc)) CacheHit)
         | LogNewOnly \<Rightarrow> out_do (ru_status ru (''cache hit'' @ more_context @ '', suppressing logs '' @ ru_grey ru (tc_hash tc)) CacheHit)
         | LogFull \<Rightarrow>
             io_bind (out_do (ru_status ru (''cache hit'' @ more_context @ '', replaying logs '' @ ru_grey ru (tc_hash tc)) CacheHit)) (\<lambda>_.
               replay_log_file ru tc)
         | LogErrorsOnly \<Rightarrow> io_lift (Inr ())
         | LogNone \<Rightarrow> io_lift (Inr ()))"

text \<open>The task cache is returned as well: its expanded outputs change, also when a later step fails.\<close>

definition fetch_outputs ::
  "('w, 'o) run_env \<Rightarrow> task_cache \<Rightarrow> string list \<Rightarrow> ('w, 'o) run_world \<Rightarrow>
     ((run_cache_error, cache_hit_metadata option) result \<times> task_cache) \<times> ('w, 'o) run_world" where
  "fetch_outputs ru tc incl w =
     (case io_bind (log_call (CallFetch (tc_hash tc))) (\<lambda>_.
             outer_do CacheErr (ru_fetch ru (rc_repo_root (tc_run_cache tc)) (tc_hash tc))) w of
        (Inl e, w1) \<Rightarrow> ((Inl e, tc), w1)
      | (Inr None, w1) \<Rightarrow>
          (case miss_status ru tc ''cache miss, executing '' w1 of (_, w2) \<Rightarrow> ((Inr None, tc), w2))
      | (Inr (Some (metadata, restored_files)), w1) \<Rightarrow>
          (let tc' = tc\<lparr>tc_expanded_outputs := restored_files\<rparr>
           in if rc_daemon (tc_run_cache tc) then
                (case io_bind (with_err GlobErr (validated_exclusions ru (tc_repo_relative_globs tc))) (\<lambda>excl.
                        notify_daemon ru tc incl excl (ch_time_saved metadata)) w1 of
                   (Inl e, w2) \<Rightarrow> ((Inl e, tc'), w2)
                 | (Inr _, w2) \<Rightarrow> ((Inr (Some metadata), tc'), w2))
              else ((Inr (Some metadata), tc'), w1)))"

definition restore_outputs ::
  "('w, 'o) run_env \<Rightarrow> task_cache \<Rightarrow> ('w, 'o) run_world \<Rightarrow>
     ((run_cache_error, cache_hit_metadata option) result \<times> task_cache) \<times> ('w, 'o) run_world" where
  "restore_outputs ru tc w =
     (if tc_caching_disabled tc \<or> rc_reads_disabled (tc_run_cache tc) then
        (case miss_status ru tc ''cache bypass, force executing '' w of (_, w') \<Rightarrow> ((Inr None, tc), w'))
      else
        (case io_bind (with_err GlobErr (validated_inclusions ru (tc_repo_relative_globs tc))) (\<lambda>incl.
                io_bind (changed_output_count ru tc incl) (\<lambda>n. io_lift (Inr (incl, n)))) w of
           (Inl e, w1) \<Rightarrow> ((Inl e, tc), w1)
         | (Inr (incl, n), w1) \<Rightarrow>
             (case (if n > 0 then fetch_outputs ru tc incl w1
                    else ((Inr (Some \<lparr>ch_source = Local, ch_time_saved = 0\<rparr>), tc), w1)) of
                ((Inl e, tc'), w2) \<Rightarrow> ((Inl e, tc'), w2)
              | ((Inr None, tc'), w2) \<Rightarrow> ((Inr None, tc'), w2)
              | ((Inr (Some metadata), tc'), w2) \<Rightarrow>
                  (case hit_status ru tc' (n > 0) w2 of
                     (Inl e, w3) \<Rightarrow> ((Inl e, tc'), w3)
                   | (Inr _, w3) \<Rightarrow> ((Inr (Some metadata), tc'), w3)))))"

subsection \<open>Saving the outputs of a task\<close>

definition push_warning :: "string \<Rightarrow> ('w, 'o, unit) run_io" where
  "push_warning s w = (Inr (), w\<lparr>rw_cache_warnings := rw_cache_warnings w @ [s]\<rparr>)"

definition no_outputs_warning :: "task_id \<Rightarrow> string" where
  "no_outputs_warning t =
     ''no output files found for task '' @ task_id_display t @ ''. Please check your `outputs` key in `nrz.json`''"

text \<open>Only the log was found although the task has outputs.\<close>

definition only_log_cached :: "task_cache \<Rightarrow> string list \<Rightarrow> bool" where
  "only_log_cached tc files \<longleftrightarrow> length files = 1 \<and> \<not> task_outputs_is_empty (tc_repo_relative_globs tc)"

definition save_outputs ::
  "('w, 'o) run_env \<Rightarrow> nat \<Rightarrow> task_cache \<Rightarrow> ('w, 'o) run_world \<Rightarrow>
     ((run_cache_error, unit) result \<times> task_cache) \<times> ('w, 'o) run_world" where
  "save_outputs ru duration_millis tc w =
     (if tc_caching_disabled tc \<or> rc_writes_disabled (tc_run_cache tc) then ((Inr (), tc), w)
      else
        (case io_bind (with_err GlobErr (validated_inclusions ru (tc_repo_relative_globs tc))) (\<lambda>incl.
              io_bind (with_err GlobErr (validated_exclusions ru (tc_repo_relative_globs tc))) (\<lambda>excl.
              io_bind (\<lambda>w. with_err GlobwalkErr (ru_globwalk ru (rc_repo_root (tc_run_cache tc)) incl excl (rw_outer w)) w) (\<lambda>files.
              io_bind (if only_log_cached tc files
                       then push_warning (no_outputs_warning (tc_task_id tc)) else io_lift (Inr ())) (\<lambda>_.
                let relative_paths = sort_paths (map (relative_path_between (ru_clean ru) (rc_repo_root (tc_run_cache tc))) files);
                    millis = word_of_nat duration_millis
                in io_bind (log_call (CallPut (tc_hash tc) relative_paths millis)) (\<lambda>_.
                   io_bind (outer_do CacheErr (ru_put ru (rc_repo_root (tc_run_cache tc)) (tc_hash tc) relative_paths millis)) (\<lambda>_.
                   io_bind (notify_daemon ru tc incl excl millis) (\<lambda>_.
                   io_lift (Inr relative_paths)))))))) w of
           (Inl e, w') \<Rightarrow> ((Inl e, tc), w')
         | (Inr relative_paths, w') \<Rightarrow> ((Inr (), tc\<lparr>tc_expanded_outputs := relative_paths\<rparr>), w')))"

subsection \<open>The cache of the traced configuration\<close>

record config_cache =
  cf_hash :: string
  cf_repo_root :: string
  cf_config_file :: string
  cf_anchored_path :: string

definition config_cache_new :: "(string \<Rightarrow> string) \<Rightarrow> string \<Rightarrow> string \<Rightarrow> string list \<Rightarrow> config_cache" where
  "config_cache_new clean hash repo_root config_path =
     (let config_file = foldl path_join repo_root config_path
      in \<lparr>cf_hash = hash, cf_repo_root = repo_root, cf_config_file = config_file,
          cf_anchored_path = relative_path_between clean repo_root config_file\<rparr>)"

definition config_restore ::
  "('w, 'o) run_env \<Rightarrow> config_cache \<Rightarrow> ('w, 'o, (cache_hit_metadata \<times> string list) option) run_io" where
  "config_restore ru cf =
     io_bind (log_call (CallFetch (cf_hash cf))) (\<lambda>_. outer_do CacheErr (ru_fetch ru (cf_repo_root cf) (cf_hash cf)))"

definition config_save :: "('w, 'o) run_env \<Rightarrow> config_cache \<Rightarrow> ('w, 'o, unit) run_io" where
  "config_save ru cf w =
     (if ru_file_exists ru (cf_config_file cf) (rw_outer w) then
        io_bind (log_call (CallPut (cf_hash cf) [cf_anchored_path cf] 0)) (\<lambda>_.
          outer_do CacheErr (ru_put ru (cf_repo_root cf) (cf_hash cf) [cf_anchored_path cf] 0)) w
      else (Inr (), w))"

subsection \<open>Where the messages go\<close>

datatype task_result = TaskSuccess | TaskFailure | TaskCacheHit

datatype ui_event =
    StartTask string output_logs_mode
  | EndTask string task_result
  | StatusOf string string cache_result
  | OutputOf string string
  | SetStdin string

text \<open>
  A sender for one task of a terminal or web interface: it keeps the logs, and sends events until the
  receiver is gone. The function that strips escape sequences is a parameter.
\<close>

record task_sender =
  se_name :: string
  se_logs :: string
  se_events :: "ui_event list"
  se_open :: bool

definition se_send :: "ui_event \<Rightarrow> task_sender \<Rightarrow> task_sender" where
  "se_send e s = (if se_open s then s\<lparr>se_events := se_events s @ [e]\<rparr> else s)"

definition se_start :: "output_logs_mode \<Rightarrow> task_sender \<Rightarrow> task_sender" where
  "se_start output_logs s = se_send (StartTask (se_name s) output_logs) s"

definition se_finish :: "task_result \<Rightarrow> task_sender \<Rightarrow> string \<times> task_sender" where
  "se_finish r s = (let s' = se_send (EndTask (se_name s) r) s in (se_logs s', s'))"

definition se_succeeded :: "bool \<Rightarrow> task_sender \<Rightarrow> string \<times> task_sender" where
  "se_succeeded is_cache_hit s = (if is_cache_hit then se_finish TaskCacheHit s else se_finish TaskSuccess s)"

definition se_failed :: "task_sender \<Rightarrow> string \<times> task_sender" where
  "se_failed s = se_finish TaskFailure s"

definition se_status :: "(string \<Rightarrow> string) \<Rightarrow> string \<Rightarrow> cache_result \<Rightarrow> task_sender \<Rightarrow> task_sender" where
  "se_status strip_ansi status r s = se_send (StatusOf (se_name s) (strip_ansi status) r) s"

definition se_set_stdin :: "task_sender \<Rightarrow> task_sender" where
  "se_set_stdin s = se_send (SetStdin (se_name s)) s"

definition se_write :: "task_sender writer" where
  "se_write s buf =
     (let s' = s\<lparr>se_logs := se_logs s @ buf\<rparr>
      in if se_open s then (Inr (length buf), se_send (OutputOf (se_name s) buf) s')
         else (Inl (OtherIo ''receiver dropped''), s'))"

text \<open>Where a task prints directly, or through its sender.\<close>

datatype 'w task_cache_output = DirectOutput "'w prefixed_ui" | UiOutput task_sender

abbreviation crlf :: string where
  "crlf \<equiv> [carriage_return, newline]"

definition tco_warn :: "'w sender \<Rightarrow> string \<Rightarrow> 'w task_cache_output \<Rightarrow> 'w task_cache_output" where
  "tco_warn wa message t =
     (case t of
        DirectOutput u \<Rightarrow> DirectOutput (pu_write_line wa message CmdWarn u)
      | UiOutput s \<Rightarrow> UiOutput (write_pieces (write_all se_write) s [crlf, message, crlf]))"

definition tco_status :: "(string \<Rightarrow> string) \<Rightarrow> 'w sender \<Rightarrow> string \<Rightarrow> cache_result \<Rightarrow> 'w task_cache_output \<Rightarrow> 'w task_cache_output" where
  "tco_status strip_ansi wa message r t =
     (case t of
        DirectOutput u \<Rightarrow> DirectOutput (pu_write_line wa message CmdOutput u)
      | UiOutput s \<Rightarrow> UiOutput (se_status strip_ansi message r s))"

definition tco_error :: "'w sender \<Rightarrow> string \<Rightarrow> 'w task_cache_output \<Rightarrow> 'w task_cache_output" where
  "tco_error wa message t =
     (case t of
        DirectOutput u \<Rightarrow> DirectOutput (pu_write_line wa message CmdError u)
      | UiOutput s \<Rightarrow> UiOutput (write_pieces (write_all se_write) s [message, crlf]))"

text \<open>The prefixed writer is made for the replay and gives its writer back.\<close>

definition tco_replay_logs :: "'w sender \<Rightarrow> (io_error, string) result \<Rightarrow> 'w task_cache_output \<Rightarrow> (ui_error, unit) result \<times> 'w task_cache_output" where
  "tco_replay_logs wa log_file t =
     (case t of
        DirectOutput u \<Rightarrow>
          (case replay_logs (write_all (pw_write wa)) log_file (pu_output_writer u) of
             (r, pw) \<Rightarrow> (r, DirectOutput (u\<lparr>pu_out := pi_writer (lw_writer pw)\<rparr>)))
      | UiOutput s \<Rightarrow> (case replay_logs (write_all se_write) log_file s of (r, s') \<Rightarrow> (r, UiOutput s')))"

text \<open>What a sender was told to print is in its logs, also when nobody listens any more.\<close>

lemma se_write_logs [simp]: "se_logs (snd (se_write s buf)) = se_logs s @ buf"
  by (simp add: se_write_def se_send_def Let_def)

interpretation open_sender: text_writer "write_all se_write" se_open se_logs
proof
  fix s :: task_sender and b
  assume s: "se_open s"
  have eq: "se_write s b = (Inr (length b), snd (se_write s b))"
    using s by (simp add: se_write_def Let_def)
  note all = write_all_whole [of se_write s b, OF eq]
  show "fst (write_all se_write s b) = Inr ()"
    by (simp add: all)
  show "se_open (snd (write_all se_write s b))"
    using s by (auto simp: all se_write_def se_send_def Let_def)
  show "se_logs (snd (write_all se_write s b)) = se_logs s @ b"
    by (simp add: all)
qed

subsection \<open>When the cache is used\<close>

lemma io_steps [simp]:
  "out_do f w = (Inr (), w\<lparr>rw_out := f (rw_out w)\<rparr>)"
  "log_call c w = (Inr (), w\<lparr>rw_calls := rw_calls w @ [c]\<rparr>)"
  "with_err err (Inl e) w = (Inl (err e), w)"
  "with_err err (Inr a) w = (Inr a, w)"
  "push_warning s w = (Inr (), w\<lparr>rw_cache_warnings := rw_cache_warnings w @ [s]\<rparr>)"
  by (simp_all add: out_do_def log_call_def with_err_def push_warning_def)

lemma miss_status_eq: "\<exists>o'. miss_status ru tc m w = (Inr (), w\<lparr>rw_out := o'\<rparr>)"
  by (auto simp: miss_status_def intro: exI [of _ "rw_out w"])

lemma replay_log_file_eq: "\<exists>r o'. replay_log_file ru tc w = (r, w\<lparr>rw_out := o'\<rparr>)"
  by (cases "ru_replay_logs ru (tc_log_file_path tc) (rw_outer w) (rw_out w)")
    (auto simp: replay_log_file_def split: sum.split intro: exI [of _ "rw_out w"])

lemma hit_status_eq: "\<exists>r o'. hit_status ru tc b w = (r, w\<lparr>rw_out := o'\<rparr>)"
proof (cases "tc_task_output_logs tc")
  case LogFull
  let ?w = "w\<lparr>rw_out := ru_status ru (''cache hit'' @ (if b then '''' else '' (outputs already on disk)'') @
      '', replaying logs '' @ ru_grey ru (tc_hash tc)) CacheHit (rw_out w)\<rparr>"
  show ?thesis
    using replay_log_file_eq [of ru tc ?w] LogFull by (auto simp: hit_status_def)
qed (auto simp: hit_status_def intro: exI [of _ "rw_out w"])

text \<open>With caching off for the task, or reads off for the run, the cache is not asked.\<close>

lemma restore_outputs_bypass:
  assumes "tc_caching_disabled tc \<or> rc_reads_disabled (tc_run_cache tc)"
  shows "\<exists>o'. restore_outputs ru tc w = ((Inr None, tc), w\<lparr>rw_out := o'\<rparr>)"
  using assms miss_status_eq [of ru tc "''cache bypass, force executing ''" w]
  by (auto simp: restore_outputs_def)

lemma save_outputs_bypass:
  "tc_caching_disabled tc \<or> rc_writes_disabled (tc_run_cache tc) \<Longrightarrow> save_outputs ru n tc w = ((Inr (), tc), w)"
  by (simp add: save_outputs_def)

lemma notify_daemon_eq: "\<exists>o'. notify_daemon ru tc incl excl t w = (Inr (), w\<lparr>rw_outer := o'\<rparr>)"
  by (auto simp: notify_daemon_def intro: exI [of _ "rw_outer w"])

lemma changed_output_count_eq:
  "\<exists>n o'. changed_output_count ru tc incl w = (Inr n, w\<lparr>rw_outer := o'\<rparr>) \<and>
     (\<not> rc_daemon (tc_run_cache tc) \<longrightarrow> n = length (inclusions (tc_repo_relative_globs tc)) \<and> o' = rw_outer w)"
  by (cases "ru_changed_outputs ru (tc_hash tc) incl (rw_outer w)")
    (auto simp: changed_output_count_def split: sum.split intro: exI [of _ "rw_outer w"])

text \<open>What a fetch leads to, for each answer of the cache.\<close>

lemma fetch_outputs_cases:
  obtains (failed) e o' where "ru_fetch ru (rc_repo_root (tc_run_cache tc)) (tc_hash tc) (rw_outer w) = (Inl e, o')"
      "fetch_outputs ru tc incl w = ((Inl (CacheErr e), tc), w\<lparr>rw_calls := rw_calls w @ [CallFetch (tc_hash tc)], rw_outer := o'\<rparr>)"
  | (miss) o' t where "ru_fetch ru (rc_repo_root (tc_run_cache tc)) (tc_hash tc) (rw_outer w) = (Inr None, o')"
      "fetch_outputs ru tc incl w =
         ((Inr None, tc), w\<lparr>rw_calls := rw_calls w @ [CallFetch (tc_hash tc)], rw_outer := o', rw_out := t\<rparr>)"
  | (hit) md fs o1 o' r where "ru_fetch ru (rc_repo_root (tc_run_cache tc)) (tc_hash tc) (rw_outer w) = (Inr (Some (md, fs)), o1)"
      "fetch_outputs ru tc incl w =
         ((r, tc\<lparr>tc_expanded_outputs := fs\<rparr>), w\<lparr>rw_calls := rw_calls w @ [CallFetch (tc_hash tc)], rw_outer := o'\<rparr>)"
      "r = Inr (Some md) \<or> rc_daemon (tc_run_cache tc) \<and> (\<exists>e. r = Inl e)"
      "\<not> rc_daemon (tc_run_cache tc) \<longrightarrow> o' = o1"
proof (cases "ru_fetch ru (rc_repo_root (tc_run_cache tc)) (tc_hash tc) (rw_outer w)")
  case (Pair r o')
  let ?w = "w\<lparr>rw_calls := rw_calls w @ [CallFetch (tc_hash tc)], rw_outer := o'\<rparr>"
  show ?thesis
  proof (cases r)
    case (Inl e)
    then show ?thesis
      using Pair by (intro failed) (simp_all add: fetch_outputs_def outer_do_def io_bind_def)
  next
    case (Inr found)
    show ?thesis
    proof (cases found)
      case None
      obtain t where "miss_status ru tc ''cache miss, executing '' ?w = (Inr (), ?w\<lparr>rw_out := t\<rparr>)"
        using miss_status_eq [of ru tc "''cache miss, executing ''" ?w] by blast
      then show ?thesis
        using Pair Inr None by (intro miss [of o' t]) (simp_all add: fetch_outputs_def outer_do_def io_bind_def)
    next
      case (Some hit_data)
      obtain md fs where hd: "hit_data = (md, fs)"
        by (cases hit_data)
      show ?thesis
      proof (cases "rc_daemon (tc_run_cache tc)")
        case False
        then show ?thesis
          using Pair Inr Some hd
          by (intro hit [of md fs o' "Inr (Some md)" o']) (simp_all add: fetch_outputs_def outer_do_def io_bind_def Let_def)
      next
        case True
        show ?thesis
        proof (cases "validated_exclusions ru (tc_repo_relative_globs tc)")
          case (Inl e)
          then show ?thesis
            using Pair \<open>r = Inr found\<close> Some hd True
            by (intro hit [of md fs o' "Inl (GlobErr e)" o']) (simp_all add: fetch_outputs_def outer_do_def io_bind_def Let_def)
        next
          case (Inr excl)
          obtain o2 where "notify_daemon ru tc incl excl (ch_time_saved md) ?w = (Inr (), ?w\<lparr>rw_outer := o2\<rparr>)"
            using notify_daemon_eq [of ru tc incl excl "ch_time_saved md" ?w] by blast
          then show ?thesis
            using Pair \<open>r = Inr found\<close> Some hd True Inr
            by (intro hit [of md fs o' "Inr (Some md)" o2])
              (simp_all add: fetch_outputs_def outer_do_def io_bind_def Let_def)
        qed
      qed
    qed
  qed
qed

text \<open>
  Restoring asks the cache for nothing but the key of the task, once at most. A hit is either what the
  cache returned for the key, with the files it restored, or what the daemon says is on disk already.
\<close>

lemma restore_outputs_spec:
  obtains (bypass) t where "tc_caching_disabled tc \<or> rc_reads_disabled (tc_run_cache tc)"
      "restore_outputs ru tc w = ((Inr None, tc), w\<lparr>rw_out := t\<rparr>)"
  | (bad_glob) e where "\<not> (tc_caching_disabled tc \<or> rc_reads_disabled (tc_run_cache tc))"
      "validated_inclusions ru (tc_repo_relative_globs tc) = Inl e"
      "restore_outputs ru tc w = ((Inl (GlobErr e), tc), w)"
  | (on_disk) incl r o' t where "\<not> (tc_caching_disabled tc \<or> rc_reads_disabled (tc_run_cache tc))"
      "validated_inclusions ru (tc_repo_relative_globs tc) = Inr incl"
      "rc_daemon (tc_run_cache tc) \<or> inclusions (tc_repo_relative_globs tc) = []"
      "restore_outputs ru tc w = ((r, tc), w\<lparr>rw_outer := o', rw_out := t\<rparr>)"
      "r = Inr (Some \<lparr>ch_source = Local, ch_time_saved = 0\<rparr>) \<or> (\<exists>e. r = Inl e)"
  | (fetched) incl o0 r tc' o' t where "\<not> (tc_caching_disabled tc \<or> rc_reads_disabled (tc_run_cache tc))"
      "validated_inclusions ru (tc_repo_relative_globs tc) = Inr incl"
      "restore_outputs ru tc w =
         ((r, tc'), w\<lparr>rw_calls := rw_calls w @ [CallFetch (tc_hash tc)], rw_outer := o', rw_out := t\<rparr>)"
      "\<not> rc_daemon (tc_run_cache tc) \<longrightarrow> o0 = rw_outer w"
      "(\<exists>e. r = Inl e) \<or>
       r = Inr None \<and> tc' = tc \<and> fst (ru_fetch ru (rc_repo_root (tc_run_cache tc)) (tc_hash tc) o0) = Inr None \<or>
       (\<exists>md fs. r = Inr (Some md) \<and> tc' = tc\<lparr>tc_expanded_outputs := fs\<rparr> \<and>
          fst (ru_fetch ru (rc_repo_root (tc_run_cache tc)) (tc_hash tc) o0) = Inr (Some (md, fs)))"
proof (cases "tc_caching_disabled tc \<or> rc_reads_disabled (tc_run_cache tc)")
  case True
  then show ?thesis
    using restore_outputs_bypass [OF True, of ru w] by (elim exE) (rule bypass)
next
  case enabled: False
  show ?thesis
  proof (cases "validated_inclusions ru (tc_repo_relative_globs tc)")
    case (Inl e)
    then show ?thesis
      using enabled by (intro bad_glob) (simp_all add: restore_outputs_def io_bind_def)
  next
    case (Inr incl)
    obtain n o0 where count: "changed_output_count ru tc incl w = (Inr n, w\<lparr>rw_outer := o0\<rparr>)"
      "\<not> rc_daemon (tc_run_cache tc) \<longrightarrow> n = length (inclusions (tc_repo_relative_globs tc)) \<and> o0 = rw_outer w"
      using changed_output_count_eq [of ru tc incl w] by blast
    let ?w = "w\<lparr>rw_outer := o0\<rparr>"
    show ?thesis
    proof (cases "n > 0")
      case False
      obtain r t where "hit_status ru tc False ?w = (r, ?w\<lparr>rw_out := t\<rparr>)"
        using hit_status_eq [of ru tc False ?w] by blast
      then show ?thesis
        using enabled Inr count False
        by (intro on_disk [of incl "case r of Inl e \<Rightarrow> Inl e | Inr _ \<Rightarrow> Inr (Some \<lparr>ch_source = Local, ch_time_saved = 0\<rparr>)" t o0])
          (auto simp: restore_outputs_def io_bind_def split: sum.splits)
    next
      case True
      show ?thesis
      proof (cases rule: fetch_outputs_cases [of ru tc ?w incl])
        case (failed e o')
        then show ?thesis
          using enabled Inr count True
          by (intro fetched [of incl "Inl (CacheErr e)" tc "rw_out w" o' o0]) (simp_all add: restore_outputs_def io_bind_def)
      next
        case (miss o' t)
        then show ?thesis
          using enabled Inr count True
          by (intro fetched [of incl "Inr None" tc t o' o0]) (simp_all add: restore_outputs_def io_bind_def)
      next
        case (hit md fs o1 o' r)
        let ?w' = "?w\<lparr>rw_calls := rw_calls ?w @ [CallFetch (tc_hash tc)], rw_outer := o'\<rparr>"
        obtain r' t where "hit_status ru (tc\<lparr>tc_expanded_outputs := fs\<rparr>) True ?w' = (r', ?w'\<lparr>rw_out := t\<rparr>)"
          using hit_status_eq [of ru "tc\<lparr>tc_expanded_outputs := fs\<rparr>" True ?w'] by blast
        then show ?thesis
          using enabled Inr count True hit
          by (intro fetched [of incl "case r of Inl e \<Rightarrow> Inl e | Inr _ \<Rightarrow> (case r' of Inl e \<Rightarrow> Inl e | Inr _ \<Rightarrow> Inr (Some md))"
                "tc\<lparr>tc_expanded_outputs := fs\<rparr>" "if \<exists>e. r = Inl e then rw_out w else t" o' o0])
            (auto simp: restore_outputs_def io_bind_def split: sum.splits)
      qed
    qed
  qed
qed

text \<open>Saving puts the files the globs match, relative to the root and in order, under the key of the task.\<close>

lemma save_outputs_spec:
  obtains (bypass) "tc_caching_disabled tc \<or> rc_writes_disabled (tc_run_cache tc)" "save_outputs ru n tc w = ((Inr (), tc), w)"
  | (no_files) e where "\<not> (tc_caching_disabled tc \<or> rc_writes_disabled (tc_run_cache tc))"
      "save_outputs ru n tc w = ((Inl e, tc), w)"
  | (put) incl excl files paths r tc' o' ws where "\<not> (tc_caching_disabled tc \<or> rc_writes_disabled (tc_run_cache tc))"
      "validated_inclusions ru (tc_repo_relative_globs tc) = Inr incl"
      "validated_exclusions ru (tc_repo_relative_globs tc) = Inr excl"
      "ru_globwalk ru (rc_repo_root (tc_run_cache tc)) incl excl (rw_outer w) = Inr files"
      "paths = sort_paths (map (relative_path_between (ru_clean ru) (rc_repo_root (tc_run_cache tc))) files)"
      "save_outputs ru n tc w =
         ((r, tc'), w\<lparr>rw_calls := rw_calls w @ [CallPut (tc_hash tc) paths (word_of_nat n)], rw_outer := o', rw_cache_warnings := ws\<rparr>)"
      "r = Inr () \<and> tc' = tc\<lparr>tc_expanded_outputs := paths\<rparr> \<and>
         fst (ru_put ru (rc_repo_root (tc_run_cache tc)) (tc_hash tc) paths (word_of_nat n) (rw_outer w)) = Inr () \<or>
       (\<exists>e. r = Inl (CacheErr e) \<and> tc' = tc \<and>
         fst (ru_put ru (rc_repo_root (tc_run_cache tc)) (tc_hash tc) paths (word_of_nat n) (rw_outer w)) = Inl e)"
proof (cases "tc_caching_disabled tc \<or> rc_writes_disabled (tc_run_cache tc)")
  case True
  then show ?thesis
    by (intro bypass) (simp_all add: save_outputs_bypass)
next
  case enabled: False
  show ?thesis
  proof (cases "validated_inclusions ru (tc_repo_relative_globs tc)"; cases "validated_exclusions ru (tc_repo_relative_globs tc)")
    fix incl excl
    assume globs: "validated_inclusions ru (tc_repo_relative_globs tc) = Inr incl"
      "validated_exclusions ru (tc_repo_relative_globs tc) = Inr excl"
    show ?thesis
    proof (cases "ru_globwalk ru (rc_repo_root (tc_run_cache tc)) incl excl (rw_outer w)")
      case (Inl e)
      then show ?thesis
        using enabled globs by (intro no_files [of "GlobwalkErr e"]) (simp_all add: save_outputs_def io_bind_def)
    next
      case (Inr files)
      let ?paths = "sort_paths (map (relative_path_between (ru_clean ru) (rc_repo_root (tc_run_cache tc))) files)"
      let ?ws = "rw_cache_warnings w @
        (if only_log_cached tc files then [no_outputs_warning (tc_task_id tc)] else [])"
      obtain r o' where p: "ru_put ru (rc_repo_root (tc_run_cache tc)) (tc_hash tc) ?paths (word_of_nat n) (rw_outer w) = (r, o')"
        by (cases "ru_put ru (rc_repo_root (tc_run_cache tc)) (tc_hash tc) ?paths (word_of_nat n) (rw_outer w)")
      let ?w = "w\<lparr>rw_cache_warnings := ?ws, rw_calls := rw_calls w @ [CallPut (tc_hash tc) ?paths (word_of_nat n)], rw_outer := o'\<rparr>"
      obtain o2 where "notify_daemon ru tc incl excl (word_of_nat n) ?w = (Inr (), ?w\<lparr>rw_outer := o2\<rparr>)"
        using notify_daemon_eq [of ru tc incl excl "word_of_nat n" ?w] by blast
      then show ?thesis
        using enabled globs Inr p
        by (cases "only_log_cached tc files"; cases r; intro put [of incl excl files ?paths "case r of Inl e \<Rightarrow> Inl (CacheErr e) | Inr u \<Rightarrow> Inr u"
              "case r of Inl _ \<Rightarrow> tc | Inr _ \<Rightarrow> tc\<lparr>tc_expanded_outputs := ?paths\<rparr>" ?ws "case r of Inl _ \<Rightarrow> o' | Inr _ \<Rightarrow> o2"])
          (simp_all add: save_outputs_def io_bind_def outer_do_def Let_def)
    qed
  qed (use enabled no_files in \<open>auto simp: save_outputs_def io_bind_def\<close>)
qed

lemma sort_paths_set [simp]: "set (sort_paths ps) = set ps"
  by (simp add: sort_paths_def)

end
