(* ===== verification/Task_Command.thy ===== *)
theory Task_Command
  imports Run_Cache Loader
begin

text \<open>
  From a task to the process to start: the providers of \<open>task_graph/visitor/command.rs\<close>, the command
  builder of \<open>process/command.rs\<close>, the arguments passed on (\<open>TaskArgs\<close> of \<open>opts.rs\<close>), the parts of
  \<open>PackageManager\<close> they use, and the variables that \<open>populate_env\<close> of \<open>visitor/exec.rs\<close> adds. Looking
  up a program on the path is a parameter.
\<close>

subsection \<open>Commands\<close>

record command =
  cm_program :: string
  cm_args :: "string list"
  cm_cwd :: "string option"
  cm_env :: "(string, string) btree_map"
  cm_open_stdin :: bool
  cm_env_clear :: bool

definition command_new :: "string \<Rightarrow> command" where
  "command_new program =
     \<lparr>cm_program = program, cm_args = [], cm_cwd = None, cm_env = [], cm_open_stdin = False, cm_env_clear = False\<rparr>"

definition cmd_args :: "string list \<Rightarrow> command \<Rightarrow> command" where
  "cmd_args args c = c\<lparr>cm_args := args\<rparr>"

definition cmd_current_dir :: "string \<Rightarrow> command \<Rightarrow> command" where
  "cmd_current_dir dir c = c\<lparr>cm_cwd := Some dir\<rparr>"

definition cmd_env :: "string \<Rightarrow> string \<Rightarrow> command \<Rightarrow> command" where
  "cmd_env key val c = c\<lparr>cm_env := bt_insert key val (cm_env c)\<rparr>"

definition cmd_envs :: "(string \<times> string) list \<Rightarrow> command \<Rightarrow> command" where
  "cmd_envs vars c = foldl (\<lambda>c (key, val). cmd_env key val c) c vars"

definition cmd_open_stdin :: "command \<Rightarrow> command" where
  "cmd_open_stdin c = c\<lparr>cm_open_stdin := True\<rparr>"

definition cmd_env_clear :: "command \<Rightarrow> command" where
  "cmd_env_clear c = c\<lparr>cm_env_clear := True, cm_env := []\<rparr>"

definition command_label :: "command \<Rightarrow> string" where
  "command_label c =
     ''('' @ (case cm_cwd c of Some dir \<Rightarrow> dir | None \<Rightarrow> []) @ '') '' @ cm_program c @ '' '' @ join_with '' '' (cm_args c)"

text \<open>The environment a process starts with: the one of \<open>nrz\<close> itself unless it is cleared.\<close>

definition process_env :: "env_map \<Rightarrow> command \<Rightarrow> string \<Rightarrow> string option" where
  "process_env own c key =
     (case map_of (cm_env c) key of
        Some v \<Rightarrow> Some v
      | None \<Rightarrow> if cm_env_clear c then None else hm_get own key)"

subsection \<open>Package managers and arguments\<close>

definition pm_command :: "package_manager \<Rightarrow> string" where
  "pm_command pm =
     (case pm of
        Npm \<Rightarrow> ''npm'' | Pnpm \<Rightarrow> ''pnpm'' | Pnpm6 \<Rightarrow> ''pnpm'' | Pnpm9 \<Rightarrow> ''pnpm''
      | Yarn \<Rightarrow> ''yarn'' | Berry \<Rightarrow> ''yarn'' | Bun \<Rightarrow> ''bun'')"

definition arg_separator :: "package_manager \<Rightarrow> string list \<Rightarrow> string option" where
  "arg_separator pm user_args =
     (case pm of
        Yarn \<Rightarrow> if ''--'' \<in> set user_args then Some ''--'' else None
      | Bun \<Rightarrow> if ''--'' \<in> set user_args then Some ''--'' else None
      | Npm \<Rightarrow> Some ''--'' | Pnpm6 \<Rightarrow> Some ''--''
      | Pnpm \<Rightarrow> None | Pnpm9 \<Rightarrow> None | Berry \<Rightarrow> None)"

record task_args =
  ta_pass_through_args :: "string list"
  ta_tasks :: "string list"

definition args_for_task :: "task_args \<Rightarrow> task_id \<Rightarrow> string list option" where
  "args_for_task ta t =
     (if ta_pass_through_args ta \<noteq> [] \<and> tid_task t \<in> set (ta_tasks ta) then Some (ta_pass_through_args ta) else None)"

subsection \<open>Providers\<close>

datatype visitor_error =
    VisitMissingPackage package_name task_id
  | RecursiveNrz string string
  | MissingDefinition
  | VisitEngine string
  | VisitTaskHash hash_error
  | VisitRunSummary string
  | InternalErrors string
  | VisitWhich string
  | MissingMFEDependency string string

text \<open>A provider finds a command, has none, or fails; \<open>None\<close> is a panic.\<close>

type_synonym provider = "task_id \<Rightarrow> env_map \<Rightarrow> (visitor_error, command option) result option"

fun factory_command :: "provider list \<Rightarrow> provider" where
  "factory_command [] t env = Some (Inr None)"
| "factory_command (p # ps) t env =
     (case p t env of
        None \<Rightarrow> None
      | Some (Inl e) \<Rightarrow> Some (Inl e)
      | Some (Inr (Some cmd)) \<Rightarrow> Some (Inr (Some cmd))
      | Some (Inr None) \<Rightarrow> factory_command ps t env)"

definition command_package_info :: "package_graph \<Rightarrow> task_id \<Rightarrow> (visitor_error, package_info) result" where
  "command_package_info pg t =
     (case package_info_of pg (package_name_from (tid_package t)) of
        Some info \<Rightarrow> Inr info
      | None \<Rightarrow> Inl (VisitMissingPackage (package_name_from (tid_package t)) t))"

record command_ctx =
  cx_repo_root :: string
  cx_package_graph :: package_graph
  cx_package_manager :: package_manager
  cx_which :: "string \<Rightarrow> (string, string) result"
  cx_task_args :: task_args
  cx_mfe :: "mfe_configs option"
  cx_tasks_in_graph :: "task_id list"

definition script_of :: "package_info \<Rightarrow> task_id \<Rightarrow> string" where
  "script_of info t =
     (case map_of (pj_scripts (pi_package_json info)) (tid_task t) of Some s \<Rightarrow> sp_value s | None \<Rightarrow> [])"

definition pass_through_arguments :: "command_ctx \<Rightarrow> task_id \<Rightarrow> string list" where
  "pass_through_arguments cx t =
     (case args_for_task (cx_task_args cx) t of
        None \<Rightarrow> []
      | Some args \<Rightarrow> (case arg_separator (cx_package_manager cx) args of Some s \<Rightarrow> [s] | None \<Rightarrow> []) @ args)"

definition mfe_env :: "command_ctx \<Rightarrow> task_id \<Rightarrow> command \<Rightarrow> command" where
  "mfe_env cx t c =
     (case cx_mfe cx of
        None \<Rightarrow> c
      | Some mfe \<Rightarrow>
          (let c1 = (if task_has_mfe_proxy mfe t then cmd_env ''NRZ_TASK_HAS_MFE_PROXY'' ''true'' c else c)
           in case dev_task_port mfe t of Some port \<Rightarrow> cmd_env ''NRZ_PORT'' (nat_to_string port) c1 | None \<Rightarrow> c1))"

definition package_graph_command :: "command_ctx \<Rightarrow> provider" where
  "package_graph_command cx t env =
     Some (try_bind (command_package_info (cx_package_graph cx) t) (\<lambda>info.
       if script_of info t = [] then Inr None
       else
         (case cx_which cx (pm_command (cx_package_manager cx)) of
            Inl e \<Rightarrow> Inl (VisitWhich e)
          | Inr binary \<Rightarrow>
              Inr (Some (cmd_open_stdin (mfe_env cx t (cmd_envs env (cmd_env_clear
                (cmd_current_dir (resolve_path (cx_repo_root cx) (package_path info))
                  (cmd_args ([''run'', tid_task t] @ pass_through_arguments cx t) (command_new binary)))))))))))"

definition mfe_get :: "mfe_configs \<Rightarrow> string \<Rightarrow> task_id list option" where
  "mfe_get mfe name = map_option ci_tasks (map_of (mfe_map mfe) name)"

definition mfe_config_filename :: "mfe_configs \<Rightarrow> string \<Rightarrow> string option" where
  "mfe_config_filename mfe name = Option.bind (map_of (mfe_map mfe) name) ci_path"

definition dev_tasks :: "mfe_configs \<Rightarrow> task_id \<Rightarrow> task_id list option" where
  "dev_tasks mfe t = (if tid_task t = ''proxy'' then mfe_get mfe (tid_package t) else None)"

definition local_apps :: "command_ctx \<Rightarrow> task_id list \<Rightarrow> string list" where
  "local_apps cx devs = map tid_package (filter (\<lambda>d. d \<in> set (cx_tasks_in_graph cx)) devs)"

definition custom_proxy_command :: "command_ctx \<Rightarrow> string \<Rightarrow> string list \<Rightarrow> (visitor_error, command option) result" where
  "custom_proxy_command cx pkg_dir proxy_args =
     (case cx_which cx (pm_command (cx_package_manager cx)) of
        Inl e \<Rightarrow> Inl (VisitWhich e)
      | Inr program \<Rightarrow>
          (let sep = (case arg_separator (cx_package_manager cx) proxy_args of Some s \<Rightarrow> [s] | None \<Rightarrow> [])
           in Inr (Some (cmd_open_stdin (cmd_args ([''run'', ''proxy''] @ sep @ proxy_args)
                (cmd_current_dir pkg_dir (command_new program)))))))"

definition local_proxy_command :: "string \<Rightarrow> string list \<Rightarrow> command" where
  "local_proxy_command pkg_dir proxy_args =
     (let program = foldl path_join pkg_dir [''node_modules'', ''.bin'', ''microfrontends'']
      in cmd_open_stdin (cmd_args (''proxy'' # proxy_args) (cmd_current_dir pkg_dir (command_new program))))"

definition mfe_proxy_command :: "command_ctx \<Rightarrow> mfe_configs \<Rightarrow> provider" where
  "mfe_proxy_command cx mfe t env =
     (case dev_tasks mfe t of
        None \<Rightarrow> Some (Inr None)
      | Some devs \<Rightarrow>
          (case command_package_info (cx_package_graph cx) t of
             Inl e \<Rightarrow> Some (Inl e)
           | Inr info \<Rightarrow>
               (let has_custom_proxy = (map_of (pj_scripts (pi_package_json info)) ''proxy'' \<noteq> None);
                    has_mfe_dependency = list_ex (\<lambda>d. fst d = MICROFRONTENDS_PACKAGE) (pj_all_dependencies (pi_package_json info));
                    filename = mfe_config_filename mfe (tid_package t);
                    pkg_dir = resolve_path (cx_repo_root cx) (package_path info)
                in if \<not> has_mfe_dependency \<and> \<not> has_custom_proxy then
                     Some (Inl (MissingMFEDependency (tid_package t) (case filename of Some p \<Rightarrow> p | None \<Rightarrow> [])))
                   else
                     (case filename of
                        None \<Rightarrow> None
                      | Some name \<Rightarrow>
                          (let proxy_args = [path_join (cx_repo_root cx) name, ''--names''] @ local_apps cx devs
                           in Some (if has_custom_proxy then custom_proxy_command cx pkg_dir proxy_args
                                    else Inr (Some (local_proxy_command pkg_dir proxy_args))))))))"

definition command_providers :: "command_ctx \<Rightarrow> provider list" where
  "command_providers cx =
     (case cx_mfe cx of None \<Rightarrow> [] | Some mfe \<Rightarrow> [mfe_proxy_command cx mfe]) @ [package_graph_command cx]"

text \<open>The variables that are added to the environment of a task; the trace file is there when access is traced.\<close>

definition populate_env :: "ui_mode \<Rightarrow> (string \<times> string) option \<Rightarrow> string \<Rightarrow> env_map \<Rightarrow> env_map" where
  "populate_env mode trace task_hash env =
     (let env1 = hm_insert ''NRZ_HASH'' task_hash env;
          env2 = (if mode = Tui then hm_insert ''NRZ_IS_TUI'' ''true'' env1 else env1)
      in case trace of Some (key, path) \<Rightarrow> hm_insert key path env2 | None \<Rightarrow> env2)"

subsection \<open>The environment of a process\<close>

lemma cm_env_cmd_envs:
  "bt_ok (cm_env c) \<Longrightarrow> bt_ok (cm_env (cmd_envs vars c)) \<and>
     map_of (cm_env (cmd_envs vars c)) = map_of (cm_env c) ++ map_of (rev vars) \<and>
     cm_env_clear (cmd_envs vars c) = cm_env_clear c"
proof (induction vars arbitrary: c)
  case (Cons v vars)
  obtain k x where v: "v = (k, x)"
    by (cases v)
  show ?case
    using Cons.IH [of "cmd_env k x c"] Cons.prems
    by (simp add: cmd_envs_def cmd_env_def v bt_ok_insert map_add_upd_left map_add_def fun_eq_iff split: option.split)
qed (simp add: cmd_envs_def)

lemma hm_rev_distinct: "distinct (map fst m) \<Longrightarrow> map_of (rev m) = map_of m"
  by (simp add: map_of_inject_set rev_map [symmetric])

lemma mfe_env_other:
  assumes "bt_ok (cm_env c)" and "key \<noteq> ''NRZ_TASK_HAS_MFE_PROXY''" and "key \<noteq> ''NRZ_PORT''"
  shows "map_of (cm_env (mfe_env cx t c)) key = map_of (cm_env c) key"
    and "cm_env_clear (mfe_env cx t c) = cm_env_clear c"
  using assms by (auto simp: mfe_env_def cmd_env_def Let_def bt_ok_insert split: option.split)

lemma package_graph_command_env:
  assumes "package_graph_command cx t env = Some (Inr (Some c))" and "distinct (map fst env)"
    and "key \<noteq> ''NRZ_TASK_HAS_MFE_PROXY''" and "key \<noteq> ''NRZ_PORT''"
  shows "process_env own c key = hm_get env key"
proof -
  obtain c0 where c: "c = cmd_open_stdin (mfe_env cx t (cmd_envs env (cmd_env_clear c0)))"
    using assms(1) by (auto simp: package_graph_command_def try_bind_Inr split: if_splits sum.splits)
  have "bt_ok (cm_env (cmd_env_clear c0))"
    by (simp add: cmd_env_clear_def bt_ok_def)
  note env = cm_env_cmd_envs [OF this, of env]
  show ?thesis
    using env mfe_env_other [of "cmd_envs env (cmd_env_clear c0)" key cx t] assms(2-4)
    by (simp add: c process_env_def cmd_open_stdin_def cmd_env_clear_def hm_rev_distinct split: option.split)
qed

abbreviation own_variables :: "string list" where
  "own_variables \<equiv> [''NRZ_HASH'', ''NRZ_IS_TUI'', ''NRZREPO_TRACE_FILE'', ''NRZ_TASK_HAS_MFE_PROXY'', ''NRZ_PORT'']"

text \<open>The process of a task that runs a script sees the environment chosen for the task and what \<open>nrz\<close> sets.\<close>

lemma task_command_env:
  assumes "package_graph_command cx t (populate_env mode trace hash env) = Some (Inr (Some c))"
    and "distinct (map fst env)"
    and "trace = None \<or> (\<exists>path. trace = Some (''NRZREPO_TRACE_FILE'', path))"
  shows "process_env own c ''NRZ_HASH'' = Some hash \<and>
    (\<forall>key. key \<notin> set own_variables \<longrightarrow> process_env own c key = hm_get env key)"
proof -
  have "distinct (map fst (populate_env mode trace hash env))"
    using assms(2) by (auto simp: populate_env_def Let_def distinct_update split: option.split)
  note env = package_graph_command_env [OF assms(1) this]
  show ?thesis
    using assms(3) by (auto simp: env populate_env_def Let_def split: option.split)
qed

text \<open>A proxy started on its own inherits the environment of \<open>nrz\<close>.\<close>

lemma proxy_inherits_env:
  assumes "mfe_proxy_command cx mfe t env = Some (Inr (Some c))"
  shows "process_env own c key = hm_get own key"
  using assms
  by (auto simp: mfe_proxy_command_def custom_proxy_command_def local_proxy_command_def Let_def process_env_def
      cmd_open_stdin_def cmd_args_def cmd_current_dir_def command_new_def split: option.splits sum.splits if_splits)

text \<open>Providers are asked in order, and the first command or error is the answer.\<close>

lemma factory_command_first:
  "factory_command (ps @ [p]) t env =
     (case factory_command ps t env of Some (Inr None) \<Rightarrow> p t env | r \<Rightarrow> r)"
  by (induction ps) (auto split: option.splits sum.splits)

definition sample_info :: package_info where
  "sample_info = \<lparr>pi_package_json = package_json_default\<lparr>pj_scripts := [(''build'', \<lparr>sp_value = ''tsc'', sp_range = None, sp_path = None, sp_text = None\<rparr>)]\<rparr>,
     pi_package_json_path = ''packages/a/package.json'', pi_unresolved_external_dependencies = None, pi_transitive_dependencies = None\<rparr>"

definition sample_ctx :: command_ctx where
  "sample_ctx = \<lparr>cx_repo_root = ''/repo'',
     cx_package_graph = \<lparr>pg_graph = \<lparr>g_nodes = [], g_edges = []\<rparr>, pg_node_lookup = [], pg_packages = [(OtherPkg ''a'', sample_info)]\<rparr>,
     cx_package_manager = Npm, cx_which = (\<lambda>p. Inr (''/bin/'' @ p)),
     cx_task_args = \<lparr>ta_pass_through_args = [''-v''], ta_tasks = [''build'']\<rparr>, cx_mfe = None, cx_tasks_in_graph = []\<rparr>"

definition sample_command :: command where
  "sample_command = \<lparr>cm_program = ''/bin/npm'', cm_args = [''run'', ''build'', ''--'', ''-v''], cm_cwd = Some ''/repo/packages/a'',
     cm_env = [(''NRZ_HASH'', ''abc''), (''NRZ_IS_TUI'', ''true''), (''PATH'', ''/bin'')], cm_open_stdin = True, cm_env_clear = True\<rparr>"

lemma sample_command_eq:
  "package_graph_command sample_ctx (TaskId ''a'' ''build'') (populate_env Tui None ''abc'' [(''PATH'', ''/bin'')]) =
     Some (Inr (Some sample_command))"
  by code_simp

end
