(* ===== verification/Task_Run.thy ===== *)
theory Task_Run
  imports Task_Command Engine "HOL-Library.Multiset"
begin

text \<open>
  One task, from the cache to the summary: \<open>ExecContext\<close> and \<open>DryRunExecContext\<close> of
  \<open>task_graph/visitor/exec.rs\<close>, their errors (\<open>error.rs\<close>), the trackers and counts of
  \<open>run/summary/execution.rs\<close>, whether a traced task can be cached (\<open>run/task_access.rs\<close>) and what the
  visitor does with a task it is sent (\<open>visitor/mod.rs\<close>). Processes, the clock and the output client
  are part of the environment. \<open>None\<close> is a panic.
\<close>

subsection \<open>Trackers and counts\<close>

datatype tracker_event = Building | BuildFailed | EvCached | Built | Canceled

record task_execution_summary =
  es_start_time :: int
  es_end_time :: int
  es_error :: "string option"
  es_exit_code :: "int option"

definition es_is_failure :: "task_execution_summary \<Rightarrow> bool" where
  "es_is_failure s \<longleftrightarrow> es_exit_code s \<noteq> Some 0"

record task_state =
  ts_task_id :: task_id
  ts_execution :: "task_execution_summary option"

record tracker_message =
  tm_event :: tracker_event
  tm_state :: "task_state option"

record summary_state =
  ss_attempted :: nat
  ss_failed :: nat
  ss_cached :: nat
  ss_success :: nat
  ss_tasks :: "task_state list"

definition summary_default :: summary_state where
  "summary_default = \<lparr>ss_attempted = 0, ss_failed = 0, ss_cached = 0, ss_success = 0, ss_tasks = []\<rparr>"

definition handle_event :: "summary_state \<Rightarrow> tracker_event \<Rightarrow> summary_state" where
  "handle_event s e =
     (case e of
        Building \<Rightarrow> s\<lparr>ss_attempted := ss_attempted s + 1\<rparr>
      | BuildFailed \<Rightarrow> s\<lparr>ss_failed := ss_failed s + 1\<rparr>
      | EvCached \<Rightarrow> s\<lparr>ss_cached := ss_cached s + 1\<rparr>
      | Built \<Rightarrow> s\<lparr>ss_success := ss_success s + 1\<rparr>
      | Canceled \<Rightarrow> s)"

definition receive_message :: "summary_state \<Rightarrow> tracker_message \<Rightarrow> summary_state" where
  "receive_message s m =
     (let s' = handle_event s (tm_event m)
      in case tm_state m of Some t \<Rightarrow> s'\<lparr>ss_tasks := ss_tasks s' @ [t]\<rparr> | None \<Rightarrow> s')"

text \<open>The state when every sender is gone and the channel is empty.\<close>

definition tracker_finish :: "tracker_message list \<Rightarrow> summary_state" where
  "tracker_finish ms = foldl receive_message summary_default ms"

record execution_summary =
  xs_success :: nat
  xs_failed :: nat
  xs_cached :: nat
  xs_attempted :: nat
  xs_exit_code :: int

definition execution_summary_new :: "summary_state \<Rightarrow> int \<Rightarrow> execution_summary" where
  "execution_summary_new s exit_code =
     \<lparr>xs_success = ss_success s, xs_failed = ss_failed s, xs_cached = ss_cached s, xs_attempted = ss_attempted s,
      xs_exit_code = exit_code\<rparr>"

definition xs_successful :: "execution_summary \<Rightarrow> nat" where
  "xs_successful x = xs_success x + xs_cached x"

subsection \<open>Errors and warnings of tasks\<close>

record task_warning =
  wn_task_id :: string
  wn_missing_platform_env :: "string list"

definition task_warning_new :: "string \<Rightarrow> string list \<Rightarrow> task_warning option" where
  "task_warning_new t missing =
     (if missing = [] then None else Some \<lparr>wn_task_id = t, wn_missing_platform_env = missing\<rparr>)"

datatype task_error_cause = SpawnCause string | ExitCause string int | InternalCause

record task_error =
  er_task_id :: string
  er_cause :: task_error_cause

definition task_error_exit_code :: "task_error \<Rightarrow> int option" where
  "task_error_exit_code e = (case er_cause e of ExitCause _ code \<Rightarrow> Some code | _ \<Rightarrow> None)"

definition int_to_string :: "int \<Rightarrow> string" where
  "int_to_string i = (if i < 0 then ''-'' @ nat_to_string (nat (- i)) else nat_to_string (nat i))"

definition cause_message :: "task_error_cause \<Rightarrow> string" where
  "cause_message c =
     (case c of
        SpawnCause msg \<Rightarrow> ''unable to spawn child process: '' @ msg
      | ExitCause cmd code \<Rightarrow> ''command '' @ cmd @ '' exited ('' @ int_to_string code @ '')''
      | InternalCause \<Rightarrow> ''nrz has internal error processing task'')"

datatype internal_error =
    InternalIo io_error
  | UnknownChildExit
  | InternalWhich string
  | ExternalKill
  | InternalLogs run_cache_error

subsection \<open>Traced access\<close>

record trace_file =
  tf_network :: bool
  tf_file_paths :: "string list"
  tf_env_var_keys :: "string list"
  tf_outputs :: "string list"

definition path_outside :: "string \<Rightarrow> string \<Rightarrow> bool" where
  "path_outside repo_root p =
     (case absolute_path_new p of
        Inr path \<Rightarrow> relation_to_path path repo_root \<in> {Parent, Divergent}
      | Inl _ \<Rightarrow> False)"

definition trace_can_cache :: "string \<Rightarrow> trace_file \<Rightarrow> bool" where
  "trace_can_cache repo_root tf \<longleftrightarrow> \<not> tf_network tf \<and> \<not> list_ex (path_outside repo_root) (tf_file_paths tf)"

subsection \<open>The world of a task\<close>

datatype child_exit = ExitFinished "int option" | ExitKilled | ExitKilledExternal | ExitFailed

datatype spawn_result = SpawnShutdown | SpawnFailed io_error | Spawned

record space_info =
  si_task_id :: task_id
  si_execution :: task_execution_summary
  si_logs :: string
  si_hash :: string
  si_cache_status :: "cache_hit_metadata option"
  si_dependencies :: "task_node set option"
  si_dependents :: "task_node set option"

record ('w, 'o) task_world =
  tw_run :: "('w, 'o) run_world"
  tw_messages :: "tracker_message list"
  tw_callbacks :: "(unit, unit) result list"
  tw_errors :: "task_error list"
  tw_warnings :: "task_warning list"
  tw_tracker :: "cache_hit_metadata tracker"
  tw_stopped :: bool
  tw_spawned :: "command list"
  tw_ui :: "ui_event list"
  tw_traces :: "(string, trace_file) hash_map"
  tw_spaces :: "space_info list"

record ('w, 'o) exec_env =
  ee_run :: "('w, 'o) run_env"
  ee_now :: "'w \<Rightarrow> int"
  ee_elapsed :: "'w \<Rightarrow> nat"
  ee_spawn :: "command \<Rightarrow> 'w \<Rightarrow> spawn_result \<times> 'w"
  ee_has_stdin :: "'w \<Rightarrow> bool"
  ee_open_log :: "string \<Rightarrow> 'w \<Rightarrow> (ui_error, unit) result \<times> 'w"
  ee_wait :: "bool \<Rightarrow> bool \<Rightarrow> 'w \<Rightarrow> (io_error, child_exit option) result \<times> 'w"
  ee_flush :: "'w \<Rightarrow> (io_error, unit) result \<times> 'w"
  ee_finish_output :: "bool \<Rightarrow> bool \<Rightarrow> 'w \<Rightarrow> (io_error, string option) result \<times> 'w"
  ee_read_trace :: "string \<Rightarrow> 'w \<Rightarrow> trace_file option"
  ee_io_message :: "io_error \<Rightarrow> string"
  ee_cache_message :: "run_cache_error \<Rightarrow> string"

record exec_context =
  ec_engine :: engine
  ec_ui_mode :: ui_mode
  ec_ui_output :: bool
  ec_task_id :: task_id
  ec_task_id_for_display :: string
  ec_task_cache :: task_cache
  ec_task_hash :: string
  ec_execution_env :: env_map
  ec_continue_on_error :: bool
  ec_takes_input :: bool
  ec_access_enabled :: bool
  ec_cmd :: command
  ec_platform_vars :: "string \<rightharpoonup> string"

datatype success_outcome = OutCacheHit | OutRun

datatype exec_outcome =
    OutSuccess success_outcome
  | OutTask "int option" string
  | OutShutdown

definition on_outer :: "('w \<Rightarrow> 'a \<times> 'w) \<Rightarrow> ('w, 'o) task_world \<Rightarrow> 'a \<times> ('w, 'o) task_world" where
  "on_outer f w =
     (case f (rw_outer (tw_run w)) of (a, o') \<Rightarrow> (a, w\<lparr>tw_run := (tw_run w)\<lparr>rw_outer := o'\<rparr>\<rparr>))"

definition on_run :: "(('w, 'o) run_world \<Rightarrow> 'a \<times> ('w, 'o) run_world) \<Rightarrow> ('w, 'o) task_world \<Rightarrow> 'a \<times> ('w, 'o) task_world" where
  "on_run f w = (case f (tw_run w) of (a, r) \<Rightarrow> (a, w\<lparr>tw_run := r\<rparr>))"

definition on_out :: "('o \<Rightarrow> 'o) \<Rightarrow> ('w, 'o) task_world \<Rightarrow> ('w, 'o) task_world" where
  "on_out f w = w\<lparr>tw_run := (tw_run w)\<lparr>rw_out := f (rw_out (tw_run w))\<rparr>\<rparr>"

subsection \<open>Executing a task\<close>

text \<open>Whether access tracing allows to cache the task; the trace is kept when it does.\<close>

definition access_can_cache :: "('w, 'o) exec_env \<Rightarrow> exec_context \<Rightarrow> ('w, 'o) task_world \<Rightarrow> bool option \<times> ('w, 'o) task_world" where
  "access_can_cache ee ec w =
     (if \<not> ec_access_enabled ec then (None, w)
      else case ee_read_trace ee (ec_task_hash ec) (rw_outer (tw_run w)) of
        None \<Rightarrow> (None, w)
      | Some tf \<Rightarrow>
          if trace_can_cache (rc_repo_root (tc_run_cache (ec_task_cache ec))) tf
          then (Some True, w\<lparr>tw_traces := hm_insert (ec_task_id_for_display ec) tf (tw_traces w)\<rparr>)
          else (Some False, w))"

definition task_start_events :: "exec_context \<Rightarrow> ('w, 'o) task_world \<Rightarrow> ('w, 'o) task_world" where
  "task_start_events ec w =
     (let w1 = (if ec_ui_mode ec \<in> {Tui, WebUI} \<and> ec_ui_output ec
                then w\<lparr>tw_ui := tw_ui w @ [StartTask (task_id_display (ec_task_id ec)) (tc_task_output_logs (ec_task_cache ec))]\<rparr>
                else w)
      in if tc_caching_disabled (ec_task_cache ec) then w1
         else
           (case task_warning_new (ec_task_id_for_display ec)
                   (platform_env_validate (ec_platform_vars ec) (platform_env_new (ec_platform_vars ec)) (ec_execution_env ec)) of
              Some warning \<Rightarrow> w1\<lparr>tw_warnings := tw_warnings w1 @ [warning]\<rparr>
            | None \<Rightarrow> w1))"

definition offer_stdin :: "('w, 'o) exec_env \<Rightarrow> exec_context \<Rightarrow> ('w, 'o) task_world \<Rightarrow> ('w, 'o) task_world" where
  "offer_stdin ee ec w =
     (if ec_ui_mode ec \<in> {Tui, WebUI} \<and> ec_takes_input ec \<and> ec_ui_output ec \<and> ee_has_stdin ee (rw_outer (tw_run w))
      then w\<lparr>tw_ui := tw_ui w @ [SetStdin (task_id_display (ec_task_id ec))]\<rparr> else w)"

text \<open>Whether the log file and the terminal get the output, as \<open>output_writer\<close> decides.\<close>

definition open_output :: "('w, 'o) exec_env \<Rightarrow> task_cache \<Rightarrow> ('w, 'o) task_world \<Rightarrow> (run_cache_error, bool \<times> bool) result \<times> ('w, 'o) task_world" where
  "open_output ee tc w =
     (let to_writer = (tc_task_output_logs tc \<in> {LogFull, LogNewOnly})
      in if \<not> tc_caching_disabled tc \<and> \<not> rc_writes_disabled (tc_run_cache tc) then
           (case on_outer (ee_open_log ee (tc_log_file_path tc)) w of
              (Inl e, w') \<Rightarrow> (Inl (UiErr e), w')
            | (Inr _, w') \<Rightarrow> (Inr (True, to_writer), w'))
         else (Inr (False, to_writer), w))"

text \<open>The process exited with code zero: its outputs are saved, unless its output could not be written.\<close>

definition process_succeeded ::
  "('w, 'o) exec_env \<Rightarrow> exec_context \<Rightarrow> ('w, 'o) task_world \<Rightarrow> (internal_error, exec_outcome) result \<times> ('w, 'o) task_world" where
  "process_succeeded ee ec w =
     (case on_outer (ee_flush ee) w of
        (Inl _, w1) \<Rightarrow> (Inr (OutSuccess OutRun), w1)
      | (Inr _, w1) \<Rightarrow>
          (case access_can_cache ee ec w1 of
             (can, w2) \<Rightarrow>
               if can = Some False then (Inr (OutSuccess OutRun), w2)
               else
                 (case on_run (save_outputs (ee_run ee) (ee_elapsed ee (rw_outer (tw_run w))) (ec_task_cache ec)) w2 of
                    ((Inl e, _), w3) \<Rightarrow> (Inl (InternalLogs e), w3)
                  | ((Inr _, tc), w3) \<Rightarrow>
                      (Inr (OutSuccess OutRun),
                       w3\<lparr>tw_tracker := insert_expanded_outputs (tw_tracker w3) (ec_task_id ec) (tc_expanded_outputs tc)\<rparr>))))"

definition process_failed ::
  "('w, 'o) exec_env \<Rightarrow> exec_context \<Rightarrow> int \<Rightarrow> ('w, 'o) task_world \<Rightarrow> (internal_error, exec_outcome) result \<times> ('w, 'o) task_world" where
  "process_failed ee ec code w =
     (let w1 = snd (on_outer (ee_flush ee) w);
          w2 = snd (on_run (tc_on_error (ee_run ee) (ec_task_cache ec)) w1);
          cause = ExitCause (command_label (ec_cmd ec)) code;
          w3 = (if ec_continue_on_error ec
                then on_out (ru_warn (ee_run ee) ''command finished with error, but continuing...'') w2
                else on_out (ru_error (ee_run ee) (''command finished with error: '' @ cause_message cause)) w2)
      in (Inr (OutTask (Some code) (cause_message cause)),
          w3\<lparr>tw_errors := tw_errors w3 @ [\<lparr>er_task_id = ec_task_id_for_display ec, er_cause = cause\<rparr>]\<rparr>))"

definition run_process ::
  "('w, 'o) exec_env \<Rightarrow> exec_context \<Rightarrow> ('w, 'o) task_world \<Rightarrow> (internal_error, exec_outcome) result \<times> ('w, 'o) task_world" where
  "run_process ee ec w =
     (case open_output ee (ec_task_cache ec) (offer_stdin ee ec w) of
        (Inl e, w1) \<Rightarrow> (Inl (InternalLogs e), w1)
      | (Inr (to_log, to_writer), w1) \<Rightarrow>
          (case on_outer (ee_wait ee to_log to_writer) w1 of
             (Inl e, w2) \<Rightarrow> (Inl (InternalIo e), w2)
           | (Inr None, w2) \<Rightarrow> (Inl UnknownChildExit, w2)
           | (Inr (Some (ExitFinished (Some code))), w2) \<Rightarrow>
               if code = 0 then process_succeeded ee ec w2 else process_failed ee ec code w2
           | (Inr (Some (ExitFinished None)), w2) \<Rightarrow> (Inl UnknownChildExit, w2)
           | (Inr (Some ExitFailed), w2) \<Rightarrow> (Inl UnknownChildExit, w2)
           | (Inr (Some ExitKilledExternal), w2) \<Rightarrow> (Inl ExternalKill, w2)
           | (Inr (Some ExitKilled), w2) \<Rightarrow> (Inr OutShutdown, w2)))"

definition spawn_task ::
  "('w, 'o) exec_env \<Rightarrow> exec_context \<Rightarrow> ('w, 'o) task_world \<Rightarrow> (internal_error, exec_outcome) result \<times> ('w, 'o) task_world" where
  "spawn_task ee ec w =
     (case on_outer (ee_spawn ee (ec_cmd ec)) w of
        (Spawned, w1) \<Rightarrow> run_process ee ec (w1\<lparr>tw_spawned := tw_spawned w1 @ [ec_cmd ec]\<rparr>)
      | (SpawnFailed e, w1) \<Rightarrow>
          (let w2 = on_out (ru_error (ee_run ee) (''command finished with error: '' @ ee_io_message ee e)) w1
           in (Inr (OutTask None (ee_io_message ee e)),
               w2\<lparr>tw_errors := tw_errors w2 @
                 [\<lparr>er_task_id = ec_task_id_for_display ec, er_cause = SpawnCause (ee_io_message ee e)\<rparr>]\<rparr>))
      | (SpawnShutdown, w1) \<Rightarrow> (Inr OutShutdown, w1))"

definition execute_inner ::
  "('w, 'o) exec_env \<Rightarrow> exec_context \<Rightarrow> ('w, 'o) task_world \<Rightarrow> (internal_error, exec_outcome) result \<times> ('w, 'o) task_world" where
  "execute_inner ee ec w =
     (case on_run (restore_outputs (ee_run ee) (ec_task_cache ec)) (task_start_events ec w) of
        ((Inr (Some status), tc), w1) \<Rightarrow>
          (Inr (OutSuccess OutCacheHit),
           w1\<lparr>tw_tracker := insert_cache_status
                (insert_expanded_outputs (tw_tracker w1) (ec_task_id ec) (tc_expanded_outputs tc)) (ec_task_id ec) status\<rparr>)
      | ((Inr None, tc), w1) \<Rightarrow> spawn_task ee (ec\<lparr>ec_task_cache := tc\<rparr>) w1
      | ((Inl e, tc), w1) \<Rightarrow>
          spawn_task ee (ec\<lparr>ec_task_cache := tc\<rparr>)
            (on_out (ru_error (ee_run ee) (''error fetching from cache: '' @ ee_cache_message ee e)) w1))"

definition send_message :: "tracker_event \<Rightarrow> task_state option \<Rightarrow> ('w, 'o) task_world \<Rightarrow> ('w, 'o) task_world" where
  "send_message e st w = w\<lparr>tw_messages := tw_messages w @ [\<lparr>tm_event = e, tm_state = st\<rparr>]\<rparr>"

text \<open>\<open>cached\<close>, \<open>build_succeeded\<close> and \<open>build_failed\<close>: the message and the summary it carries.\<close>

definition tracker_end ::
  "('w, 'o) exec_env \<Rightarrow> exec_context \<Rightarrow> int \<Rightarrow> tracker_event \<Rightarrow> int option \<Rightarrow> string option \<Rightarrow> ('w, 'o) task_world \<Rightarrow>
     task_execution_summary \<times> ('w, 'o) task_world" where
  "tracker_end ee ec started_at e exit_code err w =
     (let s = \<lparr>es_start_time = started_at, es_end_time = ee_now ee (rw_outer (tw_run w)), es_error = err, es_exit_code = exit_code\<rparr>
      in (s, send_message e (Some \<lparr>ts_task_id = ec_task_id ec, ts_execution = Some s\<rparr>) w))"

definition send_callback :: "(unit, unit) result \<Rightarrow> ('w, 'o) task_world \<Rightarrow> ('w, 'o) task_world" where
  "send_callback r w = w\<lparr>tw_callbacks := tw_callbacks w @ [r]\<rparr>"

definition stop_manager :: "('w, 'o) task_world \<Rightarrow> ('w, 'o) task_world" where
  "stop_manager w = w\<lparr>tw_stopped := True\<rparr>"

definition space_info_of :: "exec_context \<Rightarrow> task_execution_summary \<Rightarrow> string \<Rightarrow> ('w, 'o) task_world \<Rightarrow> space_info" where
  "space_info_of ec s logs w =
     \<lparr>si_task_id = ec_task_id ec, si_execution = s, si_logs = logs, si_hash = ec_task_hash ec,
      si_cache_status = hm_get (tr_cache (tw_tracker w)) (ec_task_id ec),
      si_dependencies = engine_neighbors (ec_engine ec) (ec_task_id ec) Outgoing,
      si_dependents = engine_neighbors (ec_engine ec) (ec_task_id ec) Incoming\<rparr>"

definition send_space :: "exec_context \<Rightarrow> task_execution_summary \<Rightarrow> string \<Rightarrow> ('w, 'o) task_world \<Rightarrow> ('w, 'o) task_world" where
  "send_space ec s logs w = w\<lparr>tw_spaces := tw_spaces w @ [space_info_of ec s logs w]\<rparr>"

definition execute_finish ::
  "('w, 'o) exec_env \<Rightarrow> exec_context \<Rightarrow> bool \<Rightarrow> int \<Rightarrow> (internal_error, exec_outcome) result \<Rightarrow> string option \<Rightarrow> ('w, 'o) task_world \<Rightarrow>
     ((internal_error, unit) result \<times> ('w, 'o) task_world) option" where
  "execute_finish ee ec spaces started_at r logs w =
     (case r of
        Inr (OutSuccess outcome) \<Rightarrow>
          (let (s, w1) = tracker_end ee ec started_at
                 (case outcome of OutCacheHit \<Rightarrow> EvCached | OutRun \<Rightarrow> Built) (Some 0) None w;
               w2 = send_callback (Inr ()) w1
           in if spaces then (case logs of None \<Rightarrow> None | Some l \<Rightarrow> Some (Inr (), send_space ec s l w2))
              else Some (Inr (), w2))
      | Inr (OutTask exit_code message) \<Rightarrow>
          (let (s, w1) = tracker_end ee ec started_at BuildFailed exit_code (Some message) w;
               w2 = send_callback (if ec_continue_on_error ec then Inr () else Inl ()) w1
           in case (spaces, ec_continue_on_error ec) of
                (False, True) \<Rightarrow> Some (Inr (), w2)
              | (False, False) \<Rightarrow> Some (Inr (), stop_manager w2)
              | (True, True) \<Rightarrow> (case logs of None \<Rightarrow> None | Some l \<Rightarrow> Some (Inr (), send_space ec s l w2))
              | (True, False) \<Rightarrow>
                  Some (Inr (), stop_manager (send_space ec s (case logs of Some l \<Rightarrow> l | None \<Rightarrow> []) w2)))
      | Inr OutShutdown \<Rightarrow> Some (Inr (), stop_manager (send_callback (Inl ()) w))
      | Inl e \<Rightarrow> Some (Inl e, stop_manager (send_callback (Inl ()) w)))"

definition execute_task ::
  "('w, 'o) exec_env \<Rightarrow> exec_context \<Rightarrow> bool \<Rightarrow> ('w, 'o) task_world \<Rightarrow> ((internal_error, unit) result \<times> ('w, 'o) task_world) option" where
  "execute_task ee ec spaces w =
     (let started_at = ee_now ee (rw_outer (tw_run w));
          (r, w1) = execute_inner ee ec (send_message Building None w);
          is_error = (case r of Inr (OutTask _ _) \<Rightarrow> True | _ \<Rightarrow> False);
          is_cache_hit = (r = Inr (OutSuccess OutCacheHit))
      in case on_outer (ee_finish_output ee is_error is_cache_hit) w1 of
           (Inr logs, w2) \<Rightarrow> execute_finish ee ec spaces started_at r logs w2
         | (Inl e, w2) \<Rightarrow> execute_finish ee ec spaces started_at (Inl (InternalIo e)) None w2)"

definition execute_dry_run :: "('w, 'o) exec_env \<Rightarrow> task_id \<Rightarrow> task_cache \<Rightarrow> ('w, 'o) task_world \<Rightarrow> ('w, 'o) task_world" where
  "execute_dry_run ee t tc w =
     (case on_run (tc_exists (ee_run ee) tc) w of
        (r, w1) \<Rightarrow>
          (let w2 = (case r of
                       Inr (Some status) \<Rightarrow> w1\<lparr>tw_tracker := insert_cache_status (tw_tracker w1) t status\<rparr>
                     | _ \<Rightarrow> w1)
           in send_message Canceled (Some \<lparr>ts_task_id = t, ts_execution = None\<rparr>) w2))"

subsection \<open>What a task leaves alone\<close>

abbreviation tw_calls :: "('w, 'o) task_world \<Rightarrow> cache_call list" where
  "tw_calls w \<equiv> rw_calls (tw_run w)"

text \<open>Nothing is reported while the task runs: messages, the callback and the manager come after.\<close>

definition same_reports :: "('w, 'o) task_world \<Rightarrow> ('w, 'o) task_world \<Rightarrow> bool" where
  "same_reports w w' \<longleftrightarrow>
     tw_messages w' = tw_messages w \<and> tw_callbacks w' = tw_callbacks w \<and> tw_stopped w' = tw_stopped w \<and> tw_spaces w' = tw_spaces w"

lemma same_reports_refl [simp, intro]: "same_reports w w"
  by (simp add: same_reports_def)

lemma same_reports_trans [trans]: "same_reports w w1 \<Longrightarrow> same_reports w1 w2 \<Longrightarrow> same_reports w w2"
  by (simp add: same_reports_def)

lemma same_reports_updates [simp]:
  "same_reports w (w'\<lparr>tw_run := r\<rparr>) \<longleftrightarrow> same_reports w w'"
  "same_reports w (w'\<lparr>tw_errors := es\<rparr>) \<longleftrightarrow> same_reports w w'"
  "same_reports w (w'\<lparr>tw_warnings := ws\<rparr>) \<longleftrightarrow> same_reports w w'"
  "same_reports w (w'\<lparr>tw_tracker := tr\<rparr>) \<longleftrightarrow> same_reports w w'"
  "same_reports w (w'\<lparr>tw_spawned := cs\<rparr>) \<longleftrightarrow> same_reports w w'"
  "same_reports w (w'\<lparr>tw_ui := us\<rparr>) \<longleftrightarrow> same_reports w w'"
  "same_reports w (w'\<lparr>tw_traces := ts\<rparr>) \<longleftrightarrow> same_reports w w'"
  by (simp_all add: same_reports_def)

lemma on_outer_eq: "\<exists>a o'. on_outer f w = (a, w\<lparr>tw_run := (tw_run w)\<lparr>rw_outer := o'\<rparr>\<rparr>)"
  by (cases "f (rw_outer (tw_run w))") (auto simp: on_outer_def)

lemma on_outerE:
  assumes "on_outer f w = (a, w')"
  obtains o' where "f (rw_outer (tw_run w)) = (a, o')" "w' = w\<lparr>tw_run := (tw_run w)\<lparr>rw_outer := o'\<rparr>\<rparr>"
  using assms by (auto simp: on_outer_def split: prod.splits)

lemma on_runE:
  assumes "on_run f w = (a, w')"
  obtains r where "f (tw_run w) = (a, r)" "w' = w\<lparr>tw_run := r\<rparr>"
  using assms by (auto simp: on_run_def split: prod.splits)

lemma on_out_keeps [simp]:
  "same_reports w (on_out f w') \<longleftrightarrow> same_reports w w'"
  "tw_calls (on_out f w) = tw_calls w"
  "tw_spawned (on_out f w) = tw_spawned w"
  "tw_errors (on_out f w) = tw_errors w"
  "tw_run (on_out f w) = (tw_run w)\<lparr>rw_out := f (rw_out (tw_run w))\<rparr>"
  by (simp_all add: on_out_def)

lemma task_start_events_keeps [simp]:
  "same_reports w (task_start_events ec w') \<longleftrightarrow> same_reports w w'"
  "tw_run (task_start_events ec w) = tw_run w"
  "tw_spawned (task_start_events ec w) = tw_spawned w"
  "tw_errors (task_start_events ec w) = tw_errors w"
  by (simp_all add: task_start_events_def Let_def split: option.split)

lemma offer_stdin_keeps [simp]:
  "same_reports w (offer_stdin ee ec w') \<longleftrightarrow> same_reports w w'"
  "tw_run (offer_stdin ee ec w) = tw_run w"
  "tw_spawned (offer_stdin ee ec w) = tw_spawned w"
  "tw_errors (offer_stdin ee ec w) = tw_errors w"
  by (simp_all add: offer_stdin_def)

lemma open_output_keeps:
  assumes "open_output ee tc w = (r, w')"
  shows "same_reports w w'" "tw_calls w' = tw_calls w" "tw_spawned w' = tw_spawned w" "tw_errors w' = tw_errors w"
  using assms by (auto simp: open_output_def Let_def split: if_splits prod.splits sum.splits elim!: on_outerE)

lemma access_can_cache_keeps:
  assumes "access_can_cache ee ec w = (r, w')"
  shows "same_reports w w'" "tw_calls w' = tw_calls w" "tw_spawned w' = tw_spawned w" "tw_errors w' = tw_errors w"
  using assms by (auto simp: access_can_cache_def split: if_splits option.splits)

text \<open>A task whose process succeeded: the only new call to the cache is the one that saves its outputs.\<close>

lemma save_outputs_calls:
  assumes "save_outputs ru n tc w = ((r, tc'), w')"
  shows "rw_calls w' = rw_calls w \<or>
    (\<exists>paths. rw_calls w' = rw_calls w @ [CallPut (tc_hash tc) paths (word_of_nat n)]) \<and>
      \<not> tc_caching_disabled tc \<and> \<not> rc_writes_disabled (tc_run_cache tc)"
  using assms by (cases rule: save_outputs_spec [of tc ru n w]) auto

lemma process_succeeded_spec:
  assumes "process_succeeded ee ec w = (r, w')"
  shows "same_reports w w'" "tw_spawned w' = tw_spawned w" "tw_errors w' = tw_errors w"
    and "r = Inr (OutSuccess OutRun) \<or> (\<exists>e. r = Inl (InternalLogs e))"
    and "tw_calls w' = tw_calls w \<or>
      (\<exists>paths n. tw_calls w' = tw_calls w @ [CallPut (tc_hash (ec_task_cache ec)) paths n]) \<and>
        \<not> tc_caching_disabled (ec_task_cache ec) \<and> \<not> rc_writes_disabled (tc_run_cache (ec_task_cache ec))"
proof -
  obtain f w1 where fl: "on_outer (ee_flush ee) w = (f, w1)"
    by fastforce
  then have w1: "same_reports w w1" "tw_spawned w1 = tw_spawned w" "tw_errors w1 = tw_errors w" "tw_calls w1 = tw_calls w"
    by (auto elim!: on_outerE)
  obtain can w2 where cc: "access_can_cache ee ec w1 = (can, w2)"
    by fastforce
  note w2 = access_can_cache_keeps [OF cc]
  obtain sr tc w3 where sv: "on_run (save_outputs (ee_run ee) (ee_elapsed ee (rw_outer (tw_run w))) (ec_task_cache ec)) w2 = ((sr, tc), w3)"
    by (metis prod.exhaust)
  then obtain run where run: "save_outputs (ee_run ee) (ee_elapsed ee (rw_outer (tw_run w))) (ec_task_cache ec) (tw_run w2) = ((sr, tc), run)"
    and w3: "w3 = w2\<lparr>tw_run := run\<rparr>"
    by (auto elim!: on_runE)
  show "same_reports w w'" "tw_spawned w' = tw_spawned w" "tw_errors w' = tw_errors w"
    using assms w1 w2 w3 same_reports_trans by (auto simp: process_succeeded_def fl cc sv split: sum.splits if_splits)
  show "r = Inr (OutSuccess OutRun) \<or> (\<exists>e. r = Inl (InternalLogs e))"
    using assms by (auto simp: process_succeeded_def fl cc sv split: sum.splits if_splits)
  show "tw_calls w' = tw_calls w \<or>
      (\<exists>paths n. tw_calls w' = tw_calls w @ [CallPut (tc_hash (ec_task_cache ec)) paths n]) \<and>
        \<not> tc_caching_disabled (ec_task_cache ec) \<and> \<not> rc_writes_disabled (tc_run_cache (ec_task_cache ec))"
    using assms w1 w2 w3 save_outputs_calls [OF run] by (auto simp: process_succeeded_def fl cc sv split: sum.splits if_splits)
qed

lemma tc_on_error_eq: "\<exists>r o'. tc_on_error ru tc w = (r, w\<lparr>rw_out := o'\<rparr>)"
  using replay_log_file_eq [of ru tc "w\<lparr>rw_out := ru_status ru (''cache miss, executing '' @ ru_grey ru (tc_hash tc)) CacheMiss (rw_out w)\<rparr>"]
  by (auto simp: tc_on_error_def intro: exI [of _ "rw_out w"])

lemma process_failed_spec:
  assumes "process_failed ee ec code w = (r, w')"
  shows "same_reports w w'" "tw_spawned w' = tw_spawned w" "tw_calls w' = tw_calls w"
    and "\<exists>m. r = Inr (OutTask (Some code) m)"
    and "\<exists>e. tw_errors w' = tw_errors w @ [e]"
proof -
  obtain f w1 where fl: "on_outer (ee_flush ee) w = (f, w1)"
    by fastforce
  obtain g w2 where oe: "on_run (tc_on_error (ee_run ee) (ec_task_cache ec)) w1 = (g, w2)"
    by fastforce
  have w2: "same_reports w w2" "tw_spawned w2 = tw_spawned w" "tw_errors w2 = tw_errors w" "tw_calls w2 = tw_calls w"
    using fl oe tc_on_error_eq [of "ee_run ee" "ec_task_cache ec" "tw_run w1"] by (auto elim!: on_outerE on_runE)
  show "same_reports w w'" "tw_spawned w' = tw_spawned w" "tw_calls w' = tw_calls w" "\<exists>m. r = Inr (OutTask (Some code) m)"
    "\<exists>e. tw_errors w' = tw_errors w @ [e]"
    using assms w2 by (auto simp: process_failed_def fl oe Let_def split: if_splits)
qed

text \<open>What running the process, after the cache had nothing, can lead to.\<close>

definition process_outcome ::
  "exec_context \<Rightarrow> ('w, 'o) task_world \<Rightarrow> (internal_error, exec_outcome) result \<Rightarrow> ('w, 'o) task_world \<Rightarrow> bool" where
  "process_outcome ec w r w' \<longleftrightarrow>
     same_reports w w' \<and>
     r \<noteq> Inr (OutSuccess OutCacheHit) \<and>
     (r = Inr (OutSuccess OutRun) \<longrightarrow> tw_spawned w' = tw_spawned w @ [ec_cmd ec]) \<and>
     (\<forall>code m. r = Inr (OutTask code m) \<longrightarrow> code \<noteq> Some 0 \<and> (\<exists>e. tw_errors w' = tw_errors w @ [e])) \<and>
     ((\<nexists>code m. r = Inr (OutTask code m)) \<longrightarrow> tw_errors w' = tw_errors w) \<and>
     (tw_calls w' = tw_calls w \<or>
      (\<exists>paths n. tw_calls w' = tw_calls w @ [CallPut (tc_hash (ec_task_cache ec)) paths n]) \<and>
        \<not> tc_caching_disabled (ec_task_cache ec) \<and> \<not> rc_writes_disabled (tc_run_cache (ec_task_cache ec)) \<and>
        (r = Inr (OutSuccess OutRun) \<or> (\<exists>e. r = Inl (InternalLogs e))))"

lemma process_outcome_from:
  assumes "process_outcome ec w1 r w'" and "same_reports w w1" "tw_spawned w1 = tw_spawned w"
    "tw_errors w1 = tw_errors w" "tw_calls w1 = tw_calls w"
  shows "process_outcome ec w r w'"
  using assms same_reports_trans by (auto simp: process_outcome_def)

lemma run_process_spec:
  assumes "run_process ee ec w = (r, w')" and "tw_spawned w = sp @ [ec_cmd ec]"
  shows "process_outcome ec (w\<lparr>tw_spawned := sp\<rparr>) r w'"
proof -
  obtain op w1 where op: "open_output ee (ec_task_cache ec) (offer_stdin ee ec w) = (op, w1)"
    by fastforce
  have w1: "same_reports w w1" "tw_spawned w1 = tw_spawned w" "tw_errors w1 = tw_errors w" "tw_calls w1 = tw_calls w"
    using open_output_keeps [OF op] by (simp_all add: same_reports_def offer_stdin_def split: if_splits)
  show ?thesis
  proof (cases op)
    case (Inl e)
    then show ?thesis
      using assms w1 by (auto simp: run_process_def op process_outcome_def same_reports_def)
  next
    case (Inr flags)
    obtain to_log to_writer where flags: "flags = (to_log, to_writer)"
      by (cases flags)
    obtain wt w2 where wt: "on_outer (ee_wait ee to_log to_writer) w1 = (wt, w2)"
      by fastforce
    have w2: "same_reports w w2" "tw_spawned w2 = tw_spawned w" "tw_errors w2 = tw_errors w" "tw_calls w2 = tw_calls w"
      using wt w1 by (auto elim!: on_outerE)
    consider (zero) "wt = Inr (Some (ExitFinished (Some 0)))" "process_succeeded ee ec w2 = (r, w')"
      | (code) code where "code \<noteq> 0" "process_failed ee ec code w2 = (r, w')"
      | (other) "w' = w2" "r = Inr OutShutdown \<or> (\<exists>e. r = Inl e)"
      using assms(1) Inr flags wt op
      by (auto simp: run_process_def split: sum.splits option.splits child_exit.splits if_splits)
    then show ?thesis
    proof cases
      case zero
      show ?thesis
        using process_succeeded_spec [OF zero(2)] w2 assms(2) same_reports_trans [OF w2(1)]
        by (auto simp: process_outcome_def same_reports_def)
    next
      case (code code)
      show ?thesis
        using process_failed_spec [OF code(2)] code(1) w2 assms(2)
        by (auto simp: process_outcome_def same_reports_def)
    next
      case other
      then show ?thesis
        using w2 by (auto simp: process_outcome_def same_reports_def)
    qed
  qed
qed

lemma spawn_task_spec:
  assumes "spawn_task ee ec w = (r, w')"
  shows "process_outcome ec w r w'"
proof -
  obtain sr w1 where sr: "on_outer (ee_spawn ee (ec_cmd ec)) w = (sr, w1)"
    by fastforce
  have w1: "same_reports w w1" "tw_spawned w1 = tw_spawned w" "tw_errors w1 = tw_errors w" "tw_calls w1 = tw_calls w"
    using sr by (auto elim!: on_outerE)
  show ?thesis
  proof (cases sr)
    case Spawned
    then have "run_process ee ec (w1\<lparr>tw_spawned := tw_spawned w1 @ [ec_cmd ec]\<rparr>) = (r, w')"
      using assms by (simp add: spawn_task_def sr)
    from run_process_spec [OF this, of "tw_spawned w1"] have "process_outcome ec w1 r w'"
      by simp
    then show ?thesis
      by (rule process_outcome_from [OF _ w1])
  qed (use assms w1 in \<open>auto simp: spawn_task_def sr process_outcome_def Let_def\<close>)
qed

lemma restore_outputs_same:
  assumes "restore_outputs ru tc w = ((res, tc'), w')"
  shows "tc_hash tc' = tc_hash tc" "tc_caching_disabled tc' = tc_caching_disabled tc" "tc_run_cache tc' = tc_run_cache tc"
    "res = Inr None \<Longrightarrow> tc' = tc"
proof -
  have "\<exists>fs. tc' = tc \<or> tc' = tc\<lparr>tc_expanded_outputs := fs\<rparr> \<and> res \<noteq> Inr None"
    using assms
    by (auto simp: restore_outputs_def fetch_outputs_def Let_def split: prod.splits if_splits sum.splits option.splits)
  then show "tc_hash tc' = tc_hash tc" "tc_caching_disabled tc' = tc_caching_disabled tc" "tc_run_cache tc' = tc_run_cache tc"
    "res = Inr None \<Longrightarrow> tc' = tc"
    by auto
qed

lemma restore_outputs_calls:
  assumes "restore_outputs ru tc w = ((res, tc'), w')"
  shows "rw_calls w' = rw_calls w \<or>
    rw_calls w' = rw_calls w @ [CallFetch (tc_hash tc)] \<and> \<not> tc_caching_disabled tc \<and> \<not> rc_reads_disabled (tc_run_cache tc)"
proof (cases rule: restore_outputs_spec [of tc ru w])
  case (fetched incl o0 r tc'' o' t)
  then show ?thesis
    using assms by simp
qed (use assms in simp_all)

lemma restore_outputs_enabled:
  assumes "restore_outputs ru tc w = ((Inr (Some md), tc'), w')"
  shows "\<not> tc_caching_disabled tc \<and> \<not> rc_reads_disabled (tc_run_cache tc)"
  using restore_outputs_bypass [of tc ru w] assms by auto

text \<open>What executing a task can lead to, the cache included.\<close>

lemma execute_inner_spec:
  assumes "execute_inner ee ec w = (r, w')"
  obtains (hit) "r = Inr (OutSuccess OutCacheHit)" "same_reports w w'" "tw_spawned w' = tw_spawned w" "tw_errors w' = tw_errors w"
      "tw_calls w' = tw_calls w \<or> tw_calls w' = tw_calls w @ [CallFetch (tc_hash (ec_task_cache ec))]"
      "\<not> tc_caching_disabled (ec_task_cache ec)" "\<not> rc_reads_disabled (tc_run_cache (ec_task_cache ec))"
  | (run) w1 ec' where "process_outcome ec' w1 r w'" "same_reports w w1" "tw_spawned w1 = tw_spawned w" "tw_errors w1 = tw_errors w"
      "tw_calls w1 = tw_calls w \<or>
       tw_calls w1 = tw_calls w @ [CallFetch (tc_hash (ec_task_cache ec))] \<and>
         \<not> tc_caching_disabled (ec_task_cache ec) \<and> \<not> rc_reads_disabled (tc_run_cache (ec_task_cache ec))"
      "ec_cmd ec' = ec_cmd ec" "tc_hash (ec_task_cache ec') = tc_hash (ec_task_cache ec)"
      "tc_caching_disabled (ec_task_cache ec') = tc_caching_disabled (ec_task_cache ec)"
      "tc_run_cache (ec_task_cache ec') = tc_run_cache (ec_task_cache ec)"
proof -
  let ?tc = "ec_task_cache ec"
  obtain res tc w1 where rs: "on_run (restore_outputs (ee_run ee) ?tc) (task_start_events ec w) = ((res, tc), w1)"
    by (metis prod.exhaust)
  then obtain rn where rn: "restore_outputs (ee_run ee) ?tc (tw_run w) = ((res, tc), rn)"
    and w1: "w1 = (task_start_events ec w)\<lparr>tw_run := rn\<rparr>"
    by (auto elim!: on_runE)
  have same: "same_reports w w1" "tw_spawned w1 = tw_spawned w" "tw_errors w1 = tw_errors w"
    by (simp_all add: w1)
  note calls = restore_outputs_calls [OF rn] and tc = restore_outputs_same [OF rn]
  show ?thesis
  proof (cases "\<exists>md. res = Inr (Some md)")
    case True
    then have "\<not> tc_caching_disabled ?tc \<and> \<not> rc_reads_disabled (tc_run_cache ?tc)"
      using rn restore_outputs_enabled by blast
    with True show ?thesis
      using assms rs same calls by (intro hit) (auto simp: execute_inner_def w1)
  next
    case False
    then obtain w2 where "spawn_task ee (ec\<lparr>ec_task_cache := tc\<rparr>) w2 = (r, w')" and
      w2: "same_reports w w2" "tw_spawned w2 = tw_spawned w" "tw_errors w2 = tw_errors w" "tw_calls w2 = rw_calls rn"
      using assms rs same by (cases res) (auto simp: execute_inner_def w1 split: option.splits)
    from spawn_task_spec [OF this(1)] show ?thesis
      using calls tc w2 by (intro run [of "ec\<lparr>ec_task_cache := tc\<rparr>" w2]) simp_all
  qed
qed

subsection \<open>What is reported of a task\<close>

text \<open>The events that end a task, and whether the run goes on after it.\<close>

definition final_events :: "exec_context \<Rightarrow> (internal_error, exec_outcome) result \<Rightarrow> tracker_event list \<times> (unit, unit) result" where
  "final_events ec r =
     (case r of
        Inr (OutSuccess OutCacheHit) \<Rightarrow> ([EvCached], Inr ())
      | Inr (OutSuccess OutRun) \<Rightarrow> ([Built], Inr ())
      | Inr (OutTask _ _) \<Rightarrow> ([BuildFailed], if ec_continue_on_error ec then Inr () else Inl ())
      | Inr OutShutdown \<Rightarrow> ([], Inl ())
      | Inl _ \<Rightarrow> ([], Inl ()))"

definition result_of_run :: "('w, 'o) exec_env \<Rightarrow> exec_context \<Rightarrow> ('w, 'o) task_world \<Rightarrow> (internal_error, exec_outcome) result" where
  "result_of_run ee ec w =
     (case execute_inner ee ec (send_message Building None w) of
        (r, w1) \<Rightarrow>
          (case fst (on_outer (ee_finish_output ee (case r of Inr (OutTask _ _) \<Rightarrow> True | _ \<Rightarrow> False)
                       (r = Inr (OutSuccess OutCacheHit))) w1) of
             Inl e \<Rightarrow> Inl (InternalIo e)
           | Inr _ \<Rightarrow> r))"

lemma execute_finish_spec:
  assumes "spaces \<longrightarrow> logs \<noteq> None \<or> (\<exists>e. r = Inl e)"
  shows "\<exists>w'. execute_finish ee ec spaces t r logs w = Some ((case r of Inl e \<Rightarrow> Inl e | Inr _ \<Rightarrow> Inr ()), w') \<and>
    map tm_event (tw_messages w') = map tm_event (tw_messages w) @ fst (final_events ec r) \<and>
    tw_callbacks w' = tw_callbacks w @ [snd (final_events ec r)] \<and>
    tw_stopped w' = (tw_stopped w \<or> snd (final_events ec r) = Inl ()) \<and>
    length (tw_spaces w') = length (tw_spaces w) + (if spaces \<and> fst (final_events ec r) \<noteq> [] then 1 else 0) \<and>
    tw_run w' = tw_run w \<and> tw_spawned w' = tw_spawned w \<and> tw_errors w' = tw_errors w"
  using assms
  by (cases r rule: sum.exhaust; (cases "projr r"; (cases "ec_continue_on_error ec")?)?)
    (auto simp: execute_finish_def final_events_def tracker_end_def send_message_def send_callback_def stop_manager_def
      send_space_def Let_def split: success_outcome.splits)

lemma send_message_keeps [simp]:
  "tw_run (send_message e st w) = tw_run w"
  "tw_callbacks (send_message e st w) = tw_callbacks w"
  "tw_stopped (send_message e st w) = tw_stopped w"
  "tw_spaces (send_message e st w) = tw_spaces w"
  "tw_spawned (send_message e st w) = tw_spawned w"
  "tw_errors (send_message e st w) = tw_errors w"
  "map tm_event (tw_messages (send_message e st w)) = map tm_event (tw_messages w) @ [e]"
  by (simp_all add: send_message_def)

lemma execute_inner_same_reports:
  assumes "execute_inner ee ec w = (r, w')"
  shows "same_reports w w'"
  using assms by (rule execute_inner_spec) (auto simp: process_outcome_def intro: same_reports_trans)

lemma execute_task_steps:
  assumes "spaces \<longrightarrow> (\<forall>b c o' l. fst (ee_finish_output ee b c o') = Inr l \<longrightarrow> l \<noteq> None)"
  obtains r w1 w' where "execute_inner ee ec (send_message Building None w) = (r, w1)"
    and "result_of_run ee ec w = r \<or> (\<exists>e. result_of_run ee ec w = Inl e)"
    and "execute_task ee ec spaces w = Some ((case result_of_run ee ec w of Inl e \<Rightarrow> Inl e | Inr _ \<Rightarrow> Inr ()), w')"
    and "map tm_event (tw_messages w') = map tm_event (tw_messages w) @ Building # fst (final_events ec (result_of_run ee ec w))"
    and "tw_callbacks w' = tw_callbacks w @ [snd (final_events ec (result_of_run ee ec w))]"
    and "tw_stopped w' = (tw_stopped w \<or> snd (final_events ec (result_of_run ee ec w)) = Inl ())"
    and "tw_calls w' = tw_calls w1" "tw_spawned w' = tw_spawned w1" "tw_errors w' = tw_errors w1"
proof -
  obtain r w1 where inner: "execute_inner ee ec (send_message Building None w) = (r, w1)"
    by fastforce
  let ?b = "case r of Inr (OutTask _ _) \<Rightarrow> True | _ \<Rightarrow> False" and ?h = "r = Inr (OutSuccess OutCacheHit)"
  obtain fr w2 where fin: "on_outer (ee_finish_output ee ?b ?h) w1 = (fr, w2)"
    by fastforce
  have w1: "same_reports (send_message Building None w) w1"
    using inner by (rule execute_inner_same_reports)
  obtain o' where o': "ee_finish_output ee ?b ?h (rw_outer (tw_run w1)) = (fr, o')"
    and w2: "w2 = w1\<lparr>tw_run := (tw_run w1)\<lparr>rw_outer := o'\<rparr>\<rparr>"
    using fin by (rule on_outerE)
  define logs where "logs = (case fr of Inl _ \<Rightarrow> None | Inr l \<Rightarrow> l)"
  have res: "result_of_run ee ec w = (case fr of Inl e \<Rightarrow> Inl (InternalIo e) | Inr _ \<Rightarrow> r)"
    by (simp add: result_of_run_def inner fin)
  have "fst (ee_finish_output ee ?b ?h (rw_outer (tw_run w1))) = fr"
    by (simp add: o')
  then have logs_ok: "spaces \<longrightarrow> logs \<noteq> None \<or> (\<exists>e. result_of_run ee ec w = Inl e)"
    using assms unfolding logs_def res by (cases fr) auto
  have exec: "execute_task ee ec spaces w =
      execute_finish ee ec spaces (ee_now ee (rw_outer (tw_run w))) (result_of_run ee ec w) logs w2"
    by (simp add: execute_task_def inner fin res logs_def Let_def split: sum.split)
  have ws: "map tm_event (tw_messages w2) = map tm_event (tw_messages w) @ [Building]" "tw_callbacks w2 = tw_callbacks w"
    "tw_stopped w2 = tw_stopped w" "tw_calls w2 = tw_calls w1" "tw_spawned w2 = tw_spawned w1" "tw_errors w2 = tw_errors w1"
    using w1 by (simp_all add: same_reports_def w2 send_message_def)
  obtain w' where "execute_finish ee ec spaces (ee_now ee (rw_outer (tw_run w))) (result_of_run ee ec w) logs w2 =
      Some ((case result_of_run ee ec w of Inl e \<Rightarrow> Inl e | Inr _ \<Rightarrow> Inr ()), w')"
    "map tm_event (tw_messages w') = map tm_event (tw_messages w2) @ fst (final_events ec (result_of_run ee ec w))"
    "tw_callbacks w' = tw_callbacks w2 @ [snd (final_events ec (result_of_run ee ec w))]"
    "tw_stopped w' = (tw_stopped w2 \<or> snd (final_events ec (result_of_run ee ec w)) = Inl ())"
    "tw_run w' = tw_run w2" "tw_spawned w' = tw_spawned w2" "tw_errors w' = tw_errors w2"
    using execute_finish_spec [OF logs_ok, of ee ec "ee_now ee (rw_outer (tw_run w))" w2] by blast
  then show ?thesis
    using that [of r w1 w'] inner exec ws res by (auto split: sum.splits)
qed

text \<open>
  C19: Executing a task always comes to an end that is reported in full: one message that it began and at
  most one of how it ended, exactly one answer to the executor, and the process manager is stopped
  exactly when that answer is to stop. The answer is to go on for a cache hit, for a task that
  succeeded, and for one that failed when errors are to be ignored; otherwise it is to stop. Nothing
  panics as long as the output client collects logs whenever they are to be sent on.
\<close>

theorem execute_task_reports:
  assumes "spaces \<longrightarrow> (\<forall>b c o' l. fst (ee_finish_output ee b c o') = Inr l \<longrightarrow> l \<noteq> None)"
  shows "\<exists>w'. execute_task ee ec spaces w = Some ((case result_of_run ee ec w of Inl e \<Rightarrow> Inl e | Inr _ \<Rightarrow> Inr ()), w') \<and>
    map tm_event (tw_messages w') = map tm_event (tw_messages w) @ Building # fst (final_events ec (result_of_run ee ec w)) \<and>
    tw_callbacks w' = tw_callbacks w @ [snd (final_events ec (result_of_run ee ec w))] \<and>
    tw_stopped w' = (tw_stopped w \<or> snd (final_events ec (result_of_run ee ec w)) = Inl ())"
  using assms by (rule execute_task_steps [where w = w and ec = ec]) blast

text \<open>
  C20: The cache is asked at most once, for the key of the task, and only when it may be read; it is
  written at most once, under that key, only when it may be written, and never for a task that was a
  cache hit, that failed or that was shut down. A cache hit starts no process and raises no error, and
  a failure is recorded as exactly one error.
\<close>

theorem execute_task_cache_use:
  assumes "spaces \<longrightarrow> (\<forall>b c o' l. fst (ee_finish_output ee b c o') = Inr l \<longrightarrow> l \<noteq> None)"
    and "execute_task ee ec spaces w = Some (res, w')"
  shows "\<exists>reads writes. tw_calls w' = tw_calls w @ reads @ writes \<and>
    (reads = [] \<or> reads = [CallFetch (tc_hash (ec_task_cache ec))] \<and>
       \<not> tc_caching_disabled (ec_task_cache ec) \<and> \<not> rc_reads_disabled (tc_run_cache (ec_task_cache ec))) \<and>
    (writes = [] \<or> (\<exists>paths n. writes = [CallPut (tc_hash (ec_task_cache ec)) paths n]) \<and>
       \<not> tc_caching_disabled (ec_task_cache ec) \<and> \<not> rc_writes_disabled (tc_run_cache (ec_task_cache ec)) \<and>
       (result_of_run ee ec w = Inr (OutSuccess OutRun) \<or> (\<exists>e. result_of_run ee ec w = Inl e))) \<and>
    (result_of_run ee ec w = Inr (OutSuccess OutCacheHit) \<longrightarrow>
       tw_spawned w' = tw_spawned w \<and> tw_errors w' = tw_errors w) \<and>
    (\<forall>code m. result_of_run ee ec w = Inr (OutTask code m) \<longrightarrow>
       code \<noteq> Some 0 \<and> (\<exists>e. tw_errors w' = tw_errors w @ [e]))"
proof -
  obtain r w1 where inner: "execute_inner ee ec (send_message Building None w) = (r, w1)"
    and r: "result_of_run ee ec w = r \<or> (\<exists>e. result_of_run ee ec w = Inl e)"
    and w': "tw_calls w' = tw_calls w1" "tw_spawned w' = tw_spawned w1" "tw_errors w' = tw_errors w1"
    using assms(1) by (rule execute_task_steps [where w = w and ec = ec]) (use assms(2) in auto)
  from inner show ?thesis
  proof (cases rule: execute_inner_spec)
    case hit
    then show ?thesis
      using r w' by (intro exI [of _ "drop (length (tw_calls w)) (tw_calls w')"] exI [of _ "[]"]) auto
  next
    case (run w2 ec')
    obtain reads where reads: "tw_calls w2 = tw_calls w @ reads" "reads = [] \<or> reads = [CallFetch (tc_hash (ec_task_cache ec))] \<and>
       \<not> tc_caching_disabled (ec_task_cache ec) \<and> \<not> rc_reads_disabled (tc_run_cache (ec_task_cache ec))"
      using run(5) by force
    have "tw_calls w1 = tw_calls w2 \<or>
      (\<exists>paths n. tw_calls w1 = tw_calls w2 @ [CallPut (tc_hash (ec_task_cache ec)) paths n]) \<and>
        \<not> tc_caching_disabled (ec_task_cache ec) \<and> \<not> rc_writes_disabled (tc_run_cache (ec_task_cache ec)) \<and>
        (r = Inr (OutSuccess OutRun) \<or> (\<exists>e. r = Inl (InternalLogs e)))"
      using run(1,7-9) by (simp add: process_outcome_def)
    then obtain writes where writes: "tw_calls w1 = tw_calls w2 @ writes"
      "writes = [] \<or> (\<exists>paths n. writes = [CallPut (tc_hash (ec_task_cache ec)) paths n]) \<and>
        \<not> tc_caching_disabled (ec_task_cache ec) \<and> \<not> rc_writes_disabled (tc_run_cache (ec_task_cache ec)) \<and>
        (r = Inr (OutSuccess OutRun) \<or> (\<exists>e. r = Inl (InternalLogs e)))"
      by force
    have outcome: "r \<noteq> Inr (OutSuccess OutCacheHit)"
      "\<forall>code m. r = Inr (OutTask code m) \<longrightarrow> code \<noteq> Some 0 \<and> (\<exists>e. tw_errors w1 = tw_errors w @ [e])"
      using run(1,4) by (simp_all add: process_outcome_def)
    show ?thesis
      using r
    proof
      assume "result_of_run ee ec w = r"
      then show ?thesis
        using w' reads writes outcome by (intro exI [of _ reads] exI [of _ writes]) auto
    next
      assume "\<exists>e. result_of_run ee ec w = Inl e"
      then show ?thesis
        using w' reads writes by (intro exI [of _ reads] exI [of _ writes]) auto
    qed
  qed
qed

text \<open>Counts do not depend on the order in which the messages arrive.\<close>

lemma tracker_finish_counts:
  "ss_attempted (tracker_finish ms) = count_list (map tm_event ms) Building \<and>
   ss_failed (tracker_finish ms) = count_list (map tm_event ms) BuildFailed \<and>
   ss_cached (tracker_finish ms) = count_list (map tm_event ms) EvCached \<and>
   ss_success (tracker_finish ms) = count_list (map tm_event ms) Built \<and>
   ss_tasks (tracker_finish ms) = List.map_filter tm_state ms"
proof (induction ms rule: rev_induct)
  case (snoc m ms)
  then show ?case
    by (cases "tm_event m"; cases "tm_state m")
      (simp_all add: tracker_finish_def receive_message_def handle_event_def Let_def List.map_filter_def)
qed (simp add: tracker_finish_def summary_default_def List.map_filter_def)

type_synonym ('w, 'o) task_run = "('w, 'o) exec_env \<times> exec_context \<times> ('w, 'o) task_world \<times> ('w, 'o) task_world"

text \<open>A run of a task, from a world in which it has sent no message yet; if it reports to Spaces then its logs are kept.\<close>

definition task_ran :: "('w, 'o) task_run \<Rightarrow> bool" where
  "task_ran run \<longleftrightarrow>
     (case run of (ee, ec, w, w') \<Rightarrow> tw_messages w = [] \<and>
        (\<exists>spaces r. (spaces \<longrightarrow> (\<forall>b c o' l. fst (ee_finish_output ee b c o') = Inr l \<longrightarrow> l \<noteq> None)) \<and>
           execute_task ee ec spaces w = Some (r, w')))"

definition run_messages :: "('w, 'o) task_run \<Rightarrow> tracker_message list" where
  "run_messages run = (case run of (ee, ec, w, w') \<Rightarrow> tw_messages w')"

definition run_result :: "('w, 'o) task_run \<Rightarrow> (internal_error, exec_outcome) result" where
  "run_result run = (case run of (ee, ec, w, w') \<Rightarrow> result_of_run ee ec w)"

lemma task_ran_events:
  assumes "task_ran run"
  shows "map tm_event (run_messages run) = Building # fst (final_events (fst (snd run)) (run_result run))"
proof -
  obtain ee ec w w' spaces r where run: "run = (ee, ec, w, w')" and w: "tw_messages w = []"
    and logs: "spaces \<longrightarrow> (\<forall>b c o' l. fst (ee_finish_output ee b c o') = Inr l \<longrightarrow> l \<noteq> None)"
    and ex: "execute_task ee ec spaces w = Some (r, w')"
    using assms unfolding task_ran_def by (cases run) (simp only: prod.case, blast)
  show ?thesis
    using logs by (rule execute_task_steps [where w = w and ec = ec])
      (use ex w in \<open>auto simp: run run_messages_def run_result_def\<close>)
qed

lemma count_list_events:
  assumes "mset ms = (\<Sum>run\<leftarrow>runs. mset (run_messages run))"
  shows "count_list (map tm_event ms) e = (\<Sum>run\<leftarrow>runs. count_list (map tm_event (run_messages run)) e)"
proof -
  have "count (image_mset tm_event (\<Sum>run\<leftarrow>runs. mset (run_messages run))) e =
      (\<Sum>run\<leftarrow>runs. count_list (map tm_event (run_messages run)) e)"
    by (induction runs) (simp_all flip: mset_map add: count_mset)
  then show ?thesis
    unfolding assms [symmetric] by (simp flip: mset_map add: count_mset)
qed

lemma sum_list_if: "(\<Sum>x\<leftarrow>xs. if P x then 1 else 0) = length (filter P xs)"
  by (induction xs) simp_all

text \<open>
  C21: However the messages of the tasks of a run are interleaved, the summary counts every task that was
  started once, as a cache hit, a success, a failure, or as none of them when it was stopped before
  it ended.
\<close>

theorem summary_counts_tasks:
  assumes "\<forall>run \<in> set runs. task_ran run"
    and "mset ms = (\<Sum>run\<leftarrow>runs. mset (run_messages run))"
  shows "ss_attempted (tracker_finish ms) = length runs \<and>
    ss_cached (tracker_finish ms) = length (filter (\<lambda>run. run_result run = Inr (OutSuccess OutCacheHit)) runs) \<and>
    ss_success (tracker_finish ms) = length (filter (\<lambda>run. run_result run = Inr (OutSuccess OutRun)) runs) \<and>
    ss_failed (tracker_finish ms) = length (filter (\<lambda>run. \<exists>code m. run_result run = Inr (OutTask code m)) runs)"
proof -
  have total: "count_list (map tm_event ms) e =
      (\<Sum>run\<leftarrow>runs. count_list (Building # fst (final_events (fst (snd run)) (run_result run))) e)" for e
    unfolding count_list_events [OF assms(2)]
    using assms(1) by (intro arg_cong [where f = sum_list] map_cong refl) (simp only: task_ran_events)
  have final: "count_list (fst (final_events ec r)) Building = 0"
    "count_list (fst (final_events ec r)) EvCached = (if r = Inr (OutSuccess OutCacheHit) then 1 else 0)"
    "count_list (fst (final_events ec r)) Built = (if r = Inr (OutSuccess OutRun) then 1 else 0)"
    "count_list (fst (final_events ec r)) BuildFailed = (if \<exists>code m. r = Inr (OutTask code m) then 1 else 0)" for ec r
    by (auto simp: final_events_def split: sum.split exec_outcome.split success_outcome.split)
  show ?thesis
    by (simp add: tracker_finish_counts total final sum_list_if sum_list_triv)
qed

subsection \<open>Visiting a task\<close>

datatype log_prefix = PrefixTask | PrefixNone

datatype log_order = OrderStream | OrderGrouped

record visitor =
  vs_dry :: bool
  vs_global_env_mode :: env_mode
  vs_single_package :: bool
  vs_continue_on_error :: bool
  vs_ui_mode :: ui_mode
  vs_ui_sender :: bool
  vs_access_enabled :: bool
  vs_log_prefix :: log_prefix
  vs_log_order :: log_order
  vs_spaces :: bool
  vs_run_cache :: run_cache
  vs_command_ctx :: command_ctx
  vs_platform_vars :: "string \<rightharpoonup> string"
  vs_nrz_regex :: "string \<Rightarrow> bool"
  vs_hash_order :: "task_node set \<Rightarrow> task_node list"

definition visitor_prefix :: "visitor \<Rightarrow> task_id \<Rightarrow> string" where
  "visitor_prefix v t =
     (case vs_log_prefix v of
        PrefixTask \<Rightarrow> if vs_single_package v then tid_task t else tid_package t @ '':'' @ tid_task t
      | PrefixNone \<Rightarrow> [])"

definition display_task_id :: "visitor \<Rightarrow> task_id \<Rightarrow> string" where
  "display_task_id v t = (if vs_single_package v then tid_task t else task_id_display t)"

text \<open>How the client for the output of a task behaves; logs are collected when they are sent on.\<close>

definition output_behavior :: "visitor \<Rightarrow> behavior" where
  "output_behavior v =
     (case vs_log_order v of
        OrderStream \<Rightarrow> if vs_spaces v then InMemoryBuffer else Passthrough
      | OrderGrouped \<Rightarrow> Grouped)"

definition visitor_dry_run :: "visitor \<Rightarrow> visitor" where
  "visitor_dry_run v = v\<lparr>vs_dry := True, vs_ui_sender := False\<rparr>"

datatype visit_action =
    VisitDryRun task_id task_cache
  | VisitSkip
  | VisitExecute exec_context

definition trace_variable :: "visitor \<Rightarrow> string \<Rightarrow> (string \<times> string) option" where
  "trace_variable v task_hash =
     (if vs_access_enabled v
      then Some (''NRZREPO_TRACE_FILE'', foldl path_join (cx_repo_root (vs_command_ctx v)) [''.nrz'', task_hash, ''trace.json''])
      else None)"

definition exec_context_for ::
  "visitor \<Rightarrow> engine \<Rightarrow> task_id \<Rightarrow> string \<Rightarrow> task_cache \<Rightarrow> env_map \<Rightarrow> bool \<Rightarrow> (visitor_error, exec_context option) result option" where
  "exec_context_for v e t task_hash tc execution_env takes_input =
     (let env = populate_env (vs_ui_mode v) (trace_variable v task_hash) task_hash execution_env
      in case factory_command (command_providers (vs_command_ctx v)) t env of
           None \<Rightarrow> None
         | Some (Inl err) \<Rightarrow> Some (Inl err)
         | Some (Inr None) \<Rightarrow> Some (Inr None)
         | Some (Inr (Some cmd)) \<Rightarrow>
             Some (Inr (Some \<lparr>ec_engine = e, ec_ui_mode = vs_ui_mode v, ec_ui_output = vs_ui_sender v, ec_task_id = t,
               ec_task_id_for_display = display_task_id v t, ec_task_cache = tc, ec_task_hash = task_hash,
               ec_execution_env = env, ec_continue_on_error = vs_continue_on_error v, ec_takes_input = takes_input,
               ec_access_enabled = vs_access_enabled v, ec_cmd = cmd, ec_platform_vars = vs_platform_vars v\<rparr>)))"

text \<open>What the loop of \<open>visit\<close> does with a task it received: the checks, the key, and what is started.\<close>

definition visit_message ::
  "hash_env \<Rightarrow> visitor \<Rightarrow> engine \<Rightarrow> 'c task_hasher \<Rightarrow> task_id \<Rightarrow> (visitor_error, visit_action \<times> 'c task_hasher) result option" where
  "visit_message he v e th t =
     (case command_package_info (cx_package_graph (vs_command_ctx v)) t of
        Inl err \<Rightarrow> Some (Inl err)
      | Inr info \<Rightarrow>
          (let recursive = (case map_of (pj_scripts (pi_package_json info)) (tid_task t) of
             Some cmd \<Rightarrow> tid_package t = ROOT_PKG_NAME \<and> vs_nrz_regex v (sp_value cmd)
           | None \<Rightarrow> False)
           in if recursive then Some (Inl (RecursiveNrz (task_id_display t) (script_of info t)))
          else case (hm_get (e_task_definitions e) t, engine_dependencies e t) of
            (Some td, Some deps) \<Rightarrow>
              (let mode = (case td_env_mode td of Some m \<Rightarrow> m | None \<Rightarrow> vs_global_env_mode v)
               in case calculate_task_hash he th t td mode info (vs_hash_order v deps) of
                    Inl err \<Rightarrow> Some (Inl (VisitTaskHash err))
                  | Inr (task_hash, th') \<Rightarrow>
                      (case hasher_env he th' t mode td of
                         Inl err \<Rightarrow> Some (Inl (VisitTaskHash err))
                       | Inr execution_env \<Rightarrow>
                           (let tc = rc_task_cache (vs_run_cache v) td info t task_hash
                            in if vs_dry v then Some (Inr (VisitDryRun t tc, th'))
                               else
                                 (case exec_context_for v e t task_hash tc execution_env (td_interactive td \<or> td_persistent td) of
                                    None \<Rightarrow> None
                                  | Some (Inl err) \<Rightarrow> Some (Inl err)
                                  | Some (Inr None) \<Rightarrow> Some (Inr (VisitSkip, th'))
                                  | Some (Inr (Some ec)) \<Rightarrow> Some (Inr (VisitExecute ec, th'))))))
          | _ \<Rightarrow> Some (Inl MissingDefinition)))"

lemma hasher_env_distinct:
  assumes "hasher_env he th t mode td = Inr env" and "distinct (map fst (th_env_at_execution_start th))"
  shows "distinct (map fst env)"
  using assms
  by (auto simp: hasher_env_def env_union_distinct split: env_mode.splits sum.splits option.splits)

lemma calculate_task_hash_tracked:
  assumes "calculate_task_hash he th t td mode info deps = Inr (h, th')"
  shows "hm_get (tr_hashes (th_tracker th')) t = Some h" "th_env_at_execution_start th' = th_env_at_execution_start th"
  using assms by (auto simp: calculate_task_hash_def insert_hash_def Let_def try_bind_Inr split: option.splits)

lemma visit_messageE:
  assumes "visit_message he v e th t = Some (Inr (action, th'))"
  obtains info td deps h env where "command_package_info (cx_package_graph (vs_command_ctx v)) t = Inr info"
    and "hm_get (e_task_definitions e) t = Some td" and "engine_dependencies e t = Some deps"
    and "calculate_task_hash he th t td (case td_env_mode td of Some m \<Rightarrow> m | None \<Rightarrow> vs_global_env_mode v) info (vs_hash_order v deps) = Inr (h, th')"
    and "hasher_env he th' t (case td_env_mode td of Some m \<Rightarrow> m | None \<Rightarrow> vs_global_env_mode v) td = Inr env"
    and "vs_dry v \<longrightarrow> action = VisitDryRun t (rc_task_cache (vs_run_cache v) td info t h)"
    and "\<not> vs_dry v \<longrightarrow>
      (case exec_context_for v e t h (rc_task_cache (vs_run_cache v) td info t h) env (td_interactive td \<or> td_persistent td) of
         Some (Inr (Some ec)) \<Rightarrow> action = VisitExecute ec
       | Some (Inr None) \<Rightarrow> action = VisitSkip
       | _ \<Rightarrow> False)"
  using assms unfolding visit_message_def Let_def
  by (auto split: sum.splits option.splits prod.splits if_splits)

text \<open>A root script that calls \<open>nrz\<close> again is refused.\<close>

lemma visit_message_recursive:
  assumes "command_package_info (cx_package_graph (vs_command_ctx v)) t = Inr info"
    and "map_of (pj_scripts (pi_package_json info)) (tid_task t) = Some cmd" "vs_nrz_regex v (sp_value cmd)"
    and "tid_package t = ROOT_PKG_NAME"
  shows "visit_message he v e th t = Some (Inl (RecursiveNrz (task_id_display t) (sp_value cmd)))"
  using assms by (simp add: visit_message_def script_of_def)

text \<open>
  C22: Whatever is done with a task that the visitor accepts, its key is recorded for the tasks that depend
  on it, also when there is no script to run. A task that is executed is cached under that key. The process
  of a task that is not the proxy of micro frontends has the key in its environment, and sees exactly the
  variables that its mode and definition select and those \<open>nrz\<close> sets; the process of a proxy sees the
  environment \<open>own\<close> of \<open>nrz\<close> itself, and nothing else.
\<close>

theorem visit_message_consistent:
  assumes "visit_message he v e th t = Some (Inr (action, th'))"
    and "distinct (map fst (th_env_at_execution_start th))"
  shows "\<exists>h. hm_get (tr_hashes (th_tracker th')) t = Some h \<and>
    (\<forall>t' tc. action = VisitDryRun t' tc \<longrightarrow> t' = t \<and> tc_hash tc = h) \<and>
    (\<forall>ec. action = VisitExecute ec \<longrightarrow>
       ec_task_id ec = t \<and> ec_task_hash ec = h \<and> tc_hash (ec_task_cache ec) = h \<and>
       ((\<forall>mfe. cx_mfe (vs_command_ctx v) = Some mfe \<longrightarrow> dev_tasks mfe t = None) \<longrightarrow>
        process_env own (ec_cmd ec) ''NRZ_HASH'' = Some h \<and>
        (\<exists>td env. hm_get (e_task_definitions e) t = Some td \<and>
           hasher_env he th' t (case td_env_mode td of Some m \<Rightarrow> m | None \<Rightarrow> vs_global_env_mode v) td = Inr env \<and>
           (\<forall>key. key \<notin> set own_variables \<longrightarrow> process_env own (ec_cmd ec) key = hm_get env key))) \<and>
       ((\<exists>mfe devs. cx_mfe (vs_command_ctx v) = Some mfe \<and> dev_tasks mfe t = Some devs) \<longrightarrow>
        (\<forall>key. process_env own (ec_cmd ec) key = hm_get own key)))"
proof -
  obtain info td deps h env where td: "hm_get (e_task_definitions e) t = Some td"
    and hash: "calculate_task_hash he th t td (case td_env_mode td of Some m \<Rightarrow> m | None \<Rightarrow> vs_global_env_mode v) info (vs_hash_order v deps) = Inr (h, th')"
    and env: "hasher_env he th' t (case td_env_mode td of Some m \<Rightarrow> m | None \<Rightarrow> vs_global_env_mode v) td = Inr env"
    and dry: "vs_dry v \<longrightarrow> action = VisitDryRun t (rc_task_cache (vs_run_cache v) td info t h)"
    and live: "\<not> vs_dry v \<longrightarrow>
      (case exec_context_for v e t h (rc_task_cache (vs_run_cache v) td info t h) env (td_interactive td \<or> td_persistent td) of
         Some (Inr (Some ec)) \<Rightarrow> action = VisitExecute ec
       | Some (Inr None) \<Rightarrow> action = VisitSkip
       | _ \<Rightarrow> False)"
    using assms(1) by (rule visit_messageE)
  note tracked = calculate_task_hash_tracked [OF hash]
  have dist: "distinct (map fst env)"
    using hasher_env_distinct [OF env] tracked(2) assms(2) by simp
  let ?env = "populate_env (vs_ui_mode v) (trace_variable v h) h env"
  have ec: "ec_task_id ec = t \<and> ec_task_hash ec = h \<and> tc_hash (ec_task_cache ec) = h \<and>
      factory_command (command_providers (vs_command_ctx v)) t ?env = Some (Inr (Some (ec_cmd ec)))" if "action = VisitExecute ec" for ec
    using that dry live
    by (auto simp: exec_context_for_def Let_def rc_task_cache_def split: option.splits sum.splits if_splits)
  have vars: "process_env own (ec_cmd ec) ''NRZ_HASH'' = Some h \<and>
      (\<forall>key. key \<notin> set own_variables \<longrightarrow> process_env own (ec_cmd ec) key = hm_get env key)"
    if "action = VisitExecute ec" "\<forall>mfe. cx_mfe (vs_command_ctx v) = Some mfe \<longrightarrow> dev_tasks mfe t = None" for ec
  proof -
    have "package_graph_command (vs_command_ctx v) t ?env = Some (Inr (Some (ec_cmd ec)))"
      using ec [OF that(1)] that(2)
      by (auto simp: command_providers_def mfe_proxy_command_def split: option.splits sum.splits)
    then show ?thesis
      using task_command_env dist by (auto simp: trace_variable_def)
  qed
  have proxy: "process_env own (ec_cmd ec) key = hm_get own key"
    if "action = VisitExecute ec" "cx_mfe (vs_command_ctx v) = Some mfe" "dev_tasks mfe t = Some devs" for ec mfe devs key
  proof -
    have "mfe_proxy_command (vs_command_ctx v) mfe t ?env \<noteq> Some (Inr None)"
      using that(3) by (auto simp: mfe_proxy_command_def custom_proxy_command_def Let_def split: sum.splits option.splits)
    then have "mfe_proxy_command (vs_command_ctx v) mfe t ?env = Some (Inr (Some (ec_cmd ec)))"
      using ec [OF that(1)] that(2)
      by (auto simp: command_providers_def split: option.splits sum.splits)
    then show ?thesis by (rule proxy_inherits_env)
  qed
  show ?thesis
    using tracked(1) dry live ec vars proxy td env by (intro exI [of _ h]) (auto simp: rc_task_cache_def split: option.splits sum.splits)
qed

text \<open>Where logs are sent on, the output client collects them.\<close>

lemma output_behavior_collects:
  assumes "vs_spaces v" and "oc_behavior c = output_behavior v" and "client_ok c"
    and "client_finish wa t t' err c sk = Some (Inr logs, sk')"
  shows "logs \<noteq> None"
  using client_finish_logs(2) [OF assms(3,4)] assms(1,2) by (auto simp: output_behavior_def split: log_order.splits)

subsection \<open>An example\<close>

definition ran_env :: "(unit, string list) run_env" where
  "ran_env = \<lparr>ru_fetch = (\<lambda>_ _ w. (Inr None, w)), ru_exists = (\<lambda>_ w. (Inr None, w)),
     ru_put = (\<lambda>_ _ _ _ w. (Inr (), w)), ru_changed_outputs = (\<lambda>_ _ w. (Inr [], w)),
     ru_notify_outputs = (\<lambda>_ _ _ _ w. (Inr (), w)), ru_globwalk = (\<lambda>_ _ _ _. Inr [''/repo/a/.nrz/nrz-build.log'']),
     ru_validate_glob = Inr, ru_file_exists = (\<lambda>_ _. False), ru_clean = (\<lambda>p. p), ru_grey = (\<lambda>s. s),
     ru_status = (\<lambda>m _ o'. o' @ [m]), ru_error = (\<lambda>m o'. o' @ [m]), ru_warn = (\<lambda>m o'. o' @ [m]),
     ru_replay_logs = (\<lambda>_ _ o'. (Inr (), o'))\<rparr>"

definition ran_exec :: "int \<Rightarrow> (unit, string list) exec_env" where
  "ran_exec code = \<lparr>ee_run = ran_env, ee_now = (\<lambda>_. 0), ee_elapsed = (\<lambda>_. 5), ee_spawn = (\<lambda>_ w. (Spawned, w)),
     ee_has_stdin = (\<lambda>_. True), ee_open_log = (\<lambda>_ w. (Inr (), w)),
     ee_wait = (\<lambda>_ _ w. (Inr (Some (ExitFinished (Some code))), w)), ee_flush = (\<lambda>w. (Inr (), w)),
     ee_finish_output = (\<lambda>_ _ w. (Inr (Some ''logs''), w)), ee_read_trace = (\<lambda>_ _. None),
     ee_io_message = (\<lambda>_. ''error''), ee_cache_message = (\<lambda>_. ''error'')\<rparr>"

definition ran_context :: exec_context where
  "ran_context = \<lparr>ec_engine = engine_new, ec_ui_mode = StreamUI, ec_ui_output = False, ec_task_id = TaskId ''a'' ''build'',
     ec_task_id_for_display = ''a#build'',
     ec_task_cache = rc_task_cache (run_cache_new ''/repo'' None \<lparr>cc_local = \<lparr>ca_read = True, ca_write = True\<rparr>, cc_remote = \<lparr>ca_read = False, ca_write = False\<rparr>\<rparr> False False)
       task_definition_default sample_info (TaskId ''a'' ''build'') ''abc'',
     ec_task_hash = ''abc'', ec_execution_env = [], ec_continue_on_error = False, ec_takes_input = False,
     ec_access_enabled = False, ec_cmd = sample_command, ec_platform_vars = Map.empty\<rparr>"

definition ran_world :: "(unit, string list) task_world" where
  "ran_world = \<lparr>tw_run = \<lparr>rw_outer = (), rw_out = [], rw_calls = [], rw_cache_warnings = []\<rparr>, tw_messages = [],
     tw_callbacks = [], tw_errors = [], tw_warnings = [], tw_tracker = tracker_new [], tw_stopped = False, tw_spawned = [],
     tw_ui = [], tw_traces = [], tw_spaces = []\<rparr>"

definition failure_message :: string where
  "failure_message = cause_message (ExitCause (command_label sample_command) 1)"

lemma ran_failed: "result_of_run (ran_exec 1) ran_context ran_world = Inr (OutTask (Some 1) failure_message)"
  by code_simp

lemma ran_succeeded: "result_of_run (ran_exec 0) ran_context ran_world = Inr (OutSuccess OutRun)"
  by code_simp

lemma ran_start [simp]:
  "\<not> ec_continue_on_error ran_context" "tc_hash (ec_task_cache ran_context) = ''abc''"
  "tw_messages ran_world = []" "tw_callbacks ran_world = []" "\<not> tw_stopped ran_world"
  "tw_calls ran_world = []" "tw_errors ran_world = []"
  "ee_finish_output (ran_exec code) b c o' = (Inr (Some ''logs''), o')"
  by (simp_all add: ran_context_def ran_world_def ran_exec_def rc_task_cache_def)

theorem execute_task_reports_witness:
  "\<exists>w'. execute_task (ran_exec 1) ran_context True ran_world = Some (Inr (), w') \<and>
     map tm_event (tw_messages w') = [Building, BuildFailed] \<and> tw_callbacks w' = [Inl ()] \<and> tw_stopped w'"
  using execute_task_reports [of True "ran_exec 1" ran_context ran_world]
  by (simp add: ran_failed final_events_def)

theorem execute_task_cache_use_witness:
  "\<exists>res w' reads. execute_task (ran_exec 1) ran_context False ran_world = Some (res, w') \<and>
     tw_calls w' = reads \<and> (reads = [] \<or> reads = [CallFetch ''abc'']) \<and> (\<exists>e. tw_errors w' = [e])"
proof -
  obtain res w' where ex: "execute_task (ran_exec 1) ran_context False ran_world = Some (res, w')"
    by (rule execute_task_steps [of False "ran_exec 1" ran_context ran_world]) simp_all
  have "False \<longrightarrow> (\<forall>b c o' l. fst (ee_finish_output (ran_exec 1) b c o') = Inr l \<longrightarrow> l \<noteq> None)"
    by simp
  from execute_task_cache_use [OF this ex] show ?thesis
    unfolding ran_failed by (intro exI [of _ res] exI [of _ w']) (auto simp: ex)
qed

theorem summary_counts_tasks_witness:
  "\<exists>w1 w2. let s = tracker_finish (tw_messages w2 @ tw_messages w1)
     in task_ran (ran_exec 0, ran_context, ran_world, w1) \<and> task_ran (ran_exec 1, ran_context, ran_world, w2) \<and>
        ss_attempted s = 2 \<and> ss_cached s = 0 \<and> ss_success s = 1 \<and> ss_failed s = 1"
proof -
  have "\<exists>r w'. execute_task (ran_exec code) ran_context False ran_world = Some (r, w')" for code
    by (rule execute_task_steps [of False "ran_exec code" ran_context ran_world]) auto
  then obtain r1 w1 r2 w2 where ex: "execute_task (ran_exec 0) ran_context False ran_world = Some (r1, w1)"
    "execute_task (ran_exec 1) ran_context False ran_world = Some (r2, w2)"
    by metis
  let ?runs = "[(ran_exec 0, ran_context, ran_world, w1), (ran_exec 1, ran_context, ran_world, w2)]"
  have ran: "task_ran (ran_exec 0, ran_context, ran_world, w1)" "task_ran (ran_exec 1, ran_context, ran_world, w2)"
    using ex by (auto simp: task_ran_def ran_world_def)
  then show ?thesis
    using summary_counts_tasks [of ?runs "tw_messages w2 @ tw_messages w1"]
    by (intro exI [of _ w1] exI [of _ w2]) (simp add: run_messages_def run_result_def ran_failed ran_succeeded Let_def)
qed


definition visit_engine :: engine where
  "visit_engine = \<lparr>e_graph = \<lparr>g_nodes = [task_node.RootTask, TaskNode sample_task], g_edges = [(1, 0)]\<rparr>, e_root_index = 0,
     e_task_lookup = [sample_task \<mapsto> 1], e_task_definitions = [(sample_task, sample_definition)],
     e_task_locations = Map.empty, e_package_tasks = Map.empty, e_has_non_interruptible_tasks = False\<rparr>"

definition sample_visitor :: visitor where
  "sample_visitor = \<lparr>vs_dry = False, vs_global_env_mode = Strict, vs_single_package = False, vs_continue_on_error = False,
     vs_ui_mode = Tui, vs_ui_sender = True, vs_access_enabled = False, vs_log_prefix = PrefixTask, vs_log_order = OrderStream,
     vs_spaces = False, vs_run_cache = run_cache_new ''/repo'' None \<lparr>cc_local = \<lparr>ca_read = True, ca_write = True\<rparr>, cc_remote = \<lparr>ca_read = False, ca_write = False\<rparr>\<rparr> False False,
     vs_command_ctx = sample_ctx, vs_platform_vars = Map.empty, vs_nrz_regex = (\<lambda>_. False), vs_hash_order = (\<lambda>_. [task_node.RootTask])\<rparr>"

definition sample_visit :: "(visitor_error, visit_action \<times> unit task_hasher) result option" where
  "sample_visit = visit_message sample_hash_env sample_visitor visit_engine (sample_hasher sample_env) sample_task"


lemma sample_visit_executes: "\<exists>ec th'. sample_visit = Some (Inr (VisitExecute ec, th'))"
proof -
  have "case sample_visit of Some (Inr (VisitExecute _, _)) \<Rightarrow> True | _ \<Rightarrow> False"
    by code_simp
  then show ?thesis
    by (auto split: option.splits sum.splits prod.splits visit_action.splits)
qed

theorem visit_message_consistent_witness:
  "\<exists>ec th' h. sample_visit = Some (Inr (VisitExecute ec, th')) \<and> hm_get (tr_hashes (th_tracker th')) sample_task = Some h \<and>
     tc_hash (ec_task_cache ec) = h \<and> process_env [] (ec_cmd ec) ''NRZ_HASH'' = Some h"
proof -
  obtain ec th' where visit: "sample_visit = Some (Inr (VisitExecute ec, th'))"
    using sample_visit_executes by blast
  have "distinct (map fst (th_env_at_execution_start (sample_hasher sample_env)))" "cx_mfe (vs_command_ctx sample_visitor) = None"
    by (simp_all add: sample_hasher_def sample_env_order sample_visitor_def sample_ctx_def)
  from visit_message_consistent [OF visit [unfolded sample_visit_def] this(1), of "[]"] this(2) visit
  show ?thesis by (intro exI [of _ ec] exI [of _ th']) auto
qed

end
