(* ===== verification/Tui_Tasks.thy ===== *)
theory Tui_Tasks
  imports Run_Cache "HOL-Library.Word" "HOL-Library.Multiset"
begin

text \<open>
  The parts the terminal interface is made of, in \<open>nrzrepo-ui/src/tui\<close>: the tasks by their status
  (\<open>task.rs\<close>), the search over their names (\<open>search.rs\<close>), the sizes of the screen (\<open>size.rs\<close>, with
  \<open>width_hint\<close> of \<open>table.rs\<close>) and the debouncer of resize events (\<open>debouncer.rs\<close>). Points in time are
  numbers of milliseconds that are passed in.
\<close>

subsection \<open>Tasks\<close>

text \<open>\<open>Iterator::position\<close>.\<close>

fun position :: "('a \<Rightarrow> bool) \<Rightarrow> 'a list \<Rightarrow> nat option" where
  "position P [] = None"
| "position P (x # xs) = (if P x then Some 0 else map_option Suc (position P xs))"

lemma position_Some: "position P xs = Some i \<Longrightarrow> i < length xs \<and> P (xs ! i) \<and> (\<forall>j < i. \<not> P (xs ! j))"
proof (induction xs arbitrary: i)
  case (Cons x xs)
  then show ?case by (auto split: if_splits simp: less_Suc_eq_0_disj nth_Cons split: nat.splits)
qed simp

lemma position_None: "position P xs = None \<longleftrightarrow> (\<forall>x \<in> set xs. \<not> P x)"
  by (induction xs) auto

lemma position_eq: "distinct xs \<Longrightarrow> i < length xs \<Longrightarrow> position (\<lambda>x. x = xs ! i) xs = Some i"
  using position_Some [of "\<lambda>x. x = xs ! i" xs] position_None [of "\<lambda>x. x = xs ! i" xs]
  by (cases "position (\<lambda>x. x = xs ! i) xs") (auto simp: nth_eq_iff_index_eq)

record 's tui_task =
  tk_name :: string
  tk_state :: 's

type_synonym planned_task = "unit tui_task"

type_synonym running_task = "nat tui_task"

record finished_state =
  fi_start :: nat
  fi_end :: nat
  fi_result :: task_result

type_synonym finished_task = "finished_state tui_task"

definition tk_new :: "string \<Rightarrow> planned_task" where
  "tk_new name = \<lparr>tk_name = name, tk_state = ()\<rparr>"

definition tk_start :: "nat \<Rightarrow> planned_task \<Rightarrow> running_task" where
  "tk_start now t = \<lparr>tk_name = tk_name t, tk_state = now\<rparr>"

definition tk_finish :: "nat \<Rightarrow> task_result \<Rightarrow> running_task \<Rightarrow> finished_task" where
  "tk_finish now r t = \<lparr>tk_name = tk_name t, tk_state = \<lparr>fi_start = tk_state t, fi_end = now, fi_result = r\<rparr>\<rparr>"

definition tk_restart :: "'s tui_task \<Rightarrow> planned_task" where
  "tk_restart t = \<lparr>tk_name = tk_name t, tk_state = ()\<rparr>"

abbreviation tk_result :: "finished_task \<Rightarrow> task_result" where
  "tk_result t \<equiv> fi_result (tk_state t)"

lemma tk_names [simp]:
  "tk_name (tk_new n) = n" "tk_name (tk_start now p) = tk_name p" "tk_name (tk_finish now r q) = tk_name q"
  "tk_name (tk_restart t) = tk_name t" "tk_result (tk_finish now r q) = r"
  by (simp_all add: tk_new_def tk_start_def tk_finish_def tk_restart_def)

record tasks_by_status =
  tb_running :: "running_task list"
  tb_planned :: "planned_task list"
  tb_finished :: "finished_task list"

definition all_empty :: "tasks_by_status \<Rightarrow> bool" where
  "all_empty tb \<longleftrightarrow> tb_planned tb = [] \<and> tb_finished tb = [] \<and> tb_running tb = []"

definition task_names :: "tasks_by_status \<Rightarrow> string list" where
  "task_names tb = map tk_name (tb_running tb) @ map tk_name (tb_planned tb) @ map tk_name (tb_finished tb)"

definition count_all :: "tasks_by_status \<Rightarrow> nat" where
  "count_all tb = length (task_names tb)"

definition active_index :: "tasks_by_status \<Rightarrow> string \<Rightarrow> nat option" where
  "active_index tb name = position (\<lambda>t. t = name) (task_names tb)"

datatype tui_error =
    TuiMpsc string
  | TaskNotFound string
  | TaskNotFoundIndex nat nat
  | TuiStdin string io_error
  | TuiIo io_error
  | TuiPreferences string

definition task_name_at :: "tasks_by_status \<Rightarrow> nat \<Rightarrow> (tui_error, string) result" where
  "task_name_at tb i =
     (if i < length (task_names tb) then Inr (task_names tb ! i) else Inl (TaskNotFoundIndex i (count_all tb)))"

text \<open>Errors come last, as they are most likely what a user wants to see.\<close>

definition tasks_started :: "tasks_by_status \<Rightarrow> string list" where
  "tasks_started tb =
     map tk_name (filter (\<lambda>t. tk_result t \<noteq> TaskFailure) (tb_finished tb)) @
     map tk_name (tb_running tb) @
     map tk_name (filter (\<lambda>t. tk_result t = TaskFailure) (tb_finished tb))"

text \<open>A list of planned tasks is sorted: by the names, as there is nothing else in them.\<close>

definition sort_planned :: "planned_task list \<Rightarrow> planned_task list" where
  "sort_planned = sort_key tk_name"

definition planned_list :: "string list \<Rightarrow> planned_task list" where
  "planned_list names = remdups_adj (sort_planned (map tk_new names))"

definition tb_restart_tasks :: "string list \<Rightarrow> tasks_by_status \<Rightarrow> tasks_by_status" where
  "tb_restart_tasks names tb =
     (let planned = tb_planned tb @
            map tk_restart (filter (\<lambda>t. tk_name t \<in> set names) (tb_running tb)) @
            map tk_restart (filter (\<lambda>t. tk_name t \<in> set names) (tb_finished tb));
          unknown = filter (\<lambda>n. n \<notin> tk_name ` set planned) (remdups names)
      in \<lparr>tb_running = filter (\<lambda>t. tk_name t \<notin> set names) (tb_running tb),
          tb_planned = sort_planned (planned @ map tk_new unknown),
          tb_finished = filter (\<lambda>t. tk_name t \<notin> set names) (tb_finished tb)\<rparr>)"

definition finished_index :: "task_result \<Rightarrow> finished_task list \<Rightarrow> nat" where
  "finished_index r ts =
     (case (case r of
              TaskFailure \<Rightarrow> position (\<lambda>t. tk_result t \<noteq> TaskFailure) ts
            | TaskSuccess \<Rightarrow> position (\<lambda>t. \<not> (tk_result t = TaskFailure \<or> tk_result t = TaskSuccess)) ts
            | TaskCacheHit \<Rightarrow> None) of
        Some i \<Rightarrow> i
      | None \<Rightarrow> length ts)"

definition insert_finished_task :: "finished_task \<Rightarrow> tasks_by_status \<Rightarrow> tasks_by_status" where
  "insert_finished_task t tb =
     (let i = finished_index (tk_result t) (tb_finished tb)
      in tb\<lparr>tb_finished := take i (tb_finished tb) @ t # drop i (tb_finished tb)\<rparr>)"

subsection \<open>Search\<close>

record search_results =
  sr_query :: string
  sr_tasks :: "string list"
  sr_matches :: "string list"

definition search_new :: "tasks_by_status \<Rightarrow> search_results" where
  "search_new tb = \<lparr>sr_query = [], sr_tasks = task_names tb, sr_matches = []\<rparr>"

definition update_matches :: "search_results \<Rightarrow> search_results" where
  "update_matches sr =
     (if sr_query sr = [] then sr\<lparr>sr_matches := []\<rparr>
      else sr\<lparr>sr_matches := filter (\<lambda>t. str_contains t (sr_query sr)) (sr_tasks sr)\<rparr>)"

definition search_update_tasks :: "tasks_by_status \<Rightarrow> search_results \<Rightarrow> search_results" where
  "search_update_tasks tb sr = update_matches (sr\<lparr>sr_tasks := task_names tb\<rparr>)"

definition modify_query :: "(string \<Rightarrow> string) \<Rightarrow> search_results \<Rightarrow> search_results" where
  "modify_query f sr = update_matches (sr\<lparr>sr_query := f (sr_query sr)\<rparr>)"

definition first_match :: "search_results \<Rightarrow> string list \<Rightarrow> string option" where
  "first_match sr names = List.find (\<lambda>t. t \<in> set (sr_matches sr)) names"

subsection \<open>Sizes\<close>

text \<open>Sizes are 16 bit words. Three quarters of such a number are exact in 32 bit floating point.\<close>

type_synonym u16 = "16 word"

record size_info =
  sz_task_width_hint :: u16
  sz_rows :: u16
  sz_cols :: u16

definition saturating_sub :: "u16 \<Rightarrow> u16 \<Rightarrow> u16" where
  "saturating_sub a b = (if a \<le> b then 0 else a - b)"

text \<open>The instructions of the task table take 16 bytes in UTF-8.\<close>

definition width_hint :: "string list \<Rightarrow> u16" where
  "width_hint names = of_nat (min 40 (max 16 (fold max (map length names) 0))) + 1"

definition size_new :: "u16 \<Rightarrow> u16 \<Rightarrow> string list \<Rightarrow> size_info" where
  "size_new rows cols names = \<lparr>sz_task_width_hint = width_hint names, sz_rows = rows, sz_cols = cols\<rparr>"

definition size_resize :: "u16 \<Rightarrow> u16 \<Rightarrow> size_info \<Rightarrow> size_info" where
  "size_resize rows cols sz = sz\<lparr>sz_rows := rows, sz_cols := cols\<rparr>"

definition pane_rows :: "size_info \<Rightarrow> u16" where
  "pane_rows sz = max (saturating_sub (sz_rows sz) 2) 1"

definition pane_cols :: "size_info \<Rightarrow> u16" where
  "pane_cols sz =
     (let ratio_pane_width = of_nat (unat (sz_cols sz) * 3 div 4);
          full_task_width = saturating_sub (sz_cols sz) (sz_task_width_hint sz)
      in saturating_sub (max full_task_width ratio_pane_width) 1)"

definition task_list_width :: "size_info \<Rightarrow> u16" where
  "task_list_width sz = sz_cols sz - pane_cols sz"

subsection \<open>Debouncing\<close>

record 'a debouncer =
  db_value :: "'a option"
  db_duration :: nat
  db_start :: "nat option"

definition debouncer_new :: "nat \<Rightarrow> 'a debouncer" where
  "debouncer_new d = \<lparr>db_value = None, db_duration = d, db_start = None\<rparr>"

definition db_query :: "nat \<Rightarrow> 'a debouncer \<Rightarrow> 'a option \<times> 'a debouncer" where
  "db_query now d =
     (case db_start d of
        Some s \<Rightarrow> if now - s \<ge> db_duration d then (db_value d, d\<lparr>db_start := None, db_value := None\<rparr>) else (None, d)
      | None \<Rightarrow> (None, d))"

definition db_insert_value :: "nat \<Rightarrow> 'a option \<Rightarrow> 'a debouncer \<Rightarrow> 'a debouncer" where
  "db_insert_value now v d =
     (let d' = d\<lparr>db_start := Some (case db_start d of Some s \<Rightarrow> s | None \<Rightarrow> now)\<rparr>
      in case v of Some x \<Rightarrow> d'\<lparr>db_value := Some x\<rparr> | None \<Rightarrow> d')"

definition db_update :: "nat \<Rightarrow> nat \<Rightarrow> 'a \<Rightarrow> 'a debouncer \<Rightarrow> 'a option \<times> 'a debouncer" where
  "db_update now later x d = db_query later (db_insert_value now (Some x) d)"


subsection \<open>Moving tasks\<close>

text \<open>What \<open>start_task\<close> and \<open>finish_task\<close> of the application do to the lists.\<close>

definition remove_at :: "nat \<Rightarrow> 'a list \<Rightarrow> 'a list" where
  "remove_at i xs = take i xs @ drop (Suc i) xs"

definition start_planned :: "nat \<Rightarrow> string \<Rightarrow> tasks_by_status \<Rightarrow> tasks_by_status option" where
  "start_planned now name tb =
     (case position (\<lambda>t. tk_name t = name) (tb_planned tb) of
        None \<Rightarrow> None
      | Some i \<Rightarrow>
          Some (tb\<lparr>tb_planned := remove_at i (tb_planned tb),
                   tb_running := tb_running tb @ [tk_start now (tb_planned tb ! i)]\<rparr>))"

definition finish_running :: "nat \<Rightarrow> string \<Rightarrow> task_result \<Rightarrow> tasks_by_status \<Rightarrow> tasks_by_status option" where
  "finish_running now name r tb =
     (case position (\<lambda>t. tk_name t = name) (tb_running tb) of
        None \<Rightarrow> None
      | Some i \<Rightarrow>
          Some (insert_finished_task (tk_finish now r (tb_running tb ! i))
            (tb\<lparr>tb_running := remove_at i (tb_running tb)\<rparr>)))"

subsection \<open>What the lists stand for\<close>

datatype tui_status = StPlanned | StRunning nat | StFinished finished_state

definition status_pairs :: "tasks_by_status \<Rightarrow> (string \<times> tui_status) list" where
  "status_pairs tb =
     map (\<lambda>t. (tk_name t, StRunning (tk_state t))) (tb_running tb) @
     map (\<lambda>t. (tk_name t, StPlanned)) (tb_planned tb) @
     map (\<lambda>t. (tk_name t, StFinished (tk_state t))) (tb_finished tb)"

abbreviation status_of :: "tasks_by_status \<Rightarrow> string \<Rightarrow> tui_status option" where
  "status_of tb \<equiv> map_of (status_pairs tb)"

definition result_rank :: "task_result \<Rightarrow> nat" where
  "result_rank r = (case r of TaskFailure \<Rightarrow> 0 | TaskSuccess \<Rightarrow> 1 | TaskCacheHit \<Rightarrow> 2)"

text \<open>Names are unique, and finished tasks are shown failures first and cache hits last.\<close>

definition tasks_ok :: "tasks_by_status \<Rightarrow> bool" where
  "tasks_ok tb \<longleftrightarrow> distinct (task_names tb) \<and> sorted (map (result_rank \<circ> tk_result) (tb_finished tb))"

lemma fst_status_pairs: "map fst (status_pairs tb) = task_names tb"
  by (simp add: status_pairs_def task_names_def)

lemma status_of_iff:
  assumes "tasks_ok tb"
  shows "status_of tb n = Some s \<longleftrightarrow> (n, s) \<in> set (status_pairs tb)"
  using assms by (simp add: map_of_eq_Some_iff fst_status_pairs tasks_ok_def)

lemma status_of_None: "status_of tb n = None \<longleftrightarrow> n \<notin> set (task_names tb)"
  by (simp add: map_of_eq_None_iff flip: fst_status_pairs)

lemma mset_remove_at: "i < length xs \<Longrightarrow> mset xs = add_mset (xs ! i) (mset (remove_at i xs))"
  by (metis add.right_neutral add_mset_add_single id_take_nth_drop mset.simps(2) mset_append remove_at_def union_mset_add_mset_right)

lemma distinct_map_mid: "distinct (map f (ys @ x # zs)) \<Longrightarrow> \<forall>y \<in> set ys \<union> set zs. f y \<noteq> f x"
  by (simp add: image_iff) (metis Un_iff)

lemma remove_at_split:
  assumes "i < length xs" "distinct (map f xs)"
  obtains ys zs where "xs = ys @ xs ! i # zs" "remove_at i xs = ys @ zs" "\<forall>x \<in> set ys \<union> set zs. f x \<noteq> f (xs ! i)"
proof -
  have xs: "xs = take i xs @ xs ! i # drop (Suc i) xs"
    using assms(1) by (rule id_take_nth_drop)
  then have "distinct (map f (take i xs @ xs ! i # drop (Suc i) xs))"
    using assms(2) by metis
  then show ?thesis
    by (intro that [OF xs]) (simp only: remove_at_def, rule distinct_map_mid)
qed

lemma tasks_ok_position:
  assumes "position (\<lambda>t. tk_name t = n) ts = Some i"
  shows "i < length ts" "tk_name (ts ! i) = n"
  using position_Some [OF assms] by simp_all

lemma status_ofI:
  assumes "tasks_ok tb" "tasks_ok tb'" "set (status_pairs tb') = {(m, s) \<in> set (status_pairs tb). m \<noteq> n} \<union> {(n, s')}"
  shows "status_of tb' = (status_of tb)(n \<mapsto> s')"
proof
  fix m
  have "status_of tb' m = Some s \<longleftrightarrow> ((status_of tb)(n \<mapsto> s')) m = Some s" for s
    using status_of_iff [OF assms(1)] status_of_iff [OF assms(2)] assms(3) by auto
  then show "status_of tb' m = ((status_of tb)(n \<mapsto> s')) m"
    by (metis not_None_eq)
qed

lemma status_planned_iff:
  assumes "tasks_ok tb"
  shows "status_of tb n = Some StPlanned \<longleftrightarrow> n \<in> tk_name ` set (tb_planned tb)"
    "(\<exists>s. status_of tb n = Some (StRunning s)) \<longleftrightarrow> n \<in> tk_name ` set (tb_running tb)"
  unfolding status_of_iff [OF assms] by (auto simp: status_pairs_def)

lemma start_planned_spec:
  assumes ok: "tasks_ok tb"
  shows "case start_planned now n tb of
      None \<Rightarrow> status_of tb n \<noteq> Some StPlanned
    | Some tb' \<Rightarrow> status_of tb n = Some StPlanned \<and> tasks_ok tb' \<and> set (task_names tb') = set (task_names tb) \<and>
        length (task_names tb') = length (task_names tb) \<and> status_of tb' = (status_of tb)(n \<mapsto> StRunning now)"
proof (cases "position (\<lambda>t. tk_name t = n) (tb_planned tb)")
  case None
  then have "n \<notin> tk_name ` set (tb_planned tb)"
    by (auto simp: position_None)
  then show ?thesis
    by (simp add: start_planned_def None status_planned_iff(1) [OF ok])
next
  case (Some i)
  note i = tasks_ok_position [OF Some]
  have "distinct (map tk_name (tb_planned tb))"
    using ok by (simp add: tasks_ok_def task_names_def)
  then obtain ys x zs where split: "tb_planned tb = ys @ x # zs" "remove_at i (tb_planned tb) = ys @ zs"
    "\<forall>t \<in> set ys \<union> set zs. tk_name t \<noteq> n" and x: "tb_planned tb ! i = x" "tk_name x = n"
    using remove_at_split [OF i(1)] i(2) by metis
  define tb' where "tb' = tb\<lparr>tb_planned := ys @ zs, tb_running := tb_running tb @ [tk_start now x]\<rparr>"
  have start: "start_planned now n tb = Some tb'"
    by (simp add: start_planned_def Some split(2) tb'_def x)
  have names: "mset (task_names tb') = mset (task_names tb)"
    by (simp add: task_names_def tb'_def split(1))
  have "n \<notin> tk_name ` set (tb_running tb)" "n \<notin> tk_name ` set (tb_finished tb)"
    using ok x(2) by (auto simp: tasks_ok_def task_names_def split(1))
  then have "\<forall>t \<in> set (tb_running tb). tk_name t \<noteq> n" "\<forall>t \<in> set (tb_finished tb). tk_name t \<noteq> n"
    by blast+
  then have pairs: "set (status_pairs tb') = {(m, s) \<in> set (status_pairs tb). m \<noteq> n} \<union> {(n, StRunning now)}"
    unfolding status_pairs_def tb'_def using split(3) x(2) by (auto simp: tk_start_def split(1))
  have "tasks_ok tb'"
    using ok mset_eq_imp_distinct_iff [OF names] by (simp add: tasks_ok_def tb'_def)
  moreover have "status_of tb n = Some StPlanned"
    using i by (auto simp: status_planned_iff(1) [OF ok])
  ultimately show ?thesis
    using status_ofI [OF ok _ pairs] mset_eq_setD [OF names] mset_eq_length [OF names] by (simp add: start)
qed


lemma position_takeWhile:
  "(case position (\<lambda>x. \<not> P x) xs of Some i \<Rightarrow> i | None \<Rightarrow> length xs) = length (takeWhile P xs)"
  by (induction xs) (auto split: option.splits)

lemma finished_index_eq: "finished_index r ts = length (takeWhile (\<lambda>t. result_rank (tk_result t) \<le> result_rank r) ts)"
proof -
  have rank: "(\<lambda>t. tk_result t \<noteq> TaskFailure) = (\<lambda>t. \<not> result_rank (tk_result t) \<le> result_rank TaskFailure)"
    "(\<lambda>t. \<not> (tk_result t = TaskFailure \<or> tk_result t = TaskSuccess)) = (\<lambda>t. \<not> result_rank (tk_result t) \<le> result_rank TaskSuccess)"
    and hit: "result_rank (tk_result t) \<le> result_rank TaskCacheHit" for t
    by (simp_all add: fun_eq_iff result_rank_def split: task_result.split)
  have "takeWhile (\<lambda>t. result_rank (tk_result t) \<le> result_rank TaskCacheHit) ts = ts"
    using hit by (simp only: takeWhile_eq_all_conv) blast
  then show ?thesis
    unfolding finished_index_def rank by (cases r) (simp_all only: position_takeWhile task_result.case option.case)
qed

lemma insert_finished_eq:
  "tb_finished (insert_finished_task t tb) =
     takeWhile (\<lambda>x. result_rank (tk_result x) \<le> result_rank (tk_result t)) (tb_finished tb) @
     t # dropWhile (\<lambda>x. result_rank (tk_result x) \<le> result_rank (tk_result t)) (tb_finished tb)"
  by (simp add: insert_finished_task_def finished_index_eq Let_def takeWhile_eq_take [symmetric] dropWhile_eq_drop [symmetric])

lemma insert_finished_keeps [simp]:
  "tb_running (insert_finished_task t tb) = tb_running tb" "tb_planned (insert_finished_task t tb) = tb_planned tb"
  by (simp_all add: insert_finished_task_def Let_def)

lemma mset_insert_finished: "mset (tb_finished (insert_finished_task t tb)) = add_mset t (mset (tb_finished tb))"
proof -
  have "mset (takeWhile P xs) + mset (dropWhile P xs) = mset xs" for P and xs :: "finished_task list"
    by (simp flip: mset_append)
  then show ?thesis unfolding insert_finished_eq by simp
qed

lemma sorted_insert_after:
  fixes f :: "'a \<Rightarrow> 'b::linorder"
  assumes "sorted (map f xs)"
  shows "sorted (map f (takeWhile (\<lambda>x. f x \<le> f t) xs @ t # dropWhile (\<lambda>x. f x \<le> f t) xs))"
    and "filter (\<lambda>x. f x = k) (takeWhile (\<lambda>x. f x \<le> f t) xs @ t # dropWhile (\<lambda>x. f x \<le> f t) xs) =
      filter (\<lambda>x. f x = k) xs @ (if f t = k then [t] else [])"
  using assms
proof (induction xs)
  case (Cons x xs)
  {
    case 1
    then show ?case using Cons.IH(1) by (auto dest: set_takeWhileD set_dropWhileD)
  next
    case 2
    then have "f t < f x \<Longrightarrow> filter (\<lambda>x. f x = f t) xs = []"
      by (auto simp: filter_empty_conv)
    then show ?case using 2 Cons.IH(2) by auto
  }
qed auto


lemma insert_finished_sorted:
  assumes "sorted (map (result_rank \<circ> tk_result) (tb_finished tb))"
  shows "sorted (map (result_rank \<circ> tk_result) (tb_finished (insert_finished_task t tb)))"
    and "filter (\<lambda>x. tk_result x = r) (tb_finished (insert_finished_task t tb)) =
      filter (\<lambda>x. tk_result x = r) (tb_finished tb) @ (if tk_result t = r then [t] else [])"
proof -
  have rank: "tk_result x = r \<longleftrightarrow> (result_rank \<circ> tk_result) x = result_rank r" for x
    by (simp add: result_rank_def split: task_result.split)
  note after = sorted_insert_after [OF assms, where t = t]
  show "sorted (map (result_rank \<circ> tk_result) (tb_finished (insert_finished_task t tb)))"
    using after(1) by (simp add: insert_finished_eq)
  show "filter (\<lambda>x. tk_result x = r) (tb_finished (insert_finished_task t tb)) =
      filter (\<lambda>x. tk_result x = r) (tb_finished tb) @ (if tk_result t = r then [t] else [])"
    unfolding rank using after(2) by (simp add: insert_finished_eq)
qed

lemma finish_running_spec:
  assumes ok: "tasks_ok tb"
  shows "case finish_running now n r tb of
      None \<Rightarrow> (\<nexists>s. status_of tb n = Some (StRunning s))
    | Some tb' \<Rightarrow> \<exists>s. status_of tb n = Some (StRunning s) \<and> tasks_ok tb' \<and> set (task_names tb') = set (task_names tb) \<and>
        length (task_names tb') = length (task_names tb) \<and>
        status_of tb' = (status_of tb)(n \<mapsto> StFinished \<lparr>fi_start = s, fi_end = now, fi_result = r\<rparr>)"
proof (cases "position (\<lambda>t. tk_name t = n) (tb_running tb)")
  case None
  then have "n \<notin> tk_name ` set (tb_running tb)"
    by (auto simp: position_None)
  then show ?thesis
    by (simp add: finish_running_def None status_planned_iff(2) [OF ok])
next
  case (Some i)
  note i = tasks_ok_position [OF Some]
  have "distinct (map tk_name (tb_running tb))"
    using ok by (simp add: tasks_ok_def task_names_def)
  then obtain ys x zs where split: "tb_running tb = ys @ x # zs" "remove_at i (tb_running tb) = ys @ zs"
    "\<forall>t \<in> set ys \<union> set zs. tk_name t \<noteq> n" and x: "tb_running tb ! i = x" "tk_name x = n"
    using remove_at_split [OF i(1)] i(2) by metis
  define tb' where "tb' = insert_finished_task (tk_finish now r x) (tb\<lparr>tb_running := ys @ zs\<rparr>)"
  have finish: "finish_running now n r tb = Some tb'"
    by (simp add: finish_running_def Some split(2) tb'_def x)
  have fin: "mset (tb_finished tb') = add_mset (tk_finish now r x) (mset (tb_finished tb))"
    by (simp add: tb'_def mset_insert_finished)
  have finset: "set (tb_finished tb') = insert (tk_finish now r x) (set (tb_finished tb))"
    using arg_cong [OF fin, of set_mset] by simp
  have parts: "tb_running tb' = ys @ zs" "tb_planned tb' = tb_planned tb"
    by (simp_all add: tb'_def)
  have "mset (map tk_name (tb_finished tb')) = add_mset n (mset (map tk_name (tb_finished tb)))"
    using fin x(2) by simp
  then have names: "mset (task_names tb') = mset (task_names tb)"
    using x(2) by (simp add: task_names_def parts split(1))
  have "n \<notin> tk_name ` set (tb_planned tb)" "n \<notin> tk_name ` set (tb_finished tb)"
    using ok x(2) by (auto simp: tasks_ok_def task_names_def split(1))
  then have "\<forall>t \<in> set (tb_planned tb). tk_name t \<noteq> n" "\<forall>t \<in> set (tb_finished tb). tk_name t \<noteq> n"
    by blast+
  then have pairs: "set (status_pairs tb') = {(m, s) \<in> set (status_pairs tb). m \<noteq> n} \<union>
      {(n, StFinished \<lparr>fi_start = tk_state x, fi_end = now, fi_result = r\<rparr>)}"
    unfolding status_pairs_def using split(3) x(2)
    by (auto simp: tk_finish_def split(1) parts finset)
  have "tasks_ok tb'"
    using ok mset_eq_imp_distinct_iff [OF names] insert_finished_sorted(1) by (simp add: tasks_ok_def tb'_def)
  moreover have "status_of tb n = Some (StRunning (tk_state x))"
    unfolding status_of_iff [OF ok] using x(2) by (auto simp: status_pairs_def split(1))
  ultimately show ?thesis
    using status_ofI [OF ok _ pairs] mset_eq_setD [OF names] mset_eq_length [OF names] by (simp add: finish)
qed


lemma planned_eq_iff: "tk_name a = tk_name b \<longleftrightarrow> a = b" for a b :: planned_task
  by (cases a; cases b) simp

lemma sorted_remdups_adj_distinct:
  fixes ts :: "planned_task list"
  assumes "sorted (map tk_name ts)"
  shows "distinct (map tk_name (remdups_adj ts))"
  using assms by (induction ts rule: remdups_adj.induct) (force simp: planned_eq_iff)+

lemma planned_list_names:
  "tk_name ` set (planned_list names) = set names" "distinct (map tk_name (planned_list names))"
  by (simp add: planned_list_def sort_planned_def image_image)
    (simp add: planned_list_def sort_planned_def sorted_remdups_adj_distinct)

lemma mset_map_filter_split: "mset (map f (filter P xs)) + mset (map f (filter (\<lambda>x. \<not> P x) xs)) = mset (map f xs)"
  by (simp flip: image_mset_union multiset_partition)

lemma restart_names:
  assumes ok: "tasks_ok tb"
  shows "tasks_ok (tb_restart_tasks names tb) \<and>
    set (task_names (tb_restart_tasks names tb)) = set (task_names tb) \<union> set names"
proof -
  let ?in = "\<lambda>t. tk_name t \<in> set names"
  define planned where "planned = tb_planned tb @ map tk_restart (filter ?in (tb_running tb)) @ map tk_restart (filter ?in (tb_finished tb))"
  define unknown where "unknown = filter (\<lambda>n. n \<notin> tk_name ` set planned) (remdups names)"
  have re: "tb_restart_tasks names tb = \<lparr>tb_running = filter (\<lambda>t. \<not> ?in t) (tb_running tb),
      tb_planned = sort_planned (planned @ map tk_new unknown), tb_finished = filter (\<lambda>t. \<not> ?in t) (tb_finished tb)\<rparr>"
    by (simp add: tb_restart_tasks_def planned_def unknown_def Let_def)
  have "mset (task_names (tb_restart_tasks names tb)) =
      mset (map tk_name (filter (\<lambda>t. \<not> ?in t) (tb_running tb))) + mset (map tk_name (tb_planned tb)) +
      mset (map tk_name (filter ?in (tb_running tb))) + mset (map tk_name (filter ?in (tb_finished tb))) + mset unknown +
      mset (map tk_name (filter (\<lambda>t. \<not> ?in t) (tb_finished tb)))"
    by (simp add: re task_names_def sort_planned_def planned_def multiset.map_comp comp_def)
  also have "\<dots> = mset (task_names tb @ unknown)"
    using mset_map_filter_split [of tk_name ?in "tb_running tb"] mset_map_filter_split [of tk_name ?in "tb_finished tb"]
    by (simp add: task_names_def ac_simps)
  finally have names: "mset (task_names (tb_restart_tasks names tb)) = mset (task_names tb @ unknown)" .
  have unknown: "set unknown = set names - set (task_names tb)"
    unfolding unknown_def planned_def by (auto simp: task_names_def image_image image_Un)
  have "distinct (task_names tb @ unknown)"
    using ok unknown by (auto simp: tasks_ok_def unknown_def)
  then have "tasks_ok (tb_restart_tasks names tb)"
    using ok mset_eq_imp_distinct_iff [OF names] by (simp add: tasks_ok_def re sorted_filter)
  then show ?thesis
    using mset_eq_setD [OF names] unknown by auto
qed

lemma restart_status:
  assumes ok: "tasks_ok tb"
  shows "status_of (tb_restart_tasks names tb) n = (if n \<in> set names then Some StPlanned else status_of tb n)"
proof -
  have ok': "tasks_ok (tb_restart_tasks names tb)"
    using restart_names [OF ok] by blast
  show ?thesis
  proof (cases "n \<in> set names")
    case True
    then have "n \<in> tk_name ` set (tb_planned (tb_restart_tasks names tb))"
      by (auto simp: tb_restart_tasks_def Let_def sort_planned_def image_Un image_image)
    then show ?thesis
      using True status_planned_iff(1) [OF ok'] by simp
  next
    case False
    then have "(n, s) \<in> set (status_pairs (tb_restart_tasks names tb)) \<longleftrightarrow> (n, s) \<in> set (status_pairs tb)" for s
      by (auto simp: status_pairs_def tb_restart_tasks_def Let_def sort_planned_def)
    then have "status_of (tb_restart_tasks names tb) n = Some s \<longleftrightarrow> status_of tb n = Some s" for s
      unfolding status_of_iff [OF ok] status_of_iff [OF ok'] .
    then show ?thesis
      using False by (metis not_None_eq)
  qed
qed

subsection \<open>Properties of sizes and of the debouncer\<close>

lemma saturating_sub_unat: "unat (saturating_sub a b) = unat a - unat b"
  by (simp add: saturating_sub_def word_le_nat_alt unat_sub)

lemma unat_max: "unat (max a b) = max (unat a) (unat b)" for a b :: u16
  by (simp add: max_def word_le_nat_alt)

lemma pane_cols_unat:
  "unat (pane_cols sz) = max (unat (sz_cols sz) - unat (sz_task_width_hint sz)) (unat (sz_cols sz) * 3 div 4) - 1"
proof -
  have "unat (sz_cols sz) < 2 ^ LENGTH(16)"
    by (rule unsigned_less)
  then have "unat (sz_cols sz) * 3 div 4 < 2 ^ 16"
    by simp
  then have "unat (of_nat (unat (sz_cols sz) * 3 div 4) :: u16) = unat (sz_cols sz) * 3 div 4"
    by (simp add: unat_of_nat)
  then show ?thesis
    by (simp add: pane_cols_def Let_def saturating_sub_unat unat_max)
qed

text \<open>
  C26: Whatever the size of the terminal, down to none at all, the pane has at least one row, the widths of the task list and of
  the pane add up to the width of the terminal without a wrap, and the pane has close to three quarters
  of it.
\<close>

theorem pane_sizes:
  "1 \<le> unat (pane_rows sz) \<and> unat (task_list_width sz) + unat (pane_cols sz) = unat (sz_cols sz) \<and>
   unat (sz_cols sz) * 3 div 4 \<le> unat (pane_cols sz) + 1"
proof -
  have le: "unat (pane_cols sz) \<le> unat (sz_cols sz)"
    unfolding pane_cols_unat by linarith
  then have "unat (task_list_width sz) = unat (sz_cols sz) - unat (pane_cols sz)"
    by (simp add: task_list_width_def unat_sub word_le_nat_alt)
  moreover have "1 \<le> unat (pane_rows sz)"
    by (simp add: pane_rows_def unat_max)
  moreover have "unat (sz_cols sz) * 3 div 4 \<le> unat (pane_cols sz) + 1"
    unfolding pane_cols_unat by linarith
  ultimately show ?thesis using le by simp
qed

text \<open>Values are taken by the debouncer at given times; each step may yield a value.\<close>

fun debounce :: "'a debouncer \<Rightarrow> (nat \<times> 'a option) list \<Rightarrow> 'a option list \<times> 'a debouncer" where
  "debounce d [] = ([], d)"
| "debounce d ((now, v) # steps) =
     (let (out, d') = (case v of Some x \<Rightarrow> db_update now now x d | None \<Rightarrow> db_query now d);
          (outs, d'') = debounce d' steps
      in (out # outs, d''))"


fun somes :: "'a option list \<Rightarrow> 'a list" where
  "somes [] = []"
| "somes (None # xs) = somes xs"
| "somes (Some x # xs) = x # somes xs"

abbreviation values_of :: "(nat \<times> 'a option) list \<Rightarrow> 'a list" where
  "values_of steps \<equiv> somes (map snd steps)"

lemma debounce_snoc:
  "debounce d (steps @ [(now, v)]) =
     (let (outs, d') = debounce d steps;
          (out, d'') = (case v of Some x \<Rightarrow> db_update now now x d' | None \<Rightarrow> db_query now d')
      in (outs @ [out], d''))"
  by (induction steps arbitrary: d) (auto simp: Let_def split: prod.splits option.splits)

lemma somes_append [simp]: "somes (xs @ ys) = somes xs @ somes ys"
  by (induction xs rule: somes.induct) auto

text \<open>What the debouncer holds is the latest value; if it holds none, the latest value was the last to be yielded.\<close>

lemma debounce_holds_latest:
  assumes "debounce (debouncer_new dur) steps = (outs, d)"
  shows "db_duration d = dur \<and> (db_start d = None \<longleftrightarrow> db_value d = None) \<and> (\<forall>s. db_start d = Some s \<longrightarrow> s \<in> fst ` set steps) \<and>
    (values_of steps \<noteq> [] \<longrightarrow>
      (case db_value d of Some x \<Rightarrow> x = last (values_of steps) | None \<Rightarrow> somes outs \<noteq> [] \<and> last (somes outs) = last (values_of steps)))"
  using assms
proof (induction steps arbitrary: outs d rule: rev_induct)
  case (snoc step steps)
  obtain now v where step: "step = (now, v)" by fastforce
  obtain outs1 d1 where before: "debounce (debouncer_new dur) steps = (outs1, d1)" by fastforce
  note IH = snoc.IH [OF before]
  show ?case
  proof (cases v)
    case None
    then show ?thesis
      using snoc.prems IH
      by (auto simp: step debounce_snoc before db_query_def split: option.splits if_splits)
  next
    case (Some x)
    then show ?thesis
      using snoc.prems IH
      by (auto simp: step debounce_snoc before db_update_def db_query_def db_insert_value_def Let_def split: option.splits if_splits intro: rev_image_eqI)
  qed
qed (auto simp: debouncer_new_def)

text \<open>
  The debouncer never loses the latest value: when it is asked a last time after its delay has passed, the latest of
  the values it was given is the last of those it yielded.
\<close>

lemma debounce_yields_latest:
  assumes "debounce (debouncer_new dur) (steps @ [(now, None)]) = (outs, d)"
    and "values_of steps \<noteq> []" and "\<forall>t \<in> fst ` set steps. t + dur \<le> now"
  shows "somes outs \<noteq> [] \<and> last (somes outs) = last (values_of steps)"
proof -
  obtain outs1 d1 where before: "debounce (debouncer_new dur) steps = (outs1, d1)" by fastforce
  note holds = debounce_holds_latest [OF before]
  show ?thesis
  proof (cases "db_start d1")
    case None
    then show ?thesis
      using assms(1,2) holds by (auto simp: debounce_snoc before db_query_def)
  next
    case (Some s)
    then have "now - s \<ge> db_duration d1"
      using holds assms(3) by force
    then show ?thesis
      using assms(1,2) holds Some by (auto simp: debounce_snoc before db_query_def split: option.splits)
  qed
qed

end
