(* ===== verification/Tui_App.thy ===== *)
theory Tui_App
  imports Tui_Tasks
begin

text \<open>
  The terminal interface, \<open>nrzrepo-ui/src/tui\<close>: the state of the application and what each event does
  to it (\<open>app.rs\<close>), the output kept for each task (\<open>term_output.rs\<close>), the preferences
  (\<open>preferences.rs\<close>) and the loop that takes events. The terminal emulator (\<open>nrzrepo-vt100\<close>) and the
  input of a running task are an environment, the clock is passed in. \<open>None\<close> is a panic: the emulator
  has panics of its own, so each of its operations may be \<open>None\<close>, and the interface then panics as well.
\<close>

subsection \<open>Output of a task\<close>

text \<open>
  The emulator, a screen of type \<open>'p\<close>: making one, giving it bytes, the selection, the rows of everything
  it keeps, and those it shows. Reading its size or scroll position, and setting the latter, only copy
  and clamp numbers and can not panic.
\<close>

record ('p, 'i) tui_env =
  vt_new :: "u16 \<Rightarrow> u16 \<Rightarrow> 'p option"
  vt_process :: "string \<Rightarrow> 'p \<Rightarrow> 'p option"
  vt_size :: "'p \<Rightarrow> u16 \<times> u16"
  vt_scrollback :: "'p \<Rightarrow> nat"
  vt_set_scrollback :: "nat \<Rightarrow> 'p \<Rightarrow> 'p"
  vt_selected_text :: "'p \<Rightarrow> string option option"
  vt_clear_selection :: "'p \<Rightarrow> 'p option"
  vt_update_selection :: "u16 \<Rightarrow> u16 \<Rightarrow> 'p \<Rightarrow> 'p option"
  vt_rows :: "'p \<Rightarrow> string list option"
  vt_visible :: "'p \<Rightarrow> string list option"
  vt_stdin_write :: "string \<Rightarrow> 'i \<Rightarrow> (io_error, unit) result \<times> 'i"

record ('p, 'i) terminal_output =
  to_output :: string
  to_parser :: 'p
  to_stdin :: "'i option"
  to_status :: "string option"
  to_output_logs :: "output_logs_mode option"
  to_task_result :: "task_result option"
  to_cache_result :: "cache_result option"

definition to_new :: "('p, 'i) tui_env \<Rightarrow> u16 \<Rightarrow> u16 \<Rightarrow> ('p, 'i) terminal_output option" where
  "to_new te rows cols =
     map_option (\<lambda>p. \<lparr>to_output = [], to_parser = p, to_stdin = None, to_status = None, to_output_logs = None,
       to_task_result = None, to_cache_result = None\<rparr>) (vt_new te rows cols)"

definition to_title :: "string \<Rightarrow> ('p, 'i) terminal_output \<Rightarrow> string" where
  "to_title name t =
     (case to_status t of Some st \<Rightarrow> '' '' @ name @ '' > '' @ st @ '' '' | None \<Rightarrow> '' '' @ name @ '' > '')"

definition to_process :: "('p, 'i) tui_env \<Rightarrow> string \<Rightarrow> ('p, 'i) terminal_output \<Rightarrow> ('p, 'i) terminal_output option" where
  "to_process te bytes t =
     map_option (\<lambda>p. t\<lparr>to_parser := p, to_output := to_output t @ bytes\<rparr>) (vt_process te bytes (to_parser t))"

definition to_resize :: "('p, 'i) tui_env \<Rightarrow> u16 \<Rightarrow> u16 \<Rightarrow> ('p, 'i) terminal_output \<Rightarrow> ('p, 'i) terminal_output option" where
  "to_resize te rows cols t =
     (if vt_size te (to_parser t) \<noteq> (rows, cols)
      then map_option (\<lambda>p. t\<lparr>to_parser := vt_set_scrollback te (vt_scrollback te (to_parser t)) p\<rparr>)
             (Option.bind (vt_new te rows cols) (vt_process te (to_output t)))
      else Some t)"

datatype direction_key = DirUp | DirDown

definition to_scroll :: "('p, 'i) tui_env \<Rightarrow> direction_key \<Rightarrow> ('p, 'i) terminal_output \<Rightarrow> ('p, 'i) terminal_output" where
  "to_scroll te dir t =
     (let n = vt_scrollback te (to_parser t)
      in t\<lparr>to_parser := vt_set_scrollback te (case dir of DirUp \<Rightarrow> n + 1 | DirDown \<Rightarrow> n - 1) (to_parser t)\<rparr>)"

datatype log_behavior = PersistFull | PersistStatus | PersistNothing

definition persist_behavior :: "('p, 'i) terminal_output \<Rightarrow> log_behavior" where
  "persist_behavior t =
     (case (case to_output_logs t of Some m \<Rightarrow> m | None \<Rightarrow> LogFull) of
        LogFull \<Rightarrow> PersistFull
      | LogNone \<Rightarrow> PersistNothing
      | LogHashOnly \<Rightarrow> PersistStatus
      | LogNewOnly \<Rightarrow> if to_cache_result t = Some CacheMiss then PersistFull else PersistStatus
      | LogErrorsOnly \<Rightarrow> if to_task_result t = Some TaskFailure then PersistFull else PersistNothing)"

text \<open>What is printed for a task once the interface is closed; the frame is drawn with box characters.\<close>

definition crlf :: string where
  "crlf = [CHR 13, CHR 10]"

definition persist_screen :: "('p, 'i) tui_env \<Rightarrow> string \<Rightarrow> ('p, 'i) terminal_output \<Rightarrow> string option" where
  "persist_screen te name t =
     (case persist_behavior t of
        PersistFull \<Rightarrow>
          map_option (\<lambda>rows. [CHR 0xE2, CHR 0x94, CHR 0x8C] @ to_title name t @ crlf @
            concat (map (\<lambda>row. [CHR 0xE2, CHR 0x94, CHR 0x82, CHR 32] @ row @ crlf) rows) @
            [CHR 0xE2, CHR 0x94, CHR 0x94] @ concat (replicate 4 [CHR 0xE2, CHR 0x94, CHR 0x80]) @ ''>'' @ crlf)
            (vt_rows te (to_parser t))
      | PersistStatus \<Rightarrow> Some (to_title name t @ crlf)
      | PersistNothing \<Rightarrow> Some [])"

definition to_has_selection :: "('p, 'i) tui_env \<Rightarrow> ('p, 'i) terminal_output \<Rightarrow> bool option" where
  "to_has_selection te t =
     map_option (\<lambda>sel. case sel of Some s \<Rightarrow> s \<noteq> [] | None \<Rightarrow> False) (vt_selected_text te (to_parser t))"

datatype mouse_button = MouseLeft | MouseRight | MouseMiddle

datatype mouse_kind =
    MouseDown mouse_button
  | MouseUp mouse_button
  | MouseDrag mouse_button
  | MouseMoved
  | MouseScrollDown
  | MouseScrollUp
  | MouseScrollLeft
  | MouseScrollRight

record mouse_event =
  me_kind :: mouse_kind
  me_column :: u16
  me_row :: u16

definition to_handle_mouse :: "('p, 'i) tui_env \<Rightarrow> mouse_event \<Rightarrow> ('p, 'i) terminal_output \<Rightarrow> ('p, 'i) terminal_output option" where
  "to_handle_mouse te ev t =
     (case me_kind ev of
        MouseDown MouseLeft \<Rightarrow> map_option (\<lambda>p. t\<lparr>to_parser := p\<rparr>) (vt_clear_selection te (to_parser t))
      | MouseDrag MouseLeft \<Rightarrow>
          map_option (\<lambda>p. t\<lparr>to_parser := p\<rparr>) (vt_update_selection te (me_row ev) (me_column ev) (to_parser t))
      | _ \<Rightarrow> Some t)"

definition to_copy_selection :: "('p, 'i) tui_env \<Rightarrow> ('p, 'i) terminal_output \<Rightarrow> string option option" where
  "to_copy_selection te t = vt_selected_text te (to_parser t)"

subsection \<open>Preferences\<close>

record preferences =
  pf_is_task_list_visible :: "bool option"
  pf_active_task :: "string option"

definition preferences_default :: preferences where
  "preferences_default = \<lparr>pf_is_task_list_visible = Some True, pf_active_task = None\<rparr>"

definition pf_visible :: "preferences \<Rightarrow> bool" where
  "pf_visible p = (case pf_is_task_list_visible p of Some b \<Rightarrow> b | None \<Rightarrow> True)"

subsection \<open>The application\<close>

datatype layout_sections =
    PaneFocus
  | TaskListFocus
  | SearchFocus string search_results

record ('p, 'i) app =
  ap_size :: size_info
  ap_tasks :: "(string, ('p, 'i) terminal_output) btree_map"
  ap_by_status :: tasks_by_status
  ap_focus :: layout_sections
  ap_scroll :: "nat option"
  ap_selected :: nat
  ap_pinned :: bool
  ap_help :: bool
  ap_done :: bool
  ap_preferences :: preferences

text \<open>An output for each of the names, in their order.\<close>

fun new_outputs ::
  "('p, 'i) tui_env \<Rightarrow> u16 \<Rightarrow> u16 \<Rightarrow> string list \<Rightarrow> (string, ('p, 'i) terminal_output) btree_map \<Rightarrow>
   (string, ('p, 'i) terminal_output) btree_map option" where
  "new_outputs te rows cols [] m = Some m"
| "new_outputs te rows cols (n # names) m =
     Option.bind (to_new te rows cols) (\<lambda>t. new_outputs te rows cols names (bt_insert n t m))"

definition app_new ::
  "('p, 'i) tui_env \<Rightarrow> u16 \<Rightarrow> u16 \<Rightarrow> string list \<Rightarrow> preferences \<Rightarrow> ('p, 'i) app option" where
  "app_new te rows cols tasks prefs =
     (let size = size_new rows cols tasks;
          tb = \<lparr>tb_running = [], tb_planned = planned_list tasks, tb_finished = []\<rparr>;
          selected = (case Option.bind (pf_active_task prefs) (active_index tb) of Some i \<Rightarrow> i | None \<Rightarrow> 0)
      in map_option (\<lambda>outputs. \<lparr>ap_size = size, ap_tasks = outputs,
           ap_by_status = tb, ap_focus = TaskListFocus, ap_scroll = Some selected, ap_selected = selected,
           ap_pinned = (pf_active_task prefs \<noteq> None), ap_help = False, ap_done = False, ap_preferences = prefs\<rparr>)
           (new_outputs te (pane_rows size) (pane_cols size) (task_names tb) []))"

type_synonym ('p, 'i, 'a) app_io = "('p, 'i) app \<Rightarrow> ((tui_error, 'a) result \<times> ('p, 'i) app) option"

definition active_task :: "('p, 'i) app \<Rightarrow> (tui_error, string) result" where
  "active_task a = task_name_at (ap_by_status a) (ap_selected a)"

text \<open>\<open>get_mut\<close> on the outputs, followed by a change, first one that is a mere assignment, then one the emulator takes part in.\<close>

definition with_task ::
  "string \<Rightarrow> (('p, 'i) terminal_output \<Rightarrow> ('p, 'i) terminal_output) \<Rightarrow> (('p, 'i) app, tui_error, unit) io" where
  "with_task name f a =
     (case map_of (ap_tasks a) name of
        None \<Rightarrow> (Inl (TaskNotFound name), a)
      | Some t \<Rightarrow> (Inr (), a\<lparr>ap_tasks := bt_insert name (f t) (ap_tasks a)\<rparr>))"

definition with_screen ::
  "string \<Rightarrow> (('p, 'i) terminal_output \<Rightarrow> ('p, 'i) terminal_output option) \<Rightarrow> ('p, 'i, unit) app_io" where
  "with_screen name f a =
     (case map_of (ap_tasks a) name of
        None \<Rightarrow> Some (Inl (TaskNotFound name), a)
      | Some t \<Rightarrow> map_option (\<lambda>t'. (Inr (), a\<lparr>ap_tasks := bt_insert name t' (ap_tasks a)\<rparr>)) (f t))"

definition get_full_task :: "('p, 'i) app \<Rightarrow> (tui_error, ('p, 'i) terminal_output) result" where
  "get_full_task a =
     try_bind (active_task a)
       (\<lambda>name. case map_of (ap_tasks a) name of None \<Rightarrow> Inl (TaskNotFound name) | Some t \<Rightarrow> Inr t)"

definition with_full_task ::
  "(('p, 'i) terminal_output \<Rightarrow> ('p, 'i) terminal_output option) \<Rightarrow> ('p, 'i, unit) app_io" where
  "with_full_task f a = (case active_task a of Inl e \<Rightarrow> Some (Inl e, a) | Inr name \<Rightarrow> with_screen name f a)"

record input_options =
  io_focus :: layout_sections
  io_has_selection :: bool
  io_is_help_popup_open :: bool

definition input_options_of :: "('p, 'i) tui_env \<Rightarrow> ('p, 'i) app \<Rightarrow> (tui_error, input_options) result option" where
  "input_options_of te a =
     (case get_full_task a of
        Inl e \<Rightarrow> Some (Inl e)
      | Inr t \<Rightarrow>
          map_option (\<lambda>sel. Inr \<lparr>io_focus = ap_focus a, io_has_selection = sel, io_is_help_popup_open = ap_help a\<rparr>)
            (to_has_selection te t))"

definition update_sidebar_toggle :: "('p, 'i) app \<Rightarrow> ('p, 'i) app" where
  "update_sidebar_toggle a =
     a\<lparr>ap_preferences := (ap_preferences a)\<lparr>pf_is_task_list_visible := Some (\<not> pf_visible (ap_preferences a))\<rparr>\<rparr>"

definition update_pinned_state :: "('p, 'i) app \<Rightarrow> ('p, 'i) app" where
  "update_pinned_state a = a\<lparr>ap_preferences := (ap_preferences a)\<lparr>pf_active_task := None\<rparr>\<rparr>"

definition persist_active_task :: "(('p, 'i) app, tui_error, unit) io" where
  "persist_active_task a =
     (case active_task a of
        Inl e \<Rightarrow> (Inl e, a)
      | Inr name \<Rightarrow>
          (Inr (), a\<lparr>ap_preferences := (ap_preferences a)\<lparr>pf_active_task := (if ap_pinned a then Some name else None)\<rparr>\<rparr>))"

definition select_index :: "nat \<Rightarrow> ('p, 'i) app \<Rightarrow> ('p, 'i) app" where
  "select_index i a = a\<lparr>ap_selected := i, ap_scroll := Some i\<rparr>"

definition app_next :: "('p, 'i) app \<Rightarrow> ('p, 'i) app" where
  "app_next a =
     (let n = count_all (ap_by_status a)
      in if n > 0
         then snd (persist_active_task ((select_index ((ap_selected a + 1) mod n) a)\<lparr>ap_pinned := True\<rparr>))
         else a)"

definition app_previous :: "('p, 'i) app \<Rightarrow> ('p, 'i) app" where
  "app_previous a =
     (let n = count_all (ap_by_status a)
      in if n > 0
         then snd (persist_active_task
           ((select_index (if ap_selected a = 0 then n - 1 else ap_selected a - 1) a)\<lparr>ap_pinned := True\<rparr>))
         else a)"

definition scroll_terminal_output :: "('p, 'i) tui_env \<Rightarrow> direction_key \<Rightarrow> ('p, 'i, unit) app_io" where
  "scroll_terminal_output te dir = with_full_task (\<lambda>t. Some (to_scroll te dir t))"

definition select_task :: "string \<Rightarrow> (('p, 'i) app, tui_error, unit) io" where
  "select_task name a =
     (if \<not> ap_pinned a then (Inr (), a)
      else case position (\<lambda>t. t = name) (task_names (ap_by_status a)) of
             None \<Rightarrow> (Inl (TaskNotFound name), a)
           | Some i \<Rightarrow> (Inr (), select_index i a))"

definition reset_scroll :: "('p, 'i) app \<Rightarrow> ('p, 'i) app" where
  "reset_scroll a = a\<lparr>ap_pinned := False, ap_scroll := Some 0, ap_selected := 0\<rparr>"


subsection \<open>Searching\<close>

definition enter_search :: "(('p, 'i) app, tui_error, unit) io" where
  "enter_search a =
     (case active_task a of
        Inl e \<Rightarrow> (Inl e, a)
      | Inr name \<Rightarrow> (Inr (), a\<lparr>ap_focus := SearchFocus name (search_new (ap_by_status a)), ap_pinned := True\<rparr>))"

definition exit_search :: "bool \<Rightarrow> ('p, 'i) app \<Rightarrow> ('p, 'i) app" where
  "exit_search restore a =
     (let a' = a\<lparr>ap_focus := TaskListFocus\<rparr>
      in case ap_focus a of
           SearchFocus prev results \<Rightarrow>
             if restore
             then (case select_task prev a' of (Inl e, a2) \<Rightarrow> reset_scroll a2 | (Inr _, a2) \<Rightarrow> a2)
             else a'
         | _ \<Rightarrow> a')"

definition search_scroll :: "direction_key \<Rightarrow> ('p, 'i, unit) app_io" where
  "search_scroll dir a =
     (case ap_focus a of
        SearchFocus prev results \<Rightarrow>
          (let names = task_names (ap_by_status a); n = count_all (ap_by_status a)
           in if dir = DirUp \<and> ap_selected a > n then None
              else
                (case (case dir of
                         DirUp \<Rightarrow> first_match results (drop (n - ap_selected a) (rev names))
                       | DirDown \<Rightarrow> first_match results (drop (ap_selected a + 1) names)) of
                   Some name \<Rightarrow> Some (select_task name a)
                 | None \<Rightarrow> Some (Inr (), a)))
      | _ \<Rightarrow> Some (Inr (), a))"

definition update_search_results :: "('p, 'i) app \<Rightarrow> ('p, 'i) app option" where
  "update_search_results a =
     (case ap_focus a of
        SearchFocus prev results \<Rightarrow>
          (let names = task_names (ap_by_status a)
           in case (case first_match results (drop (ap_selected a) names) of
                      Some n \<Rightarrow> Some n
                    | None \<Rightarrow> first_match results names) of
                None \<Rightarrow> Some a
              | Some n \<Rightarrow> (case select_task n (a\<lparr>ap_pinned := True\<rparr>) of (Inl e, a') \<Rightarrow> None | (Inr _, a') \<Rightarrow> Some a'))
      | _ \<Rightarrow> Some a)"

text \<open>
  A character is the string of its bytes in UTF-8, so that \<open>String::push\<close> appends them; \<open>String::pop\<close>
  removes the last character: its continuation bytes and the byte before them.
\<close>

type_synonym rust_char = string

definition utf8_pop :: "string \<Rightarrow> string" where
  "utf8_pop s = rev (drop 1 (dropWhile continuation_byte (rev s)))"

definition search_enter_char :: "rust_char \<Rightarrow> ('p, 'i, unit) app_io" where
  "search_enter_char c a =
     (case ap_focus a of
        SearchFocus prev results \<Rightarrow>
          map_option (Pair (Inr ()))
            (update_search_results (a\<lparr>ap_focus := SearchFocus prev (modify_query (\<lambda>s. s @ c) results)\<rparr>))
      | _ \<Rightarrow> Some (Inr (), a))"

definition search_remove_char :: "('p, 'i, unit) app_io" where
  "search_remove_char a =
     (case ap_focus a of
        SearchFocus prev results \<Rightarrow>
          (let a' = a\<lparr>ap_focus := SearchFocus prev (modify_query utf8_pop results)\<rparr>
           in if sr_query results = [] then Some (Inr (), exit_search True a')
              else map_option (Pair (Inr ())) (update_search_results a'))
      | _ \<Rightarrow> Some (Inr (), a))"

subsection \<open>Events of tasks\<close>

definition start_task :: "nat \<Rightarrow> string \<Rightarrow> output_logs_mode \<Rightarrow> (('p, 'i) app, tui_error, unit) io" where
  "start_task now name logs a =
     (case task_name_at (ap_by_status a) (ap_selected a) of
        Inl e \<Rightarrow> (Inl e, a)
      | Inr highlighted \<Rightarrow>
          (case start_planned now name (ap_by_status a) of
             None \<Rightarrow> (Inl (TaskNotFound name), a)
           | Some tb \<Rightarrow>
               (case with_task name (\<lambda>t. t\<lparr>to_output_logs := Some logs\<rparr>) (a\<lparr>ap_by_status := tb\<rparr>) of
                  (Inl e, a') \<Rightarrow> (Inl e, a')
                | (Inr _, a') \<Rightarrow> select_task highlighted a')))"

definition finish_task :: "nat \<Rightarrow> string \<Rightarrow> task_result \<Rightarrow> (('p, 'i) app, tui_error, unit) io" where
  "finish_task now name r a =
     (case task_name_at (ap_by_status a) (ap_selected a) of
        Inl e \<Rightarrow> (Inl e, a)
      | Inr highlighted \<Rightarrow>
          (case finish_running now name r (ap_by_status a) of
             None \<Rightarrow> (Inl (TaskNotFound name), a)
           | Some tb \<Rightarrow>
               (case with_task name (\<lambda>t. t\<lparr>to_task_result := Some r\<rparr>) (a\<lparr>ap_by_status := tb\<rparr>) of
                  (Inl e, a') \<Rightarrow> (Inl e, a')
                | (Inr _, a') \<Rightarrow> select_task highlighted a')))"

definition app_has_stdin :: "('p, 'i) app \<Rightarrow> (tui_error, bool) result" where
  "app_has_stdin a =
     try_bind (active_task a)
       (\<lambda>name. Inr (case map_of (ap_tasks a) name of Some t \<Rightarrow> to_stdin t \<noteq> None | None \<Rightarrow> False))"

definition interact :: "(('p, 'i) app, tui_error, unit) io" where
  "interact a =
     (if ap_focus a = PaneFocus then (Inr (), a\<lparr>ap_focus := TaskListFocus\<rparr>)
      else case app_has_stdin a of
             Inl e \<Rightarrow> (Inl e, a)
           | Inr b \<Rightarrow> (Inr (), if b then a\<lparr>ap_focus := PaneFocus\<rparr> else a))"

text \<open>Every named task gets an output, and keeps the one it has.\<close>

fun missing_outputs ::
  "('p, 'i) tui_env \<Rightarrow> u16 \<Rightarrow> u16 \<Rightarrow> string list \<Rightarrow> (string, ('p, 'i) terminal_output) btree_map \<Rightarrow>
   (string, ('p, 'i) terminal_output) btree_map option" where
  "missing_outputs te rows cols [] m = Some m"
| "missing_outputs te rows cols (n # names) m =
     (if map_of m n = None
      then Option.bind (to_new te rows cols) (\<lambda>t. missing_outputs te rows cols names (bt_insert n t m))
      else missing_outputs te rows cols names m)"

definition ensure_outputs :: "('p, 'i) tui_env \<Rightarrow> string list \<Rightarrow> ('p, 'i) app \<Rightarrow> ('p, 'i) app option" where
  "ensure_outputs te names a =
     map_option (\<lambda>m. a\<lparr>ap_tasks := m\<rparr>)
       (missing_outputs te (pane_rows (ap_size a)) (pane_cols (ap_size a)) names (ap_tasks a))"

definition update_search_tasks :: "('p, 'i) app \<Rightarrow> ('p, 'i) app" where
  "update_search_tasks a =
     (case ap_focus a of
        SearchFocus prev results \<Rightarrow> a\<lparr>ap_focus := SearchFocus prev (search_update_tasks (ap_by_status a) results)\<rparr>
      | _ \<Rightarrow> a)"

definition reselect :: "string \<Rightarrow> ('p, 'i) app \<Rightarrow> ('p, 'i) app" where
  "reselect name a = (case select_task name a of (Inl e, a') \<Rightarrow> reset_scroll a' | (Inr _, a') \<Rightarrow> a')"

definition update_tasks :: "('p, 'i) tui_env \<Rightarrow> string list \<Rightarrow> ('p, 'i, unit) app_io" where
  "update_tasks te names a =
     (if names = [] then Some (Inr (), a)
      else case active_task a of
             Inl e \<Rightarrow> Some (Inl e, a)
           | Inr highlighted \<Rightarrow>
               Option.bind (ensure_outputs te names a)
                 (\<lambda>a1. let a2 = a1\<lparr>ap_tasks := filter (\<lambda>(n, _). n \<in> set names) (ap_tasks a1),
                            ap_by_status := \<lparr>tb_running = [], tb_planned = planned_list names, tb_finished = []\<rparr>\<rparr>
                  in map_option (Pair (Inr ())) (update_search_results (update_search_tasks (reselect highlighted a2)))))"

definition restart_tasks :: "('p, 'i) tui_env \<Rightarrow> string list \<Rightarrow> ('p, 'i, unit) app_io" where
  "restart_tasks te names a =
     (case active_task a of
        Inl e \<Rightarrow> Some (Inl e, a)
      | Inr highlighted \<Rightarrow>
          map_option (\<lambda>a1. let a2 = a1\<lparr>ap_by_status := tb_restart_tasks names (ap_by_status a1)\<rparr>
             in (Inr (), reselect highlighted (update_search_tasks a2)))
            (ensure_outputs te names a))"

definition persist_tasks :: "('p, 'i) tui_env \<Rightarrow> string list \<Rightarrow> ('p, 'i) app \<Rightarrow> string option" where
  "persist_tasks te names a =
     map_option concat
       (those (map (\<lambda>n. case map_of (ap_tasks a) n of Some t \<Rightarrow> persist_screen te n t | None \<Rightarrow> Some []) names))"

definition set_status :: "string \<Rightarrow> string \<Rightarrow> cache_result \<Rightarrow> (('p, 'i) app, tui_error, unit) io" where
  "set_status name st r = with_task name (\<lambda>t. t\<lparr>to_status := Some st, to_cache_result := Some r\<rparr>)"

definition app_handle_mouse :: "('p, 'i) tui_env \<Rightarrow> mouse_event \<Rightarrow> ('p, 'i, unit) app_io" where
  "app_handle_mouse te ev a =
     (let width = task_list_width (ap_size a)
      in if me_row ev > 0 \<and> me_column ev \<ge> width
         then with_full_task (to_handle_mouse te (ev\<lparr>me_row := me_row ev - 1, me_column := me_column ev - width\<rparr>)) a
         else Some (Inr (), a))"

definition app_copy_selection :: "('p, 'i) tui_env \<Rightarrow> ('p, 'i) app \<Rightarrow> (tui_error, string option) result option" where
  "app_copy_selection te a =
     (case get_full_task a of Inl e \<Rightarrow> Some (Inl e) | Inr t \<Rightarrow> map_option Inr (to_copy_selection te t))"

definition app_resize :: "('p, 'i) tui_env \<Rightarrow> u16 \<Rightarrow> u16 \<Rightarrow> ('p, 'i) app \<Rightarrow> ('p, 'i) app option" where
  "app_resize te rows cols a =
     (let size = size_resize rows cols (ap_size a)
      in map_option (\<lambda>ts. a\<lparr>ap_size := size, ap_tasks := zip (map fst (ap_tasks a)) ts\<rparr>)
           (those (map (\<lambda>(n, t). to_resize te (pane_rows size) (pane_cols size) t) (ap_tasks a))))"

definition insert_stdin :: "string \<Rightarrow> 'i option \<Rightarrow> (('p, 'i) app, tui_error, unit) io" where
  "insert_stdin name stdin = with_task name (\<lambda>t. t\<lparr>to_stdin := stdin\<rparr>)"

definition forward_input :: "('p, 'i) tui_env \<Rightarrow> string \<Rightarrow> (('p, 'i) app, tui_error, unit) io" where
  "forward_input te bytes a =
     (if ap_focus a \<noteq> PaneFocus then (Inr (), a)
      else case active_task a of
             Inl e \<Rightarrow> (Inl e, a)
           | Inr name \<Rightarrow>
               (case map_of (ap_tasks a) name of
                  None \<Rightarrow> (Inl (TaskNotFound name), a)
                | Some t \<Rightarrow>
                    (case to_stdin t of
                       None \<Rightarrow> (Inr (), a)
                     | Some stdin \<Rightarrow>
                         (case vt_stdin_write te bytes stdin of
                            (r, stdin') \<Rightarrow>
                              (case r of Inl e \<Rightarrow> Inl (TuiStdin name e) | Inr _ \<Rightarrow> Inr (),
                               a\<lparr>ap_tasks := bt_insert name (t\<lparr>to_stdin := Some stdin'\<rparr>) (ap_tasks a)\<rparr>)))))"

definition process_output :: "('p, 'i) tui_env \<Rightarrow> string \<Rightarrow> string \<Rightarrow> ('p, 'i, unit) app_io" where
  "process_output te name bytes = with_screen name (to_process te bytes)"


subsection \<open>Events\<close>

datatype 'i tui_event =
    EvStartTask string output_logs_mode
  | EvTaskOutput string string
  | EvEndTask string task_result
  | EvStatus string string cache_result
  | EvPaneSizeQuery
  | EvStop
  | EvInternalStop
  | EvTick
  | EvUp
  | EvDown
  | EvScrollUp
  | EvScrollDown
  | EvSetStdin string 'i
  | EvEnterInteractive
  | EvExitInteractive
  | EvInput string
  | EvUpdateTasks "string list"
  | EvMouse mouse_event
  | EvCopySelection
  | EvRestartTasks "string list"
  | EvResize u16 u16
  | EvToggleSidebar
  | EvToggleHelpPopup
  | EvTogglePinnedTask
  | EvSearchEnter
  | EvSearchExit bool
  | EvSearchScroll direction_key
  | EvSearchEnterChar rust_char
  | EvSearchBackspace

text \<open>What an event answers: the callback of a stop request, the size of the pane, or text for the clipboard.\<close>

datatype update_out = OutNothing | OutCallback | OutPaneSize u16 u16 | OutCopied string

definition quiet :: "(tui_error, unit) result \<times> ('p, 'i) app \<Rightarrow> ((tui_error, update_out) result \<times> ('p, 'i) app) option" where
  "quiet r = Some (case fst r of Inl e \<Rightarrow> Inl e | Inr _ \<Rightarrow> Inr OutNothing, snd r)"

fun update :: "('p, 'i) tui_env \<Rightarrow> nat \<Rightarrow> 'i tui_event \<Rightarrow> ('p, 'i, update_out) app_io" where
  "update te now (EvStartTask name logs) a = quiet (start_task now name logs a)"
| "update te now (EvTaskOutput name bytes) a = Option.bind (process_output te name bytes a) quiet"
| "update te now (EvStatus name st r) a = quiet (set_status name st r a)"
| "update te now EvInternalStop a = quiet (Inr (), a\<lparr>ap_done := True\<rparr>)"
| "update te now EvStop a = Some (Inr OutCallback, a\<lparr>ap_done := True\<rparr>)"
| "update te now EvTick a = quiet (Inr (), a)"
| "update te now (EvEndTask name r) a = quiet (finish_task now name r a)"
| "update te now EvUp a = quiet (Inr (), app_previous a)"
| "update te now EvDown a = quiet (Inr (), app_next a)"
| "update te now EvScrollUp a = Option.bind (scroll_terminal_output te DirUp (a\<lparr>ap_pinned := True\<rparr>)) quiet"
| "update te now EvScrollDown a = Option.bind (scroll_terminal_output te DirDown (a\<lparr>ap_pinned := True\<rparr>)) quiet"
| "update te now EvEnterInteractive a = quiet (interact (a\<lparr>ap_pinned := True\<rparr>))"
| "update te now EvExitInteractive a = quiet (interact (a\<lparr>ap_pinned := True\<rparr>))"
| "update te now EvTogglePinnedTask a = quiet (Inr (), update_pinned_state a)"
| "update te now EvToggleSidebar a = quiet (Inr (), update_sidebar_toggle a)"
| "update te now EvToggleHelpPopup a = quiet (Inr (), a\<lparr>ap_help := \<not> ap_help a\<rparr>)"
| "update te now (EvInput bytes) a = quiet (forward_input te bytes a)"
| "update te now (EvSetStdin name stdin) a = quiet (insert_stdin name (Some stdin) a)"
| "update te now (EvUpdateTasks names) a = Option.bind (update_tasks te names a) quiet"
| "update te now (EvMouse ev) a = Option.bind (app_handle_mouse te ev a) quiet"
| "update te now EvCopySelection a =
     map_option (\<lambda>r. (case r of
         Inl e \<Rightarrow> Inl e
       | Inr None \<Rightarrow> Inr OutNothing
       | Inr (Some s) \<Rightarrow> Inr (OutCopied s), a))
       (app_copy_selection te a)"
| "update te now (EvRestartTasks names) a = Option.bind (restart_tasks te names a) quiet"
| "update te now (EvResize rows cols) a = Option.bind (app_resize te rows cols a) (\<lambda>a'. quiet (Inr (), a'))"
| "update te now EvSearchEnter a = quiet (enter_search a)"
| "update te now (EvSearchExit restore) a = quiet (Inr (), exit_search restore a)"
| "update te now (EvSearchScroll dir) a = Option.bind (search_scroll dir a) quiet"
| "update te now (EvSearchEnterChar c) a = Option.bind (search_enter_char c a) quiet"
| "update te now EvSearchBackspace a = Option.bind (search_remove_char a) quiet"
| "update te now EvPaneSizeQuery a = Some (Inr (OutPaneSize (pane_rows (ap_size a)) (pane_cols (ap_size a))), a)"

subsection \<open>The invariant\<close>

abbreviation app_names :: "('p, 'i) app \<Rightarrow> string list" where
  "app_names a \<equiv> task_names (ap_by_status a)"

definition search_ok :: "string set \<Rightarrow> search_results \<Rightarrow> bool" where
  "search_ok names sr \<longleftrightarrow> set (sr_tasks sr) = names \<and>
     set (sr_matches sr) = {n \<in> names. sr_query sr \<noteq> [] \<and> str_contains n (sr_query sr)}"

definition focus_ok :: "string set \<Rightarrow> layout_sections \<Rightarrow> bool" where
  "focus_ok names f \<longleftrightarrow> (case f of SearchFocus prev sr \<Rightarrow> search_ok names sr | _ \<Rightarrow> True)"

text \<open>The tasks shown are those with an output, and the selection is one of them, the first unless it is pinned.\<close>

definition app_ok :: "('p, 'i) app \<Rightarrow> bool" where
  "app_ok a \<longleftrightarrow> tasks_ok (ap_by_status a) \<and> bt_ok (ap_tasks a) \<and> fst ` set (ap_tasks a) = set (app_names a) \<and>
     ap_selected a < length (app_names a) \<and> ap_scroll a = Some (ap_selected a) \<and>
     (\<not> ap_pinned a \<longrightarrow> ap_selected a = 0) \<and> focus_ok (set (app_names a)) (ap_focus a)"

lemma active_task_ok:
  assumes "app_ok a"
  shows "active_task a = Inr (app_names a ! ap_selected a)"
    and "\<exists>t. map_of (ap_tasks a) (app_names a ! ap_selected a) = Some t"
    and "app_names a ! ap_selected a \<in> set (app_names a)"
proof -
  show "active_task a = Inr (app_names a ! ap_selected a)" and sel: "app_names a ! ap_selected a \<in> set (app_names a)"
    using assms by (simp_all add: active_task_def task_name_at_def app_ok_def)
  then show "\<exists>t. map_of (ap_tasks a) (app_names a ! ap_selected a) = Some t"
    using assms by (metis app_ok_def map_of_eq_None_iff not_None_eq)
qed

lemma app_ok_with_task:
  assumes "app_ok a"
  shows "app_ok (snd (with_task name f a))" "fst (with_task name f a) = (if name \<in> set (app_names a) then Inr () else Inl (TaskNotFound name))"
    "app_names (snd (with_task name f a)) = app_names a" "ap_selected (snd (with_task name f a)) = ap_selected a"
    "ap_pinned (snd (with_task name f a)) = ap_pinned a" "ap_by_status (snd (with_task name f a)) = ap_by_status a"
proof -
  have dom: "map_of (ap_tasks a) name = None \<longleftrightarrow> name \<notin> set (app_names a)"
    using assms by (simp add: app_ok_def map_of_eq_None_iff)
  show "fst (with_task name f a) = (if name \<in> set (app_names a) then Inr () else Inl (TaskNotFound name))"
    using dom by (auto simp: with_task_def split: option.split)
  show "app_ok (snd (with_task name f a))"
  proof (cases "map_of (ap_tasks a) name")
    case (Some t)
    then have "name \<in> set (app_names a)"
      using dom by simp
    then show ?thesis
      using assms Some by (auto simp: with_task_def app_ok_def bt_ok_insert)
  qed (use assms in \<open>simp add: with_task_def\<close>)
qed (simp_all add: with_task_def split: option.split)

text \<open>A change the emulator takes part in is, when it returns, a change like any other.\<close>

lemma with_screen_Some: "with_screen name f a = Some x \<Longrightarrow> \<exists>t'. x = with_task name (\<lambda>_. t') a"
  by (auto simp: with_screen_def with_task_def split: option.splits)

lemma app_ok_with_screen:
  assumes "app_ok a" "with_screen name f a = Some x"
  shows "app_ok (snd x)" "fst x = (if name \<in> set (app_names a) then Inr () else Inl (TaskNotFound name))"
  using with_screen_Some [OF assms(2)] app_ok_with_task(1,2) [OF assms(1)] by auto

lemma app_ok_with_full_task:
  assumes "app_ok a" "with_full_task f a = Some x"
  shows "fst x = Inr ()" "app_ok (snd x)"
  using assms active_task_ok [OF assms(1)] app_ok_with_screen [OF assms(1), of "app_names a ! ap_selected a" f x]
  by (simp_all add: with_full_task_def)

lemma app_ok_pinned [simp]: "app_ok a \<Longrightarrow> app_ok (a\<lparr>ap_pinned := True\<rparr>)"
  by (simp add: app_ok_def)

lemma app_ok_flags [simp]: "app_ok (a\<lparr>ap_done := b\<rparr>) = app_ok a" "app_ok (a\<lparr>ap_help := b\<rparr>) = app_ok a"
  "app_ok (a\<lparr>ap_preferences := p\<rparr>) = app_ok a"
  by (simp_all add: app_ok_def)

lemma app_ok_persist: "app_ok a \<Longrightarrow> app_ok (snd (persist_active_task a))"
  by (auto simp: persist_active_task_def app_ok_def split: sum.split)

lemma app_ok_select_index: "app_ok a \<Longrightarrow> i < length (app_names a) \<Longrightarrow> ap_pinned a \<Longrightarrow> app_ok (select_index i a)"
  by (simp add: app_ok_def select_index_def)

lemma app_ok_next_previous:
  assumes "app_ok a"
  shows "app_ok (app_next a)" "app_ok (app_previous a)"
proof -
  have n: "0 < length (app_names a)" "ap_selected a < length (app_names a)"
    using assms by (auto simp: app_ok_def)
  have "app_ok ((select_index i a)\<lparr>ap_pinned := True\<rparr>)" if "i < length (app_names a)" for i
    using assms that by (simp add: app_ok_def select_index_def)
  then show "app_ok (app_next a)" "app_ok (app_previous a)"
    using n by (auto simp: app_next_def app_previous_def count_all_def Let_def intro!: app_ok_persist)
qed

lemma select_task_ok:
  assumes "app_ok a" "name \<in> set (app_names a)"
  shows "\<exists>i. select_task name a = (Inr (), select_index i a) \<and> i < length (app_names a) \<and> app_ok (select_index i a) \<and>
    (if ap_pinned a then app_names a ! i = name else i = ap_selected a)"
proof (cases "ap_pinned a")
  case True
  obtain i where i: "position (\<lambda>t. t = name) (app_names a) = Some i"
    using assms(2) position_None [of "\<lambda>t. t = name" "app_names a"] by fastforce
  then show ?thesis
    using True position_Some [OF i] app_ok_select_index [OF assms(1)]
    by (intro exI [of _ i]) (simp add: select_task_def)
next
  case False
  have "select_index (ap_selected a) a = a"
    using assms(1) by (simp add: select_index_def app_ok_def)
  then show ?thesis
    using False assms(1) by (intro exI [of _ "ap_selected a"]) (auto simp: select_task_def app_ok_def)
qed


text \<open>What a change of the selection leaves alone.\<close>

lemma select_index_keeps [simp]:
  "ap_by_status (select_index i a) = ap_by_status a" "ap_tasks (select_index i a) = ap_tasks a"
  "ap_focus (select_index i a) = ap_focus a" "ap_pinned (select_index i a) = ap_pinned a" "ap_selected (select_index i a) = i"
  "ap_scroll (select_index i a) = Some i" "ap_size (select_index i a) = ap_size a"
  by (simp_all add: select_index_def)

text \<open>The lists are exchanged for others with the same names; then the task that was highlighted is selected again.\<close>

lemma moved_task_ok:
  assumes ok: "app_ok a" and tb: "tasks_ok tb" "set (task_names tb) = set (app_names a)" "length (task_names tb) = length (app_names a)"
    and name: "name \<in> set (app_names a)"
  obtains a' where "with_task name f (a\<lparr>ap_by_status := tb\<rparr>) = (Inr (), a')"
    and "fst (select_task (app_names a ! ap_selected a) a') = Inr ()"
    and "app_ok (snd (select_task (app_names a ! ap_selected a) a'))"
    and "ap_by_status (snd (select_task (app_names a ! ap_selected a) a')) = tb"
    and "ap_pinned a \<Longrightarrow> active_task (snd (select_task (app_names a ! ap_selected a) a')) = active_task a"
    and "ap_pinned (snd (select_task (app_names a ! ap_selected a) a')) = ap_pinned a"
proof -
  let ?a = "a\<lparr>ap_by_status := tb\<rparr>"
  have a1: "app_ok ?a"
    using ok tb by (simp add: app_ok_def)
  note w = app_ok_with_task [OF a1, of name f]
  have r: "with_task name f ?a = (Inr (), snd (with_task name f ?a))"
    using w(2) name tb(2) by (simp add: prod_eq_iff)
  have "app_names a ! ap_selected a \<in> set (app_names (snd (with_task name f ?a)))"
    using active_task_ok(3) [OF ok] w(6) tb(2) by simp
  from select_task_ok [OF w(1) this] obtain i where
    sel: "select_task (app_names a ! ap_selected a) (snd (with_task name f ?a)) = (Inr (), select_index i (snd (with_task name f ?a)))"
      "app_ok (select_index i (snd (with_task name f ?a)))"
      "if ap_pinned a then app_names (snd (with_task name f ?a)) ! i = app_names a ! ap_selected a else i = ap_selected (snd (with_task name f ?a))"
    using w(5) by auto
  show ?thesis
  proof (rule that [OF r])
    show "ap_pinned a \<Longrightarrow> active_task (snd (select_task (app_names a ! ap_selected a) (snd (with_task name f ?a)))) = active_task a"
      using sel active_task_ok(1) [OF sel(2)] active_task_ok(1) [OF ok] by simp
  qed (use sel w in simp_all)
qed

lemma start_task_ok:
  assumes ok: "app_ok a"
  shows "if status_of (ap_by_status a) name = Some StPlanned
    then fst (start_task now name logs a) = Inr () \<and> app_ok (snd (start_task now name logs a)) \<and>
      status_of (ap_by_status (snd (start_task now name logs a))) = (status_of (ap_by_status a))(name \<mapsto> StRunning now) \<and>
      (ap_pinned a \<longrightarrow> active_task (snd (start_task now name logs a)) = active_task a) \<and>
      ap_pinned (snd (start_task now name logs a)) = ap_pinned a
    else start_task now name logs a = (Inl (TaskNotFound name), a)"
proof -
  have tok: "tasks_ok (ap_by_status a)" and act: "task_name_at (ap_by_status a) (ap_selected a) = Inr (app_names a ! ap_selected a)"
    using ok active_task_ok(1) [OF ok] by (simp_all add: app_ok_def active_task_def)
  note spec = start_planned_spec [OF tok, where now = now and n = name]
  show ?thesis
  proof (cases "start_planned now name (ap_by_status a)")
    case None
    then show ?thesis using spec act by (simp add: start_task_def)
  next
    case (Some tb)
    then have tb: "tasks_ok tb" "set (task_names tb) = set (app_names a)" "length (task_names tb) = length (app_names a)"
      and st: "status_of (ap_by_status a) name = Some StPlanned" "status_of tb = (status_of (ap_by_status a))(name \<mapsto> StRunning now)"
      using spec by simp_all
    have "name \<in> set (app_names a)"
      using st(1) status_of_None [of "ap_by_status a" name] by fastforce
    then show ?thesis
    proof (rule moved_task_ok [OF ok tb, where f = "\<lambda>t. t\<lparr>to_output_logs := Some logs\<rparr>"])
      fix a'
      assume w: "with_task name (\<lambda>t. t\<lparr>to_output_logs := Some logs\<rparr>) (a\<lparr>ap_by_status := tb\<rparr>) = (Inr (), a')"
        and sel: "fst (select_task (app_names a ! ap_selected a) a') = Inr ()"
          "app_ok (snd (select_task (app_names a ! ap_selected a) a'))"
          "ap_by_status (snd (select_task (app_names a ! ap_selected a) a')) = tb"
          "ap_pinned a \<Longrightarrow> active_task (snd (select_task (app_names a ! ap_selected a) a')) = active_task a"
          "ap_pinned (snd (select_task (app_names a ! ap_selected a) a')) = ap_pinned a"
      have "start_task now name logs a = select_task (app_names a ! ap_selected a) a'"
        by (simp add: start_task_def act Some w)
      then show ?thesis
        using st sel by simp
    qed
  qed
qed

lemma finish_task_ok:
  assumes ok: "app_ok a"
  shows "case status_of (ap_by_status a) name of
      Some (StRunning s) \<Rightarrow>
        fst (finish_task now name r a) = Inr () \<and> app_ok (snd (finish_task now name r a)) \<and>
        status_of (ap_by_status (snd (finish_task now name r a))) =
          (status_of (ap_by_status a))(name \<mapsto> StFinished \<lparr>fi_start = s, fi_end = now, fi_result = r\<rparr>) \<and>
        (ap_pinned a \<longrightarrow> active_task (snd (finish_task now name r a)) = active_task a) \<and>
        ap_pinned (snd (finish_task now name r a)) = ap_pinned a
    | _ \<Rightarrow> finish_task now name r a = (Inl (TaskNotFound name), a)"
proof -
  have tok: "tasks_ok (ap_by_status a)" and act: "task_name_at (ap_by_status a) (ap_selected a) = Inr (app_names a ! ap_selected a)"
    using ok active_task_ok(1) [OF ok] by (simp_all add: app_ok_def active_task_def)
  note spec = finish_running_spec [OF tok, where now = now and n = name and r = r]
  show ?thesis
  proof (cases "finish_running now name r (ap_by_status a)")
    case None
    then show ?thesis using spec act by (auto simp: finish_task_def split: option.split tui_status.split)
  next
    case (Some tb)
    then obtain s where tb: "tasks_ok tb" "set (task_names tb) = set (app_names a)" "length (task_names tb) = length (app_names a)"
      and st: "status_of (ap_by_status a) name = Some (StRunning s)"
        "status_of tb = (status_of (ap_by_status a))(name \<mapsto> StFinished \<lparr>fi_start = s, fi_end = now, fi_result = r\<rparr>)"
      using spec by auto
    have "name \<in> set (app_names a)"
      using st(1) status_of_None [of "ap_by_status a" name] by fastforce
    then show ?thesis
    proof (rule moved_task_ok [OF ok tb, where f = "\<lambda>t. t\<lparr>to_task_result := Some r\<rparr>"])
      fix a'
      assume w: "with_task name (\<lambda>t. t\<lparr>to_task_result := Some r\<rparr>) (a\<lparr>ap_by_status := tb\<rparr>) = (Inr (), a')"
        and sel: "fst (select_task (app_names a ! ap_selected a) a') = Inr ()"
          "app_ok (snd (select_task (app_names a ! ap_selected a) a'))"
          "ap_by_status (snd (select_task (app_names a ! ap_selected a) a')) = tb"
          "ap_pinned a \<Longrightarrow> active_task (snd (select_task (app_names a ! ap_selected a) a')) = active_task a"
          "ap_pinned (snd (select_task (app_names a ! ap_selected a) a')) = ap_pinned a"
      have "finish_task now name r a = select_task (app_names a ! ap_selected a) a'"
        by (simp add: finish_task_def act Some w)
      then show ?thesis
        using st sel by simp
    qed
  qed
qed


lemma missing_outputs_ok:
  assumes "missing_outputs te rows cols names m = Some m'" "bt_ok m"
  shows "bt_ok m' \<and> fst ` set m' = set names \<union> fst ` set m"
  using assms
proof (induction te rows cols names m rule: missing_outputs.induct)
  case (2 te rows cols n names m)
  show ?case
  proof (cases "map_of m n")
    case None
    then show ?thesis using 2 by (auto simp: bt_ok_insert split: bind_splits)
  next
    case (Some x)
    then have "n \<in> fst ` set m"
      by (metis map_of_eq_None_iff option.distinct(1))
    then show ?thesis using 2 Some by auto
  qed
qed simp

lemma ensure_outputs_ok:
  assumes "ensure_outputs te names a = Some a1" "bt_ok (ap_tasks a)"
  shows "bt_ok (ap_tasks a1)" "fst ` set (ap_tasks a1) = set names \<union> fst ` set (ap_tasks a)"
    "ap_by_status a1 = ap_by_status a" "ap_selected a1 = ap_selected a"
    "ap_scroll a1 = ap_scroll a" "ap_pinned a1 = ap_pinned a" "ap_focus a1 = ap_focus a" "ap_size a1 = ap_size a"
proof -
  obtain m where m: "missing_outputs te (pane_rows (ap_size a)) (pane_cols (ap_size a)) names (ap_tasks a) = Some m"
    and a1: "a1 = a\<lparr>ap_tasks := m\<rparr>"
    using assms(1) by (auto simp: ensure_outputs_def)
  show "bt_ok (ap_tasks a1)" "fst ` set (ap_tasks a1) = set names \<union> fst ` set (ap_tasks a)"
    using missing_outputs_ok [OF m assms(2)] by (simp_all add: a1)
qed (use assms in \<open>auto simp: ensure_outputs_def\<close>)

lemma search_ok_update: "search_ok (set (task_names tb)) (search_update_tasks tb sr)"
  by (auto simp: search_ok_def search_update_tasks_def update_matches_def)

lemma search_ok_modify: "search_ok names sr \<Longrightarrow> search_ok names (modify_query f sr)"
  by (auto simp: search_ok_def modify_query_def update_matches_def)

text \<open>Everything but the search results, which are brought up to date last.\<close>

lemma app_ok_update_search_tasks:
  assumes "tasks_ok (ap_by_status a)" "bt_ok (ap_tasks a)" "fst ` set (ap_tasks a) = set (app_names a)"
    "ap_selected a < length (app_names a)" "ap_scroll a = Some (ap_selected a)" "\<not> ap_pinned a \<longrightarrow> ap_selected a = 0"
  shows "app_ok (update_search_tasks a)"
  using assms by (auto simp: app_ok_def update_search_tasks_def focus_ok_def search_ok_update split: layout_sections.split)

lemma update_search_tasks_keeps [simp]:
  "ap_by_status (update_search_tasks a) = ap_by_status a" "ap_selected (update_search_tasks a) = ap_selected a"
  "ap_pinned (update_search_tasks a) = ap_pinned a"
  by (simp_all add: update_search_tasks_def split: layout_sections.split)

lemma restart_tasks_ok:
  assumes ok: "app_ok a" and run: "restart_tasks te names a = Some x"
  shows "fst x = Inr () \<and> app_ok (snd x) \<and>
    status_of (ap_by_status (snd x)) = (\<lambda>n. if n \<in> set names then Some StPlanned else status_of (ap_by_status a) n) \<and>
    (ap_pinned a \<longrightarrow> active_task (snd x) = active_task a) \<and> ap_pinned (snd x) = ap_pinned a"
proof -
  have tok: "tasks_ok (ap_by_status a)" and bt: "bt_ok (ap_tasks a)"
    using ok by (simp_all add: app_ok_def)
  note act = active_task_ok [OF ok] and names = restart_names [OF tok, of names]
  obtain a1 where a1: "ensure_outputs te names a = Some a1"
    using run act(1) by (auto simp: restart_tasks_def)
  note ens = ensure_outputs_ok [OF a1 bt]
  define a2 where "a2 = a1\<lparr>ap_by_status := tb_restart_tasks names (ap_by_status a)\<rparr>"
  have "length (app_names a) \<le> length (task_names (tb_restart_tasks names (ap_by_status a)))"
    using names tok by (metis Un_upper1 card_mono distinct_card finite_set tasks_ok_def)
  then have a2: "app_ok (update_search_tasks a2)"
    using ok names ens by (intro app_ok_update_search_tasks) (auto simp: a2_def app_ok_def)
  have "app_names a ! ap_selected a \<in> set (app_names (update_search_tasks a2))"
    using act(3) names by (simp add: a2_def)
  from select_task_ok [OF a2 this] obtain i where
    sel: "select_task (app_names a ! ap_selected a) (update_search_tasks a2) = (Inr (), select_index i (update_search_tasks a2))"
      "app_ok (select_index i (update_search_tasks a2))" "ap_pinned a \<longrightarrow> app_names a2 ! i = app_names a ! ap_selected a"
    using ens by (auto simp: a2_def split: if_splits)
  have "x = (Inr (), select_index i (update_search_tasks a2))"
    using run by (simp add: restart_tasks_def act(1) a1 reselect_def sel(1) ens Let_def flip: a2_def)
  then show ?thesis
    using sel(2,3) active_task_ok(1) [OF sel(2)] act(1) restart_status [OF tok] ens by (simp add: a2_def fun_eq_iff)
qed

lemma update_search_results_ok:
  assumes ok: "app_ok a"
  shows "\<exists>a'. update_search_results a = Some a' \<and> app_ok a' \<and> ap_by_status a' = ap_by_status a"
proof (cases "ap_focus a")
  case (SearchFocus prev results)
  let ?names = "app_names a"
  define found where "found = (case first_match results (drop (ap_selected a) ?names) of Some n \<Rightarrow> Some n | None \<Rightarrow> first_match results ?names)"
  show ?thesis
  proof (cases found)
    case None
    then show ?thesis
      using ok SearchFocus by (simp add: update_search_results_def flip: found_def)
  next
    case (Some n)
    then have "n \<in> set ?names"
      by (auto simp: found_def first_match_def dest!: find_in_set in_set_dropD split: option.splits)
    from select_task_ok [OF app_ok_pinned [OF ok]] this obtain i where
      "select_task n (a\<lparr>ap_pinned := True\<rparr>) = (Inr (), select_index i (a\<lparr>ap_pinned := True\<rparr>))"
      "app_ok (select_index i (a\<lparr>ap_pinned := True\<rparr>))"
      by auto
    then show ?thesis
      using SearchFocus Some by (simp add: update_search_results_def flip: found_def)
  qed
qed (use ok in \<open>auto simp: update_search_results_def\<close>)

lemma reset_scroll_keeps [simp]:
  "ap_by_status (reset_scroll a) = ap_by_status a" "ap_tasks (reset_scroll a) = ap_tasks a" "ap_focus (reset_scroll a) = ap_focus a"
  "ap_selected (reset_scroll a) = 0" "ap_scroll (reset_scroll a) = Some 0" "\<not> ap_pinned (reset_scroll a)"
  by (simp_all add: reset_scroll_def)

lemma reselect_spec:
  assumes "app_names a \<noteq> []" "\<not> ap_pinned a \<longrightarrow> ap_selected a = 0 \<and> ap_scroll a = Some 0"
  shows "ap_by_status (reselect name a) = ap_by_status a \<and> ap_tasks (reselect name a) = ap_tasks a \<and>
    ap_focus (reselect name a) = ap_focus a \<and> ap_selected (reselect name a) < length (app_names a) \<and>
    ap_scroll (reselect name a) = Some (ap_selected (reselect name a)) \<and>
    (\<not> ap_pinned (reselect name a) \<longrightarrow> ap_selected (reselect name a) = 0)"
  using assms position_Some [of "\<lambda>t. t = name" "app_names a"]
  by (auto simp: reselect_def select_task_def split: option.split)

lemma update_tasks_ok:
  assumes ok: "app_ok a" and ens: "names = [] \<or> ensure_outputs te names a = Some a1"
  shows "\<exists>a'. update_tasks te names a = Some (Inr (), a') \<and> app_ok a' \<and>
    (names \<noteq> [] \<longrightarrow> status_of (ap_by_status a') = (\<lambda>n. if n \<in> set names then Some StPlanned else None))"
proof (cases "names = []")
  case False
  then have a1: "ensure_outputs te names a = Some a1"
    using ens by simp
  have bt: "bt_ok (ap_tasks a)"
    using ok by (simp add: app_ok_def)
  note ens = ensure_outputs_ok [OF a1 bt]
  define tb where "tb = \<lparr>tb_running = [], tb_planned = planned_list names, tb_finished = []\<rparr>"
  define a2 where "a2 = a1\<lparr>ap_tasks := filter (\<lambda>(n, _). n \<in> set names) (ap_tasks a1), ap_by_status := tb\<rparr>"
  have tb: "tasks_ok tb" "set (task_names tb) = set names"
    using planned_list_names [of names] by (simp_all add: tb_def tasks_ok_def task_names_def)
  then have ne: "task_names tb \<noteq> []"
    using False by fastforce
  have "ap_tasks a2 = filter (\<lambda>(n, _). n \<in> set names) (ap_tasks a1)"
    by (simp add: a2_def)
  then have tasks: "bt_ok (ap_tasks a2)" "fst ` set (ap_tasks a2) = set names"
    using ens(1,2) by (auto simp: bt_ok_filter) force
  let ?h = "app_names a ! ap_selected a"
  have re: "ap_by_status (reselect ?h a2) = tb \<and> ap_tasks (reselect ?h a2) = ap_tasks a2 \<and>
    ap_focus (reselect ?h a2) = ap_focus a2 \<and> ap_selected (reselect ?h a2) < length (task_names tb) \<and>
    ap_scroll (reselect ?h a2) = Some (ap_selected (reselect ?h a2)) \<and>
    (\<not> ap_pinned (reselect ?h a2) \<longrightarrow> ap_selected (reselect ?h a2) = 0)"
    using reselect_spec [of a2 ?h] ok ne ens by (auto simp: a2_def app_ok_def)
  then have "app_ok (update_search_tasks (reselect ?h a2))"
    using tb tasks by (intro app_ok_update_search_tasks) simp_all
  from update_search_results_ok [OF this] obtain a' where
    a': "update_search_results (update_search_tasks (reselect ?h a2)) = Some a'" "app_ok a'" "ap_by_status a' = tb"
    using re by auto
  have "update_tasks te names a = Some (Inr (), a')"
    using False a'(1) by (simp add: update_tasks_def active_task_ok(1) [OF ok] a1 Let_def flip: tb_def a2_def)
  moreover have "status_of tb n = (if n \<in> set names then Some StPlanned else None)" for n
    using tb status_planned_iff(1) [OF tb(1), of n] status_of_None [of tb n] by (auto simp: tb_def task_names_def)
  ultimately show ?thesis
    using a'(2,3) by auto
qed (use ok in \<open>simp add: update_tasks_def\<close>)


lemma app_ok_focus: "app_ok a \<Longrightarrow> focus_ok (set (app_names a)) f \<Longrightarrow> app_ok (a\<lparr>ap_focus := f\<rparr>)"
  by (simp add: app_ok_def)

lemma focus_ok_simps [simp]: "focus_ok names PaneFocus" "focus_ok names TaskListFocus"
  "focus_ok names (SearchFocus prev sr) \<longleftrightarrow> search_ok names sr"
  by (simp_all add: focus_ok_def)

lemma app_ok_reselect:
  assumes "app_ok a"
  shows "app_ok (reselect name a)"
proof -
  have "app_names a \<noteq> []" "\<not> ap_pinned a \<longrightarrow> ap_selected a = 0 \<and> ap_scroll a = Some 0"
    using assms by (auto simp: app_ok_def)
  from reselect_spec [OF this, of name] show ?thesis
    using assms by (simp add: app_ok_def)
qed

lemma exit_search_ok:
  assumes "app_ok a"
  shows "app_ok (exit_search restore a)"
proof -
  have eq: "exit_search restore a = (case ap_focus a of
      SearchFocus prev results \<Rightarrow> if restore then reselect prev (a\<lparr>ap_focus := TaskListFocus\<rparr>) else a\<lparr>ap_focus := TaskListFocus\<rparr>
    | _ \<Rightarrow> a\<lparr>ap_focus := TaskListFocus\<rparr>)"
    by (simp add: exit_search_def reselect_def Let_def split: layout_sections.split)
  show ?thesis
    unfolding eq using assms by (auto intro!: app_ok_reselect app_ok_focus split: layout_sections.split)
qed

lemma enter_search_ok:
  assumes "app_ok a"
  shows "fst (enter_search a) = Inr ()" "app_ok (snd (enter_search a))"
  using assms active_task_ok(1) [OF assms]
  by (simp_all add: enter_search_def app_ok_def search_ok_def search_new_def)

lemma search_scroll_ok:
  assumes ok: "app_ok a"
  shows "\<exists>a'. search_scroll dir a = Some (Inr (), a') \<and> app_ok a'"
proof (cases "ap_focus a")
  case (SearchFocus prev results)
  let ?m = "case dir of
      DirUp \<Rightarrow> first_match results (drop (count_all (ap_by_status a) - ap_selected a) (rev (app_names a)))
    | DirDown \<Rightarrow> first_match results (drop (ap_selected a + 1) (app_names a))"
  have le: "\<not> (dir = DirUp \<and> ap_selected a > count_all (ap_by_status a))"
    using ok by (auto simp: app_ok_def count_all_def)
  show ?thesis
  proof (cases ?m)
    case None
    then show ?thesis
      using SearchFocus le ok by (auto simp: search_scroll_def Let_def)
  next
    case (Some name)
    then have "name \<in> set (app_names a)"
      by (auto simp: first_match_def dest!: find_in_set in_set_dropD split: direction_key.splits)
    from select_task_ok [OF ok this] show ?thesis
      using SearchFocus le Some by (auto simp: search_scroll_def Let_def)
  qed
qed (use ok in \<open>auto simp: search_scroll_def\<close>)

lemma search_edit_ok:
  assumes ok: "app_ok a"
  shows "\<exists>a'. search_enter_char c a = Some (Inr (), a') \<and> app_ok a'"
    and "\<exists>a'. search_remove_char a = Some (Inr (), a') \<and> app_ok a'"
proof -
  have edit: "app_ok (a\<lparr>ap_focus := SearchFocus prev (modify_query f results)\<rparr>)" if "ap_focus a = SearchFocus prev results" for f prev results
    using ok that by (auto intro!: app_ok_focus search_ok_modify simp: app_ok_def)
  show "\<exists>a'. search_enter_char c a = Some (Inr (), a') \<and> app_ok a'"
    using ok update_search_results_ok [OF edit]
    by (cases "ap_focus a") (fastforce simp: search_enter_char_def)+
  show "\<exists>a'. search_remove_char a = Some (Inr (), a') \<and> app_ok a'"
    using ok update_search_results_ok [OF edit] exit_search_ok [OF edit]
    by (cases "ap_focus a") (fastforce simp: search_remove_char_def Let_def)+
qed

lemma interact_ok:
  assumes "app_ok a"
  shows "fst (interact a) = Inr ()" "app_ok (snd (interact a))"
  using assms active_task_ok(1) [OF assms]
  by (auto simp: interact_def app_has_stdin_def intro!: app_ok_focus)

lemma forward_input_ok:
  assumes ok: "app_ok a"
  shows "app_ok (snd (forward_input te bytes a))"
    "fst (forward_input te bytes a) = Inl e \<Longrightarrow> \<exists>err. active_task a = Inr (app_names a ! ap_selected a) \<and> e = TuiStdin (app_names a ! ap_selected a) err"
proof -
  obtain t where t: "map_of (ap_tasks a) (app_names a ! ap_selected a) = Some t"
    using active_task_ok(2) [OF ok] by blast
  have "app_ok (a\<lparr>ap_tasks := bt_insert (app_names a ! ap_selected a) t' (ap_tasks a)\<rparr>)" for t'
    using ok active_task_ok(3) [OF ok] by (auto simp: app_ok_def bt_ok_insert)
  then show "app_ok (snd (forward_input te bytes a))"
    "fst (forward_input te bytes a) = Inl e \<Longrightarrow> \<exists>err. active_task a = Inr (app_names a ! ap_selected a) \<and> e = TuiStdin (app_names a ! ap_selected a) err"
    using ok t active_task_ok(1) [OF ok]
    by (auto simp: forward_input_def split: option.splits prod.splits sum.splits if_splits)
qed

lemma those_Some: "those xs = Some ys \<longleftrightarrow> xs = map Some ys"
  by (induction xs arbitrary: ys) (auto split: option.splits)

lemma app_resize_ok: "app_ok a \<Longrightarrow> app_resize te rows cols a = Some a' \<Longrightarrow> app_ok a'"
  by (auto simp: app_ok_def app_resize_def bt_ok_def Let_def those_Some simp flip: set_map dest: map_eq_imp_length_eq)

text \<open>The only events that are refused are those that name a task which is not there or not in the right state, and input a task does not take.\<close>

fun refused :: "'i tui_event \<Rightarrow> ('p, 'i) app \<Rightarrow> tui_error \<Rightarrow> bool" where
  "refused (EvStartTask name logs) a e \<longleftrightarrow> e = TaskNotFound name \<and> status_of (ap_by_status a) name \<noteq> Some StPlanned"
| "refused (EvEndTask name r) a e \<longleftrightarrow> e = TaskNotFound name \<and> (\<nexists>s. status_of (ap_by_status a) name = Some (StRunning s))"
| "refused (EvTaskOutput name bytes) a e \<longleftrightarrow> e = TaskNotFound name \<and> name \<notin> set (app_names a)"
| "refused (EvStatus name st r) a e \<longleftrightarrow> e = TaskNotFound name \<and> name \<notin> set (app_names a)"
| "refused (EvSetStdin name stdin) a e \<longleftrightarrow> e = TaskNotFound name \<and> name \<notin> set (app_names a)"
| "refused (EvInput bytes) a e \<longleftrightarrow> (\<exists>err. e = TuiStdin (app_names a ! ap_selected a) err)"
| "refused ev a e \<longleftrightarrow> False"


lemma quiet_cases: "\<exists>r. quiet x = Some (r, snd x) \<and> (\<forall>e. r = Inl e \<longrightarrow> fst x = Inl e)"
  by (cases "fst x") (auto simp: quiet_def)

lemma update_ok:
  assumes ok: "app_ok a" and up: "update te now ev a = Some (r, a')"
  shows "app_ok a' \<and> (\<forall>e. r = Inl e \<longrightarrow> refused ev a e)"
proof -
  have fine: ?thesis if "quiet x = Some (r, a')" "app_ok (snd x)" "\<And>e. fst x = Inl e \<Longrightarrow> refused ev a e" for x
    using quiet_cases [of x] that by auto
  have opt: ?thesis if "Option.bind m quiet = Some (r, a')" "\<And>x. m = Some x \<Longrightarrow> app_ok (snd x) \<and> (\<forall>e. fst x = Inl e \<longrightarrow> refused ev a e)" for m
    using that fine by (cases m) auto
  note task = app_ok_with_task [OF ok] and screen = app_ok_with_screen [OF ok] and pinned = app_ok_pinned [OF ok]
  show ?thesis
  proof (cases ev)
    case (EvStartTask name logs)
    show ?thesis
      using start_task_ok [OF ok, where name = name and now = now and logs = logs] ok up
      by (intro fine [of "start_task now name logs a"]) (auto simp: EvStartTask split: if_splits)
  next
    case (EvEndTask name r)
    show ?thesis
      using finish_task_ok [OF ok, where name = name and now = now and r = r] ok up
      by (intro fine [of "finish_task now name r a"]) (auto simp: EvEndTask split: option.splits tui_status.splits)
  next
    case (EvTaskOutput name bytes)
    show ?thesis
      using up screen by (intro opt [of "process_output te name bytes a"]) (auto simp: EvTaskOutput process_output_def split: if_splits)
  next
    case (EvStatus name st r)
    show ?thesis
      using up by (intro fine [of "set_status name st r a"]) (auto simp: EvStatus set_status_def task split: if_splits)
  next
    case (EvSetStdin name stdin)
    show ?thesis
      using up by (intro fine [of "insert_stdin name (Some stdin) a"]) (auto simp: EvSetStdin insert_stdin_def task split: if_splits)
  next
    case (EvInput bytes)
    show ?thesis
      using forward_input_ok [OF ok, of te bytes] up by (intro fine [of "forward_input te bytes a"]) (auto simp: EvInput)
  next
    case (EvUpdateTasks names)
    then obtain x where x: "update_tasks te names a = Some x" "quiet x = Some (r, a')"
      using up by (auto split: bind_splits)
    then have "names = [] \<or> (\<exists>a1. ensure_outputs te names a = Some a1)"
      using active_task_ok(1) [OF ok] by (cases "ensure_outputs te names a") (auto simp: update_tasks_def split: if_splits)
    then obtain a2 where "update_tasks te names a = Some (Inr (), a2)" "app_ok a2"
      using update_tasks_ok [OF ok] by blast
    then show ?thesis
      using x by (intro fine [of x]) auto
  next
    case (EvRestartTasks names)
    show ?thesis
      using up restart_tasks_ok [OF ok] by (intro opt [of "restart_tasks te names a"]) (auto simp: EvRestartTasks)
  next
    case (EvSearchScroll dir)
    show ?thesis
      using up search_scroll_ok [OF ok, of dir] by (intro opt [of "search_scroll dir a"]) (auto simp: EvSearchScroll)
  next
    case (EvSearchEnterChar c)
    show ?thesis
      using up search_edit_ok(1) [OF ok, of c] by (intro opt [of "search_enter_char c a"]) (auto simp: EvSearchEnterChar)
  next
    case EvSearchBackspace
    show ?thesis
      using up search_edit_ok(2) [OF ok] by (intro opt [of "search_remove_char a"]) (auto simp: EvSearchBackspace)
  next
    case (EvMouse m)
    show ?thesis
      using up app_ok_with_full_task [OF ok] ok
      by (intro opt [of "app_handle_mouse te m a"]) (auto simp: EvMouse app_handle_mouse_def Let_def split: if_splits)
  next
    case EvScrollUp
    show ?thesis
      using up app_ok_with_full_task [OF pinned]
      by (intro opt [of "scroll_terminal_output te DirUp (a\<lparr>ap_pinned := True\<rparr>)"]) (auto simp: EvScrollUp scroll_terminal_output_def)
  next
    case EvScrollDown
    show ?thesis
      using up app_ok_with_full_task [OF pinned]
      by (intro opt [of "scroll_terminal_output te DirDown (a\<lparr>ap_pinned := True\<rparr>)"]) (auto simp: EvScrollDown scroll_terminal_output_def)
  next
    case EvCopySelection
    then show ?thesis
      using ok up active_task_ok(1,2) [OF ok]
      by (auto simp: app_copy_selection_def get_full_task_def split: option.splits)
  next
    case (EvResize rows cols)
    then show ?thesis
      using up app_resize_ok [OF ok] by (auto simp: quiet_def split: bind_splits)
  qed (use ok up in \<open>auto simp: quiet_def app_ok_next_previous interact_ok pinned enter_search_ok exit_search_ok
    update_sidebar_toggle_def update_pinned_state_def\<close>)
qed

lemma new_outputs_ok:
  assumes "new_outputs te rows cols names m = Some m'" "bt_ok m"
  shows "bt_ok m' \<and> fst ` set m' = set names \<union> fst ` set m"
  using assms by (induction te rows cols names m rule: new_outputs.induct) (auto simp: bt_ok_insert split: bind_splits)

lemma app_new_ok:
  assumes new: "app_new te rows cols tasks prefs = Some a" and "tasks \<noteq> []"
  shows "app_ok a" and "status_of (ap_by_status a) = (\<lambda>n. if n \<in> set tasks then Some StPlanned else None)"
proof -
  define tb where "tb = \<lparr>tb_running = [], tb_planned = planned_list tasks, tb_finished = []\<rparr>"
  have tb: "tasks_ok tb" "set (task_names tb) = set tasks"
    using planned_list_names [of tasks] by (simp_all add: tb_def tasks_ok_def task_names_def)
  then have ne: "task_names tb \<noteq> []"
    using assms by fastforce
  have "bt_ok ([] :: (string, ('a, 'b) terminal_output) btree_map)"
    by (simp add: bt_ok_def)
  note outputs = new_outputs_ok [OF _ this]
  obtain m where m: "new_outputs te (pane_rows (size_new rows cols tasks)) (pane_cols (size_new rows cols tasks)) (task_names tb) [] = Some m"
    and a: "ap_tasks a = m" "ap_by_status a = tb" "ap_focus a = TaskListFocus" "ap_scroll a = Some (ap_selected a)"
      "ap_selected a = (case Option.bind (pf_active_task prefs) (active_index tb) of Some i \<Rightarrow> i | None \<Rightarrow> 0)"
      "ap_pinned a = (pf_active_task prefs \<noteq> None)"
    using new by (auto simp: app_new_def Let_def tb_def)
  have sel: "active_index tb n = Some i \<Longrightarrow> i < length (task_names tb)" for n i
    using position_Some by (auto simp: active_index_def)
  show "app_ok a"
    using tb ne sel outputs [OF m] by (auto simp: app_ok_def a split: option.splits bind_splits)
  show "status_of (ap_by_status a) = (\<lambda>n. if n \<in> set tasks then Some StPlanned else None)"
  proof
    fix n
    show "status_of (ap_by_status a) n = (if n \<in> set tasks then Some StPlanned else None)"
      using a(2) tb status_planned_iff(1) [OF tb(1), of n] status_of_None [of tb n]
      by (auto simp: tb_def task_names_def)
  qed
qed

text \<open>The states that events lead to; the first one is that of a terminal interface for some tasks.\<close>

inductive app_reach :: "('p, 'i) tui_env \<Rightarrow> ('p, 'i) app \<Rightarrow> bool" for te where
  start: "tasks \<noteq> [] \<Longrightarrow> app_new te rows cols tasks prefs = Some a \<Longrightarrow> app_reach te a"
| step: "app_reach te a \<Longrightarrow> update te now ev a = Some (r, a') \<Longrightarrow> app_reach te a'"

lemma app_reach_ok: "app_reach te a \<Longrightarrow> app_ok a"
proof (induction rule: app_reach.induct)
  case (step a now ev r a')
  then show ?case using update_ok [OF step.IH] by blast
qed (simp add: app_new_ok)

subsection \<open>The emulator\<close>

text \<open>
  What is asked of the emulator: it works on panes of two rows and two columns or more, whatever bytes it
  is given. On smaller panes it does not: \<open>Grid::new\<close> subtracts one from the rows, \<open>Grid::col_wrap\<close> fails
  on a screen of one row when a line wraps, and on a screen of one column when a wide character arrives.
\<close>

definition emulator_ok :: "('p, 'i) tui_env \<Rightarrow> ('p \<Rightarrow> bool) \<Rightarrow> bool" where
  "emulator_ok te good \<longleftrightarrow>
     (\<forall>rows cols. 2 \<le> rows \<and> 2 \<le> cols \<longrightarrow> (\<exists>p. vt_new te rows cols = Some p \<and> good p)) \<and>
     (\<forall>p. good p \<longrightarrow>
        (\<forall>bytes. \<exists>p'. vt_process te bytes p = Some p' \<and> good p') \<and> (\<forall>n. good (vt_set_scrollback te n p)) \<and>
        (\<exists>p'. vt_clear_selection te p = Some p' \<and> good p') \<and> (\<forall>r c. \<exists>p'. vt_update_selection te r c p = Some p' \<and> good p') \<and>
        vt_selected_text te p \<noteq> None \<and> vt_rows te p \<noteq> None \<and> vt_visible te p \<noteq> None)"

lemma emulator_okD:
  assumes "emulator_ok te good"
  shows "2 \<le> rows \<Longrightarrow> 2 \<le> cols \<Longrightarrow> \<exists>p. vt_new te rows cols = Some p \<and> good p"
    and "good p \<Longrightarrow> \<exists>p'. vt_process te bytes p = Some p' \<and> good p'"
    and "good p \<Longrightarrow> good (vt_set_scrollback te n p)"
    and "good p \<Longrightarrow> \<exists>p'. vt_clear_selection te p = Some p' \<and> good p'"
    and "good p \<Longrightarrow> \<exists>p'. vt_update_selection te r c p = Some p' \<and> good p'"
    and "good p \<Longrightarrow> \<exists>s. vt_selected_text te p = Some s"
    and "good p \<Longrightarrow> \<exists>ls. vt_visible te p = Some ls"
  using assms by (auto simp: emulator_ok_def)

definition screens :: "('p, 'i) app \<Rightarrow> 'p set" where
  "screens a = to_parser ` snd ` set (ap_tasks a)"

definition app_good :: "('p \<Rightarrow> bool) \<Rightarrow> ('p, 'i) app \<Rightarrow> bool" where
  "app_good good a \<longleftrightarrow> (\<forall>p \<in> screens a. good p) \<and> 2 \<le> pane_rows (ap_size a) \<and> 2 \<le> pane_cols (ap_size a)"

text \<open>A terminal of four rows and columns has a pane of two.\<close>

lemma pane_big:
  assumes "4 \<le> sz_rows sz" "4 \<le> sz_cols sz"
  shows "2 \<le> pane_rows sz \<and> 2 \<le> pane_cols sz"
proof -
  have "4 \<le> unat (sz_rows sz)" "4 \<le> unat (sz_cols sz)"
    using assms by (simp_all add: word_le_nat_alt)
  then show ?thesis
    by (auto simp: word_le_nat_alt pane_rows_def pane_cols_unat unat_max saturating_sub_unat)
qed

definition big_enough :: "'i tui_event \<Rightarrow> bool" where
  "big_enough ev \<longleftrightarrow> (case ev of EvResize rows cols \<Rightarrow> 4 \<le> rows \<and> 4 \<le> cols | _ \<Rightarrow> True)"

lemma snd_bt_insert: "snd ` set (bt_insert k v m) \<subseteq> insert v (snd ` set m)"
  by (induction k v m rule: bt_insert.induct) auto

lemma screens_insert: "screens (a\<lparr>ap_tasks := bt_insert n t (ap_tasks a)\<rparr>) \<subseteq> insert (to_parser t) (screens a)"
  using snd_bt_insert [of n t "ap_tasks a"] by (auto simp: screens_def)

lemma map_of_screen: "map_of (ap_tasks a) n = Some t \<Longrightarrow> to_parser t \<in> screens a"
  by (force simp: screens_def dest: map_of_SomeD)

lemma screens_with_task:
  assumes "\<And>t. to_parser (f t) = to_parser t"
  shows "screens (snd (with_task name f a)) \<subseteq> screens a \<and> ap_size (snd (with_task name f a)) = ap_size a"
proof (cases "map_of (ap_tasks a) name")
  case (Some t)
  then show ?thesis
    using screens_insert [of name "f t" a] map_of_screen [OF Some] assms [of t] by (auto simp: with_task_def)
qed (simp add: with_task_def)

lemma app_goodI: "app_good good a \<Longrightarrow> screens a' \<subseteq> screens a \<and> ap_size a' = ap_size a \<Longrightarrow> app_good good a'"
  by (auto simp: app_good_def)

lemma app_good_select_task: "app_good good a \<Longrightarrow> app_good good (snd (select_task name a))"
  by (auto simp: app_good_def screens_def select_task_def split: option.split)

lemma app_good_simps [simp]:
  "app_good good (select_index i a) = app_good good a" "app_good good (reset_scroll a) = app_good good a"
  "app_good good (a\<lparr>ap_pinned := b\<rparr>) = app_good good a" "app_good good (a\<lparr>ap_focus := f\<rparr>) = app_good good a"
  "app_good good (a\<lparr>ap_done := b\<rparr>) = app_good good a" "app_good good (a\<lparr>ap_help := b\<rparr>) = app_good good a"
  "app_good good (a\<lparr>ap_preferences := pf\<rparr>) = app_good good a" "app_good good (a\<lparr>ap_by_status := tb\<rparr>) = app_good good a"
  "app_good good (update_search_tasks a) = app_good good a" "app_good good (snd (persist_active_task a)) = app_good good a"
  "app_good good (snd (interact a)) = app_good good a" "app_good good (snd (enter_search a)) = app_good good a"
  by (simp_all add: app_good_def screens_def reset_scroll_def update_search_tasks_def persist_active_task_def interact_def enter_search_def
      split: layout_sections.split sum.split)

lemma app_good_select_task_eq: "select_task name a = (r, a') \<Longrightarrow> app_good good a \<Longrightarrow> app_good good a'"
  using app_good_select_task [of good a name] by simp

lemma app_good_reselect: "app_good good a \<Longrightarrow> app_good good (reselect name a)"
  by (auto simp: reselect_def dest: app_good_select_task_eq split: prod.split sum.split)

lemma app_good_moves:
  assumes "app_good good a"
  shows "app_good good (app_next a)" "app_good good (app_previous a)" "app_good good (exit_search restore a)"
  using assms
  by (auto simp: app_next_def app_previous_def exit_search_def Let_def dest: app_good_select_task_eq
      split: layout_sections.split prod.split sum.split)

lemma app_good_update_search_results: "update_search_results a = Some a' \<Longrightarrow> app_good good a \<Longrightarrow> app_good good a'"
  by (auto simp: update_search_results_def Let_def dest: app_good_select_task_eq
      split: layout_sections.splits option.splits prod.splits sum.splits)

lemma app_good_search:
  assumes "app_good good a"
  shows "search_scroll dir a = Some (r, a') \<Longrightarrow> app_good good a'" "search_enter_char c a = Some (r, a') \<Longrightarrow> app_good good a'"
    "search_remove_char a = Some (r, a') \<Longrightarrow> app_good good a'"
  using assms
  by (auto simp: search_scroll_def search_enter_char_def search_remove_char_def Let_def
      dest: app_good_select_task_eq app_good_update_search_results intro!: app_good_moves
      split: layout_sections.splits option.splits if_splits direction_key.splits)

lemma app_good_with_task:
  "app_good good a \<Longrightarrow> (\<And>t. to_parser (f t) = to_parser t) \<Longrightarrow> app_good good (snd (with_task name f a))"
  by (rule app_goodI [OF _ screens_with_task])

lemma app_good_start_finish:
  assumes "app_good good a"
  shows "app_good good (snd (start_task now name logs a))" "app_good good (snd (finish_task now name res a))"
proof -
  have task: "app_good good a'" if "with_task name f (a\<lparr>ap_by_status := tb\<rparr>) = (x, a')" "\<And>t. to_parser (f t) = to_parser t" for f tb x a'
    using app_good_with_task [of good "a\<lparr>ap_by_status := tb\<rparr>" f name] assms that by simp
  show "app_good good (snd (start_task now name logs a))" "app_good good (snd (finish_task now name res a))"
    using assms by (auto simp: start_task_def finish_task_def dest!: task intro!: app_good_select_task split: sum.split option.split prod.split)
qed

text \<open>Where the emulator takes part.\<close>

lemma with_screen_good:
  assumes "app_good good a" and f: "\<And>t. good (to_parser t) \<Longrightarrow> \<exists>t'. f t = Some t' \<and> good (to_parser t')"
  shows "\<exists>x. with_screen name f a = Some x \<and> app_good good (snd x)"
proof (cases "map_of (ap_tasks a) name")
  case (Some t)
  then obtain t' where t': "f t = Some t'" "good (to_parser t')"
    using f [of t] assms(1) map_of_screen [OF Some] by (auto simp: app_good_def)
  then show ?thesis
    using Some assms(1) screens_insert [of name t' a] by (auto simp: with_screen_def app_good_def)
qed (use assms in \<open>simp add: with_screen_def\<close>)

lemma with_full_task_good:
  assumes "app_good good a" and "\<And>t. good (to_parser t) \<Longrightarrow> \<exists>t'. f t = Some t' \<and> good (to_parser t')"
  shows "\<exists>x. with_full_task f a = Some x \<and> app_good good (snd x)"
  using with_screen_good [OF assms] assms(1) by (auto simp: with_full_task_def split: sum.split)

lemma to_new_good:
  assumes "emulator_ok te good" "app_good good a"
  shows "\<exists>t. to_new te (pane_rows (ap_size a)) (pane_cols (ap_size a)) = Some t \<and> good (to_parser t)"
proof -
  obtain p where "vt_new te (pane_rows (ap_size a)) (pane_cols (ap_size a)) = Some p" "good p"
    using emulator_okD(1) [OF assms(1), of "pane_rows (ap_size a)" "pane_cols (ap_size a)"] assms(2) by (auto simp: app_good_def)
  then show ?thesis
    by (simp add: to_new_def)
qed

lemma all_outputs_insert: "P t \<Longrightarrow> \<forall>x \<in> set m. P (snd x) \<Longrightarrow> \<forall>x \<in> set (bt_insert n t m). P (snd x)"
  using snd_bt_insert [of n t m] by fastforce

lemma missing_outputs_good:
  assumes "to_new te rows cols = Some t" "P t" "\<forall>x \<in> set m. P (snd x)"
  shows "\<exists>m'. missing_outputs te rows cols names m = Some m' \<and> (\<forall>x \<in> set m'. P (snd x))"
  using assms(3)
proof (induction names arbitrary: m)
  case (Cons n names)
  show ?case
    using Cons.IH [OF Cons.prems] Cons.IH [OF all_outputs_insert [OF assms(2) Cons.prems, of n]] assms(1) by simp
qed simp

lemma new_outputs_good:
  assumes "to_new te rows cols = Some t" "P t" "\<forall>x \<in> set m. P (snd x)"
  shows "\<exists>m'. new_outputs te rows cols names m = Some m' \<and> (\<forall>x \<in> set m'. P (snd x))"
  using assms(3)
proof (induction names arbitrary: m)
  case (Cons n names)
  show ?case
    using Cons.IH [OF all_outputs_insert [OF assms(2) Cons.prems, of n]] assms(1) by simp
qed simp

lemma ensure_outputs_good:
  assumes "emulator_ok te good" "app_good good a"
  shows "\<exists>a1. ensure_outputs te names a = Some a1 \<and> app_good good a1"
proof -
  obtain t where t: "to_new te (pane_rows (ap_size a)) (pane_cols (ap_size a)) = Some t" "good (to_parser t)"
    using to_new_good [OF assms] by blast
  have "\<forall>x \<in> set (ap_tasks a). good (to_parser (snd x))"
    using assms(2) by (auto simp: app_good_def screens_def)
  from missing_outputs_good [where P = "\<lambda>t. good (to_parser t)", OF t this] obtain m where
    "missing_outputs te (pane_rows (ap_size a)) (pane_cols (ap_size a)) names (ap_tasks a) = Some m"
    "\<forall>x \<in> set m. good (to_parser (snd x))"
    by blast
  then show ?thesis
    using assms(2) by (simp add: ensure_outputs_def app_good_def screens_def)
qed

lemma app_good_filter: "app_good good a \<Longrightarrow> app_good good (a\<lparr>ap_tasks := filter P (ap_tasks a), ap_by_status := tb\<rparr>)"
  by (auto simp: app_good_def screens_def)

lemma to_resize_good:
  assumes em: "emulator_ok te good" and "2 \<le> rows" "2 \<le> cols" "good (to_parser t)"
  shows "\<exists>t'. to_resize te rows cols t = Some t' \<and> good (to_parser t')"
proof -
  obtain p where p: "vt_new te rows cols = Some p" "good p"
    using emulator_okD(1) [OF em] assms by blast
  obtain p' where "vt_process te (to_output t) p = Some p'" "good p'"
    using emulator_okD(2) [OF em p(2)] by blast
  then show ?thesis
    using p assms emulator_okD(3) [OF em] by (simp add: to_resize_def)
qed

lemma those_good:
  assumes "\<And>x. x \<in> set xs \<Longrightarrow> \<exists>y. f x = Some y \<and> P y"
  shows "\<exists>ys. those (map f xs) = Some ys \<and> length ys = length xs \<and> (\<forall>y \<in> set ys. P y)"
  using assms by (induction xs) (fastforce simp: less_Suc_eq)+

lemma app_resize_good:
  assumes em: "emulator_ok te good" and a: "app_good good a" and big: "4 \<le> rows" "4 \<le> cols"
  shows "\<exists>a'. app_resize te rows cols a = Some a' \<and> app_good good a'"
proof -
  let ?sz = "size_resize rows cols (ap_size a)"
  have sz: "2 \<le> pane_rows ?sz" "2 \<le> pane_cols ?sz"
    using pane_big [of ?sz] big by (simp_all add: size_resize_def)
  have "\<exists>ts. those (map (\<lambda>(n, t). to_resize te (pane_rows ?sz) (pane_cols ?sz) t) (ap_tasks a)) = Some ts \<and>
      length ts = length (ap_tasks a) \<and> (\<forall>t \<in> set ts. good (to_parser t))"
  proof (rule those_good)
    fix x
    assume "x \<in> set (ap_tasks a)"
    then have "good (to_parser (snd x))"
      using a by (auto simp: app_good_def screens_def)
    then show "\<exists>t. (case x of (n, t) \<Rightarrow> to_resize te (pane_rows ?sz) (pane_cols ?sz) t) = Some t \<and> good (to_parser t)"
      using to_resize_good [OF em sz] by (simp add: case_prod_beta)
  qed
  then show ?thesis
    using sz by (auto simp: app_resize_def Let_def app_good_def screens_def dest!: set_zip_rightD)
qed

lemma update_tasks_good:
  assumes em: "emulator_ok te good" and ok: "app_ok a" and good: "app_good good a"
  shows "\<exists>x. update_tasks te names a = Some x \<and> app_good good (snd x)"
proof -
  obtain a1 where a1: "ensure_outputs te names a = Some a1" "app_good good a1"
    using ensure_outputs_good [OF em good] by blast
  obtain a' where a': "update_tasks te names a = Some (Inr (), a')"
    using update_tasks_ok [OF ok disjI2 [OF a1(1)]] by blast
  have "app_good good a'"
    using a' a1 good active_task_ok(1) [OF ok]
    by (auto simp: update_tasks_def Let_def split: if_splits
        dest!: app_good_update_search_results [where good = good] intro!: app_good_reselect app_good_filter)
  then show ?thesis
    using a' by simp
qed

lemma restart_tasks_good:
  assumes em: "emulator_ok te good" and good: "app_good good a"
  shows "\<exists>x. restart_tasks te names a = Some x \<and> app_good good (snd x)"
  using ensure_outputs_good [OF assms, of names] good
  by (auto simp: restart_tasks_def Let_def intro!: app_good_reselect split: sum.split)

lemma to_handle_mouse_good:
  assumes em: "emulator_ok te good" and "good (to_parser t)"
  shows "\<exists>t'. to_handle_mouse te ev t = Some t' \<and> good (to_parser t')"
proof -
  obtain p where p: "vt_clear_selection te (to_parser t) = Some p" "good p"
    using emulator_okD(4) [OF assms] by blast
  obtain p' where p': "vt_update_selection te (me_row ev) (me_column ev) (to_parser t) = Some p'" "good p'"
    using emulator_okD(5) [OF assms] by blast
  show ?thesis
    using p p' assms(2) by (auto simp: to_handle_mouse_def split: mouse_kind.split mouse_button.split)
qed

lemma forward_input_good: "app_good good a \<Longrightarrow> app_good good (snd (forward_input te bytes a))"
proof -
  assume good: "app_good good a"
  have "app_good good (a\<lparr>ap_tasks := bt_insert name (t\<lparr>to_stdin := i\<rparr>) (ap_tasks a)\<rparr>)" if "map_of (ap_tasks a) name = Some t" for name t i
    using good map_of_screen [OF that] screens_insert [of name "t\<lparr>to_stdin := i\<rparr>" a] by (auto simp: app_good_def)
  then show ?thesis
    using good by (auto simp: forward_input_def split: sum.split option.split prod.split)
qed

text \<open>With such an emulator no event panics, as long as the terminal is not made too small.\<close>

lemma update_good:
  assumes em: "emulator_ok te good" and ok: "app_ok a" and good: "app_good good a" and big: "big_enough ev"
  shows "\<exists>r a'. update te now ev a = Some (r, a') \<and> app_good good a'"
proof -
  have fine: ?thesis if "update te now ev a = quiet x" "app_good good (snd x)" for x
    using quiet_cases [of x] that by auto
  have opt: ?thesis if "update te now ev a = Option.bind m quiet" "\<exists>x. m = Some x \<and> app_good good (snd x)" for m
    using that quiet_cases by fastforce
  have some: "\<exists>x. m = Some x \<and> app_good good (snd x)" if "\<exists>a'. m = Some (Inr (), a') \<and> app_ok a'" "\<And>r a'. m = Some (r, a') \<Longrightarrow> app_good good a'" for m
    using that by fastforce
  show ?thesis
  proof (cases ev)
    case (EvStartTask name logs)
    show ?thesis
      using good by (intro fine [of "start_task now name logs a"]) (simp_all add: EvStartTask app_good_start_finish)
  next
    case (EvEndTask name r)
    show ?thesis
      using good by (intro fine [of "finish_task now name r a"]) (simp_all add: EvEndTask app_good_start_finish)
  next
    case (EvTaskOutput name bytes)
    show ?thesis
      using with_screen_good [OF good, of "to_process te bytes" name] emulator_okD(2) [OF em, where bytes = bytes]
      by (intro opt [of "process_output te name bytes a"]) (fastforce simp: EvTaskOutput process_output_def to_process_def)+
  next
    case (EvStatus name st r)
    show ?thesis
      using good by (intro fine [of "set_status name st r a"]) (simp_all add: EvStatus set_status_def app_good_with_task)
  next
    case (EvSetStdin name stdin)
    show ?thesis
      using good by (intro fine [of "insert_stdin name (Some stdin) a"]) (simp_all add: EvSetStdin insert_stdin_def app_good_with_task)
  next
    case (EvInput bytes)
    show ?thesis
      using good by (intro fine [of "forward_input te bytes a"]) (simp_all add: EvInput forward_input_good)
  next
    case (EvUpdateTasks names)
    show ?thesis
      using update_tasks_good [OF em ok good] by (intro opt [of "update_tasks te names a"]) (simp_all add: EvUpdateTasks)
  next
    case (EvRestartTasks names)
    show ?thesis
      using restart_tasks_good [OF em good] by (intro opt [of "restart_tasks te names a"]) (simp_all add: EvRestartTasks)
  next
    case (EvSearchScroll dir)
    show ?thesis
      by (rule opt [of "search_scroll dir a", OF _ some [OF search_scroll_ok [OF ok] app_good_search(1) [OF good]]]) (simp_all add: EvSearchScroll)
  next
    case (EvSearchEnterChar c)
    show ?thesis
      by (rule opt [of "search_enter_char c a", OF _ some [OF search_edit_ok(1) [OF ok] app_good_search(2) [OF good]]]) (simp_all add: EvSearchEnterChar)
  next
    case EvSearchBackspace
    show ?thesis
      by (rule opt [of "search_remove_char a", OF _ some [OF search_edit_ok(2) [OF ok] app_good_search(3) [OF good]]]) (simp_all add: EvSearchBackspace)
  next
    case (EvMouse m)
    show ?thesis
      using with_full_task_good [OF good to_handle_mouse_good [OF em]] good
      by (intro opt [of "app_handle_mouse te m a"]) (simp_all add: EvMouse app_handle_mouse_def Let_def)
  next
    case EvScrollUp
    show ?thesis
      using with_full_task_good [of good "a\<lparr>ap_pinned := True\<rparr>" "\<lambda>t. Some (to_scroll te DirUp t)"] good emulator_okD(3) [OF em]
      by (intro opt [of "scroll_terminal_output te DirUp (a\<lparr>ap_pinned := True\<rparr>)"])
        (simp_all add: EvScrollUp scroll_terminal_output_def to_scroll_def Let_def)
  next
    case EvScrollDown
    show ?thesis
      using with_full_task_good [of good "a\<lparr>ap_pinned := True\<rparr>" "\<lambda>t. Some (to_scroll te DirDown t)"] good emulator_okD(3) [OF em]
      by (intro opt [of "scroll_terminal_output te DirDown (a\<lparr>ap_pinned := True\<rparr>)"])
        (simp_all add: EvScrollDown scroll_terminal_output_def to_scroll_def Let_def)
  next
    case EvCopySelection
    obtain t where t: "map_of (ap_tasks a) (app_names a ! ap_selected a) = Some t"
      using active_task_ok(2) [OF ok] by blast
    then have "good (to_parser t)"
      using good map_of_screen by (auto simp: app_good_def)
    then obtain sel where "vt_selected_text te (to_parser t) = Some sel"
      using emulator_okD(6) [OF em] by blast
    then show ?thesis
      using good active_task_ok(1) [OF ok] t
      by (cases sel) (simp_all add: EvCopySelection app_copy_selection_def to_copy_selection_def get_full_task_def)
  next
    case (EvResize rows cols)
    then show ?thesis
      using app_resize_good [OF em good, of rows cols] big by (auto simp: big_enough_def quiet_def)
  qed (use good in \<open>auto simp: quiet_def app_good_moves update_sidebar_toggle_def update_pinned_state_def\<close>)
qed

lemma app_new_good:
  assumes em: "emulator_ok te good" and big: "4 \<le> rows" "4 \<le> cols"
  shows "\<exists>a. app_new te rows cols tasks prefs = Some a \<and> app_good good a"
proof -
  let ?sz = "size_new rows cols tasks"
  have sz: "2 \<le> pane_rows ?sz" "2 \<le> pane_cols ?sz"
    using pane_big [of ?sz] big by (simp_all add: size_new_def)
  then obtain p where p: "vt_new te (pane_rows ?sz) (pane_cols ?sz) = Some p" "good p"
    using emulator_okD(1) [OF em] by blast
  obtain t where t: "to_new te (pane_rows ?sz) (pane_cols ?sz) = Some t" "good (to_parser t)"
    using p by (simp add: to_new_def)
  obtain m where "new_outputs te (pane_rows ?sz) (pane_cols ?sz)
      (task_names \<lparr>tb_running = [], tb_planned = planned_list tasks, tb_finished = []\<rparr>) [] = Some m" "\<forall>x \<in> set m. good (to_parser (snd x))"
    using new_outputs_good [where P = "\<lambda>t. good (to_parser t)" and m = "[]", OF t] by (simp del: bt_insert.simps) blast
  then show ?thesis
    using sz by (simp add: app_new_def Let_def app_good_def screens_def)
qed

text \<open>The same, while the terminal never has less than four rows and columns; \<open>nrz\<close> starts the interface on ten rows and twenty columns or more.\<close>

inductive app_reach_big :: "('p, 'i) tui_env \<Rightarrow> ('p, 'i) app \<Rightarrow> bool" for te where
  start: "tasks \<noteq> [] \<Longrightarrow> 4 \<le> rows \<Longrightarrow> 4 \<le> cols \<Longrightarrow> app_new te rows cols tasks prefs = Some a \<Longrightarrow> app_reach_big te a"
| step: "app_reach_big te a \<Longrightarrow> big_enough ev \<Longrightarrow> update te now ev a = Some (r, a') \<Longrightarrow> app_reach_big te a'"

lemma app_reach_big_reach: "app_reach_big te a \<Longrightarrow> app_reach te a"
  by (induction rule: app_reach_big.induct) (auto intro: app_reach.intros)

lemma app_reach_big_good: "app_reach_big te a \<Longrightarrow> emulator_ok te good \<Longrightarrow> app_good good a"
proof (induction rule: app_reach_big.induct)
  case (start tasks rows cols prefs a)
  then show ?case using app_new_good [of te good rows cols tasks prefs] by simp
next
  case (step a ev now r a')
  then show ?case
    using update_good [OF step.prems app_reach_ok [OF app_reach_big_reach [OF step.hyps(1)]] step.IH [OF step.prems] step.hyps(2), of now] by auto
qed

text \<open>
  C23: However tasks and user interact with the terminal interface, the selected row is always the row of a
  task, that task is the first one as long as the selection is not pinned, and it has an output; names are
  unique and failures come first among the finished tasks, cache hits last. An event is refused only if it
  names a task that is not there or not in the right state (so a start is refused for a task that has
  finished), or if the task does not take its input. If the terminal emulator works on panes of two rows
  and columns or more, then no event panics while the terminal has four rows and columns or more.
\<close>

theorem tui_selection_valid:
  assumes "app_reach te a"
  shows "(\<exists>name t. active_task a = Inr name \<and> map_of (ap_tasks a) name = Some t \<and> app_names a ! ap_selected a = name) \<and>
    ap_scroll a = Some (ap_selected a) \<and> ap_selected a < length (app_names a) \<and> (\<not> ap_pinned a \<longrightarrow> ap_selected a = 0) \<and>
    distinct (app_names a) \<and> sorted (map (result_rank \<circ> tk_result) (tb_finished (ap_by_status a))) \<and>
    (\<forall>now ev e a'. update te now ev a = Some (Inl e, a') \<longrightarrow> refused ev a e) \<and>
    (\<forall>good now ev. emulator_ok te good \<and> app_reach_big te a \<and> big_enough ev \<longrightarrow> update te now ev a \<noteq> None)"
proof -
  have ok: "app_ok a"
    using assms by (rule app_reach_ok)
  have "update te now ev a \<noteq> None" if "emulator_ok te good" "app_reach_big te a" "big_enough ev" for good now ev
    using update_good [OF that(1) ok app_reach_big_good [OF that(2,1)] that(3), of now] by auto
  moreover have "refused ev a e" if "update te now ev a = Some (Inl e, a')" for now ev e a'
    using update_ok [OF ok that] by simp
  ultimately show ?thesis
    using ok active_task_ok [OF ok] by (simp add: app_ok_def tasks_ok_def) blast
qed

subsection \<open>What events do to the tasks\<close>

text \<open>The lists of tasks stand for a map from names to states; an event changes it for the tasks it names.\<close>

fun status_spec :: "nat \<Rightarrow> 'i tui_event \<Rightarrow> (string \<rightharpoonup> tui_status) \<Rightarrow> (string \<rightharpoonup> tui_status)" where
  "status_spec now (EvStartTask name logs) m = m(name \<mapsto> StRunning now)"
| "status_spec now (EvEndTask name r) m =
     (case m name of
        Some (StRunning s) \<Rightarrow> m(name \<mapsto> StFinished \<lparr>fi_start = s, fi_end = now, fi_result = r\<rparr>)
      | _ \<Rightarrow> m)"
| "status_spec now (EvUpdateTasks names) m =
     (if names = [] then m else (\<lambda>n. if n \<in> set names then Some StPlanned else None))"
| "status_spec now (EvRestartTasks names) m = (\<lambda>n. if n \<in> set names then Some StPlanned else m n)"
| "status_spec now ev m = m"

fun moves_tasks :: "'i tui_event \<Rightarrow> bool" where
  "moves_tasks (EvStartTask name logs) = True"
| "moves_tasks (EvEndTask name r) = True"
| "moves_tasks (EvUpdateTasks names) = True"
| "moves_tasks (EvRestartTasks names) = True"
| "moves_tasks ev = False"

text \<open>The events with which a user moves the selection, and the exchange of the whole list.\<close>

fun moves_selection :: "'i tui_event \<Rightarrow> bool" where
  "moves_selection EvUp = True"
| "moves_selection EvDown = True"
| "moves_selection (EvSearchExit restore) = True"
| "moves_selection (EvSearchScroll dir) = True"
| "moves_selection (EvSearchEnterChar c) = True"
| "moves_selection EvSearchBackspace = True"
| "moves_selection (EvUpdateTasks names) = True"
| "moves_selection ev = False"

named_theorems by_status_simps

lemma by_status_keeps [by_status_simps]:
  "ap_by_status (snd (with_task name f a)) = ap_by_status a" "ap_selected (snd (with_task name f a)) = ap_selected a"
  "ap_by_status (snd (persist_active_task a)) = ap_by_status a"
  "ap_by_status (snd (select_task name a)) = ap_by_status a"
  "ap_by_status (snd (interact a)) = ap_by_status a" "ap_selected (snd (interact a)) = ap_selected a"
  "ap_by_status (snd (enter_search a)) = ap_by_status a" "ap_selected (snd (enter_search a)) = ap_selected a"
  "ap_by_status (snd (forward_input te bytes a)) = ap_by_status a" "ap_selected (snd (forward_input te bytes a)) = ap_selected a"
  by (auto simp: with_task_def persist_active_task_def select_task_def interact_def enter_search_def forward_input_def
      split: option.split sum.split prod.split)

lemma by_status_keeps_more [by_status_simps]:
  "ap_by_status (app_next a) = ap_by_status a" "ap_by_status (app_previous a) = ap_by_status a"
  "ap_by_status (exit_search restore a) = ap_by_status a"
  by (auto simp: app_next_def app_previous_def exit_search_def Let_def by_status_simps select_task_def
      split: sum.split layout_sections.split option.split)

lemma with_screen_keeps:
  assumes "with_screen name f a = Some (r, a')"
  shows "ap_by_status a' = ap_by_status a" "ap_selected a' = ap_selected a"
  using with_screen_Some [OF assms] by_status_keeps(1,2) [of name _ a] by (metis snd_conv)+

lemma with_full_task_keeps:
  "with_full_task f a = Some (r, a') \<Longrightarrow> ap_by_status a' = ap_by_status a \<and> ap_selected a' = ap_selected a"
  by (auto simp: with_full_task_def dest: with_screen_keeps split: sum.splits)

lemma select_task_keeps: "select_task name a = (r, a') \<Longrightarrow> ap_by_status a' = ap_by_status a"
  using by_status_keeps(4) [of name a] by simp

lemma update_search_results_keeps: "update_search_results a = Some a' \<Longrightarrow> ap_by_status a' = ap_by_status a"
  by (auto simp: update_search_results_def Let_def dest!: select_task_keeps split: layout_sections.splits option.splits prod.splits sum.splits)

lemma search_keeps_tasks:
  "search_scroll dir a = Some (r, a') \<Longrightarrow> ap_by_status a' = ap_by_status a"
  "search_enter_char c a = Some (r, a') \<Longrightarrow> ap_by_status a' = ap_by_status a"
  "search_remove_char a = Some (r, a') \<Longrightarrow> ap_by_status a' = ap_by_status a"
  by (auto simp: search_scroll_def search_enter_char_def search_remove_char_def Let_def by_status_simps
      dest!: select_task_keeps update_search_results_keeps split: layout_sections.splits option.splits direction_key.splits if_splits)

lemma quiet_snd: "quiet x = Some (r, a') \<Longrightarrow> a' = snd x"
  by (auto simp: quiet_def)

lemma quiet_Some: "quiet (r, a) = Some (r', a') \<Longrightarrow> a' = a"
  by (auto simp: quiet_def)

lemma update_keeps_tasks:
  assumes "update te now ev a = Some (r, a')" "\<not> moves_tasks ev"
  shows "ap_by_status a' = ap_by_status a \<and> (\<not> moves_selection ev \<longrightarrow> ap_selected a' = ap_selected a)"
proof (cases "ev = EvCopySelection")
  case True
  then show ?thesis
    using assms(1) by auto
next
  case False
  then show ?thesis
    using assms
    by (cases ev)
      (auto simp: by_status_simps process_output_def set_status_def insert_stdin_def scroll_terminal_output_def app_handle_mouse_def
         update_sidebar_toggle_def update_pinned_state_def app_resize_def Let_def
       dest!: quiet_snd dest: search_keeps_tasks with_screen_keeps with_full_task_keeps
       split: bind_splits sum.splits option.splits if_splits)
qed

text \<open>
  C24: The lists of the terminal interface implement a map from the names of tasks to their states: each
  event that is accepted changes it as specified, and no other task is touched. While the selection is
  pinned, the highlighted task stays the same through every event but those with which a user moves the
  selection and the exchange of the whole list, although rows move when tasks start, end or restart.
\<close>

theorem tui_refines_statuses:
  assumes reach: "app_reach te a" and up: "update te now ev a = Some (Inr out, a')"
  shows "status_of (ap_by_status a') = status_spec now ev (status_of (ap_by_status a)) \<and>
    (ap_pinned a \<and> \<not> moves_selection ev \<longrightarrow> active_task a' = active_task a)"
proof -
  have ok: "app_ok a"
    using reach by (rule app_reach_ok)
  show ?thesis
  proof (cases "moves_tasks ev")
    case False
    then have "status_spec now ev (status_of (ap_by_status a)) = status_of (ap_by_status a)"
      by (cases ev) simp_all
    then show ?thesis
      using update_keeps_tasks [OF up False] by (simp add: active_task_def)
  next
    case True
    have snd: "a' = snd x \<and> (\<exists>u. fst x = Inr u)" if "quiet x = Some (Inr out, a')" for x
      using that by (auto simp: quiet_def split: sum.splits)
    show ?thesis
      using True
    proof (cases ev)
      case (EvStartTask name logs)
      then show ?thesis
        using start_task_ok [OF ok, where name = name and now = now and logs = logs] snd [of "start_task now name logs a"] up by (auto split: if_splits)
    next
      case (EvEndTask name r)
      then show ?thesis
        using finish_task_ok [OF ok, where name = name and now = now and r = r] snd [of "finish_task now name r a"] up
        by (auto split: option.splits tui_status.splits)
    next
      case (EvUpdateTasks names)
      have "names = [] \<or> (\<exists>a1. ensure_outputs te names a = Some a1)"
        using up EvUpdateTasks active_task_ok(1) [OF ok] by (cases "ensure_outputs te names a") (auto simp: update_tasks_def split: if_splits)
      then obtain a2 where a2: "update_tasks te names a = Some (Inr (), a2)"
        "names \<noteq> [] \<longrightarrow> status_of (ap_by_status a2) = (\<lambda>n. if n \<in> set names then Some StPlanned else None)"
        using update_tasks_ok [OF ok] by blast
      then have "a' = a2"
        using up EvUpdateTasks by (simp add: quiet_def)
      moreover have "names = [] \<Longrightarrow> a2 = a"
        using a2(1) by (simp add: update_tasks_def)
      ultimately show ?thesis
        using a2(2) EvUpdateTasks by (cases "names = []") simp_all
    next
      case (EvRestartTasks names)
      then show ?thesis
        using restart_tasks_ok [OF ok, of te names] snd up by (auto split: bind_splits)
    qed simp_all
  qed
qed


subsection \<open>An example\<close>

text \<open>A screen that keeps the text it is given, on panes of two rows and columns or more.\<close>

definition plain_env :: "(string, string) tui_env" where
  "plain_env = \<lparr>vt_new = (\<lambda>rows cols. if 2 \<le> rows \<and> 2 \<le> cols then Some [] else None), vt_process = (\<lambda>b p. Some (p @ b)),
     vt_size = (\<lambda>_. (24, 80)), vt_scrollback = (\<lambda>_. 0), vt_set_scrollback = (\<lambda>_ p. p), vt_selected_text = (\<lambda>_. Some None),
     vt_clear_selection = (\<lambda>p. Some p), vt_update_selection = (\<lambda>_ _ p. Some p), vt_rows = (\<lambda>p. Some [p]),
     vt_visible = (\<lambda>p. Some [p]), vt_stdin_write = (\<lambda>b i. (Inr (), i @ b))\<rparr>"

lemma plain_emulator: "emulator_ok plain_env (\<lambda>_. True)"
  by (simp add: emulator_ok_def plain_env_def)

definition plain_app :: "(string, string) app" where
  "plain_app = the (app_new plain_env 24 80 [''b'', ''a'', ''c''] preferences_default)"

lemma plain_new: "app_new plain_env 24 80 [''b'', ''a'', ''c''] preferences_default = Some plain_app"
  unfolding plain_app_def using app_new_good [OF plain_emulator, of 24 80 "[''b'', ''a'', ''c'']" preferences_default] by auto

lemma plain_reach: "app_reach_big plain_env plain_app"
  by (rule app_reach_big.start [OF _ _ _ plain_new]) simp_all

theorem tui_selection_valid_witness:
  "(\<exists>name t. active_task plain_app = Inr name \<and> map_of (ap_tasks plain_app) name = Some t \<and> ap_scroll plain_app = Some (ap_selected plain_app)) \<and>
   update plain_env 5 (EvResize 4 4) plain_app \<noteq> None"
  using tui_selection_valid [OF app_reach_big_reach [OF plain_reach]] plain_emulator plain_reach
  by (simp add: big_enough_def del: update.simps)

theorem tui_refines_statuses_witness:
  "\<exists>a. update plain_env 5 (EvStartTask ''b'' LogFull) plain_app = Some (Inr OutNothing, a) \<and>
     map (status_of (ap_by_status a)) [''a'', ''b'', ''d''] = [Some StPlanned, Some (StRunning 5), None]"
proof -
  have reach: "app_reach plain_env plain_app"
    by (rule app_reach_big_reach [OF plain_reach])
  have st: "status_of (ap_by_status plain_app) = (\<lambda>n. if n \<in> set [''b'', ''a'', ''c''] then Some StPlanned else None)"
    by (rule app_new_ok(2) [OF plain_new]) simp
  have "fst (start_task 5 ''b'' LogFull plain_app) = Inr ()"
    using start_task_ok [OF app_reach_ok [OF reach], where name = "''b''" and now = 5 and logs = LogFull] st by simp
  then have up: "update plain_env 5 (EvStartTask ''b'' LogFull) plain_app = Some (Inr OutNothing, snd (start_task 5 ''b'' LogFull plain_app))"
    by (simp add: quiet_def)
  from tui_refines_statuses [OF reach this] st up show ?thesis
    by simp
qed

end
