(* ===== verification/Tui_Input.thy ===== *)
theory Tui_Input
  imports Tui_App
begin

text \<open>
  Keys and the loop of the terminal interface: how a key becomes an event or bytes for the task
  (\<open>nrzrepo-ui/src/tui/input.rs\<close>), what a frame shows (\<open>pane.rs\<close>, \<open>view\<close> of \<open>app.rs\<close>), and \<open>run_app_inner\<close>
  with \<open>poll\<close> of \<open>app.rs\<close> that take events from the tasks and from the terminal. \<open>None\<close> is a panic.
\<close>

subsection \<open>Keys\<close>

datatype key_code =
    KChar rust_char
  | KEnter | KEsc | KBackspace | KTab | KBackTab
  | KHome | KEnd | KUp | KDown | KRight | KLeft
  | KPageUp | KPageDown | KInsert | KDelete
  | KF nat
  | KSilent

record key_modifiers =
  km_shift :: bool
  km_alt :: bool
  km_control :: bool
  km_other :: bool

datatype key_kind = KeyPress | KeyRepeat | KeyRelease

record key_event =
  ke_code :: key_code
  ke_modifiers :: key_modifiers
  ke_kind :: key_kind

definition only_control :: "key_modifiers \<Rightarrow> bool" where
  "only_control m \<longleftrightarrow> m = \<lparr>km_shift = False, km_alt = False, km_control = True, km_other = False\<rparr>"

definition no_modifiers :: "key_modifiers \<Rightarrow> bool" where
  "no_modifiers m \<longleftrightarrow> m = \<lparr>km_shift = False, km_alt = False, km_control = False, km_other = False\<rparr>"

text \<open>A character of ASCII has one byte.\<close>

definition char_between :: "nat \<Rightarrow> nat \<Rightarrow> rust_char \<Rightarrow> bool" where
  "char_between a b c \<longleftrightarrow> (case c of [x] \<Rightarrow> a \<le> of_char x \<and> of_char x \<le> b | _ \<Rightarrow> False)"

definition ascii_alphanumeric :: "rust_char \<Rightarrow> bool" where
  "ascii_alphanumeric c \<longleftrightarrow> char_between 48 57 c \<or> char_between 65 90 c \<or> char_between 97 122 c"

definition ascii_punctuation :: "rust_char \<Rightarrow> bool" where
  "ascii_punctuation c \<longleftrightarrow> char_between 33 47 c \<or> char_between 58 64 c \<or> char_between 91 96 c \<or> char_between 123 126 c"

definition ctrl_table :: "(string \<times> nat) list" where
  "ctrl_table =
     [
      ([CHR 0x40, CHR 0x60, CHR 0x20, CHR 0x32], 0), (''Aa'', 1), (''Bb'', 2), (''Cc'', 3), (''Dd'', 4), (''Ee'', 5),
      (''Ff'', 6), (''Gg'', 7), (''Hh'', 8), (''Ii'', 9), (''Jj'', 10), (''Kk'', 11),
      (''Ll'', 12), (''Mm'', 13), (''Nn'', 14), (''Oo'', 15), (''Pp'', 16), (''Qq'', 17),
      (''Rr'', 18), (''Ss'', 19), (''Tt'', 20), (''Uu'', 21), (''Vv'', 22), (''Ww'', 23),
      (''Xx'', 24), (''Yy'', 25), (''Zz'', 26), (''[3{'', 27), ([CHR 0x5C, CHR 0x34, CHR 0x7C], 28), ('']5}'', 29),
      (''^6~'', 30), (''_7/'', 31), (''8?'', 127)]"

definition ctrl_mapping :: "rust_char \<Rightarrow> rust_char option" where
  "ctrl_mapping c = map_option (\<lambda>(cs, n). [char_of n]) (List.find (\<lambda>(cs, n). c \<in> set (map (\<lambda>x. [x]) cs)) ctrl_table)"

definition normalize_shift :: "key_modifiers \<Rightarrow> key_code \<Rightarrow> key_code" where
  "normalize_shift m code =
     (if km_shift m
      then (case code of
              KChar c \<Rightarrow> if char_between 97 122 c then KChar (map (\<lambda>x. char_of (of_char x - 32 :: nat)) c) else code
            | _ \<Rightarrow> code)
      else code)"

definition encode_modifiers :: "key_modifiers \<Rightarrow> nat" where
  "encode_modifiers m = (if km_shift m then 1 else 0) + (if km_alt m then 2 else 0) + (if km_control m then 4 else 0)"

abbreviation esc :: string where
  "esc \<equiv> [CHR 0x1B]"

definition alt_escape :: "key_modifiers \<Rightarrow> string" where
  "alt_escape m = (if km_alt m then esc else [])"

definition encode_tab :: "key_modifiers \<Rightarrow> string" where
  "encode_tab m =
     alt_escape m @
     (let m' = m\<lparr>km_alt := False\<rparr>
      in if m' = \<lparr>km_shift = False, km_alt = False, km_control = True, km_other = False\<rparr> then esc @ ''[9;5u''
         else if m' = \<lparr>km_shift = True, km_alt = False, km_control = True, km_other = False\<rparr> then esc @ ''[1;5Z''
         else if m' = \<lparr>km_shift = True, km_alt = False, km_control = False, km_other = False\<rparr> then esc @ ''[Z''
         else [CHR 9])"

definition encode_arrow :: "char \<Rightarrow> key_modifiers \<Rightarrow> string" where
  "encode_arrow c m =
     (if km_alt m \<or> km_shift m \<or> km_control m
      then esc @ ''[1;'' @ nat_to_string (1 + encode_modifiers m) @ [c]
      else esc @ ''['' @ [c])"

definition encode_edit :: "char \<Rightarrow> key_modifiers \<Rightarrow> string" where
  "encode_edit c m =
     (if km_alt m \<or> km_shift m \<or> km_control m
      then esc @ ''['' @ [c] @ nat_to_string (1 + encode_modifiers m)
      else esc @ ''['' @ [c] @ ''~'')"

definition fkey_intro :: "nat \<Rightarrow> string option" where
  "fkey_intro n = map_option (\<lambda>s. esc @ ''['' @ s)
     (map_of [(1, ''11''), (2, ''12''), (3, ''13''), (4, ''14''), (5, ''15''), (6, ''17''), (7, ''18''), (8, ''19''),
       (9, ''20''), (10, ''21''), (11, ''23''), (12, ''24'')] n)"

definition encode_fkey :: "nat \<Rightarrow> key_modifiers \<Rightarrow> string option" where
  "encode_fkey n m =
     (if no_modifiers m \<and> n < 5
      then map_of [(1, esc @ ''OP''), (2, esc @ ''OQ''), (3, esc @ ''OR''), (4, esc @ ''OS'')] n
      else case fkey_intro n of
             None \<Rightarrow> None
           | Some intro \<Rightarrow>
               Some (if encode_modifiers m = 0 then intro @ ''~''
                     else intro @ '';'' @ nat_to_string (1 + encode_modifiers m) @ ''~''))"

definition normalize_code :: "key_code \<Rightarrow> key_code" where
  "normalize_code code =
     (if code = KChar [CHR 0x7F] then KBackspace else if code = KChar [CHR 8] then KDelete else code)"

definition encode_key :: "key_event \<Rightarrow> string option" where
  "encode_key key =
     (if ke_kind key = KeyRelease then Some []
      else
        let m = ke_modifiers key
        in case normalize_code (normalize_shift m (ke_code key)) of
             KChar c \<Rightarrow>
               Some (if km_control m \<and> ctrl_mapping c \<noteq> None then alt_escape m @ the (ctrl_mapping c)
                     else if (ascii_alphanumeric c \<or> ascii_punctuation c) \<and> km_alt m then esc @ c
                     else c)
           | KEnter \<Rightarrow> Some (alt_escape m @ [CHR 13])
           | KEsc \<Rightarrow> Some (alt_escape m @ esc)
           | KBackspace \<Rightarrow> Some (alt_escape m @ [CHR 0x7F])
           | KTab \<Rightarrow> Some (encode_tab m)
           | KBackTab \<Rightarrow> Some (esc @ ''[Z'')
           | KUp \<Rightarrow> Some (encode_arrow (CHR ''A'') m)
           | KDown \<Rightarrow> Some (encode_arrow (CHR ''B'') m)
           | KRight \<Rightarrow> Some (encode_arrow (CHR ''C'') m)
           | KLeft \<Rightarrow> Some (encode_arrow (CHR ''D'') m)
           | KHome \<Rightarrow> Some (encode_arrow (CHR ''H'') m)
           | KEnd \<Rightarrow> Some (encode_arrow (CHR ''F'') m)
           | KInsert \<Rightarrow> Some (encode_edit (CHR ''2'') m)
           | KDelete \<Rightarrow> Some (encode_edit (CHR ''3'') m)
           | KPageUp \<Rightarrow> Some (encode_edit (CHR ''5'') m)
           | KPageDown \<Rightarrow> Some (encode_edit (CHR ''6'') m)
           | KF n \<Rightarrow> encode_fkey n m
           | KSilent \<Rightarrow> Some [])"

definition searching :: "layout_sections \<Rightarrow> bool" where
  "searching f = (case f of SearchFocus _ _ \<Rightarrow> True | _ \<Rightarrow> False)"

definition translate_key_event :: "input_options \<Rightarrow> key_event \<Rightarrow> 'i tui_event option option" where
  "translate_key_event opts key =
     (let code = ke_code key; focus = io_focus opts
      in if ke_kind key = KeyRelease then Some None
         else if code = KChar ''c'' \<and> only_control (ke_modifiers key) then Some (Some EvInternalStop)
         else if code = KChar ''c'' \<and> io_has_selection opts then Some (Some EvCopySelection)
         else if code = KChar ''z'' \<and> focus = PaneFocus \<and> only_control (ke_modifiers key) then Some (Some EvExitInteractive)
         else if focus = PaneFocus then map_option (\<lambda>bytes. Some (EvInput bytes)) (encode_key key)
         else if code = KChar ''/'' \<and> focus = TaskListFocus then Some (Some EvSearchEnter)
         else if code = KEsc \<and> io_is_help_popup_open opts then Some (Some EvToggleHelpPopup)
         else if code = KEsc \<and> searching focus then Some (Some (EvSearchExit True))
         else if code = KEnter \<and> searching focus then Some (Some (EvSearchExit False))
         else if code = KUp \<and> searching focus then Some (Some (EvSearchScroll DirUp))
         else if code = KDown \<and> searching focus then Some (Some (EvSearchScroll DirDown))
         else if code = KBackspace \<and> searching focus then Some (Some EvSearchBackspace)
         else Some (case code of
             KChar c \<Rightarrow>
               if searching focus then Some (EvSearchEnterChar c)
               else if c = ''h'' then Some EvToggleSidebar
               else if c = ''u'' then Some EvScrollUp
               else if c = ''d'' then Some EvScrollDown
               else if c = ''m'' then Some EvToggleHelpPopup
               else if c = ''p'' then Some EvTogglePinnedTask
               else if c = ''k'' then Some EvUp
               else if c = ''j'' then Some EvDown
               else if c = ''i'' then Some EvEnterInteractive
               else None
           | KUp \<Rightarrow> Some EvUp
           | KDown \<Rightarrow> Some EvDown
           | KEnter \<Rightarrow> Some EvEnterInteractive
           | _ \<Rightarrow> None))"

datatype crossterm_event = TermKey key_event | TermMouse mouse_event | TermResize u16 u16 | TermOther

definition handle_crossterm_event :: "input_options \<Rightarrow> crossterm_event \<Rightarrow> 'i tui_event option option" where
  "handle_crossterm_event opts ev =
     (case ev of
        TermKey k \<Rightarrow> translate_key_event opts k
      | TermMouse m \<Rightarrow>
          Some (case me_kind m of
                  MouseScrollDown \<Rightarrow> Some EvScrollDown
                | MouseScrollUp \<Rightarrow> Some EvScrollUp
                | MouseDown MouseLeft \<Rightarrow> Some (EvMouse m)
                | MouseDrag MouseLeft \<Rightarrow> Some (EvMouse m)
                | _ \<Rightarrow> None)
      | TermResize cols rows \<Rightarrow> Some (Some (EvResize rows cols))
      | TermOther \<Rightarrow> Some None)"


subsection \<open>The loop\<close>

definition FRAMERATE :: nat where
  "FRAMERATE = 3"

definition RESIZE_DEBOUNCE_DELAY :: nat where
  "RESIZE_DEBOUNCE_DELAY = 10"

text \<open>The line below the output of a task, with what the keys do.\<close>

definition build_message_vec :: "('p, 'i) tui_env \<Rightarrow> bool \<Rightarrow> string list \<Rightarrow> ('p, 'i) terminal_output \<Rightarrow> string option" where
  "build_message_vec te has_sidebar footer_text t =
     map_option (\<lambda>sel. ''   '' @ join_with ''   '' (footer_text @
         (if has_sidebar then [] else [''h - Show task list'']) @ (if sel then [''c - Copy selection''] else [])))
       (to_has_selection te t)"

definition footer :: "('p, 'i) tui_env \<Rightarrow> bool \<Rightarrow> layout_sections \<Rightarrow> ('p, 'i) terminal_output \<Rightarrow> string option" where
  "footer te has_sidebar section t =
     (case section of
        PaneFocus \<Rightarrow> build_message_vec te has_sidebar [''Ctrl-z - Stop interacting''] t
      | TaskListFocus \<Rightarrow> build_message_vec te has_sidebar [''i - Interact'', ''u/d - Scroll logs''] t
      | SearchFocus prev results \<Rightarrow> Some (''/ '' @ sr_query results))"

record frame =
  fr_task :: string
  fr_title :: string
  fr_lines :: "string list"
  fr_footer :: string

text \<open>What a frame shows of the active task; without one the code panics.\<close>

definition view :: "('p, 'i) tui_env \<Rightarrow> ('p, 'i) app \<Rightarrow> frame option" where
  "view te a =
     (case active_task a of
        Inl e \<Rightarrow> None
      | Inr name \<Rightarrow>
          Option.bind (map_of (ap_tasks a) name)
            (\<lambda>t. Option.bind (footer te (pf_visible (ap_preferences a)) (ap_focus a) t)
               (\<lambda>below. map_option (\<lambda>ls. \<lparr>fr_task = name, fr_title = to_title name t, fr_lines = ls, fr_footer = below\<rparr>)
                  (vt_visible te (to_parser t)))))"

text \<open>The two channels events come from.\<close>

record channels =
  ch_tasks_closed :: bool
  ch_terminal_closed :: bool

record ('p, 'i) loop_state =
  ls_app :: "('p, 'i) app"
  ls_debouncer :: "(u16 \<times> u16) debouncer"
  ls_last_render :: nat
  ls_needs_rerender :: bool
  ls_frames :: "frame list"
  ls_channels :: channels

text \<open>How the loop ends; \<open>LoopWaiting\<close> is a loop that has not, and waits for more to arrive.\<close>

datatype loop_end = LoopError tui_error | LoopDone bool | LoopWaiting

text \<open>Drawing a frame may fail, before \<open>view\<close> is called for it or when it is written.\<close>

datatype draw_result = Drawn | NotStarted io_error | NotWritten io_error

definition render :: "('p, 'i) tui_env \<Rightarrow> draw_result \<Rightarrow> nat \<Rightarrow> ('p, 'i) loop_state \<Rightarrow> (tui_error, ('p, 'i) loop_state) result option" where
  "render te res now ls =
     (case res of
        NotStarted e \<Rightarrow> Some (Inl (TuiIo e))
      | NotWritten e \<Rightarrow> map_option (\<lambda>_. Inl (TuiIo e)) (view te (ls_app ls))
      | Drawn \<Rightarrow>
          map_option (\<lambda>fr. Inr (ls\<lparr>ls_frames := ls_frames ls @ [fr], ls_last_render := now, ls_needs_rerender := False\<rparr>))
            (view te (ls_app ls)))"

text \<open>Resize events go through the debouncer; the clock is read once for each event.\<close>

definition debounce_resize :: "nat \<Rightarrow> 'i tui_event \<Rightarrow> (u16 \<times> u16) debouncer \<Rightarrow> (u16 \<times> u16) option \<times> (u16 \<times> u16) debouncer" where
  "debounce_resize now ev d =
     (case ev of
        EvResize rows cols \<Rightarrow> (case db_update now now (rows, cols) d of (Some v, d') \<Rightarrow> (Some v, d') | (None, d') \<Rightarrow> db_query now d')
      | _ \<Rightarrow> db_query now d)"

definition apply_resize ::
  "('p, 'i) tui_env \<Rightarrow> nat \<Rightarrow> (io_error, unit) result \<Rightarrow> (u16 \<times> u16) option \<Rightarrow> ('p, 'i, unit) app_io" where
  "apply_resize te now autoresize sz a =
     (case sz of
        None \<Rightarrow> Some (Inr (), a)
      | Some (rows, cols) \<Rightarrow>
          (case autoresize of
             Inl e \<Rightarrow> Some (Inl (TuiIo e), a)
           | Inr _ \<Rightarrow>
               map_option (\<lambda>(r, a'). (case r of Inl e \<Rightarrow> Inl e | Inr _ \<Rightarrow> Inr (), a')) (update te now (EvResize rows cols) a)))"

definition is_resize :: "'i tui_event \<Rightarrow> bool" where
  "is_resize ev = (case ev of EvResize _ _ \<Rightarrow> True | _ \<Rightarrow> False)"

text \<open>
  What arrives, at which time, and what the terminal answers should it be resized or drawn on then: an
  event of a task or of the terminal, or the end of one of the channels.
\<close>

datatype 'i tui_input = FromTask "'i tui_event" | FromTerminal crossterm_event | TasksClosed | TerminalClosed

record 'i arrival =
  ar_now :: nat
  ar_input :: "'i tui_input"
  ar_autoresize :: "(io_error, unit) result"
  ar_draw :: draw_result

text \<open>An event that is not a change of size; \<open>Inl\<close> ends the loop.\<close>

definition take_event ::
  "('p, 'i) tui_env \<Rightarrow> 'i arrival \<Rightarrow> 'i tui_event \<Rightarrow> ('p, 'i) loop_state \<Rightarrow>
   (loop_end \<times> ('p, 'i) loop_state, ('p, 'i) loop_state) result option" where
  "take_event te x ev ls =
     (case update te (ar_now x) ev (ls_app ls) of
        None \<Rightarrow> None
      | Some (r, a) \<Rightarrow>
          (let ls' = ls\<lparr>ls_app := a\<rparr>
           in case r of
                Inl e \<Rightarrow> Some (Inl (LoopError e, ls'))
              | Inr out \<Rightarrow>
                  if ap_done a then Some (Inl (LoopDone (out = OutCallback), ls'))
                  else if FRAMERATE \<le> ar_now x - ls_last_render ls' \<and> ls_needs_rerender ls'
                  then map_option (\<lambda>r. case r of Inl e \<Rightarrow> Inl (LoopError e, ls') | Inr ls'' \<Rightarrow> Inr ls'')
                         (render te (ar_draw x) (ar_now x) ls')
                  else Some (Inr ls')))"

text \<open>One event of any kind.\<close>

definition loop_step ::
  "('p, 'i) tui_env \<Rightarrow> 'i arrival \<Rightarrow> 'i tui_event \<Rightarrow> ('p, 'i) loop_state \<Rightarrow>
   (loop_end \<times> ('p, 'i) loop_state, ('p, 'i) loop_state) result option" where
  "loop_step te x ev ls0 =
     (let now = ar_now x;
          ls = ls0\<lparr>ls_needs_rerender := (ls_needs_rerender ls0 \<or> ev \<noteq> EvTick)\<rparr>;
          (sz, d) = debounce_resize now ev (ls_debouncer ls)
      in case apply_resize te now (ar_autoresize x) sz (ls_app ls) of
           None \<Rightarrow> None
         | Some (Inl e, a) \<Rightarrow> Some (Inl (LoopError e, ls\<lparr>ls_debouncer := d, ls_app := a\<rparr>))
         | Some (Inr _, a) \<Rightarrow>
             (let ls1 = ls\<lparr>ls_debouncer := d, ls_app := a\<rparr>
              in if is_resize ev then Some (Inr ls1) else take_event te x ev ls1))"

text \<open>
  \<open>poll\<close> looks once whether the terminal's channel is closed. If it is, only the tasks are waited for, and
  their channel may end the loop; otherwise both are, until one of them brings an event. So it never
  returns when both are closed during one call (the code then spins).
\<close>

datatype 'i polled = PollEvent "'i arrival" "'i tui_event" | PollNone | PollWaiting

fun poll ::
  "input_options \<Rightarrow> bool \<Rightarrow> 'i arrival list \<Rightarrow> channels \<Rightarrow> ('i polled \<times> 'i arrival list \<times> channels) option" where
  "poll opts input_closed [] ch =
     Some (if input_closed \<and> ch_tasks_closed ch then PollNone else PollWaiting, [], ch)"
| "poll opts input_closed (x # xs) ch =
     (if input_closed \<and> ch_tasks_closed ch then Some (PollNone, x # xs, ch)
      else
        (case ar_input x of
           TasksClosed \<Rightarrow> poll opts input_closed xs (ch\<lparr>ch_tasks_closed := True\<rparr>)
         | TerminalClosed \<Rightarrow> poll opts input_closed xs (ch\<lparr>ch_terminal_closed := True\<rparr>)
         | FromTask ev \<Rightarrow>
             if ch_tasks_closed ch then poll opts input_closed xs ch else Some (PollEvent x ev, xs, ch)
         | FromTerminal ev \<Rightarrow>
             if input_closed \<or> ch_terminal_closed ch then poll opts input_closed xs ch
             else
               (case handle_crossterm_event opts ev of
                  None \<Rightarrow> None
                | Some None \<Rightarrow> poll opts input_closed xs ch
                | Some (Some e) \<Rightarrow> Some (PollEvent x e, xs, ch))))"

text \<open>Where an event of the loop comes from.\<close>

definition brings :: "'i arrival \<Rightarrow> 'i tui_event \<Rightarrow> bool" where
  "brings x ev \<longleftrightarrow> (case ar_input x of
       FromTask e \<Rightarrow> e = ev
     | FromTerminal e \<Rightarrow> (\<exists>opts. handle_crossterm_event opts e = Some (Some ev))
     | _ \<Rightarrow> False)"

lemma poll_event:
  "poll opts c xs ch = Some (PollEvent x ev, rest, ch') \<Longrightarrow> (\<exists>ys. xs = ys @ x # rest) \<and> brings x ev"
proof (induction opts c xs ch rule: poll.induct)
  case (2 opts c y xs ch)
  then show ?case
    by (fastforce simp: brings_def split: if_splits tui_input.splits option.splits)
qed (simp split: if_splits)

function run_loop ::
  "('p, 'i) tui_env \<Rightarrow> 'i arrival list \<Rightarrow> ('p, 'i) loop_state \<Rightarrow> (loop_end \<times> ('p, 'i) loop_state) option" where
  "run_loop te inputs ls =
     (case input_options_of te (ls_app ls) of
        None \<Rightarrow> None
      | Some (Inl e) \<Rightarrow> Some (LoopError e, ls)
      | Some (Inr opts) \<Rightarrow>
          (case poll opts (ch_terminal_closed (ls_channels ls)) inputs (ls_channels ls) of
             None \<Rightarrow> None
           | Some (PollNone, rest, ch) \<Rightarrow> Some (LoopDone False, ls\<lparr>ls_channels := ch\<rparr>)
           | Some (PollWaiting, rest, ch) \<Rightarrow> Some (LoopWaiting, ls\<lparr>ls_channels := ch\<rparr>)
           | Some (PollEvent x ev, rest, ch) \<Rightarrow>
               (case loop_step te x ev (ls\<lparr>ls_channels := ch\<rparr>) of
                  None \<Rightarrow> None
                | Some (Inl r) \<Rightarrow> Some r
                | Some (Inr ls') \<Rightarrow> run_loop te rest ls')))"
  by pat_completeness auto

termination run_loop
  by (relation "measure (\<lambda>(te, inputs, ls). length inputs)") (auto dest!: poll_event)

text \<open>
  From the creation of the application to the end of the loop, on a terminal of the given size; the first
  frame is drawn at once. Events of the terminal are only read if standard input is one.
\<close>

definition run_app ::
  "('p, 'i) tui_env \<Rightarrow> u16 \<Rightarrow> u16 \<Rightarrow> string list \<Rightarrow> preferences \<Rightarrow> bool \<Rightarrow> nat \<Rightarrow> draw_result \<Rightarrow> 'i arrival list \<Rightarrow>
   (loop_end \<times> ('p, 'i) loop_state) option" where
  "run_app te rows cols tasks prefs tty now draw inputs =
     Option.bind (app_new te rows cols tasks prefs)
       (\<lambda>a. let ls0 = \<lparr>ls_app = a, ls_debouncer = debouncer_new RESIZE_DEBOUNCE_DELAY, ls_last_render = now,
               ls_needs_rerender = True, ls_frames = [], ls_channels = \<lparr>ch_tasks_closed = False, ch_terminal_closed = (\<not> tty)\<rparr>\<rparr>
         in case render te draw now ls0 of
              None \<Rightarrow> None
            | Some (Inl e) \<Rightarrow> Some (LoopError e, ls0)
            | Some (Inr ls) \<Rightarrow> run_loop te inputs (ls\<lparr>ls_needs_rerender := True\<rparr>))"

declare run_loop.simps [simp del]





lemma normalize_KF [simp]:
  "normalize_code (normalize_shift m code) = KF n \<longleftrightarrow> code = KF n" "normalize_code (normalize_shift m (KF n)) = KF n"
  by (cases code) (simp_all add: normalize_code_def normalize_shift_def)























text \<open>Without a task there is nothing to show, and the first frame panics.\<close>

lemma run_app_no_tasks: "run_app te rows cols [] prefs tty now Drawn inputs = None"
  by (simp add: run_app_def render_def view_def app_new_def active_task_def task_name_at_def task_names_def planned_list_def
      sort_planned_def Let_def)

text \<open>
  The loop does not end when the channel of the tasks is closed while the terminal's is open, even if that one
  is closed as well before the next event.
\<close>

lemma poll_spins:
  "\<not> c \<Longrightarrow> \<forall>x \<in> set xs. ar_input x \<in> {TasksClosed, TerminalClosed} \<Longrightarrow> \<exists>ch'. poll opts c xs ch = Some (PollWaiting, [], ch')"
  by (induction opts c xs ch rule: poll.induct) (auto split: tui_input.split)

text \<open>Delete with a modifier is sent without a separator and without the final tilde.\<close>

lemma delete_with_control_malformed:
  "encode_key \<lparr>ke_code = KDelete, ke_modifiers = \<lparr>km_shift = False, km_alt = False, km_control = True, km_other = False\<rparr>, ke_kind = KeyPress\<rparr> =
     Some (esc @ ''[35'')"
  by code_simp

text \<open>A character that takes two bytes is entered and removed as a whole.\<close>

lemma utf8_pop_example: "utf8_pop (''caf'' @ [CHR 0xC3, CHR 0xA9]) = ''caf''"
  by code_simp

subsection \<open>An example\<close>

definition arrival :: "nat \<Rightarrow> 'i tui_input \<Rightarrow> 'i arrival" where
  "arrival now inp = \<lparr>ar_now = now, ar_input = inp, ar_autoresize = Inr (), ar_draw = Drawn\<rparr>"

definition key :: "rust_char \<Rightarrow> string tui_input" where
  "key c = FromTerminal (TermKey \<lparr>ke_code = KChar c,
     ke_modifiers = \<lparr>km_shift = False, km_alt = False, km_control = False, km_other = False\<rparr>, ke_kind = KeyPress\<rparr>)"


end
