(* ===== verification/Web_Ui.thy ===== *)
theory Web_Ui
  imports Run_Cache
begin

text \<open>
  The state behind the web interface, \<open>nrzrepo-ui/src/wui\<close>: the events it takes (\<open>event.rs\<close>, \<open>sender.rs\<close>)
  and what the subscriber does with them (\<open>subscriber.rs\<close>). \<open>None\<close> is a panic.
\<close>

datatype web_event =
    WebStart string output_logs_mode
  | WebOutput string string
  | WebEnd string task_result
  | WebCacheStatus string string cache_result
  | WebUpdateTasks "string list"
  | WebRestartTasks "string list"
  | WebStop

datatype web_status = WebPending | WebRunning | WebCached | WebFailed | WebSucceeded

definition web_status_of :: "task_result \<Rightarrow> web_status" where
  "web_status_of r = (case r of TaskSuccess \<Rightarrow> WebSucceeded | TaskCacheHit \<Rightarrow> WebCached | TaskFailure \<Rightarrow> WebFailed)"

record web_task =
  wt_output :: string
  wt_status :: web_status
  wt_cache_result :: "cache_result option"
  wt_cache_message :: "string option"

definition web_task_new :: "web_status \<Rightarrow> web_task" where
  "web_task_new st = \<lparr>wt_output = [], wt_status = st, wt_cache_result = None, wt_cache_message = None\<rparr>"

type_synonym web_state = "(string, web_task) btree_map"

definition web_change :: "string \<Rightarrow> (web_task \<Rightarrow> web_task) \<Rightarrow> web_state \<Rightarrow> web_state option" where
  "web_change name f s = map_option (\<lambda>t. bt_insert name (f t) s) (map_of s name)"

definition web_collect :: "web_status \<Rightarrow> string list \<Rightarrow> web_state" where
  "web_collect st names = fold (\<lambda>n m. bt_insert n (web_task_new st) m) names []"

definition add_message :: "web_event \<Rightarrow> web_state \<Rightarrow> web_state option" where
  "add_message ev s =
     (case ev of
        WebStart name logs \<Rightarrow> Some (bt_insert name (web_task_new WebRunning) s)
      | WebOutput name out \<Rightarrow> web_change name (\<lambda>t. t\<lparr>wt_output := wt_output t @ out\<rparr>) s
      | WebEnd name r \<Rightarrow> web_change name (\<lambda>t. t\<lparr>wt_status := web_status_of r\<rparr>) s
      | WebCacheStatus name message r \<Rightarrow>
          web_change name (\<lambda>t. (if r = CacheHit then t\<lparr>wt_status := WebCached\<rparr> else t)
            \<lparr>wt_cache_result := Some r, wt_cache_message := Some message\<rparr>) s
      | WebStop \<Rightarrow> Some s
      | WebUpdateTasks names \<Rightarrow> Some (web_collect WebPending names)
      | WebRestartTasks names \<Rightarrow> Some (web_collect WebRunning names))"

fun web_watch :: "web_event list \<Rightarrow> web_state \<Rightarrow> web_state option" where
  "web_watch [] s = Some s"
| "web_watch (ev # evs) s = Option.bind (add_message ev s) (web_watch evs)"

text \<open>What a sender for the web interface sends; input is not supported there.\<close>

definition web_event_of :: "ui_event \<Rightarrow> web_event option" where
  "web_event_of ev =
     (case ev of
        StartTask name logs \<Rightarrow> Some (WebStart name logs)
      | EndTask name r \<Rightarrow> Some (WebEnd name r)
      | StatusOf name message r \<Rightarrow> Some (WebCacheStatus name message r)
      | OutputOf name out \<Rightarrow> Some (WebOutput name out)
      | SetStdin name \<Rightarrow> None)"

fun web_names :: "web_event \<Rightarrow> string set" where
  "web_names (WebOutput name out) = {name}"
| "web_names (WebEnd name r) = {name}"
| "web_names (WebCacheStatus name message r) = {name}"
| "web_names ev = {}"

lemma add_message_panics:
  "add_message ev s = None \<longleftrightarrow> \<not> web_names ev \<subseteq> fst ` set s"
  by (cases ev) (auto simp: add_message_def web_change_def map_of_eq_None_iff)

lemma web_collect_ok: "bt_ok (web_collect st names)" "map_of (web_collect st names) n = (if n \<in> set names then Some (web_task_new st) else None)"
proof -
  have "bt_ok m \<Longrightarrow> bt_ok (fold (\<lambda>n m. bt_insert n (web_task_new st) m) names m) \<and>
      map_of (fold (\<lambda>n m. bt_insert n (web_task_new st) m) names m) n = (if n \<in> set names then Some (web_task_new st) else map_of m n)" for m
    by (induction names arbitrary: m) (auto simp: bt_ok_insert)
  moreover have "bt_ok ([] :: web_state)"
    by (simp add: bt_ok_def)
  ultimately show "bt_ok (web_collect st names)" "map_of (web_collect st names) n = (if n \<in> set names then Some (web_task_new st) else None)"
    by (simp_all add: web_collect_def)
qed

text \<open>Restarting some tasks forgets the others: the next output of one that is still running panics.\<close>

lemma restart_forgets_others:
  assumes "n \<notin> set names"
  shows "web_watch [WebRestartTasks names, WebOutput n out] s = None"
  using assms web_collect_ok(2) [of WebRunning names n] by (simp add: add_message_def web_change_def)

text \<open>The events of a task between its start and its end: the interface collects all of its output.\<close>

lemma web_collects_output:
  assumes "\<forall>ev \<in> set evs. (\<exists>out. ev = WebOutput n out) \<or> (\<exists>m. ev = WebCacheStatus n m CacheMiss)" "bt_ok s"
    and "map_of s n = Some t"
  shows "\<exists>s' t'. web_watch evs s = Some s' \<and> bt_ok s' \<and> map_of s' n = Some t' \<and>
    wt_output t' = wt_output t @ concat (map (\<lambda>ev. case ev of WebOutput _ out \<Rightarrow> out | _ \<Rightarrow> []) evs) \<and>
    wt_status t' = wt_status t \<and> (\<forall>m. m \<noteq> n \<longrightarrow> map_of s' m = map_of s m)"
  using assms
proof (induction evs arbitrary: s t)
  case (Cons ev evs)
  from Cons.prems(1) consider out where "ev = WebOutput n out" | m where "ev = WebCacheStatus n m CacheMiss"
    by auto
  then show ?case
  proof cases
    case 1
    with Cons.prems show ?thesis
      using Cons.IH [of "bt_insert n (t\<lparr>wt_output := wt_output t @ out\<rparr>) s" "t\<lparr>wt_output := wt_output t @ out\<rparr>"]
      by (fastforce simp: add_message_def web_change_def bt_ok_insert)
  next
    case 2
    with Cons.prems show ?thesis
      using Cons.IH [of "bt_insert n (t\<lparr>wt_cache_result := Some CacheMiss, wt_cache_message := Some m\<rparr>) s"
          "t\<lparr>wt_cache_result := Some CacheMiss, wt_cache_message := Some m\<rparr>"]
      by (fastforce simp: add_message_def web_change_def bt_ok_insert)
  qed
qed auto

text \<open>
  C27: A task that is started, writes its output and ends is shown by the web interface with all of its
  output, in order, and with the status of its result; no other task is touched, and nothing panics.
\<close>

theorem web_shows_task:
  assumes "\<forall>ev \<in> set evs. (\<exists>out. ev = WebOutput n out) \<or> (\<exists>m. ev = WebCacheStatus n m CacheMiss)" "bt_ok s"
  shows "\<exists>s' t'. web_watch (WebStart n logs # evs @ [WebEnd n r]) s = Some s' \<and> map_of s' n = Some t' \<and>
    wt_output t' = concat (map (\<lambda>ev. case ev of WebOutput _ out \<Rightarrow> out | _ \<Rightarrow> []) evs) \<and>
    wt_status t' = web_status_of r \<and> (\<forall>m. m \<noteq> n \<longrightarrow> map_of s' m = map_of s m)"
proof -
  have append: "web_watch (xs @ ys) s = Option.bind (web_watch xs s) (web_watch ys)" for xs ys s
    by (induction xs arbitrary: s) (auto split: bind_splits)
  let ?s = "bt_insert n (web_task_new WebRunning) s"
  have "bt_ok ?s" "map_of ?s n = Some (web_task_new WebRunning)"
    using assms(2) by (simp_all add: bt_ok_insert)
  from web_collects_output [OF assms(1) this] obtain s' t' where
    "web_watch evs ?s = Some s'" "bt_ok s'" "map_of s' n = Some t'"
    "wt_output t' = concat (map (\<lambda>ev. case ev of WebOutput _ out \<Rightarrow> out | _ \<Rightarrow> []) evs)"
    "\<forall>m. m \<noteq> n \<longrightarrow> map_of s' m = map_of s m"
    using assms(2) by (auto simp: web_task_new_def)
  then show ?thesis
    by (simp add: add_message_def append web_change_def)
qed

theorem web_shows_task_witness:
  "\<exists>s t. web_watch [WebStart ''a'' LogFull, WebOutput ''a'' ''x'', WebOutput ''a'' ''y'', WebEnd ''a'' TaskFailure] [] = Some s \<and>
     map_of s ''a'' = Some t \<and> wt_output t = ''xy'' \<and> wt_status t = WebFailed"
proof -
  have "bt_ok ([] :: web_state)"
    by (simp add: bt_ok_def)
  from web_shows_task [OF _ this, of "[WebOutput ''a'' ''x'', WebOutput ''a'' ''y'']" "''a''" LogFull TaskFailure]
  show ?thesis by (auto simp: web_status_of_def)
qed

end
