(* ===== verification/Package_Graph_Builder.thy ===== *)
theory Package_Graph_Builder
  imports Change_Mapper
begin

text \<open>
  \<open>nrzrepo-repository/src/package_graph/dep_splitter.rs\<close> and \<open>builder.rs\<close>: which dependencies of a
  package are packages of the workspace, and the construction of the package graph. Parameters:
  \<open>path_clean::clean\<close>, the comparison of a version with a semver range (\<open>None\<close> when one of them
  does not parse), the contents of the \<open>package.json\<close> files and the lookups of the lockfile. A
  result \<open>None\<close> is a panic, or the lack of fuel for the closures.
\<close>

type_synonym semver = "string \<Rightarrow> string \<Rightarrow> bool option"

subsection \<open>Splitting dependencies\<close>

datatype workspace_specifier = AliasSpec string | PathSpec string

definition workspace_specifier_new :: "string \<Rightarrow> workspace_specifier option" where
  "workspace_specifier_new version0 =
     (case strip_prefix ''workspace:'' version0 of
        None \<Rightarrow> None
      | Some version \<Rightarrow>
          (case rsplit_once_str ''@'' version of
             Some (name, rng) \<Rightarrow>
               if rng \<in> set [''*'', ''^'', ''~''] then Some (AliasSpec name)
               else if SLASH \<in> set version
               then (case relative_unix_path_new version of Inr p \<Rightarrow> Some (PathSpec p) | Inl _ \<Rightarrow> None)
               else None
           | None \<Rightarrow>
               if SLASH \<in> set version
               then (case relative_unix_path_new version of Inr p \<Rightarrow> Some (PathSpec p) | Inl _ \<Rightarrow> None)
               else None))"

record dependency_version =
  dv_protocol :: "string option"
  dv_version :: string

definition dependency_version_new :: "string \<Rightarrow> dependency_version" where
  "dependency_version_new qualified_version =
     (case split_once (CHR '':'') qualified_version of
        None \<Rightarrow> \<lparr>dv_protocol = None, dv_version = qualified_version\<rparr>
      | Some (protocol, version) \<Rightarrow> \<lparr>dv_protocol = Some protocol, dv_version = version\<rparr>)"

definition dv_is_external :: "dependency_version \<Rightarrow> bool" where
  "dv_is_external v = (case dv_protocol v of Some p \<Rightarrow> p \<noteq> ''npm'' | None \<Rightarrow> False)"

definition join_unix_path :: "(string \<Rightarrow> string) \<Rightarrow> string \<Rightarrow> string \<Rightarrow> string" where
  "join_unix_path clean self unix_path = clean (path_join self unix_path)"

definition matches_workspace_package ::
  "(string \<Rightarrow> string) \<Rightarrow> semver \<Rightarrow> dependency_version \<Rightarrow> string \<Rightarrow> string \<Rightarrow> string \<Rightarrow> bool option"
where
  "matches_workspace_package clean satisfies v package_version cwd root =
     (if dv_protocol v = Some ''workspace'' then Some True
      else if dv_protocol v \<in> set [Some ''file'', Some ''link''] then
        (case relative_unix_path_new (dv_version v) of
           Inl _ \<Rightarrow> Some True
         | Inr file_path \<Rightarrow> path_contains clean root (join_unix_path clean cwd file_path))
      else if dv_is_external v then Some False
      else if dv_version v = ''*'' then Some True
      else Some (case satisfies (dv_version v) package_version of Some b \<Rightarrow> b | None \<Rightarrow> True))"

record dependency_splitter =
  ds_repo_root :: string
  ds_workspace_dir :: string
  ds_workspaces :: "(package_name, package_info) hash_map"
  ds_link_workspace_packages :: bool

definition splitter_workspace :: "dependency_splitter \<Rightarrow> string \<Rightarrow> (package_name \<times> package_info) option" where
  "splitter_workspace ds path =
     List.find (\<lambda>(_, info). path_components (package_path info) = path_components path) (ds_workspaces ds)"

definition splitter_find_package ::
  "(string \<Rightarrow> string) \<Rightarrow> dependency_splitter \<Rightarrow> workspace_specifier \<Rightarrow> (package_name \<times> package_info) option"
where
  "splitter_find_package clean ds specifier =
     (case specifier of
        AliasSpec name \<Rightarrow>
          map_option (\<lambda>info. (OtherPkg name, info)) (hm_get (ds_workspaces ds) (OtherPkg name))
      | PathSpec path \<Rightarrow>
          (case anchor (ds_repo_root ds) (join_unix_path clean (ds_workspace_dir ds) path) of
             Inl _ \<Rightarrow> None
           | Inr dir \<Rightarrow>
               (case splitter_workspace ds dir of
                  Some found \<Rightarrow> Some found
                | None \<Rightarrow>
                    (case anchor (ds_repo_root ds) (join_unix_path clean (ds_repo_root ds) path) of
                       Inl _ \<Rightarrow> None
                     | Inr dir' \<Rightarrow> splitter_workspace ds dir'))))"

definition is_internal ::
  "(string \<Rightarrow> string) \<Rightarrow> semver \<Rightarrow> dependency_splitter \<Rightarrow> string \<Rightarrow> string \<Rightarrow> package_name option option"
where
  "is_internal clean satisfies ds name version =
     (if \<not> ds_link_workspace_packages ds \<and> \<not> starts_with version ''workspace:'' then Some None
      else
        (let specifier = (case workspace_specifier_new version of Some s \<Rightarrow> s | None \<Rightarrow> AliasSpec name)
         in case splitter_find_package clean ds specifier of
              None \<Rightarrow> Some None
            | Some (workspace_name, info) \<Rightarrow>
                map_option (\<lambda>internal. if internal then Some workspace_name else None)
                  (matches_workspace_package clean satisfies (dependency_version_new version)
                     (case pj_version (pi_package_json info) of Some v \<Rightarrow> v | None \<Rightarrow> [])
                     (ds_workspace_dir ds) (ds_repo_root ds))))"

fun split_dependencies ::
  "(string \<Rightarrow> string) \<Rightarrow> semver \<Rightarrow> dependency_splitter \<Rightarrow> (string \<times> string) list \<Rightarrow>
    package_name list \<times> (string, string) btree_map \<Rightarrow>
    (package_name list \<times> (string, string) btree_map) option"
where
  "split_dependencies clean satisfies ds [] acc = Some acc"
| "split_dependencies clean satisfies ds ((name, version) # rest) (internal, external) =
     (case is_internal clean satisfies ds name version of
        None \<Rightarrow> None
      | Some (Some workspace) \<Rightarrow>
          split_dependencies clean satisfies ds rest (List.insert workspace internal, external)
      | Some None \<Rightarrow>
          split_dependencies clean satisfies ds rest (internal, bt_insert name version external))"

definition dependencies_new ::
  "(string \<Rightarrow> string) \<Rightarrow> semver \<Rightarrow> string \<Rightarrow> string \<Rightarrow> (package_name, package_info) hash_map \<Rightarrow> bool \<Rightarrow>
    (string \<times> string) list \<Rightarrow> (package_name list \<times> (string, string) btree_map) option"
where
  "dependencies_new clean satisfies repo_root workspace_json_path workspaces link dependencies =
     (case path_parent (resolve_path repo_root workspace_json_path) of
        None \<Rightarrow> None
      | Some workspace_dir \<Rightarrow>
          split_dependencies clean satisfies
            \<lparr>ds_repo_root = repo_root, ds_workspace_dir = workspace_dir, ds_workspaces = workspaces,
             ds_link_workspace_packages = link\<rparr> dependencies ([], []))"

subsection \<open>The states of the builder\<close>

datatype builder_error =
    DuplicateWorkspace string string string
  | BuilderMissingName string
  | BuilderLockfile lockfile_error
  | BuilderOther string

record build_state =
  bs_workspaces :: "(package_name, package_info) hash_map"
  bs_graph :: "package_node graph"
  bs_lookup :: "(package_node, nat) hash_map"

definition package_info_new :: "package_json \<Rightarrow> string \<Rightarrow> package_info" where
  "package_info_new json path = \<lparr>pi_package_json = json, pi_package_json_path = path,
     pi_unresolved_external_dependencies = None, pi_transitive_dependencies = None\<rparr>"

definition build_state_new :: "package_json \<Rightarrow> build_state" where
  "build_state_new root_package_json =
     \<lparr>bs_workspaces = [(RootPkg, package_info_new root_package_json ''package.json'')],
      bs_graph = \<lparr>g_nodes = [], g_edges = []\<rparr>, bs_lookup = []\<rparr>"

definition bs_add_node :: "build_state \<Rightarrow> package_node \<Rightarrow> build_state" where
  "bs_add_node st node =
     st\<lparr>bs_graph := (bs_graph st)\<lparr>g_nodes := g_nodes (bs_graph st) @ [node]\<rparr>,
        bs_lookup := hm_insert node (length (g_nodes (bs_graph st))) (bs_lookup st)\<rparr>"

definition bs_add_edge :: "build_state \<Rightarrow> nat \<Rightarrow> nat \<Rightarrow> build_state" where
  "bs_add_edge st a b = st\<lparr>bs_graph := (bs_graph st)\<lparr>g_edges := g_edges (bs_graph st) @ [(a, b)]\<rparr>\<rparr>"

definition add_root_workspace :: "build_state \<Rightarrow> build_state" where
  "add_root_workspace st =
     (let root_index = length (g_nodes (bs_graph st));
          st1 = bs_add_node st RootNode;
          root_workspace = length (g_nodes (bs_graph st1));
          st2 = bs_add_node st1 (WorkspaceNode RootPkg)
      in bs_add_edge st2 root_workspace root_index)"

definition add_json ::
  "(string \<Rightarrow> string) \<Rightarrow> string \<Rightarrow> build_state \<Rightarrow> string \<Rightarrow> package_json \<Rightarrow> (builder_error, build_state) result"
where
  "add_json clean repo_root st package_json_path json =
     (let relative_json_path = relative_path_between clean repo_root package_json_path
      in case pj_name json of
           None \<Rightarrow> Inl (BuilderMissingName package_json_path)
         | Some n \<Rightarrow>
             (let name = OtherPkg n
              in case hm_get (bs_workspaces st) name of
                   Some existing \<Rightarrow> Inl (DuplicateWorkspace n relative_json_path (pi_package_json_path existing))
                 | None \<Rightarrow>
                     Inr (bs_add_node
                       (st\<lparr>bs_workspaces := hm_insert name (package_info_new json relative_json_path) (bs_workspaces st)\<rparr>)
                       (WorkspaceNode name))))"

fun add_jsons ::
  "(string \<Rightarrow> string) \<Rightarrow> string \<Rightarrow> build_state \<Rightarrow> (string \<times> package_json) list \<Rightarrow> (builder_error, build_state) result"
where
  "add_jsons clean repo_root st [] = Inr st"
| "add_jsons clean repo_root st ((path, json) # rest) =
     (case add_json clean repo_root st path json of
        Inr st' \<Rightarrow> add_jsons clean repo_root st' rest
      | Inl (BuilderMissingName _) \<Rightarrow> add_jsons clean repo_root st rest
      | Inl err \<Rightarrow> Inl err)"

definition parse_package_jsons ::
  "(string \<Rightarrow> string) \<Rightarrow> string \<Rightarrow> build_state \<Rightarrow> (builder_error, (string \<times> package_json) list) result \<Rightarrow>
    (builder_error, build_state) result"
where
  "parse_package_jsons clean repo_root st package_jsons =
     try_bind package_jsons (add_jsons clean repo_root (add_root_workspace st))"

subsection \<open>Connecting packages\<close>

fun connect_edges :: "build_state \<Rightarrow> nat \<Rightarrow> package_name list \<Rightarrow> build_state option" where
  "connect_edges st node_idx [] = Some st"
| "connect_edges st node_idx (dependency # rest) =
     (case hm_get (bs_lookup st) (WorkspaceNode dependency) of
        None \<Rightarrow> None
      | Some dependency_idx \<Rightarrow> connect_edges (bs_add_edge st node_idx dependency_idx) node_idx rest)"

definition connect_package ::
  "build_state \<Rightarrow> package_name \<Rightarrow> package_name list \<times> (string, string) btree_map \<Rightarrow> build_state option"
where
  "connect_package st name deps =
     (case (hm_get (bs_workspaces st) name, hm_get (bs_lookup st) (WorkspaceNode name)) of
        (Some entry, Some node_idx) \<Rightarrow>
          (case (if fst deps = []
                 then map_option (bs_add_edge st node_idx) (hm_get (bs_lookup st) RootNode)
                 else Some st) of
             None \<Rightarrow> None
           | Some st1 \<Rightarrow>
               map_option (\<lambda>st2. st2\<lparr>bs_workspaces :=
                   hm_insert name (entry\<lparr>pi_unresolved_external_dependencies := Some (snd deps)\<rparr>) (bs_workspaces st2)\<rparr>)
                 (connect_edges st1 node_idx (fst deps)))
      | _ \<Rightarrow> None)"

fun connect_loop ::
  "build_state \<Rightarrow> (package_name \<times> package_name list \<times> (string, string) btree_map) list \<Rightarrow> build_state option"
where
  "connect_loop st [] = Some st"
| "connect_loop st ((name, deps) # rest) =
     (case connect_package st name deps of None \<Rightarrow> None | Some st' \<Rightarrow> connect_loop st' rest)"

definition package_dependencies ::
  "(string \<Rightarrow> string) \<Rightarrow> semver \<Rightarrow> string \<Rightarrow> bool \<Rightarrow> (package_name, package_info) hash_map \<Rightarrow> package_info \<Rightarrow>
    (package_name list \<times> (string, string) btree_map) option"
where
  "package_dependencies clean satisfies repo_root link workspaces entry =
     dependencies_new clean satisfies repo_root (pi_package_json_path entry) workspaces link
       (pj_all_dependencies (pi_package_json entry))"

definition connect_internal_dependencies ::
  "(string \<Rightarrow> string) \<Rightarrow> semver \<Rightarrow> string \<Rightarrow> bool \<Rightarrow> build_state \<Rightarrow> build_state option"
where
  "connect_internal_dependencies clean satisfies repo_root link st =
     (case opt_map (\<lambda>(name, entry). map_option (\<lambda>d. (name, d))
             (package_dependencies clean satisfies repo_root link (bs_workspaces st) entry)) (bs_workspaces st) of
        None \<Rightarrow> None
      | Some split_deps \<Rightarrow> connect_loop st split_deps)"

subsection \<open>External dependencies\<close>

definition all_external_dependencies :: "build_state \<Rightarrow> (string, dep_map) hash_map" where
  "all_external_dependencies st =
     hm_collect (map (\<lambda>(_, entry). (package_path entry,
         (case pi_unresolved_external_dependencies entry of Some deps \<Rightarrow> deps | None \<Rightarrow> []))) (bs_workspaces st))"

fun assign_closures ::
  "(string \<times> lf_package list) list \<Rightarrow> (package_name, package_info) hash_map \<Rightarrow> (package_name, package_info) hash_map"
where
  "assign_closures closures [] = []"
| "assign_closures closures ((name, entry) # rest) =
     (name, entry\<lparr>pi_transitive_dependencies := hm_get closures (package_path entry)\<rparr>) #
       assign_closures (AList.delete (package_path entry) closures) rest"

definition populate_transitive_dependencies ::
  "(resolver \<times> dep_lookup \<times> nat) option \<Rightarrow> build_state \<Rightarrow> (builder_error, build_state) result option"
where
  "populate_transitive_dependencies lf st =
     (case lf of
        None \<Rightarrow> Some (Inr st)
      | Some (resolve, all_deps, fuel) \<Rightarrow>
          map_option (\<lambda>r. case r of
              Inl e \<Rightarrow> Inl (BuilderLockfile e)
            | Inr closures \<Rightarrow> Inr (st\<lparr>bs_workspaces := assign_closures closures (bs_workspaces st)\<rparr>))
            (all_transitive_closures resolve all_deps fuel (all_external_dependencies st) False))"

definition package_graph_of :: "build_state \<Rightarrow> package_graph" where
  "package_graph_of st = \<lparr>pg_graph = bs_graph st, pg_node_lookup = bs_lookup st, pg_packages = bs_workspaces st\<rparr>"

text \<open>An error of \<open>populate_transitive_dependencies\<close> is only logged.\<close>

definition build_inner ::
  "(resolver \<times> dep_lookup \<times> nat) option \<Rightarrow> build_state \<Rightarrow> package_graph option"
where
  "build_inner lf st =
     map_option (\<lambda>r. package_graph_of (case r of Inl _ \<Rightarrow> st | Inr st' \<Rightarrow> st'))
       (populate_transitive_dependencies lf st)"

definition build_single_package_graph :: "build_state \<Rightarrow> package_graph" where
  "build_single_package_graph st = package_graph_of (add_root_workspace st)"

definition package_graph_build ::
  "(string \<Rightarrow> string) \<Rightarrow> semver \<Rightarrow> string \<Rightarrow> bool \<Rightarrow> bool \<Rightarrow> package_json \<Rightarrow>
    (builder_error, (string \<times> package_json) list) result \<Rightarrow> (resolver \<times> dep_lookup \<times> nat) option \<Rightarrow>
    (builder_error, package_graph) result option"
where
  "package_graph_build clean satisfies repo_root link is_single_package root_package_json package_jsons lf =
     (let st = build_state_new root_package_json
      in if is_single_package then Some (Inr (build_single_package_graph st))
         else
           (case parse_package_jsons clean repo_root st package_jsons of
              Inl e \<Rightarrow> Some (Inl e)
            | Inr st1 \<Rightarrow>
                (case connect_internal_dependencies clean satisfies repo_root link st1 of
                   None \<Rightarrow> None
                 | Some st2 \<Rightarrow> map_option Inr (build_inner lf st2))))"

subsection \<open>The invariant of the builder\<close>

definition lookup_ok :: "build_state \<Rightarrow> bool" where
  "lookup_ok st \<longleftrightarrow>
     wf_graph (bs_graph st) \<and> distinct (g_nodes (bs_graph st)) \<and>
     (\<forall>n i. hm_get (bs_lookup st) n = Some i \<longleftrightarrow>
        i < length (g_nodes (bs_graph st)) \<and> g_nodes (bs_graph st) ! i = n)"

definition build_state_ok :: "build_state \<Rightarrow> bool" where
  "build_state_ok st \<longleftrightarrow>
     lookup_ok st \<and> distinct (map fst (bs_workspaces st)) \<and>
     set (g_nodes (bs_graph st)) = insert RootNode (WorkspaceNode ` fst ` set (bs_workspaces st))"

lemma lookup_ok_node: "lookup_ok st \<Longrightarrow> n \<in> set (g_nodes (bs_graph st)) \<longleftrightarrow> (\<exists>i. hm_get (bs_lookup st) n = Some i)"
  by (auto simp: lookup_ok_def in_set_conv_nth)

lemma bs_add_node_ok:
  assumes "lookup_ok st" and "node \<notin> set (g_nodes (bs_graph st))"
  shows "lookup_ok (bs_add_node st node)"
proof -
  have "hm_get (bs_lookup (bs_add_node st node)) n = Some i \<longleftrightarrow>
    i < length (g_nodes (bs_graph (bs_add_node st node))) \<and> g_nodes (bs_graph (bs_add_node st node)) ! i = n" for n i
    using assms by (auto simp: lookup_ok_def bs_add_node_def nth_append less_Suc_eq in_set_conv_nth)
  with assms show ?thesis
    by (auto simp: lookup_ok_def bs_add_node_def wf_graph_def split: prod.splits)
qed

lemma bs_add_edge_ok:
  assumes "lookup_ok st" and "a < length (g_nodes (bs_graph st))" and "b < length (g_nodes (bs_graph st))"
  shows "lookup_ok (bs_add_edge st a b)"
  using assms by (auto simp: lookup_ok_def bs_add_edge_def wf_graph_def)

lemma add_root_workspace_ok:
  "build_state_ok (add_root_workspace (build_state_new json))"
proof -
  let ?st = "build_state_new json"
  have st: "lookup_ok ?st" "g_nodes (bs_graph ?st) = []" by (simp_all add: lookup_ok_def build_state_new_def wf_graph_def)
  have one: "lookup_ok (bs_add_node ?st RootNode)" by (rule bs_add_node_ok) (simp_all add: st)
  have two: "lookup_ok (bs_add_node (bs_add_node ?st RootNode) (WorkspaceNode RootPkg))"
    by (rule bs_add_node_ok [OF one]) (simp add: bs_add_node_def st(2))
  have "lookup_ok (add_root_workspace ?st)"
    unfolding add_root_workspace_def Let_def by (rule bs_add_edge_ok [OF two]) (simp_all add: bs_add_node_def st(2))
  then show ?thesis
    by (auto simp: build_state_ok_def add_root_workspace_def bs_add_node_def bs_add_edge_def build_state_new_def)
qed

lemma add_json_ok:
  assumes ok: "build_state_ok st" and run: "add_json clean repo_root st path json = Inr st'"
  shows "build_state_ok st'"
proof -
  obtain n where n: "pj_name json = Some n" "hm_get (bs_workspaces st) (OtherPkg n) = None"
    and st': "st' = bs_add_node (st\<lparr>bs_workspaces := hm_insert (OtherPkg n)
        (package_info_new json (relative_path_between clean repo_root path)) (bs_workspaces st)\<rparr>) (WorkspaceNode (OtherPkg n))"
    using run by (auto simp: add_json_def Let_def split: option.splits)
  have new: "WorkspaceNode (OtherPkg n) \<notin> set (g_nodes (bs_graph st))"
    using ok n(2) by (auto simp: build_state_ok_def map_of_eq_None_iff)
  have "lookup_ok st'"
    unfolding st' by (rule bs_add_node_ok) (use ok new in \<open>simp_all add: build_state_ok_def lookup_ok_def\<close>)
  with ok show ?thesis
    unfolding st' build_state_ok_def by (simp add: bs_add_node_def distinct_update image_insert insert_commute)
qed

lemma add_jsons_ok:
  "build_state_ok st \<Longrightarrow> add_jsons clean repo_root st jsons = Inr st' \<Longrightarrow> build_state_ok st'"
  by (induction clean repo_root st jsons rule: add_jsons.induct)
     (auto split: sum.splits builder_error.splits dest: add_json_ok)

lemma parse_package_jsons_ok:
  "parse_package_jsons clean repo_root (build_state_new json) jsons = Inr st \<Longrightarrow> build_state_ok st"
  by (auto simp: parse_package_jsons_def try_bind_Inr intro: add_jsons_ok add_root_workspace_ok)

text \<open>
  The packages of a repository: the root, and one for each file \<open>package.json\<close> with a name, in the order
  of the files. Files without a name are passed over, and the first name that occurs again is an error.
\<close>

definition named_packages ::
  "(string \<Rightarrow> string) \<Rightarrow> string \<Rightarrow> (string \<times> package_json) list \<Rightarrow> (package_name \<times> package_info) list"
where
  "named_packages clean repo_root jsons =
     concat (map (\<lambda>(path, json).
       case pj_name json of
         None \<Rightarrow> []
       | Some n \<Rightarrow> [(OtherPkg n, package_info_new json (relative_path_between clean repo_root path))]) jsons)"

definition repository_packages ::
  "(string \<Rightarrow> string) \<Rightarrow> string \<Rightarrow> package_json \<Rightarrow> (string \<times> package_json) list \<Rightarrow> (package_name \<times> package_info) list"
where
  "repository_packages clean repo_root root_json jsons =
     (RootPkg, package_info_new root_json ''package.json'') # named_packages clean repo_root jsons"

lemma update_new: "k \<notin> fst ` set m \<Longrightarrow> AList.update k v m = m @ [(k, v)]"
  by (induction m) auto

lemma add_jsons_result:
  assumes "distinct (map fst (bs_workspaces st))"
  shows "if distinct (map fst (bs_workspaces st @ named_packages clean repo_root jsons))
     then \<exists>st'. add_jsons clean repo_root st jsons = Inr st' \<and> bs_workspaces st' = bs_workspaces st @ named_packages clean repo_root jsons
     else \<exists>n a b. add_jsons clean repo_root st jsons = Inl (DuplicateWorkspace n a b) \<and>
       OtherPkg n \<in> fst ` set (named_packages clean repo_root jsons)"
  using assms
proof (induction jsons arbitrary: st)
  case Nil
  then show ?case by (simp add: named_packages_def)
next
  case (Cons pj jsons)
  obtain path json where pj: "pj = (path, json)" by (cases pj)
  show ?case
  proof (cases "pj_name json")
    case None
    then have same: "named_packages clean repo_root (pj # jsons) = named_packages clean repo_root jsons"
      "add_jsons clean repo_root st (pj # jsons) = add_jsons clean repo_root st jsons"
      by (simp_all add: pj named_packages_def add_json_def)
    show ?thesis
      unfolding same by (rule Cons.IH [OF Cons.prems])
  next
    case (Some n)
    let ?info = "package_info_new json (relative_path_between clean repo_root path)"
    have named: "named_packages clean repo_root (pj # jsons) = (OtherPkg n, ?info) # named_packages clean repo_root jsons"
      by (simp add: pj named_packages_def Some)
    show ?thesis
    proof (cases "OtherPkg n \<in> fst ` set (bs_workspaces st)")
      case True
      then obtain existing where "hm_get (bs_workspaces st) (OtherPkg n) = Some existing"
        by (metis map_of_eq_None_iff option.exhaust)
      then have "\<exists>a b. add_jsons clean repo_root st (pj # jsons) = Inl (DuplicateWorkspace n a b)"
        by (simp add: pj add_json_def Some)
      moreover have "\<not> distinct (map fst (bs_workspaces st @ named_packages clean repo_root (pj # jsons)))"
        using True unfolding named by auto
      ultimately show ?thesis
        unfolding named by auto
    next
      case False
      define st1 where "st1 = bs_add_node (st\<lparr>bs_workspaces := bs_workspaces st @ [(OtherPkg n, ?info)]\<rparr>) (WorkspaceNode (OtherPkg n))"
      have ws: "bs_workspaces st1 = bs_workspaces st @ [(OtherPkg n, ?info)]"
        by (simp add: st1_def bs_add_node_def)
      have "add_json clean repo_root st path json = Inr st1"
        using False Some by (simp add: add_json_def st1_def Let_def update_new map_of_eq_None_iff [THEN iffD2])
      then have step: "add_jsons clean repo_root st (pj # jsons) = add_jsons clean repo_root st1 jsons"
        by (simp add: pj)
      have "distinct (map fst (bs_workspaces st1))"
        using Cons.prems False by (simp add: ws)
      from Cons.IH [OF this] show ?thesis
        unfolding step by (auto simp: ws named split: if_splits)
    qed
  qed
qed

lemma parse_package_jsons_result:
  "if distinct (map fst (repository_packages clean repo_root root_json jsons))
   then \<exists>st. parse_package_jsons clean repo_root (build_state_new root_json) (Inr jsons) = Inr st \<and>
     bs_workspaces st = repository_packages clean repo_root root_json jsons
   else \<exists>n a b. parse_package_jsons clean repo_root (build_state_new root_json) (Inr jsons) = Inl (DuplicateWorkspace n a b) \<and>
     OtherPkg n \<in> fst ` set (repository_packages clean repo_root root_json jsons)"
proof -
  let ?st = "add_root_workspace (build_state_new root_json)"
  have "bs_workspaces ?st = [(RootPkg, package_info_new root_json ''package.json'')]"
    by (simp add: add_root_workspace_def bs_add_node_def bs_add_edge_def build_state_new_def)
  then show ?thesis
    using add_jsons_result [of ?st clean repo_root jsons]
    by (auto simp: parse_package_jsons_def repository_packages_def split: if_splits)
qed

subsection \<open>Internal dependencies\<close>

lemma is_internal_workspace:
  assumes "is_internal clean satisfies ds name version = Some (Some w)"
  shows "w \<in> fst ` set (ds_workspaces ds)"
proof -
  obtain info specifier where "splitter_find_package clean ds specifier = Some (w, info)"
    using assms by (auto simp: is_internal_def Let_def split: if_splits option.splits)
  then have "(w, info) \<in> set (ds_workspaces ds)"
    by (auto simp: splitter_find_package_def splitter_workspace_def
        split: workspace_specifier.splits option.splits sum.splits dest: map_of_SomeD find_in_set)
  then show ?thesis by force
qed

lemma split_dependencies_internal:
  "split_dependencies clean satisfies ds deps (internal, external) = Some (internal', external') \<Longrightarrow>
    set internal \<subseteq> fst ` set (ds_workspaces ds) \<Longrightarrow> set internal' \<subseteq> fst ` set (ds_workspaces ds)"
proof (induction clean satisfies ds deps "(internal, external)" arbitrary: internal external rule: split_dependencies.induct)
  case (2 clean satisfies ds name version rest internal external)
  then show ?case using is_internal_workspace by (auto split: option.splits)
qed simp

lemma package_dependencies_internal:
  "package_dependencies clean satisfies repo_root link ws entry = Some deps \<Longrightarrow> set (fst deps) \<subseteq> fst ` set ws"
  by (cases deps) (auto simp: package_dependencies_def dependencies_new_def split: option.splits
      dest!: split_dependencies_internal)

subsection \<open>Connecting\<close>

definition dep_nodes :: "package_name list \<Rightarrow> package_node set" where
  "dep_nodes internal = (if internal = [] then {RootNode} else WorkspaceNode ` set internal)"

definition index_edges :: "build_state \<Rightarrow> package_node \<Rightarrow> package_node set \<Rightarrow> (nat \<times> nat) set" where
  "index_edges st m N =
     {(i, j). hm_get (bs_lookup st) m = Some i \<and> (\<exists>n \<in> N. hm_get (bs_lookup st) n = Some j)}"

text \<open>What connecting one package may change: edges, and the entry of the package.\<close>

definition same_nodes :: "build_state \<Rightarrow> build_state \<Rightarrow> bool" where
  "same_nodes st st' \<longleftrightarrow>
     bs_lookup st' = bs_lookup st \<and> g_nodes (bs_graph st') = g_nodes (bs_graph st) \<and>
     map fst (bs_workspaces st') = map fst (bs_workspaces st)"

lemma same_nodes_trans: "same_nodes st st' \<Longrightarrow> same_nodes st' st'' \<Longrightarrow> same_nodes st st''"
  by (simp add: same_nodes_def)

lemma index_edges_same: "same_nodes st st' \<Longrightarrow> index_edges st' m N = index_edges st m N"
  by (simp add: same_nodes_def index_edges_def)

lemma connect_edges_ok:
  assumes "lookup_ok st" and "hm_get (bs_lookup st) m = Some i"
    and "\<forall>d \<in> set deps. \<exists>j. hm_get (bs_lookup st) (WorkspaceNode d) = Some j"
  shows "\<exists>st'. connect_edges st i deps = Some st' \<and> lookup_ok st' \<and> same_nodes st st' \<and>
    bs_workspaces st' = bs_workspaces st \<and>
    set (g_edges (bs_graph st')) = set (g_edges (bs_graph st)) \<union> index_edges st m (WorkspaceNode ` set deps)"
  using assms
proof (induction deps arbitrary: st)
  case Nil
  then show ?case by (simp add: same_nodes_def index_edges_def)
next
  case (Cons d deps)
  then obtain j where j: "hm_get (bs_lookup st) (WorkspaceNode d) = Some j" by auto
  have bounds: "i < length (g_nodes (bs_graph st))" "j < length (g_nodes (bs_graph st))"
    using Cons.prems(1,2) j by (auto simp: lookup_ok_def)
  let ?st = "bs_add_edge st i j"
  have same: "same_nodes st ?st" "bs_workspaces ?st = bs_workspaces st" "bs_lookup ?st = bs_lookup st"
    by (simp_all add: same_nodes_def bs_add_edge_def)
  have "\<exists>st'. connect_edges ?st i deps = Some st' \<and> lookup_ok st' \<and> same_nodes ?st st' \<and>
    bs_workspaces st' = bs_workspaces ?st \<and>
    set (g_edges (bs_graph st')) = set (g_edges (bs_graph ?st)) \<union> index_edges ?st m (WorkspaceNode ` set deps)"
    by (rule Cons.IH) (use Cons.prems bs_add_edge_ok [OF Cons.prems(1) bounds] same in auto)
  then obtain st' where st': "connect_edges ?st i deps = Some st'" "lookup_ok st'" "same_nodes ?st st'"
    "bs_workspaces st' = bs_workspaces ?st"
    "set (g_edges (bs_graph st')) = set (g_edges (bs_graph ?st)) \<union> index_edges ?st m (WorkspaceNode ` set deps)" by blast
  have "set (g_edges (bs_graph ?st)) = insert (i, j) (set (g_edges (bs_graph st)))" by (auto simp: bs_add_edge_def)
  moreover have "index_edges st m (WorkspaceNode ` set (d # deps)) =
      insert (i, j) (index_edges st m (WorkspaceNode ` set deps))"
    using Cons.prems(2) j by (auto simp: index_edges_def)
  ultimately show ?case
    using st' j same index_edges_same [OF same(1)] same_nodes_trans [OF same(1) st'(3)] by auto
qed

lemma connect_package_ok:
  assumes ok: "build_state_ok st" and name: "name \<in> fst ` set (bs_workspaces st)"
    and deps: "set (fst deps) \<subseteq> fst ` set (bs_workspaces st)"
  shows "\<exists>st'. connect_package st name deps = Some st' \<and> build_state_ok st' \<and> same_nodes st st' \<and>
    set (g_edges (bs_graph st')) = set (g_edges (bs_graph st)) \<union> index_edges st (WorkspaceNode name) (dep_nodes (fst deps))"
proof -
  have lk: "lookup_ok st" using ok by (simp add: build_state_ok_def)
  have node: "\<exists>j. hm_get (bs_lookup st) n = Some j"
    if "n = RootNode \<or> (\<exists>p \<in> fst ` set (bs_workspaces st). n = WorkspaceNode p)" for n
    using that ok lookup_ok_node [OF lk, of n] by (auto simp: build_state_ok_def)
  obtain entry where entry: "hm_get (bs_workspaces st) name = Some entry"
    using name by (metis map_of_eq_None_iff not_None_eq)
  obtain i where i: "hm_get (bs_lookup st) (WorkspaceNode name) = Some i" using node name by blast
  obtain r where r: "hm_get (bs_lookup st) RootNode = Some r" using node by blast
  define st1 where "st1 = (if fst deps = [] then bs_add_edge st i r else st)"
  have bounds: "i < length (g_nodes (bs_graph st))" "r < length (g_nodes (bs_graph st))"
    using lk i r by (auto simp: lookup_ok_def)
  have st1: "lookup_ok st1" "same_nodes st st1" "bs_workspaces st1 = bs_workspaces st" "bs_lookup st1 = bs_lookup st"
    using lk bs_add_edge_ok [OF lk bounds] by (auto simp: st1_def same_nodes_def bs_add_edge_def)
  obtain st2 where st2: "connect_edges st1 i (fst deps) = Some st2" "lookup_ok st2" "same_nodes st1 st2"
    "bs_workspaces st2 = bs_workspaces st1"
    "set (g_edges (bs_graph st2)) = set (g_edges (bs_graph st1)) \<union> index_edges st1 (WorkspaceNode name) (WorkspaceNode ` set (fst deps))"
  proof -
    have "\<forall>d \<in> set (fst deps). \<exists>j. hm_get (bs_lookup st1) (WorkspaceNode d) = Some j"
      unfolding st1(4) using node deps by blast
    from connect_edges_ok [OF st1(1) _ this, of "WorkspaceNode name" i] i st1(4) that show thesis by auto
  qed
  let ?ws = "hm_insert name (entry\<lparr>pi_unresolved_external_dependencies := Some (snd deps)\<rparr>) (bs_workspaces st2)"
  let ?st' = "st2\<lparr>bs_workspaces := ?ws\<rparr>"
  have run: "connect_package st name deps = Some ?st'"
    using entry i r st2(1) by (auto simp: connect_package_def st1_def)
  have keys: "map fst ?ws = map fst (bs_workspaces st)"
    using name st1(3) st2(4) by (simp add: update_keys)
  have same: "same_nodes st ?st'"
    using same_nodes_trans [OF st1(2) st2(3)] keys by (simp add: same_nodes_def)
  have "fst ` set ?ws = fst ` set (bs_workspaces st)" using arg_cong [OF keys, of set] by (simp only: set_map)
  then have "build_state_ok ?st'"
    unfolding build_state_ok_def build_state.simps keys
    using ok st2(2) same by (simp add: build_state_ok_def lookup_ok_def same_nodes_def)
  moreover have "set (g_edges (bs_graph ?st')) = set (g_edges (bs_graph st)) \<union> index_edges st (WorkspaceNode name) (dep_nodes (fst deps))"
    using st2(5) index_edges_same [OF st1(2)] i r
    by (auto simp: st1_def dep_nodes_def index_edges_def bs_add_edge_def split: if_splits)
  ultimately show ?thesis using run same by blast
qed

lemma connect_loop_ok:
  assumes "build_state_ok st"
    and "\<forall>(name, deps) \<in> set splits. name \<in> fst ` set (bs_workspaces st) \<and> set (fst deps) \<subseteq> fst ` set (bs_workspaces st)"
  shows "\<exists>st'. connect_loop st splits = Some st' \<and> build_state_ok st' \<and> same_nodes st st' \<and>
    set (g_edges (bs_graph st')) =
      set (g_edges (bs_graph st)) \<union> (\<Union>(name, deps) \<in> set splits. index_edges st (WorkspaceNode name) (dep_nodes (fst deps)))"
  using assms
proof (induction splits arbitrary: st)
  case Nil
  then show ?case by (simp add: same_nodes_def)
next
  case (Cons s splits)
  obtain name deps where s: "s = (name, deps)" by (cases s)
  obtain st1 where st1: "connect_package st name deps = Some st1" "build_state_ok st1" "same_nodes st st1"
    "set (g_edges (bs_graph st1)) = set (g_edges (bs_graph st)) \<union> index_edges st (WorkspaceNode name) (dep_nodes (fst deps))"
    using connect_package_ok [OF Cons.prems(1), of name deps] Cons.prems(2) s by auto
  have keys: "fst ` set (bs_workspaces st1) = fst ` set (bs_workspaces st)"
    using st1(3) unfolding same_nodes_def by (metis set_map)
  obtain st' where st': "connect_loop st1 splits = Some st'" "build_state_ok st'" "same_nodes st1 st'"
    "set (g_edges (bs_graph st')) =
      set (g_edges (bs_graph st1)) \<union> (\<Union>(name, deps) \<in> set splits. index_edges st1 (WorkspaceNode name) (dep_nodes (fst deps)))"
    using Cons.IH [OF st1(2)] Cons.prems(2) unfolding keys by auto
  show ?case
    using st' st1 same_nodes_trans [OF st1(3) st'(3)]
    by (auto simp: s index_edges_same [OF st1(3)])
qed

subsection \<open>The graph that is built\<close>

lemma package_graph_of_ok: "lookup_ok st \<Longrightarrow> package_graph_ok (package_graph_of st)"
  by (simp add: lookup_ok_def package_graph_ok_def package_graph_of_def)

lemma assign_closures_keys: "map fst (assign_closures closures ws) = map fst ws"
  by (induction closures ws rule: assign_closures.induct) auto

definition same_roots :: "build_state \<Rightarrow> build_state \<Rightarrow> bool" where
  "same_roots st st' \<longleftrightarrow> g_edges (bs_graph st') = g_edges (bs_graph st) \<and>
     hm_get (bs_lookup st') RootNode = hm_get (bs_lookup st) RootNode \<and>
     hm_get (bs_lookup st') (WorkspaceNode RootPkg) = hm_get (bs_lookup st) (WorkspaceNode RootPkg)"

lemma add_json_roots: "add_json clean repo_root st path json = Inr st' \<Longrightarrow> same_roots st st'"
  by (auto simp: add_json_def Let_def bs_add_node_def same_roots_def split: option.splits)

lemma add_jsons_roots: "add_jsons clean repo_root st xs = Inr st' \<Longrightarrow> same_roots st st'"
proof (induction clean repo_root st xs rule: add_jsons.induct)
  case (2 clean repo_root st path json rest)
  then show ?case
    by (auto simp: same_roots_def split: sum.splits builder_error.splits dest!: add_json_roots)
qed (simp add: same_roots_def)

lemma root_edge:
  assumes "parse_package_jsons clean repo_root (build_state_new json) jsons = Inr st"
  shows "set (g_edges (bs_graph st)) = index_edges st (WorkspaceNode RootPkg) {RootNode}"
proof -
  obtain xs where "add_jsons clean repo_root (add_root_workspace (build_state_new json)) xs = Inr st"
    using assms by (auto simp: parse_package_jsons_def try_bind_Inr)
  then have "same_roots (add_root_workspace (build_state_new json)) st" by (rule add_jsons_roots)
  moreover have "set (g_edges (bs_graph (add_root_workspace (build_state_new json)))) = {(1, 0)}"
    "hm_get (bs_lookup (add_root_workspace (build_state_new json))) RootNode = Some 0"
    "hm_get (bs_lookup (add_root_workspace (build_state_new json))) (WorkspaceNode RootPkg) = Some 1"
    by (simp_all add: add_root_workspace_def bs_add_node_def bs_add_edge_def build_state_new_def)
  ultimately show ?thesis by (auto simp: index_edges_def same_roots_def)
qed

lemma immediate_dependencies_index_edges:
  assumes lk: "lookup_ok st" and edges: "set (g_edges (pg_graph pg)) = (\<Union>(m, N) \<in> E. index_edges st m N)"
    and pg: "pg_node_lookup pg = bs_lookup st" "g_nodes (pg_graph pg) = g_nodes (bs_graph st)"
    and n: "n \<in> set (g_nodes (bs_graph st))" and E: "\<And>m N. (m, N) \<in> E \<Longrightarrow> N \<subseteq> set (g_nodes (bs_graph st))"
  shows "immediate_dependencies pg n = Some (\<Union>{N. (n, N) \<in> E})"
proof -
  obtain i where i: "hm_get (bs_lookup st) n = Some i" using lookup_ok_node [OF lk] n by blast
  have uniq: "m = n" if "hm_get (bs_lookup st) m = Some i" for m
    using lk i that by (auto simp: lookup_ok_def)
  have w: "weight pg j = k" if "hm_get (bs_lookup st) k = Some j" for j k
    using lk that by (simp add: weight_def pg lookup_ok_def)
  have "{weight pg j | j. (i, j) \<in> set (g_edges (pg_graph pg))} = \<Union>{N. (n, N) \<in> E}"
  proof (intro set_eqI iffI)
    fix k assume "k \<in> {weight pg j | j. (i, j) \<in> set (g_edges (pg_graph pg))}"
    then obtain j m N l where "(m, N) \<in> E" "hm_get (bs_lookup st) m = Some i" "l \<in> N" "hm_get (bs_lookup st) l = Some j" "k = weight pg j"
      unfolding edges index_edges_def by blast
    with uniq w show "k \<in> \<Union>{N. (n, N) \<in> E}" by blast
  next
    fix k assume "k \<in> \<Union>{N. (n, N) \<in> E}"
    then obtain N where N: "(n, N) \<in> E" "k \<in> N" by blast
    then obtain j where "hm_get (bs_lookup st) k = Some j" using lookup_ok_node [OF lk] E by blast
    with N i w show "k \<in> {weight pg j | j. (i, j) \<in> set (g_edges (pg_graph pg))}"
      unfolding edges index_edges_def by blast
  qed
  then show ?thesis using i by (simp add: immediate_dependencies_def pg)
qed

lemma union_of_two:
  assumes "\<And>N. (n, N) \<in> E \<Longrightarrow> N = D \<or> (b \<and> N = R)" and "(n, D) \<in> E" and "b \<Longrightarrow> (n, R) \<in> E"
  shows "\<Union>{N. (n, N) \<in> E} = D \<union> (if b then R else {})"
proof -
  have "{N. (n, N) \<in> E} = insert D (if b then {R} else {})"
    using assms by (intro set_eqI) (auto split: if_splits)
  then show ?thesis by simp
qed

text \<open>Neither connecting packages nor the closures change what is known of their files.\<close>

definition package_files :: "(package_name, package_info) hash_map \<Rightarrow> (package_name \<times> package_json \<times> string) list" where
  "package_files = map (apsnd (\<lambda>info. (pi_package_json info, pi_package_json_path info)))"

lemma package_files_update:
  "hm_get m k = Some e \<Longrightarrow> pi_package_json e' = pi_package_json e \<Longrightarrow> pi_package_json_path e' = pi_package_json_path e \<Longrightarrow>
     package_files (hm_insert k e' m) = package_files m"
  by (induction m) (auto simp: package_files_def split: if_splits)

lemma connect_edges_workspaces: "connect_edges st i ds = Some st' \<Longrightarrow> bs_workspaces st' = bs_workspaces st"
  by (induction st i ds rule: connect_edges.induct) (auto simp: bs_add_edge_def split: option.splits)

lemma connect_loop_files: "connect_loop st splits = Some st' \<Longrightarrow> package_files (bs_workspaces st') = package_files (bs_workspaces st)"
proof (induction st splits rule: connect_loop.induct)
  case (2 st name deps rest)
  then obtain st1 where st1: "connect_package st name deps = Some st1" "connect_loop st1 rest = Some st'"
    by (auto split: option.splits)
  then have "package_files (bs_workspaces st1) = package_files (bs_workspaces st)"
    by (auto simp: connect_package_def bs_add_edge_def package_files_update dest!: connect_edges_workspaces split: option.splits if_splits)
  with 2(1) st1 show ?case by simp
qed simp

lemma assign_closures_files: "package_files (assign_closures closures ws) = package_files ws"
  by (induction closures ws rule: assign_closures.induct) (auto simp: package_files_def)

lemma package_files_get:
  assumes "package_files m = package_files m'" "distinct (map fst m')" "(name, entry) \<in> set m'"
  shows "\<exists>info. hm_get m name = Some info \<and> pi_package_json info = pi_package_json entry \<and> pi_package_json_path info = pi_package_json_path entry"
proof -
  let ?f = "\<lambda>info. (pi_package_json info, pi_package_json_path info)"
  have "map_of (package_files m) name = map_option ?f (hm_get m name)" for m
    by (induction m) (auto simp: package_files_def)
  moreover have "hm_get m' name = Some entry"
    using assms(2,3) by simp
  ultimately have "map_option ?f (hm_get m name) = Some (?f entry)"
    using assms(1) by (metis option.simps(9))
  then show ?thesis
    by auto
qed

text \<open>
  A lockfile is finite, and the fuel is at least the number of its packages; every lockfile of the
  development is (the law of the locale \<open>lockfile\<close>). Then the closures return.
\<close>

definition lockfile_bounded :: "(resolver \<times> dep_lookup \<times> nat) option \<Rightarrow> bool" where
  "lockfile_bounded lf \<longleftrightarrow>
     (\<forall>resolve all_deps fuel. lf = Some (resolve, all_deps, fuel) \<longrightarrow>
        (\<exists>pkgs. length pkgs \<le> fuel \<and> (\<forall>ws n v p. resolve ws n v = Inr (Some p) \<longrightarrow> p \<in> set pkgs)))"

definition closures_return :: "(resolver \<times> dep_lookup \<times> nat) option \<Rightarrow> bool" where
  "closures_return lf \<longleftrightarrow>
     (\<forall>resolve all_deps fuel deps. lf = Some (resolve, all_deps, fuel) \<longrightarrow>
        all_transitive_closures resolve all_deps fuel deps False \<noteq> None)"

definition splits_return ::
  "(string \<Rightarrow> string) \<Rightarrow> semver \<Rightarrow> string \<Rightarrow> bool \<Rightarrow> (package_name, package_info) hash_map \<Rightarrow> bool"
where
  "splits_return clean satisfies repo_root link ws \<longleftrightarrow>
     list_all (\<lambda>(name, entry). package_dependencies clean satisfies repo_root link ws entry \<noteq> None) ws"

lemma bounded_closures_return: "lockfile_bounded lf \<Longrightarrow> closures_return lf"
  unfolding closures_return_def
proof (intro allI impI)
  fix resolve all_deps fuel deps
  assume "lockfile_bounded lf" "lf = Some (resolve, all_deps, fuel)"
  then obtain pkgs where pkgs: "length pkgs \<le> fuel" "\<forall>ws n v p. resolve ws n v = Inr (Some p) \<longrightarrow> p \<in> set pkgs"
    by (auto simp: lockfile_bounded_def)
  then have "lockfile (\<lambda>_ :: unit. resolve) (\<lambda>_. pkgs)"
    by unfold_locales blast
  from lockfile.closure_returns [OF this pkgs(1), where all_deps = "\<lambda>_. all_deps"]
  have "\<exists>r. transitive_closure_lock resolve all_deps fuel ws d False = Some r" for ws d
    by blast
  then have "\<exists>r. all_transitive_closures resolve all_deps fuel deps False = Some r"
  proof (induction deps)
    case (Cons wd deps)
    obtain ws d r where "wd = (ws, d)" "transitive_closure_lock resolve all_deps fuel ws d False = Some r"
      using Cons.prems by (cases wd) blast
    with Cons show ?case by (auto split: sum.splits)
  qed simp
  then show "all_transitive_closures resolve all_deps fuel deps False \<noteq> None"
    by auto
qed

lemma build_inner_returns:
  assumes "closures_return lf"
  obtains ws where "build_inner lf st = Some (package_graph_of (st\<lparr>bs_workspaces := ws\<rparr>))"
    and "map fst ws = map fst (bs_workspaces st)" and "package_files ws = package_files (bs_workspaces st)"
proof (cases lf)
  case None
  then show thesis by (intro that [of "bs_workspaces st"]) (simp_all add: build_inner_def populate_transitive_dependencies_def)
next
  case (Some l)
  obtain resolve all_deps fuel where l: "lf = Some (resolve, all_deps, fuel)" using Some by (cases l) auto
  obtain r where r: "all_transitive_closures resolve all_deps fuel (all_external_dependencies st) False = Some r"
    using assms l by (auto simp: closures_return_def)
  show thesis
  proof (cases r)
    case (Inl e)
    then show thesis
      by (intro that [of "bs_workspaces st"]) (simp_all add: build_inner_def populate_transitive_dependencies_def l r)
  next
    case (Inr closures)
    then show thesis
      by (intro that [of "assign_closures closures (bs_workspaces st)"])
         (simp_all add: build_inner_def populate_transitive_dependencies_def l r assign_closures_keys assign_closures_files)
  qed
qed

lemma connect_internal_ok:
  assumes parse: "parse_package_jsons clean repo_root (build_state_new json) jsons = Inr st"
    and split: "splits_return clean satisfies repo_root link (bs_workspaces st)"
  defines "E \<equiv> insert (WorkspaceNode RootPkg, {RootNode})
      {(WorkspaceNode name, dep_nodes internal) | name entry internal external. (name, entry) \<in> set (bs_workspaces st) \<and>
         package_dependencies clean satisfies repo_root link (bs_workspaces st) entry = Some (internal, external)}"
  shows "\<exists>st'. connect_internal_dependencies clean satisfies repo_root link st = Some st' \<and> build_state_ok st' \<and>
    same_nodes st st' \<and> set (g_edges (bs_graph st')) = (\<Union>(m, N) \<in> E. index_edges st m N)"
proof -
  let ?f = "\<lambda>(name, entry). map_option (\<lambda>d. (name, d))
      (package_dependencies clean satisfies repo_root link (bs_workspaces st) entry)"
  have ok: "build_state_ok st" by (rule parse_package_jsons_ok [OF parse])
  have "\<forall>x \<in> set (bs_workspaces st). \<exists>y. ?f x = Some y"
    using split by (auto simp: splits_return_def list_all_iff)
  from opt_map_total [OF this] obtain splits where splits: "opt_map ?f (bs_workspaces st) = Some splits" by blast
  have all2: "list_all2 (\<lambda>x y. ?f x = Some y) (bs_workspaces st) splits"
    using splits by (simp only: opt_map_Some_list_all2)
  have mem: "(name, deps) \<in> set splits \<longleftrightarrow> (\<exists>entry. (name, entry) \<in> set (bs_workspaces st) \<and>
      package_dependencies clean satisfies repo_root link (bs_workspaces st) entry = Some deps)" for name deps
  proof
    assume "(name, deps) \<in> set splits"
    then obtain i where i: "i < length splits" "splits ! i = (name, deps)" by (auto simp: in_set_conv_nth)
    have len: "length splits = length (bs_workspaces st)" using list_all2_lengthD [OF all2] by simp
    obtain n e where ne: "bs_workspaces st ! i = (n, e)" by (cases "bs_workspaces st ! i")
    have "?f (bs_workspaces st ! i) = Some (splits ! i)" using list_all2_nthD [OF all2] i(1) len by simp
    then have "n = name" "package_dependencies clean satisfies repo_root link (bs_workspaces st) e = Some deps"
      using i(2) by (auto simp: ne)
    with ne i(1) len show "\<exists>entry. (name, entry) \<in> set (bs_workspaces st) \<and>
      package_dependencies clean satisfies repo_root link (bs_workspaces st) entry = Some deps" by (metis nth_mem)
  next
    assume "\<exists>entry. (name, entry) \<in> set (bs_workspaces st) \<and>
      package_dependencies clean satisfies repo_root link (bs_workspaces st) entry = Some deps"
    then obtain entry i where i: "i < length (bs_workspaces st)" "bs_workspaces st ! i = (name, entry)"
      "package_dependencies clean satisfies repo_root link (bs_workspaces st) entry = Some deps"
      by (auto simp: in_set_conv_nth)
    have "?f (bs_workspaces st ! i) = Some (splits ! i)" using list_all2_nthD [OF all2 i(1)] .
    then show "(name, deps) \<in> set splits" using i list_all2_lengthD [OF all2] by (auto simp: in_set_conv_nth)
  qed
  have pre: "\<forall>(name, deps) \<in> set splits. name \<in> fst ` set (bs_workspaces st) \<and> set (fst deps) \<subseteq> fst ` set (bs_workspaces st)"
  proof (intro ballI, clarify)
    fix name internal external assume "(name, internal, external) \<in> set splits"
    then obtain entry where "(name, entry) \<in> set (bs_workspaces st)"
      "package_dependencies clean satisfies repo_root link (bs_workspaces st) entry = Some (internal, external)"
      unfolding mem by blast
    then show "name \<in> fst ` set (bs_workspaces st) \<and> set (fst (internal, external)) \<subseteq> fst ` set (bs_workspaces st)"
      using package_dependencies_internal by (metis fst_conv image_eqI)
  qed
  obtain st' where st': "connect_loop st splits = Some st'" "build_state_ok st'" "same_nodes st st'"
    "set (g_edges (bs_graph st')) = set (g_edges (bs_graph st)) \<union>
      (\<Union>(name, deps) \<in> set splits. index_edges st (WorkspaceNode name) (dep_nodes (fst deps)))"
    using connect_loop_ok [OF ok pre] by blast
  have "(\<Union>(name, deps) \<in> set splits. index_edges st (WorkspaceNode name) (dep_nodes (fst deps))) =
    (\<Union>(m, N) \<in> {(WorkspaceNode name, dep_nodes internal) | name entry internal external. (name, entry) \<in> set (bs_workspaces st) \<and>
         package_dependencies clean satisfies repo_root link (bs_workspaces st) entry = Some (internal, external)}. index_edges st m N)"
    using mem by (fastforce split: prod.splits)
  then show ?thesis
    using st' splits root_edge [OF parse] unfolding E_def by (auto simp: connect_internal_dependencies_def)
qed

text \<open>Building the graph once the files are read.\<close>

lemma package_graph_build_parsed:
  assumes parse: "parse_package_jsons clean repo_root (build_state_new root_json) jsons = Inr st"
    and split: "splits_return clean satisfies repo_root link (bs_workspaces st)"
    and lf: "closures_return lf"
  shows "\<exists>pg. package_graph_build clean satisfies repo_root link False root_json jsons lf = Some (Inr pg) \<and>
    package_graph_ok pg \<and>
    fst ` set (pg_packages pg) = fst ` set (bs_workspaces st) \<and> package_files (pg_packages pg) = package_files (bs_workspaces st) \<and>
    set (g_nodes (pg_graph pg)) = insert RootNode (WorkspaceNode ` fst ` set (pg_packages pg)) \<and>
    (\<forall>(name, entry) \<in> set (bs_workspaces st). \<forall>internal external.
       package_dependencies clean satisfies repo_root link (bs_workspaces st) entry = Some (internal, external) \<longrightarrow>
       immediate_dependencies pg (WorkspaceNode name) =
         Some (dep_nodes internal \<union> (if name = RootPkg then {RootNode} else {})))"
proof -
  define E where "E = insert (WorkspaceNode RootPkg, {RootNode})
      {(WorkspaceNode name, dep_nodes internal) | name entry internal external. (name, entry) \<in> set (bs_workspaces st) \<and>
         package_dependencies clean satisfies repo_root link (bs_workspaces st) entry = Some (internal, external)}"
  have ok: "build_state_ok st" by (rule parse_package_jsons_ok [OF parse])
  then have lk: "lookup_ok st" and dist: "distinct (map fst (bs_workspaces st))"
    and nodes: "set (g_nodes (bs_graph st)) = insert RootNode (WorkspaceNode ` fst ` set (bs_workspaces st))"
    by (simp_all add: build_state_ok_def)
  obtain st2 where st2: "connect_internal_dependencies clean satisfies repo_root link st = Some st2" "build_state_ok st2"
    "same_nodes st st2" "set (g_edges (bs_graph st2)) = (\<Union>(m, N) \<in> E. index_edges st m N)"
    using connect_internal_ok [OF parse split] unfolding E_def by blast
  obtain ws where ws: "build_inner lf st2 = Some (package_graph_of (st2\<lparr>bs_workspaces := ws\<rparr>))"
    "map fst ws = map fst (bs_workspaces st2)" "package_files ws = package_files (bs_workspaces st2)" using build_inner_returns [OF lf] .
  have files: "package_files (pg_packages (package_graph_of (st2\<lparr>bs_workspaces := ws\<rparr>))) = package_files (bs_workspaces st)"
    using ws(3) st2(1) connect_loop_files by (auto simp: package_graph_of_def connect_internal_dependencies_def split: option.splits)
  let ?pg = "package_graph_of (st2\<lparr>bs_workspaces := ws\<rparr>)"
  have run: "package_graph_build clean satisfies repo_root link False root_json jsons lf = Some (Inr ?pg)"
    by (simp add: package_graph_build_def parse st2(1) ws(1))
  have keys: "fst ` set (pg_packages ?pg) = fst ` set (bs_workspaces st)"
    using ws(2) st2(3) unfolding same_nodes_def by (metis list.set_map package_graph.select_convs(3) package_graph_of_def build_state.select_convs(1) build_state.surjective build_state.update_convs(1))
  have pg: "pg_node_lookup ?pg = bs_lookup st" "g_nodes (pg_graph ?pg) = g_nodes (bs_graph st)"
    "pg_graph ?pg = bs_graph st2"
    using st2(3) by (simp_all add: package_graph_of_def same_nodes_def)
  have "package_graph_ok ?pg"
    by (rule package_graph_of_ok) (use st2(2) in \<open>simp add: build_state_ok_def lookup_ok_def\<close>)
  moreover have "immediate_dependencies ?pg (WorkspaceNode name) =
      Some (dep_nodes internal \<union> (if name = RootPkg then {RootNode} else {}))"
    if e: "(name, entry) \<in> set (bs_workspaces st)"
      and d: "package_dependencies clean satisfies repo_root link (bs_workspaces st) entry = Some (internal, external)"
    for name entry internal external
  proof -
    have E_nodes: "N \<subseteq> set (g_nodes (bs_graph st))" if "(m, N) \<in> E" for m N
      using that nodes package_dependencies_internal unfolding E_def dep_nodes_def by (fastforce split: if_splits)
    have "immediate_dependencies ?pg (WorkspaceNode name) = Some (\<Union>{N. (WorkspaceNode name, N) \<in> E})"
      by (rule immediate_dependencies_index_edges [OF lk _ pg(1,2) _ E_nodes]) (use st2(4) pg(3) nodes e in force)+
    also have "\<Union>{N. (WorkspaceNode name, N) \<in> E} = dep_nodes internal \<union> (if name = RootPkg then {RootNode} else {})"
    proof -
      have uniq: "entry' = entry" if "(name, entry') \<in> set (bs_workspaces st)" for entry'
        using eq_key_imp_eq_value [OF dist that e] .
      have two: "N = dep_nodes internal \<or> (name = RootPkg \<and> N = {RootNode})" if "(WorkspaceNode name, N) \<in> E" for N
        using that unfolding E_def
      proof (elim insertE)
        assume "(WorkspaceNode name, N) \<in> {(WorkspaceNode name, dep_nodes internal) | name entry internal external.
          (name, entry) \<in> set (bs_workspaces st) \<and>
          package_dependencies clean satisfies repo_root link (bs_workspaces st) entry = Some (internal, external)}"
        then obtain entry' i x where "(name, entry') \<in> set (bs_workspaces st)" "N = dep_nodes i"
          "package_dependencies clean satisfies repo_root link (bs_workspaces st) entry' = Some (i, x)" by blast
        with uniq d show ?thesis by (metis option.inject prod.inject)
      qed simp
      show ?thesis
      proof (rule union_of_two [OF two])
        show "(WorkspaceNode name, dep_nodes internal) \<in> E" using e d unfolding E_def by blast
        show "name = RootPkg \<Longrightarrow> (WorkspaceNode name, {RootNode}) \<in> E" unfolding E_def by blast
      qed
    qed
    finally show ?thesis .
  qed
  ultimately show ?thesis using run keys files pg(2) nodes by auto
qed

text \<open>
  C14: the construction of the package graph returns whenever no path panics: no lookup of a package or of a
  node fails. Two files with the same name are an error that names it. Otherwise the packages are the root
  and those of the files with a name, each with the contents and the place of its file; the graph has one
  node for each of them and one for the root, the lookup table is exact (the hypothesis of the queries),
  and the packages a package depends on directly are exactly its internal dependencies, or the root when
  there is none. The lockfile has finitely many packages.
\<close>

theorem package_graph_build_correct:
  assumes split: "splits_return clean satisfies repo_root link (repository_packages clean repo_root root_json jsons)"
    and lf: "lockfile_bounded lf"
  defines "ws \<equiv> repository_packages clean repo_root root_json jsons"
  defines "build \<equiv> package_graph_build clean satisfies repo_root link False root_json (Inr jsons) lf"
  shows "(\<not> distinct (map fst ws) \<longrightarrow>
      (\<exists>n a b. build = Some (Inl (DuplicateWorkspace n a b)) \<and> OtherPkg n \<in> fst ` set ws)) \<and>
    (distinct (map fst ws) \<longrightarrow>
      (\<exists>pg. build = Some (Inr pg) \<and> package_graph_ok pg \<and>
        fst ` set (pg_packages pg) = fst ` set ws \<and>
        set (g_nodes (pg_graph pg)) = insert RootNode (WorkspaceNode ` fst ` set ws) \<and>
        (\<forall>(name, entry) \<in> set ws.
           (\<exists>info. hm_get (pg_packages pg) name = Some info \<and>
              pi_package_json info = pi_package_json entry \<and> pi_package_json_path info = pi_package_json_path entry) \<and>
           (\<forall>internal external. package_dependencies clean satisfies repo_root link ws entry = Some (internal, external) \<longrightarrow>
              immediate_dependencies pg (WorkspaceNode name) =
                Some (dep_nodes internal \<union> (if name = RootPkg then {RootNode} else {}))))))"
proof (cases "distinct (map fst ws)")
  case True
  then obtain st where st: "parse_package_jsons clean repo_root (build_state_new root_json) (Inr jsons) = Inr st" "bs_workspaces st = ws"
    using parse_package_jsons_result [of clean repo_root root_json jsons] unfolding ws_def by (auto split: if_splits)
  have "splits_return clean satisfies repo_root link (bs_workspaces st)"
    using split by (simp add: st(2) ws_def)
  note built = package_graph_build_parsed [OF st(1) this bounded_closures_return [OF lf], unfolded st(2), folded build_def]
  obtain pg where pg: "build = Some (Inr pg)" "package_graph_ok pg" "fst ` set (pg_packages pg) = fst ` set ws"
    "package_files (pg_packages pg) = package_files ws"
    "set (g_nodes (pg_graph pg)) = insert RootNode (WorkspaceNode ` fst ` set (pg_packages pg))"
    "\<forall>(name, entry) \<in> set ws. \<forall>internal external. package_dependencies clean satisfies repo_root link ws entry = Some (internal, external) \<longrightarrow>
       immediate_dependencies pg (WorkspaceNode name) = Some (dep_nodes internal \<union> (if name = RootPkg then {RootNode} else {}))"
    using built by (elim exE conjE) (rule that, assumption+)
  have here: "case x of (name, entry) \<Rightarrow> (\<exists>info. hm_get (pg_packages pg) name = Some info \<and>
      pi_package_json info = pi_package_json entry \<and> pi_package_json_path info = pi_package_json_path entry) \<and>
      (\<forall>internal external. package_dependencies clean satisfies repo_root link ws entry = Some (internal, external) \<longrightarrow>
        immediate_dependencies pg (WorkspaceNode name) = Some (dep_nodes internal \<union> (if name = RootPkg then {RootNode} else {})))"
    if "x \<in> set ws" for x
  proof -
    obtain name entry where x: "x = (name, entry)" by (cases x)
    show ?thesis
      using package_files_get [OF pg(4) True that [unfolded x]] bspec [OF pg(6) that] by (simp add: x)
  qed
  have "set (g_nodes (pg_graph pg)) = insert RootNode (WorkspaceNode ` fst ` set ws)"
    using pg(3,5) by simp
  with True show ?thesis
    by (intro conjI impI, simp) (rule exI [of _ pg], intro conjI ballI pg(1-3) here)
next
  case False
  then obtain n a b where "parse_package_jsons clean repo_root (build_state_new root_json) (Inr jsons) = Inl (DuplicateWorkspace n a b)"
    "OtherPkg n \<in> fst ` set ws"
    using parse_package_jsons_result [of clean repo_root root_json jsons] unfolding ws_def by (auto split: if_splits)
  with False show ?thesis
    by (simp add: build_def package_graph_build_def)
qed

definition sample_json :: "string \<Rightarrow> (string \<times> string) list \<Rightarrow> package_json" where
  "sample_json n deps = package_json_default\<lparr>pj_name := Some n, pj_dependencies := Some deps\<rparr>"

definition sample_jsons :: "(string \<times> package_json) list" where
  "sample_jsons = [(''/r/a/package.json'', sample_json ''a'' [(''b'', ''workspace:*''), (''left'', ''1'')]),
     (''/r/b/package.json'', sample_json ''b'' [])]"

definition sample_state :: build_state where
  "sample_state = projr (parse_package_jsons dot_if_empty ''/r'' (build_state_new package_json_default) (Inr sample_jsons))"

definition sample_left :: resolver where
  "sample_left ws n v = Inr (if n = ''left'' then Some (Package ''left'' ''1'') else None)"

definition sample_dep_lookup :: dep_lookup where
  "sample_dep_lookup key = Inr None"

lemma sample_bounded: "lockfile_bounded (Some (sample_left, sample_dep_lookup, 1))"
  by (auto simp: lockfile_bounded_def sample_left_def intro!: exI [of _ "[Package ''left'' ''1'']"])

lemma sample_splits:
  "splits_return dot_if_empty (\<lambda>_ _. None) ''/r'' True (repository_packages dot_if_empty ''/r'' package_json_default sample_jsons)"
  by code_simp

lemma sample_packages:
  "map fst (repository_packages dot_if_empty ''/r'' package_json_default sample_jsons) = [RootPkg, OtherPkg ''a'', OtherPkg ''b'']"
  by code_simp

theorem package_graph_build_correct_witness:
  "\<exists>pg. package_graph_build dot_if_empty (\<lambda>_ _. None) ''/r'' True False package_json_default (Inr sample_jsons)
      (Some (sample_left, sample_dep_lookup, 1)) = Some (Inr pg) \<and>
    package_graph_ok pg \<and> fst ` set (pg_packages pg) = {RootPkg, OtherPkg ''a'', OtherPkg ''b''}"
proof -
  let ?ws = "repository_packages dot_if_empty ''/r'' package_json_default sample_jsons"
  have "set (map fst ?ws) = {RootPkg, OtherPkg ''a'', OtherPkg ''b''}" "distinct (map fst ?ws)"
    unfolding sample_packages by auto
  then have keys: "fst ` set ?ws = {RootPkg, OtherPkg ''a'', OtherPkg ''b''}" "distinct (map fst ?ws)"
    by simp_all
  show ?thesis
    using package_graph_build_correct [OF sample_splits sample_bounded, THEN conjunct2, THEN mp, OF keys(2)]
    unfolding keys(1) by (elim exE conjE) (intro exI conjI)
qed

subsection \<open>Comparing with the same lockfile\<close>

lemma helper_ignore:
  "transitive_closure_helper resolve all_deps ws fuel False deps r0 = Some (Inr r) \<Longrightarrow>
    transitive_closure_helper resolve all_deps ws fuel True deps r0 = Some (Inr r)"
proof (induction deps arbitrary: r0)
  case (Cons nv deps)
  obtain n v where nv: "nv = (n, v)" by (cases nv)
  from Cons show ?case unfolding nv
    by (auto split: sum.splits option.splits if_splits nat.splits)
qed simp

lemma closures_ignore:
  "all_transitive_closures resolve all_deps fuel wss False = Some (Inr m) \<Longrightarrow>
    all_transitive_closures resolve all_deps fuel wss True = Some (Inr m)"
proof (induction wss arbitrary: m)
  case (Cons wd wss)
  obtain ws deps where wd: "wd = (ws, deps)" by (cases wd)
  from Cons.prems obtain c m' where "transitive_closure_lock resolve all_deps fuel ws deps False = Some (Inr c)"
    "all_transitive_closures resolve all_deps fuel wss False = Some (Inr m')" "m = (ws, c) # m'"
    by (auto simp: wd try_bind_Inr split: option.splits sum.splits)
  with Cons.IH show ?case by (simp add: wd transitive_closure_lock_def helper_ignore)
qed simp

lemma assign_closures_entry:
  assumes "(name, entry) \<in> set (assign_closures closures ws)" and "distinct (map (package_path \<circ> snd) ws)"
  shows "\<exists>entry0. (name, entry0) \<in> set ws \<and>
    entry = entry0\<lparr>pi_transitive_dependencies := hm_get closures (package_path entry0)\<rparr>"
  using assms
proof (induction closures ws rule: assign_closures.induct)
  case (2 closures name' entry' rest)
  show ?case
  proof (cases "(name, entry) = (name', entry'\<lparr>pi_transitive_dependencies := hm_get closures (package_path entry')\<rparr>)")
    case False
    with 2 obtain entry0 where e: "(name, entry0) \<in> set rest"
      "entry = entry0\<lparr>pi_transitive_dependencies := hm_get (AList.delete (package_path entry') closures) (package_path entry0)\<rparr>"
      by auto
    have "package_path entry0 \<noteq> package_path entry'" using e(1) 2(3) by force
    with e show ?thesis by (auto simp: delete_conv')
  qed auto
qed simp

lemma assign_closures_externals:
  "List.map_filter (\<lambda>(_, info). map_option (\<lambda>dep. (package_path info, dep)) (pi_unresolved_external_dependencies info))
     (assign_closures closures ws) =
   List.map_filter (\<lambda>(_, info). map_option (\<lambda>dep. (package_path info, dep)) (pi_unresolved_external_dependencies info)) ws"
  by (induction closures ws rule: assign_closures.induct) (auto simp: List.map_filter_def package_path_def)

lemma externals_map:
  "list_all (\<lambda>(_, info). pi_unresolved_external_dependencies info \<noteq> None) ws \<Longrightarrow>
    List.map_filter (\<lambda>(_, info). map_option (\<lambda>dep. (package_path info, dep)) (pi_unresolved_external_dependencies info)) ws =
    map (\<lambda>(_, entry). (package_path entry, case pi_unresolved_external_dependencies entry of Some deps \<Rightarrow> deps | None \<Rightarrow> [])) ws"
  by (induction ws) (auto simp: List.map_filter_def)

text \<open>when the lockfile did not change, no package is reported as changed: the closures that the builder
  stored are the ones the comparison computes from the same lockfile.\<close>

theorem unchanged_lockfile_no_changes:
  assumes "distinct (map (package_path \<circ> snd) (bs_workspaces st))"
    and "list_all (\<lambda>(_, info). pi_unresolved_external_dependencies info \<noteq> None) (bs_workspaces st)"
    and "populate_transitive_dependencies (Some (resolve, all_deps, fuel)) st = Some (Inr st')"
  shows "changed_packages_from_lockfile resolve all_deps fuel True False (package_graph_of st') = Some (Inr [])"
proof -
  obtain closures where c: "all_transitive_closures resolve all_deps fuel (all_external_dependencies st) False = Some (Inr closures)"
    and st': "st' = st\<lparr>bs_workspaces := assign_closures closures (bs_workspaces st)\<rparr>"
  proof -
    obtain res where res: "all_transitive_closures resolve all_deps fuel (all_external_dependencies st) False = Some res"
      using assms(3) by (auto simp: populate_transitive_dependencies_def)
    with assms(3) that show thesis by (cases res) (auto simp: populate_transitive_dependencies_def)
  qed
  let ?pg = "package_graph_of st'"
  have "external_deps ?pg = all_external_dependencies st"
    by (simp add: external_deps_def all_external_dependencies_def st' package_graph_of_def assign_closures_externals
        externals_map [OF assms(2)])
  with closures_ignore [OF c]
  have run: "all_transitive_closures resolve all_deps fuel (external_deps ?pg) True = Some (Inr closures)" by simp
  have "\<not> closure_differs closures p" if "p \<in> set (pg_packages ?pg)" for p
  proof -
    obtain name entry where p: "p = (name, entry)" by (cases p)
    from that have "(name, entry) \<in> set (assign_closures closures (bs_workspaces st))"
      by (simp add: p st' package_graph_of_def)
    from assign_closures_entry [OF this assms(1)] show ?thesis
      by (auto simp: p closure_differs_def package_path_def)
  qed
  then have "filter (closure_differs closures) (pg_packages ?pg) = []" by (simp add: filter_empty_conv)
  with run show ?thesis by (simp add: changed_packages_from_lockfile_def)
qed

definition sample_connected :: build_state where
  "sample_connected = the (connect_internal_dependencies dot_if_empty (\<lambda>_ _. None) ''/r'' True sample_state)"

definition sample_resolver :: resolver where
  "sample_resolver ws n v = Inr (Some (Package n v))"

definition sample_populated :: build_state where
  "sample_populated = projr (the (populate_transitive_dependencies (Some (sample_resolver, sample_dep_lookup, 1)) sample_connected))"

lemma sample_populate:
  "distinct (map (package_path \<circ> snd) (bs_workspaces sample_connected))"
  "list_all (\<lambda>(_, info). pi_unresolved_external_dependencies info \<noteq> None) (bs_workspaces sample_connected)"
  "populate_transitive_dependencies (Some (sample_resolver, sample_dep_lookup, 1)) sample_connected = Some (Inr sample_populated)"
  by code_simp+

theorem unchanged_lockfile_no_changes_witness:
  "populate_transitive_dependencies (Some (sample_resolver, sample_dep_lookup, 1)) sample_connected = Some (Inr sample_populated) \<and>
   changed_packages_from_lockfile sample_resolver sample_dep_lookup 1 True False (package_graph_of sample_populated) = Some (Inr [])"
  by (intro conjI sample_populate(3) unchanged_lockfile_no_changes [OF sample_populate])

end
