(* ===== verification/Target_Selector.thy ===== *)
theory Target_Selector
  imports Nrz_Json
begin

text \<open>
  \<open>nrzrepo-lib/src/run/scope/target_selector.rs\<close>: the little language of package filters. The
  regular expression of the source is written out as a matcher that tries the same alternatives in
  the same order. \<open>path_clean::clean\<close> is a parameter.
\<close>

record git_range =
  gr_from_ref :: "string option"
  gr_to_ref :: "string option"
  gr_include_uncommitted :: bool
  gr_allow_unknown_objects :: bool
  gr_merge_base :: bool

record target_selector =
  ts_include_dependencies :: bool
  ts_match_dependencies :: bool
  ts_include_dependents :: bool
  ts_exclude :: bool
  ts_exclude_self :: bool
  ts_follow_prod_deps_only :: bool
  ts_parent_dir :: "string option"
  ts_name_pattern :: string
  ts_git_range :: "git_range option"
  ts_raw :: string

definition target_selector_default :: target_selector where
  "target_selector_default = \<lparr>ts_include_dependencies = False, ts_match_dependencies = False,
     ts_include_dependents = False, ts_exclude = False, ts_exclude_self = False,
     ts_follow_prod_deps_only = False, ts_parent_dir = None, ts_name_pattern = [],
     ts_git_range = None, ts_raw = []\<rparr>"

datatype selector_error =
    CantMatchDependencies
  | InvalidAnchoredPath string
  | EmptyPathSpecification
  | InvalidGitRange string
  | InvalidSelector string

subsection \<open>The regular expression\<close>

text \<open>\<open>(\{(?P<directory>[^}]*)})?\<close>\<close>

definition match_directory :: "string \<Rightarrow> (string option \<times> string) option" where
  "match_directory s =
     (case s of
        c # rest \<Rightarrow>
          if c = CHR ''{'' then
            (case split_once (CHR ''}'') rest of
               Some (dir, rest') \<Rightarrow> Some (Some dir, rest')
             | None \<Rightarrow> None)
          else Some (None, s)
      | [] \<Rightarrow> Some (None, []))"

text \<open>\<open>(?P<commits>(?:\.{3})?\[[^\]]*\])?$\<close>\<close>

definition match_commits :: "string \<Rightarrow> string option option" where
  "match_commits s =
     (if s = [] then Some None
      else
        (let body = (case strip_prefix ''...'' s of Some r \<Rightarrow> r | None \<Rightarrow> s)
         in case body of
              c # rest \<Rightarrow>
                if c = CHR ''['' then
                  (case split_once (CHR '']'') rest of
                     Some (_, rest') \<Rightarrow> if rest' = [] then Some (Some s) else None
                   | None \<Rightarrow> None)
                else None
            | [] \<Rightarrow> None))"

text \<open>\<open>[^.](?:[^{}\[\]]*[^{}\[\].])?\<close>\<close>

definition is_name :: "string \<Rightarrow> bool" where
  "is_name s =
     (case s of
        [] \<Rightarrow> False
      | c # rest \<Rightarrow> c \<noteq> CHR ''.'' \<and>
          (rest = [] \<or> (last rest \<noteq> CHR ''.'' \<and> (\<forall>x \<in> set rest. x \<notin> set ''{}[]''))))"

definition match_rest :: "string \<Rightarrow> (string option \<times> string option) option" where
  "match_rest s =
     (case match_directory s of
        None \<Rightarrow> None
      | Some (dir, rest) \<Rightarrow> map_option (\<lambda>commits. (dir, commits)) (match_commits rest))"

text \<open>The longest name is tried first, no name last.\<close>

fun match_from :: "nat \<Rightarrow> string \<Rightarrow> (string option \<times> string option \<times> string option) option" where
  "match_from 0 s = map_option (\<lambda>(dir, commits). (None, dir, commits)) (match_rest s)"
| "match_from (Suc k) s =
     (if is_name (take (Suc k) s) \<and> match_rest (drop (Suc k) s) \<noteq> None
      then map_option (\<lambda>(dir, commits). (Some (take (Suc k) s), dir, commits)) (match_rest (drop (Suc k) s))
      else match_from k s)"

definition selector_captures :: "string \<Rightarrow> (string option \<times> string option \<times> string option) option" where
  "selector_captures s = match_from (length s) s"

subsection \<open>Parsing\<close>

definition anchored_try_from :: "string \<Rightarrow> selector_error \<Rightarrow> (selector_error, string) result" where
  "anchored_try_from p err = (if is_absolute p then Inl err else Inr p)"

definition is_selector_by_location ::
  "(string \<Rightarrow> string) \<Rightarrow> string \<Rightarrow> (selector_error, string) result option"
where
  "is_selector_by_location clean s =
     (if s \<in> set [''.'', ''..''] \<or> (\<exists>p \<in> set [''./'', [CHR ''.'', CHR 92], ''../'', [CHR ''.'', CHR ''.'', CHR 92]]. starts_with s p)
      then Some (anchored_try_from (clean s) (InvalidAnchoredPath s))
      else None)"

fun split_once_str :: "string \<Rightarrow> string \<Rightarrow> (string \<times> string) option" where
  "split_once_str d s =
     (case strip_prefix d s of
        Some rest \<Rightarrow> Some ([], rest)
      | None \<Rightarrow>
          (case s of [] \<Rightarrow> None
           | c # cs \<Rightarrow> map_option (\<lambda>(a, b). (c # a, b)) (split_once_str d cs)))"

declare split_once_str.simps [simp del]

definition parse_git_range :: "string \<Rightarrow> (selector_error, git_range) result" where
  "parse_git_range commits =
     (if commits = [] then Inl (InvalidGitRange commits)
      else
        (case split_once_str ''...'' commits of
           Some (a, b) \<Rightarrow>
             if a = [] \<or> b = [] then Inl (InvalidGitRange commits)
             else Inr \<lparr>gr_from_ref = Some a, gr_to_ref = Some b, gr_include_uncommitted = False,
                       gr_allow_unknown_objects = False, gr_merge_base = True\<rparr>
         | None \<Rightarrow>
             Inr \<lparr>gr_from_ref = Some commits, gr_to_ref = None, gr_include_uncommitted = True,
                  gr_allow_unknown_objects = False, gr_merge_base = False\<rparr>))"

text \<open>The parse of what the stripped prefixes and suffixes leave.\<close>

definition parse_body ::
  "(string \<Rightarrow> string) \<Rightarrow> string \<Rightarrow> target_selector \<Rightarrow> (selector_error, target_selector) result"
where
  "parse_body clean selector base =
     (case selector_captures selector of
        None \<Rightarrow>
          (case is_selector_by_location clean selector of
             Some r \<Rightarrow> try_bind r (\<lambda>path. Inr (base\<lparr>ts_exclude_self := False, ts_parent_dir := Some path\<rparr>))
           | None \<Rightarrow> Inr (base\<lparr>ts_name_pattern := selector\<rparr>))
      | Some (name, directory, commits) \<Rightarrow>
          (let name_pattern = unwrap_or [] name
           in try_bind
                (case directory of
                   None \<Rightarrow> Inr None
                 | Some d \<Rightarrow>
                     if d = [] then Inl EmptyPathSpecification
                     else try_bind (anchored_try_from (clean d) (InvalidAnchoredPath d)) (\<lambda>p. Inr (Some p)))
                (\<lambda>parent_dir.
              try_bind
                (case commits of
                   None \<Rightarrow> Inr (None, False)
                 | Some c \<Rightarrow>
                     (let stripped = strip_prefix ''...'' c
                      in if stripped \<noteq> None \<and> parent_dir = None \<and> name_pattern = []
                         then Inl CantMatchDependencies
                         else (let brackets = unwrap_or c stripped
                               in try_bind (parse_git_range (butlast (tl brackets)))
                                    (\<lambda>range. Inr (Some range, stripped \<noteq> None)))))
                (\<lambda>(git_range, pre_add_dependencies).
              Inr (base\<lparr>ts_git_range := git_range, ts_match_dependencies := pre_add_dependencies,
                       ts_name_pattern := name_pattern, ts_parent_dir := parent_dir\<rparr>)))))"

definition strip_dependencies :: "string \<Rightarrow> bool \<times> bool \<times> string" where
  "strip_dependencies s =
     (case strip_suffix ''...'' s of
        Some r \<Rightarrow> (case strip_suffix ''^'' r of Some r' \<Rightarrow> (True, True, r') | None \<Rightarrow> (True, False, r))
      | None \<Rightarrow> (False, False, s))"

definition strip_dependents :: "string \<Rightarrow> bool \<times> bool \<times> string" where
  "strip_dependents s =
     (case strip_prefix ''...'' s of
        Some r \<Rightarrow> (case strip_prefix ''^'' r of Some r' \<Rightarrow> (True, True, r') | None \<Rightarrow> (True, False, r))
      | None \<Rightarrow> (False, False, s))"

definition target_selector_from_str ::
  "(string \<Rightarrow> string) \<Rightarrow> string \<Rightarrow> (selector_error, target_selector) result"
where
  "target_selector_from_str clean raw =
     (let (exclude, s0) = (case strip_prefix ''!'' raw of Some r \<Rightarrow> (True, r) | None \<Rightarrow> (False, raw));
          (include_dependencies, self1, s1) = strip_dependencies s0;
          (include_dependents, self2, s2) = strip_dependents s1
      in parse_body clean s2
           (target_selector_default\<lparr>ts_exclude := exclude, ts_exclude_self := self1 \<or> self2,
              ts_include_dependencies := include_dependencies,
              ts_include_dependents := include_dependents, ts_raw := raw\<rparr>))"

subsection \<open>Writing selectors\<close>

record selector_parts =
  sel_exclude :: bool
  sel_dependents :: "bool option"     \<comment> \<open>\<open>Some self\<close>: preceded by dots, \<open>self\<close> for the caret\<close>
  sel_name :: string
  sel_dir :: "string option"
  sel_range :: "(bool \<times> string) option"  \<comment> \<open>with dots before it, and the text in brackets\<close>
  sel_dependencies :: "bool option"

definition print_dir :: "string option \<Rightarrow> string" where
  "print_dir d = (case d of Some x \<Rightarrow> ''{'' @ x @ ''}'' | None \<Rightarrow> [])"

definition print_range :: "(bool \<times> string) option \<Rightarrow> string" where
  "print_range r = (case r of Some (m, x) \<Rightarrow> (if m then ''...'' else []) @ ''['' @ x @ '']'' | None \<Rightarrow> [])"

definition print_dependents :: "bool option \<Rightarrow> string" where
  "print_dependents d = (case d of Some self \<Rightarrow> ''...'' @ (if self then ''^'' else []) | None \<Rightarrow> [])"

definition print_dependencies :: "bool option \<Rightarrow> string" where
  "print_dependencies d = (case d of Some self \<Rightarrow> (if self then ''^'' else []) @ ''...'' | None \<Rightarrow> [])"

definition print_body :: "selector_parts \<Rightarrow> string" where
  "print_body p = sel_name p @ print_dir (sel_dir p) @ print_range (sel_range p)"

definition print_selector :: "selector_parts \<Rightarrow> string" where
  "print_selector p =
     (if sel_exclude p then ''!'' else []) @
     print_dependents (sel_dependents p) @ print_body p @ print_dependencies (sel_dependencies p)"

definition parts_ok :: "(string \<Rightarrow> string) \<Rightarrow> selector_parts \<Rightarrow> bool" where
  "parts_ok clean p \<longleftrightarrow>
     set (sel_name p) \<inter> set ''.{}[]^!'' = {} \<and>
     (case sel_dir p of
        None \<Rightarrow> True
      | Some d \<Rightarrow> d \<noteq> [] \<and> set d \<inter> set ''{}['' = {} \<and> \<not> is_absolute (clean d)) \<and>
     (case sel_range p of
        None \<Rightarrow> sel_name p \<noteq> [] \<or> sel_dir p \<noteq> None
      | Some (m, g) \<Rightarrow> set g \<inter> set ''[]'' = {} \<and> (\<exists>r. parse_git_range g = Inr r) \<and>
          (m \<longrightarrow> sel_name p \<noteq> [] \<or> sel_dir p \<noteq> None))"

definition selector_of_parts :: "(string \<Rightarrow> string) \<Rightarrow> selector_parts \<Rightarrow> target_selector" where
  "selector_of_parts clean p =
     target_selector_default\<lparr>ts_exclude := sel_exclude p,
       ts_exclude_self := (sel_dependents p = Some True \<or> sel_dependencies p = Some True),
       ts_include_dependencies := sel_dependencies p \<noteq> None,
       ts_include_dependents := sel_dependents p \<noteq> None,
       ts_raw := print_selector p,
       ts_git_range := map_option (\<lambda>(_, g). projr (parse_git_range g)) (sel_range p),
       ts_match_dependencies := (case sel_range p of Some (m, _) \<Rightarrow> m | None \<Rightarrow> False),
       ts_name_pattern := sel_name p,
       ts_parent_dir := map_option clean (sel_dir p)\<rparr>"

lemma match_from_skip:
  assumes "m \<le> n" and "\<And>k. m < k \<Longrightarrow> k \<le> n \<Longrightarrow> \<not> (is_name (take k s) \<and> match_rest (drop k s) \<noteq> None)"
  shows "match_from n s = match_from m s"
  using assms
proof (induction n)
  case (Suc n)
  then show ?case by (cases "m = Suc n") (auto simp: le_Suc_eq)
qed simp

lemma match_from_hit:
  assumes "is_name (take k s)" and "match_rest (drop k s) = Some (d, c)" and "0 < k"
  shows "match_from k s = Some (Some (take k s), d, c)"
  using assms by (cases k) auto

lemma match_rest_printed:
  assumes "case d of None \<Rightarrow> True | Some x \<Rightarrow> CHR ''}'' \<notin> set x"
    and "case r of None \<Rightarrow> True | Some (m, g) \<Rightarrow> CHR '']'' \<notin> set g"
  shows "match_rest (print_dir d @ print_range r) = Some (d, if r = None then None else Some (print_range r))"
proof -
  have range: "match_commits (print_range r) = Some (if r = None then None else Some (print_range r))"
    using assms(2) by (auto simp: match_commits_def print_range_def split: option.splits)
  have dir: "match_directory (print_dir d @ print_range r) = Some (d, print_range r)"
    using assms(1) by (auto simp: match_directory_def print_dir_def print_range_def split: option.splits list.splits)
  show ?thesis by (simp add: match_rest_def range dir)
qed

lemma is_name_plain: "n \<noteq> [] \<Longrightarrow> set n \<inter> set ''.{}[]^!'' = {} \<Longrightarrow> is_name n"
  by (cases n) (auto simp: is_name_def dest: last_in_set)

lemma is_name_no_bracket:
  assumes "is_name s" and "i < length s" and "0 < i"
  shows "s ! i \<notin> set ''{}[]''" and "last s \<noteq> CHR ''.''"
proof -
  obtain c rest where s: "s = c # rest" using assms(2) by (cases s) auto
  with assms have i: "i - 1 < length rest" "s ! i = rest ! (i - 1)" by (auto simp: nth_Cons')
  then have "rest \<noteq> []" "s ! i \<in> set rest" by auto
  with assms(1) s show "s ! i \<notin> set ''{}[]''" "last s \<noteq> CHR ''.''"
    by (auto simp: is_name_def)
qed

lemma not_name_past:
  assumes "i < k" and "k \<le> length s" and "0 < i" and "s ! i \<in> set ''{}[]''"
  shows "\<not> is_name (take k s)"
  using is_name_no_bracket(1) [of "take k s" i] assms by auto

lemma match_commits_None: "CHR ''['' \<notin> set s \<Longrightarrow> s \<noteq> [] \<Longrightarrow> match_commits s = None"
proof -
  assume no: "CHR ''['' \<notin> set s" and ne: "s \<noteq> []"
  have "CHR ''['' \<notin> set (case strip_prefix ''...'' s of Some r \<Rightarrow> r | None \<Rightarrow> s)"
    using no by (auto simp: strip_prefix_Some split: option.splits)
  with ne show ?thesis by (auto simp: match_commits_def Let_def split: list.splits)
qed

lemma match_rest_None_dir:
  assumes "set u \<inter> set ''{}['' = {}"
  shows "match_rest (u @ CHR ''}'' # t) = None"
proof -
  let ?s = "u @ CHR ''}'' # t"
  have dir: "match_directory ?s = Some (None, ?s)"
    using assms by (cases u) (auto simp: match_directory_def)
  have "match_commits ?s = None"
  proof (cases "strip_prefix ''...'' ?s")
    case None
    then show ?thesis using assms by (cases u) (auto simp: match_commits_def)
  next
    case (Some r)
    then have "?s = ''...'' @ r" by (simp add: strip_prefix_Some)
    then obtain v where "u = ''...'' @ v" "r = v @ CHR ''}'' # t"
      by (cases u; cases "tl u"; cases "tl (tl u)") auto
    with assms Some show ?thesis by (cases v) (auto simp: match_commits_def)
  qed
  then show ?thesis by (simp add: match_rest_def dir)
qed

lemma match_rest_None_range:
  assumes "set u \<inter> set ''[]'' = {}"
  shows "match_rest (u @ '']'') = None"
proof -
  have "match_commits x = None" if "match_directory (u @ '']'') = Some (d, x)" for d x
  proof (rule match_commits_None)
    from that consider "x = u @ '']''" | y where "u @ '']'' = CHR ''{'' # y @ CHR ''}'' # x"
      by (auto simp: match_directory_def split_once_Some split: list.splits if_splits option.splits)
    then have "\<exists>z. u @ '']'' = z @ x \<and> x \<noteq> []"
    proof cases
      case 1
      then show ?thesis by simp
    next
      case (2 y)
      then have "last (CHR ''{'' # y @ CHR ''}'' # x) = CHR '']''" by (metis last_snoc)
      then have "x \<noteq> []" by auto
      with 2 show ?thesis by (metis append_Cons append_assoc append_Nil)
    qed
    then obtain z where z: "u @ '']'' = z @ x" "x \<noteq> []" by blast
    then have "set x \<subseteq> set (u @ '']'')" by auto
    with assms show "CHR ''['' \<notin> set x" by auto
    show "x \<noteq> []" by (rule z(2))
  qed
  then show ?thesis by (auto simp: match_rest_def split: option.splits)
qed


lemma last_take: "0 < k \<Longrightarrow> k \<le> length s \<Longrightarrow> last (take k s) = s ! (k - 1)"
  by (cases k) (auto simp: take_Suc_conv_app_nth)

lemma captures_printed:
  assumes ok: "parts_ok clean p"
  shows "selector_captures (print_body p) =
    Some (if sel_name p = [] then None else Some (sel_name p), sel_dir p,
          if sel_range p = None then None else Some (print_range (sel_range p)))"
proof -
  let ?n = "sel_name p" and ?rest = "print_dir (sel_dir p) @ print_range (sel_range p)"
  have name: "set ?n \<inter> set ''.{}[]^!'' = {}" using ok by (simp add: parts_ok_def)
  have rest: "match_rest ?rest = Some (sel_dir p, if sel_range p = None then None else Some (print_range (sel_range p)))"
    using ok by (intro match_rest_printed) (auto simp: parts_ok_def split: option.splits)
  have body: "print_body p = ?n @ ?rest" by (simp add: print_body_def)
  have skip: "\<not> (is_name (take k (?n @ ?rest)) \<and> match_rest (drop k (?n @ ?rest)) \<noteq> None)"
    if k: "length ?n < k" "k \<le> length (?n @ ?rest)" for k
  proof (cases "?n = []")
    case False
    then have pos: "0 < length ?n" by simp
    have nth: "(?n @ ?rest) ! (length ?n + j) = ?rest ! j" for j by (simp add: nth_append)
    show ?thesis
    proof (cases "\<exists>g. sel_dir p = None \<and> sel_range p = Some (True, g)")
      case True
      then obtain g where g: "?rest = ''...['' @ g @ '']''" by (auto simp: print_dir_def print_range_def)
      show ?thesis
      proof (cases "k \<le> length ?n + 3")
        case True
        have "last (take k (?n @ ?rest)) = (?n @ ?rest) ! (k - 1)"
          using k by (intro last_take) auto
        also have "\<dots> = ?rest ! (k - 1 - length ?n)" using nth [of "k - 1 - length ?n"] k(1) by simp
        also have "\<dots> = CHR ''.''"
        proof -
          have "k - 1 - length ?n \<in> {0, 1, 2}" using True k(1) by auto
          then show ?thesis unfolding g by auto
        qed
        finally have "last (take k (?n @ ?rest)) = CHR ''.''" .
        moreover have "length ?n < length (take k (?n @ ?rest))" using k by simp
        ultimately show ?thesis using is_name_no_bracket(2) [OF _ _ pos] by blast
      next
        case False
        have "(?n @ ?rest) ! (length ?n + 3) = CHR ''[''" unfolding nth unfolding g by simp
        then show ?thesis using not_name_past [of "length ?n + 3" k "?n @ ?rest"] False k by simp
      qed
    next
      case False
      have "?rest \<noteq> []" using k by auto
      then have "?rest ! 0 \<in> set ''{[''"
        using False by (auto simp: print_dir_def print_range_def split: option.splits if_splits)
      then have "(?n @ ?rest) ! length ?n \<in> set ''{}[]''" using nth [of 0] by auto
      then show ?thesis using not_name_past [of "length ?n" k "?n @ ?rest"] k pos by simp
    qed
  next
    case True
    show ?thesis
    proof (cases "sel_dir p")
      case (Some d)
      then have d: "set d \<inter> set ''{}['' = {}" using ok by (simp add: parts_ok_def)
      define t where "t = print_range (sel_range p)"
      have s: "?n @ ?rest = CHR ''{'' # d @ CHR ''}'' # t" by (simp add: True Some print_dir_def t_def)
      show ?thesis
      proof (cases "k \<le> length d + 1")
        case le: True
        have "drop k (?n @ ?rest) = drop (k - 1) d @ CHR ''}'' # t"
          unfolding s using le k(1) by (cases k) auto
        moreover have "set (drop (k - 1) d) \<inter> set ''{}['' = {}" using d set_drop_subset [of "k - 1" d] by auto
        ultimately show ?thesis using match_rest_None_dir by simp
      next
        case False
        have "(?n @ ?rest) ! (length d + 1) = CHR ''}''" unfolding s by (simp add: nth_append)
        then show ?thesis using not_name_past [of "length d + 1" k "?n @ ?rest"] False k by simp
      qed
    next
      case None
      with True ok k obtain g where g: "sel_range p = Some (False, g)" "set g \<inter> set ''[]'' = {}"
        by (auto simp: parts_ok_def split: option.splits)
      have s: "?n @ ?rest = CHR ''['' # g @ '']''" by (simp add: True None g print_dir_def print_range_def)
      show ?thesis
      proof (cases "k \<le> length g + 1")
        case le: True
        have "drop k (?n @ ?rest) = drop (k - 1) g @ '']''"
          unfolding s using le k(1) by (cases k) auto
        moreover have "set (drop (k - 1) g) \<inter> set ''[]'' = {}" using g(2) set_drop_subset [of "k - 1" g] by auto
        ultimately show ?thesis using match_rest_None_range by simp
      next
        case False
        have "(?n @ ?rest) ! (length g + 1) = CHR '']''" unfolding s by (simp add: nth_append)
        then show ?thesis using not_name_past [of "length g + 1" k "?n @ ?rest"] False k by simp
      qed
    qed
  qed
  have "selector_captures (print_body p) = match_from (length ?n) (?n @ ?rest)"
    unfolding selector_captures_def body by (rule match_from_skip) (use skip in auto)
  also have "\<dots> = Some (if ?n = [] then None else Some ?n, sel_dir p,
      if sel_range p = None then None else Some (print_range (sel_range p)))"
  proof (cases "?n = []")
    case True
    then show ?thesis using rest by simp
  next
    case False
    then have "is_name (take (length ?n) (?n @ ?rest))" using is_name_plain [OF False name] by simp
    from match_from_hit [OF this] rest False show ?thesis by simp
  qed
  finally show ?thesis .
qed


lemma parse_body_printed:
  assumes ok: "parts_ok clean p"
  shows "parse_body clean (print_body p) base =
    Inr (base\<lparr>ts_git_range := map_option (\<lambda>(_, g). projr (parse_git_range g)) (sel_range p),
       ts_match_dependencies := (case sel_range p of Some (m, _) \<Rightarrow> m | None \<Rightarrow> False),
       ts_name_pattern := sel_name p, ts_parent_dir := map_option clean (sel_dir p)\<rparr>)"
proof -
  have name: "unwrap_or [] (if sel_name p = [] then None else Some (sel_name p)) = sel_name p"
    by (simp add: unwrap_or_def)
  have dir: "(case sel_dir p of None \<Rightarrow> Inr None
      | Some d \<Rightarrow> if d = [] then Inl EmptyPathSpecification
          else try_bind (anchored_try_from (clean d) (InvalidAnchoredPath d)) (\<lambda>x. Inr (Some x))) =
      Inr (map_option clean (sel_dir p))"
    using ok by (auto simp: parts_ok_def anchored_try_from_def split: option.splits)
  show ?thesis
  proof (cases "sel_range p")
    case None
    then show ?thesis unfolding parse_body_def captures_printed [OF ok] by (simp add: name dir)
  next
    case (Some mg)
    obtain m g where mg: "sel_range p = Some (m, g)" using Some by (cases mg) auto
    then obtain r where r: "parse_git_range g = Inr r" using ok by (auto simp: parts_ok_def)
    have pre: "m \<Longrightarrow> sel_name p \<noteq> [] \<or> sel_dir p \<noteq> None" using ok mg by (simp add: parts_ok_def)
    have strip: "strip_prefix ''...'' (print_range (Some (True, g))) = Some (''['' @ g @ '']'')"
      "strip_prefix ''...'' (print_range (Some (False, g))) = None"
      "butlast (tl (''['' @ g @ '']'')) = g" "print_range (Some (False, g)) = ''['' @ g @ '']''"
      by (simp_all add: print_range_def)
    show ?thesis
    proof (cases m)
      case True
      with mg pre have "sel_range p = Some (True, g)" "sel_name p \<noteq> [] \<or> sel_dir p \<noteq> None" by auto
      then show ?thesis unfolding parse_body_def captures_printed [OF ok]
        by (auto simp: name dir r strip(1) strip(3) [simplified] Let_def unwrap_or_def)
    next
      case False
      with mg have "sel_range p = Some (False, g)" by auto
      then show ?thesis unfolding parse_body_def captures_printed [OF ok]
        by (simp add: name dir r strip(2) strip(3) [simplified] strip(4) Let_def unwrap_or_def)
    qed
  qed
qed

lemma print_body_ends:
  assumes "parts_ok clean p"
  obtains c t u d where "print_body p = c # t" "c \<notin> set ''!.^''" "print_body p = u @ [d]" "d \<notin> set ''.^''"
proof -
  have ne: "print_body p \<noteq> []"
    using assms by (auto simp: parts_ok_def print_body_def print_dir_def print_range_def split: option.splits)
  have name: "hd (sel_name p) \<notin> set ''!.^''" "last (sel_name p) \<notin> set ''.^''" if "sel_name p \<noteq> []"
    using assms hd_in_set [OF that] last_in_set [OF that] unfolding parts_ok_def by auto
  have hd_ok: "hd (print_body p) \<notin> set ''!.^''"
    using assms name(1)
    by (cases "sel_name p = []"; cases "sel_dir p")
       (auto simp: parts_ok_def print_body_def print_dir_def print_range_def hd_append split: option.splits)
  have last_ok: "last (print_body p) \<notin> set ''.^''"
    using assms name(2)
    by (cases "sel_range p"; cases "sel_dir p")
       (auto simp: parts_ok_def print_body_def print_dir_def print_range_def)
  show thesis
    using that [of "hd (print_body p)" "tl (print_body p)" "butlast (print_body p)" "last (print_body p)"]
      ne hd_ok last_ok by simp
qed

lemma strip_dependents_printed:
  "c \<notin> set ''.^'' \<Longrightarrow>
    strip_dependents (print_dependents d @ c # t) = (d \<noteq> None, d = Some True, c # t)"
  by (auto simp: strip_dependents_def print_dependents_def split: option.splits)

lemma strip_dependencies_printed:
  "c \<notin> set ''.^'' \<Longrightarrow>
    strip_dependencies (u @ [c] @ print_dependencies d) = (d \<noteq> None, d = Some True, u @ [c])"
  by (auto simp: strip_dependencies_def print_dependencies_def strip_suffix_def split: option.splits)

text \<open>C13: a selector written from its parts (exclusion, dependents, name, directory, git range,
  dependencies, none of which contains the punctuation of the syntax) is parsed by
  \<open>TargetSelector::from_str\<close> back into exactly those parts.\<close>

theorem selector_parse_print:
  assumes "parts_ok clean p"
  shows "target_selector_from_str clean (print_selector p) = Inr (selector_of_parts clean p)"
proof -
  obtain c t u d where ct: "print_body p = c # t" "c \<notin> set ''!.^''" and ud: "print_body p = u @ [d]" "d \<notin> set ''.^''"
    using print_body_ends [OF assms] .
  let ?mid = "print_dependents (sel_dependents p) @ print_body p @ print_dependencies (sel_dependencies p)"
  have bang: "(case strip_prefix ''!'' (print_selector p) of Some r \<Rightarrow> (True, r) | None \<Rightarrow> (False, print_selector p)) =
      (sel_exclude p, ?mid)"
    using ct by (auto simp: print_selector_def print_dependents_def split: option.splits)
  have deps: "strip_dependencies ?mid = (sel_dependencies p \<noteq> None, sel_dependencies p = Some True,
      print_dependents (sel_dependents p) @ print_body p)"
    using strip_dependencies_printed [OF ud(2), of "print_dependents (sel_dependents p) @ u"]
    by (simp add: ud(1))
  have dependents: "strip_dependents (print_dependents (sel_dependents p) @ print_body p) =
      (sel_dependents p \<noteq> None, sel_dependents p = Some True, print_body p)"
    using strip_dependents_printed [of c "sel_dependents p" t] ct by simp
  show ?thesis
    unfolding target_selector_from_str_def bang Let_def prod.case deps dependents
      parse_body_printed [OF assms]
    by (simp add: selector_of_parts_def disj_commute)
qed

definition sample_parts :: selector_parts where
  "sample_parts = \<lparr>sel_exclude = True, sel_dependents = Some True, sel_name = ''ui-*'',
     sel_dir = Some ''packages/*'', sel_range = Some (True, ''main...HEAD''), sel_dependencies = Some False\<rparr>"

lemma sample_parts_ok: "parts_ok (\<lambda>s. s) sample_parts"
  by (simp add: parts_ok_def sample_parts_def is_absolute_def parse_git_range_def split_once_str.simps)

theorem selector_parse_print_witness:
  "parts_ok (\<lambda>s. s) sample_parts \<and>
   print_selector sample_parts = ''!...^ui-*{packages/*}...[main...HEAD]...'' \<and>
   target_selector_from_str (\<lambda>s. s) (print_selector sample_parts) = Inr (selector_of_parts (\<lambda>s. s) sample_parts)"
proof (intro conjI sample_parts_ok selector_parse_print [OF sample_parts_ok])
  show "print_selector sample_parts = ''!...^ui-*{packages/*}...[main...HEAD]...''"
    by (simp add: print_selector_def sample_parts_def print_dependents_def print_body_def print_dir_def
        print_range_def print_dependencies_def)
qed

end
