(* ===== verification/Package_Filter.thy ===== *)
theory Package_Filter
  imports Change_Mapper Target_Selector
begin

text \<open>
  Selecting the packages of a run: \<open>nrzrepo-lib/src/run/scope/filter.rs\<close>, \<open>simple_glob.rs\<close> and
  \<open>change_detector.rs\<close>. Hash maps and sets are lists, whose order stands for the iteration order.
  What the code calls outside the repository is in the records \<open>filter_env\<close> (regular expressions,
  globs, path cleaning, the file system, \<open>petgraph\<close>) and \<open>scm_env\<close> (git, parsing a previous
  lockfile). \<open>None\<close> is a panic, or the lack of fuel for a lockfile's closures.
\<close>

subsection \<open>Globs on names\<close>

datatype simple_glob = RegexGlob "string \<Rightarrow> bool" | StringGlob string | AnyGlob

definition replace_star :: "string \<Rightarrow> string" where
  "replace_star pattern = concat (map (\<lambda>c. if c = CHR ''*'' then ''.*'' else [c]) pattern)"

definition simple_glob_new :: "(string \<Rightarrow> (string, string \<Rightarrow> bool) result) \<Rightarrow> string \<Rightarrow> (string, simple_glob) result" where
  "simple_glob_new regex_new pattern =
     (if pattern = ''*'' then Inr AnyGlob
      else if CHR ''*'' \<in> set pattern
      then try_bind (regex_new (''^'' @ replace_star pattern @ ''$'')) (\<lambda>r. Inr (RegexGlob r))
      else Inr (StringGlob pattern))"

definition is_exact :: "simple_glob \<Rightarrow> bool" where
  "is_exact g = (case g of StringGlob _ \<Rightarrow> True | _ \<Rightarrow> False)"

definition glob_is_match :: "simple_glob \<Rightarrow> string \<Rightarrow> bool" where
  "glob_is_match g s = (case g of RegexGlob r \<Rightarrow> r s | StringGlob t \<Rightarrow> t = s | AnyGlob \<Rightarrow> True)"

definition any_glob_is_match :: "simple_glob list \<Rightarrow> string \<Rightarrow> bool" where
  "any_glob_is_match gs s = list_ex (\<lambda>g. glob_is_match g s) gs"

definition include_exclude_is_match :: "simple_glob list \<Rightarrow> simple_glob list \<Rightarrow> string \<Rightarrow> bool" where
  "include_exclude_is_match include exclude s = (any_glob_is_match include s \<and> \<not> any_glob_is_match exclude s)"

subsection \<open>Errors and environment\<close>

datatype resolution_error =
    MissingPackageInfo string
  | NoPackagesMatched
  | MultiplePackagesMatched
  | PackageNotInWorkspace
  | NoPackagesMatchedWithName string
  | ResolutionInvalidSelector selector_error
  | InvalidRegex string
  | InvalidGlob string
  | ScmError string
  | ChangeDetectError change_map_error
  | InvalidDirectoryGlob string string
  | DirectoryDoesNotExist string
  | GlobalDependenciesGlob string

type_synonym package_reasons = "(package_name, package_inclusion_reason) hash_map"

record filter_env =
  fe_clean :: "string \<Rightarrow> string"
  fe_regex :: "string \<Rightarrow> (string, string \<Rightarrow> bool) result"
  fe_glob :: "string \<Rightarrow> (string, string \<Rightarrow> bool) result"
  fe_glob_base :: "string \<Rightarrow> string"
  fe_exists :: "string \<Rightarrow> bool"
  fe_discover :: discover

record package_inference =
  inf_package_name :: "string option"
  inf_directory_root :: string

record filter_resolver =
  fr_pkg_graph :: package_graph
  fr_nrz_root :: string
  fr_inference :: "package_inference option"
  fr_changed :: "git_range \<Rightarrow> (resolution_error, package_reasons) result option"

subsection \<open>Inference from the directory\<close>

fun inference_loop ::
  "(string \<Rightarrow> string) \<Rightarrow> string \<Rightarrow> string \<Rightarrow> (package_name \<times> package_info) list \<Rightarrow> package_inference option option"
where
  "inference_loop clean nrz_root full_inference_path [] = Some None"
| "inference_loop clean nrz_root full_inference_path ((workspace_name, entry) # rest) =
     (let pkg_path = resolve_path nrz_root (package_path entry)
      in case path_contains clean pkg_path full_inference_path of
           None \<Rightarrow> None
         | Some below \<Rightarrow>
             if below \<and> path_components pkg_path \<noteq> path_components nrz_root
             then Some (Some \<lparr>inf_package_name = Some (package_name_as_str workspace_name),
                              inf_directory_root = package_path entry\<rparr>)
             else
               (case path_contains clean full_inference_path pkg_path of
                  None \<Rightarrow> None
                | Some between \<Rightarrow>
                    if between then Some None
                    else inference_loop clean nrz_root full_inference_path rest))"

definition inference_calculate ::
  "(string \<Rightarrow> string) \<Rightarrow> string \<Rightarrow> string \<Rightarrow> package_graph \<Rightarrow> package_inference option"
where
  "inference_calculate clean nrz_root pkg_inference_path pg =
     map_option (\<lambda>found. case found of
         Some i \<Rightarrow> i
       | None \<Rightarrow> \<lparr>inf_package_name = None, inf_directory_root = pkg_inference_path\<rparr>)
       (inference_loop clean nrz_root (resolve_path nrz_root pkg_inference_path) (pg_packages pg))"

definition inference_apply :: "(string \<Rightarrow> string) \<Rightarrow> package_inference \<Rightarrow> target_selector \<Rightarrow> target_selector" where
  "inference_apply clean inference sel =
     (if ts_name_pattern sel \<noteq> [] then sel
      else
        (let sel1 = (case inf_package_name inference of Some name \<Rightarrow> sel\<lparr>ts_name_pattern := name\<rparr> | None \<Rightarrow> sel)
         in case ts_parent_dir sel1 of
              Some parent_dir \<Rightarrow> sel1\<lparr>ts_parent_dir := Some (clean (path_join (inf_directory_root inference) parent_dir))\<rparr>
            | None \<Rightarrow>
                if inf_package_name inference = None
                then sel1\<lparr>ts_parent_dir := Some (path_join (inf_directory_root inference) ''**'')\<rparr>
                else sel1))"

definition apply_inference :: "(string \<Rightarrow> string) \<Rightarrow> filter_resolver \<Rightarrow> target_selector list \<Rightarrow> target_selector list" where
  "apply_inference clean fr selectors =
     (case fr_inference fr of
        None \<Rightarrow> selectors
      | Some inference \<Rightarrow>
          map (inference_apply clean inference) (if selectors = [] then [target_selector_default] else selectors))"

subsection \<open>One selector\<close>

definition filter_all_packages :: "filter_resolver \<Rightarrow> package_name list" where
  "filter_all_packages fr = List.insert RootPkg (map fst (pg_packages (fr_pkg_graph fr)))"

definition match_package_names ::
  "filter_env \<Rightarrow> string \<Rightarrow> package_name list \<Rightarrow> package_reasons \<Rightarrow> (resolution_error, package_reasons) result"
where
  "match_package_names env name_pattern all_packages packages =
     (case simple_glob_new (fe_regex env) name_pattern of
        Inl e \<Rightarrow> Inl (InvalidRegex e)
      | Inr matcher \<Rightarrow>
          (let matched_packages = filter (\<lambda>e. glob_is_match matcher (package_name_as_str e)) all_packages
           in if is_exact matcher \<and> matched_packages = [] then Inl (NoPackagesMatchedWithName name_pattern)
              else Inr (filter (\<lambda>(pkg, _). pkg \<in> set matched_packages) packages)))"

text \<open>The directory filter of a selector: its glob, checked to name an existing directory.\<close>

definition parent_dir_globber ::
  "filter_env \<Rightarrow> filter_resolver \<Rightarrow> target_selector \<Rightarrow> (resolution_error, (string \<Rightarrow> bool) option) result"
where
  "parent_dir_globber env fr sel =
     (case ts_parent_dir sel of
        None \<Rightarrow> Inr None
      | Some path \<Rightarrow>
          (case fe_glob env path of
             Inl e \<Rightarrow> Inl (InvalidDirectoryGlob path e)
           | Inr g \<Rightarrow>
               (let p = resolve_path (fr_nrz_root fr) (fe_glob_base env path)
                in if \<not> fe_exists env p then Inl (DirectoryDoesNotExist p) else Inr (Some g))))"

fun keep_changed ::
  "package_graph \<Rightarrow> (string \<Rightarrow> bool) option \<Rightarrow> package_reasons \<Rightarrow> package_reasons \<Rightarrow> (resolution_error, package_reasons) result"
where
  "keep_changed pg globber [] entry_packages = Inr entry_packages"
| "keep_changed pg globber ((package, reason) # rest) entry_packages =
     (case globber of
        None \<Rightarrow> keep_changed pg globber rest (hm_insert package reason entry_packages)
      | Some g \<Rightarrow>
          if package = RootPkg then
            keep_changed pg globber rest (if g ''.'' then hm_insert package reason entry_packages else entry_packages)
          else
            (case hm_get (pg_packages pg) package of
               None \<Rightarrow> Inl (MissingPackageInfo (package_name_as_str package))
             | Some info \<Rightarrow>
                 keep_changed pg globber rest
                   (if g (package_path info) then hm_insert package reason entry_packages else entry_packages)))"

text \<open>The packages a selector starts from, and whether anything but a name was asked for.\<close>

definition node_entries ::
  "filter_env \<Rightarrow> filter_resolver \<Rightarrow> target_selector \<Rightarrow> (string \<Rightarrow> bool) option \<Rightarrow>
    (resolution_error, package_reasons \<times> bool) result option"
where
  "node_entries env fr sel globber =
     (case ts_git_range sel of
        Some git_range \<Rightarrow>
          (case fr_changed fr git_range of
             None \<Rightarrow> None
           | Some r \<Rightarrow>
               Some (try_bind r (\<lambda>changed. try_bind (keep_changed (fr_pkg_graph fr) globber changed []) (\<lambda>m. Inr (m, True)))))
      | None \<Rightarrow>
          Some (Inr (case (ts_parent_dir sel, globber) of
             (Some parent_dir, Some g) \<Rightarrow>
               (if path_components parent_dir = path_components ''.''
                then ([(RootPkg, InFilteredDirectory parent_dir)], True)
                else (hm_collect (map (\<lambda>(name, _). (name, InFilteredDirectory parent_dir))
                        (filter (\<lambda>(_, info). g (package_path info)) (pg_packages (fr_pkg_graph fr)))), True))
           | _ \<Rightarrow> ([], False))))"

definition filter_nodes_with_selector ::
  "filter_env \<Rightarrow> filter_resolver \<Rightarrow> target_selector \<Rightarrow> (resolution_error, package_reasons) result option"
where
  "filter_nodes_with_selector env fr sel =
     (case parent_dir_globber env fr sel of
        Inl e \<Rightarrow> Some (Inl e)
      | Inr globber \<Rightarrow>
          map_option (\<lambda>r. try_bind r (\<lambda>(entry_packages, selector_valid).
              if ts_name_pattern sel \<noteq> [] then
                match_package_names env (ts_name_pattern sel) (filter_all_packages fr)
                  (if selector_valid then entry_packages
                   else map (\<lambda>name. (name, IncludedByFilter [ts_raw sel])) (filter_all_packages fr))
              else if \<not> selector_valid
              then Inl (ResolutionInvalidSelector (InvalidSelector (ts_raw sel)))
              else Inr entry_packages))
            (node_entries env fr sel globber))"

fun subtree_entries ::
  "filter_env \<Rightarrow> target_selector \<Rightarrow> (package_name \<times> package_info) list \<Rightarrow> package_reasons \<Rightarrow> (resolution_error, package_reasons) result"
where
  "subtree_entries env sel [] entry_packages = Inr entry_packages"
| "subtree_entries env sel ((name, info) # rest) entry_packages =
     (case ts_parent_dir sel of
        Some parent_dir \<Rightarrow>
          (case fe_glob env parent_dir of
             Inl e \<Rightarrow> Inl (InvalidGlob e)
           | Inr g \<Rightarrow>
               subtree_entries env sel rest
                 (if g (package_path info)
                  then hm_insert name (InFilteredDirectory parent_dir) entry_packages else entry_packages))
      | None \<Rightarrow> subtree_entries env sel rest (hm_insert name (IncludedByFilter [ts_raw sel]) entry_packages))"

text \<open>The inner loop over the changed packages: the first that is the package itself or a dependency of it.\<close>

fun subtree_hit :: "bool \<Rightarrow> package_name \<Rightarrow> package_node set \<Rightarrow> package_name list \<Rightarrow> bool option" where
  "subtree_hit exclude_self package dependencies [] = None"
| "subtree_hit exclude_self package dependencies (changed # rest) =
     (if \<not> exclude_self \<and> package = changed then Some False
      else if WorkspaceNode changed \<in> dependencies then Some True
      else subtree_hit exclude_self package dependencies rest)"

fun subtree_loop ::
  "discover \<Rightarrow> package_graph \<Rightarrow> bool \<Rightarrow> package_name list \<Rightarrow> package_reasons \<Rightarrow> package_name list \<Rightarrow> package_reasons \<Rightarrow>
    package_reasons option"
where
  "subtree_loop discover pg exclude_self changed [] matched roots = Some roots"
| "subtree_loop discover pg exclude_self changed ((package, reason) # rest) matched roots =
     (if package \<in> set matched
      then subtree_loop discover pg exclude_self changed rest matched (hm_insert package reason roots)
      else
        (case pg_dependencies discover pg (WorkspaceNode package) of
           None \<Rightarrow> None
         | Some dependencies \<Rightarrow>
             (case subtree_hit exclude_self package dependencies changed of
                None \<Rightarrow> subtree_loop discover pg exclude_self changed rest matched roots
              | Some is_dependency \<Rightarrow>
                  subtree_loop discover pg exclude_self changed rest
                    (if is_dependency then package # matched else matched)
                    (hm_insert package reason roots))))"

definition filter_subtrees_with_selector ::
  "filter_env \<Rightarrow> filter_resolver \<Rightarrow> target_selector \<Rightarrow> (resolution_error, package_reasons) result option"
where
  "filter_subtrees_with_selector env fr sel =
     (case try_bind (subtree_entries env sel (pg_packages (fr_pkg_graph fr)) []) (\<lambda>entry_packages.
             if ts_name_pattern sel \<noteq> []
             then match_package_names env (ts_name_pattern sel) (filter_all_packages fr) entry_packages
             else Inr entry_packages) of
        Inl e \<Rightarrow> Some (Inl e)
      | Inr filtered_entry_packages \<Rightarrow>
          (case (case ts_git_range sel of Some git_range \<Rightarrow> fr_changed fr git_range | None \<Rightarrow> Some (Inr [])) of
             None \<Rightarrow> None
           | Some (Inl e) \<Rightarrow> Some (Inl e)
           | Some (Inr changed) \<Rightarrow>
               map_option Inr (subtree_loop (fe_discover env) (fr_pkg_graph fr) (ts_exclude_self sel)
                 (map fst changed) filtered_entry_packages [] [])))"

definition filter_graph_with_selector ::
  "filter_env \<Rightarrow> filter_resolver \<Rightarrow> target_selector \<Rightarrow> (resolution_error, package_reasons) result option"
where
  "filter_graph_with_selector env fr sel =
     (if ts_match_dependencies sel then filter_subtrees_with_selector env fr sel
      else filter_nodes_with_selector env fr sel)"

subsection \<open>All selectors\<close>

record walked =
  wk_dependencies :: package_reasons
  wk_dependents :: package_reasons
  wk_dependent_dependencies :: package_reasons
  wk_cherry_picked :: package_reasons

text \<open>A set of nodes in the order of the graph, without the root node.\<close>

definition nodes_in :: "package_graph \<Rightarrow> package_node set \<Rightarrow> package_node list" where
  "nodes_in pg S = filter (\<lambda>n. n \<in> S) (g_nodes (pg_graph pg))"

definition workspace_names :: "package_graph \<Rightarrow> package_node set \<Rightarrow> package_name list" where
  "workspace_names pg S = map as_package_name (filter (\<lambda>n. n \<noteq> RootNode) (nodes_in pg S))"

fun walk_dependents ::
  "discover \<Rightarrow> package_graph \<Rightarrow> bool \<Rightarrow> package_name \<Rightarrow> package_name list \<Rightarrow> walked \<Rightarrow> walked option"
where
  "walk_dependents discover pg include_dependencies package [] w = Some w"
| "walk_dependents discover pg include_dependencies package (dependent # rest) w =
     (let w1 = w\<lparr>wk_dependents := hm_insert dependent (DependencyChanged package) (wk_dependents w)\<rparr>
      in if \<not> include_dependencies then walk_dependents discover pg include_dependencies package rest w1
         else
           (case pg_dependencies discover pg (WorkspaceNode dependent) of
              None \<Rightarrow> None
            | Some deps \<Rightarrow>
                walk_dependents discover pg include_dependencies package rest
                  (w1\<lparr>wk_dependent_dependencies := merge_changed_packages (wk_dependent_dependencies w1)
                       (map (\<lambda>n. (n, DependencyChanged package)) (workspace_names pg deps))\<rparr>)))"

definition walk_package ::
  "discover \<Rightarrow> package_graph \<Rightarrow> target_selector \<Rightarrow> package_name \<Rightarrow> package_inclusion_reason \<Rightarrow> walked \<Rightarrow> walked option"
where
  "walk_package discover pg sel package reason w0 =
     (case (if ts_include_dependencies sel
            then map_option (\<lambda>deps. w0\<lparr>wk_dependencies := merge_changed_packages (wk_dependencies w0)
                     (map (\<lambda>n. (n, DependentChanged package)) (workspace_names pg deps))\<rparr>)
                   (pg_dependencies discover pg (WorkspaceNode package))
            else Some w0) of
        None \<Rightarrow> None
      | Some w1 \<Rightarrow>
          (case (if ts_include_dependents sel
                 then (case pg_ancestors discover pg (WorkspaceNode package) of
                         None \<Rightarrow> None
                       | Some dependents \<Rightarrow>
                           walk_dependents discover pg (ts_include_dependencies sel) package
                             (map as_package_name (nodes_in pg dependents)) w1)
                 else Some w1) of
             None \<Rightarrow> None
           | Some w2 \<Rightarrow>
               Some (if (ts_include_dependents sel \<or> ts_include_dependencies sel) \<and> \<not> ts_exclude_self sel
                     then w2\<lparr>wk_dependencies := hm_insert package reason (wk_dependencies w2)\<rparr>
                     else if \<not> ts_include_dependencies sel \<and> \<not> ts_include_dependents sel
                     then w2\<lparr>wk_cherry_picked := hm_insert package reason (wk_cherry_picked w2)\<rparr>
                     else w2)))"

fun walk_packages ::
  "discover \<Rightarrow> package_graph \<Rightarrow> target_selector \<Rightarrow> package_reasons \<Rightarrow> walked \<Rightarrow> walked option"
where
  "walk_packages discover pg sel [] w = Some w"
| "walk_packages discover pg sel ((package, reason) # rest) w =
     (case walk_package discover pg sel package reason w of
        None \<Rightarrow> None
      | Some w' \<Rightarrow> walk_packages discover pg sel rest w')"

fun walk_selectors ::
  "filter_env \<Rightarrow> filter_resolver \<Rightarrow> target_selector list \<Rightarrow> walked \<Rightarrow> (resolution_error, walked) result option"
where
  "walk_selectors env fr [] w = Some (Inr w)"
| "walk_selectors env fr (sel # rest) w =
     (case filter_graph_with_selector env fr sel of
        None \<Rightarrow> None
      | Some (Inl e) \<Rightarrow> Some (Inl e)
      | Some (Inr selector_packages) \<Rightarrow>
          (case walk_packages (fe_discover env) (fr_pkg_graph fr) sel selector_packages w of
             None \<Rightarrow> None
           | Some w' \<Rightarrow> walk_selectors env fr rest w'))"

definition filter_graph_with_selectors ::
  "filter_env \<Rightarrow> filter_resolver \<Rightarrow> target_selector list \<Rightarrow> (resolution_error, package_reasons) result option"
where
  "filter_graph_with_selectors env fr selectors =
     map_option (\<lambda>r. try_bind r (\<lambda>w.
         Inr (merge_changed_packages (merge_changed_packages (merge_changed_packages (merge_changed_packages []
           (wk_dependencies w)) (wk_dependents w)) (wk_dependent_dependencies w)) (wk_cherry_picked w))))
       (walk_selectors env fr selectors
         \<lparr>wk_dependencies = [], wk_dependents = [], wk_dependent_dependencies = [], wk_cherry_picked = []\<rparr>)"

definition filter_graph ::
  "filter_env \<Rightarrow> filter_resolver \<Rightarrow> target_selector list \<Rightarrow> (resolution_error, package_reasons) result option"
where
  "filter_graph env fr selectors =
     (let include_selectors = filter (\<lambda>t. \<not> ts_exclude t) selectors;
          exclude_selectors = filter ts_exclude selectors
      in case (if include_selectors \<noteq> [] then filter_graph_with_selectors env fr include_selectors
               else Some (Inr (map (\<lambda>(name, _). (name, IncludedByFilter (map ts_raw exclude_selectors)))
                      (filter (\<lambda>(name, _). name \<noteq> RootPkg) (pg_packages (fr_pkg_graph fr)))))) of
           None \<Rightarrow> None
         | Some (Inl e) \<Rightarrow> Some (Inl e)
         | Some (Inr include) \<Rightarrow>
             map_option (\<lambda>r. try_bind r (\<lambda>exclude.
                 Inr (filter (\<lambda>(i, _). i \<notin> fst ` set exclude) include)))
               (filter_graph_with_selectors env fr exclude_selectors))"

definition get_filtered_packages ::
  "filter_env \<Rightarrow> filter_resolver \<Rightarrow> target_selector list \<Rightarrow> (resolution_error, package_reasons) result option"
where
  "get_filtered_packages env fr selectors =
     (let all_selectors = filter (\<lambda>t. \<not> ts_follow_prod_deps_only t) (apply_inference (fe_clean env) fr selectors)
      in if all_selectors \<noteq> [] then filter_graph env fr all_selectors else Some (Inr []))"

definition affected_selector :: "string option \<times> string option \<Rightarrow> target_selector" where
  "affected_selector refs = target_selector_default\<lparr>
     ts_git_range := Some \<lparr>gr_from_ref = fst refs, gr_to_ref = snd refs, gr_include_uncommitted = True,
       gr_allow_unknown_objects = True, gr_merge_base = True\<rparr>,
     ts_include_dependents := True\<rparr>"

definition get_packages_from_patterns ::
  "filter_env \<Rightarrow> filter_resolver \<Rightarrow> (string option \<times> string option) option \<Rightarrow> string list \<Rightarrow>
    (resolution_error, package_reasons) result option"
where
  "get_packages_from_patterns env fr affected patterns =
     (case try_map (target_selector_from_str (fe_clean env)) patterns of
        Inl e \<Rightarrow> Some (Inl (ResolutionInvalidSelector e))
      | Inr selectors \<Rightarrow>
          get_filtered_packages env fr
            (selectors @ (case affected of Some refs \<Rightarrow> [affected_selector refs] | None \<Rightarrow> [])))"

definition filter_resolve ::
  "filter_env \<Rightarrow> filter_resolver \<Rightarrow> (string option \<times> string option) option \<Rightarrow> string list \<Rightarrow>
    (resolution_error, package_reasons \<times> bool) result option"
where
  "filter_resolve env fr affected patterns =
     (let is_all_packages = (patterns = [] \<and> fr_inference fr = None \<and> affected = None)
      in if is_all_packages
         then Some (Inr (map (\<lambda>(name, _). (name, IncludedByFilter patterns))
                (filter (\<lambda>(name, _). name \<noteq> RootPkg) (pg_packages (fr_pkg_graph fr))), True))
         else map_option (\<lambda>r. try_bind r (\<lambda>m. Inr (m, False))) (get_packages_from_patterns env fr affected patterns))"

subsection \<open>The change detector\<close>

text \<open>A previous lockfile: its lookups, and \<open>current.global_change(previous)\<close>.\<close>

record previous_lockfile =
  pl_resolve :: resolver
  pl_all_deps :: dep_lookup
  pl_global_change :: bool

text \<open>
  \<open>se_changed_files\<close> is \<open>SCM::changed_files\<close>, whose inner error is an invalid range, and
  \<open>se_previous_content\<close> is \<open>SCM::previous_content\<close>, whose errors the code ignores.
\<close>

record scm_env =
  se_changed_files :: "git_range \<Rightarrow> (string, (string option \<times> string option, string list) result) result"
  se_previous_content :: "string option \<Rightarrow> string \<Rightarrow> string option"
  se_parse_lockfile :: "string \<Rightarrow> (string, previous_lockfile) result"
  se_package_manager :: package_manager
  se_has_lockfile :: bool
  se_in_global_deps :: "string \<Rightarrow> bool"
  se_ignored :: "(string, string \<Rightarrow> bool) result"
  se_fuel :: nat

definition get_lockfile_contents ::
  "scm_env \<Rightarrow> string \<Rightarrow> string option \<Rightarrow> string list \<Rightarrow> string option option option"
where
  "get_lockfile_contents senv nrz_root from_ref changed_files =
     (let path = lockfile_path (se_package_manager senv) nrz_root
      in map_option (\<lambda>changed. if \<not> changed then None else Some (se_previous_content senv from_ref path))
           (lockfile_changed nrz_root changed_files path))"

definition get_changed_packages_from_lockfile ::
  "scm_env \<Rightarrow> package_graph \<Rightarrow> string \<Rightarrow> (change_map_error, external_dependency_change list) result option"
where
  "get_changed_packages_from_lockfile senv pg content =
     (case se_parse_lockfile senv content of
        Inl e \<Rightarrow> Some (Inl (PackageManagerError e))
      | Inr previous \<Rightarrow>
          map_option (map_sum changed_packages_error_into id)
            (changed_packages_from_lockfile (pl_resolve previous) (pl_all_deps previous) (se_fuel senv)
              (se_has_lockfile senv) (pl_global_change previous) pg))"

text \<open>
  \<open>ScopeChangeDetector::changed_packages\<close>. The comparison of lockfiles is computed before the
  change mapper asks for it, which is seen only when its fuel does not suffice.
\<close>

definition scope_changed_packages ::
  "(string \<Rightarrow> string) \<Rightarrow> discover \<Rightarrow> scm_env \<Rightarrow> string \<Rightarrow> package_graph \<Rightarrow> git_range \<Rightarrow>
    (resolution_error, package_reasons) result option"
where
  "scope_changed_packages clean discover senv nrz_root pg git_range =
     (let all = (\<lambda>reason. map (\<lambda>(name, _). (name, AllReason reason)) (pg_packages pg))
      in case se_changed_files senv git_range of
           Inl e \<Rightarrow> Some (Inl (ScmError e))
         | Inr (Inl (from_ref, to_ref)) \<Rightarrow> Some (Inr (all (GitRefNotFound from_ref to_ref)))
         | Inr (Inr changed_files) \<Rightarrow>
             (case (get_lockfile_contents senv nrz_root (gr_from_ref git_range) changed_files,
                    root_internal_package_dependencies discover pg) of
                (Some lockfile_contents, Some roots) \<Rightarrow>
                  (case (case lockfile_contents of
                           Some (Some content) \<Rightarrow> get_changed_packages_from_lockfile senv pg content
                         | _ \<Rightarrow> Some (Inr [])) of
                     None \<Rightarrow> None
                   | Some changes \<Rightarrow>
                       Some (case changed_packages (se_ignored senv)
                                    (global_deps_detect_package clean (se_in_global_deps senv) pg) roots
                                    (\<lambda>_. changes) changed_files lockfile_contents of
                               Inl e \<Rightarrow> Inl (ChangeDetectError e)
                             | Inr (AllChanged reason) \<Rightarrow> Inr (all reason)
                             | Inr (SomeChanged packages) \<Rightarrow>
                                 Inr (hm_collect (map (\<lambda>(p, reason). (wp_name p, reason)) packages))))
              | _ \<Rightarrow> None))"

subsection \<open>What selectors select\<close>

text \<open>
  \<open>needs_package pg p q\<close>: \<open>p\<close> depends on \<open>q\<close>, where what the root package depends on counts as a
  dependency of every package. \<open>dependents_of\<close> are the packages above \<open>p\<close>, all of them when the
  root package depends on \<open>p\<close>.
\<close>

definition needs_package :: "package_graph \<Rightarrow> package_name \<Rightarrow> package_name \<Rightarrow> bool" where
  "needs_package pg p q \<longleftrightarrow> q \<noteq> p \<and>
     (depends_on pg (WorkspaceNode p) (WorkspaceNode q) \<or>
      q \<noteq> RootPkg \<and> depends_on pg root_package (WorkspaceNode q))"

definition dependents_of :: "package_graph \<Rightarrow> package_name \<Rightarrow> package_name set" where
  "dependents_of pg p = as_package_name `
     (if p \<noteq> RootPkg \<and> depends_on pg root_package (WorkspaceNode p) then set (g_nodes (pg_graph pg))
      else {m. depends_on pg m (WorkspaceNode p)} - {WorkspaceNode p})"

definition selected :: "package_graph \<Rightarrow> target_selector \<Rightarrow> package_name \<Rightarrow> package_name set" where
  "selected pg sel p =
     (if ts_include_dependencies sel then {q. needs_package pg p q} else {}) \<union>
     (if ts_include_dependents sel then dependents_of pg p else {}) \<union>
     (if ts_include_dependencies sel \<and> ts_include_dependents sel
      then {q. \<exists>d \<in> dependents_of pg p. needs_package pg d q} else {}) \<union>
     (if ts_exclude_self sel \<and> (ts_include_dependencies sel \<or> ts_include_dependents sel) then {} else {p})"

definition matches :: "filter_env \<Rightarrow> filter_resolver \<Rightarrow> target_selector \<Rightarrow> package_name set" where
  "matches env fr sel =
     (case filter_graph_with_selector env fr sel of Some (Inr m) \<Rightarrow> fst ` set m | _ \<Rightarrow> {})"

definition selection :: "filter_env \<Rightarrow> filter_resolver \<Rightarrow> target_selector list \<Rightarrow> package_name set" where
  "selection env fr sels = (\<Union>sel \<in> set sels. \<Union>p \<in> matches env fr sel. selected (fr_pkg_graph fr) sel p)"

definition walked_names :: "walked \<Rightarrow> package_name set" where
  "walked_names w = fst ` set (wk_dependencies w) \<union> fst ` set (wk_dependents w) \<union>
     fst ` set (wk_dependent_dependencies w) \<union> fst ` set (wk_cherry_picked w)"

lemma depends_on_node2: "depends_on pg m n \<Longrightarrow> n \<in> set (g_nodes (pg_graph pg))"
  by (auto simp: depends_on_def weight_def)

lemma as_package_name_simps [simp]: "as_package_name (WorkspaceNode p) = p" "as_package_name RootNode = RootPkg"
  by (simp_all add: as_package_name_def)

lemma not_RootNode: "n \<noteq> RootNode \<longleftrightarrow> (\<exists>p. n = WorkspaceNode p)"
  by (cases n) auto

lemma workspace_names_set:
  "set (workspace_names pg S) = {q. WorkspaceNode q \<in> S \<and> WorkspaceNode q \<in> set (g_nodes (pg_graph pg))}"
proof -
  have "q \<in> set (workspace_names pg S) \<longleftrightarrow> WorkspaceNode q \<in> S \<and> WorkspaceNode q \<in> set (g_nodes (pg_graph pg))" for q
    by (force simp: workspace_names_def nodes_in_def not_RootNode)
  then show ?thesis by blast
qed

lemma workspace_dependencies:
  assumes "package_graph_ok pg" and "discover_spec discover"
  shows "\<exists>deps. pg_dependencies discover pg (WorkspaceNode p) = Some deps \<and>
     set (workspace_names pg deps) = {q. needs_package pg p q}"
proof -
  have "set (workspace_names pg (({m. depends_on pg (WorkspaceNode p) m} \<union>
      ({m. depends_on pg root_package m} - {root_package})) - {WorkspaceNode p})) = {q. needs_package pg p q}"
    unfolding workspace_names_set by (auto simp: needs_package_def dest: depends_on_node2)
  then show ?thesis unfolding pg_dependencies_eq [OF assms] by blast
qed

lemma workspace_ancestors:
  assumes "package_graph_ok pg" and "discover_spec discover"
  shows "\<exists>ancs. pg_ancestors discover pg (WorkspaceNode p) = Some ancs \<and>
     set (map as_package_name (nodes_in pg ancs)) = dependents_of pg p"
proof -
  have "{n \<in> set (g_nodes (pg_graph pg)). depends_on pg n (WorkspaceNode p) \<and> n \<noteq> WorkspaceNode p} =
      {m. depends_on pg m (WorkspaceNode p)} - {WorkspaceNode p}"
    using depends_on_node by blast
  then show ?thesis unfolding pg_ancestors_eq [OF assms]
    by (simp add: dependents_of_def nodes_in_def)
qed

lemma walk_dependents_names:
  assumes "package_graph_ok pg" and "discover_spec discover"
  shows "\<exists>w'. walk_dependents discover pg both p ds w = Some w' \<and>
    walked_names w' = walked_names w \<union> set ds \<union> (if both then {q. \<exists>x \<in> set ds. needs_package pg x q} else {})"
proof (induction ds arbitrary: w)
  case (Cons x ds)
  obtain deps where deps: "pg_dependencies discover pg (WorkspaceNode x) = Some deps"
    "set (workspace_names pg deps) = {q. needs_package pg x q}"
    using workspace_dependencies [OF assms, of x] by blast
  define w1 where "w1 = w\<lparr>wk_dependents := hm_insert x (DependencyChanged p) (wk_dependents w)\<rparr>"
  define w2 where "w2 = (if both then w1\<lparr>wk_dependent_dependencies := merge_changed_packages (wk_dependent_dependencies w1)
      (map (\<lambda>n. (n, DependencyChanged p)) (workspace_names pg deps))\<rparr> else w1)"
  have "walked_names w2 = walked_names w \<union> {x} \<union> (if both then {q. needs_package pg x q} else {})"
    using deps(2) by (auto simp: w2_def w1_def walked_names_def merge_changed_packages_keys image_image)
  moreover have "walk_dependents discover pg both p (x # ds) w = walk_dependents discover pg both p ds w2"
    by (simp add: deps(1) w1_def w2_def Let_def)
  ultimately show ?case using Cons [of w2] by auto
qed (simp add: walked_names_def)

lemma walk_package_names:
  assumes "package_graph_ok pg" and "discover_spec discover"
  shows "\<exists>w'. walk_package discover pg sel p reason w = Some w' \<and>
    walked_names w' = walked_names w \<union> selected pg sel p"
proof -
  obtain deps where deps: "pg_dependencies discover pg (WorkspaceNode p) = Some deps"
    "set (workspace_names pg deps) = {q. needs_package pg p q}"
    using workspace_dependencies [OF assms, of p] by blast
  obtain ancs where ancs: "pg_ancestors discover pg (WorkspaceNode p) = Some ancs"
    "set (map as_package_name (nodes_in pg ancs)) = dependents_of pg p"
    using workspace_ancestors [OF assms, of p] by blast
  define w1 where "w1 = (if ts_include_dependencies sel
    then w\<lparr>wk_dependencies := merge_changed_packages (wk_dependencies w)
      (map (\<lambda>n. (n, DependentChanged p)) (workspace_names pg deps))\<rparr> else w)"
  have w1: "walked_names w1 = walked_names w \<union> (if ts_include_dependencies sel then {q. needs_package pg p q} else {})"
    using deps(2) by (auto simp: w1_def walked_names_def merge_changed_packages_keys image_image)
  obtain w2 where w2: "(if ts_include_dependents sel then walk_dependents discover pg (ts_include_dependencies sel) p
      (map as_package_name (nodes_in pg ancs)) w1 else Some w1) = Some w2"
    "walked_names w2 = walked_names w1 \<union> (if ts_include_dependents sel then dependents_of pg p \<union>
       (if ts_include_dependencies sel then {q. \<exists>d \<in> dependents_of pg p. needs_package pg d q} else {}) else {})"
    using walk_dependents_names [OF assms, of "ts_include_dependencies sel" p "map as_package_name (nodes_in pg ancs)" w1]
    unfolding ancs(2) by (cases "ts_include_dependents sel") auto
  define w3 where "w3 = (if (ts_include_dependents sel \<or> ts_include_dependencies sel) \<and> \<not> ts_exclude_self sel
     then w2\<lparr>wk_dependencies := hm_insert p reason (wk_dependencies w2)\<rparr>
     else if \<not> ts_include_dependencies sel \<and> \<not> ts_include_dependents sel
     then w2\<lparr>wk_cherry_picked := hm_insert p reason (wk_cherry_picked w2)\<rparr> else w2)"
  have "walked_names w3 = walked_names w2 \<union>
      (if ts_exclude_self sel \<and> (ts_include_dependencies sel \<or> ts_include_dependents sel) then {} else {p})"
    by (auto simp: w3_def walked_names_def)
  then have "walked_names w3 = walked_names w \<union> selected pg sel p"
    unfolding w2(2) w1 selected_def by auto
  moreover have "walk_package discover pg sel p reason w = Some w3"
    using w2(1) unfolding walk_package_def w3_def w1_def by (cases "ts_include_dependencies sel") (auto simp: deps(1) ancs(1) split: if_splits)
  ultimately show ?thesis by blast
qed

lemma walk_packages_names:
  assumes "package_graph_ok pg" and "discover_spec discover"
  shows "\<exists>w'. walk_packages discover pg sel ps w = Some w' \<and>
    walked_names w' = walked_names w \<union> (\<Union>p \<in> fst ` set ps. selected pg sel p)"
proof (induction ps arbitrary: w)
  case (Cons pr ps)
  obtain p reason where pr: "pr = (p, reason)" by (cases pr)
  obtain w1 where w1: "walk_package discover pg sel p reason w = Some w1"
    "walked_names w1 = walked_names w \<union> selected pg sel p"
    using walk_package_names [OF assms, of sel p reason w] by blast
  then show ?case using Cons [of w1] by (auto simp: pr)
qed simp

text \<open>Every selector of a list matches without an error.\<close>

definition all_match :: "filter_env \<Rightarrow> filter_resolver \<Rightarrow> target_selector list \<Rightarrow> bool" where
  "all_match env fr sels \<longleftrightarrow> list_all (\<lambda>sel. \<exists>m. filter_graph_with_selector env fr sel = Some (Inr m)) sels"

lemma walk_selectors_names:
  assumes "package_graph_ok (fr_pkg_graph fr)" and "discover_spec (fe_discover env)" and "all_match env fr sels"
  shows "\<exists>w'. walk_selectors env fr sels w = Some (Inr w') \<and>
    walked_names w' = walked_names w \<union> selection env fr sels"
  using assms(3)
proof (induction sels arbitrary: w)
  case (Cons sel sels)
  then obtain m where m: "filter_graph_with_selector env fr sel = Some (Inr m)" by (auto simp: all_match_def)
  obtain w1 where w1: "walk_packages (fe_discover env) (fr_pkg_graph fr) sel m w = Some w1"
    "walked_names w1 = walked_names w \<union> (\<Union>p \<in> fst ` set m. selected (fr_pkg_graph fr) sel p)"
    using walk_packages_names [OF assms(1,2), of sel m w] by blast
  have "all_match env fr sels" using Cons.prems by (simp add: all_match_def)
  then obtain w2 where "walk_selectors env fr sels w1 = Some (Inr w2)"
    "walked_names w2 = walked_names w1 \<union> selection env fr sels" using Cons.IH [of w1] by blast
  then show ?case using w1 by (auto simp: m selection_def matches_def)
qed (simp add: selection_def)

lemma filter_graph_with_selectors_names:
  assumes "package_graph_ok (fr_pkg_graph fr)" and "discover_spec (fe_discover env)" and "all_match env fr sels"
  shows "\<exists>m. filter_graph_with_selectors env fr sels = Some (Inr m) \<and> fst ` set m = selection env fr sels"
proof -
  define w0 where "w0 = \<lparr>wk_dependencies = [], wk_dependents = [], wk_dependent_dependencies = [], wk_cherry_picked = []\<rparr>"
  obtain w where w: "walk_selectors env fr sels w0 = Some (Inr w)" "walked_names w = walked_names w0 \<union> selection env fr sels"
    using walk_selectors_names [OF assms, of w0] by blast
  have "walked_names w0 = {}" by (simp add: w0_def walked_names_def)
  with w(2) have "fst ` set (merge_changed_packages (merge_changed_packages (merge_changed_packages
      (merge_changed_packages [] (wk_dependencies w)) (wk_dependents w)) (wk_dependent_dependencies w)) (wk_cherry_picked w)) =
      selection env fr sels"
    by (simp add: merge_changed_packages_keys walked_names_def Un_assoc)
  then show ?thesis using w(1) unfolding filter_graph_with_selectors_def w0_def by simp
qed

lemma filter_graph_names:
  assumes ok: "package_graph_ok (fr_pkg_graph fr)" and d: "discover_spec (fe_discover env)"
    and matching: "all_match env fr sels"
  shows "\<exists>m. filter_graph env fr sels = Some (Inr m) \<and>
    fst ` set m =
      (if list_all ts_exclude sels then fst ` set (pg_packages (fr_pkg_graph fr)) - {RootPkg}
       else selection env fr (filter (\<lambda>t. \<not> ts_exclude t) sels)) - selection env fr (filter ts_exclude sels)"
proof -
  have matching': "all_match env fr (filter (\<lambda>t. \<not> ts_exclude t) sels)" "all_match env fr (filter ts_exclude sels)"
    using matching by (auto simp: all_match_def list_all_iff)
  obtain i where i: "filter_graph_with_selectors env fr (filter (\<lambda>t. \<not> ts_exclude t) sels) = Some (Inr i)"
    "fst ` set i = selection env fr (filter (\<lambda>t. \<not> ts_exclude t) sels)"
    using filter_graph_with_selectors_names [OF ok d matching'(1)] by blast
  obtain e where e: "filter_graph_with_selectors env fr (filter ts_exclude sels) = Some (Inr e)"
    "fst ` set e = selection env fr (filter ts_exclude sels)"
    using filter_graph_with_selectors_names [OF ok d matching'(2)] by blast
  have only: "filter (\<lambda>t. \<not> ts_exclude t) sels = [] \<longleftrightarrow> list_all ts_exclude sels"
    by (simp add: filter_empty_conv list_all_iff)
  have keys: "fst ` set (filter (\<lambda>(k, _). k \<notin> X) m) = fst ` set m - X" for X and m :: package_reasons
    by force
  have nonroot: "fst ` set (map (\<lambda>(name, _). (name, r)) (filter (\<lambda>(name, _). name \<noteq> RootPkg) ps)) =
      fst ` set ps - {RootPkg}" for r :: package_inclusion_reason and ps :: "(package_name \<times> package_info) list"
    by force
  show ?thesis
  proof (cases "list_all ts_exclude sels")
    case True
    then show ?thesis using only e(1) unfolding filter_graph_def Let_def
      by (simp add: keys e(2) nonroot del: set_map set_filter)
  next
    case False
    then show ?thesis using only e(1) i(1) unfolding filter_graph_def Let_def
      by (simp add: keys e(2) i(2) del: set_map set_filter)
  qed
qed

text \<open>
  C15: the packages a list of selectors keeps. When every selector matches without an error, the
  run resolves. With a selector that includes, a package is kept exactly when some such selector selects
  it and no selector that excludes does; with excluding selectors only, every package but the root one is
  kept unless a selector excludes it. A selector selects, for each package it matches, its dependencies,
  its dependents and their dependencies, and itself unless its flag leaves it out, as its flags ask. The
  dependents of a package the root depends on are all packages, that one among them: leaving it out
  with its flag has no effect then (\<open>excluded_self_kept\<close>), although the documentation says it does.
\<close>

theorem filter_graph_selection:
  assumes ok: "package_graph_ok (fr_pkg_graph fr)" and d: "discover_spec (fe_discover env)"
    and matching: "all_match env fr sels"
  shows "\<exists>m. filter_graph env fr sels = Some (Inr m) \<and>
    fst ` set m =
      (if list_all ts_exclude sels then fst ` set (pg_packages (fr_pkg_graph fr)) - {RootPkg}
       else selection env fr (filter (\<lambda>t. \<not> ts_exclude t) sels)) - selection env fr (filter ts_exclude sels)"
  by (rule filter_graph_names [OF assms])

subsection \<open>Matching\<close>

lemma filter_all_packages_set:
  "set (filter_all_packages fr) = insert RootPkg (fst ` set (pg_packages (fr_pkg_graph fr)))"
  by (simp add: filter_all_packages_def)

lemma match_package_names_sub:
  "match_package_names env pat all_pkgs ps = Inr m \<Longrightarrow> fst ` set m \<subseteq> fst ` set ps"
  by (auto simp: match_package_names_def Let_def split: sum.splits if_splits)

lemma hm_insert_either: "m' = m \<or> m' = hm_insert k v m \<Longrightarrow> fst ` set m' \<subseteq> insert k (fst ` set m)"
  by (elim disjE) (simp_all add: subset_insertI)

lemma keep_changed_sub:
  "keep_changed pg g ps acc = Inr m \<Longrightarrow> fst ` set m \<subseteq> fst ` set ps \<union> fst ` set acc"
proof (induction ps arbitrary: acc)
  case (Cons pr ps)
  obtain p r where pr: "pr = (p, r)" by (cases pr)
  obtain acc' where "keep_changed pg g ps acc' = Inr m" "acc' = acc \<or> acc' = hm_insert p r acc"
    using Cons.prems by (auto simp: pr split: option.splits if_splits)
  then have "fst ` set m \<subseteq> fst ` set ps \<union> fst ` set acc'" "fst ` set acc' \<subseteq> insert p (fst ` set acc)"
    using Cons.IH [of acc'] hm_insert_either [of acc' acc p r] by simp_all
  then show ?case by (simp add: pr) blast
qed simp

lemma subtree_hit_Some:
  "(\<exists>b. subtree_hit ex p deps cs = Some b) \<longleftrightarrow> (\<exists>c \<in> set cs. \<not> ex \<and> p = c \<or> WorkspaceNode c \<in> deps)"
  by (induction cs) auto

lemma subtree_hit_dependency:
  "subtree_hit ex p deps cs = Some True \<Longrightarrow> \<exists>c \<in> set cs. \<not> ex \<and> p = c \<or> WorkspaceNode c \<in> deps"
  using subtree_hit_Some by blast

text \<open>The packages that are changed, or that depend on something changed.\<close>

definition touched :: "package_graph \<Rightarrow> bool \<Rightarrow> package_name set \<Rightarrow> package_name \<Rightarrow> bool" where
  "touched pg exclude_self changed p \<longleftrightarrow>
     \<not> exclude_self \<and> p \<in> changed \<or> (\<exists>c \<in> changed. needs_package pg p c)"

lemma subtree_loop_names:
  assumes ok: "package_graph_ok pg" and d: "discover_spec discover"
    and "\<forall>p \<in> set matched. touched pg ex (set cs) p"
  shows "\<exists>m. subtree_loop discover pg ex cs ps matched roots = Some m \<and>
    fst ` set m = fst ` set roots \<union> {p \<in> fst ` set ps. touched pg ex (set cs) p}"
  using assms(3)
proof (induction ps arbitrary: matched roots)
  case (Cons pr ps)
  obtain p r where pr: "pr = (p, r)" by (cases pr)
  obtain deps where deps: "pg_dependencies discover pg (WorkspaceNode p) = Some deps"
    "\<And>q. WorkspaceNode q \<in> deps \<longleftrightarrow> needs_package pg p q"
    unfolding pg_dependencies_eq [OF ok d] by (auto simp: needs_package_def)
  have hit: "(\<exists>b. subtree_hit ex p deps cs = Some b) \<longleftrightarrow> touched pg ex (set cs) p"
    unfolding subtree_hit_Some touched_def deps(2) by blast
  show ?case
  proof (cases "touched pg ex (set cs) p")
    case True
    define matched' where "matched' = (if p \<in> set matched then matched
      else if subtree_hit ex p deps cs = Some True then p # matched else matched)"
    have "\<forall>p \<in> set matched'. touched pg ex (set cs) p" using Cons.prems True by (auto simp: matched'_def)
    moreover have "subtree_loop discover pg ex cs (pr # ps) matched roots =
        subtree_loop discover pg ex cs ps matched' (hm_insert p r roots)"
      using True hit by (auto simp: pr deps(1) matched'_def)
    ultimately show ?thesis using Cons.IH [of matched' "hm_insert p r roots"] True by (auto simp: pr)
  next
    case False
    with Cons.prems have "p \<notin> set matched" by blast
    moreover have "subtree_hit ex p deps cs = None" using False hit by (cases "subtree_hit ex p deps cs") auto
    ultimately have "subtree_loop discover pg ex cs (pr # ps) matched roots =
        subtree_loop discover pg ex cs ps matched roots"
      by (simp add: pr deps(1))
    then show ?thesis using Cons.IH [OF Cons.prems, of roots] False by (auto simp: pr)
  qed
qed simp

lemma subtree_loop_sub:
  "subtree_loop discover pg ex cs ps matched roots = Some m \<Longrightarrow> fst ` set m \<subseteq> fst ` set ps \<union> fst ` set roots"
proof (induction ps arbitrary: matched roots)
  case (Cons pr ps)
  obtain p r where pr: "pr = (p, r)" by (cases pr)
  obtain matched' roots' where "subtree_loop discover pg ex cs ps matched' roots' = Some m"
    "roots' = roots \<or> roots' = hm_insert p r roots"
    using Cons.prems by (auto simp: pr split: option.splits if_splits)
  then have "fst ` set m \<subseteq> fst ` set ps \<union> fst ` set roots'" "fst ` set roots' \<subseteq> insert p (fst ` set roots)"
    using Cons.IH [of matched' roots'] hm_insert_either [of roots' roots p r] by simp_all
  then show ?case by (simp add: pr) blast
qed simp

lemma subtree_entries_names:
  assumes "ts_parent_dir sel = None"
  shows "\<exists>m. subtree_entries env sel ps acc = Inr m \<and> fst ` set m = fst ` set acc \<union> fst ` set ps"
proof (induction ps arbitrary: acc)
  case (Cons p ps)
  obtain n i where "p = (n, i)" by (cases p)
  with Cons [of "hm_insert n (IncludedByFilter [ts_raw sel]) acc"] show ?case by (auto simp: assms)
qed simp

lemma subtree_entries_sub:
  "subtree_entries env sel ps acc = Inr m \<Longrightarrow> fst ` set m \<subseteq> fst ` set acc \<union> fst ` set ps"
proof (induction ps arbitrary: acc)
  case (Cons p ps)
  obtain n i where p: "p = (n, i)" by (cases p)
  obtain acc' r where "subtree_entries env sel ps acc' = Inr m" "acc' = acc \<or> acc' = hm_insert n r acc"
    using Cons.prems by (auto simp: p split: option.splits sum.splits if_splits)
  then have "fst ` set m \<subseteq> fst ` set acc' \<union> fst ` set ps" "fst ` set acc' \<subseteq> insert n (fst ` set acc)"
    using Cons.IH [of acc'] hm_insert_either [of acc' acc n r] by simp_all
  then show ?case by (simp add: p) blast
qed simp

text \<open>
  a selector of the form \<open>...[range]\<close>. Without a name and a directory it matches exactly the
  packages that were changed in the range (unless the package itself is excluded) and those that
  depend, directly or not, on one that was.
\<close>

theorem filter_subtrees_touched:
  assumes ok: "package_graph_ok (fr_pkg_graph fr)" and d: "discover_spec (fe_discover env)"
    and sel: "ts_match_dependencies sel" "ts_parent_dir sel = None" "ts_name_pattern sel = []" "ts_git_range sel = Some rg"
    and changed: "fr_changed fr rg = Some (Inr ch)"
  shows "\<exists>m. filter_graph_with_selector env fr sel = Some (Inr m) \<and>
    fst ` set m = {p \<in> fst ` set (pg_packages (fr_pkg_graph fr)).
      touched (fr_pkg_graph fr) (ts_exclude_self sel) (fst ` set ch) p}"
proof -
  obtain es where es: "subtree_entries env sel (pg_packages (fr_pkg_graph fr)) [] = Inr es"
    "fst ` set es = fst ` set (pg_packages (fr_pkg_graph fr))"
    using subtree_entries_names [OF sel(2), of env "pg_packages (fr_pkg_graph fr)" "[]"] by auto
  have "\<exists>m. subtree_loop (fe_discover env) (fr_pkg_graph fr) (ts_exclude_self sel) (map fst ch) es [] [] = Some m \<and>
      fst ` set m = {p \<in> fst ` set es. touched (fr_pkg_graph fr) (ts_exclude_self sel) (fst ` set ch) p}"
    using subtree_loop_names [OF ok d, of "[]" "ts_exclude_self sel" "map fst ch" es "[]"] by simp
  then show ?thesis
    using es sel changed by (auto simp: filter_graph_with_selector_def filter_subtrees_with_selector_def)
qed

subsection \<open>The contract of a change detector\<close>

definition known_packages :: "package_graph \<Rightarrow> package_name set" where
  "known_packages pg = insert RootPkg (fst ` set (pg_packages pg))"

lemma walk_selectors_all_match:
  "walk_selectors env fr sels w = Some (Inr w') \<Longrightarrow> all_match env fr sels"
  by (induction sels arbitrary: w) (auto simp: all_match_def split: option.splits sum.splits)

lemma filter_graph_all_match:
  assumes "filter_graph env fr sels = Some (Inr m)"
  shows "all_match env fr sels"
proof -
  have all: "filter_graph_with_selectors env fr ss = Some (Inr x) \<Longrightarrow> all_match env fr ss" for ss x
    by (auto simp: filter_graph_with_selectors_def try_bind_Inr dest: walk_selectors_all_match split: sum.splits)
  have "all_match env fr (filter ts_exclude sels)"
    using assms by (auto simp: filter_graph_def Let_def try_bind_Inr split: option.splits sum.splits dest: all)
  moreover have "all_match env fr (filter (\<lambda>t. \<not> ts_exclude t) sels)"
    using assms by (cases "filter (\<lambda>t. \<not> ts_exclude t) sels = []")
      (auto simp: filter_graph_def Let_def all_match_def split: option.splits sum.splits dest: all)
  ultimately show ?thesis by (auto simp: all_match_def list_all_iff)
qed

lemma selected_known:
  assumes "set (g_nodes (pg_graph pg)) \<subseteq> insert RootNode (WorkspaceNode ` known_packages pg)" and "p \<in> known_packages pg"
  shows "selected pg sel p \<subseteq> known_packages pg"
proof -
  have nodes: "WorkspaceNode q \<in> set (g_nodes (pg_graph pg)) \<Longrightarrow> q \<in> known_packages pg" for q using assms(1) by auto
  have "as_package_name ` set (g_nodes (pg_graph pg)) \<subseteq> known_packages pg"
    using image_mono [OF assms(1), of as_package_name] by (simp add: known_packages_def image_image)
  then have "dependents_of pg p \<subseteq> known_packages pg"
    using depends_on_node unfolding dependents_of_def by (auto split: if_splits) blast+
  moreover have "needs_package pg d q \<Longrightarrow> q \<in> known_packages pg" for d q
    using depends_on_node2 nodes unfolding needs_package_def by blast
  ultimately show ?thesis using assms(2) by (auto simp: selected_def split: if_splits)
qed

locale git_change_detector =
  fixes pg :: package_graph
    and changed :: "git_range \<Rightarrow> (resolution_error, package_reasons) result option"
  assumes changed_names: "changed rg = Some (Inr m) \<Longrightarrow> fst ` set m \<subseteq> known_packages pg"
begin

lemma changed_has_info:
  assumes "changed rg = Some (Inr m)"
  shows "\<exists>m'. keep_changed pg g m acc = Inr m'"
proof -
  have "fst ` set m \<subseteq> known_packages pg" by (rule changed_names [OF assms])
  then show ?thesis
  proof (induction m arbitrary: acc)
    case (Cons pr m)
    obtain p r where pr: "pr = (p, r)" by (cases pr)
    have "p = RootPkg \<or> (\<exists>i. hm_get (pg_packages pg) p = Some i)"
      using Cons.prems by (auto simp: pr known_packages_def) (metis fst_conv map_of_eq_None_iff not_None_eq image_eqI)
    then show ?case using Cons by (auto simp: pr split: option.splits)
  qed simp
qed

lemma node_entries_known:
  assumes "fr_pkg_graph fr = pg" and "fr_changed fr = changed" and run: "node_entries env fr sel g = Some (Inr (es, v))"
  shows "fst ` set es \<subseteq> known_packages pg"
proof (cases "ts_git_range sel")
  case (Some rg)
  with run assms obtain ch where "changed rg = Some (Inr ch)" "keep_changed pg g ch [] = Inr es"
    by (auto simp: node_entries_def try_bind_Inr split: option.splits)
  then show ?thesis using keep_changed_sub changed_names by fastforce
next
  case None
  then show ?thesis using run assms(1)
    by (auto simp: node_entries_def known_packages_def dest!: subsetD [OF hm_collect_subset] split: option.splits if_splits)
      (force)+
qed

lemma matches_known:
  assumes "fr_pkg_graph fr = pg" and "fr_changed fr = changed"
    and "filter_graph_with_selector env fr sel = Some (Inr m)"
  shows "fst ` set m \<subseteq> known_packages pg"
proof (cases "ts_match_dependencies sel")
  case True
  have all: "fst ` set (pg_packages pg) \<subseteq> known_packages pg" by (auto simp: known_packages_def)
  from True assms obtain es es' cs where "subtree_entries env sel (pg_packages pg) [] = Inr es"
    "es' = es \<or> match_package_names env (ts_name_pattern sel) (filter_all_packages fr) es = Inr es'"
    "subtree_loop (fe_discover env) pg (ts_exclude_self sel) cs es' [] [] = Some m"
    by (auto simp: filter_graph_with_selector_def filter_subtrees_with_selector_def try_bind_Inr
        split: if_splits option.splits sum.splits)
  then have "fst ` set m \<subseteq> fst ` set es'" "fst ` set es' \<subseteq> fst ` set es" "fst ` set es \<subseteq> fst ` set (pg_packages pg)"
    using subtree_entries_sub [of env sel "pg_packages pg" "[]" es]
      match_package_names_sub [of env "ts_name_pattern sel" "filter_all_packages fr" es es']
      subtree_loop_sub [of "fe_discover env" pg "ts_exclude_self sel" cs es' "[]" "[]" m] by auto
  then show ?thesis using all by blast
next
  case False
  from False assms(3) obtain g es v where es: "node_entries env fr sel g = Some (Inr (es, v))"
    "m = es \<or> (\<exists>ps. match_package_names env (ts_name_pattern sel) (filter_all_packages fr) ps = Inr m \<and>
       (ps = es \<or> ps = map (\<lambda>name. (name, IncludedByFilter [ts_raw sel])) (filter_all_packages fr)))"
    by (auto simp: filter_graph_with_selector_def filter_nodes_with_selector_def try_bind_Inr split: sum.splits if_splits)
  have "fst ` set (map (\<lambda>name. (name, IncludedByFilter [ts_raw sel])) (filter_all_packages fr)) = known_packages pg"
    using assms(1) by (simp add: image_image filter_all_packages_set known_packages_def)
  then show ?thesis
    using es(2) node_entries_known [OF assms(1,2) es(1)] match_package_names_sub by (metis order_trans order_refl)
qed

lemma resolve_known:
  assumes "fr_pkg_graph fr = pg" and "fr_changed fr = changed"
    and "package_graph_ok pg" and "discover_spec (fe_discover env)"
    and nodes: "set (g_nodes (pg_graph pg)) \<subseteq> insert RootNode (WorkspaceNode ` known_packages pg)"
    and "filter_resolve env fr affected patterns = Some (Inr (m, b))"
  shows "fst ` set m \<subseteq> known_packages pg"
proof -
  have sel: "selection env fr sels \<subseteq> known_packages pg" for sels
  proof -
    have "matches env fr x \<subseteq> known_packages pg" for x
      using matches_known [OF assms(1,2), of env x] unfolding matches_def by (simp split: option.splits sum.splits)
    then show ?thesis using selected_known [OF nodes] assms(1) unfolding selection_def by blast
  qed
  have graph: "filter_graph env fr sels = Some (Inr m) \<Longrightarrow> fst ` set m \<subseteq> known_packages pg" for sels
    using filter_graph_names [of fr env sels] filter_graph_all_match [of env fr sels m] sel assms(1,3,4)
    by (auto simp: known_packages_def split: if_splits)
  have nonroot: "fst ` set (map (\<lambda>(name, _). (name, r)) (filter (\<lambda>(name, _). name \<noteq> RootPkg) (pg_packages pg))) \<subseteq>
      known_packages pg" for r :: package_inclusion_reason
    by (force simp: known_packages_def)
  show ?thesis
  proof (cases "patterns = [] \<and> fr_inference fr = None \<and> affected = None")
    case True
    then show ?thesis using assms(6) nonroot [of "IncludedByFilter []"] by (simp add: filter_resolve_def assms(1) del: set_map)
  next
    case False
    then have "get_packages_from_patterns env fr affected patterns = Some (Inr m)"
      using assms(6) by (auto simp: filter_resolve_def try_bind_Inr)
    then show ?thesis using graph
      by (auto simp: get_packages_from_patterns_def get_filtered_packages_def Let_def split: sum.splits if_splits)
  qed
qed

end

lemma key_mem: "(a, b) \<in> S \<Longrightarrow> a \<in> fst ` S"
  by force

lemma default_detect_known:
  "default_detect_loop f ps = MapPackage p r \<Longrightarrow> p = workspace_package_root \<or> wp_name p \<in> fst ` set ps"
  by (induction ps rule: default_detect_loop.induct) (auto split: if_splits option.splits)

lemma detect_known:
  "global_deps_detect_package clean in_global pg f = MapPackage p r \<Longrightarrow> wp_name p \<in> known_packages pg"
  using default_detect_known [of f "pg_packages pg" p r]
  by (auto simp: global_deps_detect_package_def default_detect_package_def known_packages_def workspace_package_root_def
      split: if_splits package_mapping.splits)

lemma lockfile_changes_known:
  "changed_packages_from_lockfile resolve all_deps fuel has global pg = Some (Inr cs) \<Longrightarrow> c \<in> set cs \<Longrightarrow>
    wp_name (ec_package c) \<in> known_packages pg"
  by (auto simp: changed_packages_from_lockfile_def changed_closure_def workspace_package_of_def known_packages_def Let_def
      split: if_splits option.splits sum.splits) (metis key_mem)+

lemma changed_packages_known:
  assumes "changed_packages ign (global_deps_detect_package clean in_global pg) roots from_lockfile fs lc = Inr (SomeChanged m)"
    and "\<And>content cs c. from_lockfile content = Inr cs \<Longrightarrow> c \<in> set cs \<Longrightarrow> wp_name (ec_package c) \<in> known_packages pg"
  shows "wp_name ` fst ` set m \<subseteq> known_packages pg"
proof -
  obtain ignored m0 where m0: "get_changed_packages (global_deps_detect_package clean in_global pg) roots
      (filter (\<lambda>f. \<not> ignored f) fs) [] = SomeChanged m0" and
    m: "m = m0 \<or> (\<exists>content cs. from_lockfile content = Inr cs \<and> m = merge_changed_packages m0
       (map (\<lambda>c. (ec_package c, LockfileChanged (ec_removed c) (ec_added c))) cs))"
    using assms(1) by (auto simp: changed_packages_def split: option.splits sum.splits package_changes.splits)
  have new: "wp_name ` fst ` set m \<subseteq> wp_name ` fst ` set m0 \<union> known_packages pg"
    using m
  proof
    assume "\<exists>content cs. from_lockfile content = Inr cs \<and> m = merge_changed_packages m0
       (map (\<lambda>c. (ec_package c, LockfileChanged (ec_removed c) (ec_added c))) cs)"
    then obtain content cs where cs: "from_lockfile content = Inr cs" "fst ` set m = fst ` set m0 \<union> ec_package ` set cs"
      by (auto simp: merge_changed_packages_keys image_image)
    show ?thesis unfolding cs(2) using assms(2) [OF cs(1)] by blast
  qed simp
  have "wp_name p \<in> known_packages pg" if p: "p \<in> fst ` set m0" for p
  proof -
    have "fst ` set m0 = {p. \<exists>f \<in> set (filter (\<lambda>f. \<not> ignored f) fs). \<exists>r. global_deps_detect_package clean in_global pg f = MapPackage p r}"
      using get_changed_packages_Some [OF m0] by simp
    with p obtain f r where "global_deps_detect_package clean in_global pg f = MapPackage p r" by blast
    then show ?thesis by (rule detect_known)
  qed
  then have "wp_name ` fst ` set m0 \<subseteq> known_packages pg" by blast
  with new show ?thesis by blast
qed

lemma get_changed_from_lockfile_known:
  assumes "get_changed_packages_from_lockfile senv pg content = Some (Inr cs)" and "c \<in> set cs"
  shows "wp_name (ec_package c) \<in> known_packages pg"
proof -
  have sum: "map_sum f id x = Inr cs \<Longrightarrow> x = Inr cs" for f :: "changed_packages_error \<Rightarrow> change_map_error" and x
    by (cases x) auto
  show ?thesis using assms
    by (auto simp: get_changed_packages_from_lockfile_def split: sum.splits dest!: sum intro: lockfile_changes_known)
qed

interpretation scope_detector: git_change_detector pg "scope_changed_packages clean discover senv nrz_root pg"
proof
  fix rg m
  assume "scope_changed_packages clean discover senv nrz_root pg rg = Some (Inr m)"
  then consider (all) reason where "m = map (\<lambda>(name, _). (name, AllReason reason)) (pg_packages pg)"
    | (some) roots changes fs and lc :: "string option option" and ps where "changed_packages (se_ignored senv)
          (global_deps_detect_package clean (se_in_global_deps senv) pg) roots (\<lambda>_. changes) fs lc = Inr (SomeChanged ps)"
        "m = hm_collect (map (\<lambda>(p, reason). (wp_name p, reason)) ps)"
        "changes = Inr [] \<or> (\<exists>content. get_changed_packages_from_lockfile senv pg content = Some changes)"
    by (auto simp: scope_changed_packages_def Let_def split: sum.splits option.splits package_changes.splits) blast+
  then show "fst ` set m \<subseteq> known_packages pg"
  proof cases
    case all
    then show ?thesis by (auto simp: known_packages_def) force
  next
    case some
    have "wp_name ` fst ` set ps \<subseteq> known_packages pg"
    proof (rule changed_packages_known [OF some(1)])
      fix content :: string and cs c
      assume "changes = Inr cs" "c \<in> set cs"
      then show "wp_name (ec_package c) \<in> known_packages pg"
        using some(3) get_changed_from_lockfile_known by auto
    qed
    then show ?thesis by (simp add: some(2) hm_collect_keys image_image case_prod_unfold)
  qed
qed

text \<open>A package the root depends on counts as its own dependent, also when it is excluded.\<close>

lemma excluded_self_kept:
  assumes "ts_include_dependents sel" and "p \<noteq> RootPkg" and "depends_on pg root_package (WorkspaceNode p)"
  shows "p \<in> selected pg sel p"
  using assms depends_on_node2 [OF assms(3)] by (force simp: selected_def dependents_of_def)

subsection \<open>Resolving\<close>

lemma selected_plain:
  "\<not> ts_include_dependencies sel \<Longrightarrow> \<not> ts_include_dependents sel \<Longrightarrow> selected pg sel p = {p}"
  by (simp add: selected_def)

text \<open>
  whatever the filter patterns and the git range ask for, resolving never invents a package:
  with the code's own change detector, every package returned is the root package or a package of
  the workspace.
\<close>

theorem filter_resolve_known:
  assumes "package_graph_ok (fr_pkg_graph fr)" and "discover_spec (fe_discover env)"
    and "set (g_nodes (pg_graph (fr_pkg_graph fr))) \<subseteq> insert RootNode (WorkspaceNode ` known_packages (fr_pkg_graph fr))"
    and "fr_changed fr = scope_changed_packages (fe_clean env) (fe_discover env) senv (fr_nrz_root fr) (fr_pkg_graph fr)"
    and "filter_resolve env fr affected patterns = Some (Inr (m, is_all_packages))"
  shows "fst ` set m \<subseteq> known_packages (fr_pkg_graph fr)"
  by (rule scope_detector.resolve_known [OF refl assms(4,1,2,3,5)])

text \<open>
  with no pattern, no git range and no inference, all packages but the root are run. (The comment
  on the function says that none is.)
\<close>

theorem filter_resolve_all:
  assumes "fr_inference fr = None"
  shows "\<exists>m. filter_resolve env fr None [] = Some (Inr (m, True)) \<and>
    fst ` set m = fst ` set (pg_packages (fr_pkg_graph fr)) - {RootPkg}"
  using assms by (force simp: filter_resolve_def)

text \<open>
  invoked with no pattern inside the directory of a package, \<open>nrz\<close> runs that package only.
\<close>

theorem filter_resolve_inferred:
  assumes inference: "fr_inference fr = Some \<lparr>inf_package_name = Some name, inf_directory_root = dir\<rparr>"
    and name: "name \<noteq> []" "CHR ''*'' \<notin> set name" "OtherPkg name \<in> fst ` set (pg_packages (fr_pkg_graph fr))"
      "name \<noteq> ROOT_PKG_NAME"
    and ok: "package_graph_ok (fr_pkg_graph fr)" and d: "discover_spec (fe_discover env)"
  shows "\<exists>m. filter_resolve env fr None [] = Some (Inr (m, False)) \<and> fst ` set m = {OtherPkg name}"
proof -
  let ?sel = "target_selector_default\<lparr>ts_name_pattern := name\<rparr>"
  let ?ps = "map (\<lambda>n. (n, IncludedByFilter [ts_raw ?sel])) (filter_all_packages fr)"
  have glob: "simple_glob_new (fe_regex env) name = Inr (StringGlob name)"
    using name(2) by (auto simp: simple_glob_new_def)
  have hit: "glob_is_match (StringGlob name) (package_name_as_str e) \<longleftrightarrow> e = OtherPkg name" for e
    using name(4) by (auto simp: glob_is_match_def package_name_as_str_def split: package_name.splits)
  define m where "m = filter (\<lambda>(pkg, _). pkg = OtherPkg name) ?ps"
  have mem: "OtherPkg name \<in> set (filter_all_packages fr)" using name(3) by (simp add: filter_all_packages_set)
  then have "filter (\<lambda>e. e = OtherPkg name) (filter_all_packages fr) \<noteq> []" by (auto simp: filter_empty_conv)
  then have m: "match_package_names env name (filter_all_packages fr) ?ps = Inr m" "fst ` set m = {OtherPkg name}"
    using mem by (simp_all add: match_package_names_def glob hit m_def Let_def conj_commute cong: conj_cong) (force simp: m_def)
  have fg: "filter_graph_with_selector env fr ?sel = Some (Inr m)"
    using m(1) name(1) by (simp add: filter_graph_with_selector_def filter_nodes_with_selector_def node_entries_def
        parent_dir_globber_def target_selector_default_def)
  have plain: "selected pg ?sel p = {p}" for pg p by (simp add: selected_def target_selector_default_def)
  have "all_match env fr [?sel]" using fg by (simp add: all_match_def)
  moreover have "selection env fr [?sel] = {OtherPkg name}"
    by (simp add: selection_def matches_def fg m(2) plain)
  ultimately have "\<exists>m. filter_graph env fr [?sel] = Some (Inr m) \<and> fst ` set m = {OtherPkg name}"
    using filter_graph_names [OF ok d, of "[?sel]"] by (simp add: target_selector_default_def selection_def)
  moreover have "apply_inference (fe_clean env) fr [] = [?sel]"
    by (simp add: apply_inference_def inference inference_apply_def target_selector_default_def)
  ultimately show ?thesis
    by (auto simp: filter_resolve_def inference get_packages_from_patterns_def get_filtered_packages_def target_selector_default_def)
qed

subsection \<open>A small workspace\<close>

definition sample_info :: "string \<Rightarrow> package_info" where
  "sample_info path = \<lparr>pi_package_json = package_json_default, pi_package_json_path = path,
     pi_unresolved_external_dependencies = None, pi_transitive_dependencies = None\<rparr>"

definition sample_filter_graph :: package_graph where
  "sample_filter_graph = sample_package_graph\<lparr>pg_packages :=
     [(RootPkg, sample_info ''package.json''), (OtherPkg ''a'', sample_info ''a/package.json''),
      (OtherPkg ''b'', sample_info ''b/package.json'')]\<rparr>"

definition sample_filter_env :: filter_env where
  "sample_filter_env = \<lparr>fe_clean = id, fe_regex = (\<lambda>_. Inr (\<lambda>_. True)), fe_glob = (\<lambda>p. Inr (\<lambda>q. p = q)),
     fe_glob_base = id, fe_exists = (\<lambda>_. True), fe_discover = reach_discover\<rparr>"

definition sample_scm_env :: scm_env where
  "sample_scm_env = \<lparr>se_changed_files = (\<lambda>_. Inr (Inl (None, None))), se_previous_content = (\<lambda>_ _. None),
     se_parse_lockfile = (\<lambda>_. Inl []), se_package_manager = Npm, se_has_lockfile = False,
     se_in_global_deps = (\<lambda>_. False), se_ignored = Inr (\<lambda>_. False), se_fuel = 0\<rparr>"

definition sample_filter_resolver :: "package_inference option \<Rightarrow> filter_resolver" where
  "sample_filter_resolver inference = \<lparr>fr_pkg_graph = sample_filter_graph, fr_nrz_root = ''/r'', fr_inference = inference,
     fr_changed = scope_changed_packages id reach_discover sample_scm_env ''/r'' sample_filter_graph\<rparr>"

definition sample_range :: git_range where
  "sample_range = \<lparr>gr_from_ref = None, gr_to_ref = None, gr_include_uncommitted = True,
     gr_allow_unknown_objects = True, gr_merge_base = True\<rparr>"

lemma sample_filter_graph_ok: "package_graph_ok sample_filter_graph"
  using sample_package_graph_ok by (simp add: sample_filter_graph_def package_graph_ok_def)

lemma sample_resolver_graph [simp]: "fr_pkg_graph (sample_filter_resolver i) = sample_filter_graph"
  by (simp add: sample_filter_resolver_def)

lemma sample_discover: "discover_spec (fe_discover sample_filter_env)"
  using reach_discover_spec by (simp add: sample_filter_env_def)

lemma sample_resolver_ok: "package_graph_ok (fr_pkg_graph (sample_filter_resolver i))"
  using sample_filter_graph_ok by simp

lemma sample_filter_known:
  "known_packages sample_filter_graph = {RootPkg, OtherPkg ''a'', OtherPkg ''b''}"
  "set (g_nodes (pg_graph sample_filter_graph)) = insert RootNode (WorkspaceNode ` {RootPkg, OtherPkg ''a'', OtherPkg ''b''})"
  by (auto simp: known_packages_def sample_filter_graph_def sample_package_graph_def sample_package_nodes_def)

lemmas sample_filter_simps = sample_filter_graph_def sample_filter_env_def sample_filter_resolver_def sample_info_def
  target_selector_default_def filter_graph_with_selector_def filter_nodes_with_selector_def node_entries_def
  parent_dir_globber_def match_package_names_def simple_glob_new_def glob_is_match_def is_exact_def
  filter_all_packages_def package_name_as_str_def ROOT_PKG_NAME_def

definition sample_selectors :: "target_selector list" where
  "sample_selectors = [target_selector_default\<lparr>ts_name_pattern := ''*''\<rparr>,
     target_selector_default\<lparr>ts_name_pattern := ''a'', ts_exclude := True\<rparr>]"

lemma sample_selectors_match:
  "\<exists>m. filter_graph_with_selector sample_filter_env (sample_filter_resolver None) (sample_selectors ! 0) = Some (Inr m) \<and>
     fst ` set m = {RootPkg, OtherPkg ''a'', OtherPkg ''b''}"
  "\<exists>m. filter_graph_with_selector sample_filter_env (sample_filter_resolver None) (sample_selectors ! 1) = Some (Inr m) \<and>
     fst ` set m = {OtherPkg ''a''}"
  by (auto simp: sample_filter_simps sample_selectors_def)

theorem filter_graph_selection_witness:
  "\<exists>m. filter_graph sample_filter_env (sample_filter_resolver None) sample_selectors = Some (Inr m) \<and>
     fst ` set m = {RootPkg, OtherPkg ''b''}"
proof -
  have sels: "sample_selectors = [sample_selectors ! 0, sample_selectors ! 1]" by (simp add: sample_selectors_def)
  have flags: "\<not> ts_exclude (sample_selectors ! 0)" "ts_exclude (sample_selectors ! 1)"
    and plain: "selected pg (sample_selectors ! 0) p = {p}" "selected pg (sample_selectors ! 1) p = {p}" for pg p
    by (simp_all add: sample_selectors_def target_selector_default_def selected_plain)
  from sample_selectors_match(1)
  obtain m0 where m0: "filter_graph_with_selector sample_filter_env (sample_filter_resolver None) (sample_selectors ! 0) = Some (Inr m0)"
    "fst ` set m0 = {RootPkg, OtherPkg ''a'', OtherPkg ''b''}" by (elim exE conjE)
  from sample_selectors_match(2)
  obtain m1 where m1: "filter_graph_with_selector sample_filter_env (sample_filter_resolver None) (sample_selectors ! 1) = Some (Inr m1)"
    "fst ` set m1 = {OtherPkg ''a''}" by (elim exE conjE)
  note m = m0 m1
  have all: "all_match sample_filter_env (sample_filter_resolver None) sample_selectors"
    by (subst sels) (simp add: all_match_def m del: One_nat_def)
  have parts: "filter (\<lambda>t. \<not> ts_exclude t) sample_selectors = [sample_selectors ! 0]"
    "filter ts_exclude sample_selectors = [sample_selectors ! 1]"
    by (simp_all add: sample_selectors_def target_selector_default_def)
  have inc: "selection sample_filter_env (sample_filter_resolver None) (filter (\<lambda>t. \<not> ts_exclude t) sample_selectors) =
      {RootPkg, OtherPkg ''a'', OtherPkg ''b''}"
    and exc: "selection sample_filter_env (sample_filter_resolver None) (filter ts_exclude sample_selectors) = {OtherPkg ''a''}"
    unfolding parts by (simp_all add: selection_def matches_def m plain insert_commute del: One_nat_def)
  have "\<not> list_all ts_exclude sample_selectors" by (subst sels) (simp add: flags)
  with filter_graph_selection [OF sample_resolver_ok sample_discover all] show ?thesis
    unfolding inc exc by (simp add: insert_Diff_if)
qed

theorem filter_subtrees_touched_witness:
  "\<exists>m. filter_graph_with_selector sample_filter_env (sample_filter_resolver None)
       (target_selector_default\<lparr>ts_match_dependencies := True, ts_git_range := Some sample_range\<rparr>) = Some (Inr m) \<and>
     fst ` set m = {RootPkg, OtherPkg ''a'', OtherPkg ''b''}"
proof -
  obtain ch where ch: "fr_changed (sample_filter_resolver None) sample_range = Some (Inr ch)"
    "fst ` set ch = {RootPkg, OtherPkg ''a'', OtherPkg ''b''}"
    by (simp add: sample_filter_resolver_def scope_changed_packages_def sample_scm_env_def sample_filter_graph_def)
  have "{p \<in> fst ` set (pg_packages sample_filter_graph). touched sample_filter_graph False (fst ` set ch) p} =
      {RootPkg, OtherPkg ''a'', OtherPkg ''b''}"
    by (auto simp: ch(2) touched_def sample_filter_graph_def)
  then show ?thesis
    using filter_subtrees_touched [OF sample_resolver_ok sample_discover _ _ _ _ ch(1),
        of "target_selector_default\<lparr>ts_match_dependencies := True, ts_git_range := Some sample_range\<rparr>"]
    by (simp add: target_selector_default_def)
qed

theorem filter_resolve_known_witness:
  "\<exists>m. filter_resolve sample_filter_env (sample_filter_resolver None) (Some (None, None)) [] = Some (Inr (m, False)) \<and>
     fst ` set m \<subseteq> {RootPkg, OtherPkg ''a'', OtherPkg ''b''}"
proof -
  have aff: "affected_selector (None, None) = target_selector_default\<lparr>ts_git_range := Some sample_range, ts_include_dependents := True\<rparr>"
    by (simp add: affected_selector_def sample_range_def)
  have "\<exists>m. filter_graph_with_selector sample_filter_env (sample_filter_resolver None) (affected_selector (None, None)) = Some (Inr m)"
    by (simp add: aff sample_filter_simps scope_changed_packages_def sample_scm_env_def)
  then have "all_match sample_filter_env (sample_filter_resolver None) [affected_selector (None, None)]" by (simp add: all_match_def)
  then obtain m where m: "filter_graph sample_filter_env (sample_filter_resolver None) [affected_selector (None, None)] = Some (Inr m)"
    using filter_graph_names [OF sample_resolver_ok sample_discover] by blast
  have res: "filter_resolve sample_filter_env (sample_filter_resolver None) (Some (None, None)) [] = Some (Inr (m, False))"
    using m by (simp add: filter_resolve_def get_packages_from_patterns_def get_filtered_packages_def apply_inference_def
        sample_filter_resolver_def affected_selector_def target_selector_default_def)
  have "fst ` set m \<subseteq> known_packages sample_filter_graph"
    using filter_resolve_known [OF sample_resolver_ok sample_discover _ _ res, of sample_scm_env] sample_filter_known
    by (simp add: sample_filter_resolver_def sample_filter_env_def)
  with res show ?thesis unfolding sample_filter_known by blast
qed

theorem filter_resolve_all_witness:
  "\<exists>m. filter_resolve sample_filter_env (sample_filter_resolver None) None [] = Some (Inr (m, True)) \<and>
     fst ` set m = {OtherPkg ''a'', OtherPkg ''b''}"
  using filter_resolve_all [of "sample_filter_resolver None" sample_filter_env]
  by (simp add: sample_filter_resolver_def sample_filter_graph_def insert_Diff_if)

theorem filter_resolve_inferred_witness:
  "\<exists>m. filter_resolve sample_filter_env
       (sample_filter_resolver (Some \<lparr>inf_package_name = Some ''a'', inf_directory_root = ''a''\<rparr>)) None [] = Some (Inr (m, False)) \<and>
     fst ` set m = {OtherPkg ''a''}"
  using filter_resolve_inferred [of "sample_filter_resolver (Some \<lparr>inf_package_name = Some ''a'', inf_directory_root = ''a''\<rparr>)"
      "''a''" "''a''" sample_filter_env] sample_resolver_ok sample_discover
  by (simp add: sample_filter_resolver_def sample_filter_graph_def ROOT_PKG_NAME_def)

end
