(* ===== verification/Spec2Isabelle.thy ===== *)
theory Spec2Isabelle
  imports Async_Cache Task_Hash Loader Execute Npm_Lockfile Pnpm_Lockfile Yarn_Bun_Lockfile Task_Run Tui_Input Web_Ui Package_Graph_Builder Package_Filter
begin

text \<open>
  A verification of \<open>nrz\<close>, a task scheduler for JavaScript and TypeScript monorepos. This theory
  collects the development; the definitions and theorems are in the theories it imports, one for
  each part of the program.

  \<^bold>\<open>The program.\<close> A run of \<open>nrz\<close> discovers the packages of a repository and builds the package
  graph; package filters and the files changed in a git range choose the packages to run; the
  configuration files \<open>nrz.json\<close> give, for the tasks asked for, the graph of tasks; and an executor
  walks that graph, running as many tasks at a time as the concurrency allows. Lockfiles of the
  package manager tell what each package depends on outside the repository. The outputs of a task
  are kept under its key in a cache, on disk and at a remote service.

  \<^bold>\<open>Theories and sources\<close> (paths under \<open>src/crates\<close>).

  \<^item> \<open>Prelude\<close>: strings, results, hash maps and ordered maps of Rust's standard library.
  \<^item> \<open>Spanned\<close>, \<open>Task_Id\<close>: \<open>nrzrepo-errors/src/lib.rs\<close>, \<open>nrzrepo-lib/src/run/task_id.rs\<close>.
  \<^item> \<open>Paths\<close>: the lexical operations of \<open>nrzrepo-paths\<close>.
  \<^item> \<open>Graph_Utils\<close>, \<open>Walker\<close>: \<open>nrzrepo-graph-utils\<close>; closures, cycles and how to break them, and
    the concurrent walk as a labelled step relation.
  \<^item> \<open>Lockfiles\<close>, \<open>Npm_Lockfile\<close>, \<open>Pnpm_Lockfile\<close>, \<open>Yarn_Bun_Lockfile\<close>: \<open>nrzrepo-lockfiles\<close>. The
    trait \<open>Lockfile\<close> is the locale \<open>lockfile\<close>, extended by \<open>prunable_lockfile\<close>, interpreted for npm,
    pnpm, yarn and bun.
  \<^item> \<open>Package_Graph\<close>, \<open>Package_Graph_Builder\<close>: \<open>nrzrepo-repository/src/package_graph\<close>; the graph and
    its queries, which dependencies are internal, and its construction from the package files.
  \<^item> \<open>Change_Mapper\<close>: \<open>nrzrepo-repository/src/change_mapper\<close>; from changed files and a previous
    lockfile to changed packages.
  \<^item> \<open>Target_Selector\<close>, \<open>Package_Filter\<close>: \<open>nrzrepo-lib/src/run/scope\<close>; the language of filters and
    the packages they select. The trait \<open>GitChangeDetector\<close> is the locale \<open>git_change_detector\<close>,
    interpreted for \<open>ScopeChangeDetector\<close>.
  \<^item> \<open>Nrz_Json\<close>, \<open>Loader\<close>: \<open>nrzrepo-lib/src/nrz_json\<close>, \<open>task_graph/mod.rs\<close>, \<open>microfrontends.rs\<close>;
    merging, checking and loading task definitions.
  \<^item> \<open>Engine\<close>, \<open>Engine_Builder\<close>, \<open>Execute\<close>: \<open>nrzrepo-lib/src/engine\<close>; the task graph, its construction
    by a work list, and its execution as a step relation on top of the walker's.
  \<^item> \<open>Env\<close>, \<open>Task_Hash\<close>: \<open>nrzrepo-env\<close>, \<open>nrzrepo-lib/src/hash\<close>, \<open>task_hash.rs\<close>, \<open>framework.rs\<close>,
    \<open>run/global_hash.rs\<close>; wildcards over environment variables, and the keys of tasks in the cache.
  \<^item> \<open>File_System\<close>: the operations of \<open>std::fs\<close> on a tree with symbolic links, as \<open>nrzrepo-paths\<close> wraps
    them.
  \<^item> \<open>Api_Client\<close>: \<open>nrzrepo-api-client\<close>; requests to the service, retried, over an abstract network.
  \<^item> \<open>Cache_Config\<close>, \<open>Cache_Archive\<close>, \<open>Cache_Restore\<close>, \<open>Cache\<close>, \<open>Async_Cache\<close>: \<open>nrzrepo-cache\<close>; the
    option \<open>--cache\<close>, archives, what restoring them does (with the locale \<open>restoration\<close> for the
    invariants that every way to restore an entry keeps), signatures and the two caches, and the
    writes in the background as a step relation.
  \<^item> \<open>Task_Output\<close>: \<open>nrzrepo-ui/src/line.rs\<close>, \<open>prefixed.rs\<close>, \<open>logs.rs\<close>, \<open>output.rs\<close>; the writers a
    task prints through. The trait \<open>Write\<close> is the locale \<open>reliable_writer\<close>, extended by \<open>text_writer\<close>,
    interpreted for log files and for clients that group their output.
  \<^item> \<open>Run_Cache\<close>: \<open>nrzrepo-lib/src/run/cache.rs\<close>, \<open>task_graph/visitor/output.rs\<close>, \<open>nrzrepo-ui/src/sender.rs\<close>;
    restoring and saving the outputs of one task, and the messages shown for it.
  \<^item> \<open>Task_Command\<close>, \<open>Task_Run\<close>: \<open>nrzrepo-lib/src/task_graph/visitor\<close>, \<open>process/command.rs\<close>,
    \<open>run/summary/execution.rs\<close>, \<open>run/task_access.rs\<close>; what the visitor does with a task the executor
    sends it: its key, its command, its execution on every path, and the counts of the summary.
  \<^item> \<open>Tui_Tasks\<close>, \<open>Tui_App\<close>, \<open>Tui_Input\<close>: \<open>nrzrepo-ui/src/tui\<close>; the lists of tasks, their search and the
    sizes of the panes; the state of the terminal interface and its reaction to every event; the
    translation of keys, and the loop over events.
  \<^item> \<open>Web_Ui\<close>: \<open>nrzrepo-ui/src/wui\<close>; the state the web interface shows.

  \<^bold>\<open>How code is modelled.\<close> Structs are records, enums datatypes, \<open>Result\<close> a sum with the error on
  the left. A function that can panic, or that calls one, returns an option with \<open>None\<close> for the
  panic. A \<open>BTreeMap\<close> is a sorted association list, a \<open>HashMap\<close> an association list whose order
  stands for the iteration order, so what is proved holds for every order. Threads are step
  relations: every interleaving is a run. Input and output thread an explicit world: a file system,
  a network, a log of events. Code that is not in the repository (\<open>petgraph\<close>, git,
  regular expressions, globs, \<open>semver\<close>, JSON and YAML readers, \<open>path_clean\<close>, tar, zstd, keyed digests, the network) is a
  parameter, with its documented behaviour as a named hypothesis where a theorem needs it, and a
  concrete instance of it in the witnesses.

  \<^bold>\<open>Bounds and fuel.\<close> Depth first search (\<open>dfs\<close>) and the search for the edges that break a cycle
  have as much fuel as the graph has nodes and edges, which is proved to be enough. The work list
  of the engine builder is proved to end for every finite loader. The closure over a lockfile has
  fuel: one more than the packages of the lockfile is proved to be enough. The walk and the
  execution of a graph are bounded by a multiple of its size. Counters that can wrap (the
  concurrency check of \<open>Engine\<close>, the warnings of \<open>Async_Cache\<close>) are machine words. Following links
  while restoring has the depth of the stack as fuel, since the code recurses without a bound; where
  there are no links one level is proved to be enough. Resolving a path follows at most forty links,
  as the kernel does.

  \<^bold>\<open>What is proved.\<close>

  \<^item> The engine builder returns exactly the tasks that are needed, with exactly the edges the
    configuration asks for, or an error, and never loops (\<open>Engine_Builder\<close>).
  \<^item> The walk and the executor respect dependencies, visit each task at most once, keep to the
    concurrency, end, and do not get stuck (\<open>Walker\<close>, \<open>Execute\<close>).
  \<^item> Graph validation accepts exactly acyclic graphs, and the cut candidates it proposes are the
    minimum ones (\<open>Graph_Utils\<close>).
  \<^item> The engines of watch mode are the right parts of an engine; validation of an engine accepts
    exactly the runs that can make progress (\<open>Engine\<close>).
  \<^item> Merging, checking and pruning configuration keeps what it should; a repository with a single
    package gets the tasks of its file and of its scripts; the caching loader answers like one without
    a cache (\<open>Nrz_Json\<close>, \<open>Loader\<close>).
  \<^item> Lockfile closures are exactly what the dependencies lead to, and pruning a lockfile keeps
    them (\<open>Lockfiles\<close>, \<open>Npm_Lockfile\<close>, \<open>Pnpm_Lockfile\<close>, \<open>Yarn_Bun_Lockfile\<close>).
  \<^item> The package graph has the packages and edges its files describe, or two files with the same name
    are an error; comparing with an unchanged
    lockfile reports nothing (\<open>Package_Graph_Builder\<close>).
  \<^item> Filters select exactly the packages their parts describe, only known packages, and whatever a
    changed file belongs to (\<open>Package_Filter\<close>, \<open>Change_Mapper\<close>).
  \<^item> The key of a task does not depend on iteration orders, two tasks with the same key agree on
    everything that should be in it, and the environment of a task is the one its patterns describe
    (\<open>Env\<close>, \<open>Task_Hash\<close>).
  \<^item> Files put into the local cache come back; restoring stays below its anchor when there are no
    links, and always leaves a tree; nothing is restored from a remote response whose signature is
    not valid; no write in the background is lost, and waiting and shutting down wait for all of them,
    but for a request that comes after a shutdown (\<open>Cache_Restore\<close>, \<open>Cache\<close>, \<open>Async_Cache\<close>).
  \<^item> Grouped output of concurrent tasks is never mixed, and a replayed log shows what the run showed, and
    an unfinished last line (\<open>Task_Output\<close>).
  \<^item> A task is executed to one answer for the executor and one entry in the summary, on every path; it
    reads and writes the cache only under its key and only when it may, and its process sees exactly
    the variables it should, those of \<open>nrz\<close> itself if it is the proxy of micro frontends (\<open>Run_Cache\<close>, \<open>Task_Command\<close>, \<open>Task_Run\<close>).
  \<^item> The terminal interface always highlights a task it has, and its lists implement a map from tasks to
    their states. With an emulator that works on panes of two rows and columns, and a terminal of four or
    more, it never panics but on the function key zero and those beyond the twelfth. The web interface shows
    the whole output of a task (\<open>Tui_Tasks\<close>, \<open>Tui_App\<close>, \<open>Tui_Input\<close>, \<open>Web_Ui\<close>).
  \<^item> The token is sent only where it may be; a request is sent again only when the connection failed,
    and at most once (\<open>Api_Client\<close>).
  \<^item> Parsing and printing of ids, names and selectors are inverse; relative paths resolve to what
    they name (\<open>Task_Id\<close>, \<open>Target_Selector\<close>, \<open>Paths\<close>).

  \<^bold>\<open>Not modelled.\<close> The command line, the daemon, the language server, the updater, login and
  telemetry are glue around services and the operating system. Globs (\<open>nrzrepo-wax\<close>,
  \<open>nrzrepo-globwalk\<close>) and the terminal emulator (\<open>nrzrepo-vt100\<close>) are forks of other projects'
  libraries. The emulator is a parameter of the terminal interface whose operations may panic; the layout of
  the interface's widgets is left out with it. File watching and child processes depend on the operating system's events. Reading configuration files
  is done by parser libraries.
\<close>

end
